(* ===== verification/Prelude.thy ===== *)
theory Prelude
  imports Complex_Main "HOL-Library.Multiset" "HOL-Library.Finite_Map"
    "HOL-Library.List_Lexorder" "HOL-Library.Char_ord"
begin

text \<open>
  What every component of the development shares.

  \<^item> JavaScript values: a string is a HOL \<open>string\<close> compared lexicographically by
    character code (HOL-Library's \<open>List_Lexorder\<close> over \<open>Char_ord\<close>), an optional field
    is an \<open>option\<close>, an object used as a dictionary is an \<open>fmap\<close> (or an association
    list where the insertion order is observable), a number that the code only ever
    treats as an integer is an \<open>int\<close>, and a number that may be fractional or
    non-finite is a \<open>jsnum\<close>.
  \<^item> The array operations the code uses: \<open>sort\<close> with a comparator (stable, so an
    insertion sort is the same function), \<open>find\<close>, \<open>findIndex\<close>.
  \<^item> The interface \<open>preorder_comparator\<close> / \<open>total_comparator\<close>: what a comparison
    function must satisfy for sorting to be a function of the data alone. The clock, the
    sibling order and the comment order are its interpretations.
\<close>

named_theorems js_simps \<open>evaluation rules of the JavaScript helpers\<close>
named_theorems invs \<open>invariant preservation lemmas, by operation\<close>

section \<open>Optional values\<close>

text \<open>\<open>a ?? b\<close>, on two optional values.\<close>

definition or_else :: "'a option \<Rightarrow> 'a option \<Rightarrow> 'a option" where
  "or_else a b = (case a of None \<Rightarrow> b | Some x \<Rightarrow> Some x)"

lemma or_else_simps [simp, js_simps]:
  "or_else None b = b" "or_else (Some x) b = Some x" "or_else a None = a"
  by (auto simp: or_else_def split: option.splits)

text \<open>
  A string literal of the code is the list of its UTF-8 bytes, so a character outside ASCII
  is several \<open>char\<close>s. The em dash of the messages:
\<close>

definition em_dash :: string where
  "em_dash = [CHR 0xE2, CHR 0x80, CHR 0x94]"

definition ellipsis :: string where
  "ellipsis = [CHR 0xE2, CHR 0x80, CHR 0xA6]"

text \<open>The typographic apostrophe.\<close>

definition right_quote :: string where
  "right_quote = [CHR 0xE2, CHR 0x80, CHR 0x99]"

text \<open>JavaScript truthiness of an optional string: present and not empty.\<close>

definition truthy :: "string option \<Rightarrow> bool" where
  "truthy s = (case s of None \<Rightarrow> False | Some t \<Rightarrow> t \<noteq> [])"

lemma truthy_simps [simp, js_simps]:
  "truthy None = False" "truthy (Some t) = (t \<noteq> [])"
  by (simp_all add: truthy_def)

text \<open>
  \<open>String.prototype.trim\<close>, for the ASCII white space: tab, line feed, vertical tab, form
  feed, carriage return and space.
\<close>

definition js_space :: "char \<Rightarrow> bool" where
  "js_space c \<longleftrightarrow> (of_char c :: nat) \<in> {9, 10, 11, 12, 13, 32}"

definition js_trim :: "string \<Rightarrow> string" where
  "js_trim s = rev (dropWhile js_space (rev (dropWhile js_space s)))"

definition starts_with :: "string \<Rightarrow> string \<Rightarrow> bool" where
  "starts_with pre s \<longleftrightarrow> take (length pre) s = pre"

section \<open>Numbers\<close>

text \<open>
  A JavaScript number as the code inspects it: \<open>Number.isFinite\<close> separates the
  finite values from \<open>NaN\<close> and the infinities. Finite values are exact rationals: the
  rounding of double-precision arithmetic is not modelled.
\<close>

datatype jsnum = Fin rat | NonFinite

definition js_round :: "rat \<Rightarrow> int" where
  "js_round q = \<lfloor>q + 1 / 2\<rfloor>"

lemma js_round_of_int [simp, js_simps]: "js_round (of_int n) = n"
proof -
  have "\<lfloor>(of_int n + 1 / 2 :: rat)\<rfloor> = n"
    by (rule floor_unique) auto
  then show ?thesis by (simp add: js_round_def)
qed

lemma js_round_mono: "p \<le> q \<Longrightarrow> js_round p \<le> js_round q"
  by (simp add: js_round_def floor_mono)

lemma js_round_ge_int: "of_int n \<le> q \<Longrightarrow> n \<le> js_round q"
  using js_round_mono [of "of_int n" q] by simp

text \<open>\<open>String(n)\<close> for an integer.\<close>

fun digits_of :: "nat \<Rightarrow> string" where
  "digits_of n =
     (if n < 10 then [char_of (48 + n)]
      else digits_of (n div 10) @ [char_of (48 + n mod 10)])"

declare digits_of.simps [simp del]

definition show_int :: "int \<Rightarrow> string" where
  "show_int i = (if i < 0 then ''-'' @ digits_of (nat (- i)) else digits_of (nat i))"

text \<open>
  \<open>new Date(ms).toISOString()\<close>: the proleptic Gregorian calendar, years outside 0 to 9999
  with a sign and six digits.
\<close>

definition pad_left :: "nat \<Rightarrow> string \<Rightarrow> string" where
  "pad_left n s = replicate (n - length s) (CHR ''0'') @ s"

definition civil_of_days :: "int \<Rightarrow> int \<times> int \<times> int" where
  "civil_of_days days =
     (let z = days + 719468;
          era = z div 146097;
          doe = z mod 146097;
          yoe = (doe - doe div 1460 + doe div 36524 - doe div 146096) div 365;
          doy = doe - (365 * yoe + yoe div 4 - yoe div 100);
          mp = (5 * doy + 2) div 153;
          d = doy - (153 * mp + 2) div 5 + 1;
          m = (if mp < 10 then mp + 3 else mp - 9)
      in (yoe + era * 400 + (if m \<le> 2 then 1 else 0), m, d))"

definition iso_year :: "int \<Rightarrow> string" where
  "iso_year y =
     (if 0 \<le> y \<and> y \<le> 9999 then pad_left 4 (digits_of (nat y))
      else (if y < 0 then ''-'' else ''+'') @ pad_left 6 (digits_of (nat \<bar>y\<bar>)))"

definition iso_of_ms :: "int \<Rightarrow> string" where
  "iso_of_ms ms =
     (let (y, m, d) = civil_of_days (ms div 86400000);
          t = nat (ms mod 86400000)
      in iso_year y @ ''-'' @ pad_left 2 (digits_of (nat m)) @ ''-'' @ pad_left 2 (digits_of (nat d)) @ ''T''
         @ pad_left 2 (digits_of (t div 3600000)) @ '':'' @ pad_left 2 (digits_of (t div 60000 mod 60)) @ '':''
         @ pad_left 2 (digits_of (t div 1000 mod 60)) @ ''.'' @ pad_left 3 (digits_of (t mod 1000)) @ ''Z'')"

section \<open>Untyped values\<close>

text \<open>
  A value the code receives as \<open>unknown\<close>: what \<open>JSON.parse\<close> can produce, and
  \<open>undefined\<close> for a property that is not there.
\<close>

datatype js =
    JUndefined
  | JNull
  | JBool bool
  | JNum jsnum
  | JStr string
  | JArr "js list"
  | JObj "(string \<times> js) list"

definition js_get :: "js \<Rightarrow> string \<Rightarrow> js" where
  "js_get v field =
     (case v of
        JObj fields \<Rightarrow> (case map_of fields field of Some x \<Rightarrow> x | None \<Rightarrow> JUndefined)
      | _ \<Rightarrow> JUndefined)"

text \<open>\<open>v && typeof v === 'object' && !Array.isArray(v)\<close>.\<close>

fun js_is_record :: "js \<Rightarrow> bool" where
  "js_is_record (JObj _) = True"
| "js_is_record _ = False"

section \<open>Lists\<close>

text \<open>\<open>Array.prototype.find\<close> and \<open>findIndex\<close>.\<close>

fun find_index :: "('a \<Rightarrow> bool) \<Rightarrow> 'a list \<Rightarrow> nat option" where
  "find_index P [] = None"
| "find_index P (x # xs) = (if P x then Some 0 else map_option Suc (find_index P xs))"

lemma find_index_Some:
  "find_index P xs = Some i \<Longrightarrow> i < length xs \<and> P (xs ! i)"
  by (induction xs arbitrary: i) (auto split: if_splits)

lemma find_index_least:
  "find_index P xs = Some i \<Longrightarrow> j < i \<Longrightarrow> \<not> P (xs ! j)"
proof (induction xs arbitrary: i j)
  case Nil
  then show ?case by simp
next
  case (Cons x xs)
  then show ?case by (cases j) (auto split: if_splits)
qed

lemma find_index_None: "find_index P xs = None \<longleftrightarrow> (\<forall>x \<in> set xs. \<not> P x)"
  by (induction xs) auto

text \<open>\<open>Array.prototype.includes\<close>-based first-occurrence deduplication (\<open>new Set\<close>).\<close>

fun dedupe :: "'a list \<Rightarrow> 'a list" where
  "dedupe [] = []"
| "dedupe (x # xs) = x # filter (\<lambda>y. y \<noteq> x) (dedupe xs)"

lemma set_dedupe [simp]: "set (dedupe xs) = set xs"
  by (induction xs) auto

lemma distinct_dedupe [simp]: "distinct (dedupe xs)"
  by (induction xs) (auto intro: distinct_filter)

text \<open>The last \<open>n\<close> elements: \<open>xs.slice(-n)\<close> for a positive \<open>n\<close>.\<close>

definition take_last :: "nat \<Rightarrow> 'a list \<Rightarrow> 'a list" where
  "take_last n xs = drop (length xs - n) xs"

lemma length_take_last [simp]: "length (take_last n xs) = min n (length xs)"
  by (simp add: take_last_def)

lemma set_take_last: "set (take_last n xs) \<subseteq> set xs"
  by (simp add: take_last_def set_drop_subset)

lemma last_in_take_last: "xs \<noteq> [] \<Longrightarrow> 0 < n \<Longrightarrow> last xs \<in> set (take_last n xs)"
  by (metis length_greater_0_conv length_take_last last_drop last_in_set min_less_iff_conj
      take_last_def diff_less)

section \<open>Sorting with a comparator\<close>

fun insert_by :: "('a \<Rightarrow> 'a \<Rightarrow> int) \<Rightarrow> 'a \<Rightarrow> 'a list \<Rightarrow> 'a list" where
  "insert_by cmp x [] = [x]"
| "insert_by cmp x (y # ys) = (if cmp x y \<le> 0 then x # y # ys else y # insert_by cmp x ys)"

definition sort_by :: "('a \<Rightarrow> 'a \<Rightarrow> int) \<Rightarrow> 'a list \<Rightarrow> 'a list" where
  "sort_by cmp xs = foldr (insert_by cmp) xs []"

lemma sort_by_simps [simp, js_simps]:
  "sort_by cmp [] = []"
  "sort_by cmp (x # xs) = insert_by cmp x (sort_by cmp xs)"
  by (simp_all add: sort_by_def)

lemma mset_insert_by [simp]: "mset (insert_by cmp x xs) = add_mset x (mset xs)"
  by (induction xs) auto

lemma mset_sort_by [simp]: "mset (sort_by cmp xs) = mset xs"
  by (induction xs) auto

lemma set_sort_by [simp]: "set (sort_by cmp xs) = set xs"
  by (metis mset_sort_by set_mset_mset)

lemma length_sort_by [simp]: "length (sort_by cmp xs) = length xs"
  by (metis mset_sort_by size_mset)

lemma distinct_sort_by [simp]: "distinct (sort_by cmp xs) = distinct xs"
  by (metis mset_sort_by mset_eq_imp_distinct_iff)

lemma sorted_wrt_unique:
  assumes "mset xs = mset ys" "sorted_wrt R xs" "sorted_wrt R ys"
    and "\<And>a b. a \<in> set xs \<Longrightarrow> b \<in> set xs \<Longrightarrow> R a b \<Longrightarrow> R b a \<Longrightarrow> a = b"
  shows "xs = ys"
  using assms
proof (induction xs arbitrary: ys)
  case Nil
  then show ?case by simp
next
  case (Cons x xs)
  then obtain y ys' where ys: "ys = y # ys'" by (cases ys) auto
  have "x = y"
  proof (rule ccontr)
    assume ne: "x \<noteq> y"
    have "y \<in> set (x # xs)" "x \<in> set ys"
      using Cons.prems(1) ys by (metis list.set_intros(1) mset_eq_setD)+
    with ne ys have "y \<in> set xs" "x \<in> set ys'" by auto
    with Cons.prems ys have "R x y" "R y x" by auto
    with Cons.prems(4) \<open>y \<in> set xs\<close> ne show False by auto
  qed
  moreover have "xs = ys'"
    using Cons.prems ys \<open>x = y\<close> by (intro Cons.IH) auto
  ultimately show ?case using ys by simp
qed

lemma sorted_wrt_last: "sorted_wrt R xs \<Longrightarrow> x \<in> set xs \<Longrightarrow> x = last xs \<or> R x (last xs)"
  by (induction xs) auto

locale preorder_comparator =
  fixes cmp :: "'a \<Rightarrow> 'a \<Rightarrow> int"
  assumes cmp_swap: "cmp a b < 0 \<longleftrightarrow> 0 < cmp b a"
    and cmp_trans: "cmp a b \<le> 0 \<Longrightarrow> cmp b c \<le> 0 \<Longrightarrow> cmp a c \<le> 0"
begin

lemma cmp_total: "\<not> cmp a b \<le> 0 \<Longrightarrow> cmp b a \<le> 0"
  using cmp_swap [of b a] by simp

lemma cmp_refl: "cmp a a = 0"
  using cmp_swap [of a a] by arith

lemma cmp_sorted_insert_by:
  "sorted_wrt (\<lambda>a b. cmp a b \<le> 0) xs \<Longrightarrow> sorted_wrt (\<lambda>a b. cmp a b \<le> 0) (insert_by cmp x xs)"
proof (induction xs)
  case Nil
  then show ?case by simp
next
  case (Cons y ys)
  show ?case
  proof (cases "cmp x y \<le> 0")
    case True
    with Cons.prems show ?thesis by (auto intro: cmp_trans)
  next
    case False
    then have "cmp y x \<le> 0" by (rule cmp_total)
    moreover have "set (insert_by cmp x ys) = insert x (set ys)"
      by (metis mset_insert_by set_mset_add_mset_insert set_mset_mset)
    ultimately show ?thesis using False Cons by auto
  qed
qed

lemma cmp_sorted_sort_by: "sorted_wrt (\<lambda>a b. cmp a b \<le> 0) (sort_by cmp xs)"
  by (induction xs) (auto intro: cmp_sorted_insert_by)

text \<open>
  Two lists with the same elements sort to the same list when elements that compare equal
  are equal: the result depends on the data, not on the order the data arrived in.
\<close>

lemma cmp_sort_by_unique:
  assumes "mset xs = mset ys"
    and "\<And>a b. a \<in> set xs \<Longrightarrow> b \<in> set xs \<Longrightarrow> cmp a b = 0 \<Longrightarrow> a = b"
  shows "sort_by cmp xs = sort_by cmp ys"
proof (rule sorted_wrt_unique [where R = "\<lambda>a b. cmp a b \<le> 0"])
  show "mset (sort_by cmp xs) = mset (sort_by cmp ys)" using assms(1) by simp
  show "sorted_wrt (\<lambda>a b. cmp a b \<le> 0) (sort_by cmp xs)" by (rule cmp_sorted_sort_by)
  show "sorted_wrt (\<lambda>a b. cmp a b \<le> 0) (sort_by cmp ys)" by (rule cmp_sorted_sort_by)
  fix a b
  assume "a \<in> set (sort_by cmp xs)" "b \<in> set (sort_by cmp xs)" "cmp a b \<le> 0" "cmp b a \<le> 0"
  moreover from this have "cmp a b = 0" using cmp_swap [of a b] by arith
  ultimately show "a = b" using assms(2) by simp
qed

end

locale total_comparator = preorder_comparator +
  assumes cmp_eq: "cmp a b = 0 \<Longrightarrow> a = b"
begin

lemma cmp_zero_iff: "cmp a b = 0 \<longleftrightarrow> a = b"
  using cmp_eq cmp_refl by blast

lemma cmp_pos_trans: "0 < cmp a b \<Longrightarrow> 0 < cmp b c \<Longrightarrow> 0 < cmp a c"
proof -
  assume ab: "0 < cmp a b" and bc: "0 < cmp b c"
  have "cmp c b \<le> 0" "cmp b a \<le> 0"
    using ab bc cmp_swap [of b a] cmp_swap [of c b] by auto
  then have ca: "cmp c a \<le> 0" by (rule cmp_trans)
  have "cmp a c \<noteq> 0"
  proof
    assume "cmp a c = 0"
    then have "a = c" by (rule cmp_eq)
    with ab bc show False using cmp_swap [of c b] by simp
  qed
  with ca show "0 < cmp a c" using cmp_swap [of c a] cmp_eq [of c a] cmp_refl [of a]
    by (cases "cmp c a = 0") auto
qed

lemma cmp_linear: "0 < cmp a b \<or> a = b \<or> 0 < cmp b a"
  using cmp_swap [of a b] cmp_eq [of a b] by arith

lemma cmp_asym: "0 < cmp a b \<Longrightarrow> \<not> 0 < cmp b a"
  using cmp_swap [of b a] by simp

lemma cmp_sort_by_perm: "mset xs = mset ys \<Longrightarrow> sort_by cmp xs = sort_by cmp ys"
  by (rule cmp_sort_by_unique) (auto dest: cmp_eq)

end

text \<open>A comparator on a key of the elements.\<close>

lemma preorder_comparator_key:
  assumes "preorder_comparator cmp"
  shows "preorder_comparator (\<lambda>a b. cmp (f a) (f b))"
proof -
  show ?thesis
    using assms unfolding preorder_comparator_def by blast
qed

section \<open>Merging replicas\<close>

text \<open>
  The interface of a merge that converges: idempotent, commutative and associative. What a
  replica holds after merging any sequence of versions then depends only on which versions
  it has seen, not on their order or on redeliveries.
\<close>

locale merge_semilattice =
  fixes merge :: "'a \<Rightarrow> 'a \<Rightarrow> 'a"
  assumes merge_idem: "merge a a = a"
    and merge_comm: "merge a b = merge b a"
    and merge_assoc: "merge (merge a b) c = merge a (merge b c)"
begin

lemma merge_left_comm: "merge a (merge b c) = merge b (merge a c)"
  by (metis merge_assoc merge_comm)

lemma merge_left_idem: "merge a (merge a b) = merge a b"
  by (metis merge_assoc merge_idem)

lemma merge_fold_set: "set xs = set ys \<Longrightarrow> fold merge xs a = fold merge ys a"
proof -
  have "comp_fun_idem_on UNIV merge"
    by (unfold_locales) (auto simp: fun_eq_iff merge_left_comm merge_left_idem)
  then show "set xs = set ys \<Longrightarrow> fold merge xs a = fold merge ys a"
    using comp_fun_idem_on.fold_set_fold [of UNIV merge _ a] by (metis subset_UNIV)
qed

lemma merge_fold_redelivery: "x \<in> set xs \<Longrightarrow> merge x (fold merge xs a) = fold merge xs a"
  using merge_fold_set [of "xs @ [x]" xs a] by auto

end

section \<open>Dictionaries\<close>

text \<open>
  The union of two dictionaries' keys, each key merged by a function of what the two sides
  hold (\<open>None\<close> where a side has no entry): the loop
  \<open>for (const key of new Set([...Object.keys(a), ...Object.keys(b)]))\<close>.
\<close>

definition fm_merge ::
  "('k \<Rightarrow> 'a option \<Rightarrow> 'a option \<Rightarrow> 'a option) \<Rightarrow> ('k, 'a) fmap \<Rightarrow> ('k, 'a) fmap \<Rightarrow> ('k, 'a) fmap"
where
  "fm_merge f m n =
     (let pick = (\<lambda>k. f k (fmlookup m k) (fmlookup n k));
          keep = fmfilter (\<lambda>k. pick k \<noteq> None)
      in fmmap_keys (\<lambda>k _. the (pick k)) (keep m) ++\<^sub>f fmmap_keys (\<lambda>k _. the (pick k)) (keep n))"

lemma fmlookup_fm_merge [simp, js_simps]:
  "fmlookup (fm_merge f m n) k =
     (if fmlookup m k = None \<and> fmlookup n k = None then None
      else f k (fmlookup m k) (fmlookup n k))"
  by (auto simp: fm_merge_def Let_def fmdom_notI fmlookup_dom_iff split: option.splits)

text \<open>\<open>Object.values\<close>, in ascending order of the keys.\<close>

definition fm_values :: "(string, 'a) fmap \<Rightarrow> 'a list" where
  "fm_values m = map snd (sorted_list_of_fmap m)"

end
