(* ===== verification/HybridClock.thy ===== *)
theory HybridClock
  imports Prelude
begin

text \<open>
  The hybrid logical clock of \<open>packages/core/src/sync/hybridClock.ts\<close>: the stamp, its
  total order, stamping a local event, absorbing a peer's stamp, and the skew notice.
  The order is an interpretation of the prelude's \<open>total_comparator\<close>, from which the
  merge rules take their facts. The second half puts the clock in its environment: a
  fleet of devices that edit and exchange stamps, and the causality the clock promises.
  \<open>physical\<close> and \<open>logical\<close> are the integers the code keeps in JavaScript numbers.
\<close>

record hlc =
  physical :: int
  logical :: int
  deviceId :: string

definition hlcZero :: "string \<Rightarrow> hlc" where
  "hlcZero d = \<lparr>physical = 0, logical = 0, deviceId = d\<rparr>"

definition compareHlc :: "hlc \<Rightarrow> hlc \<Rightarrow> int" where
  "compareHlc a b =
     (if physical a \<noteq> physical b then (if physical a < physical b then -1 else 1)
      else if logical a \<noteq> logical b then (if logical a < logical b then -1 else 1)
      else if deviceId a = deviceId b then 0
      else (if deviceId a < deviceId b then -1 else 1))"

definition hlcAfter :: "hlc \<Rightarrow> hlc \<Rightarrow> bool" where
  "hlcAfter a b = (compareHlc a b > 0)"

definition hlcConcurrent :: "hlc \<Rightarrow> hlc \<Rightarrow> bool" where
  "hlcConcurrent a b =
     (physical a = physical b \<and> logical a = logical b \<and> deviceId a \<noteq> deviceId b)"

definition hlcNow :: "hlc \<Rightarrow> int \<Rightarrow> hlc" where
  "hlcNow previous wallClockMs =
     (let ph = max (physical previous) wallClockMs;
          lg = (if ph = physical previous then logical previous + 1 else 0)
      in \<lparr>physical = ph, logical = lg, deviceId = deviceId previous\<rparr>)"

definition hlcReceive :: "hlc \<Rightarrow> hlc \<Rightarrow> int \<Rightarrow> hlc" where
  "hlcReceive loc remote wallClockMs =
     (let ph = max (max (physical loc) (physical remote)) wallClockMs;
          lg = (if ph = physical loc \<and> ph = physical remote
                then max (logical loc) (logical remote) + 1
                else if ph = physical loc then logical loc + 1
                else if ph = physical remote then logical remote + 1
                else 0)
      in \<lparr>physical = ph, logical = lg, deviceId = deviceId loc\<rparr>)"

definition clockSkewMs :: "hlc \<Rightarrow> hlc \<Rightarrow> int" where
  "clockSkewMs loc remote = max 0 (physical remote - physical loc)"

definition NOTABLE_SKEW_MS :: int where
  "NOTABLE_SKEW_MS = 5 * 60 * 1000"

definition describeSkew :: "int \<Rightarrow> string option" where
  "describeSkew skewMs =
     (if skewMs < NOTABLE_SKEW_MS then None
      else let minutes = js_round (of_int skewMs / 60000)
        in Some (''Another device's clock is about '' @ show_int minutes @ '' minute''
             @ (if minutes = 1 then '''' else ''s'') @ '' ahead of this one. ''
             @ ''Ordering is still correct, but items from it will look like they were edited slightly in the future.''))"

section \<open>The order\<close>

lemma compareHlc_cases:
  "compareHlc a b = -1 \<or> compareHlc a b = 0 \<or> compareHlc a b = 1"
  by (simp add: compareHlc_def)

lemma compareHlc_pos:
  "0 < compareHlc a b \<longleftrightarrow>
     physical b < physical a
     \<or> physical b = physical a \<and> logical b < logical a
     \<or> physical b = physical a \<and> logical b = logical a \<and> deviceId b < deviceId a"
  by (auto simp: compareHlc_def)

lemma compareHlc_nonpos:
  "compareHlc a b \<le> 0 \<longleftrightarrow>
     physical a < physical b
     \<or> physical a = physical b \<and> logical a < logical b
     \<or> physical a = physical b \<and> logical a = logical b \<and> deviceId a \<le> deviceId b"
  by (auto simp: compareHlc_def)

lemma compareHlc_neg: "compareHlc a b < 0 \<longleftrightarrow> 0 < compareHlc b a"
  by (auto simp: compareHlc_def)

lemma compareHlc_zero: "compareHlc a b = 0 \<longleftrightarrow> a = b"
  by (cases a; cases b) (auto simp: compareHlc_def)

interpretation hlc_order: total_comparator compareHlc
proof unfold_locales
  show "compareHlc a b < 0 \<longleftrightarrow> 0 < compareHlc b a" for a b
    by (rule compareHlc_neg)
  show "compareHlc a c \<le> 0" if "compareHlc a b \<le> 0" "compareHlc b c \<le> 0" for a b c
    using that unfolding compareHlc_nonpos by force
  show "a = b" if "compareHlc a b = 0" for a b
    using that by (simp add: compareHlc_zero)
qed

lemma hlcAfter_irrefl [simp]: "\<not> hlcAfter a a"
  by (simp add: hlcAfter_def hlc_order.cmp_refl)

lemma hlcAfter_trans: "hlcAfter a b \<Longrightarrow> hlcAfter b c \<Longrightarrow> hlcAfter a c"
  unfolding hlcAfter_def by (rule hlc_order.cmp_pos_trans)

lemma hlcAfter_asym: "hlcAfter a b \<Longrightarrow> \<not> hlcAfter b a"
  unfolding hlcAfter_def by (rule hlc_order.cmp_asym)

lemma hlcAfter_linear: "hlcAfter a b \<or> a = b \<or> hlcAfter b a"
  unfolding hlcAfter_def by (rule hlc_order.cmp_linear)

lemma not_hlcAfter: "\<not> hlcAfter a b \<longleftrightarrow> a = b \<or> hlcAfter b a"
  using hlcAfter_linear [of a b] hlcAfter_asym [of b a] by auto

lemma hlcAfter_trans_le: "\<not> hlcAfter b a \<Longrightarrow> hlcAfter b c \<Longrightarrow> hlcAfter a c"
  by (metis hlcAfter_trans not_hlcAfter)

lemmas hlcAfter_iff = hlcAfter_def compareHlc_pos

section \<open>Stamping\<close>

lemma hlcNow_sel [simp]:
  "physical (hlcNow p w) = max (physical p) w" "deviceId (hlcNow p w) = deviceId p"
  "logical (hlcNow p w) = (if w \<le> physical p then logical p + 1 else 0)"
  by (auto simp: hlcNow_def Let_def max_def)

lemma hlcReceive_sel [simp]:
  "physical (hlcReceive l r w) = max (max (physical l) (physical r)) w"
  "deviceId (hlcReceive l r w) = deviceId l"
  by (simp_all add: hlcReceive_def Let_def)

lemma hlcNow_after: "hlcAfter (hlcNow p w) p"
  by (auto simp: hlcAfter_iff max_def)

lemma hlcReceive_after_local: "hlcAfter (hlcReceive l r w) l"
  by (auto simp: hlcAfter_iff hlcReceive_def Let_def max_def)

lemma hlcReceive_after_remote: "hlcAfter (hlcReceive l r w) r"
  by (auto simp: hlcAfter_iff hlcReceive_def Let_def max_def)

text \<open>The skew notice is exact about when it speaks.\<close>

lemma describeSkew_None: "describeSkew s = None \<longleftrightarrow> s < NOTABLE_SKEW_MS"
  by (simp add: describeSkew_def Let_def)

lemma describeSkew_after_receive: "describeSkew (clockSkewMs (hlcReceive l r w) r) = None"
  by (simp add: describeSkew_None clockSkewMs_def NOTABLE_SKEW_MS_def max_def)

section \<open>A fleet of devices\<close>

text \<open>
  The clock in its environment. Every device owns one clock; an event is a local edit
  (\<open>hlcNow\<close>) or the receipt of the stamp of some earlier event (\<open>hlcReceive\<close>), each read
  against a wall clock about which nothing is assumed: it may stand still or go backwards.
  The history records each event's device, the event whose stamp it received if any, and
  the stamp it got.
\<close>

record fleet_event =
  ev_device :: string
  ev_cause :: "nat option"
  ev_stamp :: hlc

record fleet =
  clocks :: "string \<Rightarrow> hlc"
  history :: "fleet_event list"

definition fleet_init :: fleet where
  "fleet_init = \<lparr>clocks = hlcZero, history = []\<rparr>"

definition fleet_stamp :: "fleet \<Rightarrow> string \<Rightarrow> nat option \<Rightarrow> hlc \<Rightarrow> fleet" where
  "fleet_stamp f d c s =
     f\<lparr>clocks := (clocks f)(d := s),
       history := history f @ [\<lparr>ev_device = d, ev_cause = c, ev_stamp = s\<rparr>]\<rparr>"

inductive fleet_reachable :: "fleet \<Rightarrow> bool" where
  start: "fleet_reachable fleet_init"
| edit: "fleet_reachable f \<Longrightarrow> fleet_reachable (fleet_stamp f d None (hlcNow (clocks f d) w))"
| receive: "fleet_reachable f \<Longrightarrow> i < length (history f) \<Longrightarrow>
    fleet_reachable
      (fleet_stamp f d (Some i) (hlcReceive (clocks f d) (ev_stamp (history f ! i)) w))"

inductive happens_before :: "fleet_event list \<Rightarrow> nat \<Rightarrow> nat \<Rightarrow> bool" for h where
  same_device: "i < j \<Longrightarrow> j < length h \<Longrightarrow> ev_device (h ! i) = ev_device (h ! j) \<Longrightarrow>
    happens_before h i j"
| message: "j < length h \<Longrightarrow> ev_cause (h ! j) = Some i \<Longrightarrow> happens_before h i j"
| trans: "happens_before h i j \<Longrightarrow> happens_before h j k \<Longrightarrow> happens_before h i k"

definition fleet_inv :: "fleet \<Rightarrow> bool" where
  "fleet_inv f \<longleftrightarrow>
     (\<forall>d. deviceId (clocks f d) = d)
     \<and> (\<forall>i < length (history f).
          deviceId (ev_stamp (history f ! i)) = ev_device (history f ! i)
          \<and> \<not> hlcAfter (ev_stamp (history f ! i)) (clocks f (ev_device (history f ! i))))
     \<and> (\<forall>j < length (history f). \<forall>i < j. ev_device (history f ! i) = ev_device (history f ! j) \<longrightarrow>
          hlcAfter (ev_stamp (history f ! j)) (ev_stamp (history f ! i)))
     \<and> (\<forall>j < length (history f). \<forall>i. ev_cause (history f ! j) = Some i \<longrightarrow>
          i < j \<and> hlcAfter (ev_stamp (history f ! j)) (ev_stamp (history f ! i)))"

lemma fleet_stamp_inv:
  assumes inv: "fleet_inv f"
    and own: "deviceId s = d" and later: "hlcAfter s (clocks f d)"
    and cause: "\<And>i. c = Some i \<Longrightarrow> i < length (history f) \<and> hlcAfter s (ev_stamp (history f ! i))"
  shows "fleet_inv (fleet_stamp f d c s)"
proof -
  have "hlcAfter s (ev_stamp (history f ! i))"
    if "i < length (history f)" "ev_device (history f ! i) = d" for i
    using inv later that unfolding fleet_inv_def by (metis hlcAfter_trans not_hlcAfter)
  moreover have "\<not> hlcAfter (ev_stamp (history f ! i)) s"
    if "i < length (history f)" "ev_device (history f ! i) = d" for i
    using calculation that hlcAfter_asym by blast
  ultimately show ?thesis
    using inv own cause unfolding fleet_inv_def
    by (auto simp: fleet_stamp_def nth_append less_Suc_eq)
qed

lemma fleet_reachable_inv: "fleet_reachable f \<Longrightarrow> fleet_inv f"
proof (induction rule: fleet_reachable.induct)
  case start
  then show ?case by (simp add: fleet_inv_def fleet_init_def hlcZero_def)
next
  case (edit f d w)
  then show ?case
    by (intro fleet_stamp_inv) (auto simp: hlcNow_after fleet_inv_def)
next
  case (receive f i d w)
  then show ?case
    by (intro fleet_stamp_inv)
      (auto simp: hlcReceive_after_local hlcReceive_after_remote fleet_inv_def)
qed

lemma happens_before_range: "fleet_inv f \<Longrightarrow> happens_before (history f) i j \<Longrightarrow>
    i < j \<and> j < length (history f)"
  by (erule happens_before.induct) (auto simp: fleet_inv_def)

section \<open>Properties\<close>

text \<open>
  C1. Causality: whatever the wall clocks of the devices do, if one event happened before
  another (on the same device, by a received stamp, or through a chain of both), the
  later event's stamp is strictly after the earlier one's.
\<close>

theorem stamps_respect_causality:
  assumes "fleet_reachable f" and "happens_before (history f) i j"
  shows "hlcAfter (ev_stamp (history f ! j)) (ev_stamp (history f ! i))"
  using assms(2)
proof induction
  case (same_device i j)
  then show ?case using fleet_reachable_inv [OF assms(1)] by (auto simp: fleet_inv_def)
next
  case (message j i)
  then show ?case using fleet_reachable_inv [OF assms(1)] by (auto simp: fleet_inv_def)
next
  case (trans i j k)
  then show ?case by (blast intro: hlcAfter_trans)
qed

definition demo_fleet :: fleet where
  "demo_fleet =
     (let f1 = fleet_stamp fleet_init ''phone'' None (hlcNow (hlcZero ''phone'') 900)
      in fleet_stamp f1 ''laptop'' (Some 0)
           (hlcReceive (hlcZero ''laptop'') (ev_stamp (history f1 ! 0)) 100))"

lemma demo_fleet_facts:
  "fleet_reachable demo_fleet" "happens_before (history demo_fleet) 0 1"
proof -
  let ?f1 = "fleet_stamp fleet_init ''phone'' None (hlcNow (clocks fleet_init ''phone'') 900)"
  have "fleet_reachable
      (fleet_stamp ?f1 ''laptop'' (Some 0)
         (hlcReceive (clocks ?f1 ''laptop'') (ev_stamp (history ?f1 ! 0)) 100))"
    by (intro fleet_reachable.receive fleet_reachable.edit fleet_reachable.start)
      (simp add: fleet_stamp_def)
  then show "fleet_reachable demo_fleet"
    by (simp add: demo_fleet_def fleet_init_def fleet_stamp_def Let_def)
  show "happens_before (history demo_fleet) 0 1"
    by (rule happens_before.message)
      (simp_all add: demo_fleet_def Let_def fleet_stamp_def fleet_init_def)
qed

theorem stamps_respect_causality_witness:
  "hlcAfter (ev_stamp (history demo_fleet ! 1)) (ev_stamp (history demo_fleet ! 0))
   \<and> physical (ev_stamp (history demo_fleet ! 1)) = 900"
  using stamps_respect_causality [OF demo_fleet_facts]
  by (simp add: demo_fleet_def Let_def fleet_stamp_def fleet_init_def hlcZero_def)

text \<open>
  No two events of a fleet ever get the same stamp, so the device tie-break makes the
  order of events total: last-writer-wins always has exactly one winner.
\<close>

theorem stamps_are_unique:
  assumes "fleet_reachable f" and "i < length (history f)" and "j < length (history f)"
    and "i \<noteq> j"
  shows "compareHlc (ev_stamp (history f ! i)) (ev_stamp (history f ! j)) \<noteq> 0"
proof
  assume "compareHlc (ev_stamp (history f ! i)) (ev_stamp (history f ! j)) = 0"
  then have eq: "ev_stamp (history f ! i) = ev_stamp (history f ! j)"
    by (simp add: compareHlc_zero)
  have inv: "fleet_inv f" by (rule fleet_reachable_inv [OF assms(1)])
  with eq assms(2,3) have "ev_device (history f ! i) = ev_device (history f ! j)"
    by (metis fleet_inv_def)
  with inv assms(2-4) eq show False
    unfolding fleet_inv_def by (metis hlcAfter_irrefl linorder_neqE_nat)
qed

theorem stamps_are_unique_witness:
  "compareHlc (ev_stamp (history demo_fleet ! 0)) (ev_stamp (history demo_fleet ! 1)) \<noteq> 0"
  by (rule stamps_are_unique [OF demo_fleet_facts(1)])
    (simp_all add: demo_fleet_def fleet_stamp_def fleet_init_def Let_def)

text \<open>
  Absorbing a peer's stamp moves the local clock strictly past both clocks and never
  backwards in wall-clock terms, keeps the local device's identity, and leaves no skew to
  report against that peer.
\<close>

theorem receive_absorbs_peer:
  "hlcAfter (hlcReceive l r w) l \<and> hlcAfter (hlcReceive l r w) r
   \<and> deviceId (hlcReceive l r w) = deviceId l
   \<and> physical (hlcReceive l r w) = max (max (physical l) (physical r)) w
   \<and> clockSkewMs (hlcReceive l r w) r = 0"
  by (simp add: hlcReceive_after_local hlcReceive_after_remote clockSkewMs_def)

end
