(* ===== verification/Stamped.thy ===== *)
theory Stamped
  imports HybridClock "HOL-Library.AList"
begin

text \<open>
  The shared merge rules of \<open>packages/core/src/sync/stamped.ts\<close>: a value with the stamp
  of the edit that set it and the causal frontier that edit had observed, the merges of a
  field, of a completion flag and of free text, and the delete-versus-edit rule. A merge
  of free text returns the surviving version and, where the two sides never saw each
  other, the record of both. The conflicting versions a record keeps are texts (or the
  words ''deleted'' and ''edited''), so they are strings here.
\<close>

record 'a stamped =
  s_value :: 'a
  s_at :: hlc
  s_seen :: "hlc list option"

definition MAX_CAUSAL_REPLICAS :: nat where
  "MAX_CAUSAL_REPLICAS = 64"

text \<open>The loop over the stamps that keeps, per device, the newest stamp seen so far.\<close>

definition frontier_step :: "hlc option \<Rightarrow> (string \<times> hlc) list \<Rightarrow> (string \<times> hlc) list" where
  "frontier_step stamp newest =
     (case stamp of
        None \<Rightarrow> newest
      | Some s \<Rightarrow>
          (case map_of newest (deviceId s) of
             None \<Rightarrow> AList.update (deviceId s) s newest
           | Some current \<Rightarrow>
               if compareHlc s current > 0 then AList.update (deviceId s) s newest else newest))"

definition causalFrontier :: "hlc option list \<Rightarrow> hlc list" where
  "causalFrontier stamps =
     take_last MAX_CAUSAL_REPLICAS (sort_by compareHlc (map snd (fold frontier_step stamps [])))"

definition causal_marks :: "'a stamped option \<Rightarrow> hlc option list" where
  "causal_marks p =
     (case p of None \<Rightarrow> []
      | Some s \<Rightarrow> Some (s_at s) # map Some (case s_seen s of None \<Rightarrow> [] | Some l \<Rightarrow> l))"

definition causalValue :: "'a \<Rightarrow> hlc \<Rightarrow> 'b stamped option list \<Rightarrow> 'a stamped" where
  "causalValue v stamp previous =
     \<lparr>s_value = v, s_at = stamp,
      s_seen = Some (causalFrontier (concat (map causal_marks previous)))\<rparr>"

definition observes :: "'a stamped \<Rightarrow> hlc \<Rightarrow> bool" where
  "observes edit event =
     (deviceId (s_at edit) = deviceId event \<and> compareHlc (s_at edit) event \<ge> 0
      \<or> (\<exists>s \<in> set (case s_seen edit of None \<Rightarrow> [] | Some l \<Rightarrow> l).
            deviceId s = deviceId event \<and> compareHlc s event \<ge> 0))"

datatype ConflictReason =
    concurrent_text
  | delete_vs_edit
  | fenced_stale_epoch
  | fenced_lease_expired
  | fenced_blocked

record ConflictRecord =
  c_ours :: string
  c_theirs :: string
  c_oursAt :: hlc
  c_theirsAt :: hlc
  c_reason :: ConflictReason

definition mergeField :: "'a stamped option \<Rightarrow> 'a stamped option \<Rightarrow> 'a stamped option" where
  "mergeField ours theirs =
     (case ours of
        None \<Rightarrow> theirs
      | Some a \<Rightarrow>
          (case theirs of
             None \<Rightarrow> ours
           | Some b \<Rightarrow> if hlcAfter (s_at b) (s_at a) then theirs else ours))"

definition mergeCompletion ::
  "bool stamped option \<Rightarrow> bool stamped option \<Rightarrow> bool stamped option"
where
  "mergeCompletion ours theirs =
     (case ours of
        None \<Rightarrow> theirs
      | Some a \<Rightarrow>
          (case theirs of
             None \<Rightarrow> ours
           | Some b \<Rightarrow>
               if \<not> (physical (s_at a) = physical (s_at b) \<and> logical (s_at a) = logical (s_at b))
               then (if compareHlc (s_at b) (s_at a) > 0 then theirs else ours)
               else if s_value a then ours else theirs))"

type_synonym text_merge = "string stamped option \<times> ConflictRecord option"

definition text_conflict ::
  "ConflictReason \<Rightarrow> string stamped \<Rightarrow> string stamped \<Rightarrow> ConflictRecord"
where
  "text_conflict r a b =
     \<lparr>c_ours = s_value a, c_theirs = s_value b, c_oursAt = s_at a, c_theirsAt = s_at b,
      c_reason = r\<rparr>"

definition mergeText :: "string stamped option \<Rightarrow> string stamped option \<Rightarrow> text_merge" where
  "mergeText ours theirs =
     (case ours of
        None \<Rightarrow> (theirs, None)
      | Some a \<Rightarrow>
          (case theirs of
             None \<Rightarrow> (ours, None)
           | Some b \<Rightarrow>
               let causal = (s_seen a \<noteq> None \<and> s_seen b \<noteq> None);
                   order = compareHlc (s_at b) (s_at a)
               in if s_value a = s_value b then
                    (let winner = (if hlcAfter (s_at b) (s_at a) then b else a)
                     in if \<not> causal then (Some winner, None)
                        else (Some (winner\<lparr>s_seen := Some (causalFrontier
                                (causal_marks (Some a) @ causal_marks (Some b)))\<rparr>), None))
                  else if order = 0 then (ours, None)
                  else if causal then
                    (let theirsSawOurs = observes b (s_at a);
                         oursSawTheirs = observes a (s_at b)
                     in if theirsSawOurs \<and> \<not> oursSawTheirs then (theirs, None)
                        else if oursSawTheirs \<and> \<not> theirsSawOurs then (ours, None)
                        else (if order > 0 then theirs else ours,
                              Some (text_conflict concurrent_text a b)))
                  else if physical (s_at a) = physical (s_at b) \<and> logical (s_at a) = logical (s_at b)
                  then (if order > 0 then theirs else ours,
                        Some (text_conflict concurrent_text a b))
                  else (if order > 0 then theirs else ours, None)))"

text \<open>Recording a conflict under its field: \<open>if (c) conflicts[field] = c\<close>.\<close>

definition put_conflict ::
  "string \<Rightarrow> ConflictRecord option \<Rightarrow> (string, ConflictRecord) fmap \<Rightarrow> (string, ConflictRecord) fmap"
where
  "put_conflict field c conflicts =
     (case c of None \<Rightarrow> conflicts | Some r \<Rightarrow> fmupd field r conflicts)"

lemma put_conflict_lookup:
  "fmlookup (put_conflict f c m) g = (if f = g then or_else c (fmlookup m g) else fmlookup m g)"
  by (auto simp: put_conflict_def split: option.splits)

text \<open>\<open>present.reduce((a, b) => hlcAfter(b, a) ? b : a)\<close> over the stamps that exist.\<close>

definition latestStamp :: "hlc option list \<Rightarrow> hlc option" where
  "latestStamp stamps =
     (case map the (filter (\<lambda>s. s \<noteq> None) stamps) of
        [] \<Rightarrow> None
      | x # xs \<Rightarrow> Some (foldl (\<lambda>a b. if hlcAfter b a then b else a) x xs))"

record TombstoneOutcome =
  t_deletedAt :: "hlc option"
  t_conflict :: "ConflictRecord option"

definition resolveTombstone :: "hlc option \<Rightarrow> hlc option \<Rightarrow> hlc option \<Rightarrow> TombstoneOutcome" where
  "resolveTombstone ours theirs newestEdit =
     (let tombstone =
            (case (ours, theirs) of
               (Some a, Some b) \<Rightarrow> if hlcAfter b a then Some b else Some a
             | _ \<Rightarrow> or_else ours theirs)
      in case tombstone of
           None \<Rightarrow> \<lparr>t_deletedAt = None, t_conflict = None\<rparr>
         | Some t \<Rightarrow>
             (case newestEdit of
                Some e \<Rightarrow>
                  if hlcAfter e t then
                    \<lparr>t_deletedAt = None,
                     t_conflict = Some \<lparr>c_ours = ''deleted'', c_theirs = ''edited'',
                       c_oursAt = t, c_theirsAt = e, c_reason = delete_vs_edit\<rparr>\<rparr>
                  else \<lparr>t_deletedAt = Some t, t_conflict = None\<rparr>
              | None \<Rightarrow> \<lparr>t_deletedAt = Some t, t_conflict = None\<rparr>))"

section \<open>The latest of two stamps\<close>

text \<open>
  The stamp a field merge keeps: the later of two optional stamps, a semilattice.
\<close>

definition later :: "hlc option \<Rightarrow> hlc option \<Rightarrow> hlc option" where
  "later a b =
     (case (a, b) of
        (Some x, Some y) \<Rightarrow> if hlcAfter y x then Some y else Some x
      | _ \<Rightarrow> or_else a b)"

lemma later_simps [simp]:
  "later None b = b" "later a None = a"
  "later (Some x) (Some y) = (if hlcAfter y x then Some y else Some x)"
  by (auto simp: later_def split: option.splits)

interpretation later: merge_semilattice later
proof unfold_locales
  show "later a a = a" for a by (cases a) auto
  show "later a b = later b a" for a b
    by (cases a; cases b) (auto dest: hlcAfter_asym simp: not_hlcAfter)
  show "later (later a b) c = later a (later b c)" for a b c
    by (cases a; cases b; cases c) (auto dest: hlcAfter_trans hlcAfter_asym simp: not_hlcAfter)
qed

lemma latestStamp_Nil [simp]: "latestStamp [] = None"
  by (simp add: latestStamp_def)

lemma latestStamp_foldl: "latestStamp xs = foldl later None xs"
proof -
  have skip: "foldl later a xs = foldl later a (map Some (map the (filter (\<lambda>s. s \<noteq> None) xs)))" for a
  proof (induction xs arbitrary: a)
    case (Cons x xs)
    then show ?case by (cases x) auto
  qed simp
  have some: "Some (foldl (\<lambda>a b. if hlcAfter b a then b else a) x ys) = foldl later (Some x) (map Some ys)"
    for x ys
    by (induction ys arbitrary: x) auto
  show ?thesis
  proof (cases "map the (filter (\<lambda>s. s \<noteq> None) xs)")
    case Nil
    then show ?thesis using skip [of None] by (simp add: latestStamp_def)
  next
    case (Cons y ys)
    then show ?thesis using skip [of None] some [of y ys] by (simp add: latestStamp_def)
  qed
qed

lemma foldl_later_start: "foldl later a xs = later a (foldl later None xs)"
proof (induction xs arbitrary: a)
  case Nil
  show ?case by simp
next
  case (Cons y ys)
  have "foldl later a (y # ys) = later (later a y) (foldl later None ys)"
    using Cons.IH [of "later a y"] by simp
  also have "\<dots> = later a (later y (foldl later None ys))"
    by (rule later.merge_assoc)
  also have "later y (foldl later None ys) = foldl later y ys"
    by (rule Cons.IH [symmetric])
  finally show ?case by simp
qed

lemma latestStamp_Cons [simp]: "latestStamp (x # xs) = later x (latestStamp xs)"
  using foldl_later_start [of x xs] by (simp add: latestStamp_foldl)

lemma latestStamp_append: "latestStamp (xs @ ys) = later (latestStamp xs) (latestStamp ys)"
  by (induction xs) (auto simp: later.merge_assoc)

lemma latestStamp_None: "latestStamp xs = None \<longleftrightarrow> (\<forall>x \<in> set xs. x = None)"
  by (induction xs) (auto simp: later_def split: option.splits if_splits)

lemma latestStamp_mem: "latestStamp xs = Some s \<Longrightarrow> Some s \<in> set xs"
  by (induction xs arbitrary: s) (auto simp: later_def split: option.splits if_splits)

lemma latestStamp_upper: "latestStamp xs = Some s \<Longrightarrow> Some r \<in> set xs \<Longrightarrow> \<not> hlcAfter r s"
proof (induction xs arbitrary: s)
  case (Cons x xs)
  show ?case
  proof (cases "latestStamp xs")
    case None
    with Cons.prems show ?thesis by (auto simp: latestStamp_None)
  next
    case (Some q)
    with Cons show ?thesis
      by (cases x) (auto split: if_splits dest: hlcAfter_asym hlcAfter_trans simp: not_hlcAfter)
  qed
qed simp

lemma resolveTombstone_later:
  "resolveTombstone ours theirs e =
     (case later ours theirs of
        None \<Rightarrow> \<lparr>t_deletedAt = None, t_conflict = None\<rparr>
      | Some t \<Rightarrow>
          (case e of
             Some e' \<Rightarrow>
               if hlcAfter e' t then
                 \<lparr>t_deletedAt = None,
                  t_conflict = Some \<lparr>c_ours = ''deleted'', c_theirs = ''edited'',
                    c_oursAt = t, c_theirsAt = e', c_reason = delete_vs_edit\<rparr>\<rparr>
               else \<lparr>t_deletedAt = Some t, t_conflict = None\<rparr>
           | None \<Rightarrow> \<lparr>t_deletedAt = Some t, t_conflict = None\<rparr>))"
  by (simp add: resolveTombstone_def later_def Let_def split: option.splits)

section \<open>The causal frontier\<close>

definition frontier_inv :: "hlc option list \<Rightarrow> (string \<times> hlc) list \<Rightarrow> bool" where
  "frontier_inv stamps newest \<longleftrightarrow>
     distinct (map fst newest)
     \<and> (\<forall>(d, s) \<in> set newest. deviceId s = d \<and> Some s \<in> set stamps)
     \<and> (\<forall>s. Some s \<in> set stamps \<longrightarrow>
          (\<exists>s'. (deviceId s, s') \<in> set newest \<and> \<not> hlcAfter s s'))"

lemma set_update_distinct:
  "distinct (map fst al) \<Longrightarrow>
   set (AList.update k v al) = insert (k, v) {p \<in> set al. fst p \<noteq> k}"
  by (induction al) (auto simp: rev_image_eqI)

lemma frontier_step_inv:
  assumes "frontier_inv stamps newest"
  shows "frontier_inv (stamps @ [x]) (frontier_step x newest)"
proof (cases x)
  case None
  with assms show ?thesis by (auto simp: frontier_inv_def frontier_step_def)
next
  case (Some s)
  have d: "distinct (map fst newest)" using assms by (simp add: frontier_inv_def)
  show ?thesis
  proof (cases "\<exists>cur. map_of newest (deviceId s) = Some cur \<and> \<not> hlcAfter s cur")
    case True
    then obtain cur where "map_of newest (deviceId s) = Some cur" "\<not> hlcAfter s cur" by blast
    with Some assms show ?thesis
      by (auto simp: frontier_inv_def frontier_step_def hlcAfter_def dest: map_of_SomeD)
  next
    case False
    then have step: "frontier_step x newest = AList.update (deviceId s) s newest"
      using Some by (auto simp: frontier_step_def hlcAfter_def split: option.splits)
    have old: "hlcAfter s s'" if "(deviceId s, s') \<in> set newest" for s'
      using False d that by (metis map_of_is_SomeI)
    have "\<exists>s''. (deviceId r, s'') \<in> set (AList.update (deviceId s) s newest) \<and> \<not> hlcAfter r s''"
      if "Some r \<in> set stamps \<or> r = s" for r
    proof (cases "deviceId r = deviceId s")
      case True
      then show ?thesis
        using that assms old unfolding set_update_distinct [OF d] frontier_inv_def
        by (metis (mono_tags, lifting) hlcAfter_asym hlcAfter_irrefl hlcAfter_trans_le insertI1)
    next
      case False
      then show ?thesis
        using that assms unfolding set_update_distinct [OF d] frontier_inv_def by fastforce
    qed
    then show ?thesis
      using assms Some unfolding step frontier_inv_def
      by (auto simp: set_update_distinct [OF d] distinct_update)
  qed
qed

lemma frontier_fold_inv: "frontier_inv stamps (fold frontier_step stamps [])"
proof (induction stamps rule: rev_induct)
  case Nil
  show ?case by (simp add: frontier_inv_def)
next
  case (snoc x xs)
  then show ?case using frontier_step_inv by simp
qed

abbreviation frontier_set :: "hlc option list \<Rightarrow> hlc set" where
  "frontier_set stamps \<equiv> snd ` set (fold frontier_step stamps [])"

lemma frontier_set_iff:
  "s \<in> frontier_set stamps \<longleftrightarrow>
     Some s \<in> set stamps
     \<and> (\<forall>r. Some r \<in> set stamps \<longrightarrow> deviceId r = deviceId s \<longrightarrow> \<not> hlcAfter r s)"
proof -
  let ?n = "fold frontier_step stamps []"
  have inv: "frontier_inv stamps ?n" by (rule frontier_fold_inv)
  have uniq: "s' = s''" if "(d, s') \<in> set ?n" "(d, s'') \<in> set ?n" for d s' s''
    using inv that unfolding frontier_inv_def by (meson eq_key_imp_eq_value)
  show ?thesis
  proof
    assume "s \<in> frontier_set stamps"
    then have s: "(deviceId s, s) \<in> set ?n" "Some s \<in> set stamps"
      using inv unfolding frontier_inv_def by force+
    then show "Some s \<in> set stamps
        \<and> (\<forall>r. Some r \<in> set stamps \<longrightarrow> deviceId r = deviceId s \<longrightarrow> \<not> hlcAfter r s)"
      using inv uniq unfolding frontier_inv_def by (metis (no_types, lifting))
  next
    assume a: "Some s \<in> set stamps
        \<and> (\<forall>r. Some r \<in> set stamps \<longrightarrow> deviceId r = deviceId s \<longrightarrow> \<not> hlcAfter r s)"
    then obtain s' where s': "(deviceId s, s') \<in> set ?n" "\<not> hlcAfter s s'"
      using inv unfolding frontier_inv_def by blast
    then have "deviceId s' = deviceId s" "Some s' \<in> set stamps"
      using inv unfolding frontier_inv_def by fastforce+
    with a s' have "s' = s" by (metis not_hlcAfter)
    with s' show "s \<in> frontier_set stamps" by force
  qed
qed

lemma distinct_frontier: "distinct (map snd (fold frontier_step stamps []))"
proof -
  have inv: "frontier_inv stamps (fold frontier_step stamps [])" by (rule frontier_fold_inv)
  then have "map fst (fold frontier_step stamps []) = map deviceId (map snd (fold frontier_step stamps []))"
    unfolding frontier_inv_def by fastforce
  with inv show ?thesis unfolding frontier_inv_def by (metis distinct_map)
qed

text \<open>The frontier is a function of the set of stamps, not of their order.\<close>

lemma causalFrontier_cong:
  assumes "set xs = set ys"
  shows "causalFrontier xs = causalFrontier ys"
proof -
  have "frontier_set xs = frontier_set ys"
    by (rule set_eqI) (simp only: frontier_set_iff assms)
  then have "mset (map snd (fold frontier_step xs [])) = mset (map snd (fold frontier_step ys []))"
    using distinct_frontier by (simp only: set_eq_iff_mset_eq_distinct [symmetric] set_map)
  then show ?thesis
    unfolding causalFrontier_def by (metis hlc_order.cmp_sort_by_perm)
qed

lemma causalFrontier_subset: "s \<in> set (causalFrontier xs) \<Longrightarrow> Some s \<in> set xs"
proof -
  assume "s \<in> set (causalFrontier xs)"
  then have "s \<in> frontier_set xs"
    unfolding causalFrontier_def using set_take_last by fastforce
  then show ?thesis by (simp only: frontier_set_iff)
qed

lemma causalFrontier_newest:
  assumes "Some s \<in> set xs" and "\<And>r. Some r \<in> set xs \<Longrightarrow> \<not> hlcAfter r s"
  shows "s \<in> set (causalFrontier xs)"
proof -
  let ?l = "sort_by compareHlc (map snd (fold frontier_step xs []))"
  have "s \<in> frontier_set xs" using assms by (simp only: frontier_set_iff) blast
  then have mem: "s \<in> set ?l" by simp
  then have ne: "?l \<noteq> []" by (metis empty_iff empty_set)
  have top: "\<not> hlcAfter r s" if "r \<in> set ?l" for r
    using that assms(2) by (auto simp only: set_sort_by set_map frontier_set_iff)
  have "last ?l = s"
  proof -
    have "s = last ?l \<or> compareHlc s (last ?l) \<le> 0"
      using sorted_wrt_last [OF hlc_order.cmp_sorted_sort_by mem] by blast
    then have "s = last ?l \<or> hlcAfter (last ?l) s"
      using hlc_order.cmp_swap [of s "last ?l"] hlc_order.cmp_eq [of s "last ?l"]
      by (auto simp: hlcAfter_def)
    with top ne show ?thesis by (metis last_in_set)
  qed
  with ne show ?thesis
    unfolding causalFrontier_def by (metis last_in_take_last MAX_CAUSAL_REPLICAS_def zero_less_numeral)
qed

section \<open>Symmetry of the merges\<close>

text \<open>
  Two versions are coherent when equal stamps mean equal edits. Stamps are unique per event,
  so any two versions of one record in circulation are coherent.
\<close>

definition coherent :: "'a stamped option \<Rightarrow> 'a stamped option \<Rightarrow> bool" where
  "coherent a b \<longleftrightarrow> (\<forall>x y. a = Some x \<longrightarrow> b = Some y \<longrightarrow> s_at x = s_at y \<longrightarrow> x = y)"

lemma mergeField_simps [simp]:
  "mergeField None b = b" "mergeField a None = a"
  "mergeField (Some x) (Some y) = (if hlcAfter (s_at y) (s_at x) then Some y else Some x)"
  by (auto simp: mergeField_def split: option.splits)

lemma mergeField_at: "map_option s_at (mergeField a b) = later (map_option s_at a) (map_option s_at b)"
  by (cases a; cases b) auto

lemma mergeField_pick: "mergeField a b = a \<or> mergeField a b = b"
  by (cases a; cases b) auto

lemma mergeField_comm: "coherent a b \<Longrightarrow> mergeField a b = mergeField b a"
  by (cases a; cases b) (auto simp: coherent_def not_hlcAfter dest: hlcAfter_asym)

lemma mergeField_fold_at:
  "map_option s_at (fold mergeField xs a) = fold later (map (map_option s_at) xs) (map_option s_at a)"
  by (induction xs arbitrary: a) (auto simp: mergeField_at)

lemma mergeField_fold_mem: "fold mergeField xs a \<in> insert a (set xs)"
proof (induction xs arbitrary: a)
  case (Cons x xs)
  then show ?case using mergeField_pick [of x a] by force
qed simp

definition flip_conflict :: "ConflictRecord \<Rightarrow> ConflictRecord" where
  "flip_conflict c =
     c\<lparr>c_ours := c_theirs c, c_theirs := c_ours c,
       c_oursAt := c_theirsAt c, c_theirsAt := c_oursAt c\<rparr>"

lemma flip_text_conflict: "flip_conflict (text_conflict r a b) = text_conflict r b a"
  by (simp add: flip_conflict_def text_conflict_def)

lemma mergeText_None [simp]: "mergeText None b = (b, None)" "mergeText a None = (a, None)"
  by (auto simp: mergeText_def split: option.splits)

lemma mergeText_pick:
  "map_option s_at (fst (mergeText a b)) \<in> {map_option s_at a, map_option s_at b}"
  by (simp add: mergeText_def Let_def split: option.split)

lemma mergeText_Some: "fst (mergeText (Some x) (Some y)) \<noteq> None"
  by (simp add: mergeText_def Let_def)

lemma mergeText_stamp_pick:
  "s_at (the (fst (mergeText (Some x) (Some y)))) \<in> {s_at x, s_at y}"
  using mergeText_pick [of "Some x" "Some y"] mergeText_Some [of x y] by auto

lemma mergeText_value_cases:
  "s_value a \<noteq> s_value b \<Longrightarrow> fst (mergeText (Some a) (Some b)) \<in> {Some a, Some b}"
  by (simp add: mergeText_def Let_def)

lemma mergeText_sym:
  assumes "coherent a b"
  shows "fst (mergeText b a) = fst (mergeText a b)
         \<and> snd (mergeText b a) = map_option flip_conflict (snd (mergeText a b))"
proof (cases "a = None \<or> b = None")
  case True
  then show ?thesis by auto
next
  case False
  then obtain x y where xy: "a = Some x" "b = Some y" by auto
  have coh: "s_at x = s_at y \<Longrightarrow> x = y" using assms xy by (simp add: coherent_def)
  have front: "causalFrontier (causal_marks (Some x) @ causal_marks (Some y))
      = causalFrontier (causal_marks (Some y) @ causal_marks (Some x))"
    by (rule causalFrontier_cong) auto
  show ?thesis
  proof (cases "s_at x = s_at y")
    case True
    with coh xy have "x = y" by simp
    then show ?thesis
      unfolding xy mergeText_def by (simp add: Let_def compareHlc_zero)
  next
    case False
    then obtain "0 < compareHlc (s_at x) (s_at y) \<and> compareHlc (s_at y) (s_at x) < 0
        \<or> 0 < compareHlc (s_at y) (s_at x) \<and> compareHlc (s_at x) (s_at y) < 0"
      by (metis compareHlc_neg hlc_order.cmp_linear)
    then show ?thesis
      by (elim disjE conjE)
        (simp_all add: xy mergeText_def Let_def front hlcAfter_def flip_text_conflict)
  qed
qed

lemma mergeText_fst_sym: "coherent a b \<Longrightarrow> fst (mergeText b a) = fst (mergeText a b)"
  by (rule mergeText_sym [THEN conjunct1])

section \<open>Properties\<close>

text \<open>
  Last-writer-wins converges: replicas that have merged the same versions of a field,
  in any order and however often each was redelivered, hold the same value.
\<close>

theorem mergeField_convergence:
  assumes "set xs = set ys"
    and "\<And>a b. a \<in> set xs \<Longrightarrow> b \<in> set xs \<Longrightarrow> coherent a b"
  shows "fold mergeField xs None = fold mergeField ys None"
proof -
  let ?x = "fold mergeField xs None" and ?y = "fold mergeField ys None"
  have ats: "map_option s_at ?x = map_option s_at ?y"
    using later.merge_fold_set [of "map (map_option s_at) xs" "map (map_option s_at) ys"] assms(1)
    by (simp add: mergeField_fold_at)
  show ?thesis
  proof (cases ?x)
    case None
    with ats show ?thesis by simp
  next
    case (Some x)
    with ats obtain y where y: "?y = Some y" "s_at x = s_at y" by (cases ?y) auto
    have "?x \<in> set xs" "?y \<in> set xs"
      using mergeField_fold_mem [of xs None] mergeField_fold_mem [of ys None] Some y assms(1) by auto
    with assms(2) Some y show ?thesis by (auto simp: coherent_def)
  qed
qed

definition demo_stamp :: "int \<Rightarrow> string \<Rightarrow> hlc" where
  "demo_stamp t d = \<lparr>physical = t, logical = 0, deviceId = d\<rparr>"

definition demo_value :: "'a \<Rightarrow> int \<Rightarrow> string \<Rightarrow> 'a stamped" where
  "demo_value v t d = \<lparr>s_value = v, s_at = demo_stamp t d, s_seen = None\<rparr>"

theorem mergeField_convergence_witness:
  "fold mergeField [Some (demo_value ''a'' 5 ''x''), Some (demo_value ''b'' 7 ''y'')] None
   = fold mergeField [Some (demo_value ''b'' 7 ''y''), Some (demo_value ''a'' 5 ''x''),
       Some (demo_value ''b'' 7 ''y'')] None"
  by (rule mergeField_convergence) (auto simp: coherent_def demo_value_def demo_stamp_def)

text \<open>
  A tie in the clocks of a completion flag resolves to done whichever side merges, and
  a strictly later edit wins with its own value: both sides agree on the outcome.
\<close>

theorem mergeCompletion_agrees:
  "map_option s_value (mergeCompletion (Some a) (Some b)) =
   Some (if physical (s_at a) = physical (s_at b) \<and> logical (s_at a) = logical (s_at b)
         then s_value a \<or> s_value b
         else s_value (if hlcAfter (s_at b) (s_at a) then b else a))
   \<and> map_option s_value (mergeCompletion (Some a) (Some b))
     = map_option s_value (mergeCompletion (Some b) (Some a))"
  by (auto simp: mergeCompletion_def hlcAfter_iff compareHlc_pos)

text \<open>
  Merging text gives the same surviving version from both sides, and the same conflict
  seen from the other side, so two devices show the same marker.
\<close>

theorem mergeText_symmetric:
  assumes "coherent a b"
  shows "fst (mergeText b a) = fst (mergeText a b)
         \<and> snd (mergeText b a) = map_option flip_conflict (snd (mergeText a b))"
  using assms by (rule mergeText_sym)

theorem mergeText_symmetric_witness:
  "fst (mergeText (Some (demo_value ''b'' 7 ''y'')) (Some (demo_value ''a'' 7 ''x'')))
     = Some (demo_value ''b'' 7 ''y'')
   \<and> snd (mergeText (Some (demo_value ''b'' 7 ''y'')) (Some (demo_value ''a'' 7 ''x''))) \<noteq> None"
proof -
  have c: "coherent (Some (demo_value ''a'' 7 ''x'')) (Some (demo_value ''b'' 7 ''y''))"
    by (simp add: coherent_def demo_value_def demo_stamp_def)
  show ?thesis
    using mergeText_symmetric [OF c]
    by (simp add: mergeText_def Let_def demo_value_def demo_stamp_def compareHlc_def)
qed

text \<open>
  C2. No silent loss of text: when both versions carry causal ancestry and differ, the
  merge leaves no marker only if the surviving version had observed the other one;
  otherwise both texts are kept, with their stamps, in a \<open>concurrent_text\<close> record.
\<close>

theorem mergeText_no_silent_loss:
  assumes "s_seen a \<noteq> None" and "s_seen b \<noteq> None"
    and "s_value a \<noteq> s_value b" and "s_at a \<noteq> s_at b"
  shows "case mergeText (Some a) (Some b) of
           (w, None) \<Rightarrow> w = Some a \<and> observes a (s_at b) \<or> w = Some b \<and> observes b (s_at a)
         | (w, Some c) \<Rightarrow>
             c = text_conflict concurrent_text a b \<and> (w = Some a \<or> w = Some b)
             \<and> (observes a (s_at b) = observes b (s_at a))"
  using assms by (auto simp: mergeText_def Let_def compareHlc_zero)

theorem mergeText_no_silent_loss_witness:
  "observes (demo_value ''a'' 7 ''x'' \<lparr>s_seen := Some []\<rparr>) (demo_stamp 6 ''x'')
   \<and> snd (mergeText (Some (demo_value ''a'' 7 ''x'' \<lparr>s_seen := Some []\<rparr>))
        (Some (demo_value ''b'' 6 ''y'' \<lparr>s_seen := Some []\<rparr>))) \<noteq> None"
  using mergeText_no_silent_loss [of "demo_value ''a'' 7 ''x'' \<lparr>s_seen := Some []\<rparr>"
      "demo_value ''b'' 6 ''y'' \<lparr>s_seen := Some []\<rparr>"]
  by (simp add: demo_value_def demo_stamp_def observes_def compareHlc_def split: prod.splits option.splits)

text \<open>
  An edit made on top of a version supersedes it without a marker: stamped with
  \<open>causalValue\<close> from that version and a later clock, it wins whichever side merges.
\<close>

theorem derived_edit_supersedes:
  assumes causal: "s_seen p = Some l"
    and own: "\<And>s. s \<in> set l \<Longrightarrow> \<not> hlcAfter s (s_at p)"
    and later: "hlcAfter t (s_at p)"
    and new: "v \<noteq> s_value p"
  shows "mergeText (Some p) (Some (causalValue v t [Some p])) = (Some (causalValue v t [Some p]), None)
         \<and> mergeText (Some (causalValue v t [Some p])) (Some p) = (Some (causalValue v t [Some p]), None)"
proof -
  let ?n = "causalValue v t [Some p]"
  have n: "s_value ?n = v" "s_at ?n = t" "s_seen ?n \<noteq> None"
    by (simp_all add: causalValue_def)
  have "s_at p \<in> set (causalFrontier (causal_marks (Some p)))"
    by (rule causalFrontier_newest) (use own causal in \<open>auto simp: causal_marks_def\<close>)
  then have sees: "observes ?n (s_at p)"
    by (auto simp: observes_def causalValue_def hlc_order.cmp_refl intro!: bexI [of _ "s_at p"])
  have "\<not> observes p t"
  proof
    assume "observes p t"
    then obtain s where "s = s_at p \<or> s \<in> set l" "\<not> hlcAfter t s"
      using causal by (auto simp: observes_def hlcAfter_def compareHlc_neg [symmetric] not_less)
    with own later show False by (metis hlcAfter_trans_le)
  qed
  moreover have "s_at p \<noteq> t" using later by auto
  ultimately show ?thesis
    using sees n new causal by (auto simp: mergeText_def Let_def compareHlc_zero)
qed

theorem derived_edit_supersedes_witness:
  "fst (mergeText (Some (demo_value ''a'' 7 ''x'' \<lparr>s_seen := Some []\<rparr>))
      (Some (causalValue ''b'' (demo_stamp 8 ''y'')
         [Some (demo_value ''a'' 7 ''x'' \<lparr>s_seen := Some []\<rparr>)])))
   = Some (causalValue ''b'' (demo_stamp 8 ''y'') [Some (demo_value ''a'' 7 ''x'' \<lparr>s_seen := Some []\<rparr>)])"
  using derived_edit_supersedes [of "demo_value ''a'' 7 ''x'' \<lparr>s_seen := Some []\<rparr>" "[]" "demo_stamp 8 ''y''" "''b''"]
  by (simp add: demo_value_def demo_stamp_def hlcAfter_iff)

text \<open>
  Delete versus edit: a tombstone survives exactly when no edit is stamped after it; an
  edit after it turns the deletion into a conflict that names both stamps; and the two
  devices reach the same decision.
\<close>

theorem resolveTombstone_decides:
  "(t_deletedAt (resolveTombstone a b e) = Some t \<longleftrightarrow>
      later a b = Some t \<and> \<not> (\<exists>e'. e = Some e' \<and> hlcAfter e' t))
   \<and> (t_conflict (resolveTombstone a b e) = None \<longleftrightarrow>
      \<not> (\<exists>t' e'. later a b = Some t' \<and> e = Some e' \<and> hlcAfter e' t'))
   \<and> resolveTombstone a b e = resolveTombstone b a e"
  by (auto simp: resolveTombstone_later later.merge_comm [of a b] split: option.splits)

end
