(* ===== verification/Outbox.thy ===== *)
theory Outbox
  imports Stamped "HOL-Library.Sublist"
begin

text \<open>
  The durable outbox, \<open>packages/core/src/sync/outbox.ts\<close>: operations queued by local
  writes, the batch of at most one operation per record that is sent next, what an
  acknowledgement and a failure do to the queue, the shedding of what is too old or too
  much with its notice, and the wording shown about the queue. The payload is opaque to the
  queue: it is the type parameter \<open>'p\<close>.
\<close>

datatype OutboxEntity = e_item | e_block

datatype OutboxKind = op_create | op_update | op_delete | op_source_action | op_resolve_conflict

record 'p OutboxOperation =
  o_idempotencyKey :: string
  o_itemId :: string
  o_entity :: "OutboxEntity option"
  o_kind :: OutboxKind
  o_at :: hlc
  o_payload :: 'p
  o_attempts :: nat
  o_lastError :: "string option"
  o_retryRequestedAt :: "string option"

record 'p OutboxState =
  ob_operations :: "'p OutboxOperation list"
  ob_shedNotice :: "string option"

definition MAX_OUTBOX_OPERATIONS :: int where
  "MAX_OUTBOX_OPERATIONS = 500"

definition MAX_OUTBOX_AGE_MS :: int where
  "MAX_OUTBOX_AGE_MS = 30 * 24 * 60 * 60 * 1000"

definition emptyOutbox :: "'p OutboxState" where
  "emptyOutbox = \<lparr>ob_operations = [], ob_shedNotice = None\<rparr>"

definition enqueue :: "'p OutboxState \<Rightarrow> 'p OutboxOperation \<Rightarrow> 'p OutboxState" where
  "enqueue state newOp =
     (if \<exists>x \<in> set (ob_operations state). o_idempotencyKey x = o_idempotencyKey newOp then state
      else state\<lparr>ob_operations := ob_operations state @ [newOp]\<rparr>)"

text \<open>The loop that claims each record once and stops at the limit.\<close>

fun batch_loop ::
  "int \<Rightarrow> string set \<Rightarrow> 'p OutboxOperation list \<Rightarrow> 'p OutboxOperation list \<Rightarrow> 'p OutboxOperation list"
where
  "batch_loop limit claimed batch [] = batch"
| "batch_loop limit claimed batch (x # rest) =
     (if o_itemId x \<in> claimed then batch_loop limit claimed batch rest
      else let claimed' = insert (o_itemId x) claimed;
               batch' = batch @ [x]
           in if int (length batch') \<ge> limit then batch' else batch_loop limit claimed' batch' rest)"

definition nextBatch :: "'p OutboxState \<Rightarrow> int \<Rightarrow> 'p OutboxOperation list" where
  "nextBatch state limit =
     (let retryRecords = set (map o_itemId (filter (\<lambda>x. truthy (o_retryRequestedAt x)) (ob_operations state)));
          ordered =
            (if retryRecords = {} then ob_operations state
             else filter (\<lambda>x. o_itemId x \<in> retryRecords) (ob_operations state)
                  @ filter (\<lambda>x. o_itemId x \<notin> retryRecords) (ob_operations state))
      in batch_loop limit {} [] ordered)"

definition acknowledge :: "'p OutboxState \<Rightarrow> string list \<Rightarrow> 'p OutboxState" where
  "acknowledge state keys =
     state\<lparr>ob_operations := filter (\<lambda>x. o_idempotencyKey x \<notin> set keys) (ob_operations state)\<rparr>"

definition recordFailure :: "'p OutboxState \<Rightarrow> string \<Rightarrow> string \<Rightarrow> 'p OutboxState" where
  "recordFailure state key err =
     state\<lparr>ob_operations :=
       map (\<lambda>x. if o_idempotencyKey x = key
              then x\<lparr>o_attempts := o_attempts x + 1, o_lastError := Some err, o_retryRequestedAt := None\<rparr>
              else x) (ob_operations state)\<rparr>"

definition ATTEMPTS_BEFORE_SURFACING :: nat where
  "ATTEMPTS_BEFORE_SURFACING = 5"

datatype OutboxOperationStatus = st_pending | st_needs_attention | st_retry_requested

record OutboxOperationDetail =
  od_idempotencyKey :: string
  od_targetId :: string
  od_entity :: OutboxEntity
  od_kind :: OutboxKind
  od_queuedAt :: string
  od_ageMs :: int
  od_attempts :: nat
  od_lastError :: "string option"
  od_status :: OutboxOperationStatus

text \<open>A stamp's physical clock is an integer, so \<open>Number.isFinite\<close> holds of it.\<close>

definition outboxTimestamp :: "int \<Rightarrow> string \<times> int" where
  "outboxTimestamp phys =
     (let safe = min 8640000000000000 (max (-8640000000000000) phys)
      in (iso_of_ms safe, safe))"

definition inspectOutbox :: "'p OutboxState \<Rightarrow> int \<Rightarrow> OutboxOperationDetail list" where
  "inspectOutbox state nowMs =
     map (\<lambda>x.
       let timestamp = outboxTimestamp (physical (o_at x))
       in \<lparr>od_idempotencyKey = o_idempotencyKey x,
           od_targetId = o_itemId x,
           od_entity = (case o_entity x of None \<Rightarrow> e_item | Some e \<Rightarrow> e),
           od_kind = o_kind x,
           od_queuedAt = fst timestamp,
           od_ageMs = max 0 (nowMs - snd timestamp),
           od_attempts = o_attempts x,
           od_lastError = (if truthy (o_lastError x) then o_lastError x else None),
           od_status =
             (if truthy (o_retryRequestedAt x) then st_retry_requested
              else if o_attempts x \<ge> ATTEMPTS_BEFORE_SURFACING then st_needs_attention
              else st_pending)\<rparr>) (ob_operations state)"

definition requestOperationRetry :: "'p OutboxState \<Rightarrow> string \<Rightarrow> string \<Rightarrow> 'p OutboxState" where
  "requestOperationRetry state idempotencyKey nowIso =
     (if \<not> (\<exists>x \<in> set (ob_operations state). o_idempotencyKey x = idempotencyKey) then state
      else state\<lparr>ob_operations :=
        map (\<lambda>x. if o_idempotencyKey x = idempotencyKey then x\<lparr>o_retryRequestedAt := Some nowIso\<rparr> else x)
          (ob_operations state)\<rparr>)"

definition stuckOperations :: "'p OutboxState \<Rightarrow> 'p OutboxOperation list" where
  "stuckOperations state = filter (\<lambda>x. o_attempts x \<ge> ATTEMPTS_BEFORE_SURFACING) (ob_operations state)"

fun join_parts :: "string list \<Rightarrow> string" where
  "join_parts [] = ''''"
| "join_parts [x] = x"
| "join_parts (x # y # ys) = x @ ''; '' @ join_parts (y # ys)"

definition shed :: "'p OutboxState \<Rightarrow> int \<Rightarrow> int option \<Rightarrow> int option \<Rightarrow> 'p OutboxState" where
  "shed state nowMs maxAgeMs maxOperations =
     (let maxAge = (case maxAgeMs of None \<Rightarrow> MAX_OUTBOX_AGE_MS | Some a \<Rightarrow> a);
          maxOps = (case maxOperations of None \<Rightarrow> MAX_OUTBOX_OPERATIONS | Some m \<Rightarrow> m);
          fresh = filter (\<lambda>x. nowMs - physical (o_at x) \<le> maxAge) (ob_operations state);
          agedOut = length (ob_operations state) - length fresh;
          kept = (if int (length fresh) > maxOps then drop (nat (int (length fresh) - maxOps)) fresh
                  else fresh);
          overflow = length fresh - length kept;
          dropped = agedOut + overflow
      in if dropped = 0 then \<lparr>ob_operations = kept, ob_shedNotice = None\<rparr>
         else
           let parts =
                 (if agedOut > 0
                  then [show_int (int agedOut) @ '' older than ''
                        @ show_int (js_round (of_int maxAge / 86400000)) @ '' days''] else [])
                 @ (if overflow > 0
                    then [show_int (int overflow) @ '' beyond the '' @ show_int maxOps
                          @ ''-operation limit''] else [])
           in \<lparr>ob_operations = kept,
               ob_shedNotice =
                 Some (show_int (int dropped) @ '' queued change'' @ (if dropped = 1 then '''' else ''s'')
                   @ '' could not be sent and '' @ (if dropped = 1 then ''was'' else ''were'') @ '' dropped ''
                   @ ''('' @ join_parts parts @ ''). This device has refreshed from the server instead. ''
                   @ ''Anything you changed while offline that long may need redoing.'')\<rparr>)"

text \<open>\<open>SyncWording\<close> is the attempts of the queued operations, each possibly absent.\<close>

definition describeSyncState :: "nat option list \<Rightarrow> string" where
  "describeSyncState operations =
     (let stuck = length (filter (\<lambda>a. (case a of None \<Rightarrow> 0 | Some n \<Rightarrow> n) \<ge> ATTEMPTS_BEFORE_SURFACING) operations)
      in if stuck > 0 then
           show_int (int stuck) @ '' change'' @ (if stuck = 1 then '''' else ''s'')
             @ '' could not be sent '' @ em_dash @ '' open sync to see why.''
         else
           let pending = length operations
           in if pending = 0 then ''Everything is synced.''
              else show_int (int pending) @ '' change'' @ (if pending = 1 then '''' else ''s'')
                @ '' waiting to sync.'')"

section \<open>The batch\<close>

lemma batch_loop_keeps: "set batch \<subseteq> set (batch_loop limit claimed batch xs)"
  by (induction limit claimed batch xs rule: batch_loop.induct) (auto simp: Let_def)

lemma batch_loop_props:
  assumes "claimed = set (map o_itemId batch)" "distinct (map o_itemId batch)"
    and "int (length batch) < max 1 limit"
  shows "distinct (map o_itemId (batch_loop limit claimed batch xs))
    \<and> set (batch_loop limit claimed batch xs) \<subseteq> set batch \<union> set xs
    \<and> (\<forall>x \<in> set (batch_loop limit claimed batch xs). x \<notin> set batch \<longrightarrow>
         (\<exists>rest. filter (\<lambda>y. o_itemId y = o_itemId x) xs = x # rest))
    \<and> int (length (batch_loop limit claimed batch xs)) \<le> max 1 limit"
  using assms
proof (induction limit claimed batch xs rule: batch_loop.induct)
  case (1 limit claimed batch)
  then show ?case by simp
next
  case (2 limit claimed batch x rest)
  show ?case
  proof (cases "o_itemId x \<in> claimed")
    case True
    note IH = "2.IH"(1) [OF True "2.prems"]
    have own: "o_itemId y \<noteq> o_itemId x"
      if "y \<in> set (batch_loop limit claimed batch rest)" "y \<notin> set batch" for y
    proof
      assume eq: "o_itemId y = o_itemId x"
      from True "2.prems" obtain z where z: "z \<in> set batch" "o_itemId z = o_itemId x" by auto
      have "z \<in> set (batch_loop limit claimed batch rest)"
        using z(1) batch_loop_keeps by blast
      with IH that eq z show False by (metis distinct_map inj_onD)
    qed
    have "\<exists>r. filter (\<lambda>z. o_itemId z = o_itemId y) (x # rest) = y # r"
      if "y \<in> set (batch_loop limit claimed batch rest)" "y \<notin> set batch" for y
      using IH own [OF that] that by auto
    with IH True show ?thesis by auto
  next
    case False
    let ?b = "batch @ [x]"
    have p: "insert (o_itemId x) claimed = set (map o_itemId ?b)" "distinct (map o_itemId ?b)"
      using "2.prems" False by auto
    show ?thesis
    proof (cases "int (length ?b) \<ge> limit")
      case True
      with False p "2.prems" show ?thesis by auto
    next
      case nlim: False
      then have "int (length ?b) < max 1 limit" by simp
      note IH = "2.IH"(2) [OF False refl refl nlim p this]
      have "\<exists>r. filter (\<lambda>z. o_itemId z = o_itemId y) (x # rest) = y # r"
        if "y \<in> set (batch_loop limit (insert (o_itemId x) claimed) ?b rest)" "y \<notin> set batch" for y
      proof (cases "y = x")
        case True
        then show ?thesis by simp
      next
        case ne: False
        have "x \<in> set (batch_loop limit (insert (o_itemId x) claimed) ?b rest)"
          using batch_loop_keeps [of "?b" limit "insert (o_itemId x) claimed" rest] by auto
        with ne that IH have "o_itemId x \<noteq> o_itemId y" by (metis distinct_map inj_onD)
        with ne that IH show ?thesis by auto
      qed
      with False nlim IH show ?thesis by auto
    qed
  qed
qed

lemma filter_by_record_half:
  "filter (\<lambda>y. o_itemId y = i) (filter (\<lambda>y. P (o_itemId y)) xs)
   = (if P i then filter (\<lambda>y. o_itemId y = i) xs else [])"
  by (induction xs) auto

lemma filter_by_record:
  "filter (\<lambda>y. o_itemId y = i) (filter (\<lambda>y. P (o_itemId y)) xs @ filter (\<lambda>y. \<not> P (o_itemId y)) xs)
   = filter (\<lambda>y. o_itemId y = i) xs"
  by (simp only: filter_append filter_by_record_half [of i P xs]
      filter_by_record_half [of i "\<lambda>i. \<not> P i" xs]) simp

lemma nextBatch_props:
  "distinct (map o_itemId (nextBatch q n))"
  "set (nextBatch q n) \<subseteq> set (ob_operations q)"
  "x \<in> set (nextBatch q n) \<Longrightarrow> \<exists>rest. filter (\<lambda>y. o_itemId y = o_itemId x) (ob_operations q) = x # rest"
  "int (length (nextBatch q n)) \<le> max 1 n"
proof -
  obtain ord where b: "nextBatch q n = batch_loop n {} [] ord"
    and s: "set ord = set (ob_operations q)"
    and f: "\<And>i. filter (\<lambda>y. o_itemId y = i) ord = filter (\<lambda>y. o_itemId y = i) (ob_operations q)"
  proof -
    let ?r = "set (map o_itemId (filter (\<lambda>x. truthy (o_retryRequestedAt x)) (ob_operations q)))"
    let ?ord = "if ?r = {} then ob_operations q
        else filter (\<lambda>x. o_itemId x \<in> ?r) (ob_operations q) @ filter (\<lambda>x. o_itemId x \<notin> ?r) (ob_operations q)"
    have "nextBatch q n = batch_loop n {} [] ?ord"
      unfolding nextBatch_def Let_def ..
    moreover have "set ?ord = set (ob_operations q)" by auto
    moreover have "filter (\<lambda>y. o_itemId y = i) ?ord = filter (\<lambda>y. o_itemId y = i) (ob_operations q)" for i
      using filter_by_record [of i "\<lambda>i. i \<in> ?r" "ob_operations q"] by presburger
    ultimately show thesis by (rule that)
  qed
  note p = batch_loop_props [of "{}" "[]" n ord, simplified, folded b]
  show "distinct (map o_itemId (nextBatch q n))" "set (nextBatch q n) \<subseteq> set (ob_operations q)"
    "int (length (nextBatch q n)) \<le> max 1 n"
    using p s by auto
  show "x \<in> set (nextBatch q n) \<Longrightarrow> \<exists>rest. filter (\<lambda>y. o_itemId y = o_itemId x) (ob_operations q) = x # rest"
    using p f by auto
qed

section \<open>Shedding\<close>

lemma shed_operations:
  "ob_operations (shed q nowMs a m) =
     (let fresh = filter (\<lambda>x. nowMs - physical (o_at x) \<le> (case a of None \<Rightarrow> MAX_OUTBOX_AGE_MS | Some a \<Rightarrow> a))
                    (ob_operations q);
          k = (case m of None \<Rightarrow> MAX_OUTBOX_OPERATIONS | Some m \<Rightarrow> m)
      in if int (length fresh) > k then drop (nat (int (length fresh) - k)) fresh else fresh)"
  by (simp add: shed_def Let_def)

lemma shed_notice:
  "ob_shedNotice (shed q nowMs a m) = None \<longleftrightarrow> length (ob_operations (shed q nowMs a m)) = length (ob_operations q)"
proof -
  let ?f = "filter (\<lambda>x. nowMs - physical (o_at x) \<le> (case a of None \<Rightarrow> MAX_OUTBOX_AGE_MS | Some a \<Rightarrow> a))
      (ob_operations q)"
  let ?m = "case m of None \<Rightarrow> MAX_OUTBOX_OPERATIONS | Some m \<Rightarrow> m"
  let ?k = "if int (length ?f) > ?m then drop (nat (int (length ?f) - ?m)) ?f else ?f"
  have le: "length ?f \<le> length (ob_operations q)" "length ?k \<le> length ?f"
    by (simp_all add: length_filter_le)
  let ?d = "length (ob_operations q) - length ?f + (length ?f - length ?k)"
  have "ob_shedNotice (shed q nowMs a m) = None \<longleftrightarrow> ?d = 0"
  proof (cases "?d = 0")
    case True
    then show ?thesis
      unfolding shed_def Let_def if_P [OF True] by simp
  next
    case False
    then show ?thesis
      unfolding shed_def Let_def if_not_P [OF False] by (simp only: OutboxState.select_convs option.distinct False simp_thms)
  qed
  moreover have "ob_operations (shed q nowMs a m) = ?k"
    by (simp add: shed_operations Let_def)
  moreover have "(x - y + (y - z) = 0) = (z = x)" if "y \<le> x" "z \<le> y" for x y z :: nat
    using that by auto
  note this [OF le]
  ultimately show ?thesis by simp
qed

lemma shed_notice_text: "ob_shedNotice (shed q nowMs a m) = Some t \<Longrightarrow> t \<noteq> []"
  by (auto simp: shed_def Let_def split: if_splits)

lemma shed_drop_notice:
  assumes "x \<in> set (ob_operations q)" "x \<notin> set (ob_operations (shed q nowMs a m))"
  shows "truthy (ob_shedNotice (shed q nowMs a m))"
proof (cases "ob_shedNotice (shed q nowMs a m)")
  case None
  let ?f = "filter (\<lambda>x. nowMs - physical (o_at x) \<le> (case a of None \<Rightarrow> MAX_OUTBOX_AGE_MS | Some a \<Rightarrow> a))
      (ob_operations q)"
  obtain n where k: "ob_operations (shed q nowMs a m) = drop n ?f"
    by (simp add: shed_operations Let_def) (metis drop0)
  have l1: "length ?f \<le> length (ob_operations q)" by (rule length_filter_le)
  have l2: "length ?f - n = length (ob_operations q)" using None k shed_notice by (metis length_drop)
  have "n = 0 \<or> length (ob_operations q) = 0" using l1 l2 by linarith
  then have z: "n = 0 \<or> ob_operations q = []" by simp
  have "length ?f = length (ob_operations q)" using l1 l2 by linarith
  then have "?f = ob_operations q" by (metis length_filter_less order_less_irrefl filter_True)
  with assms k z show ?thesis by auto
next
  case (Some t)
  then show ?thesis using shed_notice_text [OF Some] by simp
qed

section \<open>Per-record order\<close>

text \<open>
  A queue's life: local writes enqueue, each under a key of its own (a key that is still
  queued changes nothing); a batch is taken and, however much later and whatever happened
  to the queue meanwhile, some of the operations ever taken are acknowledged; failures and
  retry requests rewrite an operation's bookkeeping; the queue is shed, under any bounds, and
  its notice is cleared. \<open>issued\<close> is what was enqueued, in order, \<open>sent\<close> what was
  acknowledged, in order, \<open>lost\<close> what was shed and \<open>taken\<close> the keys that were ever in a
  batch; an operation is identified by its key, record, kind, stamp and payload.
\<close>

type_synonym 'p op_tag = "string \<times> string \<times> OutboxKind \<times> hlc \<times> 'p"

definition op_tag :: "'p OutboxOperation \<Rightarrow> 'p op_tag" where
  "op_tag x = (o_idempotencyKey x, o_itemId x, o_kind x, o_at x, o_payload x)"

definition tags_of :: "string \<Rightarrow> 'p op_tag list \<Rightarrow> 'p op_tag list" where
  "tags_of item ts = filter (\<lambda>t. fst (snd t) = item) ts"

inductive outbox_reaches ::
  "'p op_tag list \<Rightarrow> 'p op_tag list \<Rightarrow> 'p op_tag list \<Rightarrow> string set \<Rightarrow> 'p OutboxState \<Rightarrow> bool"
where
  reach_empty: "outbox_reaches [] [] [] {} emptyOutbox"
| reach_again: "outbox_reaches issued sent lost taken q \<Longrightarrow>
    \<exists>x \<in> set (ob_operations q). o_idempotencyKey x = o_idempotencyKey x' \<Longrightarrow>
    outbox_reaches issued sent lost taken (enqueue q x')"
| reach_enqueue: "outbox_reaches issued sent lost taken q \<Longrightarrow>
    o_idempotencyKey x' \<notin> set (map fst issued) \<Longrightarrow>
    outbox_reaches (issued @ [op_tag x']) sent lost taken (enqueue q x')"
| reach_take: "outbox_reaches issued sent lost taken q \<Longrightarrow>
    outbox_reaches issued sent lost (taken \<union> set (map o_idempotencyKey (nextBatch q n))) q"
| reach_ack: "outbox_reaches issued sent lost taken q \<Longrightarrow> set keys \<subseteq> taken \<Longrightarrow>
    outbox_reaches issued
      (sent @ map op_tag (filter (\<lambda>x. o_idempotencyKey x \<in> set keys) (ob_operations q)))
      lost taken (acknowledge q keys)"
| reach_failure: "outbox_reaches issued sent lost taken q \<Longrightarrow>
    outbox_reaches issued sent lost taken (recordFailure q key err)"
| reach_retry: "outbox_reaches issued sent lost taken q \<Longrightarrow>
    outbox_reaches issued sent lost taken (requestOperationRetry q key t)"
| reach_shed: "outbox_reaches issued sent lost taken q \<Longrightarrow>
    outbox_reaches issued sent
      (lost @ map op_tag (filter (\<lambda>x. x \<notin> set (ob_operations (shed q nowMs a m))) (ob_operations q)))
      taken (shed q nowMs a m)"
| reach_notice: "outbox_reaches issued sent lost taken q \<Longrightarrow>
    outbox_reaches issued sent lost taken (q\<lparr>ob_shedNotice := told\<rparr>)"

lemma queue_tags [simp]:
  "map op_tag (ob_operations (recordFailure q key err)) = map op_tag (ob_operations q)"
  "map op_tag (ob_operations (requestOperationRetry q key t)) = map op_tag (ob_operations q)"
  by (simp_all add: recordFailure_def requestOperationRetry_def op_tag_def)

lemma tags_of_append [simp]: "tags_of i (xs @ ys) = tags_of i xs @ tags_of i ys"
  by (simp add: tags_of_def)

lemma tags_of_map: "tags_of i (map op_tag xs) = map op_tag (filter (\<lambda>x. o_itemId x = i) xs)"
  by (induction xs) (auto simp: tags_of_def op_tag_def)

lemma keys_from_tags: "map o_idempotencyKey xs = map fst (map op_tag xs)"
  by (simp add: op_tag_def)

lemma filter_head_first:
  assumes "\<And>x. x \<in> set xs \<Longrightarrow> P x \<Longrightarrow> \<exists>r. xs = x # r" "distinct xs"
  shows "filter P xs @ filter (\<lambda>x. \<not> P x) xs = xs"
proof (cases xs)
  case (Cons y r)
  have "\<not> P z" if "z \<in> set r" for z
    using assms(1) [of z] assms(2) that Cons by auto
  then have "filter P r = []" "filter (\<lambda>x. \<not> P x) r = r" by (simp_all add: filter_empty_conv)
  with Cons show ?thesis by simp
qed simp

lemma subseq_set: "subseq ys xs \<Longrightarrow> set ys \<subseteq> set xs"
  by (induction rule: list_emb.induct) auto

lemma issued_key:
  "set (map op_tag xs) \<subseteq> set issued \<Longrightarrow> x \<in> set xs \<Longrightarrow> o_idempotencyKey x \<in> set (map fst issued)"
proof -
  assume "set (map op_tag xs) \<subseteq> set issued" "x \<in> set xs"
  then have "op_tag x \<in> set issued" by auto
  then have "fst (op_tag x) \<in> set (map fst issued)" by (simp only: set_map image_eqI)
  then show ?thesis by (simp only: op_tag_def fst_conv)
qed

lemma subseq_is_filter: "subseq ys xs \<Longrightarrow> distinct xs \<Longrightarrow> ys = filter (\<lambda>x. x \<in> set ys) xs"
proof (induction rule: list_emb.induct)
  case (list_emb_Cons xs ys y)
  then have "set xs \<subseteq> set ys" "y \<notin> set ys" using subseq_set by auto
  then have "y \<notin> set xs" by blast
  with list_emb_Cons show ?case by simp
next
  case (list_emb_Cons2 x y xs ys)
  have "filter (\<lambda>z. z = y \<or> z \<in> set xs) ys = filter (\<lambda>z. z \<in> set xs) ys"
    by (rule filter_cong) (use list_emb_Cons2.prems in auto)
  with list_emb_Cons2 show ?case by simp
qed simp

lemma shed_subseq: "subseq (ob_operations (shed q nowMs a m)) (ob_operations q)"
proof -
  let ?f = "filter (\<lambda>x. nowMs - physical (o_at x) \<le> (case a of None \<Rightarrow> MAX_OUTBOX_AGE_MS | Some a \<Rightarrow> a))
      (ob_operations q)"
  obtain n where "ob_operations (shed q nowMs a m) = drop n ?f"
    by (simp add: shed_operations Let_def) (metis drop0)
  then have "subseq (ob_operations (shed q nowMs a m)) ?f" by (simp add: suffix_imp_subseq suffix_drop)
  then show ?thesis by (rule subseq_order.trans) (rule subseq_filter_left)
qed

text \<open>
  What holds of a queue all along: its keys are distinct, an operation that was ever taken is
  still the first of its record, and per record sent and queued make up what was issued and
  not shed.
\<close>

definition in_turn :: "string set \<Rightarrow> 'p OutboxOperation list \<Rightarrow> bool" where
  "in_turn taken xs \<longleftrightarrow> (\<forall>x \<in> set xs. o_idempotencyKey x \<in> taken \<longrightarrow>
     (\<exists>r. filter (\<lambda>y. o_itemId y = o_itemId x) xs = x # r))"

definition accounts_for ::
  "'p op_tag list \<Rightarrow> 'p op_tag list \<Rightarrow> 'p op_tag list \<Rightarrow> string set \<Rightarrow> 'p OutboxOperation list \<Rightarrow> bool"
where
  "accounts_for issued sent lost taken xs \<longleftrightarrow>
     distinct (map fst issued) \<and> set lost \<subseteq> set issued \<and> taken \<subseteq> set (map fst issued)
     \<and> distinct (map o_idempotencyKey xs) \<and> set (map op_tag xs) \<subseteq> set issued \<and> in_turn taken xs
     \<and> (\<forall>i. tags_of i sent @ tags_of i (map op_tag xs) = filter (\<lambda>t. t \<notin> set lost) (tags_of i issued))"

lemma in_turn_filter: "in_turn taken xs \<Longrightarrow> in_turn taken (filter P xs)"
  unfolding in_turn_def filter_filter
proof (intro ballI impI)
  fix x
  assume a: "\<forall>x\<in>set xs. o_idempotencyKey x \<in> taken \<longrightarrow>
      (\<exists>r. filter (\<lambda>y. o_itemId y = o_itemId x) xs = x # r)"
    and x: "x \<in> set (filter P xs)" "o_idempotencyKey x \<in> taken"
  then obtain r where "filter (\<lambda>y. o_itemId y = o_itemId x) xs = x # r" by auto
  then have "filter P (filter (\<lambda>y. o_itemId y = o_itemId x) xs) = x # filter P r" using x by simp
  then have "filter (\<lambda>y. o_itemId y = o_itemId x \<and> P y) xs = x # filter P r"
    by (simp only: filter_filter conj_commute)
  then show "\<exists>r. filter (\<lambda>y. P y \<and> o_itemId y = o_itemId x) xs = x # r"
    by (simp only: conj_commute) blast
qed

lemma in_turn_append:
  "in_turn taken xs \<Longrightarrow> o_idempotencyKey x' \<notin> taken \<Longrightarrow> in_turn taken (xs @ [x'])"
  by (auto simp: in_turn_def)

lemma in_turn_tags:
  assumes "in_turn taken xs" "map op_tag ys = map op_tag xs" "distinct (map o_idempotencyKey xs)"
  shows "in_turn taken ys"
  unfolding in_turn_def
proof (intro ballI impI)
  fix y
  assume y: "y \<in> set ys" "o_idempotencyKey y \<in> taken"
  have "op_tag y \<in> set (map op_tag xs)" using y assms(2) by (metis image_eqI set_map)
  then obtain x where x: "x \<in> set xs" "op_tag x = op_tag y" by auto
  then have k: "o_idempotencyKey x = o_idempotencyKey y" "o_itemId x = o_itemId y" by (auto simp: op_tag_def)
  then obtain r where "filter (\<lambda>z. o_itemId z = o_itemId y) xs = x # r"
    using assms(1) x y by (auto simp: in_turn_def)
  then have "tags_of (o_itemId y) (map op_tag ys) = op_tag y # map op_tag r"
    unfolding assms(2) tags_of_map using x by simp
  then obtain y' r' where f: "filter (\<lambda>z. o_itemId z = o_itemId y) ys = y' # r'" "op_tag y' = op_tag y"
    unfolding tags_of_map by (metis (no_types, lifting) list.sel(1) list.simps(9) map_is_Nil_conv neq_Nil_conv list.distinct(1))
  have "distinct (map o_idempotencyKey ys)" using assms(2,3) by (simp only: keys_from_tags)
  moreover have "y' \<in> set ys" using f(1) by (metis filter_eq_ConsD in_set_conv_decomp)
  moreover have "o_idempotencyKey y' = o_idempotencyKey y" using f(2) by (simp add: op_tag_def)
  ultimately have "y' = y" using y by (metis distinct_map inj_onD)
  with f show "\<exists>r. filter (\<lambda>z. o_itemId z = o_itemId y) ys = y # r" by blast
qed

lemma accounts_same_tags:
  "accounts_for issued sent lost taken xs \<Longrightarrow> map op_tag ys = map op_tag xs \<Longrightarrow>
   accounts_for issued sent lost taken ys"
  unfolding accounts_for_def using in_turn_tags [of taken xs ys] by (simp only: keys_from_tags simp_thms)

lemma accounts_enqueue:
  assumes "accounts_for issued sent lost taken xs" "o_idempotencyKey x' \<notin> set (map fst issued)"
  shows "accounts_for (issued @ [op_tag x']) sent lost taken (xs @ [x'])"
proof -
  note a = assms(1) [unfolded accounts_for_def]
  have "o_idempotencyKey x' \<notin> set (map o_idempotencyKey xs)"
    using a assms(2) issued_key [of xs issued] by auto
  moreover have fst: "fst (op_tag x') = o_idempotencyKey x'" by (simp add: op_tag_def)
  moreover have "op_tag x' \<notin> set lost"
  proof
    assume "op_tag x' \<in> set lost"
    then have "op_tag x' \<in> set issued" using a by blast
    then have "fst (op_tag x') \<in> set (map fst issued)" by (simp only: set_map image_eqI)
    with assms(2) fst show False by simp
  qed
  moreover have "o_idempotencyKey x' \<notin> taken" using a assms(2) by blast
  ultimately show ?thesis using a assms(2) in_turn_append [of taken xs x']
    by (auto simp: accounts_for_def tags_of_def)
qed

lemma accounts_take:
  assumes "accounts_for issued sent lost taken (ob_operations q)"
  shows "accounts_for issued sent lost (taken \<union> set (map o_idempotencyKey (nextBatch q n))) (ob_operations q)"
proof -
  note a = assms [unfolded accounts_for_def]
  have sub: "set (nextBatch q n) \<subseteq> set (ob_operations q)" by (rule nextBatch_props(2))
  have "set (map o_idempotencyKey (nextBatch q n)) \<subseteq> set (map fst issued)"
    using a sub issued_key [of "ob_operations q" issued] by auto
  moreover have "x \<in> set (nextBatch q n)"
    if x: "x \<in> set (ob_operations q)" "o_idempotencyKey x \<in> set (map o_idempotencyKey (nextBatch q n))" for x
  proof -
    obtain y where "y \<in> set (nextBatch q n)" "o_idempotencyKey y = o_idempotencyKey x" using x(2) by auto
    then show ?thesis using a sub x(1) by (metis distinct_map inj_onD subsetD)
  qed
  then have "in_turn (taken \<union> set (map o_idempotencyKey (nextBatch q n))) (ob_operations q)"
    using a nextBatch_props(3) unfolding in_turn_def by blast
  ultimately show ?thesis using a by (simp add: accounts_for_def)
qed

lemma accounts_ack:
  assumes "accounts_for issued sent lost taken xs" "set keys \<subseteq> taken"
  shows "accounts_for issued
      (sent @ map op_tag (filter (\<lambda>x. o_idempotencyKey x \<in> set keys) xs)) lost taken
      (filter (\<lambda>x. o_idempotencyKey x \<notin> set keys) xs)"
proof -
  note a = assms(1) [unfolded accounts_for_def]
  have rec: "filter (\<lambda>x. o_itemId x = i) (filter (\<lambda>x. o_idempotencyKey x \<in> set keys) xs)
      @ filter (\<lambda>x. o_itemId x = i) (filter (\<lambda>x. o_idempotencyKey x \<notin> set keys) xs)
      = filter (\<lambda>x. o_itemId x = i) xs" for i
  proof -
    have "filter (\<lambda>x. o_idempotencyKey x \<in> set keys) (filter (\<lambda>x. o_itemId x = i) xs)
      @ filter (\<lambda>x. o_idempotencyKey x \<notin> set keys) (filter (\<lambda>x. o_itemId x = i) xs)
      = filter (\<lambda>x. o_itemId x = i) xs"
    proof (rule filter_head_first)
      show "\<exists>r. filter (\<lambda>x. o_itemId x = i) xs = x # r"
        if "x \<in> set (filter (\<lambda>x. o_itemId x = i) xs)" "o_idempotencyKey x \<in> set keys" for x
        using a that assms(2) by (auto simp: in_turn_def)
      show "distinct (filter (\<lambda>x. o_itemId x = i) xs)" using a by (simp add: distinct_map)
    qed
    then show ?thesis by (simp add: conj_commute)
  qed
  have tags: "tags_of i (map op_tag (filter (\<lambda>x. o_idempotencyKey x \<in> set keys) xs))
      @ tags_of i (map op_tag (filter (\<lambda>x. o_idempotencyKey x \<notin> set keys) xs))
      = tags_of i (map op_tag xs)" for i
    unfolding tags_of_map map_append [symmetric] using rec [of i] by simp
  have "tags_of i (sent @ map op_tag (filter (\<lambda>x. o_idempotencyKey x \<in> set keys) xs))
      @ tags_of i (map op_tag (filter (\<lambda>x. o_idempotencyKey x \<notin> set keys) xs))
      = filter (\<lambda>t. t \<notin> set lost) (tags_of i issued)" for i
    using a tags [of i] by (metis append.assoc tags_of_append)
  moreover have "set (map op_tag (filter (\<lambda>x. o_idempotencyKey x \<notin> set keys) xs)) \<subseteq> set issued"
    using a by auto
  ultimately show ?thesis
    using a in_turn_filter [of taken xs] by (simp add: accounts_for_def distinct_map_filter)
qed

lemma accounts_shed:
  assumes acc: "accounts_for issued sent lost taken xs" and sub: "subseq ys xs"
  shows "accounts_for issued sent (lost @ map op_tag (filter (\<lambda>x. x \<notin> set ys) xs)) taken ys"
proof -
  note a = acc [unfolded accounts_for_def]
  let ?gone = "map op_tag (filter (\<lambda>x. x \<notin> set ys) xs)"
  have ys: "ys = filter (\<lambda>x. x \<in> set ys) xs" using sub a by (simp add: subseq_is_filter distinct_map)
  have inj: "inj_on op_tag (set xs)"
    using a by (auto simp: distinct_map inj_on_def op_tag_def)
  have out: "filter (\<lambda>t. t \<notin> set ?gone) (map op_tag (filter (\<lambda>x. o_itemId x = i) xs))
      = map op_tag (filter (\<lambda>x. o_itemId x = i) ys)" for i
  proof -
    have "op_tag x \<in> set ?gone \<longleftrightarrow> x \<notin> set ys" if "x \<in> set xs" for x
      using that inj by (auto dest: inj_onD)
    then have "filter (\<lambda>t. t \<notin> set ?gone) (map op_tag (filter (\<lambda>x. o_itemId x = i) xs))
        = map op_tag (filter (\<lambda>x. x \<in> set ys) (filter (\<lambda>x. o_itemId x = i) xs))"
      unfolding filter_map comp_def by (intro arg_cong [of _ _ "map op_tag"] filter_cong) auto
    also have "\<dots> = map op_tag (filter (\<lambda>x. o_itemId x = i) ys)"
      by (subst ys) (simp add: conj_commute)
    finally show ?thesis .
  qed
  have "tags_of i sent @ tags_of i (map op_tag ys)
      = filter (\<lambda>t. t \<notin> set (lost @ ?gone)) (tags_of i issued)" for i
  proof -
    have eq: "tags_of i sent @ map op_tag (filter (\<lambda>x. o_itemId x = i) xs)
        = filter (\<lambda>t. t \<notin> set lost) (tags_of i issued)"
      using a by (simp add: tags_of_map)
    have "distinct issued" using a by (simp add: distinct_map)
    then have "distinct (filter (\<lambda>t. t \<notin> set lost) (tags_of i issued))" by (simp add: tags_of_def)
    then have d: "distinct (tags_of i sent @ map op_tag (filter (\<lambda>x. o_itemId x = i) xs))" unfolding eq .
    have "t \<notin> set ?gone" if "t \<in> set (tags_of i sent)" for t
    proof
      assume "t \<in> set ?gone"
      then obtain x where "x \<in> set xs" "t = op_tag x" by auto
      moreover have "fst (snd t) = i" using that by (simp add: tags_of_def)
      ultimately have "t \<in> set (map op_tag (filter (\<lambda>x. o_itemId x = i) xs))" by (auto simp: op_tag_def)
      with d that show False by auto
    qed
    then have keep: "filter (\<lambda>t. t \<notin> set ?gone) (tags_of i sent) = tags_of i sent" by (simp add: filter_id_conv)
    have "filter (\<lambda>t. t \<notin> set (lost @ ?gone)) (tags_of i issued)
        = filter (\<lambda>t. t \<notin> set ?gone) (filter (\<lambda>t. t \<notin> set lost) (tags_of i issued))"
      by (simp only: filter_filter set_append Un_iff de_Morgan_disj)
    also have "\<dots> = tags_of i sent @ map op_tag (filter (\<lambda>x. o_itemId x = i) ys)"
      unfolding eq [symmetric] filter_append keep out ..
    finally show ?thesis by (simp add: tags_of_map)
  qed
  moreover have "set (lost @ ?gone) \<subseteq> set issued" "set (map op_tag ys) \<subseteq> set issued"
    using a subseq_set [OF sub] unfolding set_map set_append set_filter by blast+
  moreover have "in_turn taken ys" using a by (subst ys) (rule in_turn_filter, blast)
  moreover have "distinct (map o_idempotencyKey ys)" using a by (subst ys) (simp add: distinct_map_filter)
  ultimately show ?thesis using a unfolding accounts_for_def by blast
qed

lemma outbox_reaches_accounts:
  "outbox_reaches issued sent lost taken q \<Longrightarrow> accounts_for issued sent lost taken (ob_operations q)"
proof (induction rule: outbox_reaches.induct)
  case reach_empty
  show ?case by (simp add: accounts_for_def emptyOutbox_def tags_of_def in_turn_def)
next
  case (reach_again issued sent lost taken q x')
  then show ?case by (simp add: enqueue_def)
next
  case (reach_enqueue issued sent lost taken q x')
  have "\<not> (\<exists>x \<in> set (ob_operations q). o_idempotencyKey x = o_idempotencyKey x')"
  proof
    assume "\<exists>x \<in> set (ob_operations q). o_idempotencyKey x = o_idempotencyKey x'"
    then obtain x where "x \<in> set (ob_operations q)" "o_idempotencyKey x = o_idempotencyKey x'" ..
    moreover have "set (map op_tag (ob_operations q)) \<subseteq> set issued"
      using reach_enqueue.IH by (simp add: accounts_for_def)
    ultimately have "o_idempotencyKey x' \<in> set (map fst issued)" using issued_key by metis
    with reach_enqueue.hyps(2) show False by simp
  qed
  then show ?case using accounts_enqueue [OF reach_enqueue.IH reach_enqueue.hyps(2)]
    by (simp add: enqueue_def)
next
  case (reach_take issued sent lost taken q n)
  from reach_take.IH show ?case by (rule accounts_take)
next
  case (reach_ack issued sent lost taken q keys)
  then show ?case using accounts_ack by (fastforce simp: acknowledge_def)
next
  case (reach_failure issued sent lost taken q key err)
  from reach_failure.IH show ?case by (rule accounts_same_tags) simp
next
  case (reach_retry issued sent lost taken q key t)
  from reach_retry.IH show ?case by (rule accounts_same_tags) simp
next
  case (reach_shed issued sent lost taken q nowMs a m)
  show ?case using reach_shed.IH shed_subseq by (rule accounts_shed)
next
  case (reach_notice issued sent lost taken q told)
  then show ?case by simp
qed

section \<open>Properties\<close>

text \<open>
  C3. Two edits to one record are never reordered and none is skipped. However a queue came
  to its state - keys are used once, acknowledgements name operations that were in some batch
  taken before, at any later time, and the queue may be shed in between - what the server
  acknowledged of a record followed by what is still queued for it is exactly what was issued
  for it and not shed, in the order it was issued.
\<close>

theorem outbox_keeps_record_order:
  assumes "outbox_reaches issued sent lost taken q"
  shows "tags_of i sent @ map op_tag (filter (\<lambda>x. o_itemId x = i) (ob_operations q))
    = filter (\<lambda>t. t \<notin> set lost) (tags_of i issued)"
  using outbox_reaches_accounts [OF assms] by (simp add: accounts_for_def tags_of_map)

definition demo_op :: "string \<Rightarrow> string \<Rightarrow> int \<Rightarrow> unit OutboxOperation" where
  "demo_op key item t =
     \<lparr>o_idempotencyKey = key, o_itemId = item, o_entity = None, o_kind = op_update,
      o_at = demo_stamp t ''x'', o_payload = (), o_attempts = 0, o_lastError = None,
      o_retryRequestedAt = None\<rparr>"

definition demo_queue :: "unit OutboxState" where
  "demo_queue = enqueue (enqueue emptyOutbox (demo_op ''k1'' ''i'' 1)) (demo_op ''k2'' ''i'' 2)"

definition demo_shed :: "unit OutboxState" where
  "demo_shed = shed (enqueue demo_queue (demo_op ''k3'' ''i'' 3)) 3 None (Some 2)"

lemma demo_queue_reached:
  "outbox_reaches [op_tag (demo_op ''k1'' ''i'' 1), op_tag (demo_op ''k2'' ''i'' 2), op_tag (demo_op ''k3'' ''i'' 3)]
     [op_tag (demo_op ''k2'' ''i'' 2)] [op_tag (demo_op ''k1'' ''i'' 1)] {''k2''} (acknowledge demo_shed [''k2''])"
proof -
  have 1: "outbox_reaches [op_tag (demo_op ''k1'' ''i'' 1)] [] [] {} (enqueue emptyOutbox (demo_op ''k1'' ''i'' 1))"
    using reach_enqueue [OF reach_empty, of "demo_op ''k1'' ''i'' 1"] by simp
  from reach_enqueue [OF 1, of "demo_op ''k2'' ''i'' 2"]
  have 2: "outbox_reaches [op_tag (demo_op ''k1'' ''i'' 1), op_tag (demo_op ''k2'' ''i'' 2)] [] [] {} demo_queue"
    by (simp add: demo_queue_def op_tag_def demo_op_def)
  from reach_enqueue [OF 2, of "demo_op ''k3'' ''i'' 3"]
  have 3: "outbox_reaches [op_tag (demo_op ''k1'' ''i'' 1), op_tag (demo_op ''k2'' ''i'' 2), op_tag (demo_op ''k3'' ''i'' 3)]
      [] [] {} (enqueue demo_queue (demo_op ''k3'' ''i'' 3))"
    by (simp add: op_tag_def demo_op_def)
  have q: "ob_operations (enqueue demo_queue (demo_op ''k3'' ''i'' 3))
      = [demo_op ''k1'' ''i'' 1, demo_op ''k2'' ''i'' 2, demo_op ''k3'' ''i'' 3]"
    by (simp add: demo_queue_def enqueue_def emptyOutbox_def demo_op_def)
  have s: "ob_operations demo_shed = [demo_op ''k2'' ''i'' 2, demo_op ''k3'' ''i'' 3]"
    unfolding demo_shed_def shed_operations q
    by (simp add: demo_op_def demo_stamp_def MAX_OUTBOX_AGE_MS_def)
  from reach_shed [OF 3, of 3 None "Some 2", folded demo_shed_def, unfolded s q]
  have 4: "outbox_reaches [op_tag (demo_op ''k1'' ''i'' 1), op_tag (demo_op ''k2'' ''i'' 2), op_tag (demo_op ''k3'' ''i'' 3)]
      [] [op_tag (demo_op ''k1'' ''i'' 1)] {} demo_shed"
    by (simp add: demo_op_def)
  have b: "nextBatch demo_shed 25 = [demo_op ''k2'' ''i'' 2]"
    by (simp add: nextBatch_def s demo_op_def Let_def)
  from reach_take [OF 4, of 25, unfolded b]
  have 5: "outbox_reaches [op_tag (demo_op ''k1'' ''i'' 1), op_tag (demo_op ''k2'' ''i'' 2), op_tag (demo_op ''k3'' ''i'' 3)]
      [] [op_tag (demo_op ''k1'' ''i'' 1)] {''k2''} demo_shed"
    by (simp add: demo_op_def)
  show ?thesis using reach_ack [OF 5, of "[''k2'']", unfolded s] by (simp add: demo_op_def)
qed

theorem outbox_keeps_record_order_witness:
  "map op_tag (filter (\<lambda>x. o_itemId x = ''i'') (ob_operations (acknowledge demo_shed [''k2''])))
   = [op_tag (demo_op ''k3'' ''i'' 3)]"
  using outbox_keeps_record_order [OF demo_queue_reached, of "''i''"]
  by (simp add: tags_of_def op_tag_def demo_op_def)

text \<open>
  Nothing queued is shed in silence: an operation that is gone after shedding leaves a
  notice; what stays is within both bounds, in its order; and a queue within both bounds is
  left as it is.
\<close>

theorem shed_is_announced:
  assumes kept: "k = ob_operations (shed q nowMs (Some age) (Some cap))" and cap: "0 \<le> cap"
  shows "(ob_shedNotice (shed q nowMs (Some age) (Some cap)) = None \<longleftrightarrow> k = ob_operations q)
    \<and> subseq k (ob_operations q) \<and> int (length k) \<le> cap
    \<and> (\<forall>x \<in> set k. nowMs - physical (o_at x) \<le> age)
    \<and> (int (length (ob_operations q)) \<le> cap \<and> (\<forall>x \<in> set (ob_operations q). nowMs - physical (o_at x) \<le> age)
        \<longrightarrow> k = ob_operations q)"
proof -
  let ?f = "filter (\<lambda>x. nowMs - physical (o_at x) \<le> age) (ob_operations q)"
  have k: "k = (if int (length ?f) > cap then drop (nat (int (length ?f) - cap)) ?f else ?f)"
    unfolding kept by (simp add: shed_operations Let_def)
  have sub: "subseq k (ob_operations q)"
  proof -
    have "subseq k ?f" unfolding k by (simp add: suffix_imp_subseq suffix_drop)
    then show ?thesis by (rule subseq_order.trans) (rule subseq_filter_left)
  qed
  then have "length k = length (ob_operations q) \<longleftrightarrow> k = ob_operations q"
    by (metis list_emb_length subseq_same_length)
  then have notice: "ob_shedNotice (shed q nowMs (Some age) (Some cap)) = None \<longleftrightarrow> k = ob_operations q"
    unfolding shed_notice kept by simp
  have len: "int (length k) \<le> cap" unfolding k using cap by auto
  have age: "\<forall>x \<in> set k. nowMs - physical (o_at x) \<le> age"
    unfolding k by (auto dest: in_set_dropD)
  have "k = ob_operations q"
    if "int (length (ob_operations q)) \<le> cap" "\<forall>x \<in> set (ob_operations q). nowMs - physical (o_at x) \<le> age"
  proof -
    have "?f = ob_operations q" using that(2) by (auto simp: filter_id_conv)
    with that(1) show ?thesis unfolding k by simp
  qed
  with notice sub len age show ?thesis by blast
qed

theorem shed_is_announced_witness:
  "ob_operations (shed demo_queue 100 (Some 98) (Some 500)) = [demo_op ''k2'' ''i'' 2]
   \<and> ob_shedNotice (shed demo_queue 100 (Some 98) (Some 500)) \<noteq> None"
proof -
  have q: "ob_operations demo_queue = [demo_op ''k1'' ''i'' 1, demo_op ''k2'' ''i'' 2]"
    by (simp add: demo_queue_def enqueue_def emptyOutbox_def demo_op_def)
  have "ob_operations (shed demo_queue 100 (Some 98) (Some 500)) = [demo_op ''k2'' ''i'' 2]"
    by (simp add: shed_operations q demo_op_def demo_stamp_def)
  then show ?thesis
    using shed_is_announced [OF refl, of 500 demo_queue 100 98] by (simp add: q)
qed

end
