(* ===== verification/RecordSync.thy ===== *)
theory RecordSync
  imports Outbox
begin

text \<open>
  The sync engine shared by the planner and the notes,
  \<open>packages/core/src/sync/recordSync.ts\<close>: shed, pull, merge, push, and never lose a queued
  operation. The engine reads three fields of a surface's state, so the state is an
  extensible record; how the surface stores and merges its records is a record of functions,
  and what the engine needs of them is the interface \<open>sync_records\<close>, which the planner and
  the notes discharge in \<open>SurfaceSync\<close>. The network is a parameter: a call of it takes the
  state before the \<open>await\<close> and returns the state after it (other code may run in between)
  with the response, or \<open>None\<close> when it throws. The push response is an untyped value, as the
  code treats it.
\<close>

record 'p SyncState =
  ss_clock :: hlc
  ss_lastPulledAt :: "string option"
  ss_outbox :: "'p OutboxState"

record 't PullResponse =
  pr_items :: "'t list"
  pr_cursor :: string
  pr_serverClock :: "hlc option"

record ('s, 't, 'p) SyncTransport =
  tr_pull :: "'s \<Rightarrow> string option \<Rightarrow> 's \<times> 't PullResponse option"
  tr_push :: "'s \<Rightarrow> 'p OutboxOperation list \<Rightarrow> 's \<times> js option"

record ('s, 't) SyncRecords =
  sr_idOf :: "'t \<Rightarrow> string"
  sr_read :: "'s \<Rightarrow> string \<Rightarrow> 't option"
  sr_write :: "'s \<Rightarrow> string \<Rightarrow> 't \<Rightarrow> 's"
  sr_merge :: "'t \<Rightarrow> 't \<Rightarrow> string \<Rightarrow> 't \<times> bool"
  sr_observedClock :: "'t \<Rightarrow> hlc option"
  sr_afterApply :: "'s \<Rightarrow> 't \<Rightarrow> 's"

record SyncResult =
  r_pulled :: nat
  r_pushed :: nat
  r_rejected :: "(string \<times> string) list"
  r_conflicted :: "string list"
  r_shedNotice :: "string option"
  r_clockNotice :: "string option"
  r_offline :: bool

definition applyRemoteRecord ::
  "'s \<Rightarrow> 't \<Rightarrow> string \<Rightarrow> ('s, 't) SyncRecords \<Rightarrow> 's \<times> bool"
where
  "applyRemoteRecord state remote fetchedAt records =
     (let i = sr_idOf records remote
      in case sr_read records state i of
           None \<Rightarrow> (sr_afterApply records (sr_write records state i remote) remote, False)
         | Some loc \<Rightarrow>
             let merged = sr_merge records loc remote fetchedAt
             in (sr_afterApply records (sr_write records state i (fst merged)) (fst merged), snd merged))"

section \<open>Checking an acknowledgement\<close>

text \<open>The two loops of \<open>invalidPushPartition\<close>: the keys seen so far, or the message returned.\<close>

fun check_accepted :: "string set \<Rightarrow> string set \<Rightarrow> js list \<Rightarrow> string + string set" where
  "check_accepted expected seen [] = Inr seen"
| "check_accepted expected seen (JStr key # rest) =
     (if key \<notin> expected \<or> key \<in> seen
      then Inl ''The server acknowledged an unknown or duplicate Planner operation.''
      else check_accepted expected (insert key seen) rest)"
| "check_accepted expected seen (_ # rest) =
     Inl ''The server acknowledged an unknown or duplicate Planner operation.''"

fun check_rejected :: "string set \<Rightarrow> string set \<Rightarrow> js list \<Rightarrow> string + string set" where
  "check_rejected expected seen [] = Inr seen"
| "check_rejected expected seen (rejection # rest) =
     (if \<not> js_is_record rejection then Inl ''The server returned an invalid Planner rejection.''
      else
        (case (js_get rejection ''idempotencyKey'', js_get rejection ''reason'') of
           (JStr key, JStr reason) \<Rightarrow>
             if key \<notin> expected \<or> key \<in> seen \<or> js_trim reason = []
             then Inl ''The server rejected an unknown or duplicate Planner operation.''
             else check_rejected expected (insert key seen) rest
         | _ \<Rightarrow> Inl ''The server rejected an unknown or duplicate Planner operation.''))"

definition invalidPushPartition :: "'p OutboxOperation list \<Rightarrow> js \<Rightarrow> string option" where
  "invalidPushPartition batch response =
     (if \<not> js_is_record response then Some ''The server returned an invalid Planner acknowledgement.''
      else
        (case (js_get response ''accepted'', js_get response ''rejected'') of
           (JArr accepted, JArr rejected) \<Rightarrow>
             (let expected = set (map o_idempotencyKey batch)
              in if card expected \<noteq> length batch
                 then Some ''The Planner batch contains duplicate idempotency keys.''
                 else
                   (case check_accepted expected {} accepted of
                      Inl message \<Rightarrow> Some message
                    | Inr seen1 \<Rightarrow>
                        (case check_rejected expected seen1 rejected of
                           Inl message \<Rightarrow> Some message
                         | Inr seen2 \<Rightarrow>
                             if card seen2 = card expected then None
                             else Some ''The server omitted a Planner operation from its acknowledgement.'')))
         | _ \<Rightarrow> Some ''The server returned an incomplete Planner acknowledgement.''))"

text \<open>What a response that passed the check holds.\<close>

fun js_strings :: "js \<Rightarrow> string list" where
  "js_strings (JArr xs) = concat (map (\<lambda>x. case x of JStr s \<Rightarrow> [s] | _ \<Rightarrow> []) xs)"
| "js_strings _ = []"

definition js_text :: "js \<Rightarrow> string" where
  "js_text v = (case v of JStr s \<Rightarrow> s | _ \<Rightarrow> '''')"

fun js_rejections :: "js \<Rightarrow> (string \<times> string) list" where
  "js_rejections (JArr xs) = map (\<lambda>x. (js_text (js_get x ''idempotencyKey''), js_text (js_get x ''reason''))) xs"
| "js_rejections _ = []"

section \<open>One cycle\<close>

definition pull_item ::
  "(('p, 'z) SyncState_scheme, 't) SyncRecords \<Rightarrow> int \<Rightarrow> 't
     \<Rightarrow> ('p, 'z) SyncState_scheme \<times> SyncResult \<Rightarrow> ('p, 'z) SyncState_scheme \<times> SyncResult"
where
  "pull_item records nowMs remote acc =
     (let (state, result) = acc;
          state1 = (case sr_observedClock records remote of
                      None \<Rightarrow> state
                    | Some observed \<Rightarrow> state\<lparr>ss_clock := hlcReceive (ss_clock state) observed nowMs\<rparr>);
          (state2, conflicted) = applyRemoteRecord state1 remote (iso_of_ms nowMs) records
      in (state2,
          result\<lparr>r_pulled := r_pulled result + 1,
            r_conflicted := (if conflicted then r_conflicted result @ [sr_idOf records remote]
                             else r_conflicted result)\<rparr>))"

definition fail_batch ::
  "string \<Rightarrow> 'p OutboxOperation list \<Rightarrow> ('p, 'z) SyncState_scheme \<Rightarrow> ('p, 'z) SyncState_scheme"
where
  "fail_batch reason batch state =
     fold (\<lambda>x s. s\<lparr>ss_outbox := recordFailure (ss_outbox s) (o_idempotencyKey x) reason\<rparr>) batch state"

definition reject_operation ::
  "string \<times> string \<Rightarrow> ('p, 'z) SyncState_scheme \<times> SyncResult \<Rightarrow> ('p, 'z) SyncState_scheme \<times> SyncResult"
where
  "reject_operation rejection acc =
     ((fst acc)\<lparr>ss_outbox := recordFailure (ss_outbox (fst acc)) (fst rejection) (snd rejection)\<rparr>,
      (snd acc)\<lparr>r_rejected := r_rejected (snd acc) @ [rejection]\<rparr>)"

text \<open>The push half of the cycle, from the state the pull left.\<close>

definition push_phase ::
  "(('p, 'z) SyncState_scheme, 't, 'p) SyncTransport
     \<Rightarrow> ('p, 'z) SyncState_scheme \<times> SyncResult \<Rightarrow> ('p, 'z) SyncState_scheme \<times> SyncResult"
where
  "push_phase transport acc =
     (let (state, result) = acc;
          batch = nextBatch (ss_outbox state) 25
      in if batch = [] then (state, result)
         else
           let (state1, response) = tr_push transport state batch
           in case response of
                None \<Rightarrow>
                  (fail_batch ''Could not reach the server.'' batch state1, result\<lparr>r_offline := True\<rparr>)
              | Some push \<Rightarrow>
                  (case invalidPushPartition batch push of
                     Some invalid \<Rightarrow>
                       (fail_batch invalid batch state1,
                        result\<lparr>r_rejected := r_rejected result @ map (\<lambda>x. (o_idempotencyKey x, invalid)) batch\<rparr>)
                   | None \<Rightarrow>
                       fold reject_operation (js_rejections (js_get push ''rejected''))
                         (state1\<lparr>ss_outbox := acknowledge (ss_outbox state1) (js_strings (js_get push ''accepted''))\<rparr>,
                          result\<lparr>r_pushed := length (js_strings (js_get push ''accepted''))\<rparr>)))"

text \<open>What a pull does to the state the \<open>await\<close> left and to the result so far.\<close>

definition absorb_pull ::
  "(('p, 'z) SyncState_scheme, 't) SyncRecords \<Rightarrow> int \<Rightarrow> 't PullResponse
     \<Rightarrow> ('p, 'z) SyncState_scheme \<times> SyncResult \<Rightarrow> ('p, 'z) SyncState_scheme \<times> SyncResult"
where
  "absorb_pull records nowMs pull acc =
     (let (state1, result0) = acc;
          result1 = (case pr_serverClock pull of
                       None \<Rightarrow> result0
                     | Some server \<Rightarrow>
                         let notice = describeSkew (clockSkewMs (ss_clock state1) server)
                         in if truthy notice then result0\<lparr>r_clockNotice := notice\<rparr> else result0);
          state2 = (case pr_serverClock pull of
                      None \<Rightarrow> state1
                    | Some server \<Rightarrow> state1\<lparr>ss_clock := hlcReceive (ss_clock state1) server nowMs\<rparr>);
          (state3, result2) = fold (pull_item records nowMs) (pr_items pull) (state2, result1)
      in (state3\<lparr>ss_lastPulledAt := Some (pr_cursor pull)\<rparr>, result2))"

definition syncRecords ::
  "('p, 'z) SyncState_scheme \<Rightarrow> (('p, 'z) SyncState_scheme, 't, 'p) SyncTransport
     \<Rightarrow> (('p, 'z) SyncState_scheme, 't) SyncRecords \<Rightarrow> int \<Rightarrow> ('p, 'z) SyncState_scheme \<times> SyncResult"
where
  "syncRecords state transport records nowMs =
     (let shedded = shed (ss_outbox state) nowMs None None;
          state0 = state\<lparr>ss_outbox := \<lparr>ob_operations = ob_operations shedded, ob_shedNotice = None\<rparr>\<rparr>;
          result0 = \<lparr>r_pulled = 0, r_pushed = 0, r_rejected = [], r_conflicted = [],
                     r_shedNotice = (if truthy (ob_shedNotice shedded) then ob_shedNotice shedded else None),
                     r_clockNotice = None, r_offline = False\<rparr>;
          (state1, response) = tr_pull transport state0 (ss_lastPulledAt state0)
      in case response of
           None \<Rightarrow> (state1, result0\<lparr>r_offline := True\<rparr>)
         | Some pull \<Rightarrow> push_phase transport (absorb_pull records nowMs pull (state1, result0)))"

definition isFirstSync :: "('p, 'z) SyncState_scheme \<Rightarrow> bool" where
  "isFirstSync state \<longleftrightarrow> \<not> truthy (ss_lastPulledAt state)"

definition describeRecordSync :: "SyncResult \<Rightarrow> 'p OutboxState \<Rightarrow> string \<Rightarrow> string" where
  "describeRecordSync result outbox noun =
     (if r_conflicted result \<noteq> [] then
        let n = length (r_conflicted result)
        in show_int (int n) @ '' '' @ noun @ (if n = 1 then '''' else ''s'')
             @ '' changed in two places '' @ em_dash @ '' pick which version to keep.''
      else if truthy (r_shedNotice result) then the (r_shedNotice result)
      else
        let stuck = length (stuckOperations outbox)
        in if stuck > 0 then
             show_int (int stuck) @ '' change'' @ (if stuck = 1 then '''' else ''s'')
               @ '' could not be sent '' @ em_dash @ '' open sync to see why.''
           else if truthy (r_clockNotice result) then the (r_clockNotice result)
           else if r_offline result then
             let pending = length (ob_operations outbox)
             in if pending > 0
                then show_int (int pending) @ '' change'' @ (if pending = 1 then '''' else ''s'') @ '' waiting to sync.''
                else ''Working offline.''
           else if r_pulled result = 0 \<and> r_pushed result = 0 then ''Everything is synced.''
           else ''Synced '' @ em_dash @ '' '' @ show_int (int (r_pulled result)) @ '' in, ''
             @ show_int (int (r_pushed result)) @ '' out.'')"

section \<open>What the queue keeps\<close>

lemma fail_batch_tags:
  "map op_tag (ob_operations (ss_outbox (fail_batch reason batch s))) = map op_tag (ob_operations (ss_outbox s))"
  by (induction batch arbitrary: s) (simp_all add: fail_batch_def)

lemma fold_reject_tags:
  "map op_tag (ob_operations (ss_outbox (fst (fold reject_operation rs acc))))
   = map op_tag (ob_operations (ss_outbox (fst acc)))"
  by (induction rs arbitrary: acc) (simp_all add: reject_operation_def)

lemma fold_reject_result:
  "r_shedNotice (snd (fold reject_operation rs acc)) = r_shedNotice (snd acc)"
  by (induction rs arbitrary: acc) (simp_all add: reject_operation_def)

text \<open>The transport may run other code while it waits; that code only queues more work.\<close>

definition only_enqueues ::
  "(('p, 'z) SyncState_scheme, 't, 'p) SyncTransport \<Rightarrow> bool"
where
  "only_enqueues transport \<longleftrightarrow>
     (\<forall>s since. \<exists>more. ob_operations (ss_outbox (fst (tr_pull transport s since)))
                       = ob_operations (ss_outbox s) @ more)
     \<and> (\<forall>s batch. \<exists>more. ob_operations (ss_outbox (fst (tr_push transport s batch)))
                       = ob_operations (ss_outbox s) @ more)"

text \<open>
  The push out of this very state: its batch holds the operation, and the acknowledgement it
  gets is valid for that batch and accepts the operation's key.
\<close>

definition push_accepts ::
  "(('p, 'z) SyncState_scheme, 't, 'p) SyncTransport \<Rightarrow> ('p, 'z) SyncState_scheme \<Rightarrow> string \<Rightarrow> bool"
where
  "push_accepts transport state key =
     (let batch = nextBatch (ss_outbox state) 25
      in key \<in> set (map o_idempotencyKey batch)
         \<and> (case snd (tr_push transport state batch) of
              None \<Rightarrow> False
            | Some push \<Rightarrow>
                invalidPushPartition batch push = None
                \<and> key \<in> set (js_strings (js_get push ''accepted''))))"

text \<open>The state a cycle pushes from, \<open>None\<close> when its pull fails and nothing is pushed.\<close>

definition pushing_state ::
  "('p, 'z) SyncState_scheme \<Rightarrow> (('p, 'z) SyncState_scheme, 't, 'p) SyncTransport
     \<Rightarrow> (('p, 'z) SyncState_scheme, 't) SyncRecords \<Rightarrow> int
     \<Rightarrow> (('p, 'z) SyncState_scheme \<times> SyncResult) option"
where
  "pushing_state state transport records nowMs =
     (let shedded = shed (ss_outbox state) nowMs None None;
          state0 = state\<lparr>ss_outbox := \<lparr>ob_operations = ob_operations shedded, ob_shedNotice = None\<rparr>\<rparr>;
          result0 = \<lparr>r_pulled = 0, r_pushed = 0, r_rejected = [], r_conflicted = [],
                     r_shedNotice = (if truthy (ob_shedNotice shedded) then ob_shedNotice shedded else None),
                     r_clockNotice = None, r_offline = False\<rparr>;
          (state1, response) = tr_pull transport state0 (ss_lastPulledAt state0)
      in map_option (\<lambda>pull. absorb_pull records nowMs pull (state1, result0)) response)"

lemma sync_pushes_from:
  "pushing_state state transport records nowMs = Some acc \<Longrightarrow>
   syncRecords state transport records nowMs = push_phase transport acc"
  by (auto simp: pushing_state_def syncRecords_def Let_def split: prod.splits)

text \<open>This cycle's own exchange accepted the operation.\<close>

definition accepted_in_cycle ::
  "('p, 'z) SyncState_scheme \<Rightarrow> (('p, 'z) SyncState_scheme, 't, 'p) SyncTransport
     \<Rightarrow> (('p, 'z) SyncState_scheme, 't) SyncRecords \<Rightarrow> int \<Rightarrow> string \<Rightarrow> bool"
where
  "accepted_in_cycle state transport records nowMs key =
     (case pushing_state state transport records nowMs of
        None \<Rightarrow> False
      | Some acc \<Rightarrow> push_accepts transport (fst acc) key)"

text \<open>This cycle shed the operation, and its result carries the notice that says so.\<close>

definition shed_in_cycle ::
  "('p, 'z) SyncState_scheme \<Rightarrow> int \<Rightarrow> SyncResult \<Rightarrow> 'p OutboxOperation \<Rightarrow> bool"
where
  "shed_in_cycle state nowMs result x \<longleftrightarrow>
     x \<notin> set (ob_operations (shed (ss_outbox state) nowMs None None))
     \<and> r_shedNotice result = ob_shedNotice (shed (ss_outbox state) nowMs None None)
     \<and> truthy (r_shedNotice result)"

lemma check_accepted_sound:
  "check_accepted expected seen xs = Inr r \<Longrightarrow>
   set (concat (map (\<lambda>x. case x of JStr s \<Rightarrow> [s] | _ \<Rightarrow> []) xs)) \<subseteq> expected"
  by (induction expected seen xs rule: check_accepted.induct) (auto split: if_splits)

lemma valid_partition_accepts:
  assumes "invalidPushPartition batch response = None"
  shows "set (js_strings (js_get response ''accepted'')) \<subseteq> set (map o_idempotencyKey batch)"
  using assms check_accepted_sound
  by (auto simp: invalidPushPartition_def Let_def split: if_splits js.splits sum.splits)

lemma push_phase_keeps:
  fixes state :: "('p, 'z) SyncState_scheme"
  assumes t: "only_enqueues transport" and x: "x \<in> set (ob_operations (ss_outbox state))"
  shows "op_tag x \<in> op_tag ` set (ob_operations (ss_outbox (fst (push_phase transport (state, result)))))
    \<or> push_accepts transport state (o_idempotencyKey x)"
proof -
  let ?b = "nextBatch (ss_outbox state) 25"
  obtain state1 response where p: "tr_push transport state ?b = (state1, response)" by fastforce
  have x1: "x \<in> set (ob_operations (ss_outbox state1))"
  proof -
    have "\<exists>more. ob_operations (ss_outbox (fst (tr_push transport state ?b))) = ob_operations (ss_outbox state) @ more"
      using t by (simp add: only_enqueues_def)
    with p x show ?thesis by auto
  qed
  have tag: "op_tag x \<in> op_tag ` set (ob_operations (ss_outbox s))"
    if "map op_tag (ob_operations (ss_outbox s)) = map op_tag (ob_operations (ss_outbox state1))" for s :: "('p, 'z) SyncState_scheme"
    using x1 that by (metis image_eqI list.set_map)
  show ?thesis
  proof (cases "?b = []")
    case True
    with x show ?thesis by (simp add: push_phase_def)
  next
    case False
    show ?thesis
    proof (cases response)
      case None
      with False p show ?thesis
        using tag [OF fail_batch_tags] by (simp add: push_phase_def)
    next
      case (Some push)
      show ?thesis
      proof (cases "invalidPushPartition ?b push")
        case None
        let ?acc = "js_strings (js_get push ''accepted'')"
        show ?thesis
        proof (cases "o_idempotencyKey x \<in> set ?acc")
          case True
          with None Some p valid_partition_accepts [OF None] show ?thesis
            by (auto simp: push_accepts_def Let_def)
        next
          case False
          with x1 have "x \<in> set (ob_operations (acknowledge (ss_outbox state1) ?acc))"
            by (simp add: acknowledge_def)
          then have "op_tag x \<in> set (map op_tag (ob_operations (acknowledge (ss_outbox state1) ?acc)))"
            by simp
          with None Some p \<open>?b \<noteq> []\<close> show ?thesis
            by (simp add: push_phase_def fold_reject_tags flip: list.set_map del: set_map)
        qed
      next
        case invalid: (Some message)
        with \<open>?b \<noteq> []\<close> Some p show ?thesis
          using tag [OF fail_batch_tags] by (simp add: push_phase_def Let_def)
      qed
    qed
  qed
qed

section \<open>The interface of a surface\<close>

text \<open>
  What the engine relies on: a record is read back as written and no other record changes;
  storing records touches neither the clock nor the queue nor the cursor; and the engine's own
  fields are not records.
\<close>

locale sync_records =
  fixes records :: "(('p, 'z) SyncState_scheme, 't) SyncRecords"
  assumes read_write: "sr_read records (sr_write records s i x) j = (if i = j then Some x else sr_read records s j)"
    and read_after: "sr_read records (sr_afterApply records s x) j = sr_read records s j"
    and outbox_write: "ss_outbox (sr_write records s i x) = ss_outbox s"
    and outbox_after: "ss_outbox (sr_afterApply records s x) = ss_outbox s"
    and read_clock: "sr_read records (ss_clock_update f s) j = sr_read records s j"
    and read_outbox: "sr_read records (ss_outbox_update g s) j = sr_read records s j"
    and read_cursor: "sr_read records (ss_lastPulledAt_update h s) j = sr_read records s j"
begin

lemma apply_outbox: "ss_outbox (fst (applyRemoteRecord s x t records)) = ss_outbox s"
  by (simp add: applyRemoteRecord_def Let_def outbox_write outbox_after split: option.split)

lemma apply_read:
  "sr_read records (fst (applyRemoteRecord s x t records)) j =
     (if sr_idOf records x = j
      then Some (case sr_read records s j of None \<Rightarrow> x | Some y \<Rightarrow> fst (sr_merge records y x t))
      else sr_read records s j)"
  by (auto simp: applyRemoteRecord_def Let_def read_write read_after split: option.split)

lemma pull_item_outbox: "ss_outbox (fst (pull_item records now x acc)) = ss_outbox (fst acc)"
  by (simp add: pull_item_def Let_def case_prod_beta apply_outbox split: option.split)

lemma pull_item_read:
  "sr_read records (fst (pull_item records now x acc)) j =
     (if sr_idOf records x = j
      then Some (case sr_read records (fst acc) j of None \<Rightarrow> x
                 | Some y \<Rightarrow> fst (sr_merge records y x (iso_of_ms now)))
      else sr_read records (fst acc) j)"
  by (simp add: pull_item_def Let_def case_prod_beta apply_read read_clock split: option.split)

lemma pull_item_shed: "r_shedNotice (snd (pull_item records now x acc)) = r_shedNotice (snd acc)"
  by (simp add: pull_item_def Let_def case_prod_beta)

lemma pull_fold_outbox: "ss_outbox (fst (fold (pull_item records now) xs acc)) = ss_outbox (fst acc)"
  by (induction xs arbitrary: acc) (simp_all add: pull_item_outbox)

lemma pull_fold_shed: "r_shedNotice (snd (fold (pull_item records now) xs acc)) = r_shedNotice (snd acc)"
  by (induction xs arbitrary: acc) (simp_all add: pull_item_shed)

lemma pull_fold_read:
  "sr_read records (fst (fold (pull_item records now) xs acc)) j =
     fold (\<lambda>x cur. Some (case cur of None \<Rightarrow> x | Some y \<Rightarrow> fst (sr_merge records y x (iso_of_ms now))))
       (filter (\<lambda>x. sr_idOf records x = j) xs) (sr_read records (fst acc) j)"
  by (induction xs arbitrary: acc) (simp_all add: pull_item_read)

lemma fail_batch_read: "sr_read records (fail_batch reason batch s) j = sr_read records s j"
  by (induction batch arbitrary: s) (simp_all add: fail_batch_def read_outbox)

lemma fold_reject_read: "sr_read records (fst (fold reject_operation rs acc)) j = sr_read records (fst acc) j"
  by (induction rs arbitrary: acc) (simp_all add: reject_operation_def read_outbox)

lemma push_phase_read:
  assumes "\<And>s b. sr_read records (fst (tr_push transport s b)) j = sr_read records s j"
  shows "sr_read records (fst (push_phase transport acc)) j = sr_read records (fst acc) j"
  using assms
  by (simp add: push_phase_def Let_def case_prod_beta fail_batch_read fold_reject_read read_outbox
      split: option.split)

lemma push_phase_shed: "r_shedNotice (snd (push_phase transport acc)) = r_shedNotice (snd acc)"
  by (simp add: push_phase_def Let_def case_prod_beta fold_reject_result split: option.split)

lemma absorb_outbox: "ss_outbox (fst (absorb_pull records now pull acc)) = ss_outbox (fst acc)"
  by (simp add: absorb_pull_def Let_def case_prod_beta pull_fold_outbox split: option.split)

lemma absorb_shed: "r_shedNotice (snd (absorb_pull records now pull acc)) = r_shedNotice (snd acc)"
  by (simp add: absorb_pull_def Let_def case_prod_beta pull_fold_shed split: option.split)

lemma absorb_read:
  "sr_read records (fst (absorb_pull records now pull acc)) j =
     fold (\<lambda>x cur. Some (case cur of None \<Rightarrow> x | Some y \<Rightarrow> fst (sr_merge records y x (iso_of_ms now))))
       (filter (\<lambda>x. sr_idOf records x = j) (pr_items pull)) (sr_read records (fst acc) j)"
  by (simp add: absorb_pull_def Let_def case_prod_beta pull_fold_read read_cursor read_clock split: option.split)

text \<open>
  What one cycle does to one record: nothing, when the pull fails or does not name it;
  otherwise the pulled versions are merged in one after the other, the first one kept as it
  is when the record is unseen.
\<close>

lemma sync_read:
  assumes "\<And>s b. sr_read records (fst (tr_push transport s b)) j = sr_read records s j"
    and "\<And>s c. sr_read records (fst (tr_pull transport s c)) j = sr_read records s j"
  shows "\<exists>pulled. sr_read records (fst (syncRecords s transport records now)) j =
      fold (\<lambda>x cur. Some (case cur of None \<Rightarrow> x | Some y \<Rightarrow> fst (sr_merge records y x (iso_of_ms now))))
        (filter (\<lambda>x. sr_idOf records x = j) pulled) (sr_read records s j)"
proof -
  let ?s0 = "s\<lparr>ss_outbox := \<lparr>ob_operations = ob_operations (shed (ss_outbox s) now None None),
      ob_shedNotice = None\<rparr>\<rparr>"
  obtain s1 response where p: "tr_pull transport ?s0 (ss_lastPulledAt s) = (s1, response)" by fastforce
  have s1: "sr_read records s1 j = sr_read records s j"
    using assms(2) [of ?s0 "ss_lastPulledAt s"] p by (simp add: read_outbox)
  show ?thesis
  proof (cases response)
    case None
    then show ?thesis
      using s1 p by (intro exI [of _ "[]"]) (simp add: syncRecords_def Let_def)
  next
    case (Some pull)
    then show ?thesis
      using s1 p
      by (intro exI [of _ "pr_items pull"])
        (simp add: syncRecords_def Let_def push_phase_read [OF assms(1)] absorb_read)
  qed
qed

lemma sync_never_deletes:
  assumes "\<And>s b. sr_read records (fst (tr_push transport s b)) j = sr_read records s j"
    and "\<And>s c. sr_read records (fst (tr_pull transport s c)) j = sr_read records s j"
    and "sr_read records s j \<noteq> None"
  shows "sr_read records (fst (syncRecords s transport records now)) j \<noteq> None"
proof -
  have "fold (\<lambda>x cur. Some (f cur x)) xs (Some y) \<noteq> None" for f :: "'t option \<Rightarrow> 't \<Rightarrow> 't" and xs y
    by (induction xs arbitrary: y) auto
  then show ?thesis
    using sync_read [OF assms(1,2), of s now] assms(3) by auto
qed

text \<open>
  No queued operation disappears: after a cycle it is still queued, or the cycle's own valid
  acknowledgement accepted it, or the cycle shed it and its result says so.
\<close>

lemma sync_keeps_operations:
  assumes t: "only_enqueues transport" and x: "x \<in> set (ob_operations (ss_outbox s))"
  shows "op_tag x \<in> op_tag ` set (ob_operations (ss_outbox (fst (syncRecords s transport records now))))
    \<or> accepted_in_cycle s transport records now (o_idempotencyKey x)
    \<or> shed_in_cycle s now (snd (syncRecords s transport records now)) x"
proof -
  let ?shed = "shed (ss_outbox s) now None None"
  let ?s0 = "s\<lparr>ss_outbox := \<lparr>ob_operations = ob_operations ?shed, ob_shedNotice = None\<rparr>\<rparr>"
  obtain s1 response where p: "tr_pull transport ?s0 (ss_lastPulledAt s) = (s1, response)" by fastforce
  show ?thesis
  proof (cases "x \<in> set (ob_operations ?shed)")
    case False
    have "r_shedNotice (snd (syncRecords s transport records now)) =
        (if truthy (ob_shedNotice ?shed) then ob_shedNotice ?shed else None)"
      using p by (simp add: syncRecords_def Let_def push_phase_shed absorb_shed split: option.split)
    moreover have "truthy (ob_shedNotice ?shed)"
      using False x by (intro shed_drop_notice)
    ultimately show ?thesis using False by (simp add: shed_in_cycle_def)
  next
    case True
    have "\<exists>more. ob_operations (ss_outbox s1) = ob_operations ?shed @ more"
      using t p unfolding only_enqueues_def by (metis OutboxState.select_convs(1) SyncState.select_convs(3) SyncState.surjective SyncState.update_convs(3) fst_conv)
    with True have x1: "x \<in> set (ob_operations (ss_outbox s1))" by auto
    show ?thesis
    proof (cases response)
      case None
      with p x1 show ?thesis by (simp add: syncRecords_def Let_def)
    next
      case (Some pull)
      obtain r0 where f: "pushing_state s transport records now = Some (absorb_pull records now pull (s1, r0))"
        using p Some by (simp add: pushing_state_def Let_def)
      obtain s3 r3 where a: "absorb_pull records now pull (s1, r0) = (s3, r3)" by fastforce
      then have o: "ss_outbox s3 = ss_outbox s1" using absorb_outbox [of now pull "(s1, r0)"] by simp
      have "x \<in> set (ob_operations (ss_outbox s3))" using x1 o by simp
      from push_phase_keeps [OF t this, of r3] show ?thesis
        unfolding sync_pushes_from [OF f] a using f a by (auto simp: accepted_in_cycle_def)
    qed
  qed
qed

end

end
