(* ===== verification/PlannerMerge.thy ===== *)
theory PlannerMerge
  imports Stamped
begin

text \<open>
  The planner's items and their merge, \<open>packages/core/src/planner/itemMerge.ts\<close>: owned
  items are merged field by field with the shared rules, a human's decision about a
  conflict is a stamped watermark that an older marker cannot resurrect, and mirrored
  items are re-read instead of merged. A dictionary of conflicts that is absent in the
  code is the empty \<open>fmap\<close>; the two keys of \<open>conflictResolutions\<close> are two fields.
\<close>

datatype ItemOrigin = owned | mirrored

record PlannerProvenance =
  sourceId :: string
  sourceLabel :: string
  externalId :: "string option"
  sourceUrl :: "string option"
  pv_fetchedAt :: string

record DeletionResolution =
  dr_deleted :: bool
  dr_at :: hlc

record PlannerItem =
  it_id :: string
  it_origin :: ItemOrigin
  it_source :: "string option"
  it_fetchedAt :: "string option"
  it_provenance :: "PlannerProvenance option"
  it_title :: "string stamped"
  it_notes :: "string stamped option"
  it_dueDate :: "string option stamped option"
  it_priority :: "int stamped option"
  it_completed :: "bool stamped option"
  it_estimateMinutes :: "int option"
  it_estimateUpdatedAt :: "hlc option"
  it_blockedReason :: "string option stamped option"
  it_deletedAt :: "hlc option"
  it_conflicts :: "(string, ConflictRecord) fmap"
  it_titleResolution :: "hlc option"
  it_notesResolution :: "hlc option"
  it_deletionResolution :: "DeletionResolution option"

definition sameHlc :: "hlc option \<Rightarrow> hlc option \<Rightarrow> bool" where
  "sameHlc a b =
     (case (a, b) of
        (Some x, Some y) \<Rightarrow>
          physical x = physical y \<and> logical x = logical y \<and> deviceId x = deviceId y
      | _ \<Rightarrow> False)"

definition compareOrEqualHlc :: "hlc option \<Rightarrow> hlc \<Rightarrow> bool" where
  "compareOrEqualHlc candidate reference =
     (case candidate of None \<Rightarrow> False
      | Some c \<Rightarrow> sameHlc candidate (Some reference) \<or> hlcAfter c reference)"

definition latestDeletionResolution ::
  "DeletionResolution option \<Rightarrow> DeletionResolution option \<Rightarrow> DeletionResolution option"
where
  "latestDeletionResolution ours theirs =
     (case ours of None \<Rightarrow> theirs
      | Some a \<Rightarrow>
          (case theirs of None \<Rightarrow> ours
           | Some b \<Rightarrow> if hlcAfter (dr_at b) (dr_at a) then theirs else ours))"

definition latestHlc :: "hlc option \<Rightarrow> hlc option \<Rightarrow> hlc option" where
  "latestHlc ours theirs =
     (case ours of None \<Rightarrow> theirs
      | Some a \<Rightarrow>
          (case theirs of None \<Rightarrow> ours
           | Some b \<Rightarrow> if hlcAfter b a then theirs else ours))"

definition mergeResolutionAwareText ::
  "string stamped option \<Rightarrow> string stamped option \<Rightarrow> hlc option \<Rightarrow> hlc option \<Rightarrow> text_merge"
where
  "mergeResolutionAwareText ours theirs oursResolution theirsResolution =
     (case (ours, theirs) of
        (Some a, Some b) \<Rightarrow>
          if sameHlc (Some (s_at a)) oursResolution \<and> sameHlc (Some (s_at b)) theirsResolution
          then (if hlcAfter (the theirsResolution) (the oursResolution) then theirs else ours, None)
          else mergeText ours theirs
      | _ \<Rightarrow> mergeText ours theirs)"

definition clearResolvedConflict ::
  "(string, ConflictRecord) fmap \<Rightarrow> string \<Rightarrow> hlc option \<Rightarrow> (string, ConflictRecord) fmap"
where
  "clearResolvedConflict conflicts field resolution =
     (case (resolution, fmlookup conflicts field) of
        (Some r, Some c) \<Rightarrow>
          if hlcAfter r (c_oursAt c) \<and> hlcAfter r (c_theirsAt c) then fmdrop field conflicts
          else conflicts
      | _ \<Rightarrow> conflicts)"

definition latestEditStamp :: "PlannerItem \<Rightarrow> hlc option" where
  "latestEditStamp item =
     latestStamp
       [Some (s_at (it_title item)),
        map_option s_at (it_notes item),
        map_option s_at (it_dueDate item),
        map_option s_at (it_priority item),
        map_option s_at (it_completed item),
        it_estimateUpdatedAt item,
        map_option s_at (it_blockedReason item)]"

definition mergeEstimate :: "PlannerItem \<Rightarrow> PlannerItem \<Rightarrow> int option \<times> hlc option" where
  "mergeEstimate ours theirs =
     (if it_estimateMinutes ours = None
      then (it_estimateMinutes theirs, it_estimateUpdatedAt theirs)
      else if it_estimateMinutes theirs = None
      then (it_estimateMinutes ours, it_estimateUpdatedAt ours)
      else
        (case it_estimateUpdatedAt ours of
           None \<Rightarrow> (it_estimateMinutes theirs, it_estimateUpdatedAt theirs)
         | Some a \<Rightarrow>
             (case it_estimateUpdatedAt theirs of
                None \<Rightarrow> (it_estimateMinutes ours, it_estimateUpdatedAt ours)
              | Some b \<Rightarrow>
                  if \<not> hlcAfter b a then (it_estimateMinutes ours, it_estimateUpdatedAt ours)
                  else (it_estimateMinutes theirs, it_estimateUpdatedAt theirs))))"

definition mergeOwnedItem :: "PlannerItem \<Rightarrow> PlannerItem \<Rightarrow> PlannerItem" where
  "mergeOwnedItem ours theirs =
     (let conflicts0 = fmdrop ''deleted'' (it_conflicts ours ++\<^sub>f it_conflicts theirs);
          titleResolution = latestHlc (it_titleResolution ours) (it_titleResolution theirs);
          notesResolution = latestHlc (it_notesResolution ours) (it_notesResolution theirs);
          title = mergeResolutionAwareText (Some (it_title ours)) (Some (it_title theirs))
                    (it_titleResolution ours) (it_titleResolution theirs);
          notes = mergeResolutionAwareText (it_notes ours) (it_notes theirs)
                    (it_notesResolution ours) (it_notesResolution theirs);
          conflicts1 = put_conflict ''notes'' (snd notes)
                         (put_conflict ''title'' (snd title) conflicts0);
          conflicts2 = clearResolvedConflict (clearResolvedConflict conflicts1 ''title'' titleResolution)
                         ''notes'' notesResolution;
          estimate = mergeEstimate ours theirs;
          latestEdit = latestEditStamp (ours\<lparr>it_title := the (fst title), it_notes := fst notes\<rparr>);
          latestTheirEdit = latestEditStamp theirs;
          newestEdit =
            (case (latestEdit, latestTheirEdit) of
               (Some a, Some b) \<Rightarrow> if hlcAfter b a then Some b else Some a
             | _ \<Rightarrow> or_else latestEdit latestTheirEdit);
          deletionResolution =
            latestDeletionResolution (it_deletionResolution ours) (it_deletionResolution theirs);
          tombstone = resolveTombstone (it_deletedAt ours) (it_deletedAt theirs) newestEdit;
          deletedAt0 = t_deletedAt tombstone;
          conflicts3 = put_conflict ''deleted'' (t_conflict tombstone) conflicts2;
          resolutionAfterTombstone =
            (case deletedAt0 of None \<Rightarrow> True
             | Some d \<Rightarrow> compareOrEqualHlc (map_option dr_at deletionResolution) d);
          resolutionAfterConflict =
            (case t_conflict tombstone of None \<Rightarrow> True
             | Some c \<Rightarrow>
                 (case deletionResolution of None \<Rightarrow> False
                  | Some r \<Rightarrow> hlcAfter (dr_at r) (c_oursAt c) \<and> hlcAfter (dr_at r) (c_theirsAt c)));
          decided = (deletionResolution \<noteq> None \<and> resolutionAfterTombstone \<and> resolutionAfterConflict);
          deletedAt =
            (if decided then
               (if dr_deleted (the deletionResolution) then Some (dr_at (the deletionResolution)) else None)
             else deletedAt0);
          conflicts = (if decided then fmdrop ''deleted'' conflicts3 else conflicts3)
      in \<lparr>it_id = it_id ours, it_origin = owned,
          it_source = None, it_fetchedAt = None, it_provenance = None,
          it_title = the (fst title),
          it_notes = fst notes,
          it_dueDate = mergeField (it_dueDate ours) (it_dueDate theirs),
          it_priority = mergeField (it_priority ours) (it_priority theirs),
          it_completed = mergeCompletion (it_completed ours) (it_completed theirs),
          it_estimateMinutes = fst estimate,
          it_estimateUpdatedAt = snd estimate,
          it_blockedReason = mergeField (it_blockedReason ours) (it_blockedReason theirs),
          it_deletedAt = deletedAt,
          it_conflicts = conflicts,
          it_titleResolution = titleResolution,
          it_notesResolution = notesResolution,
          it_deletionResolution = deletionResolution\<rparr>)"

text \<open>The remote half of a refresh: the fields of an item the source owns.\<close>

record RemoteFields =
  rf_title :: "string stamped"
  rf_notes :: "string stamped option"
  rf_dueDate :: "string option stamped option"
  rf_completed :: "bool stamped option"
  rf_source :: "string option"
  rf_provenance :: "PlannerProvenance option"
  rf_blockedReason :: "string option stamped option"

definition refreshMirrored :: "PlannerItem \<Rightarrow> RemoteFields \<Rightarrow> string \<Rightarrow> PlannerItem" where
  "refreshMirrored loc remote fetchedAt =
     \<lparr>it_id = it_id loc, it_origin = mirrored,
      it_source = (if truthy (rf_source remote) then rf_source remote
                   else if truthy (it_source loc) then it_source loc else None),
      it_fetchedAt = Some fetchedAt,
      it_provenance =
        (case rf_provenance remote of
           Some p \<Rightarrow> Some (p\<lparr>pv_fetchedAt := fetchedAt\<rparr>)
         | None \<Rightarrow> map_option (\<lambda>p. p\<lparr>pv_fetchedAt := fetchedAt\<rparr>) (it_provenance loc)),
      it_title = rf_title remote,
      it_notes = rf_notes remote,
      it_dueDate = rf_dueDate remote,
      it_priority = it_priority loc,
      it_completed = rf_completed remote,
      it_estimateMinutes = it_estimateMinutes loc,
      it_estimateUpdatedAt = it_estimateUpdatedAt loc,
      it_blockedReason = rf_blockedReason remote,
      it_deletedAt = None,
      it_conflicts = fmempty,
      it_titleResolution = None,
      it_notesResolution = None,
      it_deletionResolution = None\<rparr>"

definition PLANNER_OWNED_FIELDS :: "string list" where
  "PLANNER_OWNED_FIELDS =
     [''priority'', ''estimateMinutes'', ''scheduledFor'', ''snoozedUntil'', ''order'']"

text \<open>The verdict and, on a refusal, the reason shown.\<close>

definition canEditLocally :: "PlannerItem \<Rightarrow> string \<Rightarrow> bool \<times> string option" where
  "canEditLocally item field =
     (let sys = (case it_source item of None \<Rightarrow> ''the source system'' | Some s \<Rightarrow> s)
      in if it_origin item = owned then (True, None)
         else if field \<in> set PLANNER_OWNED_FIELDS then (True, None)
         else if field = ''delete'' then
           (False, Some (''This item belongs to '' @ sys @ '', so deleting it from the planner ''
              @ ''would only hide a cache entry that the next refresh must restore. Delete or close it in its source.''))
         else
           (False, Some ([CHR 0x22] @ field @ [CHR 0x22] @ '' belongs to '' @ sys
              @ '', not the planner. Changing it here ''
              @ ''would be reverted by the next refresh '' @ em_dash @ '' it has to be sent to the source as an action, where ''
              @ ''it can fail where you can see it.'')))"

section \<open>Building blocks\<close>

lemma sameHlc_Some [simp]: "sameHlc (Some x) b \<longleftrightarrow> b = Some x" "sameHlc None b = False"
  by (cases b) (auto simp: sameHlc_def)

lemma latestHlc_later: "latestHlc = later"
  by (auto simp: fun_eq_iff latestHlc_def split: option.splits)

text \<open>A version's frontier only holds events its own stamp has absorbed.\<close>

definition seen_ok :: "'a stamped option \<Rightarrow> bool" where
  "seen_ok p \<longleftrightarrow>
     (\<forall>x l s. p = Some x \<longrightarrow> s_seen x = Some l \<longrightarrow> s \<in> set l \<longrightarrow> \<not> hlcAfter s (s_at x))"

lemma observes_not_before: "seen_ok (Some x) \<Longrightarrow> observes x e \<Longrightarrow> \<not> hlcAfter e (s_at x)"
  by (auto simp: seen_ok_def observes_def hlcAfter_def not_less compareHlc_neg [symmetric]
        split: option.splits)
    (metis compareHlc_neg hlcAfter_def hlcAfter_trans_le linorder_not_less)

lemma mergeText_stamp:
  assumes "seen_ok a" "seen_ok b"
  shows "map_option s_at (fst (mergeText a b)) = later (map_option s_at a) (map_option s_at b)"
proof (cases "a = None \<or> b = None")
  case True
  then show ?thesis by auto
next
  case False
  then obtain x y where xy: "a = Some x" "b = Some y" by auto
  have o: "hlcAfter (s_at x) (s_at y) \<Longrightarrow> \<not> observes y (s_at x)"
    "hlcAfter (s_at y) (s_at x) \<Longrightarrow> \<not> observes x (s_at y)"
    using assms xy observes_not_before by blast+
  consider "s_at x = s_at y" | "hlcAfter (s_at x) (s_at y)" | "hlcAfter (s_at y) (s_at x)"
    using hlcAfter_linear by blast
  then show ?thesis
  proof cases
    case 1
    then show ?thesis by (simp add: xy mergeText_def Let_def compareHlc_zero)
  next
    case 2
    then have "compareHlc (s_at y) (s_at x) < 0" "\<not> hlcAfter (s_at y) (s_at x)"
      using hlcAfter_asym by (auto simp: hlcAfter_def compareHlc_neg)
    with o(1) [OF 2] show ?thesis by (simp add: xy mergeText_def Let_def)
  next
    case 3
    then have "0 < compareHlc (s_at y) (s_at x)" by (simp add: hlcAfter_def)
    with o(2) [OF 3] 3 show ?thesis by (simp add: xy mergeText_def Let_def)
  qed
qed

lemma mergeResolutionAwareText_stamp:
  assumes "seen_ok a" "seen_ok b"
  shows "map_option s_at (fst (mergeResolutionAwareText a b r q))
         = later (map_option s_at a) (map_option s_at b)"
  using mergeText_stamp [OF assms]
  by (auto simp: mergeResolutionAwareText_def split: option.splits)

lemma mergeResolutionAwareText_pick:
  "map_option s_at (fst (mergeResolutionAwareText a b r q)) \<in> {map_option s_at a, map_option s_at b}"
  using mergeText_pick [of a b]
  by (cases a; cases b) (auto simp: mergeResolutionAwareText_def)

lemma mergeResolutionAwareText_sym:
  assumes "coherent a b"
  shows "fst (mergeResolutionAwareText b a q r) = fst (mergeResolutionAwareText a b r q)"
proof (cases "\<exists>x y. a = Some x \<and> b = Some y \<and> r = Some (s_at x) \<and> q = Some (s_at y)")
  case True
  then obtain x y where xy: "a = Some x" "b = Some y" "r = Some (s_at x)" "q = Some (s_at y)"
    by blast
  have "s_at x = s_at y \<Longrightarrow> x = y" using assms xy by (simp add: coherent_def)
  then show ?thesis
    using hlcAfter_linear [of "s_at x" "s_at y"]
    by (auto simp: mergeResolutionAwareText_def xy dest: hlcAfter_asym)
next
  case False
  then have "mergeResolutionAwareText a b r q = mergeText a b"
    "mergeResolutionAwareText b a q r = mergeText b a"
    by (auto simp: mergeResolutionAwareText_def split: option.splits)
  then show ?thesis using mergeText_fst_sym [OF assms] by simp
qed

lemma mergeResolutionAwareText_Some:
  "fst (mergeResolutionAwareText (Some x) (Some y) r q) \<noteq> None"
  using mergeText_Some [of x y] by (simp add: mergeResolutionAwareText_def)

lemma mergeCompletion_value_sym:
  "map_option s_value (mergeCompletion a b) = map_option s_value (mergeCompletion b a)"
  by (cases a; cases b) (auto simp: mergeCompletion_def hlcAfter_iff compareHlc_pos)

section \<open>What a merge does with the deletion\<close>

text \<open>The fate of an item and its ''deleted'' marker, from the decision and the tombstone.\<close>

definition decision_holds :: "DeletionResolution option \<Rightarrow> TombstoneOutcome \<Rightarrow> bool" where
  "decision_holds r w =
     (\<exists>d. r = Some d
        \<and> (\<forall>t. t_deletedAt w = Some t \<longrightarrow> \<not> hlcAfter t (dr_at d))
        \<and> (\<forall>c. t_conflict w = Some c \<longrightarrow> hlcAfter (dr_at d) (c_oursAt c) \<and> hlcAfter (dr_at d) (c_theirsAt c)))"

definition deletion_fate ::
  "DeletionResolution option \<Rightarrow> TombstoneOutcome \<Rightarrow> hlc option \<times> ConflictRecord option"
where
  "deletion_fate r w =
     (if decision_holds r w
      then (if dr_deleted (the r) then Some (dr_at (the r)) else None, None)
      else (t_deletedAt w, t_conflict w))"

definition merged_edit :: "PlannerItem \<Rightarrow> PlannerItem \<Rightarrow> hlc option" where
  "merged_edit a b =
     later
       (latestEditStamp
          (a\<lparr>it_title := the (fst (mergeResolutionAwareText (Some (it_title a)) (Some (it_title b))
                (it_titleResolution a) (it_titleResolution b))),
             it_notes := fst (mergeResolutionAwareText (it_notes a) (it_notes b)
                (it_notesResolution a) (it_notesResolution b))\<rparr>))
       (latestEditStamp b)"

lemma compareOrEqualHlc_iff:
  "compareOrEqualHlc c t \<longleftrightarrow> (\<exists>x. c = Some x \<and> \<not> hlcAfter t x)"
  by (cases c) (auto simp: compareOrEqualHlc_def not_hlcAfter dest: hlcAfter_asym)

lemma mergeOwnedItem_deletion:
  "(it_deletedAt (mergeOwnedItem a b), fmlookup (it_conflicts (mergeOwnedItem a b)) ''deleted'')
   = deletion_fate (latestDeletionResolution (it_deletionResolution a) (it_deletionResolution b))
       (resolveTombstone (it_deletedAt a) (it_deletedAt b) (merged_edit a b))"
proof -
  let ?r = "latestDeletionResolution (it_deletionResolution a) (it_deletionResolution b)"
  let ?o = "resolveTombstone (it_deletedAt a) (it_deletedAt b) (merged_edit a b)"
  have newest: "(case (x, y) of (Some p, Some q) \<Rightarrow> if hlcAfter q p then Some q else Some p
      | _ \<Rightarrow> or_else x y) = later x y" for x y
    by (simp add: later_def)
  have dec: "(?r \<noteq> None
      \<and> (case t_deletedAt ?o of None \<Rightarrow> True | Some d \<Rightarrow> compareOrEqualHlc (map_option dr_at ?r) d)
      \<and> (case t_conflict ?o of None \<Rightarrow> True
         | Some c \<Rightarrow> (case ?r of None \<Rightarrow> False
             | Some r \<Rightarrow> hlcAfter (dr_at r) (c_oursAt c) \<and> hlcAfter (dr_at r) (c_theirsAt c))))
    = decision_holds ?r ?o"
    by (auto simp: decision_holds_def compareOrEqualHlc_iff split: option.splits)
  have clr: "fmlookup (clearResolvedConflict m f r) ''deleted'' = fmlookup m ''deleted''"
    if "f \<noteq> ''deleted''" for m f r
    using that by (auto simp: clearResolvedConflict_def split: option.splits)
  have put: "fmlookup (put_conflict f c m) ''deleted''
      = (if f = ''deleted'' then or_else c (fmlookup m ''deleted'') else fmlookup m ''deleted'')" for m f c
    by (auto simp: put_conflict_def split: option.splits)
  show ?thesis
    unfolding mergeOwnedItem_def Let_def newest merged_edit_def [symmetric] dec deletion_fate_def
    by (simp add: put clr)
qed

lemma mergeOwnedItem_fields [simp]:
  "it_title (mergeOwnedItem a b) =
     the (fst (mergeResolutionAwareText (Some (it_title a)) (Some (it_title b))
       (it_titleResolution a) (it_titleResolution b)))"
  "it_notes (mergeOwnedItem a b) =
     fst (mergeResolutionAwareText (it_notes a) (it_notes b) (it_notesResolution a) (it_notesResolution b))"
  "it_dueDate (mergeOwnedItem a b) = mergeField (it_dueDate a) (it_dueDate b)"
  "it_priority (mergeOwnedItem a b) = mergeField (it_priority a) (it_priority b)"
  "it_completed (mergeOwnedItem a b) = mergeCompletion (it_completed a) (it_completed b)"
  "it_blockedReason (mergeOwnedItem a b) = mergeField (it_blockedReason a) (it_blockedReason b)"
  "it_titleResolution (mergeOwnedItem a b) = later (it_titleResolution a) (it_titleResolution b)"
  "it_notesResolution (mergeOwnedItem a b) = later (it_notesResolution a) (it_notesResolution b)"
  "it_deletionResolution (mergeOwnedItem a b) =
     latestDeletionResolution (it_deletionResolution a) (it_deletionResolution b)"
  by (simp_all add: mergeOwnedItem_def Let_def latestHlc_later)

definition edit_marks :: "PlannerItem \<Rightarrow> hlc option list" where
  "edit_marks item =
     [Some (s_at (it_title item)), map_option s_at (it_notes item), map_option s_at (it_dueDate item),
      map_option s_at (it_priority item), map_option s_at (it_completed item),
      it_estimateUpdatedAt item, map_option s_at (it_blockedReason item)]"

lemma latestEditStamp_marks: "latestEditStamp item = latestStamp (edit_marks item)"
  by (simp only: latestEditStamp_def edit_marks_def)

lemma merged_edit_marks:
  "\<exists>xs. merged_edit a b = latestStamp (xs @ edit_marks b) \<and> set xs \<subseteq> set (edit_marks a @ edit_marks b)"
proof -
  let ?t = "mergeResolutionAwareText (Some (it_title a)) (Some (it_title b))
      (it_titleResolution a) (it_titleResolution b)"
  let ?n = "mergeResolutionAwareText (it_notes a) (it_notes b) (it_notesResolution a) (it_notesResolution b)"
  let ?xs = "edit_marks (a\<lparr>it_title := the (fst ?t), it_notes := fst ?n\<rparr>)"
  have "Some (s_at (the (fst ?t))) \<in> {Some (s_at (it_title a)), Some (s_at (it_title b))}"
    using mergeResolutionAwareText_pick [of "Some (it_title a)" "Some (it_title b)"]
      mergeResolutionAwareText_Some [of "it_title a" "it_title b"]
    by (metis (no_types, lifting) option.collapse option.simps(9))
  moreover have "map_option s_at (fst ?n) \<in> {map_option s_at (it_notes a), map_option s_at (it_notes b)}"
    by (rule mergeResolutionAwareText_pick)
  ultimately have "set ?xs \<subseteq> set (edit_marks a @ edit_marks b)"
    by (auto simp: edit_marks_def)
  moreover have "merged_edit a b = latestStamp (?xs @ edit_marks b)"
    by (simp only: merged_edit_def latestEditStamp_marks latestStamp_append)
  ultimately show ?thesis by blast
qed

lemma merged_edit_sees:
  assumes "latestEditStamp b = Some e"
  shows "\<exists>s. merged_edit a b = Some s \<and> \<not> hlcAfter e s"
proof -
  obtain xs where xs: "merged_edit a b = latestStamp (xs @ edit_marks b)"
    using merged_edit_marks by blast
  have e: "Some e \<in> set (xs @ edit_marks b)"
    using latestStamp_mem [of "edit_marks b"] assms by (simp add: latestEditStamp_marks)
  with xs have "merged_edit a b \<noteq> None" by (auto simp: latestStamp_None)
  with xs e show ?thesis using latestStamp_upper by fastforce
qed

lemma merged_edit_source:
  assumes "merged_edit a b = Some s"
  shows "\<exists>r. (latestEditStamp a = Some r \<or> latestEditStamp b = Some r) \<and> \<not> hlcAfter s r"
proof -
  obtain xs where "merged_edit a b = latestStamp (xs @ edit_marks b)"
      "set xs \<subseteq> set (edit_marks a @ edit_marks b)"
    using merged_edit_marks by blast
  with assms have s: "Some s \<in> set (edit_marks a) \<or> Some s \<in> set (edit_marks b)"
    using latestStamp_mem by fastforce
  have "\<exists>r. latestStamp ys = Some r \<and> \<not> hlcAfter s r" if "Some s \<in> set ys" for ys
    using that latestStamp_None [of ys] latestStamp_upper [of ys] by (cases "latestStamp ys") auto
  with s show ?thesis unfolding latestEditStamp_marks by blast
qed

section \<open>Properties\<close>

text \<open>
  Delete against edit. With no human decision on record, an item one device deleted at
  \<open>t\<close> comes back when the other device edited it after \<open>t\<close>, marked with a \<open>delete_vs_edit\<close>
  conflict that names both stamps; when no edit is after \<open>t\<close> it stays deleted at \<open>t\<close>,
  unmarked.
\<close>

theorem planner_delete_vs_edit:
  assumes "it_deletionResolution a = None" "it_deletionResolution b = None"
    and t: "later (it_deletedAt a) (it_deletedAt b) = Some t"
  shows "(\<forall>e. latestEditStamp b = Some e \<longrightarrow> hlcAfter e t \<longrightarrow>
            it_deletedAt (mergeOwnedItem a b) = None
            \<and> (\<exists>c. fmlookup (it_conflicts (mergeOwnedItem a b)) ''deleted'' = Some c
                  \<and> c_reason c = delete_vs_edit \<and> c_oursAt c = t
                  \<and> \<not> hlcAfter e (c_theirsAt c)))
         \<and> ((\<forall>e. latestEditStamp a = Some e \<or> latestEditStamp b = Some e \<longrightarrow> \<not> hlcAfter e t) \<longrightarrow>
            it_deletedAt (mergeOwnedItem a b) = Some t
            \<and> fmlookup (it_conflicts (mergeOwnedItem a b)) ''deleted'' = None)"
proof -
  have fate: "(it_deletedAt (mergeOwnedItem a b), fmlookup (it_conflicts (mergeOwnedItem a b)) ''deleted'')
      = deletion_fate None (resolveTombstone (it_deletedAt a) (it_deletedAt b) (merged_edit a b))"
    unfolding mergeOwnedItem_deletion using assms by (simp add: latestDeletionResolution_def)
  show ?thesis
  proof (intro conjI allI impI)
    fix e
    assume "latestEditStamp b = Some e" "hlcAfter e t"
    moreover from this obtain s where s: "merged_edit a b = Some s" "\<not> hlcAfter e s"
      using merged_edit_sees by blast
    ultimately have "hlcAfter s t" by (metis hlcAfter_trans not_hlcAfter)
    with fate t s show "it_deletedAt (mergeOwnedItem a b) = None"
      "\<exists>c. fmlookup (it_conflicts (mergeOwnedItem a b)) ''deleted'' = Some c
          \<and> c_reason c = delete_vs_edit \<and> c_oursAt c = t \<and> \<not> hlcAfter e (c_theirsAt c)"
      by (auto simp: deletion_fate_def decision_holds_def resolveTombstone_later)
  next
    assume old: "\<forall>e. latestEditStamp a = Some e \<or> latestEditStamp b = Some e \<longrightarrow> \<not> hlcAfter e t"
    have "\<not> hlcAfter s t" if "merged_edit a b = Some s" for s
      using merged_edit_source [OF that] old by (metis hlcAfter_trans not_hlcAfter)
    with fate t show "it_deletedAt (mergeOwnedItem a b) = Some t"
      "fmlookup (it_conflicts (mergeOwnedItem a b)) ''deleted'' = None"
      by (auto simp: deletion_fate_def decision_holds_def resolveTombstone_later split: option.splits)
  qed
qed

definition demo_item :: "string \<Rightarrow> string stamped \<Rightarrow> PlannerItem" where
  "demo_item i t =
     \<lparr>it_id = i, it_origin = owned, it_source = None, it_fetchedAt = None, it_provenance = None,
      it_title = t, it_notes = None, it_dueDate = None, it_priority = None, it_completed = None,
      it_estimateMinutes = None, it_estimateUpdatedAt = None, it_blockedReason = None,
      it_deletedAt = None, it_conflicts = fmempty, it_titleResolution = None,
      it_notesResolution = None, it_deletionResolution = None\<rparr>"

theorem planner_delete_vs_edit_witness:
  "it_deletedAt (mergeOwnedItem
      ((demo_item ''i'' (demo_value ''a'' 2 ''x''))\<lparr>it_deletedAt := Some (demo_stamp 5 ''x'')\<rparr>)
      (demo_item ''i'' (demo_value ''b'' 9 ''y''))) = None"
  using planner_delete_vs_edit
    [of "(demo_item ''i'' (demo_value ''a'' 2 ''x''))\<lparr>it_deletedAt := Some (demo_stamp 5 ''x'')\<rparr>"
      "demo_item ''i'' (demo_value ''b'' 9 ''y'')" "demo_stamp 5 ''x''"]
  by (simp add: demo_item_def demo_value_def demo_stamp_def latestEditStamp_def hlcAfter_iff)

lemma clearResolvedConflict_covers:
  "fmlookup (clearResolvedConflict m f (Some r)) f = Some c \<Longrightarrow>
   \<not> (hlcAfter r (c_oursAt c) \<and> hlcAfter r (c_theirsAt c))"
  by (auto simp: clearResolvedConflict_def split: option.splits if_splits)

lemma clearResolvedConflict_sub:
  "fmlookup (clearResolvedConflict m f r) g = Some c \<Longrightarrow> fmlookup m g = Some c"
  by (auto simp: clearResolvedConflict_def split: option.splits if_splits)

lemma merged_title_conflict:
  assumes "fmlookup (it_conflicts (mergeOwnedItem a b)) ''title'' = Some c"
    and "later (it_titleResolution a) (it_titleResolution b) = Some r"
  shows "\<not> (hlcAfter r (c_oursAt c) \<and> hlcAfter r (c_theirsAt c))"
proof -
  have "\<exists>m. fmlookup (clearResolvedConflict (clearResolvedConflict m ''title'' (Some r)) ''notes''
      (later (it_notesResolution a) (it_notesResolution b))) ''title'' = Some c"
    using assms unfolding mergeOwnedItem_def Let_def latestHlc_later
    by (auto simp: put_conflict_lookup split: if_splits)
  then obtain m where "fmlookup (clearResolvedConflict m ''title'' (Some r)) ''title'' = Some c"
    by (blast dest: clearResolvedConflict_sub)
  then show ?thesis by (rule clearResolvedConflict_covers)
qed

text \<open>
  A resolved conflict is never resurrected: once a device holds a decision about the
  title stamped \<open>r\<close>, no merge, on either side, leaves a title conflict whose two versions
  both precede \<open>r\<close>, and the decision itself is never replaced by an older one.
\<close>

theorem planner_resolution_is_final:
  assumes "it_titleResolution a = Some r"
  shows "(\<forall>m \<in> {mergeOwnedItem a b, mergeOwnedItem b a}.
            (\<forall>c. fmlookup (it_conflicts m) ''title'' = Some c \<longrightarrow>
                \<not> (hlcAfter r (c_oursAt c) \<and> hlcAfter r (c_theirsAt c)))
            \<and> (\<exists>q. it_titleResolution m = Some q \<and> \<not> hlcAfter r q))"
proof -
  obtain q where q: "later (it_titleResolution a) (it_titleResolution b) = Some q"
      "later (it_titleResolution b) (it_titleResolution a) = Some q" "\<not> hlcAfter r q"
  proof (cases "it_titleResolution b")
    case None
    with assms that show ?thesis by simp
  next
    case (Some y)
    show ?thesis
    proof (cases "hlcAfter y r")
      case True
      with assms Some that [of y] show ?thesis by (auto dest: hlcAfter_asym)
    next
      case False
      with assms Some that [of r] show ?thesis by (auto simp: not_hlcAfter)
    qed
  qed
  have "\<not> (hlcAfter r (c_oursAt c) \<and> hlcAfter r (c_theirsAt c))"
    if "\<not> (hlcAfter q (c_oursAt c) \<and> hlcAfter q (c_theirsAt c))" for c
    using that q(3) by (metis hlcAfter_trans not_hlcAfter)
  with q merged_title_conflict [of a b _ q] merged_title_conflict [of b a _ q]
  show ?thesis by auto
qed

theorem planner_resolution_is_final_witness:
  "fmlookup (it_conflicts (mergeOwnedItem
      ((demo_item ''i'' (demo_value ''a'' 2 ''x''))\<lparr>it_titleResolution := Some (demo_stamp 5 ''x'')\<rparr>)
      (demo_item ''i'' (demo_value ''b'' 2 ''y'')))) ''title'' = None"
proof -
  let ?a = "(demo_item ''i'' (demo_value ''a'' 2 ''x''))\<lparr>it_titleResolution := Some (demo_stamp 5 ''x'')\<rparr>"
  let ?b = "demo_item ''i'' (demo_value ''b'' 2 ''y'')"
  have "\<And>c. fmlookup (it_conflicts (mergeOwnedItem ?a ?b)) ''title'' = Some c \<Longrightarrow>
      \<not> (hlcAfter (demo_stamp 5 ''x'') (c_oursAt c) \<and> hlcAfter (demo_stamp 5 ''x'') (c_theirsAt c))"
    using planner_resolution_is_final [of ?a "demo_stamp 5 ''x''" ?b] by (simp add: demo_item_def)
  then show ?thesis
    by (simp add: mergeOwnedItem_def Let_def demo_item_def demo_value_def demo_stamp_def latestHlc_def
        mergeResolutionAwareText_def sameHlc_def mergeText_def compareHlc_def put_conflict_def
        clearResolvedConflict_def hlcAfter_iff latestDeletionResolution_def resolveTombstone_def
        text_conflict_def)
qed

definition coherent_items :: "PlannerItem \<Rightarrow> PlannerItem \<Rightarrow> bool" where
  "coherent_items a b \<longleftrightarrow>
     coherent (Some (it_title a)) (Some (it_title b)) \<and> coherent (it_notes a) (it_notes b)
     \<and> coherent (it_dueDate a) (it_dueDate b) \<and> coherent (it_priority a) (it_priority b)
     \<and> coherent (it_blockedReason a) (it_blockedReason b)
     \<and> (\<forall>x y. it_deletionResolution a = Some x \<longrightarrow> it_deletionResolution b = Some y \<longrightarrow>
          dr_at x = dr_at y \<longrightarrow> x = y)"

definition texts_ok :: "PlannerItem \<Rightarrow> bool" where
  "texts_ok a \<longleftrightarrow> seen_ok (Some (it_title a)) \<and> seen_ok (it_notes a)"

lemma latestDeletionResolution_comm:
  assumes "\<forall>x y. r = Some x \<longrightarrow> q = Some y \<longrightarrow> dr_at x = dr_at y \<longrightarrow> x = y"
  shows "latestDeletionResolution r q = latestDeletionResolution q r"
  using assms
  by (cases r; cases q) (auto simp: latestDeletionResolution_def not_hlcAfter dest: hlcAfter_asym)

lemma merged_edit_later:
  assumes "texts_ok a" "texts_ok b"
  shows "merged_edit a b = later (latestEditStamp a) (latestEditStamp b)"
proof -
  have t: "map_option s_at (fst (mergeResolutionAwareText (Some (it_title a)) (Some (it_title b)) r q))
      = later (Some (s_at (it_title a))) (Some (s_at (it_title b)))" for r q
    using assms by (subst mergeResolutionAwareText_stamp) (auto simp: texts_ok_def)
  have t': "Some (s_at (the (fst (mergeResolutionAwareText (Some (it_title a)) (Some (it_title b)) r q))))
      = later (Some (s_at (it_title a))) (Some (s_at (it_title b)))" for r q
    using t [of r q] mergeResolutionAwareText_Some [of "it_title a" "it_title b" r q]
    by (metis option.collapse option.simps(9))
  have n: "map_option s_at (fst (mergeResolutionAwareText (it_notes a) (it_notes b) r q))
      = later (map_option s_at (it_notes a)) (map_option s_at (it_notes b))" for r q
    using assms by (subst mergeResolutionAwareText_stamp) (auto simp: texts_ok_def)
  show ?thesis
    unfolding merged_edit_def latestEditStamp_marks
    by (simp add: edit_marks_def t' n later.merge_assoc later.merge_comm later.merge_left_comm
        later.merge_left_idem later.merge_idem del: later_simps)
qed

text \<open>
  Two devices that merge the same pair of versions, each from its own side, end with the
  same item: text, due date, priority, completion, blocked reason, deletion and its marker,
  and the recorded decisions. (The unstamped estimate is the exception; see the findings.)
\<close>

theorem planner_merge_agrees:
  assumes "coherent_items a b" "texts_ok a" "texts_ok b"
    and m: "m = mergeOwnedItem a b" and n: "n = mergeOwnedItem b a"
  shows "(it_title m, it_notes m, it_dueDate m, it_priority m, map_option s_value (it_completed m),
            it_blockedReason m, it_deletedAt m, fmlookup (it_conflicts m) ''deleted'',
            it_titleResolution m, it_notesResolution m, it_deletionResolution m)
         = (it_title n, it_notes n, it_dueDate n, it_priority n, map_option s_value (it_completed n),
            it_blockedReason n, it_deletedAt n, fmlookup (it_conflicts n) ''deleted'',
            it_titleResolution n, it_notesResolution n, it_deletionResolution n)"
proof -
  have d: "(it_deletedAt m, fmlookup (it_conflicts m) ''deleted'') = (it_deletedAt n, fmlookup (it_conflicts n) ''deleted'')"
  proof -
    have "merged_edit a b = merged_edit b a"
      using assms by (simp add: merged_edit_later later.merge_comm)
    moreover have "latestDeletionResolution (it_deletionResolution a) (it_deletionResolution b)
        = latestDeletionResolution (it_deletionResolution b) (it_deletionResolution a)"
      using assms by (intro latestDeletionResolution_comm) (simp add: coherent_items_def)
    ultimately show ?thesis
      unfolding m n mergeOwnedItem_deletion
      by (simp add: resolveTombstone_later later.merge_comm [of "it_deletedAt a"])
  qed
  have "coherent (Some (it_title a)) (Some (it_title b))" "coherent (it_notes a) (it_notes b)"
    "coherent (it_dueDate a) (it_dueDate b)" "coherent (it_priority a) (it_priority b)"
    "coherent (it_blockedReason a) (it_blockedReason b)"
    using assms(1) by (auto simp: coherent_items_def)
  note swaps = this [THEN mergeField_comm] this(1,2) [THEN mergeResolutionAwareText_sym]
  have "latestDeletionResolution (it_deletionResolution a) (it_deletionResolution b)
      = latestDeletionResolution (it_deletionResolution b) (it_deletionResolution a)"
    using assms(1) by (intro latestDeletionResolution_comm) (simp add: coherent_items_def)
  then show ?thesis
    using d unfolding m n
    by (simp add: swaps later.merge_comm [of "it_titleResolution a"]
        later.merge_comm [of "it_notesResolution a"]
        mergeCompletion_value_sym [of "it_completed a"])
qed

theorem planner_merge_agrees_witness:
  "it_title (mergeOwnedItem (demo_item ''i'' (demo_value ''a'' 2 ''x'')) (demo_item ''i'' (demo_value ''b'' 9 ''y'')))
   = it_title (mergeOwnedItem (demo_item ''i'' (demo_value ''b'' 9 ''y'')) (demo_item ''i'' (demo_value ''a'' 2 ''x'')))"
  using planner_merge_agrees
    [of "demo_item ''i'' (demo_value ''a'' 2 ''x'')" "demo_item ''i'' (demo_value ''b'' 9 ''y'')", OF _ _ _ refl refl]
  by (simp add: coherent_items_def coherent_def texts_ok_def seen_ok_def demo_item_def demo_value_def
      demo_stamp_def)

text \<open>
  A refresh of a mirrored item is a re-read, not a merge: whatever a local write did to a
  field the source owns is gone after the next refresh, while what the planner owns is kept;
  and \<open>canEditLocally\<close> allows exactly the planner-owned fields of such an item.
\<close>

theorem refresh_is_a_reread:
  "refreshMirrored (loc\<lparr>it_title := x, it_notes := n, it_dueDate := d, it_completed := c,
      it_blockedReason := b, it_deletedAt := g, it_conflicts := k\<rparr>) remote t
   = refreshMirrored loc remote t
   \<and> it_priority (refreshMirrored (loc\<lparr>it_priority := p, it_estimateMinutes := e\<rparr>) remote t) = p
   \<and> it_estimateMinutes (refreshMirrored (loc\<lparr>it_priority := p, it_estimateMinutes := e\<rparr>) remote t) = e
   \<and> (fst (canEditLocally (refreshMirrored loc remote t) f) \<longleftrightarrow> f \<in> set PLANNER_OWNED_FIELDS)"
  by (simp add: refreshMirrored_def canEditLocally_def Let_def split: option.split)

section \<open>Where the two sides can differ\<close>

text \<open>
  Two estimates that carry no stamp are exchanged, not merged: each side takes the other's,
  so the two devices never agree on it.
\<close>

lemma unstamped_estimates_swap:
  "it_estimateMinutes a = Some x \<Longrightarrow> it_estimateMinutes b = Some y \<Longrightarrow>
   it_estimateUpdatedAt a = None \<Longrightarrow> it_estimateUpdatedAt b = None \<Longrightarrow>
   fst (mergeEstimate a b) = Some y \<and> fst (mergeEstimate b a) = Some x"
  by (simp add: mergeEstimate_def)

end
