(* ===== verification/NoteBlock.thy ===== *)
theory NoteBlock
  imports Stamped
begin

text \<open>
  The note block and its comments, \<open>packages/core/src/notes/block.ts\<close> and
  \<open>packages/core/src/notes/comment.ts\<close>. A page, a paragraph and a table row are one
  record; every mutable field is stamped; \<open>createdAt\<close>, \<open>deletedAt\<close> and \<open>restoredAt\<close> are
  stamps themselves. The property definitions and the views of a database block are never
  inspected by these files: they are the type parameters \<open>'s\<close> and \<open>'v\<close>. A dictionary
  that is absent in the code is the empty \<open>fmap\<close>. \<open>String.prototype.localeCompare\<close>
  depends on the host's collation, so it is a parameter of the comment order.
\<close>

section \<open>Comments\<close>

definition MAX_COMMENT_LENGTH :: nat where
  "MAX_COMMENT_LENGTH = 4000"

definition MAX_COMMENT_AUTHOR :: nat where
  "MAX_COMMENT_AUTHOR = 120"

record NoteComment =
  nc_id :: string
  nc_body :: "string stamped"
  nc_author :: string
  nc_createdAt :: hlc
  nc_resolved :: "bool stamped"
  nc_deletedAt :: "hlc option"

definition isLiveComment :: "NoteComment \<Rightarrow> bool" where
  "isLiveComment c \<longleftrightarrow> nc_deletedAt c = None"

definition comment_order ::
  "(string \<Rightarrow> string \<Rightarrow> int) \<Rightarrow> NoteComment \<Rightarrow> NoteComment \<Rightarrow> int"
where
  "comment_order localeCompare a b =
     (let c = compareHlc (nc_createdAt a) (nc_createdAt b)
      in if c \<noteq> 0 then c else localeCompare (nc_id a) (nc_id b))"

text \<open>The values of the dictionary, in the order its keys were inserted.\<close>

definition blockComments :: "(string \<Rightarrow> string \<Rightarrow> int) \<Rightarrow> NoteComment list \<Rightarrow> NoteComment list" where
  "blockComments localeCompare vals =
     sort_by (comment_order localeCompare) (filter isLiveComment vals)"

definition unresolvedComments :: "(string \<Rightarrow> string \<Rightarrow> int) \<Rightarrow> NoteComment list \<Rightarrow> NoteComment list" where
  "unresolvedComments localeCompare vals =
     filter (\<lambda>c. s_value (nc_resolved c) \<noteq> True) (blockComments localeCompare vals)"

fun orphanedComments ::
  "(string \<Rightarrow> string \<Rightarrow> int) \<Rightarrow> ('b \<Rightarrow> NoteComment list) \<Rightarrow> ('b \<Rightarrow> bool) \<Rightarrow> 'b list
     \<Rightarrow> ('b \<times> NoteComment list) list"
where
  "orphanedComments localeCompare vals isLive [] = []"
| "orphanedComments localeCompare vals isLive (block # blocks) =
     (if isLive block then orphanedComments localeCompare vals isLive blocks
      else let comments = blockComments localeCompare (vals block)
           in (if comments \<noteq> [] then [(block, comments)] else [])
              @ orphanedComments localeCompare vals isLive blocks)"

text \<open>The bounds on what a write may carry; an input that is no string is \<open>None\<close>.\<close>

definition boundCommentBody :: "string option \<Rightarrow> string" where
  "boundCommentBody txt = (case txt of Some s \<Rightarrow> take MAX_COMMENT_LENGTH s | None \<Rightarrow> '''')"

definition boundCommentAuthor :: "string option \<Rightarrow> string" where
  "boundCommentAuthor name =
     (let raw = (case name of Some s \<Rightarrow> js_trim s | None \<Rightarrow> '''')
      in take MAX_COMMENT_AUTHOR (if raw \<noteq> [] then raw else ''You''))"

section \<open>Blocks\<close>

datatype NoteBlockKind =
    k_page | k_heading | k_paragraph | k_bullet | k_numbered | k_todo | k_toggle | k_quote
  | k_callout | k_code | k_image | k_bookmark | k_table | k_table_row | k_database | k_embed
  | k_synced | k_divider

definition NOTE_BLOCK_KINDS :: "NoteBlockKind list" where
  "NOTE_BLOCK_KINDS =
     [k_page, k_heading, k_paragraph, k_bullet, k_numbered, k_todo, k_toggle, k_quote,
      k_callout, k_code, k_image, k_bookmark, k_table, k_table_row, k_embed, k_synced, k_divider,
      k_database]"

definition CONTINUING_KINDS :: "NoteBlockKind list" where
  "CONTINUING_KINDS = [k_bullet, k_numbered, k_todo, k_quote]"

definition STYLED_TEXT_KINDS :: "NoteBlockKind list" where
  "STYLED_TEXT_KINDS =
     [k_heading, k_bullet, k_numbered, k_todo, k_toggle, k_quote, k_callout, k_code]"

definition PROSE :: "NoteBlockKind list" where
  "PROSE =
     [k_heading, k_paragraph, k_bullet, k_numbered, k_todo, k_toggle,
      k_quote, k_callout, k_code, k_table_row]"

definition holdsProse :: "NoteBlockKind \<Rightarrow> bool" where
  "holdsProse kind \<longleftrightarrow> kind \<in> set PROSE"

text \<open>A cell of a database row.\<close>

datatype NotePropertyValue =
  PStr string | PNum rat | PBool bool | PList "string list" | PNull

record ('s, 'v) NoteBlock =
  b_id :: string
  b_parentId :: "string option stamped"
  b_rank :: "string stamped"
  b_kind :: "NoteBlockKind stamped"
  b_text :: "string stamped"
  b_checked :: "bool stamped option"
  b_level :: "int stamped option"
  b_language :: "string stamped option"
  b_collapsed :: "bool stamped option"
  b_icon :: "string stamped option"
  b_cover :: "string stamped option"
  b_favourite :: "bool stamped option"
  b_props :: "(string, NotePropertyValue stamped) fmap"
  b_schema :: "'s stamped option"
  b_views :: "'v stamped option"
  b_template :: "bool stamped option"
  b_comments :: "(string, NoteComment) fmap"
  b_createdAt :: "hlc option"
  b_deletedAt :: "hlc option"
  b_restoredAt :: "hlc option"
  b_conflicts :: "(string, ConflictRecord) fmap"

definition TEXTLESS :: "NoteBlockKind list" where
  "TEXTLESS = [k_divider, k_page, k_table, k_database]"

definition isTextlessKind :: "NoteBlockKind \<Rightarrow> bool" where
  "isTextlessKind kind \<longleftrightarrow> kind \<in> set TEXTLESS"

definition isLiveBlock :: "('s, 'v) NoteBlock \<Rightarrow> bool" where
  "isLiveBlock block =
     (case b_deletedAt block of
        None \<Rightarrow> True
      | Some d \<Rightarrow> (case b_restoredAt block of None \<Rightarrow> False | Some r \<Rightarrow> hlcAfter r d))"

definition blockTombstone :: "('s, 'v) NoteBlock \<Rightarrow> hlc option" where
  "blockTombstone block = (if isLiveBlock block then None else b_deletedAt block)"

definition blockHasConflicts :: "('s, 'v) NoteBlock \<Rightarrow> bool" where
  "blockHasConflicts block \<longleftrightarrow> fmdom (b_conflicts block) \<noteq> {||}"

definition pageTitle :: "('s, 'v) NoteBlock \<Rightarrow> string" where
  "pageTitle block = js_trim (s_value (b_text block))"

definition UNTITLED_PAGE :: string where
  "UNTITLED_PAGE = ''Untitled''"

definition pageTitleOrDefault :: "('s, 'v) NoteBlock \<Rightarrow> string" where
  "pageTitleOrDefault block = (if pageTitle block \<noteq> [] then pageTitle block else UNTITLED_PAGE)"

definition isFavourite :: "('s, 'v) NoteBlock \<Rightarrow> bool" where
  "isFavourite block \<longleftrightarrow> map_option s_value (b_favourite block) = Some True \<and> isLiveBlock block"

definition isTemplate :: "('s, 'v) NoteBlock \<Rightarrow> bool" where
  "isTemplate block \<longleftrightarrow> map_option s_value (b_template block) = Some True \<and> isLiveBlock block"

definition isCollapsed :: "('s, 'v) NoteBlock \<Rightarrow> bool" where
  "isCollapsed block \<longleftrightarrow> map_option s_value (b_collapsed block) = Some True"

section \<open>Lemmas\<close>

lemma blockTombstone_None: "blockTombstone b = None \<longleftrightarrow> isLiveBlock b"
  by (auto simp: blockTombstone_def isLiveBlock_def split: option.splits)

text \<open>
  Comments that no two devices created at one stamp read in one order, whatever order the
  dictionary's keys arrived in.
\<close>

lemma comment_order_preorder:
  assumes "preorder_comparator lc"
  shows "preorder_comparator (comment_order lc)"
proof
  show "comment_order lc a b < 0 \<longleftrightarrow> 0 < comment_order lc b a" for a b
    using hlc_order.cmp_swap [of "nc_createdAt a" "nc_createdAt b"]
      hlc_order.cmp_swap [of "nc_createdAt b" "nc_createdAt a"]
      preorder_comparator.cmp_swap [OF assms, of "nc_id a" "nc_id b"]
    by (auto simp: comment_order_def Let_def)
  show "comment_order lc a b \<le> 0 \<Longrightarrow> comment_order lc b c \<le> 0 \<Longrightarrow> comment_order lc a c \<le> 0" for a b c
    using hlc_order.cmp_trans [of "nc_createdAt a" "nc_createdAt b" "nc_createdAt c"]
      preorder_comparator.cmp_trans [OF assms, of "nc_id a" "nc_id b" "nc_id c"]
      hlc_order.cmp_eq [of "nc_createdAt a" "nc_createdAt b"]
      hlc_order.cmp_eq [of "nc_createdAt b" "nc_createdAt c"]
      hlc_order.cmp_eq [of "nc_createdAt a" "nc_createdAt c"]
      hlc_order.cmp_swap [of "nc_createdAt b" "nc_createdAt a"]
      hlc_order.cmp_swap [of "nc_createdAt c" "nc_createdAt b"]
    by (auto simp: comment_order_def Let_def split: if_splits)
qed

text \<open>A sample paragraph, for the concrete instances of the properties.\<close>

definition demo_block :: "string stamped \<Rightarrow> (unit, unit) NoteBlock" where
  "demo_block t =
     \<lparr>b_id = ''b'', b_parentId = demo_value None 1 ''x'', b_rank = demo_value ''V'' 1 ''x'',
      b_kind = demo_value k_paragraph 1 ''x'', b_text = t, b_checked = None, b_level = None,
      b_language = None, b_collapsed = None, b_icon = None, b_cover = None, b_favourite = None,
      b_props = fmempty, b_schema = None, b_views = None, b_template = None, b_comments = fmempty,
      b_createdAt = None, b_deletedAt = None, b_restoredAt = None, b_conflicts = fmempty\<rparr>"

end
