(* ===== verification/BlockMerge.thy ===== *)
theory BlockMerge
  imports NoteBlock
begin

text \<open>
  Merging two versions of one note block, \<open>packages/core/src/notes/blockMerge.ts\<close> (and
  \<open>unionSetValues\<close> of \<open>properties.ts\<close>): which field gets which shared rule, the penalty
  of a write that did not hold the block's lease, set-valued cells, comments, restores
  against tombstones, and the resolution of a kept-both field. The keys of a dictionary are
  visited in ascending order; the code visits them in insertion order, and the only result
  that shows the order is the list of fields in the last sentence of
  \<open>describeBlockConflict\<close>.
\<close>

datatype BlockFence = stale_epoch | lease_expired | blocked

definition FENCED_REASON :: "BlockFence \<Rightarrow> ConflictReason" where
  "FENCED_REASON f =
     (case f of
        stale_epoch \<Rightarrow> fenced_stale_epoch
      | lease_expired \<Rightarrow> fenced_lease_expired
      | blocked \<Rightarrow> fenced_blocked)"

text \<open>
  \<open>merged.value !== theirs\<close> compares references. The merged version is one of the two
  arguments unless the texts are equal, where the penalty does not apply anyway.
\<close>

definition fenceText ::
  "string stamped option \<Rightarrow> string stamped option \<Rightarrow> text_merge \<Rightarrow> ConflictReason \<Rightarrow> text_merge"
where
  "fenceText ours theirs merged reason =
     (case (ours, theirs) of
        (Some a, Some b) \<Rightarrow>
          if fst merged \<noteq> theirs \<or> s_value a = s_value b then merged
          else (ours, Some (text_conflict reason a b))
      | _ \<Rightarrow> merged)"

definition MAX_PROPERTY_VALUES :: nat where
  "MAX_PROPERTY_VALUES = 64"

fun union_loop :: "string list \<Rightarrow> string list \<Rightarrow> string list" where
  "union_loop out [] = out"
| "union_loop out (entry # rest) =
     (if entry \<in> set out then union_loop out rest
      else let out' = out @ [entry]
           in if length out' \<ge> MAX_PROPERTY_VALUES then out' else union_loop out' rest)"

definition unionSetValues :: "string list \<Rightarrow> string list \<Rightarrow> string list" where
  "unionSetValues first second = union_loop [] (first @ second)"

definition mergeCellValue ::
  "NotePropertyValue stamped option \<Rightarrow> NotePropertyValue stamped option
     \<Rightarrow> NotePropertyValue stamped option"
where
  "mergeCellValue ours theirs =
     (case ours of None \<Rightarrow> theirs
      | Some a \<Rightarrow>
          (case theirs of None \<Rightarrow> ours
           | Some b \<Rightarrow>
               (case (s_value a, s_value b) of
                  (PList xs, PList ys) \<Rightarrow>
                    if \<not> hlcConcurrent (s_at a) (s_at b) then mergeField ours theirs
                    else if hlcAfter (s_at b) (s_at a)
                    then Some \<lparr>s_value = PList (unionSetValues ys xs), s_at = s_at b, s_seen = None\<rparr>
                    else Some \<lparr>s_value = PList (unionSetValues xs ys), s_at = s_at a, s_seen = None\<rparr>
                | _ \<Rightarrow> mergeField ours theirs)))"

definition mergeProps ::
  "(string, NotePropertyValue stamped) fmap \<Rightarrow> (string, NotePropertyValue stamped) fmap
     \<Rightarrow> (string, NotePropertyValue stamped) fmap"
where
  "mergeProps ours theirs = fm_merge (\<lambda>_. mergeCellValue) ours theirs"

definition commentConflictField :: "string \<Rightarrow> string" where
  "commentConflictField commentId = ''comment:'' @ commentId"

definition mergeResolution :: "bool stamped \<Rightarrow> bool stamped \<Rightarrow> bool stamped" where
  "mergeResolution ours theirs =
     (let sameClock = (physical (s_at ours) = physical (s_at theirs)
                       \<and> logical (s_at ours) = logical (s_at theirs))
      in if \<not> sameClock then (if hlcAfter (s_at theirs) (s_at ours) then theirs else ours)
         else if s_value ours = False then ours else theirs)"

definition merge_comment :: "NoteComment \<Rightarrow> NoteComment \<Rightarrow> NoteComment" where
  "merge_comment mine yours =
     (let body = mergeText (Some (nc_body mine)) (Some (nc_body yours));
          origin = (if hlcAfter (nc_createdAt mine) (nc_createdAt yours) then yours else mine)
      in \<lparr>nc_id = nc_id mine,
          nc_body = (case fst body of None \<Rightarrow> nc_body mine | Some b \<Rightarrow> b),
          nc_author = nc_author origin,
          nc_createdAt = nc_createdAt origin,
          nc_resolved = mergeResolution (nc_resolved mine) (nc_resolved yours),
          nc_deletedAt = latestStamp [nc_deletedAt mine, nc_deletedAt yours]\<rparr>)"

definition comment_conflict ::
  "(string, NoteComment) fmap \<Rightarrow> (string, NoteComment) fmap \<Rightarrow> string \<Rightarrow> ConflictRecord option"
where
  "comment_conflict ours theirs key =
     (case (fmlookup ours key, fmlookup theirs key) of
        (Some mine, Some yours) \<Rightarrow> snd (mergeText (Some (nc_body mine)) (Some (nc_body yours)))
      | _ \<Rightarrow> None)"

definition merge_comment_entry :: "NoteComment option \<Rightarrow> NoteComment option \<Rightarrow> NoteComment option" where
  "merge_comment_entry mine yours =
     (case mine of None \<Rightarrow> yours
      | Some m \<Rightarrow> (case yours of None \<Rightarrow> mine | Some y \<Rightarrow> Some (merge_comment m y)))"

definition mergeComments ::
  "(string, NoteComment) fmap \<Rightarrow> (string, NoteComment) fmap \<Rightarrow> (string, ConflictRecord) fmap
     \<Rightarrow> (string, NoteComment) fmap \<times> (string, ConflictRecord) fmap"
where
  "mergeComments ours theirs conflicts =
     (fm_merge (\<lambda>_. merge_comment_entry) ours theirs,
      fold (\<lambda>key. put_conflict (commentConflictField key) (comment_conflict ours theirs key))
        (sorted_list_of_fset (fmdom ours |\<union>| fmdom theirs)) conflicts)"

text \<open>The earliest of two creation claims.\<close>

definition mergeCreation :: "hlc option \<Rightarrow> hlc option \<Rightarrow> hlc option" where
  "mergeCreation ours theirs =
     (case ours of None \<Rightarrow> theirs
      | Some a \<Rightarrow>
          (case theirs of None \<Rightarrow> ours | Some b \<Rightarrow> if hlcAfter a b then theirs else ours))"

definition latestBlockEdit :: "('s, 'v) NoteBlock \<Rightarrow> hlc option" where
  "latestBlockEdit block =
     latestStamp
       ([Some (s_at (b_text block)), Some (s_at (b_parentId block)), Some (s_at (b_rank block)),
         Some (s_at (b_kind block)), map_option s_at (b_level block), map_option s_at (b_checked block),
         map_option s_at (b_language block), map_option s_at (b_icon block), map_option s_at (b_cover block),
         map_option s_at (b_schema block)]
        @ map (\<lambda>stamped. Some (s_at stamped)) (fm_values (b_props block)))"

definition mergeNoteBlock ::
  "('s, 'v) NoteBlock \<Rightarrow> ('s, 'v) NoteBlock \<Rightarrow> BlockFence option \<Rightarrow> ('s, 'v) NoteBlock"
where
  "mergeNoteBlock ours theirs fenced =
     (let conflicts0 = b_conflicts ours ++\<^sub>f b_conflicts theirs;
          merged = mergeText (Some (b_text ours)) (Some (b_text theirs));
          txt = (case fenced of
                   Some f \<Rightarrow> fenceText (Some (b_text ours)) (Some (b_text theirs)) merged (FENCED_REASON f)
                 | None \<Rightarrow> merged);
          conflicts1 = put_conflict ''text'' (snd txt) conflicts0;
          parentId = the (mergeField (Some (b_parentId ours)) (Some (b_parentId theirs)));
          rank = the (mergeField (Some (b_rank ours)) (Some (b_rank theirs)));
          kind = the (mergeField (Some (b_kind ours)) (Some (b_kind theirs)));
          level = mergeField (b_level ours) (b_level theirs);
          language = mergeField (b_language ours) (b_language theirs);
          icon = mergeField (b_icon ours) (b_icon theirs);
          cover = mergeField (b_cover ours) (b_cover theirs);
          collapsed = mergeField (b_collapsed ours) (b_collapsed theirs);
          favourite = mergeField (b_favourite ours) (b_favourite theirs);
          template = mergeField (b_template ours) (b_template theirs);
          checked = mergeCompletion (b_checked ours) (b_checked theirs);
          props = mergeProps (b_props ours) (b_props theirs);
          schema = mergeField (b_schema ours) (b_schema theirs);
          views = mergeField (b_views ours) (b_views theirs);
          createdAt = mergeCreation (b_createdAt ours) (b_createdAt theirs);
          (comments, conflicts2) = mergeComments (b_comments ours) (b_comments theirs) conflicts1;
          newestEdit = latestStamp
            [latestBlockEdit (ours\<lparr>b_text := the (fst txt)\<rparr>), latestBlockEdit theirs];
          restoredAt = latestStamp [b_restoredAt ours, b_restoredAt theirs];
          deleteStamp = latestStamp [b_deletedAt ours, b_deletedAt theirs];
          undeleted = (case (deleteStamp, restoredAt) of
                         (Some d, Some r) \<Rightarrow> hlcAfter r d | _ \<Rightarrow> False);
          tombstone = (if undeleted then \<lparr>t_deletedAt = deleteStamp, t_conflict = None\<rparr>
                       else resolveTombstone (b_deletedAt ours) (b_deletedAt theirs) newestEdit);
          conflicts3 = put_conflict ''deleted'' (t_conflict tombstone) conflicts2
      in \<lparr>b_id = b_id ours, b_parentId = parentId, b_rank = rank, b_kind = kind,
          b_text = the (fst txt), b_checked = checked, b_level = level, b_language = language,
          b_collapsed = collapsed, b_icon = icon, b_cover = cover, b_favourite = favourite,
          b_props = props, b_schema = schema, b_views = views, b_template = template,
          b_comments = comments, b_createdAt = createdAt, b_deletedAt = t_deletedAt tombstone,
          b_restoredAt = restoredAt, b_conflicts = conflicts3\<rparr>)"

definition blockEditedAt :: "('s, 'v) NoteBlock \<Rightarrow> hlc option" where
  "blockEditedAt block = latestBlockEdit block"

definition blockWrittenAt :: "('s, 'v) NoteBlock \<Rightarrow> hlc option" where
  "blockWrittenAt block =
     latestStamp
       ([latestBlockEdit block, b_deletedAt block, b_restoredAt block,
         map_option s_at (b_collapsed block), map_option s_at (b_favourite block),
         map_option s_at (b_template block), map_option s_at (b_views block)]
        @ concat (map (\<lambda>c. [Some (s_at (nc_body c)), Some (s_at (nc_resolved c)),
                            Some (nc_createdAt c), nc_deletedAt c])
                   (fm_values (b_comments block))))"

definition earliestBlockStamp :: "('s, 'v) NoteBlock \<Rightarrow> hlc option" where
  "earliestBlockStamp block =
     (case map the (filter (\<lambda>s. s \<noteq> None)
        ([Some (s_at (b_parentId block)), Some (s_at (b_rank block)), Some (s_at (b_kind block)),
          Some (s_at (b_text block)), map_option s_at (b_level block), map_option s_at (b_checked block),
          map_option s_at (b_language block), map_option s_at (b_icon block), map_option s_at (b_cover block),
          map_option s_at (b_schema block), map_option s_at (b_views block)]
         @ map (\<lambda>stamped. Some (s_at stamped)) (fm_values (b_props block)))) of
        [] \<Rightarrow> None
      | x # xs \<Rightarrow> Some (foldl (\<lambda>a b. if hlcAfter a b then b else a) x xs))"

record CreatedAt =
  ca_at :: hlc
  ca_exact :: bool

definition blockCreatedAt :: "('s, 'v) NoteBlock \<Rightarrow> CreatedAt option" where
  "blockCreatedAt block =
     (case b_createdAt block of
        Some c \<Rightarrow> Some \<lparr>ca_at = c, ca_exact = True\<rparr>
      | None \<Rightarrow> map_option (\<lambda>e. \<lparr>ca_at = e, ca_exact = False\<rparr>) (earliestBlockStamp block))"

definition conflictedBlocks :: "('s, 'v) NoteBlock list \<Rightarrow> ('s, 'v) NoteBlock list" where
  "conflictedBlocks blocks = filter (\<lambda>b. fmdom (b_conflicts b) \<noteq> {||}) blocks"

definition describeConflictReason :: "ConflictReason \<Rightarrow> string" where
  "describeConflictReason reason =
     (case reason of
        fenced_stale_epoch \<Rightarrow>
          ''This was typed under a lock that had already been reissued. Both versions are kept ''
            @ em_dash @ '' pick one.''
      | fenced_lease_expired \<Rightarrow>
          ''This was typed after the lock on the block had expired. Both versions are kept ''
            @ em_dash @ '' pick one.''
      | fenced_blocked \<Rightarrow>
          ''Another device was editing this block when this arrived. Both versions are kept ''
            @ em_dash @ '' pick one.''
      | delete_vs_edit \<Rightarrow>
          ''This block was deleted on one device and edited on another '' @ em_dash
            @ '' it is back, undecided.''
      | concurrent_text \<Rightarrow>
          ''This block was written in two places at once. Both versions are kept ''
            @ em_dash @ '' pick one.'')"

text \<open>\<open>fields.join(', ')\<close>.\<close>

fun join_with :: "string \<Rightarrow> string list \<Rightarrow> string" where
  "join_with sep [] = ''''"
| "join_with sep [x] = x"
| "join_with sep (x # y # ys) = x @ sep @ join_with sep (y # ys)"

definition describeBlockConflict :: "('s, 'v) NoteBlock \<Rightarrow> string option" where
  "describeBlockConflict block =
     (let fields = sorted_list_of_fset (fmdom (b_conflicts block));
          comments = filter (starts_with ''comment:'') fields
      in if fields = [] then None
         else if ''deleted'' \<in> set fields then
           Some (''This block was deleted on one device and edited on another '' @ em_dash
             @ '' it is back, undecided.'')
         else if ''text'' \<in> set fields then
           map_option (\<lambda>c. describeConflictReason (c_reason c)) (fmlookup (b_conflicts block) ''text'')
         else if length comments = length fields then
           Some (if length comments = 1
             then ''A comment on this block was written in two places at once. Both versions are kept.''
             else show_int (int (length comments))
               @ '' comments on this block were written in two places at once. Both versions are kept.'')
         else Some (''Changed in two places: '' @ join_with '', '' fields @ ''.''))"

datatype keep_side = keep_ours | keep_theirs

definition resolveBlockConflict ::
  "('s, 'v) NoteBlock \<Rightarrow> string \<Rightarrow> keep_side \<Rightarrow> hlc \<Rightarrow> ('s, 'v) NoteBlock option"
where
  "resolveBlockConflict block field keep stamp =
     (case fmlookup (b_conflicts block) field of
        None \<Rightarrow> None
      | Some conflict \<Rightarrow>
          let rest = fmdrop field (b_conflicts block);
              chosen = (if keep = keep_ours then c_ours conflict else c_theirs conflict);
              written = \<lparr>s_value = chosen, s_at = stamp, s_seen = None\<rparr>;
              next0 = (if field = ''text'' then block\<lparr>b_text := written\<rparr> else block)
          in case (if starts_with ''comment:'' field then
                     (let commentId = drop (length ''comment:'') field
                      in case fmlookup (b_comments block) commentId of
                           None \<Rightarrow> None
                         | Some comment \<Rightarrow>
                             Some (next0\<lparr>b_comments :=
                               fmupd commentId (comment\<lparr>nc_body := written\<rparr>) (b_comments block)\<rparr>))
                   else Some next0) of
               None \<Rightarrow> None
             | Some next1 \<Rightarrow>
                 Some ((if field = ''deleted'' then
                          (if keep = keep_ours then next1\<lparr>b_deletedAt := Some stamp\<rparr>
                           else next1\<lparr>b_restoredAt := Some stamp\<rparr>)
                        else next1)\<lparr>b_conflicts := rest\<rparr>))"

definition blockEditIsNewer :: "('s, 'v) NoteBlock \<Rightarrow> ('s, 'v) NoteBlock \<Rightarrow> bool" where
  "blockEditIsNewer candidate existing =
     (case latestBlockEdit candidate of
        None \<Rightarrow> False
      | Some a \<Rightarrow> (case latestBlockEdit existing of None \<Rightarrow> True | Some b \<Rightarrow> hlcAfter a b))"

section \<open>Sets in cells\<close>

lemma union_loop_props:
  assumes "distinct out" "length out < MAX_PROPERTY_VALUES"
  shows "distinct (union_loop out xs) \<and> length (union_loop out xs) \<le> MAX_PROPERTY_VALUES
    \<and> set (union_loop out xs) \<subseteq> set out \<union> set xs
    \<and> (card (set out \<union> set xs) \<le> MAX_PROPERTY_VALUES \<longrightarrow> set (union_loop out xs) = set out \<union> set xs)"
  using assms
proof (induction xs arbitrary: out)
  case Nil
  then show ?case by simp
next
  case (Cons x xs)
  show ?case
  proof (cases "x \<in> set out")
    case True
    with Cons.IH [OF Cons.prems] show ?thesis by (simp add: insert_absorb)
  next
    case False
    let ?o = "out @ [x]"
    have d: "distinct ?o" using Cons.prems False by simp
    have u: "set ?o \<union> set xs = set out \<union> set (x # xs)" by auto
    show ?thesis
    proof (cases "length ?o \<ge> MAX_PROPERTY_VALUES")
      case True
      have "set ?o = set out \<union> set (x # xs)"
        if "card (set out \<union> set (x # xs)) \<le> MAX_PROPERTY_VALUES"
      proof (rule card_subset_eq)
        show "card (set ?o) = card (set out \<union> set (x # xs))"
        proof -
          have "card (set ?o) \<le> card (set out \<union> set (x # xs))" by (rule card_mono) auto
          moreover have "card (set ?o) = length ?o" by (rule distinct_card [OF d])
          ultimately show ?thesis using that True by simp
        qed
      qed auto
      with True False d Cons.prems show ?thesis by auto
    next
      case False
      with Cons.IH [OF d] \<open>x \<notin> set out\<close> show ?thesis by (simp add: u [simplified])
    qed
  qed
qed

lemma unionSetValues_props:
  "distinct (unionSetValues xs ys)"
  "length (unionSetValues xs ys) \<le> MAX_PROPERTY_VALUES"
  "card (set xs \<union> set ys) \<le> MAX_PROPERTY_VALUES \<Longrightarrow> set (unionSetValues xs ys) = set xs \<union> set ys"
  using union_loop_props [of "[]" "xs @ ys"]
  by (simp_all add: unionSetValues_def MAX_PROPERTY_VALUES_def)

lemma hlcConcurrent_sym: "hlcConcurrent a b = hlcConcurrent b a"
  by (auto simp: hlcConcurrent_def)

lemma mergeCellValue_concurrent:
  assumes "s_value a = PList xs" "s_value b = PList ys" "hlcConcurrent (s_at a) (s_at b)"
    and "hlcAfter (s_at b) (s_at a)"
  shows "mergeCellValue (Some a) (Some b) =
      Some \<lparr>s_value = PList (unionSetValues ys xs), s_at = s_at b, s_seen = None\<rparr>"
    "mergeCellValue (Some b) (Some a) =
      Some \<lparr>s_value = PList (unionSetValues ys xs), s_at = s_at b, s_seen = None\<rparr>"
  using assms hlcConcurrent_sym [of "s_at a"] by (auto simp: mergeCellValue_def dest: hlcAfter_asym)

section \<open>What a merge of two blocks holds\<close>

definition merged_text :: "('s, 'v) NoteBlock \<Rightarrow> ('s, 'v) NoteBlock \<Rightarrow> BlockFence option \<Rightarrow> text_merge" where
  "merged_text a b fenced =
     (case fenced of
        Some f \<Rightarrow> fenceText (Some (b_text a)) (Some (b_text b))
                    (mergeText (Some (b_text a)) (Some (b_text b))) (FENCED_REASON f)
      | None \<Rightarrow> mergeText (Some (b_text a)) (Some (b_text b)))"

definition merged_block_edit ::
  "('s, 'v) NoteBlock \<Rightarrow> ('s, 'v) NoteBlock \<Rightarrow> BlockFence option \<Rightarrow> hlc option"
where
  "merged_block_edit a b fenced =
     latestStamp [latestBlockEdit (a\<lparr>b_text := the (fst (merged_text a b fenced))\<rparr>), latestBlockEdit b]"

definition merged_tombstone ::
  "('s, 'v) NoteBlock \<Rightarrow> ('s, 'v) NoteBlock \<Rightarrow> BlockFence option \<Rightarrow> TombstoneOutcome"
where
  "merged_tombstone a b fenced =
     (if (\<exists>d r. latestStamp [b_deletedAt a, b_deletedAt b] = Some d
              \<and> latestStamp [b_restoredAt a, b_restoredAt b] = Some r \<and> hlcAfter r d)
      then \<lparr>t_deletedAt = latestStamp [b_deletedAt a, b_deletedAt b], t_conflict = None\<rparr>
      else resolveTombstone (b_deletedAt a) (b_deletedAt b) (merged_block_edit a b fenced))"

lemma mergeNoteBlock_sel [simp]:
  "b_parentId (mergeNoteBlock a b f) = the (mergeField (Some (b_parentId a)) (Some (b_parentId b)))"
  "b_rank (mergeNoteBlock a b f) = the (mergeField (Some (b_rank a)) (Some (b_rank b)))"
  "b_kind (mergeNoteBlock a b f) = the (mergeField (Some (b_kind a)) (Some (b_kind b)))"
  "b_text (mergeNoteBlock a b f) = the (fst (merged_text a b f))"
  "b_level (mergeNoteBlock a b f) = mergeField (b_level a) (b_level b)"
  "b_checked (mergeNoteBlock a b f) = mergeCompletion (b_checked a) (b_checked b)"
  "b_props (mergeNoteBlock a b f) = mergeProps (b_props a) (b_props b)"
  "b_comments (mergeNoteBlock a b f) = fm_merge (\<lambda>_. merge_comment_entry) (b_comments a) (b_comments b)"
  "b_restoredAt (mergeNoteBlock a b f) = latestStamp [b_restoredAt a, b_restoredAt b]"
  by (simp_all add: mergeNoteBlock_def Let_def mergeComments_def merged_text_def)

lemma mergeNoteBlock_tombstone:
  "b_deletedAt (mergeNoteBlock a b f) = t_deletedAt (merged_tombstone a b f)"
  "b_conflicts (mergeNoteBlock a b f) =
     put_conflict ''deleted'' (t_conflict (merged_tombstone a b f))
       (snd (mergeComments (b_comments a) (b_comments b)
         (put_conflict ''text'' (snd (merged_text a b f)) (b_conflicts a ++\<^sub>f b_conflicts b))))"
proof -
  have u: "(case (x, y) of (Some d, Some r) \<Rightarrow> hlcAfter r d | _ \<Rightarrow> False)
      = (\<exists>d r. x = Some d \<and> y = Some r \<and> hlcAfter r d)" for x y
    by (auto split: option.splits)
  show "b_deletedAt (mergeNoteBlock a b f) = t_deletedAt (merged_tombstone a b f)"
    "b_conflicts (mergeNoteBlock a b f) =
       put_conflict ''deleted'' (t_conflict (merged_tombstone a b f))
         (snd (mergeComments (b_comments a) (b_comments b)
           (put_conflict ''text'' (snd (merged_text a b f)) (b_conflicts a ++\<^sub>f b_conflicts b))))"
    unfolding mergeNoteBlock_def Let_def u merged_text_def [symmetric] merged_block_edit_def [symmetric]
      merged_tombstone_def [symmetric] mergeComments_def
    by simp_all
qed

lemma fold_put_conflict_other:
  "(\<And>k. g k \<noteq> field) \<Longrightarrow> fmlookup (fold (\<lambda>k. put_conflict (g k) (c k)) ks m) field = fmlookup m field"
  by (induction ks arbitrary: m) (auto simp: put_conflict_lookup)

lemma fold_put_conflict_keeps:
  "fmlookup m field \<noteq> None \<Longrightarrow> fmlookup (fold (\<lambda>k. put_conflict (g k) (c k)) ks m) field \<noteq> None"
proof (induction ks arbitrary: m)
  case (Cons k ks)
  then show ?case
    using Cons.IH [of "put_conflict (g k) (c k) m"]
    by (cases "c k") (auto simp: put_conflict_lookup)
qed simp

lemma commentConflictField_neq [simp]:
  "commentConflictField k \<noteq> ''text''" "commentConflictField k \<noteq> ''deleted''"
  by (simp_all add: commentConflictField_def)

lemma merged_markers [simp]:
  "fmlookup (b_conflicts (mergeNoteBlock a b f)) ''text'' =
     or_else (snd (merged_text a b f)) (fmlookup (b_conflicts a ++\<^sub>f b_conflicts b) ''text'')"
  "fmlookup (b_conflicts (mergeNoteBlock a b f)) ''deleted'' =
     or_else (t_conflict (merged_tombstone a b f)) (fmlookup (b_conflicts a ++\<^sub>f b_conflicts b) ''deleted'')"
  by (simp_all add: mergeNoteBlock_tombstone mergeComments_def put_conflict_lookup fold_put_conflict_other)

lemma merged_text_pick:
  "Some (s_at (the (fst (merged_text a b f)))) \<in> {Some (s_at (b_text a)), Some (s_at (b_text b))}"
  using mergeText_stamp_pick [of "b_text a" "b_text b"]
  by (cases f) (auto simp: merged_text_def fenceText_def)

lemma merged_block_edit_source:
  assumes "merged_block_edit a b f = Some s"
  shows "\<exists>r. (latestBlockEdit a = Some r \<or> latestBlockEdit b = Some r) \<and> \<not> hlcAfter s r"
proof -
  have up: "\<exists>r. latestStamp ys = Some r \<and> \<not> hlcAfter s r" if "Some s \<in> set ys" for ys
    using that latestStamp_None [of ys] latestStamp_upper [of ys] by (cases "latestStamp ys") auto
  have "Some s \<in> set [latestBlockEdit (a\<lparr>b_text := the (fst (merged_text a b f))\<rparr>), latestBlockEdit b]"
    using assms latestStamp_mem unfolding merged_block_edit_def by blast
  then consider "latestBlockEdit b = Some s" | "latestBlockEdit (a\<lparr>b_text := the (fst (merged_text a b f))\<rparr>) = Some s"
    by auto
  then show ?thesis
  proof cases
    case 1
    then show ?thesis by auto
  next
    case 2
    let ?rest = "\<lambda>x. [Some (s_at (b_parentId x)), Some (s_at (b_rank x)),
         Some (s_at (b_kind x)), map_option s_at (b_level x), map_option s_at (b_checked x),
         map_option s_at (b_language x), map_option s_at (b_icon x), map_option s_at (b_cover x),
         map_option s_at (b_schema x)]
        @ map (\<lambda>stamped. Some (s_at stamped)) (fm_values (b_props x))"
    have e: "latestBlockEdit x = latestStamp (Some (s_at (b_text x)) # ?rest x)" for x :: "('s, 'v) NoteBlock"
      unfolding latestBlockEdit_def by simp
    have "Some s \<in> set (Some (s_at (the (fst (merged_text a b f)))) # ?rest a)"
      using latestStamp_mem [OF 2 [unfolded e]] by simp
    then have "Some s \<in> set (Some (s_at (b_text a)) # ?rest a) \<or> Some s \<in> set (Some (s_at (b_text b)) # ?rest b)"
      using merged_text_pick [of a b f] by auto
    then show ?thesis using up unfolding e by blast
  qed
qed

section \<open>Properties\<close>

text \<open>
  A write that did not hold the block's lease never takes the text: the text that was
  there stays; if the write would have won, both versions are kept under the reason of the
  refusal; and every other field merges as if the write had not been fenced.
\<close>

theorem fenced_write_never_takes_text:
  assumes m: "m = mergeNoteBlock a b (Some f)" and n: "n = mergeNoteBlock a b None"
  shows "s_value (b_text m) = s_value (b_text a)
    \<and> (b_text n = b_text b \<longrightarrow> s_value (b_text b) \<noteq> s_value (b_text a) \<longrightarrow>
         fmlookup (b_conflicts m) ''text'' = Some (text_conflict (FENCED_REASON f) (b_text a) (b_text b)))
    \<and> (b_parentId m, b_rank m, b_kind m, b_level m, b_checked m, b_props m, b_comments m)
      = (b_parentId n, b_rank n, b_kind n, b_level n, b_checked n, b_props n, b_comments n)"
proof -
  let ?mt = "mergeText (Some (b_text a)) (Some (b_text b))"
  have same: "s_value (the (fst ?mt)) = s_value (b_text a)" if "s_value (b_text a) = s_value (b_text b)"
    using that by (simp add: mergeText_def Let_def)
  then have "s_value (the (fst ?mt)) = s_value (b_text a)" if "fst ?mt \<noteq> Some (b_text b)"
    using that mergeText_value_cases [of "b_text a" "b_text b"] by fastforce
  moreover have "fst ?mt = Some (b_text b)" if "the (fst ?mt) = b_text b"
    using that mergeText_Some [of "b_text a" "b_text b"] by auto
  ultimately show ?thesis
    using same unfolding m n by (auto simp: merged_text_def fenceText_def)
qed

theorem fenced_write_never_takes_text_witness:
  "s_value (b_text (mergeNoteBlock (demo_block (demo_value ''a'' 2 ''x''))
      (demo_block (demo_value ''b'' 9 ''y'')) (Some stale_epoch))) = ''a''"
  using fenced_write_never_takes_text [OF refl refl, of "demo_block (demo_value ''a'' 2 ''x''::string stamped)"
      "demo_block (demo_value ''b'' 9 ''y'')" stale_epoch]
  by (simp add: demo_block_def demo_value_def)

text \<open>
  Two concurrent writes of a set-valued cell lose nothing: both devices hold the same
  list, without duplicates and within the bound, and it is the union of the two while the
  union is within the bound.
\<close>

theorem concurrent_set_cells_union:
  assumes "s_value a = PList xs" "s_value b = PList ys" "hlcConcurrent (s_at a) (s_at b)"
  shows "\<exists>c zs. mergeCellValue (Some a) (Some b) = Some c \<and> mergeCellValue (Some b) (Some a) = Some c
    \<and> s_value c = PList zs \<and> distinct zs \<and> length zs \<le> MAX_PROPERTY_VALUES
    \<and> (card (set xs \<union> set ys) \<le> MAX_PROPERTY_VALUES \<longrightarrow> set zs = set xs \<union> set ys)"
proof -
  have "s_at a \<noteq> s_at b" using assms(3) by (auto simp: hlcConcurrent_def)
  then consider "hlcAfter (s_at b) (s_at a)" | "hlcAfter (s_at a) (s_at b)"
    using hlcAfter_linear by blast
  then show ?thesis
  proof cases
    case 1
    from mergeCellValue_concurrent [OF assms 1] unionSetValues_props [of ys xs]
    show ?thesis by (auto simp: Un_commute)
  next
    case 2
    have "hlcConcurrent (s_at b) (s_at a)" using assms(3) hlcConcurrent_sym by blast
    from mergeCellValue_concurrent [OF assms(2,1) this 2] unionSetValues_props [of xs ys]
    show ?thesis by auto
  qed
qed

theorem concurrent_set_cells_union_witness:
  "\<exists>c. mergeCellValue (Some (demo_value (PList [''p'']) 5 ''x'')) (Some (demo_value (PList [''q'']) 5 ''y''))
        = Some c"
  using concurrent_set_cells_union [of "demo_value (PList [''p'']) 5 ''x''" "[''p'']"
      "demo_value (PList [''q'']) 5 ''y''" "[''q'']"]
  by (auto simp: demo_value_def demo_stamp_def hlcConcurrent_def)

text \<open>
  The union is written under the winning side's own stamp, so it is not an event the
  winning side can see: a device that holds the winning version and receives the union
  keeps its own list, while the device that made the union keeps the union. The two stay
  apart until somebody edits the cell again.
\<close>

theorem set_union_never_reaches_the_winner:
  assumes "s_value a = PList xs" "s_value b = PList ys" "hlcConcurrent (s_at a) (s_at b)"
    and "hlcAfter (s_at b) (s_at a)"
  shows "mergeCellValue (Some b) (mergeCellValue (Some a) (Some b)) = Some b
    \<and> mergeCellValue (mergeCellValue (Some a) (Some b)) (Some b) = mergeCellValue (Some a) (Some b)"
  using assms
  by (simp add: mergeCellValue_concurrent) (simp add: mergeCellValue_def hlcConcurrent_def)

theorem set_union_never_reaches_the_winner_witness:
  "mergeCellValue (Some (demo_value (PList [''q'']) 5 ''y''))
      (mergeCellValue (Some (demo_value (PList [''p'']) 5 ''x'')) (Some (demo_value (PList [''q'']) 5 ''y'')))
    = Some (demo_value (PList [''q'']) 5 ''y'')"
  using set_union_never_reaches_the_winner [of "demo_value (PList [''p'']) 5 ''x''" "[''p'']"
      "demo_value (PList [''q'']) 5 ''y''" "[''q'']"]
  by (simp add: demo_value_def demo_stamp_def hlcConcurrent_def hlcAfter_iff)

text \<open>
  A restore newer than every tombstone keeps the block live without a marker and keeps
  the tombstone for comparison; a tombstone that neither a restore nor an edit outranks
  leaves the block deleted.
\<close>

theorem block_restore_and_delete:
  assumes d: "latestStamp [b_deletedAt a, b_deletedAt b] = Some d"
    and m: "m = mergeNoteBlock a b f"
  shows "(\<forall>r. latestStamp [b_restoredAt a, b_restoredAt b] = Some r \<longrightarrow> hlcAfter r d \<longrightarrow>
            isLiveBlock m \<and> b_deletedAt m = Some d
            \<and> fmlookup (b_conflicts m) ''deleted'' = fmlookup (b_conflicts a ++\<^sub>f b_conflicts b) ''deleted'')
    \<and> ((\<forall>r. latestStamp [b_restoredAt a, b_restoredAt b] = Some r \<longrightarrow> \<not> hlcAfter r d) \<longrightarrow>
        (\<forall>e. blockEditedAt a = Some e \<or> blockEditedAt b = Some e \<longrightarrow> \<not> hlcAfter e d) \<longrightarrow>
            \<not> isLiveBlock m \<and> b_deletedAt m = Some d)"
proof (intro conjI allI impI)
  fix r
  assume "latestStamp [b_restoredAt a, b_restoredAt b] = Some r" "hlcAfter r d"
  then show "isLiveBlock m" "b_deletedAt m = Some d"
    "fmlookup (b_conflicts m) ''deleted'' = fmlookup (b_conflicts a ++\<^sub>f b_conflicts b) ''deleted''"
    using d unfolding m by (simp_all add: isLiveBlock_def mergeNoteBlock_tombstone(1) merged_tombstone_def
        del: latestStamp_Cons)
next
  assume r: "\<forall>r. latestStamp [b_restoredAt a, b_restoredAt b] = Some r \<longrightarrow> \<not> hlcAfter r d"
    and e: "\<forall>e. blockEditedAt a = Some e \<or> blockEditedAt b = Some e \<longrightarrow> \<not> hlcAfter e d"
  have "\<not> hlcAfter s d" if "merged_block_edit a b f = Some s" for s
    using merged_block_edit_source [OF that] e unfolding blockEditedAt_def
    by (metis hlcAfter_trans not_hlcAfter)
  moreover have "later (b_deletedAt a) (b_deletedAt b) = Some d" using d by simp
  ultimately have "t_deletedAt (merged_tombstone a b f) = Some d"
    using r d by (auto simp: merged_tombstone_def resolveTombstone_later simp del: latestStamp_Cons
        split: option.splits)
  then show del: "b_deletedAt m = Some d" unfolding m by (simp add: mergeNoteBlock_tombstone(1))
  have "b_restoredAt m = latestStamp [b_restoredAt a, b_restoredAt b]" unfolding m by simp
  with r del show "\<not> isLiveBlock m"
    by (auto simp: isLiveBlock_def simp del: latestStamp_Cons split: option.splits)
qed

theorem block_restore_and_delete_witness:
  "isLiveBlock (mergeNoteBlock
     ((demo_block (demo_value ''a'' 2 ''x''))\<lparr>b_deletedAt := Some (demo_stamp 4 ''x'')\<rparr>)
     ((demo_block (demo_value ''a'' 2 ''x''))\<lparr>b_restoredAt := Some (demo_stamp 6 ''y'')\<rparr>) None)"
  using block_restore_and_delete
    [of "(demo_block (demo_value ''a'' 2 ''x''))\<lparr>b_deletedAt := Some (demo_stamp 4 ''x'')\<rparr>"
      "(demo_block (demo_value ''a'' 2 ''x''))\<lparr>b_restoredAt := Some (demo_stamp 6 ''y'')\<rparr>"
      "demo_stamp 4 ''x''" _ None, OF _ refl]
  by (simp add: demo_block_def demo_stamp_def hlcAfter_iff)

lemma merge_keeps_markers:
  assumes "fmlookup (b_conflicts a) field \<noteq> None \<or> fmlookup (b_conflicts b) field \<noteq> None"
  shows "fmlookup (b_conflicts (mergeNoteBlock a b f)) field \<noteq> None"
proof -
  have "fmlookup (put_conflict ''text'' (snd (merged_text a b f)) (b_conflicts a ++\<^sub>f b_conflicts b)) field \<noteq> None"
    using assms by (cases "snd (merged_text a b f)") (auto simp: put_conflict_lookup)
  then have "fmlookup (snd (mergeComments (b_comments a) (b_comments b)
      (put_conflict ''text'' (snd (merged_text a b f)) (b_conflicts a ++\<^sub>f b_conflicts b)))) field \<noteq> None"
    unfolding mergeComments_def snd_conv by (rule fold_put_conflict_keeps)
  then show ?thesis
    by (cases "t_conflict (merged_tombstone a b f)")
      (auto simp: mergeNoteBlock_tombstone(2) put_conflict_lookup)
qed

lemma resolveBlockConflict_clears:
  "resolveBlockConflict b field keep t = Some r \<Longrightarrow> b_conflicts r = fmdrop field (b_conflicts b)"
  by (auto simp: resolveBlockConflict_def Let_def split: option.splits if_splits)

text \<open>
  No merge drops a conflict marker either side still carries. So a conflict resolved
  on one device, whose own copy no longer has the marker, is marked again by the first
  merge with a copy from before the decision.
\<close>

theorem resolved_marker_returns:
  assumes "resolveBlockConflict b field keep t = Some r"
  shows "fmlookup (b_conflicts r) field = None
    \<and> fmlookup (b_conflicts (mergeNoteBlock r b f)) field \<noteq> None
    \<and> fmlookup (b_conflicts (mergeNoteBlock b r f)) field \<noteq> None"
proof -
  have "fmlookup (b_conflicts b) field \<noteq> None"
    using assms by (auto simp: resolveBlockConflict_def split: option.splits)
  then show ?thesis
    using resolveBlockConflict_clears [OF assms] merge_keeps_markers [of r field b f]
      merge_keeps_markers [of b field r f]
    by simp
qed

definition demo_conflicted :: "(unit, unit) NoteBlock" where
  "demo_conflicted =
     (demo_block (demo_value ''b'' 9 ''y''))\<lparr>b_conflicts :=
        fmupd ''text'' (text_conflict concurrent_text (demo_value ''a'' 9 ''x'') (demo_value ''b'' 9 ''y'')) fmempty\<rparr>"

theorem resolved_marker_returns_witness:
  "\<exists>r. resolveBlockConflict demo_conflicted ''text'' keep_ours (demo_stamp 12 ''x'') = Some r
      \<and> b_text r = demo_value ''a'' 12 ''x'' \<and> fmlookup (b_conflicts r) ''text'' = None
      \<and> fmlookup (b_conflicts (mergeNoteBlock r demo_conflicted None)) ''text'' \<noteq> None"
proof -
  have "\<exists>r. resolveBlockConflict demo_conflicted ''text'' keep_ours (demo_stamp 12 ''x'') = Some r
      \<and> b_text r = demo_value ''a'' 12 ''x''"
    by (simp add: resolveBlockConflict_def demo_conflicted_def demo_block_def Let_def starts_with_def
        text_conflict_def demo_value_def)
  then show ?thesis using resolved_marker_returns by blast
qed

end
