(* ===== verification/SurfaceSync.thy ===== *)
theory SurfaceSync
  imports RecordSync PlannerMerge BlockMerge
begin

text \<open>
  The two surfaces of the sync engine: the planner (\<open>packages/core/src/planner/plannerSync.ts\<close>:
  mirrored items are re-read, a deleted item takes its time blocks with it, pulled blocks
  never overwrite a newer queued move) and the notes (\<open>packages/core/src/notes/notesSync.ts\<close>).
  Both discharge the engine's interface \<open>sync_records\<close>, and the engine's guarantees hold of
  both. A state's other fields are the field \<open>ns_rest\<close> of the notes.
\<close>

section \<open>The planner\<close>

record TimeBlock =
  tb_id :: string
  tb_itemId :: string
  tb_scheduledFor :: "string option"
  tb_estimateMinutes :: int
  tb_actualMinutes :: "int option"
  tb_carriedOver :: int
  tb_completedAt :: "string option"
  tb_updatedAt :: "hlc option"
  tb_deletedAt :: "hlc option"

record 'p PlannerState = "'p SyncState" +
  ps_deviceId :: string
  ps_items :: "(string, PlannerItem) fmap"
  ps_blocks :: "(string, TimeBlock) fmap"

definition cascade_block :: "string \<Rightarrow> hlc \<Rightarrow> TimeBlock \<Rightarrow> TimeBlock" where
  "cascade_block item deletedAt block =
     (if tb_itemId block \<noteq> item then block
      else
        let tombstone = (case tb_deletedAt block of
                           Some d \<Rightarrow> if compareHlc d deletedAt > 0 then d else deletedAt
                         | None \<Rightarrow> deletedAt)
        in block\<lparr>tb_updatedAt := Some tombstone, tb_deletedAt := Some tombstone\<rparr>)"

definition cascadeItemTombstone :: "'p PlannerState \<Rightarrow> PlannerItem \<Rightarrow> 'p PlannerState" where
  "cascadeItemTombstone state remote =
     (case Option.bind (fmlookup (ps_items state) (it_id remote)) it_deletedAt of
        None \<Rightarrow> state
      | Some deletedAt \<Rightarrow> state\<lparr>ps_blocks := fmmap (cascade_block (it_id remote) deletedAt) (ps_blocks state)\<rparr>)"

text \<open>\<open>stamps.sort(compareHlc).at(-1)\<close>.\<close>

definition newest_of :: "hlc option list \<Rightarrow> hlc option" where
  "newest_of stamps =
     (case sort_by compareHlc (map the (filter (\<lambda>s. s \<noteq> None) stamps)) of
        [] \<Rightarrow> None
      | xs \<Rightarrow> Some (last xs))"

definition newestPlannerItemStamp :: "PlannerItem \<Rightarrow> hlc option" where
  "newestPlannerItemStamp item =
     newest_of
       ([Some (s_at (it_title item)), map_option s_at (it_notes item), map_option s_at (it_dueDate item),
         map_option s_at (it_priority item), map_option s_at (it_completed item),
         it_estimateUpdatedAt item, map_option s_at (it_blockedReason item),
         it_deletedAt item, it_titleResolution item, it_notesResolution item,
         map_option dr_at (it_deletionResolution item)]
        @ concat (map (\<lambda>c. [Some (c_oursAt c), Some (c_theirsAt c)]) (fm_values (it_conflicts item))))"

definition PLANNER_RECORDS :: "('p PlannerState, PlannerItem) SyncRecords" where
  "PLANNER_RECORDS =
     \<lparr>sr_idOf = it_id,
      sr_read = (\<lambda>state i. fmlookup (ps_items state) i),
      sr_write = (\<lambda>state i item. state\<lparr>ps_items := fmupd i item (ps_items state)\<rparr>),
      sr_merge = (\<lambda>loc remote fetchedAt.
        if it_origin remote = mirrored then
          (refreshMirrored loc
            \<lparr>rf_title = it_title remote, rf_notes = it_notes remote, rf_dueDate = it_dueDate remote,
             rf_completed = it_completed remote, rf_source = it_source remote,
             rf_provenance = it_provenance remote, rf_blockedReason = it_blockedReason remote\<rparr> fetchedAt,
           False)
        else
          let merged = mergeOwnedItem loc remote
          in (merged, fmdom (it_conflicts merged) \<noteq> {||})),
      sr_observedClock = newestPlannerItemStamp,
      sr_afterApply = cascadeItemTombstone\<rparr>"

definition newestLocalBlockStamp :: "'p PlannerState \<Rightarrow> string \<Rightarrow> hlc option" where
  "newestLocalBlockStamp state blockId =
     (let blockStamp = Option.bind (fmlookup (ps_blocks state) blockId) tb_updatedAt;
          queued = newest_of (map (\<lambda>x. Some (o_at x))
            (filter (\<lambda>x. o_entity x = Some e_block \<and> o_itemId x = blockId) (ob_operations (ss_outbox state))))
      in case blockStamp of
           None \<Rightarrow> queued
         | Some b \<Rightarrow> (case queued of None \<Rightarrow> blockStamp | Some q \<Rightarrow> if compareHlc q b > 0 then queued else blockStamp))"

definition applyRemoteBlock :: "'p PlannerState \<Rightarrow> TimeBlock \<Rightarrow> 'p PlannerState \<times> bool" where
  "applyRemoteBlock state remote =
     (let put = (state\<lparr>ps_blocks := fmupd (tb_id remote) remote (ps_blocks state)\<rparr>, True)
      in case fmlookup (ps_blocks state) (tb_id remote) of
           None \<Rightarrow> put
         | Some loc \<Rightarrow>
             let localStamp = newestLocalBlockStamp state (tb_id remote)
             in case tb_updatedAt remote of
                  None \<Rightarrow> if localStamp \<noteq> None then (state, False) else put
                | Some u \<Rightarrow>
                    (case localStamp of
                       Some l \<Rightarrow> if compareHlc u l \<le> 0 then (state, False) else put
                     | None \<Rightarrow> put))"

text \<open>The planner's pull carries time blocks beside the items.\<close>

record PlannerPull = "PlannerItem PullResponse" +
  pp_blocks :: "TimeBlock list"

record ('s, 'p) PlannerTransport =
  pt_pull :: "'s \<Rightarrow> string option \<Rightarrow> 's \<times> PlannerPull option"
  pt_push :: "'s \<Rightarrow> 'p OutboxOperation list \<Rightarrow> 's \<times> js option"

definition pull_block :: "int \<Rightarrow> TimeBlock \<Rightarrow> 'p PlannerState \<times> nat \<Rightarrow> 'p PlannerState \<times> nat" where
  "pull_block nowMs block acc =
     (let (state, pulledBlocks) = acc;
          state1 = (case or_else (tb_deletedAt block) (tb_updatedAt block) of
                      None \<Rightarrow> state
                    | Some observed \<Rightarrow> state\<lparr>ss_clock := hlcReceive (ss_clock state) observed nowMs\<rparr>);
          (state2, applied) = applyRemoteBlock state1 block
      in (state2, if applied then pulledBlocks + 1 else pulledBlocks))"

definition item_transport ::
  "('p PlannerState, 'p) PlannerTransport \<Rightarrow> int \<Rightarrow> ('p PlannerState, PlannerItem, 'p) SyncTransport"
where
  "item_transport transport nowMs =
     \<lparr>tr_pull = (\<lambda>state since.
        case pt_pull transport state since of
          (state1, None) \<Rightarrow> (state1, None)
        | (state1, Some response) \<Rightarrow>
            (fst (fold (pull_block nowMs) (pp_blocks response) (state1, 0)),
             Some \<lparr>pr_items = pr_items response, pr_cursor = pr_cursor response,
                   pr_serverClock = pr_serverClock response\<rparr>)),
      tr_push = pt_push transport\<rparr>"

text \<open>
  One planner cycle. \<open>pulledBlocks\<close> counts the blocks the wrapped pull applied, from the
  state that pull is called in.
\<close>

definition syncOnce ::
  "'p PlannerState \<Rightarrow> ('p PlannerState, 'p) PlannerTransport \<Rightarrow> int
     \<Rightarrow> 'p PlannerState \<times> SyncResult \<times> nat"
where
  "syncOnce state transport nowMs =
     (let state0 = state\<lparr>ss_outbox := \<lparr>ob_operations = ob_operations (shed (ss_outbox state) nowMs None None),
                         ob_shedNotice = None\<rparr>\<rparr>;
          pulledBlocks = (case pt_pull transport state0 (ss_lastPulledAt state0) of
                            (state1, None) \<Rightarrow> 0
                          | (state1, Some response) \<Rightarrow> snd (fold (pull_block nowMs) (pp_blocks response) (state1, 0)));
          (state', result) = syncRecords state (item_transport transport nowMs) PLANNER_RECORDS nowMs
      in (state', result, pulledBlocks))"

interpretation planner: sync_records PLANNER_RECORDS
  by unfold_locales (simp_all add: PLANNER_RECORDS_def cascadeItemTombstone_def split: option.split)

section \<open>The notes\<close>

record ('s, 'v, 'x, 'p) NotesState = "'p SyncState" +
  ns_blocks :: "(string, ('s, 'v) NoteBlock) fmap"
  ns_rest :: 'x

definition NOTE_RECORDS :: "(('s, 'v, 'x, 'p) NotesState, ('s, 'v) NoteBlock) SyncRecords" where
  "NOTE_RECORDS =
     \<lparr>sr_idOf = b_id,
      sr_read = (\<lambda>state i. fmlookup (ns_blocks state) i),
      sr_write = (\<lambda>state i block. state\<lparr>ns_blocks := fmupd i block (ns_blocks state)\<rparr>),
      sr_merge = (\<lambda>loc remote fetchedAt.
        let merged = mergeNoteBlock loc remote None
        in (merged, fmdom (b_conflicts merged) \<noteq> {||})),
      sr_observedClock = blockWrittenAt,
      sr_afterApply = (\<lambda>state _. state)\<rparr>"

definition applyRemoteNoteBlock ::
  "('s, 'v, 'x, 'p) NotesState \<Rightarrow> ('s, 'v) NoteBlock \<Rightarrow> string \<Rightarrow> ('s, 'v, 'x, 'p) NotesState \<times> bool"
where
  "applyRemoteNoteBlock state remote fetchedAt = applyRemoteRecord state remote fetchedAt NOTE_RECORDS"

definition syncNotesOnce ::
  "('s, 'v, 'x, 'p) NotesState
     \<Rightarrow> (('s, 'v, 'x, 'p) NotesState, ('s, 'v) NoteBlock, 'p) SyncTransport \<Rightarrow> int
     \<Rightarrow> ('s, 'v, 'x, 'p) NotesState \<times> SyncResult"
where
  "syncNotesOnce state transport nowMs = syncRecords state transport NOTE_RECORDS nowMs"

definition describeNotesSync :: "SyncResult \<Rightarrow> 'p OutboxState \<Rightarrow> string" where
  "describeNotesSync result outbox = describeRecordSync result outbox ''block''"

interpretation note_blocks: sync_records NOTE_RECORDS
  by unfold_locales (simp_all add: NOTE_RECORDS_def)

section \<open>Lemmas\<close>

lemma pull_block_keeps:
  "ss_outbox (fst (pull_block now b acc)) = ss_outbox (fst acc)"
  "ps_items (fst (pull_block now b acc)) = ps_items (fst acc)"
  by (simp_all add: pull_block_def applyRemoteBlock_def Let_def case_prod_beta split: option.split)

lemma pull_block_fold:
  "ps_items (fst (fold (pull_block now) bs acc)) = ps_items (fst acc)"
  by (induction bs arbitrary: acc) (simp_all add: pull_block_keeps)

lemma syncOnce_engine:
  "fst (syncOnce s t now) = fst (syncRecords s (item_transport t now) PLANNER_RECORDS now)"
  "fst (snd (syncOnce s t now)) = snd (syncRecords s (item_transport t now) PLANNER_RECORDS now)"
  by (simp_all add: syncOnce_def Let_def case_prod_beta)

section \<open>Properties\<close>

text \<open>
  C4. No cycle loses a queued operation, on either surface: afterwards it is still queued, or
  the batch this very cycle pushed held it and the valid acknowledgement of that batch
  accepted its key, or this cycle shed it and its result carries the notice of that shedding.
  A failed pull, a failed push and an acknowledgement that does not account for exactly the
  batch lose nothing. (Code that runs while the network is awaited only queues more work.)
\<close>

theorem sync_keeps_every_operation:
  assumes "only_enqueues tn" "x \<in> set (ob_operations (ss_outbox sn))"
    and "only_enqueues (item_transport tp now)" "y \<in> set (ob_operations (ss_outbox sp))"
  shows "(op_tag x \<in> op_tag ` set (ob_operations (ss_outbox (fst (syncNotesOnce sn tn now))))
          \<or> accepted_in_cycle sn tn NOTE_RECORDS now (o_idempotencyKey x)
          \<or> shed_in_cycle sn now (snd (syncNotesOnce sn tn now)) x)
       \<and> (op_tag y \<in> op_tag ` set (ob_operations (ss_outbox (fst (syncOnce sp tp now))))
          \<or> accepted_in_cycle sp (item_transport tp now) PLANNER_RECORDS now (o_idempotencyKey y)
          \<or> shed_in_cycle sp now (fst (snd (syncOnce sp tp now))) y)"
  using note_blocks.sync_keeps_operations [OF assms(1,2), of now]
    planner.sync_keeps_operations [OF assms(3,4), of now]
  unfolding syncNotesOnce_def syncOnce_engine by blast

definition demo_notes :: "(unit, unit, unit, unit) NotesState" where
  "demo_notes =
     \<lparr>ss_clock = demo_stamp 1 ''x'', ss_lastPulledAt = None, ss_outbox = demo_queue,
      ns_blocks = fmupd ''b'' (demo_block (demo_value ''a'' 2 ''x'')) fmempty, ns_rest = ()\<rparr>"

definition demo_planner :: "unit PlannerState" where
  "demo_planner =
     \<lparr>ss_clock = demo_stamp 1 ''x'', ss_lastPulledAt = None, ss_outbox = demo_queue,
      ps_deviceId = ''x'', ps_items = fmupd ''i'' (demo_item ''i'' (demo_value ''a'' 2 ''x'')) fmempty,
      ps_blocks = fmempty\<rparr>"

text \<open>A network that is never there.\<close>

definition demo_offline_notes :: "((unit, unit, unit, unit) NotesState, (unit, unit) NoteBlock, unit) SyncTransport" where
  "demo_offline_notes = \<lparr>tr_pull = (\<lambda>s _. (s, None)), tr_push = (\<lambda>s _. (s, None))\<rparr>"

definition demo_offline_planner :: "(unit PlannerState, unit) PlannerTransport" where
  "demo_offline_planner = \<lparr>pt_pull = (\<lambda>s _. (s, None)), pt_push = (\<lambda>s _. (s, None))\<rparr>"

lemma demo_queue_ops: "ob_operations demo_queue = [demo_op ''k1'' ''i'' 1, demo_op ''k2'' ''i'' 2]"
  by (simp add: demo_queue_def enqueue_def emptyOutbox_def demo_op_def)

theorem sync_keeps_every_operation_witness:
  "op_tag (demo_op ''k1'' ''i'' 1) \<in> op_tag ` set (ob_operations (ss_outbox (fst (syncNotesOnce demo_notes demo_offline_notes 5))))"
proof -
  have t: "only_enqueues demo_offline_notes" "only_enqueues (item_transport demo_offline_planner 5)"
    by (simp_all add: only_enqueues_def demo_offline_notes_def demo_offline_planner_def item_transport_def)
  have x: "demo_op ''k1'' ''i'' 1 \<in> set (ob_operations (ss_outbox demo_notes))"
    "demo_op ''k1'' ''i'' 1 \<in> set (ob_operations (ss_outbox demo_planner))"
    by (simp_all add: demo_notes_def demo_planner_def demo_queue_ops)
  have fresh: "ob_operations (shed demo_queue 5 None None) = ob_operations demo_queue"
    by (simp add: shed_operations demo_queue_ops demo_op_def demo_stamp_def MAX_OUTBOX_AGE_MS_def
        MAX_OUTBOX_OPERATIONS_def)
  have "\<not> shed_in_cycle demo_notes 5 r (demo_op ''k1'' ''i'' 1)" for r
    using fresh by (simp add: shed_in_cycle_def demo_notes_def demo_queue_ops)
  moreover have "\<not> accepted_in_cycle demo_notes demo_offline_notes NOTE_RECORDS 5 k" for k
    by (simp add: accepted_in_cycle_def pushing_state_def demo_offline_notes_def Let_def)
  ultimately show ?thesis
    using sync_keeps_every_operation [OF t(1) x(1) t(2) x(2)] by blast
qed

text \<open>
  C5. A cycle, first or not, never deletes: every record the device held before, it holds
  after, whatever the server sends; deletions travel only as tombstones inside records. (The
  network calls themselves leave the records alone.)
\<close>

theorem sync_never_deletes_records:
  assumes "\<And>s b. ns_blocks (fst (tr_push tn s b)) = ns_blocks s" "\<And>s c. ns_blocks (fst (tr_pull tn s c)) = ns_blocks s"
    and "\<And>s b. ps_items (fst (pt_push tp s b)) = ps_items s" "\<And>s c. ps_items (fst (pt_pull tp s c)) = ps_items s"
    and "i |\<in>| fmdom (ns_blocks sn)" "j |\<in>| fmdom (ps_items sp)"
  shows "i |\<in>| fmdom (ns_blocks (fst (syncNotesOnce sn tn now)))
    \<and> j |\<in>| fmdom (ps_items (fst (syncOnce sp tp now)))"
proof
  have r: "sr_read NOTE_RECORDS s k = fmlookup (ns_blocks s) k" for s :: "('s, 'v, 'x, 'p) NotesState" and k
    by (simp add: NOTE_RECORDS_def)
  have "sr_read NOTE_RECORDS (fst (syncRecords sn tn NOTE_RECORDS now)) i \<noteq> None"
    by (rule note_blocks.sync_never_deletes) (use assms in \<open>auto simp: NOTE_RECORDS_def fmlookup_dom_iff\<close>)
  then show "i |\<in>| fmdom (ns_blocks (fst (syncNotesOnce sn tn now)))"
    by (auto simp: NOTE_RECORDS_def syncNotesOnce_def fmlookup_dom_iff)
  have "ps_items (fst (tr_pull (item_transport tp now) s c)) = ps_items s" for s c
    using assms(4) [of s c]
    by (cases "pt_pull tp s c")
      (auto simp: item_transport_def pull_block_fold split: option.split prod.split)
  then have "sr_read PLANNER_RECORDS (fst (syncRecords sp (item_transport tp now) PLANNER_RECORDS now)) j \<noteq> None"
    by (intro planner.sync_never_deletes)
      (use assms in \<open>auto simp: PLANNER_RECORDS_def item_transport_def fmlookup_dom_iff\<close>)
  then show "j |\<in>| fmdom (ps_items (fst (syncOnce sp tp now)))"
    unfolding syncOnce_engine by (auto simp: PLANNER_RECORDS_def fmlookup_dom_iff)
qed

theorem sync_never_deletes_records_witness:
  "''b'' |\<in>| fmdom (ns_blocks (fst (syncNotesOnce demo_notes demo_offline_notes 5)))"
proof -
  have t: "ns_blocks (fst (tr_push demo_offline_notes s b)) = ns_blocks s"
    "ns_blocks (fst (tr_pull demo_offline_notes s c)) = ns_blocks s"
    "ps_items (fst (pt_push demo_offline_planner p b)) = ps_items p"
    "ps_items (fst (pt_pull demo_offline_planner p c)) = ps_items p" for s b c p
    by (simp_all add: demo_offline_notes_def demo_offline_planner_def)
  have "''b'' |\<in>| fmdom (ns_blocks demo_notes)" "''i'' |\<in>| fmdom (ps_items demo_planner)"
    by (simp_all add: demo_notes_def demo_planner_def)
  from sync_never_deletes_records [OF t this, of 5] show ?thesis by blast
qed

text \<open>
  A deletion pulled from another device takes the item's time blocks with it: once a
  pulled version leaves the item deleted at \<open>d\<close>, every block of that item carries a
  tombstone no older than \<open>d\<close>.
\<close>

theorem deleted_item_takes_its_blocks:
  fixes s :: "'p PlannerState"
  assumes keyed: "\<And>k it. fmlookup (ps_items s) k = Some it \<Longrightarrow> it_id it = k"
    and s': "s' = fst (applyRemoteRecord s remote t PLANNER_RECORDS)"
    and gone: "Option.bind (fmlookup (ps_items s') (it_id remote)) it_deletedAt = Some d"
    and block: "fmlookup (ps_blocks s') k = Some b" "tb_itemId b = it_id remote"
  shows "\<exists>e. tb_deletedAt b = Some e \<and> \<not> hlcAfter d e"
proof -
  let ?records = "PLANNER_RECORDS :: ('p PlannerState, PlannerItem) SyncRecords"
  have merged: "it_id (fst (sr_merge ?records loc remote t)) = it_id loc" for loc
    by (simp add: PLANNER_RECORDS_def Let_def refreshMirrored_def mergeOwnedItem_def)
  obtain u m where u: "s' = cascadeItemTombstone u m" "it_id m = it_id remote"
  proof (cases "fmlookup (ps_items s) (it_id remote)")
    case None
    show ?thesis
      by (rule that [of "s\<lparr>ps_items := fmupd (it_id remote) remote (ps_items s)\<rparr>" remote])
        (simp_all add: s' applyRemoteRecord_def PLANNER_RECORDS_def Let_def None)
  next
    case (Some loc)
    let ?m = "fst (sr_merge ?records loc remote t)"
    have "sr_read ?records s (sr_idOf ?records remote) = Some loc"
      using Some by (simp add: PLANNER_RECORDS_def)
    then have "s' = sr_afterApply ?records (sr_write ?records s (sr_idOf ?records remote) ?m) ?m"
      unfolding s' applyRemoteRecord_def Let_def by (simp only: option.case fst_conv)
    moreover have "sr_afterApply ?records = cascadeItemTombstone"
      by (simp add: PLANNER_RECORDS_def)
    moreover have "it_id ?m = it_id remote" using merged keyed [OF Some] by simp
    ultimately show ?thesis using that by metis
  qed
  have items: "ps_items s' = ps_items u" unfolding u by (simp add: cascadeItemTombstone_def split: option.split)
  then have "s' = u\<lparr>ps_blocks := fmmap (cascade_block (it_id remote) d) (ps_blocks u)\<rparr>"
    using gone u by (simp add: cascadeItemTombstone_def)
  with block obtain b0 where "b = cascade_block (it_id remote) d b0" "tb_itemId b = it_id remote" by auto
  then show ?thesis
    by (auto simp: cascade_block_def Let_def hlcAfter_def [symmetric] dest: hlcAfter_asym
        split: option.splits if_splits)
qed

definition demo_time_block :: TimeBlock where
  "demo_time_block =
     \<lparr>tb_id = ''t'', tb_itemId = ''i'', tb_scheduledFor = None, tb_estimateMinutes = 30,
      tb_actualMinutes = None, tb_carriedOver = 0, tb_completedAt = None, tb_updatedAt = None,
      tb_deletedAt = None\<rparr>"

theorem deleted_item_takes_its_blocks_witness:
  "\<exists>b e. fmlookup (ps_blocks (fst (applyRemoteRecord (demo_planner\<lparr>ps_items := fmempty, ps_blocks := fmupd ''t'' demo_time_block fmempty\<rparr>)
       ((demo_item ''i'' (demo_value ''a'' 2 ''x''))\<lparr>it_deletedAt := Some (demo_stamp 9 ''y'')\<rparr>) ''now'' PLANNER_RECORDS))) ''t'' = Some b
     \<and> tb_deletedAt b = Some e \<and> \<not> hlcAfter (demo_stamp 9 ''y'') e"
proof -
  let ?s = "demo_planner\<lparr>ps_items := fmempty, ps_blocks := fmupd ''t'' demo_time_block fmempty\<rparr>"
  let ?r = "(demo_item ''i'' (demo_value ''a'' 2 ''x''))\<lparr>it_deletedAt := Some (demo_stamp 9 ''y'')\<rparr>"
  let ?s' = "fst (applyRemoteRecord ?s ?r ''now'' PLANNER_RECORDS)"
  have keyed: "\<And>k it. fmlookup (ps_items ?s) k = Some it \<Longrightarrow> it_id it = k"
    by (auto simp: demo_planner_def demo_item_def split: if_splits)
  have gone: "Option.bind (fmlookup (ps_items ?s') (it_id ?r)) it_deletedAt = Some (demo_stamp 9 ''y'')"
    by (simp add: demo_planner_def demo_item_def applyRemoteRecord_def PLANNER_RECORDS_def Let_def
        cascadeItemTombstone_def)
  have "ps_blocks ?s' = fmmap (cascade_block ''i'' (demo_stamp 9 ''y'')) (fmupd ''t'' demo_time_block fmempty)"
    by (simp add: demo_planner_def demo_item_def applyRemoteRecord_def PLANNER_RECORDS_def Let_def
        cascadeItemTombstone_def)
  then obtain b where b: "fmlookup (ps_blocks ?s') ''t'' = Some b" "tb_itemId b = it_id ?r"
    by (simp add: cascade_block_def demo_time_block_def Let_def demo_item_def)
  from deleted_item_takes_its_blocks [OF keyed refl gone b] b show ?thesis by blast
qed

end
