(* ===== verification/BlockLease.thy ===== *)
theory BlockLease
  imports Outbox
begin

text \<open>
  The soft lock of a note block, \<open>packages/core/src/notes/blockLease.ts\<close>: a lease with a
  fencing epoch that every acquisition bumps and nothing else changes; and the three
  operations of \<open>packages/core/src/notes/noteStore.ts\<close> that a device edits under. Times are
  the milliseconds of the granting clock. The records of all blocks are an \<open>fmap\<close>, which
  the operations of the note store read and write back; the life of one block's lease, the
  sweeping of old records included, is the step relation \<open>lease_reaches\<close>.
\<close>

definition BLOCK_LEASE_MS :: int where
  "BLOCK_LEASE_MS = 30000"

definition BLOCK_LEASE_RENEW_MS :: int where
  "BLOCK_LEASE_RENEW_MS = BLOCK_LEASE_MS div 3"

record BlockLease =
  bl_blockId :: string
  bl_deviceId :: string
  bl_holder :: "string option"
  bl_epoch :: int
  bl_expiresAt :: int

record LeaseClaim =
  lc_deviceId :: string
  lc_epoch :: int

datatype LeaseRefusal = held_by_another | lr_stale_epoch | lr_lease_expired | not_held

datatype LeaseOutcome =
    LeaseOk BlockLease
  | LeaseRefused LeaseRefusal string "BlockLease option"

definition isLeaseLive :: "BlockLease option \<Rightarrow> int \<Rightarrow> bool" where
  "isLeaseLive lease nowMs = (case lease of None \<Rightarrow> False | Some l \<Rightarrow> bl_expiresAt l > nowMs)"

definition held :: "BlockLease \<Rightarrow> string" where
  "held lease = (case bl_holder lease of None \<Rightarrow> ''another device'' | Some h \<Rightarrow> h)"

definition acquireBlockLease ::
  "BlockLease option \<Rightarrow> string \<Rightarrow> string \<Rightarrow> string option \<Rightarrow> int \<Rightarrow> LeaseOutcome"
where
  "acquireBlockLease current blockId device holder nowMs =
     (if isLeaseLive current nowMs \<and> bl_deviceId (the current) \<noteq> device then
        LeaseRefused held_by_another
          (''This block is being edited on '' @ held (the current) @ ''.'') current
      else
        LeaseOk
          \<lparr>bl_blockId = blockId, bl_deviceId = device,
           bl_holder = (if truthy holder then holder else None),
           bl_epoch = (case current of None \<Rightarrow> 0 | Some l \<Rightarrow> bl_epoch l) + 1,
           bl_expiresAt = nowMs + BLOCK_LEASE_MS\<rparr>)"

definition renewBlockLease :: "BlockLease option \<Rightarrow> LeaseClaim \<Rightarrow> int \<Rightarrow> LeaseOutcome" where
  "renewBlockLease current claim nowMs =
     (case current of
        None \<Rightarrow> LeaseRefused not_held ''There is no lock on this block to renew.'' None
      | Some l \<Rightarrow>
          if bl_deviceId l \<noteq> lc_deviceId claim then
            LeaseRefused held_by_another (''The lock was taken by '' @ held l @ ''.'') current
          else if bl_epoch l \<noteq> lc_epoch claim then
            LeaseRefused lr_stale_epoch
              (''This lock was reissued '' @ em_dash @ '' re-acquire it before continuing.'') current
          else if \<not> isLeaseLive current nowMs then
            LeaseRefused lr_lease_expired
              ''The lock expired. Re-acquire it; anything typed meanwhile will merge.'' current
          else LeaseOk (l\<lparr>bl_expiresAt := nowMs + BLOCK_LEASE_MS\<rparr>))"

definition releaseBlockLease :: "BlockLease option \<Rightarrow> LeaseClaim \<Rightarrow> int \<Rightarrow> LeaseOutcome" where
  "releaseBlockLease current claim nowMs =
     (case current of
        None \<Rightarrow> LeaseRefused not_held ''There is no lock on this block to release.'' None
      | Some l \<Rightarrow>
          if bl_deviceId l \<noteq> lc_deviceId claim then
            LeaseRefused held_by_another (''The lock belongs to '' @ held l @ ''.'') current
          else if bl_epoch l \<noteq> lc_epoch claim then
            LeaseRefused lr_stale_epoch
              (''This lock was reissued; releasing it would free someone else'' @ right_quote @ ''s.'') current
          else LeaseOk (l\<lparr>bl_expiresAt := nowMs\<rparr>))"

datatype MergeReason = no_lease | mr_stale_epoch | mr_lease_expired

datatype BlockWritePath =
    Leased BlockLease
  | Merge MergeReason string
  | Blocked BlockLease string

definition fenceBlockWrite :: "BlockLease option \<Rightarrow> string \<Rightarrow> int option \<Rightarrow> int \<Rightarrow> BlockWritePath" where
  "fenceBlockWrite current device epoch nowMs =
     (let live = isLeaseLive current nowMs
      in case epoch of
           None \<Rightarrow>
             if live \<and> bl_deviceId (the current) \<noteq> device then
               Blocked (the current) (''This block is being edited on '' @ held (the current) @ ''.'')
             else Merge no_lease ''No lock is held on this block.''
         | Some e \<Rightarrow>
             (case current of
                None \<Rightarrow> Merge mr_stale_epoch ''The lock this edit was made under has since been reissued.''
              | Some l \<Rightarrow>
                  if bl_deviceId l \<noteq> device \<or> bl_epoch l \<noteq> e then
                    Merge mr_stale_epoch ''The lock this edit was made under has since been reissued.''
                  else if \<not> live then
                    Merge mr_lease_expired ''The lock had expired when this edit reached the block.''
                  else Leased l))"

definition describeBlockLease :: "BlockLease option \<Rightarrow> string \<Rightarrow> int \<Rightarrow> string option" where
  "describeBlockLease lease viewerDeviceId nowMs =
     (if \<not> isLeaseLive lease nowMs then None
      else if bl_deviceId (the lease) = viewerDeviceId then None
      else Some (''Being edited on '' @ held (the lease)))"

definition sweepBlockLeases :: "(string, BlockLease) fmap \<Rightarrow> int \<Rightarrow> int \<Rightarrow> (string, BlockLease) fmap" where
  "sweepBlockLeases leases nowMs maxAgeMs =
     fmfilter (\<lambda>blockId. case fmlookup leases blockId of
         None \<Rightarrow> False | Some lease \<Rightarrow> nowMs - bl_expiresAt lease \<le> maxAgeMs) leases"

section \<open>The note store's operations\<close>

text \<open>
  Each reads the lease records, asks \<open>blockLease.ts\<close>, and writes the records back when the
  answer is yes; taking a lock also sweeps the records nothing can contradict any more.
\<close>

definition beginEditing ::
  "(string, BlockLease) fmap \<Rightarrow> string \<Rightarrow> string \<Rightarrow> string option \<Rightarrow> int
     \<Rightarrow> LeaseOutcome \<times> (string, BlockLease) fmap"
where
  "beginEditing leases blockId device holder nowMs =
     (case acquireBlockLease (fmlookup leases blockId) blockId device holder nowMs of
        LeaseOk lease \<Rightarrow>
          (LeaseOk lease, sweepBlockLeases (fmupd blockId lease leases) nowMs MAX_OUTBOX_AGE_MS)
      | LeaseRefused reason detail h \<Rightarrow> (LeaseRefused reason detail h, leases))"

definition keepEditing ::
  "(string, BlockLease) fmap \<Rightarrow> string \<Rightarrow> LeaseClaim \<Rightarrow> int \<Rightarrow> LeaseOutcome \<times> (string, BlockLease) fmap"
where
  "keepEditing leases blockId claim nowMs =
     (case renewBlockLease (fmlookup leases blockId) claim nowMs of
        LeaseOk lease \<Rightarrow> (LeaseOk lease, fmupd blockId lease leases)
      | LeaseRefused reason detail h \<Rightarrow> (LeaseRefused reason detail h, leases))"

definition endEditing ::
  "(string, BlockLease) fmap \<Rightarrow> string \<Rightarrow> LeaseClaim \<Rightarrow> int \<Rightarrow> LeaseOutcome \<times> (string, BlockLease) fmap"
where
  "endEditing leases blockId claim nowMs =
     (case releaseBlockLease (fmlookup leases blockId) claim nowMs of
        LeaseOk lease \<Rightarrow> (LeaseOk lease, fmupd blockId lease leases)
      | LeaseRefused reason detail h \<Rightarrow> (LeaseRefused reason detail h, leases))"

section \<open>The life of a block's lease\<close>

text \<open>
  A grant is the claim handed out, when, and until when it ran: its term as last renewed or
  ended, cut off where the next grant of the block takes over. \<open>lease_reaches b granted leases t\<close>:
  at time \<open>t\<close> the host holds the records \<open>leases\<close>, having granted \<open>granted\<close> of block \<open>b\<close>,
  oldest first. Devices edit any blocks, refused requests change nothing, and time only moves
  forward.
\<close>

record Grant =
  g_claim :: LeaseClaim
  g_at :: int
  g_until :: int

definition set_term :: "int \<Rightarrow> Grant list \<Rightarrow> Grant list" where
  "set_term u granted = (if granted = [] then [] else butlast granted @ [(last granted)\<lparr>g_until := u\<rparr>])"

definition take_over :: "BlockLease \<Rightarrow> int \<Rightarrow> Grant list \<Rightarrow> Grant list" where
  "take_over l t granted =
     set_term (min (g_until (last granted)) t) granted
     @ [\<lparr>g_claim = \<lparr>lc_deviceId = bl_deviceId l, lc_epoch = bl_epoch l\<rparr>, g_at = t, g_until = bl_expiresAt l\<rparr>]"

inductive lease_reaches :: "string \<Rightarrow> Grant list \<Rightarrow> (string, BlockLease) fmap \<Rightarrow> int \<Rightarrow> bool"
  for b :: string
where
  lease_start: "lease_reaches b [] fmempty t"
| lease_begin: "lease_reaches b granted leases t \<Longrightarrow>
    beginEditing leases c d h t = (LeaseOk l, leases') \<Longrightarrow>
    lease_reaches b (if c = b then take_over l t granted else granted) leases' t"
| lease_keep: "lease_reaches b granted leases t \<Longrightarrow>
    keepEditing leases c claim t = (LeaseOk l, leases') \<Longrightarrow>
    lease_reaches b (if c = b then set_term (bl_expiresAt l) granted else granted) leases' t"
| lease_end: "lease_reaches b granted leases t \<Longrightarrow>
    endEditing leases c claim t = (LeaseOk l, leases') \<Longrightarrow>
    lease_reaches b (if c = b then set_term (bl_expiresAt l) granted else granted) leases' t"
| lease_tick: "lease_reaches b granted leases t \<Longrightarrow> t \<le> t' \<Longrightarrow> lease_reaches b granted leases t'"

lemma acquire_ok:
  "acquireBlockLease current b d h t = LeaseOk l \<Longrightarrow>
   bl_deviceId l = d \<and> bl_epoch l = (case current of None \<Rightarrow> 0 | Some c \<Rightarrow> bl_epoch c) + 1
   \<and> (\<forall>c. current = Some c \<longrightarrow> isLeaseLive current t \<longrightarrow> bl_deviceId c = d)"
  by (auto simp: acquireBlockLease_def split: if_splits)

lemma renew_ok:
  "renewBlockLease current c t = LeaseOk l \<Longrightarrow>
   \<exists>m. current = Some m \<and> l = m\<lparr>bl_expiresAt := t + BLOCK_LEASE_MS\<rparr> \<and> isLeaseLive current t
     \<and> bl_deviceId m = lc_deviceId c \<and> bl_epoch m = lc_epoch c"
  by (auto simp: renewBlockLease_def split: option.splits if_splits)

lemma release_ok:
  "releaseBlockLease current c t = LeaseOk l \<Longrightarrow>
   \<exists>m. current = Some m \<and> l = m\<lparr>bl_expiresAt := t\<rparr>
     \<and> bl_deviceId m = lc_deviceId c \<and> bl_epoch m = lc_epoch c"
  by (auto simp: releaseBlockLease_def split: option.splits if_splits)

lemma begin_ok:
  "beginEditing leases c d h t = (LeaseOk l, leases') \<Longrightarrow>
   acquireBlockLease (fmlookup leases c) c d h t = LeaseOk l
   \<and> leases' = sweepBlockLeases (fmupd c l leases) t MAX_OUTBOX_AGE_MS"
  by (auto simp: beginEditing_def split: LeaseOutcome.splits)

lemma keep_ok:
  "keepEditing leases c claim t = (LeaseOk l, leases') \<Longrightarrow>
   renewBlockLease (fmlookup leases c) claim t = LeaseOk l \<and> leases' = fmupd c l leases"
  by (auto simp: keepEditing_def split: LeaseOutcome.splits)

lemma end_ok:
  "endEditing leases c claim t = (LeaseOk l, leases') \<Longrightarrow>
   releaseBlockLease (fmlookup leases c) claim t = LeaseOk l \<and> leases' = fmupd c l leases"
  by (auto simp: endEditing_def split: LeaseOutcome.splits)

lemma lookup_swept:
  "fmlookup (sweepBlockLeases leases t age) b =
     (case fmlookup leases b of None \<Rightarrow> None
      | Some l \<Rightarrow> if t - bl_expiresAt l \<le> age then Some l else None)"
  by (simp add: sweepBlockLeases_def split: option.split)

text \<open>
  Grants in order: an older one ended before a newer one began, and its token is smaller
  unless it ended so long before that no queued operation of its term is kept.
\<close>

definition outlived :: "Grant \<Rightarrow> Grant \<Rightarrow> bool" where
  "outlived x y \<longleftrightarrow> g_until x + MAX_OUTBOX_AGE_MS < g_at y"

definition before :: "Grant \<Rightarrow> Grant \<Rightarrow> bool" where
  "before x y \<longleftrightarrow> g_until x \<le> g_at y
     \<and> (lc_epoch (g_claim x) < lc_epoch (g_claim y) \<or> outlived x y)"

definition term_ok :: "int \<Rightarrow> Grant \<Rightarrow> bool" where
  "term_ok t g \<longleftrightarrow> g_at g \<le> g_until g \<and> g_at g \<le> t"

definition lease_inv :: "Grant list \<Rightarrow> BlockLease option \<Rightarrow> int \<Rightarrow> bool" where
  "lease_inv granted current t \<longleftrightarrow>
     sorted_wrt before granted \<and> (\<forall>g \<in> set granted. term_ok t g)
     \<and> (case current of
          None \<Rightarrow> granted = [] \<or> g_until (last granted) + MAX_OUTBOX_AGE_MS < t
        | Some l \<Rightarrow> granted \<noteq> []
            \<and> g_claim (last granted) = \<lparr>lc_deviceId = bl_deviceId l, lc_epoch = bl_epoch l\<rparr>
            \<and> g_until (last granted) = bl_expiresAt l)"

lemma age_pos: "0 < MAX_OUTBOX_AGE_MS" by (simp add: MAX_OUTBOX_AGE_MS_def)

lemma lease_inv_tick: "lease_inv granted current t \<Longrightarrow> t \<le> t' \<Longrightarrow> lease_inv granted current t'"
  by (auto simp: lease_inv_def term_ok_def split: option.splits)

lemma lease_inv_sweep:
  "lease_inv granted current t \<Longrightarrow>
   lease_inv granted (case current of None \<Rightarrow> None
      | Some l \<Rightarrow> if t - bl_expiresAt l \<le> MAX_OUTBOX_AGE_MS then Some l else None) t"
  by (auto simp: lease_inv_def split: option.splits)

lemma lease_inv_term:
  assumes "lease_inv granted (Some l) t" "g_at (last granted) \<le> u"
  shows "lease_inv (set_term u granted) (Some (l\<lparr>bl_expiresAt := u\<rparr>)) t"
proof (cases granted rule: rev_cases)
  case (snoc gs g)
  with assms show ?thesis
    by (auto simp: lease_inv_def set_term_def sorted_wrt_append before_def outlived_def term_ok_def)
qed (use assms in \<open>simp add: lease_inv_def\<close>)

lemma lease_inv_take_over:
  assumes inv: "lease_inv granted current t" and l: "bl_expiresAt l = t + BLOCK_LEASE_MS"
    "bl_epoch l = (case current of None \<Rightarrow> 0 | Some c \<Rightarrow> bl_epoch c) + 1"
  shows "lease_inv (take_over l t granted) (Some l) t"
proof (cases granted rule: rev_cases)
  case Nil
  with l show ?thesis by (simp add: lease_inv_def take_over_def set_term_def term_ok_def BLOCK_LEASE_MS_def)
next
  case (snoc gs g)
  let ?g = "g\<lparr>g_until := min (g_until g) t\<rparr>"
  let ?new = "\<lparr>g_claim = \<lparr>lc_deviceId = bl_deviceId l, lc_epoch = bl_epoch l\<rparr>, g_at = t, g_until = bl_expiresAt l\<rparr>"
  have t: "take_over l t granted = gs @ [?g, ?new]"
    using snoc by (simp add: take_over_def set_term_def)
  have old: "sorted_wrt before gs" "\<And>x. x \<in> set gs \<Longrightarrow> before x g" "\<And>x. x \<in> set gs \<Longrightarrow> term_ok t x"
    "term_ok t g"
    using inv snoc by (auto simp: lease_inv_def sorted_wrt_append)
  have last: "before ?g ?new"
    using inv snoc l by (auto simp: lease_inv_def before_def outlived_def split: option.splits)
  have rest: "before x ?g \<and> before x ?new" if x: "x \<in> set gs" for x
  proof -
    have b: "before x g" using old(2) x .
    then have "before x ?g" by (auto simp: before_def outlived_def)
    moreover have "g_until x \<le> t" using b old(4) by (auto simp: before_def term_ok_def)
    moreover have "lc_epoch (g_claim x) < bl_epoch l \<or> g_until x + MAX_OUTBOX_AGE_MS < t"
    proof (cases current)
      case None
      then have "g_until g + MAX_OUTBOX_AGE_MS < t" using inv snoc by (simp add: lease_inv_def)
      then show ?thesis using b old(4) by (auto simp: before_def term_ok_def)
    next
      case (Some c)
      then have "lc_epoch (g_claim g) < bl_epoch l" using inv snoc l by (simp add: lease_inv_def)
      then show ?thesis using b old(4) by (auto simp: before_def outlived_def term_ok_def)
    qed
    ultimately show ?thesis by (simp add: before_def outlived_def)
  qed
  have "term_ok t ?g" "term_ok t ?new" using old(4) l by (auto simp: term_ok_def BLOCK_LEASE_MS_def)
  then show ?thesis
    unfolding t using old last rest by (auto simp: lease_inv_def sorted_wrt_append l)
qed

lemma lease_inv_at: "lease_inv granted (Some l) t \<Longrightarrow> g_at (last granted) \<le> t"
  by (auto simp: lease_inv_def term_ok_def)

lemma lease_reaches_inv: "lease_reaches b granted leases t \<Longrightarrow> lease_inv granted (fmlookup leases b) t"
proof (induction rule: lease_reaches.induct)
  case (lease_start t)
  show ?case by (simp add: lease_inv_def)
next
  case (lease_begin granted leases t c d h l leases')
  note b = begin_ok [OF lease_begin.hyps(2)]
  have l: "bl_expiresAt l = t + BLOCK_LEASE_MS"
    "bl_epoch l = (case fmlookup leases c of None \<Rightarrow> 0 | Some c \<Rightarrow> bl_epoch c) + 1"
    using b by (auto simp: acquireBlockLease_def split: if_splits)
  have "lease_inv (if c = b then take_over l t granted else granted) (fmlookup (fmupd c l leases) b) t"
    using lease_inv_take_over [OF lease_begin.IH l(1)] l(2) lease_begin.IH by auto
  then show ?case using b by (simp add: lookup_swept lease_inv_sweep)
next
  case (lease_keep granted leases t c claim l leases')
  note k = keep_ok [OF lease_keep.hyps(2)]
  obtain m where m: "fmlookup leases c = Some m" "l = m\<lparr>bl_expiresAt := t + BLOCK_LEASE_MS\<rparr>"
    using k renew_ok by blast
  show ?case
  proof (cases "c = b")
    case True
    with m lease_keep.IH have inv: "lease_inv granted (Some m) t" by simp
    have "g_at (last granted) \<le> t + BLOCK_LEASE_MS"
      using lease_inv_at [OF inv] by (simp add: BLOCK_LEASE_MS_def)
    from lease_inv_term [OF inv this] True k m show ?thesis by simp
  next
    case False
    with k lease_keep.IH show ?thesis by simp
  qed
next
  case (lease_end granted leases t c claim l leases')
  note k = end_ok [OF lease_end.hyps(2)]
  obtain m where m: "fmlookup leases c = Some m" "l = m\<lparr>bl_expiresAt := t\<rparr>"
    using k release_ok by blast
  show ?case
  proof (cases "c = b")
    case True
    with m lease_end.IH have inv: "lease_inv granted (Some m) t" by simp
    from lease_inv_term [OF inv lease_inv_at [OF inv]] True k m show ?thesis by simp
  next
    case False
    with k lease_end.IH show ?thesis by simp
  qed
next
  case (lease_tick granted leases t t')
  from lease_tick.IH lease_tick.hyps(2) show ?case by (rule lease_inv_tick)
qed

lemma fence_leased:
  "fenceBlockWrite current d e t = Leased l \<longleftrightarrow>
   current = Some l \<and> bl_deviceId l = d \<and> e = Some (bl_epoch l) \<and> isLeaseLive current t"
  by (auto simp: fenceBlockWrite_def Let_def split: option.splits if_splits)

lemma fence_claimed:
  "(\<exists>l. fenceBlockWrite current d (Some e) t = Leased l) \<or> (\<exists>reason m. fenceBlockWrite current d (Some e) t = Merge reason m)"
  by (auto simp: fenceBlockWrite_def Let_def split: option.splits)

section \<open>Properties\<close>

text \<open>
  C40. A stale claim never writes as the owner. However devices take, keep and end the locks
  of the blocks, and whatever the sweep forgets: of two grants of a block the later one has
  the larger token, unless the earlier one's term ended more than the outbox's maximum age
  before the later one was granted; a write under a claim is let through as the owner's exactly
  when it carries the newest grant, from the device it was granted to, and that grant's term is
  still running; and a write under any other claim is sent to the merge, never blocked.
\<close>

theorem stale_claim_never_owns:
  assumes "lease_reaches b granted leases t"
  shows "sorted_wrt (\<lambda>x y. lc_epoch (g_claim x) < lc_epoch (g_claim y)
        \<or> g_until x + MAX_OUTBOX_AGE_MS < g_at y) granted
    \<and> (\<forall>d e. if granted \<noteq> [] \<and> g_claim (last granted) = \<lparr>lc_deviceId = d, lc_epoch = e\<rparr>
                 \<and> t < g_until (last granted)
             then \<exists>l. fenceBlockWrite (fmlookup leases b) d (Some e) t = Leased l
             else \<exists>reason m. fenceBlockWrite (fmlookup leases b) d (Some e) t = Merge reason m)"
proof
  note inv = lease_reaches_inv [OF assms, unfolded lease_inv_def]
  then show "sorted_wrt (\<lambda>x y. lc_epoch (g_claim x) < lc_epoch (g_claim y)
      \<or> g_until x + MAX_OUTBOX_AGE_MS < g_at y) granted"
    by (auto simp: before_def outlived_def elim: sorted_wrt_mono_rel [rotated])
  have owns: "(\<exists>l. fenceBlockWrite (fmlookup leases b) d (Some e) t = Leased l) \<longleftrightarrow>
      granted \<noteq> [] \<and> g_claim (last granted) = \<lparr>lc_deviceId = d, lc_epoch = e\<rparr> \<and> t < g_until (last granted)" for d e
    using inv age_pos
    by (cases "fmlookup leases b") (auto simp: fence_leased isLeaseLive_def)
  show "\<forall>d e. if granted \<noteq> [] \<and> g_claim (last granted) = \<lparr>lc_deviceId = d, lc_epoch = e\<rparr>
                 \<and> t < g_until (last granted)
             then \<exists>l. fenceBlockWrite (fmlookup leases b) d (Some e) t = Leased l
             else \<exists>reason m. fenceBlockWrite (fmlookup leases b) d (Some e) t = Merge reason m"
    unfolding owns [symmetric] using fence_claimed [of "fmlookup leases b"] by (simp add: disj_imp)
qed

text \<open>
  The bound is met with equality of tokens: a lease that expired long enough ago is forgotten
  by the next lock anyone takes, and the block's count starts again at one.
\<close>

definition demo_leases :: "int \<Rightarrow> (string, BlockLease) fmap" where
  "demo_leases t =
     fmupd ''c'' \<lparr>bl_blockId = ''c'', bl_deviceId = ''laptop'', bl_holder = None, bl_epoch = 1,
       bl_expiresAt = t + BLOCK_LEASE_MS\<rparr> fmempty"

theorem swept_token_returns:
  "lease_reaches ''b''
     [\<lparr>g_claim = \<lparr>lc_deviceId = ''phone'', lc_epoch = 1\<rparr>, g_at = 0, g_until = 30000\<rparr>,
      \<lparr>g_claim = \<lparr>lc_deviceId = ''phone'', lc_epoch = 1\<rparr>, g_at = 2592030001, g_until = 2592060001\<rparr>]
     (snd (beginEditing (demo_leases 2592030001) ''b'' ''phone'' None 2592030001)) 2592030001"
proof -
  let ?l = "\<lambda>c d t. \<lparr>bl_blockId = c, bl_deviceId = d, bl_holder = None, bl_epoch = 1, bl_expiresAt = t + 30000\<rparr>"
  let ?one = "[\<lparr>g_claim = \<lparr>lc_deviceId = ''phone'', lc_epoch = 1\<rparr>, g_at = 0, g_until = 30000\<rparr>]"
  have grant: "acquireBlockLease None c d None t = LeaseOk (?l c d t)" for c d t
    by (simp add: acquireBlockLease_def isLeaseLive_def BLOCK_LEASE_MS_def)
  have 1: "beginEditing fmempty ''b'' ''phone'' None 0
      = (LeaseOk (?l ''b'' ''phone'' 0), sweepBlockLeases (fmupd ''b'' (?l ''b'' ''phone'' 0) fmempty) 0 MAX_OUTBOX_AGE_MS)"
    by (simp add: beginEditing_def grant)
  have s1: "sweepBlockLeases (fmupd ''b'' (?l ''b'' ''phone'' 0) fmempty) 0 MAX_OUTBOX_AGE_MS
      = fmupd ''b'' (?l ''b'' ''phone'' 0) fmempty"
    by (rule fmap_ext) (auto simp: lookup_swept MAX_OUTBOX_AGE_MS_def)
  have r1: "lease_reaches ''b'' ?one (fmupd ''b'' (?l ''b'' ''phone'' 0) fmempty) 2592030001"
    using lease_tick [OF lease_begin [where b = "''b''", OF lease_start 1, unfolded s1], of 2592030001]
    by (simp add: take_over_def set_term_def)
  have 2: "beginEditing (fmupd ''b'' (?l ''b'' ''phone'' 0) fmempty) ''c'' ''laptop'' None 2592030001
      = (LeaseOk (?l ''c'' ''laptop'' 2592030001), demo_leases 2592030001)"
    by (auto simp: beginEditing_def grant demo_leases_def lookup_swept MAX_OUTBOX_AGE_MS_def
        BLOCK_LEASE_MS_def intro!: fmap_ext)
  have 3: "lease_reaches ''b'' ?one (demo_leases 2592030001) 2592030001"
    using lease_begin [OF r1 2] by simp
  have none: "fmlookup (demo_leases t) ''b'' = None" for t by (simp add: demo_leases_def)
  have 4: "beginEditing (demo_leases 2592030001) ''b'' ''phone'' None 2592030001
      = (LeaseOk (?l ''b'' ''phone'' 2592030001), snd (beginEditing (demo_leases 2592030001) ''b'' ''phone'' None 2592030001))"
    by (simp add: beginEditing_def grant none)
  show ?thesis using lease_begin [OF 3 4] by (simp add: take_over_def set_term_def)
qed

lemma demo_lease_reaches:
  "lease_reaches ''b''
     [\<lparr>g_claim = \<lparr>lc_deviceId = ''phone'', lc_epoch = 1\<rparr>, g_at = 0, g_until = 30000\<rparr>,
      \<lparr>g_claim = \<lparr>lc_deviceId = ''laptop'', lc_epoch = 2\<rparr>, g_at = 40000, g_until = 70000\<rparr>]
     (fmupd ''b'' \<lparr>bl_blockId = ''b'', bl_deviceId = ''laptop'', bl_holder = None, bl_epoch = 2, bl_expiresAt = 70000\<rparr> fmempty)
     40000"
proof -
  let ?p = "\<lparr>bl_blockId = ''b'', bl_deviceId = ''phone'', bl_holder = None, bl_epoch = 1, bl_expiresAt = 30000\<rparr>"
  let ?q = "\<lparr>bl_blockId = ''b'', bl_deviceId = ''laptop'', bl_holder = None, bl_epoch = 2, bl_expiresAt = 70000\<rparr>"
  have one: "beginEditing fmempty ''b'' ''phone'' None 0 = (LeaseOk ?p, fmupd ''b'' ?p fmempty)"
    by (auto simp: beginEditing_def acquireBlockLease_def isLeaseLive_def BLOCK_LEASE_MS_def lookup_swept
        MAX_OUTBOX_AGE_MS_def intro!: fmap_ext)
  have two: "beginEditing (fmupd ''b'' ?p fmempty) ''b'' ''laptop'' None 40000 = (LeaseOk ?q, fmupd ''b'' ?q fmempty)"
    by (auto simp: beginEditing_def acquireBlockLease_def isLeaseLive_def BLOCK_LEASE_MS_def lookup_swept
        MAX_OUTBOX_AGE_MS_def intro!: fmap_ext)
  have "lease_reaches ''b'' [\<lparr>g_claim = \<lparr>lc_deviceId = ''phone'', lc_epoch = 1\<rparr>, g_at = 0, g_until = 30000\<rparr>]
      (fmupd ''b'' ?p fmempty) 40000"
    using lease_tick [OF lease_begin [where b = "''b''", OF lease_start one], of 40000] by (simp add: take_over_def set_term_def)
  from lease_begin [OF this two] show ?thesis by (simp add: take_over_def set_term_def)
qed

theorem stale_claim_never_owns_witness:
  "\<exists>reason m. fenceBlockWrite
       (Some \<lparr>bl_blockId = ''b'', bl_deviceId = ''laptop'', bl_holder = None, bl_epoch = 2, bl_expiresAt = 70000\<rparr>)
       ''phone'' (Some 1) 40000 = Merge reason m"
  using stale_claim_never_owns [OF demo_lease_reaches, THEN conjunct2, rule_format, of "''phone''" 1] by simp

text \<open>
  While a lease is live its holder is alone: no other device can acquire it, renew it or
  release it, a fresh edit by another device is blocked with the holder's name; and an
  expired lease is never renewed, not even by the device that held it.
\<close>

theorem live_lease_excludes_others:
  assumes "current = Some l" "isLeaseLive current t" "d \<noteq> bl_deviceId l"
  shows "acquireBlockLease current b d h t
      = LeaseRefused held_by_another (''This block is being edited on '' @ held l @ ''.'') current
    \<and> (\<forall>e m. renewBlockLease current \<lparr>lc_deviceId = d, lc_epoch = e\<rparr> t \<noteq> LeaseOk m
            \<and> releaseBlockLease current \<lparr>lc_deviceId = d, lc_epoch = e\<rparr> t \<noteq> LeaseOk m)
    \<and> fenceBlockWrite current d None t = Blocked l (''This block is being edited on '' @ held l @ ''.'')
    \<and> describeBlockLease current d t = Some (''Being edited on '' @ held l)
    \<and> (\<forall>c m t'. bl_expiresAt l \<le> t' \<longrightarrow> renewBlockLease current c t' \<noteq> LeaseOk m)"
proof -
  have "renewBlockLease current c t' \<noteq> LeaseOk m" if "bl_expiresAt l \<le> t'" for c m t'
    using that assms(1) renew_ok by (fastforce simp: isLeaseLive_def)
  then show ?thesis
    using assms
    by (auto simp: acquireBlockLease_def fenceBlockWrite_def describeBlockLease_def dest!: renew_ok release_ok)
qed

theorem live_lease_excludes_others_witness:
  "fenceBlockWrite
     (Some \<lparr>bl_blockId = ''b'', bl_deviceId = ''laptop'', bl_holder = None, bl_epoch = 2, bl_expiresAt = 70000\<rparr>)
     ''phone'' None 40000
   = Blocked \<lparr>bl_blockId = ''b'', bl_deviceId = ''laptop'', bl_holder = None, bl_epoch = 2, bl_expiresAt = 70000\<rparr>
      ''This block is being edited on another device.''"
  using live_lease_excludes_others
    [OF refl, of "\<lparr>bl_blockId = ''b'', bl_deviceId = ''laptop'', bl_holder = None, bl_epoch = 2, bl_expiresAt = 70000\<rparr>"
      40000 "''phone''"]
  by (simp add: isLeaseLive_def held_def)

end
