(* ===== verification/Rank.thy ===== *)
theory Rank
  imports Prelude
begin

text \<open>
  Sibling ranks, \<open>packages/core/src/notes/rank.ts\<close>: the alphabet, the rank between two
  neighbours, a run of ranks filling one gap, and the sibling order (rank, then id).
  A rank is a string over the 62 digits; an absent or malformed bound is ignored, as the
  code does. The properties show that on the ranks this module produces the answer is
  always strictly inside the gap, so the code's fallback for corrupt bounds is never
  taken, and that an insert can always be followed by another on either side.
\<close>

definition DIGITS :: string where
  "DIGITS = ''0123456789ABCDEFGHIJKLMNOPQRSTUVWXYZabcdefghijklmnopqrstuvwxyz''"

definition BASE :: int where
  "BASE = int (length DIGITS)"

definition MIDDLE :: char where
  "MIDDLE = DIGITS ! nat (BASE div 2)"

definition FIRST_RANK :: string where
  "FIRST_RANK = [MIDDLE]"

text \<open>A bound arrives as \<open>string | null | undefined\<close>: an option. The shape test is the regular
  expression \<open>^[0-9A-Za-z]+$\<close>.\<close>

definition isRankString :: "string option \<Rightarrow> bool" where
  "isRankString v =
     (case v of None \<Rightarrow> False | Some s \<Rightarrow> s \<noteq> [] \<and> (\<forall>c \<in> set s. c \<in> set DIGITS))"

text \<open>\<open>DIGITS.indexOf(ch)\<close>, -1 when the character is not a digit.\<close>

definition digit :: "char \<Rightarrow> int" where
  "digit ch = (case find_index (\<lambda>c. c = ch) DIGITS of None \<Rightarrow> -1 | Some i \<Rightarrow> int i)"

text \<open>
  The loop of \<open>midpoint\<close>: \<open>passes\<close> iterations left, index \<open>i\<close>, whether the upper bound
  still binds, and the output so far. A returned string ends the loop early.
\<close>

fun midpoint_loop :: "nat \<Rightarrow> nat \<Rightarrow> bool \<Rightarrow> string \<Rightarrow> string \<Rightarrow> string \<Rightarrow> string" where
  "midpoint_loop 0 i bounded lo hi out = out @ [MIDDLE]"
| "midpoint_loop (Suc passes) i bounded lo hi out =
     (let da = (if i < length lo then digit (lo ! i) else -1);
          db = (if bounded \<and> i < length hi then digit (hi ! i) else BASE);
          mid = da + (db - da) div 2
      in if db - da > 1 \<and> mid > 0 then out @ [DIGITS ! nat mid]
         else
           (let next = (if da \<ge> 0 then da else 0);
                bounded' = (bounded \<and> \<not> (i < length hi \<and> next < digit (hi ! i)))
            in midpoint_loop passes (Suc i) bounded' lo hi (out @ [DIGITS ! nat next])))"

definition midpoint :: "string \<Rightarrow> string \<Rightarrow> string" where
  "midpoint lo hi = midpoint_loop (length lo + length hi + 2) 0 (hi \<noteq> []) lo hi []"

definition rankBetween :: "string option \<Rightarrow> string option \<Rightarrow> string" where
  "rankBetween before after =
     (let lo = (if isRankString before then the before else '''');
          hiGiven = (if isRankString after then the after else '''');
          hi = (if hiGiven \<noteq> '''' \<and> lo \<ge> hiGiven then '''' else hiGiven);
          candidate = midpoint lo hi
      in if (lo = '''' \<or> candidate > lo) \<and> (hi = '''' \<or> candidate < hi) then candidate
         else if hi \<noteq> '''' then hi else lo @ [MIDDLE])"

fun rankSequence :: "nat \<Rightarrow> string option \<Rightarrow> string option \<Rightarrow> string list" where
  "rankSequence 0 cursor after = []"
| "rankSequence (Suc n) cursor after =
     (let next = rankBetween cursor after in next # rankSequence n (Some next) after)"

definition compareRank :: "string \<times> string \<Rightarrow> string \<times> string \<Rightarrow> int" where
  "compareRank a b =
     (if fst a \<noteq> fst b then (if fst a < fst b then -1 else 1)
      else if snd a = snd b then 0
      else (if snd a < snd b then -1 else 1))"

section \<open>The sibling order\<close>

interpretation rank_order: total_comparator compareRank
proof unfold_locales
  show "compareRank a b < 0 \<longleftrightarrow> 0 < compareRank b a" for a b
    by (auto simp: compareRank_def)
  show "compareRank a c \<le> 0" if "compareRank a b \<le> 0" "compareRank b c \<le> 0" for a b c
    using that by (auto simp: compareRank_def split: if_splits)
  show "a = b" if "compareRank a b = 0" for a b
    using that by (auto simp: compareRank_def prod_eq_iff split: if_splits)
qed

section \<open>The alphabet\<close>

lemma length_DIGITS [simp]: "length DIGITS = 62"
  by (simp add: DIGITS_def)

lemma BASE_62: "BASE = 62"
  by (simp add: BASE_def)

lemma sorted_DIGITS: "sorted_wrt (<) DIGITS"
  by (simp add: DIGITS_def less_char_def)

lemma DIGITS_less_iff: "i < 62 \<Longrightarrow> j < 62 \<Longrightarrow> DIGITS ! i < DIGITS ! j \<longleftrightarrow> i < j"
  using sorted_wrt_nth_less [OF sorted_DIGITS, of i j] sorted_wrt_nth_less [OF sorted_DIGITS, of j i]
  by (cases i j rule: linorder_cases) auto

lemma digit_nth [simp]: "i < 62 \<Longrightarrow> digit (DIGITS ! i) = int i"
proof -
  assume i: "i < 62"
  then have "find_index (\<lambda>c. c = DIGITS ! i) DIGITS \<noteq> None"
    by (auto simp: find_index_None)
  then obtain j where j: "find_index (\<lambda>c. c = DIGITS ! i) DIGITS = Some j" by auto
  then have "j < 62" "DIGITS ! j = DIGITS ! i" using find_index_Some [OF j] by auto
  with i have "j = i" using DIGITS_less_iff [of i j] DIGITS_less_iff [of j i] by force
  with j show ?thesis by (simp add: digit_def)
qed

lemma digit_range: "c \<in> set DIGITS \<Longrightarrow> 0 \<le> digit c \<and> digit c < 62 \<and> DIGITS ! nat (digit c) = c"
  by (metis digit_nth in_set_conv_nth length_DIGITS nat_int of_nat_0_le_iff of_nat_less_iff of_nat_numeral)

lemma digit_less: "c \<in> set DIGITS \<Longrightarrow> d \<in> set DIGITS \<Longrightarrow> c < d \<longleftrightarrow> digit c < digit d"
proof -
  assume c: "c \<in> set DIGITS" and d: "d \<in> set DIGITS"
  from digit_range [OF c] digit_range [OF d]
  show ?thesis by (metis DIGITS_less_iff nat_less_eq_zless nat_less_iff zless_nat_conj of_nat_numeral)
qed

lemma digit_inj: "c \<in> set DIGITS \<Longrightarrow> d \<in> set DIGITS \<Longrightarrow> digit c = digit d \<Longrightarrow> c = d"
  by (metis digit_range)

lemma MIDDLE_nth: "MIDDLE = DIGITS ! 31"
  by (simp add: MIDDLE_def BASE_62)

lemma nth_in_DIGITS [simp]: "i < 62 \<Longrightarrow> DIGITS ! i \<in> set DIGITS"
  by simp

lemma nth_DIGITS_zero: "i < 62 \<Longrightarrow> DIGITS ! i = CHR ''0'' \<longleftrightarrow> i = 0"
proof -
  assume i: "i < 62"
  have "DIGITS ! 0 = CHR ''0''" by (simp add: DIGITS_def)
  with i show ?thesis by (metis digit_nth of_nat_eq_0_iff of_nat_0 zero_less_numeral)
qed

lemma DIGITS_0: "DIGITS ! 0 = CHR ''0''" "CHR ''0'' \<in> set DIGITS" "digit (CHR ''0'') = 0"
  using digit_nth [of 0] by (simp_all add: DIGITS_def)

section \<open>The midpoint on suffixes\<close>

text \<open>The loop only ever looks at the suffixes of the bounds from its index on.\<close>

fun mid_suffix :: "nat \<Rightarrow> bool \<Rightarrow> string \<Rightarrow> string \<Rightarrow> string" where
  "mid_suffix 0 b lo hi = [MIDDLE]"
| "mid_suffix (Suc n) b lo hi =
     (let da = (if lo \<noteq> [] then digit (hd lo) else -1);
          db = (if b \<and> hi \<noteq> [] then digit (hd hi) else BASE);
          mid = da + (db - da) div 2
      in if db - da > 1 \<and> mid > 0 then [DIGITS ! nat mid]
         else
           (let next = (if da \<ge> 0 then da else 0)
            in DIGITS ! nat next
               # mid_suffix n (b \<and> \<not> (hi \<noteq> [] \<and> next < digit (hd hi))) (tl lo) (tl hi)))"

lemma midpoint_loop_suffix:
  "midpoint_loop n i b lo hi out = out @ mid_suffix n b (drop i lo) (drop i hi)"
proof (induction n arbitrary: i b out)
  case 0
  show ?case by simp
next
  case (Suc n)
  have eqs: "drop i xs \<noteq> [] \<longleftrightarrow> i < length xs" "i < length xs \<Longrightarrow> hd (drop i xs) = xs ! i"
    "tl (drop i xs) = drop (Suc i) xs" for xs :: string
    by (auto simp: hd_drop_conv_nth tl_drop drop_Suc)
  show ?case
    by (simp only: midpoint_loop.simps mid_suffix.simps Let_def Suc.IH eqs cong: if_cong conj_cong)
      (simp add: eqs(2) cong: conj_cong)
qed

definition good_rank :: "string \<Rightarrow> bool" where
  "good_rank s \<longleftrightarrow> s \<noteq> [] \<and> set s \<subseteq> set DIGITS \<and> last s \<noteq> CHR ''0''"

lemma good_rank_singleton: "0 < i \<Longrightarrow> i < 62 \<Longrightarrow> good_rank [DIGITS ! i]"
  by (simp add: good_rank_def nth_DIGITS_zero)

lemma good_rank_Cons: "c \<in> set DIGITS \<Longrightarrow> good_rank s \<Longrightarrow> good_rank (c # s)"
  by (simp add: good_rank_def)

lemma good_rank_tl: "good_rank (c # s) \<Longrightarrow> s \<noteq> [] \<Longrightarrow> good_rank s"
  by (simp add: good_rank_def)

lemma nth_mid_greater:
  assumes "c \<in> set DIGITS" "digit c < m" "m < 62"
  shows "c < DIGITS ! nat m" and "good_rank [DIGITS ! nat m]"
proof -
  have m: "nat m < 62" "0 < nat m" using assms digit_range [OF assms(1)] by linarith+
  then show "c < DIGITS ! nat m"
    using assms digit_less [of c "DIGITS ! nat m"] by simp
  show "good_rank [DIGITS ! nat m]" using m good_rank_singleton by blast
qed

lemma nth_mid_less:
  assumes "c \<in> set DIGITS" "0 \<le> m" "m < digit c"
  shows "DIGITS ! nat m < c"
proof -
  have "nat m < 62" using assms digit_range [OF assms(1)] by linarith
  with assms show ?thesis using digit_less [of "DIGITS ! nat m" c] by simp
qed

text \<open>No upper bound: the result is above \<open>lo\<close>.\<close>

lemma mid_suffix_unbounded:
  assumes "set lo \<subseteq> set DIGITS" and "length lo < n"
  shows "lo < mid_suffix n False lo hi \<and> good_rank (mid_suffix n False lo hi)
         \<and> length (mid_suffix n False lo hi) \<le> length lo + 1"
  using assms
proof (induction lo arbitrary: n hi)
  case Nil
  then obtain n' where "n = Suc n'" by (cases n) auto
  then show ?case by (simp add: Let_def BASE_62 good_rank_singleton)
next
  case (Cons c lo)
  then obtain n' where n: "n = Suc n'" "length lo < n'" by (cases n) auto
  have c: "c \<in> set DIGITS" "0 \<le> digit c" "digit c < 62" "DIGITS ! nat (digit c) = c"
    using Cons.prems digit_range [of c] by auto
  show ?case
  proof (cases "62 - digit c > 1")
    case True
    then have m: "digit c < digit c + (62 - digit c) div 2" "digit c + (62 - digit c) div 2 < 62"
      by linarith+
    with nth_mid_greater [OF c(1) m] True c show ?thesis
      by (simp add: n Let_def BASE_62)
  next
    case False
    then show ?thesis
      using Cons.IH [of n' "tl hi"] Cons.prems n c
      by (simp add: Let_def BASE_62 good_rank_Cons)
  qed
qed

text \<open>Both bounds: the result is strictly between them.\<close>

lemma mid_suffix_bounded:
  assumes "set lo \<subseteq> set DIGITS" and "good_rank hi" and "lo < hi" and "length lo + length hi < n"
  shows "lo < mid_suffix n True lo hi \<and> mid_suffix n True lo hi < hi
         \<and> good_rank (mid_suffix n True lo hi)
         \<and> length (mid_suffix n True lo hi) \<le> max (length lo) (length hi) + 1"
  using assms
proof (induction hi arbitrary: lo n)
  case Nil
  then show ?case by (simp add: good_rank_def)
next
  case (Cons d hi)
  then obtain n' where n: "n = Suc n'" "length lo + length hi < n'" by (cases n) auto
  have d: "d \<in> set DIGITS" "0 \<le> digit d" "digit d < 62" "DIGITS ! nat (digit d) = d"
    using Cons.prems digit_range [of d] by (auto simp: good_rank_def)
  note zero = DIGITS_0
  show ?case
  proof (cases lo)
    case Nil
    show ?thesis
    proof (cases "3 \<le> digit d")
      case True
      then have m: "0 < (digit d + 1) div 2 - 1" "(digit d + 1) div 2 - 1 < digit d" by linarith+
      with d have "DIGITS ! nat ((digit d + 1) div 2 - 1) < d"
        "good_rank [DIGITS ! nat ((digit d + 1) div 2 - 1)]"
        using nth_mid_less [of d "(digit d + 1) div 2 - 1"] good_rank_singleton
        by (auto simp: nat_less_iff)
      with True m show ?thesis by (simp add: n Nil Let_def BASE_62 algebra_simps)
    next
      case False
      then have small: "\<not> (digit d - (-1) > 1 \<and> -1 + (digit d - (-1)) div 2 > 0)" by linarith
      show ?thesis
      proof (cases "digit d = 0")
        case True
        then have d0: "d = CHR ''0''" using d zero by (metis digit_inj)
        with Cons.prems(2) have hi: "hi \<noteq> []" by (auto simp: good_rank_def)
        with Cons.prems(2) have good: "good_rank hi" by (rule good_rank_tl)
        from hi have "[] < hi" by (cases hi) auto
        with Cons.IH [of "[]" n'] good n Nil show ?thesis
          using small True d0 zero by (simp add: n Nil Let_def BASE_62 good_rank_Cons)
      next
        case False
        then have "CHR ''0'' < d" using d zero digit_less [of "CHR ''0''" d] by simp
        with mid_suffix_unbounded [of "[]" n' hi] n Nil show ?thesis
          using small False d zero by (simp add: n Nil Let_def BASE_62 good_rank_Cons)
      qed
    qed
  next
    case (Cons c lo')
    have c: "c \<in> set DIGITS" "0 \<le> digit c" "digit c < 62" "DIGITS ! nat (digit c) = c"
      using Cons.prems(1) \<open>lo = c # lo'\<close> digit_range [of c] by auto
    have lo': "set lo' \<subseteq> set DIGITS" using Cons.prems(1) \<open>lo = c # lo'\<close> by auto
    show ?thesis
    proof (cases "c = d")
      case True
      with Cons.prems(3) \<open>lo = c # lo'\<close> have lt: "lo' < hi" by simp
      then have "hi \<noteq> []" by auto
      with Cons.prems(2) have "good_rank hi" by (rule good_rank_tl)
      then have "lo' < mid_suffix n' True lo' hi \<and> mid_suffix n' True lo' hi < hi
          \<and> good_rank (mid_suffix n' True lo' hi)
          \<and> length (mid_suffix n' True lo' hi) \<le> max (length lo') (length hi) + 1"
        using Cons.IH [of lo' n'] lo' lt n \<open>lo = c # lo'\<close> by simp
      with True c \<open>lo = c # lo'\<close> show ?thesis by (simp add: n Let_def good_rank_Cons)
    next
      case False
      with Cons.prems(3) \<open>lo = c # lo'\<close> have cd: "c < d" by simp
      then have dc: "digit c < digit d" using c d digit_less by blast
      show ?thesis
      proof (cases "digit d - digit c > 1")
        case True
        then have m: "digit c < digit c + (digit d - digit c) div 2"
          "digit c + (digit d - digit c) div 2 < digit d" by linarith+
        with True c d nth_mid_greater [OF c(1) m(1)] nth_mid_less [OF d(1) _ m(2)] \<open>lo = c # lo'\<close>
        show ?thesis by (simp add: n Let_def)
      next
        case False
        with mid_suffix_unbounded [OF lo', of n' hi] n cd dc c \<open>lo = c # lo'\<close>
        show ?thesis by (auto simp: Let_def good_rank_Cons)
      qed
    qed
  qed
qed

section \<open>Properties\<close>

text \<open>The bounds that this module itself hands out, and their absence.\<close>

definition rank_bound :: "string option \<Rightarrow> bool" where
  "rank_bound b \<longleftrightarrow> (case b of None \<Rightarrow> True | Some s \<Rightarrow> good_rank s)"

definition in_gap :: "string option \<Rightarrow> string \<Rightarrow> string option \<Rightarrow> bool" where
  "in_gap before r after \<longleftrightarrow>
     (case before of None \<Rightarrow> True | Some l \<Rightarrow> l < r) \<and> (case after of None \<Rightarrow> True | Some h \<Rightarrow> r < h)"

definition gap_open :: "string option \<Rightarrow> string option \<Rightarrow> bool" where
  "gap_open before after \<longleftrightarrow>
     (case (before, after) of (Some l, Some h) \<Rightarrow> l < h | _ \<Rightarrow> True)"

lemma good_rank_isRankString: "good_rank s \<Longrightarrow> isRankString (Some s)"
  by (auto simp: good_rank_def isRankString_def)

lemma midpoint_in_gap:
  assumes "lo = [] \<or> good_rank lo" and "hi = [] \<or> good_rank hi \<and> lo < hi"
  shows "lo < midpoint lo hi \<and> (hi \<noteq> [] \<longrightarrow> midpoint lo hi < hi) \<and> good_rank (midpoint lo hi)
         \<and> length (midpoint lo hi) \<le> max (length lo) (length hi) + 1"
proof -
  have lo: "set lo \<subseteq> set DIGITS" using assms(1) by (auto simp: good_rank_def)
  show ?thesis
  proof (cases "hi = []")
    case True
    with mid_suffix_unbounded [OF lo, of "length lo + 2" "[]"] show ?thesis
      by (simp add: midpoint_def midpoint_loop_suffix del: mid_suffix.simps)
  next
    case False
    with mid_suffix_bounded [OF lo, of hi "length lo + length hi + 2"] assms(2) show ?thesis
      by (simp add: midpoint_def midpoint_loop_suffix del: mid_suffix.simps)
  qed
qed

lemma rankBetween_in_gap:
  assumes "rank_bound before" and "rank_bound after" and "gap_open before after"
  shows "in_gap before (rankBetween before after) after \<and> good_rank (rankBetween before after)
         \<and> length (rankBetween before after)
             \<le> max (length (case before of None \<Rightarrow> [] | Some l \<Rightarrow> l))
                    (length (case after of None \<Rightarrow> [] | Some h \<Rightarrow> h)) + 1"
proof -
  let ?lo = "case before of None \<Rightarrow> [] | Some l \<Rightarrow> l"
  let ?hi = "case after of None \<Rightarrow> [] | Some h \<Rightarrow> h"
  have lo: "(if isRankString before then the before else []) = ?lo" "?lo = [] \<or> good_rank ?lo"
    using assms(1) good_rank_isRankString
    by (auto simp: rank_bound_def isRankString_def split: option.splits)
  have hi: "(if isRankString after then the after else []) = ?hi"
    "?hi = [] \<or> good_rank ?hi \<and> ?lo < ?hi"
    using assms good_rank_isRankString
    by (auto simp: rank_bound_def gap_open_def isRankString_def split: option.splits)
      (auto simp: good_rank_def neq_Nil_conv)
  have ord: "\<not> (?hi \<noteq> [] \<and> ?hi \<le> ?lo)" using hi(2) by auto
  from midpoint_in_gap [OF lo(2) hi(2)]
  have mid: "?lo < midpoint ?lo ?hi" "?hi \<noteq> [] \<Longrightarrow> midpoint ?lo ?hi < ?hi"
    "good_rank (midpoint ?lo ?hi)"
    "length (midpoint ?lo ?hi) \<le> max (length ?lo) (length ?hi) + 1" by auto
  have eq: "rankBetween before after = midpoint ?lo ?hi"
    unfolding rankBetween_def lo(1) hi(1) Let_def if_not_P [OF ord] using mid by auto
  have ne: "after \<noteq> None \<Longrightarrow> ?hi \<noteq> []"
    using assms(2) by (auto simp: rank_bound_def good_rank_def)
  show ?thesis
    unfolding eq in_gap_def using mid ne by (auto split: option.splits)
qed

text \<open>
  An insert always fits: between any two neighbours this module produced (either may be
  absent), \<open>rankBetween\<close> returns a rank strictly inside the gap, never ending in the
  lowest digit (so it can itself be inserted around), and at most one character longer
  than the longer neighbour. The code's fallback for corrupt bounds is never taken.
\<close>

theorem rankBetween_strictly_between:
  assumes "rank_bound before" and "rank_bound after" and "gap_open before after"
  shows "in_gap before (rankBetween before after) after
         \<and> rank_bound (Some (rankBetween before after))
         \<and> length (rankBetween before after)
             \<le> max (length (case before of None \<Rightarrow> [] | Some l \<Rightarrow> l))
                    (length (case after of None \<Rightarrow> [] | Some h \<Rightarrow> h)) + 1"
  using rankBetween_in_gap [OF assms] by (simp add: rank_bound_def)

theorem rankBetween_strictly_between_witness:
  "in_gap (Some ''A'') (rankBetween (Some ''A'') (Some ''B'')) (Some ''B'')
   \<and> length (rankBetween (Some ''A'') (Some ''B'')) \<le> 2"
  using rankBetween_strictly_between [of "Some ''A''" "Some ''B''"]
  by (simp add: rank_bound_def gap_open_def good_rank_def DIGITS_def)

text \<open>
  Pasting any number of blocks into a gap gives that many ranks, strictly increasing and
  strictly inside the gap, so the pasted run keeps its order and moves no neighbour.
\<close>

theorem rankSequence_sorted_in_gap:
  assumes "rank_bound before" and "rank_bound after" and "gap_open before after"
  shows "length (rankSequence n before after) = n
         \<and> sorted_wrt (<) (rankSequence n before after)
         \<and> list_all (\<lambda>r. in_gap before r after \<and> good_rank r) (rankSequence n before after)"
  using assms
proof (induction n arbitrary: before)
  case 0
  show ?case by simp
next
  case (Suc n)
  let ?r = "rankBetween before after"
  have r: "in_gap before ?r after" "good_rank ?r"
    using rankBetween_in_gap [OF Suc.prems] by auto
  have gap: "gap_open (Some ?r) after"
    using r by (auto simp: gap_open_def in_gap_def split: option.splits)
  have IH: "length (rankSequence n (Some ?r) after) = n"
    "sorted_wrt (<) (rankSequence n (Some ?r) after)"
    "list_all (\<lambda>x. in_gap (Some ?r) x after \<and> good_rank x) (rankSequence n (Some ?r) after)"
    using Suc.IH [OF _ Suc.prems(2) gap] r by (auto simp: rank_bound_def)
  have wider: "in_gap (Some ?r) x after \<Longrightarrow> ?r < x \<and> in_gap before x after" for x
    using r(1) by (auto simp: in_gap_def split: option.splits)
  show ?case
    using IH r wider by (auto simp: Let_def list_all_iff)
qed

theorem rankSequence_sorted_in_gap_witness:
  "sorted_wrt (<) (rankSequence 3 (Some ''A'') (Some ''A1''))
   \<and> length (rankSequence 3 (Some ''A'') (Some ''A1'')) = 3"
  using rankSequence_sorted_in_gap [of "Some ''A''" "Some ''A1''" 3]
  by (simp add: rank_bound_def gap_open_def good_rank_def DIGITS_def)

text \<open>
  Siblings with equal ranks still order the same way everywhere: sorting the same
  (rank, id) pairs gives the same list whatever order they arrived in.
\<close>

theorem sibling_order_independent:
  "mset xs = mset ys \<Longrightarrow> sort_by compareRank xs = sort_by compareRank ys"
  by (rule rank_order.cmp_sort_by_perm)

theorem sibling_order_independent_witness:
  "sort_by compareRank [(''V'', ''b''), (''V'', ''a'')] = sort_by compareRank [(''V'', ''a''), (''V'', ''b'')]
   \<and> hd (sort_by compareRank [(''V'', ''b''), (''V'', ''a'')]) = (''V'', ''a'')"
  using sibling_order_independent [of "[(''V'', ''b''), (''V'', ''a'')]" "[(''V'', ''a''), (''V'', ''b'')]"]
  by (simp add: compareRank_def)

end
