(* ===== verification/NoteTree.thy ===== *)
theory NoteTree
  imports NoteBlock Rank "HOL-Library.AList"
begin

text \<open>
  The document tree over flat parent pointers, \<open>packages/core/src/notes/noteTree.ts\<close>:
  where a block's parent resolves to after the repair of missing, deleted and cyclic
  parents, the ordered tree, a subtree, the page and the headings of a block, and the
  bounded context an agent sees. A JavaScript \<open>Map\<close> is an association list updated in
  place (\<open>AList.update\<close> keeps a key's position and appends a new one, as a \<open>Map\<close> does).
  The recursions of the code follow parent links upwards or downwards; they carry a fuel of
  one more than the number of live blocks, which \<open>chain_short\<close> shows to be enough.
\<close>

section \<open>Resolving parents\<close>

datatype RepairReason = rr_cycle | rr_missing_parent | rr_deleted_parent

record NoteTreeRepair =
  rp_blockId :: string
  rp_reason :: RepairReason
  rp_claimedParentId :: string

type_synonym parents = "(string \<times> string option) list"

definition live_map :: "('s, 'v) NoteBlock list \<Rightarrow> (string \<times> ('s, 'v) NoteBlock) list" where
  "live_map blocks =
     fold (\<lambda>b m. if isLiveBlock b then AList.update (b_id b) b m else m) blocks []"

definition deleted_ids :: "('s, 'v) NoteBlock list \<Rightarrow> string list" where
  "deleted_ids blocks = map b_id (filter (\<lambda>b. \<not> isLiveBlock b) blocks)"

definition claim_parent ::
  "(string \<times> ('s, 'v) NoteBlock) list \<Rightarrow> string list \<Rightarrow> ('s, 'v) NoteBlock
     \<Rightarrow> parents \<times> NoteTreeRepair list \<Rightarrow> parents \<times> NoteTreeRepair list"
where
  "claim_parent live deleted block acc =
     (let (parentOf, repairs) = acc
      in case s_value (b_parentId block) of
           None \<Rightarrow> (AList.update (b_id block) None parentOf, repairs)
         | Some claimed \<Rightarrow>
             if map_of live claimed = None then
               (AList.update (b_id block) None parentOf,
                repairs @ [\<lparr>rp_blockId = b_id block,
                            rp_reason = (if claimed \<in> set deleted then rr_deleted_parent else rr_missing_parent),
                            rp_claimedParentId = claimed\<rparr>])
             else (AList.update (b_id block) (Some claimed) parentOf, repairs))"

text \<open>\<open>parentOf.get(id) ?? null\<close>.\<close>

definition parent_get :: "parents \<Rightarrow> string \<Rightarrow> string option" where
  "parent_get parentOf i = (case map_of parentOf i of None \<Rightarrow> None | Some p \<Rightarrow> p)"

text \<open>The walk up from a block: the path when it meets itself, nothing when it ends.\<close>

function chase :: "parents \<Rightarrow> string list \<Rightarrow> string option \<Rightarrow> string list option" where
  "chase parentOf seen None = None"
| "chase parentOf seen (Some cursor) =
     (if cursor \<in> set seen then Some seen
      else chase parentOf (cursor # seen) (parent_get parentOf cursor))"
  by pat_completeness auto

termination
proof (relation "measure (\<lambda>(p, seen, cur). case cur of None \<Rightarrow> 0 | Some c \<Rightarrow> Suc (card (fst ` set p - set seen)))",
    goal_cases)
  case 1
  show ?case by simp
next
  case (2 parentOf seen cursor)
  show ?case
  proof (cases "parent_get parentOf cursor")
    case None
    then show ?thesis by simp
  next
    case (Some c)
    then have "cursor \<in> fst ` set parentOf"
      by (auto simp: parent_get_def split: option.splits dest!: map_of_SomeD intro: rev_image_eqI)
    with 2 have "fst ` set parentOf - set (cursor # seen) \<subset> fst ` set parentOf - set seen" by auto
    then have "card (fst ` set parentOf - set (cursor # seen)) < card (fst ` set parentOf - set seen)"
      by (intro psubset_card_mono) auto
    with Some show ?thesis by simp
  qed
qed

text \<open>One block of the cycle repair: the lowest id on the path is detached.\<close>

definition break_cycle ::
  "string \<Rightarrow> parents \<times> NoteTreeRepair list \<Rightarrow> parents \<times> NoteTreeRepair list"
where
  "break_cycle i acc =
     (let (parentOf, repairs) = acc
      in case chase parentOf [i] (parent_get parentOf i) of
           None \<Rightarrow> (parentOf, repairs)
         | Some seen \<Rightarrow>
             let member = hd (sort seen)
             in (AList.update member None parentOf,
                 repairs @ [\<lparr>rp_blockId = member, rp_reason = rr_cycle,
                   rp_claimedParentId = (case parent_get parentOf member of None \<Rightarrow> '''' | Some p \<Rightarrow> p)\<rparr>]))"

definition resolveParents ::
  "('s, 'v) NoteBlock list \<Rightarrow> (string \<times> ('s, 'v) NoteBlock) list \<times> parents \<times> NoteTreeRepair list"
where
  "resolveParents blocks =
     (let live = live_map blocks;
          claims = fold (claim_parent live (deleted_ids blocks)) (map snd live) ([], []);
          (parentOf, repairs) = fold break_cycle (sort (map fst (fst claims))) claims
      in (live, parentOf, repairs))"

section \<open>The tree\<close>

datatype ('s, 'v) NoteTreeNode =
  NoteTreeNode (n_block: "('s, 'v) NoteBlock") (n_children: "('s, 'v) NoteTreeNode list") (n_depth: nat)

definition block_order :: "('s, 'v) NoteBlock \<Rightarrow> ('s, 'v) NoteBlock \<Rightarrow> int" where
  "block_order a b = compareRank (s_value (b_rank a), b_id a) (s_value (b_rank b), b_id b)"

text \<open>The sorted bucket of a parent.\<close>

definition bucket ::
  "(string \<times> ('s, 'v) NoteBlock) list \<Rightarrow> parents \<Rightarrow> string option \<Rightarrow> ('s, 'v) NoteBlock list"
where
  "bucket live parentOf parent =
     sort_by block_order (filter (\<lambda>b. parent_get parentOf (b_id b) = parent) (map snd live))"

fun build_nodes ::
  "(string \<times> ('s, 'v) NoteBlock) list \<Rightarrow> parents \<Rightarrow> nat \<Rightarrow> string option \<Rightarrow> nat
     \<Rightarrow> ('s, 'v) NoteTreeNode list"
where
  "build_nodes live parentOf 0 parent depth = []"
| "build_nodes live parentOf (Suc fuel) parent depth =
     map (\<lambda>b. NoteTreeNode b (build_nodes live parentOf fuel (Some (b_id b)) (depth + 1)) depth)
       (bucket live parentOf parent)"

definition buildNoteTree ::
  "('s, 'v) NoteBlock list \<Rightarrow> ('s, 'v) NoteTreeNode list \<times> NoteTreeRepair list"
where
  "buildNoteTree blocks =
     (let (live, parentOf, repairs) = resolveParents blocks
      in (build_nodes live parentOf (Suc (length live)) None 0, repairs))"

fun walk_subtree ::
  "(string \<times> ('s, 'v) NoteBlock) list \<Rightarrow> parents \<Rightarrow> nat \<Rightarrow> string \<Rightarrow> string list"
where
  "walk_subtree live parentOf 0 i = []"
| "walk_subtree live parentOf (Suc fuel) i =
     i # concat (map (\<lambda>b. walk_subtree live parentOf fuel (b_id b)) (bucket live parentOf (Some i)))"

definition subtreeBlockIds :: "('s, 'v) NoteBlock list \<Rightarrow> string \<Rightarrow> string list" where
  "subtreeBlockIds blocks rootId =
     (let (live, parentOf, _) = resolveParents blocks
      in if map_of live rootId = None then []
         else walk_subtree live parentOf (Suc (length live)) rootId)"

fun climb_page ::
  "(string \<times> ('s, 'v) NoteBlock) list \<Rightarrow> parents \<Rightarrow> string \<Rightarrow> nat \<Rightarrow> string option
     \<Rightarrow> ('s, 'v) NoteBlock option \<Rightarrow> ('s, 'v) NoteBlock option"
where
  "climb_page live parentOf blockId 0 cursor outermost = None"
| "climb_page live parentOf blockId (Suc fuel) cursor outermost =
     (let result = (case outermost of
                      Some b \<Rightarrow> if b_id b \<noteq> blockId then outermost else None
                    | None \<Rightarrow> None)
      in case cursor of
           None \<Rightarrow> result
         | Some c \<Rightarrow>
             (case map_of live c of
                None \<Rightarrow> result
              | Some block \<Rightarrow>
                  if b_id block \<noteq> blockId \<and> s_value (b_kind block) = k_page then Some block
                  else climb_page live parentOf blockId fuel (parent_get parentOf c) (Some block)))"

definition pageOf :: "('s, 'v) NoteBlock list \<Rightarrow> string \<Rightarrow> ('s, 'v) NoteBlock option" where
  "pageOf blocks blockId =
     (let (live, parentOf, _) = resolveParents blocks
      in climb_page live parentOf blockId (length live + 2) (Some blockId) None)"

fun climb_headings ::
  "(string \<times> ('s, 'v) NoteBlock) list \<Rightarrow> parents \<Rightarrow> nat \<Rightarrow> string option
     \<Rightarrow> ('s, 'v) NoteBlock list \<Rightarrow> ('s, 'v) NoteBlock list"
where
  "climb_headings live parentOf 0 cursor chain = chain"
| "climb_headings live parentOf (Suc fuel) cursor chain =
     (case cursor of
        None \<Rightarrow> chain
      | Some c \<Rightarrow>
          (case map_of live c of
             None \<Rightarrow> chain
           | Some block \<Rightarrow>
               climb_headings live parentOf fuel (parent_get parentOf c)
                 (if s_value (b_kind block) \<in> {k_heading, k_page} then block # chain else chain)))"

definition headingAncestry :: "('s, 'v) NoteBlock list \<Rightarrow> string \<Rightarrow> ('s, 'v) NoteBlock list" where
  "headingAncestry blocks blockId =
     (let (live, parentOf, _) = resolveParents blocks;
          chain = climb_headings live parentOf (length live + 2) (parent_get parentOf blockId) []
      in case map_of live blockId of
           None \<Rightarrow> chain
         | Some self \<Rightarrow>
             let siblings = bucket live parentOf (parent_get parentOf blockId);
                 before = (case find_index (\<lambda>b. b_id b = blockId) siblings of
                             None \<Rightarrow> [] | Some index \<Rightarrow> take index siblings)
             in case find (\<lambda>b. s_value (b_kind b) = k_heading) (rev before) of
                  None \<Rightarrow> chain
                | Some candidate \<Rightarrow> chain @ [candidate])"

section \<open>The context of a block\<close>

definition MAX_CONTEXT_TEXT :: nat where
  "MAX_CONTEXT_TEXT = 800"

definition MAX_CONTEXT_COMMENTS :: nat where
  "MAX_CONTEXT_COMMENTS = 3"

definition MAX_CONTEXT_COMMENT_TEXT :: nat where
  "MAX_CONTEXT_COMMENT_TEXT = 240"

record ('s, 'v) NoteBlockContext =
  cx_block :: "('s, 'v) NoteBlock"
  cx_headings :: "string list"
  cx_text :: string
  cx_truncated :: bool
  cx_omitted :: nat
  cx_omittedLabel :: "string option"
  cx_comments :: "string list"
  cx_commentsOmittedLabel :: "string option"

definition blockContext ::
  "(string \<Rightarrow> string \<Rightarrow> int) \<Rightarrow> ('s, 'v) NoteBlock list \<Rightarrow> string \<Rightarrow> ('s, 'v) NoteBlockContext option"
where
  "blockContext localeCompare blocks blockId =
     (case find (\<lambda>b. b_id b = blockId \<and> isLiveBlock b) blocks of
        None \<Rightarrow> None
      | Some block \<Rightarrow>
          let headings = filter (\<lambda>t. length t > 0)
                (map (\<lambda>h. js_trim (s_value (b_text h))) (headingAncestry blocks blockId));
              pageSize = (case pageOf blocks blockId of
                            Some page \<Rightarrow> length (subtreeBlockIds blocks (b_id page))
                          | None \<Rightarrow> length (filter isLiveBlock blocks));
              omitted = pageSize - 1;
              raw = s_value (b_text block);
              truncated = (length raw > MAX_CONTEXT_TEXT);
              open_comments = unresolvedComments localeCompare (fm_values (b_comments block));
              shown = take MAX_CONTEXT_COMMENTS open_comments;
              hidden = length open_comments - length shown
          in Some \<lparr>cx_block = block, cx_headings = headings,
                cx_text = (if truncated then take MAX_CONTEXT_TEXT raw @ ellipsis else raw),
                cx_truncated = truncated, cx_omitted = omitted,
                cx_omittedLabel =
                  (if omitted > 0 then Some (''+'' @ show_int (int omitted) @ '' more block''
                     @ (if omitted = 1 then '''' else ''s'') @ '' on this page'') else None),
                cx_comments = map (\<lambda>c. nc_author c @ '': '' @ take MAX_CONTEXT_COMMENT_TEXT (s_value (nc_body c))) shown,
                cx_commentsOmittedLabel =
                  (if hidden > 0 then Some (''+'' @ show_int (int hidden) @ '' more open comment''
                     @ (if hidden = 1 then '''' else ''s'')) else None)\<rparr>)"

section \<open>Chains of parents\<close>

fun climbs :: "parents \<Rightarrow> nat \<Rightarrow> string option \<Rightarrow> string option" where
  "climbs p 0 x = x"
| "climbs p (Suc n) x = (case x of None \<Rightarrow> None | Some i \<Rightarrow> climbs p n (parent_get p i))"

definition ends :: "parents \<Rightarrow> string option \<Rightarrow> bool" where
  "ends p x \<longleftrightarrow> (\<exists>n. climbs p n x = None)"

lemma climbs_None [simp]: "climbs p n None = None"
  by (cases n) auto

lemma climbs_add: "climbs p (m + n) x = climbs p n (climbs p m x)"
  by (induction m arbitrary: x) (auto split: option.split)

lemma climbs_Suc_end: "climbs p (Suc n) x = Option.bind (climbs p n x) (parent_get p)"
  using climbs_add [of p n 1 x] by (cases "climbs p n x") auto

lemma ends_None [simp]: "ends p None"
  unfolding ends_def by (rule exI [of _ 0]) simp

lemma ends_Some: "ends p (Some i) \<longleftrightarrow> ends p (parent_get p i)"
proof
  assume "ends p (Some i)"
  then obtain n where "climbs p n (Some i) = None" unfolding ends_def by blast
  then show "ends p (parent_get p i)" unfolding ends_def by (cases n) auto
next
  assume "ends p (parent_get p i)"
  then obtain n where "climbs p n (parent_get p i) = None" unfolding ends_def by blast
  then have "climbs p (Suc n) (Some i) = None" by simp
  then show "ends p (Some i)" unfolding ends_def by blast
qed

lemma parent_get_update [simp]:
  "parent_get (AList.update m v p) i = (if i = m then v else parent_get p i)"
  by (auto simp: parent_get_def update_conv')

lemma ends_detach: "ends p x \<Longrightarrow> ends (AList.update m None p) x"
proof -
  assume "ends p x"
  then obtain n where "climbs p n x = None" unfolding ends_def by blast
  then show ?thesis
  proof (induction n arbitrary: x)
    case (Suc n)
    then show ?case by (cases x) (auto simp: ends_Some [of "AList.update m None p"])
  qed simp
qed

lemma ends_detach_on_path: "climbs p k x = Some m \<Longrightarrow> ends (AList.update m None p) x"
proof (induction k arbitrary: x)
  case (Suc k)
  then show ?case by (cases x) (auto simp: ends_Some [of "AList.update m None p"])
qed (auto simp: ends_Some [of "AList.update m None p"])

lemma chase_None: "chase p seen x = None \<Longrightarrow> ends p x"
  by (induction p seen x rule: chase.induct) (auto simp: ends_Some split: if_splits)

lemma chase_path:
  assumes "chase p seen x = Some path"
    and "\<And>y. y \<in> set seen \<Longrightarrow> \<exists>k. climbs p k (Some i) = Some y"
    and "\<exists>k. climbs p k (Some i) = x"
    and "seen \<noteq> []"
  shows "path \<noteq> [] \<and> (\<forall>y \<in> set path. \<exists>k. climbs p k (Some i) = Some y)"
  using assms
proof (induction p seen x rule: chase.induct)
  case (1 p seen)
  then show ?case by simp
next
  case (2 p seen c)
  show ?case
  proof (cases "c \<in> set seen")
    case True
    with 2 show ?thesis by auto
  next
    case False
    obtain k where k: "climbs p k (Some i) = Some c" using 2 by blast
    then have "climbs p (Suc k) (Some i) = parent_get p c" by (simp only: climbs_Suc_end) simp
    with False 2 k show ?thesis by (intro "2.IH") (auto simp del: climbs.simps)
  qed
qed

lemma break_cycle_ends:
  "ends (fst (break_cycle i acc)) (Some i)"
  "ends (fst acc) (Some j) \<Longrightarrow> ends (fst (break_cycle i acc)) (Some j)"
proof -
  obtain p r where acc: "acc = (p, r)" by fastforce
  show "ends (fst (break_cycle i acc)) (Some i)"
  proof (cases "chase p [i] (parent_get p i)")
    case None
    then have "ends p (parent_get p i)" by (rule chase_None)
    with None show ?thesis by (simp add: acc break_cycle_def ends_Some)
  next
    case (Some path)
    have "path \<noteq> [] \<and> (\<forall>y \<in> set path. \<exists>k. climbs p k (Some i) = Some y)"
    proof (rule chase_path [OF Some])
      show "\<exists>k. climbs p k (Some i) = Some y" if "y \<in> set [i]" for y
        using that by (intro exI [of _ 0]) simp
      show "\<exists>k. climbs p k (Some i) = parent_get p i" by (intro exI [of _ 1]) simp
    qed simp
    moreover from this have "hd (sort path) \<in> set path" by (metis hd_in_set set_sort set_empty)
    ultimately obtain k where "climbs p k (Some i) = Some (hd (sort path))" by blast
    then show ?thesis using Some by (simp add: acc break_cycle_def Let_def ends_detach_on_path)
  qed
  show "ends (fst acc) (Some j) \<Longrightarrow> ends (fst (break_cycle i acc)) (Some j)"
    by (simp add: acc break_cycle_def Let_def ends_detach split: option.split)
qed

section \<open>The repaired parents\<close>

lemma set_live_map:
  "(\<forall>(i, b) \<in> set (live_map blocks). b_id b = i \<and> isLiveBlock b \<and> b \<in> set blocks)
   \<and> distinct (map fst (live_map blocks))
   \<and> (\<forall>b \<in> set blocks. isLiveBlock b \<longrightarrow> b_id b \<in> fst ` set (live_map blocks))"
proof -
  have "(\<forall>(i, b) \<in> set (fold (\<lambda>b m. if isLiveBlock b then AList.update (b_id b) b m else m) bs m).
            b_id b = i \<and> isLiveBlock b \<and> (b \<in> set bs \<or> (i, b) \<in> set m))
      \<and> distinct (map fst (fold (\<lambda>b m. if isLiveBlock b then AList.update (b_id b) b m else m) bs m))
      \<and> (\<forall>b \<in> set bs. isLiveBlock b \<longrightarrow>
           b_id b \<in> fst ` set (fold (\<lambda>b m. if isLiveBlock b then AList.update (b_id b) b m else m) bs m))
      \<and> fst ` set m \<subseteq> fst ` set (fold (\<lambda>b m. if isLiveBlock b then AList.update (b_id b) b m else m) bs m)"
    if "\<forall>(i, b) \<in> set m. b_id b = i \<and> isLiveBlock b" "distinct (map fst m)" for bs m
    using that
  proof (induction bs arbitrary: m)
    case (Cons b bs)
    let ?m = "if isLiveBlock b then AList.update (b_id b) b m else m"
    have sub: "set (AList.update k v al) \<subseteq> insert (k, v) (set al)" for k :: string and v al
      by (induction al) auto
    have dom: "fst ` set (AList.update k v al) = insert k (fst ` set al)" for k :: string and v al
      using dom_update [of k v al] by simp
    have "\<forall>(i, b) \<in> set ?m. b_id b = i \<and> isLiveBlock b" "distinct (map fst ?m)"
      using Cons.prems sub [of "b_id b" b m] by (auto simp: distinct_update)
    from Cons.IH [OF this] show ?case
      using sub [of "b_id b" b m] by (auto simp: dom split: if_splits)
  qed auto
  from this [of "[]" blocks] show ?thesis by (auto simp: live_map_def)
qed

lemmas live_map_facts =
  set_live_map [THEN conjunct1, rule_format]
  set_live_map [THEN conjunct2, THEN conjunct1]
  set_live_map [THEN conjunct2, THEN conjunct2, rule_format]

lemma live_map_entry: "map_of (live_map blocks) i = Some b \<Longrightarrow> b_id b = i \<and> isLiveBlock b \<and> b \<in> set blocks"
  using live_map_facts(1) [of "(i, b)" blocks] by (auto dest: map_of_SomeD)

lemma live_map_ids: "map b_id (map snd (live_map blocks)) = map fst (live_map blocks)"
  using live_map_facts(1) [of _ blocks] by (auto simp: map_eq_conv)

definition claimed_parent :: "(string \<times> ('s, 'v) NoteBlock) list \<Rightarrow> ('s, 'v) NoteBlock \<Rightarrow> string option" where
  "claimed_parent live b =
     (case s_value (b_parentId b) of None \<Rightarrow> None
      | Some q \<Rightarrow> if map_of live q = None then None else Some q)"

lemma claim_parent_fst: "fst (claim_parent live del b acc) = AList.update (b_id b) (claimed_parent live b) (fst acc)"
  by (simp add: claim_parent_def Let_def claimed_parent_def case_prod_beta split: option.split)

lemma claim_parent_snd:
  "\<exists>new. snd (claim_parent live del b acc) = snd acc @ new
     \<and> (\<forall>q. s_value (b_parentId b) = Some q \<longrightarrow> claimed_parent live b = None \<longrightarrow>
          (\<exists>r \<in> set new. rp_blockId r = b_id b \<and> rp_claimedParentId r = q))"
  by (simp add: claim_parent_def Let_def claimed_parent_def case_prod_beta split: option.split)

lemma claims_parents:
  "distinct (map b_id bs) \<Longrightarrow>
   parent_get (fst (fold (claim_parent live del) bs acc)) i =
     (case find (\<lambda>b. b_id b = i) bs of Some b \<Rightarrow> claimed_parent live b | None \<Rightarrow> parent_get (fst acc) i)"
proof (induction bs arbitrary: acc)
  case (Cons b bs)
  show ?case
  proof (cases "b_id b = i")
    case True
    have "b_id c \<noteq> i" if "c \<in> set bs" for c
      using Cons.prems True imageI [OF that, of b_id] by auto
    then have "find (\<lambda>c. b_id c = i) bs = None"
      by (simp add: find_None_iff)
    with Cons True show ?thesis by (simp add: claim_parent_fst)
  next
    case False
    with Cons show ?thesis by (simp add: claim_parent_fst split: option.split)
  qed
qed simp

lemma claims_repairs:
  "(\<forall>r \<in> set (snd acc). r \<in> set (snd (fold (claim_parent live del) bs acc)))
   \<and> (\<forall>b \<in> set bs. \<forall>q. s_value (b_parentId b) = Some q \<longrightarrow> claimed_parent live b = None \<longrightarrow>
        (\<exists>r \<in> set (snd (fold (claim_parent live del) bs acc)). rp_blockId r = b_id b \<and> rp_claimedParentId r = q))"
proof (induction bs arbitrary: acc)
  case (Cons b bs)
  from claim_parent_snd [of live del b acc] Cons.IH [of "claim_parent live del b acc"]
  show ?case by fastforce
qed simp

text \<open>What the repair keeps true of a block that claims a parent: it has it, or a repair says so.\<close>

definition accounted :: "(string \<times> ('s, 'v) NoteBlock) list \<Rightarrow> parents \<times> NoteTreeRepair list \<Rightarrow> bool" where
  "accounted live acc \<longleftrightarrow>
     (\<forall>i b. map_of live i = Some b \<longrightarrow>
        (case s_value (b_parentId b) of
           None \<Rightarrow> parent_get (fst acc) i = None
         | Some q \<Rightarrow>
             parent_get (fst acc) i = Some q \<and> map_of live q \<noteq> None
             \<or> parent_get (fst acc) i = None
                \<and> (\<exists>r \<in> set (snd acc). rp_blockId r = i \<and> rp_claimedParentId r = q)))
     \<and> (\<forall>i. map_of live i = None \<longrightarrow> parent_get (fst acc) i = None)"

lemma claims_accounted:
  fixes blocks :: "('s, 'v) NoteBlock list"
  shows "accounted (live_map blocks)
    (fold (claim_parent (live_map blocks) del) (map snd (live_map blocks)) ([], []))"
proof -
  let ?live = "live_map blocks" and ?bs = "map snd (live_map blocks)"
  let ?acc = "fold (claim_parent ?live del) ?bs ([], [])"
  have dist: "distinct (map b_id ?bs)" using live_map_facts(2) live_map_ids by metis
  have par: "parent_get (fst ?acc) i = (case map_of ?live i of Some b \<Rightarrow> claimed_parent ?live b | None \<Rightarrow> None)" for i
  proof -
    have "find (\<lambda>b. b_id b = i) (map snd al) = map_of al i" if "\<forall>(i, b) \<in> set al. b_id b = i"
      for al :: "(string \<times> ('s, 'v) NoteBlock) list"
      using that by (induction al) auto
    then have "find (\<lambda>b. b_id b = i) ?bs = map_of ?live i"
      using live_map_facts(1) [of _ blocks] by auto
    moreover have "parent_get [] i = None" by (simp add: parent_get_def)
    ultimately show ?thesis
      using claims_parents [OF dist, of ?live del "([], [])" i] by (simp split: option.split)
  qed
  have "case s_value (b_parentId b) of
           None \<Rightarrow> parent_get (fst ?acc) i = None
         | Some q \<Rightarrow> parent_get (fst ?acc) i = Some q \<and> map_of ?live q \<noteq> None
             \<or> parent_get (fst ?acc) i = None \<and> (\<exists>r \<in> set (snd ?acc). rp_blockId r = i \<and> rp_claimedParentId r = q)"
    if "map_of ?live i = Some b" for i b
  proof -
    have b: "b_id b = i" "b \<in> set ?bs"
      using live_map_entry [OF that] map_of_SomeD [OF that] by (auto intro: rev_image_eqI)
    have "\<exists>r \<in> set (snd ?acc). rp_blockId r = i \<and> rp_claimedParentId r = q"
      if "s_value (b_parentId b) = Some q" "claimed_parent ?live b = None" for q
      using claims_repairs [of "([], [])" ?live del ?bs] b that by auto
    then show ?thesis
      using that by (auto simp: par claimed_parent_def split: option.splits if_splits)
  qed
  then show ?thesis by (auto simp: accounted_def par)
qed

lemma break_cycle_accounted: "accounted live acc \<Longrightarrow> accounted live (break_cycle i acc)"
proof (cases "chase (fst acc) [i] (parent_get (fst acc) i)")
  case None
  then show "accounted live acc \<Longrightarrow> ?thesis" by (simp add: break_cycle_def Let_def case_prod_beta)
next
  case (Some path)
  assume a: "accounted live acc"
  let ?m = "hd (sort path)"
  have e: "break_cycle i acc = (AList.update ?m None (fst acc), snd acc @
      [\<lparr>rp_blockId = ?m, rp_reason = rr_cycle,
        rp_claimedParentId = (case parent_get (fst acc) ?m of None \<Rightarrow> '''' | Some p \<Rightarrow> p)\<rparr>])"
    using Some by (simp add: break_cycle_def Let_def case_prod_beta)
  show ?thesis
    using a unfolding accounted_def e by (fastforce split: option.split_asm option.split)
qed

lemma fold_break_cycle:
  "accounted live acc \<Longrightarrow> accounted live (fold break_cycle is acc)"
  "(\<And>j. j \<in> S \<Longrightarrow> ends (fst acc) (Some j)) \<Longrightarrow> j \<in> S \<union> set is \<Longrightarrow> ends (fst (fold break_cycle is acc)) (Some j)"
proof (induction "is" arbitrary: acc S)
  case Nil
  { case 1 then show ?case by simp }
  { case 2 then show ?case by simp }
next
  case (Cons i "is")
  { case 1 then show ?case using Cons.IH(1) [OF break_cycle_accounted] by simp }
  { case 2
    have "ends (fst (break_cycle i acc)) (Some k)" if "k \<in> insert i S" for k
      using that 2 break_cycle_ends by blast
    from Cons.IH(2) [of "insert i S", OF this] 2 show ?case by simp }
qed

lemma resolveParents_facts:
  assumes "resolveParents blocks = (live, p, repairs)"
  shows "live = live_map blocks" "accounted live (p, repairs)" "ends p (Some i)"
proof -
  let ?claims = "fold (claim_parent (live_map blocks) (deleted_ids blocks)) (map snd (live_map blocks)) ([], [])"
  have l: "live = live_map blocks" and
    pr: "(p, repairs) = fold break_cycle (sort (map fst (fst ?claims))) ?claims"
    using assms by (auto simp: resolveParents_def Let_def case_prod_beta)
  show "live = live_map blocks" by (rule l)
  show "accounted live (p, repairs)"
    unfolding pr l by (rule fold_break_cycle(1)) (rule claims_accounted)
  have start: "ends (fst ?claims) (Some j)" if "j \<in> - fst ` set (fst ?claims)" for j
  proof -
    have "parent_get (fst ?claims) j = None" using that by (auto simp: parent_get_def split: option.split dest!: map_of_SomeD intro: rev_image_eqI)
    then show ?thesis by (simp add: ends_Some)
  qed
  have "ends (fst (p, repairs)) (Some i)"
    unfolding pr
    by (rule fold_break_cycle(2) [where S = "- fst ` set (fst ?claims)", OF start]) auto
  then show "ends p (Some i)" by simp
qed

section \<open>The tree holds every live block once\<close>

fun tree_blocks :: "('s, 'v) NoteTreeNode \<Rightarrow> ('s, 'v) NoteBlock list" where
  "tree_blocks (NoteTreeNode b cs d) = b # concat (map tree_blocks cs)"

lemma no_loop: "climbs p (Suc k) (Some i) = Some i \<Longrightarrow> \<not> ends p (Some i)"
proof
  assume loop: "climbs p (Suc k) (Some i) = Some i" and "ends p (Some i)"
  then obtain n where n: "climbs p n (Some i) = None" unfolding ends_def by blast
  have "climbs p (m * Suc k) (Some i) = Some i" for m
  proof (induction m)
    case (Suc m)
    then show ?case using climbs_add [of p "Suc k" "m * Suc k" "Some i"] loop by (simp only: mult_Suc)
  qed simp
  moreover have "climbs p (n * Suc k) (Some i) = None"
    using climbs_add [of p n "n * k" "Some i"] n by (simp add: algebra_simps)
  ultimately show False by simp
qed

lemma same_parent_same_step:
  assumes "\<And>i. ends p (Some i)" "climbs p k x = Some c" "climbs p j x = Some c'"
    and "parent_get p c = parent_get p c'"
  shows "c = c'"
proof -
  have wlog: "c = c'" if "k \<le> j" "climbs p k x = Some c" "climbs p j x = Some c'"
      "parent_get p c = parent_get p c'" for k j c c'
  proof (cases "j - k")
    case 0
    with that show ?thesis by simp
  next
    case (Suc d)
    then have "j = k + Suc d" by simp
    then have j: "climbs p (Suc d) (Some c) = Some c'" using climbs_add [of p k "Suc d" x] that by (simp only:)
    then have d: "climbs p d (parent_get p c) = Some c'" by simp
    then obtain q where q: "parent_get p c = Some q" by (cases "parent_get p c") auto
    have "climbs p (Suc d) (Some q) = parent_get p c'"
      using d q by (simp only: climbs_Suc_end) simp
    with that q have "climbs p (Suc d) (Some q) = Some q" by simp
    then have False using no_loop assms(1) by blast
    then show ?thesis ..
  qed
  show ?thesis
  proof (cases "k \<le> j")
    case True
    with wlog assms show ?thesis by blast
  next
    case False
    then show ?thesis using wlog [of j k c' c] assms by simp
  qed
qed

lemma mset_filter_disjoint:
  "(\<And>b. b \<in> set xs \<Longrightarrow> \<not> (P b \<and> Q b)) \<Longrightarrow>
   mset (filter (\<lambda>b. P b \<or> Q b) xs) = mset (filter P xs) + mset (filter Q xs)"
  by (induction xs) auto

lemma mset_filter_family:
  assumes "\<And>b c c'. b \<in> set xs \<Longrightarrow> c \<in> set cs \<Longrightarrow> c' \<in> set cs \<Longrightarrow> Q c b \<Longrightarrow> Q c' b \<Longrightarrow> c = c'"
    and "distinct cs"
  shows "mset (concat (map (\<lambda>c. filter (Q c) xs) cs)) = mset (filter (\<lambda>b. \<exists>c \<in> set cs. Q c b) xs)"
  using assms
proof (induction cs)
  case (Cons c cs)
  have "mset (filter (\<lambda>b. Q c b \<or> (\<exists>c' \<in> set cs. Q c' b)) xs)
      = mset (filter (Q c) xs) + mset (filter (\<lambda>b. \<exists>c' \<in> set cs. Q c' b) xs)"
    by (rule mset_filter_disjoint) (use Cons.prems in \<open>force\<close>)
  with Cons show ?case by simp
qed simp

lemma mset_concat_map_cong:
  "(\<And>c. mset (f c) = mset (g c)) \<Longrightarrow> mset (concat (map f cs)) = mset (concat (map g cs))"
  by (induction cs) auto

lemma build_nodes_mset:
  fixes live :: "(string \<times> ('s, 'v) NoteBlock) list"
  defines "L \<equiv> map snd live"
  assumes acyclic: "\<And>i. ends p (Some i)"
    and dist: "distinct (map b_id L)"
    and closed: "\<And>b q. b \<in> set L \<Longrightarrow> parent_get p (b_id b) = Some q \<Longrightarrow> q \<in> b_id ` set L"
  shows "mset (concat (map tree_blocks (build_nodes live p n par d)))
    = mset (filter (\<lambda>b. \<exists>k<n. climbs p (Suc k) (Some (b_id b)) = par) L)"
proof (induction n arbitrary: par d)
  case 0
  show ?case by simp
next
  case (Suc n)
  let ?kids = "bucket live p par"
  let ?Q = "\<lambda>c b. \<exists>k<n. climbs p (Suc k) (Some (b_id b)) = Some (b_id c)"
  have kids: "set ?kids = {c \<in> set L. parent_get p (b_id c) = par}" "mset ?kids = mset (filter (\<lambda>b. parent_get p (b_id b) = par) L)"
    by (simp_all add: bucket_def L_def)
  have inj: "b = c" if "b \<in> set L" "c \<in> set L" "b_id b = b_id c" for b c
    using dist that by (metis distinct_map inj_onD)
  have "distinct L" using dist by (simp add: distinct_map)
  then have dkids: "distinct ?kids" by (simp add: bucket_def L_def)
  have above: "climbs p (Suc k) (Some (b_id b)) = Some q \<Longrightarrow> q \<in> b_id ` set L" if "b \<in> set L" for b k q
  proof (induction k arbitrary: q)
    case 0
    then show ?case using closed that by simp
  next
    case (Suc k)
    then obtain r where r: "climbs p (Suc k) (Some (b_id b)) = Some r" "parent_get p r = Some q"
      by (simp only: climbs_Suc_end [of p "Suc k"] bind_eq_Some_conv) blast
    with Suc.IH closed show ?case by (auto simp del: climbs.simps)
  qed
  have unique: "c = c'" if u: "b \<in> set L" "c \<in> set ?kids" "c' \<in> set ?kids" "?Q c b" "?Q c' b" for b c c'
  proof -
    obtain k j where "climbs p k (Some (b_id b)) = Some (b_id c)" "climbs p j (Some (b_id b)) = Some (b_id c')"
      using u(4,5) by blast
    then have "b_id c = b_id c'" using u kids by (intro same_parent_same_step [OF acyclic]) auto
    with u kids inj show ?thesis by auto
  qed
  have apart: "\<not> (parent_get p (b_id b) = par \<and> (\<exists>c \<in> set ?kids. ?Q c b))" if "b \<in> set L" for b
  proof
    assume "parent_get p (b_id b) = par \<and> (\<exists>c \<in> set ?kids. ?Q c b)"
    then obtain c k where c: "parent_get p (b_id b) = par" "c \<in> set ?kids"
        "climbs p (Suc k) (Some (b_id b)) = Some (b_id c)" by blast
    have "b_id b = b_id c"
      by (rule same_parent_same_step [OF acyclic, of 0 "Some (b_id b)" _ "Suc k"]) (use c kids in auto)
    with c no_loop acyclic show False by metis
  qed
  have step: "(\<exists>k<Suc n. climbs p (Suc k) (Some (b_id b)) = par)
      \<longleftrightarrow> parent_get p (b_id b) = par \<or> (\<exists>c \<in> set ?kids. ?Q c b)" if b: "b \<in> set L" for b
  proof
    assume "\<exists>k<Suc n. climbs p (Suc k) (Some (b_id b)) = par"
    then obtain k where "k < Suc n \<and> climbs p (Suc k) (Some (b_id b)) = par"
      and "\<forall>j<k. \<not> (j < Suc n \<and> climbs p (Suc j) (Some (b_id b)) = par)"
      using exists_least_iff [of "\<lambda>k. k < Suc n \<and> climbs p (Suc k) (Some (b_id b)) = par"] by blast
    then have k: "k < Suc n" "climbs p (Suc k) (Some (b_id b)) = par"
      and least: "\<And>j. j < k \<Longrightarrow> climbs p (Suc j) (Some (b_id b)) \<noteq> par"
      by (auto simp del: climbs.simps)
    show "parent_get p (b_id b) = par \<or> (\<exists>c \<in> set ?kids. ?Q c b)"
    proof (cases k)
      case 0
      with k show ?thesis by simp
    next
      case (Suc j)
      have e: "par = Option.bind (climbs p (Suc j) (Some (b_id b))) (parent_get p)"
        using k Suc climbs_Suc_end by metis
      then obtain q where q: "climbs p (Suc j) (Some (b_id b)) = Some q"
        using least [of j] Suc by (cases "climbs p (Suc j) (Some (b_id b))") auto
      then obtain c where c: "c \<in> set L" "b_id c = q" using above [OF b q] by auto
      with e q kids have "c \<in> set ?kids" by simp
      with c q k Suc show ?thesis by (auto simp del: climbs.simps)
    qed
  next
    assume "parent_get p (b_id b) = par \<or> (\<exists>c \<in> set ?kids. ?Q c b)"
    then show "\<exists>k<Suc n. climbs p (Suc k) (Some (b_id b)) = par"
    proof
      assume "parent_get p (b_id b) = par"
      then show ?thesis by (intro exI [of _ 0]) simp
    next
      assume "\<exists>c \<in> set ?kids. ?Q c b"
      then obtain c k where c: "c \<in> set ?kids" "k < n" "climbs p (Suc k) (Some (b_id b)) = Some (b_id c)" by blast
      then have "climbs p (Suc (Suc k)) (Some (b_id b)) = par"
        using kids by (simp only: climbs_Suc_end [of p "Suc k"]) simp
      with c show ?thesis by (intro exI [of _ "Suc k"]) simp
    qed
  qed
  have "mset (concat (map tree_blocks (build_nodes live p (Suc n) par d)))
      = mset ?kids + mset (concat (map (\<lambda>c. concat (map tree_blocks (build_nodes live p n (Some (b_id c)) (d + 1)))) ?kids))"
  proof -
    have "mset (concat (map (\<lambda>c. c # f c) cs)) = mset cs + mset (concat (map f cs))" for f and cs :: "('s, 'v) NoteBlock list"
      by (induction cs) auto
    then show ?thesis by (simp add: o_def)
  qed
  also have "mset (concat (map (\<lambda>c. concat (map tree_blocks (build_nodes live p n (Some (b_id c)) (d + 1)))) ?kids))
      = mset (concat (map (\<lambda>c. filter (?Q c) L) ?kids))"
    by (rule mset_concat_map_cong) (rule Suc.IH)
  also have "\<dots> = mset (filter (\<lambda>b. \<exists>c \<in> set ?kids. ?Q c b) L)"
    by (rule mset_filter_family [OF unique dkids])
  also have "mset ?kids + \<dots> = mset (filter (\<lambda>b. parent_get p (b_id b) = par \<or> (\<exists>c \<in> set ?kids. ?Q c b)) L)"
    unfolding kids(2) by (rule mset_filter_disjoint [symmetric]) (rule apart)
  also have "\<dots> = mset (filter (\<lambda>b. \<exists>k<Suc n. climbs p (Suc k) (Some (b_id b)) = par) L)"
    by (rule arg_cong [where f = mset], rule filter_cong) (simp_all only: step)
  finally show ?case .
qed

text \<open>A chain of parents is no longer than the number of live blocks, so the fuel suffices.\<close>

lemma chain_short:
  assumes acyclic: "\<And>i. ends p (Some i)"
    and closed: "\<And>i q. i \<in> S \<Longrightarrow> parent_get p i = Some q \<Longrightarrow> q \<in> S"
    and S: "finite S" "i \<in> S"
  shows "climbs p (card S) (Some i) = None"
proof (rule ccontr)
  assume "climbs p (card S) (Some i) \<noteq> None"
  then have some: "climbs p k (Some i) \<noteq> None" if "k \<le> card S" for k
    using that climbs_add [of p k "card S - k" "Some i"] by (cases "climbs p k (Some i)") auto
  define f where "f k = the (climbs p k (Some i))" for k
  have f: "climbs p k (Some i) = Some (f k)" if "k \<le> card S" for k
    using some [OF that] by (auto simp: f_def)
  have mem: "f k \<in> S" if "k \<le> card S" for k
    using that
  proof (induction k)
    case 0
    then show ?case using S f [of 0] by simp
  next
    case (Suc k)
    have "parent_get p (f k) = Some (f (Suc k))"
      using f [of k] f [of "Suc k"] Suc.prems climbs_Suc_end [of p k "Some i"] by (simp del: climbs.simps)
    with Suc closed show ?case by simp
  qed
  have "inj_on f {..card S}"
  proof (rule linorder_inj_onI)
    fix k j
    assume "k < j" "k \<in> {..card S}" "j \<in> {..card S}"
    then obtain d where d: "j = k + Suc d" by (metis less_iff_Suc_add add_Suc_right)
    have "climbs p (Suc d) (Some (f k)) = Some (f j)"
      using climbs_add [of p k "Suc d" "Some i"] f [of k] f [of j] \<open>k < j\<close> \<open>j \<in> {..card S}\<close> d by (simp del: climbs.simps)
    then show "f k \<noteq> f j" using no_loop acyclic by metis
  qed auto
  then have "card {..card S} \<le> card S"
    using mem S by (intro card_inj_on_le) auto
  then show False by simp
qed

section \<open>Properties\<close>

text \<open>
  C38. Whatever parents two devices' moves left behind, cycles included, the repair ends in a
  forest: from every block the parents lead to the top level, a parent that is kept is a live
  block and is the one the block claims, and a block that does not have the parent it claims
  is named in a repair together with that parent.
\<close>

theorem repaired_parents_form_a_forest:
  assumes "resolveParents blocks = (live, p, repairs)"
  shows "(\<exists>n. climbs p n (Some i) = None)
    \<and> (\<forall>b q. map_of live i = Some b \<longrightarrow> s_value (b_parentId b) = Some q \<longrightarrow>
         parent_get p i = Some q \<and> map_of live q \<noteq> None
         \<or> parent_get p i = None \<and> (\<exists>r \<in> set repairs. rp_blockId r = i \<and> rp_claimedParentId r = q))
    \<and> (\<forall>b. map_of live i = Some b \<longrightarrow> s_value (b_parentId b) = None \<longrightarrow> parent_get p i = None)"
  using resolveParents_facts(3) [OF assms, of i] resolveParents_facts(2) [OF assms]
  by (fastforce simp: ends_def accounted_def)

definition demo_child :: "string \<Rightarrow> string option \<Rightarrow> (unit, unit) NoteBlock" where
  "demo_child i parent =
     (demo_block (demo_value i 1 ''x''))\<lparr>b_id := i, b_parentId := demo_value parent 1 ''x''\<rparr>"

text \<open>Two devices moved \<open>c\<close> under \<open>d\<close> and \<open>d\<close> under \<open>c\<close>; \<open>a\<close> hangs below \<open>c\<close>.\<close>

definition demo_cycle :: "(unit, unit) NoteBlock list" where
  "demo_cycle = [demo_child ''a'' (Some ''c''), demo_child ''c'' (Some ''d''), demo_child ''d'' (Some ''c'')]"

theorem repaired_parents_form_a_forest_witness:
  "\<exists>n. climbs (fst (snd (resolveParents demo_cycle))) n (Some ''c'') = None"
  using repaired_parents_form_a_forest [of demo_cycle _ _ _ "''c''"] by (metis prod.collapse)

text \<open>
  C39. The tree shows the document: every live block is in it exactly once, none twice and
  none left out, whatever the parents were.
\<close>

theorem tree_holds_every_live_block_once:
  "mset (concat (map tree_blocks (fst (buildNoteTree blocks)))) = mset (map snd (live_map blocks))"
proof -
  obtain live p repairs where r: "resolveParents blocks = (live, p, repairs)" by (metis prod_cases3)
  note facts = resolveParents_facts [OF r]
  let ?L = "map snd live"
  have ids: "map b_id ?L = map fst live" using live_map_ids facts(1) by blast
  have dist: "distinct (map b_id ?L)" unfolding ids using live_map_facts(2) [of blocks] facts(1) by simp
  have closed: "q \<in> b_id ` set ?L" if "parent_get p i = Some q" for i q
  proof -
    have "map_of live i \<noteq> None" using that facts(2) by (auto simp: accounted_def)
    then have "map_of live q \<noteq> None" using that facts(2) by (fastforce simp: accounted_def split: option.splits)
    then have "q \<in> set (map fst live)" by (simp add: map_of_eq_None_iff)
    then show ?thesis unfolding ids [symmetric] set_map [of b_id] .
  qed
  have "mset (concat (map tree_blocks (build_nodes live p (Suc (length live)) None 0)))
      = mset (filter (\<lambda>b. \<exists>k<Suc (length live). climbs p (Suc k) (Some (b_id b)) = None) ?L)"
    by (rule build_nodes_mset [OF facts(3) dist closed])
  moreover have "\<exists>k<Suc (length live). climbs p (Suc k) (Some (b_id b)) = None" if "b \<in> set ?L" for b
  proof (intro exI conjI)
    have "climbs p (card (b_id ` set ?L)) (Some (b_id b)) = None"
      by (rule chain_short [OF facts(3)]) (use closed that in auto)
    moreover have "card (b_id ` set ?L) = length live"
      using distinct_card [OF dist] by (simp add: image_image)
    ultimately show "climbs p (Suc (length live)) (Some (b_id b)) = None"
      using climbs_add [of p "length live" 1 "Some (b_id b)"] by simp
  qed simp
  then have "filter (\<lambda>b. \<exists>k<Suc (length live). climbs p (Suc k) (Some (b_id b)) = None) ?L = ?L"
    by (intro filter_True) blast
  ultimately have "mset (concat (map tree_blocks (build_nodes live p (Suc (length live)) None 0))) = mset ?L"
    by (simp only:)
  then show ?thesis
    by (simp add: buildNoteTree_def r facts(1) [symmetric] del: build_nodes.simps)
qed

text \<open>
  A block below a cycle is not left with its parent: the repair detaches the lowest id on
  the path that led into the cycle, and then, the cycle being still there, breaks the cycle
  as well. Here \<open>a\<close> is no member of the cycle of \<open>c\<close> and \<open>d\<close>, and is moved to the top level
  with a repair that says it was.
\<close>

theorem block_below_a_cycle_is_detached:
  "fst (snd (resolveParents demo_cycle)) = [(''a'', None), (''c'', None), (''d'', Some ''c'')]
   \<and> map (\<lambda>r. (rp_blockId r, rp_reason r)) (snd (snd (resolveParents demo_cycle)))
     = [(''a'', rr_cycle), (''c'', rr_cycle)]"
  by (simp add: resolveParents_def demo_cycle_def demo_child_def demo_block_def demo_value_def
      live_map_def isLiveBlock_def claim_parent_def break_cycle_def parent_get_def Let_def)

end
