(* ===== verification/Trash.thy ===== *)
theory Trash
  imports NoteBlock Rank NoteTree
begin

text \<open>
  The trash and the favourites as projections of the blocks,
  \<open>packages/core/src/notes/trash.ts\<close>: what went away with a deleted block, the entries of
  the trash, where a restored block lands. The recursive walk over tombstones with its
  shared \<open>seen\<close> set is a stack of ids still to visit: visiting a block's children before
  what is left of its parent's is the same order.
\<close>

definition deletedChildren :: "('s, 'v) NoteBlock list \<Rightarrow> string \<Rightarrow> ('s, 'v) NoteBlock list" where
  "deletedChildren blocks i =
     filter (\<lambda>b. \<not> isLiveBlock b \<and> s_value (b_parentId b) = Some i) blocks"

definition deleted_kids :: "('s, 'v) NoteBlock list \<Rightarrow> string \<Rightarrow> string list" where
  "deleted_kids blocks i = map b_id (sort_by block_order (deletedChildren blocks i))"

lemma deleted_kids_sub: "set (deleted_kids blocks i) \<subseteq> b_id ` set blocks"
  by (auto simp: deleted_kids_def deletedChildren_def)

function walk_deleted :: "('s, 'v) NoteBlock list \<Rightarrow> string list \<Rightarrow> string list \<Rightarrow> string list" where
  "walk_deleted blocks [] out = out"
| "walk_deleted blocks (i # todo) out =
     (if i \<in> set out then walk_deleted blocks todo out
      else walk_deleted blocks (deleted_kids blocks i @ todo) (out @ [i]))"
  by pat_completeness auto

termination
proof (relation "measures [\<lambda>(blocks, todo, out). card ((b_id ` set blocks \<union> set todo) - set out),
    \<lambda>(blocks, todo, out). length todo]", goal_cases)
  case 1
  show ?case by simp
next
  case (2 blocks i todo out)
  then have "(b_id ` set blocks \<union> set (i # todo)) - set out = (b_id ` set blocks \<union> set todo) - set out" by auto
  then show ?case by simp
next
  case (3 blocks i todo out)
  have "(b_id ` set blocks \<union> set (deleted_kids blocks i @ todo)) - set (out @ [i])
      \<subset> (b_id ` set blocks \<union> set (i # todo)) - set out"
    using 3 deleted_kids_sub [of blocks i] by auto
  then have "card ((b_id ` set blocks \<union> set (deleted_kids blocks i @ todo)) - set (out @ [i]))
      < card ((b_id ` set blocks \<union> set (i # todo)) - set out)"
    by (intro psubset_card_mono) auto
  then show ?case by simp
qed

definition walkDeleted :: "('s, 'v) NoteBlock list \<Rightarrow> string \<Rightarrow> string list" where
  "walkDeleted blocks rootId = walk_deleted blocks [rootId] []"

definition deletedSubtreeIds :: "('s, 'v) NoteBlock list \<Rightarrow> string \<Rightarrow> string list" where
  "deletedSubtreeIds blocks rootId =
     (case find (\<lambda>b. b_id b = rootId) blocks of
        None \<Rightarrow> []
      | Some head \<Rightarrow> if isLiveBlock head then [] else walkDeleted blocks rootId)"

record ('s, 'v) TrashEntry =
  te_block :: "('s, 'v) NoteBlock"
  te_deletedAt :: hlc
  te_descendants :: nat

text \<open>\<open>new Map(all.map(...))\<close>: the last block of an id.\<close>

definition by_id :: "('s, 'v) NoteBlock list \<Rightarrow> string \<Rightarrow> ('s, 'v) NoteBlock option" where
  "by_id blocks i = find (\<lambda>b. b_id b = i) (rev blocks)"

definition is_entry :: "('s, 'v) NoteBlock list \<Rightarrow> ('s, 'v) NoteBlock \<Rightarrow> bool" where
  "is_entry blocks b \<longleftrightarrow>
     \<not> isLiveBlock b \<and> b_deletedAt b \<noteq> None
     \<and> \<not> (case Option.bind (s_value (b_parentId b)) (by_id blocks) of
            None \<Rightarrow> False | Some parent \<Rightarrow> \<not> isLiveBlock parent)"

definition entry_order ::
  "(string \<Rightarrow> string \<Rightarrow> int) \<Rightarrow> ('s, 'v) TrashEntry \<Rightarrow> ('s, 'v) TrashEntry \<Rightarrow> int"
where
  "entry_order localeCompare a b =
     (let c = compareHlc (te_deletedAt b) (te_deletedAt a)
      in if c \<noteq> 0 then c else localeCompare (b_id (te_block a)) (b_id (te_block b)))"

definition listTrashEntries ::
  "(string \<Rightarrow> string \<Rightarrow> int) \<Rightarrow> ('s, 'v) NoteBlock list \<Rightarrow> ('s, 'v) TrashEntry list"
where
  "listTrashEntries localeCompare blocks =
     sort_by (entry_order localeCompare)
       (map (\<lambda>b. \<lparr>te_block = b, te_deletedAt = the (b_deletedAt b),
                  te_descendants = length (walkDeleted blocks (b_id b)) - 1\<rparr>)
         (filter (is_entry blocks) blocks))"

record RestoreDestination =
  rd_parentId :: "string option"
  rd_reparented :: bool

definition restoreDestination :: "('s, 'v) NoteBlock list \<Rightarrow> string \<Rightarrow> RestoreDestination" where
  "restoreDestination blocks i =
     (let claimed = (case find (\<lambda>b. b_id b = i) blocks of
                       None \<Rightarrow> None | Some b \<Rightarrow> s_value (b_parentId b))
      in case claimed of
           None \<Rightarrow> \<lparr>rd_parentId = None, rd_reparented = False\<rparr>
         | Some c \<Rightarrow>
             (case find (\<lambda>b. b_id b = c) blocks of
                Some parent \<Rightarrow>
                  if isLiveBlock parent then \<lparr>rd_parentId = Some c, rd_reparented = False\<rparr>
                  else \<lparr>rd_parentId = None, rd_reparented = True\<rparr>
              | None \<Rightarrow> \<lparr>rd_parentId = None, rd_reparented = True\<rparr>))"

definition favouriteBlocks :: "('s, 'v) NoteBlock list \<Rightarrow> ('s, 'v) NoteBlock list" where
  "favouriteBlocks blocks = sort_by block_order (filter isFavourite blocks)"

definition describeTrashEntry :: "nat \<Rightarrow> string \<Rightarrow> string" where
  "describeTrashEntry descendants title =
     (let name = (if js_trim title \<noteq> [] then js_trim title else UNTITLED_PAGE)
      in if descendants = 0 then name
         else name @ '' '' @ em_dash @ '' and '' @ show_int (int descendants) @ '' block''
           @ (if descendants = 1 then '''' else ''s'') @ '' inside it'')"

section \<open>The walk\<close>

text \<open>\<open>below blocks i j\<close>: \<open>j\<close> is a tombstoned child of \<open>i\<close>.\<close>

definition below :: "('s, 'v) NoteBlock list \<Rightarrow> (string \<times> string) set" where
  "below blocks = {(i, j). j \<in> set (deleted_kids blocks i)}"

lemma walk_deleted_distinct: "distinct out \<Longrightarrow> distinct (walk_deleted blocks todo out)"
  by (induction blocks todo out rule: walk_deleted.induct) auto

lemma walk_deleted_set:
  assumes "\<And>i j. i \<in> set out \<Longrightarrow> (i, j) \<in> below blocks \<Longrightarrow> j \<in> set out \<union> set todo"
  shows "set (walk_deleted blocks todo out) = (below blocks)\<^sup>* `` (set out \<union> set todo)"
  using assms
proof (induction blocks todo out rule: walk_deleted.induct)
  case (1 blocks out)
  have "(below blocks)\<^sup>* `` set out \<subseteq> set out"
  proof
    fix j
    assume "j \<in> (below blocks)\<^sup>* `` set out"
    then obtain i where "i \<in> set out" "(i, j) \<in> (below blocks)\<^sup>*" by blast
    from this(2,1) show "j \<in> set out"
      by (induction rule: rtrancl_induct) (use 1 in auto)
  qed
  then show ?case by auto
next
  case (2 blocks i todo out)
  show ?case
  proof (cases "i \<in> set out")
    case True
    with 2 show ?thesis by (simp add: insert_absorb)
  next
    case False
    have IH: "set (walk_deleted blocks (deleted_kids blocks i @ todo) (out @ [i]))
        = (below blocks)\<^sup>* `` (set (out @ [i]) \<union> set (deleted_kids blocks i @ todo))"
      by (rule "2.IH"(2) [OF False]) (use "2.prems" in \<open>auto simp: below_def\<close>)
    have "(below blocks)\<^sup>* `` (insert i (set (deleted_kids blocks i))) = (below blocks)\<^sup>* `` {i}"
      by (auto simp: below_def intro: converse_rtrancl_into_rtrancl)
    with IH False show ?thesis by (auto simp: Image_Un)
  qed
qed

lemma walkDeleted_set: "set (walkDeleted blocks i) = (below blocks)\<^sup>* `` {i}"
  unfolding walkDeleted_def by (subst walk_deleted_set) auto

section \<open>Properties\<close>

text \<open>
  Restoring takes back exactly what the deletion took: the ids listed for a deleted block
  are the block and every tombstoned block reachable from it through tombstoned parents,
  each once, cycles among them included; a live or unknown block lists nothing.
\<close>

theorem deleted_subtree_is_what_went_away:
  "distinct (deletedSubtreeIds blocks i)
   \<and> set (deletedSubtreeIds blocks i)
     = (case find (\<lambda>b. b_id b = i) blocks of
          None \<Rightarrow> {} | Some head \<Rightarrow> if isLiveBlock head then {} else (below blocks)\<^sup>* `` {i})"
proof -
  have "distinct (walkDeleted blocks i)"
    unfolding walkDeleted_def by (rule walk_deleted_distinct) simp
  then show ?thesis
    by (cases "find (\<lambda>b. b_id b = i) blocks") (simp_all add: deletedSubtreeIds_def walkDeleted_set)
qed

inductive rooted :: "('s, 'v) NoteBlock list \<Rightarrow> ('s, 'v) NoteBlock \<Rightarrow> bool" for blocks where
  rooted_entry: "b \<in> set blocks \<Longrightarrow> is_entry blocks b \<Longrightarrow> rooted blocks b"
| rooted_child: "rooted blocks parent \<Longrightarrow> b \<in> set blocks \<Longrightarrow> \<not> isLiveBlock b \<Longrightarrow>
    s_value (b_parentId b) = Some (b_id parent) \<Longrightarrow> rooted blocks b"

lemma rooted_below:
  "rooted blocks b \<Longrightarrow> \<exists>e \<in> set blocks. is_entry blocks e \<and> b_id b \<in> set (walkDeleted blocks (b_id e))"
proof (induction rule: rooted.induct)
  case (rooted_entry b)
  then show ?case by (auto simp: walkDeleted_set)
next
  case (rooted_child parent b)
  have "(b_id parent, b_id b) \<in> below blocks"
    using rooted_child by (auto simp: below_def deleted_kids_def deletedChildren_def)
  with rooted_child.IH show ?case by (auto simp: walkDeleted_set intro: rtrancl_into_rtrancl)
qed

text \<open>
  Every deletion is offered for restore, unless tombstones form a cycle: when the chain
  of tombstoned parents above a deleted block ends, an entry of the trash brings the block
  back with it.
\<close>

theorem rooted_deletions_are_listed:
  assumes "rooted blocks b"
  shows "\<exists>e \<in> set (listTrashEntries lc blocks). b_id b \<in> set (walkDeleted blocks (b_id (te_block e)))"
  using rooted_below [OF assms] by (force simp: listTrashEntries_def)

definition demo_deleted :: "string \<Rightarrow> string option \<Rightarrow> (unit, unit) NoteBlock" where
  "demo_deleted i parent = (demo_child i parent)\<lparr>b_deletedAt := Some (demo_stamp 5 ''x'')\<rparr>"

theorem rooted_deletions_are_listed_witness:
  "\<exists>e \<in> set (listTrashEntries (\<lambda>_ _. 0) [demo_deleted ''p'' None, demo_deleted ''q'' (Some ''p'')]).
      b_id (demo_deleted ''q'' (Some ''p'')) \<in> set (walkDeleted [demo_deleted ''p'' None, demo_deleted ''q'' (Some ''p'')]
         (b_id (te_block e)))"
proof -
  let ?bs = "[demo_deleted ''p'' None, demo_deleted ''q'' (Some ''p'')]"
  have "rooted ?bs (demo_deleted ''p'' None)"
    by (rule rooted_entry) (simp_all add: is_entry_def demo_deleted_def demo_child_def demo_block_def
        demo_value_def isLiveBlock_def)
  then have "rooted ?bs (demo_deleted ''q'' (Some ''p''))"
    by (rule rooted_child) (simp_all add: demo_deleted_def demo_child_def demo_block_def demo_value_def isLiveBlock_def)
  then show ?thesis by (rule rooted_deletions_are_listed)
qed

text \<open>
  Tombstones in a cycle are lost: each of two deleted blocks that claim each other as
  parent counts as swept up with the other, so the trash lists neither.
\<close>

theorem cyclic_deletions_are_never_listed:
  "listTrashEntries lc [demo_deleted ''p'' (Some ''q''), demo_deleted ''q'' (Some ''p'')] = []"
  by (simp add: listTrashEntries_def is_entry_def by_id_def demo_deleted_def demo_child_def demo_block_def
      demo_value_def isLiveBlock_def)

end
