(* ===== verification/ChunkLedger.thy ===== *)
theory ChunkLedger
  imports Prelude "HOL-Library.Sublist"
begin

text \<open>
  The shapes of a meeting capture, \<open>packages/core/src/meetings/types.ts\<close>, and the ledger of
  durability chunks with the rule that seals them into transcription units,
  \<open>packages/core/src/meetings/chunkLedger.ts\<close>. Stored sizes and times are integers (the
  code rounds before it stores); what a caller passes in is a \<open>jsnum\<close>. A thrown
  \<open>Error\<close> is \<open>Inl\<close> its message.
\<close>

datatype MeetingCaptureStatus = recording | stopped | finalized | discarded

datatype MeetingSegmentState = seg_pending | seg_transcribing | seg_done | seg_failed

datatype MeetingCaptureTemplate = general | standup | one_on_one | retrospective

record MeetingCaptureScope =
  sc_orgId :: "string option"
  sc_workspaceId :: "string option"

record MeetingChunk =
  ck_sequence :: nat
  ck_byteLength :: int
  ck_startMs :: int
  ck_endMs :: int

record MeetingSegment =
  sg_index :: nat
  sg_byteLength :: int
  sg_startMs :: int
  sg_endMs :: int
  sg_chunks :: "nat list option"
  sg_state :: MeetingSegmentState
  sg_text :: "string option"
  sg_failureReason :: "string option"
  sg_attempts :: nat
  sg_deferrals :: "nat option"
  sg_lastAttemptAt :: "string option"

record MeetingCaptureSession =
  cs_id :: string
  cs_startedAt :: string
  cs_scope :: MeetingCaptureScope
  cs_title :: string
  cs_template :: MeetingCaptureTemplate
  cs_language :: "string option"
  cs_status :: MeetingCaptureStatus
  cs_segments :: "MeetingSegment list"
  cs_chunks :: "MeetingChunk list option"
  cs_stoppedAt :: "string option"
  cs_closedAt :: "string option"

definition DEFAULT_MEETING_CHUNK_MS :: int where
  "DEFAULT_MEETING_CHUNK_MS = 3000"

definition DEFAULT_MEETING_UNIT_MS :: int where
  "DEFAULT_MEETING_UNIT_MS = 20000"

record MeetingUnitPolicy =
  up_targetMs :: int
  up_maxMs :: int
  up_maxBytes :: int

definition DEFAULT_MEETING_UNIT_POLICY :: MeetingUnitPolicy where
  "DEFAULT_MEETING_UNIT_POLICY =
     \<lparr>up_targetMs = DEFAULT_MEETING_UNIT_MS, up_maxMs = 45000, up_maxBytes = 8 * 1024 * 1024\<rparr>"

definition boundedEndpointUnitPolicy :: "MeetingUnitPolicy \<Rightarrow> MeetingUnitPolicy" where
  "boundedEndpointUnitPolicy policy = policy\<lparr>up_targetMs := up_maxMs policy\<rparr>"

definition BOUNDED_ENDPOINT_UNIT_POLICY :: MeetingUnitPolicy where
  "BOUNDED_ENDPOINT_UNIT_POLICY = boundedEndpointUnitPolicy DEFAULT_MEETING_UNIT_POLICY"

definition unitChunkSequences :: "MeetingSegment \<Rightarrow> nat list" where
  "unitChunkSequences segment = (case sg_chunks segment of Some cs \<Rightarrow> cs | None \<Rightarrow> [sg_index segment])"

definition captureChunks :: "MeetingCaptureSession \<Rightarrow> MeetingChunk list" where
  "captureChunks session =
     (case cs_chunks session of
        Some cs \<Rightarrow> cs
      | None \<Rightarrow>
          map (\<lambda>segment. \<lparr>ck_sequence = sg_index segment, ck_byteLength = sg_byteLength segment,
                 ck_startMs = sg_startMs segment, ck_endMs = sg_endMs segment\<rparr>) (cs_segments session))"

definition claimedChunkCount :: "MeetingCaptureSession \<Rightarrow> nat" where
  "claimedChunkCount session =
     fold (\<lambda>segment claimed.
         fold (\<lambda>sequence claimed. if sequence + 1 > claimed then sequence + 1 else claimed)
           (unitChunkSequences segment) claimed)
       (cs_segments session) 0"

definition openChunks :: "MeetingCaptureSession \<Rightarrow> MeetingChunk list" where
  "openChunks session =
     (let claimed = claimedChunkCount session
      in filter (\<lambda>chunk. ck_sequence chunk \<ge> claimed) (captureChunks session))"

definition nextChunkSequence :: "MeetingCaptureSession \<Rightarrow> nat" where
  "nextChunkSequence session =
     (let chunks = captureChunks session in if chunks = [] then 0 else ck_sequence (last chunks) + 1)"

definition capturedChunkByteLength :: "MeetingCaptureSession \<Rightarrow> int" where
  "capturedChunkByteLength session = foldl (\<lambda>total chunk. total + ck_byteLength chunk) 0 (captureChunks session)"

definition capturedElapsedMs :: "MeetingCaptureSession \<Rightarrow> int" where
  "capturedElapsedMs session =
     (let chunks = captureChunks session in if chunks = [] then 0 else ck_endMs (last chunks))"

definition openChunkSpanMs :: "MeetingCaptureSession \<Rightarrow> int" where
  "openChunkSpanMs session =
     (let run = openChunks session
      in if run = [] then 0 else ck_endMs (last run) - ck_startMs (hd run))"

definition openChunkByteLength :: "MeetingCaptureSession \<Rightarrow> int" where
  "openChunkByteLength session = foldl (\<lambda>total chunk. total + ck_byteLength chunk) 0 (openChunks session)"

definition shouldSealUnit :: "MeetingCaptureSession \<Rightarrow> MeetingUnitPolicy \<Rightarrow> bool" where
  "shouldSealUnit session policy =
     (let run = openChunks session
      in if run = [] then False
         else
           let spanMs = ck_endMs (last run) - ck_startMs (hd run)
           in if spanMs \<ge> up_targetMs policy \<or> spanMs \<ge> up_maxMs policy then True
              else foldl (\<lambda>total chunk. total + ck_byteLength chunk) 0 run \<ge> up_maxBytes policy)"

record AppendChunkInput =
  ac_byteLength :: jsnum
  ac_durationMs :: jsnum
  ac_startMs :: "jsnum option"

definition appendChunkToLedger ::
  "MeetingCaptureSession \<Rightarrow> AppendChunkInput \<Rightarrow> string + MeetingCaptureSession"
where
  "appendChunkToLedger session input =
     (let chunks = captureChunks session;
          previousEnd = (if chunks \<noteq> [] then ck_endMs (last chunks) else 0);
          requestedStart = (case ac_startMs input of None \<Rightarrow> Fin (of_int previousEnd) | Some s \<Rightarrow> s)
      in case ac_byteLength input of
           NonFinite \<Rightarrow> Inl ''A meeting chunk must carry at least one byte of audio.''
         | Fin b \<Rightarrow>
             let byteLength = js_round b
             in if byteLength \<le> 0 then Inl ''A meeting chunk must carry at least one byte of audio.''
                else
                  (case ac_durationMs input of
                     NonFinite \<Rightarrow> Inl ''A meeting chunk must cover a positive duration.''
                   | Fin d \<Rightarrow>
                       if d \<le> 0 then Inl ''A meeting chunk must cover a positive duration.''
                       else
                         (case requestedStart of
                            NonFinite \<Rightarrow> Inl ''A meeting chunk cannot start before the previous chunk ended.''
                          | Fin s \<Rightarrow>
                              if s < of_int previousEnd then
                                Inl ''A meeting chunk cannot start before the previous chunk ended.''
                              else
                                let startMs = js_round s;
                                    endMs = js_round (s + d)
                                in if endMs \<le> startMs then
                                     Inl ''A meeting chunk must cover a positive duration.''
                                   else
                                     Inr (session\<lparr>cs_chunks := Some (chunks @
                                       [\<lparr>ck_sequence = nextChunkSequence session, ck_byteLength = byteLength,
                                         ck_startMs = startMs, ck_endMs = endMs\<rparr>])\<rparr>))))"

record SealUnitsInput =
  su_throughSequence :: "int option"
  su_policy :: "MeetingUnitPolicy option"
  su_keepRemainder :: bool

definition toUnit :: "nat \<Rightarrow> MeetingChunk list \<Rightarrow> MeetingSegment" where
  "toUnit index run =
     \<lparr>sg_index = index,
      sg_byteLength = foldl (\<lambda>total chunk. total + ck_byteLength chunk) 0 run,
      sg_startMs = ck_startMs (hd run),
      sg_endMs = ck_endMs (last run),
      sg_chunks = Some (map ck_sequence run),
      sg_state = seg_pending, sg_text = None, sg_failureReason = None,
      sg_attempts = 0, sg_deferrals = None, sg_lastAttemptAt = None\<rparr>"

text \<open>The loop of \<open>cutRuns\<close>: the run being assembled and its bytes.\<close>

fun cut_runs ::
  "MeetingUnitPolicy \<Rightarrow> bool \<Rightarrow> MeetingChunk list \<Rightarrow> MeetingChunk list \<Rightarrow> int \<Rightarrow> MeetingChunk list list"
where
  "cut_runs policy keepRemainder [] current bytes =
     (if current \<noteq> [] \<and> \<not> keepRemainder then [current] else [])"
| "cut_runs policy keepRemainder (chunk # rest) current bytes =
     (let spanWithChunk = (if current \<noteq> [] then ck_endMs chunk - ck_startMs (hd current)
                           else ck_endMs chunk - ck_startMs chunk);
          bytesWithChunk = bytes + ck_byteLength chunk;
          breach = (current \<noteq> [] \<and> (bytesWithChunk > up_maxBytes policy \<or> spanWithChunk > up_maxMs policy));
          runs = (if breach then [current] else []);
          current' = (if breach then [chunk] else current @ [chunk]);
          bytes' = (if breach then ck_byteLength chunk else bytesWithChunk);
          span = ck_endMs chunk - ck_startMs (hd current')
      in if span \<ge> up_targetMs policy \<or> bytes' \<ge> up_maxBytes policy
         then runs @ [current'] @ cut_runs policy keepRemainder rest [] 0
         else runs @ cut_runs policy keepRemainder rest current' bytes')"

definition cutRuns :: "MeetingChunk list \<Rightarrow> MeetingUnitPolicy \<Rightarrow> bool \<Rightarrow> MeetingChunk list list" where
  "cutRuns run policy keepRemainder = cut_runs policy keepRemainder run [] 0"

definition sealUnitsFromLedger :: "MeetingCaptureSession \<Rightarrow> SealUnitsInput \<Rightarrow> MeetingCaptureSession" where
  "sealUnitsFromLedger session input =
     (let run = (case su_throughSequence input of
                   None \<Rightarrow> openChunks session
                 | Some limit \<Rightarrow> filter (\<lambda>chunk. int (ck_sequence chunk) \<le> limit) (openChunks session))
      in if run = [] then session
         else
           let policy = (case su_policy input of None \<Rightarrow> BOUNDED_ENDPOINT_UNIT_POLICY | Some p \<Rightarrow> p);
               runs = cutRuns run policy (su_keepRemainder input \<and> su_throughSequence input = None)
           in if runs = [] then session
              else session\<lparr>cs_segments :=
                fold (\<lambda>r segments. segments @ [toUnit (length segments) r]) runs (cs_segments session)\<rparr>)"

section \<open>Cutting runs\<close>

text \<open>
  No chunk is lost or read twice: the runs, in order, are the open run; a live recorder's
  remainder stays open.
\<close>

lemma cut_runs_concat: "concat (cut_runs policy False xs cur n) = cur @ xs"
  by (induction xs arbitrary: cur n) (auto simp: Let_def)

lemma cut_runs_prefix: "prefix (concat (cut_runs policy keep xs cur n)) (cur @ xs)"
proof (induction xs arbitrary: cur n)
  case Nil
  then show ?case by simp
next
  case (Cons c xs)
  have "prefix (concat (cut_runs policy keep xs [c] m)) (c # xs)" for m
    using Cons [of "[c]" m] by simp
  moreover have "prefix (concat (cut_runs policy keep xs (cur @ [c]) m)) (cur @ c # xs)" for m
    using Cons [of "cur @ [c]" m] by simp
  moreover have "prefix (concat (cut_runs policy keep xs [] 0)) xs" using Cons [of "[]" 0] by simp
  ultimately show ?case by (auto simp: Let_def)
qed

lemma cut_runs_nonempty: "r \<in> set (cut_runs policy keep xs cur n) \<Longrightarrow> r \<noteq> []"
  by (induction xs arbitrary: cur n) (auto simp: Let_def split: if_splits)

abbreviation bytes_of :: "MeetingChunk list \<Rightarrow> int" where
  "bytes_of run \<equiv> sum_list (map ck_byteLength run)"

lemma foldl_bytes [simp]: "foldl (\<lambda>total chunk. total + ck_byteLength chunk) n run = n + bytes_of run"
  by (induction run arbitrary: n) auto

definition within_ceilings :: "MeetingUnitPolicy \<Rightarrow> MeetingChunk list \<Rightarrow> bool" where
  "within_ceilings policy run \<longleftrightarrow>
     length run \<le> 1
     \<or> bytes_of run \<le> up_maxBytes policy \<and> ck_endMs (last run) - ck_startMs (hd run) \<le> up_maxMs policy"

lemma within_single [simp]: "within_ceilings policy []" "within_ceilings policy [c]"
  by (simp_all add: within_ceilings_def)

lemma within_snoc:
  "cur \<noteq> [] \<Longrightarrow> bytes_of cur + ck_byteLength c \<le> up_maxBytes policy \<Longrightarrow>
   ck_endMs c - ck_startMs (hd cur) \<le> up_maxMs policy \<Longrightarrow> within_ceilings policy (cur @ [c])"
  by (simp add: within_ceilings_def)

lemma cut_runs_ceilings:
  assumes "bytes_of cur = n" "within_ceilings policy cur" "r \<in> set (cut_runs policy keep xs cur n)"
  shows "within_ceilings policy r"
  using assms
proof (induction xs arbitrary: cur n)
  case Nil
  then show ?case by (simp split: if_splits)
next
  case (Cons c xs)
  let ?breach = "cur \<noteq> [] \<and> (n + ck_byteLength c > up_maxBytes policy
      \<or> ck_endMs c - ck_startMs (hd cur) > up_maxMs policy)"
  define cur' where "cur' = (if ?breach then [c] else cur @ [c])"
  define n' where "n' = (if ?breach then ck_byteLength c else n + ck_byteLength c)"
  have b: "bytes_of cur' = n'" using Cons.prems(1) by (auto simp: cur'_def n'_def)
  have w: "within_ceilings policy cur'"
    using Cons.prems(1) by (cases "cur = []") (auto simp: cur'_def intro: within_snoc)
  have "r \<in> {cur, cur'} \<union> set (cut_runs policy keep xs [] 0) \<union> set (cut_runs policy keep xs cur' n')"
    using Cons.prems(3) unfolding cut_runs.simps(2) Let_def cur'_def n'_def
    by (auto split: if_splits)
  then show ?case using w Cons.prems(2) Cons.IH [of "[]" 0] Cons.IH [OF b w] by auto
qed

lemma cutRuns_concat: "concat (cutRuns run policy False) = run"
  by (simp add: cutRuns_def cut_runs_concat)

lemma cutRuns_prefix: "prefix (concat (cutRuns run policy keep)) run"
  using cut_runs_prefix [of policy keep run "[]" 0] by (simp add: cutRuns_def)

lemma cutRuns_nonempty: "r \<in> set (cutRuns run policy keep) \<Longrightarrow> r \<noteq> []"
  unfolding cutRuns_def by (rule cut_runs_nonempty)

lemma cutRuns_ceilings: "r \<in> set (cutRuns run policy keep) \<Longrightarrow> within_ceilings policy r"
  unfolding cutRuns_def by (rule cut_runs_ceilings [of "[]" 0]) simp_all

end
