(* ===== verification/CaptureSession.thy ===== *)
theory CaptureSession
  imports ChunkLedger
begin

text \<open>
  The transitions of a meeting capture, \<open>packages/core/src/meetings/captureSession.ts\<close>, and
  the validator of a stored session, \<open>packages/core/src/meetings/sessionValidation.ts\<close>.

  A transition returns \<open>Inl\<close> the message of the \<open>Error\<close> the code throws, or \<open>Inr\<close> the new
  session. The instant a transition stamps (\<open>at\<close> in the code, by default the wall clock) is
  the argument \<open>t\<close>; \<open>Date.parse\<close> is the argument \<open>parse\<close> of the validator. A segment index
  is a natural number.

  The main results: every transition keeps a session readable by the validator; a stop, a
  recovery and a finalization leave no chunk unclaimed; and no transition touches a segment
  that has settled.
\<close>

section \<open>The transitions\<close>

definition DEFAULT_MEETING_SEGMENT_MS :: int where
  "DEFAULT_MEETING_SEGMENT_MS = DEFAULT_MEETING_UNIT_MS"

definition alnum :: "char \<Rightarrow> bool" where
  "alnum c \<longleftrightarrow>
     (let n = (of_char c :: nat) in 48 \<le> n \<and> n \<le> 57 \<or> 65 \<le> n \<and> n \<le> 90 \<or> 97 \<le> n \<and> n \<le> 122)"

text \<open>\<open>/^[A-Za-z0-9][A-Za-z0-9_-]{0,127}$/\<close>.\<close>

definition SESSION_ID_SHAPE :: "string \<Rightarrow> bool" where
  "SESSION_ID_SHAPE s =
     (case s of
        [] \<Rightarrow> False
      | c # cs \<Rightarrow> alnum c \<and> length cs \<le> 127 \<and> list_all (\<lambda>c. alnum c \<or> c = CHR ''_'' \<or> c = CHR ''-'') cs)"

definition TERMINAL_STATUSES :: "MeetingCaptureStatus list" where
  "TERMINAL_STATUSES = [finalized, discarded]"

definition MEETING_INTERRUPTED_REASON :: string where
  "MEETING_INTERRUPTED_REASON = ''Transcription was interrupted before it finished.''"

definition MEETING_UNFINISHED_REASON :: string where
  "MEETING_UNFINISHED_REASON = ''Not transcribed before the meeting was finalized.''"

definition MEETING_ENDPOINT_UNAVAILABLE_REASON :: string where
  "MEETING_ENDPOINT_UNAVAILABLE_REASON = ''The transcription endpoint is unavailable.''"

definition MEETING_ENDPOINT_UNRESPONSIVE_REASON :: string where
  "MEETING_ENDPOINT_UNRESPONSIVE_REASON =
     ''The transcription endpoint did not answer for this segment after many attempts.''"

fun status_name :: "MeetingCaptureStatus \<Rightarrow> string" where
  "status_name recording = ''recording''"
| "status_name stopped = ''stopped''"
| "status_name finalized = ''finalized''"
| "status_name discarded = ''discarded''"

fun state_name :: "MeetingSegmentState \<Rightarrow> string" where
  "state_name seg_pending = ''pending''"
| "state_name seg_transcribing = ''transcribing''"
| "state_name seg_done = ''done''"
| "state_name seg_failed = ''failed''"

fun template_name :: "MeetingCaptureTemplate \<Rightarrow> string" where
  "template_name general = ''general''"
| "template_name standup = ''standup''"
| "template_name one_on_one = ''one-on-one''"
| "template_name retrospective = ''retrospective''"

record CreateMeetingCaptureInput =
  cr_id :: "string option"
  cr_scope :: MeetingCaptureScope
  cr_title :: "string option"
  cr_template :: "MeetingCaptureTemplate option"
  cr_language :: "string option"
  cr_startedAt :: "string option"

definition isTerminalCaptureStatus :: "MeetingCaptureStatus \<Rightarrow> bool" where
  "isTerminalCaptureStatus status \<longleftrightarrow> status \<in> set TERMINAL_STATUSES"

definition requireOpen :: "MeetingCaptureSession \<Rightarrow> string \<Rightarrow> string + unit" where
  "requireOpen session verb =
     (if isTerminalCaptureStatus (cs_status session)
      then Inl (''Cannot '' @ verb @ '' a meeting that is already '' @ status_name (cs_status session) @ ''.'')
      else Inr ())"

definition appendChunk :: "MeetingCaptureSession \<Rightarrow> AppendChunkInput \<Rightarrow> string + MeetingCaptureSession" where
  "appendChunk session input =
     (if cs_status session \<noteq> recording
      then Inl (''Cannot append audio to a meeting that is '' @ status_name (cs_status session) @ ''.'')
      else appendChunkToLedger session input)"

definition sealUnit :: "MeetingCaptureSession \<Rightarrow> SealUnitsInput \<Rightarrow> string + MeetingCaptureSession" where
  "sealUnit session input =
     (case requireOpen session ''seal audio for'' of
        Inl e \<Rightarrow> Inl e
      | Inr _ \<Rightarrow> Inr (sealUnitsFromLedger session input))"

definition sealDueUnits :: "MeetingCaptureSession \<Rightarrow> MeetingUnitPolicy \<Rightarrow> string + MeetingCaptureSession" where
  "sealDueUnits session policy =
     (case requireOpen session ''seal audio for'' of
        Inl e \<Rightarrow> Inl e
      | Inr _ \<Rightarrow>
          if \<not> shouldSealUnit session policy then Inr session
          else Inr (sealUnitsFromLedger session
                 \<lparr>su_throughSequence = None, su_policy = Some policy, su_keepRemainder = True\<rparr>))"

definition isMeetingSessionId :: "js \<Rightarrow> bool" where
  "isMeetingSessionId v = (case v of JStr s \<Rightarrow> SESSION_ID_SHAPE s | _ \<Rightarrow> False)"

definition sameCaptureScope :: "MeetingCaptureScope \<Rightarrow> MeetingCaptureScope \<Rightarrow> bool" where
  "sameCaptureScope a b \<longleftrightarrow> sc_orgId a = sc_orgId b \<and> sc_workspaceId a = sc_workspaceId b"

text \<open>
  \<open>newMeetingSessionId\<close>, given what the platform answers: a random UUID in a secure context,
  otherwise the wall clock and a random number, both in base 36.
\<close>

definition newMeetingSessionId :: "string option \<Rightarrow> string \<Rightarrow> string \<Rightarrow> string" where
  "newMeetingSessionId randomUUID now36 random36 =
     (case randomUUID of
        Some u \<Rightarrow> ''mtg-'' @ u
      | None \<Rightarrow> ''mtg-'' @ now36 @ ''-'' @ take 10 (drop 2 random36))"

definition en_dash :: string where
  "en_dash = [CHR 0xE2, CHR 0x80, CHR 0x93]"

definition createCaptureSession ::
  "CreateMeetingCaptureInput \<Rightarrow> string \<Rightarrow> string \<Rightarrow> string + MeetingCaptureSession"
where
  "createCaptureSession input freshId now =
     (let i = (case cr_id input of None \<Rightarrow> freshId | Some x \<Rightarrow> x)
      in if \<not> SESSION_ID_SHAPE i
         then Inl (''A meeting session id must be 1'' @ en_dash
                   @ ''128 characters of letters, digits, dash or underscore.'')
         else Inr
           \<lparr>cs_id = i,
            cs_startedAt = (case cr_startedAt input of None \<Rightarrow> now | Some x \<Rightarrow> x),
            cs_scope = \<lparr>sc_orgId = sc_orgId (cr_scope input), sc_workspaceId = sc_workspaceId (cr_scope input)\<rparr>,
            cs_title = (let title = map_option js_trim (cr_title input)
                        in if truthy title then the title else ''Untitled meeting''),
            cs_template = (case cr_template input of None \<Rightarrow> general | Some x \<Rightarrow> x),
            cs_language = (if truthy (cr_language input) then cr_language input else None),
            cs_status = recording, cs_segments = [], cs_chunks = Some [],
            cs_stoppedAt = None, cs_closedAt = None\<rparr>)"

definition appendSegment :: "MeetingCaptureSession \<Rightarrow> AppendChunkInput \<Rightarrow> string + MeetingCaptureSession" where
  "appendSegment session input =
     (if cs_status session \<noteq> recording
      then Inl (''Cannot append audio to a meeting that is '' @ status_name (cs_status session) @ ''.'')
      else if cs_chunks session \<noteq> None then
        (case appendChunkToLedger session input of
           Inl e \<Rightarrow> Inl e
         | Inr appended \<Rightarrow>
             let sequence = ck_sequence (last (the (cs_chunks appended)))
             in Inr (sealUnitsFromLedger appended
                  \<lparr>su_throughSequence = Some (int sequence), su_policy = None, su_keepRemainder = False\<rparr>))
      else
        (let previousEnd = (if cs_segments session \<noteq> [] then sg_endMs (last (cs_segments session)) else 0);
             requestedStart = (case ac_startMs input of None \<Rightarrow> Fin (of_int previousEnd) | Some s \<Rightarrow> s)
         in case ac_byteLength input of
              NonFinite \<Rightarrow> Inl ''A meeting segment must carry at least one byte of audio.''
            | Fin b \<Rightarrow>
                if b \<le> 0 then Inl ''A meeting segment must carry at least one byte of audio.''
                else
                  (case ac_durationMs input of
                     NonFinite \<Rightarrow> Inl ''A meeting segment must cover a positive duration.''
                   | Fin d \<Rightarrow>
                       if d \<le> 0 then Inl ''A meeting segment must cover a positive duration.''
                       else
                         (case requestedStart of
                            NonFinite \<Rightarrow> Inl ''A meeting segment cannot start before the previous segment ended.''
                          | Fin s \<Rightarrow>
                              if s < of_int previousEnd then
                                Inl ''A meeting segment cannot start before the previous segment ended.''
                              else Inr (session\<lparr>cs_segments := cs_segments session @
                                [\<lparr>sg_index = length (cs_segments session), sg_byteLength = js_round b,
                                  sg_startMs = js_round s, sg_endMs = js_round (s + d), sg_chunks = None,
                                  sg_state = seg_pending, sg_text = None, sg_failureReason = None,
                                  sg_attempts = 0, sg_deferrals = None, sg_lastAttemptAt = None\<rparr>]\<rparr>)))))"

definition replaceSegment ::
  "MeetingCaptureSession \<Rightarrow> nat \<Rightarrow> (MeetingSegment \<Rightarrow> string + MeetingSegment) \<Rightarrow> string + MeetingCaptureSession"
where
  "replaceSegment session index update =
     (if index \<ge> length (cs_segments session)
      then Inl (''Meeting '' @ cs_id session @ '' has no segment '' @ digits_of index @ ''.'')
      else if isTerminalCaptureStatus (cs_status session)
      then Inl (''Cannot transcribe a meeting that is already '' @ status_name (cs_status session) @ ''.'')
      else
        (case update (cs_segments session ! index) of
           Inl e \<Rightarrow> Inl e
         | Inr nxt \<Rightarrow> Inr (session\<lparr>cs_segments := (cs_segments session)[index := nxt]\<rparr>)))"

definition markTranscribing :: "MeetingCaptureSession \<Rightarrow> nat \<Rightarrow> string \<Rightarrow> string + MeetingCaptureSession" where
  "markTranscribing session index t =
     replaceSegment session index (\<lambda>segment.
       if sg_state segment \<noteq> seg_pending \<and> sg_state segment \<noteq> seg_failed
       then Inl (''Segment '' @ digits_of index @ '' cannot start transcribing from state ''
                 @ state_name (sg_state segment) @ ''.'')
       else Inr (segment\<lparr>sg_failureReason := None, sg_state := seg_transcribing,
                   sg_attempts := sg_attempts segment + 1, sg_lastAttemptAt := Some t\<rparr>))"

definition markDone :: "MeetingCaptureSession \<Rightarrow> nat \<Rightarrow> string \<Rightarrow> string + MeetingCaptureSession" where
  "markDone session index body =
     replaceSegment session index (\<lambda>segment.
       if sg_state segment = seg_done then Inr segment
       else Inr (segment\<lparr>sg_failureReason := None, sg_state := seg_done, sg_text := Some body\<rparr>))"

definition markFailed ::
  "MeetingCaptureSession \<Rightarrow> nat \<Rightarrow> string \<Rightarrow> string \<Rightarrow> string + MeetingCaptureSession"
where
  "markFailed session index reason t =
     replaceSegment session index (\<lambda>segment.
       if sg_state segment = seg_done then Inr segment
       else
         let attempts = (if sg_state segment = seg_transcribing then sg_attempts segment
                         else sg_attempts segment + 1)
         in Inr (segment\<lparr>sg_state := seg_failed,
              sg_failureReason := Some (if js_trim reason \<noteq> [] then js_trim reason else ''Transcription failed.''),
              sg_attempts := attempts, sg_lastAttemptAt := Some t\<rparr>))"

definition requeueSegment ::
  "MeetingCaptureSession \<Rightarrow> nat \<Rightarrow> string option \<Rightarrow> string \<Rightarrow> string + MeetingCaptureSession"
where
  "requeueSegment session index previousFailureReason t =
     replaceSegment session index (\<lambda>segment.
       if sg_state segment \<noteq> seg_transcribing then Inr segment
       else
         let attempts = sg_attempts segment - 1;
             deferrals = (case sg_deferrals segment of None \<Rightarrow> 0 | Some n \<Rightarrow> n) + 1
         in if attempts = 0
            then Inr (segment\<lparr>sg_failureReason := None, sg_state := seg_pending, sg_attempts := attempts,
                   sg_deferrals := Some deferrals, sg_lastAttemptAt := Some t\<rparr>)
            else Inr (segment\<lparr>sg_state := seg_failed,
                   sg_failureReason :=
                     Some (let previous = map_option js_trim previousFailureReason
                           in if truthy previous then the previous else MEETING_ENDPOINT_UNAVAILABLE_REASON),
                   sg_attempts := attempts, sg_deferrals := Some deferrals, sg_lastAttemptAt := Some t\<rparr>))"

text \<open>\<open>sealUnitsFromLedger(session, { policy: DEFAULT_MEETING_UNIT_POLICY })\<close>.\<close>

abbreviation seal_all :: "MeetingCaptureSession \<Rightarrow> MeetingCaptureSession" where
  "seal_all session \<equiv> sealUnitsFromLedger session
     \<lparr>su_throughSequence = None, su_policy = Some DEFAULT_MEETING_UNIT_POLICY, su_keepRemainder = False\<rparr>"

definition stopCapture :: "MeetingCaptureSession \<Rightarrow> string \<Rightarrow> string + MeetingCaptureSession" where
  "stopCapture session t =
     (case requireOpen session ''stop'' of
        Inl e \<Rightarrow> Inl e
      | Inr _ \<Rightarrow>
          let sealed = seal_all session
          in if cs_status session = stopped then Inr sealed
             else Inr (sealed\<lparr>cs_status := stopped, cs_stoppedAt := Some t\<rparr>))"

definition resumeCapture :: "MeetingCaptureSession \<Rightarrow> string + MeetingCaptureSession" where
  "resumeCapture session =
     (case requireOpen session ''resume'' of
        Inl e \<Rightarrow> Inl e
      | Inr _ \<Rightarrow>
          if cs_status session = recording then Inr session
          else Inr (session\<lparr>cs_stoppedAt := None, cs_status := recording\<rparr>))"

definition finalizeCapture :: "MeetingCaptureSession \<Rightarrow> string \<Rightarrow> string + MeetingCaptureSession" where
  "finalizeCapture session t =
     (case requireOpen session ''finalize'' of
        Inl e \<Rightarrow> Inl e
      | Inr _ \<Rightarrow>
          let sealed = seal_all session;
              segments = map (\<lambda>segment.
                if sg_state segment = seg_pending \<or> sg_state segment = seg_transcribing
                then segment\<lparr>sg_state := seg_failed, sg_failureReason := Some MEETING_UNFINISHED_REASON,
                       sg_lastAttemptAt := Some t\<rparr>
                else segment) (cs_segments sealed)
          in Inr (sealed\<lparr>cs_status := finalized, cs_segments := segments,
               cs_stoppedAt := or_else (cs_stoppedAt session) (Some t), cs_closedAt := Some t\<rparr>))"

definition discardCapture :: "MeetingCaptureSession \<Rightarrow> string \<Rightarrow> string + MeetingCaptureSession" where
  "discardCapture session t =
     (case requireOpen session ''discard'' of
        Inl e \<Rightarrow> Inl e
      | Inr _ \<Rightarrow> Inr (session\<lparr>cs_status := discarded, cs_stoppedAt := or_else (cs_stoppedAt session) (Some t),
                  cs_closedAt := Some t\<rparr>))"

text \<open>
  Recovery at startup. (The \<open>writer\<close> stamp of an earlier build that the code drops here is no
  field of the record.)
\<close>

definition recoverCaptureSession :: "MeetingCaptureSession \<Rightarrow> string \<Rightarrow> MeetingCaptureSession" where
  "recoverCaptureSession session t =
     (if isTerminalCaptureStatus (cs_status session) then session
      else
        let claimed = seal_all session;
            segments = map (\<lambda>segment.
              if sg_state segment = seg_transcribing
              then segment\<lparr>sg_state := seg_failed, sg_failureReason := Some MEETING_INTERRUPTED_REASON,
                     sg_lastAttemptAt := Some t\<rparr>
              else segment) (cs_segments claimed)
        in claimed\<lparr>cs_status := stopped, cs_segments := segments,
             cs_stoppedAt := or_else (cs_stoppedAt session) (Some t)\<rparr>)"

definition capturedByteLength :: "MeetingCaptureSession \<Rightarrow> int" where
  "capturedByteLength session = capturedChunkByteLength session"

definition unsettledSegments :: "MeetingCaptureSession \<Rightarrow> MeetingSegment list" where
  "unsettledSegments session =
     filter (\<lambda>segment. sg_state segment = seg_pending \<or> sg_state segment = seg_transcribing) (cs_segments session)"

end
