(* ===== verification/QueuePlan.thy ===== *)
theory QueuePlan
  imports CaptureSession
begin

text \<open>
  When a segment is attempted again, \<open>packages/core/src/meetings/retryPolicy.ts\<close>, and what the
  transcription queue would do with a session at an instant,
  \<open>packages/core/src/meetings/queuePlan.ts\<close>. Instants are milliseconds; \<open>Date.parse\<close> is the
  argument \<open>parse\<close> (a \<open>jsnum\<close>: \<open>NaN\<close> is \<open>NonFinite\<close>), so the remaining wait is a rational.
\<close>

section \<open>The retry policy\<close>

record MeetingRetryPolicy =
  rt_maxAttempts :: int
  rt_baseDelayMs :: rat
  rt_factor :: rat
  rt_maxDelayMs :: int
  rt_maxDeferrals :: int

definition DEFAULT_MEETING_RETRY_POLICY :: MeetingRetryPolicy where
  "DEFAULT_MEETING_RETRY_POLICY =
     \<lparr>rt_maxAttempts = 4, rt_baseDelayMs = 2000, rt_factor = 2, rt_maxDelayMs = 60000, rt_maxDeferrals = 24\<rparr>"

datatype MeetingRetryVerdict = verdict_ready | verdict_waiting | verdict_exhausted | not_retryable

record MeetingRetryDecision =
  rd_verdict :: MeetingRetryVerdict
  rd_attempts :: nat
  rd_remainingAttempts :: int
  rd_waitMs :: rat

definition retryDelayMs :: "nat \<Rightarrow> MeetingRetryPolicy \<Rightarrow> int" where
  "retryDelayMs attempts policy =
     (let spent = max 1 attempts;
          raw = rt_baseDelayMs policy * rt_factor policy ^ (spent - 1)
      in min (rt_maxDelayMs policy) (js_round raw))"

definition retryDecision ::
  "(string \<Rightarrow> jsnum) \<Rightarrow> MeetingSegment \<Rightarrow> MeetingRetryPolicy \<Rightarrow> int \<Rightarrow> MeetingRetryDecision"
where
  "retryDecision parse segment policy nowMs =
     (let remainingAttempts = max 0 (rt_maxAttempts policy - int (sg_attempts segment))
      in if sg_state segment \<noteq> seg_failed
         then \<lparr>rd_verdict = not_retryable, rd_attempts = sg_attempts segment,
               rd_remainingAttempts = remainingAttempts, rd_waitMs = 0\<rparr>
         else if remainingAttempts \<le> 0
         then \<lparr>rd_verdict = verdict_exhausted, rd_attempts = sg_attempts segment,
               rd_remainingAttempts = 0, rd_waitMs = 0\<rparr>
         else
           let lastAttemptMs = (if truthy (sg_lastAttemptAt segment) then parse (the (sg_lastAttemptAt segment))
                                else NonFinite)
           in case lastAttemptMs of
                NonFinite \<Rightarrow> \<lparr>rd_verdict = verdict_ready, rd_attempts = sg_attempts segment,
                              rd_remainingAttempts = remainingAttempts, rd_waitMs = 0\<rparr>
              | Fin t \<Rightarrow>
                  let waitMs = max 0 (t + of_int (retryDelayMs (sg_attempts segment) policy) - of_int nowMs)
                  in \<lparr>rd_verdict = (if waitMs > 0 then verdict_waiting else verdict_ready),
                      rd_attempts = sg_attempts segment, rd_remainingAttempts = remainingAttempts,
                      rd_waitMs = waitMs\<rparr>)"

definition deferralsExhausted :: "MeetingSegment \<Rightarrow> MeetingRetryPolicy \<Rightarrow> bool" where
  "deferralsExhausted segment policy \<longleftrightarrow>
     int (case sg_deferrals segment of None \<Rightarrow> 0 | Some n \<Rightarrow> n) \<ge> rt_maxDeferrals policy"

section \<open>The plan\<close>

datatype MeetingQueueDisposition = slot_ready | slot_waiting | slot_in_flight | slot_exhausted | slot_settled

record MeetingQueueSlot =
  sl_index :: nat
  sl_disposition :: MeetingQueueDisposition
  sl_waitMs :: rat
  sl_attempts :: nat

datatype MeetingQueuePhase = phase_working | phase_waiting | phase_idle | phase_closed

record MeetingQueuePlan =
  qp_phase :: MeetingQueuePhase
  qp_slots :: "MeetingQueueSlot list"
  qp_ready :: "nat list"
  qp_waiting :: "nat list"
  qp_inFlight :: "nat list"
  qp_exhausted :: "nat list"
  qp_settled :: "nat list"
  qp_nextWakeMs :: "rat option"

definition toSlot ::
  "(string \<Rightarrow> jsnum) \<Rightarrow> MeetingSegment \<Rightarrow> bool \<Rightarrow> MeetingRetryPolicy \<Rightarrow> int \<Rightarrow> MeetingQueueSlot"
where
  "toSlot parse segment terminal policy nowMs =
     (let slot = (\<lambda>d w. \<lparr>sl_index = sg_index segment, sl_disposition = d, sl_waitMs = w,
                         sl_attempts = sg_attempts segment\<rparr>)
      in if sg_state segment = seg_done then slot slot_settled 0
         else if terminal then slot slot_exhausted 0
         else if sg_state segment = seg_transcribing then slot slot_in_flight 0
         else
           let decision = retryDecision parse segment policy nowMs
           in if sg_state segment = seg_pending
              then slot (if rd_remainingAttempts decision > 0 then slot_ready else slot_exhausted) 0
              else if rd_verdict decision = verdict_waiting then slot slot_waiting (rd_waitMs decision)
              else slot (if rd_verdict decision = verdict_ready then slot_ready else slot_exhausted) 0)"

definition indicesOf :: "MeetingQueueSlot list \<Rightarrow> MeetingQueueDisposition \<Rightarrow> nat list" where
  "indicesOf slots disposition = map sl_index (filter (\<lambda>slot. sl_disposition slot = disposition) slots)"

definition planTranscription ::
  "(string \<Rightarrow> jsnum) \<Rightarrow> MeetingCaptureSession \<Rightarrow> MeetingRetryPolicy \<Rightarrow> int \<Rightarrow> MeetingQueuePlan"
where
  "planTranscription parse session policy nowMs =
     (let terminal = isTerminalCaptureStatus (cs_status session);
          slots = map (\<lambda>segment. toSlot parse segment terminal policy nowMs) (cs_segments session);
          ready = indicesOf slots slot_ready;
          waiting = indicesOf slots slot_waiting;
          inFlight = indicesOf slots slot_in_flight;
          waits = map sl_waitMs (filter (\<lambda>slot. sl_disposition slot = slot_waiting) slots)
      in \<lparr>qp_phase = (if terminal then phase_closed
                     else if ready \<noteq> [] \<or> inFlight \<noteq> [] then phase_working
                     else if waiting \<noteq> [] then phase_waiting
                     else phase_idle),
          qp_slots = slots, qp_ready = ready, qp_waiting = waiting, qp_inFlight = inFlight,
          qp_exhausted = indicesOf slots slot_exhausted, qp_settled = indicesOf slots slot_settled,
          qp_nextWakeMs = (if waits \<noteq> [] then Some (Min (set waits)) else None)\<rparr>)"

definition MEETING_MIN_WAKE_MS :: int where
  "MEETING_MIN_WAKE_MS = 500"

definition drainWakeDelayMs :: "jsnum option \<Rightarrow> int option" where
  "drainWakeDelayMs nextWakeMs =
     (case nextWakeMs of
        None \<Rightarrow> None
      | Some NonFinite \<Rightarrow> Some MEETING_MIN_WAKE_MS
      | Some (Fin w) \<Rightarrow> Some (max MEETING_MIN_WAKE_MS (js_round w)))"

section \<open>Lemmas\<close>

lemma plan_simps [simp]:
  "qp_slots (planTranscription parse s p now)
     = map (\<lambda>g. toSlot parse g (isTerminalCaptureStatus (cs_status s)) p now) (cs_segments s)"
  "qp_ready (planTranscription parse s p now) = indicesOf (qp_slots (planTranscription parse s p now)) slot_ready"
  "qp_waiting (planTranscription parse s p now) = indicesOf (qp_slots (planTranscription parse s p now)) slot_waiting"
  "qp_inFlight (planTranscription parse s p now) = indicesOf (qp_slots (planTranscription parse s p now)) slot_in_flight"
  "qp_exhausted (planTranscription parse s p now) = indicesOf (qp_slots (planTranscription parse s p now)) slot_exhausted"
  "qp_settled (planTranscription parse s p now) = indicesOf (qp_slots (planTranscription parse s p now)) slot_settled"
  by (simp_all add: planTranscription_def Let_def)

lemma plan_phase:
  "qp_phase (planTranscription parse s p now) =
     (if isTerminalCaptureStatus (cs_status s) then phase_closed
      else if indicesOf (qp_slots (planTranscription parse s p now)) slot_ready \<noteq> []
           \<or> indicesOf (qp_slots (planTranscription parse s p now)) slot_in_flight \<noteq> [] then phase_working
      else if indicesOf (qp_slots (planTranscription parse s p now)) slot_waiting \<noteq> [] then phase_waiting
      else phase_idle)"
  unfolding plan_simps(1) by (simp add: planTranscription_def Let_def)

lemma js_round_numeral [simp, js_simps]: "js_round (numeral n) = numeral n"
  using js_round_of_int [of "numeral n"] by simp

lemma toSlot_index [simp]: "sl_index (toSlot parse g terminal p now) = sg_index g"
  by (simp add: toSlot_def Let_def)

lemma retryDelay_bound: "retryDelayMs n p \<le> rt_maxDelayMs p"
  by (simp add: retryDelayMs_def Let_def)

text \<open>The disposition of a segment, case by case.\<close>

definition due_at :: "(string \<Rightarrow> jsnum) \<Rightarrow> MeetingSegment \<Rightarrow> MeetingRetryPolicy \<Rightarrow> rat option" where
  "due_at parse g p =
     (if truthy (sg_lastAttemptAt g)
      then (case parse (the (sg_lastAttemptAt g)) of
              NonFinite \<Rightarrow> None | Fin t \<Rightarrow> Some (t + of_int (retryDelayMs (sg_attempts g) p)))
      else None)"

lemma toSlot_cases:
  "sl_disposition (toSlot parse g terminal p now) =
     (if sg_state g = seg_done then slot_settled
      else if terminal then slot_exhausted
      else if sg_state g = seg_transcribing then slot_in_flight
      else if \<not> int (sg_attempts g) < rt_maxAttempts p then slot_exhausted
      else if sg_state g = seg_failed \<and> (\<exists>t. due_at parse g p = Some t \<and> of_int now < t) then slot_waiting
      else slot_ready)"
  by (cases "sg_state g") (auto simp: toSlot_def retryDecision_def due_at_def Let_def split: jsnum.splits)

lemma toSlot_wait:
  "sl_disposition (toSlot parse g terminal p now) = slot_waiting \<Longrightarrow>
   due_at parse g p = Some (sl_waitMs (toSlot parse g terminal p now) + of_int now)
   \<and> 0 < sl_waitMs (toSlot parse g terminal p now)"
  by (cases "sg_state g")
    (auto simp: toSlot_def retryDecision_def due_at_def Let_def split: jsnum.splits if_splits)

lemma indicesOf_partition:
  "mset (indicesOf slots slot_ready @ indicesOf slots slot_waiting @ indicesOf slots slot_in_flight
     @ indicesOf slots slot_exhausted @ indicesOf slots slot_settled) = mset (map sl_index slots)"
proof (induction slots)
  case (Cons x slots)
  then show ?case by (cases "sl_disposition x") (simp_all add: indicesOf_def)
qed (simp add: indicesOf_def)

lemma indicesOf_sorted: "sorted_wrt (<) (map sl_index slots) \<Longrightarrow> sorted_wrt (<) (indicesOf slots d)"
  unfolding indicesOf_def sorted_wrt_map by (rule sorted_wrt_filter)

lemma nextWake_le:
  assumes "qp_nextWakeMs (planTranscription parse s p now) = Some w" "g \<in> set (cs_segments s)"
    "sl_disposition (toSlot parse g (isTerminalCaptureStatus (cs_status s)) p now) = slot_waiting"
  shows "w \<le> sl_waitMs (toSlot parse g (isTerminalCaptureStatus (cs_status s)) p now)"
  using assms by (auto simp: planTranscription_def Let_def split: if_splits intro!: Min_le)

lemma nextWake_mem:
  assumes "qp_nextWakeMs (planTranscription parse s p now) = Some w"
  obtains g where "g \<in> set (cs_segments s)"
    "sl_disposition (toSlot parse g (isTerminalCaptureStatus (cs_status s)) p now) = slot_waiting"
    "w = sl_waitMs (toSlot parse g (isTerminalCaptureStatus (cs_status s)) p now)"
proof -
  let ?waits = "map sl_waitMs (filter (\<lambda>slot. sl_disposition slot = slot_waiting)
      (qp_slots (planTranscription parse s p now)))"
  have "?waits \<noteq> []" "w = Min (set ?waits)"
    using assms by (auto simp: planTranscription_def Let_def split: if_splits)
  then have "w \<in> set ?waits" using Min_in by (metis List.finite_set set_empty)
  with that show thesis by auto
qed

lemma nextWake_None:
  "qp_nextWakeMs (planTranscription parse s p now) = None \<longleftrightarrow> qp_waiting (planTranscription parse s p now) = []"
  by (simp add: planTranscription_def indicesOf_def Let_def)

lemma in_indices:
  "k \<in> set (indicesOf (qp_slots (planTranscription parse s p now)) d) \<longleftrightarrow>
   (\<exists>g \<in> set (cs_segments s). sg_index g = k
      \<and> sl_disposition (toSlot parse g (isTerminalCaptureStatus (cs_status s)) p now) = d)"
  by (force simp: indicesOf_def image_iff)

lemma dispositions_until_wake:
  assumes "now \<le> now'" and "\<forall>w. qp_nextWakeMs (planTranscription parse s p now) = Some w \<longrightarrow> of_int now' < of_int now + w"
    and "g \<in> set (cs_segments s)"
  shows "sl_disposition (toSlot parse g (isTerminalCaptureStatus (cs_status s)) p now')
       = sl_disposition (toSlot parse g (isTerminalCaptureStatus (cs_status s)) p now)"
proof (cases "sl_disposition (toSlot parse g (isTerminalCaptureStatus (cs_status s)) p now) = slot_waiting")
  case True
  note wait = toSlot_wait [OF True]
  have "sg_index g \<in> set (qp_waiting (planTranscription parse s p now))"
    using assms(3) True by (auto simp only: plan_simps(3) in_indices)
  then obtain w where w: "qp_nextWakeMs (planTranscription parse s p now) = Some w"
    using nextWake_None by (metis empty_iff empty_set not_None_eq)
  have "(of_int now' :: rat) < of_int now + w" using assms(2) w by simp
  also have "\<dots> \<le> of_int now + sl_waitMs (toSlot parse g (isTerminalCaptureStatus (cs_status s)) p now)"
    using nextWake_le [OF w assms(3) True] by simp
  finally show ?thesis using True wait by (auto simp: toSlot_cases split: if_splits)
next
  case False
  have "(of_int now :: rat) \<le> of_int now'" using assms(1) by simp
  with False show ?thesis by (auto simp: toSlot_cases split: if_splits)
qed

section \<open>Properties\<close>

text \<open>
  No segment falls out of the plan: every segment is in exactly one of the five lists, each
  list in capture order; and a finalized or discarded meeting has nothing to attempt, nothing in
  flight and nothing to wait for.
\<close>

theorem plan_places_every_segment_once:
  assumes "map sg_index (cs_segments s) = [0..<length (cs_segments s)]"
    and "plan = planTranscription parse s policy now"
  shows "mset (qp_ready plan @ qp_waiting plan @ qp_inFlight plan @ qp_exhausted plan @ qp_settled plan)
       = mset [0..<length (cs_segments s)]
     \<and> sorted_wrt (<) (qp_ready plan) \<and> sorted_wrt (<) (qp_waiting plan)
     \<and> (isTerminalCaptureStatus (cs_status s) \<longrightarrow> qp_phase plan = phase_closed
          \<and> qp_ready plan = [] \<and> qp_waiting plan = [] \<and> qp_inFlight plan = [] \<and> qp_nextWakeMs plan = None)"
proof -
  have i: "map sl_index (qp_slots plan) = [0..<length (cs_segments s)]"
    using assms by (simp add: comp_def)
  then have "sorted_wrt (<) (map sl_index (qp_slots plan))" by simp
  moreover have "qp_phase plan = phase_closed \<and> qp_ready plan = [] \<and> qp_waiting plan = [] \<and> qp_inFlight plan = []
      \<and> qp_nextWakeMs plan = None" if "isTerminalCaptureStatus (cs_status s)"
    using that unfolding assms(2)
    by (auto simp: indicesOf_def filter_empty_conv toSlot_cases planTranscription_def Let_def)
  ultimately show ?thesis
    using indicesOf_partition [of "qp_slots plan"] indicesOf_sorted i
    unfolding assms(2) plan_simps by metis
qed

definition demo_queue_session :: "MeetingSegment list \<Rightarrow> MeetingCaptureSession" where
  "demo_queue_session ss =
     \<lparr>cs_id = ''m1'', cs_startedAt = ''t0'', cs_scope = \<lparr>sc_orgId = None, sc_workspaceId = None\<rparr>, cs_title = ''Weekly'',
      cs_template = general, cs_language = None, cs_status = stopped, cs_segments = ss,
      cs_chunks = None, cs_stoppedAt = Some ''t1'', cs_closedAt = None\<rparr>"

definition demo_failed :: MeetingSegment where
  "demo_failed =
     \<lparr>sg_index = 0, sg_byteLength = 10, sg_startMs = 0, sg_endMs = 3000, sg_chunks = None, sg_state = seg_failed,
      sg_text = None, sg_failureReason = Some ''down'', sg_attempts = 1, sg_deferrals = None,
      sg_lastAttemptAt = Some ''t0''\<rparr>"

theorem plan_places_every_segment_once_witness:
  "mset (qp_ready (planTranscription (\<lambda>_. Fin 0) (demo_queue_session [demo_failed]) DEFAULT_MEETING_RETRY_POLICY 500)
     @ qp_waiting (planTranscription (\<lambda>_. Fin 0) (demo_queue_session [demo_failed]) DEFAULT_MEETING_RETRY_POLICY 500)
     @ qp_inFlight (planTranscription (\<lambda>_. Fin 0) (demo_queue_session [demo_failed]) DEFAULT_MEETING_RETRY_POLICY 500)
     @ qp_exhausted (planTranscription (\<lambda>_. Fin 0) (demo_queue_session [demo_failed]) DEFAULT_MEETING_RETRY_POLICY 500)
     @ qp_settled (planTranscription (\<lambda>_. Fin 0) (demo_queue_session [demo_failed]) DEFAULT_MEETING_RETRY_POLICY 500))
   = mset [0]"
  using plan_places_every_segment_once [of "demo_queue_session [demo_failed]", OF _ refl,
      of "\<lambda>_. Fin 0" DEFAULT_MEETING_RETRY_POLICY 500]
  by (simp add: demo_queue_session_def demo_failed_def del: plan_simps)

text \<open>
  C37. The plan keeps its word about time: what is ready has attempts left and is never a settled
  segment; until \<open>nextWakeMs\<close> has passed nothing becomes ready by itself; once it has, a waiting
  segment is ready; and no wait is longer than the policy's longest delay when no attempt is
  stamped in the future.
\<close>

theorem plan_wakes_exactly_when_it_says:
  assumes plan: "plan = planTranscription parse s p now" and "now \<le> now'"
  shows "(\<forall>g \<in> set (cs_segments s). sg_index g \<in> set (qp_ready plan) \<longrightarrow> distinct (map sg_index (cs_segments s)) \<longrightarrow>
            int (sg_attempts g) < rt_maxAttempts p \<and> (sg_state g = seg_pending \<or> sg_state g = seg_failed))
    \<and> ((\<forall>w. qp_nextWakeMs plan = Some w \<longrightarrow> of_int now' < of_int now + w) \<longrightarrow>
          qp_ready (planTranscription parse s p now') = qp_ready plan
          \<and> qp_phase (planTranscription parse s p now') = qp_phase plan)
    \<and> (\<forall>w. qp_nextWakeMs plan = Some w \<longrightarrow> of_int now + w \<le> of_int now' \<longrightarrow>
          (\<exists>k \<in> set (qp_waiting plan). k \<in> set (qp_ready (planTranscription parse s p now'))))
    \<and> (\<forall>w. qp_nextWakeMs plan = Some w \<longrightarrow>
          (\<forall>g \<in> set (cs_segments s). \<forall>t. parse (the (sg_lastAttemptAt g)) = Fin t \<longrightarrow> t \<le> of_int now) \<longrightarrow>
          0 < w \<and> w \<le> of_int (rt_maxDelayMs p))"
proof (intro conjI allI ballI impI)
  let ?slot = "\<lambda>g n. toSlot parse g (isTerminalCaptureStatus (cs_status s)) p n"
  {
    fix g assume g: "g \<in> set (cs_segments s)" "sg_index g \<in> set (qp_ready plan)" "distinct (map sg_index (cs_segments s))"
    then obtain h where h: "h \<in> set (cs_segments s)" "sg_index h = sg_index g" "sl_disposition (?slot h now) = slot_ready"
      unfolding plan plan_simps(2) in_indices by blast
    with g have "h = g" by (auto simp: distinct_map inj_on_def)
    with h have "int (sg_attempts g) < rt_maxAttempts p \<and> (sg_state g = seg_pending \<or> sg_state g = seg_failed)"
      by (cases "sg_state g") (auto simp: toSlot_cases split: if_splits)
    then show "int (sg_attempts g) < rt_maxAttempts p" "sg_state g = seg_pending \<or> sg_state g = seg_failed" by auto
  }
  {
    assume "\<forall>w. qp_nextWakeMs plan = Some w \<longrightarrow> of_int now' < of_int now + w"
    then have "\<forall>g \<in> set (cs_segments s). sl_disposition (?slot g now') = sl_disposition (?slot g now)"
      using dispositions_until_wake [OF assms(2)] plan by blast
    then have same: "indicesOf (map (\<lambda>g. ?slot g now') (cs_segments s)) d = indicesOf (map (\<lambda>g. ?slot g now) (cs_segments s)) d" for d
      unfolding indicesOf_def by (induction "cs_segments s") (auto simp: filter_map comp_def cong: filter_cong)
    then show "qp_ready (planTranscription parse s p now') = qp_ready plan"
      "qp_phase (planTranscription parse s p now') = qp_phase plan"
      unfolding plan plan_phase plan_simps same by simp_all
  }
  {
    fix w assume w: "qp_nextWakeMs plan = Some w" "of_int now + w \<le> of_int now'"
    obtain g where g: "g \<in> set (cs_segments s)" "sl_disposition (?slot g now) = slot_waiting" "w = sl_waitMs (?slot g now)"
      using w(1) unfolding plan by (rule nextWake_mem)
    with toSlot_wait [OF g(2)] w(2) have "sl_disposition (?slot g now') = slot_ready"
      by (auto simp: toSlot_cases split: if_splits)
    then have "sg_index g \<in> set (qp_ready (planTranscription parse s p now'))"
      unfolding plan_simps(2) in_indices using g(1) by blast
    moreover have "sg_index g \<in> set (qp_waiting plan)"
      unfolding plan plan_simps(3) in_indices using g(1,2) by blast
    ultimately show "\<exists>k \<in> set (qp_waiting plan). k \<in> set (qp_ready (planTranscription parse s p now'))" by blast
  }
  {
    fix w assume w: "qp_nextWakeMs plan = Some w"
      and past: "\<forall>g \<in> set (cs_segments s). \<forall>t. parse (the (sg_lastAttemptAt g)) = Fin t \<longrightarrow> t \<le> of_int now"
    obtain g where g: "g \<in> set (cs_segments s)" "sl_disposition (?slot g now) = slot_waiting" "w = sl_waitMs (?slot g now)"
      using w unfolding plan by (rule nextWake_mem)
    obtain t where t: "parse (the (sg_lastAttemptAt g)) = Fin t"
        "w + of_int now = t + of_int (retryDelayMs (sg_attempts g) p)" "0 < w"
      using toSlot_wait [OF g(2)] g(3) by (auto simp: due_at_def split: if_splits jsnum.splits)
    moreover have "(of_int (retryDelayMs (sg_attempts g) p) :: rat) \<le> of_int (rt_maxDelayMs p)"
      using retryDelay_bound by simp
    ultimately show "0 < w" "w \<le> of_int (rt_maxDelayMs p)" using past g(1) by (fastforce, fastforce)
  }
qed

theorem plan_wakes_exactly_when_it_says_witness:
  "qp_ready (planTranscription (\<lambda>_. Fin 0) (demo_queue_session [demo_failed]) DEFAULT_MEETING_RETRY_POLICY 1999)
   = qp_ready (planTranscription (\<lambda>_. Fin 0) (demo_queue_session [demo_failed]) DEFAULT_MEETING_RETRY_POLICY 500)"
proof -
  have "qp_nextWakeMs (planTranscription (\<lambda>_. Fin 0) (demo_queue_session [demo_failed]) DEFAULT_MEETING_RETRY_POLICY 500)
      = Some 1500"
    by (simp add: planTranscription_def demo_queue_session_def demo_failed_def toSlot_def retryDecision_def
        retryDelayMs_def DEFAULT_MEETING_RETRY_POLICY_def isTerminalCaptureStatus_def TERMINAL_STATUSES_def Let_def)
  with plan_wakes_exactly_when_it_says
    [of _ "\<lambda>_. Fin 0" "demo_queue_session [demo_failed]" DEFAULT_MEETING_RETRY_POLICY 500 1999, OF refl]
  show ?thesis by simp
qed

end
