(* ===== verification/SessionValidation.thy ===== *)
theory SessionValidation
  imports CaptureSession
begin

text \<open>
  The validator of a stored meeting session, \<open>isMeetingCaptureSession\<close> of
  \<open>packages/core/src/meetings/sessionValidation.ts\<close>, on untyped values, and the proof that it
  accepts exactly the typed sessions that satisfy the ledger relation, so that every
  transition of \<open>CaptureSession\<close> keeps a stored session readable. \<open>Date.parse\<close> is the
  argument \<open>parse\<close>.
\<close>

section \<open>The validator\<close>

definition CAPTURE_STATUSES :: "string list" where
  "CAPTURE_STATUSES = [''recording'', ''stopped'', ''finalized'', ''discarded'']"

definition CAPTURE_TEMPLATES :: "string list" where
  "CAPTURE_TEMPLATES = [''general'', ''standup'', ''one-on-one'', ''retrospective'']"

definition SEGMENT_STATES :: "string list" where
  "SEGMENT_STATES = [''pending'', ''transcribing'', ''done'', ''failed'']"

definition isNamedValue :: "js \<Rightarrow> string list \<Rightarrow> bool" where
  "isNamedValue v names = (case v of JStr s \<Rightarrow> s \<in> set names | _ \<Rightarrow> False)"

definition isPositiveFinite :: "js \<Rightarrow> bool" where
  "isPositiveFinite v = (case v of JNum (Fin q) \<Rightarrow> q > 0 | _ \<Rightarrow> False)"

definition isNonNegativeFinite :: "js \<Rightarrow> bool" where
  "isNonNegativeFinite v = (case v of JNum (Fin q) \<Rightarrow> q \<ge> 0 | _ \<Rightarrow> False)"

text \<open>\<open>Number.isInteger\<close> and \<open>Number.isSafeInteger\<close>.\<close>

definition js_is_integer :: "js \<Rightarrow> bool" where
  "js_is_integer v = (case v of JNum (Fin q) \<Rightarrow> of_int \<lfloor>q\<rfloor> = q | _ \<Rightarrow> False)"

definition MAX_SAFE_INTEGER :: int where
  "MAX_SAFE_INTEGER = 9007199254740991"

text \<open>A number in an arithmetic comparison: what the code reads after it has checked the type.\<close>

definition num_of :: "js \<Rightarrow> rat" where
  "num_of v = (case v of JNum (Fin q) \<Rightarrow> q | _ \<Rightarrow> 0)"

definition js_is_safe_integer :: "js \<Rightarrow> bool" where
  "js_is_safe_integer v \<longleftrightarrow> js_is_integer v \<and> \<bar>num_of v\<bar> \<le> of_int MAX_SAFE_INTEGER"

definition isPositiveSafeInteger :: "js \<Rightarrow> bool" where
  "isPositiveSafeInteger v \<longleftrightarrow> js_is_safe_integer v \<and> num_of v > 0"

definition isNonNegativeSafeInteger :: "js \<Rightarrow> bool" where
  "isNonNegativeSafeInteger v \<longleftrightarrow> js_is_safe_integer v \<and> num_of v \<ge> 0"

definition isPersistedTimestamp :: "(string \<Rightarrow> jsnum) \<Rightarrow> js \<Rightarrow> bool" where
  "isPersistedTimestamp parse v = (case v of JStr s \<Rightarrow> s \<noteq> [] \<and> parse s \<noteq> NonFinite | _ \<Rightarrow> False)"

definition hasLifecycleTimestamps :: "(string \<Rightarrow> jsnum) \<Rightarrow> js \<Rightarrow> js \<Rightarrow> js \<Rightarrow> bool" where
  "hasLifecycleTimestamps parse status stoppedAt closedAt =
     (if status = JStr ''recording'' then stoppedAt = JUndefined \<and> closedAt = JUndefined
      else if status = JStr ''stopped'' then isPersistedTimestamp parse stoppedAt \<and> closedAt = JUndefined
      else isPersistedTimestamp parse stoppedAt \<and> isPersistedTimestamp parse closedAt)"

definition js_is_string :: "js \<Rightarrow> bool" where
  "js_is_string v = (case v of JStr _ \<Rightarrow> True | _ \<Rightarrow> False)"

definition isCaptureScope :: "js \<Rightarrow> bool" where
  "isCaptureScope v \<longleftrightarrow>
     js_is_record v
     \<and> (js_get v ''orgId'' = JNull \<or> js_is_string (js_get v ''orgId''))
     \<and> (js_get v ''workspaceId'' = JUndefined \<or> js_get v ''workspaceId'' = JNull
        \<or> js_is_string (js_get v ''workspaceId''))"

definition js_is_array :: "js \<Rightarrow> bool" where
  "js_is_array v = (case v of JArr _ \<Rightarrow> True | _ \<Rightarrow> False)"

definition js_items :: "js \<Rightarrow> js list" where
  "js_items v = (case v of JArr xs \<Rightarrow> xs | _ \<Rightarrow> [])"

text \<open>The test of one entry of a segment's chunk references: an integer, and the next one.\<close>

fun bad_references :: "js option \<Rightarrow> js list \<Rightarrow> bool" where
  "bad_references previous [] = False"
| "bad_references previous (sequence # rest) =
     (\<not> js_is_integer sequence \<or> num_of sequence < 0
      \<or> (case previous of None \<Rightarrow> False | Some p \<Rightarrow> num_of sequence \<noteq> num_of p + 1)
      \<or> bad_references (Some sequence) rest)"

definition isStoredSegment :: "js \<Rightarrow> nat \<Rightarrow> bool" where
  "isStoredSegment v position =
     (if \<not> js_is_record v \<or> js_get v ''index'' \<noteq> JNum (Fin (of_nat position)) then False
      else if \<not> isPositiveFinite (js_get v ''byteLength'') then False
      else if \<not> isNonNegativeFinite (js_get v ''startMs'') \<or> \<not> isPositiveFinite (js_get v ''endMs'')
           \<or> num_of (js_get v ''endMs'') \<le> num_of (js_get v ''startMs'') then False
      else if \<not> js_is_integer (js_get v ''attempts'') \<or> num_of (js_get v ''attempts'') < 0 then False
      else if \<not> isNamedValue (js_get v ''state'') SEGMENT_STATES then False
      else if js_get v ''text'' \<noteq> JUndefined \<and> \<not> js_is_string (js_get v ''text'') then False
      else if js_get v ''failureReason'' \<noteq> JUndefined \<and> \<not> js_is_string (js_get v ''failureReason'') then False
      else if js_get v ''lastAttemptAt'' \<noteq> JUndefined \<and> \<not> js_is_string (js_get v ''lastAttemptAt'') then False
      else if js_get v ''deferrals'' \<noteq> JUndefined
           \<and> (\<not> js_is_integer (js_get v ''deferrals'') \<or> num_of (js_get v ''deferrals'') < 0) then False
      else if js_get v ''chunks'' \<noteq> JUndefined then
        (if \<not> js_is_array (js_get v ''chunks'') \<or> js_items (js_get v ''chunks'') = [] then False
         else \<not> bad_references None (js_items (js_get v ''chunks'')))
      else True)"

text \<open>The loop of \<open>isMeetingChunkLedger\<close>: the position and the end of the previous chunk.\<close>

fun ledger_entries_ok :: "nat \<Rightarrow> rat \<Rightarrow> js list \<Rightarrow> bool" where
  "ledger_entries_ok position previousEnd [] = True"
| "ledger_entries_ok position previousEnd (entry # rest) =
     (if \<not> js_is_record entry \<or> js_get entry ''sequence'' \<noteq> JNum (Fin (of_nat position))
         \<or> \<not> isPositiveSafeInteger (js_get entry ''byteLength'') then False
      else if \<not> isNonNegativeSafeInteger (js_get entry ''startMs'')
           \<or> \<not> isPositiveSafeInteger (js_get entry ''endMs'')
           \<or> num_of (js_get entry ''endMs'') \<le> num_of (js_get entry ''startMs'') then False
      else if num_of (js_get entry ''startMs'') < previousEnd then False
      else ledger_entries_ok (position + 1) (num_of (js_get entry ''endMs'')) rest)"

definition isMeetingChunkLedger :: "js \<Rightarrow> bool" where
  "isMeetingChunkLedger v \<longleftrightarrow> js_is_array v \<and> ledger_entries_ok 0 0 (js_items v)"

fun ranges_ordered :: "rat \<Rightarrow> js list \<Rightarrow> bool" where
  "ranges_ordered previousEnd [] = True"
| "ranges_ordered previousEnd (segment # rest) =
     (if num_of (js_get segment ''startMs'') < previousEnd then False
      else ranges_ordered (num_of (js_get segment ''endMs'')) rest)"

definition rangesAreOrdered :: "js list \<Rightarrow> bool" where
  "rangesAreOrdered segments = ranges_ordered 0 segments"

text \<open>\<open>ledger[sequence]\<close>, with \<open>undefined\<close> outside the array.\<close>

definition js_at :: "js list \<Rightarrow> js \<Rightarrow> js" where
  "js_at xs i =
     (if js_is_integer i \<and> 0 \<le> num_of i \<and> nat \<lfloor>num_of i\<rfloor> < length xs then xs ! nat \<lfloor>num_of i\<rfloor> else JUndefined)"

text \<open>The relation between units and ledger: the loop over the segments.\<close>

fun units_claim :: "js list \<Rightarrow> js list \<Rightarrow> nat \<Rightarrow> bool \<Rightarrow> bool" where
  "units_claim ledger [] nextSequence sawExplicitUnit = True"
| "units_claim ledger (segment # rest) nextSequence sawExplicitUnit =
     (let explicit = (js_get segment ''chunks'' \<noteq> JUndefined)
      in if \<not> explicit \<and> sawExplicitUnit then False
         else
           let saw = (sawExplicitUnit \<or> explicit);
               sequences = (if explicit then js_items (js_get segment ''chunks'') else [js_get segment ''index''])
           in if \<exists>offset \<in> set [0..<length sequences]. sequences ! offset \<noteq> JNum (Fin (of_nat (nextSequence + offset)))
              then False
              else
                let chunks = map (js_at ledger) sequences
                in if JUndefined \<in> set chunks then False
                   else if num_of (js_get segment ''byteLength'')
                        \<noteq> foldl (\<lambda>total chunk. total + num_of (js_get chunk ''byteLength'')) 0 chunks then False
                   else if num_of (js_get segment ''startMs'') \<noteq> num_of (js_get (hd chunks) ''startMs'')
                        \<or> num_of (js_get segment ''endMs'') \<noteq> num_of (js_get (last chunks) ''endMs'') then False
                   else units_claim ledger rest (nextSequence + length sequences) saw)"

definition isMeetingCaptureSession :: "(string \<Rightarrow> jsnum) \<Rightarrow> js \<Rightarrow> bool" where
  "isMeetingCaptureSession parse v =
     (if \<not> js_is_record v then False
      else if \<not> isMeetingSessionId (js_get v ''id'') \<or> \<not> js_is_string (js_get v ''startedAt'') then False
      else if \<not> js_is_string (js_get v ''title'') \<or> \<not> isNamedValue (js_get v ''template'') CAPTURE_TEMPLATES then False
      else if \<not> isNamedValue (js_get v ''status'') CAPTURE_STATUSES \<or> \<not> isCaptureScope (js_get v ''scope'') then False
      else if js_get v ''language'' \<noteq> JUndefined \<and> \<not> js_is_string (js_get v ''language'') then False
      else if \<not> hasLifecycleTimestamps parse (js_get v ''status'') (js_get v ''stoppedAt'') (js_get v ''closedAt'') then False
      else if \<not> js_is_array (js_get v ''segments'')
           \<or> \<not> list_all (\<lambda>(position, segment). isStoredSegment segment position)
                (enumerate 0 (js_items (js_get v ''segments''))) then False
      else
        let segments = js_items (js_get v ''segments'')
        in if js_get v ''chunks'' = JUndefined then
             list_all (\<lambda>segment. js_get segment ''chunks'' = JUndefined) segments \<and> rangesAreOrdered segments
           else if \<not> isMeetingChunkLedger (js_get v ''chunks'') then False
           else units_claim (js_items (js_get v ''chunks'')) segments 0 False)"

section \<open>A session as the code holds it\<close>

text \<open>An absent optional field reads as \<open>undefined\<close>.\<close>

definition j_opt :: "('a \<Rightarrow> js) \<Rightarrow> 'a option \<Rightarrow> js" where
  "j_opt f x = (case x of None \<Rightarrow> JUndefined | Some y \<Rightarrow> f y)"

abbreviation j_int :: "int \<Rightarrow> js" where
  "j_int n \<equiv> JNum (Fin (of_int n))"

abbreviation j_nat :: "nat \<Rightarrow> js" where
  "j_nat n \<equiv> JNum (Fin (of_nat n))"

definition chunk_json :: "MeetingChunk \<Rightarrow> js" where
  "chunk_json c = JObj
     [(''sequence'', j_nat (ck_sequence c)), (''byteLength'', j_int (ck_byteLength c)),
      (''startMs'', j_int (ck_startMs c)), (''endMs'', j_int (ck_endMs c))]"

definition segment_json :: "MeetingSegment \<Rightarrow> js" where
  "segment_json s = JObj
     [(''index'', j_nat (sg_index s)), (''byteLength'', j_int (sg_byteLength s)),
      (''startMs'', j_int (sg_startMs s)), (''endMs'', j_int (sg_endMs s)),
      (''chunks'', j_opt (\<lambda>cs. JArr (map j_nat cs)) (sg_chunks s)),
      (''state'', JStr (state_name (sg_state s))), (''text'', j_opt JStr (sg_text s)),
      (''failureReason'', j_opt JStr (sg_failureReason s)), (''attempts'', j_nat (sg_attempts s)),
      (''deferrals'', j_opt j_nat (sg_deferrals s)), (''lastAttemptAt'', j_opt JStr (sg_lastAttemptAt s))]"

definition scope_json :: "MeetingCaptureScope \<Rightarrow> js" where
  "scope_json s = JObj
     [(''orgId'', case sc_orgId s of None \<Rightarrow> JNull | Some x \<Rightarrow> JStr x),
      (''workspaceId'', case sc_workspaceId s of None \<Rightarrow> JNull | Some x \<Rightarrow> JStr x)]"

definition session_json :: "MeetingCaptureSession \<Rightarrow> js" where
  "session_json s = JObj
     [(''id'', JStr (cs_id s)), (''startedAt'', JStr (cs_startedAt s)), (''scope'', scope_json (cs_scope s)),
      (''title'', JStr (cs_title s)), (''template'', JStr (template_name (cs_template s))),
      (''language'', j_opt JStr (cs_language s)), (''status'', JStr (status_name (cs_status s))),
      (''segments'', JArr (map segment_json (cs_segments s))),
      (''chunks'', j_opt (\<lambda>cs. JArr (map chunk_json cs)) (cs_chunks s)),
      (''stoppedAt'', j_opt JStr (cs_stoppedAt s)), (''closedAt'', j_opt JStr (cs_closedAt s))]"

section \<open>What the validator says of a typed session\<close>

definition persisted :: "(string \<Rightarrow> jsnum) \<Rightarrow> string option \<Rightarrow> bool" where
  "persisted parse t = (case t of None \<Rightarrow> False | Some s \<Rightarrow> s \<noteq> [] \<and> parse s \<noteq> NonFinite)"

definition lifecycle_ok :: "(string \<Rightarrow> jsnum) \<Rightarrow> MeetingCaptureSession \<Rightarrow> bool" where
  "lifecycle_ok parse s =
     (case cs_status s of
        recording \<Rightarrow> cs_stoppedAt s = None \<and> cs_closedAt s = None
      | stopped \<Rightarrow> persisted parse (cs_stoppedAt s) \<and> cs_closedAt s = None
      | _ \<Rightarrow> persisted parse (cs_stoppedAt s) \<and> persisted parse (cs_closedAt s))"

fun consecutive :: "nat list \<Rightarrow> bool" where
  "consecutive (a # b # xs) = (b = a + 1 \<and> consecutive (b # xs))"
| "consecutive _ = True"

definition segment_ok :: "MeetingSegment \<Rightarrow> bool" where
  "segment_ok s \<longleftrightarrow> sg_byteLength s > 0 \<and> 0 \<le> sg_startMs s \<and> sg_startMs s < sg_endMs s
     \<and> (case sg_chunks s of None \<Rightarrow> True | Some cs \<Rightarrow> cs \<noteq> [] \<and> consecutive cs)"

fun ledger_ok :: "nat \<Rightarrow> int \<Rightarrow> MeetingChunk list \<Rightarrow> bool" where
  "ledger_ok k e [] = True"
| "ledger_ok k e (c # cs) =
     (ck_sequence c = k \<and> ck_byteLength c > 0 \<and> e \<le> ck_startMs c \<and> ck_startMs c < ck_endMs c
      \<and> ledger_ok (k + 1) (ck_endMs c) cs)"

fun ordered :: "int \<Rightarrow> MeetingSegment list \<Rightarrow> bool" where
  "ordered e [] = True"
| "ordered e (s # ss) = (e \<le> sg_startMs s \<and> ordered (sg_endMs s) ss)"

text \<open>A unit that reads exactly the run of chunks it names.\<close>

definition reads_run :: "MeetingSegment \<Rightarrow> MeetingChunk list \<Rightarrow> bool" where
  "reads_run s run \<longleftrightarrow> run \<noteq> [] \<and> sg_byteLength s = bytes_of run
     \<and> sg_startMs s = ck_startMs (hd run) \<and> sg_endMs s = ck_endMs (last run)"

fun run_from :: "nat \<Rightarrow> nat list \<Rightarrow> bool" where
  "run_from n [] = True"
| "run_from n (c # cs) = (c = n \<and> run_from (n + 1) cs)"

fun units_ok :: "MeetingChunk list \<Rightarrow> MeetingSegment list \<Rightarrow> nat \<Rightarrow> bool \<Rightarrow> bool" where
  "units_ok ledger [] n saw = True"
| "units_ok ledger (s # ss) n saw =
     ((sg_chunks s = None \<longrightarrow> \<not> saw)
      \<and> run_from n (unitChunkSequences s)
      \<and> n + length (unitChunkSequences s) \<le> length ledger
      \<and> reads_run s (take (length (unitChunkSequences s)) (drop n ledger))
      \<and> units_ok ledger ss (n + length (unitChunkSequences s)) (saw \<or> sg_chunks s \<noteq> None))"

definition session_ok :: "(string \<Rightarrow> jsnum) \<Rightarrow> MeetingCaptureSession \<Rightarrow> bool" where
  "session_ok parse s \<longleftrightarrow>
     SESSION_ID_SHAPE (cs_id s) \<and> lifecycle_ok parse s
     \<and> map sg_index (cs_segments s) = [0..<length (cs_segments s)]
     \<and> list_all segment_ok (cs_segments s)
     \<and> (case cs_chunks s of
          None \<Rightarrow> list_all (\<lambda>g. sg_chunks g = None) (cs_segments s) \<and> ordered 0 (cs_segments s)
        | Some ledger \<Rightarrow> ledger_ok 0 0 ledger \<and> units_ok ledger (cs_segments s) 0 False)"

definition within_safe :: "MeetingCaptureSession \<Rightarrow> bool" where
  "within_safe s \<longleftrightarrow> (\<forall>c \<in> set (captureChunks s). ck_byteLength c \<le> MAX_SAFE_INTEGER \<and> ck_endMs c \<le> MAX_SAFE_INTEGER)"

section \<open>The validator accepts exactly these sessions\<close>

lemma chunk_get [simp]:
  "js_get (chunk_json c) ''sequence'' = j_nat (ck_sequence c)"
  "js_get (chunk_json c) ''byteLength'' = j_int (ck_byteLength c)"
  "js_get (chunk_json c) ''startMs'' = j_int (ck_startMs c)"
  "js_get (chunk_json c) ''endMs'' = j_int (ck_endMs c)"
  "js_is_record (chunk_json c)" "chunk_json c \<noteq> JUndefined" "JUndefined \<noteq> chunk_json c"
  by (simp_all add: chunk_json_def js_get_def)

lemma segment_get [simp]:
  "js_get (segment_json s) ''index'' = j_nat (sg_index s)"
  "js_get (segment_json s) ''byteLength'' = j_int (sg_byteLength s)"
  "js_get (segment_json s) ''startMs'' = j_int (sg_startMs s)"
  "js_get (segment_json s) ''endMs'' = j_int (sg_endMs s)"
  "js_get (segment_json s) ''chunks'' = j_opt (\<lambda>cs. JArr (map j_nat cs)) (sg_chunks s)"
  "js_get (segment_json s) ''state'' = JStr (state_name (sg_state s))"
  "js_get (segment_json s) ''text'' = j_opt JStr (sg_text s)"
  "js_get (segment_json s) ''failureReason'' = j_opt JStr (sg_failureReason s)"
  "js_get (segment_json s) ''attempts'' = j_nat (sg_attempts s)"
  "js_get (segment_json s) ''deferrals'' = j_opt j_nat (sg_deferrals s)"
  "js_get (segment_json s) ''lastAttemptAt'' = j_opt JStr (sg_lastAttemptAt s)"
  "js_is_record (segment_json s)"
  by (simp_all add: segment_json_def js_get_def)

lemma session_get [simp]:
  "js_get (session_json s) ''id'' = JStr (cs_id s)"
  "js_get (session_json s) ''startedAt'' = JStr (cs_startedAt s)"
  "js_get (session_json s) ''scope'' = scope_json (cs_scope s)"
  "js_get (session_json s) ''title'' = JStr (cs_title s)"
  "js_get (session_json s) ''template'' = JStr (template_name (cs_template s))"
  "js_get (session_json s) ''language'' = j_opt JStr (cs_language s)"
  "js_get (session_json s) ''status'' = JStr (status_name (cs_status s))"
  "js_get (session_json s) ''segments'' = JArr (map segment_json (cs_segments s))"
  "js_get (session_json s) ''chunks'' = j_opt (\<lambda>cs. JArr (map chunk_json cs)) (cs_chunks s)"
  "js_get (session_json s) ''stoppedAt'' = j_opt JStr (cs_stoppedAt s)"
  "js_get (session_json s) ''closedAt'' = j_opt JStr (cs_closedAt s)"
  "js_is_record (session_json s)"
  by (simp_all add: session_json_def js_get_def)

lemma j_opt_simps [simp]:
  "j_opt f None = JUndefined" "j_opt f (Some x) = f x"
  by (simp_all add: j_opt_def)

lemma j_num_simps [simp]:
  "js_is_integer (j_int n)" "js_is_integer (j_nat k)" "num_of (j_int n) = of_int n" "num_of (j_nat k) = of_nat k"
  "isPositiveFinite (j_int n) \<longleftrightarrow> 0 < n" "isNonNegativeFinite (j_int n) \<longleftrightarrow> 0 \<le> n"
  by (simp_all add: js_is_integer_def num_of_def isPositiveFinite_def isNonNegativeFinite_def)

lemma j_safe_simps [simp]:
  "isPositiveSafeInteger (j_int n) \<longleftrightarrow> 0 < n \<and> n \<le> MAX_SAFE_INTEGER"
  "isNonNegativeSafeInteger (j_int n) \<longleftrightarrow> 0 \<le> n \<and> n \<le> MAX_SAFE_INTEGER"
proof -
  have "\<bar>of_int n :: rat\<bar> \<le> of_int MAX_SAFE_INTEGER \<longleftrightarrow> \<bar>n\<bar> \<le> MAX_SAFE_INTEGER"
    by (metis of_int_abs of_int_le_iff)
  then show "isPositiveSafeInteger (j_int n) \<longleftrightarrow> 0 < n \<and> n \<le> MAX_SAFE_INTEGER"
    "isNonNegativeSafeInteger (j_int n) \<longleftrightarrow> 0 \<le> n \<and> n \<le> MAX_SAFE_INTEGER"
    by (auto simp: isPositiveSafeInteger_def isNonNegativeSafeInteger_def js_is_safe_integer_def)
qed

lemma named_values [simp]:
  "isNamedValue (JStr (state_name x)) SEGMENT_STATES"
  "isNamedValue (JStr (status_name y)) CAPTURE_STATUSES"
  "isNamedValue (JStr (template_name z)) CAPTURE_TEMPLATES"
  by (cases x; simp add: isNamedValue_def SEGMENT_STATES_def)
    ((cases y; simp add: isNamedValue_def CAPTURE_STATUSES_def),
     (cases z; simp add: isNamedValue_def CAPTURE_TEMPLATES_def))

lemma of_nat_next [simp]: "(of_nat c :: rat) = of_nat p + 1 \<longleftrightarrow> c = Suc p"
  by (metis add.commute of_nat_Suc of_nat_eq_iff)

lemma bad_references_some [simp]:
  "bad_references (Some (j_nat p)) (map j_nat cs) \<longleftrightarrow> \<not> consecutive (p # cs)"
  by (induction cs arbitrary: p) auto

lemma bad_references_none [simp]: "bad_references None (map j_nat cs) \<longleftrightarrow> \<not> consecutive cs"
  by (cases cs) auto

lemma stored_segment [simp]:
  "isStoredSegment (segment_json s) position \<longleftrightarrow> sg_index s = position \<and> segment_ok s"
proof -
  have str: "j_opt JStr x \<noteq> JUndefined \<and> \<not> js_is_string (j_opt JStr x) \<longleftrightarrow> False" for x
    by (cases x) (auto simp: js_is_string_def)
  have num: "j_opt j_nat x \<noteq> JUndefined
      \<and> (\<not> js_is_integer (j_opt j_nat x) \<or> num_of (j_opt j_nat x) < 0) \<longleftrightarrow> False" for x
    by (cases x) auto
  show ?thesis
    unfolding isStoredSegment_def segment_get str num
    by (cases "sg_chunks s") (auto simp: segment_ok_def js_is_array_def js_items_def)
qed

lemma stored_segments:
  "list_all (\<lambda>(position, segment). isStoredSegment segment position) (enumerate n (map segment_json ss))
   \<longleftrightarrow> map sg_index ss = [n..<n + length ss] \<and> list_all segment_ok ss"
proof (induction ss arbitrary: n)
  case Nil
  then show ?case by simp
next
  case (Cons s ss)
  have "[n..<n + length (s # ss)] = n # [Suc n..<Suc n + length ss]"
    by (rule trans [OF upt_conv_Cons]) simp_all
  with Cons [of "Suc n"] show ?case by auto
qed

lemma ledger_entries:
  assumes "\<forall>c \<in> set cs. ck_byteLength c \<le> MAX_SAFE_INTEGER \<and> ck_endMs c \<le> MAX_SAFE_INTEGER" "0 \<le> e"
  shows "ledger_entries_ok k (of_int e) (map chunk_json cs) \<longleftrightarrow> ledger_ok k e cs"
  using assms
proof (induction cs arbitrary: k e)
  case Nil
  then show ?case by simp
next
  case (Cons c cs)
  show ?case
  proof (cases "0 \<le> ck_endMs c")
    case True
    with Cons show ?thesis by auto
  next
    case False
    with Cons.prems show ?thesis by auto
  qed
qed

lemma ranges_ordered_json [simp]: "ranges_ordered (of_int e) (map segment_json ss) \<longleftrightarrow> ordered e ss"
  by (induction ss arbitrary: e) auto

lemma ledger_okD:
  "ledger_ok k e cs \<Longrightarrow> i < length cs \<Longrightarrow> ck_sequence (cs ! i) = k + i"
  by (induction cs arbitrary: k e i) (auto simp: nth_Cons split: nat.splits)

lemma js_at_json: "js_at (map chunk_json ledger) (j_nat i) = (if i < length ledger then chunk_json (ledger ! i) else JUndefined)"
  by (simp add: js_at_def)

lemma sequences_json:
  "(\<exists>offset \<in> set [0..<length cs]. map j_nat cs ! offset \<noteq> j_nat (n + offset)) \<longleftrightarrow> cs \<noteq> [n..<n + length cs]"
proof -
  have "cs = [n..<n + length cs] \<longleftrightarrow> (\<forall>i < length cs. cs ! i = n + i)"
    by (subst list_eq_iff_nth_eq) simp
  then show ?thesis by (auto simp del: of_nat_add)
qed

lemma run_from_iff: "run_from n cs \<longleftrightarrow> cs = [n..<n + length cs]"
proof (induction cs arbitrary: n)
  case (Cons c cs)
  have "[n..<n + length (c # cs)] = n # [Suc n..<Suc n + length cs]"
    by (rule trans [OF upt_conv_Cons]) simp_all
  with Cons [of "Suc n"] show ?case by auto
qed simp

lemma claimed_json:
  "map (js_at (map chunk_json ledger)) (map j_nat [n..<n + m])
   = map (\<lambda>i. if i < length ledger then chunk_json (ledger ! i) else JUndefined) [n..<n + m]"
  by (simp add: js_at_json)

lemma claimed_run:
  "n + m \<le> length ledger \<Longrightarrow>
   map (\<lambda>i. if i < length ledger then chunk_json (ledger ! i) else JUndefined) [n..<n + m]
   = map chunk_json (take m (drop n ledger))"
  by (auto simp: list_eq_iff_nth_eq)

lemma claimed_missing:
  "0 < m \<Longrightarrow> \<not> n + m \<le> length ledger \<Longrightarrow>
   JUndefined \<in> set (map (\<lambda>i. if i < length ledger then chunk_json (ledger ! i) else JUndefined) [n..<n + m])"
  by (auto simp: image_iff intro!: exI [of _ "n + m - 1"])

lemma foldl_bytes_json:
  "foldl (\<lambda>total chunk. total + num_of (js_get chunk ''byteLength'')) (of_int k) (map chunk_json run)
   = of_int (k + bytes_of run)"
proof (induction run arbitrary: k)
  case Nil
  then show ?case by simp
next
  case (Cons c run)
  then show ?case using Cons [of "k + ck_byteLength c"] by (simp add: add.assoc)
qed

lemma units_claim_json:
  assumes "list_all segment_ok ss"
  shows "units_claim (map chunk_json ledger) (map segment_json ss) n saw \<longleftrightarrow> units_ok ledger ss n saw"
  using assms
proof (induction ss arbitrary: n saw)
  case Nil
  then show ?case by simp
next
  case (Cons s ss)
  let ?cs = "unitChunkSequences s"
  have ne: "?cs \<noteq> []" using Cons.prems by (auto simp: segment_ok_def unitChunkSequences_def split: option.splits)
  have seqs: "(if js_get (segment_json s) ''chunks'' \<noteq> JUndefined then js_items (js_get (segment_json s) ''chunks'')
      else [js_get (segment_json s) ''index'']) = map j_nat ?cs"
    by (cases "sg_chunks s") (simp_all add: unitChunkSequences_def js_items_def)
  have explicit: "js_get (segment_json s) ''chunks'' \<noteq> JUndefined \<longleftrightarrow> sg_chunks s \<noteq> None"
    by (cases "sg_chunks s") simp_all
  note step = units_claim.simps(2) [of "map chunk_json ledger" "segment_json s" "map segment_json ss" n saw,
      unfolded Let_def seqs, unfolded explicit]
  show ?case
  proof (cases "run_from n ?cs")
    case False
    then show ?thesis using step sequences_json [of ?cs n] run_from_iff [of n ?cs] by simp
  next
    case run_from: True
    then have seq: "?cs = [n..<n + length ?cs]" by (simp only: run_from_iff [symmetric])
    show ?thesis
    proof (cases "n + length ?cs \<le> length ledger")
      case False
      then show ?thesis
        using step ne seq claimed_missing [of "length ?cs" n ledger] claimed_json [of ledger n "length ?cs"]
        by (metis (no_types, lifting) length_greater_0_conv list.simps(9) units_ok.simps(2))
    next
      case True
      let ?run = "take (length ?cs) (drop n ledger)"
      have run: "map (js_at (map chunk_json ledger)) (map j_nat ?cs) = map chunk_json ?run"
        using seq claimed_json [of ledger n "length ?cs"] claimed_run [OF True] by metis
      have "?run \<noteq> []" using ne True by (cases "unitChunkSequences s") simp_all
      moreover have "foldl (\<lambda>total chunk. total + num_of (js_get chunk ''byteLength'')) 0 (map chunk_json ?run)
          = of_int (bytes_of ?run)"
        using foldl_bytes_json [of 0 ?run] by simp
      moreover have "(\<exists>offset \<in> set [0..<length (map j_nat ?cs)]. map j_nat ?cs ! offset \<noteq> j_nat (n + offset)) = False"
        using seq sequences_json [of ?cs n] by (metis length_map)
      moreover have "JUndefined \<notin> set (map chunk_json ?run)" by auto
      ultimately have claim: "units_claim (map chunk_json ledger) (segment_json s # map segment_json ss) n saw \<longleftrightarrow>
          (sg_chunks s = None \<longrightarrow> \<not> saw) \<and> reads_run s ?run
          \<and> units_ok ledger ss (n + length ?cs) (saw \<or> sg_chunks s \<noteq> None)"
        unfolding step run using Cons.IH [of "n + length ?cs" "saw \<or> sg_chunks s \<noteq> None"] Cons.prems
        by (cases saw; cases "sg_chunks s") (auto simp: reads_run_def hd_map last_map)
      show ?thesis
        by (simp only: claim list.map units_ok.simps(2) eqTrueI [OF run_from] eqTrueI [OF True] simp_thms)
    qed
  qed
qed

lemma lifecycle_json:
  "hasLifecycleTimestamps parse (JStr (status_name (cs_status s))) (j_opt JStr (cs_stoppedAt s)) (j_opt JStr (cs_closedAt s))
   \<longleftrightarrow> lifecycle_ok parse s"
  by (cases "cs_status s"; cases "cs_stoppedAt s"; cases "cs_closedAt s")
    (auto simp: hasLifecycleTimestamps_def lifecycle_ok_def isPersistedTimestamp_def persisted_def)

lemma scope_json_ok [simp]: "isCaptureScope (scope_json s)"
  by (cases "sc_orgId s"; cases "sc_workspaceId s")
    (simp_all add: isCaptureScope_def scope_json_def js_get_def js_is_string_def)

lemma js_kinds [simp]:
  "js_items (JArr xs) = xs" "js_is_array (JArr xs)" "js_is_string (JStr x)"
  by (simp_all add: js_items_def js_is_array_def js_is_string_def)

lemma unreferenced_json:
  "list_all (\<lambda>segment. js_get segment ''chunks'' = JUndefined) (map segment_json ss)
   \<longleftrightarrow> list_all (\<lambda>g. sg_chunks g = None) ss"
  by (induction ss) (auto simp: j_opt_def split: option.splits)

text \<open>The validator on an encoded session: what is left once the scalar shape is known to hold.\<close>

lemma isMeetingCaptureSession_shape:
  "isMeetingCaptureSession parse (session_json s) \<longleftrightarrow>
     SESSION_ID_SHAPE (cs_id s) \<and> lifecycle_ok parse s
     \<and> map sg_index (cs_segments s) = [0..<length (cs_segments s)] \<and> list_all segment_ok (cs_segments s)
     \<and> (case cs_chunks s of
          None \<Rightarrow> list_all (\<lambda>g. sg_chunks g = None) (cs_segments s) \<and> ordered 0 (cs_segments s)
        | Some ledger \<Rightarrow> isMeetingChunkLedger (JArr (map chunk_json ledger))
            \<and> units_claim (map chunk_json ledger) (map segment_json (cs_segments s)) 0 False)"
proof -
  have lang: "(j_opt JStr x \<noteq> JUndefined \<and> \<not> js_is_string (j_opt JStr x)) = False" for x
    by (cases x) auto
  have ids: "isMeetingSessionId (JStr x) \<longleftrightarrow> SESSION_ID_SHAPE x" for x
    by (simp add: isMeetingSessionId_def)
  show ?thesis
    unfolding isMeetingCaptureSession_def session_get lang ids lifecycle_json Let_def js_kinds
      stored_segments [of 0, simplified add_0] rangesAreOrdered_def unreferenced_json
    using ranges_ordered_json [of 0 "cs_segments s"]
    by (cases "cs_chunks s") (simp_all, blast+)
qed

lemma isMeetingCaptureSession_json:
  assumes "within_safe s"
  shows "isMeetingCaptureSession parse (session_json s) \<longleftrightarrow> session_ok parse s"
proof (cases "cs_chunks s")
  case None
  then show ?thesis by (simp add: isMeetingCaptureSession_shape session_ok_def)
next
  case (Some ledger)
  then have "isMeetingChunkLedger (JArr (map chunk_json ledger)) \<longleftrightarrow> ledger_ok 0 0 ledger"
    using assms ledger_entries [of ledger 0 0]
    by (simp add: isMeetingChunkLedger_def within_safe_def captureChunks_def)
  then show ?thesis
    using Some units_claim_json [of "cs_segments s" ledger 0 False]
    by (auto simp: isMeetingCaptureSession_shape session_ok_def)
qed

end
