(* ===== verification/CaptureSafety.thy ===== *)
theory CaptureSafety
  imports SessionValidation
begin

text \<open>
  What the transitions of a meeting capture (\<open>CaptureSession\<close>) preserve: the ledger relation
  the validator checks (\<open>SessionValidation\<close>), the chunks themselves, and the segments that
  have settled. The transitions are gathered in a step relation; reachable sessions are its
  closure.
\<close>

section \<open>The claimed prefix\<close>

abbreviation reach :: "MeetingSegment list \<Rightarrow> nat" where
  "reach ss \<equiv> sum_list (map (\<lambda>s. length (unitChunkSequences s)) ss)"

abbreviation referenced :: "MeetingSegment list \<Rightarrow> bool" where
  "referenced ss \<equiv> (\<exists>s \<in> set ss. sg_chunks s \<noteq> None)"

lemma units_ok_append:
  "units_ok ledger (ss @ us) n saw \<longleftrightarrow>
   units_ok ledger ss n saw \<and> units_ok ledger us (n + reach ss) (saw \<or> referenced ss)"
  by (induction ss arbitrary: n saw) (auto simp: add.assoc)

lemma units_ok_extend: "units_ok ledger ss n saw \<Longrightarrow> units_ok (ledger @ extra) ss n saw"
  by (induction ss arbitrary: n saw) auto

lemma units_ok_reach: "units_ok ledger ss n saw \<Longrightarrow> ss \<noteq> [] \<Longrightarrow> n + reach ss \<le> length ledger"
proof (induction ss arbitrary: n saw)
  case Nil
  then show ?case by simp
next
  case (Cons s ss)
  then have "units_ok ledger ss (n + length (unitChunkSequences s)) (saw \<or> sg_chunks s \<noteq> None)"
    "n + length (unitChunkSequences s) \<le> length ledger" by simp_all
  with Cons.IH [OF this(1)] show ?case by (cases "ss = []") (auto simp: add.assoc)
qed

lemma units_ok_sequences:
  "units_ok ledger ss n saw \<Longrightarrow> concat (map unitChunkSequences ss) = [n..<n + reach ss]"
proof (induction ss arbitrary: n saw)
  case Nil
  then show ?case by simp
next
  case (Cons s ss)
  let ?m = "length (unitChunkSequences s)"
  have "units_ok ledger ss (n + ?m) (saw \<or> sg_chunks s \<noteq> None)" using Cons.prems by simp
  then have "concat (map unitChunkSequences ss) = [n + ?m..<n + ?m + reach ss]" by (rule Cons.IH)
  moreover have "unitChunkSequences s = [n..<n + ?m]"
    using Cons.prems by (simp only: run_from_iff [symmetric]) simp
  moreover have "[n..<n + (?m + reach ss)] = [n..<n + ?m] @ [n + ?m..<n + ?m + reach ss]"
    using upt_add_eq_append [of n "n + ?m" "reach ss"] by (simp add: add.assoc)
  ultimately show ?case by (metis (no_types, lifting) concat.simps(2) list.simps(9) sum_list.Cons)
qed

lemma fold_claimed:
  "fold (\<lambda>sequence claimed. if sequence + 1 > claimed then sequence + 1 else claimed) [n..<n + m] n = n + (m::nat)"
  by (induction m) auto

lemma claimed_reach:
  "units_ok ledger ss n saw \<Longrightarrow>
   fold (\<lambda>segment claimed. fold (\<lambda>sequence claimed. if sequence + 1 > claimed then sequence + 1 else claimed)
          (unitChunkSequences segment) claimed) ss n = n + reach ss"
proof (induction ss arbitrary: n saw)
  case Nil
  then show ?case by simp
next
  case (Cons s ss)
  let ?m = "length (unitChunkSequences s)"
  have "unitChunkSequences s = [n..<n + ?m]"
    using Cons.prems by (simp only: run_from_iff [symmetric]) simp
  then have here: "fold (\<lambda>sequence claimed. if sequence + 1 > claimed then sequence + 1 else claimed)
      (unitChunkSequences s) n = n + ?m"
    by (rule ssubst) (rule fold_claimed)
  have "units_ok ledger ss (n + ?m) (saw \<or> sg_chunks s \<noteq> None)" using Cons.prems by simp
  from Cons.IH [OF this] here show ?case by (simp add: add.assoc)
qed

section \<open>One view of both shapes of a record\<close>

definition audio :: "MeetingSegment \<Rightarrow> nat \<times> int \<times> int \<times> int \<times> nat list option" where
  "audio s = (sg_index s, sg_byteLength s, sg_startMs s, sg_endMs s, sg_chunks s)"

lemma audio_eq:
  "audio s = audio u \<longleftrightarrow> sg_index s = sg_index u \<and> sg_byteLength s = sg_byteLength u
    \<and> sg_startMs s = sg_startMs u \<and> sg_endMs s = sg_endMs u \<and> sg_chunks s = sg_chunks u"
  by (auto simp: audio_def)

lemma audio_list_induct [consumes 1, case_names Nil Cons]:
  assumes "map audio ss = map audio us" "P [] []"
    and "\<And>s ss u us. audio s = audio u \<Longrightarrow> P ss us \<Longrightarrow> P (s # ss) (u # us)"
  shows "P ss us"
  using assms(1)
proof (induction ss arbitrary: us)
  case (Cons s ss)
  then show ?case by (cases us) (auto intro: assms(3))
qed (simp add: assms(2))

lemma units_ok_audio:
  "map audio ss = map audio us \<Longrightarrow> units_ok ledger ss n saw = units_ok ledger us n saw"
proof (induction ss us arbitrary: n saw rule: audio_list_induct)
  case (Cons s ss u us)
  then have "unitChunkSequences s = unitChunkSequences u"
    by (cases "sg_chunks u") (simp_all add: unitChunkSequences_def audio_eq)
  with Cons show ?case by (simp add: reads_run_def audio_eq)
qed simp

lemma ordered_audio: "map audio ss = map audio us \<Longrightarrow> ordered e ss = ordered e us"
  by (induction ss us arbitrary: e rule: audio_list_induct) (simp_all add: audio_eq)

lemma segments_audio:
  "map audio ss = map audio us \<Longrightarrow> map sg_index ss = map sg_index us \<and> list_all segment_ok ss = list_all segment_ok us
    \<and> list_all (\<lambda>g. sg_chunks g = None) ss = list_all (\<lambda>g. sg_chunks g = None) us"
  by (induction ss us rule: audio_list_induct) (simp_all add: audio_eq segment_ok_def)

lemma reach_audio: "map audio ss = map audio us \<Longrightarrow> reach ss = reach us"
proof (induction ss us rule: audio_list_induct)
  case (Cons s ss u us)
  then have "unitChunkSequences s = unitChunkSequences u"
    by (cases "sg_chunks u") (simp_all add: unitChunkSequences_def audio_eq)
  with Cons show ?case by simp
qed simp

lemma captureChunks_audio:
  assumes "cs_chunks s' = cs_chunks s" "cs_chunks s = None \<longrightarrow> map audio (cs_segments s') = map audio (cs_segments s)"
  shows "captureChunks s' = captureChunks s"
proof (cases "cs_chunks s")
  case None
  have derived: "map audio ss = map audio us \<Longrightarrow>
      map (\<lambda>s. \<lparr>ck_sequence = sg_index s, ck_byteLength = sg_byteLength s, ck_startMs = sg_startMs s, ck_endMs = sg_endMs s\<rparr>) ss
      = map (\<lambda>s. \<lparr>ck_sequence = sg_index s, ck_byteLength = sg_byteLength s, ck_startMs = sg_startMs s, ck_endMs = sg_endMs s\<rparr>) us"
    for ss us by (induction ss us rule: audio_list_induct) (simp_all add: audio_eq)
  show ?thesis using None assms derived [of "cs_segments s'" "cs_segments s"] by (simp add: captureChunks_def)
qed (use assms in \<open>simp add: captureChunks_def\<close>)

lemma session_ok_audio:
  assumes "session_ok parse s" "map audio (cs_segments s') = map audio (cs_segments s)"
    "cs_chunks s' = cs_chunks s" "cs_id s' = cs_id s" "lifecycle_ok parse s'"
  shows "session_ok parse s'"
  using assms segments_audio [OF assms(2)] ordered_audio [OF assms(2)] units_ok_audio [OF assms(2)]
    map_eq_imp_length_eq [OF assms(2)]
  by (auto simp: session_ok_def split: option.splits)

lemma derived_ledger:
  assumes "map sg_index ss = [n..<n + length ss]" "list_all segment_ok ss" "list_all (\<lambda>g. sg_chunks g = None) ss"
    "ordered e ss"
  shows "ledger_ok n e (map (\<lambda>s. \<lparr>ck_sequence = sg_index s, ck_byteLength = sg_byteLength s,
      ck_startMs = sg_startMs s, ck_endMs = sg_endMs s\<rparr>) ss)"
  using assms
proof (induction ss arbitrary: n e)
  case Nil
  then show ?case by simp
next
  case (Cons s ss)
  have "[n..<n + length (s # ss)] = n # [Suc n..<Suc n + length ss]"
    by (rule trans [OF upt_conv_Cons]) simp_all
  with Cons show ?case by (auto simp: segment_ok_def)
qed

lemma derived_units:
  assumes "map sg_index ss = [n..<n + length ss]" "list_all (\<lambda>g. sg_chunks g = None) ss"
    "length pre = n" "led = pre @ map (\<lambda>s. \<lparr>ck_sequence = sg_index s, ck_byteLength = sg_byteLength s,
      ck_startMs = sg_startMs s, ck_endMs = sg_endMs s\<rparr>) ss"
  shows "units_ok led ss n False"
  using assms
proof (induction ss arbitrary: n pre)
  case Nil
  then show ?case by simp
next
  case (Cons s ss)
  have "[n..<n + length (s # ss)] = n # [Suc n..<Suc n + length ss]"
    by (rule trans [OF upt_conv_Cons]) simp_all
  with Cons.prems have i: "sg_index s = n" "map sg_index ss = [Suc n..<Suc n + length ss]" by auto
  let ?c = "\<lparr>ck_sequence = sg_index s, ck_byteLength = sg_byteLength s, ck_startMs = sg_startMs s, ck_endMs = sg_endMs s\<rparr>"
  have "units_ok led ss (Suc n) False"
    by (rule Cons.IH [where pre = "pre @ [?c]"]) (use Cons.prems i in auto)
  moreover have "unitChunkSequences s = [n]" using Cons.prems i by (simp add: unitChunkSequences_def)
  moreover have "take 1 (drop n led) = [?c]" using Cons.prems by simp
  ultimately show ?case using Cons.prems by (simp add: reads_run_def)
qed

lemma session_ledger:
  assumes "session_ok parse s"
  shows "ledger_ok 0 0 (captureChunks s)" "units_ok (captureChunks s) (cs_segments s) 0 False"
proof -
  have "ledger_ok 0 0 (captureChunks s) \<and> units_ok (captureChunks s) (cs_segments s) 0 False"
  proof (cases "cs_chunks s")
    case None
    then show ?thesis
      using assms derived_ledger [of "cs_segments s" 0 0] derived_units [of "cs_segments s" 0 "[]"]
      by (simp add: session_ok_def captureChunks_def)
  next
    case (Some ledger)
    then show ?thesis using assms by (simp add: session_ok_def captureChunks_def)
  qed
  then show "ledger_ok 0 0 (captureChunks s)" "units_ok (captureChunks s) (cs_segments s) 0 False" by auto
qed

lemma filter_ledger:
  "ledger_ok k e cs \<Longrightarrow> filter (\<lambda>c. n \<le> ck_sequence c) cs = drop (n - k) cs"
proof (induction cs arbitrary: k e)
  case Nil
  then show ?case by simp
next
  case (Cons c cs)
  have "filter (\<lambda>c. n \<le> ck_sequence c) cs = drop (n - Suc k) cs"
    using Cons.IH [of "Suc k" "ck_endMs c"] Cons.prems by simp
  with Cons.prems show ?case by (cases "n - k") (auto simp: diff_Suc)
qed

lemma open_suffix_units:
  assumes "ledger_ok 0 0 (captureChunks s)" "units_ok (captureChunks s) (cs_segments s) 0 False"
  shows "openChunks s = drop (reach (cs_segments s)) (captureChunks s)"
  using filter_ledger [OF assms(1)] claimed_reach [OF assms(2)]
  by (simp add: openChunks_def claimedChunkCount_def)

lemma open_suffix:
  assumes "session_ok parse s"
  shows "openChunks s = drop (reach (cs_segments s)) (captureChunks s)"
  by (rule open_suffix_units) (rule session_ledger [OF assms])+

lemma filter_through:
  "ledger_ok k e cs \<Longrightarrow> prefix (filter (\<lambda>c. int (ck_sequence c) \<le> limit) cs) cs"
proof (induction cs arbitrary: k e)
  case Nil
  then show ?case by simp
next
  case (Cons c cs)
  show ?case
  proof (cases "int (ck_sequence c) \<le> limit")
    case True
    with Cons show ?thesis by auto
  next
    case False
    have "ledger_ok (Suc k) (ck_endMs c) cs" using Cons.prems by simp
    then have "\<forall>d \<in> set cs. ck_sequence c < ck_sequence d"
      using Cons.prems by (auto simp: in_set_conv_nth ledger_okD)
    with False have "filter (\<lambda>c. int (ck_sequence c) \<le> limit) cs = []" by (force simp: filter_empty_conv)
    with False show ?thesis by simp
  qed
qed

lemma ledger_ok_drop: "ledger_ok k e cs \<Longrightarrow> \<exists>e'. ledger_ok (k + n) e' (drop n cs)"
proof (induction cs arbitrary: k e n)
  case Nil
  then show ?case by auto
next
  case (Cons c cs)
  show ?case
  proof (cases n)
    case 0
    with Cons.prems show ?thesis by auto
  next
    case (Suc m)
    then show ?thesis using Cons.IH [of "Suc k" "ck_endMs c" m] Cons.prems by auto
  qed
qed

section \<open>Sealing\<close>

lemma toUnit_simps [simp]:
  "sg_index (toUnit i run) = i" "sg_chunks (toUnit i run) = Some (map ck_sequence run)"
  "unitChunkSequences (toUnit i run) = map ck_sequence run" "sg_state (toUnit i run) = seg_pending"
  by (simp_all add: toUnit_def unitChunkSequences_def)

lemma ledger_ok_run:
  "ledger_ok k e run \<Longrightarrow> run \<noteq> [] \<Longrightarrow>
   bytes_of run > 0 \<and> e \<le> ck_startMs (hd run) \<and> ck_startMs (hd run) < ck_endMs (last run)"
proof (induction run arbitrary: k e)
  case Nil
  then show ?case by simp
next
  case (Cons c cs)
  show ?case
  proof (cases "cs = []")
    case True
    with Cons.prems show ?thesis by simp
  next
    case False
    with Cons.IH [of "Suc k" "ck_endMs c"] Cons.prems show ?thesis by simp
  qed
qed

lemma ledger_ok_take: "ledger_ok k e cs \<Longrightarrow> ledger_ok k e (take n cs)"
proof (induction cs arbitrary: k e n)
  case (Cons c cs)
  then show ?case by (cases n) auto
qed simp

lemma ledger_ok_sequences: "ledger_ok k e cs \<Longrightarrow> run_from k (map ck_sequence cs)"
  by (induction cs arbitrary: k e) auto

lemma consecutive_run: "run_from n cs \<Longrightarrow> consecutive cs"
  by (induction cs arbitrary: n rule: consecutive.induct) auto

text \<open>One run of the open suffix becomes the next unit.\<close>

lemma toUnit_ok:
  assumes "ledger_ok 0 0 ledger" "run \<noteq> []" "run = take (length run) (drop n ledger)"
  shows "segment_ok (toUnit i run)" "units_ok ledger [toUnit i run] n saw"
proof -
  obtain e where e: "ledger_ok n e (drop n ledger)" "0 \<le> e"
  proof -
    have "\<exists>e'. ledger_ok (k + n) e' (drop n cs) \<and> 0 \<le> e'" if "ledger_ok k e cs" "0 \<le> e" for k e and cs :: "MeetingChunk list"
      using that
    proof (induction cs arbitrary: k e n)
      case (Cons c cs)
      then show ?case
      proof (cases n)
        case (Suc m)
        then show ?thesis using Cons.IH [of "Suc k" "ck_endMs c" m] Cons.prems by auto
      qed auto
    qed auto
    from this [OF assms(1)] show thesis using that by auto
  qed
  then have r: "ledger_ok n e run" using ledger_ok_take assms(3) by metis
  note run = ledger_ok_run [OF r assms(2)] ledger_ok_sequences [OF r]
  then show "segment_ok (toUnit i run)"
    using assms(2) e(2) by (auto simp: segment_ok_def toUnit_def dest: consecutive_run)
  have "length run \<le> length ledger - n" using assms(3) by (metis length_drop length_take min.cobounded1)
  moreover have "0 < length run" using assms(2) by simp
  ultimately have "n + length run \<le> length ledger" by arith
  then show "units_ok ledger [toUnit i run] n saw"
    using run assms by (simp add: reads_run_def toUnit_def unitChunkSequences_def)
qed

lemma seal_runs:
  assumes "ledger_ok 0 0 ledger" "units_ok ledger ss 0 False"
    and "\<forall>r \<in> set runs. r \<noteq> []" "prefix (concat runs) (drop (reach ss) ledger)"
    and "map sg_index ss = [0..<length ss]" "list_all segment_ok ss"
    and us: "us = fold (\<lambda>r segments. segments @ [toUnit (length segments) r]) runs ss"
  shows "units_ok ledger us 0 False \<and> reach us = reach ss + length (concat runs)
    \<and> map sg_index us = [0..<length us] \<and> list_all segment_ok us
    \<and> (\<exists>fresh. us = ss @ fresh \<and> map unitChunkSequences fresh = map (map ck_sequence) runs
          \<and> (\<forall>u \<in> set fresh. sg_state u = seg_pending))"
  using assms
proof (induction runs arbitrary: ss us)
  case Nil
  then show ?case by simp
next
  case (Cons run runs)
  obtain rest where rest: "drop (reach ss) ledger = run @ concat runs @ rest"
    using Cons.prems(4) by (auto simp: prefix_def)
  then have run: "run = take (length run) (drop (reach ss) ledger)" by simp
  note unit = toUnit_ok [OF Cons.prems(1) _ run, of "length ss"]
  let ?ss = "ss @ [toUnit (length ss) run]"
  have fresh: "units_ok ledger ?ss 0 False" "list_all segment_ok ?ss"
    using unit Cons.prems by (simp_all add: units_ok_append)
  have "drop (reach ?ss) ledger = drop (length run) (drop (reach ss) ledger)" by (simp add: add.commute)
  also have "\<dots> = concat runs @ rest" using rest by simp
  finally have "prefix (concat runs) (drop (reach ?ss) ledger)" by simp
  then have "units_ok ledger us 0 False \<and> reach us = reach ?ss + length (concat runs)
    \<and> map sg_index us = [0..<length us] \<and> list_all segment_ok us
    \<and> (\<exists>fresh. us = ?ss @ fresh \<and> map unitChunkSequences fresh = map (map ck_sequence) runs
          \<and> (\<forall>u \<in> set fresh. sg_state u = seg_pending))"
    using Cons.prems fresh by (intro Cons.IH) simp_all
  then show ?case by auto
qed

definition sealed_from :: "MeetingCaptureSession \<Rightarrow> MeetingSegment list \<Rightarrow> bool" where
  "sealed_from s us \<longleftrightarrow>
     units_ok (captureChunks s) us 0 False \<and> map sg_index us = [0..<length us] \<and> list_all segment_ok us
     \<and> (cs_chunks s = None \<longrightarrow> us = cs_segments s)
     \<and> (\<exists>fresh. us = cs_segments s @ fresh \<and> (\<forall>u \<in> set fresh. sg_state u = seg_pending))"

lemma legacy_nothing_open:
  assumes "session_ok parse s" "cs_chunks s = None"
  shows "openChunks s = []"
proof -
  have "\<forall>g \<in> set (cs_segments s). sg_chunks g = None"
    using assms by (simp add: session_ok_def list_all_iff)
  then have "reach (cs_segments s) = length (cs_segments s)"
    by (induction "cs_segments s") (auto simp: unitChunkSequences_def sum_list_triv cong: map_cong)
  with assms show ?thesis by (simp add: open_suffix [OF assms(1)] captureChunks_def)
qed

lemma seal_shape:
  assumes "session_ok parse s"
  obtains us where "sealUnitsFromLedger s i = s\<lparr>cs_segments := us\<rparr>" "sealed_from s us"
    "su_throughSequence i = None \<and> \<not> su_keepRemainder i \<longrightarrow> reach us = length (captureChunks s)"
proof -
  note led = session_ledger [OF assms]
  have segs: "map sg_index (cs_segments s) = [0..<length (cs_segments s)]" "list_all segment_ok (cs_segments s)"
    using assms by (auto simp: session_ok_def)
  have unchanged: "sealed_from s (cs_segments s)" using led segs by (simp add: sealed_from_def)
  define run where "run = (case su_throughSequence i of None \<Rightarrow> openChunks s
      | Some limit \<Rightarrow> filter (\<lambda>chunk. int (ck_sequence chunk) \<le> limit) (openChunks s))"
  define policy where "policy = (case su_policy i of None \<Rightarrow> BOUNDED_ENDPOINT_UNIT_POLICY | Some p \<Rightarrow> p)"
  define keep where "keep = (su_keepRemainder i \<and> su_throughSequence i = None)"
  define runs where "runs = cutRuns run policy keep"
  obtain e where "ledger_ok (0 + reach (cs_segments s)) e (openChunks s)"
    using ledger_ok_drop [OF led(1)] open_suffix [OF assms] by metis
  then have pre: "prefix run (openChunks s)"
    unfolding run_def by (cases "su_throughSequence i") (auto intro: filter_through)
  have seal: "sealUnitsFromLedger s i = (if run = [] \<or> runs = [] then s
      else s\<lparr>cs_segments := fold (\<lambda>r segments. segments @ [toUnit (length segments) r]) runs (cs_segments s)\<rparr>)"
    by (simp add: sealUnitsFromLedger_def runs_def run_def policy_def keep_def Let_def)
  have all_open: "reach (cs_segments s) + length (openChunks s) = length (captureChunks s)"
    using units_ok_reach [OF led(2)] by (cases "cs_segments s = []") (auto simp: open_suffix [OF assms])
  have total: "su_throughSequence i = None \<and> \<not> su_keepRemainder i \<longrightarrow> concat runs = openChunks s"
    by (auto simp: runs_def run_def keep_def cutRuns_concat)
  show thesis
  proof (cases "run = [] \<or> runs = []")
    case True
    have "concat runs = []" using True by (auto simp: runs_def cutRuns_def)
    with that [of "cs_segments s"] True seal unchanged total all_open show thesis by auto
  next
    case False
    define us where "us = fold (\<lambda>r segments. segments @ [toUnit (length segments) r]) runs (cs_segments s)"
    have "prefix (concat runs) (drop (reach (cs_segments s)) (captureChunks s))"
      using prefix_order.order_trans [OF cutRuns_prefix pre] open_suffix [OF assms] unfolding runs_def by metis
    moreover have "\<forall>r \<in> set runs. r \<noteq> []" by (auto simp: runs_def dest: cutRuns_nonempty)
    ultimately have us: "units_ok (captureChunks s) us 0 False \<and> reach us = reach (cs_segments s) + length (concat runs)
        \<and> map sg_index us = [0..<length us] \<and> list_all segment_ok us
        \<and> (\<exists>fresh. us = cs_segments s @ fresh \<and> map unitChunkSequences fresh = map (map ck_sequence) runs
              \<and> (\<forall>u \<in> set fresh. sg_state u = seg_pending))"
      using led segs us_def by (intro seal_runs) auto
    have "openChunks s \<noteq> []" using False pre by auto
    then have "cs_chunks s \<noteq> None" using legacy_nothing_open [OF assms] by auto
    with us have "sealed_from s us" by (auto simp: sealed_from_def)
    moreover have "su_throughSequence i = None \<and> \<not> su_keepRemainder i \<longrightarrow> reach us = length (captureChunks s)"
      using us total all_open by auto
    ultimately show thesis using that [of us] False seal us_def by auto
  qed
qed

lemma sealed_ok:
  assumes "session_ok parse s" "sealed_from s us" "lifecycle_ok parse s'"
    "cs_segments s' = us" "cs_chunks s' = cs_chunks s" "cs_id s' = cs_id s"
  shows "session_ok parse s'"
  using assms by (auto simp: session_ok_def sealed_from_def captureChunks_def split: option.splits)

lemma lifecycle_update [simp]:
  "lifecycle_ok parse (s\<lparr>cs_chunks := x\<rparr>) = lifecycle_ok parse s"
  "lifecycle_ok parse (s\<lparr>cs_segments := us\<rparr>) = lifecycle_ok parse s"
  by (cases "cs_status s"; simp add: lifecycle_ok_def)+

section \<open>Appending\<close>

lemma ledger_ok_snoc:
  "ledger_ok k e (cs @ [c]) \<longleftrightarrow> ledger_ok k e cs \<and> ck_sequence c = k + length cs \<and> ck_byteLength c > 0
    \<and> (if cs = [] then e else ck_endMs (last cs)) \<le> ck_startMs c \<and> ck_startMs c < ck_endMs c"
  by (induction cs arbitrary: k e) auto

lemma next_sequence:
  assumes "session_ok parse s"
  shows "nextChunkSequence s = length (captureChunks s)"
proof (cases "captureChunks s = []")
  case False
  then have "ck_sequence (last (captureChunks s)) = length (captureChunks s) - 1"
    using ledger_okD [OF session_ledger(1) [OF assms], of "length (captureChunks s) - 1"] by (simp add: last_conv_nth)
  with False show ?thesis by (simp add: nextChunkSequence_def Let_def)
qed (simp add: nextChunkSequence_def)

lemma appendChunkToLedger_shape:
  assumes "appendChunkToLedger s i = Inr s'"
  obtains c where "s' = s\<lparr>cs_chunks := Some (captureChunks s @ [c])\<rparr>" "ck_sequence c = nextChunkSequence s"
    "ck_byteLength c > 0" "(if captureChunks s = [] then 0 else ck_endMs (last (captureChunks s))) \<le> ck_startMs c"
    "ck_startMs c < ck_endMs c"
  using assms that
  by (auto simp: appendChunkToLedger_def Let_def js_round_ge_int not_less split: jsnum.splits if_splits option.splits)

lemma append_ok:
  assumes "session_ok parse s" "appendChunkToLedger s i = Inr s'"
  shows "session_ok parse s'"
proof -
  note led = session_ledger [OF assms(1)]
  obtain c where c: "s' = s\<lparr>cs_chunks := Some (captureChunks s @ [c])\<rparr>" "ck_sequence c = nextChunkSequence s"
    "ck_byteLength c > 0" "(if captureChunks s = [] then 0 else ck_endMs (last (captureChunks s))) \<le> ck_startMs c"
    "ck_startMs c < ck_endMs c"
    using appendChunkToLedger_shape [OF assms(2)] .
  then have "ledger_ok 0 0 (captureChunks s @ [c])"
    using led next_sequence [OF assms(1)] by (simp add: ledger_ok_snoc)
  moreover have "units_ok (captureChunks s @ [c]) (cs_segments s) 0 False"
    by (rule units_ok_extend) (rule led)
  ultimately show ?thesis using assms(1) c by (simp add: session_ok_def)
qed

text \<open>
  The path without a ledger. It rounds only after it has tested, so a record stays readable
  when at least one byte and one millisecond were recorded.
\<close>

definition whole_input :: "AppendChunkInput \<Rightarrow> bool" where
  "whole_input i \<longleftrightarrow> (\<exists>b d. ac_byteLength i = Fin b \<and> ac_durationMs i = Fin d \<and> 1 \<le> b \<and> 1 \<le> d)"

lemma ordered_append:
  "ordered e (ss @ [s]) \<longleftrightarrow> ordered e ss \<and> (if ss = [] then e else sg_endMs (last ss)) \<le> sg_startMs s"
  by (induction ss arbitrary: e) auto

lemma js_round_add_one: "1 \<le> d \<Longrightarrow> js_round s < js_round (s + d)"
proof -
  assume "1 \<le> d"
  then have "js_round (s + 1) \<le> js_round (s + d)" by (intro js_round_mono) simp
  moreover have "s + 1 + 1 / 2 = s + 1 / 2 + of_int 1" by simp
  then have "js_round (s + 1) = js_round s + 1" unfolding js_round_def by (simp only: floor_add_int)
  ultimately show ?thesis by simp
qed

lemma appendSegment_legacy:
  assumes "cs_chunks s = None" "appendSegment s i = Inr s'" "whole_input i"
  obtains g where "s' = s\<lparr>cs_segments := cs_segments s @ [g]\<rparr>" "sg_index g = length (cs_segments s)"
    "sg_byteLength g > 0" "sg_startMs g < sg_endMs g" "sg_chunks g = None" "sg_state g = seg_pending"
    "(if cs_segments s \<noteq> [] then sg_endMs (last (cs_segments s)) else 0) \<le> sg_startMs g"
proof -
  let ?prev = "if cs_segments s \<noteq> [] then sg_endMs (last (cs_segments s)) else 0"
  obtain b d where bd: "ac_byteLength i = Fin b" "ac_durationMs i = Fin d" "1 \<le> b" "1 \<le> d"
    using assms(3) by (auto simp: whole_input_def)
  show thesis
  proof (cases "case ac_startMs i of None \<Rightarrow> Fin (of_int ?prev) | Some s \<Rightarrow> s")
    case (Fin q)
    have q: "of_int ?prev \<le> q" and s': "s' = s\<lparr>cs_segments := cs_segments s @
      [\<lparr>sg_index = length (cs_segments s), sg_byteLength = js_round b,
        sg_startMs = js_round q, sg_endMs = js_round (q + d), sg_chunks = None,
        sg_state = seg_pending, sg_text = None, sg_failureReason = None,
        sg_attempts = 0, sg_deferrals = None, sg_lastAttemptAt = None\<rparr>]\<rparr>"
      using assms(1,2) bd(3,4) unfolding appendSegment_def Let_def bd(1,2) Fin jsnum.case
      by (simp_all add: not_less split: if_splits)
    have "1 \<le> js_round b" using js_round_ge_int [of 1 b] bd by simp
    moreover have "?prev \<le> js_round q" using q by (rule js_round_ge_int)
    ultimately show thesis using that [OF s'] js_round_add_one [OF bd(4), of q] by simp
  next
    case NonFinite
    then show thesis
      using assms(1,2) bd(3,4) unfolding appendSegment_def Let_def bd(1,2) NonFinite jsnum.case
      by (simp split: if_splits)
  qed
qed

lemma appendSegment_ok:
  assumes ok: "session_ok parse s" and s': "appendSegment s i = Inr s'" and i: "cs_chunks s = None \<Longrightarrow> whole_input i"
  shows "session_ok parse s'"
proof (cases "cs_chunks s")
  case None
  obtain g where g: "s' = s\<lparr>cs_segments := cs_segments s @ [g]\<rparr>" "sg_index g = length (cs_segments s)"
    "sg_byteLength g > 0" "sg_startMs g < sg_endMs g" "sg_chunks g = None" "sg_state g = seg_pending"
    "(if cs_segments s \<noteq> [] then sg_endMs (last (cs_segments s)) else 0) \<le> sg_startMs g"
    using appendSegment_legacy [OF None s' i [OF None]] .
  moreover have "0 \<le> sg_endMs (last (cs_segments s))" if "cs_segments s \<noteq> []"
  proof -
    have "segment_ok (last (cs_segments s))"
      using ok last_in_set [OF that] by (auto simp: session_ok_def list_all_iff)
    then show ?thesis by (simp add: segment_ok_def)
  qed
  ultimately have "segment_ok g" by (auto simp: segment_ok_def split: if_splits)
  with g None ok show ?thesis by (auto simp: session_ok_def ordered_append split: if_splits)
next
  case (Some ledger)
  then obtain a where a: "appendChunkToLedger s i = Inr a"
    and seal: "\<exists>j. s' = sealUnitsFromLedger a j"
    using s' by (auto simp: appendSegment_def Let_def split: if_splits sum.splits)
  from seal obtain j where j: "s' = sealUnitsFromLedger a j" ..
  have a_ok: "session_ok parse a" by (rule append_ok [OF ok a])
  obtain us where "sealUnitsFromLedger a j = a\<lparr>cs_segments := us\<rparr>" "sealed_from a us"
    using seal_shape [OF a_ok] by metis
  with j a_ok show ?thesis by (intro sealed_ok [OF a_ok, of us]) (auto simp: session_ok_def)
qed

section \<open>The step relation\<close>

text \<open>
  What a host may do to a record: every transition of \<open>captureSession.ts\<close>, with an instant
  that \<open>Date.parse\<close> reads wherever the transition stamps a lifecycle field.
\<close>

inductive capture_step ::
  "(string \<Rightarrow> jsnum) \<Rightarrow> MeetingCaptureSession \<Rightarrow> MeetingCaptureSession \<Rightarrow> bool" for parse
where
  step_chunk: "appendChunk s i = Inr s' \<Longrightarrow> capture_step parse s s'"
| step_segment: "appendSegment s i = Inr s' \<Longrightarrow> capture_step parse s s'"
| step_seal: "sealUnit s j = Inr s' \<Longrightarrow> capture_step parse s s'"
| step_seal_due: "sealDueUnits s policy = Inr s' \<Longrightarrow> capture_step parse s s'"
| step_transcribing: "markTranscribing s k t = Inr s' \<Longrightarrow> capture_step parse s s'"
| step_done: "markDone s k body = Inr s' \<Longrightarrow> capture_step parse s s'"
| step_failed: "markFailed s k reason t = Inr s' \<Longrightarrow> capture_step parse s s'"
| step_requeue: "requeueSegment s k previous t = Inr s' \<Longrightarrow> capture_step parse s s'"
| step_stop: "stopCapture s t = Inr s' \<Longrightarrow> persisted parse (Some t) \<Longrightarrow> capture_step parse s s'"
| step_resume: "resumeCapture s = Inr s' \<Longrightarrow> capture_step parse s s'"
| step_finalize: "finalizeCapture s t = Inr s' \<Longrightarrow> persisted parse (Some t) \<Longrightarrow> capture_step parse s s'"
| step_discard: "discardCapture s t = Inr s' \<Longrightarrow> persisted parse (Some t) \<Longrightarrow> capture_step parse s s'"
| step_recover: "s' = recoverCaptureSession s t \<Longrightarrow> persisted parse (Some t) \<Longrightarrow> capture_step parse s s'"

text \<open>
  The one transition that can spoil a record: an append to a record without a ledger whose
  input is below one byte or one millisecond, which passes the test for being positive and
  is rounded afterwards (\<open>tiny_legacy_segment_is_unreadable\<close> below).
\<close>

definition tiny_legacy_append :: "MeetingCaptureSession \<Rightarrow> MeetingCaptureSession \<Rightarrow> bool" where
  "tiny_legacy_append s s' \<longleftrightarrow>
     cs_chunks s = None \<and> (\<exists>i. appendSegment s i = Inr s' \<and> \<not> whole_input i)"

definition readable_step ::
  "(string \<Rightarrow> jsnum) \<Rightarrow> MeetingCaptureSession \<Rightarrow> MeetingCaptureSession \<Rightarrow> bool"
where
  "readable_step parse s s' \<longleftrightarrow> capture_step parse s s' \<and> \<not> tiny_legacy_append s s'"

text \<open>A transition of one segment: the audio stays, and a settled segment is not touched.\<close>

definition segment_step :: "(MeetingSegment \<Rightarrow> string + MeetingSegment) \<Rightarrow> bool" where
  "segment_step f \<longleftrightarrow> (\<forall>g g'. f g = Inr g' \<longrightarrow> audio g' = audio g \<and> (sg_state g = seg_done \<longrightarrow> g' = g))"

lemma replaceSegment_shape:
  assumes "replaceSegment s k f = Inr s'" "segment_step f"
  obtains g' where "s' = s\<lparr>cs_segments := (cs_segments s)[k := g']\<rparr>" "k < length (cs_segments s)"
    "audio g' = audio (cs_segments s ! k)" "sg_state (cs_segments s ! k) = seg_done \<longrightarrow> g' = cs_segments s ! k"
    "\<not> isTerminalCaptureStatus (cs_status s)" "f (cs_segments s ! k) = Inr g'"
proof -
  from assms(1) obtain g' where *: "f (cs_segments s ! k) = Inr g'" "k < length (cs_segments s)"
    "s' = s\<lparr>cs_segments := (cs_segments s)[k := g']\<rparr>" "\<not> isTerminalCaptureStatus (cs_status s)"
    by (auto simp: replaceSegment_def split: if_splits sum.splits)
  with assms(2) that show thesis by (auto simp: segment_step_def)
qed

lemma segment_step_ok:
  assumes "session_ok parse s" "replaceSegment s k f = Inr s'" "segment_step f"
  shows "session_ok parse s'"
proof -
  obtain g' where g: "s' = s\<lparr>cs_segments := (cs_segments s)[k := g']\<rparr>" "k < length (cs_segments s)"
    "audio g' = audio (cs_segments s ! k)" "sg_state (cs_segments s ! k) = seg_done \<longrightarrow> g' = cs_segments s ! k"
    "\<not> isTerminalCaptureStatus (cs_status s)" "f (cs_segments s ! k) = Inr g'"
    by (rule replaceSegment_shape [OF assms(2,3)])
  then have "map audio (cs_segments s') = map audio (cs_segments s)"
    by (simp add: map_update list_eq_iff_nth_eq nth_list_update)
  moreover have "lifecycle_ok parse s" using assms(1) by (simp add: session_ok_def)
  ultimately show ?thesis using g by (intro session_ok_audio [OF assms(1)]) simp_all
qed

lemma transition_ok:
  assumes "session_ok parse s"
  shows "markTranscribing s k t = Inr s' \<Longrightarrow> session_ok parse s'"
    "markDone s k body = Inr s' \<Longrightarrow> session_ok parse s'"
    "markFailed s k reason t = Inr s' \<Longrightarrow> session_ok parse s'"
    "requeueSegment s k previous t = Inr s' \<Longrightarrow> session_ok parse s'"
  unfolding markTranscribing_def markDone_def markFailed_def requeueSegment_def
  by (erule segment_step_ok [OF assms], force simp: segment_step_def audio_def Let_def split: if_splits)+

lemma requireOpen_simps [simp]:
  "requireOpen s verb = Inr u \<longleftrightarrow> \<not> isTerminalCaptureStatus (cs_status s)"
  "requireOpen s verb = Inl e \<longleftrightarrow> isTerminalCaptureStatus (cs_status s)
     \<and> e = ''Cannot '' @ verb @ '' a meeting that is already '' @ status_name (cs_status s) @ ''.''"
  by (auto simp: requireOpen_def)

lemma terminal_iff [simp]: "isTerminalCaptureStatus st \<longleftrightarrow> st = finalized \<or> st = discarded"
  by (auto simp: isTerminalCaptureStatus_def TERMINAL_STATUSES_def)

text \<open>The three transitions that seal everything, and then correct states and lifecycle.\<close>

definition close_out :: "MeetingCaptureSession \<Rightarrow> MeetingCaptureSession \<Rightarrow> bool" where
  "close_out s s' \<longleftrightarrow> (\<exists>t. stopCapture s t = Inr s' \<or> finalizeCapture s t = Inr s'
     \<or> (\<not> isTerminalCaptureStatus (cs_status s) \<and> s' = recoverCaptureSession s t))"

lemma map_audio_if [simp]:
  "map audio (map (\<lambda>g. if P g then g\<lparr>sg_state := x, sg_failureReason := y, sg_lastAttemptAt := z\<rparr> else g) us) = map audio us"
  by (simp add: audio_def)

lemma close_out_shape:
  assumes "session_ok parse s" "close_out s s'"
  obtains us where "sealed_from s us" "reach us = length (captureChunks s)"
    "map audio (cs_segments s') = map audio us" "cs_chunks s' = cs_chunks s" "cs_id s' = cs_id s"
proof -
  obtain us where us: "seal_all s = s\<lparr>cs_segments := us\<rparr>" "sealed_from s us" "reach us = length (captureChunks s)"
    using seal_shape [OF assms(1), of "\<lparr>su_throughSequence = None, su_policy = Some DEFAULT_MEETING_UNIT_POLICY,
      su_keepRemainder = False\<rparr>"] by auto
  from assms(2) obtain t where "stopCapture s t = Inr s' \<or> finalizeCapture s t = Inr s'
     \<or> (\<not> isTerminalCaptureStatus (cs_status s) \<and> s' = recoverCaptureSession s t)"
    by (auto simp: close_out_def)
  then have "map audio (cs_segments s') = map audio us \<and> cs_chunks s' = cs_chunks s \<and> cs_id s' = cs_id s"
    by (auto simp: stopCapture_def finalizeCapture_def recoverCaptureSession_def us(1) Let_def
        simp del: terminal_iff map_map split: if_splits sum.splits)
  with us that show thesis by blast
qed

lemma close_out_ok:
  assumes "session_ok parse s" "close_out s s'" "lifecycle_ok parse s'"
  shows "session_ok parse s'"
proof -
  obtain us where us: "sealed_from s us" "map audio (cs_segments s') = map audio us"
    "cs_chunks s' = cs_chunks s" "cs_id s' = cs_id s"
    using close_out_shape [OF assms(1,2)] by metis
  have "session_ok parse (s\<lparr>cs_segments := us\<rparr>)"
    by (rule sealed_ok [OF assms(1) us(1)]) (use assms(1) in \<open>simp_all add: session_ok_def\<close>)
  then show ?thesis by (rule session_ok_audio) (use us assms(3) in simp_all)
qed

lemma stamped_or_else: "persisted parse (Some t) \<Longrightarrow> persisted parse x \<or> x = None \<Longrightarrow> persisted parse (or_else x (Some t))"
  by (cases x) auto

lemma seal_lifecycle [simp]:
  "cs_status (sealUnitsFromLedger s j) = cs_status s" "cs_stoppedAt (sealUnitsFromLedger s j) = cs_stoppedAt s"
  "cs_closedAt (sealUnitsFromLedger s j) = cs_closedAt s"
  by (simp_all add: sealUnitsFromLedger_def Let_def)

lemma stopped_stamp:
  "lifecycle_ok parse s \<Longrightarrow> persisted parse (cs_stoppedAt s) \<or> cs_stoppedAt s = None"
  by (cases "cs_status s") (auto simp: lifecycle_ok_def)

lemma resume_lifecycle: "lifecycle_ok parse s \<Longrightarrow> resumeCapture s = Inr s' \<Longrightarrow> lifecycle_ok parse s'"
  by (cases "cs_status s") (auto simp: resumeCapture_def lifecycle_ok_def split: if_splits sum.splits)

lemma lifecycle_steps:
  assumes "lifecycle_ok parse s" "persisted parse (Some t)"
  shows "stopCapture s t = Inr s' \<Longrightarrow> lifecycle_ok parse s'"
    "finalizeCapture s t = Inr s' \<Longrightarrow> lifecycle_ok parse s'"
    "discardCapture s t = Inr s' \<Longrightarrow> lifecycle_ok parse s'"
    "lifecycle_ok parse (recoverCaptureSession s t)"
proof -
  have stop: "persisted parse (or_else (cs_stoppedAt s) (Some t))"
    using stamped_or_else [OF assms(2) stopped_stamp [OF assms(1)]] .
  show "stopCapture s t = Inr s' \<Longrightarrow> lifecycle_ok parse s'"
    using assms by (cases "cs_status s") (auto simp: stopCapture_def Let_def lifecycle_ok_def split: if_splits sum.splits)
  show "finalizeCapture s t = Inr s' \<Longrightarrow> lifecycle_ok parse s'"
    using assms stop by (auto simp: finalizeCapture_def Let_def lifecycle_ok_def split: if_splits sum.splits)
  show "discardCapture s t = Inr s' \<Longrightarrow> lifecycle_ok parse s'"
    using assms stop by (auto simp: discardCapture_def lifecycle_ok_def split: if_splits sum.splits)
  show "lifecycle_ok parse (recoverCaptureSession s t)"
    using assms stop by (cases "cs_status s") (auto simp: recoverCaptureSession_def Let_def lifecycle_ok_def)
qed

lemma seal_session_ok:
  assumes "session_ok parse s"
  shows "session_ok parse (sealUnitsFromLedger s j)"
proof -
  obtain us where "sealUnitsFromLedger s j = s\<lparr>cs_segments := us\<rparr>" "sealed_from s us"
    by (rule seal_shape [OF assms])
  with assms show ?thesis by (intro sealed_ok [OF assms, of us]) (auto simp: session_ok_def)
qed

lemma readable_step_ok:
  assumes "session_ok parse s" "readable_step parse s s'"
  shows "session_ok parse s'"
proof -
  note life = lifecycle_steps [of parse s]
  have l: "lifecycle_ok parse s" using assms(1) by (simp add: session_ok_def)
  have same: "session_ok parse x" if "cs_segments x = cs_segments s" "cs_chunks x = cs_chunks s" "cs_id x = cs_id s"
    "lifecycle_ok parse x" for x
    by (rule session_ok_audio [OF assms(1)]) (use that in simp_all)
  have whole: "appendSegment s i = Inr s' \<Longrightarrow> cs_chunks s = None \<Longrightarrow> whole_input i" for i
    using assms(2) by (auto simp: readable_step_def tiny_legacy_append_def)
  from assms(2) have "capture_step parse s s'" by (simp add: readable_step_def)
  then show ?thesis
  proof cases
    case (step_chunk i)
    then show ?thesis using append_ok [OF assms(1)] by (simp add: appendChunk_def split: if_splits)
  next
    case (step_segment i)
    then show ?thesis using appendSegment_ok [OF assms(1), of i s'] whole [of i] by simp
  next
    case (step_seal j)
    then show ?thesis using seal_session_ok [OF assms(1)] by (auto simp: sealUnit_def split: sum.splits)
  next
    case (step_seal_due policy)
    then show ?thesis
      using seal_session_ok [OF assms(1)] assms(1) by (auto simp: sealDueUnits_def split: sum.splits if_splits)
  next
    case (step_transcribing k t)
    then show ?thesis using transition_ok [OF assms(1)] by blast
  next
    case (step_done k body)
    then show ?thesis using transition_ok [OF assms(1)] by blast
  next
    case (step_failed k reason t)
    then show ?thesis using transition_ok [OF assms(1)] by blast
  next
    case (step_requeue k previous t)
    then show ?thesis using transition_ok [OF assms(1)] by blast
  next
    case (step_stop t)
    then show ?thesis using close_out_ok [OF assms(1)] life(1) [OF l] by (auto simp: close_out_def)
  next
    case step_resume
    then show ?thesis
      using resume_lifecycle [OF l] same assms(1) by (auto simp: resumeCapture_def split: sum.splits if_splits)
  next
    case (step_finalize t)
    then show ?thesis using close_out_ok [OF assms(1)] life(2) [OF l] by (auto simp: close_out_def)
  next
    case (step_discard t)
    then show ?thesis
      using life(3) [OF l] same by (auto simp: discardCapture_def split: sum.splits if_splits)
  next
    case (step_recover t)
    then show ?thesis
      using close_out_ok [OF assms(1)] life(4) [OF l] assms(1)
      by (cases "isTerminalCaptureStatus (cs_status s)")
        (auto simp: close_out_def recoverCaptureSession_def simp del: terminal_iff)
  qed
qed

lemma readable_steps_ok:
  "(readable_step parse)\<^sup>*\<^sup>* s s' \<Longrightarrow> session_ok parse s \<Longrightarrow> session_ok parse s'"
  by (induction rule: rtranclp_induct) (auto intro: readable_step_ok)

lemma created_ok: "createCaptureSession input freshId now = Inr s \<Longrightarrow> session_ok parse s"
  by (auto simp: createCaptureSession_def session_ok_def lifecycle_ok_def Let_def split: if_splits)

section \<open>Settled segments\<close>

definition keeps_settled :: "MeetingCaptureSession \<Rightarrow> MeetingCaptureSession \<Rightarrow> bool" where
  "keeps_settled s s' \<longleftrightarrow>
     length (cs_segments s) \<le> length (cs_segments s')
     \<and> (\<forall>k < length (cs_segments s). sg_state (cs_segments s ! k) = seg_done \<longrightarrow> cs_segments s' ! k = cs_segments s ! k)"

lemma keeps_settled_refl [simp]: "keeps_settled s s"
  by (simp add: keeps_settled_def)

lemma keeps_settled_trans: "keeps_settled s s' \<Longrightarrow> keeps_settled s' s'' \<Longrightarrow> keeps_settled s s''"
  unfolding keeps_settled_def by (metis (no_types, lifting) le_trans less_le_trans)

lemma keeps_settled_append: "cs_segments s' = cs_segments s @ fresh \<Longrightarrow> keeps_settled s s'"
  by (simp add: keeps_settled_def nth_append)

lemma fold_units:
  "\<exists>fresh. fold (\<lambda>r segments. segments @ [toUnit (length segments) r]) runs ss = ss @ fresh
    \<and> (\<forall>u \<in> set fresh. \<exists>j. \<exists>r \<in> set runs. u = toUnit j r)"
proof (induction runs arbitrary: ss)
  case (Cons r runs)
  from Cons [of "ss @ [toUnit (length ss) r]"] obtain fresh
    where "fold (\<lambda>r segments. segments @ [toUnit (length segments) r]) (r # runs) ss = ss @ toUnit (length ss) r # fresh"
      "\<forall>u \<in> set fresh. \<exists>j. \<exists>r \<in> set runs. u = toUnit j r" by auto
  then show ?case by (intro exI [of _ "toUnit (length ss) r # fresh"]) fastforce
qed simp

lemma seal_keeps: "keeps_settled s (sealUnitsFromLedger s j)"
proof -
  have "cs_segments (sealUnitsFromLedger s j) = cs_segments s
      \<or> (\<exists>runs. cs_segments (sealUnitsFromLedger s j)
            = fold (\<lambda>r segments. segments @ [toUnit (length segments) r]) runs (cs_segments s))"
    by (simp add: sealUnitsFromLedger_def Let_def) blast
  then obtain fresh where "cs_segments (sealUnitsFromLedger s j) = cs_segments s @ fresh"
    using fold_units [of _ "cs_segments s"] by (metis append_Nil2)
  then show ?thesis by (rule keeps_settled_append)
qed

lemma keeps_settled_map:
  "cs_segments s'' = map f (cs_segments s') \<Longrightarrow> keeps_settled s s' \<Longrightarrow>
   (\<And>g. sg_state g = seg_done \<Longrightarrow> f g = g) \<Longrightarrow> keeps_settled s s''"
  by (auto simp: keeps_settled_def)

lemma segment_step_keeps:
  assumes "replaceSegment s k f = Inr s'" "segment_step f"
  shows "keeps_settled s s'"
  using replaceSegment_shape [OF assms] by (metis (no_types, lifting) keeps_settled_def length_list_update
      MeetingCaptureSession.select_convs(8) MeetingCaptureSession.surjective MeetingCaptureSession.update_convs(8)
      nth_list_update order_refl)

lemma appendSegment_legacy_shape:
  "appendSegment s i = Inr s' \<Longrightarrow> cs_chunks s = None \<Longrightarrow> \<exists>g. s' = s\<lparr>cs_segments := cs_segments s @ [g]\<rparr>"
  by (auto simp: appendSegment_def Let_def split: if_splits jsnum.splits)

lemma capture_step_keeps:
  assumes "capture_step parse s s'"
  shows "keeps_settled s s'"
  using assms
proof cases
  case (step_chunk i)
  then obtain c where "s' = s\<lparr>cs_chunks := Some (captureChunks s @ [c])\<rparr>"
    by (auto simp: appendChunk_def split: if_splits elim: appendChunkToLedger_shape)
  then show ?thesis by (simp add: keeps_settled_def)
next
  case (step_segment i)
  show ?thesis
  proof (cases "cs_chunks s")
    case None
    then show ?thesis
      using appendSegment_legacy_shape [OF step_segment] by (auto simp: keeps_settled_def nth_append)
  next
    case (Some ledger)
    then obtain a where a: "appendChunkToLedger s i = Inr a" and seal: "\<exists>j. s' = sealUnitsFromLedger a j"
      using step_segment by (auto simp: appendSegment_def Let_def split: if_splits sum.splits)
    from a obtain c where "a = s\<lparr>cs_chunks := Some (captureChunks s @ [c])\<rparr>" by (elim appendChunkToLedger_shape)
    then have "keeps_settled s a" by (simp add: keeps_settled_def)
    with seal show ?thesis using seal_keeps keeps_settled_trans by blast
  qed
next
  case (step_seal j)
  then show ?thesis using seal_keeps by (auto simp: sealUnit_def split: sum.splits)
next
  case (step_seal_due policy)
  then show ?thesis using seal_keeps by (auto simp: sealDueUnits_def split: sum.splits if_splits)
next
  case (step_transcribing k t)
  then show ?thesis unfolding markTranscribing_def
    by (rule segment_step_keeps) (force simp: segment_step_def audio_def split: if_splits)
next
  case (step_done k body)
  then show ?thesis unfolding markDone_def
    by (rule segment_step_keeps) (force simp: segment_step_def audio_def split: if_splits)
next
  case (step_failed k reason t)
  then show ?thesis unfolding markFailed_def
    by (rule segment_step_keeps) (force simp: segment_step_def audio_def Let_def split: if_splits)
next
  case (step_requeue k previous t)
  then show ?thesis unfolding requeueSegment_def
    by (rule segment_step_keeps) (force simp: segment_step_def audio_def Let_def split: if_splits)
next
  case (step_stop t)
  then have "cs_segments s' = cs_segments (seal_all s)"
    by (auto simp: stopCapture_def Let_def split: sum.splits if_splits)
  then show ?thesis using seal_keeps by (simp add: keeps_settled_def)
next
  case step_resume
  then show ?thesis by (auto simp: resumeCapture_def keeps_settled_def split: sum.splits if_splits)
next
  case (step_finalize t)
  then show ?thesis
    by (auto simp: finalizeCapture_def Let_def split: sum.splits if_splits intro!: keeps_settled_map [OF _ seal_keeps])
next
  case (step_discard t)
  then show ?thesis by (auto simp: discardCapture_def keeps_settled_def split: sum.splits if_splits)
next
  case (step_recover t)
  then show ?thesis
    by (auto simp: recoverCaptureSession_def Let_def intro!: keeps_settled_map [OF _ seal_keeps])
qed

section \<open>Properties\<close>

definition demo_scope :: MeetingCaptureScope where
  "demo_scope = \<lparr>sc_orgId = None, sc_workspaceId = None\<rparr>"

definition demo_capture :: MeetingCaptureSession where
  "demo_capture =
     \<lparr>cs_id = ''m1'', cs_startedAt = ''t0'', cs_scope = demo_scope, cs_title = ''Weekly'',
      cs_template = general, cs_language = None, cs_status = recording, cs_segments = [],
      cs_chunks = Some [\<lparr>ck_sequence = 0, ck_byteLength = 10, ck_startMs = 0, ck_endMs = 3000\<rparr>],
      cs_stoppedAt = None, cs_closedAt = None\<rparr>"

text \<open>
  C6. No transition makes a record the code would refuse to read back, but for one that is
  named: from a new capture, or from any record the validator accepts (current or without a
  ledger), every sequence of transitions, at instants \<open>Date.parse\<close> reads, none of which
  appends a segment of less than one byte or one millisecond to a record without a ledger,
  ends in a record the validator accepts, as long as its ranges and sizes are safe integers.
  (The excepted append is accepted by the code and does make an unreadable record.)
\<close>

theorem capture_steps_stay_readable:
  assumes "createCaptureSession input freshId now = Inr s
      \<or> isMeetingCaptureSession parse (session_json s) \<and> within_safe s"
    and "(\<lambda>a b. capture_step parse a b \<and> \<not> tiny_legacy_append a b)\<^sup>*\<^sup>* s s'" and "within_safe s'"
  shows "isMeetingCaptureSession parse (session_json s')"
proof -
  have "session_ok parse s"
    using assms(1) created_ok isMeetingCaptureSession_json by blast
  then have "session_ok parse s'" by (rule readable_steps_ok [OF assms(2) [folded readable_step_def]])
  then show ?thesis using assms(3) isMeetingCaptureSession_json by blast
qed

lemma demo_capture_ok: "session_ok (\<lambda>_. Fin 0) demo_capture"
  by (simp add: session_ok_def demo_capture_def SESSION_ID_SHAPE_def alnum_def lifecycle_ok_def of_char_def)

theorem capture_steps_stay_readable_witness:
  "isMeetingCaptureSession (\<lambda>_. Fin 0) (session_json (recoverCaptureSession demo_capture ''t1''))"
proof (rule capture_steps_stay_readable [where s = demo_capture])
  show "createCaptureSession undefined undefined undefined = Inr demo_capture
      \<or> isMeetingCaptureSession (\<lambda>_. Fin 0) (session_json demo_capture) \<and> within_safe demo_capture"
  proof (rule disjI2)
    have safe: "within_safe demo_capture"
      by (simp add: within_safe_def captureChunks_def demo_capture_def MAX_SAFE_INTEGER_def)
    then show "isMeetingCaptureSession (\<lambda>_. Fin 0) (session_json demo_capture) \<and> within_safe demo_capture"
      using demo_capture_ok isMeetingCaptureSession_json by blast
  qed
  show "(\<lambda>a b. capture_step (\<lambda>_. Fin 0) a b \<and> \<not> tiny_legacy_append a b)\<^sup>*\<^sup>* demo_capture
      (recoverCaptureSession demo_capture ''t1'')"
  proof (rule r_into_rtranclp, rule conjI)
    show "capture_step (\<lambda>_. Fin 0) demo_capture (recoverCaptureSession demo_capture ''t1'')"
      by (rule step_recover) (auto simp: persisted_def)
    show "\<not> tiny_legacy_append demo_capture (recoverCaptureSession demo_capture ''t1'')"
      by (simp add: tiny_legacy_append_def demo_capture_def)
  qed
  show "within_safe (recoverCaptureSession demo_capture ''t1'')"
    by (simp add: within_safe_def captureChunks_def recoverCaptureSession_def sealUnitsFromLedger_def
        openChunks_def claimedChunkCount_def cutRuns_def demo_capture_def MAX_SAFE_INTEGER_def
        DEFAULT_MEETING_UNIT_POLICY_def DEFAULT_MEETING_UNIT_MS_def Let_def)
qed

text \<open>
  C7. A stop, a finalization and a recovery leave no audio that no unit mentions: afterwards the
  units read the whole ledger, front to back, every chunk in exactly one unit, and the ledger
  itself is what it was.
\<close>

theorem closing_claims_every_chunk:
  assumes "isMeetingCaptureSession parse (session_json s)" "within_safe s"
    and "stopCapture s t = Inr s' \<or> finalizeCapture s t = Inr s'
      \<or> \<not> isTerminalCaptureStatus (cs_status s) \<and> s' = recoverCaptureSession s t"
  shows "openChunks s' = [] \<and> captureChunks s' = captureChunks s
    \<and> concat (map unitChunkSequences (cs_segments s')) = [0..<length (captureChunks s)]"
proof -
  have ok: "session_ok parse s" using assms isMeetingCaptureSession_json by blast
  have "close_out s s'" using assms(3) by (auto simp: close_out_def)
  then obtain us where us: "sealed_from s us" "reach us = length (captureChunks s)"
    "map audio (cs_segments s') = map audio us" "cs_chunks s' = cs_chunks s"
    using close_out_shape [OF ok] by metis
  have units: "units_ok (captureChunks s) (cs_segments s') 0 False"
    using us by (simp add: sealed_from_def units_ok_audio [OF us(3)])
  have r: "reach (cs_segments s') = length (captureChunks s)"
    using us(3,2) reach_audio by metis
  have c: "captureChunks s' = captureChunks s"
    using us by (intro captureChunks_audio) (auto simp: sealed_from_def)
  have "openChunks s' = []"
    using open_suffix_units [of s'] session_ledger(1) [OF ok] units by (simp add: c r)
  then show ?thesis using units_ok_sequences [OF units] by (simp add: c r)
qed

theorem closing_claims_every_chunk_witness:
  "\<exists>s'. stopCapture demo_capture ''t1'' = Inr s' \<and> concat (map unitChunkSequences (cs_segments s')) = [0]"
proof -
  have safe: "within_safe demo_capture"
    by (simp add: within_safe_def captureChunks_def demo_capture_def MAX_SAFE_INTEGER_def)
  then have ok: "isMeetingCaptureSession (\<lambda>_. Fin 0) (session_json demo_capture)"
    using demo_capture_ok isMeetingCaptureSession_json by blast
  obtain s' where s': "stopCapture demo_capture ''t1'' = Inr s'"
    by (simp add: stopCapture_def demo_capture_def Let_def requireOpen_def)
  have "length (captureChunks demo_capture) = 1" by (simp add: captureChunks_def demo_capture_def)
  with closing_claims_every_chunk [OF ok safe disjI1 [OF s']] s' show ?thesis by simp
qed

text \<open>
  C8. A settled segment is final: whatever happens to the meeting after a segment has its text,
  late results and late failures, outages, sealing, recovery, finalization, the segment keeps
  its place, its text and its accounts.
\<close>

theorem settled_text_is_final:
  assumes "(capture_step parse)\<^sup>*\<^sup>* s s'" "k < length (cs_segments s)" "sg_state (cs_segments s ! k) = seg_done"
  shows "k < length (cs_segments s') \<and> cs_segments s' ! k = cs_segments s ! k"
proof -
  from assms(1) have "keeps_settled s s'"
    by (induction rule: rtranclp_induct) (auto intro: keeps_settled_trans capture_step_keeps)
  with assms(2,3) show ?thesis by (auto simp: keeps_settled_def)
qed

definition demo_segment :: MeetingSegment where
  "demo_segment = (toUnit 0 [\<lparr>ck_sequence = 0, ck_byteLength = 10, ck_startMs = 0, ck_endMs = 3000\<rparr>])
     \<lparr>sg_state := seg_done, sg_text := Some ''hello''\<rparr>"

theorem settled_text_is_final_witness:
  "\<exists>s'. markFailed (demo_capture\<lparr>cs_segments := [demo_segment]\<rparr>) 0 ''late'' ''t2'' = Inr s'
     \<and> cs_segments s' ! 0 = demo_segment"
proof -
  let ?s = "demo_capture\<lparr>cs_segments := [demo_segment]\<rparr>"
  obtain s' where s': "markFailed ?s 0 ''late'' ''t2'' = Inr s'"
    by (simp add: markFailed_def replaceSegment_def demo_segment_def demo_capture_def)
  then have "(capture_step (\<lambda>_. Fin 0))\<^sup>*\<^sup>* ?s s'" by (blast intro: step_failed)
  from settled_text_is_final [OF this, of 0] s' show ?thesis by (simp add: demo_segment_def)
qed

text \<open>
  An outage costs no attempt and is counted: an announced attempt that is given back leaves
  the attempts as they were and one more deferral, pending exactly when nothing was spent
  before; a failure keeps the attempt; a result settles the segment with its text.
\<close>

theorem outage_refunds_the_attempt:
  assumes "markTranscribing s k t = Inr s1" and g: "g = cs_segments s ! k"
  shows "(\<exists>s2. requeueSegment s1 k previous t' = Inr s2
      \<and> sg_attempts (cs_segments s2 ! k) = sg_attempts g
      \<and> sg_deferrals (cs_segments s2 ! k) = Some ((case sg_deferrals g of None \<Rightarrow> 0 | Some n \<Rightarrow> n) + 1)
      \<and> sg_state (cs_segments s2 ! k) = (if sg_attempts g = 0 then seg_pending else seg_failed))
    \<and> (\<exists>s2. markFailed s1 k reason t' = Inr s2
      \<and> sg_attempts (cs_segments s2 ! k) = sg_attempts g + 1
      \<and> sg_deferrals (cs_segments s2 ! k) = sg_deferrals g \<and> sg_state (cs_segments s2 ! k) = seg_failed)
    \<and> (\<exists>s2. markDone s1 k body = Inr s2
      \<and> sg_text (cs_segments s2 ! k) = Some body \<and> sg_failureReason (cs_segments s2 ! k) = None
      \<and> sg_state (cs_segments s2 ! k) = seg_done)"
proof -
  have k: "k < length (cs_segments s)" "\<not> isTerminalCaptureStatus (cs_status s)"
    and s1: "s1 = s\<lparr>cs_segments := (cs_segments s)[k := g\<lparr>sg_failureReason := None, sg_state := seg_transcribing,
      sg_attempts := sg_attempts g + 1, sg_lastAttemptAt := Some t\<rparr>]\<rparr>"
    using assms by (auto simp: markTranscribing_def replaceSegment_def simp del: terminal_iff split: if_splits sum.splits)
  show ?thesis
    using k unfolding s1
    by (simp add: requeueSegment_def markFailed_def markDone_def replaceSegment_def Let_def del: terminal_iff)
qed

theorem outage_refunds_the_attempt_witness:
  "\<exists>s1 s2. markTranscribing (demo_capture\<lparr>cs_segments := [demo_segment\<lparr>sg_state := seg_pending\<rparr>]\<rparr>) 0 ''t1'' = Inr s1
     \<and> requeueSegment s1 0 None ''t2'' = Inr s2 \<and> sg_attempts (cs_segments s2 ! 0) = 0"
proof -
  let ?s = "demo_capture\<lparr>cs_segments := [demo_segment\<lparr>sg_state := seg_pending\<rparr>]\<rparr>"
  obtain s1 where s1: "markTranscribing ?s 0 ''t1'' = Inr s1"
    by (simp add: markTranscribing_def replaceSegment_def demo_capture_def)
  have "sg_attempts (cs_segments ?s ! 0) = 0" by (simp add: demo_segment_def toUnit_def)
  with outage_refunds_the_attempt [OF s1 refl, THEN conjunct1] have "\<exists>s2. requeueSegment s1 0 None ''t2'' = Inr s2
      \<and> sg_attempts (cs_segments s2 ! 0) = 0" by auto
  with s1 show ?thesis by blast
qed

text \<open>
  Sealing respects the ceilings of its policy: every unit a seal adds is pending, reads
  chunks that were open, and either is a single chunk or stays within the policy's bytes and
  duration, so a unit of several chunks never exceeds what one request may carry.
\<close>

theorem sealed_units_respect_ceilings:
  "\<exists>fresh. cs_segments (sealUnitsFromLedger s i) = cs_segments s @ fresh
     \<and> list_all (\<lambda>u. sg_state u = seg_pending
          \<and> set (unitChunkSequences u) \<subseteq> set (map ck_sequence (openChunks s))
          \<and> (length (unitChunkSequences u) = 1
             \<or> sg_byteLength u \<le> up_maxBytes (case su_policy i of None \<Rightarrow> BOUNDED_ENDPOINT_UNIT_POLICY | Some p \<Rightarrow> p)
               \<and> sg_endMs u - sg_startMs u \<le> up_maxMs (case su_policy i of None \<Rightarrow> BOUNDED_ENDPOINT_UNIT_POLICY | Some p \<Rightarrow> p)))
        fresh"
proof -
  define policy where "policy = (case su_policy i of None \<Rightarrow> BOUNDED_ENDPOINT_UNIT_POLICY | Some p \<Rightarrow> p)"
  define run where "run = (case su_throughSequence i of None \<Rightarrow> openChunks s
      | Some limit \<Rightarrow> filter (\<lambda>chunk. int (ck_sequence chunk) \<le> limit) (openChunks s))"
  define runs where "runs = cutRuns run policy (su_keepRemainder i \<and> su_throughSequence i = None)"
  obtain fresh where fresh: "fold (\<lambda>r segments. segments @ [toUnit (length segments) r]) runs (cs_segments s)
      = cs_segments s @ fresh" and units: "\<forall>u \<in> set fresh. \<exists>j. \<exists>r \<in> set runs. u = toUnit j r"
    using fold_units by blast
  have "set run \<subseteq> set (openChunks s)" by (auto simp: run_def split: option.splits)
  moreover have "set r \<subseteq> set run" if "r \<in> set runs" for r
    using that set_mono_prefix [OF cutRuns_prefix] unfolding runs_def by fastforce
  ultimately have r: "set r \<subseteq> set (openChunks s) \<and> r \<noteq> [] \<and> within_ceilings policy r" if "r \<in> set runs" for r
    using that cutRuns_nonempty cutRuns_ceilings unfolding runs_def by (metis subset_trans)
  have "list_all (\<lambda>u. sg_state u = seg_pending \<and> set (unitChunkSequences u) \<subseteq> set (map ck_sequence (openChunks s))
      \<and> (length (unitChunkSequences u) = 1 \<or> sg_byteLength u \<le> up_maxBytes policy
           \<and> sg_endMs u - sg_startMs u \<le> up_maxMs policy)) fresh"
    unfolding list_all_iff
  proof
    fix u assume "u \<in> set fresh"
    then obtain j q where "q \<in> set runs" "u = toUnit j q" using units by blast
    with r [of q] show "sg_state u = seg_pending \<and> set (unitChunkSequences u) \<subseteq> set (map ck_sequence (openChunks s))
      \<and> (length (unitChunkSequences u) = 1 \<or> sg_byteLength u \<le> up_maxBytes policy
           \<and> sg_endMs u - sg_startMs u \<le> up_maxMs policy)"
      by (cases q) (auto simp: within_ceilings_def toUnit_def unitChunkSequences_def)
  qed
  moreover have "cs_segments (sealUnitsFromLedger s i) = (if run = [] \<or> runs = [] then cs_segments s else cs_segments s @ fresh)"
    using fresh by (simp add: sealUnitsFromLedger_def runs_def run_def policy_def Let_def)
  ultimately show ?thesis unfolding policy_def by (cases "run = [] \<or> runs = []") auto
qed

text \<open>
  The path without a ledger rounds after it has tested. Half a byte, or a range shorter than
  the rounding, makes a record that the validator then refuses.
\<close>

lemma tiny_legacy_segment_is_unreadable:
  "\<exists>s'. appendSegment (demo_capture\<lparr>cs_chunks := None\<rparr>)
        \<lparr>ac_byteLength = Fin (1 / 4), ac_durationMs = Fin 1000, ac_startMs = None\<rparr> = Inr s'
     \<and> \<not> isMeetingCaptureSession parse (session_json s')"
  by (simp add: appendSegment_def demo_capture_def isMeetingCaptureSession_shape segment_ok_def js_round_def Let_def)

end
