(* ===== verification/JsText.thy ===== *)
theory JsText
  imports Prelude "HOL-Library.Sublist"
begin

text \<open>
  Text as the meeting code handles it: \<open>Array.prototype.join\<close>, \<open>String.prototype.split\<close> at a
  single character, \<open>String.prototype.indexOf\<close>, and the laws of splitting and joining that
  make a compose box a list of lines.
\<close>

fun js_join :: "string \<Rightarrow> string list \<Rightarrow> string" where
  "js_join sep [] = []"
| "js_join sep [x] = x"
| "js_join sep (x # y # ys) = x @ sep @ js_join sep (y # ys)"

fun split_on :: "char \<Rightarrow> string \<Rightarrow> string list" where
  "split_on c [] = [[]]"
| "split_on c (x # xs) =
     (if x = c then [] # split_on c xs
      else (case split_on c xs of [] \<Rightarrow> [[x]] | l # ls \<Rightarrow> (x # l) # ls))"

definition newline :: char where
  "newline = CHR 0x0A"

abbreviation lines_of :: "string \<Rightarrow> string list" where
  "lines_of s \<equiv> split_on newline s"

abbreviation unlines :: "string list \<Rightarrow> string" where
  "unlines ls \<equiv> js_join [newline] ls"

fun index_of :: "string \<Rightarrow> string \<Rightarrow> nat option" where
  "index_of pat [] = (if pat = [] then Some 0 else None)"
| "index_of pat (c # cs) = (if starts_with pat (c # cs) then Some 0 else map_option Suc (index_of pat cs))"

section \<open>Lines\<close>

lemma split_on_nonempty [simp]: "split_on c s \<noteq> []"
  by (induction s) (auto split: list.splits)

lemma js_join_Cons: "ls \<noteq> [] \<Longrightarrow> js_join sep (l # ls) = l @ sep @ js_join sep ls"
  by (cases ls) auto

lemma js_join_append: "xs \<noteq> [] \<Longrightarrow> ys \<noteq> [] \<Longrightarrow> js_join sep (xs @ ys) = js_join sep xs @ sep @ js_join sep ys"
proof (induction xs)
  case (Cons x xs)
  then show ?case by (cases "xs = []") (auto simp: js_join_Cons)
qed simp

lemma join_split [simp]: "js_join [c] (split_on c s) = s"
proof (induction s)
  case (Cons x s)
  obtain l ls where "split_on c s = l # ls" by (cases "split_on c s") auto
  with Cons show ?case by (cases ls) auto
qed simp

lemma split_append_sep: "split_on c (s @ c # t) = split_on c s @ split_on c t"
  by (induction s) (auto split: list.splits)

lemma split_plain: "c \<notin> set s \<Longrightarrow> split_on c s = [s]"
  by (induction s) auto

lemma split_join: "cs \<noteq> [] \<Longrightarrow> split_on c (js_join [c] cs) = concat (map (split_on c) cs)"
proof (induction cs rule: induct_list012)
  case (3 x y zs)
  then show ?case using split_append_sep [of c x "js_join [c] (y # zs)"] by simp
qed auto

lemma split_member: "l \<in> set (split_on c s) \<Longrightarrow> c \<notin> set l"
proof (induction s arbitrary: l)
  case (Cons x s)
  obtain m ms where m: "split_on c s = m # ms" by (cases "split_on c s") auto
  show ?case
  proof (cases "x = c")
    case True
    then show ?thesis using Cons by auto
  next
    case False
    then have "l = x # m \<or> l \<in> set ms" using Cons.prems m by simp
    then show ?thesis using Cons.IH m False by auto
  qed
qed simp

lemma join_empty_iff: "\<forall>l \<in> set ls. l \<noteq> [] \<Longrightarrow> js_join sep ls = [] \<longleftrightarrow> ls = []"
  by (induction ls rule: induct_list012) auto

section \<open>The first occurrence\<close>

definition occurs_in :: "string \<Rightarrow> string \<Rightarrow> bool" where
  "occurs_in pat s \<longleftrightarrow> (\<exists>pre post. s = pre @ pat @ post)"

lemma starts_with_iff: "starts_with pat s \<longleftrightarrow> prefix pat s"
  by (metis append_eq_conv_conj prefix_def starts_with_def)

lemma index_of_Some: "index_of pat s = Some i \<Longrightarrow> s = take i s @ pat @ drop (i + length pat) s"
proof (induction s arbitrary: i)
  case (Cons c s)
  show ?case
  proof (cases "starts_with pat (c # s)")
    case True
    then show ?thesis using Cons.prems by (auto simp: starts_with_iff prefix_def)
  next
    case False
    then obtain j where "index_of pat s = Some j" "i = Suc j" using Cons.prems by auto
    with Cons.IH show ?thesis by simp
  qed
qed (simp split: if_splits)

lemma index_of_None: "index_of pat s = None \<longleftrightarrow> \<not> occurs_in pat s"
proof (induction s)
  case (Cons c s)
  have "occurs_in pat (c # s) \<longleftrightarrow> prefix pat (c # s) \<or> occurs_in pat s"
  proof
    assume "occurs_in pat (c # s)"
    then obtain pre post where "c # s = pre @ pat @ post" by (auto simp: occurs_in_def)
    then show "prefix pat (c # s) \<or> occurs_in pat s"
      by (cases pre) (auto simp: occurs_in_def prefix_def)
  next
    assume "prefix pat (c # s) \<or> occurs_in pat s"
    then show "occurs_in pat (c # s)"
      by (auto simp: occurs_in_def prefix_def) (metis append_Nil, metis append_Cons)
  qed
  with Cons show ?case by (simp add: starts_with_iff)
qed (auto simp: occurs_in_def)

lemma index_of_first:
  assumes "\<And>i. i < length pre \<Longrightarrow> \<not> prefix pat (drop i (pre @ pat @ post))"
  shows "index_of pat (pre @ pat @ post) = Some (length pre)"
  using assms
proof (induction pre)
  case Nil
  then show ?case by (cases "pat @ post") (auto simp: starts_with_iff, metis append_Cons prefixI)
next
  case (Cons c pre)
  have "\<not> prefix pat (drop i (pre @ pat @ post))" if "i < length pre" for i
    using Cons.prems [of "Suc i"] that by simp
  with Cons.IH Cons.prems [of 0] show ?case by (simp add: starts_with_iff)
qed

end
