(* ===== verification/StreamingTranscript.thy ===== *)
theory StreamingTranscript
  imports CaptureSafety JsText
begin

text \<open>
  The live transcript of a streaming session: the reducer of wire events and the proof of
  coverage, \<open>packages/core/src/meetings/streamingTranscript.ts\<close>, and the promotion of a covered
  run to settled units, \<open>packages/core/src/meetings/streamCommit.ts\<close>. A candidate event is an
  untyped value. A state is the record the reducer returns, so of its normalizer the checks on
  the values remain and those on the shape (own keys, frozenness) are what the type says.
\<close>

section \<open>Events and state\<close>

datatype live_state = live_partial | live_final

record MeetingLiveUtterance =
  lu_state :: live_state
  lu_utteranceId :: string
  lu_revision :: nat
  lu_text :: string
  lu_startMs :: rat
  lu_endMs :: rat

datatype MeetingStreamingTranscriptEvent =
    CoverageEvent nat
  | UtteranceEvent MeetingLiveUtterance

record MeetingStreamingTranscriptState =
  mt_utterances :: "MeetingLiveUtterance list"
  mt_checkpoint :: "nat option"

definition EMPTY_STREAMING_TRANSCRIPT :: MeetingStreamingTranscriptState where
  "EMPTY_STREAMING_TRANSCRIPT = \<lparr>mt_utterances = [], mt_checkpoint = None\<rparr>"

definition isSequence :: "js \<Rightarrow> bool" where
  "isSequence v \<longleftrightarrow> js_is_safe_integer v \<and> num_of v \<ge> 0"

definition isElapsedTime :: "js \<Rightarrow> bool" where
  "isElapsedTime v = (case v of JNum (Fin q) \<Rightarrow> q \<ge> 0 | _ \<Rightarrow> False)"

definition hasExactKeys :: "js \<Rightarrow> string list \<Rightarrow> bool" where
  "hasExactKeys v expected =
     (case v of
        JObj entries \<Rightarrow>
          length (dedupe (map fst entries)) = length expected \<and> list_all (\<lambda>k. k \<in> set (map fst entries)) expected
      | _ \<Rightarrow> False)"

definition str_of :: "js \<Rightarrow> string" where
  "str_of v = (case v of JStr s \<Rightarrow> s | _ \<Rightarrow> [])"

definition normalizeStreamingTranscriptEvent :: "js \<Rightarrow> MeetingStreamingTranscriptEvent option" where
  "normalizeStreamingTranscriptEvent v =
     (if \<not> js_is_record v then None
      else if js_get v ''kind'' = JStr ''coverage'' then
        (if \<not> hasExactKeys v [''kind'', ''coveredThroughSequence''] then None
         else if isSequence (js_get v ''coveredThroughSequence'')
         then Some (CoverageEvent (nat \<lfloor>num_of (js_get v ''coveredThroughSequence'')\<rfloor>))
         else None)
      else if js_get v ''kind'' \<noteq> JStr ''partial'' \<and> js_get v ''kind'' \<noteq> JStr ''final'' then None
      else if \<not> hasExactKeys v [''kind'', ''utteranceId'', ''revision'', ''text'', ''startMs'', ''endMs''] then None
      else if \<not> js_is_string (js_get v ''utteranceId'') \<or> js_trim (str_of (js_get v ''utteranceId'')) = []
           \<or> \<not> isSequence (js_get v ''revision'') \<or> \<not> js_is_string (js_get v ''text'')
           \<or> \<not> isElapsedTime (js_get v ''startMs'') \<or> \<not> isElapsedTime (js_get v ''endMs'')
           \<or> num_of (js_get v ''endMs'') \<le> num_of (js_get v ''startMs'') then None
      else Some (UtteranceEvent
             \<lparr>lu_state = (if js_get v ''kind'' = JStr ''partial'' then live_partial else live_final),
              lu_utteranceId = str_of (js_get v ''utteranceId''),
              lu_revision = nat \<lfloor>num_of (js_get v ''revision'')\<rfloor>, lu_text = str_of (js_get v ''text''),
              lu_startMs = num_of (js_get v ''startMs''), lu_endMs = num_of (js_get v ''endMs'')\<rparr>))"

definition normalizeLiveUtterance :: "MeetingLiveUtterance \<Rightarrow> bool" where
  "normalizeLiveUtterance u \<longleftrightarrow>
     js_trim (lu_utteranceId u) \<noteq> [] \<and> int (lu_revision u) \<le> MAX_SAFE_INTEGER \<and> lu_startMs u \<ge> 0 \<and> lu_endMs u \<ge> 0
     \<and> lu_endMs u > lu_startMs u"

definition normalizeStreamingTranscriptState ::
  "MeetingStreamingTranscriptState \<Rightarrow> MeetingStreamingTranscriptState option"
where
  "normalizeStreamingTranscriptState st =
     (if list_all normalizeLiveUtterance (mt_utterances st) \<and> distinct (map lu_utteranceId (mt_utterances st))
         \<and> (case mt_checkpoint st of None \<Rightarrow> True | Some c \<Rightarrow> int c \<le> MAX_SAFE_INTEGER)
      then Some st else None)"

section \<open>Coverage\<close>

datatype TranscriptCheckpointResolution = Advanced nat | SameCheckpoint | InvalidCheckpoint

definition hasContiguousLedgerPrefix :: "MeetingChunk list \<Rightarrow> nat \<Rightarrow> bool" where
  "hasContiguousLedgerPrefix persistedLedger throughSequence \<longleftrightarrow>
     isMeetingChunkLedger (JArr (map chunk_json persistedLedger)) \<and> throughSequence < length persistedLedger"

definition resolveTranscriptCommittedCheckpoint ::
  "nat option \<Rightarrow> nat \<Rightarrow> MeetingChunk list \<Rightarrow> TranscriptCheckpointResolution"
where
  "resolveTranscriptCommittedCheckpoint existing coveredThroughSequence persistedLedger =
     (if (case existing of None \<Rightarrow> False | Some e \<Rightarrow> int e > MAX_SAFE_INTEGER) then InvalidCheckpoint
      else if int coveredThroughSequence > MAX_SAFE_INTEGER then InvalidCheckpoint
      else
        let previous = (case existing of None \<Rightarrow> -1 | Some e \<Rightarrow> int e)
        in if int coveredThroughSequence < previous
              \<or> \<not> hasContiguousLedgerPrefix persistedLedger coveredThroughSequence then InvalidCheckpoint
           else if int coveredThroughSequence = previous then SameCheckpoint
           else Advanced coveredThroughSequence)"

definition validateTranscriptCommittedCheckpoint :: "nat option \<Rightarrow> nat \<Rightarrow> MeetingChunk list \<Rightarrow> nat option" where
  "validateTranscriptCommittedCheckpoint previous acknowledged persistedLedger =
     (case resolveTranscriptCommittedCheckpoint previous acknowledged persistedLedger of
        Advanced c \<Rightarrow> Some c
      | _ \<Rightarrow> None)"

definition persistedCheckpointEndMs :: "nat \<Rightarrow> MeetingChunk list \<Rightarrow> int option" where
  "persistedCheckpointEndMs checkpoint persistedLedger =
     (if int checkpoint > MAX_SAFE_INTEGER \<or> \<not> hasContiguousLedgerPrefix persistedLedger checkpoint then None
      else if ck_endMs (persistedLedger ! checkpoint) \<ge> 0 then Some (ck_endMs (persistedLedger ! checkpoint)) else None)"

section \<open>The reducer\<close>

definition replaceUtterance ::
  "MeetingStreamingTranscriptState \<Rightarrow> nat option \<Rightarrow> MeetingLiveUtterance \<Rightarrow> MeetingStreamingTranscriptState"
where
  "replaceUtterance st index u =
     st\<lparr>mt_utterances := (case index of None \<Rightarrow> mt_utterances st @ [u] | Some i \<Rightarrow> (mt_utterances st)[i := u])\<rparr>"

definition reduce_event ::
  "MeetingStreamingTranscriptState \<Rightarrow> MeetingStreamingTranscriptEvent \<Rightarrow> MeetingChunk list
     \<Rightarrow> MeetingStreamingTranscriptState"
where
  "reduce_event restored event persistedLedger =
     (case event of
        CoverageEvent covered \<Rightarrow>
          (case resolveTranscriptCommittedCheckpoint (mt_checkpoint restored) covered persistedLedger of
             Advanced c \<Rightarrow>
               let coveredEndMs = ck_endMs (persistedLedger ! covered)
               in if coveredEndMs < 0
                     \<or> list_ex (\<lambda>u. lu_state u = live_partial \<and> lu_startMs u < of_int coveredEndMs) (mt_utterances restored)
                  then restored
                  else restored\<lparr>mt_checkpoint := Some c\<rparr>
           | _ \<Rightarrow> restored)
      | UtteranceEvent u \<Rightarrow>
          if (case mt_checkpoint restored of
                None \<Rightarrow> False
              | Some c \<Rightarrow>
                  (case persistedCheckpointEndMs c persistedLedger of
                     None \<Rightarrow> True
                   | Some coveredEndMs \<Rightarrow> lu_startMs u < of_int coveredEndMs))
          then restored
          else
            let index = find_index (\<lambda>x. lu_utteranceId x = lu_utteranceId u) (mt_utterances restored)
            in if (case index of
                     None \<Rightarrow> False
                   | Some i \<Rightarrow>
                       let current = mt_utterances restored ! i
                       in lu_state current = live_final \<or> lu_revision u < lu_revision current
                          \<or> lu_revision u = lu_revision current \<and> lu_state u = live_partial)
               then restored
               else replaceUtterance restored index u)"

definition reduceStreamingTranscript ::
  "MeetingStreamingTranscriptState \<Rightarrow> js \<Rightarrow> MeetingChunk list \<Rightarrow> MeetingStreamingTranscriptState"
where
  "reduceStreamingTranscript state candidate persistedLedger =
     (case normalizeStreamingTranscriptState state of
        None \<Rightarrow> state
      | Some restored \<Rightarrow>
          (case normalizeStreamingTranscriptEvent candidate of
             None \<Rightarrow> restored
           | Some event \<Rightarrow> reduce_event restored event persistedLedger))"

section \<open>Promotion to settled units\<close>

definition utteranceTextFor :: "int \<Rightarrow> int \<Rightarrow> MeetingLiveUtterance list \<Rightarrow> string" where
  "utteranceTextFor startMs endMs utterances =
     js_join '' '' (filter (\<lambda>t. t \<noteq> [])
       (map (\<lambda>u. js_trim (lu_text u))
         (filter (\<lambda>u. lu_state u = live_final \<and> of_int startMs \<le> lu_startMs u \<and> lu_startMs u < of_int endMs) utterances)))"

fun settle_units ::
  "MeetingSegment list \<Rightarrow> MeetingLiveUtterance list \<Rightarrow> nat list \<Rightarrow> MeetingCaptureSession \<Rightarrow> string + MeetingCaptureSession"
where
  "settle_units sealed utterances [] session = Inr session"
| "settle_units sealed utterances (index # rest) session =
     (case markDone session index
             (utteranceTextFor (sg_startMs (sealed ! index)) (sg_endMs (sealed ! index)) utterances) of
        Inl e \<Rightarrow> Inl e
      | Inr nxt \<Rightarrow> settle_units sealed utterances rest nxt)"

definition commitStreamedCoverage ::
  "MeetingCaptureSession \<Rightarrow> nat \<Rightarrow> MeetingLiveUtterance list \<Rightarrow> string + MeetingCaptureSession"
where
  "commitStreamedCoverage session coveredThroughSequence utterances =
     (let before = length (cs_segments session)
      in case sealUnit session
                \<lparr>su_throughSequence = Some (int coveredThroughSequence), su_policy = None, su_keepRemainder = False\<rparr> of
           Inl e \<Rightarrow> Inl e
         | Inr sealed \<Rightarrow> settle_units (cs_segments sealed) utterances [before..<length (cs_segments sealed)] sealed)"

end
