(* ===== verification/TranscriptionQueue.thy ===== *)
theory TranscriptionQueue
  imports QueuePlan StreamingTranscript "HOL-Library.AList"
begin

text \<open>
  The segment transcription queue, \<open>packages/core/src/meetings/transcriptionQueue.ts\<close>: a class
  whose methods are asynchronous. Its state is the record \<open>TranscriptionQueue\<close>; what happens
  between two \<open>await\<close>s is one event, and \<open>queue_step\<close> is the effect of an event (\<open>None\<close>
  when it cannot happen now). The order in which requests are answered and writes land is the
  environment's: a run is any sequence of events.

  \<^item> \<open>#writes\<close>, the promise chain that serializes every commit, is a list of jobs; the head is
    applied to the session first (\<open>ApplyWrite\<close>) and persisted after (\<open>Persisted\<close>), and
    either can fail.
  \<^item> \<open>#inFlight\<close> holds, for every dispatched index, where its attempt stands.
  \<^item> A caller that joins a running drain may begin another one when it ends; both are sequences
    of \<open>Begin\<close> events, so the flag \<open>#rerun\<close> has no counterpart.
  \<^item> \<open>readSegment\<close>, \<open>transcribe\<close> and \<open>persist\<close> are the host's: their answers are in the
    events. A host transition (\<open>apply\<close>) is made of the calls the hosts make; the instants are in the events, and \<open>Date.parse\<close> is in the configuration.
\<close>

section \<open>Failures\<close>

definition DEFAULT_MEETING_MAX_IN_FLIGHT :: int where
  "DEFAULT_MEETING_MAX_IN_FLIGHT = 2"

datatype MeetingTranscriptionFailureKind = kind_segment | endpoint_unavailable

definition UNAVAILABLE_CODES :: "string list" where
  "UNAVAILABLE_CODES =
     [''ECONNREFUSED'', ''ECONNRESET'', ''ENOTFOUND'', ''EAI_AGAIN'', ''ETIMEDOUT'', ''EPIPE'', ''ENETUNREACH'',
      ''EHOSTUNREACH'', ''EHOSTDOWN'', ''UND_ERR_CONNECT_TIMEOUT'', ''UND_ERR_SOCKET'']"

definition UNAVAILABLE_STATUSES :: "rat list" where
  "UNAVAILABLE_STATUSES = [408, 429, 502, 503, 504]"

definition lower_char :: "char \<Rightarrow> char" where
  "lower_char c = (let n = (of_char c :: nat) in if 65 \<le> n \<and> n \<le> 90 then char_of (n + 32) else c)"

fun contains_ci :: "string \<Rightarrow> string \<Rightarrow> bool" where
  "contains_ci pat [] = (pat = [])"
| "contains_ci pat (c # cs) = (starts_with pat (map lower_char (c # cs)) \<or> contains_ci pat cs)"

definition js_truthy :: "js \<Rightarrow> bool" where
  "js_truthy v =
     (case v of
        JUndefined \<Rightarrow> False | JNull \<Rightarrow> False | JBool b \<Rightarrow> b | JNum (Fin q) \<Rightarrow> q \<noteq> 0 | JNum NonFinite \<Rightarrow> True
      | JStr s \<Rightarrow> s \<noteq> [] | _ \<Rightarrow> True)"

text \<open>
  The reading of a thrown value. (\<open>typeof error !== 'object'\<close>: a function or a symbol is not
  among the values of \<open>js\<close>. An error that is its own cause cannot be built as a \<open>js\<close>.
  A number is \<open>NaN\<close> or infinite only as \<open>NonFinite\<close>, which is in no list.)
\<close>

lemma size_field: "(f, x) \<in> set entries \<Longrightarrow> size x < size (JObj entries)"
  by (induction entries) (auto simp: less_Suc_eq_le)

lemma js_get_smaller:
  assumes "js_truthy (js_get v field)"
  shows "size (js_get v field) < size v"
proof (cases v)
  case (JObj entries)
  then obtain x where "map_of entries field = Some x" "js_get v field = x"
    using assms by (auto simp: js_get_def js_truthy_def split: option.splits)
  then show ?thesis using JObj size_field by (auto dest!: map_of_SomeD)
qed (use assms in \<open>simp_all add: js_get_def js_truthy_def\<close>)

function classifyTranscriptionFailure :: "js \<Rightarrow> MeetingTranscriptionFailureKind" where
  "classifyTranscriptionFailure err =
     (case err of
        JObj _ \<Rightarrow>
          if js_get err ''endpointUnavailable'' = JBool True then endpoint_unavailable
          else if (case js_get err ''code'' of JStr c \<Rightarrow> c \<in> set UNAVAILABLE_CODES | _ \<Rightarrow> False) then endpoint_unavailable
          else
            let status = (case js_get err ''status'' of JNum n \<Rightarrow> JNum n | _ \<Rightarrow> js_get err ''statusCode'')
            in if (case status of JNum (Fin q) \<Rightarrow> q \<in> set UNAVAILABLE_STATUSES | _ \<Rightarrow> False) then endpoint_unavailable
               else if js_get err ''name'' = JStr ''TypeError''
                    \<and> (case js_get err ''message'' of JStr m \<Rightarrow> contains_ci ''fetch'' m | _ \<Rightarrow> False)
               then endpoint_unavailable
               else if js_truthy (js_get err ''cause'') then classifyTranscriptionFailure (js_get err ''cause'')
               else kind_segment
      | _ \<Rightarrow> kind_segment)"
  by pat_completeness auto

termination
  by (relation "measure size") (simp_all only: wf_measure in_measure js_get_smaller)

declare classifyTranscriptionFailure.simps [simp del]

definition MAX_FAILURE_REASON_LENGTH :: nat where
  "MAX_FAILURE_REASON_LENGTH = 240"

text \<open>\<open>raw.replace(/\s+/g, ' ')\<close>.\<close>

fun collapse_space :: "string \<Rightarrow> string" where
  "collapse_space [] = []"
| "collapse_space [c] = [if js_space c then CHR '' '' else c]"
| "collapse_space (c # d # cs) =
     (if js_space c then (if js_space d then collapse_space (d # cs) else CHR '' '' # collapse_space (d # cs))
      else c # collapse_space (d # cs))"

definition describeFailure :: "string \<Rightarrow> string" where
  "describeFailure raw =
     (let body = js_trim (collapse_space raw)
      in if body = [] then ''Transcription failed.''
         else if length body > MAX_FAILURE_REASON_LENGTH
         then take (MAX_FAILURE_REASON_LENGTH - 1) body @ ellipsis
         else body)"

section \<open>State\<close>

text \<open>
  What a host does through \<open>apply\<close>: a call of \<open>captureSession.ts\<close>, the commit of a live
  connection's coverage, nothing (to have the session persisted), or one after the other, under
  a condition on the session it finds, or a throw.
\<close>

datatype host_call =
    H_keep
  | H_appendChunk AppendChunkInput
  | H_appendSegment AppendChunkInput
  | H_sealUnit SealUnitsInput
  | H_sealDueUnits MeetingUnitPolicy
  | H_commitStreamedCoverage nat "MeetingLiveUtterance list"
  | H_stop string
  | H_resume
  | H_finalize string
  | H_discard string
  | H_throw string
  | H_then host_call host_call
  | H_when "MeetingCaptureSession \<Rightarrow> bool" host_call

primrec run_host :: "host_call \<Rightarrow> MeetingCaptureSession \<Rightarrow> string + MeetingCaptureSession" where
  "run_host H_keep s = Inr s"
| "run_host (H_appendChunk i) s = appendChunk s i"
| "run_host (H_appendSegment i) s = appendSegment s i"
| "run_host (H_sealUnit i) s = sealUnit s i"
| "run_host (H_sealDueUnits p) s = sealDueUnits s p"
| "run_host (H_commitStreamedCoverage c utterances) s = commitStreamedCoverage s c utterances"
| "run_host (H_stop t) s = stopCapture s t"
| "run_host H_resume s = resumeCapture s"
| "run_host (H_finalize t) s = finalizeCapture s t"
| "run_host (H_discard t) s = discardCapture s t"
| "run_host (H_throw e) s = Inl e"
| "run_host (H_then g h) s = (case run_host g s of Inl e \<Rightarrow> Inl e | Inr s' \<Rightarrow> run_host h s')"
| "run_host (H_when p h) s = (if p s then run_host h s else Inr s)"

text \<open>A commit: the transition it applies and, by its constructor, who waits for it.\<close>

datatype write_job =
    Announce nat
  | Settle nat string
  | Requeue nat "string option"
  | Fail nat string
  | Orphan nat
  | Host host_call

fun run_job :: "write_job \<Rightarrow> string \<Rightarrow> MeetingCaptureSession \<Rightarrow> string + MeetingCaptureSession" where
  "run_job (Announce k) t s = markTranscribing s k t"
| "run_job (Settle k body) t s = markDone s k body"
| "run_job (Requeue k previous) t s = requeueSegment s k previous t"
| "run_job (Fail k reason) t s = markFailed s k reason t"
| "run_job (Orphan k) t s = markFailed s k MEETING_INTERRUPTED_REASON t"
| "run_job (Host h) t s = run_host h s"

text \<open>
  Where an attempt stands: its announcement is being committed, its audio is being read, its
  request is out, its outcome is being committed. The argument is the failure reason the
  segment had before it was announced.
\<close>

datatype attempt =
    Announcing "string option"
  | Reading "string option"
  | Requesting "string option"
  | Settling

text \<open>The loop: waiting for a reconciliation write, running, waiting for the last attempts.\<close>

datatype drain_state =
    NoDrain
  | Reconciling "nat list" bool "nat option"
  | Looping
  | Finishing

record DrainOutcome =
  do_transcribed :: "nat list"
  do_failed :: "nat list"
  do_deferred :: "nat list"
  do_errors :: "string list"

definition no_outcome :: DrainOutcome where
  "no_outcome = \<lparr>do_transcribed = [], do_failed = [], do_deferred = [], do_errors = []\<rparr>"

datatype MeetingDrainPhase = drain_idle | drain_waiting | drain_unavailable | drain_closed

record MeetingDrainResult =
  dr_session :: MeetingCaptureSession
  dr_phase :: MeetingDrainPhase
  dr_outcome :: DrainOutcome
  dr_nextWakeMs :: "rat option"

record TranscriptionQueue =
  tq_session :: MeetingCaptureSession
  tq_inFlight :: "(nat \<times> attempt) list"
  tq_blocked :: "nat list"
  tq_writes :: "write_job list"
  tq_writing :: bool
  tq_reconciled :: bool
  tq_outageStreak :: nat
  tq_probeNotBeforeMs :: int
  tq_unavailable :: bool
  tq_drain :: drain_state
  tq_woken :: bool
  tq_outcome :: DrainOutcome
  tq_result :: "MeetingDrainResult option"

record QueueConfig =
  qc_maxInFlight :: nat
  qc_policy :: MeetingRetryPolicy
  qc_parse :: "string \<Rightarrow> jsnum"
  qc_classify :: "js \<Rightarrow> MeetingTranscriptionFailureKind"

text \<open>\<open>Math.max(1, Math.floor(options.maxInFlight ?? DEFAULT_MEETING_MAX_IN_FLIGHT))\<close>.\<close>

definition max_in_flight :: "rat option \<Rightarrow> nat" where
  "max_in_flight n = nat (max 1 (case n of None \<Rightarrow> DEFAULT_MEETING_MAX_IN_FLIGHT | Some q \<Rightarrow> \<lfloor>q\<rfloor>))"

definition new_queue :: "MeetingCaptureSession \<Rightarrow> TranscriptionQueue" where
  "new_queue session =
     \<lparr>tq_session = session, tq_inFlight = [], tq_blocked = [], tq_writes = [], tq_writing = False,
      tq_reconciled = False, tq_outageStreak = 0, tq_probeNotBeforeMs = 0, tq_unavailable = False,
      tq_drain = NoDrain, tq_woken = False, tq_outcome = no_outcome, tq_result = None\<rparr>"

section \<open>Steps\<close>

abbreviation queue_plan :: "QueueConfig \<Rightarrow> TranscriptionQueue \<Rightarrow> int \<Rightarrow> MeetingQueuePlan" where
  "queue_plan cfg q now \<equiv> planTranscription (qc_parse cfg) (tq_session q) (qc_policy cfg) now"

definition put_error :: "string \<Rightarrow> TranscriptionQueue \<Rightarrow> TranscriptionQueue" where
  "put_error e q = q\<lparr>tq_outcome := (tq_outcome q)\<lparr>do_errors := do_errors (tq_outcome q) @ [e]\<rparr>\<rparr>"

definition set_attempt :: "nat \<Rightarrow> attempt \<Rightarrow> TranscriptionQueue \<Rightarrow> TranscriptionQueue" where
  "set_attempt k a q = q\<lparr>tq_inFlight := AList.update k a (tq_inFlight q)\<rparr>"

text \<open>The attempt's promise settles: it leaves \<open>#inFlight\<close>, and the loop's race is won.\<close>

definition end_attempt :: "nat \<Rightarrow> TranscriptionQueue \<Rightarrow> TranscriptionQueue" where
  "end_attempt k q = q\<lparr>tq_inFlight := filter (\<lambda>(i, _). i \<noteq> k) (tq_inFlight q), tq_woken := True\<rparr>"

definition commit :: "write_job \<Rightarrow> TranscriptionQueue \<Rightarrow> TranscriptionQueue" where
  "commit j q = q\<lparr>tq_writes := tq_writes q @ [j]\<rparr>"

definition dispatch :: "nat \<Rightarrow> TranscriptionQueue \<Rightarrow> TranscriptionQueue" where
  "dispatch k q =
     (if map_of (tq_inFlight q) k \<noteq> None then q
      else
        let previousFailureReason =
              (if k < length (cs_segments (tq_session q)) then sg_failureReason (cs_segments (tq_session q) ! k) else None)
        in commit (Announce k) (q\<lparr>tq_inFlight := tq_inFlight q @ [(k, Announcing previousFailureReason)]\<rparr>))"

fun dispatch_ready :: "nat \<Rightarrow> nat list \<Rightarrow> TranscriptionQueue \<Rightarrow> TranscriptionQueue" where
  "dispatch_ready maxInFlight [] q = q"
| "dispatch_ready maxInFlight (k # ks) q =
     (if length (tq_inFlight q) \<ge> maxInFlight then q
      else if map_of (tq_inFlight q) k \<noteq> None \<or> k \<in> set (tq_blocked q) then dispatch_ready maxInFlight ks q
      else dispatch_ready maxInFlight ks (dispatch k q))"

definition drain_result ::
  "TranscriptionQueue \<Rightarrow> MeetingDrainPhase \<Rightarrow> rat option \<Rightarrow> TranscriptionQueue"
where
  "drain_result q phase nextWakeMs =
     q\<lparr>tq_drain := NoDrain,
       tq_result := Some \<lparr>dr_session = tq_session q, dr_phase = phase, dr_outcome = tq_outcome q,
                          dr_nextWakeMs = nextWakeMs\<rparr>\<rparr>"

definition finish :: "QueueConfig \<Rightarrow> int \<Rightarrow> TranscriptionQueue \<Rightarrow> TranscriptionQueue" where
  "finish cfg now q =
     (let plan = queue_plan cfg q now
      in if qp_phase plan = phase_closed then drain_result q drain_closed None
         else if tq_unavailable q
         then drain_result q drain_unavailable (Some (of_int (max 0 (tq_probeNotBeforeMs q - now))))
         else if qp_phase plan = phase_waiting then drain_result q drain_waiting (qp_nextWakeMs plan)
         else if qp_phase plan = phase_working
         then drain_result q drain_waiting (Some (case qp_nextWakeMs plan of None \<Rightarrow> 0 | Some w \<Rightarrow> w))
         else drain_result q drain_idle None)"

text \<open>The synchronous head of \<open>#loop\<close>, up to its first \<open>await\<close>.\<close>

definition begin_drain :: "QueueConfig \<Rightarrow> nat option \<Rightarrow> int \<Rightarrow> TranscriptionQueue \<Rightarrow> TranscriptionQueue" where
  "begin_drain cfg force now q0 =
     (let q = q0\<lparr>tq_outcome := no_outcome, tq_blocked := []\<rparr>
      in if qp_phase (queue_plan cfg q now) = phase_closed then drain_result q drain_closed None
         else if force = None \<and> tq_outageStreak q > 0 \<and> now < tq_probeNotBeforeMs q
         then drain_result q drain_unavailable (Some (of_int (tq_probeNotBeforeMs q - now)))
         else
           let orphans = (if tq_reconciled q then []
                          else map sg_index (filter (\<lambda>g. sg_state g = seg_transcribing) (cs_segments (tq_session q))))
           in q\<lparr>tq_unavailable := False, tq_reconciled := True, tq_drain := Reconciling orphans False force\<rparr>)"

text \<open>The next orphan is committed; when none is left, a forced index is dispatched and the loop runs.\<close>

definition reconcile_next :: "TranscriptionQueue \<Rightarrow> TranscriptionQueue option" where
  "reconcile_next q =
     (case tq_drain q of
        Reconciling (k # ks) False force \<Rightarrow> Some (commit (Orphan k) (q\<lparr>tq_drain := Reconciling (k # ks) True force\<rparr>))
      | Reconciling [] _ force \<Rightarrow>
          (let q1 = q\<lparr>tq_drain := Looping, tq_woken := True\<rparr>
           in case force of
                None \<Rightarrow> Some q1
              | Some k \<Rightarrow>
                  if k < length (cs_segments (tq_session q))
                     \<and> sg_state (cs_segments (tq_session q) ! k) \<noteq> seg_done
                     \<and> sg_state (cs_segments (tq_session q) ! k) \<noteq> seg_transcribing
                  then Some (dispatch k q1) else Some q1)
      | _ \<Rightarrow> None)"

text \<open>One pass of the loop; it waits for an attempt to end, or is done.\<close>

definition pass :: "QueueConfig \<Rightarrow> int \<Rightarrow> TranscriptionQueue \<Rightarrow> TranscriptionQueue option" where
  "pass cfg now q =
     (case tq_drain q of
        Looping \<Rightarrow>
          if \<not> tq_woken q then None
          else
            let q1 = q\<lparr>tq_woken := False\<rparr>;
                plan = queue_plan cfg q1 now
            in if \<not> tq_unavailable q1 \<and> qp_phase plan = phase_closed
               then (if tq_inFlight q1 \<noteq> [] then Some (q1\<lparr>tq_drain := Finishing\<rparr>) else Some (finish cfg now q1))
               else
                 let q2 = (if \<not> tq_unavailable q1 then dispatch_ready (qc_maxInFlight cfg) (qp_ready plan) q1 else q1)
                 in if tq_inFlight q2 = [] then Some (finish cfg now q2) else Some q2
      | Finishing \<Rightarrow> if tq_inFlight q = [] then Some (finish cfg now q) else None
      | _ \<Rightarrow> None)"

text \<open>The code after the \<open>await\<close> of a commit, by who waits for it.\<close>

definition committed :: "write_job \<Rightarrow> string option \<Rightarrow> TranscriptionQueue \<Rightarrow> TranscriptionQueue" where
  "committed j failure q =
     (let noted = (case failure of None \<Rightarrow> q | Some e \<Rightarrow> put_error (describeFailure e) q)
      in case j of
           Announce k \<Rightarrow>
             (case failure of
                None \<Rightarrow>
                  (case map_of (tq_inFlight q) k of
                     Some (Announcing previous) \<Rightarrow> set_attempt k (Reading previous) q
                   | _ \<Rightarrow> q)
              | Some e \<Rightarrow> end_attempt k (noted\<lparr>tq_blocked := tq_blocked q @ [k]\<rparr>))
         | Settle k _ \<Rightarrow>
             end_attempt k (noted\<lparr>tq_outcome := (tq_outcome noted)\<lparr>do_transcribed := do_transcribed (tq_outcome noted) @ [k]\<rparr>\<rparr>)
         | Requeue k _ \<Rightarrow>
             end_attempt k (noted\<lparr>tq_outcome := (tq_outcome noted)\<lparr>do_deferred := do_deferred (tq_outcome noted) @ [k]\<rparr>\<rparr>)
         | Fail k _ \<Rightarrow>
             end_attempt k (noted\<lparr>tq_outcome := (tq_outcome noted)\<lparr>do_failed := do_failed (tq_outcome noted) @ [k]\<rparr>\<rparr>)
         | Orphan k \<Rightarrow>
             (case tq_drain q of
                Reconciling (i # ks) True force \<Rightarrow> noted\<lparr>tq_drain := Reconciling ks False force\<rparr>
              | _ \<Rightarrow> noted)
         | Host _ \<Rightarrow> q)"

definition request_failed ::
  "QueueConfig \<Rightarrow> nat \<Rightarrow> string option \<Rightarrow> string \<Rightarrow> js \<Rightarrow> int \<Rightarrow> TranscriptionQueue \<Rightarrow> TranscriptionQueue"
where
  "request_failed cfg k previous raw err now q =
     (if qc_classify cfg err = endpoint_unavailable then
        let streak = tq_outageStreak q + 1;
            q1 = q\<lparr>tq_unavailable := True, tq_outageStreak := streak,
                   tq_probeNotBeforeMs := now + retryDelayMs streak (qc_policy cfg)\<rparr>
        in if k < length (cs_segments (tq_session q1))
              \<and> \<not> deferralsExhausted (cs_segments (tq_session q1) ! k) (qc_policy cfg)
           then commit (Requeue k previous) (set_attempt k Settling q1)
           else commit (Fail k MEETING_ENDPOINT_UNRESPONSIVE_REASON) (set_attempt k Settling q1)
      else commit (Fail k (describeFailure raw)) (set_attempt k Settling q))"

datatype queue_event =
    Begin "nat option" int
  | ReconcileNext
  | Pass int
  | ApplyWrite int
  | Persisted "string option"
  | AudioRead nat "string option"
  | Transcribed nat string
  | RequestFailed nat string js int
  | HostApply host_call

fun queue_step :: "QueueConfig \<Rightarrow> queue_event \<Rightarrow> TranscriptionQueue \<Rightarrow> TranscriptionQueue option" where
  "queue_step cfg (Begin force now) q = (if tq_drain q = NoDrain then Some (begin_drain cfg force now q) else None)"
| "queue_step cfg ReconcileNext q = reconcile_next q"
| "queue_step cfg (Pass now) q = pass cfg now q"
| "queue_step cfg (ApplyWrite now) q =
     (case tq_writes q of
        [] \<Rightarrow> None
      | j # rest \<Rightarrow>
          if tq_writing q then None
          else
            (case run_job j (iso_of_ms now) (tq_session q) of
               Inl e \<Rightarrow> Some (committed j (Some e) (q\<lparr>tq_writes := rest\<rparr>))
             | Inr s \<Rightarrow> Some (q\<lparr>tq_session := s, tq_writing := True\<rparr>)))"
| "queue_step cfg (Persisted failure) q =
     (case tq_writes q of
        [] \<Rightarrow> None
      | j # rest \<Rightarrow>
          if tq_writing q then Some (committed j failure (q\<lparr>tq_writes := rest, tq_writing := False\<rparr>)) else None)"
| "queue_step cfg (AudioRead k failure) q =
     (case map_of (tq_inFlight q) k of
        Some (Reading previous) \<Rightarrow>
          (case failure of
             None \<Rightarrow> Some (set_attempt k (Requesting previous) q)
           | Some e \<Rightarrow> Some (commit (Fail k (describeFailure e)) (set_attempt k Settling q)))
      | _ \<Rightarrow> None)"
| "queue_step cfg (Transcribed k body) q =
     (case map_of (tq_inFlight q) k of
        Some (Requesting previous) \<Rightarrow>
          Some (commit (Settle k body) (set_attempt k Settling (q\<lparr>tq_outageStreak := 0\<rparr>)))
      | _ \<Rightarrow> None)"
| "queue_step cfg (RequestFailed k raw err now) q =
     (case map_of (tq_inFlight q) k of
        Some (Requesting previous) \<Rightarrow> Some (request_failed cfg k previous raw err now q)
      | _ \<Rightarrow> None)"
| "queue_step cfg (HostApply h) q = Some (commit (Host h) q)"

end
