(* ===== verification/QueueSafety.thy ===== *)
theory QueueSafety
  imports TranscriptionQueue CaptureSafety
begin

text \<open>
  What the transcription queue guarantees whatever order requests are answered and writes land
  in: bounded concurrency, one attempt at a time for each segment, and a bound on the requests
  made for one segment. The invariant says, for every index, where its attempt stands, which
  commit is queued for it and what the session says of it.
\<close>

section \<open>What a commit does to the accounts of a segment\<close>

definition att :: "MeetingCaptureSession \<Rightarrow> nat \<Rightarrow> nat" where
  "att s k = (if k < length (cs_segments s) then sg_attempts (cs_segments s ! k) else 0)"

definition dfr :: "MeetingCaptureSession \<Rightarrow> nat \<Rightarrow> nat" where
  "dfr s k = (if k < length (cs_segments s)
              then (case sg_deferrals (cs_segments s ! k) of None \<Rightarrow> 0 | Some n \<Rightarrow> n) else 0)"

definition st :: "MeetingCaptureSession \<Rightarrow> nat \<Rightarrow> MeetingSegmentState option" where
  "st s k = (if k < length (cs_segments s) then Some (sg_state (cs_segments s ! k)) else None)"

abbreviation closed :: "MeetingCaptureSession \<Rightarrow> bool" where
  "closed s \<equiv> isTerminalCaptureStatus (cs_status s)"

definition positional :: "MeetingCaptureSession \<Rightarrow> bool" where
  "positional s \<longleftrightarrow> map sg_index (cs_segments s) = [0..<length (cs_segments s)]"

text \<open>A host's transition: new segments at the end, and otherwise no account is touched.\<close>

definition extends :: "MeetingCaptureSession \<Rightarrow> MeetingCaptureSession \<Rightarrow> bool" where
  "extends s s' \<longleftrightarrow>
     (\<forall>k. att s' k = att s k \<and> dfr s' k = dfr s k \<and> (closed s' \<or> st s k = None \<or> st s' k = st s k))
     \<and> (closed s \<longrightarrow> closed s') \<and> (positional s \<longrightarrow> positional s')"

definition fresh_segment :: "MeetingSegment \<Rightarrow> bool" where
  "fresh_segment g \<longleftrightarrow> sg_attempts g = 0 \<and> sg_deferrals g = None"

lemma toUnit_fresh [simp]: "fresh_segment (toUnit i run)"
  by (simp add: fresh_segment_def toUnit_def)

lemma fold_units_fresh:
  "\<exists>fresh. fold (\<lambda>r segments. segments @ [toUnit (length segments) r]) runs ss = ss @ fresh
    \<and> (\<forall>u \<in> set fresh. fresh_segment u) \<and> map sg_index fresh = [length ss..<length ss + length fresh]"
proof (induction runs arbitrary: ss)
  case (Cons r runs)
  from Cons [of "ss @ [toUnit (length ss) r]"] obtain fresh
    where "fold (\<lambda>r segments. segments @ [toUnit (length segments) r]) (r # runs) ss = ss @ toUnit (length ss) r # fresh"
      "\<forall>u \<in> set fresh. fresh_segment u" "map sg_index fresh = [Suc (length ss)..<Suc (length ss) + length fresh]" by auto
  moreover have "length ss # [Suc (length ss)..<Suc (length ss) + length fresh]
      = [length ss..<length ss + length (toUnit (length ss) r # fresh)]"
    by (subst upt_conv_Cons [of "length ss"]) simp_all
  ultimately show ?case by (intro exI [of _ "toUnit (length ss) r # fresh"]) (auto simp: upt_conv_Cons)
qed simp

lemma extends_append:
  assumes "cs_segments s' = cs_segments s @ fresh" "\<forall>g \<in> set fresh. fresh_segment g"
    "map sg_index fresh = [length (cs_segments s)..<length (cs_segments s) + length fresh]" "\<not> closed s"
  shows "extends s s'"
proof -
  have new: "fresh_segment (fresh ! i)" if "i < length fresh" for i using assms(2) that by simp
  have "att s' k = att s k \<and> dfr s' k = dfr s k \<and> (st s k = None \<or> st s' k = st s k)" for k
    using assms(1) new [of "k - length (cs_segments s)"]
    by (auto simp: att_def dfr_def st_def nth_append fresh_segment_def)
  moreover have "positional s \<Longrightarrow> positional s'"
    using assms(1,3) upt_add_eq_append [of 0 "length (cs_segments s)" "length fresh"] by (simp add: positional_def)
  ultimately show ?thesis using assms(4) by (auto simp: extends_def)
qed

lemma seal_fresh:
  "\<exists>fresh. cs_segments (sealUnitsFromLedger s j) = cs_segments s @ fresh \<and> (\<forall>g \<in> set fresh. fresh_segment g)
    \<and> map sg_index fresh = [length (cs_segments s)..<length (cs_segments s) + length fresh]"
proof -
  have "cs_segments (sealUnitsFromLedger s j) = cs_segments s
      \<or> (\<exists>runs. cs_segments (sealUnitsFromLedger s j)
            = fold (\<lambda>r segments. segments @ [toUnit (length segments) r]) runs (cs_segments s))"
    by (simp add: sealUnitsFromLedger_def Let_def) blast
  then show ?thesis
  proof
    assume "cs_segments (sealUnitsFromLedger s j) = cs_segments s"
    then show ?thesis by (intro exI [of _ "[]"]) simp
  next
    assume "\<exists>runs. cs_segments (sealUnitsFromLedger s j)
            = fold (\<lambda>r segments. segments @ [toUnit (length segments) r]) runs (cs_segments s)"
    then show ?thesis using fold_units_fresh by metis
  qed
qed

lemma seal_extends: "\<not> closed s \<Longrightarrow> extends s (sealUnitsFromLedger s j)"
  using seal_fresh [of s j] by (auto intro: extends_append)

lemma same_segments:
  assumes "cs_segments s' = cs_segments m"
  shows "att s' = att m" "dfr s' = dfr m" "st s' = st m" "positional s' = positional m"
  using assms by (simp_all add: fun_eq_iff att_def dfr_def st_def positional_def)

lemma extends_same_segments:
  assumes "extends s m" "cs_segments s' = cs_segments m" "\<not> closed m"
  shows "extends s s'"
  using assms(1,3) unfolding extends_def same_segments [OF assms(2)] by auto

lemma extends_refl: "extends s s"
  by (simp add: extends_def)

lemma extends_closing:
  assumes "extends s m" "cs_segments s' = map f (cs_segments m)" "closed s'"
    "\<And>g. sg_attempts (f g) = sg_attempts g \<and> sg_deferrals (f g) = sg_deferrals g \<and> sg_index (f g) = sg_index g"
  shows "extends s s'"
proof -
  have "att s' k = att m k \<and> dfr s' k = dfr m k" for k
    using assms(2,4) by (simp add: att_def dfr_def)
  moreover have "positional m \<Longrightarrow> positional s'"
    using assms(2,4) by (simp add: positional_def comp_def)
  ultimately show ?thesis using assms(1,3) by (simp add: extends_def)
qed

lemma ledger_segments: "appendChunkToLedger s i = Inr a \<Longrightarrow> cs_segments a = cs_segments s \<and> cs_status a = cs_status s"
  by (auto elim: appendChunkToLedger_shape)

lemma not_recording: "cs_status s = recording \<Longrightarrow> \<not> closed s"
  by simp

text \<open>A commit of the queue itself: one segment, and a session that is open.\<close>

definition touches :: "nat \<Rightarrow> MeetingCaptureSession \<Rightarrow> MeetingCaptureSession \<Rightarrow> bool" where
  "touches k s s' \<longleftrightarrow>
     (\<forall>i. i \<noteq> k \<longrightarrow> att s' i = att s i \<and> dfr s' i = dfr s i \<and> st s' i = st s i)
     \<and> \<not> closed s \<and> \<not> closed s' \<and> k < length (cs_segments s) \<and> (positional s \<longrightarrow> positional s')"

lemma replace_touches:
  assumes "replaceSegment s k f = Inr s'" "\<And>g g'. f g = Inr g' \<Longrightarrow> sg_index g' = sg_index g"
  obtains g' where "touches k s s'" "f (cs_segments s ! k) = Inr g'" "k < length (cs_segments s)"
    "att s' k = sg_attempts g'" "dfr s' k = (case sg_deferrals g' of None \<Rightarrow> 0 | Some n \<Rightarrow> n)" "st s' k = Some (sg_state g')"
    "att s k = sg_attempts (cs_segments s ! k)"
    "dfr s k = (case sg_deferrals (cs_segments s ! k) of None \<Rightarrow> 0 | Some n \<Rightarrow> n)"
    "st s k = Some (sg_state (cs_segments s ! k))"
proof -
  obtain g' where g: "f (cs_segments s ! k) = Inr g'" "k < length (cs_segments s)" "\<not> closed s"
    "s' = s\<lparr>cs_segments := (cs_segments s)[k := g']\<rparr>"
    using assms(1) by (auto simp: replaceSegment_def split: if_splits sum.splits simp del: terminal_iff)
  moreover have "map sg_index (cs_segments s') = map sg_index (cs_segments s)"
    using g(2,4) assms(2) [OF g(1)] list_update_id [of "map sg_index (cs_segments s)" k] by (simp add: map_update)
  then have "positional s \<Longrightarrow> positional s'"
    using g(4) by (simp add: positional_def)
  ultimately have "touches k s s'"
    by (simp add: touches_def att_def dfr_def st_def del: terminal_iff)
  with g that show thesis by (auto simp: att_def dfr_def st_def)
qed

lemma announce_effect:
  assumes "markTranscribing s k t = Inr s'"
  shows "touches k s s' \<and> st s k \<in> {Some seg_pending, Some seg_failed} \<and> st s' k = Some seg_transcribing
    \<and> att s' k = att s k + 1 \<and> dfr s' k = dfr s k"
  using assms unfolding markTranscribing_def
  by (elim replace_touches) (auto split: if_splits)

lemma settle_effect:
  assumes "markDone s k body = Inr s'"
  shows "touches k s s' \<and> att s' k = att s k \<and> dfr s' k = dfr s k"
  using assms unfolding markDone_def by (elim replace_touches) (auto split: if_splits)

lemma requeue_effect:
  assumes "requeueSegment s k previous t = Inr s'"
  shows "touches k s s' \<and> (if st s k = Some seg_transcribing then att s' k = att s k - 1 \<and> dfr s' k = dfr s k + 1
    else att s' k = att s k \<and> dfr s' k = dfr s k)"
  using assms unfolding requeueSegment_def by (elim replace_touches) (auto simp: Let_def split: if_splits)

lemma fail_effect:
  assumes "markFailed s k reason t = Inr s'"
  shows "touches k s s' \<and> (st s k = Some seg_transcribing \<longrightarrow> att s' k = att s k) \<and> dfr s' k = dfr s k"
  using assms unfolding markFailed_def by (elim replace_touches) (auto simp: Let_def split: if_splits)

lemma extends_trans: "extends s m \<Longrightarrow> extends m s' \<Longrightarrow> extends s s'"
  unfolding extends_def by metis

text \<open>The settling of a covered run: the units it touches are the ones just sealed.\<close>

lemma settle_units_effect:
  "settle_units sealed utterances ks m = Inr s' \<Longrightarrow> (\<And>k. k \<in> set ks \<Longrightarrow> b \<le> k) \<Longrightarrow>
   (\<forall>k. att s' k = att m k \<and> dfr s' k = dfr m k \<and> (k < b \<longrightarrow> st s' k = st m k))
   \<and> (closed m \<longrightarrow> closed s') \<and> (positional m \<longrightarrow> positional s')"
proof (induction ks arbitrary: m)
  case (Cons k ks)
  then obtain nxt body where nxt: "markDone m k body = Inr nxt" "settle_units sealed utterances ks nxt = Inr s'"
    by (auto split: sum.splits)
  have e: "touches k m nxt" "att nxt k = att m k" "dfr nxt k = dfr m k" using settle_effect [OF nxt(1)] by simp_all
  have "att nxt i = att m i \<and> dfr nxt i = dfr m i \<and> (i < b \<longrightarrow> st nxt i = st m i)" for i
    using e Cons.prems(2) [of k] by (cases "i = k") (auto simp: touches_def)
  with Cons.IH [OF nxt(2)] Cons.prems(2) e(1) show ?case by (auto simp: touches_def simp del: terminal_iff)
qed simp

lemma coverage_extends:
  assumes "commitStreamedCoverage s c utterances = Inr s'"
  shows "extends s s'"
proof -
  let ?b = "length (cs_segments s)"
  obtain m where m: "sealUnit s \<lparr>su_throughSequence = Some (int c), su_policy = None, su_keepRemainder = False\<rparr> = Inr m"
      "settle_units (cs_segments m) utterances [?b..<length (cs_segments m)] m = Inr s'"
    using assms by (auto simp: commitStreamedCoverage_def Let_def split: sum.splits)
  then have e: "extends s m" by (auto simp: sealUnit_def split: sum.splits simp del: terminal_iff intro: seal_extends)
  have "(\<forall>k. att s' k = att m k \<and> dfr s' k = dfr m k \<and> (k < ?b \<longrightarrow> st s' k = st m k))
      \<and> (closed m \<longrightarrow> closed s') \<and> (positional m \<longrightarrow> positional s')"
    using settle_units_effect [OF m(2), of ?b] by simp
  moreover have "st s k = None" if "\<not> k < ?b" for k using that by (simp add: st_def)
  moreover have "closed m \<Longrightarrow> closed s'" using calculation by blast
  ultimately show ?thesis using e unfolding extends_def by metis
qed

lemma host_extends: "run_host h s = Inr s' \<Longrightarrow> extends s s'"
proof (induction h arbitrary: s s')
  case H_keep
  then show ?case by (simp add: extends_refl)
next
  case (H_commitStreamedCoverage c utterances)
  then show ?case by (simp add: coverage_extends)
next
  case (H_throw e)
  then show ?case by simp
next
  case (H_then g h)
  then obtain m where "run_host g s = Inr m" "run_host h m = Inr s'" by (auto split: sum.splits)
  then show ?case using H_then.IH extends_trans by blast
next
  case (H_when p h)
  then show ?case by (auto simp: extends_refl split: if_splits)
next
  case (H_appendChunk i)
  then show ?case
    using ledger_segments not_recording
    by (auto simp: appendChunk_def split: if_splits intro: extends_same_segments [OF extends_refl])
next
  case (H_appendSegment i)
  show ?case
  proof (cases "cs_chunks s")
    case None
    then obtain g where "cs_segments s' = cs_segments s @ [g]" "sg_index g = length (cs_segments s)" "fresh_segment g"
      "cs_status s = recording"
      using H_appendSegment
      by (auto simp: appendSegment_def Let_def fresh_segment_def split: if_splits jsnum.splits option.splits)
    then show ?thesis by (intro extends_append [of s' s "[g]"]) auto
  next
    case (Some ledger)
    then obtain a j where a: "appendChunkToLedger s i = Inr a" "s' = sealUnitsFromLedger a j" "cs_status s = recording"
      using H_appendSegment by (auto simp: appendSegment_def Let_def split: if_splits sum.splits)
    then have "extends a s'" using ledger_segments seal_extends by simp
    moreover have "att a = att s" "dfr a = dfr s" "st a = st s" "closed a = closed s" "positional a = positional s"
      using ledger_segments [OF a(1)] by (simp_all add: att_def dfr_def st_def positional_def fun_eq_iff)
    ultimately show ?thesis by (simp add: extends_def del: terminal_iff)
  qed
next
  case (H_sealUnit j)
  then show ?case
    by (auto simp: sealUnit_def split: sum.splits simp del: terminal_iff intro: seal_extends)
next
  case (H_sealDueUnits p)
  then show ?case
    by (auto simp: sealDueUnits_def split: sum.splits if_splits simp del: terminal_iff intro: seal_extends extends_refl)
next
  case (H_stop t)
  then have "\<not> closed s" "cs_segments s' = cs_segments (seal_all s)"
    by (auto simp: stopCapture_def Let_def split: sum.splits if_splits simp del: terminal_iff)
  then show ?case by (intro extends_same_segments [OF seal_extends]) simp_all
next
  case H_resume
  then have "\<not> closed s" "cs_segments s' = cs_segments s"
    by (auto simp: resumeCapture_def split: sum.splits if_splits simp del: terminal_iff)
  then show ?case by (intro extends_same_segments [OF extends_refl])
next
  case (H_finalize t)
  then show ?case
    by (auto simp: finalizeCapture_def Let_def split: sum.splits if_splits
        intro!: extends_closing [OF seal_extends [of s]])
next
  case (H_discard t)
  then show ?case
    by (auto simp: discardCapture_def split: sum.splits if_splits
        intro!: extends_closing [OF extends_refl [of s], of _ id])
qed

section \<open>The invariant\<close>

text \<open>Who waits for a commit: an attempt, or (no index) the reconciliation or a host.\<close>

fun job_owner :: "write_job \<Rightarrow> nat option" where
  "job_owner (Announce k) = Some k"
| "job_owner (Settle k _) = Some k"
| "job_owner (Requeue k _) = Some k"
| "job_owner (Fail k _) = Some k"
| "job_owner (Orphan k) = None"
| "job_owner (Host h) = None"

fun is_orphan :: "write_job \<Rightarrow> bool" where
  "is_orphan (Orphan k) = True"
| "is_orphan _ = False"

definition owned :: "nat \<Rightarrow> write_job list \<Rightarrow> write_job list" where
  "owned k js = filter (\<lambda>j. job_owner j = Some k) js"

text \<open>The head of the writes is applied and belongs to \<open>k\<close>.\<close>

definition applied :: "nat \<Rightarrow> TranscriptionQueue \<Rightarrow> bool" where
  "applied k q \<longleftrightarrow> tq_writing q \<and> tq_writes q \<noteq> [] \<and> job_owner (hd (tq_writes q)) = Some k"

definition live :: "MeetingCaptureSession \<Rightarrow> nat \<Rightarrow> bool" where
  "live s k \<longleftrightarrow> closed s \<or> st s k = Some seg_transcribing \<and> 1 \<le> att s k"

definition startable :: "MeetingCaptureSession \<Rightarrow> nat \<Rightarrow> bool" where
  "startable s k \<longleftrightarrow> closed s \<or> st s k = Some seg_pending \<or> st s k = Some seg_failed"

fun settles :: "write_job \<Rightarrow> bool" where
  "settles (Announce k) = False"
| "settles (Orphan k) = False"
| "settles (Host h) = False"
| "settles _ = True"

fun refund_left :: "MeetingRetryPolicy \<Rightarrow> MeetingCaptureSession \<Rightarrow> nat \<Rightarrow> write_job \<Rightarrow> bool" where
  "refund_left p s k (Requeue i r) = (int (dfr s k) + 1 \<le> rt_maxDeferrals p)"
| "refund_left p s k _ = True"

text \<open>
  One index: its attempt, the commits queued for it, whether the head of them is applied, the
  session. \<open>f\<close> counts the forced retries and \<open>n\<close> the requests made of it.
\<close>

definition attempt_ok ::
  "MeetingRetryPolicy \<Rightarrow> nat \<Rightarrow> nat \<Rightarrow> attempt option \<Rightarrow> write_job list \<Rightarrow> bool \<Rightarrow> MeetingCaptureSession \<Rightarrow> nat \<Rightarrow> bool"
where
  "attempt_ok p f n a js ap s k \<longleftrightarrow>
     int (att s k) \<le> rt_maxAttempts p + int f \<and> int (dfr s k) \<le> rt_maxDeferrals p \<and> n \<le> att s k + dfr s k
     \<and> (case a of
          None \<Rightarrow> js = []
        | Some (Announcing _) \<Rightarrow> js = [Announce k]
            \<and> (if ap then live s k \<and> n + 1 \<le> att s k + dfr s k
               else startable s k \<and> int (att s k) + 1 \<le> rt_maxAttempts p + int f)
        | Some (Reading _) \<Rightarrow> js = [] \<and> live s k \<and> n + 1 \<le> att s k + dfr s k
        | Some (Requesting _) \<Rightarrow> js = [] \<and> live s k
        | Some Settling \<Rightarrow> (\<exists>j. js = [j] \<and> settles j \<and> (\<not> ap \<longrightarrow> live s k \<and> refund_left p s k j)))"

definition orphaned :: "MeetingCaptureSession \<Rightarrow> nat \<Rightarrow> bool" where
  "orphaned s k \<longleftrightarrow> closed s \<or> st s k = Some seg_transcribing"

definition reconcile_ok :: "MeetingRetryPolicy \<Rightarrow> (nat \<Rightarrow> nat) \<Rightarrow> TranscriptionQueue \<Rightarrow> bool" where
  "reconcile_ok p f q \<longleftrightarrow>
     (case tq_drain q of
        Reconciling ks w force \<Rightarrow>
          tq_inFlight q = [] \<and> distinct ks
          \<and> filter is_orphan (tq_writes q) = (if w then [Orphan (hd ks)] else []) \<and> (w \<longrightarrow> ks \<noteq> [])
          \<and> (\<forall>k \<in> set ks. orphaned (tq_session q) k
               \<or> w \<and> k = hd ks \<and> tq_writing q \<and> is_orphan (hd (tq_writes q)))
          \<and> (\<forall>k. force = Some k \<longrightarrow> int (att (tq_session q) k) + 1 \<le> rt_maxAttempts p + int (f k))
      | NoDrain \<Rightarrow> tq_inFlight q = [] \<and> filter is_orphan (tq_writes q) = []
      | _ \<Rightarrow> filter is_orphan (tq_writes q) = [])"

definition queue_inv :: "QueueConfig \<Rightarrow> (nat \<Rightarrow> nat) \<Rightarrow> (nat \<Rightarrow> nat) \<Rightarrow> TranscriptionQueue \<Rightarrow> bool" where
  "queue_inv cfg f n q \<longleftrightarrow>
     (tq_writing q \<longrightarrow> tq_writes q \<noteq> [])
     \<and> distinct (map fst (tq_inFlight q)) \<and> length (tq_inFlight q) \<le> qc_maxInFlight cfg
     \<and> positional (tq_session q) \<and> reconcile_ok (qc_policy cfg) f q
     \<and> (\<forall>k. attempt_ok (qc_policy cfg) (f k) (n k) (map_of (tq_inFlight q) k) (owned k (tq_writes q))
             (applied k q) (tq_session q) k)"

lemma owned_simps [simp]:
  "owned k [] = []"
  "owned k (j # js) = (if job_owner j = Some k then j # owned k js else owned k js)"
  "owned k (js @ ks) = owned k js @ owned k ks"
  by (simp_all add: owned_def)

lemma hd_owner: "owned k js = [] \<Longrightarrow> js \<noteq> [] \<Longrightarrow> job_owner (hd js) \<noteq> Some k"
  by (cases js) (auto split: if_splits)

text \<open>A commit that nobody's attempt waits for.\<close>

lemma commit_unowned:
  assumes "queue_inv cfg f n q" "job_owner j = None" "reconcile_ok (qc_policy cfg) f (commit j q)"
  shows "queue_inv cfg f n (commit j q)"
proof -
  have "applied k (commit j q) = applied k q" for k
    using assms(1) by (cases "tq_writes q") (auto simp: applied_def commit_def queue_inv_def assms(2))
  then show ?thesis using assms by (simp add: queue_inv_def commit_def)
qed

lemma host_commit:
  assumes "queue_inv cfg f n q"
  shows "queue_inv cfg f n (commit (Host h) q)"
proof (rule commit_unowned [OF assms])
  have "hd (tq_writes (commit (Host h) q)) = hd (tq_writes q)" if "tq_writing q"
    using that assms by (auto simp: commit_def queue_inv_def hd_append)
  then show "reconcile_ok (qc_policy cfg) f (commit (Host h) q)"
    using assms by (auto simp: queue_inv_def reconcile_ok_def commit_def split: drain_state.splits)
qed simp

text \<open>A change of one index only: the others keep what the invariant says of them.\<close>

lemma attempt_step:
  assumes inv: "queue_inv cfg f n q" and k: "map_of (tq_inFlight q) k \<noteq> None"
    and s: "tq_session q' = tq_session q" "tq_drain q' = tq_drain q" "tq_writing q' = tq_writing q"
    and fl: "tq_inFlight q' = AList.update k a (tq_inFlight q)"
    and w: "tq_writes q' = tq_writes q @ js" "\<forall>j \<in> set js. job_owner j = Some k"
    and n: "\<forall>i. i \<noteq> k \<longrightarrow> n' i = n i"
    and here: "attempt_ok (qc_policy cfg) (f k) (n' k) (Some a) (owned k (tq_writes q) @ js) (applied k q) (tq_session q) k"
  shows "queue_inv cfg f n' q'"
proof -
  have wr: "tq_writing q \<longrightarrow> tq_writes q \<noteq> []" using inv by (simp add: queue_inv_def)
  then have hd: "tq_writing q \<longrightarrow> hd (tq_writes q') = hd (tq_writes q)" using w by simp
  have ap: "applied i q' = applied i q" for i using wr hd s(3) w(1) by (auto simp: applied_def)
  have own: "owned i (tq_writes q') = owned i (tq_writes q) @ (if i = k then js else [])" for i
    using w by (auto simp: owned_def filter_empty_conv filter_id_conv)
  have orph: "filter is_orphan (tq_writes q') = filter is_orphan (tq_writes q)"
    using w by (auto simp: filter_empty_conv elim!: is_orphan.elims)
  have inflight: "tq_inFlight q \<noteq> []" using k by auto
  have "length (tq_inFlight q') = length (tq_inFlight q)"
  proof -
    have "map fst (tq_inFlight q') = map fst (tq_inFlight q)"
      using k fl update_keys [of k a "tq_inFlight q"] by (auto simp: map_of_eq_None_iff)
    then show ?thesis by (metis length_map)
  qed
  moreover have "map fst (tq_inFlight q') = map fst (tq_inFlight q)"
    using k fl update_keys [of k a "tq_inFlight q"] by (auto simp: map_of_eq_None_iff)
  moreover have "reconcile_ok (qc_policy cfg) f q'"
    using inv s hd orph inflight
    by (auto simp: queue_inv_def reconcile_ok_def split: drain_state.splits)
  moreover have "attempt_ok (qc_policy cfg) (f i) (n' i) (map_of (tq_inFlight q') i) (owned i (tq_writes q'))
      (applied i q') (tq_session q') i" for i
    using here inv n by (cases "i = k") (simp_all add: queue_inv_def ap own s fl update_conv')
  ultimately show ?thesis using inv s wr w by (simp add: queue_inv_def)
qed

section \<open>Writes\<close>

lemma owner_in_flight:
  assumes "queue_inv cfg f n q" "j \<in> set (tq_writes q)" "job_owner j = Some k"
  shows "map_of (tq_inFlight q) k \<noteq> None" "owned k (tq_writes q) = [j]"
proof -
  have j: "j \<in> set (owned k (tq_writes q))" using assms by (simp add: owned_def)
  have ok: "attempt_ok (qc_policy cfg) (f k) (n k) (map_of (tq_inFlight q) k) (owned k (tq_writes q))
             (applied k q) (tq_session q) k" using assms(1) by (simp add: queue_inv_def)
  then show "map_of (tq_inFlight q) k \<noteq> None" "owned k (tq_writes q) = [j]"
    using j by (auto simp: attempt_ok_def split: option.splits attempt.splits)
qed

lemma busy_loop:
  assumes "queue_inv cfg f n q" "tq_inFlight q \<noteq> []"
  shows "tq_drain q = Looping \<or> tq_drain q = Finishing" "filter is_orphan (tq_writes q) = []"
  using assms by (auto simp: queue_inv_def reconcile_ok_def split: drain_state.splits)

lemma pop_frame:
  assumes inv: "queue_inv cfg f n q" and w: "tq_writes q = j # rest"
    and q': "tq_session q' = tq_session q" "tq_writes q' = rest" "\<not> tq_writing q'"
    and fl: "distinct (map fst (tq_inFlight q'))" "length (tq_inFlight q') \<le> length (tq_inFlight q)"
      "\<And>i. job_owner j \<noteq> Some i \<Longrightarrow> map_of (tq_inFlight q') i = map_of (tq_inFlight q) i"
    and rec: "reconcile_ok (qc_policy cfg) f q'"
    and here: "\<And>k. job_owner j = Some k \<Longrightarrow>
      attempt_ok (qc_policy cfg) (f k) (n k) (map_of (tq_inFlight q') k) [] False (tq_session q) k"
  shows "queue_inv cfg f n q'"
proof -
  have "attempt_ok (qc_policy cfg) (f i) (n i) (map_of (tq_inFlight q') i) (owned i rest) False (tq_session q) i" for i
  proof (cases "job_owner j = Some i")
    case True
    then have "owned i rest = []" using owner_in_flight(2) [OF inv, of j i] w by simp
    with here [OF True] show ?thesis by simp
  next
    case False
    then have "owned i rest = owned i (tq_writes q)" "applied i q = False" using w by (auto simp: applied_def)
    with inv fl(3) [OF False] show ?thesis unfolding queue_inv_def by metis
  qed
  moreover have "applied i q' = False" for i using q' by (simp add: applied_def)
  ultimately show ?thesis using inv q' fl rec by (simp add: queue_inv_def)
qed

lemma map_of_filter_key: "map_of (filter (\<lambda>(i, _). i \<noteq> k) xs) = (map_of xs)(k := None)"
  by (induction xs) auto

lemma distinct_filter_key: "distinct (map fst xs) \<Longrightarrow> distinct (map fst (filter P xs))"
  by (induction xs) auto

lemma put_error_simps [simp]:
  "tq_session (put_error e q) = tq_session q" "tq_writes (put_error e q) = tq_writes q"
  "tq_writing (put_error e q) = tq_writing q" "tq_inFlight (put_error e q) = tq_inFlight q"
  "tq_drain (put_error e q) = tq_drain q" "tq_outcome (put_error e q) = (tq_outcome q)\<lparr>do_errors := do_errors (tq_outcome q) @ [e]\<rparr>"
  by (simp_all add: put_error_def)

text \<open>What \<open>committed\<close> does to the parts the invariant reads.\<close>

lemma committed_frame:
  "tq_session (committed j e q) = tq_session q" "tq_writes (committed j e q) = tq_writes q"
  "tq_writing (committed j e q) = tq_writing q"
  by (cases j; cases e; simp add: committed_def end_attempt_def set_attempt_def Let_def
      split: option.splits attempt.splits drain_state.splits list.splits bool.splits)+

lemma committed_settles:
  "settles j \<Longrightarrow> job_owner j = Some k \<Longrightarrow>
   tq_inFlight (committed j e q) = filter (\<lambda>(i, _). i \<noteq> k) (tq_inFlight q) \<and> tq_drain (committed j e q) = tq_drain q"
  by (cases j; cases e) (auto simp: committed_def end_attempt_def Let_def)

lemma committed_announce:
  assumes "map_of (tq_inFlight q) k = Some (Announcing r)"
  shows "tq_inFlight (committed (Announce k) None q) = AList.update k (Reading r) (tq_inFlight q)"
    "tq_inFlight (committed (Announce k) (Some e) q) = filter (\<lambda>(i, _). i \<noteq> k) (tq_inFlight q)"
    "tq_drain (committed (Announce k) x q) = tq_drain q"
  using assms by (cases x; simp add: committed_def end_attempt_def set_attempt_def Let_def)+

lemma reconcile_busy:
  assumes "tq_drain q = Looping \<or> tq_drain q = Finishing" "filter is_orphan (tq_writes q) = []"
  shows "reconcile_ok p f q"
  using assms by (auto simp: reconcile_ok_def)

lemma update_same_keys: "map_of xs k \<noteq> None \<Longrightarrow> map fst (AList.update k a xs) = map fst xs"
  using update_keys [of k a xs] by (auto simp: map_of_eq_None_iff)

lemma committed_inv:
  assumes inv: "queue_inv cfg f n q" and w: "tq_writes q = j # rest"
    and wrote: "failure = None \<Longrightarrow> tq_writing q"
  shows "queue_inv cfg f n (committed j failure (q\<lparr>tq_writes := rest, tq_writing := False\<rparr>))" (is "queue_inv _ _ _ ?q")
proof (cases "job_owner j")
  case None
  show ?thesis
  proof (rule pop_frame [OF inv w])
    have fl: "tq_inFlight ?q = tq_inFlight q"
      using None by (cases j; cases failure)
        (auto simp: committed_def Let_def split: drain_state.splits list.splits bool.splits)
    show "distinct (map fst (tq_inFlight ?q))" "length (tq_inFlight ?q) \<le> length (tq_inFlight q)"
      "\<And>i. job_owner j \<noteq> Some i \<Longrightarrow> map_of (tq_inFlight ?q) i = map_of (tq_inFlight q) i"
      using fl inv by (simp_all add: queue_inv_def)
    have rec: "reconcile_ok (qc_policy cfg) f q" using inv by (simp add: queue_inv_def)
    show "reconcile_ok (qc_policy cfg) f ?q"
    proof (cases j)
      case (Host h)
      then show ?thesis using rec w fl
        by (auto simp: committed_def reconcile_ok_def Let_def split: drain_state.splits)
    next
      case (Orphan x)
      with rec w obtain ks force where d: "tq_drain q = Reconciling (x # ks) True force"
        by (cases "tq_drain q") (auto simp: reconcile_ok_def neq_Nil_conv split: if_splits)
      then have "tq_drain ?q = Reconciling ks False force"
        using Orphan by (cases failure) (simp_all add: committed_def Let_def)
      with rec w d Orphan fl show ?thesis by (auto simp: reconcile_ok_def committed_frame)
    qed (use None in simp_all)
  qed (use None in \<open>simp_all add: committed_frame\<close>)
next
  case (Some k)
  have fl: "map_of (tq_inFlight q) k \<noteq> None" and own: "owned k (tq_writes q) = [j]"
    using owner_in_flight [OF inv, of j k] Some w by simp_all
  have "tq_inFlight q \<noteq> []" using fl by auto
  note busy = busy_loop [OF inv this]
  have ok: "attempt_ok (qc_policy cfg) (f k) (n k) (map_of (tq_inFlight q) k) [j] (tq_writing q) (tq_session q) k"
  proof -
    have "applied k q = tq_writing q" using w Some by (simp add: applied_def)
    moreover have "attempt_ok (qc_policy cfg) (f k) (n k) (map_of (tq_inFlight q) k) (owned k (tq_writes q)) (applied k q) (tq_session q) k"
      using inv by (simp add: queue_inv_def)
    ultimately show ?thesis using own by simp
  qed
  let ?p = "q\<lparr>tq_writes := rest, tq_writing := False\<rparr>"
  have keep: "distinct (map fst (tq_inFlight q))" using inv by (simp add: queue_inv_def)
  have drop: "attempt_ok (qc_policy cfg) (f k) (n k) None [] False (tq_session q) k"
    using ok by (simp add: attempt_ok_def)
  show ?thesis
  proof (rule pop_frame [OF inv w])
    have cases: "(\<exists>r. j = Announce k \<and> map_of (tq_inFlight q) k = Some (Announcing r)) \<or> settles j"
      using ok Some by (cases j) (auto simp: attempt_ok_def split: option.splits attempt.splits)
    have fl': "tq_inFlight ?q = filter (\<lambda>(i, _). i \<noteq> k) (tq_inFlight q)
        \<or> failure = None \<and> (\<exists>r. j = Announce k \<and> map_of (tq_inFlight q) k = Some (Announcing r)
            \<and> tq_inFlight ?q = AList.update k (Reading r) (tq_inFlight q))"
    proof (cases "settles j")
      case True
      then show ?thesis using committed_settles [of j k failure ?p] Some by simp
    next
      case False
      with cases obtain r where "j = Announce k" "map_of (tq_inFlight q) k = Some (Announcing r)" by blast
      then show ?thesis using committed_announce [of ?p k r] by (cases failure) simp_all
    qed
    show "distinct (map fst (tq_inFlight ?q))"
      using fl' keep fl by (auto simp: distinct_filter_key update_same_keys)
    show "length (tq_inFlight ?q) \<le> length (tq_inFlight q)"
      using fl' fl update_same_keys [of "tq_inFlight q" k] by (metis length_filter_le length_map le_refl)
    show "map_of (tq_inFlight ?q) i = map_of (tq_inFlight q) i" if "job_owner j \<noteq> Some i" for i
      using fl' that Some by (auto simp: map_of_filter_key update_conv')
    have "tq_drain ?q = tq_drain q"
    proof (cases "settles j")
      case True
      then show ?thesis using committed_settles [of j k failure ?p] Some by simp
    next
      case False
      with cases obtain r where "j = Announce k" "map_of (tq_inFlight q) k = Some (Announcing r)" by blast
      then show ?thesis using committed_announce(3) [of ?p k r] by simp
    qed
    then show "reconcile_ok (qc_policy cfg) f ?q"
      using busy w by (intro reconcile_busy) (auto simp: committed_frame split: if_splits)
    show "attempt_ok (qc_policy cfg) (f i) (n i) (map_of (tq_inFlight ?q) i) [] False (tq_session q) i"
      if "job_owner j = Some i" for i
      using fl' that Some drop ok wrote by (auto simp: map_of_filter_key update_conv' attempt_ok_def)
  qed (simp_all add: committed_frame)
qed

text \<open>The head of the writes is applied to the session.\<close>

lemma live_extends: "extends s s' \<Longrightarrow> live s k \<Longrightarrow> live s' k"
  unfolding extends_def live_def by (metis option.distinct(1))

lemma startable_extends: "extends s s' \<Longrightarrow> startable s k \<Longrightarrow> startable s' k"
  unfolding extends_def startable_def by (metis option.distinct(1))

lemma orphaned_extends: "extends s s' \<Longrightarrow> orphaned s k \<Longrightarrow> orphaned s' k"
  unfolding extends_def orphaned_def by (metis option.distinct(1))

lemma attempt_extends:
  assumes "extends s s'" "attempt_ok p f n a js ap s k"
  shows "attempt_ok p f n a js ap s' k"
proof -
  have "att s' k = att s k" "dfr s' k = dfr s k" using assms(1) by (auto simp: extends_def)
  then have "refund_left p s' k j = refund_left p s k j" for j by (cases j) simp_all
  with assms \<open>att s' k = att s k\<close> \<open>dfr s' k = dfr s k\<close> show ?thesis
    using live_extends [OF assms(1)] startable_extends [OF assms(1)]
    by (auto simp: attempt_ok_def split: option.splits attempt.splits if_splits)
qed

lemma attempt_same:
  assumes "att s' k = att s k" "dfr s' k = dfr s k" "st s' k = st s k" "closed s' = closed s"
  shows "attempt_ok p f n a js ap s' k = attempt_ok p f n a js ap s k"
proof -
  have "refund_left p s' k j = refund_left p s k j" for j using assms by (cases j) simp_all
  then have r: "refund_left p s' k = refund_left p s k" by blast
  show ?thesis by (simp only: attempt_ok_def live_def startable_def r assms)
qed

lemma owned_job_effect:
  assumes ok: "attempt_ok p f n a [j] False s k" and owner: "job_owner j = Some k" and run: "run_job j t s = Inr s'"
  shows "touches k s s' \<and> attempt_ok p f n a [j] True s' k"
proof (cases j)
  case (Announce i)
  then have "touches k s s'" "st s' k = Some seg_transcribing" "att s' k = att s k + 1" "dfr s' k = dfr s k"
    using announce_effect [of s k t s'] run owner by simp_all
  with ok Announce owner show ?thesis
    by (auto simp: attempt_ok_def live_def split: option.splits attempt.splits)
next
  case (Settle i body)
  then have "touches k s s'" "att s' k = att s k" "dfr s' k = dfr s k"
    using settle_effect [of s k body s'] run owner by simp_all
  with ok Settle owner show ?thesis by (auto simp: attempt_ok_def split: option.splits attempt.splits)
next
  case (Requeue i r)
  have e: "touches k s s' \<and> (if st s k = Some seg_transcribing then att s' k = att s k - 1 \<and> dfr s' k = dfr s k + 1
      else att s' k = att s k \<and> dfr s' k = dfr s k)"
    using requeue_effect [of s k r t s'] run owner Requeue by simp
  then have "\<not> closed s" by (simp add: touches_def)
  with ok Requeue owner have "st s k = Some seg_transcribing" "1 \<le> att s k" "int (dfr s k) + 1 \<le> rt_maxDeferrals p"
    by (auto simp: attempt_ok_def live_def split: option.splits attempt.splits simp del: terminal_iff)
  with e ok Requeue owner show ?thesis by (auto simp: attempt_ok_def split: option.splits attempt.splits)
next
  case (Fail i reason)
  have e: "touches k s s' \<and> (st s k = Some seg_transcribing \<longrightarrow> att s' k = att s k) \<and> dfr s' k = dfr s k"
    using fail_effect [of s k reason t s'] run owner Fail by simp
  then have "\<not> closed s" by (simp add: touches_def)
  with ok Fail owner have "st s k = Some seg_transcribing"
    by (auto simp: attempt_ok_def live_def split: option.splits attempt.splits simp del: terminal_iff)
  with e ok Fail owner show ?thesis by (auto simp: attempt_ok_def split: option.splits attempt.splits)
qed (use owner in simp_all)

lemma apply_inv:
  assumes inv: "queue_inv cfg f n q" and w: "tq_writes q = j # rest" "\<not> tq_writing q"
    and run: "run_job j t (tq_session q) = Inr s"
  shows "queue_inv cfg f n (q\<lparr>tq_session := s, tq_writing := True\<rparr>)"
proof -
  let ?s = "tq_session q"
  have ok: "attempt_ok (qc_policy cfg) (f i) (n i) (map_of (tq_inFlight q) i) (owned i (tq_writes q)) False ?s i" for i
    using inv w by (simp add: queue_inv_def applied_def)
  have ap: "applied i (q\<lparr>tq_session := s, tq_writing := True\<rparr>) \<longleftrightarrow> job_owner j = Some i" for i
    using w by (simp add: applied_def)
  have rec: "reconcile_ok (qc_policy cfg) f q" using inv by (simp add: queue_inv_def)
  show ?thesis
  proof (cases "job_owner j")
    case (Some k)
    have own: "owned k (tq_writes q) = [j]" and fl: "map_of (tq_inFlight q) k \<noteq> None"
      using owner_in_flight [OF inv, of j k] Some w by simp_all
    from ok [of k] own have effect: "touches k ?s s" "attempt_ok (qc_policy cfg) (f k) (n k) (map_of (tq_inFlight q) k) [j] True s k"
      using owned_job_effect Some run by auto
    have "attempt_ok (qc_policy cfg) (f i) (n i) (map_of (tq_inFlight q) i) (owned i (tq_writes q)) False s i" if "i \<noteq> k" for i
      using ok [of i] effect(1) that attempt_same [of s i ?s] by (simp add: touches_def)
    moreover have "tq_inFlight q \<noteq> []" using fl by auto
    then have "reconcile_ok (qc_policy cfg) f (q\<lparr>tq_session := s, tq_writing := True\<rparr>)"
      using busy_loop [OF inv] by (intro reconcile_busy) simp_all
    moreover have "positional s" using effect inv by (simp add: touches_def queue_inv_def)
    ultimately show ?thesis using inv w effect own Some ap unfolding queue_inv_def
      by (auto simp: ap)
  next
    case None
    then consider h where "j = Host h" | x where "j = Orphan x" by (cases j) auto
    then show ?thesis
    proof cases
      case 1
      then have e: "extends ?s s" using run host_extends by simp
      then have a: "att s = att ?s" and o: "\<And>k. orphaned ?s k \<Longrightarrow> orphaned s k"
        using orphaned_extends by (auto simp: extends_def fun_eq_iff)
      have "reconcile_ok (qc_policy cfg) f (q\<lparr>tq_session := s, tq_writing := True\<rparr>)"
        using rec w 1 o by (auto simp: reconcile_ok_def a split: drain_state.splits)
      then show ?thesis using inv w e ap None attempt_extends [OF e ok] by (simp add: queue_inv_def extends_def)
    next
      case 2
      with rec w obtain ks force where d: "tq_drain q = Reconciling (x # ks) True force" "tq_inFlight q = []"
        by (cases "tq_drain q") (auto simp: reconcile_ok_def neq_Nil_conv split: if_splits)
      have e: "touches x ?s s" "st ?s x = Some seg_transcribing \<longrightarrow> att s x = att ?s x" "dfr s x = dfr ?s x"
        using fail_effect [of ?s x MEETING_INTERRUPTED_REASON t s] run 2 by simp_all
      then have "\<not> closed ?s" "\<not> closed s" by (simp_all add: touches_def)
      then have "st ?s x = Some seg_transcribing" using rec d w by (auto simp: reconcile_ok_def orphaned_def simp del: terminal_iff)
      with e have same: "att s i = att ?s i \<and> dfr s i = dfr ?s i \<and> (i \<noteq> x \<longrightarrow> st s i = st ?s i)" for i
        by (auto simp: touches_def)
      then have "attempt_ok (qc_policy cfg) (f i) (n i) None (owned i (tq_writes q)) False s i" for i
        using ok [of i] d by (simp add: attempt_ok_def)
      moreover have "orphaned s i" if "i \<in> set ks" for i
        using that rec d same [of i] w \<open>\<not> closed ?s\<close> by (auto simp: reconcile_ok_def orphaned_def simp del: terminal_iff)
      then have "reconcile_ok (qc_policy cfg) f (q\<lparr>tq_session := s, tq_writing := True\<rparr>)"
        using rec w d same 2 by (auto simp: reconcile_ok_def)
      moreover have "positional s" using e inv by (simp add: touches_def queue_inv_def)
      ultimately show ?thesis using inv w d ap None by (simp add: queue_inv_def)
    qed
  qed
qed

end
