(* ===== verification/QueueRun.thy ===== *)
theory QueueRun
  imports QueueSafety
begin

text \<open>
  The runs of the transcription queue: every event keeps the invariant of \<open>QueueSafety\<close>, so it
  holds in every reachable state, and with it the bounds the queue is built for. \<open>queue_life\<close> is the
  life of a meeting over several processes: a landed write is what the next one starts from.
\<close>

section \<open>The loop keeps the invariant\<close>

lemma map_of_snoc: "map_of xs k = None \<Longrightarrow> map_of (xs @ [(k, a)]) i = (if i = k then Some a else map_of xs i)"
  by (auto simp: map_add_def split: option.splits)

lemma applied_snoc:
  "tq_writing q \<longrightarrow> tq_writes q \<noteq> [] \<Longrightarrow> tq_writing q' = tq_writing q \<Longrightarrow> tq_writes q' = tq_writes q @ js \<Longrightarrow>
   applied i q' = applied i q"
  by (auto simp: applied_def)

lemma not_in_flight:
  assumes "queue_inv cfg f n q" "map_of (tq_inFlight q) k = None"
  shows "owned k (tq_writes q) = []" "\<not> applied k q"
    "int (att (tq_session q) k) \<le> rt_maxAttempts (qc_policy cfg) + int (f k)"
    "int (dfr (tq_session q) k) \<le> rt_maxDeferrals (qc_policy cfg)" "n k \<le> att (tq_session q) k + dfr (tq_session q) k"
proof -
  have ok: "attempt_ok (qc_policy cfg) (f k) (n k) None (owned k (tq_writes q)) (applied k q) (tq_session q) k"
    using assms by (metis queue_inv_def)
  then show "owned k (tq_writes q) = []" by (simp add: attempt_ok_def)
  then show "\<not> applied k q" using hd_owner [of k "tq_writes q"] by (auto simp: applied_def)
  show "int (att (tq_session q) k) \<le> rt_maxAttempts (qc_policy cfg) + int (f k)"
    "int (dfr (tq_session q) k) \<le> rt_maxDeferrals (qc_policy cfg)" "n k \<le> att (tq_session q) k + dfr (tq_session q) k"
    using ok by (simp_all add: attempt_ok_def)
qed

lemma dispatch_inv:
  assumes inv: "queue_inv cfg f n q" and "tq_drain q = Looping" and new: "map_of (tq_inFlight q) k = None"
    and room: "length (tq_inFlight q) < qc_maxInFlight cfg"
    and start: "startable (tq_session q) k" "int (att (tq_session q) k) + 1 \<le> rt_maxAttempts (qc_policy cfg) + int (f k)"
  shows "queue_inv cfg f n (dispatch k q)"
proof -
  obtain r where q': "tq_inFlight (dispatch k q) = tq_inFlight q @ [(k, Announcing r)]"
      "tq_writes (dispatch k q) = tq_writes q @ [Announce k]" "tq_writing (dispatch k q) = tq_writing q"
      "tq_session (dispatch k q) = tq_session q" "tq_drain (dispatch k q) = Looping"
    using assms(2) new by (simp add: dispatch_def commit_def Let_def)
  have ap: "applied i (dispatch k q) = applied i q" for i
    using inv q' by (intro applied_snoc) (auto simp: queue_inv_def)
  have "attempt_ok (qc_policy cfg) (f i) (n i) (map_of (tq_inFlight (dispatch k q)) i) (owned i (tq_writes (dispatch k q)))
      (applied i (dispatch k q)) (tq_session (dispatch k q)) i" for i
  proof (cases "i = k")
    case True
    then show ?thesis using not_in_flight [OF inv new] start new
      by (simp add: q' ap map_of_snoc attempt_ok_def del: map_of_append)
  next
    case False
    then show ?thesis using inv new by (simp add: q' ap map_of_snoc queue_inv_def del: map_of_append)
  qed
  moreover have "k \<notin> set (map fst (tq_inFlight q))" using new by (simp add: map_of_eq_None_iff)
  moreover have "reconcile_ok (qc_policy cfg) f (dispatch k q)"
    using inv assms(2) by (simp add: queue_inv_def reconcile_ok_def q')
  ultimately show ?thesis using inv room by (simp add: queue_inv_def q')
qed

lemma dispatch_frame [simp]:
  "tq_session (dispatch k q) = tq_session q" "tq_drain (dispatch k q) = tq_drain q"
  by (simp_all add: dispatch_def commit_def Let_def)

lemma dispatch_ready_inv:
  assumes "queue_inv cfg f n q" "tq_drain q = Looping"
    "\<And>k. k \<in> set ks \<Longrightarrow> startable (tq_session q) k
       \<and> int (att (tq_session q) k) + 1 \<le> rt_maxAttempts (qc_policy cfg) + int (f k)"
  shows "queue_inv cfg f n (dispatch_ready (qc_maxInFlight cfg) ks q)
    \<and> tq_drain (dispatch_ready (qc_maxInFlight cfg) ks q) = Looping"
  using assms
proof (induction ks arbitrary: q)
  case (Cons k ks)
  show ?case
  proof (cases "length (tq_inFlight q) \<ge> qc_maxInFlight cfg \<or> map_of (tq_inFlight q) k \<noteq> None \<or> k \<in> set (tq_blocked q)")
    case False
    then have "queue_inv cfg f n (dispatch k q)" using Cons.prems by (intro dispatch_inv) auto
    with Cons False show ?thesis by simp
  qed (use Cons in auto)
qed simp

lemma plan_ready_startable:
  assumes "positional s" "k \<in> set (qp_ready (planTranscription parse s p now))"
  shows "startable s k \<and> int (att s k) + 1 \<le> rt_maxAttempts p"
proof -
  obtain g where g: "g \<in> set (cs_segments s)" "sg_index g = k"
      "sl_disposition (toSlot parse g (isTerminalCaptureStatus (cs_status s)) p now) = slot_ready"
    using assms(2) unfolding plan_simps(2) in_indices by blast
  then obtain i where i: "i < length (cs_segments s)" "cs_segments s ! i = g" by (auto simp: in_set_conv_nth)
  have "map sg_index (cs_segments s) ! i = i" using assms(1) i by (simp add: positional_def)
  then have "i = k" using i g by simp
  with i g show ?thesis
    by (cases "sg_state g") (auto simp: toSlot_cases startable_def st_def att_def split: if_splits)
qed

lemma quiet_result:
  assumes "queue_inv cfg f n q" "tq_inFlight q = []" "filter is_orphan (tq_writes q) = []"
  shows "queue_inv cfg f n (drain_result q phase w)"
  using assms by (simp add: queue_inv_def drain_result_def reconcile_ok_def applied_def)

lemma finish_inv:
  assumes "queue_inv cfg f n q" "tq_inFlight q = []" "filter is_orphan (tq_writes q) = []"
  shows "queue_inv cfg f n (finish cfg now q)"
  using quiet_result [OF assms] by (simp add: finish_def Let_def)

text \<open>Changes to what the invariant does not read.\<close>

lemma inv_frame:
  assumes "queue_inv cfg f n q" "tq_session q' = tq_session q" "tq_writes q' = tq_writes q" "tq_writing q' = tq_writing q"
    "tq_inFlight q' = tq_inFlight q" "reconcile_ok (qc_policy cfg) f q'"
  shows "queue_inv cfg f n q'"
  using assms by (simp add: queue_inv_def applied_def)

lemma looping_quiet:
  "queue_inv cfg f n q \<Longrightarrow> tq_drain q = Looping \<Longrightarrow> filter is_orphan (tq_writes q) = []"
  "queue_inv cfg f n q \<Longrightarrow> tq_drain q = Finishing \<Longrightarrow> filter is_orphan (tq_writes q) = []"
  by (simp_all add: queue_inv_def reconcile_ok_def)

lemma pass_inv:
  assumes inv: "queue_inv cfg f n q" and step: "pass cfg now q = Some q'"
  shows "queue_inv cfg f n q'"
proof (cases "tq_drain q")
  case Looping
  note no = looping_quiet(1) [OF inv Looping]
  let ?q1 = "q\<lparr>tq_woken := False\<rparr>"
  let ?q2 = "if \<not> tq_unavailable ?q1 then dispatch_ready (qc_maxInFlight cfg) (qp_ready (queue_plan cfg ?q1 now)) ?q1 else ?q1"
  have q1: "queue_inv cfg f n ?q1" "tq_drain ?q1 = Looping"
    by (intro inv_frame [OF inv] reconcile_busy) (simp_all add: no Looping)
  have "positional (tq_session q)" using inv by (simp add: queue_inv_def)
  then have "startable (tq_session ?q1) k \<and> int (att (tq_session ?q1) k) + 1 \<le> rt_maxAttempts (qc_policy cfg) + int (f k)"
    if "k \<in> set (qp_ready (queue_plan cfg ?q1 now))" for k
    using plan_ready_startable [OF _ that] by simp
  from dispatch_ready_inv [OF q1 this] have q2: "queue_inv cfg f n ?q2 \<and> tq_drain ?q2 = Looping"
    using q1 by (simp del: plan_simps)
  then have no2: "filter is_orphan (tq_writes ?q2) = []" using looping_quiet by blast
  show ?thesis
  proof (cases "\<not> tq_unavailable ?q1 \<and> qp_phase (queue_plan cfg ?q1 now) = phase_closed")
    case True
    let ?q3 = "?q1\<lparr>tq_drain := Finishing\<rparr>"
    have "q' = (if tq_inFlight ?q1 = [] then finish cfg now ?q1 else ?q3)"
      using True step Looping by (simp add: pass_def Let_def split: if_splits)
    moreover have "queue_inv cfg f n ?q3" using no by (intro inv_frame [OF inv] reconcile_busy) simp_all
    moreover have "queue_inv cfg f n (finish cfg now ?q1)" if "tq_inFlight ?q1 = []"
      using q1 no that by (intro finish_inv) simp_all
    ultimately show ?thesis by (simp split: if_splits)
  next
    case False
    have "pass cfg now q = (if \<not> tq_woken q then None
        else if \<not> tq_unavailable ?q1 \<and> qp_phase (queue_plan cfg ?q1 now) = phase_closed
        then (if tq_inFlight ?q1 \<noteq> [] then Some (?q1\<lparr>tq_drain := Finishing\<rparr>) else Some (finish cfg now ?q1))
        else (if tq_inFlight ?q2 = [] then Some (finish cfg now ?q2) else Some ?q2))"
      unfolding pass_def Let_def Looping drain_state.simps by (rule refl)
    then have "q' = (if tq_inFlight ?q2 = [] then finish cfg now ?q2 else ?q2)"
      using step False by (auto split: if_splits)
    then obtain p where "q' = (if tq_inFlight p = [] then finish cfg now p else p)" "queue_inv cfg f n p"
        "filter is_orphan (tq_writes p) = []" using q2 no2 by blast
    then show ?thesis using finish_inv [of cfg f n p now] by (simp split: if_splits)
  qed
next
  case Finishing
  then have "tq_inFlight q = []" "q' = finish cfg now q" using step by (simp_all add: pass_def split: if_splits)
  then show ?thesis using finish_inv [OF inv _ looping_quiet(2) [OF inv Finishing]] by simp
qed (use step in \<open>simp_all add: pass_def\<close>)

lemma reconcile_next_inv:
  assumes inv: "queue_inv cfg f n q" and max: "1 \<le> qc_maxInFlight cfg" and step: "reconcile_next q = Some q'"
  shows "queue_inv cfg f n q'"
proof -
  obtain ks w force where d: "tq_drain q = Reconciling ks w force"
    using step by (cases "tq_drain q") (simp_all add: reconcile_next_def)
  have rec: "reconcile_ok (qc_policy cfg) f q" and wr: "tq_writing q \<longrightarrow> tq_writes q \<noteq> []"
    using inv by (simp_all add: queue_inv_def)
  show ?thesis
  proof (cases ks)
    case Nil
    let ?q1 = "q\<lparr>tq_drain := Looping, tq_woken := True\<rparr>"
    have q1: "queue_inv cfg f n ?q1" using rec d Nil by (intro inv_frame [OF inv]) (auto simp: reconcile_ok_def)
    show ?thesis
    proof (cases "q' = ?q1")
      case False
      then obtain k where k: "force = Some k" "q' = dispatch k ?q1" "startable (tq_session q) k"
        using step d Nil
        by (cases "sg_state (cs_segments (tq_session q) ! the force)")
          (auto simp: reconcile_next_def Let_def startable_def st_def split: option.splits if_splits)
      then show ?thesis using q1 max rec d by (auto simp: reconcile_ok_def intro!: dispatch_inv)
    qed (use q1 in simp)
  next
    case (Cons k rest)
    then have "q' = commit (Orphan k) (q\<lparr>tq_drain := Reconciling (k # rest) True force\<rparr>)" "\<not> w"
      using step d by (auto simp: reconcile_next_def split: bool.splits)
    moreover have "queue_inv cfg f n (commit (Orphan k) (q\<lparr>tq_drain := Reconciling (k # rest) True force\<rparr>))"
    proof -
      let ?p = "q\<lparr>tq_writes := tq_writes q @ [Orphan k]\<rparr>"
      have "reconcile_ok (qc_policy cfg) f (commit (Orphan k) (q\<lparr>tq_drain := Reconciling (k # rest) True force\<rparr>))"
        using rec d Cons \<open>\<not> w\<close> by (auto simp: reconcile_ok_def commit_def)
      moreover have "applied i (commit (Orphan k) (q\<lparr>tq_drain := Reconciling (k # rest) True force\<rparr>)) = applied i q" for i
        using wr by (intro applied_snoc) (auto simp: commit_def)
      ultimately show ?thesis using inv by (simp add: queue_inv_def commit_def)
    qed
    ultimately show ?thesis by simp
  qed
qed

fun count_forced :: "queue_event \<Rightarrow> (nat \<Rightarrow> nat) \<Rightarrow> nat \<Rightarrow> nat" where
  "count_forced (Begin (Some k) now) f = f(k := f k + 1)"
| "count_forced _ f = f"

fun count_sent :: "queue_event \<Rightarrow> (nat \<Rightarrow> nat) \<Rightarrow> nat \<Rightarrow> nat" where
  "count_sent (AudioRead k None) n = n(k := n k + 1)"
| "count_sent _ n = n"

lemma begin_inv:
  assumes inv: "queue_inv cfg f n q" and d: "tq_drain q = NoDrain"
  shows "queue_inv cfg (count_forced (Begin force now) f) n (begin_drain cfg force now q)" (is "queue_inv _ ?f _ _")
proof -
  have fl: "tq_inFlight q = []" and no: "filter is_orphan (tq_writes q) = []" and pos: "positional (tq_session q)"
    using inv d by (simp_all add: queue_inv_def reconcile_ok_def)
  have more: "int (f k) \<le> int (?f k)" for k by (cases force) auto
  have ok: "attempt_ok (qc_policy cfg) (?f k) (n k) None (owned k (tq_writes q)) (applied k q) (tq_session q) k" for k
    using not_in_flight [OF inv, of k] fl more [of k] by (simp add: attempt_ok_def)
  let ?q = "q\<lparr>tq_outcome := no_outcome, tq_blocked := []\<rparr>"
  have q: "queue_inv cfg ?f n ?q" using inv ok fl no d by (simp add: queue_inv_def reconcile_ok_def applied_def)
  let ?orphans = "if tq_reconciled q then []
      else map sg_index (filter (\<lambda>g. sg_state g = seg_transcribing) (cs_segments (tq_session q)))"
  let ?r = "?q\<lparr>tq_unavailable := False, tq_reconciled := True, tq_drain := Reconciling ?orphans False force\<rparr>"
  have index: "st (tq_session q) (sg_index g) = Some (sg_state g)" if "g \<in> set (cs_segments (tq_session q))" for g
  proof -
    obtain i where "i < length (cs_segments (tq_session q))" "cs_segments (tq_session q) ! i = g"
      using \<open>g \<in> _\<close> by (auto simp: in_set_conv_nth)
    moreover have "map sg_index (cs_segments (tq_session q)) ! i = i"
      using pos calculation(1) by (simp add: positional_def)
    ultimately show ?thesis by (auto simp: st_def)
  qed
  have "distinct (map sg_index (cs_segments (tq_session q)))" using pos by (simp add: positional_def)
  then have "distinct ?orphans" by (simp add: distinct_map_filter)
  moreover have "orphaned (tq_session q) k" if "k \<in> set ?orphans" for k
    using that index by (auto simp: orphaned_def split: if_splits)
  moreover have "int (att (tq_session q) k) + 1 \<le> rt_maxAttempts (qc_policy cfg) + int (?f k)" if "force = Some k" for k
    using that not_in_flight(3) [OF inv, of k] fl by simp
  ultimately have "queue_inv cfg ?f n ?r"
    using fl no by (intro inv_frame [OF q]) (auto simp: reconcile_ok_def)
  then show ?thesis using quiet_result [OF q] fl no by (auto simp: begin_drain_def Let_def)
qed

section \<open>Attempts keep the invariant\<close>

lemma in_flight_ok:
  "queue_inv cfg f n q \<Longrightarrow> map_of (tq_inFlight q) k = Some a \<Longrightarrow>
   attempt_ok (qc_policy cfg) (f k) (n k) (Some a) (owned k (tq_writes q)) (applied k q) (tq_session q) k"
  by (metis queue_inv_def)

lemma request_failed_inv:
  assumes inv: "queue_inv cfg f n q" and k: "map_of (tq_inFlight q) k = Some (Requesting r)"
  shows "queue_inv cfg f n (request_failed cfg k previous raw err now q)"
proof -
  note ok = in_flight_ok [OF inv k]
  obtain j where j: "tq_writes (request_failed cfg k previous raw err now q) = tq_writes q @ [j]" "job_owner j = Some k" "settles j"
      "refund_left (qc_policy cfg) (tq_session q) k j"
  proof (cases "qc_classify cfg err = endpoint_unavailable \<and> k < length (cs_segments (tq_session q))
      \<and> \<not> deferralsExhausted (cs_segments (tq_session q) ! k) (qc_policy cfg)")
    case True
    then show thesis
      by (intro that [of "Requeue k previous"])
        (auto simp: request_failed_def commit_def set_attempt_def deferralsExhausted_def dfr_def Let_def)
  next
    case False
    then show thesis
      by (intro that [of "Fail k (if qc_classify cfg err = endpoint_unavailable then MEETING_ENDPOINT_UNRESPONSIVE_REASON else describeFailure raw)"])
        (auto simp: request_failed_def commit_def set_attempt_def Let_def)
  qed
  show ?thesis
  proof (rule attempt_step [OF inv _ _ _ _ _ j(1), where a = Settling])
    show "attempt_ok (qc_policy cfg) (f k) (n k) (Some Settling) (owned k (tq_writes q) @ [j]) (applied k q) (tq_session q) k"
      using ok j by (auto simp: attempt_ok_def)
  qed (use k j in \<open>auto simp: request_failed_def commit_def set_attempt_def Let_def\<close>)
qed

lemma step_inv:
  assumes inv: "queue_inv cfg f n q" and max: "1 \<le> qc_maxInFlight cfg" and step: "queue_step cfg ev q = Some q'"
  shows "queue_inv cfg (count_forced ev f) (count_sent ev n) q'"
proof (cases ev)
  case (Begin force now)
  then show ?thesis using step begin_inv [OF inv] by (auto split: if_splits)
next
  case ReconcileNext
  then show ?thesis using step reconcile_next_inv [OF inv max] by simp
next
  case (Pass now)
  then show ?thesis using step pass_inv [OF inv] by simp
next
  case (ApplyWrite now)
  then obtain j rest where w: "tq_writes q = j # rest" "\<not> tq_writing q"
    using step by (auto split: list.splits if_splits)
  then have eq: "q\<lparr>tq_writes := rest\<rparr> = q\<lparr>tq_writes := rest, tq_writing := False\<rparr>" by simp
  show ?thesis
  proof (cases "run_job j (iso_of_ms now) (tq_session q)")
    case (Inl e)
    then have "q' = committed j (Some e) (q\<lparr>tq_writes := rest\<rparr>)"
      using ApplyWrite step w by simp
    then have "q' = committed j (Some e) (q\<lparr>tq_writes := rest, tq_writing := False\<rparr>)" by (subst (asm) eq)
    then show ?thesis using committed_inv [OF inv w(1), of "Some e"] ApplyWrite by simp
  next
    case (Inr s)
    then have "q' = q\<lparr>tq_session := s, tq_writing := True\<rparr>" using ApplyWrite step w by simp
    then show ?thesis using apply_inv [OF inv w Inr] ApplyWrite by simp
  qed
next
  case (Persisted failure)
  then obtain j rest where w: "tq_writes q = j # rest" "tq_writing q"
      "q' = committed j failure (q\<lparr>tq_writes := rest, tq_writing := False\<rparr>)"
    using step Persisted by (cases "tq_writes q") (simp_all split: if_splits)
  then show ?thesis using committed_inv [OF inv w(1)] Persisted by simp
next
  case (AudioRead k failure)
  then obtain r where k: "map_of (tq_inFlight q) k = Some (Reading r)"
    using step by (auto split: option.splits attempt.splits)
  note ok = in_flight_ok [OF inv k]
  show ?thesis
  proof (cases failure)
    case None
    then have "q' = set_attempt k (Requesting r) q" using AudioRead step k by simp
    moreover have "attempt_ok (qc_policy cfg) (f k) ((n(k := n k + 1)) k) (Some (Requesting r))
        (owned k (tq_writes q) @ []) (applied k q) (tq_session q) k"
      using ok by (simp add: attempt_ok_def)
    ultimately have "queue_inv cfg f (n(k := n k + 1)) q'"
      using k by (intro attempt_step [OF inv, of k q' "Requesting r" "[]"]) (simp_all add: set_attempt_def)
    then show ?thesis using AudioRead None by simp
  next
    case (Some e)
    then have "q' = commit (Fail k (describeFailure e)) (set_attempt k Settling q)" using AudioRead step k by simp
    moreover have "attempt_ok (qc_policy cfg) (f k) (n k) (Some Settling)
        (owned k (tq_writes q) @ [Fail k (describeFailure e)]) (applied k q) (tq_session q) k"
      using ok by (simp add: attempt_ok_def)
    ultimately have "queue_inv cfg f n q'"
      using k by (intro attempt_step [OF inv, of k q' Settling "[Fail k (describeFailure e)]"])
        (simp_all add: set_attempt_def commit_def)
    then show ?thesis using AudioRead Some by simp
  qed
next
  case (Transcribed k body)
  then obtain r where k: "map_of (tq_inFlight q) k = Some (Requesting r)"
    using step by (auto split: option.splits attempt.splits)
  note ok = in_flight_ok [OF inv k]
  have "q' = commit (Settle k body) (set_attempt k Settling (q\<lparr>tq_outageStreak := 0\<rparr>))"
    using Transcribed step k by simp
  moreover have "attempt_ok (qc_policy cfg) (f k) (n k) (Some Settling)
      (owned k (tq_writes q) @ [Settle k body]) (applied k q) (tq_session q) k"
    using ok by (simp add: attempt_ok_def)
  ultimately have "queue_inv cfg f n q'"
    using k by (intro attempt_step [OF inv, of k q' Settling "[Settle k body]"])
      (simp_all add: set_attempt_def commit_def)
  then show ?thesis using Transcribed by simp
next
  case (RequestFailed k raw err now)
  then obtain r where k: "map_of (tq_inFlight q) k = Some (Requesting r)"
    using step by (auto split: option.splits attempt.splits)
  then have "q' = request_failed cfg k r raw err now q" using RequestFailed step by simp
  with request_failed_inv [OF inv k, of r raw err now] RequestFailed show ?thesis by simp
next
  case (HostApply h)
  then show ?thesis using step host_commit [OF inv] by auto
qed

section \<open>Runs\<close>

text \<open>
  A run of one process over the session \<open>s0\<close>: \<open>f\<close> counts the retries a person forced and
  \<open>n\<close> the requests made, per segment, from the counts the run started with.
\<close>

inductive queue_run ::
  "QueueConfig \<Rightarrow> MeetingCaptureSession \<Rightarrow> (nat \<Rightarrow> nat) \<Rightarrow> (nat \<Rightarrow> nat) \<Rightarrow> (nat \<Rightarrow> nat) \<Rightarrow> (nat \<Rightarrow> nat) \<Rightarrow> TranscriptionQueue \<Rightarrow> bool"
  for cfg s0 f0 n0
where
  queue_start: "queue_run cfg s0 f0 n0 f0 n0 (new_queue s0)"
| queue_next: "queue_run cfg s0 f0 n0 f n q \<Longrightarrow> queue_step cfg ev q = Some q' \<Longrightarrow>
    queue_run cfg s0 f0 n0 (count_forced ev f) (count_sent ev n) q'"

fun queue_exec :: "QueueConfig \<Rightarrow> queue_event list \<Rightarrow> TranscriptionQueue \<Rightarrow> TranscriptionQueue option" where
  "queue_exec cfg [] q = Some q"
| "queue_exec cfg (ev # evs) q = (case queue_step cfg ev q of None \<Rightarrow> None | Some q' \<Rightarrow> queue_exec cfg evs q')"

lemma queue_exec_run:
  "queue_run cfg s0 f0 n0 f n q \<Longrightarrow> queue_exec cfg evs q = Some q' \<Longrightarrow>
   queue_run cfg s0 f0 n0 (fold count_forced evs f) (fold count_sent evs n) q'"
  by (induction evs arbitrary: f n q) (auto split: option.splits intro: queue_next)

text \<open>A session whose accounts cover the requests made for it so far.\<close>

definition accounted :: "MeetingRetryPolicy \<Rightarrow> (nat \<Rightarrow> nat) \<Rightarrow> (nat \<Rightarrow> nat) \<Rightarrow> MeetingCaptureSession \<Rightarrow> bool" where
  "accounted p f n s \<longleftrightarrow>
     positional s \<and> (\<forall>k. int (att s k) \<le> rt_maxAttempts p + int (f k) \<and> int (dfr s k) \<le> rt_maxDeferrals p
       \<and> n k \<le> att s k + dfr s k)"

lemma run_inv:
  assumes "queue_run cfg s0 f0 n0 f n q" "accounted (qc_policy cfg) f0 n0 s0" "1 \<le> qc_maxInFlight cfg"
  shows "queue_inv cfg f n q"
  using assms(1)
proof induction
  case queue_start
  then show ?case using assms(2)
    by (simp add: queue_inv_def accounted_def new_queue_def reconcile_ok_def attempt_ok_def)
next
  case queue_next
  then show ?case using step_inv assms(3) by blast
qed

section \<open>Properties\<close>

lemma attempt_accounts:
  "attempt_ok p f n a js ap s k \<Longrightarrow>
   int (att s k) \<le> rt_maxAttempts p + int f \<and> int (dfr s k) \<le> rt_maxDeferrals p \<and> n \<le> att s k + dfr s k"
  by (simp add: attempt_ok_def)

definition demo_session :: MeetingCaptureSession where
  "demo_session = demo_queue_session [demo_failed\<lparr>sg_state := seg_pending, sg_attempts := 0\<rparr>]"

definition demo_config :: QueueConfig where
  "demo_config =
     \<lparr>qc_maxInFlight = 2, qc_policy = DEFAULT_MEETING_RETRY_POLICY, qc_parse = (\<lambda>_. NonFinite),
      qc_classify = classifyTranscriptionFailure\<rparr>"

definition demo_events :: "queue_event list" where
  "demo_events = [Begin (Some 0) 0, ReconcileNext, ApplyWrite 0, Persisted None, AudioRead 0 None]"

lemmas demo_simps = demo_session_def demo_queue_session_def demo_failed_def demo_config_def demo_events_def
  new_queue_def begin_drain_def planTranscription_def isTerminalCaptureStatus_def TERMINAL_STATUSES_def
  indicesOf_def toSlot_def retryDecision_def DEFAULT_MEETING_RETRY_POLICY_def reconcile_next_def pass_def dispatch_def
  commit_def markTranscribing_def replaceSegment_def committed_def set_attempt_def end_attempt_def put_error_def Let_def

lemma demo_accounted: "accounted (qc_policy demo_config) (\<lambda>_. 0) (\<lambda>_. 0) demo_session"
  by (auto simp: accounted_def positional_def att_def dfr_def demo_simps)

lemma demo_executes:
  "\<exists>q. queue_exec demo_config demo_events (new_queue demo_session) = Some q
     \<and> tq_inFlight q = [(0, Requesting (Some ''down''))]"
  by (simp add: demo_simps del: plan_simps)

lemma demo_run:
  "\<exists>q. queue_run demo_config demo_session (\<lambda>_. 0) (\<lambda>_. 0) ((\<lambda>_. 0)(0 := 1)) ((\<lambda>_. 0)(0 := 1)) q
     \<and> tq_inFlight q = [(0, Requesting (Some ''down''))]"
proof -
  have "fold count_forced demo_events f = f(0 := f 0 + 1)" "fold count_sent demo_events n = n(0 := n 0 + 1)" for f n
    by (simp_all add: demo_events_def)
  then show ?thesis using demo_executes queue_exec_run [OF queue_start] by fastforce
qed

section \<open>The life of a meeting over many processes\<close>

text \<open>
  What is on the device is the stored session. A write that succeeds stores the session the
  queue holds; a write that fails, or that a crash interrupts, may have landed or not. The
  process may end at any moment, and with it the queue and its session; the next one opens the
  stored session - its units as they are, the ledger, status and lifecycle fields as the host
  finds or makes them - with or without the recovery of \<open>captureSession.ts\<close>, which it may have
  stored first, and starts a queue of its own. \<open>f\<close> and \<open>n\<close> count, over all processes, the
  retries a person forced and the requests made.
\<close>

inductive queue_life ::
  "QueueConfig \<Rightarrow> MeetingCaptureSession \<Rightarrow> (nat \<Rightarrow> nat) \<Rightarrow> (nat \<Rightarrow> nat) \<Rightarrow> MeetingCaptureSession
     \<Rightarrow> TranscriptionQueue \<Rightarrow> bool"
  for cfg s0
where
  life_start: "queue_life cfg s0 (\<lambda>_. 0) (\<lambda>_. 0) s0 (new_queue s0)"
| life_step: "queue_life cfg s0 f n stored q \<Longrightarrow> queue_step cfg ev q = Some q' \<Longrightarrow>
    queue_life cfg s0 (count_forced ev f) (count_sent ev n)
      (if ev = Persisted None then tq_session q else stored) q'"
| life_landed: "queue_life cfg s0 f n stored q \<Longrightarrow> tq_writing q \<Longrightarrow> queue_life cfg s0 f n (tq_session q) q"
| life_restart: "queue_life cfg s0 f n stored q \<Longrightarrow> cs_segments m = cs_segments stored \<Longrightarrow>
    s = m \<or> s = recoverCaptureSession m t \<Longrightarrow> stored' = stored \<or> stored' = s \<Longrightarrow>
    queue_life cfg s0 f n stored' (new_queue s)"

definition reading :: "nat \<Rightarrow> TranscriptionQueue \<Rightarrow> nat" where
  "reading k q = (case map_of (tq_inFlight q) k of Some (Reading _) \<Rightarrow> 1 | _ \<Rightarrow> 0)"

text \<open>The stored session's account covers every request made, and the one about to be made.\<close>

definition stored_ok ::
  "MeetingRetryPolicy \<Rightarrow> (nat \<Rightarrow> nat) \<Rightarrow> (nat \<Rightarrow> nat) \<Rightarrow> MeetingCaptureSession \<Rightarrow> TranscriptionQueue \<Rightarrow> bool"
where
  "stored_ok p f n stored q \<longleftrightarrow>
     positional stored \<and> (\<forall>k. int (att stored k) \<le> rt_maxAttempts p + int (f k)
       \<and> int (dfr stored k) \<le> rt_maxDeferrals p \<and> n k + reading k q \<le> att stored k + dfr stored k)"

lemma session_stored_ok: "queue_inv cfg f n q \<Longrightarrow> stored_ok (qc_policy cfg) f n (tq_session q) q"
proof -
  assume inv: "queue_inv cfg f n q"
  have "attempt_ok (qc_policy cfg) (f k) (n k) (map_of (tq_inFlight q) k) (owned k (tq_writes q))
      (applied k q) (tq_session q) k" for k using inv by (simp add: queue_inv_def)
  then have "int (att (tq_session q) k) \<le> rt_maxAttempts (qc_policy cfg) + int (f k)
      \<and> int (dfr (tq_session q) k) \<le> rt_maxDeferrals (qc_policy cfg)
      \<and> n k + reading k q \<le> att (tq_session q) k + dfr (tq_session q) k" for k
    by (fastforce simp: attempt_ok_def reading_def split: option.splits attempt.splits)
  with inv show ?thesis by (simp add: stored_ok_def queue_inv_def)
qed

lemma committed_reading: "failure \<noteq> None \<Longrightarrow> reading k (committed j failure q) \<le> reading k q"
  by (cases j; cases failure)
    (auto simp: reading_def committed_def end_attempt_def map_of_filter_key Let_def
      split: option.splits attempt.splits drain_state.splits list.splits bool.splits)

lemma same_reading: "tq_inFlight q' = tq_inFlight q \<Longrightarrow> reading k q' = reading k q"
  by (simp add: reading_def)

lemma dispatch_reading: "reading k (dispatch i q) = reading k q"
proof (cases "map_of (tq_inFlight q) i")
  case None
  then obtain r where "tq_inFlight (dispatch i q) = tq_inFlight q @ [(i, Announcing r)]"
    by (simp add: dispatch_def commit_def Let_def)
  with None show ?thesis by (simp add: reading_def map_of_snoc del: map_of_append)
next
  case (Some a)
  then show ?thesis by (simp add: dispatch_def)
qed

lemma dispatch_ready_reading: "reading k (dispatch_ready m ks q) = reading k q"
  by (induction ks arbitrary: q) (simp_all add: dispatch_reading)

lemma finish_reading: "reading k (finish cfg now q) = reading k q"
  by (rule same_reading) (simp add: finish_def drain_result_def Let_def)

lemma pass_reading: "pass cfg now q = Some q' \<Longrightarrow> reading k q' = reading k q"
proof -
  assume p: "pass cfg now q = Some q'"
  have woken: "reading k (x\<lparr>tq_woken := b\<rparr>) = reading k x" "reading k (x\<lparr>tq_drain := d\<rparr>) = reading k x" for x b d
    by (rule same_reading; simp)+
  show ?thesis
  proof (cases "tq_drain q")
    case Looping
    let ?q1 = "q\<lparr>tq_woken := False\<rparr>"
    let ?q2 = "if \<not> tq_unavailable ?q1 then dispatch_ready (qc_maxInFlight cfg) (qp_ready (queue_plan cfg ?q1 now)) ?q1 else ?q1"
    have "pass cfg now q = (if \<not> tq_woken q then None
        else if \<not> tq_unavailable ?q1 \<and> qp_phase (queue_plan cfg ?q1 now) = phase_closed
        then (if tq_inFlight ?q1 \<noteq> [] then Some (?q1\<lparr>tq_drain := Finishing\<rparr>) else Some (finish cfg now ?q1))
        else (if tq_inFlight ?q2 = [] then Some (finish cfg now ?q2) else Some ?q2))"
      unfolding pass_def Let_def Looping drain_state.simps by (rule refl)
    then have "q' \<in> {?q1\<lparr>tq_drain := Finishing\<rparr>, finish cfg now ?q1, finish cfg now ?q2, ?q2}"
      using p by (auto split: if_splits simp del: plan_simps)
    moreover have "reading k ?q2 = reading k q" by (simp add: dispatch_ready_reading woken del: plan_simps)
    ultimately show ?thesis
      by (elim insertE emptyE) (simp_all only: finish_reading woken)
  next
    case Finishing
    then show ?thesis using p by (auto simp: pass_def finish_reading split: if_splits)
  qed (use p in \<open>simp_all add: pass_def\<close>)
qed

lemma set_attempt_reading:
  "reading k (set_attempt i a q) = (if k = i then (case a of Reading _ \<Rightarrow> 1 | _ \<Rightarrow> 0) else reading k q)"
  by (simp add: reading_def set_attempt_def update_conv' split: attempt.split)

lemma commit_reading: "reading k (commit j q) = reading k q"
  by (rule same_reading) (simp add: commit_def)

lemma begin_drain_in_flight: "tq_inFlight (begin_drain cfg force now q) = tq_inFlight q"
  by (simp add: begin_drain_def drain_result_def Let_def del: plan_simps)

text \<open>No step but a successful write puts an attempt where its request may be sent.\<close>

lemma step_reading:
  assumes "queue_step cfg ev q = Some q'" "ev \<noteq> Persisted None"
  shows "count_sent ev n k + reading k q' \<le> n k + reading k q"
proof (cases ev)
  case (Begin force now)
  then have "tq_inFlight q' = tq_inFlight q"
    using assms(1) by (auto simp: begin_drain_in_flight split: if_splits)
  then have "reading k q' = reading k q" by (rule same_reading)
  then show ?thesis using Begin by simp
next
  case ReconcileNext
  have drain: "reading k (x\<lparr>tq_drain := d, tq_woken := w\<rparr>) = reading k x" "reading k (x\<lparr>tq_drain := d\<rparr>) = reading k x" for x d w
    by (rule same_reading; simp)+
  show ?thesis using assms(1) ReconcileNext
    by (auto simp: reconcile_next_def dispatch_reading commit_reading drain Let_def
        split: drain_state.splits list.splits bool.splits option.splits if_splits)
next
  case (Pass now)
  then show ?thesis using assms(1) pass_reading by simp
next
  case (ApplyWrite now)
  then obtain j rest where w: "tq_writes q = j # rest" "\<not> tq_writing q"
    using assms(1) by (auto split: list.splits if_splits)
  have "reading k (q\<lparr>tq_writes := rest\<rparr>) = reading k q" by (rule same_reading) simp
  then have "reading k (committed j (Some e) (q\<lparr>tq_writes := rest\<rparr>)) \<le> reading k q" for e
    using committed_reading [of "Some e" k j "q\<lparr>tq_writes := rest\<rparr>"] by simp
  moreover have "reading k (q\<lparr>tq_session := s, tq_writing := True\<rparr>) = reading k q" for s
    by (rule same_reading) simp
  ultimately show ?thesis using assms(1) ApplyWrite w by (auto split: sum.splits)
next
  case (Persisted failure)
  then obtain j rest where "tq_writes q = j # rest"
      and q': "q' = committed j failure (q\<lparr>tq_writes := rest, tq_writing := False\<rparr>)"
    using assms(1) by (cases "tq_writes q") (simp_all split: if_splits)
  have "reading k (q\<lparr>tq_writes := rest, tq_writing := False\<rparr>) = reading k q" by (rule same_reading) simp
  then show ?thesis using committed_reading [of failure k j "q\<lparr>tq_writes := rest, tq_writing := False\<rparr>"] Persisted assms(2) q'
    by (cases failure) auto
next
  case (AudioRead i failure)
  then obtain r where "map_of (tq_inFlight q) i = Some (Reading r)"
    using assms(1) by (auto split: option.splits attempt.splits)
  then have "reading i q = 1" by (simp add: reading_def)
  then show ?thesis using assms(1) AudioRead
    by (cases failure) (auto simp: set_attempt_reading commit_reading split: option.splits attempt.splits)
next
  case (Transcribed i body)
  have "reading k (q\<lparr>tq_outageStreak := 0\<rparr>) = reading k q" by (rule same_reading) simp
  then show ?thesis using assms(1) Transcribed
    by (auto simp: set_attempt_reading commit_reading split: option.splits attempt.splits)
next
  case (RequestFailed i raw err now)
  have "reading k (q\<lparr>tq_unavailable := b, tq_outageStreak := c, tq_probeNotBeforeMs := d\<rparr>) = reading k q" for b c d
    by (rule same_reading) simp
  then show ?thesis using assms(1) RequestFailed
    by (auto simp: request_failed_def set_attempt_reading commit_reading Let_def split: option.splits attempt.splits)
next
  case (HostApply h)
  then show ?thesis using assms(1) commit_reading by auto
qed

lemma forced_more: "f k \<le> count_forced ev f k"
  by (cases "(ev, f)" rule: count_forced.cases) auto

lemma new_queue_inv: "accounted (qc_policy cfg) f n s \<Longrightarrow> queue_inv cfg f n (new_queue s)"
  by (simp add: queue_inv_def accounted_def new_queue_def reconcile_ok_def attempt_ok_def)

lemma recover_accounts:
  "att (recoverCaptureSession m t) k = att m k \<and> dfr (recoverCaptureSession m t) k = dfr m k
   \<and> (positional m \<longrightarrow> positional (recoverCaptureSession m t))"
proof (cases "closed m")
  case True
  then show ?thesis by (simp add: recoverCaptureSession_def)
next
  case False
  then have e: "extends m (seal_all m)" by (rule seal_extends)
  have "att (recoverCaptureSession m t) k = att (seal_all m) k" "dfr (recoverCaptureSession m t) k = dfr (seal_all m) k"
    "positional (recoverCaptureSession m t) = positional (seal_all m)"
    using False
    by (auto simp: recoverCaptureSession_def att_def dfr_def positional_def Let_def comp_def
        simp del: terminal_iff intro!: arg_cong2 [of _ _ _ _ "(=)"] map_cong)
  with e show ?thesis by (simp add: extends_def)
qed

lemma life_inv:
  assumes "queue_life cfg s0 f n stored q" "accounted (qc_policy cfg) (\<lambda>_. 0) (\<lambda>_. 0) s0" "1 \<le> qc_maxInFlight cfg"
  shows "queue_inv cfg f n q \<and> stored_ok (qc_policy cfg) f n stored q"
  using assms(1)
proof induction
  case life_start
  have inv: "queue_inv cfg (\<lambda>_. 0) (\<lambda>_. 0) (new_queue s0)" by (rule new_queue_inv [OF assms(2)])
  then show ?case using session_stored_ok [OF inv] by (simp add: new_queue_def)
next
  case (life_step f n stored q ev q')
  have inv: "queue_inv cfg (count_forced ev f) (count_sent ev n) q'"
    using step_inv [OF _ assms(3) life_step.hyps(2)] life_step.IH by blast
  show ?case
  proof (cases "ev = Persisted None")
    case True
    then have "tq_session q' = tq_session q"
      using life_step.hyps(2) by (cases "tq_writes q") (auto simp: committed_frame split: if_splits)
    with inv session_stored_ok [OF inv] True show ?thesis by simp
  next
    case False
    have "int (att stored k) \<le> rt_maxAttempts (qc_policy cfg) + int (count_forced ev f k)
        \<and> int (dfr stored k) \<le> rt_maxDeferrals (qc_policy cfg)
        \<and> count_sent ev n k + reading k q' \<le> att stored k + dfr stored k" for k
    proof -
      have "int (att stored k) \<le> rt_maxAttempts (qc_policy cfg) + int (f k)"
        "int (dfr stored k) \<le> rt_maxDeferrals (qc_policy cfg)" "n k + reading k q \<le> att stored k + dfr stored k"
        using life_step.IH by (simp_all add: stored_ok_def)
      with step_reading [OF life_step.hyps(2) False, of n k] forced_more [of f k ev] show ?thesis by linarith
    qed
    with inv False life_step.IH show ?thesis by (simp add: stored_ok_def)
  qed
next
  case (life_landed f n stored q)
  then show ?case using session_stored_ok by blast
next
  case (life_restart f n stored q m s t stored')
  have m: "att m = att stored" "dfr m = dfr stored" "positional m = positional stored"
    using same_segments [OF life_restart.hyps(2)] by simp_all
  have acc: "accounted (qc_policy cfg) f n s"
  proof -
    have eq: "att s k = att stored k" "dfr s k = dfr stored k" "positional stored \<longrightarrow> positional s" for k
      using life_restart.hyps(3) recover_accounts [of m t k] m by auto
    have "int (att stored k) \<le> rt_maxAttempts (qc_policy cfg) + int (f k)
        \<and> int (dfr stored k) \<le> rt_maxDeferrals (qc_policy cfg) \<and> n k \<le> att stored k + dfr stored k" for k
      using life_restart.IH by (auto simp: stored_ok_def dest: spec [of _ k])
    then show ?thesis using life_restart.IH eq by (simp add: accounted_def stored_ok_def)
  qed
  then have inv: "queue_inv cfg f n (new_queue s)" by (rule new_queue_inv)
  have "stored_ok (qc_policy cfg) f n stored (new_queue s)"
    using life_restart.IH by (auto simp: stored_ok_def reading_def new_queue_def intro: add_leD1)
  moreover have "stored_ok (qc_policy cfg) f n s (new_queue s)"
    using session_stored_ok [OF inv] by (simp add: new_queue_def)
  ultimately show ?case using inv life_restart.hyps(4) by blast
qed

lemma queue_exec_life:
  "queue_life cfg s0 f n stored q \<Longrightarrow> queue_exec cfg evs q = Some q' \<Longrightarrow>
   \<exists>stored'. queue_life cfg s0 (fold count_forced evs f) (fold count_sent evs n) stored' q'"
proof (induction evs arbitrary: f n stored q)
  case (Cons ev evs)
  then obtain q1 where q1: "queue_step cfg ev q = Some q1" "queue_exec cfg evs q1 = Some q'"
    by (auto split: option.splits)
  from Cons.IH [OF life_step [OF Cons.prems(1) q1(1)] q1(2)] show ?case by simp
qed auto

text \<open>
  C9. The queue bounds what one segment can cost. Let a meeting start from a session whose units
  are numbered in order and whose accounts are within the policy, on a queue that runs at least
  one attempt at a time. However requests are answered, writes fail or land, hosts change the
  session, drains repeat, and processes end at any moment and start over from what is stored,
  the requests made for a segment over all processes never exceed the policy's attempts, the
  policy's deferrals and the retries a person forced; every request made is on the stored
  account before it is sent; and neither the queue's account of attempts nor the stored one
  exceeds the policy's by more than the forced ones.
\<close>

theorem requests_are_bounded:
  assumes "queue_life cfg s0 f n stored q" "accounted (qc_policy cfg) (\<lambda>_. 0) (\<lambda>_. 0) s0" "1 \<le> qc_maxInFlight cfg"
  shows "int (n k) \<le> rt_maxAttempts (qc_policy cfg) + rt_maxDeferrals (qc_policy cfg) + int (f k)
    \<and> n k \<le> att stored k + dfr stored k
    \<and> int (att (tq_session q) k) \<le> rt_maxAttempts (qc_policy cfg) + int (f k)
    \<and> int (att stored k) \<le> rt_maxAttempts (qc_policy cfg) + int (f k)"
proof -
  note life = life_inv [OF assms]
  then have stored: "int (att stored k) \<le> rt_maxAttempts (qc_policy cfg) + int (f k)"
      "int (dfr stored k) \<le> rt_maxDeferrals (qc_policy cfg)" "n k + reading k q \<le> att stored k + dfr stored k"
    by (simp_all add: stored_ok_def)
  have "stored_ok (qc_policy cfg) f n (tq_session q) q" using session_stored_ok life by blast
  then have "int (att (tq_session q) k) \<le> rt_maxAttempts (qc_policy cfg) + int (f k)" by (simp add: stored_ok_def)
  with stored show ?thesis by linarith
qed

text \<open>The request is out, the process dies, and the next one opens what was stored.\<close>

lemma demo_life:
  "\<exists>stored. queue_life demo_config demo_session ((\<lambda>_. 0)(0 := 1)) ((\<lambda>_. 0)(0 := 1)) stored
     (new_queue (recoverCaptureSession stored ''t1''))"
proof -
  obtain q where "queue_exec demo_config demo_events (new_queue demo_session) = Some q"
    using demo_executes by blast
  moreover have "fold count_forced demo_events (\<lambda>_. 0) = (\<lambda>_. 0)(0 := 1)" "fold count_sent demo_events (\<lambda>_. 0) = (\<lambda>_. 0)(0 := 1)"
    by (simp_all add: demo_events_def)
  ultimately obtain stored where "queue_life demo_config demo_session ((\<lambda>_. 0)(0 := 1)) ((\<lambda>_. 0)(0 := 1)) stored q"
    using queue_exec_life [OF life_start] by metis
  then show ?thesis by (blast intro: life_restart)
qed

theorem requests_are_bounded_witness:
  "\<exists>stored. queue_life demo_config demo_session ((\<lambda>_. 0)(0 := 1)) ((\<lambda>_. 0)(0 := 1)) stored
       (new_queue (recoverCaptureSession stored ''t1''))
     \<and> 1 \<le> att stored 0 + dfr stored 0 \<and> int (att stored 0) \<le> 5"
proof -
  obtain stored where q: "queue_life demo_config demo_session ((\<lambda>_. 0)(0 := 1)) ((\<lambda>_. 0)(0 := 1)) stored
      (new_queue (recoverCaptureSession stored ''t1''))"
    using demo_life by blast
  have "1 \<le> qc_maxInFlight demo_config" by (simp add: demo_config_def)
  from requests_are_bounded [OF q demo_accounted this, of 0] q show ?thesis
    by (auto simp: demo_config_def DEFAULT_MEETING_RETRY_POLICY_def)
qed

text \<open>
  Concurrency is bounded and per segment exclusive: at most \<open>maxInFlight\<close> attempts are out, no
  segment has two, every commit queued for a segment belongs to its one attempt, and while a
  segment's audio is being read or its request is out the session says so (unless the meeting has
  been closed meanwhile), with the attempt already on its account.
\<close>

theorem attempts_in_flight_are_bounded:
  assumes "queue_run cfg s0 f0 n0 f n q" "accounted (qc_policy cfg) f0 n0 s0" "1 \<le> qc_maxInFlight cfg"
  shows "length (tq_inFlight q) \<le> qc_maxInFlight cfg \<and> distinct (map fst (tq_inFlight q))
    \<and> (\<forall>k j. j \<in> set (tq_writes q) \<longrightarrow> job_owner j = Some k \<longrightarrow>
          k \<in> set (map fst (tq_inFlight q)) \<and> owned k (tq_writes q) = [j])
    \<and> (\<forall>k r. (k, Reading r) \<in> set (tq_inFlight q) \<or> (k, Requesting r) \<in> set (tq_inFlight q) \<longrightarrow>
          live (tq_session q) k)"
proof (intro conjI allI impI)
  have inv: "queue_inv cfg f n q" using run_inv [OF assms] .
  then show "length (tq_inFlight q) \<le> qc_maxInFlight cfg" and d: "distinct (map fst (tq_inFlight q))"
    by (simp_all add: queue_inv_def)
  show "k \<in> set (map fst (tq_inFlight q))" "owned k (tq_writes q) = [j]"
    if "j \<in> set (tq_writes q)" "job_owner j = Some k" for k j
    using owner_in_flight [OF inv that] by (simp_all add: map_of_eq_None_iff)
  show "live (tq_session q) k"
    if "(k, Reading r) \<in> set (tq_inFlight q) \<or> (k, Requesting r) \<in> set (tq_inFlight q)" for k r
    using that in_flight_ok [OF inv] d map_of_is_SomeI [of "tq_inFlight q" k] by (fastforce simp: attempt_ok_def)
qed

theorem attempts_in_flight_are_bounded_witness:
  "\<exists>q. queue_run demo_config demo_session (\<lambda>_. 0) (\<lambda>_. 0) ((\<lambda>_. 0)(0 := 1)) ((\<lambda>_. 0)(0 := 1)) q \<and> live (tq_session q) 0"
proof -
  obtain q where q: "queue_run demo_config demo_session (\<lambda>_. 0) (\<lambda>_. 0) ((\<lambda>_. 0)(0 := 1)) ((\<lambda>_. 0)(0 := 1)) q"
      "tq_inFlight q = [(0, Requesting (Some ''down''))]"
    using demo_run by blast
  have "1 \<le> qc_maxInFlight demo_config" by (simp add: demo_config_def)
  from attempts_in_flight_are_bounded [OF q(1) demo_accounted this] q show ?thesis by auto
qed

end
