(* ===== verification/QueueStrand.thy ===== *)
theory QueueStrand
  imports QueueRun
begin

text \<open>
  What a failed write of an announcement leaves behind, in the queue of
  \<open>packages/core/src/meetings/transcriptionQueue.ts\<close>: the in-memory session says the segment is
  being transcribed, nothing is in flight for it, and the one reconciliation is over.
\<close>

inductive queue_steps :: "QueueConfig \<Rightarrow> TranscriptionQueue \<Rightarrow> TranscriptionQueue \<Rightarrow> bool" for cfg where
  steps_refl: "queue_steps cfg q q"
| steps_next: "queue_steps cfg q q1 \<Longrightarrow> queue_step cfg ev q1 = Some q2 \<Longrightarrow> queue_steps cfg q q2"

section \<open>A stranded segment\<close>

definition reconciling_done :: "TranscriptionQueue \<Rightarrow> bool" where
  "reconciling_done q \<longleftrightarrow> (case tq_drain q of Reconciling ks w force \<Rightarrow> ks = [] | _ \<Rightarrow> True)"

definition stranded :: "nat \<Rightarrow> TranscriptionQueue \<Rightarrow> bool" where
  "stranded k q \<longleftrightarrow>
     tq_reconciled q \<and> reconciling_done q \<and> positional (tq_session q) \<and> st (tq_session q) k = Some seg_transcribing
     \<and> map_of (tq_inFlight q) k = None \<and> (\<forall>j \<in> set (tq_writes q). job_owner j \<noteq> Some k \<and> \<not> is_orphan j)"

lemma not_orphan_host: "job_owner j = None \<Longrightarrow> \<not> is_orphan j \<Longrightarrow> \<exists>h. j = Host h"
  by (cases j) auto

lemma touches_of_owner:
  assumes "job_owner j = Some i" "run_job j t s = Inr s'"
  shows "touches i s s'"
proof (cases j)
  case (Announce k)
  then show ?thesis using assms announce_effect [of s k t s'] by simp
next
  case (Settle k body)
  then show ?thesis using assms settle_effect [of s k body s'] by simp
next
  case (Requeue k r)
  then show ?thesis using assms requeue_effect [of s k r t s'] by simp
next
  case (Fail k r)
  then show ?thesis using assms fail_effect [of s k r t s'] by simp
qed (use assms in simp_all)

lemma job_keeps_closed: "run_job j t s = Inr s' \<Longrightarrow> closed s \<Longrightarrow> closed s'"
proof (cases "job_owner j")
  case None
  assume run: "run_job j t s = Inr s'" and c: "closed s"
  show ?thesis
  proof (cases "is_orphan j")
    case True
    then obtain k where "j = Orphan k" by (cases j) auto
    then show ?thesis using fail_effect [of s k MEETING_INTERRUPTED_REASON t s'] run c
      by (simp add: touches_def del: terminal_iff)
  next
    case False
    then obtain h where "j = Host h" using not_orphan_host None by blast
    then have "extends s s'" using host_extends run by simp
    then show ?thesis using c by (simp add: extends_def del: terminal_iff)
  qed
next
  case (Some i)
  assume "run_job j t s = Inr s'" "closed s"
  then show ?thesis using touches_of_owner [OF Some] by (simp add: touches_def del: terminal_iff)
qed

lemma job_keeps_transcribing:
  assumes "st s k = Some seg_transcribing" "positional s" "job_owner j \<noteq> Some k" "\<not> is_orphan j" "run_job j t s = Inr s'"
  shows "(closed s' \<or> st s' k = Some seg_transcribing) \<and> positional s'"
proof (cases "job_owner j")
  case None
  then obtain h where "j = Host h" using not_orphan_host assms(4) by blast
  then have "extends s s'" using assms(5) host_extends by simp
  then show ?thesis using assms(1,2) unfolding extends_def by (metis option.distinct(1))
next
  case (Some i)
  with assms have "touches i s s'" "i \<noteq> k" using touches_of_owner by auto
  with assms show ?thesis by (simp add: touches_def del: terminal_iff)
qed

text \<open>Only a dispatch of \<open>k\<close> puts \<open>k\<close> in flight.\<close>

lemma dispatch_other:
  assumes "i \<noteq> k"
  shows "map_of (tq_inFlight (dispatch i q)) k = map_of (tq_inFlight q) k"
    "set (tq_writes (dispatch i q)) \<subseteq> insert (Announce i) (set (tq_writes q))"
    "tq_reconciled (dispatch i q) = tq_reconciled q"
  using assms by (auto simp: dispatch_def commit_def Let_def map_add_def split: option.splits)

lemma dispatch_stranded:
  assumes "stranded k q" "i \<noteq> k"
  shows "stranded k (dispatch i q)"
  using assms dispatch_other [OF assms(2), of q]
  by (auto simp: stranded_def reconciling_done_def)

lemma dispatch_ready_stranded:
  assumes "stranded k q" "k \<notin> set ks"
  shows "stranded k (dispatch_ready m ks q)"
  using assms
proof (induction ks arbitrary: q)
  case (Cons i ks)
  then show ?case using dispatch_stranded [of k q i] by auto
qed simp

lemma stranded_frame:
  assumes "stranded k q" "tq_session q' = tq_session q" "set (tq_writes q') \<subseteq> set (tq_writes q)"
    "map_of (tq_inFlight q') k = None" "tq_reconciled q'" "reconciling_done q'"
  shows "stranded k q'"
  using assms by (auto simp: stranded_def)

lemma finish_stranded: "stranded k q \<Longrightarrow> stranded k (finish cfg now q)"
  by (auto simp: finish_def drain_result_def Let_def stranded_def reconciling_done_def)

lemma begin_stranded: "stranded k q \<Longrightarrow> stranded k (begin_drain cfg force now q)"
  by (auto simp: begin_drain_def drain_result_def Let_def stranded_def reconciling_done_def)

lemma not_ready:
  assumes "st s k = Some seg_transcribing" "positional s"
  shows "k \<notin> set (qp_ready (planTranscription parse s p now))"
proof
  assume k: "k \<in> set (qp_ready (planTranscription parse s p now))"
  then have "\<not> closed s" by (auto simp: indicesOf_def toSlot_cases split: if_splits simp del: terminal_iff)
  then show False using plan_ready_startable [OF assms(2) k] assms(1) by (auto simp: startable_def)
qed

lemma pass_stranded:
  assumes "stranded k q" "pass cfg now q = Some q'"
  shows "stranded k q'"
proof -
  let ?q1 = "q\<lparr>tq_woken := False\<rparr>"
  have q1: "stranded k ?q1" using assms(1) by (simp add: stranded_def reconciling_done_def)
  have "k \<notin> set (qp_ready (queue_plan cfg ?q1 now))"
    using assms(1) by (intro not_ready) (simp_all add: stranded_def)
  then have q2: "stranded k (dispatch_ready (qc_maxInFlight cfg) (qp_ready (queue_plan cfg ?q1 now)) ?q1)"
    using q1 dispatch_ready_stranded by blast
  have q3: "stranded k (?q1\<lparr>tq_drain := Finishing\<rparr>)" using q1 by (simp add: stranded_def reconciling_done_def)
  show ?thesis
  proof (cases "tq_drain q")
    case Looping
    define p where "p = (if \<not> tq_unavailable ?q1
      then dispatch_ready (qc_maxInFlight cfg) (qp_ready (queue_plan cfg ?q1 now)) ?q1 else ?q1)"
    have p: "stranded k p" using q1 q2 by (simp add: p_def del: plan_simps)
    have "pass cfg now q = (if \<not> tq_woken q then None
        else if \<not> tq_unavailable ?q1 \<and> qp_phase (queue_plan cfg ?q1 now) = phase_closed
        then (if tq_inFlight ?q1 \<noteq> [] then Some (?q1\<lparr>tq_drain := Finishing\<rparr>) else Some (finish cfg now ?q1))
        else (if tq_inFlight p = [] then Some (finish cfg now p) else Some p))"
      unfolding pass_def Let_def Looping drain_state.simps p_def by (rule refl)
    then show ?thesis using assms(2) q3 p finish_stranded [OF q1] finish_stranded [OF p] by (auto split: if_splits)
  next
    case Finishing
    then show ?thesis using assms finish_stranded [OF assms(1)] by (auto simp: pass_def split: if_splits)
  qed (use assms(2) in \<open>simp_all add: pass_def\<close>)
qed

lemma reconcile_next_stranded:
  assumes "stranded k q" "reconcile_next q = Some q'"
  shows "stranded k q'"
proof -
  obtain w force where d: "tq_drain q = Reconciling [] w force"
    using assms by (cases "tq_drain q") (auto simp: reconcile_next_def stranded_def reconciling_done_def)
  let ?q1 = "q\<lparr>tq_drain := Looping, tq_woken := True\<rparr>"
  have q1: "stranded k ?q1" using assms(1) by (simp add: stranded_def reconciling_done_def)
  show ?thesis
  proof (cases "q' = ?q1")
    case False
    then obtain i where i: "q' = dispatch i ?q1" "i < length (cs_segments (tq_session q))"
        "sg_state (cs_segments (tq_session q) ! i) \<noteq> seg_transcribing"
      using assms(2) d by (auto simp: reconcile_next_def Let_def split: option.splits if_splits)
    then have "i \<noteq> k" using assms(1) by (auto simp: stranded_def st_def)
    with i q1 dispatch_stranded show ?thesis by simp
  qed (use q1 in simp)
qed

text \<open>An attempt of another segment, and a commit that lands.\<close>

lemma moved_stranded:
  assumes "stranded k q" "map_of (tq_inFlight q) i \<noteq> None"
    and "tq_session q' = tq_session q" "set (tq_writes q') \<subseteq> set (tq_writes q) \<union> js"
      "\<forall>j \<in> js. job_owner j = Some i" "tq_reconciled q' = tq_reconciled q" "tq_drain q' = tq_drain q"
      "tq_inFlight q' = AList.update i a (tq_inFlight q)"
  shows "stranded k q'"
proof -
  have ik: "i \<noteq> k" using assms(1,2) by (auto simp: stranded_def)
  have "job_owner j \<noteq> Some k \<and> \<not> is_orphan j" if "j \<in> js" for j
    using assms(5) that ik by (cases j) auto
  then show ?thesis using assms ik by (auto simp: stranded_def reconciling_done_def update_conv')
qed

lemma committed_stranded:
  assumes "stranded k q" "tq_writes q = j # rest"
  shows "stranded k (committed j e (q\<lparr>tq_writes := rest, tq_writing := False\<rparr>))"
proof -
  let ?p = "q\<lparr>tq_writes := rest, tq_writing := False\<rparr>"
  let ?q = "committed j e ?p"
  have j: "job_owner j \<noteq> Some k" "\<not> is_orphan j" using assms by (auto simp: stranded_def)
  have none: "map_of (tq_inFlight q) k = None" using assms(1) by (simp add: stranded_def)
  have "map_of (tq_inFlight ?q) k = None \<and> tq_reconciled ?q = tq_reconciled q \<and> tq_drain ?q = tq_drain q"
    using j none by (cases j; cases e)
      (auto simp: committed_def end_attempt_def set_attempt_def put_error_def map_of_filter_key update_conv' Let_def
        split: option.splits attempt.splits)
  then show ?thesis using assms by (auto simp: stranded_def reconciling_done_def committed_frame)
qed

lemma step_stranded:
  assumes k: "stranded k q" and step: "queue_step cfg ev q = Some q'"
  shows "closed (tq_session q') \<or> stranded k q'"
proof (cases ev)
  case (Begin force now)
  then show ?thesis using step begin_stranded [OF k] by (auto split: if_splits)
next
  case ReconcileNext
  then show ?thesis using step reconcile_next_stranded [OF k] by simp
next
  case (Pass now)
  then show ?thesis using step pass_stranded [OF k] by simp
next
  case (ApplyWrite now)
  then obtain j rest where w: "tq_writes q = j # rest" "\<not> tq_writing q"
    using step by (auto split: list.splits if_splits)
  show ?thesis
  proof (cases "run_job j (iso_of_ms now) (tq_session q)")
    case (Inl e)
    then have "q' = committed j (Some e) (q\<lparr>tq_writes := rest\<rparr>)" using ApplyWrite step w by simp
    moreover have "q\<lparr>tq_writes := rest\<rparr> = q\<lparr>tq_writes := rest, tq_writing := False\<rparr>" using w by simp
    ultimately show ?thesis using committed_stranded [OF k w(1), of "Some e"] by metis
  next
    case (Inr s)
    then have q': "q' = q\<lparr>tq_session := s, tq_writing := True\<rparr>" using ApplyWrite step w by simp
    have "job_owner j \<noteq> Some k" "\<not> is_orphan j" "st (tq_session q) k = Some seg_transcribing" "positional (tq_session q)"
      using k w by (auto simp: stranded_def)
    from job_keeps_transcribing [OF this(3,4,1,2) Inr] k q' show ?thesis
      by (auto simp: stranded_def reconciling_done_def)
  qed
next
  case (Persisted e)
  then obtain j rest where w: "tq_writes q = j # rest" "q' = committed j e (q\<lparr>tq_writes := rest, tq_writing := False\<rparr>)"
    using step by (cases "tq_writes q") (simp_all split: if_splits)
  then show ?thesis using committed_stranded [OF k] by blast
next
  case (AudioRead i e)
  then obtain r where i: "map_of (tq_inFlight q) i = Some (Reading r)"
    using step by (auto split: option.splits attempt.splits)
  show ?thesis
  proof (cases e)
    case None
    then have "q' = set_attempt i (Requesting r) q" using AudioRead step i by simp
    then show ?thesis using i moved_stranded [OF k, of i q' "{}" "Requesting r"] by (simp add: set_attempt_def)
  next
    case (Some e)
    then have "q' = commit (Fail i (describeFailure e)) (set_attempt i Settling q)" using AudioRead step i by simp
    then show ?thesis using i moved_stranded [OF k, of i q' "{Fail i (describeFailure e)}" Settling]
      by (simp add: set_attempt_def commit_def)
  qed
next
  case (Transcribed i body)
  then obtain r where i: "map_of (tq_inFlight q) i = Some (Requesting r)"
    using step by (auto split: option.splits attempt.splits)
  then have "q' = commit (Settle i body) (set_attempt i Settling (q\<lparr>tq_outageStreak := 0\<rparr>))"
    using Transcribed step by simp
  then show ?thesis using i moved_stranded [OF k, of i q' "{Settle i body}" Settling]
    by (simp add: set_attempt_def commit_def)
next
  case (RequestFailed i raw err now)
  then obtain r where i: "map_of (tq_inFlight q) i = Some (Requesting r)"
    using step by (auto split: option.splits attempt.splits)
  then have q': "q' = request_failed cfg i r raw err now q" using RequestFailed step by simp
  have "stranded k q'"
    using i q' by (intro moved_stranded [OF k, of i q' "{j. job_owner j = Some i}" Settling])
      (auto simp: request_failed_def set_attempt_def commit_def Let_def)
  then show ?thesis by blast
next
  case (HostApply h)
  then show ?thesis using step k by (auto simp: commit_def stranded_def reconciling_done_def)
qed

section \<open>Runs\<close>

lemma dispatch_ready_frame:
  "tq_session (dispatch_ready m ks q) = tq_session q \<and> tq_drain (dispatch_ready m ks q) = tq_drain q
   \<and> tq_reconciled (dispatch_ready m ks q) = tq_reconciled q"
  by (induction ks arbitrary: q) (auto simp: dispatch_def commit_def Let_def)

lemma finish_frame:
  "tq_session (finish cfg now q) = tq_session q" "tq_reconciled (finish cfg now q) = tq_reconciled q"
  "tq_drain (finish cfg now q) = NoDrain"
  by (auto simp: finish_def drain_result_def Let_def)

lemma committed_reconciled:
  "tq_reconciled (committed j e q) = tq_reconciled q"
  "tq_drain q = NoDrain \<Longrightarrow> tq_drain (committed j e q) = NoDrain"
  by (cases j; cases e; simp add: committed_def end_attempt_def set_attempt_def put_error_def Let_def
      split: option.splits attempt.splits drain_state.splits list.splits bool.splits)+

lemma pass_frame:
  assumes "pass cfg now q = Some q'"
  shows "tq_session q' = tq_session q \<and> tq_reconciled q' = tq_reconciled q \<and> tq_drain q \<noteq> NoDrain"
proof -
  obtain p where "q' = p \<or> q' = p\<lparr>tq_drain := Finishing\<rparr> \<or> q' = finish cfg now p"
      "tq_session p = tq_session q \<and> tq_reconciled p = tq_reconciled q" "tq_drain q \<noteq> NoDrain"
    using assms dispatch_ready_frame unfolding pass_def Let_def
    by (cases "tq_drain q") (fastforce split: if_splits)+
  then show ?thesis using finish_frame by auto
qed

lemma step_frame:
  assumes "queue_step cfg ev q = Some q'"
  shows "(tq_session q' = tq_session q \<or> (\<exists>j t. run_job j t (tq_session q) = Inr (tq_session q')))
    \<and> ((tq_drain q \<noteq> NoDrain \<longrightarrow> tq_reconciled q) \<longrightarrow> tq_drain q' \<noteq> NoDrain \<longrightarrow> tq_reconciled q')"
proof (cases ev)
  case (Begin force now)
  then show ?thesis using assms by (auto simp: begin_drain_def drain_result_def Let_def split: if_splits)
next
  case ReconcileNext
  then show ?thesis using assms
    by (auto simp: reconcile_next_def commit_def dispatch_def Let_def
        split: drain_state.splits list.splits bool.splits option.splits if_splits)
next
  case (Pass now)
  then show ?thesis using assms pass_frame by auto
next
  case (ApplyWrite now)
  then obtain j rest where w: "tq_writes q = j # rest" "\<not> tq_writing q"
    using assms by (auto split: list.splits if_splits)
  then show ?thesis using assms ApplyWrite committed_reconciled committed_frame
    by (cases "run_job j (iso_of_ms now) (tq_session q)") fastforce+
next
  case (Persisted e)
  then obtain j rest where "tq_writes q = j # rest" "q' = committed j e (q\<lparr>tq_writes := rest, tq_writing := False\<rparr>)"
    using assms by (cases "tq_writes q") (simp_all split: if_splits)
  then show ?thesis using committed_reconciled committed_frame by fastforce
qed (use assms in \<open>auto simp: commit_def set_attempt_def request_failed_def Let_def
       split: option.splits attempt.splits if_splits\<close>)

lemma run_reconciled: "queue_run cfg s0 f0 n0 f n q \<Longrightarrow> tq_drain q \<noteq> NoDrain \<Longrightarrow> tq_reconciled q"
  by (induction rule: queue_run.induct) (use step_frame in \<open>simp add: new_queue_def, blast\<close>)

lemma closed_stays: "closed (tq_session q) \<Longrightarrow> queue_step cfg ev q = Some q' \<Longrightarrow> closed (tq_session q')"
  using step_frame job_keeps_closed by metis

lemma steps_stranded: "queue_steps cfg q q' \<Longrightarrow> stranded k q \<Longrightarrow> closed (tq_session q') \<or> stranded k q'"
proof (induction rule: queue_steps.induct)
  case (steps_next q1 ev q2)
  then show ?case using step_stranded closed_stays by metis
qed simp

lemma stranded_plan:
  assumes "stranded k q" "\<not> closed (tq_session q)"
  shows "k \<in> set (qp_inFlight (queue_plan cfg q now))" "qp_phase (queue_plan cfg q now) = phase_working"
proof -
  let ?g = "cs_segments (tq_session q) ! k"
  have k: "k < length (cs_segments (tq_session q))" "sg_state ?g = seg_transcribing" "positional (tq_session q)"
    using assms(1) by (auto simp: stranded_def st_def split: if_splits)
  then have "map sg_index (cs_segments (tq_session q)) ! k = k" by (simp add: positional_def)
  then have "?g \<in> set (cs_segments (tq_session q))" "sg_index ?g = k" using k by simp_all
  moreover have "sl_disposition (toSlot (qc_parse cfg) ?g (closed (tq_session q)) (qc_policy cfg) now) = slot_in_flight"
    using k assms(2) by (simp only: toSlot_cases) simp
  ultimately show i: "k \<in> set (qp_inFlight (queue_plan cfg q now))"
    unfolding plan_simps(4) in_indices by blast
  then have "indicesOf (qp_slots (queue_plan cfg q now)) slot_in_flight \<noteq> []" by (auto simp del: plan_simps(1))
  then show "qp_phase (queue_plan cfg q now) = phase_working"
    using assms(2) by (simp only: plan_phase if_False simp_thms if_True)
qed

lemma queue_exec_append:
  "queue_exec cfg (xs @ ys) q = (case queue_exec cfg xs q of None \<Rightarrow> None | Some p \<Rightarrow> queue_exec cfg ys p)"
  by (induction xs arbitrary: q) (simp_all split: option.splits)

section \<open>Properties\<close>

text \<open>
  C36. A failed write of an announcement strands its segment. The code blocks the index for the
  rest of that drain and tells the host to come back, but the in-memory session, which is not
  rolled back, says the segment is being transcribed: in every later state of this queue, until
  the meeting is closed, nothing is in flight for the segment, no drain and no forced retry ever
  dispatches it, the plan counts it as in flight, and every drain that ends (while the endpoint is
  not known to be down) reports \<open>waiting\<close> with a wake-up, never \<open>idle\<close>.
\<close>

theorem unwritten_announcement_strands_the_segment:
  assumes "queue_run cfg s0 f0 n0 f n q" "accounted (qc_policy cfg) f0 n0 s0" "1 \<le> qc_maxInFlight cfg"
    and w: "tq_writes q = Announce k # rest" and "\<not> closed (tq_session q)"
    and fails: "queue_step cfg (Persisted (Some e)) q = Some q1"
    and later: "queue_steps cfg q1 q2" "\<not> closed (tq_session q2)"
  shows "sg_state (cs_segments (tq_session q2) ! k) = seg_transcribing \<and> k \<notin> set (map fst (tq_inFlight q2))
    \<and> k \<in> set (qp_inFlight (queue_plan cfg q2 now)) \<and> k \<notin> set (qp_ready (queue_plan cfg q2 now))
    \<and> (\<not> tq_unavailable q2 \<longrightarrow> (\<exists>r. tq_result (finish cfg now q2) = Some r \<and> dr_phase r = drain_waiting
          \<and> dr_nextWakeMs r \<noteq> None))"
proof -
  have inv: "queue_inv cfg f n q" using run_inv assms(1-3) by blast
  have wr: "tq_writing q" "q1 = committed (Announce k) (Some e) (q\<lparr>tq_writes := rest, tq_writing := False\<rparr>)"
    using fails w by (simp_all split: if_splits)
  have own: "map_of (tq_inFlight q) k \<noteq> None" "owned k (tq_writes q) = [Announce k]"
    using owner_in_flight [OF inv, of "Announce k" k] w by simp_all
  then obtain a where a: "map_of (tq_inFlight q) k = Some a" by blast
  have "applied k q" using w wr by (simp add: applied_def)
  with in_flight_ok [OF inv a] own(2) obtain r where r: "a = Announcing r" "live (tq_session q) k"
    by (auto simp: attempt_ok_def split: attempt.splits)
  then have trans: "st (tq_session q) k = Some seg_transcribing" using assms(5) by (simp add: live_def)
  have busy: "tq_drain q = Looping \<or> tq_drain q = Finishing" "filter is_orphan (tq_writes q) = []"
    using busy_loop [OF inv] a by force+
  then have "tq_reconciled q" using run_reconciled assms(1) by force
  have "tq_inFlight q1 = filter (\<lambda>(i, _). i \<noteq> k) (tq_inFlight q)" "tq_drain q1 = tq_drain q"
    using committed_announce(2,3) [of "q\<lparr>tq_writes := rest, tq_writing := False\<rparr>" k r] a r wr by simp_all
  moreover have "\<forall>j \<in> set rest. job_owner j \<noteq> Some k \<and> \<not> is_orphan j"
    using own(2) busy(2) w by (auto simp: owned_def filter_empty_conv)
  moreover have "tq_session q1 = tq_session q" "tq_writes q1 = rest" "tq_reconciled q1"
    using wr \<open>tq_reconciled q\<close> by (simp_all add: committed_frame committed_reconciled)
  ultimately have "stranded k q1"
    using busy(1) trans inv by (auto simp: stranded_def reconciling_done_def map_of_filter_key queue_inv_def)
  with steps_stranded [OF later(1)] later(2) have s2: "stranded k q2" by blast
  note plan = stranded_plan [OF s2 later(2), of cfg now]
  have "st (tq_session q2) k = Some seg_transcribing" "positional (tq_session q2)" "map_of (tq_inFlight q2) k = None"
    using s2 by (simp_all add: stranded_def)
  moreover have "\<exists>r. tq_result (finish cfg now q2) = Some r \<and> dr_phase r = drain_waiting \<and> dr_nextWakeMs r \<noteq> None"
    if "\<not> tq_unavailable q2"
    using plan(2) that by (simp add: finish_def drain_result_def Let_def)
  ultimately show ?thesis using plan(1) not_ready
    by (simp add: st_def map_of_eq_None_iff del: plan_simps split: if_splits)
qed

theorem unwritten_announcement_strands_the_segment_witness:
  "\<exists>q1. queue_exec demo_config [Begin (Some 0) 0, ReconcileNext, ApplyWrite 0, Persisted (Some ''disk full'')]
        (new_queue demo_session) = Some q1
     \<and> sg_state (cs_segments (tq_session q1) ! 0) = seg_transcribing \<and> tq_inFlight q1 = []
     \<and> 0 \<in> set (qp_inFlight (queue_plan demo_config q1 5000))"
proof -
  have "\<exists>q. queue_exec demo_config [Begin (Some 0) 0, ReconcileNext, ApplyWrite 0] (new_queue demo_session) = Some q
      \<and> tq_writes q = [Announce 0] \<and> tq_writing q \<and> \<not> closed (tq_session q) \<and> tq_inFlight q = [(0, Announcing (Some ''down''))]"
    by (simp add: demo_simps del: plan_simps)
  then obtain q where q: "queue_exec demo_config [Begin (Some 0) 0, ReconcileNext, ApplyWrite 0] (new_queue demo_session) = Some q"
      "tq_writes q = [Announce 0]" "tq_writing q" "\<not> closed (tq_session q)" "tq_inFlight q = [(0, Announcing (Some ''down''))]"
    by blast
  obtain q1 where q1: "queue_step demo_config (Persisted (Some ''disk full'')) q = Some q1"
      "tq_session q1 = tq_session q" "tq_inFlight q1 = []"
    using q by (simp add: committed_def end_attempt_def put_error_def)
  have "1 \<le> qc_maxInFlight demo_config" by (simp add: demo_config_def)
  from unwritten_announcement_strands_the_segment
    [OF queue_exec_run [OF queue_start q(1)] demo_accounted this q(2,4) q1(1) steps_refl, of 5000] q1(2,3) q(4)
  have "sg_state (cs_segments (tq_session q1) ! 0) = seg_transcribing \<and> 0 \<in> set (qp_inFlight (queue_plan demo_config q1 5000))"
    by (simp del: plan_simps)
  moreover have "queue_exec demo_config [Begin (Some 0) 0, ReconcileNext, ApplyWrite 0, Persisted (Some ''disk full'')]
      (new_queue demo_session) = Some q1"
    using q(1) q1(1) queue_exec_append [of demo_config "[Begin (Some 0) 0, ReconcileNext, ApplyWrite 0]"
        "[Persisted (Some ''disk full'')]" "new_queue demo_session"] by simp
  ultimately show ?thesis using q1(3) by blast
qed

end
