(* ===== verification/Transcript.thy ===== *)
theory Transcript
  imports TranscriptionQueue JsText
begin

text \<open>
  What a meeting's surfaces read of a capture: the transcript so far
  (\<open>packages/core/src/meetings/transcript.ts\<close>), the sentence about the queue
  (\<open>capturePhase.ts\<close>), what is offered back after a crash (\<open>recovery.ts\<close>) and what has
  outlived the retention window (\<open>retention.ts\<close>). Elapsed times are integers (milliseconds);
  \<open>localeCompare\<close> and \<open>Date.parse\<close> are arguments.
\<close>

section \<open>The transcript so far\<close>

datatype MeetingTranscriptEntryKind = kind_settled | kind_provisional | kind_gap

record MeetingTranscriptEntry =
  te_index :: nat
  te_startMs :: int
  te_endMs :: int
  te_kind :: MeetingTranscriptEntryKind
  te_state :: MeetingSegmentState
  te_text :: string
  te_failureReason :: "string option"
  te_attempts :: "nat option"

definition MEETING_GAP_PHRASE :: string where
  "MEETING_GAP_PHRASE = ''could not be transcribed''"

definition formatCaptureTimestamp :: "int \<Rightarrow> string" where
  "formatCaptureTimestamp elapsedMs =
     (let totalSeconds = nat (max 0 (elapsedMs div 1000));
          hours = totalSeconds div 3600;
          minutes = (totalSeconds mod 3600) div 60;
          seconds = totalSeconds mod 60
      in js_join '':'' (map (\<lambda>part. pad_left 2 (digits_of part)) [hours, minutes, seconds]))"

definition formatCaptureGap :: "int \<Rightarrow> int \<Rightarrow> string" where
  "formatCaptureGap startMs endMs =
     ''['' @ formatCaptureTimestamp startMs @ en_dash @ formatCaptureTimestamp endMs @ '' '' @ MEETING_GAP_PHRASE @ '']''"

definition toEntry :: "MeetingSegment \<Rightarrow> MeetingTranscriptEntry" where
  "toEntry segment =
     (let base = \<lparr>te_index = sg_index segment, te_startMs = sg_startMs segment, te_endMs = sg_endMs segment,
                  te_kind = kind_provisional, te_state = sg_state segment, te_text = [],
                  te_failureReason = None, te_attempts = None\<rparr>
      in if sg_state segment = seg_done
         then base\<lparr>te_kind := kind_settled, te_text := (case sg_text segment of None \<Rightarrow> [] | Some t \<Rightarrow> t)\<rparr>
         else if sg_state segment = seg_failed
         then base\<lparr>te_kind := kind_gap, te_text := formatCaptureGap (sg_startMs segment) (sg_endMs segment),
                   te_failureReason := sg_failureReason segment, te_attempts := Some (sg_attempts segment)\<rparr>
         else base\<lparr>te_attempts := Some (sg_attempts segment)\<rparr>)"

definition transcriptSoFar :: "MeetingCaptureSession \<Rightarrow> MeetingTranscriptEntry list" where
  "transcriptSoFar session = map toEntry (cs_segments session)"

definition transcriptText :: "MeetingCaptureSession \<Rightarrow> string option \<Rightarrow> bool \<Rightarrow> string" where
  "transcriptText session separator omitGaps =
     js_join (case separator of None \<Rightarrow> [newline] | Some s \<Rightarrow> s)
       (filter (\<lambda>t. length t > 0)
         (map te_text
           (filter (\<lambda>entry. if te_kind entry = kind_gap then \<not> omitGaps else te_kind entry = kind_settled)
             (transcriptSoFar session))))"

definition transcriptGaps :: "MeetingCaptureSession \<Rightarrow> MeetingTranscriptEntry list" where
  "transcriptGaps session = filter (\<lambda>entry. te_kind entry = kind_gap) (transcriptSoFar session)"

section \<open>The sentence about the queue\<close>

record CapturePhaseCounts =
  cp_gaps :: nat
  cp_provisional :: nat

definition capturePhaseNote ::
  "MeetingCaptureSession \<Rightarrow> MeetingDrainPhase option \<Rightarrow> CapturePhaseCounts \<Rightarrow> string"
where
  "capturePhaseNote session phase counts =
     (if phase = Some drain_unavailable
      then ''The transcription service is not answering. The audio is saved on this device and these segments ''
           @ ''will transcribe when it comes back.''
      else if phase = Some drain_closed then ''This meeting is closed; its audio has been released.''
      else if \<exists>segment \<in> set (cs_segments session). sg_failureReason segment = Some MEETING_ENDPOINT_UNRESPONSIVE_REASON
      then ''We have stopped waiting for the transcription service on some segments. The audio is still on this ''
           @ ''device '' @ em_dash @ '' retry a gap once the service is back.''
      else if cp_provisional counts > 0 then ''''
      else if phase = Some drain_waiting then ''Waiting to retry.''
      else if cp_gaps counts > 0
      then ''Nothing left to try automatically '' @ em_dash
           @ '' retry a gap to fill it in from the audio still on this device.''
      else '''')"

section \<open>What is offered back\<close>

definition isResumableSession :: "MeetingCaptureSession \<Rightarrow> bool" where
  "isResumableSession session \<longleftrightarrow>
     (if isTerminalCaptureStatus (cs_status session) then False else capturedByteLength session > 0)"

definition resumableSessions ::
  "(string \<Rightarrow> string \<Rightarrow> int) \<Rightarrow> MeetingCaptureSession list \<Rightarrow> MeetingCaptureScope option \<Rightarrow> MeetingCaptureSession list"
where
  "resumableSessions localeCompare sessions scope =
     sort_by (\<lambda>a b. localeCompare (cs_startedAt b) (cs_startedAt a))
       (filter (\<lambda>session. case scope of None \<Rightarrow> True | Some c \<Rightarrow> sameCaptureScope (cs_scope session) c)
         (filter isResumableSession sessions))"

record MeetingRecoverySummary =
  rs_sessionId :: string
  rs_title :: string
  rs_startedAt :: string
  rs_durationMs :: int
  rs_byteLength :: int
  rs_segments :: nat
  rs_settled :: nat
  rs_gaps :: nat
  rs_unsettled :: nat

definition summarizeRecovery :: "MeetingCaptureSession \<Rightarrow> MeetingRecoverySummary" where
  "summarizeRecovery session =
     (let (settled, gaps, unsettled) =
            fold (\<lambda>segment (settled, gaps, unsettled).
                if sg_state segment = seg_done then (settled + 1, gaps, unsettled)
                else if sg_state segment = seg_failed then (settled, gaps + 1, unsettled)
                else (settled, gaps, unsettled + 1))
              (cs_segments session) (0, 0, 0)
      in \<lparr>rs_sessionId = cs_id session, rs_title = cs_title session, rs_startedAt = cs_startedAt session,
          rs_durationMs = capturedElapsedMs session, rs_byteLength = capturedByteLength session,
          rs_segments = length (cs_segments session),
          rs_settled = settled, rs_gaps = gaps, rs_unsettled = unsettled\<rparr>)"

definition orphanCaptureIds :: "string list \<Rightarrow> MeetingCaptureSession list \<Rightarrow> string list" where
  "orphanCaptureIds storedCaptureIds sessions =
     (let known = set (map cs_id sessions) in filter (\<lambda>i. i \<notin> known) storedCaptureIds)"

section \<open>The retention window\<close>

definition MEETING_RETENTION_DEFAULT_DAYS :: int where
  "MEETING_RETENTION_DEFAULT_DAYS = 30"

definition MIN_MEETING_RETENTION_DAYS :: int where
  "MIN_MEETING_RETENTION_DAYS = 1"

definition MAX_MEETING_RETENTION_DAYS :: int where
  "MAX_MEETING_RETENTION_DAYS = 365"

definition MEETING_RETENTION_DAY_CHOICES :: "int list" where
  "MEETING_RETENTION_DAY_CHOICES = [1, 7, 14, 30, 90, 180, 365]"

definition MS_PER_DAY :: int where
  "MS_PER_DAY = 86400000"

definition isMeetingRetentionDays :: "js \<Rightarrow> bool" where
  "isMeetingRetentionDays v =
     (case v of
        JNum (Fin q) \<Rightarrow> of_int \<lfloor>q\<rfloor> = q \<and> of_int MIN_MEETING_RETENTION_DAYS \<le> q \<and> q \<le> of_int MAX_MEETING_RETENTION_DAYS
      | _ \<Rightarrow> False)"

definition normalizeMeetingRetentionDays :: "js \<Rightarrow> int" where
  "normalizeMeetingRetentionDays v =
     (case v of
        JNum (Fin q) \<Rightarrow>
          let whole = js_round q
          in if whole < MIN_MEETING_RETENTION_DAYS then MIN_MEETING_RETENTION_DAYS
             else if whole > MAX_MEETING_RETENTION_DAYS then MAX_MEETING_RETENTION_DAYS
             else whole
      | _ \<Rightarrow> MEETING_RETENTION_DEFAULT_DAYS)"

definition meetingRetentionChoiceLabel :: "js \<Rightarrow> string" where
  "meetingRetentionChoiceLabel days =
     (let window = normalizeMeetingRetentionDays days
      in if window = 1 then ''1 day''
         else if window mod 365 = 0 then (if window = 365 then ''1 year'' else show_int (window div 365) @ '' years'')
         else if window mod 30 = 0 then (if window = 30 then ''1 month'' else show_int (window div 30) @ '' months'')
         else if window mod 7 = 0 then (if window = 7 then ''1 week'' else show_int (window div 7) @ '' weeks'')
         else show_int window @ '' days'')"

definition meetingRetentionCutoffMs :: "int \<Rightarrow> js \<Rightarrow> int" where
  "meetingRetentionCutoffMs nowMs days = nowMs - normalizeMeetingRetentionDays days * MS_PER_DAY"

definition captureRetentionAt :: "MeetingCaptureSession \<Rightarrow> string" where
  "captureRetentionAt session = (case cs_stoppedAt session of Some t \<Rightarrow> t | None \<Rightarrow> cs_startedAt session)"

record RetainedCapture =
  rc_id :: string
  rc_at :: string

definition expiredCaptureIds ::
  "(string \<Rightarrow> jsnum) \<Rightarrow> RetainedCapture list \<Rightarrow> int \<Rightarrow> js \<Rightarrow> string list \<Rightarrow> string list"
where
  "expiredCaptureIds parse captures nowMs days exclude =
     (let cutoff = meetingRetentionCutoffMs nowMs days
      in map rc_id
           (filter (\<lambda>capture.
               if rc_id capture \<in> set exclude then False
               else (case parse (rc_at capture) of
                       NonFinite \<Rightarrow> False
                     | Fin t \<Rightarrow> t < of_int cutoff))
             captures))"

definition describeMeetingRetention :: "js \<Rightarrow> string" where
  "describeMeetingRetention days =
     (let window = normalizeMeetingRetentionDays days;
          period = (if window = 1 then ''a day'' else if window = 365 then ''a year'' else show_int window @ '' days'')
      in ''Recordings you have not turned into a meeting or discarded are deleted '' @ period
         @ '' after they were made.'')"

section \<open>Lemmas\<close>

lemma toEntry_simps [simp]:
  "te_index (toEntry g) = sg_index g" "te_startMs (toEntry g) = sg_startMs g" "te_endMs (toEntry g) = sg_endMs g"
  "te_state (toEntry g) = sg_state g"
  "te_kind (toEntry g) =
     (if sg_state g = seg_done then kind_settled else if sg_state g = seg_failed then kind_gap else kind_provisional)"
  "te_text (toEntry g) =
     (if sg_state g = seg_done then (case sg_text g of None \<Rightarrow> [] | Some t \<Rightarrow> t)
      else if sg_state g = seg_failed then formatCaptureGap (sg_startMs g) (sg_endMs g) else [])"
  by (simp_all add: toEntry_def Let_def)

lemma length_transcript [simp]: "length (transcriptSoFar s) = length (cs_segments s)"
  by (simp add: transcriptSoFar_def)

lemma nth_transcript: "i < length (cs_segments s) \<Longrightarrow> transcriptSoFar s ! i = toEntry (cs_segments s ! i)"
  by (simp add: transcriptSoFar_def)

lemma gap_nonempty [simp]: "formatCaptureGap a b \<noteq> []" "[] \<noteq> formatCaptureGap a b"
  by (simp_all add: formatCaptureGap_def)

end
