(* ===== verification/TranscriptFold.thy ===== *)
theory TranscriptFold
  imports Transcript
begin

text \<open>
  Putting the live transcript into a compose box: the append-only fold
  (\<open>packages/core/src/meetings/transcriptFold.ts\<close>) and the reconciliation of a restored box with
  a recovered session (\<open>packages/core/src/meetings/draftReconcile.ts\<close>). A \<open>Map\<close> from segment
  index to text is an association list in insertion order. The queue plan the fold asks for is
  the one of the default policy at the instant \<open>now\<close>.
\<close>

section \<open>The fold\<close>

record TranscriptFold =
  tf_inserted :: "(nat \<times> string) list"
  tf_next :: nat

definition EMPTY_TRANSCRIPT_FOLD :: TranscriptFold where
  "EMPTY_TRANSCRIPT_FOLD = \<lparr>tf_inserted = [], tf_next = 0\<rparr>"

record TranscriptFoldResult =
  fr_text :: string
  fr_fold :: TranscriptFold
  fr_changed :: bool

definition contribution :: "MeetingTranscriptEntry \<Rightarrow> bool \<Rightarrow> nat set \<Rightarrow> string option" where
  "contribution entry settleAll exhausted =
     (if te_kind entry = kind_settled then Some (te_text entry)
      else if settleAll then Some (formatCaptureGap (te_startMs entry) (te_endMs entry))
      else if te_kind entry = kind_gap \<and> te_index entry \<in> exhausted then Some (te_text entry)
      else None)"

text \<open>The first loop: a gap that was stated and has since transcribed.\<close>

fun heal ::
  "MeetingTranscriptEntry list \<Rightarrow> (nat \<times> string) list \<Rightarrow> string \<Rightarrow> (nat \<times> string) list \<Rightarrow> bool
     \<Rightarrow> string \<times> (nat \<times> string) list \<times> bool"
where
  "heal entries [] body inserted changed = (body, inserted, changed)"
| "heal entries ((index, previous) # rest) body inserted changed =
     (if index \<ge> length entries \<or> te_kind (entries ! index) \<noteq> kind_settled
         \<or> te_text (entries ! index) = [] \<or> te_text (entries ! index) = previous
      then heal entries rest body inserted changed
      else (case index_of previous body of
              None \<Rightarrow> heal entries rest body inserted changed
            | Some i \<Rightarrow>
                heal entries rest
                  (take i body @ te_text (entries ! index) @ drop (i + length previous) body)
                  (AList.update index (te_text (entries ! index)) inserted) True))"

text \<open>The second loop: the run of segments that will not change on their own.\<close>

fun append_run ::
  "bool \<Rightarrow> nat set \<Rightarrow> MeetingTranscriptEntry list \<Rightarrow> nat \<Rightarrow> string list \<Rightarrow> (nat \<times> string) list
     \<Rightarrow> nat \<times> string list \<times> (nat \<times> string) list"
where
  "append_run settleAll exhausted [] nxt additions inserted = (nxt, additions, inserted)"
| "append_run settleAll exhausted (entry # entries) nxt additions inserted =
     (case contribution entry settleAll exhausted of
        None \<Rightarrow> (nxt, additions, inserted)
      | Some t \<Rightarrow>
          if t \<noteq> [] then append_run settleAll exhausted entries (nxt + 1) (additions @ [t]) (AList.update nxt t inserted)
          else append_run settleAll exhausted entries (nxt + 1) additions inserted)"

definition foldTranscript ::
  "(string \<Rightarrow> jsnum) \<Rightarrow> int \<Rightarrow> string \<Rightarrow> MeetingCaptureSession \<Rightarrow> TranscriptFold \<Rightarrow> bool \<Rightarrow> TranscriptFoldResult"
where
  "foldTranscript parse now current session fld settleAll =
     (let entries = transcriptSoFar session;
          (body, inserted, changed) = heal entries (tf_inserted fld) current (tf_inserted fld) False;
          exhausted = (if settleAll then {}
                       else set (qp_exhausted (planTranscription parse session DEFAULT_MEETING_RETRY_POLICY now)));
          (nxt, additions, inserted) =
            append_run settleAll exhausted (drop (tf_next fld) entries) (tf_next fld) [] inserted;
          joined = unlines additions
      in \<lparr>fr_text = (if additions = [] then body else if body \<noteq> [] then body @ [newline] @ joined else joined),
          fr_fold = \<lparr>tf_inserted = inserted, tf_next = nxt\<rparr>,
          fr_changed = (changed \<or> additions \<noteq> [])\<rparr>)"

definition settleTranscriptForSubmit ::
  "(string \<Rightarrow> jsnum) \<Rightarrow> int \<Rightarrow> string \<Rightarrow> MeetingCaptureSession option \<Rightarrow> TranscriptFold
     \<Rightarrow> TranscriptFoldResult \<times> nat list"
where
  "settleTranscriptForSubmit parse now current session fld =
     (case session of
        None \<Rightarrow> (\<lparr>fr_text = current, fr_fold = fld, fr_changed = False\<rparr>, [])
      | Some s \<Rightarrow> (foldTranscript parse now current s fld True, map sg_index (unsettledSegments s)))"

section \<open>The reconciliation\<close>

record MeetingDraftReconciliation =
  md_text :: string
  md_accounted :: "nat list"
  md_matched :: "(nat \<times> string) list"
  md_userOwned :: "nat list"
  md_next :: nat
  md_retained :: string

record LocatedContribution =
  lc_at :: nat
  lc_run :: "string list"
  lc_value :: string

definition candidates :: "MeetingTranscriptEntry \<Rightarrow> string list" where
  "candidates entry =
     (let marker = formatCaptureGap (te_startMs entry) (te_endMs entry)
      in if te_kind entry = kind_settled \<and> te_text entry \<noteq> [] then [te_text entry, marker] else [marker])"

text \<open>The lines from a position on that begin with the run; the positions are tried in order.\<close>

fun find_run_from :: "nat \<Rightarrow> string list \<Rightarrow> string list \<Rightarrow> nat option" where
  "find_run_from i [] run = (if run = [] then Some i else None)"
| "find_run_from i (l # ls) run = (if take (length run) (l # ls) = run then Some i else find_run_from (i + 1) ls run)"

definition findRun :: "string list \<Rightarrow> string list \<Rightarrow> nat \<Rightarrow> nat option" where
  "findRun ls run frm = (if run = [] then None else find_run_from frm (drop frm ls) run)"

fun locate_in :: "string list \<Rightarrow> string list \<Rightarrow> nat \<Rightarrow> LocatedContribution option \<Rightarrow> LocatedContribution option" where
  "locate_in ls [] frm best = best"
| "locate_in ls (v # vs) frm best =
     (let run = lines_of v
      in case findRun ls run frm of
           None \<Rightarrow> locate_in ls vs frm best
         | Some i \<Rightarrow>
             if (case best of Some b \<Rightarrow> i \<ge> lc_at b | None \<Rightarrow> False) then locate_in ls vs frm best
             else locate_in ls vs frm (Some \<lparr>lc_at = i, lc_run = run, lc_value = v\<rparr>))"

definition locate :: "string list \<Rightarrow> MeetingTranscriptEntry \<Rightarrow> nat \<Rightarrow> LocatedContribution option" where
  "locate ls entry frm = locate_in ls (candidates entry) frm None"

text \<open>The walk over the entries: lines, consumed positions, matched texts, cursor, frontier.\<close>

record reconcile_state =
  rw_lines :: "string list"
  rw_consumed :: "nat list"
  rw_matched :: "(nat \<times> string) list"
  rw_cursor :: nat
  rw_frontier :: int

definition reconcile_entry :: "MeetingTranscriptEntry \<Rightarrow> reconcile_state \<Rightarrow> reconcile_state" where
  "reconcile_entry entry w =
     (case locate (rw_lines w) entry (rw_cursor w) of
        None \<Rightarrow> w
      | Some found \<Rightarrow>
          let healed = te_kind entry = kind_settled \<and> te_text entry \<noteq> [] \<and> te_text entry \<noteq> lc_value found;
              replacement = (if healed then lines_of (te_text entry) else lc_run found);
              val = (if healed then te_text entry else lc_value found);
              span = length replacement;
              ls = (if healed
                    then take (lc_at found) (rw_lines w) @ replacement
                         @ drop (lc_at found + length (lc_run found)) (rw_lines w)
                    else rw_lines w)
          in \<lparr>rw_lines = ls,
              rw_consumed = rw_consumed w @ [lc_at found..<lc_at found + span],
              rw_matched = AList.update (te_index entry) val (rw_matched w),
              rw_cursor = lc_at found + span,
              rw_frontier = int (te_index entry)\<rparr>)"

definition trim_blank :: "string list \<Rightarrow> string list" where
  "trim_blank ls = rev (dropWhile (\<lambda>l. js_trim l = []) (rev (dropWhile (\<lambda>l. js_trim l = []) ls)))"

definition retain :: "string list \<Rightarrow> nat list \<Rightarrow> string" where
  "retain ls consumed =
     unlines (trim_blank (map fst (filter (\<lambda>(l, i). i \<notin> set consumed) (zip ls [0..<length ls]))))"

definition reconcileCaptureDraft :: "string \<Rightarrow> MeetingCaptureSession \<Rightarrow> MeetingDraftReconciliation" where
  "reconcileCaptureDraft composeBox session =
     (let ls = (if composeBox \<noteq> [] then lines_of composeBox else []);
          w = fold reconcile_entry (transcriptSoFar session)
                \<lparr>rw_lines = ls, rw_consumed = [], rw_matched = [], rw_cursor = 0, rw_frontier = -1\<rparr>;
          accounted = [0..<nat (rw_frontier w + 1)]
      in \<lparr>md_text = unlines (rw_lines w), md_accounted = accounted, md_matched = rw_matched w,
          md_userOwned = filter (\<lambda>i. map_of (rw_matched w) i = None) accounted,
          md_next = nat (rw_frontier w + 1), md_retained = retain (rw_lines w) (rw_consumed w)\<rparr>)"

definition beginTranscriptFold :: "MeetingDraftReconciliation \<Rightarrow> TranscriptFold" where
  "beginTranscriptFold reconciled = \<lparr>tf_inserted = md_matched reconciled, tf_next = md_next reconciled\<rparr>"

section \<open>The two loops in closed form\<close>

abbreviation exhausted_of :: "(string \<Rightarrow> jsnum) \<Rightarrow> int \<Rightarrow> MeetingCaptureSession \<Rightarrow> nat set" where
  "exhausted_of parse now s \<equiv> set (qp_exhausted (planTranscription parse s DEFAULT_MEETING_RETRY_POLICY now))"

text \<open>The texts of the longest prefix of entries that will not change on their own.\<close>

fun ready_texts :: "bool \<Rightarrow> nat set \<Rightarrow> MeetingTranscriptEntry list \<Rightarrow> string list" where
  "ready_texts settleAll ex [] = []"
| "ready_texts settleAll ex (e # es) =
     (case contribution e settleAll ex of None \<Rightarrow> [] | Some t \<Rightarrow> t # ready_texts settleAll ex es)"

abbreviation spoken :: "string list \<Rightarrow> string list" where
  "spoken ts \<equiv> filter (\<lambda>t. t \<noteq> []) ts"

definition numbered :: "nat \<Rightarrow> string list \<Rightarrow> (nat \<times> string) list" where
  "numbered n ts = filter (\<lambda>(i, t). t \<noteq> []) (zip [n..<n + length ts] ts)"

lemma numbered_simps [simp]:
  "numbered n [] = []"
  "numbered n (t # ts) = (if t = [] then numbered (Suc n) ts else (n, t) # numbered (Suc n) ts)"
  by (simp_all add: numbered_def upt_conv_Cons del: upt_Suc)

lemma numbered_append: "numbered n (xs @ ys) = numbered n xs @ numbered (n + length xs) ys"
  by (induction xs arbitrary: n) simp_all

lemma numbered_keys: "(i, t) \<in> set (numbered n ts) \<Longrightarrow> n \<le> i \<and> i < n + length ts \<and> t = ts ! (i - n) \<and> t \<noteq> []"
  by (auto simp: numbered_def in_set_zip)

abbreviation enter :: "(nat \<times> string) list \<Rightarrow> (nat \<times> string) list \<Rightarrow> (nat \<times> string) list" where
  "enter new ins \<equiv> fold (\<lambda>(i, t) m. AList.update i t m) new ins"

lemma append_run_closed:
  "append_run sa ex es n adds ins =
     (n + length (ready_texts sa ex es), adds @ spoken (ready_texts sa ex es), enter (numbered n (ready_texts sa ex es)) ins)"
  by (induction sa ex es n adds ins rule: append_run.induct) (auto split: option.splits)

text \<open>What the box says agrees with the session: no stated gap has been filled in since.\<close>

definition in_step :: "MeetingTranscriptEntry list \<Rightarrow> (nat \<times> string) list \<Rightarrow> bool" where
  "in_step entries ins \<longleftrightarrow>
     (\<forall>(i, p) \<in> set ins. i < length entries \<longrightarrow> te_kind (entries ! i) = kind_settled \<longrightarrow>
        te_text (entries ! i) = [] \<or> te_text (entries ! i) = p)"

lemma heal_in_step: "in_step entries todo \<Longrightarrow> heal entries todo body ins changed = (body, ins, changed)"
  by (induction entries todo body ins changed rule: heal.induct) (auto simp: in_step_def)

definition glue :: "string \<Rightarrow> string list \<Rightarrow> string" where
  "glue body ts = (if ts = [] then body else if body \<noteq> [] then body @ [newline] @ unlines ts else unlines ts)"

lemma glue_glue: "\<forall>t \<in> set ts. t \<noteq> [] \<Longrightarrow> glue (glue body ts) us = glue body (ts @ us)"
  by (auto simp: glue_def js_join_append join_empty_iff)

lemma fold_closed:
  assumes "heal (transcriptSoFar s) (tf_inserted fld) cur (tf_inserted fld) False = (body, ins, ch)"
    and "R = ready_texts sa (if sa then {} else exhausted_of parse now s) (drop (tf_next fld) (transcriptSoFar s))"
  shows "foldTranscript parse now cur s fld sa =
    \<lparr>fr_text = glue body (spoken R),
     fr_fold = \<lparr>tf_inserted = enter (numbered (tf_next fld) R) ins, tf_next = tf_next fld + length R\<rparr>,
     fr_changed = (ch \<or> spoken R \<noteq> [])\<rparr>"
  using assms by (simp add: foldTranscript_def append_run_closed glue_def Let_def del: plan_simps)

lemma ready_texts_take:
  assumes "\<And>i. i < n \<Longrightarrow> i < length es \<and> contribution (es ! i) sa ex = Some (ts ! i)" "n = length ts"
  shows "ready_texts sa ex es = ts @ ready_texts sa ex (drop n es)"
  using assms
proof (induction ts arbitrary: es n)
  case (Cons t ts)
  from Cons.prems(1) [of 0] Cons.prems(2) obtain e es' where es: "es = e # es'" "contribution e sa ex = Some t"
    by (cases es) auto
  have "ready_texts sa ex es' = ts @ ready_texts sa ex (drop (length ts) es')"
  proof (rule Cons.IH)
    fix i assume "i < length ts"
    then show "i < length es' \<and> contribution (es' ! i) sa ex = Some (ts ! i)"
      using Cons.prems(1) [of "Suc i"] Cons.prems(2) es by auto
  qed simp
  then show ?case using es Cons.prems(2) by simp
qed simp

lemma ready_texts_nth:
  "i < length (ready_texts sa ex es) \<Longrightarrow> i < length es \<and> contribution (es ! i) sa ex = Some (ready_texts sa ex es ! i)"
proof (induction es arbitrary: i)
  case (Cons e es)
  then show ?case by (cases i) (auto split: option.splits)
qed simp

lemma length_ready_texts: "length (ready_texts sa ex es) \<le> length es"
  by (induction es) (auto split: option.splits)

lemma enter_append: "enter (xs @ ys) ins = enter ys (enter xs ins)"
  by simp

lemma set_update: "(i, t) \<in> set (AList.update k v ins) \<Longrightarrow> (i, t) = (k, v) \<or> (i, t) \<in> set ins"
  by (induction ins) (auto split: if_splits)

lemma set_enter: "(i, t) \<in> set (enter new ins) \<Longrightarrow> (i, t) \<in> set new \<or> (i, t) \<in> set ins"
proof (induction new arbitrary: ins)
  case (Cons x new)
  obtain k v where x: "x = (k, v)" by (cases x)
  with Cons.prems have "(i, t) \<in> set (enter new (AList.update k v ins))" by simp
  from Cons.IH [OF this] show ?case using x set_update [of i t k v ins] by auto
qed simp

section \<open>Later states of a capture\<close>

text \<open>
  A segment the queue has given up on failed with its attempts used up. Only two transitions take
  it out of that state: a retry that someone forces, and a text that arrives for it unasked.
\<close>

definition given_up :: "MeetingSegment \<Rightarrow> bool" where
  "given_up g \<longleftrightarrow> sg_state g = seg_failed \<and> rt_maxAttempts DEFAULT_MEETING_RETRY_POLICY \<le> int (sg_attempts g)"

definition revives_given_up :: "MeetingCaptureSession \<Rightarrow> MeetingCaptureSession \<Rightarrow> bool" where
  "revives_given_up s s' \<longleftrightarrow>
     (\<exists>k < length (cs_segments s). given_up (cs_segments s ! k)
        \<and> ((\<exists>t. markTranscribing s k t = Inr s') \<or> (\<exists>body. markDone s k body = Inr s')))"

text \<open>What one transition leaves of the segments: ranges, settled texts, gaps given up on.\<close>

definition carries :: "MeetingCaptureSession \<Rightarrow> MeetingCaptureSession \<Rightarrow> bool" where
  "carries s s' \<longleftrightarrow>
     length (cs_segments s) \<le> length (cs_segments s')
     \<and> (\<forall>k < length (cs_segments s).
          audio (cs_segments s' ! k) = audio (cs_segments s ! k)
          \<and> (sg_state (cs_segments s ! k) = seg_done \<longrightarrow> cs_segments s' ! k = cs_segments s ! k)
          \<and> (given_up (cs_segments s ! k) \<longrightarrow> given_up (cs_segments s' ! k)))
     \<and> (isTerminalCaptureStatus (cs_status s) \<longrightarrow>
          isTerminalCaptureStatus (cs_status s') \<and> cs_segments s' = cs_segments s)"

lemma carries_refl: "carries s s"
  by (simp add: carries_def)

lemma carries_trans:
  assumes "carries s m" "carries m s'"
  shows "carries s s'"
proof -
  have "audio (cs_segments s' ! k) = audio (cs_segments s ! k)
      \<and> (sg_state (cs_segments s ! k) = seg_done \<longrightarrow> cs_segments s' ! k = cs_segments s ! k)
      \<and> (given_up (cs_segments s ! k) \<longrightarrow> given_up (cs_segments s' ! k))"
    if "k < length (cs_segments s)" for k
    using assms that by (auto simp: carries_def)
  then show ?thesis using assms by (auto simp: carries_def simp del: terminal_iff)
qed

lemma carries_append:
  "cs_segments s' = cs_segments s @ fresh \<Longrightarrow> \<not> isTerminalCaptureStatus (cs_status s) \<Longrightarrow> carries s s'"
  by (simp add: carries_def nth_append)

lemma carries_seal: "\<not> isTerminalCaptureStatus (cs_status s) \<Longrightarrow> carries s (sealUnitsFromLedger s j)"
proof -
  assume open_s: "\<not> isTerminalCaptureStatus (cs_status s)"
  have "cs_segments (sealUnitsFromLedger s j) = cs_segments s
      \<or> (\<exists>runs. cs_segments (sealUnitsFromLedger s j)
            = fold (\<lambda>r segments. segments @ [toUnit (length segments) r]) runs (cs_segments s))"
    by (simp add: sealUnitsFromLedger_def Let_def) blast
  then obtain fresh where "cs_segments (sealUnitsFromLedger s j) = cs_segments s @ fresh"
    using fold_units [of _ "cs_segments s"] by (metis append_Nil2)
  then show ?thesis using open_s by (rule carries_append)
qed

lemma carries_map:
  assumes "carries s m" "cs_segments s' = map f (cs_segments m)" "\<not> isTerminalCaptureStatus (cs_status s)"
    "\<And>g. audio (f g) = audio g \<and> (sg_state g = seg_done \<or> sg_state g = seg_failed \<longrightarrow> f g = g)"
  shows "carries s s'"
proof -
  have "audio (cs_segments s' ! k) = audio (cs_segments s ! k)
      \<and> (sg_state (cs_segments s ! k) = seg_done \<longrightarrow> cs_segments s' ! k = cs_segments s ! k)
      \<and> (given_up (cs_segments s ! k) \<longrightarrow> given_up (cs_segments s' ! k))"
    if k: "k < length (cs_segments s)" for k
  proof -
    have m: "k < length (cs_segments m)" "audio (cs_segments m ! k) = audio (cs_segments s ! k)"
      "sg_state (cs_segments s ! k) = seg_done \<longrightarrow> cs_segments m ! k = cs_segments s ! k"
      "given_up (cs_segments s ! k) \<longrightarrow> given_up (cs_segments m ! k)"
      using assms(1) k by (auto simp: carries_def)
    then have "cs_segments s' ! k = f (cs_segments m ! k)" using assms(2) by simp
    with m assms(4) [of "cs_segments m ! k"] show ?thesis by (auto simp: given_up_def)
  qed
  then show ?thesis using assms(1-3) by (simp add: carries_def del: terminal_iff)
qed

lemma carries_same: "cs_segments s' = cs_segments m \<Longrightarrow> carries s m \<Longrightarrow> \<not> isTerminalCaptureStatus (cs_status s) \<Longrightarrow> carries s s'"
  by (simp add: carries_def del: terminal_iff)

lemma carries_replace:
  assumes "replaceSegment s k f = Inr s'"
    "\<And>g'. f (cs_segments s ! k) = Inr g' \<Longrightarrow> audio g' = audio (cs_segments s ! k)
       \<and> (sg_state (cs_segments s ! k) = seg_done \<longrightarrow> g' = cs_segments s ! k)
       \<and> (given_up (cs_segments s ! k) \<longrightarrow> given_up g')"
  shows "carries s s'"
proof -
  obtain g' where g: "f (cs_segments s ! k) = Inr g'" "\<not> isTerminalCaptureStatus (cs_status s)"
    "s' = s\<lparr>cs_segments := (cs_segments s)[k := g']\<rparr>"
    using assms(1) by (auto simp: replaceSegment_def split: if_splits sum.splits simp del: terminal_iff)
  have "audio (cs_segments s' ! i) = audio (cs_segments s ! i)
      \<and> (sg_state (cs_segments s ! i) = seg_done \<longrightarrow> cs_segments s' ! i = cs_segments s ! i)
      \<and> (given_up (cs_segments s ! i) \<longrightarrow> given_up (cs_segments s' ! i))"
    if "i < length (cs_segments s)" for i
    using that assms(2) [OF g(1)] g(3) by (cases "i = k") simp_all
  then show ?thesis using g(2,3) by (simp add: carries_def del: terminal_iff)
qed

lemma step_carries:
  assumes "capture_step parse s s'" "\<not> revives_given_up s s'"
  shows "carries s s'"
  using assms(1)
proof cases
  case (step_chunk i)
  then have "cs_status s = recording" "cs_segments s' = cs_segments s"
    by (auto simp: appendChunk_def split: if_splits elim: appendChunkToLedger_shape)
  then show ?thesis by (auto intro: carries_append [of s' s "[]"])
next
  case (step_segment i)
  then have recording: "cs_status s = recording" by (auto simp: appendSegment_def split: if_splits)
  show ?thesis
  proof (cases "cs_chunks s")
    case None
    then obtain g where "s' = s\<lparr>cs_segments := cs_segments s @ [g]\<rparr>"
      using appendSegment_legacy_shape [OF step_segment] by blast
    then show ?thesis using recording by (intro carries_append [of _ _ "[g]"]) auto
  next
    case (Some ledger)
    then obtain a j where a: "appendChunkToLedger s i = Inr a" "s' = sealUnitsFromLedger a j"
      using step_segment by (auto simp: appendSegment_def Let_def split: if_splits sum.splits)
    then have "cs_segments a = cs_segments s" "cs_status a = recording"
      using recording by (auto elim: appendChunkToLedger_shape)
    then have "carries s a" "carries a s'"
      using carries_append [of a s "[]"] carries_seal [of a j] recording a(2) by auto
    then show ?thesis by (rule carries_trans)
  qed
next
  case (step_seal j)
  then show ?thesis by (auto simp: sealUnit_def split: sum.splits simp del: terminal_iff intro: carries_seal)
next
  case (step_seal_due policy)
  then show ?thesis
    by (auto simp: sealDueUnits_def split: sum.splits if_splits simp del: terminal_iff intro: carries_seal carries_refl)
next
  case (step_transcribing k t)
  then have "\<not> given_up (cs_segments s ! k)"
    using assms(2) by (auto simp: revives_given_up_def markTranscribing_def replaceSegment_def split: if_splits)
  then show ?thesis using step_transcribing unfolding markTranscribing_def
    by (elim carries_replace) (auto simp: audio_def split: if_splits)
next
  case (step_done k body)
  then have "\<not> given_up (cs_segments s ! k)"
    using assms(2) by (auto simp: revives_given_up_def markDone_def replaceSegment_def split: if_splits)
  then show ?thesis using step_done unfolding markDone_def
    by (elim carries_replace) (auto simp: audio_def split: if_splits)
next
  case (step_failed k reason t)
  then show ?thesis unfolding markFailed_def
    by (elim carries_replace) (auto simp: audio_def given_up_def Let_def split: if_splits)
next
  case (step_requeue k previous t)
  then show ?thesis unfolding requeueSegment_def
    by (elim carries_replace) (auto simp: audio_def given_up_def Let_def split: if_splits)
next
  case (step_stop t)
  then have "\<not> isTerminalCaptureStatus (cs_status s)" "cs_segments s' = cs_segments (seal_all s)"
    by (auto simp: stopCapture_def Let_def split: sum.splits if_splits simp del: terminal_iff)
  then show ?thesis using carries_seal carries_same by blast
next
  case step_resume
  then have "\<not> isTerminalCaptureStatus (cs_status s)" "cs_segments s' = cs_segments s"
    by (auto simp: resumeCapture_def split: sum.splits if_splits simp del: terminal_iff)
  then show ?thesis using carries_refl carries_same by blast
next
  case (step_finalize t)
  then show ?thesis
    by (auto simp: finalizeCapture_def Let_def audio_def split: sum.splits if_splits simp del: terminal_iff
        intro!: carries_map [OF carries_seal])
next
  case (step_discard t)
  then have "\<not> isTerminalCaptureStatus (cs_status s)" "cs_segments s' = cs_segments s"
    by (auto simp: discardCapture_def split: sum.splits if_splits simp del: terminal_iff)
  then show ?thesis using carries_refl carries_same by blast
next
  case (step_recover t)
  show ?thesis
  proof (cases "isTerminalCaptureStatus (cs_status s)")
    case True
    then show ?thesis using step_recover carries_refl by (simp add: recoverCaptureSession_def del: terminal_iff)
  next
    case False
    then show ?thesis using step_recover
      by (auto simp: recoverCaptureSession_def Let_def audio_def simp del: terminal_iff
          intro!: carries_map [OF carries_seal])
  qed
qed

lemma steps_carry:
  "(\<lambda>a b. capture_step parse a b \<and> \<not> revives_given_up a b)\<^sup>*\<^sup>* s s' \<Longrightarrow> carries s s'"
  by (induction rule: rtranclp_induct) (auto intro: carries_refl carries_trans step_carries)

text \<open>
  A later state of a capture, as far as the fold can tell: the ranges stay, a settled segment
  keeps its text, and a segment the queue has given up on is still given up on.
\<close>

definition follows :: "(string \<Rightarrow> jsnum) \<Rightarrow> int \<Rightarrow> int \<Rightarrow> MeetingCaptureSession \<Rightarrow> MeetingCaptureSession \<Rightarrow> bool" where
  "follows parse now now' s s' \<longleftrightarrow>
     length (cs_segments s) \<le> length (cs_segments s')
     \<and> (\<forall>i < length (cs_segments s).
          let g = cs_segments s ! i; g' = cs_segments s' ! i
          in sg_index g' = sg_index g \<and> sg_startMs g' = sg_startMs g \<and> sg_endMs g' = sg_endMs g
             \<and> (sg_state g = seg_done \<longrightarrow> sg_state g' = seg_done \<and> sg_text g' = sg_text g)
             \<and> (sg_state g = seg_failed \<and> sg_index g \<in> exhausted_of parse now s \<longrightarrow>
                  sg_state g' = seg_failed \<and> sg_index g' \<in> exhausted_of parse now' s'))"

lemma exhausted_mem:
  "k \<in> exhausted_of parse now s \<longleftrightarrow>
   (\<exists>g \<in> set (cs_segments s). sg_index g = k
      \<and> sl_disposition (toSlot parse g (isTerminalCaptureStatus (cs_status s)) DEFAULT_MEETING_RETRY_POLICY now)
          = slot_exhausted)"
  unfolding plan_simps(5) in_indices by blast

lemma carries_follows:
  assumes c: "carries s s'" and index: "map sg_index (cs_segments s) = [0..<length (cs_segments s)]"
  shows "follows parse now now' s s'"
proof -
  have "sg_state (cs_segments s' ! i) = seg_failed \<and> sg_index (cs_segments s' ! i) \<in> exhausted_of parse now' s'"
    if i: "i < length (cs_segments s)" and failed: "sg_state (cs_segments s ! i) = seg_failed"
      and ex: "sg_index (cs_segments s ! i) \<in> exhausted_of parse now s" for i
  proof -
    have nth: "sg_index (cs_segments s ! j) = j" if "j < length (cs_segments s)" for j
      using arg_cong [OF index, of "\<lambda>xs. xs ! j"] that by simp
    obtain g where g: "g \<in> set (cs_segments s)" "sg_index g = i"
        "sl_disposition (toSlot parse g (isTerminalCaptureStatus (cs_status s)) DEFAULT_MEETING_RETRY_POLICY now) = slot_exhausted"
      using ex nth [OF i] unfolding exhausted_mem by auto
    then have g_i: "g = cs_segments s ! i" using nth by (auto simp: in_set_conv_nth)
    have i': "i < length (cs_segments s')" using c i by (simp add: carries_def)
    have "sg_state (cs_segments s' ! i) = seg_failed
        \<and> sl_disposition (toSlot parse (cs_segments s' ! i) (isTerminalCaptureStatus (cs_status s'))
            DEFAULT_MEETING_RETRY_POLICY now') = slot_exhausted"
    proof (cases "isTerminalCaptureStatus (cs_status s)")
      case True
      then show ?thesis using c failed by (simp add: carries_def toSlot_cases del: terminal_iff)
    next
      case False
      then have "given_up (cs_segments s ! i)"
        using g(3) failed by (auto simp: g_i toSlot_cases given_up_def simp del: terminal_iff split: if_splits)
      then have "given_up (cs_segments s' ! i)" using c i by (simp add: carries_def)
      then show ?thesis by (simp add: given_up_def toSlot_cases)
    qed
    then show ?thesis using i' nth_mem [OF i'] unfolding exhausted_mem by blast
  qed
  then show ?thesis using c by (auto simp: follows_def carries_def audio_def Let_def simp del: plan_simps terminal_iff)
qed

section \<open>When the drains happen does not matter\<close>

lemma follows_contribution:
  assumes "follows parse now now' s s'" "i < length (cs_segments s)"
    "contribution (transcriptSoFar s ! i) False (exhausted_of parse now s) = Some t"
  shows "i < length (cs_segments s') \<and> contribution (transcriptSoFar s' ! i) False (exhausted_of parse now' s') = Some t
    \<and> (te_kind (transcriptSoFar s' ! i) = kind_settled \<longrightarrow> te_text (transcriptSoFar s' ! i) = t)"
proof -
  have i': "i < length (cs_segments s')" using assms(1,2) by (simp add: follows_def)
  show ?thesis using assms i'
    by (auto simp: follows_def Let_def nth_transcript contribution_def split: if_splits simp del: plan_simps)
qed

lemma fold_in_step:
  assumes "in_step (transcriptSoFar s) (tf_inserted fld)"
    "R = ready_texts sa (if sa then {} else exhausted_of parse now s) (drop (tf_next fld) (transcriptSoFar s))"
  shows "foldTranscript parse now cur s fld sa =
    \<lparr>fr_text = glue cur (spoken R),
     fr_fold = \<lparr>tf_inserted = enter (numbered (tf_next fld) R) (tf_inserted fld), tf_next = tf_next fld + length R\<rparr>,
     fr_changed = (spoken R \<noteq> [])\<rparr>"
  using fold_closed [OF heal_in_step [OF assms(1)] assms(2)] by simp

text \<open>The ready texts of a later state extend those of an earlier one.\<close>

lemma follows_ready:
  assumes "follows parse now now' s s'" "n \<le> length (cs_segments s)"
    and "R = ready_texts False (exhausted_of parse now s) (drop n (transcriptSoFar s))"
  shows "ready_texts False (exhausted_of parse now' s') (drop n (transcriptSoFar s'))
       = R @ ready_texts False (exhausted_of parse now' s') (drop (n + length R) (transcriptSoFar s'))"
proof -
  have "ready_texts False (exhausted_of parse now' s') (drop n (transcriptSoFar s'))
      = R @ ready_texts False (exhausted_of parse now' s') (drop (length R) (drop n (transcriptSoFar s')))"
  proof (rule ready_texts_take [OF _ refl])
    fix i assume "i < length R"
    then have i: "i < length (drop n (transcriptSoFar s))"
        "contribution (transcriptSoFar s ! (n + i)) False (exhausted_of parse now s) = Some (R ! i)"
      using ready_texts_nth [of i False "exhausted_of parse now s" "drop n (transcriptSoFar s)"] assms(2,3)
      by (auto simp del: plan_simps)
    then have "n + i < length (cs_segments s)" by simp
    from follows_contribution [OF assms(1) this i(2)] assms(2)
    show "i < length (drop n (transcriptSoFar s'))
        \<and> contribution (drop n (transcriptSoFar s') ! i) False (exhausted_of parse now' s') = Some (R ! i)"
      by (auto simp del: plan_simps)
  qed
  then show ?thesis by (simp add: add.commute del: plan_simps)
qed

lemma heal_append:
  "heal es (xs @ ys) body ins ch = (case heal es xs body ins ch of (body', ins', ch') \<Rightarrow> heal es ys body' ins' ch')"
  by (induction es xs body ins ch rule: heal.induct) (auto split: option.splits)

section \<open>Properties of the fold\<close>

text \<open>
  C10. When the drains happen does not matter. Let a later state be reached from an earlier one,
  whose units are numbered in order, by any transitions of the capture except the retry or the
  late text of a segment the queue had given up on. Then folding a box at the earlier state and
  again at the later one gives the text, and the resume point, that folding once at the later
  state gives, as long as no gap the box already states is filled in between (that is the
  correction in place, the next property). Nothing is written twice, dropped or reordered.
\<close>

theorem fold_does_not_depend_on_timing:
  assumes steps: "(\<lambda>a b. capture_step parse a b \<and> \<not> revives_given_up a b)\<^sup>*\<^sup>* s s'"
    and index: "map sg_index (cs_segments s) = [0..<length (cs_segments s)]"
    and fld: "tf_next fld \<le> length (cs_segments s)"
      "in_step (transcriptSoFar s) (tf_inserted fld)" "in_step (transcriptSoFar s') (tf_inserted fld)"
    and fold_now: "r = foldTranscript parse now current s fld False"
  shows "fr_text (foldTranscript parse now' (fr_text r) s' (fr_fold r) False)
       = fr_text (foldTranscript parse now' current s' fld False)
    \<and> fr_fold (foldTranscript parse now' (fr_text r) s' (fr_fold r) False)
       = fr_fold (foldTranscript parse now' current s' fld False)"
proof -
  note assms = carries_follows [OF steps_carry [OF steps] index, of parse now now'] fld fold_now
  let ?n = "tf_next fld"
  define R where "R = ready_texts False (exhausted_of parse now s) (drop ?n (transcriptSoFar s))"
  define R' where "R' = ready_texts False (exhausted_of parse now' s') (drop (?n + length R) (transcriptSoFar s'))"
  have r: "r = \<lparr>fr_text = glue current (spoken R),
      fr_fold = \<lparr>tf_inserted = enter (numbered ?n R) (tf_inserted fld), tf_next = ?n + length R\<rparr>, fr_changed = (spoken R \<noteq> [])\<rparr>"
    using fold_in_step [OF assms(3), of R False parse now current] assms(5) R_def by (simp del: plan_simps)
  have both: "ready_texts False (exhausted_of parse now' s') (drop ?n (transcriptSoFar s')) = R @ R'"
    using follows_ready [OF assms(1,2) R_def] R'_def by simp
  have "te_text (transcriptSoFar s' ! i) = p"
    if "(i, p) \<in> set (numbered ?n R)" "te_kind (transcriptSoFar s' ! i) = kind_settled" for i p
  proof -
    have k: "?n \<le> i" "i - ?n < length R" "p = R ! (i - ?n)" using numbered_keys [OF that(1)] by auto
    then have "i - ?n < length (drop ?n (transcriptSoFar s))"
        "contribution (transcriptSoFar s ! i) False (exhausted_of parse now s) = Some p"
      using ready_texts_nth [of "i - ?n" False "exhausted_of parse now s" "drop ?n (transcriptSoFar s)"] R_def assms(2)
      by (auto simp del: plan_simps)
    then show ?thesis using follows_contribution [OF assms(1), of i p] that(2) by simp
  qed
  then have step: "in_step (transcriptSoFar s') (tf_inserted (fr_fold r))"
    using assms(4) set_enter [of _ _ "numbered ?n R" "tf_inserted fld"] unfolding r in_step_def
    by (fastforce simp del: plan_simps)
  have one: "foldTranscript parse now' current s' fld False =
      \<lparr>fr_text = glue current (spoken (R @ R')),
       fr_fold = \<lparr>tf_inserted = enter (numbered ?n (R @ R')) (tf_inserted fld), tf_next = ?n + length (R @ R')\<rparr>,
       fr_changed = (spoken (R @ R') \<noteq> [])\<rparr>"
    using fold_in_step [OF assms(4), of "R @ R'" False parse now' current] both by (simp del: plan_simps)
  have two: "foldTranscript parse now' (fr_text r) s' (fr_fold r) False =
      \<lparr>fr_text = glue (fr_text r) (spoken R'),
       fr_fold = \<lparr>tf_inserted = enter (numbered (?n + length R) R') (tf_inserted (fr_fold r)), tf_next = ?n + length R + length R'\<rparr>,
       fr_changed = (spoken R' \<noteq> [])\<rparr>"
    using fold_in_step [OF step, of R' False parse now' "fr_text r"] R'_def r by (simp del: plan_simps)
  show ?thesis unfolding one two by (simp add: r glue_glue numbered_append)
qed

definition demo_unit :: "nat \<Rightarrow> MeetingSegmentState \<Rightarrow> string option \<Rightarrow> MeetingSegment" where
  "demo_unit i state body =
     \<lparr>sg_index = i, sg_byteLength = 10, sg_startMs = 20000 * int i, sg_endMs = 20000 * (int i + 1), sg_chunks = None,
      sg_state = state, sg_text = body, sg_failureReason = None, sg_attempts = 4, sg_deferrals = None,
      sg_lastAttemptAt = None\<rparr>"

definition demo_early :: MeetingCaptureSession where
  "demo_early = demo_queue_session [demo_unit 0 seg_done (Some ''one''), demo_unit 1 seg_failed None, demo_unit 2 seg_pending None]"

definition demo_late :: MeetingCaptureSession where
  "demo_late = demo_queue_session [demo_unit 0 seg_done (Some ''one''), demo_unit 1 seg_failed None, demo_unit 2 seg_done (Some ''three'')]"

lemmas demo_fold_simps = demo_early_def demo_late_def demo_unit_def demo_queue_session_def

lemma demo_exhausted:
  "exhausted_of (\<lambda>_. NonFinite) 0 demo_early = {1, 2}" "exhausted_of (\<lambda>_. NonFinite) 0 demo_late = {1}"
  by (auto simp: demo_fold_simps indicesOf_def toSlot_cases DEFAULT_MEETING_RETRY_POLICY_def)

lemma demo_grows:
  "(\<lambda>a b. capture_step (\<lambda>_. NonFinite) a b \<and> \<not> revives_given_up a b)\<^sup>*\<^sup>* demo_early demo_late"
proof (rule r_into_rtranclp, rule conjI)
  have "markDone demo_early 2 ''three'' = Inr demo_late"
    by (simp add: markDone_def replaceSegment_def demo_fold_simps)
  then show "capture_step (\<lambda>_. NonFinite) demo_early demo_late" by (rule step_done)
  show "\<not> revives_given_up demo_early demo_late"
  proof
    assume "revives_given_up demo_early demo_late"
    then obtain k where k: "k < length (cs_segments demo_early)" "given_up (cs_segments demo_early ! k)"
      "(\<exists>t. markTranscribing demo_early k t = Inr demo_late) \<or> (\<exists>body. markDone demo_early k body = Inr demo_late)"
      by (auto simp: revives_given_up_def)
    then have "k = 1" by (auto simp: demo_fold_simps given_up_def less_Suc_eq)
    with k(3) show False by (auto simp: markTranscribing_def markDone_def replaceSegment_def demo_fold_simps)
  qed
qed

theorem fold_does_not_depend_on_timing_witness:
  "fr_text (foldTranscript (\<lambda>_. NonFinite) 0
       (fr_text (foldTranscript (\<lambda>_. NonFinite) 0 ''Notes'' demo_early EMPTY_TRANSCRIPT_FOLD False))
       demo_late (fr_fold (foldTranscript (\<lambda>_. NonFinite) 0 ''Notes'' demo_early EMPTY_TRANSCRIPT_FOLD False)) False)
   = fr_text (foldTranscript (\<lambda>_. NonFinite) 0 ''Notes'' demo_late EMPTY_TRANSCRIPT_FOLD False)"
proof -
  have "map sg_index (cs_segments demo_early) = [0..<length (cs_segments demo_early)]"
    by (simp add: demo_fold_simps)
  from fold_does_not_depend_on_timing [OF demo_grows this _ _ _ refl, of EMPTY_TRANSCRIPT_FOLD 0 0 "''Notes''"]
  show ?thesis by (simp add: EMPTY_TRANSCRIPT_FOLD_def in_step_def)
qed

text \<open>
  A stated gap that has since transcribed is corrected exactly where it stands: everything the
  person has before and after the marker stays as it is, and what is newly ready is appended after
  it. If the marker is no longer in the box, because the person edited or deleted it, nothing in
  the box is touched and the recovered words are not written anywhere.
\<close>

theorem stated_gap_is_corrected_in_place:
  assumes fld: "tf_inserted fld = before @ (i, marker) # after" "in_step (transcriptSoFar s) (before @ after)"
    and i: "i < length (cs_segments s)" "sg_state (cs_segments s ! i) = seg_done" "sg_text (cs_segments s ! i) = Some t"
      "t \<noteq> []" "t \<noteq> marker"
    and adds: "adds = spoken (ready_texts sa (if sa then {} else exhausted_of parse now s)
      (drop (tf_next fld) (transcriptSoFar s)))"
  shows "(\<forall>pre post. current = pre @ marker @ post \<longrightarrow>
        (\<forall>j < length pre. \<not> prefix marker (drop j current)) \<longrightarrow>
        fr_text (foldTranscript parse now current s fld sa) = glue (pre @ t @ post) adds
        \<and> fr_changed (foldTranscript parse now current s fld sa))
    \<and> (\<not> occurs_in marker current \<longrightarrow> fr_text (foldTranscript parse now current s fld sa) = glue current adds)"
proof -
  have steps: "in_step (transcriptSoFar s) before" "in_step (transcriptSoFar s) after"
    using fld(2) by (auto simp: in_step_def)
  have entry: "te_kind (transcriptSoFar s ! i) = kind_settled" "te_text (transcriptSoFar s ! i) = t"
    using i by (simp_all add: nth_transcript)
  have heal: "heal (transcriptSoFar s) (tf_inserted fld) current (tf_inserted fld) False =
      (case index_of marker current of
         None \<Rightarrow> (current, tf_inserted fld, False)
       | Some k \<Rightarrow> (take k current @ t @ drop (k + length marker) current, AList.update i t (tf_inserted fld), True))"
    using i entry by (simp add: fld(1) heal_append heal_in_step [OF steps(1)] heal_in_step [OF steps(2)] split: option.splits)
  show ?thesis
  proof (intro conjI allI impI)
    fix pre post
    assume c: "current = pre @ marker @ post" "\<forall>j < length pre. \<not> prefix marker (drop j current)"
    then have "index_of marker current = Some (length pre)" using index_of_first [of pre marker post] by simp
    with heal c have "heal (transcriptSoFar s) (tf_inserted fld) current (tf_inserted fld) False =
        (pre @ t @ post, AList.update i t (tf_inserted fld), True)" by simp
    from fold_closed [OF this refl, of parse now sa] adds
    show "fr_text (foldTranscript parse now current s fld sa) = glue (pre @ t @ post) adds"
      "fr_changed (foldTranscript parse now current s fld sa)" by (simp_all del: plan_simps)
  next
    assume "\<not> occurs_in marker current"
    with heal have "heal (transcriptSoFar s) (tf_inserted fld) current (tf_inserted fld) False =
        (current, tf_inserted fld, False)" by (simp flip: index_of_None)
    from fold_closed [OF this refl, of parse now sa] adds
    show "fr_text (foldTranscript parse now current s fld sa) = glue current adds" by (simp del: plan_simps)
  qed
qed

definition demo_healed :: MeetingCaptureSession where
  "demo_healed = demo_queue_session [demo_unit 0 seg_done (Some ''one''), demo_unit 1 seg_done (Some ''two'')]"

theorem stated_gap_is_corrected_in_place_witness:
  "fr_text (foldTranscript (\<lambda>_. NonFinite) 0 ''one [gap] mine'' demo_healed
      \<lparr>tf_inserted = [(0, ''one''), (1, ''[gap]'')], tf_next = 2\<rparr> False) = ''one two mine''"
proof -
  have "fr_text (foldTranscript (\<lambda>_. NonFinite) 0 ''one [gap] mine'' demo_healed
      \<lparr>tf_inserted = [(0, ''one''), (1, ''[gap]'')], tf_next = 2\<rparr> False) = glue (''one '' @ ''two'' @ '' mine'') []"
  proof (rule stated_gap_is_corrected_in_place [of _ "[(0, ''one'')]" 1 "''[gap]''" "[]", THEN conjunct1, rule_format,
        THEN conjunct1])
    show "\<not> prefix ''[gap]'' (drop j ''one [gap] mine'')" if "j < length ''one ''" for j
      using that by (auto simp: less_Suc_eq)
  qed (simp_all add: demo_healed_def demo_queue_session_def demo_unit_def in_step_def transcriptSoFar_def del: plan_simps)
  then show ?thesis by (simp add: glue_def)
qed

end
