(* ===== verification/DraftReconcile.thy ===== *)
theory DraftReconcile
  imports TranscriptFold
begin

text \<open>
  The round trip of \<open>packages/core/src/meetings/draftReconcile.ts\<close>: a box the fold has written,
  persisted and restored after a crash, is recognised line by line, and folding goes on from it
  as if nothing had happened.
\<close>

section \<open>Finding a run of lines\<close>

lemma find_run_from_skip:
  "run \<noteq> [] \<Longrightarrow> hd run \<notin> set ls \<Longrightarrow> find_run_from i (ls @ rest) run = find_run_from (i + length ls) rest run"
proof (induction ls arbitrary: i)
  case (Cons l ls)
  then have "take (length run) (l # ls @ rest) \<noteq> run" by (cases run) auto
  with Cons show ?case by simp
qed simp

lemma find_run_from_none: "run \<noteq> [] \<Longrightarrow> hd run \<notin> set ls \<Longrightarrow> find_run_from i ls run = None"
  using find_run_from_skip [of run ls i "[]"] by simp

lemma find_run_from_here: "run \<noteq> [] \<Longrightarrow> find_run_from i (run @ rest) run = Some i"
  by (cases run) simp_all

lemma find_run_from_ge: "find_run_from i ls run = Some k \<Longrightarrow> i \<le> k"
  by (induction i ls run rule: find_run_from.induct) (auto split: if_splits)

lemma findRun_here:
  "run \<noteq> [] \<Longrightarrow> frm \<le> length pre \<Longrightarrow> hd run \<notin> set (drop frm pre) \<Longrightarrow>
   findRun (pre @ run @ rest) run frm = Some (length pre)"
  using find_run_from_skip [of run "drop frm pre" frm "run @ rest"] find_run_from_here [of run]
  by (simp add: findRun_def)

lemma findRun_ge: "findRun ls run frm = Some k \<Longrightarrow> frm \<le> k"
  by (auto simp: findRun_def split: if_splits dest: find_run_from_ge)

lemma findRun_none: "run \<noteq> [] \<Longrightarrow> hd run \<notin> set (drop frm ls) \<Longrightarrow> findRun ls run frm = None"
  using find_run_from_none [of run "drop frm ls" frm] by (simp add: findRun_def)

text \<open>What begins a line of one of the strings an entry could have put in the box.\<close>

definition starters :: "MeetingTranscriptEntry \<Rightarrow> string set" where
  "starters e = (\<lambda>v. hd (lines_of v)) ` set (candidates e)"

lemma locate_in_none:
  "(\<And>v. v \<in> set vs \<Longrightarrow> findRun ls (lines_of v) frm = None) \<Longrightarrow> locate_in ls vs frm best = best"
  by (induction vs arbitrary: best) (auto simp: Let_def)

lemma locate_none:
  assumes "\<And>v. v \<in> starters e \<Longrightarrow> v \<notin> set (drop frm ls)"
  shows "locate ls e frm = None"
  unfolding locate_def
  by (rule locate_in_none) (use assms in \<open>auto simp: starters_def intro!: findRun_none\<close>)

text \<open>The text of an entry stands right after \<open>pre\<close>, of which the walk has to read \<open>drop frm pre\<close>.\<close>

lemma locate_here:
  assumes "hd (candidates e) = t" "frm \<le> length pre" "\<And>v. v \<in> starters e \<Longrightarrow> v \<notin> set (drop frm pre)"
  shows "locate (pre @ lines_of t @ rest) e frm
    = Some \<lparr>lc_at = length pre, lc_run = lines_of t, lc_value = t\<rparr>"
proof -
  obtain more where c: "candidates e = t # more" using assms(1) by (auto simp: candidates_def Let_def split: if_splits)
  have first: "findRun (pre @ lines_of t @ rest) (lines_of t) frm = Some (length pre)"
    using assms(2,3) c by (intro findRun_here) (auto simp: starters_def)
  have "length pre \<le> k" if "v \<in> set more" "findRun (pre @ lines_of t @ rest) (lines_of v) frm = Some k" for v k
  proof -
    have "hd (lines_of v) \<notin> set (drop frm pre)" using assms(3) c that(1) by (auto simp: starters_def)
    then have "find_run_from frm (drop frm pre @ lines_of t @ rest) (lines_of v)
        = find_run_from (length pre) (lines_of t @ rest) (lines_of v)"
      using find_run_from_skip [of "lines_of v" "drop frm pre" frm] assms(2) by simp
    then show ?thesis using that(2) assms(2) find_run_from_ge [of "length pre" _ "lines_of v" k]
      by (auto simp: findRun_def split: if_splits)
  qed
  then have "locate_in (pre @ lines_of t @ rest) more frm
      (Some \<lparr>lc_at = length pre, lc_run = lines_of t, lc_value = t\<rparr>)
      = Some \<lparr>lc_at = length pre, lc_run = lines_of t, lc_value = t\<rparr>"
    by (induction more) (auto simp: Let_def split: option.splits)
  then show ?thesis using first c by (simp add: locate_def Let_def)
qed

section \<open>The walk over a box the fold has written\<close>

text \<open>
  The box is some lines of the person's, then the texts \<open>ts\<close> of the first entries, each on its
  own lines. An entry that contributed nothing (a silent segment) has no text to find.
\<close>

definition written :: "string list \<Rightarrow> string list \<Rightarrow> string list" where
  "written notes ts = notes @ concat (map lines_of (spoken ts))"

definition walked :: "string list \<Rightarrow> string list \<Rightarrow> nat \<Rightarrow> reconcile_state \<Rightarrow> bool" where
  "walked notes ts k w \<longleftrightarrow>
     rw_lines w = written notes ts \<and> rw_matched w = numbered 0 (take k ts)
     \<and> (if spoken (take k ts) = [] then rw_cursor w = 0 \<and> rw_frontier w = -1
        else rw_cursor w = length (written notes (take k ts)) \<and> int k > rw_frontier w
          \<and> rw_frontier w \<ge> 0 \<and> (\<forall>i < k. rw_frontier w < int i \<longrightarrow> ts ! i = []))"

text \<open>An entry of the session against the text it has contributed.\<close>

definition entry_says :: "MeetingTranscriptEntry \<Rightarrow> nat \<Rightarrow> string \<Rightarrow> bool" where
  "entry_says e i t \<longleftrightarrow>
     te_index e = i \<and> (te_kind e = kind_settled \<and> te_text e = t
       \<or> te_kind e = kind_gap \<and> te_text e = t \<and> t = formatCaptureGap (te_startMs e) (te_endMs e))"

lemma entry_candidates: "entry_says e i t \<Longrightarrow> t \<noteq> [] \<Longrightarrow> hd (candidates e) = t"
  by (auto simp: entry_says_def candidates_def Let_def)

lemma update_new: "k \<notin> fst ` set xs \<Longrightarrow> AList.update k v xs = xs @ [(k, v)]"
  by (induction xs) auto

lemma update_numbered: "length ts = k \<Longrightarrow> AList.update k t (numbered 0 ts) = numbered 0 ts @ [(k, t)]"
  using numbered_keys [of _ _ 0 ts] by (intro update_new) force

lemma map_of_numbered:
  "map_of (numbered n ts) i = (if n \<le> i \<and> i < n + length ts \<and> ts ! (i - n) \<noteq> [] then Some (ts ! (i - n)) else None)"
proof (induction ts arbitrary: n)
  case (Cons t ts)
  show ?case
  proof (cases "i = n")
    case True
    then show ?thesis using Cons.IH [of "Suc n"] by simp
  next
    case False
    then show ?thesis using Cons.IH [of "Suc n"] by (cases "n \<le> i") (auto simp: nth_Cons')
  qed
qed simp

lemma written_take:
  assumes "k < length ts" "ts ! k \<noteq> []"
  shows "written notes ts = written notes (take k ts) @ lines_of (ts ! k)
     @ concat (map lines_of (spoken (drop (Suc k) ts)))"
proof -
  have "ts = take k ts @ ts ! k # drop (Suc k) ts" using assms(1) by (simp add: id_take_nth_drop)
  then have "spoken ts = spoken (take k ts) @ ts ! k # spoken (drop (Suc k) ts)"
    using assms(2) by (metis (mono_tags, lifting) filter.simps(2) filter_append)
  then show ?thesis by (simp add: written_def)
qed

lemma reconcile_entry_plain:
  assumes "locate (rw_lines w) e (rw_cursor w) = Some l"
    and plain: "(te_kind e = kind_settled \<and> te_text e \<noteq> [] \<and> te_text e \<noteq> lc_value l) = False"
  shows "reconcile_entry e w = \<lparr>rw_lines = rw_lines w, rw_consumed = rw_consumed w @ [lc_at l..<lc_at l + length (lc_run l)],
      rw_matched = AList.update (te_index e) (lc_value l) (rw_matched w), rw_cursor = lc_at l + length (lc_run l),
      rw_frontier = int (te_index e)\<rparr>"
  unfolding reconcile_entry_def assms(1) Let_def option.case plain if_False by (rule refl)

lemma reconcile_says:
  assumes w: "walked notes ts k w" and k: "k < length ts" and says: "entry_says e k (ts ! k)"
    and strange: "\<And>v. v \<in> starters e \<Longrightarrow> v \<notin> set notes"
    and silent: "ts ! k = [] \<Longrightarrow> \<forall>v \<in> starters e. v \<notin> set (written notes ts)"
  shows "walked notes ts (Suc k) (reconcile_entry e w)"
proof (cases "ts ! k = []")
  case True
  have "v \<notin> set (drop (rw_cursor w) (rw_lines w))" if "v \<in> starters e" for v
    using silent [OF True] that w in_set_dropD [of v "rw_cursor w" "rw_lines w"] by (auto simp: walked_def)
  then have "reconcile_entry e w = w" using locate_none by (simp add: reconcile_entry_def)
  then show ?thesis using w True k
    by (auto simp: walked_def written_def take_Suc_conv_app_nth numbered_append less_Suc_eq split: if_splits)
next
  case False
  let ?t = "ts ! k" and ?pre = "written notes (take k ts)"
  have drop: "set (drop (rw_cursor w) ?pre) \<subseteq> set notes"
    using w by (auto simp: walked_def written_def split: if_splits)
  have frm: "rw_cursor w \<le> length ?pre" using w by (auto simp: walked_def split: if_splits)
  have "rw_lines w = ?pre @ lines_of ?t @ concat (map lines_of (spoken (drop (Suc k) ts)))"
    using w written_take [OF k False] by (simp add: walked_def)
  then have at: "locate (rw_lines w) e (rw_cursor w) = Some \<lparr>lc_at = length ?pre, lc_run = lines_of ?t, lc_value = ?t\<rparr>"
    using locate_here [OF entry_candidates [OF says False] frm] strange drop by (metis subsetD)
  have "(te_kind e = kind_settled \<and> te_text e \<noteq> [] \<and> te_text e \<noteq> ?t) = False" using says by (auto simp: entry_says_def)
  moreover have "te_index e = k" using says by (simp add: entry_says_def)
  ultimately have e: "reconcile_entry e w = \<lparr>rw_lines = rw_lines w,
      rw_consumed = rw_consumed w @ [length ?pre..<length ?pre + length (lines_of ?t)],
      rw_matched = AList.update k ?t (rw_matched w), rw_cursor = length ?pre + length (lines_of ?t), rw_frontier = int k\<rparr>"
    using reconcile_entry_plain [OF at] by simp
  have more: "written notes (take (Suc k) ts) = ?pre @ lines_of ?t" "spoken (take (Suc k) ts) \<noteq> []"
    using k False by (simp_all add: take_Suc_conv_app_nth written_def)
  have "AList.update k ?t (rw_matched w) = numbered 0 (take (Suc k) ts)"
    using w k False update_numbered [of "take k ts" k ?t] by (simp add: walked_def take_Suc_conv_app_nth numbered_append)
  then show ?thesis using w e more by (simp add: walked_def)
qed

lemma walk_says:
  assumes "k \<le> length ts" "k \<le> length es"
    and "\<And>i. i < k \<Longrightarrow> entry_says (es ! i) i (ts ! i)"
    and "\<And>i v. i < k \<Longrightarrow> v \<in> starters (es ! i) \<Longrightarrow> v \<notin> set notes"
    and "\<And>i v. i < k \<Longrightarrow> ts ! i = [] \<Longrightarrow> v \<in> starters (es ! i) \<Longrightarrow> v \<notin> set (written notes ts)"
  shows "walked notes ts k (fold reconcile_entry (take k es)
     \<lparr>rw_lines = written notes ts, rw_consumed = [], rw_matched = [], rw_cursor = 0, rw_frontier = -1\<rparr>)"
  using assms
proof (induction k)
  case 0
  then show ?case by (simp add: walked_def)
next
  case (Suc k)
  let ?w = "fold reconcile_entry (take k es)
     \<lparr>rw_lines = written notes ts, rw_consumed = [], rw_matched = [], rw_cursor = 0, rw_frontier = -1\<rparr>"
  have "walked notes ts k ?w"
  proof (rule Suc.IH)
    fix i v assume "i < k"
    then have i: "i < Suc k" by simp
    show "entry_says (es ! i) i (ts ! i)" by (rule Suc.prems(3) [OF i])
    show "v \<notin> set notes" if "v \<in> starters (es ! i)" by (rule Suc.prems(4) [OF i that])
    show "v \<notin> set (written notes ts)" if "ts ! i = []" "v \<in> starters (es ! i)" by (rule Suc.prems(5) [OF i that])
  qed (use Suc.prems(1,2) in simp_all)
  then have "walked notes ts (Suc k) (reconcile_entry (es ! k) ?w)"
  proof (rule reconcile_says)
    show "entry_says (es ! k) k (ts ! k)" by (rule Suc.prems(3)) simp
    show "v \<notin> set notes" if "v \<in> starters (es ! k)" for v by (rule Suc.prems(4) [OF lessI that])
    show "\<forall>v \<in> starters (es ! k). v \<notin> set (written notes ts)" if "ts ! k = []"
      using Suc.prems(5) [OF lessI that] by blast
  qed (use Suc.prems(1) in simp)
  then show ?case using Suc.prems(2) by (simp add: take_Suc_conv_app_nth)
qed

text \<open>The entries after the written ones are not in the box: the walk is at its end.\<close>

lemma walk_rest:
  assumes "walked notes ts (length ts) w" "\<And>e v. e \<in> set es \<Longrightarrow> v \<in> starters e \<Longrightarrow> v \<notin> set notes"
  shows "fold reconcile_entry es w = w"
  using assms(2)
proof (induction es)
  case (Cons e es)
  have "v \<notin> set (drop (rw_cursor w) (rw_lines w))" if "v \<in> starters e" for v
    using assms(1) Cons.prems that by (auto simp: walked_def written_def split: if_splits)
  then have "reconcile_entry e w = w" using locate_none by (simp add: reconcile_entry_def)
  moreover have "fold reconcile_entry es w = w" by (rule Cons.IH) (use Cons.prems in auto)
  ultimately show ?case by simp
qed simp

section \<open>The round trip\<close>

definition note_lines :: "string \<Rightarrow> string list" where
  "note_lines notes = (if notes = [] then [] else lines_of notes)"

lemma glue_lines: "(if glue notes ts = [] then [] else lines_of (glue notes ts)) = note_lines notes @ concat (map lines_of ts)"
  if "\<forall>t \<in> set ts. t \<noteq> []"
  using that split_append_sep [of newline "notes" "unlines ts"] split_join [of ts newline]
  by (auto simp: glue_def note_lines_def join_empty_iff)

lemma enter_new: "distinct (map fst (ins @ new)) \<Longrightarrow> enter new ins = ins @ new"
proof (induction new arbitrary: ins)
  case (Cons x new)
  then show ?case by (cases x) (auto simp: update_new)
qed simp

lemma numbered_distinct: "distinct (map fst (numbered n ts))"
proof (induction ts arbitrary: n)
  case (Cons t ts)
  then show ?case using numbered_keys [of n _ "Suc n" ts] by force
qed simp

lemma unlines_box: "unlines (if box = [] then [] else lines_of box) = box"
  by simp

text \<open>
  The box at the moment of the crash is what the fold wrote under the person's own notes; the
  session found after it was reached by transitions of the capture, none of which revived a
  segment the queue had given up on, and its units are numbered in order. The notes hold no line that starts
  a segment's text or gap marker, and the marker of a silent segment is in no line of the box:
  the limits the code states.
\<close>

definition restorable ::
  "(string \<Rightarrow> jsnum) \<Rightarrow> string \<Rightarrow> string \<Rightarrow> MeetingCaptureSession \<Rightarrow> MeetingCaptureSession \<Rightarrow> bool"
where
  "restorable parse own box s s' \<longleftrightarrow>
     (\<lambda>a b. capture_step parse a b \<and> \<not> revives_given_up a b)\<^sup>*\<^sup>* s s' \<and> map sg_index (cs_segments s') = [0..<length (cs_segments s')]
     \<and> (\<forall>e \<in> set (transcriptSoFar s'). starters e \<inter> set (note_lines own) = {})
     \<and> (\<forall>e \<in> set (transcriptSoFar s'). te_kind e = kind_settled \<and> te_text e = [] \<longrightarrow>
           starters e \<inter> set (lines_of box) = {})"

lemma restored:
  assumes R: "R = ready_texts False (exhausted_of parse now s) (transcriptSoFar s)"
    and ok: "restorable parse own (glue own (spoken R)) s s'"
  obtains m where "m \<le> length R" "\<forall>i < length R. m \<le> i \<longrightarrow> R ! i = []"
    "\<And>i. i < length R \<Longrightarrow> entry_says (transcriptSoFar s' ! i) i (R ! i)" "length R \<le> length (cs_segments s')"
    "md_text (reconcileCaptureDraft (glue own (spoken R)) s') = glue own (spoken R)"
    "beginTranscriptFold (reconcileCaptureDraft (glue own (spoken R)) s') = \<lparr>tf_inserted = numbered 0 R, tf_next = m\<rparr>"
    "md_userOwned (reconcileCaptureDraft (glue own (spoken R)) s') = filter (\<lambda>i. R ! i = []) [0..<m]"
proof -
  let ?es = "transcriptSoFar s'" and ?box = "glue own (spoken R)" and ?notes = "note_lines own"
  have carry: "carries s s'" and index: "map sg_index (cs_segments s') = [0..<length (cs_segments s')]"
    and strange: "\<forall>e \<in> set ?es. starters e \<inter> set ?notes = {}"
    and silent: "\<forall>e \<in> set ?es. te_kind e = kind_settled \<and> te_text e = [] \<longrightarrow> starters e \<inter> set (lines_of ?box) = {}"
    using ok steps_carry by (auto simp: restorable_def simp del: plan_simps)
  have "sg_index (cs_segments s ! i) = i" if "i < length (cs_segments s)" for i
  proof -
    have "i < length (cs_segments s')" "sg_index (cs_segments s' ! i) = sg_index (cs_segments s ! i)"
      using carry that by (auto simp: carries_def audio_def)
    then show ?thesis using arg_cong [OF index, of "\<lambda>xs. xs ! i"] by simp
  qed
  then have "map sg_index (cs_segments s) = [0..<length (cs_segments s)]" by (intro nth_equalityI) simp_all
  then have fol: "follows parse now now' s s'" using carries_follows carry by blast
  have n: "length R \<le> length (cs_segments s)"
    using length_ready_texts [of False "exhausted_of parse now s" "transcriptSoFar s"] R by simp
  then have n': "length R \<le> length (cs_segments s')" using fol by (simp add: follows_def)
  have says: "entry_says (?es ! i) i (R ! i)" if "i < length R" for i
  proof -
    have "i < length (cs_segments s)"
        "contribution (transcriptSoFar s ! i) False (exhausted_of parse now s) = Some (R ! i)"
      using ready_texts_nth [of i False "exhausted_of parse now s" "transcriptSoFar s"] that R by (simp_all del: plan_simps)
    from follows_contribution [OF fol this] have c: "i < length (cs_segments s')"
      "contribution (?es ! i) False (exhausted_of parse now' s') = Some (R ! i)" by (simp_all del: plan_simps)
    moreover have "sg_index (cs_segments s' ! i) = i"
      using arg_cong [OF index, of "\<lambda>xs. xs ! i"] c(1) by simp
    ultimately show ?thesis
      by (auto simp: entry_says_def contribution_def nth_transcript split: if_splits simp del: plan_simps)
  qed
  have lines: "(if ?box \<noteq> [] then lines_of ?box else []) = written ?notes R"
    using glue_lines [of "spoken R" own] by (auto simp: written_def)
  then have quiet: "v \<notin> set (written ?notes R)" if "i < length R" "R ! i = []" "v \<in> starters (?es ! i)" for i v
  proof -
    have "?es ! i \<in> set ?es" using that(1) n' by (intro nth_mem) simp
    moreover have "te_kind (?es ! i) = kind_settled \<and> te_text (?es ! i) = []"
      using says [OF that(1)] that(2) by (auto simp: entry_says_def)
    ultimately have "starters (?es ! i) \<inter> set (lines_of ?box) = {}" using silent by blast
    then show ?thesis using that(3) lines by (auto split: if_splits)
  qed
  define w where "w = fold reconcile_entry (take (length R) ?es)
     \<lparr>rw_lines = written ?notes R, rw_consumed = [], rw_matched = [], rw_cursor = 0, rw_frontier = -1\<rparr>"
  have walked: "walked ?notes R (length R) w"
    unfolding w_def using n' says strange quiet by (intro walk_says) (auto simp del: plan_simps)
  have "fold reconcile_entry (drop (length R) ?es) w = w"
    using strange by (intro walk_rest [OF walked]) (auto dest: in_set_dropD)
  then have all: "fold reconcile_entry ?es
     \<lparr>rw_lines = written ?notes R, rw_consumed = [], rw_matched = [], rw_cursor = 0, rw_frontier = -1\<rparr> = w"
    using w_def by (metis append_take_drop_id fold_append comp_apply)
  define m where "m = nat (rw_frontier w + 1)"
  have m: "m \<le> length R \<and> (\<forall>i < length R. m \<le> i \<longrightarrow> R ! i = [])" "rw_lines w = written ?notes R" "rw_matched w = numbered 0 R"
  proof -
    show "rw_lines w = written ?notes R" "rw_matched w = numbered 0 R" using walked by (simp_all add: walked_def)
    show "m \<le> length R \<and> (\<forall>i < length R. m \<le> i \<longrightarrow> R ! i = [])"
    proof (cases "spoken R = []")
      case True
      then have "\<forall>t \<in> set R. t = []" by (auto simp: filter_empty_conv)
      moreover have "m = 0" using True walked by (simp add: walked_def m_def)
      ultimately show ?thesis by simp
    next
      case False
      then have f: "0 \<le> rw_frontier w" "rw_frontier w < int (length R)" "\<forall>i < length R. rw_frontier w < int i \<longrightarrow> R ! i = []"
        using walked by (simp_all add: walked_def)
      then have "rw_frontier w < int i" if "m \<le> i" for i using that unfolding m_def by linarith
      with f show ?thesis unfolding m_def by auto
    qed
  qed
  have "map_of (numbered 0 R) i = None \<longleftrightarrow> R ! i = []" if "i < m" for i
    using that m(1) by (simp add: map_of_numbered)
  then have own: "filter (\<lambda>i. map_of (numbered 0 R) i = None) [0..<m] = filter (\<lambda>i. R ! i = []) [0..<m]"
    by (intro filter_cong) auto
  have rec: "reconcileCaptureDraft ?box s' = \<lparr>md_text = unlines (rw_lines w), md_accounted = [0..<m], md_matched = rw_matched w,
      md_userOwned = filter (\<lambda>i. map_of (rw_matched w) i = None) [0..<m], md_next = m,
      md_retained = retain (rw_lines w) (rw_consumed w)\<rparr>"
    unfolding reconcileCaptureDraft_def Let_def lines all m_def by (rule refl)
  moreover have "unlines (rw_lines w) = ?box" using lines m(2) by (metis join_split js_join.simps(1))
  ultimately show thesis
    using that [of m] m says n' own by (simp add: beginTranscriptFold_def)
qed

section \<open>Properties\<close>

text \<open>
  C11. Kill and reopen: a box written by the fold and restored after a crash is recognised for what
  it is, under four conditions: the session found was reached from the one the box was written at
  by transitions of the capture, none of which retried or settled a segment the queue had given
  up on; its units are numbered in order; no line of the person's own notes is one that starts a
  segment's text or gap marker; and no line of the box is the marker of a segment that settled
  silent. Then reconciling the box changes nothing in it, claims nothing for the person but
  silent segments, and folding on from the reconciliation gives exactly what folding on from the
  lost fold state would have given, text and resume point alike, at that state and at submit.
\<close>

theorem restored_box_folds_on:
  assumes r: "r = foldTranscript parse now own s EMPTY_TRANSCRIPT_FOLD False"
    and ok: "restorable parse own (fr_text r) s s'"
    and rec: "rec = reconcileCaptureDraft (fr_text r) s'"
  shows "md_text rec = fr_text r
    \<and> (\<forall>i \<in> set (md_userOwned rec). te_kind (transcriptSoFar s' ! i) = kind_settled \<and> te_text (transcriptSoFar s' ! i) = [])
    \<and> fr_text (foldTranscript parse now' (md_text rec) s' (beginTranscriptFold rec) settleAll)
        = fr_text (foldTranscript parse now' (fr_text r) s' (fr_fold r) settleAll)
    \<and> fr_fold (foldTranscript parse now' (md_text rec) s' (beginTranscriptFold rec) settleAll)
        = fr_fold (foldTranscript parse now' (fr_text r) s' (fr_fold r) settleAll)"
proof -
  let ?es = "transcriptSoFar s'"
  define R where "R = ready_texts False (exhausted_of parse now s) (transcriptSoFar s)"
  have "enter (numbered 0 R) [] = numbered 0 R" using enter_new [of "[]" "numbered 0 R"] numbered_distinct by simp
  then have r': "fr_text r = glue own (spoken R)" "fr_fold r = \<lparr>tf_inserted = numbered 0 R, tf_next = length R\<rparr>"
    using fold_in_step [of s EMPTY_TRANSCRIPT_FOLD R False parse now own] r R_def
    by (simp_all add: EMPTY_TRANSCRIPT_FOLD_def in_step_def del: plan_simps)
  obtain m where m: "m \<le> length R" "\<forall>i < length R. m \<le> i \<longrightarrow> R ! i = []"
    "\<And>i. i < length R \<Longrightarrow> entry_says (?es ! i) i (R ! i)" "length R \<le> length (cs_segments s')"
    "md_text rec = fr_text r" "beginTranscriptFold rec = \<lparr>tf_inserted = numbered 0 R, tf_next = m\<rparr>"
    "md_userOwned rec = filter (\<lambda>i. R ! i = []) [0..<m]"
    using restored [OF R_def ok [unfolded r'(1)]] unfolding rec r'(1) by metis
  have step: "in_step ?es (numbered 0 R)"
  proof -
    have "te_text (?es ! i) = p" if "(i, p) \<in> set (numbered 0 R)" "te_kind (?es ! i) = kind_settled" for i p
      using numbered_keys [OF that(1)] m(3) [of i] that(2) by (auto simp: entry_says_def)
    then show ?thesis unfolding in_step_def by blast
  qed
  define ex where "ex = (if settleAll then {} else exhausted_of parse now' s')"
  have "ready_texts settleAll ex (drop m ?es) = drop m R @ ready_texts settleAll ex (drop (length (drop m R)) (drop m ?es))"
  proof (rule ready_texts_take [OF _ refl])
    fix i assume i: "i < length (drop m R)"
    then have mi: "m + i < length R" by simp
    then have "R ! (m + i) = []" "entry_says (?es ! (m + i)) (m + i) (R ! (m + i))"
      using m(2) m(3) [OF mi] by simp_all
    then show "i < length (drop m ?es) \<and> contribution (drop m ?es ! i) settleAll ex = Some (drop m R ! i)"
      using i m(1,4) by (auto simp: entry_says_def contribution_def)
  qed
  then have split: "ready_texts settleAll ex (drop m ?es) = drop m R @ ready_texts settleAll ex (drop (length R) ?es)"
    using m(1) by simp
  have none: "drop m R ! i = []" if "i < length (drop m R)" for i using that m(2) by simp
  then have "\<forall>t \<in> set (drop m R). t = []" unfolding all_set_conv_all_nth by blast
  then have quiet: "spoken (drop m R) = []" by (simp add: filter_empty_conv)
  have quiet': "numbered m (drop m R) = []"
  proof (rule ccontr)
    assume "numbered m (drop m R) \<noteq> []"
    then obtain i t where "(i, t) \<in> set (numbered m (drop m R))" by (cases "numbered m (drop m R)") auto
    from numbered_keys [OF this] none [of "i - m"] show False by auto
  qed
  let ?X = "ready_texts settleAll ex (drop (length R) ?es)"
  have restored: "foldTranscript parse now' (fr_text r) s' \<lparr>tf_inserted = numbered 0 R, tf_next = m\<rparr> settleAll =
     \<lparr>fr_text = glue (fr_text r) (spoken (drop m R @ ?X)),
      fr_fold = \<lparr>tf_inserted = enter (numbered m (drop m R @ ?X)) (numbered 0 R), tf_next = m + length (drop m R @ ?X)\<rparr>,
      fr_changed = (spoken (drop m R @ ?X) \<noteq> [])\<rparr>"
    using fold_in_step [of s' "\<lparr>tf_inserted = numbered 0 R, tf_next = m\<rparr>" "drop m R @ ?X" settleAll parse now' "fr_text r"]
      step split ex_def by (simp del: plan_simps)
  have lost: "foldTranscript parse now' (fr_text r) s' (fr_fold r) settleAll =
     \<lparr>fr_text = glue (fr_text r) (spoken ?X),
      fr_fold = \<lparr>tf_inserted = enter (numbered (length R) ?X) (numbered 0 R), tf_next = length R + length ?X\<rparr>,
      fr_changed = (spoken ?X \<noteq> [])\<rparr>"
    using fold_in_step [of s' "fr_fold r" ?X settleAll parse now' "fr_text r"] step r'(2) ex_def by (simp del: plan_simps)
  have "te_kind (?es ! i) = kind_settled \<and> te_text (?es ! i) = []" if "i \<in> set (md_userOwned rec)" for i
    using that m(1,7) m(3) [of i] by (auto simp: entry_says_def)
  moreover have "m + length (drop m R @ ?X) = length R + length ?X" "numbered m (drop m R @ ?X) = numbered (length R) ?X"
    using m(1) quiet' by (simp_all add: numbered_append)
  ultimately show ?thesis
    unfolding m(5,6) restored lost using quiet by simp
qed

lemma demo_restorable:
  "restorable (\<lambda>_. NonFinite) ''Notes''
     (fr_text (foldTranscript (\<lambda>_. NonFinite) 0 ''Notes'' demo_early EMPTY_TRANSCRIPT_FOLD False)) demo_early demo_late"
proof -
  have "\<forall>e \<in> set (transcriptSoFar demo_late). starters e \<inter> set (note_lines ''Notes'') = {}"
    by code_simp
  then show ?thesis
    using demo_grows by (simp add: restorable_def demo_fold_simps transcriptSoFar_def del: plan_simps)
qed

theorem restored_box_folds_on_witness:
  "md_text (reconcileCaptureDraft
       (fr_text (foldTranscript (\<lambda>_. NonFinite) 0 ''Notes'' demo_early EMPTY_TRANSCRIPT_FOLD False)) demo_late)
   = fr_text (foldTranscript (\<lambda>_. NonFinite) 0 ''Notes'' demo_early EMPTY_TRANSCRIPT_FOLD False)"
  using restored_box_folds_on [OF refl demo_restorable refl, of 0 True] by blast

end
