(* ===== verification/CaptureReading.thy ===== *)
theory CaptureReading
  imports CaptureSafety TranscriptFold
begin

text \<open>
  The transcript a meeting ends with, what is offered back after a crash and what the retention
  sweep may delete: the parts of \<open>Transcript\<close> and \<open>TranscriptFold\<close> read against the
  transitions of \<open>CaptureSession\<close>.
\<close>

section \<open>The closed record\<close>

definition final_text :: "MeetingSegment \<Rightarrow> string" where
  "final_text g =
     (if sg_state g = seg_done then (case sg_text g of None \<Rightarrow> [] | Some t \<Rightarrow> t)
      else formatCaptureGap (sg_startMs g) (sg_endMs g))"

lemma settled_contribution: "contribution (toEntry g) True ex = Some (final_text g)"
  by (simp add: contribution_def final_text_def)

lemma settled_texts: "ready_texts True ex (map toEntry gs) = map final_text gs"
  by (induction gs) (simp_all add: settled_contribution)

lemma nothing_open_seals_nothing: "openChunks s = [] \<Longrightarrow> seal_all s = s"
  by (simp add: sealUnitsFromLedger_def Let_def)

lemma finalized_segments:
  assumes "finalizeCapture s t = Inr s'"
  obtains f where "cs_segments s' = map f (cs_segments (seal_all s))"
    "\<And>g. final_text (f g) = final_text g \<and> sg_state (f g) \<in> {seg_done, seg_failed}"
proof -
  let ?f = "\<lambda>segment. if sg_state segment = seg_pending \<or> sg_state segment = seg_transcribing
      then segment\<lparr>sg_state := seg_failed, sg_failureReason := Some MEETING_UNFINISHED_REASON, sg_lastAttemptAt := Some t\<rparr>
      else segment"
  have "cs_segments s' = map ?f (cs_segments (seal_all s))"
    using assms by (auto simp: finalizeCapture_def Let_def split: sum.splits)
  moreover have "final_text (?f g) = final_text g \<and> sg_state (?f g) \<in> {seg_done, seg_failed}" for g
    by (cases "sg_state g") (simp_all add: final_text_def)
  ultimately show thesis using that by blast
qed

lemma transcript_of_settled:
  assumes "\<forall>g \<in> set (cs_segments s). sg_state g \<in> {seg_done, seg_failed}"
  shows "transcriptText s None False = unlines (spoken (map final_text (cs_segments s)))"
proof -
  have "filter (\<lambda>entry. if te_kind entry = kind_gap then \<not> False else te_kind entry = kind_settled) (map toEntry (cs_segments s))
      = map toEntry (cs_segments s)"
    using assms by (intro filter_True) auto
  moreover have texts: "map te_text (map toEntry (cs_segments s)) = map final_text (cs_segments s)"
    using assms by (auto simp: final_text_def)
  ultimately show ?thesis
    unfolding transcriptText_def transcriptSoFar_def option.case by (simp only: texts length_greater_0_conv)
qed

section \<open>Lemmas on what is offered back\<close>

lemma bytes_positive: "ledger_ok k e cs \<Longrightarrow> cs \<noteq> [] \<Longrightarrow> 0 < bytes_of cs"
proof (induction k e cs rule: ledger_ok.induct)
  case (2 k e c cs)
  then show ?case by (cases cs) auto
qed simp

lemma captured_positive:
  assumes "session_ok parse s" "captureChunks s \<noteq> []"
  shows "0 < capturedByteLength s"
  using session_ledger(1) [OF assms(1)] bytes_positive assms(2)
  by (simp add: capturedByteLength_def capturedChunkByteLength_def)

lemma summary_counts:
  "fold (\<lambda>segment (settled, gaps, unsettled).
      if sg_state segment = seg_done then (settled + 1, gaps, unsettled)
      else if sg_state segment = seg_failed then (settled, gaps + 1, unsettled)
      else (settled, gaps, unsettled + 1)) gs (a, b, c)
   = (a + length (filter (\<lambda>g. sg_state g = seg_done) gs), b + length (filter (\<lambda>g. sg_state g = seg_failed) gs),
      c + length (filter (\<lambda>g. sg_state g = seg_pending \<or> sg_state g = seg_transcribing) gs))"
proof (induction gs arbitrary: a b c)
  case (Cons g gs)
  then show ?case by (cases "sg_state g") simp_all
qed simp

lemma expired_mem:
  "i \<in> set (expiredCaptureIds parse captures now days exclude) \<longleftrightarrow>
   i \<notin> set exclude \<and> (\<exists>c \<in> set captures. rc_id c = i
     \<and> (\<exists>t. parse (rc_at c) = Fin t \<and> t < of_int (meetingRetentionCutoffMs now days)))"
proof -
  have "(case parse a of NonFinite \<Rightarrow> False | Fin t \<Rightarrow> t < of_int c) \<longleftrightarrow> (\<exists>t. parse a = Fin t \<and> t < of_int c)" for a c
    by (cases "parse a") simp_all
  then show ?thesis by (auto simp: expiredCaptureIds_def Let_def)
qed

lemma segment_kinds:
  "length (filter (\<lambda>g. sg_state g = seg_done) gs) + length (filter (\<lambda>g. sg_state g = seg_failed) gs)
     + length (filter (\<lambda>g. sg_state g = seg_pending \<or> sg_state g = seg_transcribing) gs) = length gs"
proof (induction gs)
  case (Cons g gs)
  then show ?case by (cases "sg_state g") simp_all
qed simp

section \<open>Properties\<close>

text \<open>
  What is posted is what the closed record says. The text a meeting is submitted with from an
  empty box is, word for word, the transcript of the capture after \<open>finalizeCapture\<close>: every
  segment that settled with its text, every other one, in flight or failed, as its gap marker, in
  capture order and with nothing else; the segments reported as stated are exactly those that were
  still unsettled, and the closed record has none left.
\<close>

theorem submitted_text_is_the_closed_transcript:
  assumes "openChunks s = []" "finalizeCapture s t = Inr s'"
  shows "fr_text (fst (settleTranscriptForSubmit parse now [] (Some s) EMPTY_TRANSCRIPT_FOLD)) = transcriptText s' None False
    \<and> transcriptText s' None False = unlines (spoken (map final_text (cs_segments s)))
    \<and> snd (settleTranscriptForSubmit parse now [] (Some s) EMPTY_TRANSCRIPT_FOLD) = map sg_index (unsettledSegments s)
    \<and> unsettledSegments s' = []"
proof -
  obtain f where f: "cs_segments s' = map f (cs_segments s)"
      "\<And>g. final_text (f g) = final_text g \<and> sg_state (f g) \<in> {seg_done, seg_failed}"
    using finalized_segments [OF assms(2)] nothing_open_seals_nothing [OF assms(1)] by metis
  then have settled: "\<forall>g \<in> set (cs_segments s'). sg_state g \<in> {seg_done, seg_failed}" by fastforce
  have closed: "transcriptText s' None False = unlines (spoken (map final_text (cs_segments s)))"
    using transcript_of_settled [OF settled] f by (simp add: comp_def)
  have empty: "unsettledSegments s' = []"
    using settled by (force simp: unsettledSegments_def filter_empty_conv)
  have "fr_text (foldTranscript parse now [] s EMPTY_TRANSCRIPT_FOLD True) = glue [] (spoken (map final_text (cs_segments s)))"
    using fold_in_step [of s EMPTY_TRANSCRIPT_FOLD _ True parse now "[]", OF _ refl]
    by (simp add: EMPTY_TRANSCRIPT_FOLD_def in_step_def transcriptSoFar_def settled_texts)
  then show ?thesis using closed empty by (simp add: settleTranscriptForSubmit_def glue_def)
qed

theorem submitted_text_is_the_closed_transcript_witness:
  "\<exists>s'. finalizeCapture demo_late ''t2'' = Inr s'
     \<and> fr_text (fst (settleTranscriptForSubmit (\<lambda>_. NonFinite) 0 [] (Some demo_late) EMPTY_TRANSCRIPT_FOLD))
       = transcriptText s' None False"
proof -
  have "openChunks demo_late = []" by code_simp
  moreover obtain s' where "finalizeCapture demo_late ''t2'' = Inr s'"
    by (simp add: finalizeCapture_def demo_late_def demo_queue_session_def requireOpen_def Let_def)
  ultimately show ?thesis using submitted_text_is_the_closed_transcript [of demo_late "''t2''" _ "\<lambda>_. NonFinite" 0] by blast
qed

text \<open>
  A capture with audio is offered back until it is closed, and never after: every open session
  a store can hold that has at least one chunk is resumable, also after the recovery at startup,
  finalized and discarded ones are not, and the summary offered accounts for every segment once.
\<close>

theorem recovery_offers_what_is_unfinished:
  assumes "session_ok parse s"
  shows "(captureChunks s \<noteq> [] \<longrightarrow> \<not> isTerminalCaptureStatus (cs_status s) \<longrightarrow>
        isResumableSession s \<and> isResumableSession (recoverCaptureSession s t))
    \<and> (finalizeCapture s t = Inr s' \<or> discardCapture s t = Inr s' \<longrightarrow> \<not> isResumableSession s')
    \<and> rs_settled (summarizeRecovery s) + rs_gaps (summarizeRecovery s) + rs_unsettled (summarizeRecovery s)
        = length (cs_segments s)
    \<and> rs_unsettled (summarizeRecovery s) = length (unsettledSegments s)"
proof (intro conjI impI)
  assume chunks: "captureChunks s \<noteq> []" and opened: "\<not> isTerminalCaptureStatus (cs_status s)"
  then have pos: "0 < capturedByteLength s" using captured_positive [OF assms] by blast
  then show "isResumableSession s" using opened by (simp add: isResumableSession_def)
  have "close_out s (recoverCaptureSession s t)" using opened by (auto simp: close_out_def)
  from close_out_shape [OF assms this] obtain us where
    "map audio (cs_segments (recoverCaptureSession s t)) = map audio us" "sealed_from s us"
    "cs_chunks (recoverCaptureSession s t) = cs_chunks s" by metis
  then have "captureChunks (recoverCaptureSession s t) = captureChunks s"
    by (intro captureChunks_audio) (auto simp: sealed_from_def)
  moreover have "cs_status (recoverCaptureSession s t) = stopped"
    using opened by (simp add: recoverCaptureSession_def Let_def)
  ultimately show "isResumableSession (recoverCaptureSession s t)"
    using pos by (simp add: isResumableSession_def capturedByteLength_def capturedChunkByteLength_def)
next
  assume "finalizeCapture s t = Inr s' \<or> discardCapture s t = Inr s'"
  then have "isTerminalCaptureStatus (cs_status s')"
    by (auto simp: finalizeCapture_def discardCapture_def Let_def split: sum.splits)
  then show "\<not> isResumableSession s'" by (simp add: isResumableSession_def)
next
  show "rs_settled (summarizeRecovery s) + rs_gaps (summarizeRecovery s) + rs_unsettled (summarizeRecovery s)
      = length (cs_segments s)"
    by (simp add: summarizeRecovery_def summary_counts segment_kinds)
  show "rs_unsettled (summarizeRecovery s) = length (unsettledSegments s)"
    by (simp add: summarizeRecovery_def summary_counts unsettledSegments_def)
qed

theorem recovery_offers_what_is_unfinished_witness:
  "isResumableSession (recoverCaptureSession demo_capture ''t9'')"
proof -
  have "captureChunks demo_capture \<noteq> []" "\<not> isTerminalCaptureStatus (cs_status demo_capture)"
    by (simp_all add: demo_capture_def captureChunks_def)
  then show ?thesis using recovery_offers_what_is_unfinished [OF demo_capture_ok] by blast
qed

text \<open>
  The retention sweep never deletes what it must not: a capture that is excluded (live, or not
  a meeting), or whose date cannot be read, or that is younger than one day, is never named,
  whatever window is stored or supplied, a torn setting included; what is named is older than the
  window shown to the user; and a longer window never names more than a shorter one.
\<close>

theorem retention_deletes_only_what_expired:
  "1 \<le> normalizeMeetingRetentionDays days \<and> normalizeMeetingRetentionDays days \<le> 365
    \<and> (\<forall>i \<in> set (expiredCaptureIds parse captures now days exclude).
         i \<notin> set exclude \<and> (\<exists>c \<in> set captures. rc_id c = i
           \<and> (\<exists>t. parse (rc_at c) = Fin t \<and> t + of_int (normalizeMeetingRetentionDays days * 86400000) < of_int now)))
    \<and> (normalizeMeetingRetentionDays days \<le> normalizeMeetingRetentionDays days' \<longrightarrow>
         set (expiredCaptureIds parse captures now days' exclude) \<subseteq> set (expiredCaptureIds parse captures now days exclude))"
proof (intro conjI impI ballI)
  show "1 \<le> normalizeMeetingRetentionDays days" "normalizeMeetingRetentionDays days \<le> 365"
    by (auto simp: normalizeMeetingRetentionDays_def MIN_MEETING_RETENTION_DAYS_def MAX_MEETING_RETENTION_DAYS_def
        MEETING_RETENTION_DEFAULT_DAYS_def Let_def split: js.splits jsnum.splits)
next
  fix i assume i: "i \<in> set (expiredCaptureIds parse captures now days exclude)"
  then show "i \<notin> set exclude" by (simp add: expired_mem)
  obtain c t where c: "c \<in> set captures" "rc_id c = i" "parse (rc_at c) = Fin t"
      "t < of_int (meetingRetentionCutoffMs now days)"
    using i by (auto simp: expired_mem)
  have "t + of_int (normalizeMeetingRetentionDays days * 86400000) < of_int now"
    using c(4) by (simp add: meetingRetentionCutoffMs_def MS_PER_DAY_def)
  with c show "\<exists>c \<in> set captures. rc_id c = i
      \<and> (\<exists>t. parse (rc_at c) = Fin t \<and> t + of_int (normalizeMeetingRetentionDays days * 86400000) < of_int now)"
    by blast
next
  assume "normalizeMeetingRetentionDays days \<le> normalizeMeetingRetentionDays days'"
  then have "meetingRetentionCutoffMs now days' \<le> meetingRetentionCutoffMs now days"
    by (simp add: meetingRetentionCutoffMs_def MS_PER_DAY_def)
  then have "(of_int (meetingRetentionCutoffMs now days') :: rat) \<le> of_int (meetingRetentionCutoffMs now days)" by simp
  then show "set (expiredCaptureIds parse captures now days' exclude) \<subseteq> set (expiredCaptureIds parse captures now days exclude)"
    unfolding subset_iff expired_mem using order_less_le_trans by blast
qed

theorem retention_deletes_only_what_expired_witness:
  "set (expiredCaptureIds (\<lambda>_. Fin 0) [\<lparr>rc_id = ''m1'', rc_at = ''t''\<rparr>] 5000000000 (JNum (Fin 365)) [])
     \<subseteq> set (expiredCaptureIds (\<lambda>_. Fin 0) [\<lparr>rc_id = ''m1'', rc_at = ''t''\<rparr>] 5000000000 (JNum (Fin 7)) [])"
  using retention_deletes_only_what_expired [of "JNum (Fin 7)" "\<lambda>_. Fin 0" "[\<lparr>rc_id = ''m1'', rc_at = ''t''\<rparr>]" 5000000000 "[]"
      "JNum (Fin 365)"]
  by (simp add: normalizeMeetingRetentionDays_def MIN_MEETING_RETENTION_DAYS_def MAX_MEETING_RETENTION_DAYS_def Let_def)

end
