(* ===== verification/ChunkAdoption.thy ===== *)
theory ChunkAdoption
  imports CaptureSafety
begin

text \<open>
  Believing stored audio the session does not mention,
  \<open>packages/core/src/meetings/chunkAdoption.ts\<close>. A stored chunk's sequence and length are
  numbers of the store (\<open>jsnum\<close>); the map of unclaimed chunks is an association list in
  insertion order. \<open>now\<close> is the default stamp of \<open>stopCapture\<close>.
\<close>

record MeetingStoredChunk =
  sc_sequence :: jsnum
  sc_byteLength :: jsnum

record MeetingChunkAdoption =
  ad_session :: MeetingCaptureSession
  ad_adopted :: "nat list"
  ad_rejected :: "nat list"

record AdoptCaptureChunksOptions =
  ao_chunkMs :: "jsnum option"
  ao_segmentMs :: "jsnum option"
  ao_unitPolicy :: "MeetingUnitPolicy option"

text \<open>One turn of the loop that collects the unclaimed chunks: the first reading wins.\<close>

definition collect_chunk :: "nat \<Rightarrow> MeetingStoredChunk \<Rightarrow> (nat \<times> jsnum) list \<Rightarrow> (nat \<times> jsnum) list" where
  "collect_chunk known chunk unclaimed =
     (case sc_sequence chunk of
        NonFinite \<Rightarrow> unclaimed
      | Fin q \<Rightarrow>
          if of_int \<lfloor>q\<rfloor> \<noteq> q \<or> q < of_nat known then unclaimed
          else if map_of unclaimed (nat \<lfloor>q\<rfloor>) \<noteq> None then unclaimed
          else unclaimed @ [(nat \<lfloor>q\<rfloor>, sc_byteLength chunk)])"

text \<open>The contiguous run from \<open>sequence\<close> on that holds audio.\<close>

function believe :: "(nat \<times> jsnum) list \<Rightarrow> nat \<Rightarrow> nat list" where
  "believe unclaimed sequence =
     (case map_of unclaimed sequence of
        Some (Fin b) \<Rightarrow> if b \<le> 0 then [] else sequence # believe unclaimed (sequence + 1)
      | _ \<Rightarrow> [])"
  by pat_completeness auto

termination
proof (relation "measure (\<lambda>(m, k). card {i \<in> fst ` set m. k \<le> i})")
  fix m :: "(nat \<times> jsnum) list" and k x b
  assume "map_of m k = Some x"
  then have "k \<in> fst ` set m" by (metis domI dom_map_of_conv_image_fst)
  then have "k \<in> {i \<in> fst ` set m. k \<le> i}" "k \<notin> {i \<in> fst ` set m. k + 1 \<le> i}" by simp_all
  moreover have "{i \<in> fst ` set m. k + 1 \<le> i} \<subseteq> {i \<in> fst ` set m. k \<le> i}" by auto
  ultimately have "{i \<in> fst ` set m. k + 1 \<le> i} \<subset> {i \<in> fst ` set m. k \<le> i}" by blast
  then show "((m, k + 1), m, k) \<in> measure (\<lambda>(m, k). card {i \<in> fst ` set m. k \<le> i})"
    by (simp add: psubset_card_mono)
qed simp

declare believe.simps [simp del]

fun append_adopted ::
  "(nat \<times> jsnum) list \<Rightarrow> jsnum \<Rightarrow> nat list \<Rightarrow> MeetingCaptureSession \<Rightarrow> string + MeetingCaptureSession"
where
  "append_adopted unclaimed chunkMs [] session = Inr session"
| "append_adopted unclaimed chunkMs (k # ks) session =
     (case appendChunk session \<lparr>ac_byteLength = the (map_of unclaimed k), ac_durationMs = chunkMs, ac_startMs = None\<rparr> of
        Inl e \<Rightarrow> Inl e
      | Inr nxt \<Rightarrow> append_adopted unclaimed chunkMs ks nxt)"

definition adoptCaptureChunks ::
  "MeetingCaptureSession \<Rightarrow> MeetingStoredChunk list \<Rightarrow> AdoptCaptureChunksOptions \<Rightarrow> string
     \<Rightarrow> string + MeetingChunkAdoption"
where
  "adoptCaptureChunks session chunks options now =
     (if isTerminalCaptureStatus (cs_status session)
      then Inr \<lparr>ad_session = session, ad_adopted = [], ad_rejected = []\<rparr>
      else
        let known = length (captureChunks session);
            unclaimed = fold (collect_chunk known) chunks [];
            believable = believe unclaimed known;
            rejected = sort (filter (\<lambda>k. k \<notin> set believable) (map fst unclaimed))
        in if believable = [] then Inr \<lparr>ad_session = session, ad_adopted = [], ad_rejected = rejected\<rparr>
           else
             let stoppedAt = (if cs_status session = stopped then cs_stoppedAt session else None);
                 storedChunkMs = (if cs_chunks session = None then DEFAULT_MEETING_UNIT_MS else DEFAULT_MEETING_CHUNK_MS);
                 chunkMs = (case ao_chunkMs options of
                              Some d \<Rightarrow> d
                            | None \<Rightarrow> (case ao_segmentMs options of Some d \<Rightarrow> d | None \<Rightarrow> Fin (of_int storedChunkMs)));
                 unitPolicy = (case ao_unitPolicy options of Some p \<Rightarrow> p | None \<Rightarrow> DEFAULT_MEETING_UNIT_POLICY)
             in case (if cs_status session = recording then Inr session else resumeCapture session) of
                  Inl e \<Rightarrow> Inl e
                | Inr resumed \<Rightarrow>
                    (case append_adopted unclaimed chunkMs believable resumed of
                       Inl e \<Rightarrow> Inl e
                     | Inr appended \<Rightarrow>
                         (case sealUnit appended
                                 \<lparr>su_throughSequence = None, su_policy = Some unitPolicy, su_keepRemainder = False\<rparr> of
                            Inl e \<Rightarrow> Inl e
                          | Inr nxt \<Rightarrow>
                              if cs_status session = recording
                              then Inr \<lparr>ad_session = nxt, ad_adopted = believable, ad_rejected = rejected\<rparr>
                              else (case stopCapture nxt (case stoppedAt of Some t \<Rightarrow> t | None \<Rightarrow> now) of
                                      Inl e \<Rightarrow> Inl e
                                    | Inr final \<Rightarrow>
                                        Inr \<lparr>ad_session = final, ad_adopted = believable, ad_rejected = rejected\<rparr>))))"

section \<open>What is collected and what is believed\<close>

lemma integer_at_least:
  "{k. known \<le> k \<and> q = of_nat k} = (if of_int \<lfloor>q\<rfloor> \<noteq> q \<or> q < of_nat known then {} else {nat \<lfloor>q\<rfloor>})" for q :: rat
proof (cases "of_int \<lfloor>q\<rfloor> = q \<and> of_nat known \<le> q")
  case True
  then obtain z where z: "q = of_int z" by metis
  then have "int known \<le> z" using True by (metis of_int_le_iff of_int_of_nat_eq)
  then have q: "q = of_nat (nat \<lfloor>q\<rfloor>)" "known \<le> nat \<lfloor>q\<rfloor>" using z by simp_all
  then have "k = nat \<lfloor>q\<rfloor>" if "q = of_nat k" for k using that by simp
  with q True show ?thesis by auto
next
  case False
  then have "\<not> (known \<le> k \<and> q = of_nat k)" for k
    by (metis floor_of_nat of_int_of_nat_eq of_nat_le_iff)
  with False show ?thesis by auto
qed

lemma collect_keys:
  "distinct (map fst m) \<Longrightarrow> \<forall>i \<in> fst ` set m. known \<le> i \<Longrightarrow>
   distinct (map fst (fold (collect_chunk known) chunks m))
   \<and> fst ` set (fold (collect_chunk known) chunks m)
       = fst ` set m \<union> {k. known \<le> k \<and> (\<exists>c \<in> set chunks. sc_sequence c = Fin (of_nat k))}"
proof (induction chunks arbitrary: m)
  case (Cons c chunks)
  have key: "{k. known \<le> k \<and> sc_sequence c = Fin (of_nat k)} =
      (case sc_sequence c of NonFinite \<Rightarrow> {} | Fin q \<Rightarrow> if of_int \<lfloor>q\<rfloor> \<noteq> q \<or> q < of_nat known then {} else {nat \<lfloor>q\<rfloor>})"
    using integer_at_least [of known] by (cases "sc_sequence c") simp_all
  have one: "distinct (map fst (collect_chunk known c m))"
    "fst ` set (collect_chunk known c m) = fst ` set m \<union> {k. known \<le> k \<and> sc_sequence c = Fin (of_nat k)}"
    "\<forall>i \<in> fst ` set (collect_chunk known c m). known \<le> i"
    unfolding key using Cons.prems by (auto simp: collect_chunk_def map_of_eq_None_iff not_less le_nat_iff le_floor_iff
        split: jsnum.splits if_splits)
  from Cons.IH [OF one(1,3)] one(2) show ?case by auto
qed simp

lemma believe_run: "run_from k (believe m k)"
proof (induction m k rule: believe.induct)
  case (1 m k)
  show ?case
  proof (cases "\<exists>b. map_of m k = Some (Fin b) \<and> \<not> b \<le> 0")
    case True
    then obtain b where b: "map_of m k = Some (Fin b)" "\<not> b \<le> 0" by blast
    then have "believe m k = k # believe m (k + 1)" by (subst believe.simps) simp
    with 1 [OF b(1) refl b(2)] show ?thesis by simp
  next
    case False
    then have "believe m k = []" by (subst believe.simps) (auto split: option.splits jsnum.splits)
    then show ?thesis by simp
  qed
qed

lemma believe_holds: "i \<in> set (believe m k) \<Longrightarrow> \<exists>b. map_of m i = Some (Fin b) \<and> 0 < b"
proof (induction m k rule: believe.induct)
  case (1 m k)
  show ?case
  proof (cases "\<exists>b. map_of m k = Some (Fin b) \<and> \<not> b \<le> 0")
    case True
    then obtain b where b: "map_of m k = Some (Fin b)" "\<not> b \<le> 0" by blast
    then have "believe m k = k # believe m (k + 1)" by (subst believe.simps) simp
    with 1 b show ?thesis by auto
  next
    case False
    then have "believe m k = []" by (subst believe.simps) (auto split: option.splits jsnum.splits)
    with 1 show ?thesis by simp
  qed
qed

text \<open>The run stops only at a hole or at an empty chunk.\<close>

lemma believe_stops: "\<not> (\<exists>b. map_of m (k + length (believe m k)) = Some (Fin b) \<and> 0 < b)"
proof (induction m k rule: believe.induct)
  case (1 m k)
  show ?case
  proof (cases "\<exists>b. map_of m k = Some (Fin b) \<and> \<not> b \<le> 0")
    case True
    then obtain b where b: "map_of m k = Some (Fin b)" "\<not> b \<le> 0" by blast
    then have "believe m k = k # believe m (k + 1)" by (subst believe.simps) simp
    with 1 [OF b(1) refl b(2)] show ?thesis by simp
  next
    case False
    then have "believe m k = []" by (subst believe.simps) (auto split: option.splits jsnum.splits)
    with False show ?thesis by auto
  qed
qed

section \<open>The ledger extended\<close>

lemma collect_values:
  "(k, v) \<in> set (fold (collect_chunk known) chunks m) \<Longrightarrow> (k, v) \<in> set m \<or> (\<exists>c \<in> set chunks. sc_byteLength c = v)"
proof (induction chunks arbitrary: m)
  case (Cons c chunks)
  have "set (collect_chunk known c m) \<subseteq> set m \<union> {(i, v). v = sc_byteLength c}"
    by (auto simp: collect_chunk_def split: jsnum.splits if_splits)
  with Cons.IH [of "collect_chunk known c m"] Cons.prems show ?case by auto
qed simp

lemma append_chunk_whole:
  assumes "cs_status s = recording" "ac_byteLength i = Fin b" "1 \<le> b" "ac_durationMs i = Fin d" "1 \<le> d" "ac_startMs i = None"
  obtains c where "appendChunk s i = Inr (s\<lparr>cs_chunks := Some (captureChunks s @ [c])\<rparr>)"
    "ck_sequence c = nextChunkSequence s" "ck_byteLength c = js_round b"
proof -
  let ?prev = "if captureChunks s \<noteq> [] then ck_endMs (last (captureChunks s)) else 0"
  have "\<not> js_round b \<le> 0" using js_round_ge_int [of 1 b] assms(3) by simp
  moreover have "\<not> js_round (of_int ?prev + d) \<le> js_round (of_int ?prev :: rat)"
    using js_round_add_one [OF assms(5), of "of_int ?prev"] by simp
  moreover have "\<not> d \<le> 0" using assms(5) by simp
  ultimately show thesis
    using that [of "\<lparr>ck_sequence = nextChunkSequence s, ck_byteLength = js_round b, ck_startMs = js_round (of_int ?prev :: rat),
        ck_endMs = js_round (of_int ?prev + d)\<rparr>"] assms
    by (simp add: appendChunk_def appendChunkToLedger_def Let_def split: if_splits)
qed

lemma append_adopted_shape:
  assumes "session_ok parse s" "cs_status s = recording" "run_from (length (captureChunks s)) ks"
    and d: "chunkMs = Fin d" "1 \<le> d"
    and b: "\<And>k. k \<in> set ks \<Longrightarrow> \<exists>b. map_of m k = Some (Fin b) \<and> 1 \<le> b"
  shows "\<exists>s' new. append_adopted m chunkMs ks s = Inr s' \<and> session_ok parse s' \<and> captureChunks s' = captureChunks s @ new
    \<and> map ck_sequence new = ks \<and> map (\<lambda>c. Some (ck_byteLength c)) new
        = map (\<lambda>k. case map_of m k of Some (Fin b) \<Rightarrow> Some (js_round b) | _ \<Rightarrow> None) ks
    \<and> cs_segments s' = cs_segments s \<and> cs_status s' = recording \<and> cs_stoppedAt s' = cs_stoppedAt s"
  using assms(1-3) b
proof (induction ks arbitrary: s)
  case Nil
  then show ?case by simp
next
  case (Cons k ks)
  obtain x where x: "map_of m k = Some (Fin x)" "1 \<le> x" using Cons.prems(4) [of k] by auto
  let ?i = "\<lparr>ac_byteLength = the (map_of m k), ac_durationMs = chunkMs, ac_startMs = None\<rparr>"
  obtain c where c: "appendChunk s ?i = Inr (s\<lparr>cs_chunks := Some (captureChunks s @ [c])\<rparr>)"
      "ck_sequence c = nextChunkSequence s" "ck_byteLength c = js_round x"
    using append_chunk_whole [OF Cons.prems(2), of ?i x d] x d by auto
  let ?s = "s\<lparr>cs_chunks := Some (captureChunks s @ [c])\<rparr>"
  have chunks: "captureChunks ?s = captureChunks s @ [c]" by (simp add: captureChunks_def)
  have "appendChunkToLedger s ?i = Inr ?s" using c(1) Cons.prems(2) by (simp add: appendChunk_def)
  then have ok: "session_ok parse ?s" using append_ok [OF Cons.prems(1)] by blast
  have k: "ck_sequence c = k" using c(2) next_sequence [OF Cons.prems(1)] Cons.prems(3) by simp
  obtain s' new where "append_adopted m chunkMs ks ?s = Inr s'" "session_ok parse s'"
      "captureChunks s' = captureChunks ?s @ new" "map ck_sequence new = ks"
      "map (\<lambda>c. Some (ck_byteLength c)) new
        = map (\<lambda>k. case map_of m k of Some (Fin b) \<Rightarrow> Some (js_round b) | _ \<Rightarrow> None) ks"
      "cs_segments s' = cs_segments ?s" "cs_status s' = recording" "cs_stoppedAt s' = cs_stoppedAt ?s"
    using Cons.IH [OF ok] Cons.prems chunks by auto
  then show ?case using c k x chunks by (intro exI [of _ s'] exI [of _ "c # new"]) simp
qed

text \<open>Sealing the whole open run, and stopping again with the original stamp.\<close>

lemma seal_everything:
  assumes "session_ok parse s" "s' = sealUnitsFromLedger s \<lparr>su_throughSequence = None, su_policy = Some p, su_keepRemainder = False\<rparr>"
  shows "session_ok parse s' \<and> captureChunks s' = captureChunks s \<and> openChunks s' = [] \<and> prefix (cs_segments s) (cs_segments s')
    \<and> cs_status s' = cs_status s \<and> cs_stoppedAt s' = cs_stoppedAt s"
proof -
  obtain us where us: "s' = s\<lparr>cs_segments := us\<rparr>" "sealed_from s us" "reach us = length (captureChunks s)"
    using seal_shape [OF assms(1), of "\<lparr>su_throughSequence = None, su_policy = Some p, su_keepRemainder = False\<rparr>"]
    unfolding assms(2) by auto
  have ok: "session_ok parse s'" unfolding assms(2) by (rule seal_session_ok [OF assms(1)])
  have chunks: "captureChunks s' = captureChunks s"
    using us by (auto simp: sealed_from_def captureChunks_def split: option.splits)
  have "openChunks s' = []" using open_suffix [OF ok] us chunks by simp
  with ok chunks us show ?thesis by (auto simp: sealed_from_def)
qed

lemma chunks_update [simp]:
  "captureChunks (s\<lparr>cs_status := x\<rparr>) = captureChunks s" "captureChunks (s\<lparr>cs_stoppedAt := y\<rparr>) = captureChunks s"
  "openChunks (s\<lparr>cs_status := x\<rparr>) = openChunks s" "openChunks (s\<lparr>cs_stoppedAt := y\<rparr>) = openChunks s"
  by (simp_all add: openChunks_def claimedChunkCount_def captureChunks_def split: option.split)

lemma stop_sealed:
  assumes "openChunks s = []" "cs_status s = recording"
  shows "stopCapture s t = Inr (s\<lparr>cs_status := stopped, cs_stoppedAt := Some t\<rparr>)"
  using assms by (simp add: stopCapture_def requireOpen_def sealUnitsFromLedger_def Let_def)

definition chunk_duration :: "MeetingCaptureSession \<Rightarrow> AdoptCaptureChunksOptions \<Rightarrow> jsnum" where
  "chunk_duration session options =
     (case ao_chunkMs options of
        Some d \<Rightarrow> d
      | None \<Rightarrow> (case ao_segmentMs options of
                 Some d \<Rightarrow> d
               | None \<Rightarrow> Fin (of_int (if cs_chunks session = None then DEFAULT_MEETING_UNIT_MS else DEFAULT_MEETING_CHUNK_MS))))"

lemma adopt_opened:
  assumes "\<not> isTerminalCaptureStatus (cs_status s)"
    "m = fold (collect_chunk (length (captureChunks s))) chunks []" "ks = believe m (length (captureChunks s))"
  shows "adoptCaptureChunks s chunks options now =
    (let rejected = sort (filter (\<lambda>k. k \<notin> set ks) (map fst m))
     in if ks = [] then Inr \<lparr>ad_session = s, ad_adopted = [], ad_rejected = rejected\<rparr>
        else
          let policy = (case ao_unitPolicy options of Some p \<Rightarrow> p | None \<Rightarrow> DEFAULT_MEETING_UNIT_POLICY)
          in case (if cs_status s = recording then Inr s else resumeCapture s) of
               Inl e \<Rightarrow> Inl e
             | Inr resumed \<Rightarrow>
                 (case append_adopted m (chunk_duration s options) ks resumed of
                    Inl e \<Rightarrow> Inl e
                  | Inr appended \<Rightarrow>
                      (case sealUnit appended \<lparr>su_throughSequence = None, su_policy = Some policy, su_keepRemainder = False\<rparr> of
                         Inl e \<Rightarrow> Inl e
                       | Inr nxt \<Rightarrow>
                           if cs_status s = recording then Inr \<lparr>ad_session = nxt, ad_adopted = ks, ad_rejected = rejected\<rparr>
                           else (case stopCapture nxt (case (if cs_status s = stopped then cs_stoppedAt s else None) of
                                                         Some t \<Rightarrow> t | None \<Rightarrow> now) of
                                   Inl e \<Rightarrow> Inl e
                                 | Inr final \<Rightarrow> Inr \<lparr>ad_session = final, ad_adopted = ks, ad_rejected = rejected\<rparr>))))"
  using assms(1) unfolding adoptCaptureChunks_def Let_def assms(2,3) chunk_duration_def by (simp only: if_False)

text \<open>A resumed session: what the appends start from.\<close>

lemma resumed:
  assumes "session_ok parse s" "\<not> isTerminalCaptureStatus (cs_status s)"
  obtains r where "(if cs_status s = recording then Inr s else resumeCapture s) = Inr r" "session_ok parse r"
    "cs_status r = recording" "captureChunks r = captureChunks s" "cs_segments r = cs_segments s"
    "cs_status s = recording \<longrightarrow> r = s"
proof (cases "cs_status s = recording")
  case True
  then show thesis using that [of s] assms(1) by simp
next
  case False
  let ?r = "s\<lparr>cs_stoppedAt := None, cs_status := recording\<rparr>"
  have resume: "resumeCapture s = Inr ?r" using assms(2) False by (simp add: resumeCapture_def requireOpen_def)
  moreover have "lifecycle_ok parse ?r"
    using resume_lifecycle [OF _ resume, of parse] assms(1) by (simp add: session_ok_def)
  then have "session_ok parse ?r" using assms(1) by (cases "cs_chunks s") (simp_all add: session_ok_def)
  ultimately show thesis
    by (intro that [of ?r]) (use False in simp_all)
qed

lemma stopped_ok:
  assumes "session_ok parse s" "cs_status s = recording" "persisted parse (Some t)"
  shows "session_ok parse (s\<lparr>cs_status := stopped, cs_stoppedAt := Some t\<rparr>)"
  using assms by (cases "cs_chunks s") (simp_all add: session_ok_def lifecycle_ok_def)

section \<open>Properties\<close>

text \<open>
  C12. Adoption believes exactly the contiguous audio. For an open, readable session and a store
  whose chunks have whole bytes, and when the duration a chunk is credited with is finite and at
  least one millisecond, it returns; the adopted sequences continue the ledger without a
  hole up to the first missing or empty chunk, their bytes (the first reading of each) extend the
  ledger and nothing already in it changes; adopted and rejected together are exactly the stored
  sequences the session did not describe, no sequence in both; existing units stay, every adopted
  chunk is claimed by a unit, and the status, the original stop stamp and readability are kept.
\<close>

theorem adoption_believes_exactly_the_contiguous_audio:
  assumes ok: "session_ok parse s" "\<not> isTerminalCaptureStatus (cs_status s)"
    and whole: "\<forall>c \<in> set chunks. \<forall>b. sc_byteLength c = Fin b \<longrightarrow> b \<le> 0 \<or> 1 \<le> b"
    and d: "chunk_duration s options = Fin d" "1 \<le> d"
    and m: "m = fold (collect_chunk (length (captureChunks s))) chunks []"
  shows "\<exists>a new. adoptCaptureChunks s chunks options now = Inr a
    \<and> session_ok parse (ad_session a) \<and> cs_status (ad_session a) = cs_status s \<and> cs_stoppedAt (ad_session a) = cs_stoppedAt s
    \<and> captureChunks (ad_session a) = captureChunks s @ new \<and> map ck_sequence new = ad_adopted a
    \<and> ad_adopted a = [length (captureChunks s)..<length (captureChunks s) + length (ad_adopted a)]
    \<and> (\<forall>c \<in> set new. \<exists>b. map_of m (ck_sequence c) = Some (Fin b) \<and> ck_byteLength c = js_round b)
    \<and> \<not> (\<exists>b. map_of m (length (captureChunks s) + length (ad_adopted a)) = Some (Fin b) \<and> 0 < b)
    \<and> set (ad_adopted a) \<inter> set (ad_rejected a) = {} \<and> distinct (ad_rejected a)
    \<and> set (ad_adopted a) \<union> set (ad_rejected a)
        = {k. length (captureChunks s) \<le> k \<and> (\<exists>c \<in> set chunks. sc_sequence c = Fin (of_nat k))}
    \<and> prefix (cs_segments s) (cs_segments (ad_session a)) \<and> (ad_adopted a \<noteq> [] \<longrightarrow> openChunks (ad_session a) = [])"
proof -
  let ?known = "length (captureChunks s)"
  define ks where "ks = believe m ?known"
  define rejected where "rejected = sort (filter (\<lambda>k. k \<notin> set ks) (map fst m))"
  note shape = adopt_opened [OF ok(2) m ks_def, of options now, folded rejected_def]
  have keys: "distinct (map fst m)" "fst ` set m = {k. ?known \<le> k \<and> (\<exists>c \<in> set chunks. sc_sequence c = Fin (of_nat k))}"
    using collect_keys [of "[]" ?known chunks] m by auto
  have run: "run_from ?known ks" unfolding ks_def by (rule believe_run)
  then have ks: "ks = [?known..<?known + length ks]" by (simp only: run_from_iff)
  have stops: "\<not> (\<exists>b. map_of m (?known + length ks) = Some (Fin b) \<and> 0 < b)" unfolding ks_def by (rule believe_stops)
  have held: "\<exists>b. map_of m k = Some (Fin b) \<and> 1 \<le> b" if "k \<in> set ks" for k
  proof -
    obtain b where b: "map_of m k = Some (Fin b)" "0 < b" using believe_holds \<open>k \<in> set ks\<close> unfolding ks_def by blast
    then have "\<exists>c \<in> set chunks. sc_byteLength c = Fin b" using collect_values [of k "Fin b" ?known chunks "[]"] m map_of_SomeD by fastforce
    then show ?thesis using whole b by fastforce
  qed
  have "set ks \<subseteq> fst ` set m" using held by (metis domI dom_map_of_conv_image_fst subsetI)
  then have parts: "set ks \<inter> set rejected = {}" "distinct rejected"
    "set ks \<union> set rejected = {k. ?known \<le> k \<and> (\<exists>c \<in> set chunks. sc_sequence c = Fin (of_nat k))}"
    using keys by (auto simp: rejected_def)
  show ?thesis
  proof (cases "ks = []")
    case True
    then show ?thesis using shape parts stops ok(1)
      by (intro exI [of _ "\<lparr>ad_session = s, ad_adopted = [], ad_rejected = rejected\<rparr>"] exI [of _ "[]"]) (auto simp: Let_def)
  next
    case False
    obtain r where r: "(if cs_status s = recording then Inr s else resumeCapture s) = Inr r" "session_ok parse r"
      "cs_status r = recording" "captureChunks r = captureChunks s" "cs_segments r = cs_segments s"
      "cs_status s = recording \<longrightarrow> r = s" using resumed [OF ok] .
    obtain p new where p: "append_adopted m (chunk_duration s options) ks r = Inr p" "session_ok parse p"
      "captureChunks p = captureChunks s @ new" "map ck_sequence new = ks"
      "map (\<lambda>c. Some (ck_byteLength c)) new = map (\<lambda>k. case map_of m k of Some (Fin b) \<Rightarrow> Some (js_round b) | _ \<Rightarrow> None) ks"
      "cs_segments p = cs_segments s" "cs_status p = recording" "cs_stoppedAt p = cs_stoppedAt r"
      using append_adopted_shape [OF r(2,3) _ d held] run r(4,5) by force
    define policy where "policy = (case ao_unitPolicy options of Some p \<Rightarrow> p | None \<Rightarrow> DEFAULT_MEETING_UNIT_POLICY)"
    define n where "n = sealUnitsFromLedger p \<lparr>su_throughSequence = None, su_policy = Some policy, su_keepRemainder = False\<rparr>"
    have seal: "sealUnit p \<lparr>su_throughSequence = None, su_policy = Some policy, su_keepRemainder = False\<rparr> = Inr n"
      using p(7) by (simp add: sealUnit_def requireOpen_def n_def)
    have n: "session_ok parse n" "captureChunks n = captureChunks s @ new" "openChunks n = []"
      "prefix (cs_segments s) (cs_segments n)" "cs_status n = recording" "cs_stoppedAt n = cs_stoppedAt r"
      using seal_everything [OF p(2) n_def] p by auto
    have bytes: "\<exists>b. map_of m (ck_sequence c) = Some (Fin b) \<and> ck_byteLength c = js_round b" if "c \<in> set new" for c
    proof -
      obtain i where i: "i < length new" "new ! i = c" using \<open>c \<in> set new\<close> by (auto simp: in_set_conv_nth)
      have "length ks = length new" using p(4) by (metis length_map)
      have "map ck_sequence new ! i = ck_sequence c" "map (\<lambda>c. Some (ck_byteLength c)) new ! i = Some (ck_byteLength c)"
        using i by simp_all
      then have "ck_sequence c = ks ! i" "Some (ck_byteLength c) = (case map_of m (ks ! i) of Some (Fin b) \<Rightarrow> Some (js_round b) | _ \<Rightarrow> None)"
        using p(4,5) i(1) \<open>length ks = length new\<close> by simp_all
      then show ?thesis by (simp split: option.splits jsnum.splits)
    qed
    show ?thesis
    proof (cases "cs_status s = recording")
      case True
      then have "adoptCaptureChunks s chunks options now = Inr \<lparr>ad_session = n, ad_adopted = ks, ad_rejected = rejected\<rparr>"
        using shape False p(1) r(6) seal by (simp add: policy_def)
      then show ?thesis using n parts stops ks bytes p(4) True r(6)
        by (intro exI [of _ "\<lparr>ad_session = n, ad_adopted = ks, ad_rejected = rejected\<rparr>"] exI [of _ new]) simp
    next
      case False
      then have st: "cs_status s = stopped" using ok(2) by (cases "cs_status s") simp_all
      then obtain t where t: "cs_stoppedAt s = Some t" "persisted parse (Some t)"
        using ok(1) by (auto simp: session_ok_def lifecycle_ok_def persisted_def split: option.splits)
      define f where "f = n\<lparr>cs_status := stopped, cs_stoppedAt := Some t\<rparr>"
      have "stopCapture n t = Inr f" unfolding f_def by (rule stop_sealed [OF n(3,5)])
      then have "adoptCaptureChunks s chunks options now = Inr \<lparr>ad_session = f, ad_adopted = ks, ad_rejected = rejected\<rparr>"
        using shape \<open>ks \<noteq> []\<close> p(1) r(1) seal st t by (simp add: policy_def)
      moreover have "session_ok parse f" unfolding f_def by (rule stopped_ok [OF n(1,5) t(2)])
      moreover have "captureChunks f = captureChunks n" "openChunks f = openChunks n" "cs_segments f = cs_segments n"
        by (simp_all add: f_def)
      ultimately show ?thesis using n parts stops ks bytes p(4) st t(1)
        by (intro exI [of _ "\<lparr>ad_session = f, ad_adopted = ks, ad_rejected = rejected\<rparr>"] exI [of _ new])
          (simp add: f_def)
    qed
  qed
qed

definition demo_store :: "MeetingStoredChunk list" where
  "demo_store =
     [\<lparr>sc_sequence = Fin 0, sc_byteLength = Fin 7\<rparr>, \<lparr>sc_sequence = Fin 3, sc_byteLength = Fin 9\<rparr>,
      \<lparr>sc_sequence = Fin 5, sc_byteLength = Fin 9\<rparr>]"

definition demo_options :: AdoptCaptureChunksOptions where
  "demo_options = \<lparr>ao_chunkMs = Some (Fin 3000), ao_segmentMs = None, ao_unitPolicy = None\<rparr>"

theorem adoption_believes_exactly_the_contiguous_audio_witness:
  "\<exists>a. adoptCaptureChunks demo_capture demo_store demo_options ''now'' = Inr a
     \<and> session_ok (\<lambda>_. Fin 0) (ad_session a) \<and> set (ad_adopted a) \<inter> set (ad_rejected a) = {}"
proof -
  have "\<not> isTerminalCaptureStatus (cs_status demo_capture)" by (simp add: demo_capture_def)
  moreover have "\<forall>c \<in> set demo_store. \<forall>b. sc_byteLength c = Fin b \<longrightarrow> b \<le> 0 \<or> 1 \<le> b"
    by (simp add: demo_store_def)
  moreover have "chunk_duration demo_capture demo_options = Fin 3000" by (simp add: chunk_duration_def demo_options_def)
  ultimately show ?thesis
    using adoption_believes_exactly_the_contiguous_audio [OF demo_capture_ok _ _ _ _ refl, of demo_store demo_options 3000 "''now''"]
    by auto
qed

end
