(* ===== verification/StreamingSafety.thy ===== *)
theory StreamingSafety
  imports StreamingTranscript
begin

text \<open>
  What the live transcript promises. A run of the reducer is a list of calls, each with the
  ledger as it was then; all of them are prefixes of the ledger as it ends up, which is how a
  recording grows. Then the promotion of a covered run: which units it writes, with which words.
\<close>

section \<open>The ledger a checkpoint reads\<close>

lemma ledger_ends_ordered:
  "ledger_ok k e cs \<Longrightarrow> 0 \<le> e \<Longrightarrow> i \<le> j \<Longrightarrow> j < length cs \<Longrightarrow> 0 \<le> ck_endMs (cs ! i) \<and> ck_endMs (cs ! i) \<le> ck_endMs (cs ! j)"
proof (induction cs arbitrary: k e i j)
  case Nil
  then show ?case by simp
next
  case (Cons c cs)
  then have tail: "ledger_ok (Suc k) (ck_endMs c) cs" "0 \<le> ck_endMs c" by auto
  have first: "ck_endMs c \<le> ck_endMs (cs ! j')" if "j' < length cs" for j'
    using Cons.IH [OF tail, of 0 j'] tail that by (cases cs) auto
  show ?case
  proof (cases i)
    case 0
    with tail first Cons.prems show ?thesis by (cases j) auto
  next
    case (Suc i')
    then obtain j' where "j = Suc j'" using Cons.prems by (cases j) auto
    with Suc Cons.IH [OF tail, of i' j'] Cons.prems show ?thesis by simp
  qed
qed

lemma ledger_entries_ledger_ok:
  "ledger_entries_ok k (of_int e) (map chunk_json cs) \<Longrightarrow> 0 \<le> e \<Longrightarrow> ledger_ok k e cs"
  by (induction cs arbitrary: k e) (auto split: if_splits)

lemma contiguous_prefixD:
  assumes "hasContiguousLedgerPrefix L c"
  shows "c < length L" "ledger_ok 0 0 L"
  using assms ledger_entries_ledger_ok [of 0 0 L]
  by (simp_all add: hasContiguousLedgerPrefix_def isMeetingChunkLedger_def)

lemma prefix_nth: "prefix L ledger \<Longrightarrow> c < length L \<Longrightarrow> L ! c = ledger ! c \<and> c < length ledger"
  by (auto simp: prefix_def nth_append)

section \<open>The invariant of a live transcript\<close>

definition covered_end :: "MeetingChunk list \<Rightarrow> nat \<Rightarrow> rat" where
  "covered_end ledger c = of_int (ck_endMs (ledger ! c))"

definition stream_ok :: "MeetingChunk list \<Rightarrow> MeetingStreamingTranscriptState \<Rightarrow> bool" where
  "stream_ok ledger st \<longleftrightarrow>
     normalizeStreamingTranscriptState st = Some st
     \<and> (\<forall>c. mt_checkpoint st = Some c \<longrightarrow>
          c < length ledger \<and> ledger_ok 0 0 (take (Suc c) ledger)
          \<and> (\<forall>u \<in> set (mt_utterances st). lu_startMs u < covered_end ledger c \<longrightarrow> lu_state u = live_final))"

abbreviation below :: "rat \<Rightarrow> MeetingStreamingTranscriptState \<Rightarrow> MeetingLiveUtterance list" where
  "below limit st \<equiv> filter (\<lambda>u. lu_startMs u < limit) (mt_utterances st)"

definition stream_grows ::
  "MeetingChunk list \<Rightarrow> MeetingStreamingTranscriptState \<Rightarrow> MeetingStreamingTranscriptState \<Rightarrow> bool"
where
  "stream_grows ledger st st' \<longleftrightarrow>
     prefix (map lu_utteranceId (mt_utterances st)) (map lu_utteranceId (mt_utterances st'))
     \<and> (\<forall>i < length (mt_utterances st). lu_state (mt_utterances st ! i) = live_final \<longrightarrow>
          mt_utterances st' ! i = mt_utterances st ! i)
     \<and> (\<forall>c. mt_checkpoint st = Some c \<longrightarrow>
          (\<exists>c'. mt_checkpoint st' = Some c' \<and> c \<le> c') \<and> below (covered_end ledger c) st' = below (covered_end ledger c) st)"

lemma covered_end_mono:
  assumes "stream_ok ledger st" "mt_checkpoint st = Some c'" "c \<le> c'"
  shows "covered_end ledger c \<le> covered_end ledger c'"
proof -
  have "ledger_ok 0 0 (take (Suc c') ledger)" "c' < length ledger" using assms by (auto simp: stream_ok_def)
  from ledger_ends_ordered [OF this(1), of c c'] this(2) assms(3) show ?thesis
    by (simp add: covered_end_def)
qed

lemma stream_grows_refl [simp]: "stream_grows ledger st st"
  by (auto simp: stream_grows_def)

lemma filter_below: "a \<le> b \<Longrightarrow> filter (\<lambda>u. lu_startMs u < a) us = filter (\<lambda>u. lu_startMs u < a) (filter (\<lambda>u. lu_startMs u < b) us)"
  by (simp add: filter_filter) (rule filter_cong, auto)

lemma stream_grows_trans:
  assumes "stream_grows ledger a b" "stream_grows ledger b c" "stream_ok ledger b"
  shows "stream_grows ledger a c"
  unfolding stream_grows_def
proof (intro conjI allI impI)
  show "prefix (map lu_utteranceId (mt_utterances a)) (map lu_utteranceId (mt_utterances c))"
    using assms prefix_order.order_trans unfolding stream_grows_def by blast
  fix i assume i: "i < length (mt_utterances a)" "lu_state (mt_utterances a ! i) = live_final"
  have "length (mt_utterances a) \<le> length (mt_utterances b)"
    using assms(1) prefix_length_le unfolding stream_grows_def by fastforce
  with i assms(1,2) show "mt_utterances c ! i = mt_utterances a ! i"
    unfolding stream_grows_def by (metis less_le_trans)
next
  fix k assume k: "mt_checkpoint a = Some k"
  with assms(1) obtain k' where k': "mt_checkpoint b = Some k'" "k \<le> k'"
    "below (covered_end ledger k) b = below (covered_end ledger k) a" unfolding stream_grows_def by blast
  with assms(2) obtain k'' where k'': "mt_checkpoint c = Some k''" "k' \<le> k''"
    "below (covered_end ledger k') c = below (covered_end ledger k') b" unfolding stream_grows_def by blast
  have "covered_end ledger k \<le> covered_end ledger k'" by (rule covered_end_mono [OF assms(3) k'(1,2)])
  then show "below (covered_end ledger k) c = below (covered_end ledger k) a"
    using filter_below [of "covered_end ledger k" "covered_end ledger k'"] k'(3) k''(3) by metis
  show "\<exists>k''. mt_checkpoint c = Some k'' \<and> k \<le> k''" using k' k'' le_trans by blast
qed

section \<open>One event\<close>

lemma normalized_iff:
  "normalizeStreamingTranscriptState st = Some st \<longleftrightarrow>
     (\<forall>u \<in> set (mt_utterances st). normalizeLiveUtterance u) \<and> distinct (map lu_utteranceId (mt_utterances st))
     \<and> (\<forall>c. mt_checkpoint st = Some c \<longrightarrow> int c \<le> MAX_SAFE_INTEGER)"
  by (auto simp: normalizeStreamingTranscriptState_def list_all_iff split: option.splits)

lemma normalized_event:
  assumes "normalizeStreamingTranscriptEvent v = Some (UtteranceEvent u)"
  shows "normalizeLiveUtterance u"
proof -
  have "isSequence (js_get v ''revision'')" "isElapsedTime (js_get v ''startMs'')" "isElapsedTime (js_get v ''endMs'')"
    "js_trim (lu_utteranceId u) \<noteq> []" "lu_startMs u < lu_endMs u"
    "lu_startMs u = num_of (js_get v ''startMs'')" "lu_endMs u = num_of (js_get v ''endMs'')"
    "lu_revision u = nat \<lfloor>num_of (js_get v ''revision'')\<rfloor>"
    using assms by (auto simp: normalizeStreamingTranscriptEvent_def split: if_splits)
  then show ?thesis
    by (auto simp: normalizeLiveUtterance_def isSequence_def isElapsedTime_def js_is_safe_integer_def num_of_def
        floor_le_iff split: js.splits jsnum.splits)
qed

lemma advanced_checkpoint:
  assumes "resolveTranscriptCommittedCheckpoint existing covered L = Advanced c"
  shows "c = covered" "int c \<le> MAX_SAFE_INTEGER" "hasContiguousLedgerPrefix L c" "\<And>e. existing = Some e \<Longrightarrow> e < c"
  using assms by (auto simp: resolveTranscriptCommittedCheckpoint_def Let_def split: if_splits)

lemma coverage_step:
  assumes "stream_ok ledger st" "prefix L ledger"
  shows "stream_ok ledger (reduce_event st (CoverageEvent n) L) \<and> stream_grows ledger st (reduce_event st (CoverageEvent n) L)"
proof (cases "reduce_event st (CoverageEvent n) L = st")
  case True
  then show ?thesis using assms by simp
next
  case False
  then obtain c where adv: "resolveTranscriptCommittedCheckpoint (mt_checkpoint st) n L = Advanced c"
    and none: "\<forall>u \<in> set (mt_utterances st). lu_startMs u < of_int (ck_endMs (L ! n)) \<longrightarrow> lu_state u \<noteq> live_partial"
    and st': "reduce_event st (CoverageEvent n) L = st\<lparr>mt_checkpoint := Some c\<rparr>"
    by (auto simp: reduce_event_def Let_def list_ex_iff split: TranscriptCheckpointResolution.splits if_splits)
  note c = advanced_checkpoint [OF adv]
  note L = contiguous_prefixD [OF c(3)]
  have led: "L ! c = ledger ! c" "c < length ledger" using prefix_nth [OF assms(2) L(1)] by auto
  have "take (Suc c) ledger = take (Suc c) L" using assms(2) L(1) by (auto simp: prefix_def)
  then have "ledger_ok 0 0 (take (Suc c) ledger)" using ledger_ok_take [OF L(2)] by simp
  moreover have "\<forall>u \<in> set (mt_utterances st). lu_startMs u < covered_end ledger c \<longrightarrow> lu_state u = live_final"
    using none led c(1) by (auto simp: covered_end_def) (metis live_state.exhaust)
  ultimately have "stream_ok ledger (st\<lparr>mt_checkpoint := Some c\<rparr>)"
    using assms(1) c(2) led by (auto simp: stream_ok_def normalized_iff)
  moreover have "stream_grows ledger st (st\<lparr>mt_checkpoint := Some c\<rparr>)"
    using c(4) by (fastforce simp: stream_grows_def)
  ultimately show ?thesis using st' by simp
qed

lemma utterance_step:
  assumes "stream_ok ledger st" "prefix L ledger" "normalizeLiveUtterance u"
  shows "stream_ok ledger (reduce_event st (UtteranceEvent u) L) \<and> stream_grows ledger st (reduce_event st (UtteranceEvent u) L)"
proof (cases "reduce_event st (UtteranceEvent u) L = st")
  case True
  then show ?thesis using assms by simp
next
  case False
  let ?us = "mt_utterances st"
  define index where "index = find_index (\<lambda>x. lu_utteranceId x = lu_utteranceId u) ?us"
  define us' where "us' = (case index of None \<Rightarrow> ?us @ [u] | Some i \<Rightarrow> ?us[i := u])"
  have st': "reduce_event st (UtteranceEvent u) L = st\<lparr>mt_utterances := us'\<rparr>"
    using False by (auto simp: reduce_event_def replaceUtterance_def us'_def index_def Let_def split: if_splits)
  have live: "lu_state (?us ! i) = live_partial" if "index = Some i" for i
    using False that
    by (cases "lu_state (?us ! i)") (auto simp: reduce_event_def index_def [symmetric] Let_def split: if_splits)
  have late: "covered_end ledger c \<le> lu_startMs u" if c: "mt_checkpoint st = Some c" for c
  proof -
    obtain e where e: "persistedCheckpointEndMs c L = Some e" "\<not> lu_startMs u < of_int e"
      using False c by (auto simp: reduce_event_def split: if_splits option.splits)
    then have "c < length L" "e = ck_endMs (L ! c)"
      by (auto simp: persistedCheckpointEndMs_def hasContiguousLedgerPrefix_def split: if_splits)
    with e prefix_nth [OF assms(2)] show ?thesis by (simp add: covered_end_def)
  qed
  have same: "lu_utteranceId (?us ! i) = lu_utteranceId u" "i < length ?us" if "index = Some i" for i
    using that find_index_Some unfolding index_def by (metis (mono_tags, lifting))+
  have ids: "prefix (map lu_utteranceId ?us) (map lu_utteranceId us')"
    using same by (auto simp: us'_def map_update list_update_id split: option.splits)
      (metis list_update_id nth_map prefix_order.refl)
  have "distinct (map lu_utteranceId us')"
  proof (cases index)
    case None
    then have "lu_utteranceId u \<notin> lu_utteranceId ` set ?us" unfolding index_def find_index_None by auto
    with None assms(1) show ?thesis by (simp add: us'_def stream_ok_def normalized_iff)
  next
    case (Some i)
    with same [OF Some] assms(1) have "map lu_utteranceId us' = map lu_utteranceId ?us"
      by (simp add: us'_def map_update) (metis list_update_id nth_map)
    with assms(1) show ?thesis by (simp add: stream_ok_def normalized_iff)
  qed
  moreover have "set us' \<subseteq> insert u (set ?us)" by (auto simp: us'_def dest: set_update_subset_insert [THEN subsetD] split: option.splits)
  ultimately have "stream_ok ledger (st\<lparr>mt_utterances := us'\<rparr>)"
    using assms(1,3) late by (fastforce simp: stream_ok_def normalized_iff)
  moreover have "stream_grows ledger st (st\<lparr>mt_utterances := us'\<rparr>)"
  proof -
    have "filter (\<lambda>x. lu_startMs x < covered_end ledger c) us' = filter (\<lambda>x. lu_startMs x < covered_end ledger c) ?us"
      if c: "mt_checkpoint st = Some c" for c
    proof (cases index)
      case None
      then show ?thesis using late [OF c] by (simp add: us'_def)
    next
      case (Some i)
      have "\<not> lu_startMs (?us ! i) < covered_end ledger c"
        using assms(1) c live [OF Some] nth_mem [OF same(2) [OF Some]] by (auto simp: stream_ok_def)
      moreover have "?us = take i ?us @ ?us ! i # drop (Suc i) ?us" "us' = take i ?us @ u # drop (Suc i) ?us"
        using same(2) [OF Some] Some by (simp_all add: us'_def id_take_nth_drop [symmetric] upd_conv_take_nth_drop)
      ultimately show ?thesis using late [OF c] by (metis (no_types, lifting) filter.simps(2) filter_append not_less)
    qed
    moreover have "us' ! i = ?us ! i" if "i < length ?us" "lu_state (?us ! i) = live_final" for i
    proof (cases index)
      case None
      then show ?thesis using that by (simp add: us'_def nth_append)
    next
      case (Some a)
      then have "i \<noteq> a" using that live [OF Some] by auto
      with Some show ?thesis by (simp add: us'_def)
    qed
    ultimately show ?thesis using ids by (auto simp: stream_grows_def)
  qed
  ultimately show ?thesis using st' by simp
qed

fun stream_run ::
  "MeetingStreamingTranscriptState \<Rightarrow> (js \<times> MeetingChunk list) list \<Rightarrow> MeetingStreamingTranscriptState"
where
  "stream_run st [] = st"
| "stream_run st ((event, ledger) # calls) = stream_run (reduceStreamingTranscript st event ledger) calls"

lemma reduce_step:
  assumes "stream_ok ledger st" "prefix L ledger"
  shows "stream_ok ledger (reduceStreamingTranscript st v L) \<and> stream_grows ledger st (reduceStreamingTranscript st v L)"
proof -
  have n: "normalizeStreamingTranscriptState st = Some st" using assms(1) by (simp add: stream_ok_def)
  show ?thesis
  proof (cases "normalizeStreamingTranscriptEvent v")
    case None
    with n assms show ?thesis by (simp add: reduceStreamingTranscript_def)
  next
    case (Some e)
    with n have r: "reduceStreamingTranscript st v L = reduce_event st e L" by (simp add: reduceStreamingTranscript_def)
    show ?thesis
    proof (cases e)
      case (CoverageEvent k)
      then show ?thesis using coverage_step [OF assms] r by simp
    next
      case (UtteranceEvent u)
      with Some have "normalizeLiveUtterance u" using normalized_event by blast
      from utterance_step [OF assms this] UtteranceEvent r show ?thesis by simp
    qed
  qed
qed

lemma stream_run_step:
  assumes "stream_ok ledger st" "\<forall>(event, L) \<in> set calls. prefix L ledger"
  shows "stream_ok ledger (stream_run st calls) \<and> stream_grows ledger st (stream_run st calls)"
  using assms
proof (induction calls arbitrary: st)
  case (Cons call calls)
  obtain v L where call: "call = (v, L)" by force
  with Cons.prems have "prefix L ledger" by auto
  note step = reduce_step [OF Cons.prems(1) this, of v]
  with Cons.IH [of "reduceStreamingTranscript st v L"] Cons.prems call show ?case
    using stream_grows_trans by (metis (no_types, lifting) list.set_intros(2) stream_run.simps(2))
qed simp

lemma empty_stream_ok: "stream_ok ledger EMPTY_STREAMING_TRANSCRIPT"
  by (simp add: stream_ok_def EMPTY_STREAMING_TRANSCRIPT_def normalized_iff)

section \<open>Properties of a run\<close>

text \<open>
  C35. A live transcript never loses or rewrites settled words. Whatever the events are (any
  value at all, in any order, duplicated, late or malformed) and as long as the ledger only
  grows: every state is one the reducer reads back; an utterance keeps its place and its id; one
  that is final never changes again; the checkpoint never moves back and stays inside the ledger;
  and the utterances that start in the audio a checkpoint covers are all final and are from then
  on exactly the same list, so nothing is added to, dropped from or reworded in covered audio.
\<close>

theorem covered_words_never_change:
  assumes "\<forall>(event, L) \<in> set (past @ later). prefix L ledger"
    and "st = stream_run EMPTY_STREAMING_TRANSCRIPT past" and "st' = stream_run st later"
  shows "normalizeStreamingTranscriptState st' = Some st'
    \<and> prefix (map lu_utteranceId (mt_utterances st)) (map lu_utteranceId (mt_utterances st'))
    \<and> (\<forall>i < length (mt_utterances st). lu_state (mt_utterances st ! i) = live_final \<longrightarrow>
         mt_utterances st' ! i = mt_utterances st ! i)
    \<and> (\<forall>c. mt_checkpoint st = Some c \<longrightarrow>
         c < length ledger \<and> (\<exists>c'. mt_checkpoint st' = Some c' \<and> c \<le> c')
         \<and> filter (\<lambda>u. lu_startMs u < of_int (ck_endMs (ledger ! c))) (mt_utterances st')
             = filter (\<lambda>u. lu_startMs u < of_int (ck_endMs (ledger ! c))) (mt_utterances st)
         \<and> (\<forall>u \<in> set (mt_utterances st'). lu_startMs u < of_int (ck_endMs (ledger ! c)) \<longrightarrow> lu_state u = live_final))"
proof -
  have ok: "stream_ok ledger st" unfolding assms(2)
    using stream_run_step [OF empty_stream_ok, of past] assms(1) by auto
  have run: "stream_ok ledger st'" "stream_grows ledger st st'" unfolding assms(3)
    using stream_run_step [OF ok, of later] assms(1) by auto
  have "lu_state u = live_final"
    if c: "mt_checkpoint st = Some c" and u: "u \<in> set (mt_utterances st')" "lu_startMs u < covered_end ledger c" for c u
  proof -
    obtain c' where c': "mt_checkpoint st' = Some c'" "c \<le> c'" using run(2) c by (auto simp: stream_grows_def)
    with covered_end_mono [OF run(1)] u have "lu_startMs u < covered_end ledger c'" by fastforce
    with c' run(1) u show ?thesis by (auto simp: stream_ok_def)
  qed
  with ok run show ?thesis by (auto simp: stream_ok_def stream_grows_def covered_end_def)
qed

definition demo_ledger :: "MeetingChunk list" where
  "demo_ledger = [\<lparr>ck_sequence = 0, ck_byteLength = 10, ck_startMs = 0, ck_endMs = 3000\<rparr>,
     \<lparr>ck_sequence = 1, ck_byteLength = 10, ck_startMs = 3000, ck_endMs = 6000\<rparr>]"

definition demo_utterance :: "string \<Rightarrow> string \<Rightarrow> int \<Rightarrow> string \<Rightarrow> int \<Rightarrow> int \<Rightarrow> js" where
  "demo_utterance kind name revision body start end =
     JObj [(''kind'', JStr kind), (''utteranceId'', JStr name), (''revision'', JNum (Fin (of_int revision))),
       (''text'', JStr body), (''startMs'', JNum (Fin (of_int start))), (''endMs'', JNum (Fin (of_int end)))]"

definition demo_past :: "(js \<times> MeetingChunk list) list" where
  "demo_past =
     [(demo_utterance ''partial'' ''a'' 0 ''helo'' 0 2000, []),
      (demo_utterance ''final'' ''a'' 0 ''hello'' 0 2000, take 1 demo_ledger),
      (JObj [(''kind'', JStr ''coverage''), (''coveredThroughSequence'', JNum (Fin 0))], take 1 demo_ledger)]"

definition demo_later :: "(js \<times> MeetingChunk list) list" where
  "demo_later =
     [(demo_utterance ''final'' ''b'' 0 ''too late'' 1000 2500, demo_ledger),
      (demo_utterance ''final'' ''c'' 0 ''next'' 3500 4000, demo_ledger)]"

lemma demo_past_state:
  "stream_run EMPTY_STREAMING_TRANSCRIPT demo_past =
     \<lparr>mt_utterances = [\<lparr>lu_state = live_final, lu_utteranceId = ''a'', lu_revision = 0, lu_text = ''hello'',
                        lu_startMs = 0, lu_endMs = 2000\<rparr>],
      mt_checkpoint = Some 0\<rparr>"
  by code_simp

theorem covered_words_never_change_witness:
  "filter (\<lambda>u. lu_startMs u < 3000)
       (mt_utterances (stream_run (stream_run EMPTY_STREAMING_TRANSCRIPT demo_past) demo_later))
   = [\<lparr>lu_state = live_final, lu_utteranceId = ''a'', lu_revision = 0, lu_text = ''hello'', lu_startMs = 0, lu_endMs = 2000\<rparr>]"
proof -
  have "\<forall>(event, L) \<in> set (demo_past @ demo_later). prefix L demo_ledger"
    by (simp add: demo_past_def demo_later_def demo_ledger_def)
  from covered_words_never_change [OF this refl refl] show ?thesis
    by (simp add: demo_past_state) (simp add: demo_ledger_def)
qed

section \<open>Promotion\<close>

text \<open>Runs that partition a ledger without gaps have ranges that partition its span.\<close>

fun gapless :: "MeetingChunk list \<Rightarrow> bool" where
  "gapless [] \<longleftrightarrow> True"
| "gapless (a # cs) \<longleftrightarrow> (cs \<noteq> [] \<longrightarrow> ck_endMs a = ck_startMs (hd cs)) \<and> gapless cs"

lemma gapless_append:
  "gapless (xs @ ys) \<longleftrightarrow> gapless xs \<and> gapless ys \<and> (xs \<noteq> [] \<and> ys \<noteq> [] \<longrightarrow> ck_endMs (last xs) = ck_startMs (hd ys))"
  by (induction xs) auto

definition run_contains :: "rat \<Rightarrow> MeetingChunk list \<Rightarrow> bool" where
  "run_contains t r \<longleftrightarrow> of_int (ck_startMs (hd r)) \<le> t \<and> t < of_int (ck_endMs (last r))"

lemma runs_partition:
  assumes "\<forall>r \<in> set runs. r \<noteq> []" "gapless (concat runs)" "ledger_ok k e (concat runs)"
  shows "length (filter (run_contains t) runs) = (if runs \<noteq> [] \<and> run_contains t (concat runs) then 1 else 0)"
  using assms
proof (induction runs arbitrary: k e)
  case Nil
  then show ?case by simp
next
  case (Cons r runs)
  obtain e' where tail: "ledger_ok (k + length r) e' (concat runs)"
    using ledger_ok_drop [of k e "r @ concat runs" "length r"] Cons.prems(3) by auto
  have r: "ck_startMs (hd r) < ck_endMs (last r)" "r \<noteq> []"
    using ledger_ok_run [of k e r] ledger_ok_take [of k e "r @ concat runs" "length r"] Cons.prems by auto
  have IH: "length (filter (run_contains t) runs) = (if runs \<noteq> [] \<and> run_contains t (concat runs) then 1 else 0)"
    using Cons.IH [OF _ _ tail] Cons.prems by (simp add: gapless_append)
  show ?case
  proof (cases "runs = []")
    case True
    then show ?thesis using IH r by simp
  next
    case False
    then have ne: "concat runs \<noteq> []" using Cons.prems(1) by (cases runs) auto
    then have "ck_endMs (last r) = ck_startMs (hd (concat runs))" "ck_startMs (hd (concat runs)) < ck_endMs (last (concat runs))"
      using Cons.prems(2) r ledger_ok_run [OF tail] by (simp_all add: gapless_append)
    moreover from this have "of_int (ck_startMs (hd (concat runs))) < (of_int (ck_endMs (last (concat runs))) :: rat)"
      "of_int (ck_startMs (hd r)) < (of_int (ck_endMs (last r)) :: rat)" using r by simp_all
    moreover have "run_contains t (concat (r # runs)) \<longleftrightarrow>
        of_int (ck_startMs (hd r)) \<le> t \<and> t < of_int (ck_endMs (last (concat runs)))"
      using r ne by (simp add: run_contains_def)
    moreover note run_contains_def [of t r] run_contains_def [of t "concat runs"]
    ultimately show ?thesis using IH False by (auto simp del: concat.simps)
  qed
qed

lemma fold_to_units:
  "fold (\<lambda>r segments. segments @ [toUnit (length segments) r]) runs ss
   = ss @ map2 toUnit [length ss..<length ss + length runs] runs"
proof (induction runs arbitrary: ss)
  case (Cons r runs)
  have "[length ss..<length ss + length (r # runs)] = length ss # [Suc (length ss)..<Suc (length ss) + length runs]"
    by (rule trans [OF upt_conv_Cons]) simp_all
  with Cons [of "ss @ [toUnit (length ss) r]"] show ?case by simp
qed simp

lemma map2_units:
  assumes "length ns = length runs"
  shows "map unitChunkSequences (map2 toUnit ns runs) = map (map ck_sequence) runs"
    "length (filter (\<lambda>u. of_int (sg_startMs u) \<le> t \<and> t < of_int (sg_endMs u)) (map2 toUnit ns runs))
      = length (filter (run_contains t) runs)"
    "\<forall>u \<in> set (map2 toUnit ns runs). sg_state u = seg_pending"
  using assms
  by (induction ns runs rule: list_induct2) (auto simp: toUnit_def unitChunkSequences_def run_contains_def)

definition settled_with :: "MeetingLiveUtterance list \<Rightarrow> MeetingSegment \<Rightarrow> MeetingSegment" where
  "settled_with utterances u =
     u\<lparr>sg_failureReason := None, sg_state := seg_done,
       sg_text := Some (utteranceTextFor (sg_startMs u) (sg_endMs u) utterances)\<rparr>"

lemma settled_with_simps [simp]:
  "sg_state (settled_with us u) = seg_done" "sg_startMs (settled_with us u) = sg_startMs u"
  "sg_endMs (settled_with us u) = sg_endMs u" "unitChunkSequences (settled_with us u) = unitChunkSequences u"
  "sg_text (settled_with us u) = Some (utteranceTextFor (sg_startMs u) (sg_endMs u) us)"
  "audio (settled_with us u) = audio u" "sg_index (settled_with us u) = sg_index u"
  by (simp_all add: settled_with_def unitChunkSequences_def audio_def cong: option.case_cong)

lemma settle_units_settles:
  assumes "\<not> isTerminalCaptureStatus (cs_status s)" "\<forall>u \<in> set fresh. sg_state u = seg_pending"
    "length pre' = length pre"
  shows "settle_units (pre @ fresh) utterances [length pre..<length pre + length fresh]
      (s\<lparr>cs_segments := pre' @ fresh\<rparr>) = Inr (s\<lparr>cs_segments := pre' @ map (settled_with utterances) fresh\<rparr>)"
  using assms(2,3)
proof (induction fresh arbitrary: pre pre')
  case (Cons u fresh)
  have "[length pre..<length pre + length (u # fresh)] = length pre # [Suc (length pre)..<Suc (length pre) + length fresh]"
    by (rule trans [OF upt_conv_Cons]) simp_all
  moreover have "markDone (s\<lparr>cs_segments := pre' @ u # fresh\<rparr>) (length pre)
      (utteranceTextFor (sg_startMs u) (sg_endMs u) utterances)
      = Inr (s\<lparr>cs_segments := (pre' @ [settled_with utterances u]) @ fresh\<rparr>)"
    using Cons.prems(1) assms(1) Cons.prems(2) [symmetric] by (simp add: markDone_def replaceSegment_def settled_with_def nth_append list_update_append)
  moreover have "settle_units ((pre @ [u]) @ fresh) utterances [length (pre @ [u])..<length (pre @ [u]) + length fresh]
      (s\<lparr>cs_segments := (pre' @ [settled_with utterances u]) @ fresh\<rparr>)
      = Inr (s\<lparr>cs_segments := (pre' @ [settled_with utterances u]) @ map (settled_with utterances) fresh\<rparr>)"
    by (rule Cons.IH) (use Cons.prems in auto)
  ultimately show ?case by (simp add: nth_append)
qed simp

text \<open>
  Coverage of a stream becomes durable text exactly once. For every record the validator
  accepts that is still open, committing coverage through a chunk succeeds: the units there were
  stay as they are, the ledger stays as it is, and new units read exactly the open chunks up to
  the covered one, each settled with the final utterances that start in its range; the record is
  readable again. When the ledger has no gap, every moment of the newly covered audio lies in
  exactly one new unit and no other moment in any, so a final utterance is written once, and
  never into a range another unit already owns.
\<close>

theorem coverage_is_committed_once:
  assumes "isMeetingCaptureSession parse (session_json s)" "within_safe s"
    "\<not> isTerminalCaptureStatus (cs_status s)"
    and covered: "covered = filter (\<lambda>k. ck_sequence k \<le> c) (openChunks s)"
  shows "\<exists>s' fresh. commitStreamedCoverage s c utterances = Inr s'
    \<and> cs_segments s' = cs_segments s @ fresh \<and> captureChunks s' = captureChunks s
    \<and> isMeetingCaptureSession parse (session_json s')
    \<and> concat (map unitChunkSequences fresh) = map ck_sequence covered
    \<and> (\<forall>u \<in> set fresh. sg_state u = seg_done
          \<and> sg_text u = Some (utteranceTextFor (sg_startMs u) (sg_endMs u) utterances))
    \<and> (gapless (captureChunks s) \<longrightarrow>
         (\<forall>t :: rat. length (filter (\<lambda>u. of_int (sg_startMs u) \<le> t \<and> t < of_int (sg_endMs u)) fresh)
              = (if covered \<noteq> [] \<and> of_int (ck_startMs (hd covered)) \<le> t \<and> t < of_int (ck_endMs (last covered))
                 then 1 else 0)))"
proof -
  have ok: "session_ok parse s" using assms(1,2) isMeetingCaptureSession_json by blast
  define inp where "inp = \<lparr>su_throughSequence = Some (int c), su_policy = None, su_keepRemainder = False\<rparr>"
  define runs where "runs = cutRuns covered BOUNDED_ENDPOINT_UNIT_POLICY False"
  define units where "units = map2 toUnit [length (cs_segments s)..<length (cs_segments s) + length runs] runs"
  define s' where "s' = s\<lparr>cs_segments := cs_segments s @ map (settled_with utterances) units\<rparr>"
  have runs: "concat runs = covered" "\<forall>r \<in> set runs. r \<noteq> []"
    by (auto simp: runs_def cutRuns_concat dest: cutRuns_nonempty)
  have units: "map unitChunkSequences units = map (map ck_sequence) runs"
    "length (filter (\<lambda>u. of_int (sg_startMs u) \<le> t \<and> t < of_int (sg_endMs u)) units) = length (filter (run_contains t) runs)"
    "\<forall>u \<in> set units. sg_state u = seg_pending" "length units = length runs" for t
    unfolding units_def by (rule map2_units; simp)+ simp
  have sealed: "sealUnitsFromLedger s inp = s\<lparr>cs_segments := cs_segments s @ units\<rparr>"
    using runs by (auto simp: sealUnitsFromLedger_def inp_def covered runs_def units_def fold_to_units Let_def)
  have commit: "commitStreamedCoverage s c utterances = Inr s'"
    using assms(3) units(3) settle_units_settles [OF assms(3) units(3), of "cs_segments s" "cs_segments s" utterances] sealed
    by (simp add: commitStreamedCoverage_def sealUnit_def requireOpen_def s'_def inp_def [symmetric] Let_def)
  have "session_ok parse (s\<lparr>cs_segments := cs_segments s @ units\<rparr>)" using seal_session_ok [OF ok, of inp] sealed by simp
  then have "session_ok parse s'"
    by (rule session_ok_audio) (use ok in \<open>simp_all add: s'_def session_ok_def\<close>)
  moreover have chunks: "captureChunks s' = captureChunks s"
  proof (cases "cs_chunks s")
    case None
    then have "units = []" using legacy_nothing_open [OF ok] runs by (cases runs) (auto simp: covered units_def)
    then show ?thesis by (simp add: s'_def)
  qed (simp add: captureChunks_def s'_def)
  ultimately have readable: "isMeetingCaptureSession parse (session_json s')"
    using assms(2) isMeetingCaptureSession_json by (simp add: within_safe_def)
  have once: "length (filter (\<lambda>u. of_int (sg_startMs u) \<le> t \<and> t < of_int (sg_endMs u)) (map (settled_with utterances) units))
      = (if covered \<noteq> [] \<and> of_int (ck_startMs (hd covered)) \<le> t \<and> t < of_int (ck_endMs (last covered)) then 1 else 0)"
    if "gapless (captureChunks s)" for t :: rat
  proof -
    obtain e where e: "ledger_ok (reach (cs_segments s)) e (openChunks s)"
      using ledger_ok_drop [OF session_ledger(1) [OF ok]] open_suffix [OF ok] by (metis add_0)
    obtain rest where rest: "openChunks s = covered @ rest" 
      using filter_through [OF e, of "int c"] by (auto simp: covered prefix_def)
    obtain front where "captureChunks s = front @ openChunks s" using open_suffix [OF ok] by (metis append_take_drop_id)
    with rest that have "gapless (concat runs)" by (simp add: runs gapless_append)
    moreover have "ledger_ok (reach (cs_segments s)) e (concat runs)"
      using ledger_ok_take [OF e, of "length covered"] by (simp add: runs rest)
    moreover have "runs = [] \<longleftrightarrow> covered = []" using runs by (cases runs) auto
    ultimately show ?thesis
      using runs_partition [OF runs(2), where t = t] units(2) [where t = t] by (simp add: filter_map comp_def runs(1) run_contains_def)
  qed
  show ?thesis
    by (intro exI [of _ s'] exI [of _ "map (settled_with utterances) units"] conjI impI allI commit chunks readable)
      (use once in \<open>auto simp: s'_def comp_def units(1) runs map_concat [symmetric]\<close>)
qed

definition demo_final :: MeetingLiveUtterance where
  "demo_final = \<lparr>lu_state = live_final, lu_utteranceId = ''a'', lu_revision = 0, lu_text = ''hello'', lu_startMs = 500, lu_endMs = 2000\<rparr>"

theorem coverage_is_committed_once_witness:
  "\<exists>s' fresh. commitStreamedCoverage demo_capture 0 [demo_final] = Inr s' \<and> cs_segments s' = fresh
    \<and> concat (map unitChunkSequences fresh) = [0]
    \<and> length (filter (\<lambda>u. of_int (sg_startMs u) \<le> lu_startMs demo_final \<and> lu_startMs demo_final < of_int (sg_endMs u)) fresh) = 1"
proof -
  have safe: "within_safe demo_capture"
    by (simp add: within_safe_def captureChunks_def demo_capture_def MAX_SAFE_INTEGER_def)
  have "isMeetingCaptureSession (\<lambda>_. Fin 0) (session_json demo_capture)"
    using demo_capture_ok safe isMeetingCaptureSession_json by blast
  moreover have chunks: "captureChunks demo_capture = [\<lparr>ck_sequence = 0, ck_byteLength = 10, ck_startMs = 0, ck_endMs = 3000\<rparr>]"
    "openChunks demo_capture = captureChunks demo_capture" "cs_segments demo_capture = []"
    by (simp_all add: demo_capture_def captureChunks_def openChunks_def claimedChunkCount_def)
  moreover have "\<not> isTerminalCaptureStatus (cs_status demo_capture)" by (simp add: demo_capture_def)
  ultimately obtain s' fresh where "commitStreamedCoverage demo_capture 0 [demo_final] = Inr s'" "cs_segments s' = fresh"
    "concat (map unitChunkSequences fresh) = [0]"
    "\<forall>t :: rat. length (filter (\<lambda>u. of_int (sg_startMs u) \<le> t \<and> t < of_int (sg_endMs u)) fresh)
      = (if 0 \<le> t \<and> t < 3000 then 1 else 0)"
    using coverage_is_committed_once [OF _ safe _ refl, of "\<lambda>_. Fin 0" 0 "[demo_final]"] by auto
  moreover have "0 \<le> lu_startMs demo_final \<and> lu_startMs demo_final < 3000" by (simp add: demo_final_def)
  ultimately show ?thesis by (intro exI [of _ s'] exI [of _ fresh]) simp
qed

end
