(* ===== verification/JsNumber.thy ===== *)
theory JsNumber
  imports Prelude
begin

text \<open>
  The conversion to numbers the language applies to a value of unknown shape: \<open>Number(v)\<close>,
  \<open>Math.trunc\<close>, addition and \<open>n || 0\<close>. Finite values are exact rationals, as everywhere in the
  development; the two infinities and \<open>NaN\<close> are kept apart here because \<open>||\<close> tells them apart.
  A \<open>jsnum\<close> that is not finite comes from no JSON text; it is read as \<open>NaN\<close>.
\<close>

datatype number = Num rat | PosInf | NegInf | NaN

section \<open>Numeric strings\<close>

definition is_digit :: "char \<Rightarrow> bool" where
  "is_digit c \<longleftrightarrow> 48 \<le> (of_char c :: nat) \<and> (of_char c :: nat) \<le> 57"

text \<open>The value of a digit in a base up to sixteen.\<close>

definition digit_value :: "char \<Rightarrow> nat option" where
  "digit_value c =
     (let n = of_char c :: nat
      in if 48 \<le> n \<and> n \<le> 57 then Some (n - 48)
         else if 97 \<le> n \<and> n \<le> 102 then Some (n - 87)
         else if 65 \<le> n \<and> n \<le> 70 then Some (n - 55)
         else None)"

fun digits_value :: "nat \<Rightarrow> string \<Rightarrow> nat \<Rightarrow> nat option" where
  "digits_value base [] acc = Some acc"
| "digits_value base (c # cs) acc =
     (case digit_value c of
        Some d \<Rightarrow> if d < base then digits_value base cs (acc * base + d) else None
      | None \<Rightarrow> None)"

definition natural :: "nat \<Rightarrow> string \<Rightarrow> nat option" where
  "natural base s = (if s = [] then None else digits_value base s 0)"

text \<open>An exponent part: empty, or \<open>e\<close> with an optional sign and digits.\<close>

definition exponent_value :: "string \<Rightarrow> int option" where
  "exponent_value s =
     (case s of
        [] \<Rightarrow> Some 0
      | c # cs \<Rightarrow>
          if c \<noteq> CHR ''e'' \<and> c \<noteq> CHR ''E'' then None
          else if starts_with ''-'' cs then map_option (\<lambda>n. - int n) (natural 10 (tl cs))
          else if starts_with ''+'' cs then map_option int (natural 10 (tl cs))
          else map_option int (natural 10 cs))"

definition scaled :: "rat \<Rightarrow> int \<Rightarrow> rat" where
  "scaled q e = (if e \<ge> 0 then q * 10 ^ nat e else q / 10 ^ nat (- e))"

definition unsigned_value :: "string \<Rightarrow> number" where
  "unsigned_value s =
     (if s = ''Infinity'' then PosInf
      else
        let whole = takeWhile is_digit s; rest = dropWhile is_digit s;
            dot = starts_with ''.'' rest;
            frac = (if dot then takeWhile is_digit (tl rest) else []);
            tail = (if dot then dropWhile is_digit (tl rest) else rest)
        in if whole = [] \<and> frac = [] then NaN
           else
             (case (digits_value 10 (whole @ frac) 0, exponent_value tail) of
                (Some n, Some e) \<Rightarrow> Num (scaled (of_nat n) (e - int (length frac)))
              | _ \<Rightarrow> NaN))"

definition negated :: "number \<Rightarrow> number" where
  "negated n = (case n of Num q \<Rightarrow> Num (- q) | PosInf \<Rightarrow> NegInf | NegInf \<Rightarrow> PosInf | NaN \<Rightarrow> NaN)"

definition based_value :: "nat \<Rightarrow> string \<Rightarrow> number" where
  "based_value base s = (case natural base s of Some n \<Rightarrow> Num (of_nat n) | None \<Rightarrow> NaN)"

definition string_value :: "string \<Rightarrow> number" where
  "string_value s =
     (let t = js_trim s
      in if t = [] then Num 0
         else if starts_with ''0x'' t \<or> starts_with ''0X'' t then based_value 16 (drop 2 t)
         else if starts_with ''0o'' t \<or> starts_with ''0O'' t then based_value 8 (drop 2 t)
         else if starts_with ''0b'' t \<or> starts_with ''0B'' t then based_value 2 (drop 2 t)
         else if starts_with ''-'' t then negated (unsigned_value (tl t))
         else if starts_with ''+'' t then unsigned_value (tl t)
         else unsigned_value t)"

section \<open>Conversion\<close>

text \<open>
  \<open>Number(v)\<close>. An array is converted through its text, so one element counts as itself (with
  nothing there as the empty text and a boolean as its word), and two or more never read as a number.
\<close>

fun to_number :: "js \<Rightarrow> number" where
  "to_number JUndefined = NaN"
| "to_number JNull = Num 0"
| "to_number (JBool b) = Num (if b then 1 else 0)"
| "to_number (JNum (Fin q)) = Num q"
| "to_number (JNum NonFinite) = NaN"
| "to_number (JStr s) = string_value s"
| "to_number (JArr []) = Num 0"
| "to_number (JArr [v]) =
     (case v of JUndefined \<Rightarrow> Num 0 | JNull \<Rightarrow> Num 0 | JBool _ \<Rightarrow> NaN | _ \<Rightarrow> to_number v)"
| "to_number (JArr (_ # _ # _)) = NaN"
| "to_number (JObj _) = NaN"

definition truncated_number :: "number \<Rightarrow> number" where
  "truncated_number n = (case n of Num q \<Rightarrow> Num (of_int (if q \<ge> 0 then \<lfloor>q\<rfloor> else \<lceil>q\<rceil>)) | _ \<Rightarrow> n)"

definition falsy_number :: "number \<Rightarrow> bool" where
  "falsy_number n \<longleftrightarrow> n = Num 0 \<or> n = NaN"

definition finite_number :: "number \<Rightarrow> bool" where
  "finite_number n = (case n of Num _ \<Rightarrow> True | _ \<Rightarrow> False)"

fun add_number :: "number \<Rightarrow> number \<Rightarrow> number" where
  "add_number (Num p) (Num q) = Num (p + q)"
| "add_number NaN _ = NaN"
| "add_number _ NaN = NaN"
| "add_number PosInf NegInf = NaN"
| "add_number NegInf PosInf = NaN"
| "add_number PosInf _ = PosInf"
| "add_number _ PosInf = PosInf"
| "add_number NegInf _ = NegInf"
| "add_number _ NegInf = NegInf"

text \<open>\<open>String(n)\<close> of an integral number (without the exponent notation from \<open>10^21\<close> on).\<close>

definition show_number :: "number \<Rightarrow> string" where
  "show_number n =
     (case n of Num q \<Rightarrow> show_int \<lfloor>q\<rfloor> | PosInf \<Rightarrow> ''Infinity'' | NegInf \<Rightarrow> ''-Infinity'' | NaN \<Rightarrow> ''NaN'')"

text \<open>A value in a condition.\<close>

definition js_truthy :: "js \<Rightarrow> bool" where
  "js_truthy v =
     (case v of
        JUndefined \<Rightarrow> False | JNull \<Rightarrow> False | JBool b \<Rightarrow> b
      | JNum (Fin q) \<Rightarrow> q \<noteq> 0 | JNum NonFinite \<Rightarrow> False
      | JStr s \<Rightarrow> s \<noteq> [] | _ \<Rightarrow> True)"

text \<open>\<open>typeof v === 'object'\<close> for a value that is not null.\<close>

definition js_is_object :: "js \<Rightarrow> bool" where
  "js_is_object v = (case v of JArr _ \<Rightarrow> True | JObj _ \<Rightarrow> True | _ \<Rightarrow> False)"

text \<open>\<open>field in v\<close>.\<close>

definition js_has :: "js \<Rightarrow> string \<Rightarrow> bool" where
  "js_has v field = (case v of JObj fields \<Rightarrow> field \<in> fst ` set fields | _ \<Rightarrow> False)"

lemma string_value_examples:
  "string_value ''  12 '' = Num 12" "string_value ''-1.5e2'' = Num (- 150)" "string_value ''0x1f'' = Num 31"
  "string_value [] = Num 0" "string_value ''12px'' = NaN" "string_value ''.'' = NaN" "string_value ''5.'' = Num 5"
  by code_simp+

end
