(* ===== verification/ExecutionMap.thy ===== *)
theory ExecutionMap
  imports JsNumber JsText
begin

text \<open>
  The vocabulary of an execution, \<open>packages/agent-protocol/src/executionMap.ts\<close>: statuses, the
  event and the node occurrence, the identity of an occurrence and the bounds. A status is its
  wire name. A number of an occurrence is a \<open>number\<close>, because the reducer reads it out of an
  untyped payload.
\<close>

definition OPEN_EXECUTION_STATUSES :: "string list" where
  "OPEN_EXECUTION_STATUSES = [''planned'', ''running'', ''waiting-approval'']"

definition TERMINAL_EXECUTION_STATUSES :: "string list" where
  "TERMINAL_EXECUTION_STATUSES =
     [''succeeded'', ''degraded'', ''failed'', ''blocked'', ''cancelled'', ''interrupted'']"

definition isOpenExecutionStatus :: "string \<Rightarrow> bool" where
  "isOpenExecutionStatus s \<longleftrightarrow> s \<in> set OPEN_EXECUTION_STATUSES"

definition isTerminalExecutionStatus :: "string \<Rightarrow> bool" where
  "isTerminalExecutionStatus s \<longleftrightarrow> s \<in> set TERMINAL_EXECUTION_STATUSES"

definition isExecutionStatus :: "string \<Rightarrow> bool" where
  "isExecutionStatus s \<longleftrightarrow> isOpenExecutionStatus s \<or> isTerminalExecutionStatus s"

definition isNodeOccurrenceStatus :: "string \<Rightarrow> bool" where
  "isNodeOccurrenceStatus s \<longleftrightarrow> isExecutionStatus s \<or> s = ''skipped''"

definition canTransitionExecutionStatus :: "string \<Rightarrow> string \<Rightarrow> bool" where
  "canTransitionExecutionStatus a b = (if isTerminalExecutionStatus a then a = b else isExecutionStatus b)"

datatype SnapshotCompleteness = complete | gapped | unavailable

record ExecutionUsage =
  us_promptTokens :: number
  us_completionTokens :: number
  us_toolCalls :: number
  us_wallClockMs :: number

definition emptyExecutionUsage :: ExecutionUsage where
  "emptyExecutionUsage =
     \<lparr>us_promptTokens = Num 0, us_completionTokens = Num 0, us_toolCalls = Num 0, us_wallClockMs = Num 0\<rparr>"

record ExecutionNodeOccurrence =
  no_nodeExecutionId :: string
  no_nodeId :: string
  no_attempt :: number
  no_iterationPath :: "number list"
  no_status :: string
  no_childSessionIds :: "string list"
  no_usage :: ExecutionUsage
  no_terminalReasonCodes :: "string list"

record ExecutionEvent =
  ev_eventId :: string
  ev_executionId :: string
  ev_executionSequence :: int
  ev_sessionKey :: string
  ev_goalId :: "string option"
  ev_emittedAt :: string
  ev_nodeExecutionId :: "string option"
  ev_payload :: js

definition MAX_REASON_CODES :: nat where
  "MAX_REASON_CODES = 16"

definition MAX_REASON_CODE_CHARS :: nat where
  "MAX_REASON_CODE_CHARS = 64"

definition MAX_ITERATION_PATH_DEPTH :: nat where
  "MAX_ITERATION_PATH_DEPTH = 8"

text \<open>The loop of \<open>boundReasonCodes\<close>: what is collected so far, and the codes still to read.\<close>

fun bound_codes :: "string list \<Rightarrow> string list \<Rightarrow> string list" where
  "bound_codes out [] = out"
| "bound_codes out (code # rest) =
     (let trimmed = js_trim code
      in if trimmed = [] then bound_codes out rest
         else
           let out' = out @ [take MAX_REASON_CODE_CHARS trimmed]
           in if length out' \<ge> MAX_REASON_CODES then out' else bound_codes out' rest)"

definition boundReasonCodes :: "string list \<Rightarrow> string list" where
  "boundReasonCodes raw = bound_codes [] raw"

definition occurrenceKey :: "string \<Rightarrow> number \<Rightarrow> number list \<Rightarrow> string" where
  "occurrenceKey nodeId attempt iterationPath =
     (let path = js_join ''.'' (map (\<lambda>n. show_number (truncated_number n)) (take MAX_ITERATION_PATH_DEPTH iterationPath))
      in nodeId @ ''#'' @ show_number (truncated_number attempt) @ (if path \<noteq> [] then ''@'' @ path else []))"

section \<open>Facts\<close>

lemma terminal_is_status: "isTerminalExecutionStatus s \<Longrightarrow> isExecutionStatus s"
  by (simp add: isExecutionStatus_def)

lemma open_not_terminal: "isOpenExecutionStatus s \<Longrightarrow> \<not> isTerminalExecutionStatus s"
  by (auto simp: isOpenExecutionStatus_def isTerminalExecutionStatus_def OPEN_EXECUTION_STATUSES_def
      TERMINAL_EXECUTION_STATUSES_def)

definition bounded_codes :: "string list \<Rightarrow> bool" where
  "bounded_codes codes \<longleftrightarrow>
     length codes \<le> MAX_REASON_CODES \<and> list_all (\<lambda>c. c \<noteq> [] \<and> length c \<le> MAX_REASON_CODE_CHARS) codes"

lemma bound_codes_bounds:
  "length out < MAX_REASON_CODES \<Longrightarrow> bounded_codes out \<Longrightarrow> bounded_codes (bound_codes out raw)"
proof (induction raw arbitrary: out)
  case Nil
  then show ?case by simp
next
  case (Cons code raw)
  show ?case
  proof (cases "js_trim code = []")
    case True
    with Cons show ?thesis by simp
  next
    case False
    let ?out = "out @ [take MAX_REASON_CODE_CHARS (js_trim code)]"
    have "bounded_codes ?out"
      using Cons.prems False by (simp add: bounded_codes_def MAX_REASON_CODE_CHARS_def)
    with Cons.IH [of ?out] False show ?thesis by (simp add: Let_def)
  qed
qed

lemma bounded_reason_codes [simp]: "bounded_codes (boundReasonCodes raw)" "bounded_codes []"
  using bound_codes_bounds [of "[]" raw]
  by (simp_all add: boundReasonCodes_def bounded_codes_def MAX_REASON_CODES_def)

end
