(* ===== verification/ExecutionReducer.thy ===== *)
theory ExecutionReducer
  imports ExecutionMap "HOL-Library.AList"
begin

text \<open>
  The reducer over execution events and its bounded store, \<open>packages/core/src/orchestration/
  execution/reducer.ts\<close>. A \<open>Map\<close> whose order is observed is an association list updated in place
  (\<open>AList.update\<close>, which appends a new key), a \<open>Set\<close> of ids is a list without repetition, and
  the index of child sessions, which is only read by key, is a map.
\<close>

definition MAX_EXECUTIONS :: nat where "MAX_EXECUTIONS = 200"
definition MAX_EVENTS_PER_EXECUTION :: nat where "MAX_EVENTS_PER_EXECUTION = 2000"
definition MAX_OCCURRENCES_PER_EXECUTION :: nat where "MAX_OCCURRENCES_PER_EXECUTION = 1000"
definition MAX_DECISIONS_PER_EXECUTION :: nat where "MAX_DECISIONS_PER_EXECUTION = 1000"
definition MAX_TRAVERSALS_PER_EXECUTION :: nat where "MAX_TRAVERSALS_PER_EXECUTION = 1000"

record ProjectedDecision =
  pd_decisionId :: string
  pd_kind :: string
  pd_nodeExecutionId :: "string option"
  pd_outcome :: string
  pd_reasonCodes :: "string list"
  pd_decidedAt :: string

record ProjectedTraversal =
  pt_traversalId :: string
  pt_edgeId :: string
  pt_state :: string
  pt_sequence :: int

record ProjectedLoopBudget =
  pl_nodeId :: string
  pl_declared :: number
  pl_observed :: number
  pl_sequence :: int

text \<open>What events project into, and around it the bookkeeping of delivery.\<close>

record Projection =
  pj_status :: string
  pj_occurrences :: "(string \<times> ExecutionNodeOccurrence) list"
  pj_decisions :: "ProjectedDecision list"
  pj_traversals :: "ProjectedTraversal list"
  pj_terminalReasonCodes :: "string list"
  pj_loopBudgets :: "ProjectedLoopBudget list"
  pj_usage :: ExecutionUsage
  pj_truncated :: bool

record ExecutionState =
  xs_sessionKey :: string
  xs_goalId :: "string option"
  xs_watermark :: int
  xs_seenEventIds :: "string list"
  xs_pending :: "(int \<times> ExecutionEvent) list"
  xs_eventCount :: nat
  xs_gapped :: bool
  xs_archived :: bool
  xs_projection :: Projection

record ExecutionSessionStore =
  es_executions :: "(string \<times> ExecutionState) list"
  es_bySession :: "(string \<times> string list) list"
  es_byChildSession :: "(string \<times> string) list"
  es_byGoal :: "(string \<times> string list) list"

section \<open>Reading a payload\<close>

definition field_string :: "js \<Rightarrow> string \<Rightarrow> string option" where
  "field_string v field = (case js_get v field of JStr s \<Rightarrow> Some s | _ \<Rightarrow> None)"

definition strings_in :: "js list \<Rightarrow> string list" where
  "strings_in vs = concat (map (\<lambda>v. case v of JStr s \<Rightarrow> [s] | _ \<Rightarrow> []) vs)"

definition addUsage :: "ExecutionUsage \<Rightarrow> js \<Rightarrow> ExecutionUsage" where
  "addUsage into add =
     (if \<not> js_truthy add then into
      else
        let field = (\<lambda>name. let n = to_number (js_get add name) in if falsy_number n then Num 0 else n)
        in \<lparr>us_promptTokens = add_number (us_promptTokens into) (field ''promptTokens''),
            us_completionTokens = add_number (us_completionTokens into) (field ''completionTokens''),
            us_toolCalls = add_number (us_toolCalls into) (field ''toolCalls''),
            us_wallClockMs = add_number (us_wallClockMs into) (field ''wallClockMs'')\<rparr>)"

definition numericPath :: "js \<Rightarrow> number list" where
  "numericPath v =
     (case v of
        JArr vs \<Rightarrow> filter finite_number (map (\<lambda>n. truncated_number (to_number n)) vs)
      | _ \<Rightarrow> [])"

definition mergeChildSessions :: "string list \<Rightarrow> js \<Rightarrow> string list" where
  "mergeChildSessions previous incoming =
     dedupe (previous @ (case incoming of JArr vs \<Rightarrow> filter (\<lambda>s. s \<noteq> []) (strings_in vs) | _ \<Rightarrow> []))"

section \<open>Folding one event\<close>

definition project_decision :: "ExecutionEvent \<Rightarrow> Projection \<Rightarrow> Projection" where
  "project_decision event p =
     (let d = js_get (ev_payload event) ''decision''
      in if \<not> js_is_object d then p
         else if length (pj_decisions p) \<ge> MAX_DECISIONS_PER_EXECUTION then p\<lparr>pj_truncated := True\<rparr>
         else p\<lparr>pj_decisions := pj_decisions p @
           [\<lparr>pd_decisionId = ev_eventId event,
             pd_kind = (case field_string d ''kind'' of Some k \<Rightarrow> k | None \<Rightarrow> ''unknown''),
             pd_nodeExecutionId = or_else (ev_nodeExecutionId event) (field_string (ev_payload event) ''nodeId''),
             pd_outcome = (case field_string d ''outcome'' of Some k \<Rightarrow> k | None \<Rightarrow> []),
             pd_reasonCodes = boundReasonCodes (case js_get d ''reasonCodes'' of JArr vs \<Rightarrow> strings_in vs | _ \<Rightarrow> []),
             pd_decidedAt = ev_emittedAt event\<rparr>]\<rparr>)"

definition project_traversal :: "ExecutionEvent \<Rightarrow> Projection \<Rightarrow> Projection" where
  "project_traversal event p =
     (case field_string (ev_payload event) ''edgeId'' of
        None \<Rightarrow> p
      | Some edgeId \<Rightarrow>
          if length (pj_traversals p) \<ge> MAX_TRAVERSALS_PER_EXECUTION then p\<lparr>pj_truncated := True\<rparr>
          else p\<lparr>pj_traversals := pj_traversals p @
            [\<lparr>pt_traversalId = ev_eventId event, pt_edgeId = edgeId,
              pt_state = (case field_string (ev_payload event) ''edgeState'' of Some t \<Rightarrow> t | None \<Rightarrow> ''traversed''),
              pt_sequence = ev_executionSequence event\<rparr>]\<rparr>)"

definition finite_or_zero :: "js \<Rightarrow> number" where
  "finite_or_zero v = (if finite_number (to_number v) then to_number v else Num 0)"

definition project_loop :: "ExecutionEvent \<Rightarrow> Projection \<Rightarrow> Projection" where
  "project_loop event p =
     (let b = js_get (ev_payload event) ''loopBudget''
      in if \<not> js_is_object b then p
         else
           (case field_string b ''nodeId'' of
              None \<Rightarrow> p
            | Some nodeId \<Rightarrow>
                if length (pj_loopBudgets p) \<ge> MAX_OCCURRENCES_PER_EXECUTION then p\<lparr>pj_truncated := True\<rparr>
                else p\<lparr>pj_loopBudgets := pj_loopBudgets p @
                  [\<lparr>pl_nodeId = nodeId, pl_declared = finite_or_zero (js_get b ''declared''),
                    pl_observed = finite_or_zero (js_get b ''observed''),
                    pl_sequence = ev_executionSequence event\<rparr>]\<rparr>))"

definition project_status :: "ExecutionEvent \<Rightarrow> string \<Rightarrow> Projection \<Rightarrow> Projection" where
  "project_status event nxt p =
     (let p' = (if isExecutionStatus nxt \<and> canTransitionExecutionStatus (pj_status p) nxt
                then p\<lparr>pj_status := nxt\<rparr> else p)
      in case js_get (ev_payload event) ''reasonCodes'' of
           JArr vs \<Rightarrow> p'\<lparr>pj_terminalReasonCodes := boundReasonCodes (strings_in vs)\<rparr>
         | _ \<Rightarrow> p')"

text \<open>
  The occurrence an event names: its key, and the record it becomes given the one stored.
\<close>

definition occurrence_attempt :: "js \<Rightarrow> number" where
  "occurrence_attempt payload =
     (let a = js_get payload ''attempt'';
          n = truncated_number (if a = JUndefined \<or> a = JNull then Num 1 else to_number a)
      in if falsy_number n then Num 1 else n)"

definition occurrence_of ::
  "ExecutionEvent \<Rightarrow> string \<Rightarrow> (string \<times> ExecutionNodeOccurrence) list \<Rightarrow> string \<times> ExecutionNodeOccurrence"
where
  "occurrence_of event nodeId occurrences =
     (let payload = ev_payload event;
          attempt = occurrence_attempt payload;
          iterationPath = numericPath (js_get payload ''iterationPath'');
          key = occurrenceKey nodeId attempt iterationPath;
          status = (case field_string payload ''status'' of
                      Some s \<Rightarrow> if isNodeOccurrenceStatus s then s else ''running''
                    | None \<Rightarrow> ''running'');
          previous = map_of occurrences key
      in (key,
          \<lparr>no_nodeExecutionId = (case ev_nodeExecutionId event of Some x \<Rightarrow> x | None \<Rightarrow> key),
           no_nodeId = nodeId, no_attempt = attempt, no_iterationPath = iterationPath, no_status = status,
           no_childSessionIds =
             mergeChildSessions (case previous of Some o' \<Rightarrow> no_childSessionIds o' | None \<Rightarrow> [])
               (js_get payload ''childSessionIds''),
           no_usage = addUsage (case previous of Some o' \<Rightarrow> no_usage o' | None \<Rightarrow> emptyExecutionUsage)
               (js_get payload ''usage''),
           no_terminalReasonCodes = (case previous of Some o' \<Rightarrow> no_terminalReasonCodes o' | None \<Rightarrow> [])\<rparr>))"

definition project_occurrence :: "ExecutionEvent \<Rightarrow> string \<Rightarrow> Projection \<Rightarrow> Projection" where
  "project_occurrence event nodeId p =
     (if length (pj_occurrences p) \<ge> MAX_OCCURRENCES_PER_EXECUTION then p\<lparr>pj_truncated := True\<rparr>
      else
        let (key, oc) = occurrence_of event nodeId (pj_occurrences p)
        in p\<lparr>pj_occurrences := AList.update key oc (pj_occurrences p),
             pj_usage := addUsage (pj_usage p) (js_get (ev_payload event) ''usage'')\<rparr>)"

text \<open>
  \<open>#fold\<close>: the projection after the event, and the child sessions it indexes to this execution.
\<close>

definition project_extras :: "ExecutionEvent \<Rightarrow> Projection \<Rightarrow> Projection" where
  "project_extras event p = project_loop event (project_traversal event (project_decision event p))"

definition fold_event :: "ExecutionEvent \<Rightarrow> Projection \<Rightarrow> Projection" where
  "fold_event event p =
     (let payload = ev_payload event; p' = project_extras event p
      in case (field_string payload ''status'', js_has payload ''nodeId'', field_string payload ''nodeId'') of
           (Some nxt, False, _) \<Rightarrow> project_status event nxt p'
         | (_, _, Some nodeId) \<Rightarrow> project_occurrence event nodeId p'
         | _ \<Rightarrow> p')"

definition touched_children :: "ExecutionEvent \<Rightarrow> Projection \<Rightarrow> string list" where
  "touched_children event p =
     (let payload = ev_payload event; p' = project_extras event p
      in case field_string payload ''nodeId'' of
           Some nodeId \<Rightarrow>
             if length (pj_occurrences p') \<ge> MAX_OCCURRENCES_PER_EXECUTION then []
             else no_childSessionIds (snd (occurrence_of event nodeId (pj_occurrences p')))
         | None \<Rightarrow> [])"

section \<open>Delivery to one execution\<close>

definition empty_projection :: Projection where
  "empty_projection =
     \<lparr>pj_status = ''planned'', pj_occurrences = [], pj_decisions = [], pj_traversals = [],
      pj_terminalReasonCodes = [], pj_loopBudgets = [], pj_usage = emptyExecutionUsage, pj_truncated = False\<rparr>"

definition new_state :: "string \<Rightarrow> string option \<Rightarrow> ExecutionState" where
  "new_state sessionKey goalId =
     \<lparr>xs_sessionKey = sessionKey, xs_goalId = goalId, xs_watermark = 0, xs_seenEventIds = [], xs_pending = [],
      xs_eventCount = 0, xs_gapped = False, xs_archived = False, xs_projection = empty_projection\<rparr>"

definition take_event :: "ExecutionEvent \<Rightarrow> ExecutionState \<Rightarrow> ExecutionState" where
  "take_event event st =
     st\<lparr>xs_projection := fold_event event (xs_projection st), xs_watermark := xs_watermark st + 1\<rparr>"

text \<open>\<open>#drainPending\<close>: the state, and the child sessions the folds have touched.\<close>

function drainPending :: "ExecutionState \<Rightarrow> string list \<Rightarrow> ExecutionState \<times> string list" where
  "drainPending st touched =
     (case map_of (xs_pending st) (xs_watermark st + 1) of
        None \<Rightarrow> (if xs_pending st = [] then st\<lparr>xs_gapped := False\<rparr> else st, touched)
      | Some nxt \<Rightarrow>
          drainPending
            (take_event nxt (st\<lparr>xs_pending := AList.delete (xs_watermark st + 1) (xs_pending st)\<rparr>))
            (touched @ touched_children nxt (xs_projection st)))"
  by pat_completeness auto

termination
proof (relation "measure (\<lambda>(st, _). length (xs_pending st))")
  fix st :: ExecutionState and touched nxt assume "map_of (xs_pending st) (xs_watermark st + 1) = Some nxt"
  then have "xs_watermark st + 1 \<in> fst ` set (xs_pending st)" by (metis domI dom_map_of_conv_image_fst)
  then have "length (AList.delete (xs_watermark st + 1) (xs_pending st)) < length (xs_pending st)"
    by (auto simp: AList.delete_eq intro!: length_filter_less)
  then show "((take_event nxt (st\<lparr>xs_pending := AList.delete (xs_watermark st + 1) (xs_pending st)\<rparr>),
      touched @ touched_children nxt (xs_projection st)), st, touched)
      \<in> measure (\<lambda>(st, _). length (xs_pending st))" by (simp add: take_event_def)
qed simp

declare drainPending.simps [simp del]

text \<open>The body of \<open>apply\<close> on the state it has found: whether it was applied, the state, the children.\<close>

definition deliver :: "ExecutionEvent \<Rightarrow> ExecutionState \<Rightarrow> bool \<times> ExecutionState \<times> string list" where
  "deliver event st =
     (if ev_eventId event \<in> set (xs_seenEventIds st) then (False, st, [])
      else if xs_eventCount st \<ge> MAX_EVENTS_PER_EXECUTION
      then (False, st\<lparr>xs_projection := (xs_projection st)\<lparr>pj_truncated := True\<rparr>\<rparr>, [])
      else if ev_executionSequence event \<le> xs_watermark st then (False, st, [])
      else
        let st' = st\<lparr>xs_seenEventIds := xs_seenEventIds st @ [ev_eventId event], xs_eventCount := xs_eventCount st + 1\<rparr>
        in if ev_executionSequence event = xs_watermark st' + 1
           then (True, drainPending (take_event event st') (touched_children event (xs_projection st')))
           else (True, st'\<lparr>xs_pending := AList.update (ev_executionSequence event) event (xs_pending st'),
                         xs_gapped := True\<rparr>, []))"

section \<open>The store\<close>

definition empty_store :: ExecutionSessionStore where
  "empty_store = \<lparr>es_executions = [], es_bySession = [], es_byChildSession = [], es_byGoal = []\<rparr>"

text \<open>An index is a map to sets of ids: an id leaves a set, and a set that gets empty leaves the index.\<close>

definition unlink :: "string \<Rightarrow> string \<Rightarrow> (string \<times> string list) list \<Rightarrow> (string \<times> string list) list" where
  "unlink key executionId index =
     (case map_of index key of
        None \<Rightarrow> index
      | Some ids \<Rightarrow>
          let ids' = filter (\<lambda>i. i \<noteq> executionId) ids
          in if ids' = [] then AList.delete key index else AList.update key ids' index)"

definition link :: "string \<Rightarrow> string \<Rightarrow> (string \<times> string list) list \<Rightarrow> (string \<times> string list) list" where
  "link key executionId index =
     AList.update key
       (case map_of index key of
          None \<Rightarrow> [executionId]
        | Some ids \<Rightarrow> if executionId \<in> set ids then ids else ids @ [executionId]) index"

definition child_sessions :: "ExecutionState \<Rightarrow> string list" where
  "child_sessions st = concat (map (\<lambda>(_, oc). no_childSessionIds oc) (pj_occurrences (xs_projection st)))"

definition dropIndexes :: "string \<Rightarrow> ExecutionSessionStore \<Rightarrow> ExecutionSessionStore" where
  "dropIndexes executionId s =
     (case map_of (es_executions s) executionId of
        None \<Rightarrow> s
      | Some st \<Rightarrow>
          s\<lparr>es_bySession := unlink (xs_sessionKey st) executionId (es_bySession s),
            es_byGoal := (case xs_goalId st of
                            Some g \<Rightarrow> if g = [] then es_byGoal s else unlink g executionId (es_byGoal s)
                          | None \<Rightarrow> es_byGoal s),
            es_byChildSession :=
              fold (\<lambda>childId index. if map_of index childId = Some executionId then AList.delete childId index else index)
                (child_sessions st) (es_byChildSession s)\<rparr>)"

definition forget :: "string \<Rightarrow> ExecutionSessionStore \<Rightarrow> ExecutionSessionStore" where
  "forget executionId s =
     (let s' = dropIndexes executionId s in s'\<lparr>es_executions := AList.delete executionId (es_executions s')\<rparr>)"

lemma es_executions_dropIndexes [simp]: "es_executions (dropIndexes executionId s) = es_executions s"
  by (simp add: dropIndexes_def split: option.splits)

lemma es_executions_forget [simp]: "es_executions (forget executionId s) = AList.delete executionId (es_executions s)"
  by (simp add: forget_def Let_def)

function evictIfNeeded :: "ExecutionSessionStore \<Rightarrow> ExecutionSessionStore" where
  "evictIfNeeded s =
     (if length (es_executions s) > MAX_EXECUTIONS then evictIfNeeded (forget (fst (hd (es_executions s))) s) else s)"
  by pat_completeness auto

termination
proof (relation "measure (\<lambda>s. length (es_executions s))")
  fix s :: ExecutionSessionStore assume "length (es_executions s) > MAX_EXECUTIONS"
  then have "es_executions s \<noteq> []" by auto
  then have "length (AList.delete (fst (hd (es_executions s))) (es_executions s)) < length (es_executions s)"
    by (auto simp: AList.delete_eq intro!: length_filter_less [where x = "hd (es_executions s)"])
  then show "(forget (fst (hd (es_executions s))) s, s) \<in> measure (\<lambda>s. length (es_executions s))" by simp
qed simp

declare evictIfNeeded.simps [simp del]

definition stateFor ::
  "string \<Rightarrow> string \<Rightarrow> string option \<Rightarrow> ExecutionSessionStore \<Rightarrow> ExecutionState \<times> ExecutionSessionStore"
where
  "stateFor executionId sessionKey goalId s =
     (case map_of (es_executions s) executionId of
        Some st \<Rightarrow> (st, s)
      | None \<Rightarrow>
          let st = new_state sessionKey goalId
          in (st, evictIfNeeded
               (s\<lparr>es_executions := es_executions s @ [(executionId, st)],
                  es_bySession := link sessionKey executionId (es_bySession s),
                  es_byGoal := (case goalId of
                                  Some g \<Rightarrow> if g = [] then es_byGoal s else link g executionId (es_byGoal s)
                                | None \<Rightarrow> es_byGoal s)\<rparr>)))"

definition apply_event :: "ExecutionEvent \<Rightarrow> ExecutionSessionStore \<Rightarrow> bool \<times> ExecutionSessionStore" where
  "apply_event event s =
     (let (st, s') = stateFor (ev_executionId event) (ev_sessionKey event) (ev_goalId event) s;
          (applied, st', touched) = deliver event st
      in (applied,
          s'\<lparr>es_executions := AList.update (ev_executionId event) st' (es_executions s'),
             es_byChildSession :=
               fold (\<lambda>childId index. AList.update childId (ev_executionId event) index) touched (es_byChildSession s')\<rparr>))"

record ExecutionSnapshot =
  sn_executionId :: string
  sn_status :: string
  sn_completeness :: SnapshotCompleteness
  sn_watermark :: int
  sn_occurrences :: "ExecutionNodeOccurrence list"
  sn_decisions :: "ProjectedDecision list"
  sn_traversals :: "ProjectedTraversal list"
  sn_terminalReasonCodes :: "string list"
  sn_loopBudgets :: "ProjectedLoopBudget list"
  sn_goalId :: "string option"
  sn_usage :: ExecutionUsage
  sn_pendingSequences :: "int list"
  sn_truncated :: bool

definition snapshot_of :: "string \<Rightarrow> ExecutionState \<Rightarrow> ExecutionSnapshot" where
  "snapshot_of executionId st =
     (let p = xs_projection st
      in \<lparr>sn_executionId = executionId, sn_status = pj_status p,
          sn_completeness = (if xs_gapped st \<or> pj_truncated p then gapped else complete),
          sn_watermark = xs_watermark st, sn_occurrences = map snd (pj_occurrences p),
          sn_decisions = pj_decisions p, sn_traversals = pj_traversals p,
          sn_terminalReasonCodes = pj_terminalReasonCodes p, sn_loopBudgets = pj_loopBudgets p,
          sn_goalId = xs_goalId st, sn_usage = pj_usage p,
          sn_pendingSequences = sort (map fst (xs_pending st)), sn_truncated = pj_truncated p\<rparr>)"

definition snapshot :: "string \<Rightarrow> ExecutionSessionStore \<Rightarrow> ExecutionSnapshot option" where
  "snapshot executionId s = map_option (snapshot_of executionId) (map_of (es_executions s) executionId)"

definition completenessFor :: "string \<Rightarrow> ExecutionSessionStore \<Rightarrow> SnapshotCompleteness" where
  "completenessFor executionId s =
     (case snapshot executionId s of Some sn \<Rightarrow> sn_completeness sn | None \<Rightarrow> unavailable)"

definition listed :: "(string \<times> string list) list \<Rightarrow> string \<Rightarrow> bool \<Rightarrow> ExecutionSessionStore \<Rightarrow> string list" where
  "listed index key includeArchived s =
     (case map_of index key of
        None \<Rightarrow> []
      | Some ids \<Rightarrow>
          filter (\<lambda>i. case map_of (es_executions s) i of
                       None \<Rightarrow> False
                     | Some st \<Rightarrow> \<not> (xs_archived st \<and> \<not> includeArchived)) ids)"

definition executionsForSession :: "string \<Rightarrow> bool \<Rightarrow> ExecutionSessionStore \<Rightarrow> string list" where
  "executionsForSession sessionKey includeArchived s = listed (es_bySession s) sessionKey includeArchived s"

definition executionsForGoal :: "string \<Rightarrow> bool \<Rightarrow> ExecutionSessionStore \<Rightarrow> string list" where
  "executionsForGoal goalId includeArchived s = listed (es_byGoal s) goalId includeArchived s"

definition ids_of_session :: "string \<Rightarrow> ExecutionSessionStore \<Rightarrow> string list" where
  "ids_of_session sessionKey s = (case map_of (es_bySession s) sessionKey of None \<Rightarrow> [] | Some ids \<Rightarrow> ids)"

definition forgetSession :: "string \<Rightarrow> ExecutionSessionStore \<Rightarrow> string list \<times> ExecutionSessionStore" where
  "forgetSession sessionKey s = (let ids = ids_of_session sessionKey s in (ids, fold forget ids s))"

definition archive :: "string \<Rightarrow> ExecutionSessionStore \<Rightarrow> ExecutionSessionStore" where
  "archive executionId s =
     (case map_of (es_executions s) executionId of
        None \<Rightarrow> s
      | Some st \<Rightarrow> s\<lparr>es_executions := AList.update executionId (st\<lparr>xs_archived := True\<rparr>) (es_executions s)\<rparr>)"

definition archiveSession :: "string \<Rightarrow> ExecutionSessionStore \<Rightarrow> string list \<times> ExecutionSessionStore" where
  "archiveSession sessionKey s = (let ids = ids_of_session sessionKey s in (ids, fold archive ids s))"

definition isArchived :: "string \<Rightarrow> ExecutionSessionStore \<Rightarrow> bool" where
  "isArchived executionId s = (case map_of (es_executions s) executionId of Some st \<Rightarrow> xs_archived st | None \<Rightarrow> False)"

definition forkSession :: "string \<Rightarrow> string \<Rightarrow> ExecutionSessionStore \<Rightarrow> string list \<times> ExecutionSessionStore" where
  "forkSession sourceSessionKey forkedSessionKey s =
     (let source = ids_of_session sourceSessionKey s
      in if source = [] then ([], s)
         else (source, s\<lparr>es_bySession := fold (link forkedSessionKey) source (es_bySession s)\<rparr>))"

definition executionForChildSession :: "string \<Rightarrow> ExecutionSessionStore \<Rightarrow> string option" where
  "executionForChildSession childSessionId s = map_of (es_byChildSession s) childSessionId"

definition reduceExecutionEvents :: "ExecutionEvent list \<Rightarrow> ExecutionSessionStore" where
  "reduceExecutionEvents events = fold (\<lambda>event s. snd (apply_event event s)) events empty_store"

end
