(* ===== verification/ExecutionSpec.thy ===== *)
theory ExecutionSpec
  imports ExecutionReducer
begin

text \<open>
  What the execution store promises, against a specification without any delivery in it: sort the
  distinct events of an execution by sequence, fold the prefix 1, 2, 3, \<dots> that has no hole. The
  store, which sees the events in any order and any number of times, implements it.
\<close>

section \<open>The specification\<close>

fun gapless_prefix :: "int \<Rightarrow> ExecutionEvent list \<Rightarrow> ExecutionEvent list" where
  "gapless_prefix n [] = []"
| "gapless_prefix n (e # es) = (if ev_executionSequence e = n + 1 then e # gapless_prefix (n + 1) es else [])"

definition in_sequence :: "ExecutionEvent list \<Rightarrow> ExecutionEvent list" where
  "in_sequence es = sort_key ev_executionSequence (remdups es)"

definition spec_snapshot :: "string \<Rightarrow> string option \<Rightarrow> ExecutionEvent list \<Rightarrow> ExecutionSnapshot" where
  "spec_snapshot executionId goalId es =
     (let events = in_sequence es; run = gapless_prefix 0 events; held = drop (length run) events;
          p = fold fold_event run empty_projection
      in \<lparr>sn_executionId = executionId, sn_status = pj_status p,
          sn_completeness = (if held \<noteq> [] \<or> pj_truncated p then gapped else complete),
          sn_watermark = int (length run), sn_occurrences = map snd (pj_occurrences p),
          sn_decisions = pj_decisions p, sn_traversals = pj_traversals p,
          sn_terminalReasonCodes = pj_terminalReasonCodes p, sn_loopBudgets = pj_loopBudgets p,
          sn_goalId = goalId, sn_usage = pj_usage p,
          sn_pendingSequences = map ev_executionSequence held, sn_truncated = pj_truncated p\<rparr>)"

text \<open>Events as the emitters make them: numbered from one, an id and a number naming one event.\<close>

definition numbered_events :: "ExecutionEvent set \<Rightarrow> bool" where
  "numbered_events E \<longleftrightarrow>
     (\<forall>e \<in> E. 0 < ev_executionSequence e)
     \<and> (\<forall>e \<in> E. \<forall>e' \<in> E. ev_eventId e = ev_eventId e' \<or> ev_executionSequence e = ev_executionSequence e' \<longrightarrow> e = e')"

section \<open>One execution\<close>

definition folded_run :: "ExecutionEvent set \<Rightarrow> int \<Rightarrow> Projection \<Rightarrow> bool" where
  "folded_run E w p \<longleftrightarrow>
     (\<exists>run. map ev_executionSequence run = [1..w] \<and> set run = {e \<in> E. ev_executionSequence e \<le> w}
        \<and> p = fold fold_event run empty_projection)"

text \<open>Between two events the state knows the run up to its watermark and holds the rest back.\<close>

definition holds_back :: "ExecutionEvent set \<Rightarrow> int \<Rightarrow> (int \<times> ExecutionEvent) list \<Rightarrow> bool" where
  "holds_back E w pending \<longleftrightarrow>
     (\<forall>n e. map_of pending n = Some e \<longleftrightarrow> e \<in> E \<and> ev_executionSequence e = n \<and> w < n)"

lemma holds_backD:
  "holds_back E w pending \<Longrightarrow> map_of pending n = Some e \<longleftrightarrow> e \<in> E \<and> ev_executionSequence e = n \<and> w < n"
  by (simp add: holds_back_def)

definition settling :: "ExecutionEvent set \<Rightarrow> ExecutionState \<Rightarrow> bool" where
  "settling E st \<longleftrightarrow>
     finite E \<and> set (xs_seenEventIds st) = ev_eventId ` E \<and> xs_eventCount st = card E \<and> 0 \<le> xs_watermark st
     \<and> folded_run E (xs_watermark st) (xs_projection st)
     \<and> holds_back E (xs_watermark st) (xs_pending st)
     \<and> distinct (map fst (xs_pending st)) \<and> (xs_pending st \<noteq> [] \<longrightarrow> xs_gapped st)"

definition settled :: "ExecutionEvent set \<Rightarrow> ExecutionState \<Rightarrow> bool" where
  "settled E st \<longleftrightarrow>
     settling E st \<and> xs_watermark st + 1 \<notin> ev_executionSequence ` E \<and> xs_gapped st = (xs_pending st \<noteq> [])"

lemma settled_new: "settled {} (new_state key goal)"
  by (simp add: settled_def settling_def folded_run_def holds_back_def new_state_def)

lemma run_extends:
  assumes "numbered_events E" "folded_run E w p" "e \<in> E" "ev_executionSequence e = w + 1" "0 \<le> w"
  shows "folded_run E (w + 1) (fold_event e p)"
proof -
  obtain run where run: "map ev_executionSequence run = [1..w]" "set run = {e \<in> E. ev_executionSequence e \<le> w}"
    "p = fold fold_event run empty_projection" using assms(2) by (auto simp: folded_run_def)
  have "map ev_executionSequence (run @ [e]) = [1..w + 1]"
    using run(1) assms(4,5) by (simp add: upto_rec2)
  moreover have "set (run @ [e]) = {e \<in> E. ev_executionSequence e \<le> w + 1}"
  proof -
    have "e' = e" if "e' \<in> E" "ev_executionSequence e' \<le> w + 1" "\<not> ev_executionSequence e' \<le> w" for e'
    proof -
      have "ev_executionSequence e' = ev_executionSequence e" using that(2,3) assms(4) by simp
      with assms(1,3) that(1) show ?thesis unfolding numbered_events_def by blast
    qed
    then have "{e \<in> E. ev_executionSequence e \<le> w + 1} \<subseteq> insert e {e \<in> E. ev_executionSequence e \<le> w}" by blast
    moreover have "insert e {e \<in> E. ev_executionSequence e \<le> w} \<subseteq> {e \<in> E. ev_executionSequence e \<le> w + 1}"
      using assms(3,4) by auto
    ultimately show ?thesis using run(2) by simp
  qed
  moreover have "fold_event e p = fold fold_event (run @ [e]) empty_projection" by (simp add: run(3))
  ultimately show ?thesis unfolding folded_run_def by blast
qed

lemma drain_settles:
  assumes "numbered_events E" "settling E st"
  shows "settled E (fst (drainPending st touched))
    \<and> xs_sessionKey (fst (drainPending st touched)) = xs_sessionKey st
    \<and> xs_goalId (fst (drainPending st touched)) = xs_goalId st"
  using assms(2)
proof (induction st touched rule: drainPending.induct)
  case (1 st touched)
  have held: "holds_back E (xs_watermark st) (xs_pending st)" using "1.prems" by (simp add: settling_def)
  note pending = holds_backD [OF held]
  show ?case
  proof (cases "map_of (xs_pending st) (xs_watermark st + 1)")
    case None
    then have "\<forall>e. \<not> (e \<in> E \<and> ev_executionSequence e = xs_watermark st + 1)"
      using pending [of "xs_watermark st + 1"] by auto
    then have "xs_watermark st + 1 \<notin> ev_executionSequence ` E" by auto
    then show ?thesis using None "1.prems"
      by (cases "xs_pending st = []") (simp_all add: drainPending.simps [of st touched] settled_def settling_def)
  next
    case (Some nxt)
    let ?w = "xs_watermark st"
    let ?st = "take_event nxt (st\<lparr>xs_pending := AList.delete (?w + 1) (xs_pending st)\<rparr>)"
    have nxt: "nxt \<in> E" "ev_executionSequence nxt = ?w + 1" using Some pending by auto
    have "settling E ?st"
      unfolding settling_def
    proof (intro conjI)
      show "folded_run E (xs_watermark ?st) (xs_projection ?st)"
        using "1.prems" nxt by (simp add: take_event_def settling_def run_extends [OF assms(1)])
      show "holds_back E (xs_watermark ?st) (xs_pending ?st)"
        using pending by (auto simp: holds_back_def take_event_def delete_conv')
      show "distinct (map fst (xs_pending ?st))"
        using "1.prems" by (simp add: take_event_def settling_def distinct_delete)
      show "xs_pending ?st \<noteq> [] \<longrightarrow> xs_gapped ?st"
        using "1.prems" by (auto simp: take_event_def settling_def AList.delete_eq)
    qed (use "1.prems" in \<open>simp_all add: take_event_def settling_def\<close>)
    from "1.IH" [OF Some this] show ?thesis
      using Some by (simp add: drainPending.simps [of st touched] take_event_def)
  qed
qed

lemma settled_covers:
  assumes "settling E st" "0 < n" "n \<le> xs_watermark st"
  shows "\<exists>e \<in> E. ev_executionSequence e = n"
proof -
  obtain run where run: "map ev_executionSequence run = [1..xs_watermark st]" "set run \<subseteq> E"
    using assms(1) by (auto simp: settling_def folded_run_def)
  have "n \<in> set (map ev_executionSequence run)" using assms(2,3) by (simp add: run(1))
  with run(2) show ?thesis by auto
qed

lemma settling_insert:
  assumes "settled E st" "numbered_events (insert e E)" "e \<notin> E"
  shows "settling (insert e E)
    (if ev_executionSequence e = xs_watermark st + 1
     then take_event e (st\<lparr>xs_seenEventIds := xs_seenEventIds st @ [ev_eventId e], xs_eventCount := xs_eventCount st + 1\<rparr>)
     else st\<lparr>xs_seenEventIds := xs_seenEventIds st @ [ev_eventId e], xs_eventCount := xs_eventCount st + 1,
             xs_pending := AList.update (ev_executionSequence e) e (xs_pending st), xs_gapped := True\<rparr>)"
    and "xs_watermark st < ev_executionSequence e"
proof -
  have st: "settling E st" using assms(1) by (simp add: settled_def)
  have held: "holds_back E (xs_watermark st) (xs_pending st)" using st by (simp add: settling_def)
  note pending = holds_backD [OF held]
  have pos: "0 < ev_executionSequence e" using assms(2) by (simp add: numbered_events_def)
  have fresh: "ev_executionSequence e' \<noteq> ev_executionSequence e" if "e' \<in> E" for e'
    using assms(2,3) that unfolding numbered_events_def by blast
  show above: "xs_watermark st < ev_executionSequence e"
    using settled_covers [OF st pos] fresh by (meson not_less)
  have run: "folded_run (insert e E) (xs_watermark st) (xs_projection st)"
  proof -
    have "{e' \<in> insert e E. ev_executionSequence e' \<le> xs_watermark st} = {e' \<in> E. ev_executionSequence e' \<le> xs_watermark st}"
      using above by auto
    moreover have "folded_run E (xs_watermark st) (xs_projection st)" using st by (simp add: settling_def)
    ultimately show ?thesis unfolding folded_run_def by metis
  qed
  have w: "0 \<le> xs_watermark st" using st by (simp add: settling_def)
  show "settling (insert e E) (if ev_executionSequence e = xs_watermark st + 1
     then take_event e (st\<lparr>xs_seenEventIds := xs_seenEventIds st @ [ev_eventId e], xs_eventCount := xs_eventCount st + 1\<rparr>)
     else st\<lparr>xs_seenEventIds := xs_seenEventIds st @ [ev_eventId e], xs_eventCount := xs_eventCount st + 1,
             xs_pending := AList.update (ev_executionSequence e) e (xs_pending st), xs_gapped := True\<rparr>)"
  proof (cases "ev_executionSequence e = xs_watermark st + 1")
    case True
    have "folded_run (insert e E) (xs_watermark st + 1) (fold_event e (xs_projection st))"
      by (rule run_extends [OF assms(2) run _ True w]) simp
    moreover have "holds_back (insert e E) (xs_watermark st + 1) (xs_pending st)"
      unfolding holds_back_def
    proof (intro allI)
      fix n e'
      show "map_of (xs_pending st) n = Some e' \<longleftrightarrow> e' \<in> insert e E \<and> ev_executionSequence e' = n \<and> xs_watermark st + 1 < n"
        using pending [of n e'] fresh [of e'] True by auto
    qed
    ultimately show ?thesis using st assms(3) True by (simp add: settling_def take_event_def)
  next
    case False
    have "holds_back (insert e E) (xs_watermark st) (AList.update (ev_executionSequence e) e (xs_pending st))"
      unfolding holds_back_def
    proof (intro allI)
      fix n e'
      show "map_of (AList.update (ev_executionSequence e) e (xs_pending st)) n = Some e'
          \<longleftrightarrow> e' \<in> insert e E \<and> ev_executionSequence e' = n \<and> xs_watermark st < n"
        using pending [of n e'] fresh [of e'] above by (auto simp: update_conv')
    qed
    then show ?thesis using st assms(3) False run by (simp add: settling_def distinct_update)
  qed
qed

lemma deliver_settles:
  assumes "settled E st" "numbered_events (insert e E)" "card (insert e E) \<le> MAX_EVENTS_PER_EXECUTION"
  shows "settled (insert e E) (fst (snd (deliver e st)))
    \<and> xs_sessionKey (fst (snd (deliver e st))) = xs_sessionKey st \<and> xs_goalId (fst (snd (deliver e st))) = xs_goalId st"
proof (cases "e \<in> E")
  case True
  then have "ev_eventId e \<in> set (xs_seenEventIds st)" using assms(1) by (simp add: settled_def settling_def)
  with True assms(1) show ?thesis by (simp add: deliver_def insert_absorb)
next
  case False
  note step = settling_insert [OF assms(1,2) False]
  have "ev_eventId e \<notin> ev_eventId ` E" using assms(2) False unfolding numbered_events_def by blast
  moreover have "card E < MAX_EVENTS_PER_EXECUTION" using assms(1,3) False by (simp add: settled_def settling_def)
  ultimately have go: "ev_eventId e \<notin> set (xs_seenEventIds st)" "\<not> xs_eventCount st \<ge> MAX_EVENTS_PER_EXECUTION"
    using assms(1) by (simp_all add: settled_def settling_def)
  show ?thesis
  proof (cases "ev_executionSequence e = xs_watermark st + 1")
    case True
    with drain_settles [OF assms(2)] step go show ?thesis by (simp add: deliver_def Let_def take_event_def)
  next
    case later: False
    let ?st = "st\<lparr>xs_seenEventIds := xs_seenEventIds st @ [ev_eventId e], xs_eventCount := xs_eventCount st + 1,
      xs_pending := AList.update (ev_executionSequence e) e (xs_pending st), xs_gapped := True\<rparr>"
    have "settling (insert e E) ?st" using step(1) later by simp
    moreover have "xs_watermark ?st + 1 \<notin> ev_executionSequence ` insert e E"
      using assms(1) later by (auto simp: settled_def)
    moreover have "xs_pending ?st \<noteq> []" by (cases "xs_pending st") auto
    ultimately have "settled (insert e E) ?st" by (simp add: settled_def)
    with go later step(2) show ?thesis by (simp add: deliver_def Let_def)
  qed
qed

section \<open>The state is what the specification says\<close>

lemma sorted_split:
  "sorted (map f xs) \<Longrightarrow> filter (\<lambda>x. f x \<le> w) xs @ filter (\<lambda>x. w < f x) xs = xs" for w :: "'b :: linorder"
proof (induction xs)
  case (Cons x xs)
  show ?case
  proof (cases "f x \<le> w")
    case False
    with Cons.prems have "\<forall>y \<in> set (x # xs). w < f y" by auto
    then have "filter (\<lambda>y. f y \<le> w) (x # xs) = []" "filter (\<lambda>y. w < f y) (x # xs) = x # xs"
      by (simp_all add: filter_empty_conv filter_id_conv not_le)
    then show ?thesis by simp
  qed (use Cons in auto)
qed simp

lemma numbered_inj: "numbered_events E \<Longrightarrow> inj_on ev_executionSequence E"
  unfolding numbered_events_def inj_on_def by blast

lemma set_in_sequence [simp]: "set (in_sequence es) = set es"
  by (simp add: in_sequence_def)

lemma in_sequence_sorted:
  assumes "numbered_events (set es)"
  shows "sorted (map ev_executionSequence (in_sequence es))" "distinct (map ev_executionSequence (in_sequence es))"
  using numbered_inj [OF assms] by (simp_all add: in_sequence_def distinct_map)

lemma in_sequence_set:
  assumes "numbered_events (set es)" "set es = set es'"
  shows "in_sequence es = in_sequence es'"
proof -
  have "map ev_executionSequence (in_sequence es) = map ev_executionSequence (in_sequence es')"
    by (rule sorted_distinct_set_unique) (use assms in_sequence_sorted [of es] in_sequence_sorted [of es'] in auto)
  then show ?thesis
    by (rule map_inj_on) (use assms numbered_inj [of "set es"] in simp)
qed

lemma gapless_prefix_run:
  "map ev_executionSequence run = [n + 1..w] \<Longrightarrow> held = [] \<or> ev_executionSequence (hd held) \<noteq> w + 1 \<Longrightarrow> n \<le> w \<Longrightarrow>
   gapless_prefix n (run @ held) = run"
proof (induction run arbitrary: n)
  case Nil
  then have "n = w" by simp
  then show ?case using Nil by (cases held) simp_all
next
  case (Cons e run)
  have "n + 1 \<le> w"
  proof (rule ccontr)
    assume "\<not> n + 1 \<le> w"
    then have "[n + 1..w] = []" by simp
    with Cons.prems(1) show False by simp
  qed
  then have "[n + 1..w] = (n + 1) # [n + 1 + 1..w]" by (rule upto_rec1)
  with Cons \<open>n + 1 \<le> w\<close> show ?case by simp
qed

lemma settled_implements:
  assumes "settled (set es) st" "numbered_events (set es)"
  shows "snapshot_of x st = spec_snapshot x (xs_goalId st) es"
proof -
  let ?w = "xs_watermark st"
  have st: "settling (set es) st" using assms(1) by (simp add: settled_def)
  obtain run where run: "map ev_executionSequence run = [1..?w]" "set run = {e \<in> set es. ev_executionSequence e \<le> ?w}"
    "xs_projection st = fold fold_event run empty_projection" using st by (auto simp: settling_def folded_run_def)
  have w: "0 \<le> ?w" using st by (simp add: settling_def)
  define held where "held = filter (\<lambda>e. ?w < ev_executionSequence e) (in_sequence es)"
  note sorted = in_sequence_sorted [OF assms(2)]
  have "map ev_executionSequence (filter (\<lambda>e. ev_executionSequence e \<le> ?w) (in_sequence es)) = map ev_executionSequence run"
  proof (rule sorted_distinct_set_unique)
    show "sorted (map ev_executionSequence run)" "distinct (map ev_executionSequence run)" by (simp_all add: run(1))
    show "sorted (map ev_executionSequence (filter (\<lambda>e. ev_executionSequence e \<le> ?w) (in_sequence es)))"
      using sorted(1) by (rule sorted_filter)
    show "distinct (map ev_executionSequence (filter (\<lambda>e. ev_executionSequence e \<le> ?w) (in_sequence es)))"
      using sorted(2) by (rule distinct_map_filter)
  qed (simp add: run(2) set_map)
  then have front: "filter (\<lambda>e. ev_executionSequence e \<le> ?w) (in_sequence es) = run"
    by (rule map_inj_on) (use run(2) in \<open>auto intro: inj_on_subset [OF numbered_inj [OF assms(2)]]\<close>)
  have split: "in_sequence es = run @ held"
    using sorted_split [OF sorted(1), of ?w] front by (simp add: held_def)
  have "held = [] \<or> ev_executionSequence (hd held) \<noteq> ?w + 1"
  proof (cases held)
    case (Cons e held')
    then have "e \<in> set es" using split by (metis set_in_sequence in_set_conv_decomp)
    moreover have "?w + 1 \<notin> ev_executionSequence ` set es" using assms(1) by (simp add: settled_def)
    ultimately show ?thesis using Cons by (metis image_eqI list.sel(1))
  qed simp
  then have front_run: "gapless_prefix 0 (in_sequence es) = run"
    using gapless_prefix_run [of run 0 ?w held] run(1) w split by simp
  have "length run = nat ?w" using arg_cong [OF run(1), of length] by simp
  then have len: "int (length run) = ?w" using w by simp
  have behind: "holds_back (set es) ?w (xs_pending st)" "distinct (map fst (xs_pending st))"
    using st by (simp_all add: settling_def)
  have pending: "sort (map fst (xs_pending st)) = map ev_executionSequence held"
  proof (rule sorted_distinct_set_unique)
    have "n \<in> dom (map_of (xs_pending st)) \<longleftrightarrow> (\<exists>e \<in> set es. ev_executionSequence e = n \<and> ?w < n)" for n
      using holds_backD [OF behind(1)] by blast
    then have "set (map fst (xs_pending st)) = {n. \<exists>e \<in> set es. ev_executionSequence e = n \<and> ?w < n}"
      by (auto simp: dom_map_of_conv_image_fst)
    then show "set (sort (map fst (xs_pending st))) = set (map ev_executionSequence held)"
      by (auto simp: held_def)
    show "sorted (map ev_executionSequence held)" "distinct (map ev_executionSequence held)"
      using sorted by (simp_all add: held_def sorted_filter distinct_map_filter)
  qed (use behind in simp_all)
  have "xs_gapped st \<longleftrightarrow> held \<noteq> []"
    using arg_cong [OF pending, of length] assms(1) by (auto simp: settled_def)
  moreover have "drop (length run) (in_sequence es) = held" by (simp add: split)
  ultimately show ?thesis using front_run len pending run(3)
    by (simp add: snapshot_of_def spec_snapshot_def Let_def del: drop_eq_Nil)
qed

section \<open>The store\<close>

lemma evict_nothing: "length (es_executions s) \<le> MAX_EXECUTIONS \<Longrightarrow> evictIfNeeded s = s"
  by (simp add: evictIfNeeded.simps [of s])

definition found_state :: "ExecutionEvent \<Rightarrow> ExecutionSessionStore \<Rightarrow> ExecutionState" where
  "found_state e s =
     (case map_of (es_executions s) (ev_executionId e) of
        Some st \<Rightarrow> st
      | None \<Rightarrow> new_state (ev_sessionKey e) (ev_goalId e))"

lemma update_fresh: "k \<notin> fst ` set xs \<Longrightarrow> AList.update k v xs = xs @ [(k, v)]"
  by (induction xs) auto

lemma update_twice: "AList.update k v (AList.update k u xs) = AList.update k v xs"
  by (induction xs) auto

lemma apply_executions:
  assumes "map_of (es_executions s) (ev_executionId e) = None \<longrightarrow> length (es_executions s) < MAX_EXECUTIONS"
  shows "es_executions (snd (apply_event e s))
    = AList.update (ev_executionId e) (fst (snd (deliver e (found_state e s)))) (es_executions s)"
proof (cases "map_of (es_executions s) (ev_executionId e)")
  case None
  then have "ev_executionId e \<notin> fst ` set (es_executions s)" by (simp add: map_of_eq_None_iff)
  note append = update_fresh [OF this]
  have room: "length (AList.update (ev_executionId e) v (es_executions s)) \<le> MAX_EXECUTIONS" for v
    using None assms by (simp add: append)
  show ?thesis using None
    by (simp add: apply_event_def stateFor_def found_state_def evict_nothing room Let_def append [symmetric] update_twice split: prod.split)
next
  case (Some st)
  then show ?thesis by (simp add: apply_event_def stateFor_def found_state_def Let_def split: prod.split)
qed

abbreviation of_execution :: "string \<Rightarrow> ExecutionEvent list \<Rightarrow> ExecutionEvent list" where
  "of_execution x \<equiv> filter (\<lambda>e. ev_executionId e = x)"

definition bounded_stream :: "ExecutionEvent list \<Rightarrow> bool" where
  "bounded_stream es \<longleftrightarrow>
     card (ev_executionId ` set es) \<le> MAX_EXECUTIONS
     \<and> (\<forall>x. numbered_events (set (of_execution x es)) \<and> card (set (of_execution x es)) \<le> MAX_EVENTS_PER_EXECUTION)"

definition implements :: "ExecutionEvent list \<Rightarrow> (string \<times> ExecutionState) list \<Rightarrow> bool" where
  "implements es executions \<longleftrightarrow>
     distinct (map fst executions) \<and> fst ` set executions = ev_executionId ` set es
     \<and> (\<forall>x st. map_of executions x = Some st \<longrightarrow>
          settled (set (of_execution x es)) st \<and> xs_goalId st = ev_goalId (hd (of_execution x es)))"

lemma numbered_subset: "numbered_events E \<Longrightarrow> F \<subseteq> E \<Longrightarrow> numbered_events F"
  unfolding numbered_events_def by blast

lemma bounded_stream_snoc:
  assumes "bounded_stream (es @ [e])"
  shows "bounded_stream es"
proof -
  have "card (ev_executionId ` set es) \<le> card (ev_executionId ` set (es @ [e]))" by (rule card_mono) auto
  moreover have "card (set (of_execution x es)) \<le> card (set (of_execution x (es @ [e])))" for x by (rule card_mono) auto
  moreover have "numbered_events (set (of_execution x es))" for x
    by (rule numbered_subset [of "set (of_execution x (es @ [e]))"]) (use assms in \<open>auto simp: bounded_stream_def\<close>)
  ultimately show ?thesis using assms unfolding bounded_stream_def by (meson le_trans)
qed

lemma reduce_implements:
  assumes "bounded_stream es"
  shows "implements es (es_executions (reduceExecutionEvents es))"
  using assms
proof (induction es rule: rev_induct)
  case Nil
  then show ?case by (simp add: implements_def reduceExecutionEvents_def empty_store_def)
next
  case (snoc e es)
  let ?s = "reduceExecutionEvents es" and ?x = "ev_executionId e"
  have IH: "implements es (es_executions ?s)" using snoc bounded_stream_snoc by blast
  have len: "length (es_executions ?s) = card (ev_executionId ` set es)"
    using IH distinct_card [of "map fst (es_executions ?s)"] by (simp add: implements_def)
  have room: "map_of (es_executions ?s) ?x = None \<longrightarrow> length (es_executions ?s) < MAX_EXECUTIONS"
  proof
    assume "map_of (es_executions ?s) ?x = None"
    then have "?x \<notin> ev_executionId ` set es" using IH by (simp add: implements_def map_of_eq_None_iff)
    then have "card (ev_executionId ` set (es @ [e])) = Suc (card (ev_executionId ` set es))" by simp
    with snoc.prems len show "length (es_executions ?s) < MAX_EXECUTIONS" by (simp add: bounded_stream_def)
  qed
  define st' where "st' = fst (snd (deliver e (found_state e ?s)))"
  have step: "es_executions (reduceExecutionEvents (es @ [e])) = AList.update ?x st' (es_executions ?s)"
    using apply_executions [OF room] by (simp add: reduceExecutionEvents_def st'_def)
  have before: "settled (set (of_execution ?x es)) (found_state e ?s)
      \<and> xs_goalId (found_state e ?s) = ev_goalId (hd (of_execution ?x (es @ [e])))"
  proof (cases "map_of (es_executions ?s) ?x")
    case None
    then have "?x \<notin> ev_executionId ` set es" using IH by (simp add: implements_def map_of_eq_None_iff)
    then have "of_execution ?x es = []" unfolding filter_empty_conv by (metis image_eqI)
    with None show ?thesis by (simp add: found_state_def settled_new) (simp add: new_state_def)
  next
    case (Some st)
    then have "?x \<in> ev_executionId ` set es" using IH unfolding implements_def by (metis domI dom_map_of_conv_image_fst)
    then have "of_execution ?x es \<noteq> []" by (auto simp: filter_empty_conv)
    with Some IH show ?thesis by (simp add: found_state_def implements_def)
  qed
  have numbered: "numbered_events (set (of_execution ?x (es @ [e])))"
    "card (set (of_execution ?x (es @ [e]))) \<le> MAX_EVENTS_PER_EXECUTION"
    using snoc.prems unfolding bounded_stream_def by blast+
  then have "settled (set (of_execution ?x (es @ [e]))) st' \<and> xs_goalId st' = ev_goalId (hd (of_execution ?x (es @ [e])))"
    using deliver_settles [of "set (of_execution ?x es)" "found_state e ?s" e] before by (simp add: st'_def)
  moreover have "settled (set (of_execution x (es @ [e]))) st \<and> xs_goalId st = ev_goalId (hd (of_execution x (es @ [e])))"
    if "map_of (es_executions ?s) x = Some st" "x \<noteq> ?x" for x st
    using IH that by (simp add: implements_def)
  moreover have "distinct (map fst (AList.update ?x st' (es_executions ?s)))"
    using IH by (simp add: implements_def distinct_update)
  moreover have "fst ` set (AList.update ?x st' (es_executions ?s)) = ev_executionId ` set (es @ [e])"
    using IH by (simp add: implements_def dom_update)
  ultimately show ?case unfolding step implements_def by (auto simp: update_conv')
qed

lemma store_spec:
  assumes "bounded_stream es"
  shows "snapshot x (reduceExecutionEvents es) =
    (if of_execution x es = [] then None
     else Some (spec_snapshot x (ev_goalId (hd (of_execution x es))) (of_execution x es)))"
proof (cases "map_of (es_executions (reduceExecutionEvents es)) x")
  case None
  then have "x \<notin> ev_executionId ` set es"
    using reduce_implements [OF assms] by (simp add: implements_def map_of_eq_None_iff)
  then have "of_execution x es = []" unfolding filter_empty_conv by (metis image_eqI)
  with None show ?thesis by (simp add: snapshot_def)
next
  case (Some st)
  then have "x \<in> ev_executionId ` set es"
    using reduce_implements [OF assms] unfolding implements_def by (metis domI dom_map_of_conv_image_fst)
  then have "of_execution x es \<noteq> []" by (auto simp: filter_empty_conv)
  moreover have "settled (set (of_execution x es)) st" "xs_goalId st = ev_goalId (hd (of_execution x es))"
    using Some reduce_implements [OF assms] unfolding implements_def by blast+
  moreover have "numbered_events (set (of_execution x es))" using assms unfolding bounded_stream_def by blast
  ultimately show ?thesis using Some settled_implements [of "of_execution x es" st x] by (simp add: snapshot_def)
qed

section \<open>Properties\<close>

text \<open>
  C19. The store of executions implements a specification that knows nothing of delivery. Fed any
  list of events (in any order, with any repetitions, of up to 200 executions with up to 2,000
  distinct events each, the events of one execution numbered from one), it answers for every
  execution what sorting that execution's distinct events and folding the prefix 1, 2, 3 and on
  without a hole gives: the watermark is the length of that prefix, the events behind the first
  hole are the pending sequences, and the snapshot says it is gapped exactly when there are any
  (or when a projection is full).
\<close>

theorem store_implements_the_gapless_prefix:
  assumes "bounded_stream es"
  shows "snapshot x (reduceExecutionEvents es) =
    (if of_execution x es = [] then None
     else Some (spec_snapshot x (ev_goalId (hd (of_execution x es))) (of_execution x es)))"
  by (rule store_spec [OF assms])

definition demo_event :: "int \<Rightarrow> string \<Rightarrow> js \<Rightarrow> ExecutionEvent" where
  "demo_event n name payload =
     \<lparr>ev_eventId = name, ev_executionId = ''run'', ev_executionSequence = n, ev_sessionKey = ''chat'', ev_goalId = None,
      ev_emittedAt = ''t'', ev_nodeExecutionId = None, ev_payload = payload\<rparr>"

definition demo_started :: ExecutionEvent where
  "demo_started = demo_event 1 ''e1'' (JObj [(''status'', JStr ''running'')])"

definition demo_failed :: ExecutionEvent where
  "demo_failed = demo_event 2 ''e2'' (JObj [(''status'', JStr ''failed'')])"

definition demo_node :: ExecutionEvent where
  "demo_node = demo_event 4 ''e4'' (JObj [(''nodeId'', JStr ''build''), (''status'', JStr ''running'')])"

lemma demo_fields:
  "ev_executionId demo_started = ''run''" "ev_executionId demo_failed = ''run''" "ev_executionId demo_node = ''run''"
  "ev_goalId demo_started = None" "ev_goalId demo_failed = None" "ev_goalId demo_node = None"
  "ev_executionSequence demo_started = 1" "ev_executionSequence demo_failed = 2" "ev_executionSequence demo_node = 4"
  "ev_eventId demo_started = ''e1''" "ev_eventId demo_failed = ''e2''" "ev_eventId demo_node = ''e4''"
  by (simp_all add: demo_node_def demo_started_def demo_failed_def demo_event_def)

lemma demo_stream: "bounded_stream [demo_node, demo_started, demo_failed, demo_started]"
  unfolding bounded_stream_def
proof (intro conjI allI)
  let ?es = "[demo_node, demo_started, demo_failed, demo_started]"
  have all: "set ?es = {demo_node, demo_started, demo_failed}" by auto
  show "card (ev_executionId ` set ?es) \<le> MAX_EXECUTIONS" by (simp add: all demo_fields MAX_EXECUTIONS_def)
  fix x
  have "numbered_events {demo_node, demo_started, demo_failed}" by (simp add: numbered_events_def demo_fields)
  then show "numbered_events (set (of_execution x ?es))" by (rule numbered_subset) auto
  have "card (set (of_execution x ?es)) \<le> length (of_execution x ?es)" by (rule card_length)
  also have "\<dots> \<le> length ?es" by (rule length_filter_le)
  finally show "card (set (of_execution x ?es)) \<le> MAX_EVENTS_PER_EXECUTION" by (simp add: MAX_EVENTS_PER_EXECUTION_def)
qed

theorem store_implements_the_gapless_prefix_witness:
  "\<exists>sn. snapshot ''run'' (reduceExecutionEvents [demo_node, demo_started, demo_failed, demo_started]) = Some sn
    \<and> sn_status sn = ''failed'' \<and> sn_watermark sn = 2 \<and> sn_completeness sn = gapped \<and> sn_pendingSequences sn = [4]"
proof -
  let ?es = "[demo_node, demo_started, demo_failed, demo_started]"
  have "of_execution ''run'' ?es = ?es"
    by (simp add: demo_fields)
  moreover have "spec_snapshot ''run'' (ev_goalId (hd ?es)) ?es = sn \<Longrightarrow>
      sn_status sn = ''failed'' \<and> sn_watermark sn = 2 \<and> sn_completeness sn = gapped \<and> sn_pendingSequences sn = [4]" for sn
    by (drule sym) (simp, code_simp)
  ultimately show ?thesis using store_implements_the_gapless_prefix [OF demo_stream, of "''run''"] by auto
qed

text \<open>
  C20. Neither the order in which events arrive nor how often each is delivered can be seen in the
  store: two deliveries of the same events (a live stream, and the same stream after a reconnect
  that replays, reorders and duplicates) give the same snapshot of every execution, with no usage
  counted twice, no attempt lost and no decision repeated, as long as the events of an execution
  name the same goal.
\<close>

theorem arrival_order_and_replay_are_invisible:
  assumes "bounded_stream es" "set es = set es'"
    and "\<forall>e \<in> set es. \<forall>e' \<in> set es. ev_executionId e = ev_executionId e' \<longrightarrow> ev_goalId e = ev_goalId e'"
  shows "snapshot x (reduceExecutionEvents es) = snapshot x (reduceExecutionEvents es')"
proof -
  have same: "set (of_execution x es') = set (of_execution x es)" for x using assms(2) by auto
  have "bounded_stream es'" using assms(1,2) by (simp add: bounded_stream_def same)
  note both = store_spec [OF assms(1), of x] store_spec [OF this, of x]
  show ?thesis
  proof (cases "of_execution x es = []")
    case True
    then have "of_execution x es' = []" using same [of x] by (metis set_empty)
    with True both show ?thesis by simp
  next
    case False
    then have ne: "of_execution x es' \<noteq> []" using same [of x] by (metis set_empty)
    have "hd (of_execution x es) \<in> set (of_execution x es)" "hd (of_execution x es') \<in> set (of_execution x es)"
      using False ne same [of x] hd_in_set by blast+
    then have "ev_goalId (hd (of_execution x es)) = ev_goalId (hd (of_execution x es'))" using assms(3) by auto
    moreover have "in_sequence (of_execution x es) = in_sequence (of_execution x es')"
      using assms(1) same [of x] by (intro in_sequence_set) (simp_all add: bounded_stream_def)
    ultimately show ?thesis using False ne both by (simp add: spec_snapshot_def)
  qed
qed

theorem arrival_order_and_replay_are_invisible_witness:
  "snapshot ''run'' (reduceExecutionEvents [demo_node, demo_started, demo_failed, demo_started])
   = snapshot ''run'' (reduceExecutionEvents [demo_started, demo_failed, demo_failed, demo_node])"
  by (rule arrival_order_and_replay_are_invisible [OF demo_stream])
    (auto simp: demo_fields)

end
