(* ===== verification/ExecutionSafety.thy ===== *)
theory ExecutionSafety
  imports ExecutionSpec "HOL-Library.Sublist"
begin

text \<open>
  Invariants of the execution store under every operation, in any order: its bounds, and what an
  execution never takes back. And three places where it does not do what its comments say.
\<close>

section \<open>One projection\<close>

definition projection_ok :: "Projection \<Rightarrow> bool" where
  "projection_ok p \<longleftrightarrow>
     isExecutionStatus (pj_status p)
     \<and> length (pj_occurrences p) \<le> MAX_OCCURRENCES_PER_EXECUTION \<and> distinct (map fst (pj_occurrences p))
     \<and> length (pj_decisions p) \<le> MAX_DECISIONS_PER_EXECUTION \<and> list_all (\<lambda>d. bounded_codes (pd_reasonCodes d)) (pj_decisions p)
     \<and> length (pj_traversals p) \<le> MAX_TRAVERSALS_PER_EXECUTION
     \<and> length (pj_loopBudgets p) \<le> MAX_OCCURRENCES_PER_EXECUTION
     \<and> bounded_codes (pj_terminalReasonCodes p)"

definition projection_grows :: "Projection \<Rightarrow> Projection \<Rightarrow> bool" where
  "projection_grows p p' \<longleftrightarrow>
     (isTerminalExecutionStatus (pj_status p) \<longrightarrow> pj_status p' = pj_status p)
     \<and> prefix (map fst (pj_occurrences p)) (map fst (pj_occurrences p'))
     \<and> prefix (pj_decisions p) (pj_decisions p') \<and> prefix (pj_traversals p) (pj_traversals p')
     \<and> prefix (pj_loopBudgets p) (pj_loopBudgets p') \<and> (pj_truncated p \<longrightarrow> pj_truncated p')"

definition projection_step :: "Projection \<Rightarrow> Projection \<Rightarrow> bool" where
  "projection_step p p' \<longleftrightarrow> projection_grows p p' \<and> (projection_ok p \<longrightarrow> projection_ok p')"

lemma projection_grows_refl [simp]: "projection_grows p p"
  by (simp add: projection_grows_def)

lemma projection_step_refl [simp]: "projection_step p p"
  by (simp add: projection_step_def projection_grows_def)

lemma projection_grows_trans: "projection_grows p q \<Longrightarrow> projection_grows q r \<Longrightarrow> projection_grows p r"
  unfolding projection_grows_def by (metis prefix_order.order_trans)

lemma projection_step_trans: "projection_step p q \<Longrightarrow> projection_step q r \<Longrightarrow> projection_step p r"
  using projection_grows_trans by (auto simp: projection_step_def)

lemma truncate_step [simp]: "projection_step p (p\<lparr>pj_truncated := True\<rparr>)"
  by (simp add: projection_step_def projection_grows_def projection_ok_def)

lemma decision_step: "projection_step p (project_decision e p)"
proof -
  have "projection_step p (p\<lparr>pj_decisions := pj_decisions p @ [d]\<rparr>)"
    if "length (pj_decisions p) < MAX_DECISIONS_PER_EXECUTION" "bounded_codes (pd_reasonCodes d)" for d
    using that by (simp add: projection_step_def projection_grows_def projection_ok_def)
  then show ?thesis by (simp add: project_decision_def Let_def)
qed

lemma traversal_step: "projection_step p (project_traversal e p)"
proof -
  have "projection_step p (p\<lparr>pj_traversals := pj_traversals p @ [d]\<rparr>)"
    if "length (pj_traversals p) < MAX_TRAVERSALS_PER_EXECUTION" for d
    using that by (simp add: projection_step_def projection_grows_def projection_ok_def)
  then show ?thesis by (simp add: project_traversal_def split: option.split)
qed

lemma loop_step: "projection_step p (project_loop e p)"
proof -
  have "projection_step p (p\<lparr>pj_loopBudgets := pj_loopBudgets p @ [d]\<rparr>)"
    if "length (pj_loopBudgets p) < MAX_OCCURRENCES_PER_EXECUTION" for d
    using that by (simp add: projection_step_def projection_grows_def projection_ok_def)
  then show ?thesis by (simp add: project_loop_def Let_def split: option.split)
qed

lemma status_step: "projection_step p (project_status e nxt p)"
proof -
  define p' where "p' = (if isExecutionStatus nxt \<and> canTransitionExecutionStatus (pj_status p) nxt then p\<lparr>pj_status := nxt\<rparr> else p)"
  have "projection_step p p'"
    by (simp add: p'_def projection_step_def projection_grows_def projection_ok_def canTransitionExecutionStatus_def)
  moreover have "projection_step p' (p'\<lparr>pj_terminalReasonCodes := boundReasonCodes codes\<rparr>)" for codes
    by (simp add: projection_step_def projection_grows_def projection_ok_def)
  ultimately show ?thesis
    unfolding project_status_def p'_def [symmetric] Let_def by (auto split: js.split intro: projection_step_trans)
qed

lemma update_keys: "map fst (AList.update k v xs) = (if k \<in> fst ` set xs then map fst xs else map fst xs @ [k])"
  by (simp add: update_keys)

lemma occurrence_step: "projection_step p (project_occurrence e nodeId p)"
proof (cases "length (pj_occurrences p) \<ge> MAX_OCCURRENCES_PER_EXECUTION")
  case True
  then show ?thesis by (simp add: project_occurrence_def)
next
  case False
  have "projection_step p (p\<lparr>pj_occurrences := AList.update k v (pj_occurrences p), pj_usage := u\<rparr>)" for k v u
  proof -
    have "length (AList.update k v (pj_occurrences p)) \<le> Suc (length (pj_occurrences p))"
      using arg_cong [OF update_keys [of k v "pj_occurrences p"], of length] by (simp split: if_splits)
    then show ?thesis using False
      by (auto simp: projection_step_def projection_grows_def projection_ok_def update_keys distinct_update)
  qed
  then show ?thesis using False by (simp add: project_occurrence_def split: prod.split)
qed

lemma fold_step: "projection_step p (fold_event e p)"
proof -
  have "projection_step p (project_extras e p)"
    unfolding project_extras_def by (meson decision_step traversal_step loop_step projection_step_trans)
  then show ?thesis
    unfolding fold_event_def Let_def
    by (auto split: option.split prod.split bool.split intro: projection_step_trans status_step occurrence_step)
qed

section \<open>One execution\<close>

definition state_ok :: "ExecutionState \<Rightarrow> bool" where
  "state_ok st \<longleftrightarrow>
     xs_eventCount st \<le> MAX_EVENTS_PER_EXECUTION \<and> length (xs_seenEventIds st) = xs_eventCount st
     \<and> length (xs_pending st) \<le> xs_eventCount st \<and> projection_ok (xs_projection st)"

definition state_grows :: "ExecutionState \<Rightarrow> ExecutionState \<Rightarrow> bool" where
  "state_grows st st' \<longleftrightarrow>
     xs_sessionKey st' = xs_sessionKey st \<and> xs_goalId st' = xs_goalId st \<and> xs_watermark st \<le> xs_watermark st'
     \<and> projection_grows (xs_projection st) (xs_projection st')"

definition state_step :: "ExecutionState \<Rightarrow> ExecutionState \<Rightarrow> bool" where
  "state_step st st' \<longleftrightarrow> state_grows st st' \<and> (state_ok st \<longrightarrow> state_ok st')"

lemma state_step_refl [simp]: "state_step st st"
  by (simp add: state_step_def state_grows_def)

lemma state_grows_trans: "state_grows a b \<Longrightarrow> state_grows b c \<Longrightarrow> state_grows a c"
  unfolding state_grows_def using projection_grows_trans by (metis (no_types) order_trans)

lemma state_step_trans: "state_step a b \<Longrightarrow> state_step b c \<Longrightarrow> state_step a c"
  using state_grows_trans by (auto simp: state_step_def)

lemma drain_step: "state_step st (fst (drainPending st touched))"
proof (induction st touched rule: drainPending.induct)
  case (1 st touched)
  show ?case
  proof (cases "map_of (xs_pending st) (xs_watermark st + 1)")
    case None
    have "state_step st (st\<lparr>xs_gapped := False\<rparr>)"
      by (simp add: state_step_def state_grows_def state_ok_def projection_step_def)
    with None show ?thesis by (simp add: drainPending.simps [of st touched])
  next
    case (Some nxt)
    let ?st = "take_event nxt (st\<lparr>xs_pending := AList.delete (xs_watermark st + 1) (xs_pending st)\<rparr>)"
    have "length (AList.delete (xs_watermark st + 1) (xs_pending st)) \<le> length (xs_pending st)" by (rule length_delete_le)
    then have "state_step st ?st"
      using fold_step [of "xs_projection st" nxt]
      by (auto simp: take_event_def state_step_def state_grows_def state_ok_def projection_step_def)
    with "1.IH" [OF Some] Some show ?thesis
      by (simp add: drainPending.simps [of st touched]) (rule state_step_trans)
  qed
qed

lemma deliver_step: "state_step st (fst (snd (deliver e st)))"
proof -
  let ?st = "st\<lparr>xs_seenEventIds := xs_seenEventIds st @ [ev_eventId e], xs_eventCount := xs_eventCount st + 1\<rparr>"
  have "state_step st (st\<lparr>xs_projection := (xs_projection st)\<lparr>pj_truncated := True\<rparr>\<rparr>)"
    using truncate_step [of "xs_projection st"] by (simp add: state_step_def state_grows_def state_ok_def projection_step_def)
  moreover have "state_step st (fst (drainPending (take_event e ?st) touched))"
    if "\<not> xs_eventCount st \<ge> MAX_EVENTS_PER_EXECUTION" for touched
  proof (rule state_step_trans [OF _ drain_step])
    show "state_step st (take_event e ?st)"
      using that fold_step [of "xs_projection st" e]
      by (auto simp: take_event_def state_step_def state_grows_def state_ok_def projection_step_def)
  qed
  moreover have "state_step st (?st\<lparr>xs_pending := AList.update n e (xs_pending st), xs_gapped := True\<rparr>)"
    if "\<not> xs_eventCount st \<ge> MAX_EVENTS_PER_EXECUTION" for n
  proof -
    have "length (AList.update n e (xs_pending st)) \<le> Suc (length (xs_pending st))"
      using arg_cong [OF update_keys [of n e "xs_pending st"], of length] by (simp split: if_splits)
    then show ?thesis using that
      by (simp add: state_step_def state_grows_def state_ok_def projection_step_def)
  qed
  ultimately show ?thesis by (simp add: deliver_def Let_def)
qed

section \<open>The store under its operations\<close>

text \<open>Every method of the store that changes it.\<close>

inductive store_step :: "ExecutionSessionStore \<Rightarrow> ExecutionSessionStore \<Rightarrow> bool" where
  step_apply: "store_step s (snd (apply_event e s))"
| step_forget: "store_step s (forget x s)"
| step_forget_session: "store_step s (snd (forgetSession key s))"
| step_archive_session: "store_step s (snd (archiveSession key s))"
| step_fork_session: "store_step s (snd (forkSession source forked s))"

definition store_ok :: "ExecutionSessionStore \<Rightarrow> bool" where
  "store_ok s \<longleftrightarrow>
     length (es_executions s) \<le> MAX_EXECUTIONS \<and> distinct (map fst (es_executions s))
     \<and> (\<forall>(x, st) \<in> set (es_executions s). state_ok st)"

definition executions_grow :: "(string \<times> ExecutionState) list \<Rightarrow> (string \<times> ExecutionState) list \<Rightarrow> bool" where
  "executions_grow xs ys \<longleftrightarrow>
     (\<forall>x st st'. map_of xs x = Some st \<and> map_of ys x = Some st' \<longrightarrow> state_grows st st')"

lemma state_grows_refl [simp]: "state_grows st st"
  by (simp add: state_grows_def)

lemma executions_grow_refl [simp]: "executions_grow xs xs"
  unfolding executions_grow_def by (metis option.inject state_grows_refl)

lemma store_ok_sub:
  assumes "store_ok s" "distinct (map fst (es_executions s'))" "set (es_executions s') \<subseteq> set (es_executions s)"
  shows "store_ok s' \<and> executions_grow (es_executions s) (es_executions s')"
proof -
  have d: "distinct (map fst (es_executions s))" using assms(1) by (simp add: store_ok_def)
  have "card (set (es_executions s')) \<le> card (set (es_executions s))" using assms(3) by (intro card_mono) simp_all
  then have "length (es_executions s') \<le> length (es_executions s)"
    using assms(2) d by (metis distinct_card distinct_map)
  moreover have "executions_grow (es_executions s) (es_executions s')"
    unfolding executions_grow_def
  proof (intro allI impI)
    fix x st st' assume both: "map_of (es_executions s) x = Some st \<and> map_of (es_executions s') x = Some st'"
    then have "(x, st') \<in> set (es_executions s)" using assms(3) map_of_SomeD by fastforce
    moreover have "(x, st) \<in> set (es_executions s)" using both map_of_SomeD by fastforce
    ultimately have "st' = st" using eq_key_imp_eq_value [OF d] by blast
    then show "state_grows st st'" by simp
  qed
  moreover have "length (es_executions s) \<le> MAX_EXECUTIONS" using assms(1) by (simp add: store_ok_def)
  moreover have "\<forall>(x, st) \<in> set (es_executions s'). state_ok st"
  proof
    fix p assume "p \<in> set (es_executions s')"
    then have "p \<in> set (es_executions s)" using assms(3) by (rule subsetD [rotated])
    then show "case p of (x, st) \<Rightarrow> state_ok st" using assms(1) unfolding store_ok_def by blast
  qed
  ultimately show ?thesis using assms(2) by (simp add: store_ok_def)
qed

lemma delete_sub: "set (AList.delete x xs) \<subseteq> set xs"
  by (auto simp: AList.delete_eq)

lemma forget_keeps: "store_ok s \<Longrightarrow> store_ok (forget x s) \<and> executions_grow (es_executions s) (es_executions (forget x s))"
  by (rule store_ok_sub) (simp_all add: store_ok_def distinct_delete delete_sub)

lemma forget_all:
  "set (es_executions (fold forget ids s)) \<subseteq> set (es_executions s)
   \<and> (distinct (map fst (es_executions s)) \<longrightarrow> distinct (map fst (es_executions (fold forget ids s))))"
proof (induction ids arbitrary: s)
  case (Cons x ids)
  from Cons [of "forget x s"] delete_sub [of x "es_executions s"] show ?case by (auto simp: distinct_delete)
qed simp

lemma evicted:
  "distinct (map fst (es_executions s)) \<Longrightarrow>
   es_executions (evictIfNeeded s) = drop (length (es_executions s) - MAX_EXECUTIONS) (es_executions s)"
proof (induction s rule: evictIfNeeded.induct)
  case (1 s)
  show ?case
  proof (cases "length (es_executions s) > MAX_EXECUTIONS")
    case False
    then show ?thesis by (simp add: evictIfNeeded.simps [of s])
  next
    case True
    then obtain p ps where xs: "es_executions s = p # ps" by (cases "es_executions s") auto
    have "fst p \<notin> fst ` set ps" using "1.prems" xs by simp
    then have "AList.delete (fst p) ps = ps" by (simp add: delete_id)
    then have del: "es_executions (forget (fst (hd (es_executions s))) s) = ps" by (simp add: xs)
    have "es_executions (evictIfNeeded (forget (fst (hd (es_executions s))) s)) = drop (length ps - MAX_EXECUTIONS) ps"
      using "1.IH" [OF True] "1.prems" xs del by simp
    moreover have "length (es_executions s) - MAX_EXECUTIONS = Suc (length ps - MAX_EXECUTIONS)" using True xs by simp
    ultimately show ?thesis using True by (simp add: evictIfNeeded.simps [of s] xs)
  qed
qed

lemma new_state_ok: "state_ok (new_state key goal)"
  by (simp add: state_ok_def new_state_def projection_ok_def empty_projection_def isExecutionStatus_def isOpenExecutionStatus_def
      OPEN_EXECUTION_STATUSES_def)

text \<open>What \<open>#stateFor\<close> hands to the rest of \<open>apply\<close>.\<close>

lemma stateFor_ok:
  assumes "store_ok s" "stateFor x key goal s = (st, s')"
  shows "store_ok s' \<and> executions_grow (es_executions s) (es_executions s') \<and> map_of (es_executions s') x = Some st"
proof (cases "map_of (es_executions s) x")
  case (Some st0)
  with assms show ?thesis by (auto simp: stateFor_def executions_grow_def)
next
  case None
  define xs where "xs = es_executions s @ [(x, new_state key goal)]"
  have d: "distinct (map fst xs)" using assms(1) None by (simp add: xs_def store_ok_def map_of_eq_None_iff)
  have st: "st = new_state key goal" "es_executions s' = drop (length xs - MAX_EXECUTIONS) xs"
    using assms(2) None evicted d by (auto simp: stateFor_def Let_def xs_def)
  have "distinct (map fst (es_executions s'))" using d by (simp add: st(2) drop_map [symmetric] distinct_drop)
  moreover have "length (es_executions s') \<le> MAX_EXECUTIONS" by (simp add: st(2))
  moreover have "\<forall>(y, u) \<in> set (es_executions s'). state_ok u"
    using assms(1) set_drop_subset [of "length xs - MAX_EXECUTIONS" xs] new_state_ok
    by (auto simp: st(2) store_ok_def xs_def)
  moreover have "(x, st) \<in> set (es_executions s')"
  proof -
    have "length xs - MAX_EXECUTIONS \<le> length (es_executions s)" by (simp add: xs_def MAX_EXECUTIONS_def)
    then show ?thesis by (simp add: st xs_def)
  qed
  moreover have "u = u'" if "map_of (es_executions s) y = Some u" "map_of (es_executions s') y = Some u'" for y u u'
  proof -
    have "map_of xs y = Some u" using that(1) by (simp add: xs_def map_of_append map_add_Some_iff)
    moreover have "(y, u') \<in> set xs" using map_of_SomeD [OF that(2)] by (auto simp: st(2) dest: in_set_dropD)
    ultimately show ?thesis using d by simp
  qed
  then have "executions_grow (es_executions s) (es_executions s')"
    unfolding executions_grow_def by (metis state_grows_refl)
  ultimately show ?thesis by (simp add: store_ok_def)
qed

lemma update_sub: "set (AList.update k v xs) \<subseteq> insert (k, v) (set xs)"
  by (induction xs) auto

lemma apply_keeps:
  assumes "store_ok s"
  shows "store_ok (snd (apply_event e s)) \<and> executions_grow (es_executions s) (es_executions (snd (apply_event e s)))"
proof -
  let ?x = "ev_executionId e"
  obtain st s' where found: "stateFor ?x (ev_sessionKey e) (ev_goalId e) s = (st, s')" by force
  note ok = stateFor_ok [OF assms found]
  define st' where "st' = fst (snd (deliver e st))"
  have after: "es_executions (snd (apply_event e s)) = AList.update ?x st' (es_executions s')"
    using found by (simp add: apply_event_def st'_def split: prod.split)
  have step: "state_step st st'" unfolding st'_def by (rule deliver_step)
  have there: "(?x, st) \<in> set (es_executions s')" using ok map_of_SomeD by fastforce
  then have keys: "map fst (AList.update ?x st' (es_executions s')) = map fst (es_executions s')"
    by (force simp: update_keys)
  have "store_ok (snd (apply_event e s))"
    unfolding store_ok_def after
  proof (intro conjI)
    show "length (AList.update ?x st' (es_executions s')) \<le> MAX_EXECUTIONS"
      using ok arg_cong [OF keys, of length] by (simp add: store_ok_def)
    show "distinct (map fst (AList.update ?x st' (es_executions s')))" using ok keys by (simp add: store_ok_def)
    have "state_ok st" using ok there by (auto simp: store_ok_def)
    then have "state_ok st'" using step by (simp add: state_step_def)
    moreover have "set (AList.update ?x st' (es_executions s')) \<subseteq> insert (?x, st') (set (es_executions s'))"
      by (rule update_sub)
    ultimately show "\<forall>(y, u) \<in> set (AList.update ?x st' (es_executions s')). state_ok u"
      using ok by (auto simp: store_ok_def)
  qed
  moreover have "executions_grow (es_executions s) (es_executions (snd (apply_event e s)))"
    unfolding after executions_grow_def
  proof (intro allI impI)
    fix y u u' assume both: "map_of (es_executions s) y = Some u \<and> map_of (AList.update ?x st' (es_executions s')) y = Some u'"
    show "state_grows u u'"
    proof (cases "y = ?x")
      case True
      with both ok have "state_grows u st" "u' = st'" by (auto simp: executions_grow_def update_conv')
      with step show ?thesis using state_grows_trans by (auto simp: state_step_def)
    next
      case False
      with both ok show ?thesis by (auto simp: executions_grow_def update_conv')
    qed
  qed
  ultimately show ?thesis by simp
qed

lemma archive_keeps:
  assumes "store_ok s"
  shows "store_ok (archive x s) \<and> executions_grow (es_executions s) (es_executions (archive x s))"
proof (cases "map_of (es_executions s) x")
  case None
  then show ?thesis using assms by (simp add: archive_def)
next
  case (Some st)
  let ?st = "st\<lparr>xs_archived := True\<rparr>" and ?xs = "es_executions s"
  have there: "(x, st) \<in> set ?xs" by (rule map_of_SomeD [OF Some])
  then have keys: "map fst (AList.update x ?st ?xs) = map fst ?xs" by (force simp: update_keys)
  have "state_ok st" using there assms by (auto simp: store_ok_def)
  then have "state_ok ?st" by (simp add: state_ok_def)
  then have "\<forall>(y, u) \<in> set (AList.update x ?st ?xs). state_ok u"
    using assms update_sub [of x ?st ?xs] by (auto simp: store_ok_def)
  then have "store_ok (archive x s)"
    using assms Some keys map_eq_imp_length_eq [OF keys] by (simp add: store_ok_def archive_def)
  moreover have "executions_grow ?xs (es_executions (archive x s))"
    using Some by (auto simp: archive_def executions_grow_def update_conv' state_grows_def)
  ultimately show ?thesis by simp
qed

lemma executions_grow_trans:
  assumes "executions_grow a b" "executions_grow b c" "fst ` set a \<subseteq> fst ` set b"
  shows "executions_grow a c"
  unfolding executions_grow_def
proof (intro allI impI)
  fix x st st' assume both: "map_of a x = Some st \<and> map_of c x = Some st'"
  then have "x \<in> fst ` set b" using assms(3) map_of_SomeD by force
  then obtain u where "map_of b x = Some u" by (metis domD dom_map_of_conv_image_fst)
  with both assms(1,2) show "state_grows st st'" unfolding executions_grow_def by (blast intro: state_grows_trans)
qed

lemma archive_keys: "fst ` set (es_executions (archive x s)) = fst ` set (es_executions s)"
  by (auto simp: archive_def dom_update insert_absorb map_of_eq_None_iff split: option.splits
      dest: map_of_SomeD intro: rev_image_eqI)

lemma archive_all:
  "store_ok s \<Longrightarrow> store_ok (fold archive ids s) \<and> executions_grow (es_executions s) (es_executions (fold archive ids s))"
proof (induction ids arbitrary: s)
  case Nil
  then show ?case by simp
next
  case (Cons x ids)
  note one = archive_keeps [OF Cons.prems, of x]
  with Cons.IH [of "archive x s"] archive_keys [of x s] show ?case
    using executions_grow_trans by auto
qed

lemma store_step_keeps:
  assumes "store_step s s'" "store_ok s"
  shows "store_ok s' \<and> executions_grow (es_executions s) (es_executions s')"
  using assms(1)
proof cases
  case (step_apply e)
  then show ?thesis using apply_keeps [OF assms(2)] by simp
next
  case (step_forget x)
  then show ?thesis using forget_keeps [OF assms(2)] by simp
next
  case (step_forget_session key)
  have "distinct (map fst (es_executions s))" using assms(2) by (simp add: store_ok_def)
  then show ?thesis
    using store_ok_sub [OF assms(2), of s'] forget_all [of "ids_of_session key s" s] step_forget_session
    by (simp add: forgetSession_def Let_def)
next
  case (step_archive_session key)
  then show ?thesis using archive_all [OF assms(2)] by (simp add: archiveSession_def Let_def)
next
  case (step_fork_session source forked)
  then have "es_executions s' = es_executions s" by (simp add: forkSession_def Let_def)
  then show ?thesis using assms(2) by (simp add: store_ok_def)
qed

lemma reachable_ok: "store_step\<^sup>*\<^sup>* empty_store s \<Longrightarrow> store_ok s"
  by (induction rule: rtranclp_induct) (auto simp: store_step_keeps, simp add: store_ok_def empty_store_def)

section \<open>Properties\<close>

text \<open>
  C21. Whatever is done to the store (events of any kind in any order, forgetting, archiving,
  forking), it stays within its bounds, and an execution that is still in it takes nothing back:
  once its status is terminal no event changes it, its watermark never falls, and the decisions,
  edge traversals and loop budgets it has recorded stay, in their order.
\<close>

theorem executions_stay_bounded_and_final:
  assumes "store_step\<^sup>*\<^sup>* empty_store s" "store_step s s'"
  shows "length (es_executions s') \<le> 200
    \<and> (\<forall>x sn. snapshot x s' = Some sn \<longrightarrow>
          length (sn_occurrences sn) \<le> 1000 \<and> length (sn_decisions sn) \<le> 1000 \<and> length (sn_traversals sn) \<le> 1000
          \<and> length (sn_loopBudgets sn) \<le> 1000 \<and> length (sn_pendingSequences sn) \<le> 2000
          \<and> length (sn_terminalReasonCodes sn) \<le> 16 \<and> isExecutionStatus (sn_status sn))
    \<and> (\<forall>x sn sn'. snapshot x s = Some sn \<and> snapshot x s' = Some sn' \<longrightarrow>
          (isTerminalExecutionStatus (sn_status sn) \<longrightarrow> sn_status sn' = sn_status sn)
          \<and> sn_watermark sn \<le> sn_watermark sn' \<and> prefix (sn_decisions sn) (sn_decisions sn')
          \<and> prefix (sn_traversals sn) (sn_traversals sn') \<and> prefix (sn_loopBudgets sn) (sn_loopBudgets sn')
          \<and> (sn_truncated sn \<longrightarrow> sn_truncated sn'))"
proof (intro conjI allI impI; (elim conjE)?)
  note keeps = store_step_keeps [OF assms(2) reachable_ok [OF assms(1)]]
  show "length (es_executions s') \<le> 200" using keeps by (simp add: store_ok_def MAX_EXECUTIONS_def)
  fix x sn assume "snapshot x s' = Some sn"
  then obtain st where st: "map_of (es_executions s') x = Some st" "sn = snapshot_of x st" by (auto simp: snapshot_def)
  then have ok: "state_ok st" using keeps map_of_SomeD [OF st(1)] by (auto simp: store_ok_def)
  note bounds = ok [unfolded state_ok_def projection_ok_def MAX_EVENTS_PER_EXECUTION_def MAX_OCCURRENCES_PER_EXECUTION_def
      MAX_DECISIONS_PER_EXECUTION_def MAX_TRAVERSALS_PER_EXECUTION_def bounded_codes_def MAX_REASON_CODES_def]
  show "length (sn_occurrences sn) \<le> 1000" "length (sn_decisions sn) \<le> 1000" "length (sn_traversals sn) \<le> 1000"
    "length (sn_loopBudgets sn) \<le> 1000" "length (sn_pendingSequences sn) \<le> 2000" "length (sn_terminalReasonCodes sn) \<le> 16"
    "isExecutionStatus (sn_status sn)"
    using bounds by (simp_all add: st(2) snapshot_of_def Let_def)
next
  note keeps = store_step_keeps [OF assms(2) reachable_ok [OF assms(1)]]
  fix x sn sn' assume "snapshot x s = Some sn" "snapshot x s' = Some sn'"
  then obtain st st' where st: "map_of (es_executions s) x = Some st" "sn = snapshot_of x st"
    "map_of (es_executions s') x = Some st'" "sn' = snapshot_of x st'" by (auto simp: snapshot_def)
  then have "state_grows st st'" using keeps unfolding executions_grow_def by blast
  then have g: "xs_watermark st \<le> xs_watermark st'" "projection_grows (xs_projection st) (xs_projection st')"
    by (simp_all add: state_grows_def)
  show "sn_watermark sn \<le> sn_watermark sn'" "prefix (sn_decisions sn) (sn_decisions sn')"
    "prefix (sn_traversals sn) (sn_traversals sn')" "prefix (sn_loopBudgets sn) (sn_loopBudgets sn')"
    using g by (simp_all add: st snapshot_of_def Let_def projection_grows_def)
  show "sn_status sn' = sn_status sn" if "isTerminalExecutionStatus (sn_status sn)"
    using g that by (simp add: st snapshot_of_def Let_def projection_grows_def)
  show "sn_truncated sn'" if "sn_truncated sn"
    using g that by (simp add: st snapshot_of_def Let_def projection_grows_def)
qed

theorem executions_stay_bounded_and_final_witness:
  "\<exists>sn. snapshot ''run'' (snd (apply_event (demo_event 3 ''late'' (JObj [(''status'', JStr ''running'')]))
       (reduceExecutionEvents [demo_started, demo_failed]))) = Some sn \<and> sn_status sn = ''failed''"
proof -
  let ?s = "reduceExecutionEvents [demo_started, demo_failed]"
    and ?late = "demo_event 3 ''late'' (JObj [(''status'', JStr ''running'')])"
  have "store_step\<^sup>*\<^sup>* empty_store ?s"
    by (simp add: reduceExecutionEvents_def) (meson step_apply rtranclp.intros)
  moreover have "store_step ?s (snd (apply_event ?late ?s))" by (rule step_apply)
  moreover have "map_option sn_status (snapshot ''run'' ?s) = Some ''failed''" by code_simp
  then obtain sn where "snapshot ''run'' ?s = Some sn" "sn_status sn = ''failed''" by auto
  moreover have "isTerminalExecutionStatus ''failed''" by code_simp
  moreover have "snapshot ''run'' (snd (apply_event ?late ?s)) \<noteq> None" by code_simp
  then obtain sn' where "snapshot ''run'' (snd (apply_event ?late ?s)) = Some sn'" by auto
  ultimately show ?thesis using executions_stay_bounded_and_final [of ?s "snd (apply_event ?late ?s)"] by auto
qed

text \<open>
  The bound on node occurrences counts updates as if they were new: once an execution holds
  1,000 of them, an event that names a node it already holds changes nothing but the truncation
  mark, so a node that was recorded as running stays running for ever, whatever happens to it,
  and its usage is not counted.
\<close>

theorem full_execution_ignores_known_nodes:
  assumes "length (pj_occurrences p) \<ge> 1000" "field_string (ev_payload e) ''nodeId'' = Some nodeId"
  shows "pj_occurrences (fold_event e p) = pj_occurrences p \<and> pj_usage (fold_event e p) = pj_usage p
    \<and> pj_status (fold_event e p) = pj_status p \<and> pj_truncated (fold_event e p)"
proof -
  have "js_has (ev_payload e) ''nodeId''"
    using assms(2) by (auto simp: field_string_def js_get_def js_has_def split: js.splits option.splits dest: map_of_SomeD)
      (force dest: map_of_SomeD)
  then have "fold_event e p = project_occurrence e nodeId (project_extras e p)"
    using assms(2) by (simp add: fold_event_def Let_def split: option.split)
  moreover have "pj_occurrences (project_extras e p) = pj_occurrences p" "pj_usage (project_extras e p) = pj_usage p"
    "pj_status (project_extras e p) = pj_status p"
    by (simp_all add: project_extras_def project_loop_def project_traversal_def project_decision_def Let_def split: option.split)
  ultimately show ?thesis using assms(1) by (simp add: project_occurrence_def MAX_OCCURRENCES_PER_EXECUTION_def)
qed

definition demo_occurrence :: ExecutionNodeOccurrence where
  "demo_occurrence =
     \<lparr>no_nodeExecutionId = ''build#1'', no_nodeId = ''build'', no_attempt = Num 1, no_iterationPath = [],
      no_status = ''running'', no_childSessionIds = [], no_usage = emptyExecutionUsage, no_terminalReasonCodes = []\<rparr>"

definition demo_full :: Projection where
  "demo_full = empty_projection\<lparr>pj_status := ''running'',
     pj_occurrences := (''build#1'', demo_occurrence)
       # map (\<lambda>i. (digits_of i @ ''#1'', demo_occurrence\<lparr>no_nodeId := digits_of i\<rparr>)) [0..<999]\<rparr>"

theorem full_execution_ignores_known_nodes_witness:
  "map_of (pj_occurrences (fold_event
       (demo_event 1001 ''done'' (JObj [(''nodeId'', JStr ''build''), (''status'', JStr ''succeeded'')])) demo_full)) ''build#1''
   = Some demo_occurrence \<and> no_status demo_occurrence = ''running''"
proof -
  let ?e = "demo_event 1001 ''done'' (JObj [(''nodeId'', JStr ''build''), (''status'', JStr ''succeeded'')])"
  have "length (pj_occurrences demo_full) \<ge> 1000" by (simp add: demo_full_def)
  moreover have "field_string (ev_payload ?e) ''nodeId'' = Some ''build''"
    by (simp add: demo_event_def field_string_def js_get_def)
  ultimately have "pj_occurrences (fold_event ?e demo_full) = pj_occurrences demo_full"
    using full_execution_ignores_known_nodes [of demo_full ?e "''build''"] by simp
  moreover have "map_of (pj_occurrences demo_full) ''build#1'' = Some demo_occurrence" by (simp add: demo_full_def)
  moreover have "no_status demo_occurrence = ''running''" by (simp add: demo_occurrence_def)
  ultimately show ?thesis by simp
qed

text \<open>
  A status event a terminal execution refuses still replaces the reasons it ended for.
\<close>

lemma refused_status_rewrites_reasons:
  assumes "isTerminalExecutionStatus (pj_status p)" "js_get (ev_payload e) ''reasonCodes'' = JArr codes"
  shows "pj_status (project_status e nxt p) = pj_status p
    \<and> pj_terminalReasonCodes (project_status e nxt p) = boundReasonCodes (strings_in codes)"
  using assms by (auto simp: project_status_def Let_def canTransitionExecutionStatus_def)

text \<open>
  A fork shares the executions of its source, and forgetting the fork (deleting the forked
  transcript) deletes them for both: afterwards none of the source's executions can be read and
  the source lists nothing.
\<close>

theorem forgetting_a_fork_erases_the_source:
  assumes "ids_of_session source s \<noteq> []"
    and "s' = snd (forgetSession forked (snd (forkSession source forked s)))"
  shows "\<forall>x \<in> set (ids_of_session source s). snapshot x s' = None"
proof -
  let ?fork = "snd (forkSession source forked s)"
  have linked: "set ids \<subseteq> set (ids_of_session key (t\<lparr>es_bySession := fold (link key) ids (es_bySession t)\<rparr>))" for ids key t
  proof -
    have "x \<in> set ids \<or> (\<exists>old. map_of index key = Some old \<and> x \<in> set old) \<Longrightarrow>
        \<exists>new. map_of (fold (link key) ids index) key = Some new \<and> x \<in> set new" for x index
    proof (induction ids arbitrary: index)
      case (Cons y ids)
      have "(\<exists>old. map_of index key = Some old \<and> x \<in> set old) \<or> x = y \<Longrightarrow>
          \<exists>new. map_of (link key y index) key = Some new \<and> x \<in> set new"
        by (auto simp: link_def update_conv' split: option.split)
      with Cons show ?case by auto
    qed simp
    from this [where index = "es_bySession t"] show ?thesis by (fastforce simp: ids_of_session_def)
  qed
  have ids: "set (ids_of_session source s) \<subseteq> set (ids_of_session forked ?fork)"
    using assms(1) linked [of "ids_of_session source s" forked s] by (simp add: forkSession_def Let_def)
  have gone: "x \<in> set ids \<or> map_of (es_executions t) x = None \<Longrightarrow> map_of (es_executions (fold forget ids t)) x = None" for x ids t
  proof (induction ids arbitrary: t)
    case (Cons y ids)
    have "map_of (es_executions (forget y t)) x = None" if "x = y \<or> map_of (es_executions t) x = None"
      using that by (auto simp: delete_conv')
    with Cons show ?case by auto
  qed simp
  show ?thesis
    using ids gone by (auto simp: snapshot_def assms(2) forgetSession_def Let_def)
qed

theorem forgetting_a_fork_erases_the_source_witness:
  "snapshot ''run'' (reduceExecutionEvents [demo_started]) \<noteq> None
   \<and> snapshot ''run'' (snd (forgetSession ''copy'' (snd (forkSession ''chat'' ''copy'' (reduceExecutionEvents [demo_started]))))) = None"
proof -
  have "ids_of_session ''chat'' (reduceExecutionEvents [demo_started]) = [''run'']" by code_simp
  then have "snapshot ''run'' (snd (forgetSession ''copy'' (snd (forkSession ''chat'' ''copy'' (reduceExecutionEvents [demo_started]))))) = None"
    using forgetting_a_fork_erases_the_source [of "''chat''" "reduceExecutionEvents [demo_started]", OF _ refl] by simp
  moreover have "snapshot ''run'' (reduceExecutionEvents [demo_started]) \<noteq> None" by code_simp
  ultimately show ?thesis by simp
qed

text \<open>
  The goal of an execution is that of the event that arrives first, also when that event carries
  none and a later one does.
\<close>

lemma goal_of_the_first_arrival:
  assumes "map_of (es_executions s) (ev_executionId e) = Some st"
  shows "\<exists>st'. map_of (es_executions (snd (apply_event e s))) (ev_executionId e) = Some st' \<and> xs_goalId st' = xs_goalId st"
  using assms deliver_step [of st e]
  by (auto simp: apply_event_def stateFor_def state_step_def state_grows_def update_conv' split: prod.split)

end
