(* ===== verification/WorkflowGraph.thy ===== *)
theory WorkflowGraph
  imports JsNumber JsText "HOL-Library.AList"
begin

text \<open>
  The graph of a workflow, \<open>packages/core/src/workflow/graph/graph.ts\<close>: validation, cycle
  detection (a three-colour depth-first search), the run order (Kahn's algorithm), interpolation
  of \<open>{{$nodes.x}}\<close> and \<open>{{$vars.x}}\<close>, and the export without secrets. A node's type is its wire
  name, because a stored graph can name one the engine does not know; a missing id is the empty
  string.
\<close>

record WorkflowNode =
  wn_id :: string
  wn_type :: string
  wn_data :: js

record WorkflowEdge =
  we_id :: string
  we_source :: string
  we_target :: string
  we_sourceHandle :: "string option"

record WorkflowGraph =
  wg_id :: "string option"
  wg_name :: "string option"
  wg_nodes :: "WorkflowNode list"
  wg_edges :: "WorkflowEdge list"
  wg_vars :: "(string \<times> js) list"

section \<open>Adjacency and cycles\<close>

abbreviation node_ids :: "WorkflowGraph \<Rightarrow> string list" where
  "node_ids graph \<equiv> map wn_id (wg_nodes graph)"

definition adjacency :: "WorkflowGraph \<Rightarrow> string \<Rightarrow> string list" where
  "adjacency graph u =
     (if u \<in> set (node_ids graph) then map we_target (filter (\<lambda>e. we_source e = u) (wg_edges graph)) else [])"

datatype color = White | Gray | Black

definition white_nodes :: "(string \<times> color) list \<Rightarrow> string list" where
  "white_nodes colors = map fst (filter (\<lambda>(_, c). c = White) colors)"

lemma white_less:
  "map_of colors v = Some White \<Longrightarrow>
   length (white_nodes (AList.update v Gray colors)) < length (white_nodes colors)"
  by (induction colors) (auto simp: white_nodes_def split: if_splits)

lemma white_le: "length (white_nodes (AList.update v Black colors)) \<le> length (white_nodes colors)"
  by (induction colors) (auto simp: white_nodes_def split: if_splits)

text \<open>
  The search over the successors still to look at: whether a grey node was met, and the colours.
  A node turns black when its own successors are done.
\<close>

function dfs :: "(string \<Rightarrow> string list) \<Rightarrow> (string \<times> color) list \<Rightarrow> string list \<Rightarrow> bool \<times> (string \<times> color) list" where
  "dfs adj colors [] = (False, colors)"
| "dfs adj colors (v # vs) =
     (if map_of colors v = Some Gray then (True, colors)
      else if map_of colors v = Some White then
        (let (found, colors') = dfs adj (AList.update v Gray colors) (adj v)
         in if found then (True, colors') else dfs adj (AList.update v Black colors') vs)
      else dfs adj colors vs)"
  by pat_completeness auto

termination
proof (relation "measures [\<lambda>(adj, colors, vs). length (white_nodes colors), \<lambda>(adj, colors, vs). length vs]")
  have shrinks: "dfs_dom (adj, colors, vs) \<Longrightarrow> length (white_nodes (snd (dfs adj colors vs))) \<le> length (white_nodes colors)"
    for adj colors vs
  proof (induction adj colors vs rule: dfs.pinduct)
    case (1 adj colors)
    then show ?case by (simp add: dfs.psimps)
  next
    case (2 adj colors v vs)
    show ?case
    proof (cases "map_of colors v = Some White")
      case True
      then have g: "map_of colors v \<noteq> Some Gray" by simp
      obtain found colors' where d: "dfs adj (AList.update v Gray colors) (adj v) = (found, colors')" by force
      have "length (white_nodes colors') < length (white_nodes colors)"
        using "2.IH"(1) [OF g True] white_less [OF True] d by auto
      moreover have "\<not> found \<Longrightarrow> length (white_nodes (snd (dfs adj (AList.update v Black colors') vs)))
          \<le> length (white_nodes (AList.update v Black colors'))"
        using "2.IH"(2) [OF g True d [symmetric] refl] by simp
      ultimately show ?thesis
        using "2.hyps" True g d white_le [of v colors'] by (auto simp: dfs.psimps)
    qed (use "2.IH"(3) "2.hyps" in \<open>auto simp: dfs.psimps\<close>)
  qed
  fix adj :: "string \<Rightarrow> string list" and colors v vs x found colors'
  assume *: "map_of colors v = Some White" "x = dfs adj (AList.update v Gray colors) (adj v)" "(found, colors') = x"
    "dfs_dom (adj, AList.update v Gray colors, adj v)"
  have "length (white_nodes (AList.update v Black colors')) < length (white_nodes colors)"
    using shrinks [OF *(4)] white_less [OF *(1)] white_le [of v colors'] *(2,3) by (auto dest: sym)
  then show "((adj, AList.update v Black colors', vs), adj, colors, v # vs)
      \<in> measures [\<lambda>(adj, colors, vs). length (white_nodes colors), \<lambda>(adj, colors, vs). length vs]" by simp
qed (auto simp: white_less)

fun detect_from :: "(string \<Rightarrow> string list) \<Rightarrow> (string \<times> color) list \<Rightarrow> string list \<Rightarrow> bool" where
  "detect_from adj colors [] = False"
| "detect_from adj colors (u # us) =
     (if map_of colors u = Some White then
        (let (found, colors') = dfs adj (AList.update u Gray colors) (adj u)
         in if found then True else detect_from adj (AList.update u Black colors') us)
      else detect_from adj colors us)"

definition detectCycle :: "WorkflowGraph \<Rightarrow> bool" where
  "detectCycle graph =
     detect_from (adjacency graph) (map (\<lambda>i. (i, White)) (dedupe (node_ids graph))) (node_ids graph)"

section \<open>Validation\<close>

fun id_errors :: "string list \<Rightarrow> string list \<Rightarrow> string list" where
  "id_errors seen [] = []"
| "id_errors seen (i # rest) =
     (if i = [] then ''a node is missing an id'' # id_errors seen rest
      else if i \<in> set seen then (''duplicate node id: '' @ i) # id_errors seen rest
      else id_errors (i # seen) rest)"

definition edge_errors :: "string list \<Rightarrow> WorkflowEdge \<Rightarrow> string list" where
  "edge_errors ids e =
     (if we_source e \<notin> set ids then [''edge '' @ we_id e @ '' source \"'' @ we_source e @ ''\" is not a node''] else [])
     @ (if we_target e \<notin> set ids then [''edge '' @ we_id e @ '' target \"'' @ we_target e @ ''\" is not a node''] else [])"

text \<open>The errors; the graph is valid when there are none.\<close>

definition validateGraph :: "WorkflowGraph \<Rightarrow> string list" where
  "validateGraph graph =
     (let ids = filter (\<lambda>i. i \<noteq> []) (node_ids graph)
      in id_errors [] (node_ids graph)
         @ concat (map (edge_errors ids) (wg_edges graph))
         @ (if list_ex (\<lambda>n. wn_type n = ''trigger'') (wg_nodes graph) then [] else [''graph has no trigger node''])
         @ (if detectCycle graph then [''graph contains a cycle (use a Loop node for iteration)''] else []))"

section \<open>The run order\<close>

definition waiting :: "(string \<times> int) list \<Rightarrow> nat" where
  "waiting indeg = length (filter (\<lambda>(_, n). 0 < n) indeg)"

text \<open>One successor of the node just ordered: its count drops, and at zero it joins the queue.\<close>

definition relax :: "string \<Rightarrow> (string \<times> int) list \<times> string list \<Rightarrow> (string \<times> int) list \<times> string list" where
  "relax v acc =
     (let n = (case map_of (fst acc) v of None \<Rightarrow> 0 | Some n \<Rightarrow> n) - 1
      in (AList.update v n (fst acc), if n = 0 then snd acc @ [v] else snd acc))"

lemma waiting_simps [simp]:
  "waiting [] = 0" "waiting ((v, n) # indeg) = (if 0 < n then 1 else 0) + waiting indeg"
  by (simp_all add: waiting_def)

lemma waiting_update:
  "map_of indeg v = Some m \<Longrightarrow> waiting (AList.update v n indeg) + (if 0 < m then 1 else 0) = waiting indeg + (if 0 < n then 1 else 0)"
  by (induction indeg) (auto split: if_splits)

lemma waiting_append: "map_of indeg v = None \<Longrightarrow> waiting (AList.update v n indeg) = waiting indeg + (if 0 < n then 1 else 0)"
  by (induction indeg) (auto split: if_splits)

lemma relax_measure: "waiting (fst (relax v acc)) + length (snd (relax v acc)) \<le> waiting (fst acc) + length (snd acc)"
proof (cases "map_of (fst acc) v")
  case None
  then show ?thesis by (simp add: relax_def Let_def waiting_append)
next
  case (Some m)
  then show ?thesis using waiting_update [OF Some, of "m - 1"]
    by (cases "m = 1") (auto simp: relax_def Let_def split: if_splits)
qed

lemma relax_all_measure:
  "waiting (fst (fold relax vs acc)) + length (snd (fold relax vs acc)) \<le> waiting (fst acc) + length (snd acc)"
proof (induction vs arbitrary: acc)
  case (Cons v vs)
  from Cons [of "relax v acc"] relax_measure [of v acc] show ?case by simp
qed simp

function kahn :: "(string \<Rightarrow> string list) \<Rightarrow> (string \<times> int) list \<Rightarrow> string list \<Rightarrow> string list \<Rightarrow> string list" where
  "kahn adj indeg [] order = order"
| "kahn adj indeg (u # queue) order =
     (let (indeg', queue') = fold relax (adj u) (indeg, queue) in kahn adj indeg' queue' (order @ [u]))"
  by pat_completeness auto

termination
proof (relation "measure (\<lambda>(adj, indeg, queue, order). waiting indeg + length queue)")
  fix adj :: "string \<Rightarrow> string list" and indeg u queue order x indeg' queue'
  assume "x = fold relax (adj u) (indeg, queue)" "(indeg', queue') = x"
  then show "((adj, indeg', queue', order @ [u]), adj, indeg, u # queue, order)
      \<in> measure (\<lambda>(adj, indeg, queue, order). waiting indeg + length queue)"
    using relax_all_measure [of "adj u" "(indeg, queue)"] by (auto dest: sym)
qed simp

definition count_edge :: "WorkflowEdge \<Rightarrow> (string \<times> int) list \<Rightarrow> (string \<times> int) list" where
  "count_edge e indeg =
     (case map_of indeg (we_target e) of None \<Rightarrow> indeg | Some n \<Rightarrow> AList.update (we_target e) (n + 1) indeg)"

definition indegrees :: "WorkflowGraph \<Rightarrow> (string \<times> int) list" where
  "indegrees graph = fold count_edge (wg_edges graph) (map (\<lambda>i. (i, 0)) (dedupe (node_ids graph)))"

definition topoOrder :: "WorkflowGraph \<Rightarrow> string + string list" where
  "topoOrder graph =
     (let indeg = indegrees graph;
          queue = filter (\<lambda>i. (case map_of indeg i of None \<Rightarrow> 0 | Some n \<Rightarrow> n) = 0) (node_ids graph);
          order = kahn (adjacency graph) indeg queue []
      in if length order \<noteq> length (wg_nodes graph) then Inl ''graph contains a cycle'' else Inr order)"

section \<open>Interpolation\<close>

text \<open>What the language provides: JSON texts, \<open>String(n)\<close> and \<open>localeCompare\<close>.\<close>

record Platform =
  pf_parse :: "string \<Rightarrow> js option"
  pf_stringify :: "js \<Rightarrow> string"
  pf_number :: "jsnum \<Rightarrow> string"
  pf_localeCompare :: "string \<Rightarrow> string \<Rightarrow> int"

record InterpContext =
  ic_nodes :: "(string \<times> js) list"
  ic_vars :: "(string \<times> js) list"

text \<open>\<open>cur[key]\<close> of an object or an array, own properties only.\<close>

definition js_prop :: "js \<Rightarrow> string \<Rightarrow> js" where
  "js_prop v key =
     (case v of
        JArr vs \<Rightarrow>
          if key = ''length'' then JNum (Fin (of_nat (length vs)))
          else (case find_index (\<lambda>i. digits_of i = key) [0..<length vs] of Some i \<Rightarrow> vs ! i | None \<Rightarrow> JUndefined)
      | _ \<Rightarrow> js_get v key)"

fun get_path :: "js \<Rightarrow> string list \<Rightarrow> js" where
  "get_path cur [] = cur"
| "get_path cur (key # keys) = (if js_is_object cur then get_path (js_prop cur key) keys else JUndefined)"

definition getPath :: "js \<Rightarrow> string \<Rightarrow> js" where
  "getPath obj dotted = get_path obj (split_on (CHR ''.'') dotted)"

text \<open>
  \<open>/\{\{\s*\$(nodes|vars)\.([^}]+?)\s*\}\}/\<close> at the head of a text: which root, the path
  (trimmed), and what follows. No character of the path is a brace, so the first brace ends it.
\<close>

definition match_token :: "string \<Rightarrow> (bool \<times> string \<times> string) option" where
  "match_token s =
     (if \<not> starts_with ''{{'' s then None
      else
        let r = dropWhile js_space (drop 2 s);
            body = (\<lambda>is_nodes t.
              let path = takeWhile (\<lambda>c. c \<noteq> CHR ''}'') t; rest = dropWhile (\<lambda>c. c \<noteq> CHR ''}'') t
              in if path = [] \<or> \<not> starts_with ''}}'' rest then None else Some (is_nodes, js_trim path, drop 2 rest))
        in if starts_with ''$nodes.'' r then body True (drop 7 r)
           else if starts_with ''$vars.'' r then body False (drop 6 r)
           else None)"

lemma match_token_shorter: "match_token s = Some (k, p, rest) \<Longrightarrow> length rest < length s"
proof -
  assume m: "match_token s = Some (k, p, rest)"
  have d: "length (drop 2 (dropWhile P (drop n xs))) \<le> length xs" for P n and xs :: string
    using length_dropWhile_le [of P "drop n xs"] by simp
  from m have s: "starts_with ''{{'' s" by (auto simp: match_token_def split: if_splits)
  have "\<exists>P n. rest = drop 2 (dropWhile P (drop n (dropWhile js_space (drop 2 s))))"
    using m by (auto simp: match_token_def Let_def split: if_splits)
  then have "length rest \<le> length (dropWhile js_space (drop 2 s))" using d by blast
  also have "\<dots> \<le> length (drop 2 s)" by (rule length_dropWhile_le)
  also have "\<dots> < length s" using s by (cases s) (auto simp: starts_with_def)
  finally show ?thesis .
qed

definition token_value :: "Platform \<Rightarrow> InterpContext \<Rightarrow> bool \<Rightarrow> string \<Rightarrow> string" where
  "token_value pf ctx is_nodes path =
     (case getPath (JObj (if is_nodes then ic_nodes ctx else ic_vars ctx)) path of
        JUndefined \<Rightarrow> []
      | JNull \<Rightarrow> []
      | JStr s \<Rightarrow> s
      | v \<Rightarrow> pf_stringify pf v)"

function interpolate :: "Platform \<Rightarrow> string \<Rightarrow> InterpContext \<Rightarrow> string" where
  "interpolate pf [] ctx = []"
| "interpolate pf (c # cs) ctx =
     (case match_token (c # cs) of
        Some (is_nodes, path, rest) \<Rightarrow> token_value pf ctx is_nodes path @ interpolate pf rest ctx
      | None \<Rightarrow> c # interpolate pf cs ctx)"
  by pat_completeness auto

termination
  by (relation "measure (\<lambda>(pf, s, ctx). length s)") (auto dest: match_token_shorter)

section \<open>Export without secrets\<close>

definition lower_char :: "char \<Rightarrow> char" where
  "lower_char c = (let n = of_char c :: nat in if 65 \<le> n \<and> n \<le> 90 then char_of (n + 32) else c)"

definition js_lower :: "string \<Rightarrow> string" where
  "js_lower s = map lower_char s"

text \<open>\<open>/(api[-_]?key|token|secret|password|authorization|cookie)/i\<close>.\<close>

definition SECRET_WORDS :: "string list" where
  "SECRET_WORDS = [''apikey'', ''api-key'', ''api_key'', ''token'', ''secret'', ''password'', ''authorization'', ''cookie'']"

definition SECRET_KEY :: "string \<Rightarrow> bool" where
  "SECRET_KEY k \<longleftrightarrow> list_ex (\<lambda>w. index_of w (js_lower k) \<noteq> None) SECRET_WORDS"

fun scrub :: "js \<Rightarrow> js" where
  "scrub (JObj entries) = JObj (map (\<lambda>(k, v). (k, if SECRET_KEY k then JStr [] else scrub v)) entries)"
| "scrub v = v"

definition stripSecretsForExport :: "WorkflowGraph \<Rightarrow> WorkflowGraph" where
  "stripSecretsForExport graph =
     graph\<lparr>wg_nodes := map (\<lambda>n. n\<lparr>wn_data := if js_truthy (wn_data n) then scrub (wn_data n) else wn_data n\<rparr>) (wg_nodes graph)\<rparr>"

text \<open>
  What the export leaves behind: no credential under a key that names one, at any depth of
  objects. Arrays are copied as they are.
\<close>

fun without_secrets :: "js \<Rightarrow> bool" where
  "without_secrets (JObj entries) =
     list_all (\<lambda>(k, v). if SECRET_KEY k then v = JStr [] else without_secrets v) entries"
| "without_secrets v = True"

lemma without_secrets_scrub: "without_secrets (scrub v)"
  by (induction v rule: scrub.induct) (auto simp: list_all_iff)

text \<open>Exporting an export changes nothing.\<close>

lemma scrub_idem: "scrub (scrub v) = scrub v"
  by (induction v rule: scrub.induct) auto

text \<open>
  An exported workflow holds no credential in the objects of its nodes: every field whose key
  names one is the empty text, however deep, and nothing but the data of the nodes has changed.
\<close>

theorem export_blanks_credentials:
  "list_all (\<lambda>n. without_secrets (wn_data n)) (wg_nodes (stripSecretsForExport graph))
   \<and> map (\<lambda>n. (wn_id n, wn_type n)) (wg_nodes (stripSecretsForExport graph)) = map (\<lambda>n. (wn_id n, wn_type n)) (wg_nodes graph)
   \<and> wg_edges (stripSecretsForExport graph) = wg_edges graph"
proof -
  have "without_secrets v" if "\<not> js_truthy v" for v
    using that by (cases v) (auto simp: js_truthy_def)
  then show ?thesis
    by (simp add: stripSecretsForExport_def list_all_iff without_secrets_scrub)
qed

text \<open>An object inside an array keeps its credentials.\<close>

lemma export_keeps_credentials_in_arrays:
  "map wn_data (wg_nodes (stripSecretsForExport
     \<lparr>wg_id = None, wg_name = None,
      wg_nodes = [\<lparr>wn_id = ''a'', wn_type = ''agent'',
        wn_data = JObj [(''headers'', JArr [JObj [(''authorization'', JStr ''Bearer k'')]])]\<rparr>],
      wg_edges = [], wg_vars = []\<rparr>))
   = [JObj [(''headers'', JArr [JObj [(''authorization'', JStr ''Bearer k'')]])]]"
  by code_simp

end
