(* ===== verification/WorkflowEngine.thy ===== *)
theory WorkflowEngine
  imports WorkflowGraph
begin

text \<open>
  The engine that runs a workflow, \<open>packages/core/src/workflow/graph/graphEngine.ts\<close>: every
  node type, sub-workflows under the depth and recursion guards, retries, the shared execution
  budget, optional nodes, branch routing and the emissions of the execution map.

  What the host answers (an agent's text, a loaded graph, an approval) is a parameter that sees
  every call made so far; a throw is an \<open>Inl\<close> with its message. The cancellation signal is read
  at each check of the engine. Objects are association lists in the order of their entries.
\<close>

section \<open>The host and the state of a run\<close>

datatype HostCall =
    AgentCall string string
  | LoadCall string
  | ApprovalCall string string

record GraphRunDeps =
  gd_platform :: Platform
  gd_runAgent :: "HostCall list \<Rightarrow> string \<Rightarrow> WorkflowNode \<Rightarrow> string + string"
  gd_loadSubWorkflow :: "(HostCall list \<Rightarrow> string \<Rightarrow> string + WorkflowGraph option) option"
  gd_requestApproval :: "(HostCall list \<Rightarrow> WorkflowNode \<Rightarrow> string \<Rightarrow> string + bool) option"
  gd_allowUnattendedApproval :: bool
  gd_executionBudget :: "int option"
  gd_aborted :: "nat \<Rightarrow> bool"
  gd_emitExecution :: bool
  gd_executionId :: "string option"

record GraphDecision =
  ge_kind :: string
  ge_outcome :: string
  ge_decisionCodes :: "string list"

record GraphLoopBudget =
  ge_loopNode :: string
  ge_declared :: int
  ge_observed :: number

record GraphExecutionEmission =
  ge_executionId :: string
  ge_executionSequence :: int
  ge_nodeId :: "string option"
  ge_attempt :: "nat option"
  ge_iterationPath :: "nat list option"
  ge_status :: "string option"
  ge_edgeId :: "string option"
  ge_edgeState :: "string option"
  ge_decision :: "GraphDecision option"
  ge_reasonCodes :: "string list option"
  ge_loopBudget :: "GraphLoopBudget option"

text \<open>The calls made, the checks of the signal, the budget left and what was emitted.\<close>

record RunState =
  rs_calls :: "HostCall list"
  rs_polls :: nat
  rs_remaining :: int
  rs_emitted :: "GraphExecutionEmission list"

record NodeRunRecord =
  nr_id :: string
  nr_type :: string
  nr_status :: string
  nr_output :: js
  nr_branch :: "string option"
  nr_error :: "string option"

record GraphRunResult =
  gr_ok :: bool
  gr_degradedNodes :: "string list option"
  gr_order :: "string list"
  gr_nodes :: "(string \<times> NodeRunRecord) list"
  gr_finalOutput :: "string option"
  gr_error :: "string option"

definition MAX_SUBWORKFLOW_DEPTH :: nat where "MAX_SUBWORKFLOW_DEPTH = 8"
definition DEFAULT_EXECUTION_BUDGET :: int where "DEFAULT_EXECUTION_BUDGET = 500"

definition ok_record :: "WorkflowNode \<Rightarrow> (string \<times> js) list \<Rightarrow> NodeRunRecord" where
  "ok_record node out =
     \<lparr>nr_id = wn_id node, nr_type = wn_type node, nr_status = ''ok'', nr_output = JObj out, nr_branch = None,
      nr_error = None\<rparr>"

definition error_record :: "WorkflowNode \<Rightarrow> string \<Rightarrow> NodeRunRecord" where
  "error_record node message =
     \<lparr>nr_id = wn_id node, nr_type = wn_type node, nr_status = ''error'', nr_output = JUndefined, nr_branch = None,
      nr_error = Some message\<rparr>"

definition skipped_record :: "WorkflowNode \<Rightarrow> NodeRunRecord" where
  "skipped_record node =
     \<lparr>nr_id = wn_id node, nr_type = wn_type node, nr_status = ''skipped'', nr_output = JUndefined, nr_branch = None,
      nr_error = None\<rparr>"

section \<open>Values\<close>

text \<open>\<open>v ?? d\<close> and \<open>String(v)\<close>.\<close>

definition nullish :: "js \<Rightarrow> bool" where
  "nullish v \<longleftrightarrow> v = JUndefined \<or> v = JNull"

definition or_value :: "js \<Rightarrow> js \<Rightarrow> js" where
  "or_value v d = (if nullish v then d else v)"

fun js_string :: "Platform \<Rightarrow> js \<Rightarrow> string" where
  "js_string pf JUndefined = ''undefined''"
| "js_string pf JNull = ''null''"
| "js_string pf (JBool b) = (if b then ''true'' else ''false'')"
| "js_string pf (JNum n) = pf_number pf n"
| "js_string pf (JStr s) = s"
| "js_string pf (JArr vs) = js_join '','' (map (\<lambda>v. if nullish v then [] else js_string pf v) vs)"
| "js_string pf (JObj _) = ''[object Object]''"

definition text_field :: "Platform \<Rightarrow> js \<Rightarrow> string \<Rightarrow> string \<Rightarrow> string" where
  "text_field pf data field d = js_string pf (or_value (js_get data field) (JStr d))"

definition js_int :: "nat \<Rightarrow> js" where
  "js_int n = JNum (Fin (of_nat n))"

definition js_number :: "number \<Rightarrow> js" where
  "js_number n = (case n of Num q \<Rightarrow> JNum (Fin q) | _ \<Rightarrow> JNum NonFinite)"

definition floor_number :: "number \<Rightarrow> number" where
  "floor_number n = (case n of Num q \<Rightarrow> Num (of_int \<lfloor>q\<rfloor>) | _ \<Rightarrow> n)"

text \<open>\<open>Math.max(lo, Math.min(hi, Math.floor(Number(v)) || d))\<close>.\<close>

definition clamped :: "int \<Rightarrow> int \<Rightarrow> int \<Rightarrow> js \<Rightarrow> int" where
  "clamped lo hi d v =
     (case floor_number (to_number v) of
        Num q \<Rightarrow> max lo (min hi (if q = 0 then d else \<lfloor>q\<rfloor>))
      | PosInf \<Rightarrow> max lo hi
      | NegInf \<Rightarrow> lo
      | NaN \<Rightarrow> max lo (min hi d))"

fun less_number :: "number \<Rightarrow> number \<Rightarrow> bool" where
  "less_number (Num p) (Num q) = (p < q)"
| "less_number NegInf (Num _) = True"
| "less_number NegInf PosInf = True"
| "less_number (Num _) PosInf = True"
| "less_number _ _ = False"

definition number_sign :: "number \<Rightarrow> int" where
  "number_sign n = (case n of Num q \<Rightarrow> (if q < 0 then -1 else if q > 0 then 1 else 0) | PosInf \<Rightarrow> 1 | NegInf \<Rightarrow> -1 | NaN \<Rightarrow> 0)"

definition compare :: "string \<Rightarrow> string \<Rightarrow> string \<Rightarrow> bool" where
  "compare a opr b =
     (if opr = ''=='' then a = b
      else if opr = ''!='' then a \<noteq> b
      else if opr = ''contains'' then index_of b a \<noteq> None
      else if opr = ''>'' then less_number (string_value b) (string_value a)
      else if opr = ''<'' then less_number (string_value a) (string_value b)
      else if opr = ''truthy'' then a \<noteq> [] \<and> a \<noteq> ''false'' \<and> a \<noteq> ''0''
      else False)"

section \<open>Array nodes\<close>

definition asArray :: "Platform \<Rightarrow> js \<Rightarrow> js list" where
  "asArray pf v =
     (case v of
        JArr vs \<Rightarrow> vs
      | JObj _ \<Rightarrow>
          (case js_get v ''items'' of
             JArr vs \<Rightarrow> vs
           | _ \<Rightarrow> (case js_get v ''outputs'' of JArr vs \<Rightarrow> vs | _ \<Rightarrow> [v]))
      | JStr s \<Rightarrow>
          (case pf_parse pf s of
             Some (JArr vs) \<Rightarrow> vs
           | Some p \<Rightarrow> (case js_get p ''items'' of JArr vs \<Rightarrow> vs | _ \<Rightarrow> [v])
           | None \<Rightarrow> [v])
      | JUndefined \<Rightarrow> []
      | JNull \<Rightarrow> []
      | _ \<Rightarrow> [v])"

definition resolveArrayInput :: "Platform \<Rightarrow> js \<Rightarrow> InterpContext \<Rightarrow> (string \<times> js) list \<Rightarrow> js list" where
  "resolveArrayInput pf data ctx upstream =
     (let source = js_get data ''source''
      in if source \<noteq> JUndefined
         then asArray pf (case source of JStr s \<Rightarrow> JStr (interpolate pf s ctx) | _ \<Rightarrow> source)
         else
           (case upstream of
              [] \<Rightarrow> []
            | [(_, out)] \<Rightarrow> asArray pf out
            | _ \<Rightarrow> map snd upstream))"

definition fieldStr :: "Platform \<Rightarrow> js \<Rightarrow> string \<Rightarrow> string" where
  "fieldStr pf item field =
     (if field = [] then
        (case item of
           JStr s \<Rightarrow> s
         | JUndefined \<Rightarrow> []
         | JNull \<Rightarrow> []
         | JArr _ \<Rightarrow> pf_stringify pf item
         | JObj _ \<Rightarrow> pf_stringify pf item
         | _ \<Rightarrow> js_string pf item)
      else if js_is_object item then
        (let v = js_prop item field in if nullish v then [] else js_string pf v)
      else [])"

definition last_index_of :: "char \<Rightarrow> string \<Rightarrow> nat option" where
  "last_index_of c s = map_option (\<lambda>i. length s - 1 - i) (find_index (\<lambda>x. x = c) (rev s))"

definition safeJsonObject :: "Platform \<Rightarrow> string \<Rightarrow> js" where
  "safeJsonObject pf raw =
     (let try = (\<lambda>s. case pf_parse pf s of Some (JObj es) \<Rightarrow> Some (JObj es) | _ \<Rightarrow> None)
      in case try raw of
           Some v \<Rightarrow> v
         | None \<Rightarrow>
             (case (index_of ''{'' raw, last_index_of CHR ''}'' raw) of
                (Some i, Some j) \<Rightarrow>
                  if i < j then (case try (take (j + 1 - i) (drop i raw)) of Some v \<Rightarrow> v | None \<Rightarrow> JObj []) else JObj []
              | _ \<Rightarrow> JObj []))"

text \<open>The comparator of a sort node; an undefined element is not given to it and goes last.\<close>

definition item_order :: "Platform \<Rightarrow> string \<Rightarrow> bool \<Rightarrow> bool \<Rightarrow> js \<Rightarrow> js \<Rightarrow> int" where
  "item_order pf field numeric desc a b =
     (let av = fieldStr pf a field; bv = fieldStr pf b field;
          c = (if numeric then number_sign (add_number (string_value av) (negated (string_value bv)))
               else pf_localeCompare pf av bv)
      in if desc then - c else c)"

definition sort_items :: "Platform \<Rightarrow> string \<Rightarrow> bool \<Rightarrow> bool \<Rightarrow> js list \<Rightarrow> js list" where
  "sort_items pf field numeric desc vs =
     sort_by (item_order pf field numeric desc) (filter (\<lambda>v. v \<noteq> JUndefined) vs) @ filter (\<lambda>v. v = JUndefined) vs"

definition limit_items :: "js \<Rightarrow> js list \<Rightarrow> js list" where
  "limit_items bound vs =
     (case floor_number (to_number (or_value bound (JNum (Fin 0)))) of
        Num q \<Rightarrow> take (nat \<lfloor>q\<rfloor>) vs
      | PosInf \<Rightarrow> vs
      | _ \<Rightarrow> [])"

definition aggregate :: "Platform \<Rightarrow> string \<Rightarrow> string \<Rightarrow> string \<Rightarrow> js list \<Rightarrow> js" where
  "aggregate pf opr field separator vs =
     (let nums = filter (\<lambda>n. n \<noteq> NaN) (map (\<lambda>v. string_value (fieldStr pf v field)) vs);
          total = foldl add_number (Num 0) nums
      in if opr = ''sum'' then js_number total
         else if opr = ''avg'' then
           (if nums = [] then js_int 0
            else js_number (case total of Num q \<Rightarrow> Num (q / of_nat (length nums)) | _ \<Rightarrow> total))
         else if opr = ''min'' then
           (case nums of [] \<Rightarrow> JNull | n # ns \<Rightarrow> js_number (foldl (\<lambda>a b. if less_number b a then b else a) n ns))
         else if opr = ''max'' then
           (case nums of [] \<Rightarrow> JNull | n # ns \<Rightarrow> js_number (foldl (\<lambda>a b. if less_number a b then b else a) n ns))
         else if opr = ''join'' then JStr (js_join separator (map (\<lambda>v. fieldStr pf v field) vs))
         else if opr = ''first'' then (case vs of [] \<Rightarrow> JNull | v # _ \<Rightarrow> or_value v JNull)
         else if opr = ''last'' then (if vs = [] then JNull else or_value (last vs) JNull)
         else js_int (length vs))"

section \<open>Calls to the host\<close>

definition call_agent ::
  "GraphRunDeps \<Rightarrow> string \<Rightarrow> WorkflowNode \<Rightarrow> RunState \<Rightarrow> (string + string) \<times> RunState"
where
  "call_agent deps prompt node st =
     (gd_runAgent deps (rs_calls st) prompt node, st\<lparr>rs_calls := rs_calls st @ [AgentCall (wn_id node) prompt]\<rparr>)"

definition poll_signal :: "GraphRunDeps \<Rightarrow> RunState \<Rightarrow> bool \<times> RunState" where
  "poll_signal deps st = (gd_aborted deps (rs_polls st), st\<lparr>rs_polls := rs_polls st + 1\<rparr>)"

text \<open>\<open>emit\<close>: numbered in order, and only when someone listens. An observer that throws changes nothing.\<close>

definition no_emission :: GraphExecutionEmission where
  "no_emission =
     \<lparr>ge_executionId = [], ge_executionSequence = 0, ge_nodeId = None, ge_attempt = None, ge_iterationPath = None,
      ge_status = None, ge_edgeId = None, ge_edgeState = None, ge_decision = None, ge_reasonCodes = None,
      ge_loopBudget = None\<rparr>"

definition emit :: "GraphRunDeps \<Rightarrow> string \<Rightarrow> GraphExecutionEmission \<Rightarrow> RunState \<Rightarrow> RunState" where
  "emit deps executionId partial st =
     (if \<not> gd_emitExecution deps then st
      else st\<lparr>rs_emitted := rs_emitted st @
        [partial\<lparr>ge_executionId := executionId, ge_executionSequence := int (length (rs_emitted st)) + 1\<rparr>]\<rparr>)"

section \<open>One node\<close>

text \<open>The entries a \<open>set\<close> node writes, one after the other: each sees the variables written before it.\<close>

definition entries_of :: "js \<Rightarrow> (string \<times> js) list" where
  "entries_of v =
     (case v of JObj es \<Rightarrow> es | JArr vs \<Rightarrow> zip (map digits_of [0..<length vs]) vs | _ \<Rightarrow> [])"

definition template_value :: "Platform \<Rightarrow> InterpContext \<Rightarrow> js \<Rightarrow> js" where
  "template_value pf ctx v = (case v of JStr s \<Rightarrow> JStr (interpolate pf s ctx) | _ \<Rightarrow> v)"

fun set_fields ::
  "Platform \<Rightarrow> (string \<times> js) list \<Rightarrow> InterpContext \<Rightarrow> (string \<times> js) list \<Rightarrow> (string \<times> js) list \<times> InterpContext"
where
  "set_fields pf [] ctx out = (out, ctx)"
| "set_fields pf ((k, v) # rest) ctx out =
     (let w = template_value pf ctx v
      in set_fields pf rest (ctx\<lparr>ic_vars := AList.update k w (ic_vars ctx)\<rparr>) (AList.update k w out))"

definition with_vars :: "(string \<times> js) list \<Rightarrow> InterpContext \<Rightarrow> InterpContext" where
  "with_vars entries ctx = ctx\<lparr>ic_vars := fold (\<lambda>(k, v). AList.update k v) entries (ic_vars ctx)\<rparr>"

text \<open>The two modes of a loop: over the items, and refining the last output.\<close>

fun loop_foreach ::
  "GraphRunDeps \<Rightarrow> WorkflowNode \<Rightarrow> InterpContext \<Rightarrow> string \<Rightarrow> nat \<Rightarrow> js list \<Rightarrow> js list \<Rightarrow> RunState \<Rightarrow>
   (string + js list) \<times> RunState"
where
  "loop_foreach deps node ctx prompt i [] outputs st = (Inr outputs, st)"
| "loop_foreach deps node ctx prompt i (v # vs) outputs st =
     (let itCtx = with_vars [(''item'', v), (''index'', js_int i)] ctx
      in case call_agent deps (interpolate (gd_platform deps) prompt itCtx) node st of
           (Inl e, st') \<Rightarrow> (Inl e, st')
         | (Inr text, st') \<Rightarrow> loop_foreach deps node ctx prompt (i + 1) vs (outputs @ [JStr text]) st')"

fun loop_refine ::
  "GraphRunDeps \<Rightarrow> WorkflowNode \<Rightarrow> InterpContext \<Rightarrow> string \<Rightarrow> string \<Rightarrow> nat \<Rightarrow> nat \<Rightarrow> string \<Rightarrow> RunState \<Rightarrow>
   (string + string \<times> nat) \<times> RunState"
where
  "loop_refine deps node ctx prompt stop 0 i final st = (Inr (final, i), st)"
| "loop_refine deps node ctx prompt stop (Suc left) i final st =
     (let itCtx = with_vars [(''last'', JStr final), (''index'', js_int i)] ctx
      in case call_agent deps (interpolate (gd_platform deps) prompt itCtx) node st of
           (Inl e, st') \<Rightarrow> (Inl e, st')
         | (Inr text, st') \<Rightarrow>
             if stop \<noteq> [] \<and> index_of stop text \<noteq> None then (Inr (text, i + 1), st')
             else loop_refine deps node ctx prompt stop left (i + 1) text st')"

definition loop_ceiling :: "js \<Rightarrow> int" where
  "loop_ceiling data = clamped 1 100 10 (or_value (js_get data ''maxIterations'') (JNum (Fin 10)))"

definition run_loop ::
  "GraphRunDeps \<Rightarrow> WorkflowNode \<Rightarrow> InterpContext \<Rightarrow> (string \<times> js) list \<Rightarrow> RunState \<Rightarrow> (string + NodeRunRecord) \<times> RunState"
where
  "run_loop deps node ctx upstream st =
     (let pf = gd_platform deps; data = wn_data node; maxIter = nat (loop_ceiling data);
          prompt = text_field pf data ''prompt'' []
      in if text_field pf data ''mode'' ''foreach'' = ''foreach'' then
           (let vs = take maxIter (resolveArrayInput pf data ctx upstream)
            in case loop_foreach deps node ctx prompt 0 vs [] st of
                 (Inl e, st') \<Rightarrow> (Inl e, st')
               | (Inr outputs, st') \<Rightarrow>
                   (Inr (ok_record node [(''outputs'', JArr outputs), (''iterations'', js_int (length vs)), (''items'', JArr vs)]), st'))
         else
           (case loop_refine deps node ctx prompt (text_field pf data ''stopContains'' []) maxIter 0 [] st of
              (Inl e, st') \<Rightarrow> (Inl e, st')
            | (Inr (final, iterations), st') \<Rightarrow>
                (Inr (ok_record node [(''text'', JStr final), (''iterations'', js_int iterations)]), st')))"

text \<open>An approval asks the human, or refuses when nobody is there and nobody allowed that.\<close>

definition run_approval ::
  "GraphRunDeps \<Rightarrow> WorkflowNode \<Rightarrow> InterpContext \<Rightarrow> RunState \<Rightarrow> (string + NodeRunRecord) \<times> RunState"
where
  "run_approval deps node ctx st =
     (let pf = gd_platform deps; data = wn_data node;
          summary = interpolate pf
            (js_string pf (or_value (js_get data ''summary'') (or_value (js_get data ''message'') (JStr ''Approve this step?'')))) ctx;
          passed = (\<lambda>approved unattended.
            (ok_record node [(''approved'', JBool approved), (''summary'', JStr summary), (''unattended'', JBool unattended)])
              \<lparr>nr_branch := Some (if approved then ''approved'' else ''rejected'')\<rparr>)
      in case gd_requestApproval deps of
           None \<Rightarrow>
             if \<not> gd_allowUnattendedApproval deps
             then (Inr (error_record node
                    (''approval node reached with no approval port wired '' @ em_dash @
                     '' refusing to self-approve. Wire requestApproval, or set allowUnattendedApproval to run this graph with no human present.'')), st)
             else (Inr (passed True True), st)
         | Some ask \<Rightarrow>
             (let st' = st\<lparr>rs_calls := rs_calls st @ [ApprovalCall (wn_id node) summary]\<rparr>
              in case ask (rs_calls st) node summary of
                   Inl e \<Rightarrow> (Inl e, st')
                 | Inr approved \<Rightarrow> (Inr (passed approved False), st')))"

definition strings_field :: "Platform \<Rightarrow> js \<Rightarrow> string \<Rightarrow> string list" where
  "strings_field pf data field = (case js_get data field of JArr vs \<Rightarrow> map (js_string pf) vs | _ \<Rightarrow> [])"

definition run_extract ::
  "GraphRunDeps \<Rightarrow> WorkflowNode \<Rightarrow> InterpContext \<Rightarrow> RunState \<Rightarrow> (string + NodeRunRecord) \<times> RunState"
where
  "run_extract deps node ctx st =
     (let pf = gd_platform deps; data = wn_data node;
          instr = interpolate pf
            (js_string pf (or_value (js_get data ''prompt'') (or_value (js_get data ''instruction'') (JStr [])))) ctx;
          names = strings_field pf data ''fields'';
          ask = (if names \<noteq> []
                 then instr @ [newline, newline] @ ''Return ONLY a JSON object with these keys: '' @ js_join '', '' names @ ''.''
                 else instr @ [newline, newline] @ ''Return ONLY a JSON object.'')
      in case call_agent deps ask node st of
           (Inl e, st') \<Rightarrow> (Inl e, st')
         | (Inr raw, st') \<Rightarrow> (Inr (ok_record node [(''fields'', safeJsonObject pf raw), (''raw'', JStr raw)]), st'))"

definition run_classify ::
  "GraphRunDeps \<Rightarrow> WorkflowNode \<Rightarrow> InterpContext \<Rightarrow> RunState \<Rightarrow> (string + NodeRunRecord) \<times> RunState"
where
  "run_classify deps node ctx st =
     (let pf = gd_platform deps; data = wn_data node;
          input = interpolate pf
            (js_string pf (or_value (js_get data ''input'') (or_value (js_get data ''prompt'') (JStr [])))) ctx;
          labels = strings_field pf data ''labels'';
          ask = ''Classify the following into exactly one of ['' @ js_join '', '' labels @
            '']. Reply with only the label.'' @ [newline, newline] @ input
      in case call_agent deps ask node st of
           (Inl e, st') \<Rightarrow> (Inl e, st')
         | (Inr reply, st') \<Rightarrow>
             (let raw = js_trim reply;
                  matched = (case find (\<lambda>l. index_of (js_lower l) (js_lower raw) \<noteq> None) labels of
                               Some l \<Rightarrow> l
                             | None \<Rightarrow> (case labels of l # _ \<Rightarrow> l | [] \<Rightarrow> ''default''))
              in (Inr ((ok_record node [(''label'', JStr matched), (''raw'', JStr raw)])\<lparr>nr_branch := Some matched\<rparr>), st')))"

text \<open>The nodes that only compute.\<close>

definition data_node :: "Platform \<Rightarrow> WorkflowNode \<Rightarrow> InterpContext \<Rightarrow> (string \<times> js) list \<Rightarrow> NodeRunRecord option" where
  "data_node pf node ctx upstream =
     (let data = wn_data node; t = wn_type node; items = resolveArrayInput pf data ctx upstream;
          field = text_field pf data ''field'' [];
          listed = (\<lambda>vs. [(''items'', JArr vs), (''count'', js_int (length vs))])
      in if t = ''trigger'' then Some (ok_record node (ic_vars ctx))
         else if t = ''condition'' then
           (let result = compare (interpolate pf (text_field pf data ''left'' []) ctx) (text_field pf data ''op'' ''=='')
                           (interpolate pf (text_field pf data ''right'' []) ctx)
            in Some ((ok_record node [(''result'', JBool result)])\<lparr>nr_branch := Some (if result then ''true'' else ''false'')\<rparr>))
         else if t = ''switch'' then
           (let v = interpolate pf (text_field pf data ''value'' []) ctx;
                branch = (if v \<in> set (strings_field pf data ''cases'') then v else ''default'')
            in Some ((ok_record node [(''value'', JStr v), (''branch'', JStr branch)])\<lparr>nr_branch := Some branch\<rparr>))
         else if t = ''filter'' then
           Some (ok_record node (listed (filter
             (\<lambda>v. compare (fieldStr pf v field) (text_field pf data ''op'' ''truthy'')
                    (interpolate pf (text_field pf data ''value'' []) ctx)) items)))
         else if t = ''sort'' then
           Some (ok_record node [(''items'', JArr (sort_items pf field (js_get data ''numeric'' = JBool True)
             (text_field pf data ''order'' ''asc'' = ''desc'') items))])
         else if t = ''limit'' then Some (ok_record node (listed (limit_items (js_get data ''count'') items)))
         else if t = ''aggregate'' then
           Some (ok_record node
             [(''value'', aggregate pf (text_field pf data ''op'' ''count'') field (text_field pf data ''separator'' '', '') items),
              (''count'', js_int (length items))])
         else if t = ''merge'' then Some (ok_record node [(''inputs'', JArr (map snd upstream))])
         else if t = ''output'' then
           Some (ok_record node [(''text'', JStr (interpolate pf (text_field pf data ''template'' []) ctx))])
         else None)"

definition runSingleNode ::
  "GraphRunDeps \<Rightarrow> WorkflowNode \<Rightarrow> InterpContext \<Rightarrow> (string \<times> js) list \<Rightarrow> RunState \<Rightarrow>
   (string + NodeRunRecord) \<times> InterpContext \<times> RunState"
where
  "runSingleNode deps node ctx upstream st =
     (let pf = gd_platform deps; data = wn_data node; t = wn_type node
      in case data_node pf node ctx upstream of
           Some rec \<Rightarrow> (Inr rec, ctx, st)
         | None \<Rightarrow>
             if t = ''set'' then
               (let (out, ctx') = set_fields pf (entries_of (js_get data ''fields'')) ctx [] in (Inr (ok_record node out), ctx', st))
             else if t = ''agent'' then
               (case call_agent deps (interpolate pf (text_field pf data ''prompt'' []) ctx) node st of
                  (Inl e, st') \<Rightarrow> (Inl e, ctx, st')
                | (Inr text, st') \<Rightarrow> (Inr (ok_record node [(''text'', JStr text)]), ctx, st'))
             else if t = ''loop'' then (case run_loop deps node ctx upstream st of (r, st') \<Rightarrow> (r, ctx, st'))
             else if t = ''approval'' then (case run_approval deps node ctx st of (r, st') \<Rightarrow> (r, ctx, st'))
             else if t = ''extract'' then (case run_extract deps node ctx st of (r, st') \<Rightarrow> (r, ctx, st'))
             else if t = ''classify'' then (case run_classify deps node ctx st of (r, st') \<Rightarrow> (r, ctx, st'))
             else if t = ''subworkflow''
             then (Inl ''subworkflow nodes run only inside runGraph (they re-enter the engine)'', ctx, st)
             else (Inl (''unknown node type: '' @ t), ctx, st))"

end
