(* ===== verification/WorkflowRun.thy ===== *)
theory WorkflowRun
  imports WorkflowEngine
begin

text \<open>
  A whole run of \<open>graphEngine.ts\<close>: nodes in run order, attempts and retries, sub-workflows,
  branch routing, optional nodes, and the terminal event. The levels of nesting are the argument
  \<open>runGraphInternal\<close> recurses on: the graph at the deepest level (\<open>MAX_SUBWORKFLOW_DEPTH\<close>) is
  level zero, and its sub-workflow nodes are refused before the runner below it is used.
\<close>

definition graphKey :: "WorkflowGraph \<Rightarrow> string" where
  "graphKey graph = (if truthy (wg_id graph) then the (wg_id graph) else if truthy (wg_name graph) then the (wg_name graph) else [])"

text \<open>The depth of the run, the references above it, and the identity of the execution.\<close>

record RunOpts =
  ro_depth :: nat
  ro_stack :: "string list"
  ro_executionId :: string

type_synonym graph_runner = "WorkflowGraph \<Rightarrow> RunOpts \<Rightarrow> RunState \<Rightarrow> (string + GraphRunResult) \<times> RunState"

section \<open>A sub-workflow node\<close>

definition record_value :: "NodeRunRecord \<Rightarrow> js" where
  "record_value r =
     JObj ([(''id'', JStr (nr_id r)), (''type'', JStr (nr_type r)), (''status'', JStr (nr_status r))]
       @ (case nr_error r of Some e \<Rightarrow> [(''error'', JStr e)] | None \<Rightarrow> [])
       @ (if nr_output r = JUndefined then [] else [(''output'', nr_output r)])
       @ (case nr_branch r of Some b \<Rightarrow> [(''branch'', JStr b)] | None \<Rightarrow> []))"

definition error_text :: "string \<Rightarrow> string option \<Rightarrow> string" where
  "error_text d e = (case e of Some m \<Rightarrow> m | None \<Rightarrow> d)"

definition sub_reference :: "Platform \<Rightarrow> WorkflowNode \<Rightarrow> InterpContext \<Rightarrow> string" where
  "sub_reference pf node ctx =
     (let data = wn_data node
      in js_trim (interpolate pf
           (js_string pf (or_value (js_get data ''workflowId'')
             (or_value (js_get data ''ref'') (or_value (js_get data ''name'') (JStr []))))) ctx))"

definition child_vars :: "Platform \<Rightarrow> WorkflowNode \<Rightarrow> InterpContext \<Rightarrow> WorkflowGraph \<Rightarrow> (string \<times> js) list" where
  "child_vars pf node ctx sub =
     (let seeded = fold (\<lambda>(k, v). AList.update k (template_value pf ctx v)) (entries_of (js_get (wn_data node) ''inputs''))
                     (ic_vars ctx)
      in fold (\<lambda>(k, v). AList.update k v) seeded (wg_vars sub))"

definition runSubWorkflow ::
  "graph_runner \<Rightarrow> GraphRunDeps \<Rightarrow> WorkflowNode \<Rightarrow> InterpContext \<Rightarrow> RunOpts \<Rightarrow> RunState \<Rightarrow>
   (string + NodeRunRecord) \<times> RunState"
where
  "runSubWorkflow run_child deps node ctx opts st =
     (let pf = gd_platform deps; ref = sub_reference pf node ctx
      in if ref = [] then (Inr (error_record node ''no sub-workflow reference''), st)
         else
           (case gd_loadSubWorkflow deps of
              None \<Rightarrow> (Inr (error_record node ''sub-workflows are not available (no loader wired)''), st)
            | Some load \<Rightarrow>
                if ro_depth opts + 1 > MAX_SUBWORKFLOW_DEPTH
                then (Inr (error_record node (''max sub-workflow depth ('' @ digits_of MAX_SUBWORKFLOW_DEPTH @ '') exceeded'')), st)
                else if ref \<in> set (ro_stack opts)
                then (Inr (error_record node (''sub-workflow recursion detected: '' @ ref)), st)
                else
                  (let st' = st\<lparr>rs_calls := rs_calls st @ [LoadCall ref]\<rparr>
                   in case load (rs_calls st) ref of
                        Inl e \<Rightarrow> (Inl e, st')
                      | Inr None \<Rightarrow> (Inr (error_record node (''sub-workflow not found: '' @ ref)), st')
                      | Inr (Some sub) \<Rightarrow>
                          (case run_child (sub\<lparr>wg_vars := child_vars pf node ctx sub\<rparr>)
                                  (opts\<lparr>ro_depth := ro_depth opts + 1, ro_stack := ro_stack opts @ [ref]\<rparr>) st' of
                             (Inl e, st'') \<Rightarrow> (Inl e, st'')
                           | (Inr result, st'') \<Rightarrow>
                               if \<not> gr_ok result
                               then (Inr ((error_record node (''sub-workflow '' @ ref @ '' failed: '' @
                                        error_text ''unknown'' (gr_error result)))
                                      \<lparr>nr_output := JObj [(''ok'', JBool False)]\<rparr>), st'')
                               else (Inr (ok_record node
                                      [(''text'', JStr (error_text [] (gr_finalOutput result))), (''ok'', JBool True),
                                       (''nodes'', JObj (map (\<lambda>(i, r). (i, record_value r)) (gr_nodes result)))]), st'')))))"

section \<open>Attempts\<close>

definition node_emission :: "string \<Rightarrow> nat \<Rightarrow> nat \<Rightarrow> NodeRunRecord \<Rightarrow> GraphExecutionEmission" where
  "node_emission nodeId attempt depth rec =
     no_emission\<lparr>ge_nodeId := Some nodeId, ge_attempt := Some attempt,
       ge_iterationPath := Some (if depth > 0 then [depth] else []),
       ge_status := Some (if nr_status rec = ''ok'' then ''succeeded'' else if nr_status rec = ''skipped'' then ''skipped'' else ''failed'')\<rparr>"

text \<open>One attempt, and its emission. A throw is an error record.\<close>

definition run_attempt ::
  "graph_runner \<Rightarrow> GraphRunDeps \<Rightarrow> WorkflowNode \<Rightarrow> (string \<times> js) list \<Rightarrow> RunOpts \<Rightarrow> nat \<Rightarrow> InterpContext \<Rightarrow> RunState \<Rightarrow>
   NodeRunRecord \<times> InterpContext \<times> RunState"
where
  "run_attempt run_child deps node upstream opts attempt ctx st =
     (let (outcome, ctx', st') =
            (if wn_type node = ''subworkflow''
             then (case runSubWorkflow run_child deps node ctx opts st of (r, s) \<Rightarrow> (r, ctx, s))
             else runSingleNode deps node ctx upstream st);
          rec = (case outcome of Inl message \<Rightarrow> error_record node message | Inr r \<Rightarrow> r)
      in (rec, ctx', emit deps (ro_executionId opts) (node_emission (wn_id node) attempt (ro_depth opts) rec) st'))"

text \<open>The attempts after a failed one: how many are left, the number of the next, the record so far.\<close>

fun run_retries ::
  "graph_runner \<Rightarrow> GraphRunDeps \<Rightarrow> WorkflowNode \<Rightarrow> (string \<times> js) list \<Rightarrow> RunOpts \<Rightarrow> nat \<Rightarrow> nat \<Rightarrow> NodeRunRecord \<Rightarrow>
   InterpContext \<Rightarrow> RunState \<Rightarrow> NodeRunRecord \<times> InterpContext \<times> RunState"
where
  "run_retries run_child deps node upstream opts 0 attempt rec ctx st = (rec, ctx, st)"
| "run_retries run_child deps node upstream opts (Suc left) attempt rec ctx st =
     (if nr_status rec \<noteq> ''error'' then (rec, ctx, st)
      else
        (let (aborted, st1) = poll_signal deps st
         in if aborted then (error_record node ''run canceled'', ctx, st1)
            else if rs_remaining st1 \<le> 0 then (rec, ctx, st1)
            else
              (let (rec', ctx', st2) =
                     run_attempt run_child deps node upstream opts attempt ctx (st1\<lparr>rs_remaining := rs_remaining st1 - 1\<rparr>)
               in run_retries run_child deps node upstream opts left (attempt + 1) rec' ctx' st2)))"

definition max_retries :: "js \<Rightarrow> nat" where
  "max_retries data = nat (clamped 0 5 0 (or_value (js_get data ''retries'') (JNum (Fin 0))))"

definition run_node ::
  "graph_runner \<Rightarrow> GraphRunDeps \<Rightarrow> WorkflowNode \<Rightarrow> (string \<times> js) list \<Rightarrow> RunOpts \<Rightarrow> InterpContext \<Rightarrow> RunState \<Rightarrow>
   NodeRunRecord \<times> InterpContext \<times> RunState"
where
  "run_node run_child deps node upstream opts ctx st =
     (let (rec, ctx', st') = run_attempt run_child deps node upstream opts 1 ctx st
      in run_retries run_child deps node upstream opts (max_retries (wn_data node)) 2 rec ctx' st')"

section \<open>One graph\<close>

text \<open>What the loop over the order carries.\<close>

record GraphState =
  gs_records :: "(string \<times> NodeRunRecord) list"
  gs_ctx :: InterpContext
  gs_active :: "string list"
  gs_degraded :: "string list"
  gs_finalOutput :: "string option"

definition incoming :: "WorkflowGraph \<Rightarrow> string \<Rightarrow> WorkflowEdge list" where
  "incoming graph nodeId = filter (\<lambda>e. we_target e = nodeId) (wg_edges graph)"

definition is_active :: "WorkflowGraph \<Rightarrow> WorkflowNode \<Rightarrow> string list \<Rightarrow> bool" where
  "is_active graph node active \<longleftrightarrow>
     wn_type node = ''trigger'' \<or> list_ex (\<lambda>e. we_id e \<in> set active) (incoming graph (wn_id node))"

definition upstream_of :: "WorkflowGraph \<Rightarrow> WorkflowNode \<Rightarrow> GraphState \<Rightarrow> (string \<times> js) list" where
  "upstream_of graph node gs =
     map (\<lambda>e. (we_source e, js_get (JObj (ic_nodes (gs_ctx gs))) (we_source e)))
       (filter (\<lambda>e. we_id e \<in> set (gs_active gs)) (incoming graph (wn_id node)))"

definition approval_rejected :: "WorkflowNode \<Rightarrow> NodeRunRecord \<Rightarrow> bool" where
  "approval_rejected node rec \<longleftrightarrow> wn_type node = ''approval'' \<and> js_get (nr_output rec) ''approved'' = JBool False"

text \<open>How an outgoing edge of a finished node is traversed.\<close>

definition edge_state :: "WorkflowNode \<Rightarrow> NodeRunRecord \<Rightarrow> WorkflowEdge \<Rightarrow> string" where
  "edge_state node rec e =
     (if approval_rejected node rec then ''blocked''
      else if nr_branch rec \<noteq> None \<and> truthy (we_sourceHandle e) \<and> we_sourceHandle e \<noteq> nr_branch rec then ''skipped''
      else ''traversed'')"

definition take_edge ::
  "GraphRunDeps \<Rightarrow> string \<Rightarrow> WorkflowNode \<Rightarrow> NodeRunRecord \<Rightarrow> WorkflowEdge \<Rightarrow> string list \<times> RunState \<Rightarrow> string list \<times> RunState"
where
  "take_edge deps executionId node rec e acc =
     (let state = edge_state node rec e; (active, st) = acc
      in (if state = ''traversed'' \<and> we_id e \<notin> set active then active @ [we_id e] else active,
          emit deps executionId (no_emission\<lparr>ge_edgeId := Some (we_id e), ge_edgeState := Some state\<rparr>) st))"

definition emit_approval :: "GraphRunDeps \<Rightarrow> string \<Rightarrow> WorkflowNode \<Rightarrow> NodeRunRecord \<Rightarrow> RunState \<Rightarrow> RunState" where
  "emit_approval deps executionId node rec st =
     (if wn_type node \<noteq> ''approval'' then st
      else emit deps executionId (no_emission\<lparr>ge_nodeId := Some (wn_id node),
        ge_decision := Some \<lparr>ge_kind = ''approval'',
          ge_outcome = (if js_truthy (js_get (nr_output rec) ''approved'') then ''approved'' else ''rejected''),
          ge_decisionCodes = (if js_truthy (js_get (nr_output rec) ''unattended'') then [''unattended''] else [])\<rparr>\<rparr>) st)"

definition emit_loop :: "GraphRunDeps \<Rightarrow> string \<Rightarrow> WorkflowNode \<Rightarrow> NodeRunRecord \<Rightarrow> RunState \<Rightarrow> RunState" where
  "emit_loop deps executionId node rec st =
     (if wn_type node \<noteq> ''loop'' then st
      else emit deps executionId (no_emission\<lparr>ge_loopBudget := Some
        \<lparr>ge_loopNode = wn_id node, ge_declared = loop_ceiling (wn_data node),
         ge_observed = (case floor_number (to_number (js_get (nr_output rec) ''iterations'')) of
                          Num q \<Rightarrow> Num (max 0 q) | PosInf \<Rightarrow> PosInf | _ \<Rightarrow> Num 0)\<rparr>\<rparr>) st)"

definition emit_degraded :: "GraphRunDeps \<Rightarrow> string \<Rightarrow> WorkflowNode \<Rightarrow> RunState \<Rightarrow> RunState" where
  "emit_degraded deps executionId node st =
     emit deps executionId (no_emission\<lparr>ge_nodeId := Some (wn_id node),
       ge_decision := Some \<lparr>ge_kind = ''degradation'', ge_outcome = ''optional_node_failed'',
         ge_decisionCodes = [''optional'', wn_id node]\<rparr>\<rparr>) st"

definition failed_result :: "string list \<Rightarrow> GraphState \<Rightarrow> string \<Rightarrow> GraphRunResult" where
  "failed_result order gs message =
     \<lparr>gr_ok = False, gr_degradedNodes = None, gr_order = order, gr_nodes = gs_records gs,
      gr_finalOutput = gs_finalOutput gs, gr_error = Some message\<rparr>"

definition is_optional :: "WorkflowNode \<Rightarrow> bool" where
  "is_optional node \<longleftrightarrow> js_get (wn_data node) ''optional'' = JBool True"

text \<open>What the end of a node's attempts means for the run: stop with a failure, or go on.\<close>

definition settle_node ::
  "GraphRunDeps \<Rightarrow> WorkflowGraph \<Rightarrow> string list \<Rightarrow> RunOpts \<Rightarrow> WorkflowNode \<Rightarrow> GraphState \<Rightarrow>
   NodeRunRecord \<times> InterpContext \<times> RunState \<Rightarrow> (GraphRunResult + GraphState) \<times> RunState"
where
  "settle_node deps graph order opts node gs done_node =
     (let (rec, ctx, st) = done_node; x = ro_executionId opts; id = wn_id node;
          st' = emit_loop deps x node rec (emit_approval deps x node rec st);
          gs' = gs\<lparr>gs_records := AList.update id rec (gs_records gs),
                   gs_ctx := ctx\<lparr>ic_nodes := AList.update id (nr_output rec) (ic_nodes ctx)\<rparr>\<rparr>
      in if nr_status rec = ''error'' then
           (if \<not> is_optional node
            then (Inl (failed_result order gs' (''node '' @ id @ '' failed: '' @ error_text ''error'' (nr_error rec))), st')
            else (Inr (gs'\<lparr>gs_degraded := gs_degraded gs' @ [id]\<rparr>), emit_degraded deps x node st'))
         else
           (let gs'' = (case js_get (nr_output rec) ''text'' of
                          JStr t \<Rightarrow> if wn_type node = ''output'' then gs'\<lparr>gs_finalOutput := Some t\<rparr> else gs'
                        | _ \<Rightarrow> gs');
                (active, st'') = fold (take_edge deps x node rec) (filter (\<lambda>e. we_source e = id) (wg_edges graph)) (gs_active gs'', st')
            in (Inr (gs''\<lparr>gs_active := active\<rparr>), st'')))"

definition node_step ::
  "graph_runner \<Rightarrow> GraphRunDeps \<Rightarrow> WorkflowGraph \<Rightarrow> string list \<Rightarrow> RunOpts \<Rightarrow> WorkflowNode \<Rightarrow> GraphState \<Rightarrow> RunState \<Rightarrow>
   (GraphRunResult + GraphState) \<times> RunState"
where
  "node_step run_child deps graph order opts node gs st =
     (if \<not> is_active graph node (gs_active gs)
      then (Inr (gs\<lparr>gs_records := AList.update (wn_id node) (skipped_record node) (gs_records gs)\<rparr>), st)
      else
        (let (aborted, st1) = poll_signal deps st
         in if aborted then (Inl (failed_result order gs ''run canceled''), st1)
            else if rs_remaining st1 \<le> 0 then
              (Inl (failed_result order gs (''execution budget exhausted ('' @
                 show_int (case gd_executionBudget deps of Some n \<Rightarrow> n | None \<Rightarrow> DEFAULT_EXECUTION_BUDGET) @
                 '' node executions) '' @ em_dash @ '' the run was stopped rather than allowed to continue'')), st1)
            else
              settle_node deps graph order opts node gs
                (run_node run_child deps node (upstream_of graph node gs) opts (gs_ctx gs)
                   (st1\<lparr>rs_remaining := rs_remaining st1 - 1\<rparr>))))"

text \<open>The nodes of the order. An id that names no node does not occur in it.\<close>

fun run_nodes ::
  "graph_runner \<Rightarrow> GraphRunDeps \<Rightarrow> WorkflowGraph \<Rightarrow> string list \<Rightarrow> RunOpts \<Rightarrow> WorkflowNode list \<Rightarrow> GraphState \<Rightarrow> RunState \<Rightarrow>
   GraphRunResult \<times> RunState"
where
  "run_nodes run_child deps graph order opts [] gs st =
     (\<lparr>gr_ok = True, gr_degradedNodes = Some (gs_degraded gs), gr_order = order, gr_nodes = gs_records gs,
       gr_finalOutput = gs_finalOutput gs, gr_error = None\<rparr>, st)"
| "run_nodes run_child deps graph order opts (node # nodes) gs st =
     (case node_step run_child deps graph order opts node gs st of
        (Inl result, st') \<Rightarrow> (result, st')
      | (Inr gs', st') \<Rightarrow> run_nodes run_child deps graph order opts nodes gs' st')"

definition initial_graph_state :: "WorkflowGraph \<Rightarrow> GraphState" where
  "initial_graph_state graph =
     \<lparr>gs_records = [], gs_ctx = \<lparr>ic_nodes = [], ic_vars = wg_vars graph\<rparr>, gs_active = [], gs_degraded = [],
      gs_finalOutput = None\<rparr>"

definition nodes_in_order :: "WorkflowGraph \<Rightarrow> string list \<Rightarrow> WorkflowNode list" where
  "nodes_in_order graph order =
     concat (map (\<lambda>i. case find (\<lambda>n. wn_id n = i) (wg_nodes graph) of Some n \<Rightarrow> [n] | None \<Rightarrow> []) order)"

definition run_graph_with :: "graph_runner \<Rightarrow> GraphRunDeps \<Rightarrow> graph_runner" where
  "run_graph_with run_child deps graph opts st =
     (let errors = validateGraph graph
      in if errors \<noteq> [] then
           (Inr \<lparr>gr_ok = False, gr_degradedNodes = None, gr_order = [], gr_nodes = [], gr_finalOutput = None,
                 gr_error = Some (js_join ''; '' errors)\<rparr>, st)
         else
           (case topoOrder graph of
              Inl e \<Rightarrow> (Inl e, st)
            | Inr order \<Rightarrow>
                (case run_nodes run_child deps graph order opts (nodes_in_order graph order) (initial_graph_state graph) st of
                   (result, st') \<Rightarrow> (Inr result, st'))))"

primrec runGraphInternal :: "GraphRunDeps \<Rightarrow> nat \<Rightarrow> graph_runner" where
  "runGraphInternal deps 0 = run_graph_with (\<lambda>graph opts st. (Inl [], st)) deps"
| "runGraphInternal deps (Suc level) = run_graph_with (runGraphInternal deps level) deps"

section \<open>The whole run\<close>

definition matches_failed_node :: "string \<Rightarrow> bool" where
  "matches_failed_node lower \<longleftrightarrow>
     starts_with ''node '' lower \<and>
     index_of '' failed'' (drop 1 (takeWhile (\<lambda>c. c \<noteq> newline \<and> c \<noteq> CHR 0x0D) (drop 5 lower))) \<noteq> None"

definition canonicalTerminalReasonCodes :: "string option \<Rightarrow> string list" where
  "canonicalTerminalReasonCodes error =
     (if \<not> truthy error then []
      else
        let lower = js_lower (the error); has = (\<lambda>w. index_of w lower \<noteq> None)
        in if has ''execution budget exhausted'' then [''budget-exhausted'']
           else if has ''run canceled'' then [''canceled'']
           else if matches_failed_node lower then [''node-failed'']
           else if has ''invalid'' \<or> has ''validation'' \<or> has ''no saved workflow graph'' then [''invalid-definition'']
           else [''error''])"

definition run_budget :: "GraphRunDeps \<Rightarrow> int" where
  "run_budget deps = max 0 (case gd_executionBudget deps of Some n \<Rightarrow> n | None \<Rightarrow> DEFAULT_EXECUTION_BUDGET)"

definition execution_id :: "WorkflowGraph \<Rightarrow> GraphRunDeps \<Rightarrow> string" where
  "execution_id graph deps =
     (case gd_executionId deps of
        Some i \<Rightarrow> i
      | None \<Rightarrow> ''graph-'' @ (if graphKey graph = [] then ''anon'' else graphKey graph))"

definition initial_run_state :: "GraphRunDeps \<Rightarrow> RunState" where
  "initial_run_state deps = \<lparr>rs_calls = [], rs_polls = 0, rs_remaining = run_budget deps, rs_emitted = []\<rparr>"

text \<open>\<open>runGraph\<close>: a throw goes to the caller before a terminal event.\<close>

definition runGraph :: "WorkflowGraph \<Rightarrow> GraphRunDeps \<Rightarrow> (string + GraphRunResult) \<times> RunState" where
  "runGraph graph deps =
     (let x = execution_id graph deps;
          st = emit deps x (no_emission\<lparr>ge_status := Some ''running''\<rparr>) (initial_run_state deps);
          opts = \<lparr>ro_depth = 0, ro_stack = (if graphKey graph = [] then [] else [graphKey graph]), ro_executionId = x\<rparr>
      in case runGraphInternal deps MAX_SUBWORKFLOW_DEPTH graph opts st of
           (Inl e, st') \<Rightarrow> (Inl e, st')
         | (Inr result, st') \<Rightarrow>
             (Inr result,
              emit deps x (no_emission
                \<lparr>ge_status := Some (if gr_ok result then ''succeeded'' else ''failed''),
                 ge_reasonCodes := (if gr_ok result then None else Some (canonicalTerminalReasonCodes (gr_error result)))\<rparr>) st'))"

end
