(* ===== verification/WorkflowOrder.thy ===== *)
theory WorkflowOrder
  imports WorkflowGraph
begin

text \<open>
  What the graph algorithms compute: the three-colour search answers whether the edges between
  nodes close a cycle, and the queue of Kahn's algorithm orders every node of an acyclic graph
  after all its predecessors. A graph that passes validation therefore has a run order.
\<close>

section \<open>The three-colour search\<close>

definition grays :: "(string \<times> color) list \<Rightarrow> string set" where
  "grays colors = {v. map_of colors v = Some Gray}"

definition blacks :: "(string \<times> color) list \<Rightarrow> string set" where
  "blacks colors = {v. map_of colors v = Some Black}"

definition known :: "(string \<times> color) list \<Rightarrow> string set" where
  "known colors = dom (map_of colors)"

definition succs :: "(string \<Rightarrow> string list) \<Rightarrow> (string \<times> string) set" where
  "succs adj = {(u, v). v \<in> set (adj u)}"

lemma color_update [simp]:
  "grays (AList.update v Gray colors) = insert v (grays colors)"
  "grays (AList.update v Black colors) = grays colors - {v}"
  "blacks (AList.update v Gray colors) = blacks colors - {v}"
  "blacks (AList.update v Black colors) = insert v (blacks colors)"
  "known (AList.update v c colors) = insert v (known colors)"
  by (auto simp: grays_def blacks_def known_def update_conv' split: if_splits)

lemma color_member:
  "map_of colors v = Some Gray \<longleftrightarrow> v \<in> grays colors"
  "map_of colors v = Some White \<longleftrightarrow> v \<in> known colors \<and> v \<notin> grays colors \<and> v \<notin> blacks colors"
proof -
  show "map_of colors v = Some White \<longleftrightarrow> v \<in> known colors \<and> v \<notin> grays colors \<and> v \<notin> blacks colors"
  proof (cases "map_of colors v")
    case (Some c)
    then show ?thesis by (cases c) (auto simp: grays_def blacks_def known_def)
  qed (auto simp: grays_def blacks_def known_def)
qed (simp add: grays_def)

lemma gray_not_black: "v \<in> grays colors \<Longrightarrow> v \<notin> blacks colors"
  by (simp add: grays_def blacks_def)

lemma black_known: "v \<in> blacks colors \<Longrightarrow> v \<in> known colors" "v \<in> grays colors \<Longrightarrow> v \<in> known colors"
  by (auto simp: grays_def blacks_def known_def)

text \<open>Black nodes: their known successors are black, and no path leads from one back to itself.\<close>

definition settled :: "(string \<Rightarrow> string list) \<Rightarrow> (string \<times> color) list \<Rightarrow> bool" where
  "settled adj colors \<longleftrightarrow>
     (\<forall>b \<in> blacks colors. set (adj b) \<inter> known colors \<subseteq> blacks colors) \<and>
     (\<forall>b \<in> blacks colors. (b, b) \<notin> (succs adj \<inter> UNIV \<times> known colors)\<^sup>+)"

lemma settled_closed:
  assumes "settled adj colors" "(b, w) \<in> (succs adj \<inter> UNIV \<times> known colors)\<^sup>+" "b \<in> blacks colors"
  shows "w \<in> blacks colors"
  using assms(2,3)
proof (induction rule: trancl_induct)
  case (base w)
  with assms(1) show ?case by (auto simp: settled_def succs_def)
next
  case (step w x)
  with assms(1) show ?case by (auto simp: settled_def succs_def)
qed

lemma settled_blacken:
  assumes s: "settled adj colors" and v: "v \<in> grays colors"
    and succ: "set (adj v) \<inter> known colors \<subseteq> blacks colors"
  shows "settled adj (AList.update v Black colors)"
proof -
  let ?R = "succs adj \<inter> UNIV \<times> known colors"
  have k: "insert v (known colors) = known colors" using v black_known by blast
  have "(v, v) \<notin> ?R\<^sup>+"
  proof
    assume "(v, v) \<in> ?R\<^sup>+"
    then obtain w where w: "(v, w) \<in> ?R" "w = v \<or> (w, v) \<in> ?R\<^sup>+" by (metis tranclD rtranclD)
    then have "w \<in> blacks colors" using succ by (auto simp: succs_def)
    with w(2) settled_closed [OF s] have "v \<in> blacks colors" by blast
    with v show False by (simp add: gray_not_black)
  qed
  with s succ k show ?thesis by (auto simp: settled_def)
qed

lemma dfs_not_found:
  "dfs adj colors vs = (False, colors') \<Longrightarrow> settled adj colors \<Longrightarrow>
   settled adj colors' \<and> grays colors' = grays colors \<and> known colors' = known colors \<and>
   blacks colors \<subseteq> blacks colors' \<and> set vs \<inter> known colors \<subseteq> blacks colors'"
proof (induction adj colors vs arbitrary: colors' rule: dfs.induct)
  case (1 adj colors)
  then show ?case by simp
next
  case (2 adj colors v vs)
  have ng: "v \<notin> grays colors" using "2.prems"(1) by (auto simp: color_member split: if_splits)
  show ?case
  proof (cases "map_of colors v = Some White")
    case True
    then have w: "v \<in> known colors" "v \<notin> blacks colors" by (simp_all add: color_member)
    obtain found colors1 where d: "dfs adj (AList.update v Gray colors) (adj v) = (found, colors1)" by force
    have nf: "\<not> found" and r: "dfs adj (AList.update v Black colors1) vs = (False, colors')"
      using "2.prems"(1) True d by (auto split: if_splits)
    let ?g = "AList.update v Gray colors"
    have "settled adj ?g"
      using "2.prems"(2) w by (simp add: settled_def insert_absorb)
    with "2.IH"(1) [of colors1] True d nf
    have one: "settled adj colors1" "grays colors1 = insert v (grays colors)" "known colors1 = known colors"
      "blacks colors \<subseteq> blacks colors1" "set (adj v) \<inter> known colors \<subseteq> blacks colors1"
      using w by (simp_all add: insert_absorb)
    have "settled adj (AList.update v Black colors1)"
      by (rule settled_blacken) (use one in simp_all)
    with "2.IH"(2) [of "(found, colors1)" found colors1 colors'] True d nf r
    have "settled adj colors'" "grays colors' = grays colors1 - {v}" "known colors' = insert v (known colors1)"
      "insert v (blacks colors1) \<subseteq> blacks colors'" "set vs \<inter> insert v (known colors1) \<subseteq> blacks colors'"
      by simp_all
    with one w ng show ?thesis by auto
  next
    case False
    with ng have b: "v \<in> known colors \<Longrightarrow> v \<in> blacks colors" by (simp add: color_member)
    have "dfs adj colors vs = (False, colors')" using "2.prems"(1) False ng by (simp add: color_member(1))
    with "2.IH"(3) [of colors'] False ng "2.prems"(2) b show ?thesis by (auto simp: color_member(1))
  qed
qed

lemma dfs_found:
  "fst (dfs adj colors vs) \<Longrightarrow> settled adj colors \<Longrightarrow>
   (\<And>g v. g \<in> grays colors \<Longrightarrow> v \<in> set vs \<Longrightarrow> (g, v) \<in> (succs adj)\<^sup>+) \<Longrightarrow> \<exists>v. (v, v) \<in> (succs adj)\<^sup>+"
proof (induction adj colors vs rule: dfs.induct)
  case (1 adj colors)
  then show ?case by simp
next
  case (2 adj colors v vs)
  show ?case
  proof (cases "v \<in> grays colors")
    case True
    with "2.prems"(3) show ?thesis by auto
  next
    case ng: False
    show ?thesis
    proof (cases "map_of colors v = Some White")
      case True
      then have w: "v \<in> known colors" "v \<notin> blacks colors" by (simp_all add: color_member)
      obtain found colors1 where d: "dfs adj (AList.update v Gray colors) (adj v) = (found, colors1)" by force
      have s: "settled adj (AList.update v Gray colors)"
        using "2.prems"(2) w by (simp add: settled_def insert_absorb)
      show ?thesis
      proof (cases found)
        case True
        have "(g, x) \<in> (succs adj)\<^sup>+" if "g \<in> insert v (grays colors)" "x \<in> set (adj v)" for g x
        proof -
          have vx: "(v, x) \<in> succs adj" using that by (simp add: succs_def)
          show ?thesis
            using that(1) "2.prems"(3) [of g v] vx by (auto intro: trancl_into_trancl)
        qed
        with "2.IH"(1) \<open>map_of colors v = Some White\<close> d True s show ?thesis by simp
      next
        case False
        from dfs_not_found [of adj "AList.update v Gray colors" "adj v" colors1] d False s
        have one: "settled adj colors1" "grays colors1 = insert v (grays colors)" "known colors1 = known colors"
          "set (adj v) \<inter> known colors \<subseteq> blacks colors1" using w by (simp_all add: insert_absorb)
        have "settled adj (AList.update v Black colors1)"
          by (rule settled_blacken) (use one in simp_all)
        moreover have "fst (dfs adj (AList.update v Black colors1) vs)"
          using "2.prems"(1) \<open>map_of colors v = Some White\<close> d False by simp
        ultimately show ?thesis
          using "2.IH"(2) [of "(found, colors1)" found colors1] \<open>map_of colors v = Some White\<close> d False one ng "2.prems"(3)
          by auto
      qed
    next
      case False
      with "2.IH"(3) ng "2.prems" show ?thesis by (auto simp: color_member(1))
    qed
  qed
qed

lemma detect_from_correct:
  "settled adj colors \<Longrightarrow> grays colors = {} \<Longrightarrow> known colors \<subseteq> set us \<union> blacks colors \<Longrightarrow>
   detect_from adj colors us \<longleftrightarrow> (\<exists>v. (v, v) \<in> (succs adj \<inter> UNIV \<times> known colors)\<^sup>+)" if
   closed: "\<And>v. (v, v) \<in> (succs adj)\<^sup>+ \<Longrightarrow> (v, v) \<in> (succs adj \<inter> UNIV \<times> K)\<^sup>+" "known colors = K"
  using that(2)
proof (induction us arbitrary: colors)
  case Nil
  have "(v, v) \<notin> (succs adj \<inter> UNIV \<times> known colors)\<^sup>+" for v
  proof
    assume c: "(v, v) \<in> (succs adj \<inter> UNIV \<times> known colors)\<^sup>+"
    then have "v \<in> known colors" by (auto elim: tranclE)
    with Nil.prems(3) c Nil.prems(1) show False by (auto simp: settled_def)
  qed
  then show ?case by simp
next
  case (Cons u us)
  show ?case
  proof (cases "map_of colors u = Some White")
    case True
    then have w: "u \<in> known colors" "u \<notin> blacks colors" by (simp_all add: color_member)
    obtain found colors1 where d: "dfs adj (AList.update u Gray colors) (adj u) = (found, colors1)" by force
    have s: "settled adj (AList.update u Gray colors)"
      using Cons.prems(1) w by (simp add: settled_def insert_absorb)
    show ?thesis
    proof (cases found)
      case f: True
      have "\<exists>v. (v, v) \<in> (succs adj)\<^sup>+"
        by (rule dfs_found [of adj "AList.update u Gray colors" "adj u"])
          (use d f s Cons.prems(2) in \<open>auto simp: succs_def\<close>)
      with closed(1) Cons.prems(4) True d f show ?thesis by auto
    next
      case False
      from dfs_not_found [of adj "AList.update u Gray colors" "adj u" colors1] d False s
      have one: "settled adj colors1" "grays colors1 = insert u (grays colors)" "known colors1 = known colors"
        "set (adj u) \<inter> known colors \<subseteq> blacks colors1" "blacks colors \<subseteq> blacks colors1"
        using w by (simp_all add: insert_absorb)
      have "settled adj (AList.update u Black colors1)"
        by (rule settled_blacken) (use one in simp_all)
      moreover have "grays (AList.update u Black colors1) = {}" "known (AList.update u Black colors1) = known colors"
        "known colors \<subseteq> set us \<union> blacks (AList.update u Black colors1)"
        using one w Cons.prems(2,3) by auto
      ultimately have "detect_from adj (AList.update u Black colors1) us
          \<longleftrightarrow> (\<exists>v. (v, v) \<in> (succs adj \<inter> UNIV \<times> known colors)\<^sup>+)"
        using Cons.IH [of "AList.update u Black colors1"] Cons.prems(4) by simp
      then show ?thesis using True d False by simp
    qed
  next
    case False
    then have "u \<in> known colors \<Longrightarrow> u \<in> blacks colors" using Cons.prems(2) by (simp add: color_member)
    with Cons False show ?thesis by auto
  qed
qed

text \<open>The edges the search sees: those that leave a node.\<close>

definition edge_rel :: "WorkflowGraph \<Rightarrow> (string \<times> string) set" where
  "edge_rel graph =
     {(we_source e, we_target e) | e. e \<in> set (wg_edges graph) \<and> we_source e \<in> set (node_ids graph)}"

lemma succs_adjacency: "succs (adjacency graph) = edge_rel graph"
  by (auto simp: succs_def adjacency_def edge_rel_def split: if_splits) (metis imageI)

lemma cycle_inside:
  assumes "(v, v) \<in> R\<^sup>+" "fst ` R \<subseteq> K"
  shows "(v, v) \<in> (R \<inter> UNIV \<times> K)\<^sup>+"
proof -
  have "(v, x) \<in> (R \<inter> UNIV \<times> K)\<^sup>+ \<or> x \<notin> K" if "(v, x) \<in> R\<^sup>+" for x
    using that
  proof (induction rule: trancl_induct)
    case (step x y)
    moreover have "x \<in> K" using step.hyps(2) assms(2) by force
    ultimately show ?case by (auto intro: trancl_into_trancl)
  qed auto
  moreover have "v \<in> K" using assms by (force elim: converse_tranclE)
  ultimately show ?thesis using assms(1) by blast
qed

lemma detectCycle_iff: "detectCycle graph \<longleftrightarrow> \<not> acyclic (edge_rel graph)"
proof -
  let ?c = "map (\<lambda>i. (i, White)) (dedupe (node_ids graph))"
  have m: "map_of ?c v = (if v \<in> set (node_ids graph) then Some White else None)" for v
    by (auto simp: map_of_map_restrict restrict_map_def)
  then have c: "grays ?c = {}" "blacks ?c = {}" "known ?c = set (node_ids graph)"
    by (auto simp: grays_def blacks_def known_def split: if_splits)
  have k: "fst ` edge_rel graph \<subseteq> set (node_ids graph)" by (auto simp: edge_rel_def)
  have "detectCycle graph \<longleftrightarrow> (\<exists>v. (v, v) \<in> (edge_rel graph \<inter> UNIV \<times> set (node_ids graph))\<^sup>+)"
    unfolding detectCycle_def succs_adjacency [symmetric]
    by (subst detect_from_correct [where K = "set (node_ids graph)"])
      (use cycle_inside [OF _ k] in \<open>simp_all add: c succs_adjacency settled_def\<close>)
  also have "\<dots> \<longleftrightarrow> (\<exists>v. (v, v) \<in> (edge_rel graph)\<^sup>+)"
    using cycle_inside [OF _ k] by (blast intro: trancl_mono)
  finally show ?thesis by (simp add: acyclic_def)
qed

section \<open>The run order\<close>

text \<open>The edges into a node whose source is still to be ordered.\<close>

definition remaining :: "WorkflowEdge list \<Rightarrow> string list \<Rightarrow> string \<Rightarrow> nat" where
  "remaining edges order v = length (filter (\<lambda>e. we_target e = v \<and> we_source e \<notin> set order) edges)"

text \<open>Every node after the sources of its incoming edges, given those that came before.\<close>

fun forward_from :: "WorkflowEdge list \<Rightarrow> string list \<Rightarrow> string list \<Rightarrow> bool" where
  "forward_from edges before [] = True"
| "forward_from edges before (v # vs) =
     (list_all (\<lambda>e. we_target e = v \<longrightarrow> we_source e \<in> set before) edges \<and> forward_from edges (before @ [v]) vs)"

lemma forward_from_append:
  "forward_from edges before (xs @ ys) \<longleftrightarrow> forward_from edges before xs \<and> forward_from edges (before @ xs) ys"
  by (induction xs arbitrary: before) auto

lemma remaining_zero: "remaining edges order v = 0 \<longleftrightarrow> list_all (\<lambda>e. we_target e = v \<longrightarrow> we_source e \<in> set order) edges"
  by (induction edges) (auto simp: remaining_def)

lemma remaining_snoc:
  "u \<notin> set order \<Longrightarrow>
   count (mset (map we_target (filter (\<lambda>e. we_source e = u) edges))) v + remaining edges (order @ [u]) v
     = remaining edges order v"
  by (induction edges) (auto simp: remaining_def)

lemma relax_known:
  "map_of indeg v = Some (1 + int n) \<Longrightarrow>
   relax v (indeg, queue) = (AList.update v (int n) indeg, if n = 0 then queue @ [v] else queue)"
  by (simp add: relax_def Let_def)

lemma relax_all:
  assumes "\<And>v. v \<in> ids \<Longrightarrow> map_of indeg v = Some (int (count (mset vs) v + base v))" "set vs \<subseteq> ids"
    "distinct queue" "set vs \<inter> set queue = {}" "fold relax vs (indeg, queue) = (indeg', queue')"
  shows "(\<forall>v \<in> ids. map_of indeg' v = Some (int (base v))) \<and> distinct queue'
    \<and> set queue' = set queue \<union> {v \<in> set vs. base v = 0}"
  using assms
proof (induction vs arbitrary: indeg queue)
  case Nil
  then show ?case by auto
next
  case (Cons v vs)
  let ?n = "count (mset vs) v + base v"
  have r: "relax v (indeg, queue) = (AList.update v (int ?n) indeg, if ?n = 0 then queue @ [v] else queue)"
    by (rule relax_known) (use Cons.prems(1) [of v] Cons.prems(2) in simp)
  have m: "map_of (AList.update v (int ?n) indeg) w = Some (int (count (mset vs) w + base w))" if "w \<in> ids" for w
    using Cons.prems(1) [OF that] by (auto simp: update_conv')
  have z: "?n = 0 \<longleftrightarrow> v \<notin> set vs \<and> base v = 0" by (simp add: count_eq_zero_iff)
  have "(\<forall>v \<in> ids. map_of indeg' v = Some (int (base v))) \<and> distinct queue'
    \<and> set queue' = set (if ?n = 0 then queue @ [v] else queue) \<union> {v \<in> set vs. base v = 0}"
  proof (rule Cons.IH)
    show "\<And>w. w \<in> ids \<Longrightarrow> map_of (AList.update v (int ?n) indeg) w = Some (int (count (mset vs) w + base w))"
      by (rule m)
    show "fold relax vs (AList.update v (int ?n) indeg, if ?n = 0 then queue @ [v] else queue) = (indeg', queue')"
      using Cons.prems(5) r by simp
  qed (use Cons.prems(2-4) z in auto)
  moreover have "set (if ?n = 0 then queue @ [v] else queue) \<union> {v \<in> set vs. base v = 0}
      = set queue \<union> {w \<in> set (v # vs). base w = 0}"
    using z by auto
  ultimately show ?case by simp
qed

text \<open>Between two nodes: the counts are those of the edges left, the queue holds the nodes without any.\<close>

definition kahn_inv :: "WorkflowGraph \<Rightarrow> (string \<times> int) list \<Rightarrow> string list \<Rightarrow> string list \<Rightarrow> bool" where
  "kahn_inv graph indeg queue order \<longleftrightarrow>
     (\<forall>v \<in> set (node_ids graph). map_of indeg v = Some (int (remaining (wg_edges graph) order v))) \<and>
     distinct (order @ queue) \<and> set (order @ queue) \<subseteq> set (node_ids graph) \<and>
     (\<forall>v \<in> set (node_ids graph). remaining (wg_edges graph) order v = 0 \<longleftrightarrow> v \<in> set (order @ queue)) \<and>
     forward_from (wg_edges graph) [] order"

definition edges_inside :: "WorkflowGraph \<Rightarrow> bool" where
  "edges_inside graph \<longleftrightarrow>
     list_all (\<lambda>e. we_source e \<in> set (node_ids graph) \<and> we_target e \<in> set (node_ids graph)) (wg_edges graph)"

lemma kahn_step:
  assumes i: "kahn_inv graph indeg (u # queue) order" and e: "edges_inside graph"
    and f: "fold relax (adjacency graph u) (indeg, queue) = (indeg', queue')"
  shows "kahn_inv graph indeg' queue' (order @ [u])"
proof -
  let ?ids = "set (node_ids graph)" and ?rem = "remaining (wg_edges graph)"
  have d: "distinct (order @ u # queue)" "set (order @ u # queue) \<subseteq> ?ids"
    and zero: "\<And>v. v \<in> ?ids \<Longrightarrow> ?rem order v = 0 \<longleftrightarrow> v \<in> set (order @ u # queue)"
    and fw: "forward_from (wg_edges graph) [] order"
    and cnt: "\<And>v. v \<in> ?ids \<Longrightarrow> map_of indeg v = Some (int (?rem order v))"
    using i by (auto simp: kahn_inv_def)
  have adj: "adjacency graph u = map we_target (filter (\<lambda>e. we_source e = u) (wg_edges graph))"
    using d(2) by (simp add: adjacency_def)
  have snoc: "count (mset (adjacency graph u)) v + ?rem (order @ [u]) v = ?rem order v" for v
    unfolding adj by (rule remaining_snoc) (use d(1) in auto)
  have inside: "set (adjacency graph u) \<subseteq> ?ids"
    using e by (auto simp: adj edges_inside_def list_all_iff)
  have fresh: "v \<notin> set (order @ u # queue)" if "v \<in> set (adjacency graph u)" for v
  proof -
    have "0 < count (mset (adjacency graph u)) v" using that by (simp add: count_greater_zero_iff)
    then show ?thesis using zero [of v] snoc [of v] inside that by (metis add_is_0 less_irrefl subsetD)
  qed
  have "(\<forall>v \<in> ?ids. map_of indeg' v = Some (int (?rem (order @ [u]) v))) \<and> distinct queue'
      \<and> set queue' = set queue \<union> {v \<in> set (adjacency graph u). ?rem (order @ [u]) v = 0}"
    by (rule relax_all [OF _ inside _ _ f]) (use cnt snoc d fresh in auto)
  then have q: "\<forall>v \<in> ?ids. map_of indeg' v = Some (int (?rem (order @ [u]) v))" "distinct queue'"
      "set queue' = set queue \<union> {v \<in> set (adjacency graph u). ?rem (order @ [u]) v = 0}" by auto
  have "?rem (order @ [u]) v = 0 \<longleftrightarrow> v \<in> set ((order @ [u]) @ queue')" if "v \<in> ?ids" for v
  proof (cases "v \<in> set (adjacency graph u)")
    case True
    with fresh q(3) show ?thesis by auto
  next
    case False
    then have "count (mset (adjacency graph u)) v = 0" by (simp add: count_eq_zero_iff)
    with snoc [of v] zero [OF that] False q(3) show ?thesis by auto
  qed
  moreover have "forward_from (wg_edges graph) [] (order @ [u])"
    using fw zero [of u] d(2) by (simp add: forward_from_append remaining_zero)
  moreover have "distinct ((order @ [u]) @ queue')" "set ((order @ [u]) @ queue') \<subseteq> ?ids"
    using q(2,3) d fresh inside by auto
  ultimately show ?thesis using q(1) by (simp add: kahn_inv_def)
qed

lemma kahn_end:
  "kahn_inv graph indeg queue order \<Longrightarrow> edges_inside graph \<Longrightarrow>
   \<exists>indeg'. kahn_inv graph indeg' [] (kahn (adjacency graph) indeg queue order)"
proof (induction "adjacency graph" indeg queue order rule: kahn.induct)
  case (1 indeg order)
  then show ?case by auto
next
  case (2 indeg u queue order)
  obtain indeg' queue' where f: "fold relax (adjacency graph u) (indeg, queue) = (indeg', queue')" by force
  with 2 kahn_step [OF "2.prems" f] show ?case by simp
qed

lemma kahn_complete:
  assumes i: "kahn_inv graph indeg [] order" and e: "edges_inside graph" and a: "acyclic (edge_rel graph)"
  shows "set order = set (node_ids graph)"
proof (rule ccontr)
  assume "set order \<noteq> set (node_ids graph)"
  with i obtain x where x: "x \<in> set (node_ids graph) - set order" by (auto simp: kahn_inv_def)
  have "finite (edge_rel graph)"
    by (rule finite_subset [of _ "(\<lambda>e. (we_source e, we_target e)) ` set (wg_edges graph)"])
      (auto simp: edge_rel_def)
  with a have "wf (edge_rel graph)" by (simp add: finite_acyclic_wf)
  then obtain v where v: "v \<in> set (node_ids graph) - set order"
    and least: "\<And>y. (y, v) \<in> edge_rel graph \<Longrightarrow> y \<notin> set (node_ids graph) - set order"
    using x by (rule wfE_min) auto
  from i v have "remaining (wg_edges graph) order v \<noteq> 0" by (auto simp: kahn_inv_def)
  then obtain ed where "ed \<in> set (wg_edges graph)" "we_target ed = v" "we_source ed \<notin> set order"
    by (auto simp: remaining_zero list_all_iff)
  moreover from this e have "(we_source ed, v) \<in> edge_rel graph" "we_source ed \<in> set (node_ids graph)"
    unfolding edge_rel_def edges_inside_def list_all_iff by blast+
  ultimately show False using least [of "we_source ed"] by blast
qed

text \<open>The counts the algorithm starts from.\<close>

lemma count_edges:
  "(\<And>v. v \<in> ids \<Longrightarrow> map_of indeg v = Some (n v)) \<Longrightarrow> (\<And>v. v \<notin> ids \<Longrightarrow> map_of indeg v = None) \<Longrightarrow> v \<in> ids \<Longrightarrow>
   map_of (fold count_edge edges indeg) v = Some (n v + int (remaining edges [] v))"
proof (induction edges arbitrary: indeg n)
  case Nil
  then show ?case by (simp add: remaining_def)
next
  case (Cons e edges)
  let ?n = "\<lambda>v. if v = we_target e then n v + 1 else n v"
  have "map_of (count_edge e indeg) w = Some (?n w)" if "w \<in> ids" for w
    using Cons.prems(1) [OF that] Cons.prems(1,2) [of "we_target e"]
    by (cases "we_target e \<in> ids") (auto simp: count_edge_def update_conv')
  moreover have "map_of (count_edge e indeg) w = None" if "w \<notin> ids" for w
    using Cons.prems(2) [OF that] Cons.prems(1,2) [of "we_target e"] that
    by (cases "we_target e \<in> ids") (auto simp: count_edge_def update_conv')
  ultimately show ?case
    using Cons.IH [of "count_edge e indeg" ?n] Cons.prems(3) by (simp add: remaining_def)
qed

lemma indegrees: "v \<in> set (node_ids graph) \<Longrightarrow> map_of (indegrees graph) v = Some (int (remaining (wg_edges graph) [] v))"
  unfolding indegrees_def
  by (subst count_edges [where ids = "set (node_ids graph)" and n = "\<lambda>_. 0"])
    (auto simp: map_of_map_restrict restrict_map_def)

lemma topoOrder_correct:
  assumes d: "distinct (node_ids graph)" and e: "edges_inside graph" and a: "acyclic (edge_rel graph)"
  shows "\<exists>order. topoOrder graph = Inr order \<and> distinct order \<and> set order = set (node_ids graph)
    \<and> forward_from (wg_edges graph) [] order"
proof -
  let ?q = "filter (\<lambda>i. (case map_of (indegrees graph) i of None \<Rightarrow> 0 | Some n \<Rightarrow> n) = 0) (node_ids graph)"
  let ?o = "kahn (adjacency graph) (indegrees graph) ?q []"
  have "kahn_inv graph (indegrees graph) ?q []"
    using d by (auto simp: kahn_inv_def indegrees)
  from kahn_end [OF this e] obtain indeg where i: "kahn_inv graph indeg [] ?o" by blast
  then have o: "distinct ?o" "forward_from (wg_edges graph) [] ?o" by (simp_all add: kahn_inv_def)
  have s: "set ?o = set (node_ids graph)" by (rule kahn_complete [OF i e a])
  then have "length ?o = length (wg_nodes graph)"
    using o(1) d by (metis distinct_card length_map)
  then show ?thesis using o s by (simp add: topoOrder_def Let_def)
qed

lemma id_errors_none: "id_errors seen ids = [] \<longleftrightarrow> distinct ids \<and> [] \<notin> set ids \<and> set ids \<inter> set seen = {}"
  by (induction seen ids rule: id_errors.induct) auto

lemma edge_errors_none: "edge_errors ids e = [] \<longleftrightarrow> we_source e \<in> set ids \<and> we_target e \<in> set ids"
  by (simp add: edge_errors_def)

lemma validateGraph_iff:
  "validateGraph graph = [] \<longleftrightarrow>
     distinct (node_ids graph) \<and> [] \<notin> set (node_ids graph) \<and> edges_inside graph \<and>
     list_ex (\<lambda>n. wn_type n = ''trigger'') (wg_nodes graph) \<and> acyclic (edge_rel graph)"
proof -
  have f: "[] \<notin> set ids \<Longrightarrow> filter (\<lambda>i. i \<noteq> []) ids = ids" for ids :: "string list"
    by (induction ids) auto
  show ?thesis
  proof (cases "[] \<in> set (node_ids graph)")
    case False
    with f show ?thesis
      by (auto simp: validateGraph_def Let_def id_errors_none edge_errors_none detectCycle_iff edges_inside_def
          list_all_iff)
  qed (auto simp: validateGraph_def Let_def id_errors_none)
qed

text \<open>
  C13. The validation of a graph is exact, and a graph it lets through has a run order. It lets a
  graph through exactly when the ids of its nodes are distinct and non-empty, its edges join its
  nodes, it has a trigger, and it has no cycle; and then \<open>topoOrder\<close> does not throw, every node is
  in the order once, and every edge leads from an earlier node to a later one.
\<close>

theorem validated_graph_has_run_order:
  "(validateGraph graph = [] \<longleftrightarrow>
      distinct (node_ids graph) \<and> [] \<notin> set (node_ids graph) \<and> edges_inside graph
      \<and> (\<exists>n \<in> set (wg_nodes graph). wn_type n = ''trigger'') \<and> acyclic (edge_rel graph))
   \<and> (validateGraph graph = [] \<longrightarrow>
      (\<exists>order. topoOrder graph = Inr order \<and> distinct order \<and> set order = set (node_ids graph)
        \<and> forward_from (wg_edges graph) [] order))"
  using topoOrder_correct by (auto simp: validateGraph_iff list_ex_iff)

definition two_steps :: WorkflowGraph where
  "two_steps =
     \<lparr>wg_id = None, wg_name = None,
      wg_nodes = [\<lparr>wn_id = ''b'', wn_type = ''agent'', wn_data = JUndefined\<rparr>,
                  \<lparr>wn_id = ''a'', wn_type = ''trigger'', wn_data = JUndefined\<rparr>],
      wg_edges = [\<lparr>we_id = ''e'', we_source = ''a'', we_target = ''b'', we_sourceHandle = None\<rparr>], wg_vars = []\<rparr>"

theorem validated_graph_has_run_order_witness:
  "\<exists>order. topoOrder two_steps = Inr order \<and> distinct order \<and> set order = {''a'', ''b''}
    \<and> forward_from (wg_edges two_steps) [] order"
proof -
  have v: "validateGraph two_steps = []" by code_simp
  have "set (node_ids two_steps) = {''a'', ''b''}" by (auto simp: two_steps_def)
  with validated_graph_has_run_order [of two_steps] v show ?thesis by simp
qed

end
