(* ===== verification/WorkflowBudget.thy ===== *)
theory WorkflowBudget
  imports WorkflowRun WorkflowOrder
begin

text \<open>
  What a run may cost. \<open>spends\<close> relates the state before an operation with the state after it: the
  budget units it gives back on top of those it was lent, the agent calls they pay for, the
  numbering of the emissions, and that only \<open>runGraph\<close> speaks of the status of the run. It
  composes, so every operation has one lemma. The interface \<open>accounted_runner\<close> is what a
  sub-workflow node relies on in the runner of the child; every level of \<open>runGraphInternal\<close>
  implements it.
\<close>

section \<open>Spending\<close>

definition agent_calls :: "RunState \<Rightarrow> int" where
  "agent_calls st = int (length (filter (\<lambda>c. case c of AgentCall _ _ \<Rightarrow> True | _ \<Rightarrow> False) (rs_calls st)))"

text \<open>The emissions that carry the number of an attempt: one for each attempt, when somebody listens.\<close>

definition attempts_emitted :: "RunState \<Rightarrow> int" where
  "attempts_emitted st = int (length (filter (\<lambda>e. ge_attempt e \<noteq> None) (rs_emitted st)))"

definition run_statuses :: "RunState \<Rightarrow> GraphExecutionEmission list" where
  "run_statuses st = filter (\<lambda>e. ge_nodeId e = None \<and> ge_status e \<noteq> None) (rs_emitted st)"

definition numbered :: "string \<Rightarrow> GraphExecutionEmission list \<Rightarrow> bool" where
  "numbered x es \<longleftrightarrow> map (\<lambda>e. (ge_executionId e, ge_executionSequence e)) es = map (\<lambda>i. (x, int i + 1)) [0..<length es]"

definition spends :: "GraphRunDeps \<Rightarrow> string \<Rightarrow> int \<Rightarrow> RunState \<Rightarrow> RunState \<Rightarrow> bool" where
  "spends deps x c st st' \<longleftrightarrow>
     agent_calls st' + 100 * rs_remaining st' \<le> agent_calls st + 100 * rs_remaining st + 100 * c
     \<and> attempts_emitted st' + (if gd_emitExecution deps then rs_remaining st' else 0)
         = attempts_emitted st + (if gd_emitExecution deps then rs_remaining st + c else 0)
     \<and> (0 \<le> rs_remaining st \<longrightarrow> 0 \<le> rs_remaining st')
     \<and> (numbered x (rs_emitted st) \<longrightarrow> numbered x (rs_emitted st'))
     \<and> run_statuses st' = run_statuses st
     \<and> prefix (rs_calls st) (rs_calls st')"

lemma spends_refl [simp]: "spends deps x 0 st st"
  by (simp add: spends_def)

lemma spends_trans: "spends deps x c st st1 \<Longrightarrow> spends deps x d st1 st2 \<Longrightarrow> spends deps x (c + d) st st2"
  by (auto simp: spends_def split: if_splits intro: prefix_order.trans)

lemma spends_calls: "spends deps x c st st' \<Longrightarrow> prefix (rs_calls st) (rs_calls st')"
  by (simp add: spends_def)

lemma spends_then: "spends deps x 0 st st1 \<Longrightarrow> spends deps x c st1 st2 \<Longrightarrow> spends deps x c st st2"
  using spends_trans [of deps x 0 st st1 c st2] by simp

lemma numbered_snoc:
  "numbered x es \<Longrightarrow> numbered x (es @ [e\<lparr>ge_executionId := x, ge_executionSequence := int (length es) + 1\<rparr>])"
  by (simp add: numbered_def)

lemma emit_fields [simp]:
  "rs_calls (emit deps x e st) = rs_calls st" "rs_polls (emit deps x e st) = rs_polls st"
  "rs_remaining (emit deps x e st) = rs_remaining st"
  by (simp_all add: emit_def)

lemma emit_agent_calls [simp]: "agent_calls (emit deps x e st) = agent_calls st"
  by (simp add: agent_calls_def)

lemma emit_numbered: "numbered x (rs_emitted st) \<Longrightarrow> numbered x (rs_emitted (emit deps x e st))"
  by (simp add: emit_def numbered_snoc)

lemma emit_attempts:
  "attempts_emitted (emit deps x e st) = attempts_emitted st + (if gd_emitExecution deps \<and> ge_attempt e \<noteq> None then 1 else 0)"
  by (simp add: emit_def attempts_emitted_def)

lemma emit_statuses: "ge_nodeId e \<noteq> None \<or> ge_status e = None \<Longrightarrow> run_statuses (emit deps x e st) = run_statuses st"
  by (auto simp: emit_def run_statuses_def)

lemma emit_spends:
  assumes "ge_attempt e = None" "ge_status e = None"
  shows "spends deps x 0 st (emit deps x e st)"
  using assms emit_numbered [of x st deps e] emit_statuses [of e deps x st]
  by (simp add: spends_def emit_attempts agent_calls_def)

lemma poll_spends: "poll_signal deps st = (b, st') \<Longrightarrow> spends deps x 0 st st' \<and> rs_remaining st' = rs_remaining st"
  by (auto simp: poll_signal_def spends_def agent_calls_def attempts_emitted_def run_statuses_def)

lemma charge_spends:
  "0 < rs_remaining st \<Longrightarrow> spends deps x (- 1) st (st\<lparr>rs_remaining := rs_remaining st - 1\<rparr>)"
  by (auto simp: spends_def agent_calls_def attempts_emitted_def run_statuses_def)

section \<open>Calls of one node\<close>

text \<open>At most \<open>n\<close> agent calls are added to the calls made, and nothing else of the state changes.\<close>

definition calls_at_most :: "nat \<Rightarrow> RunState \<Rightarrow> RunState \<Rightarrow> bool" where
  "calls_at_most n st st' \<longleftrightarrow>
     agent_calls st' \<le> agent_calls st + int n \<and> rs_remaining st' = rs_remaining st \<and> rs_emitted st' = rs_emitted st
     \<and> prefix (rs_calls st) (rs_calls st')"

lemma calls_refl [simp]: "calls_at_most n st st"
  by (simp add: calls_at_most_def)

lemma call_agent_calls: "call_agent deps prompt node st = (r, st') \<Longrightarrow> calls_at_most 1 st st'"
  by (auto simp: call_agent_def calls_at_most_def agent_calls_def)

lemma calls_step: "calls_at_most 1 st st1 \<Longrightarrow> calls_at_most n st1 st2 \<Longrightarrow> calls_at_most (Suc n) st st2"
  by (auto simp: calls_at_most_def intro: prefix_order.trans)

lemma calls_weaken: "calls_at_most m st st' \<Longrightarrow> m \<le> n \<Longrightarrow> calls_at_most n st st'"
  by (simp add: calls_at_most_def)

lemma loop_foreach_calls:
  "loop_foreach deps node ctx prompt i vs outputs st = (r, st') \<Longrightarrow> calls_at_most (length vs) st st'"
proof (induction deps node ctx prompt i vs outputs st rule: loop_foreach.induct)
  case (2 deps node ctx prompt i v vs outputs st)
  obtain o1 st1 where c: "call_agent deps (interpolate (gd_platform deps) prompt
      (with_vars [(''item'', v), (''index'', js_int i)] ctx)) node st = (o1, st1)" by force
  have one: "calls_at_most 1 st st1" by (rule call_agent_calls [OF c])
  show ?case
  proof (cases o1)
    case (Inl e)
    with "2.prems" c one show ?thesis by (auto intro: calls_weaken)
  next
    case (Inr reply)
    with "2.prems" c "2.IH" [OF refl c [symmetric] Inr] have "calls_at_most (length vs) st1 st'" by simp
    with one show ?thesis by (simp add: calls_step)
  qed
qed simp

lemma loop_refine_calls:
  "loop_refine deps node ctx prompt stop left i final st = (r, st') \<Longrightarrow> calls_at_most left st st'"
proof (induction deps node ctx prompt stop left i final st rule: loop_refine.induct)
  case (2 deps node ctx prompt stop left i final st)
  obtain o1 st1 where c: "call_agent deps (interpolate (gd_platform deps) prompt
      (with_vars [(''last'', JStr final), (''index'', js_int i)] ctx)) node st = (o1, st1)" by force
  have one: "calls_at_most 1 st st1" by (rule call_agent_calls [OF c])
  show ?case
  proof (cases "\<exists>reply. o1 = Inr reply \<and> \<not> (stop \<noteq> [] \<and> index_of stop reply \<noteq> None)")
    case False
    then have "st' = st1" using "2.prems" c by (cases o1) auto
    with one show ?thesis by (auto intro: calls_weaken)
  next
    case True
    then obtain reply where t: "o1 = Inr reply" "\<not> (stop \<noteq> [] \<and> index_of stop reply \<noteq> None)" by blast
    with "2.prems" c "2.IH" [OF refl c [symmetric] t] have "calls_at_most left st1 st'" by auto
    with one show ?thesis by (simp add: calls_step)
  qed
qed simp

lemma loop_ceiling_bounds: "1 \<le> loop_ceiling data" "loop_ceiling data \<le> 100"
  by (auto simp: loop_ceiling_def clamped_def split: number.splits)

lemma run_loop_calls: "run_loop deps node ctx upstream st = (r, st') \<Longrightarrow> calls_at_most 100 st st'"
  using loop_ceiling_bounds [of "wn_data node"]
  by (auto simp: run_loop_def Let_def split: if_splits prod.splits sum.splits
      dest!: loop_foreach_calls loop_refine_calls elim!: calls_weaken)

lemma approval_calls: "run_approval deps node ctx st = (r, st') \<Longrightarrow> calls_at_most 100 st st'"
  by (auto simp: run_approval_def Let_def calls_at_most_def agent_calls_def split: option.splits if_splits sum.splits)

lemma extract_calls: "run_extract deps node ctx st = (r, st') \<Longrightarrow> calls_at_most 100 st st'"
  by (auto simp: run_extract_def Let_def split: prod.splits sum.splits dest!: call_agent_calls elim!: calls_weaken)

lemma classify_calls: "run_classify deps node ctx st = (r, st') \<Longrightarrow> calls_at_most 100 st st'"
  by (auto simp: run_classify_def Let_def split: prod.splits sum.splits dest!: call_agent_calls elim!: calls_weaken)

lemma agent_node_calls: "call_agent deps prompt node st = (r, st') \<Longrightarrow> calls_at_most 100 st st'"
  by (rule calls_weaken [OF call_agent_calls]) simp_all

lemmas node_calls = run_loop_calls approval_calls extract_calls classify_calls agent_node_calls

lemma runSingleNode_calls: "runSingleNode deps node ctx upstream st = (r, ctx', st') \<Longrightarrow> calls_at_most 100 st st'"
  by (auto simp: runSingleNode_def Let_def split: option.splits if_splits prod.splits sum.splits dest!: node_calls)

text \<open>An attempt gives back the unit it was started with, as its emission.\<close>

lemma node_emission_fields [simp]:
  "ge_nodeId (node_emission i a d rec) = Some i" "ge_attempt (node_emission i a d rec) = Some a"
  by (simp_all add: node_emission_def)

lemma calls_spend: "calls_at_most 100 st st1 \<Longrightarrow> rs_emitted st1 = rs_emitted st \<and> rs_remaining st1 = rs_remaining st"
  by (simp add: calls_at_most_def)

lemma attempt_spends:
  assumes "calls_at_most 100 st st1 \<or> spends deps x 0 st st1"
  shows "spends deps x 1 st (emit deps x (node_emission i a d rec) st1)"
  using assms
proof
  assume "calls_at_most 100 st st1"
  then have "agent_calls st1 \<le> agent_calls st + 100" "rs_remaining st1 = rs_remaining st"
    "attempts_emitted st1 = attempts_emitted st" "run_statuses st1 = run_statuses st" "rs_emitted st1 = rs_emitted st"
    "prefix (rs_calls st) (rs_calls st1)"
    by (simp_all add: calls_at_most_def attempts_emitted_def run_statuses_def)
  then show ?thesis
    using emit_numbered [of x st1] by (simp add: spends_def emit_attempts emit_statuses)
next
  assume "spends deps x 0 st st1"
  then show ?thesis using emit_numbered [of x st1] by (auto simp: spends_def emit_attempts emit_statuses)
qed

section \<open>The runner of a child\<close>

locale accounted_runner =
  fixes run_child :: graph_runner and deps :: GraphRunDeps
  assumes accounts: "run_child graph opts st = (r, st') \<Longrightarrow> spends deps (ro_executionId opts) 0 st st'"
begin

lemma sub_spends:
  assumes "runSubWorkflow run_child deps node ctx opts st = (r, st')"
  shows "spends deps (ro_executionId opts) 0 st st'"
proof -
  have load: "spends deps (ro_executionId opts) 0 st (st\<lparr>rs_calls := rs_calls st @ [LoadCall ref]\<rparr>)" for ref
    by (simp add: spends_def agent_calls_def attempts_emitted_def run_statuses_def)
  consider "st' = st" | ref where "st' = st\<lparr>rs_calls := rs_calls st @ [LoadCall ref]\<rparr>"
    | ref sub opts' r' where "run_child sub opts' (st\<lparr>rs_calls := rs_calls st @ [LoadCall ref]\<rparr>) = (r', st')"
      "ro_executionId opts' = ro_executionId opts"
    using assms
    by (fastforce simp: runSubWorkflow_def Let_def split: if_splits option.splits sum.splits prod.splits)
  then show ?thesis
  proof cases
    case (3 ref sub opts' r')
    from spends_then [OF load accounts [OF 3(1), unfolded 3(2)]] show ?thesis .
  qed (use load in simp_all)
qed

lemma attempt_balances:
  assumes "run_attempt run_child deps node upstream opts attempt ctx st = (rec, ctx', st')"
  shows "spends deps (ro_executionId opts) 1 st st'"
proof (cases "wn_type node = ''subworkflow''")
  case True
  obtain r s where "runSubWorkflow run_child deps node ctx opts st = (r, s)" by force
  with assms True sub_spends [OF this] show ?thesis
    by (auto simp: run_attempt_def Let_def intro: attempt_spends)
next
  case False
  obtain r c s where "runSingleNode deps node ctx upstream st = (r, c, s)" using prod_cases3 by blast
  with assms False runSingleNode_calls [OF this] show ?thesis
    by (auto simp: run_attempt_def Let_def intro: attempt_spends)
qed

lemma charged_attempt:
  assumes "run_attempt run_child deps node upstream opts attempt ctx (st\<lparr>rs_remaining := rs_remaining st - 1\<rparr>) = (rec, ctx', st')"
    and "\<not> rs_remaining st \<le> 0"
  shows "spends deps (ro_executionId opts) 0 st st'"
  using spends_trans [OF charge_spends attempt_balances [OF assms(1)]] assms(2) by simp

lemma retries_account:
  "run_retries run_child deps node upstream opts left attempt rec ctx st = (rec', ctx', st') \<Longrightarrow>
   spends deps (ro_executionId opts) 0 st st'"
proof (induction left arbitrary: attempt rec ctx st)
  case (Suc left)
  obtain aborted st1 where p: "poll_signal deps st = (aborted, st1)" by force
  have one: "spends deps (ro_executionId opts) 0 st st1" using poll_spends [OF p] by simp
  obtain rec2 ctx2 st2 where a: "run_attempt run_child deps node upstream opts attempt ctx
      (st1\<lparr>rs_remaining := rs_remaining st1 - 1\<rparr>) = (rec2, ctx2, st2)" using prod_cases3 by blast
  show ?case
  proof (cases "nr_status rec \<noteq> ''error'' \<or> aborted \<or> rs_remaining st1 \<le> 0")
    case True
    with Suc.prems p one show ?thesis by (auto split: if_splits)
  next
    case False
    then have "run_retries run_child deps node upstream opts left (attempt + 1) rec2 ctx2 st2 = (rec', ctx', st')"
      using Suc.prems p a by simp
    from Suc.IH [OF this] have "spends deps (ro_executionId opts) 0 st2 st'" .
    moreover have "spends deps (ro_executionId opts) 0 st1 st2" using charged_attempt [OF a] False by simp
    ultimately show ?thesis using one spends_then by blast
  qed
qed simp

lemma node_accounts:
  assumes "run_node run_child deps node upstream opts ctx (st\<lparr>rs_remaining := rs_remaining st - 1\<rparr>) = (rec, ctx', st')"
    and "\<not> rs_remaining st \<le> 0"
  shows "spends deps (ro_executionId opts) 0 st st'"
proof -
  obtain rec1 ctx1 st1 where a: "run_attempt run_child deps node upstream opts 1 ctx
      (st\<lparr>rs_remaining := rs_remaining st - 1\<rparr>) = (rec1, ctx1, st1)" using prod_cases3 by blast
  with assms(1) have "run_retries run_child deps node upstream opts (max_retries (wn_data node)) 2 rec1 ctx1 st1 = (rec, ctx', st')"
    by (simp add: run_node_def)
  with charged_attempt [OF a assms(2)] show ?thesis by (blast intro: spends_then retries_account)
qed

end

section \<open>Settling a node\<close>

lemma take_edge_spends: "spends deps x 0 (snd acc) (snd (take_edge deps x node rec e acc))"
  by (auto simp: take_edge_def Let_def no_emission_def intro!: emit_spends split: prod.splits)

lemma take_edges_spend: "spends deps x 0 (snd acc) (snd (fold (take_edge deps x node rec) es acc))"
proof (induction es arbitrary: acc)
  case (Cons e es)
  from spends_then [OF take_edge_spends Cons.IH] show ?case by simp
qed simp

lemma emit_extras_spend:
  "spends deps x 0 st (emit_approval deps x node rec st)"
  "spends deps x 0 st (emit_loop deps x node rec st)"
  "spends deps x 0 st (emit_degraded deps x node st)"
  by (auto simp: emit_approval_def emit_loop_def emit_degraded_def no_emission_def intro!: emit_spends)

lemma settle_spends:
  assumes "settle_node deps graph order opts node gs (rec, ctx, st) = (r, st')"
  shows "spends deps (ro_executionId opts) 0 st st'"
proof -
  let ?x = "ro_executionId opts"
  let ?st = "emit_loop deps ?x node rec (emit_approval deps ?x node rec st)"
  have one: "spends deps ?x 0 st ?st" by (blast intro: spends_then emit_extras_spend)
  let ?es = "filter (\<lambda>e. we_source e = wn_id node) (wg_edges graph)"
  have "st' = ?st \<or> st' = emit_degraded deps ?x node ?st \<or> (\<exists>a. st' = snd (fold (take_edge deps ?x node rec) ?es (a, ?st)))"
    using assms by (auto simp: settle_node_def Let_def split: if_splits prod.splits) (metis snd_conv)+
  then show ?thesis
    using one spends_then [OF one emit_extras_spend(3)] spends_then [OF one, of 0]
      take_edges_spend [of deps ?x "(_, ?st)" node rec ?es] by auto
qed

section \<open>A graph, and every level\<close>

context accounted_runner
begin

lemma step_accounts:
  assumes "node_step run_child deps graph order opts node gs st = (r, st')"
  shows "spends deps (ro_executionId opts) 0 st st'"
proof (cases "is_active graph node (gs_active gs)")
  case False
  with assms show ?thesis by (auto simp: node_step_def)
next
  case True
  obtain aborted st1 where p: "poll_signal deps st = (aborted, st1)" by force
  have one: "spends deps (ro_executionId opts) 0 st st1" using poll_spends [OF p] by simp
  obtain rec ctx st2 where n: "run_node run_child deps node (upstream_of graph node gs) opts (gs_ctx gs)
      (st1\<lparr>rs_remaining := rs_remaining st1 - 1\<rparr>) = (rec, ctx, st2)" using prod_cases3 by blast
  show ?thesis
  proof (cases "aborted \<or> rs_remaining st1 \<le> 0")
    case True
    with assms p one \<open>is_active graph node (gs_active gs)\<close> show ?thesis by (auto simp: node_step_def split: if_splits)
  next
    case False
    then have "settle_node deps graph order opts node gs (rec, ctx, st2) = (r, st')"
      using assms p n \<open>is_active graph node (gs_active gs)\<close> by (simp add: node_step_def)
    from spends_then [OF node_accounts [OF n] settle_spends [OF this]] False one show ?thesis
      by (blast intro: spends_then)
  qed
qed

lemma nodes_account:
  "run_nodes run_child deps graph order opts nodes gs st = (r, st') \<Longrightarrow> spends deps (ro_executionId opts) 0 st st'"
proof (induction nodes arbitrary: gs st)
  case (Cons node nodes)
  obtain s st1 where n: "node_step run_child deps graph order opts node gs st = (s, st1)" by force
  with Cons show ?case
    by (cases s) (auto intro: spends_then step_accounts [OF n])
qed simp

lemma graph_accounts:
  "run_graph_with run_child deps graph opts st = (r, st') \<Longrightarrow> spends deps (ro_executionId opts) 0 st st'"
  by (auto simp: run_graph_with_def Let_def split: if_splits sum.splits prod.splits dest: nodes_account)

end

lemma internal_accounted: "accounted_runner (runGraphInternal deps level) deps"
proof (induction level)
  case 0
  have "accounted_runner (\<lambda>graph opts st. (Inl [], st)) deps" by unfold_locales simp
  from accounted_runner.graph_accounts [OF this] show ?case by unfold_locales simp
next
  case (Suc level)
  from accounted_runner.graph_accounts [OF this] show ?case by unfold_locales simp
qed

interpretation level_runner: accounted_runner "runGraphInternal deps level" deps for deps level
  by (rule internal_accounted)

section \<open>The whole run\<close>

lemma initial_run:
  "agent_calls (initial_run_state deps) = 0" "rs_remaining (initial_run_state deps) = run_budget deps"
  "attempts_emitted (initial_run_state deps) = 0" "rs_emitted (initial_run_state deps) = []"
  by (simp_all add: initial_run_state_def agent_calls_def attempts_emitted_def)

lemma runGraph_spends:
  assumes "runGraph graph deps = (r, st)"
  shows "agent_calls st \<le> 100 * (run_budget deps - rs_remaining st)" "0 \<le> rs_remaining st"
    "attempts_emitted st = (if gd_emitExecution deps then run_budget deps - rs_remaining st else 0)"
    "numbered (execution_id graph deps) (rs_emitted st)"
proof -
  let ?x = "execution_id graph deps"
  let ?st0 = "emit deps ?x (no_emission\<lparr>ge_status := Some ''running''\<rparr>) (initial_run_state deps)"
  let ?opts = "\<lparr>ro_depth = 0, ro_stack = (if graphKey graph = [] then [] else [graphKey graph]), ro_executionId = ?x\<rparr>"
  obtain r1 st1 where i: "runGraphInternal deps MAX_SUBWORKFLOW_DEPTH graph ?opts ?st0 = (r1, st1)" by force
  have s: "spends deps ?x 0 ?st0 st1" using level_runner.accounts [OF i] by simp
  have st: "st = st1 \<or> (\<exists>e. ge_attempt e = None \<and> st = emit deps ?x e st1)"
  proof (cases r1)
    case (Inl e)
    with assms i show ?thesis by (simp add: runGraph_def Let_def)
  next
    case (Inr result)
    with assms i show ?thesis
      by (intro disjI2 exI [of _ "no_emission\<lparr>ge_status := Some (if gr_ok result then ''succeeded'' else ''failed''),
          ge_reasonCodes := (if gr_ok result then None else Some (canonicalTerminalReasonCodes (gr_error result)))\<rparr>"])
        (simp add: runGraph_def Let_def no_emission_def)
  qed
  have init: "agent_calls ?st0 = 0" "rs_remaining ?st0 = run_budget deps" "attempts_emitted ?st0 = 0"
    "0 \<le> run_budget deps"
    by (simp_all add: emit_attempts initial_run no_emission_def run_budget_def)
  have "numbered ?x (rs_emitted ?st0)"
    by (rule emit_numbered) (simp add: initial_run_state_def numbered_def)
  note init = init this
  show "agent_calls st \<le> 100 * (run_budget deps - rs_remaining st)" "0 \<le> rs_remaining st"
    "attempts_emitted st = (if gd_emitExecution deps then run_budget deps - rs_remaining st else 0)"
    "numbered ?x (rs_emitted st)"
    using st s init emit_numbered [of ?x st1] by (auto simp: spends_def emit_attempts split: if_splits)
qed

text \<open>
  C14. A run stays within its budget however its nodes are nested and whatever fails. The counter
  starts at the budget, or at zero when that is negative, and never goes below zero: every attempt
  of a node, retries and the nodes of sub-workflows included, draws one unit from it first. When
  somebody listens, the units drawn are exactly the emissions that carry the number of an attempt
  (the map may merge two of them into one occurrence, and nothing is emitted when nobody listens).
  The agent calls of the run, those of every loop iteration included, are at most a hundred (the
  ceiling on a loop's iterations) for each unit drawn. The iterations themselves draw nothing, which
  is what the code does and not what the comment on the option says.
\<close>

theorem run_stays_within_budget:
  "(let (r, st) = runGraph graph deps
    in 0 \<le> rs_remaining st \<and> rs_remaining st \<le> run_budget deps
       \<and> attempts_emitted st = (if gd_emitExecution deps then run_budget deps - rs_remaining st else 0)
       \<and> agent_calls st \<le> 100 * (run_budget deps - rs_remaining st))"
proof -
  obtain r st where r: "runGraph graph deps = (r, st)" by force
  have "0 \<le> agent_calls st" by (simp add: agent_calls_def)
  with runGraph_spends [OF r] show ?thesis by (simp add: r)
qed

end
