(* ===== verification/WorkflowRouting.thy ===== *)
theory WorkflowRouting
  imports WorkflowBudget WorkflowOrder
begin

text \<open>
  Which nodes of a workflow run, and what their records say: a node runs only when a finished node
  let it, through an edge that its branch allows; a failed node that is not optional ends the
  run; an approval passes only when somebody approved it, or when the host said that nobody has
  to. \<open>routed\<close> is the invariant of the loop over the run order.
\<close>

section \<open>The record of a node\<close>

text \<open>
  The node was approved in a run that made these calls of the host: the host was asked about it
  and its answer, at that moment of the run, was yes; or the host has nobody to ask and had allowed
  that.
\<close>

definition granted :: "GraphRunDeps \<Rightarrow> HostCall list \<Rightarrow> WorkflowNode \<Rightarrow> bool" where
  "granted deps calls node \<longleftrightarrow>
     (case gd_requestApproval deps of
        None \<Rightarrow> gd_allowUnattendedApproval deps
      | Some ask \<Rightarrow> \<exists>before summary. prefix (before @ [ApprovalCall (wn_id node) summary]) calls
          \<and> ask before node summary = Inr True)"

definition approval_answer :: "GraphRunDeps \<Rightarrow> HostCall list \<Rightarrow> WorkflowNode \<Rightarrow> NodeRunRecord \<Rightarrow> bool" where
  "approval_answer deps calls node r \<longleftrightarrow>
     (\<exists>b. js_get (nr_output r) ''approved'' = JBool b \<and> nr_branch r = Some (if b then ''approved'' else ''rejected'')
        \<and> (b \<longrightarrow> granted deps calls node))"

definition settled_record :: "GraphRunDeps \<Rightarrow> HostCall list \<Rightarrow> WorkflowNode \<Rightarrow> NodeRunRecord \<Rightarrow> bool" where
  "settled_record deps calls node r \<longleftrightarrow>
     nr_status r = ''error'' \<or>
     nr_status r = ''ok'' \<and> (wn_type node = ''approval'' \<longrightarrow> approval_answer deps calls node r)"

lemma granted_later: "granted deps calls node \<Longrightarrow> prefix calls calls' \<Longrightarrow> granted deps calls' node"
  unfolding granted_def by (cases "gd_requestApproval deps") (auto intro: prefix_order.trans)

lemma settled_later: "settled_record deps calls node r \<Longrightarrow> prefix calls calls' \<Longrightarrow> settled_record deps calls' node r"
  unfolding settled_record_def approval_answer_def using granted_later by blast

lemma record_status [simp]:
  "nr_status (ok_record node out) = ''ok''" "nr_status (error_record node m) = ''error''"
  "nr_status (skipped_record node) = ''skipped''"
  by (simp_all add: ok_record_def error_record_def skipped_record_def)

lemma passed_record:
  assumes "b \<Longrightarrow> granted deps calls node"
  shows "settled_record deps calls node ((ok_record node [(''approved'', JBool b), (''summary'', s), (''unattended'', u)])
    \<lparr>nr_branch := Some (if b then ''approved'' else ''rejected'')\<rparr>)"
proof -
  have "js_get (JObj [(''approved'', JBool b), (''summary'', s), (''unattended'', u)]) ''approved'' = JBool b"
    by (simp add: js_get_def)
  then show ?thesis using assms by (simp add: settled_record_def approval_answer_def ok_record_def)
qed

lemma run_approval_answer:
  assumes "run_approval deps node ctx st = (Inr r, st')"
  shows "settled_record deps (rs_calls st') node r"
proof (cases "gd_requestApproval deps")
  case None
  show ?thesis
  proof (cases "gd_allowUnattendedApproval deps")
    case True
    with None have "granted deps (rs_calls st') node" by (simp add: granted_def)
    with assms None True show ?thesis
      by (auto simp: run_approval_def Let_def intro: passed_record [where b = True, simplified])
  next
    case False
    with assms None have "nr_status r = ''error''" by (auto simp: run_approval_def Let_def)
    then show ?thesis by (simp add: settled_record_def)
  qed
next
  case (Some ask)
  define summary where "summary = interpolate (gd_platform deps)
    (js_string (gd_platform deps) (or_value (js_get (wn_data node) ''summary'')
      (or_value (js_get (wn_data node) ''message'') (JStr ''Approve this step?'')))) ctx"
  show ?thesis
  proof (cases "ask (rs_calls st) node summary")
    case (Inl e)
    with assms Some show ?thesis by (simp add: run_approval_def Let_def summary_def)
  next
    case (Inr b)
    with Some assms have r: "r = (ok_record node [(''approved'', JBool b), (''summary'', JStr summary), (''unattended'', JBool False)])
        \<lparr>nr_branch := Some (if b then ''approved'' else ''rejected'')\<rparr>"
      and calls: "rs_calls st' = rs_calls st @ [ApprovalCall (wn_id node) summary]"
      by (simp_all add: run_approval_def Let_def summary_def) auto
    have "granted deps (rs_calls st') node" if b
      using Some Inr that calls unfolding granted_def by auto
    then show ?thesis unfolding r by (rule passed_record)
  qed
qed

lemma data_node_status: "data_node pf node ctx upstream = Some r \<Longrightarrow> nr_status r = ''ok'' \<and> wn_type node \<noteq> ''approval''"
  by (auto simp: data_node_def Let_def split: if_splits)

lemma plain_node_status:
  "run_loop deps node ctx upstream st = (Inr r, st') \<Longrightarrow> nr_status r = ''ok''"
  "run_extract deps node ctx st = (Inr r, st') \<Longrightarrow> nr_status r = ''ok''"
  "run_classify deps node ctx st = (Inr r, st') \<Longrightarrow> nr_status r = ''ok''"
  by (auto simp: run_loop_def run_extract_def run_classify_def Let_def split: if_splits sum.splits prod.splits)

lemma single_record:
  "runSingleNode deps node ctx upstream st = (Inr r, ctx', st') \<Longrightarrow> settled_record deps (rs_calls st') node r"
  by (auto simp: runSingleNode_def Let_def settled_record_def split: option.splits if_splits prod.splits sum.splits
      dest: data_node_status plain_node_status run_approval_answer [unfolded settled_record_def])

lemma sub_record:
  "runSubWorkflow run_child deps node ctx opts st = (Inr r, st') \<Longrightarrow> nr_status r = ''ok'' \<or> nr_status r = ''error''"
  by (auto simp: runSubWorkflow_def Let_def split: if_splits option.splits sum.splits prod.splits)

lemma attempt_record:
  assumes "run_attempt run_child deps node upstream opts attempt ctx st = (rec, ctx', st')"
  shows "settled_record deps (rs_calls st') node rec"
proof (cases "wn_type node = ''subworkflow''")
  case True
  obtain r s where "runSubWorkflow run_child deps node ctx opts st = (r, s)" by force
  with assms True sub_record [of run_child deps node ctx opts st _ s] show ?thesis
    by (auto simp: run_attempt_def Let_def settled_record_def split: sum.splits)
next
  case False
  obtain r c s where s: "runSingleNode deps node ctx upstream st = (r, c, s)" using prod_cases3 by blast
  show ?thesis
  proof (cases r)
    case (Inl e)
    with assms False s show ?thesis by (auto simp: run_attempt_def Let_def settled_record_def)
  next
    case (Inr rec')
    with assms False s single_record [of deps node ctx upstream st rec' c s] show ?thesis
      by (auto simp: run_attempt_def Let_def)
  qed
qed

lemma retries_record:
  "run_retries run_child deps node upstream opts left attempt rec ctx st = (rec', ctx', st') \<Longrightarrow>
   settled_record deps (rs_calls st) node rec \<Longrightarrow> settled_record deps (rs_calls st') node rec'"
proof (induction left arbitrary: attempt rec ctx st)
  case (Suc left)
  obtain aborted st1 where p: "poll_signal deps st = (aborted, st1)" by force
  then have same: "rs_calls st1 = rs_calls st" by (auto simp: poll_signal_def)
  obtain rec2 ctx2 st2 where a: "run_attempt run_child deps node upstream opts attempt ctx
      (st1\<lparr>rs_remaining := rs_remaining st1 - 1\<rparr>) = (rec2, ctx2, st2)" using prod_cases3 by blast
  show ?case
  proof (cases "nr_status rec \<noteq> ''error'' \<or> aborted \<or> rs_remaining st1 \<le> 0")
    case True
    with Suc.prems p same show ?thesis by (auto simp: settled_record_def split: if_splits)
  next
    case False
    then have "run_retries run_child deps node upstream opts left (attempt + 1) rec2 ctx2 st2 = (rec', ctx', st')"
      using Suc.prems p a by simp
    from Suc.IH [OF this attempt_record [OF a]] show ?thesis .
  qed
qed simp

lemma node_record:
  "run_node run_child deps node upstream opts ctx st = (rec, ctx', st') \<Longrightarrow> settled_record deps (rs_calls st') node rec"
  unfolding run_node_def by (auto split: prod.splits intro: retries_record attempt_record)

section \<open>The invariant\<close>

text \<open>A finished node lets an edge through.\<close>

definition allows :: "WorkflowNode \<Rightarrow> NodeRunRecord \<Rightarrow> WorkflowEdge \<Rightarrow> bool" where
  "allows n r e \<longleftrightarrow>
     nr_status r = ''ok'' \<and> (nr_branch r = None \<or> \<not> truthy (we_sourceHandle e) \<or> we_sourceHandle e = nr_branch r) \<and>
     \<not> (wn_type n = ''approval'' \<and> js_get (nr_output r) ''approved'' = JBool False)"

lemma traversed_allows: "edge_state n r e = ''traversed'' \<Longrightarrow> nr_status r = ''ok'' \<Longrightarrow> allows n r e"
  by (auto simp: edge_state_def approval_rejected_def allows_def split: if_splits)

definition lets_through :: "WorkflowGraph \<Rightarrow> (string \<times> NodeRunRecord) list \<Rightarrow> WorkflowEdge \<Rightarrow> bool" where
  "lets_through graph records e \<longleftrightarrow>
     (\<exists>n \<in> set (wg_nodes graph). wn_id n = we_source e \<and>
        (\<exists>r. map_of records (wn_id n) = Some r \<and> allows n r e))"

definition routed :: "GraphRunDeps \<Rightarrow> HostCall list \<Rightarrow> WorkflowGraph \<Rightarrow> (string \<times> NodeRunRecord) list \<Rightarrow> string list \<Rightarrow> bool" where
  "routed deps calls graph records active \<longleftrightarrow>
     (\<forall>i \<in> set active. \<exists>e \<in> set (wg_edges graph). we_id e = i \<and> lets_through graph records e) \<and>
     (\<forall>n \<in> set (wg_nodes graph). \<forall>r. map_of records (wn_id n) = Some r \<longrightarrow>
        nr_status r = ''skipped'' \<or> settled_record deps calls n r \<and> is_active graph n active)"

text \<open>Every failure so far is that of an optional node, and is listed.\<close>

definition fail_closed :: "WorkflowGraph \<Rightarrow> (string \<times> NodeRunRecord) list \<Rightarrow> string list \<Rightarrow> bool" where
  "fail_closed graph records degraded \<longleftrightarrow>
     (\<forall>i. i \<in> set degraded \<longleftrightarrow> (\<exists>r. map_of records i = Some r \<and> nr_status r = ''error'')) \<and>
     (\<forall>n \<in> set (wg_nodes graph). wn_id n \<in> set degraded \<longrightarrow> is_optional n)"

lemma active_mono: "is_active graph node active \<Longrightarrow> set active \<subseteq> set active' \<Longrightarrow> is_active graph node active'"
  by (auto simp: is_active_def list_ex_iff)

lemma take_edges_active:
  "set (fst (fold (take_edge deps x node rec) es acc)) =
   set (fst acc) \<union> we_id ` {e \<in> set es. edge_state node rec e = ''traversed''}"
proof (induction es arbitrary: acc)
  case (Cons e es)
  obtain active st where a: "acc = (active, st)" by force
  have "set (fst (take_edge deps x node rec e acc)) =
      set (fst acc) \<union> (if edge_state node rec e = ''traversed'' then {we_id e} else {})"
    by (auto simp: take_edge_def a)
  with Cons [of "take_edge deps x node rec e acc"] show ?case by auto
qed simp

text \<open>Recording a node that had no record yet, with the edges it lets through.\<close>

lemma same_node: "distinct (node_ids graph) \<Longrightarrow> node \<in> set (wg_nodes graph) \<Longrightarrow> n \<in> set (wg_nodes graph) \<Longrightarrow>
    wn_id n = wn_id node \<Longrightarrow> n = node"
  by (auto simp: distinct_map inj_on_def)

lemma routed_record:
  assumes r: "routed deps calls graph records active"
    and node: "node \<in> set (wg_nodes graph)" "distinct (node_ids graph)" "wn_id node \<notin> fst ` set records"
    and rec: "nr_status rec = ''skipped'' \<or> settled_record deps calls node rec \<and> is_active graph node active"
    and ext: "set active' \<subseteq> set active \<union> new" "set active \<subseteq> set active'"
    and new: "\<And>i. i \<in> new \<Longrightarrow> nr_status rec = ''ok'' \<and>
      (\<exists>e \<in> set (wg_edges graph). we_id e = i \<and> we_source e = wn_id node \<and> edge_state node rec e = ''traversed'')"
  shows "routed deps calls graph (AList.update (wn_id node) rec records) active'"
proof -
  have m: "map_of (AList.update (wn_id node) rec records) i = (if i = wn_id node then Some rec else map_of records i)" for i
    by (simp add: update_conv')
  have keep: "lets_through graph (AList.update (wn_id node) rec records) e" if "lets_through graph records e" for e
    using that node(3) unfolding lets_through_def m by (metis domI dom_map_of_conv_image_fst)
  have own: "lets_through graph (AList.update (wn_id node) rec records) e"
    if "nr_status rec = ''ok''" "we_source e = wn_id node" "edge_state node rec e = ''traversed''" for e
    using that node(1) traversed_allows unfolding lets_through_def m by auto
  have "\<exists>e \<in> set (wg_edges graph). we_id e = i \<and> lets_through graph (AList.update (wn_id node) rec records) e"
    if "i \<in> set active'" for i
  proof -
    from that ext(1) have "i \<in> set active \<or> i \<in> new" by blast
    then show ?thesis
    proof
      assume "i \<in> set active"
      with r keep show ?thesis unfolding routed_def by blast
    next
      assume "i \<in> new"
      with new own show ?thesis by blast
    qed
  qed
  moreover have "nr_status r' = ''skipped'' \<or> settled_record deps calls n r' \<and> is_active graph n active'"
    if "n \<in> set (wg_nodes graph)" "map_of (AList.update (wn_id node) rec records) (wn_id n) = Some r'" for n r'
  proof (cases "wn_id n = wn_id node")
    case True
    with same_node [OF node(2,1) that(1)] that rec m show ?thesis by (auto intro: active_mono [OF _ ext(2)])
  next
    case False
    with that m have "map_of records (wn_id n) = Some r'" by simp
    with r that(1) have "nr_status r' = ''skipped'' \<or> settled_record deps calls n r' \<and> is_active graph n active"
      unfolding routed_def by blast
    then show ?thesis by (auto intro: active_mono [OF _ ext(2)])
  qed
  ultimately show ?thesis unfolding routed_def by blast
qed

lemma routed_later: "routed deps calls graph records active \<Longrightarrow> prefix calls calls' \<Longrightarrow> routed deps calls' graph records active"
  unfolding routed_def using settled_later by blast

lemma fail_closed_record:
  assumes f: "fail_closed graph records degraded"
    and node: "node \<in> set (wg_nodes graph)" "distinct (node_ids graph)" "wn_id node \<notin> fst ` set records"
    and new: "if nr_status rec = ''error'' then is_optional node \<and> degraded' = degraded @ [wn_id node] else degraded' = degraded"
  shows "fail_closed graph (AList.update (wn_id node) rec records) degraded'"
proof -
  have m: "map_of (AList.update (wn_id node) rec records) i = (if i = wn_id node then Some rec else map_of records i)" for i
    by (simp add: update_conv')
  have none: "map_of records (wn_id node) = None" using node(3) by (simp add: map_of_eq_None_iff)
  then have "wn_id node \<notin> set degraded" using f by (simp add: fail_closed_def)
  with f new same_node [OF node(2,1)] none show ?thesis
    unfolding fail_closed_def m by (cases "nr_status rec = ''error''") auto
qed

section \<open>The loop\<close>

definition step_inv :: "GraphRunDeps \<Rightarrow> HostCall list \<Rightarrow> WorkflowGraph \<Rightarrow> GraphState \<Rightarrow> bool" where
  "step_inv deps calls graph gs \<longleftrightarrow>
     routed deps calls graph (gs_records gs) (gs_active gs) \<and> fail_closed graph (gs_records gs) (gs_degraded gs)"

text \<open>What every outcome of a run says of its records.\<close>

definition outcome_ok :: "GraphRunDeps \<Rightarrow> HostCall list \<Rightarrow> WorkflowGraph \<Rightarrow> GraphRunResult \<Rightarrow> bool" where
  "outcome_ok deps calls graph res \<longleftrightarrow>
     (\<exists>active. routed deps calls graph (gr_nodes res) active) \<and>
     (case gr_degradedNodes res of
        Some degraded \<Rightarrow> gr_ok res \<and> gr_error res = None \<and> fail_closed graph (gr_nodes res) degraded
      | None \<Rightarrow> \<not> gr_ok res \<and> gr_error res \<noteq> None)"

lemma keys_update: "fst ` set (AList.update k v al) = insert k (fst ` set al)"
  by (induction al) auto

lemma settle_finished:
  assumes "nr_status rec \<noteq> ''error''"
  shows "\<exists>gs' st0 st''. settle_node deps graph order opts node gs (rec, ctx, st) = (Inr gs', st'')
    \<and> gs_records gs' = AList.update (wn_id node) rec (gs_records gs) \<and> gs_degraded gs' = gs_degraded gs
    \<and> gs_active gs' = fst (fold (take_edge deps (ro_executionId opts) node rec)
        (filter (\<lambda>e. we_source e = wn_id node) (wg_edges graph)) (gs_active gs, st0))"
proof -
  let ?st = "emit_loop deps (ro_executionId opts) node rec (emit_approval deps (ro_executionId opts) node rec st)"
  define gs1 where "gs1 = gs\<lparr>gs_records := AList.update (wn_id node) rec (gs_records gs),
    gs_ctx := ctx\<lparr>ic_nodes := AList.update (wn_id node) (nr_output rec) (ic_nodes ctx)\<rparr>\<rparr>"
  define gs2 where "gs2 = (case js_get (nr_output rec) ''text'' of
      JStr t \<Rightarrow> if wn_type node = ''output'' then gs1\<lparr>gs_finalOutput := Some t\<rparr> else gs1 | _ \<Rightarrow> gs1)"
  define after where "after = fold (take_edge deps (ro_executionId opts) node rec)
        (filter (\<lambda>e. we_source e = wn_id node) (wg_edges graph)) (gs_active gs2, ?st)"
  have g: "gs_records gs2 = AList.update (wn_id node) rec (gs_records gs)" "gs_degraded gs2 = gs_degraded gs"
    "gs_active gs2 = gs_active gs"
    by (simp_all add: gs2_def gs1_def split: js.split)
  have "settle_node deps graph order opts node gs (rec, ctx, st) = (Inr (gs2\<lparr>gs_active := fst after\<rparr>), snd after)"
    using assms unfolding settle_node_def Let_def prod.case after_def gs2_def gs1_def by (simp split: prod.split)
  with g show ?thesis by (auto simp: after_def)
qed

lemma step_inv_later: "step_inv deps calls graph gs \<Longrightarrow> prefix calls calls' \<Longrightarrow> step_inv deps calls' graph gs"
  unfolding step_inv_def using routed_later by blast

lemma settle_outcome:
  assumes i: "step_inv deps calls graph gs"
    and node: "node \<in> set (wg_nodes graph)" "distinct (node_ids graph)" "wn_id node \<notin> fst ` set (gs_records gs)"
    and rec: "settled_record deps calls node rec" "is_active graph node (gs_active gs)"
    and s: "settle_node deps graph order opts node gs (rec, ctx, st) = (out, st')"
  shows "case out of
      Inl res \<Rightarrow> outcome_ok deps calls graph res \<and> \<not> gr_ok res
    | Inr gs' \<Rightarrow> step_inv deps calls graph gs' \<and> fst ` set (gs_records gs') = insert (wn_id node) (fst ` set (gs_records gs))"
proof -
  let ?records = "AList.update (wn_id node) rec (gs_records gs)"
  have keys: "fst ` set ?records = insert (wn_id node) (fst ` set (gs_records gs))"
    by (rule keys_update)
  note r = i [unfolded step_inv_def, THEN conjunct1] and f = i [unfolded step_inv_def, THEN conjunct2]
  show ?thesis
  proof (cases "nr_status rec = ''error''")
    case True
    have same: "routed deps calls graph ?records (gs_active gs)"
      by (rule routed_record [OF r node, where new = "{}"]) (use rec in auto)
    show ?thesis
    proof (cases "is_optional node")
      case False
      with s True same show ?thesis by (auto simp: settle_node_def Let_def outcome_ok_def failed_result_def)
    next
      case opt: True
      then have "fail_closed graph ?records (gs_degraded gs @ [wn_id node])"
        using True by (intro fail_closed_record [OF f node]) simp
      with s True opt same keys show ?thesis by (auto simp: settle_node_def Let_def step_inv_def)
    qed
  next
    case False
    then have okr: "nr_status rec = ''ok''" using rec(1) by (simp add: settled_record_def)
    let ?es = "filter (\<lambda>e. we_source e = wn_id node) (wg_edges graph)"
    obtain gs' st0 where out: "out = Inr gs'" and gs': "gs_records gs' = ?records" "gs_degraded gs' = gs_degraded gs"
      "gs_active gs' = fst (fold (take_edge deps (ro_executionId opts) node rec) ?es (gs_active gs, st0))"
      using settle_finished [OF False, of deps graph order opts node gs ctx st] s by (metis Pair_inject)
    have a: "set (gs_active gs') = set (gs_active gs) \<union> we_id ` {e \<in> set ?es. edge_state node rec e = ''traversed''}"
      unfolding gs'(3) take_edges_active by simp
    have "routed deps calls graph ?records (gs_active gs')"
      by (rule routed_record [OF r node, where new = "we_id ` {e \<in> set ?es. edge_state node rec e = ''traversed''}"])
        (use rec a okr in auto)
    moreover have "fail_closed graph ?records (gs_degraded gs)"
      by (rule fail_closed_record [OF f node]) (simp add: False)
    ultimately show ?thesis using out gs' keys by (simp add: step_inv_def)
  qed
qed

lemma outcome_later: "outcome_ok deps calls graph res \<Longrightarrow> prefix calls calls' \<Longrightarrow> outcome_ok deps calls' graph res"
  unfolding outcome_ok_def using routed_later by blast

lemma settled_node_calls: "settle_node deps graph order opts node gs (rec, ctx, st) = (out, st') \<Longrightarrow> prefix (rs_calls st) (rs_calls st')"
  using settle_spends spends_calls by metis

context accounted_runner
begin

lemma step_outcome:
  assumes i: "step_inv deps (rs_calls st) graph gs"
    and node: "node \<in> set (wg_nodes graph)" "distinct (node_ids graph)" "wn_id node \<notin> fst ` set (gs_records gs)"
    and s: "node_step run_child deps graph order opts node gs st = (out, st')"
  shows "case out of
      Inl res \<Rightarrow> outcome_ok deps (rs_calls st') graph res \<and> \<not> gr_ok res
    | Inr gs' \<Rightarrow> step_inv deps (rs_calls st') graph gs' \<and> fst ` set (gs_records gs') = insert (wn_id node) (fst ` set (gs_records gs))"
proof (cases "is_active graph node (gs_active gs)")
  case False
  have "routed deps (rs_calls st) graph (AList.update (wn_id node) (skipped_record node) (gs_records gs)) (gs_active gs)"
    by (rule routed_record [OF i [unfolded step_inv_def, THEN conjunct1] node, where new = "{}"]) auto
  moreover have "fail_closed graph (AList.update (wn_id node) (skipped_record node) (gs_records gs)) (gs_degraded gs)"
    by (rule fail_closed_record [OF i [unfolded step_inv_def, THEN conjunct2] node]) simp
  moreover have "fst ` set (AList.update (wn_id node) (skipped_record node) (gs_records gs))
      = insert (wn_id node) (fst ` set (gs_records gs))" by (rule keys_update)
  moreover have "out = Inr (gs\<lparr>gs_records := AList.update (wn_id node) (skipped_record node) (gs_records gs)\<rparr>)" "st' = st"
    using s False by (simp_all add: node_step_def)
  ultimately show ?thesis by (simp add: step_inv_def)
next
  case True
  obtain aborted st1 where p: "poll_signal deps st = (aborted, st1)" by force
  have i': "step_inv deps (rs_calls st') graph gs"
    using i step_accounts [OF s] spends_calls step_inv_later by blast
  obtain rec ctx st2 where n: "run_node run_child deps node (upstream_of graph node gs) opts (gs_ctx gs)
      (st1\<lparr>rs_remaining := rs_remaining st1 - 1\<rparr>) = (rec, ctx, st2)" using prod_cases3 by blast
  show ?thesis
  proof (cases "aborted \<or> rs_remaining st1 \<le> 0")
    case stop: True
    with s p True obtain m where "out = Inl (failed_result order gs m)" by (auto simp: node_step_def split: if_splits)
    with i' show ?thesis by (auto simp: outcome_ok_def failed_result_def step_inv_def)
  next
    case False
    then have settle: "settle_node deps graph order opts node gs (rec, ctx, st2) = (out, st')"
      using s p n True by (simp add: node_step_def)
    have "settled_record deps (rs_calls st') node rec"
      using node_record [OF n] settled_node_calls [OF settle] by (rule settled_later)
    from settle_outcome [OF i' node this True settle] show ?thesis .
  qed
qed

lemma nodes_outcome:
  "run_nodes run_child deps graph order opts nodes gs st = (res, st') \<Longrightarrow> step_inv deps (rs_calls st) graph gs \<Longrightarrow>
   distinct (node_ids graph) \<Longrightarrow> set nodes \<subseteq> set (wg_nodes graph) \<Longrightarrow> distinct (map wn_id nodes) \<Longrightarrow>
   wn_id ` set nodes \<inter> fst ` set (gs_records gs) = {} \<Longrightarrow>
   outcome_ok deps (rs_calls st') graph res \<and>
   (gr_ok res \<longrightarrow> fst ` set (gr_nodes res) = wn_id ` set nodes \<union> fst ` set (gs_records gs))"
proof (induction nodes arbitrary: gs st)
  case Nil
  then show ?case by (auto simp: outcome_ok_def step_inv_def)
next
  case (Cons node nodes)
  obtain out st1 where n: "node_step run_child deps graph order opts node gs st = (out, st1)" by force
  have o: "case out of Inl res \<Rightarrow> outcome_ok deps (rs_calls st1) graph res \<and> \<not> gr_ok res
    | Inr gs' \<Rightarrow> step_inv deps (rs_calls st1) graph gs' \<and> fst ` set (gs_records gs') = insert (wn_id node) (fst ` set (gs_records gs))"
    by (rule step_outcome [OF Cons.prems(2) _ Cons.prems(3) _ n]) (use Cons.prems in auto)
  show ?case
  proof (cases out)
    case (Inl r)
    with Cons.prems(1) n o show ?thesis by (auto simp: outcome_ok_def split: option.splits)
  next
    case (Inr gs')
    with Cons.prems(1) n have "run_nodes run_child deps graph order opts nodes gs' st1 = (res, st')" by simp
    from Cons.IH [OF this] Cons.prems o Inr show ?thesis by auto
  qed
qed

end

lemma find_node: "i \<in> wn_id ` set nodes \<Longrightarrow> \<exists>n. find (\<lambda>n. wn_id n = i) nodes = Some n \<and> n \<in> set nodes \<and> wn_id n = i"
  by (induction nodes) auto

lemma ids_in_order: "set order \<subseteq> set (node_ids graph) \<Longrightarrow> map wn_id (nodes_in_order graph order) = order"
  and nodes_in_order: "set (nodes_in_order graph order) \<subseteq> set (wg_nodes graph)"
proof -
  show "set order \<subseteq> set (node_ids graph) \<Longrightarrow> map wn_id (nodes_in_order graph order) = order"
  proof (induction order)
    case (Cons i order)
    then obtain n where "find (\<lambda>n. wn_id n = i) (wg_nodes graph) = Some n" "wn_id n = i"
      using find_node [of i "wg_nodes graph"] by auto
    with Cons show ?case by (simp add: nodes_in_order_def)
  qed (simp add: nodes_in_order_def)
  show "set (nodes_in_order graph order) \<subseteq> set (wg_nodes graph)"
    by (auto simp: nodes_in_order_def split: option.splits) (metis find_Some_iff nth_mem)
qed

lemma initial_step_inv: "step_inv deps calls graph (initial_graph_state graph)"
  by (simp add: step_inv_def routed_def fail_closed_def initial_graph_state_def)

text \<open>What a graph answers with: a graph that does not validate runs nothing and says why.\<close>

definition answered :: "GraphRunDeps \<Rightarrow> WorkflowGraph \<Rightarrow> HostCall list \<Rightarrow> GraphRunResult \<Rightarrow> bool" where
  "answered deps graph calls res \<longleftrightarrow>
     (if validateGraph graph = []
      then outcome_ok deps calls graph res \<and> (gr_ok res \<longrightarrow> fst ` set (gr_nodes res) = set (node_ids graph))
      else \<not> gr_ok res \<and> gr_nodes res = [] \<and> gr_order res = [] \<and> gr_degradedNodes res = None
        \<and> gr_error res = Some (js_join ''; '' (validateGraph graph)))"

context accounted_runner
begin

lemma graph_outcome:
  assumes "run_graph_with run_child deps graph opts st = (out, st')"
  shows "\<exists>res. out = Inr res \<and> answered deps graph (rs_calls st') res"
proof (cases "validateGraph graph = []")
  case False
  with assms show ?thesis by (auto simp: run_graph_with_def answered_def Let_def)
next
  case True
  then obtain order where o: "topoOrder graph = Inr order" "distinct order" "set order = set (node_ids graph)"
    using topoOrder_correct [of graph] by (auto simp: validateGraph_iff)
  obtain res st1 where r: "run_nodes run_child deps graph order opts (nodes_in_order graph order)
      (initial_graph_state graph) st = (res, st1)" by force
  have ids: "map wn_id (nodes_in_order graph order) = order" using o(3) by (intro ids_in_order) simp
  have "outcome_ok deps (rs_calls st1) graph res \<and> (gr_ok res \<longrightarrow> fst ` set (gr_nodes res) =
      wn_id ` set (nodes_in_order graph order) \<union> fst ` set (gs_records (initial_graph_state graph)))"
    by (rule nodes_outcome [OF r initial_step_inv _ nodes_in_order])
      (use True ids o(2) in \<open>auto simp: validateGraph_iff initial_graph_state_def\<close>)
  moreover have "wn_id ` set (nodes_in_order graph order) = set (node_ids graph)"
    using ids o(3) by (metis list.set_map)
  moreover have "gs_records (initial_graph_state graph) = []" by (simp add: initial_graph_state_def)
  moreover have "out = Inr res" "st' = st1" using assms True o(1) r by (simp_all add: run_graph_with_def Let_def)
  ultimately show ?thesis using True by (simp add: answered_def)
qed

end

lemma no_child_accounted: "accounted_runner (\<lambda>graph opts st. (Inl [], st)) deps"
  by unfold_locales simp

lemma internal_outcome:
  "runGraphInternal deps level graph opts st = (out, st') \<Longrightarrow> \<exists>res. out = Inr res \<and> answered deps graph (rs_calls st') res"
proof (cases level)
  case 0
  assume "runGraphInternal deps level graph opts st = (out, st')"
  with 0 have "run_graph_with (\<lambda>graph opts st. (Inl [], st)) deps graph opts st = (out, st')" by simp
  from accounted_runner.graph_outcome [OF no_child_accounted this] show ?thesis .
next
  case (Suc l)
  assume "runGraphInternal deps level graph opts st = (out, st')"
  with Suc have "run_graph_with (runGraphInternal deps l) deps graph opts st = (out, st')" by simp
  from level_runner.graph_outcome [OF this] show ?thesis .
qed

lemma runGraph_outcome:
  assumes "runGraph graph deps = (out, st)"
  shows "\<exists>res. out = Inr res \<and> answered deps graph (rs_calls st) res"
proof -
  let ?opts = "\<lparr>ro_depth = 0, ro_stack = (if graphKey graph = [] then [] else [graphKey graph]),
    ro_executionId = execution_id graph deps\<rparr>"
  obtain o1 st1 where i: "runGraphInternal deps MAX_SUBWORKFLOW_DEPTH graph ?opts
      (emit deps (execution_id graph deps) (no_emission\<lparr>ge_status := Some ''running''\<rparr>) (initial_run_state deps)) = (o1, st1)"
    by force
  with assms have "out = o1" "rs_calls st = rs_calls st1" by (auto simp: runGraph_def Let_def split: sum.splits)
  with internal_outcome [OF i] show ?thesis by simp
qed

lemma led_to:
  assumes "outcome_ok deps calls graph res" "distinct (map we_id (wg_edges graph))" "n \<in> set (wg_nodes graph)"
    and "map_of (gr_nodes res) (wn_id n) = Some r" "nr_status r \<noteq> ''skipped''" "wn_type n \<noteq> ''trigger''"
  shows "\<exists>e \<in> set (wg_edges graph). we_target e = wn_id n \<and> lets_through graph (gr_nodes res) e"
proof -
  obtain active where a: "routed deps calls graph (gr_nodes res) active" using assms(1) by (auto simp: outcome_ok_def)
  then have "is_active graph n active" using assms(3-5) unfolding routed_def by blast
  then obtain e where e: "e \<in> set (wg_edges graph)" "we_target e = wn_id n" "we_id e \<in> set active"
    using assms(6) by (auto simp: is_active_def incoming_def list_ex_iff)
  then obtain e' where e': "e' \<in> set (wg_edges graph)" "we_id e' = we_id e" "lets_through graph (gr_nodes res) e'"
    using a unfolding routed_def by blast
  with e assms(2) have "e' = e" by (auto simp: distinct_map inj_on_def)
  with e e' show ?thesis by blast
qed

lemma outcome_record:
  assumes "outcome_ok deps calls graph res" "n \<in> set (wg_nodes graph)" "map_of (gr_nodes res) (wn_id n) = Some r"
  shows "nr_status r = ''skipped'' \<or> settled_record deps calls n r"
  using assms unfolding outcome_ok_def routed_def by blast

lemma recorded_validates:
  "runGraph graph deps = (Inr res, st) \<Longrightarrow> map_of (gr_nodes res) i = Some r \<Longrightarrow>
   validateGraph graph = [] \<and> outcome_ok deps (rs_calls st) graph res"
  using runGraph_outcome [of graph deps] by (auto simp: answered_def split: if_splits)

text \<open>
  C15. Every workflow is answered: \<open>runGraph\<close> never throws. A graph that does not validate is not ok,
  runs no node and reports every finding of the validation. For a graph that validates, a run that
  is ok has a record for every node of the graph, no error, and lists as degraded exactly its failed
  nodes, each of them marked optional; and a run that is not ok says why and lists no degraded nodes.
\<close>

theorem every_run_is_answered:
  "\<exists>res. fst (runGraph graph deps) = Inr res \<and>
     (if validateGraph graph \<noteq> []
      then \<not> gr_ok res \<and> gr_nodes res = [] \<and> gr_error res = Some (js_join ''; '' (validateGraph graph))
      else if gr_ok res
      then gr_error res = None \<and> fst ` set (gr_nodes res) = set (node_ids graph) \<and>
        (\<exists>degraded. gr_degradedNodes res = Some degraded \<and> fail_closed graph (gr_nodes res) degraded)
      else gr_error res \<noteq> None \<and> gr_degradedNodes res = None)"
proof -
  obtain out st where r: "runGraph graph deps = (out, st)" by force
  from runGraph_outcome [OF r] show ?thesis
    by (auto simp: r answered_def outcome_ok_def split: if_splits option.splits)
qed

text \<open>
  C16. No node runs out of turn: when the edge ids are distinct, a node that is not a trigger and
  has run (or failed) was led to by an edge of the graph whose source finished successfully, whose
  branch label is the branch the source took, and which no rejected approval closed.
\<close>

theorem nodes_run_only_when_led_to:
  assumes "runGraph graph deps = (Inr res, st)" "distinct (map we_id (wg_edges graph))"
    and "n \<in> set (wg_nodes graph)" "wn_type n \<noteq> ''trigger''"
    and "map_of (gr_nodes res) (wn_id n) = Some r" "nr_status r \<noteq> ''skipped''"
  shows "\<exists>e \<in> set (wg_edges graph). we_target e = wn_id n \<and> lets_through graph (gr_nodes res) e"
proof -
  have "outcome_ok deps (rs_calls st) graph res" using recorded_validates [OF assms(1,5)] by blast
  from led_to [OF this assms(2,3,5,6,4)] show ?thesis .
qed

section \<open>Approvals on the way\<close>

text \<open>The edges of a way from one node to another.\<close>

fun edge_path :: "WorkflowGraph \<Rightarrow> string \<Rightarrow> WorkflowEdge list \<Rightarrow> string \<Rightarrow> bool" where
  "edge_path graph i [] j \<longleftrightarrow> i = j"
| "edge_path graph i (e # es) j \<longleftrightarrow> e \<in> set (wg_edges graph) \<and> we_source e = i \<and> edge_path graph (we_target e) es j"

lemma edge_path_snoc:
  "edge_path graph i (es @ [e]) j \<longleftrightarrow> edge_path graph i es (we_source e) \<and> e \<in> set (wg_edges graph) \<and> we_target e = j"
  by (induction es arbitrary: i) auto

text \<open>The approval node passed in this run: its record says so, and the host had answered yes.\<close>

definition approved_in_run ::
  "GraphRunDeps \<Rightarrow> HostCall list \<Rightarrow> (string \<times> NodeRunRecord) list \<Rightarrow> WorkflowNode \<Rightarrow> bool"
where
  "approved_in_run deps calls records a \<longleftrightarrow>
     (\<exists>r. map_of records (wn_id a) = Some r \<and> nr_status r = ''ok'' \<and> js_get (nr_output r) ''approved'' = JBool True)
     \<and> granted deps calls a"

lemma let_through_approved:
  assumes o: "outcome_ok deps calls graph res" and d: "distinct (node_ids graph)"
    and e: "lets_through graph (gr_nodes res) e"
    and a: "a \<in> set (wg_nodes graph)" "wn_id a = we_source e" "wn_type a = ''approval''"
  shows "approved_in_run deps calls (gr_nodes res) a"
proof -
  obtain m r where m: "m \<in> set (wg_nodes graph)" "wn_id m = we_source e"
    "map_of (gr_nodes res) (wn_id m) = Some r" "allows m r e"
    using e unfolding lets_through_def by blast
  then have "m = a" using same_node [OF d a(1) m(1)] a(2) by simp
  with m a(3) have r: "nr_status r = ''ok''" "js_get (nr_output r) ''approved'' \<noteq> JBool False"
    by (simp_all add: allows_def)
  with outcome_record [OF o m(1,3)] a(3) \<open>m = a\<close> have "approval_answer deps calls a r"
    by (auto simp: settled_record_def)
  with r m(3) \<open>m = a\<close> show ?thesis by (auto simp: approval_answer_def approved_in_run_def)
qed

lemma led_from_trigger:
  assumes o: "outcome_ok deps calls graph res" and v: "validateGraph graph = []"
    and d: "distinct (map we_id (wg_edges graph))"
  shows "n \<in> set (wg_nodes graph) \<Longrightarrow> map_of (gr_nodes res) (wn_id n) = Some r \<Longrightarrow> nr_status r \<noteq> ''skipped'' \<Longrightarrow>
    \<exists>t p. t \<in> set (wg_nodes graph) \<and> wn_type t = ''trigger'' \<and> edge_path graph (wn_id t) p (wn_id n)
      \<and> (\<forall>e \<in> set p. lets_through graph (gr_nodes res) e)"
proof -
  have "finite (edge_rel graph)" by (simp add: edge_rel_def)
  then have wf: "wf (edge_rel graph)" using v by (simp add: validateGraph_iff finite_acyclic_wf)
  show "n \<in> set (wg_nodes graph) \<Longrightarrow> map_of (gr_nodes res) (wn_id n) = Some r \<Longrightarrow> nr_status r \<noteq> ''skipped'' \<Longrightarrow> ?thesis"
  proof (induction "wn_id n" arbitrary: n r rule: wf_induct_rule [OF wf])
    case (1 n r)
    show ?case
    proof (cases "wn_type n = ''trigger''")
      case True
      with "1.prems"(1) show ?thesis by (intro exI [of _ n] exI [of _ "[]"]) simp
    next
      case False
      obtain e where e: "e \<in> set (wg_edges graph)" "we_target e = wn_id n" "lets_through graph (gr_nodes res) e"
        using led_to [OF o d "1.prems" False] by blast
      then obtain m rm where m: "m \<in> set (wg_nodes graph)" "wn_id m = we_source e"
        "map_of (gr_nodes res) (wn_id m) = Some rm" "nr_status rm \<noteq> ''skipped''"
        unfolding lets_through_def allows_def by auto
      have "(wn_id m, wn_id n) \<in> edge_rel graph"
        using e(1,2) m(1) by (auto simp: edge_rel_def m(2) intro!: exI [of _ e] image_eqI [of _ wn_id m])
      from "1.hyps" [OF this m(1,3,4)] obtain t p where
        "t \<in> set (wg_nodes graph)" "wn_type t = ''trigger''" "edge_path graph (wn_id t) p (wn_id m)"
        "\<forall>e \<in> set p. lets_through graph (gr_nodes res) e" by blast
      with e m(2) show ?thesis
        by (intro exI [of _ t] exI [of _ "p @ [e]"]) (auto simp: edge_path_snoc)
    qed
  qed
qed

text \<open>
  C17. An approval is a gate. When the edge ids are distinct, every node that has run (or failed)
  was reached from a trigger along a way of edges that each let the run through, and every approval
  node such an edge leaves was approved in this very run: its record says so, and the host, asked
  about it during the run, had answered yes, or the host has no approver and had allowed unattended
  approval. So a node that every way reaches only through approval nodes runs only behind one that
  was approved.
\<close>

theorem approval_gates_what_follows:
  assumes "runGraph graph deps = (Inr res, st)" "distinct (map we_id (wg_edges graph))"
    and "n \<in> set (wg_nodes graph)" "map_of (gr_nodes res) (wn_id n) = Some r" "nr_status r \<noteq> ''skipped''"
  shows "\<exists>t p. t \<in> set (wg_nodes graph) \<and> wn_type t = ''trigger'' \<and> edge_path graph (wn_id t) p (wn_id n)
    \<and> (\<forall>e \<in> set p. lets_through graph (gr_nodes res) e
         \<and> (\<forall>a \<in> set (wg_nodes graph). wn_id a = we_source e \<longrightarrow> wn_type a = ''approval'' \<longrightarrow>
              approved_in_run deps (rs_calls st) (gr_nodes res) a))"
proof -
  have v: "validateGraph graph = []" and o: "outcome_ok deps (rs_calls st) graph res"
    using recorded_validates [OF assms(1,4)] by simp_all
  have d: "distinct (node_ids graph)" using v by (simp add: validateGraph_iff)
  from led_from_trigger [OF o v assms(2-5)] let_through_approved [OF o d] show ?thesis by metis
qed

text \<open>The branch for a rejection is never taken: a rejected approval closes every edge that leaves it.\<close>

lemma rejected_branch_never_taken:
  assumes "wn_type node = ''approval''" "settled_record deps calls node r" "nr_status r = ''ok''"
    and "we_sourceHandle e = Some ''rejected''"
  shows "edge_state node r e \<noteq> ''traversed''"
proof -
  obtain b where "js_get (nr_output r) ''approved'' = JBool b" "nr_branch r = Some (if b then ''approved'' else ''rejected'')"
    using assms(1-3) by (auto simp: settled_record_def approval_answer_def)
  with assms(1,4) show ?thesis by (cases b) (auto simp: edge_state_def approval_rejected_def)
qed

section \<open>The depth guard\<close>

lemma deep_sub: "ro_depth opts \<ge> MAX_SUBWORKFLOW_DEPTH \<Longrightarrow>
    runSubWorkflow f deps node ctx opts st = runSubWorkflow g deps node ctx opts st"
  by (simp add: runSubWorkflow_def Let_def split: option.split)

lemma deep_attempt: "ro_depth opts \<ge> MAX_SUBWORKFLOW_DEPTH \<Longrightarrow>
    run_attempt f deps node upstream opts attempt ctx st = run_attempt g deps node upstream opts attempt ctx st"
  by (simp add: run_attempt_def deep_sub [of opts f deps node ctx st g])

lemma deep_retries: "ro_depth opts \<ge> MAX_SUBWORKFLOW_DEPTH \<Longrightarrow>
    run_retries f deps node upstream opts left attempt rec ctx st = run_retries g deps node upstream opts left attempt rec ctx st"
  by (induction left arbitrary: attempt rec ctx st)
    (simp_all add: deep_attempt [of opts f deps _ _ _ _ _ g] split: prod.split)

lemma deep_nodes: "ro_depth opts \<ge> MAX_SUBWORKFLOW_DEPTH \<Longrightarrow>
    run_nodes f deps graph order opts nodes gs st = run_nodes g deps graph order opts nodes gs st"
  by (induction nodes arbitrary: gs st)
    (simp_all add: node_step_def run_node_def deep_attempt [of opts f deps _ _ _ _ _ g]
      deep_retries [of opts f deps _ _ _ _ _ _ _ g] split: prod.split sum.split)

text \<open>
  Nesting ends: in a graph at the deepest level (\<open>MAX_SUBWORKFLOW_DEPTH\<close>) nothing depends on how
  a child would be run, so the runner below it is never used.
\<close>

theorem nesting_ends_at_the_guard:
  assumes "ro_depth opts \<ge> MAX_SUBWORKFLOW_DEPTH"
  shows "run_graph_with f deps graph opts st = run_graph_with g deps graph opts st"
  using deep_nodes [OF assms, of f deps graph _ _ _ _ g]
  by (simp add: run_graph_with_def Let_def split: sum.split)

theorem nesting_ends_at_the_guard_witness:
  "\<forall>deps graph st.
     run_graph_with (\<lambda>_ _ st. (Inl ''a'', st)) deps graph \<lparr>ro_depth = 8, ro_stack = [], ro_executionId = []\<rparr> st
     = run_graph_with (\<lambda>_ _ st. (Inl ''b'', st)) deps graph \<lparr>ro_depth = 8, ro_stack = [], ro_executionId = []\<rparr> st"
  by (intro allI nesting_ends_at_the_guard) (simp add: MAX_SUBWORKFLOW_DEPTH_def)

end
