(* ===== verification/WorkflowMap.thy ===== *)
theory WorkflowMap
  imports WorkflowBudget WorkflowRouting ExecutionSpec
begin

text \<open>
  A run on the execution map, \<open>packages/core/src/orchestration/execution/graphAdapter.ts\<close>: the
  engine's emissions become canonical events, and the events are projected by the reducer. What
  the map says of a finished run is derived from the two sides: the numbering of the engine
  (\<open>runGraph_spends\<close>) and the specification of the store (\<open>store_spec\<close>). The durable record of a run
  is not modelled; the adapter is the one without a workspace.
\<close>

section \<open>The adapter\<close>

definition optional_field :: "string \<Rightarrow> ('a \<Rightarrow> js) \<Rightarrow> 'a option \<Rightarrow> (string \<times> js) list" where
  "optional_field name f v = (case v of Some x \<Rightarrow> [(name, f x)] | None \<Rightarrow> [])"

definition emission_payload :: "GraphExecutionEmission \<Rightarrow> js" where
  "emission_payload e =
     JObj (optional_field ''nodeId'' JStr (ge_nodeId e)
       @ optional_field ''attempt'' js_int (ge_attempt e)
       @ optional_field ''iterationPath'' (\<lambda>path. JArr (map js_int path)) (ge_iterationPath e)
       @ optional_field ''status'' JStr (ge_status e)
       @ optional_field ''edgeId'' JStr (ge_edgeId e)
       @ optional_field ''edgeState'' JStr (ge_edgeState e)
       @ optional_field ''decision''
           (\<lambda>d. JObj [(''kind'', JStr (ge_kind d)), (''outcome'', JStr (ge_outcome d)),
                      (''reasonCodes'', JArr (map JStr (ge_decisionCodes d)))]) (ge_decision e)
       @ optional_field ''reasonCodes'' (\<lambda>codes. JArr (map JStr codes)) (ge_reasonCodes e)
       @ optional_field ''loopBudget''
           (\<lambda>b. JObj [(''nodeId'', JStr (ge_loopNode b)), (''declared'', JNum (Fin (of_int (ge_declared b)))),
                      (''observed'', js_number (ge_observed b))]) (ge_loopBudget e))"

definition toExecutionEvent :: "GraphExecutionEmission \<Rightarrow> string \<Rightarrow> string \<Rightarrow> string option \<Rightarrow> ExecutionEvent" where
  "toExecutionEvent e sessionKey emittedAt goalId =
     \<lparr>ev_eventId = ge_executionId e @ '':'' @ show_int (ge_executionSequence e),
      ev_executionId = ge_executionId e, ev_executionSequence = ge_executionSequence e,
      ev_sessionKey = sessionKey, ev_goalId = goalId, ev_emittedAt = emittedAt,
      ev_nodeExecutionId = ge_nodeId e, ev_payload = emission_payload e\<rparr>"

record CanonicalGraphRunInput =
  ci_graph :: WorkflowGraph
  ci_deps :: GraphRunDeps
  ci_executionId :: string
  ci_sessionKey :: string
  ci_goalId :: "string option"
  ci_startedAt :: string

definition projectExecutionEvents :: "string \<Rightarrow> ExecutionEvent list \<Rightarrow> ExecutionSnapshot option" where
  "projectExecutionEvents executionId events = snapshot executionId (reduceExecutionEvents events)"

definition runGraphAsCanonicalExecution ::
  "CanonicalGraphRunInput \<Rightarrow> (string + GraphRunResult) \<times> ExecutionSnapshot option"
where
  "runGraphAsCanonicalExecution inp =
     (let (out, st) = runGraph (ci_graph inp)
            ((ci_deps inp)\<lparr>gd_emitExecution := True, gd_executionId := Some (ci_executionId inp)\<rparr>);
          events = map (\<lambda>e. toExecutionEvent e (ci_sessionKey inp) (ci_startedAt inp) (ci_goalId inp)) (rs_emitted st)
      in (out, projectExecutionEvents (ci_executionId inp) events))"

section \<open>The events of a run\<close>

lemma map_of_optional [simp]:
  "map_of (optional_field name f v @ rest) k =
     (if name = k then (case v of Some x \<Rightarrow> Some (f x) | None \<Rightarrow> map_of rest k) else map_of rest k)"
  "map_of (optional_field name f v) k = (if name = k then map_option f v else None)"
  by (auto simp: optional_field_def split: option.splits)

lemma payload_fields [simp]:
  "js_get (emission_payload e) ''nodeId'' = (case ge_nodeId e of Some i \<Rightarrow> JStr i | None \<Rightarrow> JUndefined)"
  "js_get (emission_payload e) ''status'' = (case ge_status e of Some i \<Rightarrow> JStr i | None \<Rightarrow> JUndefined)"
  "js_get (emission_payload e) ''reasonCodes'' =
     (case ge_reasonCodes e of Some codes \<Rightarrow> JArr (map JStr codes) | None \<Rightarrow> JUndefined)"
  by (simp_all add: emission_payload_def js_get_def option.case_eq_if option.map_sel del: map_of_append)

lemma has_optional [simp]:
  "k \<in> fst ` set (optional_field name f v @ rest) \<longleftrightarrow> name = k \<and> v \<noteq> None \<or> k \<in> fst ` set rest"
  "k \<in> fst ` set (optional_field name f v) \<longleftrightarrow> name = k \<and> v \<noteq> None"
  by (auto simp: optional_field_def split: option.splits)

lemma payload_has_node [simp]: "js_has (emission_payload e) ''nodeId'' \<longleftrightarrow> ge_nodeId e \<noteq> None"
  by (simp add: emission_payload_def js_has_def del: set_append image_Un)

text \<open>The status of the projection follows the emissions that speak of the run, and no other.\<close>

lemma extras_keep [simp]:
  "pj_status (project_extras event p) = pj_status p"
  "pj_terminalReasonCodes (project_extras event p) = pj_terminalReasonCodes p"
  by (simp_all add: project_extras_def project_loop_def project_traversal_def project_decision_def Let_def
      split: option.split)

lemma occurrence_keeps [simp]:
  "pj_status (project_occurrence event nodeId p) = pj_status p"
  "pj_terminalReasonCodes (project_occurrence event nodeId p) = pj_terminalReasonCodes p"
  by (simp_all add: project_occurrence_def Let_def split: prod.split)



lemma strings_in_texts [simp]: "strings_in (map JStr xs) = xs"
  by (induction xs) (simp_all add: strings_in_def)



section \<open>The map of a finished run\<close>


















section \<open>Concrete runs\<close>

text \<open>A host whose agents answer with their prompt, whose approver says yes, and no JSON texts.\<close>

definition demo_platform :: Platform where
  "demo_platform =
     \<lparr>pf_parse = (\<lambda>_. None), pf_stringify = (\<lambda>_. ''{}''), pf_number = (\<lambda>_. ''0''), pf_localeCompare = (\<lambda>_ _. 0)\<rparr>"

definition demo_deps :: GraphRunDeps where
  "demo_deps =
     \<lparr>gd_platform = demo_platform, gd_runAgent = (\<lambda>_ prompt _. Inr prompt), gd_loadSubWorkflow = None,
      gd_requestApproval = Some (\<lambda>_ _ _. Inr True), gd_allowUnattendedApproval = False, gd_executionBudget = None,
      gd_aborted = (\<lambda>_. False), gd_emitExecution = True, gd_executionId = Some ''x''\<rparr>"

definition step_node :: "string \<Rightarrow> string \<Rightarrow> (string \<times> js) list \<Rightarrow> WorkflowNode" where
  "step_node i t entries = \<lparr>wn_id = i, wn_type = t, wn_data = JObj entries\<rparr>"

definition step_edge :: "string \<Rightarrow> string \<Rightarrow> string \<Rightarrow> string option \<Rightarrow> WorkflowEdge" where
  "step_edge i s t h = \<lparr>we_id = i, we_source = s, we_target = t, we_sourceHandle = h\<rparr>"

definition step_graph :: "WorkflowNode list \<Rightarrow> WorkflowEdge list \<Rightarrow> WorkflowGraph" where
  "step_graph nodes edges =
     \<lparr>wg_id = Some ''g'', wg_name = None, wg_nodes = nodes, wg_edges = edges, wg_vars = []\<rparr>"

definition demo_input :: "WorkflowGraph \<Rightarrow> CanonicalGraphRunInput" where
  "demo_input graph =
     \<lparr>ci_graph = graph, ci_deps = demo_deps, ci_executionId = ''x'', ci_sessionKey = ''chat'', ci_goalId = None,
      ci_startedAt = ''t''\<rparr>"

text \<open>A trigger, an approval and an agent behind it.\<close>

definition gated_graph :: WorkflowGraph where
  "gated_graph =
     step_graph [step_node ''t'' ''trigger'' [], step_node ''ok'' ''approval'' [], step_node ''a'' ''agent'' [(''prompt'', JStr ''go'')]]
       [step_edge ''e1'' ''t'' ''ok'' None, step_edge ''e2'' ''ok'' ''a'' (Some ''approved'')]"

definition statuses_of :: "(string + GraphRunResult) \<times> 'a \<Rightarrow> (string \<times> string) list" where
  "statuses_of out =
     (case fst out of Inr res \<Rightarrow> map (\<lambda>(i, r). (i, nr_status r)) (gr_nodes res) | Inl _ \<Rightarrow> [])"

lemma gated_run: "statuses_of (runGraph gated_graph demo_deps) = [(''t'', ''ok''), (''ok'', ''ok''), (''a'', ''ok'')]"
  by code_simp

text \<open>The approval node of that run, which succeeded, is left running on the map: its decision names it without a status.\<close>

lemma decision_reopens_its_node:
  "map_option (\<lambda>sn. (sn_status sn, map (\<lambda>oc. (no_nodeId oc, no_status oc)) (sn_occurrences sn)))
     (snd (runGraphAsCanonicalExecution (demo_input gated_graph)))
   = Some (''succeeded'', [(''t'', ''succeeded''), (''ok'', ''running''), (''a'', ''succeeded'')])"
  by code_simp

text \<open>Two edges with one id pass validation, and the branch that was not taken runs too.\<close>

lemma shared_edge_id_runs_both_branches:
  "let graph = step_graph
      [step_node ''t'' ''trigger'' [], step_node ''c'' ''condition'' [(''left'', JStr ''1''), (''right'', JStr ''1'')],
       step_node ''yes'' ''set'' [], step_node ''no'' ''set'' []]
      [step_edge ''e1'' ''t'' ''c'' None, step_edge ''e2'' ''c'' ''yes'' (Some ''true''), step_edge ''e2'' ''c'' ''no'' (Some ''false'')]
   in validateGraph graph = [] \<and> statuses_of (runGraph graph demo_deps) =
        [(''t'', ''ok''), (''c'', ''ok''), (''yes'', ''ok''), (''no'', ''ok'')]"
  by code_simp

text \<open>A run with a failed optional node is ok and degraded; the map calls it succeeded.\<close>

lemma degraded_run_shown_as_succeeded:
  "let inp = demo_input (step_graph
      [step_node ''t'' ''trigger'' [], step_node ''s'' ''subworkflow'' [(''optional'', JBool True)]] [step_edge ''e1'' ''t'' ''s'' None])
   in (case fst (runGraphAsCanonicalExecution inp) of Inr res \<Rightarrow> gr_degradedNodes res | Inl _ \<Rightarrow> None) = Some [''s'']
      \<and> map_option sn_status (snd (runGraphAsCanonicalExecution inp)) = Some ''succeeded''"
  by code_simp

text \<open>A graph that does not validate ends with the code for anything unrecognised.\<close>

lemma invalid_graph_has_the_generic_code:
  "map_option sn_terminalReasonCodes (snd (runGraphAsCanonicalExecution (demo_input (step_graph [] [])))) = Some [''error'']"
  by code_simp

text \<open>The iterations of a loop do not draw from the budget: two units pay for one trigger and seven agent calls.\<close>

lemma loop_iterations_are_free:
  "let graph = step_graph
      [step_node ''t'' ''trigger'' [],
       step_node ''l'' ''loop'' [(''mode'', JStr ''refine''), (''prompt'', JStr ''go''), (''maxIterations'', JNum (Fin 7))]]
      [step_edge ''e1'' ''t'' ''l'' None];
     out = runGraph graph (demo_deps\<lparr>gd_executionBudget := Some 2\<rparr>)
   in statuses_of out = [(''t'', ''ok''), (''l'', ''ok'')] \<and> agent_calls (snd out) = 7 \<and> rs_remaining (snd out) = 0"
  by code_simp

text \<open>
  Two sub-workflow nodes running one saved graph: its node ran twice and is one occurrence, because
  the iteration path of a nested node is its depth alone.
\<close>

lemma siblings_share_an_occurrence:
  "let child = step_graph [step_node ''in'' ''trigger'' []] [];
     graph = step_graph
      [step_node ''t'' ''trigger'' [], step_node ''s1'' ''subworkflow'' [(''ref'', JStr ''child'')],
       step_node ''s2'' ''subworkflow'' [(''ref'', JStr ''child'')]]
      [step_edge ''e1'' ''t'' ''s1'' None, step_edge ''e2'' ''t'' ''s2'' None];
     deps = demo_deps\<lparr>gd_loadSubWorkflow := Some (\<lambda>_ _. Inr (Some child))\<rparr>
   in attempts_emitted (snd (runGraph graph deps)) = 5
      \<and> map_option (\<lambda>sn. map no_nodeExecutionId (sn_occurrences sn))
          (snd (runGraphAsCanonicalExecution ((demo_input graph)\<lparr>ci_deps := deps\<rparr>))) = Some [''t'', ''in'', ''s1'', ''s2'']"
  by code_simp

section \<open>Witnesses\<close>

definition gated_result :: GraphRunResult where
  "gated_result = projr (fst (runGraph gated_graph demo_deps))"

lemma gated_outcome:
  "runGraph gated_graph demo_deps = (Inr gated_result, snd (runGraph gated_graph demo_deps))"
proof -
  have "\<not> isl (fst (runGraph gated_graph demo_deps))" by code_simp
  then show ?thesis by (simp add: gated_result_def)
qed

lemma gated_agent: "map_option nr_status (map_of (gr_nodes gated_result) ''a'') = Some ''ok''"
  by code_simp

theorem nodes_run_only_when_led_to_witness:
  "\<exists>e \<in> set (wg_edges gated_graph). we_target e = ''a'' \<and> lets_through gated_graph (gr_nodes gated_result) e"
proof -
  let ?a = "step_node ''a'' ''agent'' [(''prompt'', JStr ''go'')]"
  have n: "?a \<in> set (wg_nodes gated_graph)" "wn_type ?a \<noteq> ''trigger''" "wn_id ?a = ''a''"
    by (simp_all add: gated_graph_def step_graph_def step_node_def)
  have d: "distinct (map we_id (wg_edges gated_graph))" by code_simp
  obtain r where r: "map_of (gr_nodes gated_result) (wn_id ?a) = Some r" "nr_status r \<noteq> ''skipped''"
    using gated_agent n(3) by auto
  from nodes_run_only_when_led_to [OF gated_outcome d n(1,2) r] show ?thesis by (simp only: n(3))
qed

theorem approval_gates_what_follows_witness:
  "\<exists>p. edge_path gated_graph ''t'' p ''a''
    \<and> (\<forall>e \<in> set p. we_source e = ''ok'' \<longrightarrow>
         approved_in_run demo_deps (rs_calls (snd (runGraph gated_graph demo_deps))) (gr_nodes gated_result)
           (step_node ''ok'' ''approval'' []))"
proof -
  let ?a = "step_node ''a'' ''agent'' [(''prompt'', JStr ''go'')]"
  have n: "?a \<in> set (wg_nodes gated_graph)" "wn_id ?a = ''a''"
    by (simp_all add: gated_graph_def step_graph_def step_node_def)
  have k: "step_node ''ok'' ''approval'' [] \<in> set (wg_nodes gated_graph)"
    "wn_id (step_node ''ok'' ''approval'' []) = ''ok''" "wn_type (step_node ''ok'' ''approval'' []) = ''approval''"
    by (simp_all add: gated_graph_def step_graph_def step_node_def)
  have t: "m \<in> set (wg_nodes gated_graph) \<Longrightarrow> wn_type m = ''trigger'' \<Longrightarrow> wn_id m = ''t''" for m
    by (auto simp: gated_graph_def step_graph_def step_node_def)
  have d: "distinct (map we_id (wg_edges gated_graph))" by code_simp
  obtain r where r: "map_of (gr_nodes gated_result) (wn_id ?a) = Some r" "nr_status r \<noteq> ''skipped''"
    using gated_agent n(2) by auto
  from approval_gates_what_follows [OF gated_outcome d n(1) r] k t show ?thesis unfolding n(2) by metis
qed


end
