(* ===== verification/ExecutionAuthority.thy ===== *)
theory ExecutionAuthority
  imports WorkflowGraph
begin

text \<open>
  The authority to start a durable execution, \<open>packages/core/src/orchestration/execution/
  authority.ts\<close>: intents that a user's action issues, their activation and one-shot consumption,
  and the receipt that carries a consumed intent to the executor. Owners, targets, intents and
  receipts are objects of the process whose contents live in weak maps, so a copy has no authority.
  An object is its identity, a number; the weak maps are maps from identities, and an identity that
  is not in them is a lookalike. The record of an intent is compared by identity too, and carries
  its own.

  \<open>now\<close> is the argument or the clock of the call. \<open>Date.parse\<close> is a parameter; \<open>None\<close> is \<open>NaN\<close>. The
  live authority guard of a receipt is an identity, and what calling it does is part of the call.
\<close>

definition DEFAULT_TTL_MS :: int where "DEFAULT_TTL_MS = 5 * 60000"
definition MAX_TTL_MS :: int where "MAX_TTL_MS = 15 * 60000"

datatype ExecutionIntentFailureReason =
    unknown_handle | owner_mismatch | binding_mismatch | turn_mismatch | source_mismatch
  | request_mismatch | target_mismatch | expired_intent | not_issued | not_active

record Binding =
  bi_workspaceRoot :: string
  bi_sessionKey :: string
  bi_userId :: string

record ExecutionIntentRecord =
  ei_identity :: nat
  ei_binding :: Binding
  ei_source :: string
  ei_requestId :: string
  ei_turnId :: string
  ei_issuedAt :: string
  ei_expiresAt :: string
  ei_target :: js

datatype IntentStatus = issued | active | consumed | expired

record IntentState =
  is_owner :: nat
  is_record :: ExecutionIntentRecord
  is_targetKey :: string
  is_dispatchArgs :: js
  is_status :: IntentStatus
  is_dispatchReceiptIssued :: bool

record DispatchReceiptState =
  dr_record :: ExecutionIntentRecord
  dr_targetKey :: string
  dr_runId :: string
  dr_parentExecutionId :: string
  dr_guard :: nat
  dr_used :: bool

record NormalizedTargetSnapshot =
  ts_record :: js
  ts_dispatchArgs :: js
  ts_comparisonKey :: string

text \<open>The weak maps of the module, and the next identity to hand out.\<close>

record AuthorityState =
  au_next :: nat
  au_owners :: "(nat \<times> Binding) list"
  au_targets :: "(nat \<times> NormalizedTargetSnapshot) list"
  au_handles :: "(nat \<times> IntentState) list"
  au_receipts :: "(nat \<times> DispatchReceiptState) list"

definition empty_authority :: AuthorityState where
  "empty_authority = \<lparr>au_next = 0, au_owners = [], au_targets = [], au_handles = [], au_receipts = []\<rparr>"

section \<open>Bindings and targets\<close>

definition normalizeBinding :: "Binding \<Rightarrow> string + Binding" where
  "normalizeBinding b =
     (let w = js_trim (bi_workspaceRoot b); k = js_trim (bi_sessionKey b); u = js_trim (bi_userId b)
      in if w = [] \<or> k = [] \<or> u = []
         then Inl ''execution intent owner requires workspaceRoot, sessionKey, and userId''
         else Inr \<lparr>bi_workspaceRoot = w, bi_sessionKey = k, bi_userId = u\<rparr>)"

definition sameBinding :: "Binding \<Rightarrow> Binding \<Rightarrow> bool" where
  "sameBinding l r \<longleftrightarrow>
     bi_workspaceRoot l = bi_workspaceRoot r \<and> bi_sessionKey l = bi_sessionKey r \<and> bi_userId l = bi_userId r"

lemma sameBinding_iff: "sameBinding l r \<longleftrightarrow> l = r"
  by (cases l; cases r) (simp add: sameBinding_def)

text \<open>\<open>canonicalJson\<close> and \<open>mintNormalizedTarget\<close> of \<open>normalization.ts\<close>: two targets agree when their records do.\<close>

fun canonicalJson :: "Platform \<Rightarrow> js \<Rightarrow> string" where
  "canonicalJson pf (JArr vs) = ''['' @ js_join '','' (map (canonicalJson pf) vs) @ '']''"
| "canonicalJson pf (JObj entries) =
     ''{'' @ js_join '','' (map snd (sort_key fst (map (\<lambda>(k, v). (k, pf_stringify pf (JStr k) @ '':'' @ canonicalJson pf v)) entries))) @ ''}''"
| "canonicalJson pf v = pf_stringify pf v"

definition mintNormalizedTarget :: "Platform \<Rightarrow> js \<Rightarrow> js \<Rightarrow> AuthorityState \<Rightarrow> nat \<times> AuthorityState" where
  "mintNormalizedTarget pf rec dispatchArgs st =
     (au_next st,
      st\<lparr>au_next := au_next st + 1,
         au_targets := (au_next st, \<lparr>ts_record = rec, ts_dispatchArgs = dispatchArgs, ts_comparisonKey = canonicalJson pf rec\<rparr>)
           # au_targets st\<rparr>)"

definition createExecutionIntentOwnerToken :: "Binding \<Rightarrow> AuthorityState \<Rightarrow> (string + nat) \<times> AuthorityState" where
  "createExecutionIntentOwnerToken inp st =
     (case normalizeBinding inp of
        Inl e \<Rightarrow> (Inl e, st)
      | Inr b \<Rightarrow> (Inr (au_next st), st\<lparr>au_next := au_next st + 1, au_owners := (au_next st, b) # au_owners st\<rparr>))"

section \<open>Issuing\<close>

definition id_char :: "char \<Rightarrow> bool" where
  "id_char c \<longleftrightarrow> (let n = of_char c :: nat in 48 \<le> n \<and> n \<le> 57 \<or> 65 \<le> n \<and> n \<le> 90 \<or> 97 \<le> n \<and> n \<le> 122)"

definition opaque_id :: "string \<Rightarrow> bool" where
  "opaque_id s =
     (case s of
        [] \<Rightarrow> False
      | c # cs \<Rightarrow> id_char c \<and> length cs \<le> 127 \<and> list_all (\<lambda>x. id_char x \<or> x \<in> set ''._:-'') cs)"

text \<open>\<open>new Date(ms).toISOString()\<close>, which throws outside the range of a date.\<close>

definition to_iso :: "int \<Rightarrow> string + string" where
  "to_iso ms = (if \<bar>ms\<bar> \<le> 8640000000000000 then Inr (iso_of_ms ms) else Inl ''Invalid time value'')"

definition intent_ttl :: "number option \<Rightarrow> int option" where
  "intent_ttl ttlMs =
     (case ttlMs of
        None \<Rightarrow> Some DEFAULT_TTL_MS
      | Some n \<Rightarrow>
          (case truncated_number n of
             Num q \<Rightarrow> Some (max 1 (min MAX_TTL_MS \<lfloor>q\<rfloor>))
           | PosInf \<Rightarrow> Some MAX_TTL_MS
           | NegInf \<Rightarrow> Some 1
           | NaN \<Rightarrow> None))"

record IssueInput =
  in_source :: string
  in_requestId :: string
  in_turnId :: string
  in_target :: nat
  in_now :: int
  in_ttlMs :: "number option"

definition issueExecutionIntent :: "nat \<Rightarrow> IssueInput \<Rightarrow> AuthorityState \<Rightarrow> (string + nat) \<times> AuthorityState" where
  "issueExecutionIntent owner inp st =
     (case map_of (au_owners st) owner of
        None \<Rightarrow> (Inl ''execution intent owner is not recognized'', st)
      | Some binding \<Rightarrow>
          if in_source inp = ''authorized-workflow''
          then (Inl ''authorized-workflow intent can only be derived by the owning runtime'', st)
          else if in_source inp \<noteq> ''user-command'' \<and> in_source inp \<noteq> ''reviewed-ui''
          then (Inl ''execution intent source is not recognized'', st)
          else
            (case map_of (au_targets st) (in_target inp) of
               None \<Rightarrow> (Inl ''execution intent target is not a Core-normalized target'', st)
             | Some snap \<Rightarrow>
                 let requestId = js_trim (in_requestId inp); turnId = js_trim (in_turnId inp)
                 in if requestId = [] \<or> turnId = [] then (Inl ''execution intent requires requestId and turnId'', st)
                    else if \<not> opaque_id requestId \<or> \<not> opaque_id turnId
                    then (Inl ''execution intent requestId and turnId must be opaque IDs of at most 128 safe characters'', st)
                    else
                      (case (to_iso (in_now inp), intent_ttl (in_ttlMs inp)) of
                         (Inl e, _) \<Rightarrow> (Inl e, st)
                       | (_, None) \<Rightarrow> (Inl ''Invalid time value'', st)
                       | (Inr issuedAt, Some ttl) \<Rightarrow>
                           (case to_iso (in_now inp + ttl) of
                              Inl e \<Rightarrow> (Inl e, st)
                            | Inr expiresAt \<Rightarrow>
                                (Inr (au_next st),
                                 st\<lparr>au_next := au_next st + 1,
                                    au_handles := (au_next st,
                                      \<lparr>is_owner = owner,
                                       is_record = \<lparr>ei_identity = au_next st, ei_binding = binding, ei_source = in_source inp,
                                         ei_requestId = requestId, ei_turnId = turnId, ei_issuedAt = issuedAt,
                                         ei_expiresAt = expiresAt, ei_target = ts_record snap\<rparr>,
                                       is_targetKey = ts_comparisonKey snap, is_dispatchArgs = ts_dispatchArgs snap,
                                       is_status = issued, is_dispatchReceiptIssued = False\<rparr>) # au_handles st\<rparr>)))))"

definition readExecutionIntentRecord :: "nat \<Rightarrow> AuthorityState \<Rightarrow> ExecutionIntentRecord option" where
  "readExecutionIntentRecord handle st = map_option is_record (map_of (au_handles st) handle)"

section \<open>Activating, consuming, expiring\<close>

definition set_status :: "nat \<Rightarrow> IntentStatus \<Rightarrow> AuthorityState \<Rightarrow> AuthorityState" where
  "set_status handle status st =
     (case map_of (au_handles st) handle of
        None \<Rightarrow> st
      | Some s \<Rightarrow> st\<lparr>au_handles := AList.update handle (s\<lparr>is_status := status\<rparr>) (au_handles st)\<rparr>)"

definition past :: "(string \<Rightarrow> int option) \<Rightarrow> int \<Rightarrow> string \<Rightarrow> bool" where
  "past date_parse now t = (case date_parse t of Some ms \<Rightarrow> ms \<le> now | None \<Rightarrow> False)"

text \<open>The binding of the caller must be the owner's and the intent's.\<close>

definition binding_agrees :: "nat \<Rightarrow> ExecutionIntentRecord \<Rightarrow> Binding \<Rightarrow> AuthorityState \<Rightarrow> bool" where
  "binding_agrees owner rec inp st =
     (case (normalizeBinding inp, map_of (au_owners st) owner) of
        (Inr b, Some ob) \<Rightarrow> sameBinding ob b \<and> sameBinding (ei_binding rec) b
      | _ \<Rightarrow> False)"

definition activateExecutionIntent ::
  "(string \<Rightarrow> int option) \<Rightarrow> nat \<Rightarrow> nat \<Rightarrow> Binding \<Rightarrow> string \<Rightarrow> int \<Rightarrow> AuthorityState \<Rightarrow>
   (ExecutionIntentFailureReason + ExecutionIntentRecord) \<times> AuthorityState"
where
  "activateExecutionIntent date_parse owner handle inp turnId now st =
     (case map_of (au_handles st) handle of
        None \<Rightarrow> (Inl unknown_handle, st)
      | Some s \<Rightarrow>
          let rec = is_record s
          in if is_owner s \<noteq> owner then (Inl owner_mismatch, st)
             else if is_status s \<noteq> issued then (Inl not_issued, st)
             else if \<not> binding_agrees owner rec inp st then (Inl binding_mismatch, set_status handle expired st)
             else if turnId \<noteq> ei_turnId rec then (Inl turn_mismatch, set_status handle expired st)
             else if past date_parse now (ei_expiresAt rec) then (Inl expired_intent, set_status handle expired st)
             else (Inr rec, set_status handle active st))"

record ConsumeInput =
  co_binding :: Binding
  co_source :: string
  co_requestId :: string
  co_turnId :: string
  co_target :: nat
  co_now :: int

text \<open>The checks of \<open>consumeExecutionIntent\<close>, which \<open>validateExecutionIntent\<close> repeats: the first that fails.\<close>

definition consume_refusal ::
  "(string \<Rightarrow> int option) \<Rightarrow> nat \<Rightarrow> IntentState \<Rightarrow> ConsumeInput \<Rightarrow> AuthorityState \<Rightarrow> ExecutionIntentFailureReason option"
where
  "consume_refusal date_parse owner s inp st =
     (let rec = is_record s
      in if \<not> binding_agrees owner rec (co_binding inp) st then Some binding_mismatch
         else if co_turnId inp \<noteq> ei_turnId rec then Some turn_mismatch
         else if past date_parse (co_now inp) (ei_expiresAt rec) then Some expired_intent
         else if co_source inp \<noteq> ei_source rec then Some source_mismatch
         else if co_requestId inp \<noteq> ei_requestId rec then Some request_mismatch
         else
           (case map_of (au_targets st) (co_target inp) of
              None \<Rightarrow> Some target_mismatch
            | Some snap \<Rightarrow> if ts_comparisonKey snap \<noteq> is_targetKey s then Some target_mismatch else None))"

definition consumeExecutionIntent ::
  "(string \<Rightarrow> int option) \<Rightarrow> nat \<Rightarrow> nat \<Rightarrow> ConsumeInput \<Rightarrow> AuthorityState \<Rightarrow>
   (ExecutionIntentFailureReason + ExecutionIntentRecord \<times> js) \<times> AuthorityState"
where
  "consumeExecutionIntent date_parse owner handle inp st =
     (case map_of (au_handles st) handle of
        None \<Rightarrow> (Inl unknown_handle, st)
      | Some s \<Rightarrow>
          if is_owner s \<noteq> owner then (Inl owner_mismatch, st)
          else if is_status s \<noteq> active then (Inl not_active, st)
          else
            (case consume_refusal date_parse owner s inp st of
               Some reason \<Rightarrow> (Inl reason, set_status handle expired st)
             | None \<Rightarrow> (Inr (is_record s, is_dispatchArgs s), set_status handle consumed st)))"

definition validateExecutionIntent ::
  "(string \<Rightarrow> int option) \<Rightarrow> nat \<Rightarrow> nat \<Rightarrow> ConsumeInput \<Rightarrow> AuthorityState \<Rightarrow>
   (ExecutionIntentFailureReason + ExecutionIntentRecord) \<times> AuthorityState"
where
  "validateExecutionIntent date_parse owner handle inp st =
     (case map_of (au_handles st) handle of
        None \<Rightarrow> (Inl unknown_handle, st)
      | Some s \<Rightarrow>
          if is_owner s \<noteq> owner then (Inl owner_mismatch, st)
          else if is_status s \<noteq> active then (Inl not_active, st)
          else
            (case consume_refusal date_parse owner s inp st of
               Some reason \<Rightarrow> (Inl reason, set_status handle expired st)
             | None \<Rightarrow> (Inr (is_record s), st)))"

definition expireExecutionIntent :: "nat \<Rightarrow> nat \<Rightarrow> string \<Rightarrow> AuthorityState \<Rightarrow> AuthorityState" where
  "expireExecutionIntent owner handle turnId st =
     (case map_of (au_handles st) handle of
        None \<Rightarrow> st
      | Some s \<Rightarrow>
          if is_owner s \<noteq> owner \<or> ei_turnId (is_record s) \<noteq> turnId then st
          else if is_status s \<noteq> consumed then set_status handle expired st
          else st)"

section \<open>Receipts\<close>

definition createExecutionDispatchReceipt ::
  "nat \<Rightarrow> nat \<Rightarrow> string \<Rightarrow> string \<Rightarrow> nat option \<Rightarrow> AuthorityState \<Rightarrow> (string + nat) \<times> AuthorityState"
where
  "createExecutionDispatchReceipt owner handle runId parentExecutionId guard st =
     (case map_of (au_handles st) handle of
        None \<Rightarrow> (Inl ''Execution dispatch receipt requires the exact freshly consumed intent.'', st)
      | Some s \<Rightarrow>
          if is_owner s \<noteq> owner \<or> is_status s \<noteq> consumed \<or> is_dispatchReceiptIssued s
          then (Inl ''Execution dispatch receipt requires the exact freshly consumed intent.'', st)
          else if js_trim runId = [] \<or> js_trim parentExecutionId = []
          then (Inl ''Execution dispatch receipt requires run and parent execution IDs.'', st)
          else
            (case guard of
               None \<Rightarrow> (Inl ''Execution dispatch receipt requires a live authority guard.'', st)
             | Some g \<Rightarrow>
                 (Inr (au_next st),
                  st\<lparr>au_next := au_next st + 1,
                     au_handles := AList.update handle (s\<lparr>is_dispatchReceiptIssued := True\<rparr>) (au_handles st),
                     au_receipts := (au_next st,
                       \<lparr>dr_record = is_record s, dr_targetKey = is_targetKey s, dr_runId = js_trim runId,
                        dr_parentExecutionId = js_trim parentExecutionId, dr_guard = g, dr_used = False\<rparr>) # au_receipts st\<rparr>)))"

definition use_receipt :: "nat \<Rightarrow> AuthorityState \<Rightarrow> AuthorityState" where
  "use_receipt receipt st =
     (case map_of (au_receipts st) receipt of
        None \<Rightarrow> st
      | Some r \<Rightarrow> st\<lparr>au_receipts := AList.update receipt (r\<lparr>dr_used := True\<rparr>) (au_receipts st)\<rparr>)"

record DispatchInput =
  di_record :: nat
  di_runId :: string
  di_parentExecutionId :: string
  di_target :: nat

text \<open>\<open>guard_throws\<close>: what calling the guard throws now, if anything.\<close>

definition consumeExecutionDispatchReceipt ::
  "nat \<Rightarrow> DispatchInput \<Rightarrow> string option \<Rightarrow> AuthorityState \<Rightarrow> (string + nat) \<times> AuthorityState"
where
  "consumeExecutionDispatchReceipt receipt inp guard_throws st =
     (case map_of (au_receipts st) receipt of
        None \<Rightarrow> (Inl ''Durable execution dispatch receipt is unknown or already consumed.'', st)
      | Some r \<Rightarrow>
          if dr_used r then (Inl ''Durable execution dispatch receipt is unknown or already consumed.'', st)
          else if ei_identity (dr_record r) \<noteq> di_record inp \<or> dr_runId r \<noteq> di_runId inp
            \<or> dr_parentExecutionId r \<noteq> di_parentExecutionId inp
            \<or> map_option ts_comparisonKey (map_of (au_targets st) (di_target inp)) \<noteq> Some (dr_targetKey r)
          then (Inl ''Durable execution dispatch receipt is unknown, mismatched, or already consumed.'', use_receipt receipt st)
          else (case guard_throws of Some e \<Rightarrow> (Inl e, use_receipt receipt st) | None \<Rightarrow> (Inr (dr_guard r), use_receipt receipt st)))"

definition rejectExecutionDispatchReceipt :: "nat \<Rightarrow> AuthorityState \<Rightarrow> AuthorityState" where
  "rejectExecutionDispatchReceipt receipt st = use_receipt receipt st"

end
