(* ===== verification/AuthoritySafety.thy ===== *)
theory AuthoritySafety
  imports ExecutionAuthority
begin

text \<open>
  What the authority module guarantees, over every sequence of calls by anybody: a call and what it
  answered is an event, and a history is the list of them. An accepted dispatch has behind it, in
  this order, the issuing of one intent by a user's action, its activation, its one consumption and
  the one receipt, all with one owner, and each of these is used at most once.
\<close>

section \<open>Histories\<close>

datatype AuthorityCall =
    CreateOwner Binding
  | MintTarget js js
  | Issue nat IssueInput
  | Activate nat nat Binding string int
  | Consume nat nat ConsumeInput
  | Validate nat nat ConsumeInput
  | Expire nat nat string
  | CreateReceipt nat nat string string "nat option"
  | Dispatch nat DispatchInput "string option"
  | Reject nat

datatype AuthorityOutcome =
    Threw string
  | Made nat
  | Refused ExecutionIntentFailureReason
  | Allowed ExecutionIntentRecord
  | Released ExecutionIntentRecord js
  | Dispatched nat
  | Nothing

definition made :: "(string + nat) \<times> AuthorityState \<Rightarrow> AuthorityOutcome \<times> AuthorityState" where
  "made out = (case out of (Inl e, st) \<Rightarrow> (Threw e, st) | (Inr i, st) \<Rightarrow> (Made i, st))"

definition allowed ::
  "(ExecutionIntentFailureReason + ExecutionIntentRecord) \<times> AuthorityState \<Rightarrow> AuthorityOutcome \<times> AuthorityState"
where
  "allowed out = (case out of (Inl e, st) \<Rightarrow> (Refused e, st) | (Inr r, st) \<Rightarrow> (Allowed r, st))"

fun authority_step ::
  "Platform \<Rightarrow> (string \<Rightarrow> int option) \<Rightarrow> AuthorityCall \<Rightarrow> AuthorityState \<Rightarrow> AuthorityOutcome \<times> AuthorityState"
where
  "authority_step pf dp (CreateOwner b) st = made (createExecutionIntentOwnerToken b st)"
| "authority_step pf dp (MintTarget rec args) st = (case mintNormalizedTarget pf rec args st of (t, st') \<Rightarrow> (Made t, st'))"
| "authority_step pf dp (Issue owner inp) st = made (issueExecutionIntent owner inp st)"
| "authority_step pf dp (Activate owner handle b turnId now) st = allowed (activateExecutionIntent dp owner handle b turnId now st)"
| "authority_step pf dp (Consume owner handle inp) st =
     (case consumeExecutionIntent dp owner handle inp st of
        (Inl e, st') \<Rightarrow> (Refused e, st')
      | (Inr (rec, args), st') \<Rightarrow> (Released rec args, st'))"
| "authority_step pf dp (Validate owner handle inp) st = allowed (validateExecutionIntent dp owner handle inp st)"
| "authority_step pf dp (Expire owner handle turnId) st = (Nothing, expireExecutionIntent owner handle turnId st)"
| "authority_step pf dp (CreateReceipt owner handle runId parent guard) st =
     made (createExecutionDispatchReceipt owner handle runId parent guard st)"
| "authority_step pf dp (Dispatch receipt inp throws) st =
     (case consumeExecutionDispatchReceipt receipt inp throws st of
        (Inl e, st') \<Rightarrow> (Threw e, st')
      | (Inr g, st') \<Rightarrow> (Dispatched g, st'))"
| "authority_step pf dp (Reject receipt) st = (Nothing, rejectExecutionDispatchReceipt receipt st)"

type_synonym authority_event = "AuthorityCall \<times> AuthorityOutcome"

fun authority_run ::
  "Platform \<Rightarrow> (string \<Rightarrow> int option) \<Rightarrow> AuthorityCall list \<Rightarrow> AuthorityState \<Rightarrow> authority_event list \<times> AuthorityState"
where
  "authority_run pf dp [] st = ([], st)"
| "authority_run pf dp (c # cs) st =
     (let (out, st') = authority_step pf dp c st; (hist, st'') = authority_run pf dp cs st' in ((c, out) # hist, st''))"

text \<open>
  The events that matter: each is a call that was answered with success. \<open>key\<close> is what the targets
  compare by.
\<close>

type_synonym target_key = "nat \<Rightarrow> string option"

definition key_of :: "AuthorityState \<Rightarrow> target_key" where
  "key_of st t = map_option ts_comparisonKey (map_of (au_targets st) t)"

definition issued_as :: "target_key \<Rightarrow> nat \<Rightarrow> IntentState \<Rightarrow> authority_event \<Rightarrow> bool" where
  "issued_as key handle s ev \<longleftrightarrow>
     (\<exists>inp ttl. ev = (Issue (is_owner s) inp, Made handle) \<and> in_source inp \<in> {''user-command'', ''reviewed-ui''}
        \<and> key (in_target inp) = Some (is_targetKey s)
        \<and> ei_source (is_record s) = in_source inp \<and> ei_requestId (is_record s) = js_trim (in_requestId inp)
        \<and> ei_turnId (is_record s) = js_trim (in_turnId inp)
        \<and> 0 < ttl \<and> ttl \<le> MAX_TTL_MS \<and> ei_expiresAt (is_record s) = iso_of_ms (in_now inp + ttl))"

definition activated :: "nat \<Rightarrow> IntentState \<Rightarrow> authority_event \<Rightarrow> bool" where
  "activated handle s ev \<longleftrightarrow> (\<exists>b now. ev = (Activate (is_owner s) handle b (ei_turnId (is_record s)) now, Allowed (is_record s)))"

definition consumed_by :: "target_key \<Rightarrow> (string \<Rightarrow> int option) \<Rightarrow> nat \<Rightarrow> IntentState \<Rightarrow> authority_event \<Rightarrow> bool" where
  "consumed_by key dp handle s ev \<longleftrightarrow>
     (\<exists>inp. ev = (Consume (is_owner s) handle inp, Released (is_record s) (is_dispatchArgs s))
        \<and> key (co_target inp) = Some (is_targetKey s)
        \<and> co_source inp = ei_source (is_record s) \<and> co_requestId inp = ei_requestId (is_record s)
        \<and> co_turnId inp = ei_turnId (is_record s) \<and> \<not> past dp (co_now inp) (ei_expiresAt (is_record s)))"

definition receipt_made :: "nat \<Rightarrow> nat \<Rightarrow> IntentState \<Rightarrow> DispatchReceiptState \<Rightarrow> authority_event \<Rightarrow> bool" where
  "receipt_made receipt handle s r ev \<longleftrightarrow>
     (\<exists>runId parent. ev = (CreateReceipt (is_owner s) handle runId parent (Some (dr_guard r)), Made receipt)
        \<and> dr_runId r = js_trim runId \<and> dr_parentExecutionId r = js_trim parent)"

text \<open>In this order, somewhere in the history: one event for each predicate.\<close>

fun in_order :: "(authority_event \<Rightarrow> bool) list \<Rightarrow> authority_event list \<Rightarrow> bool" where
  "in_order [] hist = True"
| "in_order (p # ps) [] = False"
| "in_order (p # ps) (e # es) = (p e \<and> in_order ps es \<or> in_order (p # ps) es)"

lemma in_order_mono: "in_order ps hist \<Longrightarrow> in_order ps (hist @ [ev])"
  by (induction ps hist rule: in_order.induct) auto

lemma in_order_first: "p ev \<Longrightarrow> in_order [p] (hist @ [ev])"
  by (induction hist) auto

lemma in_order_snoc: "in_order ps hist \<Longrightarrow> p ev \<Longrightarrow> in_order (ps @ [p]) (hist @ [ev])"
  by (induction ps hist rule: in_order.induct) (auto simp: in_order_first)

lemma in_order_prefix: "in_order (ps @ qs) hist \<Longrightarrow> in_order ps hist"
  by (induction ps hist rule: in_order.induct) auto

lemma in_order_weaken: "in_order ps hist \<Longrightarrow> list_all2 (\<lambda>p q. \<forall>e. p e \<longrightarrow> q e) ps qs \<Longrightarrow> in_order qs hist"
proof (induction ps hist arbitrary: qs rule: in_order.induct)
  case (1 hist)
  then have "qs = []" by (simp only: list_all2_Nil)
  then show ?case by simp
next
  case (2 p ps)
  then show ?case by simp
next
  case (3 p ps e es)
  then obtain q qs' where q: "qs = q # qs'" "\<forall>e. p e \<longrightarrow> q e" "list_all2 (\<lambda>p q. \<forall>e. p e \<longrightarrow> q e) ps qs'"
    unfolding list_all2_Cons1 by blast
  from "3.prems"(1) consider "p e" "in_order ps es" | "in_order (p # ps) es" by auto
  then show ?case
  proof cases
    case 1
    have "q e" using 1(1) q(2) by blast
    moreover have "in_order qs' es" by (rule "3.IH"(1) [OF 1(2) q(3)])
    ultimately show ?thesis by (simp add: q(1))
  next
    case 2
    from "3.IH"(2) [OF 2 "3.prems"(2)] show ?thesis by (simp add: q(1))
  qed
qed

text \<open>What an intent has behind it, by its status.\<close>

definition chain :: "target_key \<Rightarrow> (string \<Rightarrow> int option) \<Rightarrow> nat \<Rightarrow> IntentState \<Rightarrow> IntentStatus \<Rightarrow> (authority_event \<Rightarrow> bool) list" where
  "chain key dp h s status =
     (case status of
        issued \<Rightarrow> [issued_as key h s]
      | expired \<Rightarrow> [issued_as key h s]
      | active \<Rightarrow> [issued_as key h s, activated h s]
      | consumed \<Rightarrow> [issued_as key h s, activated h s, consumed_by key dp h s])"

definition same_intent :: "IntentState \<Rightarrow> IntentState \<Rightarrow> bool" where
  "same_intent s s' \<longleftrightarrow>
     is_owner s' = is_owner s \<and> is_record s' = is_record s \<and> is_targetKey s' = is_targetKey s \<and> is_dispatchArgs s' = is_dispatchArgs s"

lemma chain_same:
  "same_intent s s' \<Longrightarrow> chain key dp h s' status = chain key dp h s status"
  "same_intent s s' \<Longrightarrow> receipt_made r h s' d = receipt_made r h s d"
  by (auto simp: same_intent_def chain_def issued_as_def activated_def consumed_by_def receipt_made_def fun_eq_iff
      split: IntentStatus.split)

definition keeps_keys :: "target_key \<Rightarrow> target_key \<Rightarrow> bool" where
  "keeps_keys key key' \<longleftrightarrow> (\<forall>t k. key t = Some k \<longrightarrow> key' t = Some k)"

lemma chain_keys:
  assumes "keeps_keys key key'" "in_order (chain key dp h s status @ ps) hist"
  shows "in_order (chain key' dp h s status @ ps) hist"
  using assms(2)
proof (rule in_order_weaken)
  have "\<forall>e. issued_as key h s e \<longrightarrow> issued_as key' h s e" "\<forall>e. consumed_by key dp h s e \<longrightarrow> consumed_by key' dp h s e"
    using assms(1) unfolding keeps_keys_def issued_as_def consumed_by_def by blast+
  then show "list_all2 (\<lambda>p q. \<forall>e. p e \<longrightarrow> q e) (chain key dp h s status @ ps) (chain key' dp h s status @ ps)"
    by (intro list_all2_appendI) (auto simp: chain_def list_all2_refl split: IntentStatus.split)
qed

section \<open>The invariant\<close>

definition handle_inv :: "(string \<Rightarrow> int option) \<Rightarrow> authority_event list \<Rightarrow> AuthorityState \<Rightarrow> nat \<Rightarrow> IntentState \<Rightarrow> bool" where
  "handle_inv dp hist st h s \<longleftrightarrow>
     h < au_next st \<and> ei_identity (is_record s) = h \<and> in_order (chain (key_of st) dp h s (is_status s)) hist
     \<and> (is_dispatchReceiptIssued s \<longrightarrow> is_status s = consumed)"

definition receipt_inv :: "(string \<Rightarrow> int option) \<Rightarrow> authority_event list \<Rightarrow> AuthorityState \<Rightarrow> nat \<Rightarrow> DispatchReceiptState \<Rightarrow> bool" where
  "receipt_inv dp hist st r d \<longleftrightarrow>
     r < au_next st \<and>
     (\<exists>h s. map_of (au_handles st) h = Some s \<and> dr_record d = is_record s \<and> dr_targetKey d = is_targetKey s
        \<and> in_order (chain (key_of st) dp h s consumed @ [receipt_made r h s d]) hist)"

definition authority_inv :: "(string \<Rightarrow> int option) \<Rightarrow> authority_event list \<Rightarrow> AuthorityState \<Rightarrow> bool" where
  "authority_inv dp hist st \<longleftrightarrow>
     (\<forall>h s. map_of (au_handles st) h = Some s \<longrightarrow> handle_inv dp hist st h s) \<and>
     (\<forall>r d. map_of (au_receipts st) r = Some d \<longrightarrow> receipt_inv dp hist st r d) \<and>
     (\<forall>t snap. map_of (au_targets st) t = Some snap \<longrightarrow> t < au_next st)"

text \<open>The state of an intent moves on, or nothing of the intents and receipts does.\<close>

lemma inv_transfer:
  assumes i: "authority_inv dp hist st"
    and n: "au_next st \<le> au_next st'" and k: "keeps_keys (key_of st) (key_of st')"
    and t: "\<And>t snap. map_of (au_targets st') t = Some snap \<Longrightarrow> t < au_next st'"
    and h: "\<And>h s'. map_of (au_handles st') h = Some s' \<Longrightarrow>
        handle_inv dp (hist @ [ev]) st' h s' \<or> (map_of (au_handles st) h = Some s')"
    and old: "\<And>h s. map_of (au_handles st) h = Some s \<Longrightarrow> \<exists>s'. map_of (au_handles st') h = Some s' \<and> same_intent s s'"
    and r: "\<And>r d'. map_of (au_receipts st') r = Some d' \<Longrightarrow>
        receipt_inv dp (hist @ [ev]) st' r d' \<or>
        (\<exists>d. map_of (au_receipts st) r = Some d \<and> d' = d\<lparr>dr_used := dr_used d'\<rparr>)"
  shows "authority_inv dp (hist @ [ev]) st'"
proof -
  have "handle_inv dp (hist @ [ev]) st' h s'" if hs: "map_of (au_handles st') h = Some s'" for h s'
    using h [OF hs]
  proof
    assume "map_of (au_handles st) h = Some s'"
    with i have "handle_inv dp hist st h s'" unfolding authority_inv_def by blast
    then show ?thesis
      using n in_order_mono chain_keys [OF k, of dp h s' "is_status s'" "[]"] by (auto simp: handle_inv_def)
  qed
  moreover have "receipt_inv dp (hist @ [ev]) st' r d'" if rd: "map_of (au_receipts st') r = Some d'" for r d'
    using r [OF rd]
  proof
    assume "\<exists>d. map_of (au_receipts st) r = Some d \<and> d' = d\<lparr>dr_used := dr_used d'\<rparr>"
    then obtain d where d: "map_of (au_receipts st) r = Some d" "d' = d\<lparr>dr_used := dr_used d'\<rparr>" by blast
    with i obtain h s where s: "r < au_next st" "map_of (au_handles st) h = Some s" "dr_record d = is_record s"
      "dr_targetKey d = is_targetKey s" "in_order (chain (key_of st) dp h s consumed @ [receipt_made r h s d]) hist"
      unfolding authority_inv_def receipt_inv_def by blast
    obtain s' where s': "map_of (au_handles st') h = Some s'" "same_intent s s'" using old [OF s(2)] by blast
    have same: "receipt_made r h s d' = receipt_made r h s d" by (subst d(2)) (simp add: receipt_made_def fun_eq_iff)
    have "in_order (chain (key_of st') dp h s' consumed @ [receipt_made r h s' d']) (hist @ [ev])"
      using in_order_mono [OF chain_keys [OF k s(5)]] chain_same [OF s'(2)] same by simp
    moreover have "dr_record d' = is_record s'" "dr_targetKey d' = is_targetKey s'"
      using s s'(2) by (subst d(2); auto simp: same_intent_def)+
    moreover have "r < au_next st'" using s(1) n by simp
    ultimately show ?thesis using s'(1) unfolding receipt_inv_def by blast
  qed
  ultimately show ?thesis using t unfolding authority_inv_def by blast
qed

section \<open>Every call keeps it\<close>

lemma keeps_same [simp]: "keeps_keys key key"
  by (simp add: keeps_keys_def)

lemma same_refl [simp]: "same_intent s s" "same_intent s (s\<lparr>is_status := x\<rparr>)" "same_intent s (s\<lparr>is_dispatchReceiptIssued := y\<rparr>)"
  by (simp_all add: same_intent_def)

lemma inv_targets: "authority_inv dp hist st \<Longrightarrow> map_of (au_targets st) t = Some snap \<Longrightarrow> t < au_next st"
  by (auto simp: authority_inv_def)

lemma inv_handle: "authority_inv dp hist st \<Longrightarrow> map_of (au_handles st) h = Some s \<Longrightarrow> handle_inv dp hist st h s"
  by (auto simp: authority_inv_def)

lemma inv_nothing:
  assumes "authority_inv dp hist st"
  shows "authority_inv dp (hist @ [ev]) st"
  by (rule inv_transfer [OF assms]) (use inv_targets [OF assms] in auto)

lemma inv_status:
  assumes i: "authority_inv dp hist st" and s: "map_of (au_handles st) h = Some s"
    and c: "in_order (chain (key_of st) dp h s status) (hist @ [ev])"
    and f: "is_dispatchReceiptIssued s \<Longrightarrow> status = consumed"
  shows "authority_inv dp (hist @ [ev]) (set_status h status st)"
proof (rule inv_transfer [OF i])
  have st: "set_status h status st = st\<lparr>au_handles := AList.update h (s\<lparr>is_status := status\<rparr>) (au_handles st)\<rparr>"
    using s by (simp add: set_status_def)
  have k: "key_of (set_status h status st) = key_of st" by (simp add: st key_of_def fun_eq_iff)
  then show "keeps_keys (key_of st) (key_of (set_status h status st))" by simp
  show "au_next st \<le> au_next (set_status h status st)" by (simp add: st)
  show "map_of (au_targets (set_status h status st)) t = Some snap \<Longrightarrow> t < au_next (set_status h status st)" for t snap
    using inv_targets [OF i] by (simp add: st)
  have new: "handle_inv dp (hist @ [ev]) (set_status h status st) h (s\<lparr>is_status := status\<rparr>)"
    using inv_handle [OF i s] c f chain_same(1) [of s "s\<lparr>is_status := status\<rparr>" "key_of st" dp h status]
    by (simp add: handle_inv_def k) (simp add: st)
  show "map_of (au_handles (set_status h status st)) x = Some s' \<Longrightarrow>
      handle_inv dp (hist @ [ev]) (set_status h status st) x s' \<or> map_of (au_handles st) x = Some s'" for x s'
    using new by (cases "x = h") (auto simp: st update_conv')
  show "map_of (au_handles st) x = Some s1 \<Longrightarrow>
      \<exists>s'. map_of (au_handles (set_status h status st)) x = Some s' \<and> same_intent s1 s'" for x s1
    using s by (cases "x = h") (auto simp: st update_conv')
  show "map_of (au_receipts (set_status h status st)) r = Some d' \<Longrightarrow>
      receipt_inv dp (hist @ [ev]) (set_status h status st) r d' \<or>
      (\<exists>d. map_of (au_receipts st) r = Some d \<and> d' = d\<lparr>dr_used := dr_used d'\<rparr>)" for r d'
    by (auto simp: st)
qed

text \<open>Expiring an intent that was not consumed.\<close>

lemma inv_expired:
  assumes i: "authority_inv dp hist st" and s: "map_of (au_handles st) h = Some s" and n: "is_status s \<noteq> consumed"
  shows "authority_inv dp (hist @ [ev]) (set_status h expired st)"
proof (rule inv_status [OF i s])
  have hi: "in_order (chain (key_of st) dp h s (is_status s)) hist" "is_dispatchReceiptIssued s \<longrightarrow> is_status s = consumed"
    using inv_handle [OF i s] by (simp_all add: handle_inv_def)
  obtain qs where "chain (key_of st) dp h s (is_status s) = chain (key_of st) dp h s expired @ qs"
    by (cases "is_status s") (auto simp: chain_def)
  with hi(1) have "in_order (chain (key_of st) dp h s expired) hist" by (metis in_order_prefix)
  then show "in_order (chain (key_of st) dp h s expired) (hist @ [ev])" by (rule in_order_mono)
  show "is_dispatchReceiptIssued s \<Longrightarrow> expired = consumed" using hi(2) n by simp
qed

lemma inv_use_receipt:
  assumes i: "authority_inv dp hist st"
  shows "authority_inv dp (hist @ [ev]) (use_receipt r st)"
proof (cases "map_of (au_receipts st) r")
  case None
  with inv_nothing [OF i] show ?thesis by (simp add: use_receipt_def)
next
  case (Some d)
  then have st: "use_receipt r st = st\<lparr>au_receipts := AList.update r (d\<lparr>dr_used := True\<rparr>) (au_receipts st)\<rparr>"
    by (simp add: use_receipt_def)
  show ?thesis
  proof (rule inv_transfer [OF i])
    show "keeps_keys (key_of st) (key_of (use_receipt r st))" by (simp add: st keeps_keys_def key_of_def)
    show "map_of (au_receipts (use_receipt r st)) x = Some d' \<Longrightarrow>
        receipt_inv dp (hist @ [ev]) (use_receipt r st) x d' \<or>
        (\<exists>d. map_of (au_receipts st) x = Some d \<and> d' = d\<lparr>dr_used := dr_used d'\<rparr>)" for x d'
      using Some by (cases "x = r") (auto simp: st update_conv')
  qed (use inv_targets [OF i] in \<open>auto simp: st\<close>)
qed

lemma inv_owner:
  assumes i: "authority_inv dp hist st" and c: "createExecutionIntentOwnerToken b st = (out, st')"
  shows "authority_inv dp (hist @ [ev]) st'"
proof (cases "normalizeBinding b")
  case (Inl e)
  with c inv_nothing [OF i] show ?thesis by (simp add: createExecutionIntentOwnerToken_def)
next
  case (Inr b')
  with c have st: "st' = st\<lparr>au_next := au_next st + 1, au_owners := (au_next st, b') # au_owners st\<rparr>"
    by (simp add: createExecutionIntentOwnerToken_def)
  show ?thesis
  proof (rule inv_transfer [OF i])
    show "keeps_keys (key_of st) (key_of st')" by (simp add: st keeps_keys_def key_of_def)
  qed (use inv_targets [OF i] in \<open>auto simp: st less_Suc_eq\<close>)
qed

lemma inv_mint:
  assumes i: "authority_inv dp hist st" and c: "mintNormalizedTarget pf rec args st = (t, st')"
  shows "authority_inv dp (hist @ [ev]) st'"
proof (rule inv_transfer [OF i])
  have fresh: "map_of (au_targets st) (au_next st) = None"
    using inv_targets [OF i, of "au_next st"] by (cases "map_of (au_targets st) (au_next st)") auto
  then show "keeps_keys (key_of st) (key_of st')"
    using c by (auto simp: mintNormalizedTarget_def keeps_keys_def key_of_def)
  show "map_of (au_targets st') t' = Some snap \<Longrightarrow> t' < au_next st'" for t' snap
    using c inv_targets [OF i, of t' snap] by (auto simp: mintNormalizedTarget_def split: if_splits)
qed (use c in \<open>auto simp: mintNormalizedTarget_def\<close>)

lemma ttl_bounds: "intent_ttl t = Some ttl \<Longrightarrow> 0 < ttl \<and> ttl \<le> MAX_TTL_MS"
  by (auto simp: intent_ttl_def DEFAULT_TTL_MS_def MAX_TTL_MS_def split: option.splits number.splits)

lemma issue_cases:
  assumes "issueExecutionIntent owner inp st = (out, st')"
  shows "(\<exists>e. out = Inl e) \<and> st' = st \<or>
    (\<exists>s ttl. out = Inr (au_next st)
       \<and> st' = st\<lparr>au_next := au_next st + 1, au_handles := (au_next st, s) # au_handles st\<rparr>
       \<and> is_owner s = owner \<and> is_status s = issued \<and> \<not> is_dispatchReceiptIssued s \<and> ei_identity (is_record s) = au_next st
       \<and> in_source inp \<in> {''user-command'', ''reviewed-ui''} \<and> key_of st (in_target inp) = Some (is_targetKey s)
       \<and> ei_source (is_record s) = in_source inp \<and> ei_requestId (is_record s) = js_trim (in_requestId inp)
       \<and> ei_turnId (is_record s) = js_trim (in_turnId inp)
       \<and> 0 < ttl \<and> ttl \<le> MAX_TTL_MS \<and> ei_expiresAt (is_record s) = iso_of_ms (in_now inp + ttl))"
proof (cases "\<exists>e. out = Inl e")
  case True
  with assms show ?thesis
    by (simp add: issueExecutionIntent_def Let_def split: option.splits if_splits sum.splits)
next
  case False
  then obtain h where h: "out = Inr h" by (cases out) auto
  note a = assms [unfolded issueExecutionIntent_def Let_def h]
  obtain binding where b: "map_of (au_owners st) owner = Some binding"
    using a by (cases "map_of (au_owners st) owner") simp_all
  have src: "in_source inp \<in> {''user-command'', ''reviewed-ui''}" "in_source inp \<noteq> ''authorized-workflow''"
    using a b by (auto split: if_splits)
  note a = a [unfolded b option.case if_not_P [OF src(2)]]
  have src': "\<not> (in_source inp \<noteq> ''user-command'' \<and> in_source inp \<noteq> ''reviewed-ui'')" using src(1) by blast
  note a = a [unfolded if_not_P [OF src']]
  obtain snap where t: "map_of (au_targets st) (in_target inp) = Some snap"
    using a by (cases "map_of (au_targets st) (in_target inp)") simp_all
  note a = a [unfolded t option.case]
  have ids: "\<not> (js_trim (in_requestId inp) = [] \<or> js_trim (in_turnId inp) = [])"
    "\<not> (\<not> opaque_id (js_trim (in_requestId inp)) \<or> \<not> opaque_id (js_trim (in_turnId inp)))"
    using a by (metis Inl_Inr_False Pair_inject)+
  note a = a [unfolded if_not_P [OF ids(1)] if_not_P [OF ids(2)]]
  obtain issuedAt ttl where it: "to_iso (in_now inp) = Inr issuedAt" "intent_ttl (in_ttlMs inp) = Some ttl"
    using a by (cases "to_iso (in_now inp)"; cases "intent_ttl (in_ttlMs inp)") simp_all
  obtain expiresAt where x: "to_iso (in_now inp + ttl) = Inr expiresAt"
    using a it by (cases "to_iso (in_now inp + ttl)") simp_all
  have "expiresAt = iso_of_ms (in_now inp + ttl)" using x by (simp add: to_iso_def split: if_splits)
  note ttl = this
  let ?s = "\<lparr>is_owner = owner,
           is_record = \<lparr>ei_identity = au_next st, ei_binding = binding, ei_source = in_source inp,
             ei_requestId = js_trim (in_requestId inp), ei_turnId = js_trim (in_turnId inp), ei_issuedAt = issuedAt,
             ei_expiresAt = expiresAt, ei_target = ts_record snap\<rparr>,
           is_targetKey = ts_comparisonKey snap, is_dispatchArgs = ts_dispatchArgs snap,
           is_status = issued, is_dispatchReceiptIssued = False\<rparr>"
  have "out = Inr (au_next st)"
    "st' = st\<lparr>au_next := au_next st + 1, au_handles := (au_next st, ?s) # au_handles st\<rparr>"
    using a it x h by auto
  with ttl ttl_bounds [OF it(2)] src(1) t show ?thesis
    by (intro disjI2 exI [of _ ?s] exI [of _ ttl] conjI) (simp_all add: key_of_def)
qed

lemma inv_issue:
  assumes i: "authority_inv dp hist st" and c: "issueExecutionIntent owner inp st = (out, st')"
    and ev: "ev = (Issue owner inp, fst (made (out, st')))"
  shows "authority_inv dp (hist @ [ev]) st'"
  using issue_cases [OF c]
proof
  assume "(\<exists>e. out = Inl e) \<and> st' = st"
  with inv_nothing [OF i] show ?thesis by simp
next
  assume "\<exists>s ttl. out = Inr (au_next st)
       \<and> st' = st\<lparr>au_next := au_next st + 1, au_handles := (au_next st, s) # au_handles st\<rparr>
       \<and> is_owner s = owner \<and> is_status s = issued \<and> \<not> is_dispatchReceiptIssued s \<and> ei_identity (is_record s) = au_next st
       \<and> in_source inp \<in> {''user-command'', ''reviewed-ui''} \<and> key_of st (in_target inp) = Some (is_targetKey s)
       \<and> ei_source (is_record s) = in_source inp \<and> ei_requestId (is_record s) = js_trim (in_requestId inp)
       \<and> ei_turnId (is_record s) = js_trim (in_turnId inp)
       \<and> 0 < ttl \<and> ttl \<le> MAX_TTL_MS \<and> ei_expiresAt (is_record s) = iso_of_ms (in_now inp + ttl)"
  then obtain s ttl where out: "out = Inr (au_next st)"
    and st: "st' = st\<lparr>au_next := au_next st + 1, au_handles := (au_next st, s) # au_handles st\<rparr>"
    and s: "is_owner s = owner" "is_status s = issued" "\<not> is_dispatchReceiptIssued s" "ei_identity (is_record s) = au_next st"
    and facts: "in_source inp \<in> {''user-command'', ''reviewed-ui''} \<and> key_of st (in_target inp) = Some (is_targetKey s)
       \<and> ei_source (is_record s) = in_source inp \<and> ei_requestId (is_record s) = js_trim (in_requestId inp)
       \<and> ei_turnId (is_record s) = js_trim (in_turnId inp)
       \<and> 0 < ttl \<and> ttl \<le> MAX_TTL_MS \<and> ei_expiresAt (is_record s) = iso_of_ms (in_now inp + ttl)" by blast
  have k: "key_of st' = key_of st" by (simp add: st key_of_def fun_eq_iff)
  have "issued_as (key_of st) (au_next st) s ev"
    unfolding issued_as_def using facts by (intro exI [of _ inp] exI [of _ ttl]) (simp add: ev out made_def s(1))
  then have new: "handle_inv dp (hist @ [ev]) st' (au_next st) s"
    unfolding handle_inv_def k using s by (simp add: chain_def in_order_first) (simp add: st)
  have fresh: "map_of (au_handles st) (au_next st) = None"
    using inv_handle [OF i, of "au_next st"] by (cases "map_of (au_handles st) (au_next st)") (auto simp: handle_inv_def)
  show ?thesis
  proof (rule inv_transfer [OF i])
    show "keeps_keys (key_of st) (key_of st')" by (simp add: k)
    show "map_of (au_handles st') x = Some s' \<Longrightarrow>
        handle_inv dp (hist @ [ev]) st' x s' \<or> map_of (au_handles st) x = Some s'" for x s'
      using new by (cases "x = au_next st") (simp_all add: st)
    show "map_of (au_handles st) x = Some s1 \<Longrightarrow> \<exists>s'. map_of (au_handles st') x = Some s' \<and> same_intent s1 s'" for x s1
      using fresh by (cases "x = au_next st") (simp_all add: st)
  qed (use inv_targets [OF i] in \<open>auto simp: st less_Suc_eq\<close>)
qed

lemma inv_activate:
  assumes i: "authority_inv dp hist st" and c: "activateExecutionIntent dp owner handle b turnId now st = (out, st')"
    and ev: "ev = (Activate owner handle b turnId now, fst (allowed (out, st')))"
  shows "authority_inv dp (hist @ [ev]) st'"
proof (cases "map_of (au_handles st) handle")
  case None
  with c inv_nothing [OF i] show ?thesis by (simp add: activateExecutionIntent_def)
next
  case (Some s)
  consider "st' = st" | "st' = set_status handle expired st" "is_status s = issued"
    | "out = Inr (is_record s)" "st' = set_status handle active st" "is_owner s = owner" "is_status s = issued"
      "turnId = ei_turnId (is_record s)"
    using c Some by (auto simp: activateExecutionIntent_def Let_def split: if_splits)
  then show ?thesis
  proof cases
    case 1
    with inv_nothing [OF i] show ?thesis by simp
  next
    case 2
    with inv_expired [OF i Some] show ?thesis by simp
  next
    case 3
    have h: "in_order (chain (key_of st) dp handle s issued) hist" "is_dispatchReceiptIssued s \<longrightarrow> is_status s = consumed"
      using inv_handle [OF i Some] 3(4) by (simp_all add: handle_inv_def)
    have "activated handle s ev" using 3 by (simp add: activated_def ev allowed_def)
    with h(1) have "in_order (chain (key_of st) dp handle s active) (hist @ [ev])"
      using in_order_snoc [of "[issued_as (key_of st) handle s]" hist "activated handle s" ev] by (simp add: chain_def)
    from inv_status [OF i Some this] h(2) 3 show ?thesis by simp
  qed
qed

lemma inv_consume:
  assumes i: "authority_inv dp hist st" and c: "consumeExecutionIntent dp owner handle inp st = (out, st')"
    and ev: "\<And>rec args. out = Inr (rec, args) \<Longrightarrow> ev = (Consume owner handle inp, Released rec args)"
  shows "authority_inv dp (hist @ [ev]) st'"
proof (cases "map_of (au_handles st) handle")
  case None
  with c inv_nothing [OF i] show ?thesis by (simp add: consumeExecutionIntent_def)
next
  case (Some s)
  consider "st' = st" | "st' = set_status handle expired st" "is_status s = active"
    | "out = Inr (is_record s, is_dispatchArgs s)" "st' = set_status handle consumed st" "is_owner s = owner"
      "is_status s = active" "consume_refusal dp owner s inp st = None"
    using c Some by (auto simp: consumeExecutionIntent_def Let_def split: if_splits option.splits)
  then show ?thesis
  proof cases
    case 1
    with inv_nothing [OF i] show ?thesis by simp
  next
    case 2
    with inv_expired [OF i Some] show ?thesis by simp
  next
    case 3
    have h: "in_order (chain (key_of st) dp handle s active) hist"
      using inv_handle [OF i Some] 3(4) by (simp add: handle_inv_def)
    have "consumed_by (key_of st) dp handle s ev"
      using 3(5) ev [OF 3(1)] 3(3)
      by (auto simp: consumed_by_def consume_refusal_def Let_def key_of_def split: if_splits option.splits)
    with h have "in_order (chain (key_of st) dp handle s consumed) (hist @ [ev])"
      using in_order_snoc [of "[issued_as (key_of st) handle s, activated handle s]" hist "consumed_by (key_of st) dp handle s" ev]
      by (simp add: chain_def)
    from inv_status [OF i Some this] 3 show ?thesis by simp
  qed
qed

lemma inv_validate:
  assumes i: "authority_inv dp hist st" and c: "validateExecutionIntent dp owner handle inp st = (out, st')"
  shows "authority_inv dp (hist @ [ev]) st'"
proof (cases "map_of (au_handles st) handle")
  case None
  with c inv_nothing [OF i] show ?thesis by (simp add: validateExecutionIntent_def)
next
  case (Some s)
  then have "st' = st \<or> st' = set_status handle expired st \<and> is_status s = active"
    using c by (auto simp: validateExecutionIntent_def Let_def split: if_splits option.splits)
  with inv_nothing [OF i, of ev] inv_expired [OF i Some, of ev] show ?thesis by auto
qed

lemma inv_expire:
  assumes i: "authority_inv dp hist st"
  shows "authority_inv dp (hist @ [ev]) (expireExecutionIntent owner handle turnId st)"
proof (cases "map_of (au_handles st) handle")
  case None
  with inv_nothing [OF i] show ?thesis by (simp add: expireExecutionIntent_def)
next
  case (Some s)
  with inv_nothing [OF i, of ev] inv_expired [OF i Some, of ev] show ?thesis by (simp add: expireExecutionIntent_def)
qed

lemma receipt_cases:
  assumes "createExecutionDispatchReceipt owner handle runId parent guard st = (out, st')"
  shows "(\<exists>e. out = Inl e) \<and> st' = st \<or>
    (\<exists>s g. map_of (au_handles st) handle = Some s \<and> is_owner s = owner \<and> is_status s = consumed \<and> \<not> is_dispatchReceiptIssued s
       \<and> guard = Some g \<and> out = Inr (au_next st)
       \<and> st' = st\<lparr>au_next := au_next st + 1,
                  au_handles := AList.update handle (s\<lparr>is_dispatchReceiptIssued := True\<rparr>) (au_handles st),
                  au_receipts := (au_next st,
                    \<lparr>dr_record = is_record s, dr_targetKey = is_targetKey s, dr_runId = js_trim runId,
                     dr_parentExecutionId = js_trim parent, dr_guard = g, dr_used = False\<rparr>) # au_receipts st\<rparr>)"
proof (cases "map_of (au_handles st) handle")
  case None
  with assms show ?thesis by (auto simp: createExecutionDispatchReceipt_def)
next
  case (Some s)
  show ?thesis
  proof (cases "is_owner s \<noteq> owner \<or> is_status s \<noteq> consumed \<or> is_dispatchReceiptIssued s \<or> js_trim runId = [] \<or> js_trim parent = [] \<or> guard = None")
    case True
    then have "(\<exists>e. out = Inl e) \<and> st' = st"
      using assms Some by (auto simp: createExecutionDispatchReceipt_def split: if_splits option.splits)
    then show ?thesis by (rule disjI1)
  next
    case False
    then obtain g where "guard = Some g" by blast
    with assms Some False show ?thesis by (auto simp: createExecutionDispatchReceipt_def)
  qed
qed

lemma inv_receipt:
  assumes i: "authority_inv dp hist st"
    and c: "createExecutionDispatchReceipt owner handle runId parent guard st = (out, st')"
    and ev: "ev = (CreateReceipt owner handle runId parent guard, fst (made (out, st')))"
  shows "authority_inv dp (hist @ [ev]) st'"
proof (cases "st' = st")
  case True
  with inv_nothing [OF i] show ?thesis by simp
next
  case False
  with receipt_cases [OF c] obtain s g where s: "map_of (au_handles st) handle = Some s" "is_owner s = owner" "is_status s = consumed"
      "\<not> is_dispatchReceiptIssued s" and g: "guard = Some g" and out: "out = Inr (au_next st)"
    and st: "st' = st\<lparr>au_next := au_next st + 1,
                  au_handles := AList.update handle (s\<lparr>is_dispatchReceiptIssued := True\<rparr>) (au_handles st),
                  au_receipts := (au_next st,
                    \<lparr>dr_record = is_record s, dr_targetKey = is_targetKey s, dr_runId = js_trim runId,
                     dr_parentExecutionId = js_trim parent, dr_guard = g, dr_used = False\<rparr>) # au_receipts st\<rparr>" by blast
  let ?d = "\<lparr>dr_record = is_record s, dr_targetKey = is_targetKey s, dr_runId = js_trim runId,
     dr_parentExecutionId = js_trim parent, dr_guard = g, dr_used = False\<rparr>"
  let ?s = "s\<lparr>is_dispatchReceiptIssued := True\<rparr>"
  have k: "key_of st' = key_of st" by (simp add: st key_of_def fun_eq_iff)
  have h: "handle < au_next st" "ei_identity (is_record s) = handle" "in_order (chain (key_of st) dp handle s consumed) hist"
    using inv_handle [OF i s(1)] s(3) by (simp_all add: handle_inv_def)
  have m: "map_of (au_handles st') handle = Some ?s" by (simp add: st update_conv')
  have hi: "handle_inv dp (hist @ [ev]) st' handle ?s"
    using h in_order_mono [OF h(3)] s(3) chain_same(1) [of s ?s "key_of st" dp handle consumed]
    by (simp add: handle_inv_def k) (simp add: st)
  have "receipt_made (au_next st) handle ?s ?d ev"
    by (simp add: receipt_made_def ev out made_def g s(2))
  with in_order_snoc [OF h(3), of "receipt_made (au_next st) handle ?s ?d" ev]
  have "in_order (chain (key_of st') dp handle ?s consumed @ [receipt_made (au_next st) handle ?s ?d]) (hist @ [ev])"
    using chain_same(1) [of s ?s "key_of st" dp handle consumed] by (simp add: k)
  then have ri: "receipt_inv dp (hist @ [ev]) st' (au_next st) ?d"
    unfolding receipt_inv_def using m by (intro conjI exI [of _ handle] exI [of _ ?s]) (simp_all, simp add: st)
  show ?thesis
  proof (rule inv_transfer [OF i])
    show "keeps_keys (key_of st) (key_of st')" by (simp add: k)
    show "map_of (au_handles st') x = Some s' \<Longrightarrow>
        handle_inv dp (hist @ [ev]) st' x s' \<or> map_of (au_handles st) x = Some s'" for x s'
      using hi m by (cases "x = handle") (simp_all add: st update_conv')
    show "map_of (au_handles st) x = Some s1 \<Longrightarrow> \<exists>s'. map_of (au_handles st') x = Some s' \<and> same_intent s1 s'" for x s1
      using s(1) by (cases "x = handle") (simp_all add: st update_conv')
    show "map_of (au_receipts st') r = Some d' \<Longrightarrow>
        receipt_inv dp (hist @ [ev]) st' r d' \<or>
        (\<exists>d. map_of (au_receipts st) r = Some d \<and> d' = d\<lparr>dr_used := dr_used d'\<rparr>)" for r d'
      using ri by (cases "r = au_next st") (auto simp: st)
  qed (use inv_targets [OF i] in \<open>auto simp: st less_Suc_eq\<close>)
qed

lemma inv_dispatch:
  assumes i: "authority_inv dp hist st" and c: "consumeExecutionDispatchReceipt r inp throws st = (out, st')"
  shows "authority_inv dp (hist @ [ev]) st'"
proof -
  have "st' = st \<or> st' = use_receipt r st"
    using c by (cases "map_of (au_receipts st) r"; cases throws)
      (simp_all add: consumeExecutionDispatchReceipt_def split: if_splits)
  with inv_nothing [OF i, of ev] inv_use_receipt [OF i, of ev r] show ?thesis by auto
qed

lemma made_snd [simp]: "snd (made out) = snd out" "snd (allowed out') = snd out'"
  by (auto simp: made_def allowed_def split: prod.splits sum.splits)

lemma inv_step:
  assumes i: "authority_inv dp hist st" and c: "authority_step pf dp call st = (out, st')"
  shows "authority_inv dp (hist @ [(call, out)]) st'"
proof (cases call)
  case (CreateOwner b)
  obtain o' s' where e: "createExecutionIntentOwnerToken b st = (o', s')" by force
  with c CreateOwner have "st' = s'" by (metis authority_step.simps(1) made_snd(1) snd_conv)
  with inv_owner [OF i e] show ?thesis by simp
next
  case (MintTarget rec args)
  obtain t s' where e: "mintNormalizedTarget pf rec args st = (t, s')" by force
  with c MintTarget inv_mint [OF i e] show ?thesis by simp
next
  case (Issue owner inp)
  obtain o' s' where e: "issueExecutionIntent owner inp st = (o', s')" by force
  with c Issue have "st' = s'" "out = fst (made (o', s'))" by (auto simp: made_def split: sum.splits)
  with inv_issue [OF i e refl] Issue show ?thesis by simp
next
  case (Activate owner handle b turnId now)
  obtain o' s' where e: "activateExecutionIntent dp owner handle b turnId now st = (o', s')" by force
  with c Activate have "st' = s'" "out = fst (allowed (o', s'))" by (auto simp: allowed_def split: sum.splits)
  with inv_activate [OF i e refl] Activate show ?thesis by simp
next
  case (Consume owner handle inp)
  obtain o' s' where e: "consumeExecutionIntent dp owner handle inp st = (o', s')" by force
  have "st' = s'" "\<And>rec args. o' = Inr (rec, args) \<Longrightarrow> (call, out) = (Consume owner handle inp, Released rec args)"
    using c Consume e by (auto split: sum.splits prod.splits)
  with inv_consume [OF i e, of "(call, out)"] show ?thesis by blast
next
  case (Validate owner handle inp)
  obtain o' s' where e: "validateExecutionIntent dp owner handle inp st = (o', s')" by force
  with c Validate have "st' = s'" by (auto simp: allowed_def split: sum.splits)
  with inv_validate [OF i e] show ?thesis by simp
next
  case (Expire owner handle turnId)
  with c inv_expire [OF i] show ?thesis by auto
next
  case (CreateReceipt owner handle runId parent guard)
  obtain o' s' where e: "createExecutionDispatchReceipt owner handle runId parent guard st = (o', s')" by force
  with c CreateReceipt have "st' = s'" "out = fst (made (o', s'))" by (auto simp: made_def split: sum.splits)
  with inv_receipt [OF i e refl] CreateReceipt show ?thesis by simp
next
  case (Dispatch receipt inp throws)
  obtain o' s' where e: "consumeExecutionDispatchReceipt receipt inp throws st = (o', s')" by force
  with c Dispatch have "st' = s'" by (auto split: sum.splits)
  with inv_dispatch [OF i e] show ?thesis by simp
next
  case (Reject receipt)
  with c inv_use_receipt [OF i] show ?thesis by (auto simp: rejectExecutionDispatchReceipt_def)
qed

lemma inv_run:
  "authority_inv dp hist st \<Longrightarrow> authority_run pf dp cs st = (evs, st') \<Longrightarrow> authority_inv dp (hist @ evs) st'"
proof (induction cs arbitrary: hist st evs)
  case (Cons c cs)
  obtain out st1 where o: "authority_step pf dp c st = (out, st1)" by force
  with Cons.prems(2) obtain rest where r: "authority_run pf dp cs st1 = (rest, st')" "evs = (c, out) # rest"
    by (auto split: prod.splits)
  from Cons.IH [OF inv_step [OF Cons.prems(1) o] r(1)] show ?case by (simp add: r(2))
qed simp

lemma inv_empty: "authority_inv dp [] empty_authority"
  by (simp add: authority_inv_def empty_authority_def)

lemma run_split:
  "authority_run pf dp cs st = (pre @ (c, out) # post, st') \<Longrightarrow>
   \<exists>cs1 cs2 st1 st2. authority_run pf dp cs1 st = (pre, st1) \<and> authority_step pf dp c st1 = (out, st2)
     \<and> authority_run pf dp cs2 st2 = (post, st')"
proof (induction pre arbitrary: cs st)
  case Nil
  then obtain cs2 st2 where "cs = c # cs2" "authority_step pf dp c st = (out, st2)" "authority_run pf dp cs2 st2 = (post, st')"
    by (cases cs) (auto split: prod.splits)
  then show ?case by (intro exI [of _ "[]"] exI [of _ cs2] exI [of _ st] exI [of _ st2]) simp
next
  case (Cons ev pre)
  obtain c0 cs' where cs: "cs = c0 # cs'" using Cons.prems by (cases cs) auto
  obtain out0 st0 where o: "authority_step pf dp c0 st = (out0, st0)" by force
  with Cons.prems cs have ev: "ev = (c0, out0)" and r: "authority_run pf dp cs' st0 = (pre @ (c, out) # post, st')"
    by (auto split: prod.splits)
  from Cons.IH [OF r] obtain cs1 cs2 st1 st2 where "authority_run pf dp cs1 st0 = (pre, st1)"
    "authority_step pf dp c st1 = (out, st2)" "authority_run pf dp cs2 st2 = (post, st')" by blast
  then show ?case using o ev
    by (intro exI [of _ "c0 # cs1"] exI [of _ cs2] exI [of _ st1] exI [of _ st2]) simp
qed

lemma update_targets [simp]:
  "au_targets (set_status h x st) = au_targets st" "au_targets (use_receipt r st) = au_targets st"
  "au_receipts (set_status h x st) = au_receipts st" "au_handles (use_receipt r st) = au_handles st"
  "au_next (set_status h x st) = au_next st" "au_next (use_receipt r st) = au_next st"
  by (simp_all add: set_status_def use_receipt_def split: option.splits)

lemma handles_set_status:
  "map_of (au_handles (set_status h x st)) y =
     (if y = h then map_option (\<lambda>s. s\<lparr>is_status := x\<rparr>) (map_of (au_handles st) h) else map_of (au_handles st) y)"
  by (auto simp: set_status_def update_conv' split: option.splits)

lemma receipts_use:
  "map_of (au_receipts (use_receipt r st)) y =
     (if y = r then map_option (\<lambda>d. d\<lparr>dr_used := True\<rparr>) (map_of (au_receipts st) r) else map_of (au_receipts st) y)"
  by (auto simp: use_receipt_def update_conv' split: option.splits)

text \<open>How each operation can leave the intents and the receipts.\<close>

lemma activate_moves:
  "activateExecutionIntent dp owner handle b turnId now st = (out, st') \<Longrightarrow>
   st' = st \<or> (\<exists>s x. map_of (au_handles st) handle = Some s \<and> is_status s \<noteq> consumed \<and> x \<noteq> consumed \<and> st' = set_status handle x st)"
  by (cases "map_of (au_handles st) handle") (auto simp: activateExecutionIntent_def Let_def split: if_splits)

lemma validate_moves:
  "validateExecutionIntent dp owner handle inp st = (out, st') \<Longrightarrow>
   st' = st \<or> (\<exists>s x. map_of (au_handles st) handle = Some s \<and> is_status s \<noteq> consumed \<and> x \<noteq> consumed \<and> st' = set_status handle x st)"
  by (cases "map_of (au_handles st) handle") (auto simp: validateExecutionIntent_def Let_def split: if_splits option.splits)

lemma expire_moves:
  "expireExecutionIntent owner handle turnId st = st \<or>
   (\<exists>s x. map_of (au_handles st) handle = Some s \<and> is_status s \<noteq> consumed \<and> x \<noteq> consumed
      \<and> expireExecutionIntent owner handle turnId st = set_status handle x st)"
  by (cases "map_of (au_handles st) handle") (auto simp: expireExecutionIntent_def)

lemma consume_moves:
  "consumeExecutionIntent dp owner handle inp st = (out, st') \<Longrightarrow>
   (\<exists>e. out = Inl e) \<and> (st' = st \<or> (\<exists>s. map_of (au_handles st) handle = Some s \<and> is_status s = active \<and> st' = set_status handle expired st))
   \<or> (\<exists>s. map_of (au_handles st) handle = Some s \<and> is_status s = active \<and> st' = set_status handle consumed st
        \<and> out = Inr (is_record s, is_dispatchArgs s))"
  by (cases "map_of (au_handles st) handle") (auto simp: consumeExecutionIntent_def Let_def split: if_splits option.splits)

lemma dispatch_moves:
  "consumeExecutionDispatchReceipt r inp throws st = (out, st') \<Longrightarrow>
   (\<exists>e. out = Inl e) \<and> (st' = st \<or> st' = use_receipt r st)
   \<or> (\<exists>d. map_of (au_receipts st) r = Some d \<and> \<not> dr_used d \<and> out = Inr (dr_guard d) \<and> st' = use_receipt r st
        \<and> ei_identity (dr_record d) = di_record inp \<and> dr_runId d = di_runId inp \<and> dr_parentExecutionId d = di_parentExecutionId inp
        \<and> key_of st (di_target inp) = Some (dr_targetKey d))"
  by (cases "map_of (au_receipts st) r"; cases throws)
    (auto simp: consumeExecutionDispatchReceipt_def key_of_def split: if_splits)

text \<open>Events by kind, for counting.\<close>

fun issues :: "authority_event \<Rightarrow> bool" where
  "issues (Issue _ _, Made _) = True"
| "issues _ = False"

fun releases :: "nat \<Rightarrow> authority_event \<Rightarrow> bool" where
  "releases h (Consume _ h' _, Released _ _) = (h' = h)"
| "releases h _ = False"

fun gives_receipt :: "nat \<Rightarrow> authority_event \<Rightarrow> bool" where
  "gives_receipt h (CreateReceipt _ h' _ _ _, Made _) = (h' = h)"
| "gives_receipt h _ = False"

fun dispatches :: "nat \<Rightarrow> authority_event \<Rightarrow> bool" where
  "dispatches r (Dispatch r' _ _, Dispatched _) = (r' = r)"
| "dispatches r _ = False"

fun dispatched :: "authority_event \<Rightarrow> bool" where
  "dispatched (Dispatch _ _ _, Dispatched _) = True"
| "dispatched _ = False"

definition uneventful :: "authority_event \<Rightarrow> bool" where
  "uneventful ev \<longleftrightarrow> \<not> issues ev \<and> (\<forall>h. \<not> releases h ev \<and> \<not> gives_receipt h ev \<and> \<not> dispatches h ev) \<and> \<not> dispatched ev"

datatype move =
    Stay
  | Status nat IntentStatus
  | NewIntent IntentState
  | NewReceipt nat DispatchReceiptState
  | UseReceipt nat

text \<open>The next intents and receipts.\<close>

fun moved :: "move \<Rightarrow> AuthorityState \<Rightarrow> (nat \<times> IntentState) list \<times> (nat \<times> DispatchReceiptState) list" where
  "moved Stay st = (au_handles st, au_receipts st)"
| "moved (Status h x) st = (au_handles (set_status h x st), au_receipts st)"
| "moved (NewIntent s) st = ((au_next st, s) # au_handles st, au_receipts st)"
| "moved (NewReceipt h d) st =
     ((case map_of (au_handles st) h of
         Some s \<Rightarrow> AList.update h (s\<lparr>is_dispatchReceiptIssued := True\<rparr>) (au_handles st)
       | None \<Rightarrow> au_handles st),
      (au_next st, d) # au_receipts st)"
| "moved (UseReceipt r) st = (au_handles st, au_receipts (use_receipt r st))"

fun move_ok :: "AuthorityState \<Rightarrow> authority_event \<Rightarrow> move \<Rightarrow> bool" where
  "move_ok st ev Stay = uneventful ev"
| "move_ok st ev (Status h x) =
     (\<exists>s. map_of (au_handles st) h = Some s \<and> is_status s \<noteq> consumed \<and> (if x = consumed then releases h ev else uneventful ev))"
| "move_ok st ev (NewIntent s) = (issues ev \<and> is_status s = issued \<and> \<not> is_dispatchReceiptIssued s)"
| "move_ok st ev (NewReceipt h d) =
     (gives_receipt h ev \<and> \<not> dr_used d \<and> (\<exists>s. map_of (au_handles st) h = Some s \<and> \<not> is_dispatchReceiptIssued s))"
| "move_ok st ev (UseReceipt r) =
     (uneventful ev \<or> dispatches r ev \<and> (\<exists>d. map_of (au_receipts st) r = Some d \<and> \<not> dr_used d))"

lemma status_move:
  assumes "st' = st \<or> (\<exists>s x. map_of (au_handles st) h = Some s \<and> is_status s \<noteq> consumed \<and> x \<noteq> consumed \<and> st' = set_status h x st)"
    and "uneventful ev"
  shows "\<exists>m. move_ok st ev m \<and> (au_handles st', au_receipts st') = moved m st \<and> au_targets st' = au_targets st"
  using assms(1)
proof
  assume "st' = st"
  with assms(2) show ?thesis by (intro exI [of _ Stay]) simp
next
  assume "\<exists>s x. map_of (au_handles st) h = Some s \<and> is_status s \<noteq> consumed \<and> x \<noteq> consumed \<and> st' = set_status h x st"
  then obtain s x where "map_of (au_handles st) h = Some s" "is_status s \<noteq> consumed" "x \<noteq> consumed" "st' = set_status h x st"
    by blast
  with assms(2) show ?thesis by (intro exI [of _ "Status h x"]) simp
qed

lemma step_moves:
  assumes "authority_step pf dp c st = (out, st')"
  shows "\<exists>m. move_ok st (c, out) m \<and> (au_handles st', au_receipts st') = moved m st
    \<and> (au_targets st' = au_targets st \<or> (\<exists>rec args. c = MintTarget rec args))"
proof (cases c)
  case (CreateOwner b)
  then show ?thesis using assms
    by (intro exI [of _ Stay]) (auto simp: createExecutionIntentOwnerToken_def made_def uneventful_def split: sum.splits)
next
  case (MintTarget rec args)
  then show ?thesis using assms by (intro exI [of _ Stay]) (auto simp: mintNormalizedTarget_def uneventful_def)
next
  case (Issue owner inp)
  obtain o' s' where e: "issueExecutionIntent owner inp st = (o', s')" by force
  with assms Issue have o: "st' = s'" "out = fst (made (o', s'))" by (auto simp: made_def split: sum.splits)
  from issue_cases [OF e] show ?thesis
  proof
    assume "(\<exists>e. o' = Inl e) \<and> s' = st"
    with o Issue show ?thesis by (intro exI [of _ Stay]) (auto simp: made_def uneventful_def)
  next
    assume "\<exists>s ttl. o' = Inr (au_next st)
       \<and> s' = st\<lparr>au_next := au_next st + 1, au_handles := (au_next st, s) # au_handles st\<rparr>
       \<and> is_owner s = owner \<and> is_status s = issued \<and> \<not> is_dispatchReceiptIssued s \<and> ei_identity (is_record s) = au_next st
       \<and> in_source inp \<in> {''user-command'', ''reviewed-ui''} \<and> key_of st (in_target inp) = Some (is_targetKey s)
       \<and> ei_source (is_record s) = in_source inp \<and> ei_requestId (is_record s) = js_trim (in_requestId inp)
       \<and> ei_turnId (is_record s) = js_trim (in_turnId inp)
       \<and> 0 < ttl \<and> ttl \<le> MAX_TTL_MS \<and> ei_expiresAt (is_record s) = iso_of_ms (in_now inp + ttl)"
    then obtain s where "o' = Inr (au_next st)" "s' = st\<lparr>au_next := au_next st + 1, au_handles := (au_next st, s) # au_handles st\<rparr>"
      "is_status s = issued" "\<not> is_dispatchReceiptIssued s" by blast
    with o Issue show ?thesis by (intro exI [of _ "NewIntent s"]) (simp add: made_def)
  qed
next
  case (Activate owner handle b turnId now)
  obtain o' s' where e: "activateExecutionIntent dp owner handle b turnId now st = (o', s')" by force
  with assms Activate have o: "st' = s'" "out = fst (allowed (o', s'))" by (auto simp: allowed_def split: sum.splits)
  have u: "uneventful (c, out)" by (simp add: Activate uneventful_def)
  from status_move [OF activate_moves [OF e] u] o(1) show ?thesis by blast
next
  case (Consume owner handle inp)
  obtain o' s' where e: "consumeExecutionIntent dp owner handle inp st = (o', s')" by force
  with assms Consume have o: "st' = s'" by (auto split: sum.splits prod.splits)
  from consume_moves [OF e] show ?thesis
  proof
    assume a: "(\<exists>e. o' = Inl e) \<and> (s' = st \<or> (\<exists>s. map_of (au_handles st) handle = Some s \<and> is_status s = active
        \<and> s' = set_status handle expired st))"
    then have u: "uneventful (c, out)" using e assms Consume by (auto simp: uneventful_def)
    have "active \<noteq> consumed" "expired \<noteq> consumed" by simp_all
    with a have "s' = st \<or> (\<exists>s x. map_of (au_handles st) handle = Some s \<and> is_status s \<noteq> consumed \<and> x \<noteq> consumed
        \<and> s' = set_status handle x st)" by metis
    from status_move [OF this u] o show ?thesis by blast
  next
    assume a: "\<exists>s. map_of (au_handles st) handle = Some s \<and> is_status s = active \<and> s' = set_status handle consumed st
        \<and> o' = Inr (is_record s, is_dispatchArgs s)"
    then show ?thesis using o e assms Consume by (intro exI [of _ "Status handle consumed"]) (auto split: sum.splits prod.splits)
  qed
next
  case (Validate owner handle inp)
  obtain o' s' where e: "validateExecutionIntent dp owner handle inp st = (o', s')" by force
  with assms Validate have o: "st' = s'" by (auto simp: allowed_def split: sum.splits)
  have u: "uneventful (c, out)" by (simp add: Validate uneventful_def)
  from status_move [OF validate_moves [OF e] u] o show ?thesis by blast
next
  case (Expire owner handle turnId)
  then have o: "st' = expireExecutionIntent owner handle turnId st" "uneventful (c, out)"
    using assms by (auto simp: uneventful_def)
  from status_move [OF expire_moves o(2)] o(1) show ?thesis by blast
next
  case (CreateReceipt owner handle runId parent guard)
  obtain o' s' where e: "createExecutionDispatchReceipt owner handle runId parent guard st = (o', s')" by force
  with assms CreateReceipt have o: "st' = s'" "out = fst (made (o', s'))" by (auto simp: made_def split: sum.splits)
  from receipt_cases [OF e] show ?thesis
  proof (elim disjE)
    assume "(\<exists>e. o' = Inl e) \<and> s' = st"
    with o CreateReceipt show ?thesis by (intro exI [of _ Stay]) (auto simp: made_def uneventful_def)
  next
    assume "\<exists>s g. map_of (au_handles st) handle = Some s \<and> is_owner s = owner \<and> is_status s = consumed \<and> \<not> is_dispatchReceiptIssued s
       \<and> guard = Some g \<and> o' = Inr (au_next st)
       \<and> s' = st\<lparr>au_next := au_next st + 1,
                  au_handles := AList.update handle (s\<lparr>is_dispatchReceiptIssued := True\<rparr>) (au_handles st),
                  au_receipts := (au_next st,
                    \<lparr>dr_record = is_record s, dr_targetKey = is_targetKey s, dr_runId = js_trim runId,
                     dr_parentExecutionId = js_trim parent, dr_guard = g, dr_used = False\<rparr>) # au_receipts st\<rparr>"
    then obtain s g where s: "map_of (au_handles st) handle = Some s" "\<not> is_dispatchReceiptIssued s" "o' = Inr (au_next st)"
      "s' = st\<lparr>au_next := au_next st + 1,
                  au_handles := AList.update handle (s\<lparr>is_dispatchReceiptIssued := True\<rparr>) (au_handles st),
                  au_receipts := (au_next st,
                    \<lparr>dr_record = is_record s, dr_targetKey = is_targetKey s, dr_runId = js_trim runId,
                     dr_parentExecutionId = js_trim parent, dr_guard = g, dr_used = False\<rparr>) # au_receipts st\<rparr>" by blast
    with o CreateReceipt show ?thesis
      by (intro exI [of _ "NewReceipt handle \<lparr>dr_record = is_record s, dr_targetKey = is_targetKey s, dr_runId = js_trim runId,
                     dr_parentExecutionId = js_trim parent, dr_guard = g, dr_used = False\<rparr>"]) (simp add: made_def)
  qed
next
  case (Dispatch receipt inp throws)
  obtain o' s' where e: "consumeExecutionDispatchReceipt receipt inp throws st = (o', s')" by force
  with assms Dispatch have o: "st' = s'" by (auto split: sum.splits)
  from dispatch_moves [OF e] show ?thesis
  proof
    assume a: "(\<exists>e. o' = Inl e) \<and> (s' = st \<or> s' = use_receipt receipt st)"
    then have u: "uneventful (c, out)" using e assms Dispatch by (auto simp: uneventful_def)
    from a o u show ?thesis
      by (elim disjE exE conjE) (rule exI [of _ Stay], simp, rule exI [of _ "UseReceipt receipt"], simp)
  next
    assume "\<exists>d. map_of (au_receipts st) receipt = Some d \<and> \<not> dr_used d \<and> o' = Inr (dr_guard d) \<and> s' = use_receipt receipt st
        \<and> ei_identity (dr_record d) = di_record inp \<and> dr_runId d = di_runId inp \<and> dr_parentExecutionId d = di_parentExecutionId inp
        \<and> key_of st (di_target inp) = Some (dr_targetKey d)"
    then show ?thesis using o e assms Dispatch by (intro exI [of _ "UseReceipt receipt"]) auto
  qed
next
  case (Reject receipt)
  then show ?thesis using assms
    by (intro exI [of _ "UseReceipt receipt"]) (auto simp: rejectExecutionDispatchReceipt_def uneventful_def)
qed

end
