(* ===== verification/AuthorityCustody.thy ===== *)
theory AuthorityCustody
  imports AuthoritySafety
begin

section \<open>Counting\<close>

definition occurrences :: "(authority_event \<Rightarrow> bool) \<Rightarrow> authority_event list \<Rightarrow> nat" where
  "occurrences P hist = length (filter P hist)"

text \<open>What is left to be done: it pays for every event of one kind, and grows by those of another.\<close>

lemma run_potential:
  fixes f :: "AuthorityState \<Rightarrow> nat"
  assumes step: "\<And>hist st m ev st'. authority_inv dp hist st \<Longrightarrow> move_ok st ev m \<Longrightarrow>
      (au_handles st', au_receipts st') = moved m st \<Longrightarrow> f st' + of_bool (P ev) \<le> f st + of_bool (Q ev)"
  shows "authority_inv dp hist st \<Longrightarrow> authority_run pf dp cs st = (evs, st') \<Longrightarrow>
    f st' + occurrences P evs \<le> f st + occurrences Q evs"
proof (induction cs arbitrary: hist st evs)
  case (Cons c cs)
  obtain out st1 where o: "authority_step pf dp c st = (out, st1)" by force
  with Cons.prems(2) obtain rest where r: "authority_run pf dp cs st1 = (rest, st')" "evs = (c, out) # rest"
    by (auto split: prod.splits)
  obtain m where m: "move_ok st (c, out) m" "(au_handles st1, au_receipts st1) = moved m st"
    using step_moves [OF o] by blast
  have "f st1 + of_bool (P (c, out)) \<le> f st + of_bool (Q (c, out))" by (rule step [OF Cons.prems(1) m])
  with Cons.IH [OF inv_step [OF Cons.prems(1) o] r(1)] show ?case by (simp add: occurrences_def r(2) of_bool_def split: if_splits)
qed (simp add: occurrences_def)

definition to_release :: "nat \<Rightarrow> AuthorityState \<Rightarrow> nat" where
  "to_release h st = (case map_of (au_handles st) h of Some s \<Rightarrow> of_bool (is_status s \<noteq> consumed) | None \<Rightarrow> 1)"

definition to_receive :: "nat \<Rightarrow> AuthorityState \<Rightarrow> nat" where
  "to_receive h st = (case map_of (au_handles st) h of Some s \<Rightarrow> of_bool (\<not> is_dispatchReceiptIssued s) | None \<Rightarrow> 1)"

definition to_dispatch :: "nat \<Rightarrow> AuthorityState \<Rightarrow> nat" where
  "to_dispatch r st = (case map_of (au_receipts st) r of Some d \<Rightarrow> of_bool (\<not> dr_used d) | None \<Rightarrow> 1)"

definition outstanding :: "AuthorityState \<Rightarrow> nat" where
  "outstanding st =
     length (filter (\<lambda>(_, s). \<not> is_dispatchReceiptIssued s) (au_handles st)) + length (filter (\<lambda>(_, d). \<not> dr_used d) (au_receipts st))"

lemma fresh_handle: "authority_inv dp hist st \<Longrightarrow> map_of (au_handles st) (au_next st) = None"
  using inv_handle [of dp hist st "au_next st"] by (cases "map_of (au_handles st) (au_next st)") (auto simp: handle_inv_def)

lemma fresh_receipt: "authority_inv dp hist st \<Longrightarrow> map_of (au_receipts st) (au_next st) = None"
  by (cases "map_of (au_receipts st) (au_next st)") (auto simp: authority_inv_def receipt_inv_def)

lemma filter_update:
  "map_of al k = Some old \<Longrightarrow>
   length (filter (\<lambda>(_, v). P v) (AList.update k new al)) + of_bool (P old) = length (filter (\<lambda>(_, v). P v) al) + of_bool (P new)"
  by (induction al) (auto split: if_splits)

lemma uneventful_kinds:
  "uneventful ev \<Longrightarrow> \<not> releases h ev \<and> \<not> gives_receipt h ev \<and> \<not> dispatches h ev \<and> \<not> issues ev \<and> \<not> dispatched ev"
  by (simp add: uneventful_def)

lemma kinds_apart:
  "issues ev \<Longrightarrow> \<not> releases h ev \<and> \<not> gives_receipt h ev \<and> \<not> dispatches h ev \<and> \<not> dispatched ev"
  "releases h ev \<Longrightarrow> \<not> issues ev \<and> \<not> gives_receipt k ev \<and> \<not> dispatches k ev \<and> \<not> dispatched ev \<and> releases k ev = (k = h)"
  "gives_receipt h ev \<Longrightarrow> \<not> issues ev \<and> \<not> releases k ev \<and> \<not> dispatches k ev \<and> \<not> dispatched ev \<and> gives_receipt k ev = (k = h)"
  "dispatches h ev \<Longrightarrow> \<not> issues ev \<and> \<not> releases k ev \<and> \<not> gives_receipt k ev \<and> dispatched ev \<and> dispatches k ev = (k = h)"
  by (cases ev; cases "fst ev"; cases "snd ev"; auto)+

lemmas kinds = uneventful_kinds kinds_apart

lemma release_step:
  assumes "authority_inv dp hist st" "move_ok st ev m" "(au_handles st', au_receipts st') = moved m st"
  shows "to_release h st' + of_bool (releases h ev) \<le> to_release h st + of_bool False"
  using assms fresh_handle [OF assms(1)]
  by (cases m) (auto simp: to_release_def handles_set_status update_conv' of_bool_def split: option.splits if_splits dest: kinds)

lemma receive_step:
  assumes "authority_inv dp hist st" "move_ok st ev m" "(au_handles st', au_receipts st') = moved m st"
  shows "to_receive h st' + of_bool (gives_receipt h ev) \<le> to_receive h st + of_bool False"
  using assms fresh_handle [OF assms(1)]
  by (cases m) (auto simp: to_receive_def handles_set_status update_conv' of_bool_def split: option.splits if_splits dest: kinds)

lemma dispatch_step:
  assumes "authority_inv dp hist st" "move_ok st ev m" "(au_handles st', au_receipts st') = moved m st"
  shows "to_dispatch r st' + of_bool (dispatches r ev) \<le> to_dispatch r st + of_bool False"
  using assms fresh_receipt [OF assms(1)]
  by (cases m) (auto simp: to_dispatch_def receipts_use of_bool_def split: option.splits if_splits dest: kinds)

lemma outstanding_step:
  assumes "authority_inv dp hist st" "move_ok st ev m" "(au_handles st', au_receipts st') = moved m st"
  shows "outstanding st' + of_bool (dispatched ev) \<le> outstanding st + of_bool (issues ev)"
proof (cases m)
  case Stay
  with assms show ?thesis by (auto simp: outstanding_def dest: kinds)
next
  case (Status h x)
  with assms(2) obtain s where s: "map_of (au_handles st) h = Some s" "\<not> dispatched ev"
    by (auto split: if_splits dest: kinds)
  then have "au_handles (set_status h x st) = AList.update h (s\<lparr>is_status := x\<rparr>) (au_handles st)"
    by (simp add: set_status_def)
  with filter_update [OF s(1), of "\<lambda>s. \<not> is_dispatchReceiptIssued s" "s\<lparr>is_status := x\<rparr>"] Status s(2) assms(3)
  show ?thesis by (simp add: outstanding_def)
next
  case (NewIntent s)
  with assms show ?thesis by (auto simp: outstanding_def dest: kinds)
next
  case (NewReceipt h d)
  with assms(2) obtain s where s: "map_of (au_handles st) h = Some s" "\<not> is_dispatchReceiptIssued s" "\<not> dispatched ev" "\<not> dr_used d"
    by (auto dest: kinds)
  with filter_update [OF s(1), of "\<lambda>s. \<not> is_dispatchReceiptIssued s" "s\<lparr>is_dispatchReceiptIssued := True\<rparr>"] NewReceipt assms(3)
  show ?thesis by (simp add: outstanding_def)
next
  case (UseReceipt r)
  show ?thesis
  proof (cases "map_of (au_receipts st) r")
    case None
    with UseReceipt assms(2) have "\<not> dispatched ev" by (auto dest: kinds)
    with None UseReceipt assms(3) show ?thesis by (simp add: outstanding_def use_receipt_def)
  next
    case (Some d)
    with UseReceipt assms(2) have "dispatched ev \<Longrightarrow> \<not> dr_used d" by (auto dest: kinds)
    with filter_update [OF Some, of "\<lambda>d. \<not> dr_used d" "d\<lparr>dr_used := True\<rparr>"] Some UseReceipt assms(3)
    show ?thesis by (cases "dispatched ev") (auto simp: outstanding_def use_receipt_def)
  qed
qed

lemma counted:
  assumes "authority_run pf dp cs empty_authority = (hist, st)"
  shows "occurrences (releases h) hist \<le> 1" "occurrences (gives_receipt h) hist \<le> 1" "occurrences (dispatches r) hist \<le> 1"
    "occurrences dispatched hist \<le> occurrences issues hist"
proof -
  note run = run_potential [OF _ inv_empty assms]
  have none: "occurrences (\<lambda>_. False) hist = 0" by (simp add: occurrences_def)
  have "to_release h st + occurrences (releases h) hist \<le> to_release h empty_authority + occurrences (\<lambda>_. False) hist"
    by (rule run [OF release_step])
  then show "occurrences (releases h) hist \<le> 1" by (simp add: none to_release_def empty_authority_def)
  have "to_receive h st + occurrences (gives_receipt h) hist \<le> to_receive h empty_authority + occurrences (\<lambda>_. False) hist"
    by (rule run [OF receive_step])
  then show "occurrences (gives_receipt h) hist \<le> 1" by (simp add: none to_receive_def empty_authority_def)
  have "to_dispatch r st + occurrences (dispatches r) hist \<le> to_dispatch r empty_authority + occurrences (\<lambda>_. False) hist"
    by (rule run [OF dispatch_step])
  then show "occurrences (dispatches r) hist \<le> 1" by (simp add: none to_dispatch_def empty_authority_def)
  have "outstanding st + occurrences dispatched hist \<le> outstanding empty_authority + occurrences issues hist"
    by (rule run [OF outstanding_step])
  then show "occurrences dispatched hist \<le> occurrences issues hist" by (simp add: outstanding_def empty_authority_def)
qed

section \<open>Custody\<close>

lemma step_targets:
  assumes "authority_inv dp hist st" "authority_step pf dp c st = (out, st')"
  shows "keeps_keys (key_of st) (key_of st')"
proof (cases "\<exists>rec args. c = MintTarget rec args")
  case True
  then obtain rec args where c: "c = MintTarget rec args" by blast
  have "map_of (au_targets st) (au_next st) = None"
    using inv_targets [OF assms(1), of "au_next st"] by (cases "map_of (au_targets st) (au_next st)") auto
  then show ?thesis using assms(2) c by (auto simp: mintNormalizedTarget_def keeps_keys_def key_of_def)
next
  case False
  with step_moves [OF assms(2)] have "au_targets st' = au_targets st" by blast
  then show ?thesis by (simp add: keeps_keys_def key_of_def)
qed

lemma keeps_trans: "keeps_keys a b \<Longrightarrow> keeps_keys b c \<Longrightarrow> keeps_keys a c"
  by (simp add: keeps_keys_def)

lemma run_targets:
  "authority_inv dp hist st \<Longrightarrow> authority_run pf dp cs st = (evs, st') \<Longrightarrow> keeps_keys (key_of st) (key_of st')"
proof (induction cs arbitrary: hist st evs)
  case (Cons c cs)
  obtain out st1 where o: "authority_step pf dp c st = (out, st1)" by force
  with Cons.prems(2) obtain rest where r: "authority_run pf dp cs st1 = (rest, st')" by (auto split: prod.splits)
  from Cons.IH [OF inv_step [OF Cons.prems(1) o] r] step_targets [OF Cons.prems(1) o] show ?case
    by (rule keeps_trans [rotated])
qed simp

text \<open>What a dispatch that went through has behind it.\<close>

definition custody ::
  "target_key \<Rightarrow> (string \<Rightarrow> int option) \<Rightarrow> nat \<Rightarrow> DispatchInput \<Rightarrow> nat \<Rightarrow> IntentState \<Rightarrow> DispatchReceiptState \<Rightarrow> authority_event list \<Rightarrow> bool"
where
  "custody key dp receipt inp guard s r hist \<longleftrightarrow>
     in_order [issued_as key (di_record inp) s, activated (di_record inp) s, consumed_by key dp (di_record inp) s,
               receipt_made receipt (di_record inp) s r] hist
     \<and> di_runId inp = dr_runId r \<and> di_parentExecutionId inp = dr_parentExecutionId r \<and> guard = dr_guard r
     \<and> key (di_target inp) = Some (is_targetKey s)"

lemma custody_of:
  assumes run: "authority_run pf dp cs empty_authority = (pre @ (Dispatch receipt inp throws, Dispatched g) # post, st)"
  shows "\<exists>s r. custody (key_of st) dp receipt inp g s r pre"
proof -
  obtain cs1 cs2 st1 st2 where
    r1: "authority_run pf dp cs1 empty_authority = (pre, st1)"
    and step: "authority_step pf dp (Dispatch receipt inp throws) st1 = (Dispatched g, st2)"
    and r2: "authority_run pf dp cs2 st2 = (post, st)"
    using run_split [OF run] by blast
  have i1: "authority_inv dp pre st1" using inv_run [OF inv_empty r1] by simp
  have i2: "authority_inv dp (pre @ [(Dispatch receipt inp throws, Dispatched g)]) st2" by (rule inv_step [OF i1 step])
  have k: "keeps_keys (key_of st1) (key_of st)"
    by (rule keeps_trans [OF step_targets [OF i1 step] run_targets [OF i2 r2]])
  obtain o' s' where e: "consumeExecutionDispatchReceipt receipt inp throws st1 = (o', s')" by force
  with step have "o' = Inr g" by (auto split: sum.splits)
  with dispatch_moves [OF e] obtain d where d: "map_of (au_receipts st1) receipt = Some d" "g = dr_guard d"
      "ei_identity (dr_record d) = di_record inp" "dr_runId d = di_runId inp" "dr_parentExecutionId d = di_parentExecutionId inp"
      "key_of st1 (di_target inp) = Some (dr_targetKey d)" by auto
  have "receipt_inv dp pre st1 receipt d" using i1 d(1) unfolding authority_inv_def by blast
  then obtain h s where s: "map_of (au_handles st1) h = Some s" "dr_record d = is_record s" "dr_targetKey d = is_targetKey s"
      "in_order (chain (key_of st1) dp h s consumed @ [receipt_made receipt h s d]) pre"
    unfolding receipt_inv_def by blast
  have h: "h = di_record inp" using inv_handle [OF i1 s(1)] s(2) d(3) by (simp add: handle_inv_def)
  have "in_order (chain (key_of st) dp h s consumed @ [receipt_made receipt h s d]) pre" by (rule chain_keys [OF k s(4)])
  moreover have "key_of st (di_target inp) = Some (is_targetKey s)"
    using d(6) s(3) k by (simp add: keeps_keys_def)
  ultimately have "custody (key_of st) dp receipt inp g s d pre" by (simp add: custody_def chain_def h d)
  then show ?thesis by blast
qed

section \<open>A wrong attempt is final\<close>

text \<open>The answers that burn the intent they were given about.\<close>

definition burning :: "ExecutionIntentFailureReason \<Rightarrow> bool" where
  "burning reason \<longleftrightarrow> reason \<notin> {unknown_handle, owner_mismatch, not_issued, not_active}"

fun burns :: "nat \<Rightarrow> authority_event \<Rightarrow> bool" where
  "burns h (Activate _ h' _ _ _, Refused reason) = (h' = h \<and> burning reason)"
| "burns h (Consume _ h' _, Refused reason) = (h' = h \<and> burning reason)"
| "burns h (Validate _ h' _, Refused reason) = (h' = h \<and> burning reason)"
| "burns h _ = False"

definition is_expired :: "nat \<Rightarrow> AuthorityState \<Rightarrow> bool" where
  "is_expired h st \<longleftrightarrow> (\<exists>s. map_of (au_handles st) h = Some s \<and> is_status s = expired)"

lemma expired_set [simp]:
  "is_expired h (set_status k x st) \<longleftrightarrow> (if h = k then map_of (au_handles st) h \<noteq> None \<and> x = expired else is_expired h st)"
  by (auto simp: is_expired_def handles_set_status)

lemma expired_use [simp]: "is_expired h (use_receipt r st) = is_expired h st"
  by (simp add: is_expired_def)

lemma expired_activate:
  "activateExecutionIntent dp owner k b turnId now st = (out, st') \<Longrightarrow>
   (is_expired h st \<longrightarrow> is_expired h st') \<and> (\<forall>e. out = Inl e \<longrightarrow> burning e \<longrightarrow> is_expired k st' \<and> \<not> is_expired k st \<and> to_release k st = 1)"
  by (cases "map_of (au_handles st) k")
    (auto simp: activateExecutionIntent_def Let_def burning_def is_expired_def to_release_def handles_set_status split: if_splits)

lemma expired_consume:
  "consumeExecutionIntent dp owner k inp st = (out, st') \<Longrightarrow>
   (is_expired h st \<longrightarrow> is_expired h st' \<and> (k = h \<longrightarrow> (\<exists>e. out = Inl e)))
   \<and> (\<forall>e. out = Inl e \<longrightarrow> burning e \<longrightarrow> is_expired k st' \<and> to_release k st = 1)"
  by (cases "map_of (au_handles st) k")
    (auto simp: consumeExecutionIntent_def burning_def is_expired_def to_release_def handles_set_status split: if_splits option.splits)

lemma expired_validate:
  "validateExecutionIntent dp owner k inp st = (out, st') \<Longrightarrow>
   (is_expired h st \<longrightarrow> is_expired h st') \<and> (\<forall>e. out = Inl e \<longrightarrow> burning e \<longrightarrow> is_expired k st' \<and> to_release k st = 1)"
  by (cases "map_of (au_handles st) k")
    (auto simp: validateExecutionIntent_def burning_def is_expired_def to_release_def handles_set_status split: if_splits option.splits)

lemma expired_stays:
  assumes i: "authority_inv dp hist st" and x: "is_expired h st" and c: "authority_step pf dp c st = (out, st')"
  shows "is_expired h st' \<and> \<not> releases h (c, out)"
proof (cases c)
  case (CreateOwner b)
  with c x show ?thesis
    by (auto simp: createExecutionIntentOwnerToken_def made_def is_expired_def split: sum.splits)
next
  case (MintTarget rec args)
  with c x show ?thesis by (auto simp: mintNormalizedTarget_def is_expired_def)
next
  case (Issue owner inp)
  obtain o' s' where e: "issueExecutionIntent owner inp st = (o', s')" by force
  with c Issue have "st' = s'" by (auto simp: made_def split: sum.splits)
  with issue_cases [OF e] x fresh_handle [OF i] Issue show ?thesis by (auto simp: is_expired_def)
next
  case (Activate owner k b turnId now)
  obtain o' s' where e: "activateExecutionIntent dp owner k b turnId now st = (o', s')" by force
  with c Activate have "st' = s'" by (auto simp: allowed_def split: sum.splits)
  with expired_activate [OF e, of h] x Activate show ?thesis by auto
next
  case (Consume owner k inp)
  obtain o' s' where e: "consumeExecutionIntent dp owner k inp st = (o', s')" by force
  with c Consume expired_consume [OF e, of h] x show ?thesis by (cases "k = h") (auto split: sum.splits)
next
  case (Validate owner k inp)
  obtain o' s' where e: "validateExecutionIntent dp owner k inp st = (o', s')" by force
  with c Validate have "st' = s'" by (auto simp: allowed_def split: sum.splits)
  with expired_validate [OF e, of h] x Validate show ?thesis by auto
next
  case (Expire owner k turnId)
  with c x show ?thesis
    by (cases "map_of (au_handles st) k") (auto simp: expireExecutionIntent_def is_expired_def handles_set_status)
next
  case (CreateReceipt owner k runId parent guard)
  obtain o' s' where e: "createExecutionDispatchReceipt owner k runId parent guard st = (o', s')" by force
  with c CreateReceipt have "st' = s'" by (auto simp: made_def split: sum.splits)
  with receipt_cases [OF e] x CreateReceipt show ?thesis by (auto simp: is_expired_def update_conv')
next
  case (Dispatch receipt inp throws)
  obtain o' s' where e: "consumeExecutionDispatchReceipt receipt inp throws st = (o', s')" by force
  with c Dispatch have "st' = s'" by (auto split: sum.splits)
  with dispatch_moves [OF e] x Dispatch show ?thesis by auto
next
  case (Reject receipt)
  with c x show ?thesis by (auto simp: rejectExecutionDispatchReceipt_def)
qed

lemma expired_for_good:
  "authority_inv dp hist st \<Longrightarrow> is_expired h st \<Longrightarrow> authority_run pf dp cs st = (evs, st') \<Longrightarrow> occurrences (releases h) evs = 0"
proof (induction cs arbitrary: hist st evs)
  case Nil
  then show ?case by (simp add: occurrences_def)
next
  case (Cons c cs)
  obtain out st1 where o: "authority_step pf dp c st = (out, st1)" by force
  with Cons.prems(3) obtain rest where r: "authority_run pf dp cs st1 = (rest, st')" "evs = (c, out) # rest"
    by (auto split: prod.splits)
  from expired_stays [OF Cons.prems(1,2) o]
  show ?case using Cons.IH [OF inv_step [OF Cons.prems(1) o] _ r(1)] r(2) by (simp add: occurrences_def)
qed

lemma burn_expires:
  assumes "authority_step pf dp c st = (out, st')" "burns h (c, out)"
  shows "is_expired h st' \<and> to_release h st = 1"
proof -
  consider owner b turnId now e where "c = Activate owner h b turnId now" "out = Refused e" "burning e"
    | owner inp e where "c = Consume owner h inp" "out = Refused e" "burning e"
    | owner inp e where "c = Validate owner h inp" "out = Refused e" "burning e"
    using assms(2) by (cases c; cases out) auto
  then show ?thesis
  proof cases
    case 1
    obtain o' s' where e: "activateExecutionIntent dp owner h b turnId now st = (o', s')" by force
    with assms(1) 1 have "st' = s'" "o' = Inl e" by (auto simp: allowed_def split: sum.splits)
    with expired_activate [OF e] 1(3) show ?thesis by blast
  next
    case 2
    obtain o' s' where e: "consumeExecutionIntent dp owner h inp st = (o', s')" by force
    with assms(1) 2 have "st' = s'" "o' = Inl e" by (auto split: sum.splits)
    with expired_consume [OF e] 2(3) show ?thesis by blast
  next
    case 3
    obtain o' s' where e: "validateExecutionIntent dp owner h inp st = (o', s')" by force
    with assms(1) 3 have "st' = s'" "o' = Inl e" by (auto simp: allowed_def split: sum.splits)
    with expired_validate [OF e] 3(3) show ?thesis by blast
  qed
qed

lemma burnt_not_released:
  assumes run: "authority_run pf dp cs empty_authority = (pre @ ev # post, st)" and b: "burns h ev"
  shows "occurrences (releases h) (pre @ ev # post) = 0"
proof -
  obtain c out where ev: "ev = (c, out)" by force
  obtain cs1 cs2 st1 st2 where r1: "authority_run pf dp cs1 empty_authority = (pre, st1)"
    and step: "authority_step pf dp c st1 = (out, st2)" and r2: "authority_run pf dp cs2 st2 = (post, st)"
    using run_split [OF run [unfolded ev]] by blast
  have i1: "authority_inv dp pre st1" using inv_run [OF inv_empty r1] by simp
  have x: "is_expired h st2" "to_release h st1 = 1" using burn_expires [OF step b [unfolded ev]] by simp_all
  have "to_release h st1 + occurrences (releases h) pre \<le> to_release h empty_authority + occurrences (\<lambda>_. False) pre"
    by (rule run_potential [OF _ inv_empty r1], rule release_step)
  then have "occurrences (releases h) pre = 0" using x(2) by (simp add: occurrences_def to_release_def empty_authority_def)
  moreover have "occurrences (releases h) post = 0" by (rule expired_for_good [OF inv_step [OF i1 step] x(1) r2])
  moreover have "\<not> releases h ev" using b by (cases "fst ev"; cases "snd ev"; cases ev) auto
  ultimately show ?thesis by (simp add: occurrences_def)
qed

lemma in_order_member: "in_order ps hist \<Longrightarrow> p \<in> set ps \<Longrightarrow> \<exists>e\<in>set hist. p e"
  by (induction ps hist rule: in_order.induct) auto

lemma custody_released: "custody key dp receipt inp g s r hist \<Longrightarrow> \<exists>e\<in>set hist. releases (di_record inp) e"
proof -
  assume "custody key dp receipt inp g s r hist"
  then have "\<exists>e\<in>set hist. consumed_by key dp (di_record inp) s e"
    unfolding custody_def by (intro in_order_member) auto
  then obtain e where e: "e \<in> set hist" "consumed_by key dp (di_record inp) s e" by blast
  from e(2) have "releases (di_record inp) e" by (auto simp: consumed_by_def)
  with e(1) show ?thesis by blast
qed

section \<open>What is guaranteed\<close>

text \<open>
  C23. Over any calls in any order an intent is released at most once, gives at most one receipt, and
  a receipt is accepted by the executor at most once; so there are never more durable dispatches than
  intents issued.
\<close>

theorem an_authority_is_spent_once:
  "let (hist, st) = authority_run pf dp calls empty_authority
   in occurrences (releases h) hist \<le> 1 \<and> occurrences (gives_receipt h) hist \<le> 1 \<and> occurrences (dispatches r) hist \<le> 1
      \<and> occurrences dispatched hist \<le> occurrences issues hist"
proof -
  obtain hist st where run: "authority_run pf dp calls empty_authority = (hist, st)" by force
  show ?thesis using counted [OF run] by (simp add: run)
qed

text \<open>
  C22. Behind every dispatch that the executor accepted there is, in this order, a user command or a
  reviewed action that issued an intent for this very target with a life of at most fifteen minutes,
  the activation of that intent by its owner in its turn, its release to its owner for the same
  source, request, turn and target before it expired, and the receipt made for it with the run, the
  parent and the guard of the dispatch.
\<close>

theorem dispatch_has_its_custody:
  assumes "authority_run pf dp calls empty_authority = (pre @ (Dispatch receipt inp throws, Dispatched g) # post, st)"
  shows "\<exists>s r. custody (key_of st) dp receipt inp g s r pre"
  by (rule custody_of [OF assms])

text \<open>
  C24. The first wrong attempt is final: once an activation, a validation or a consumption of an
  intent was refused for its binding, turn, source, request, target or age, the intent was never
  released and never will be, whatever is called, and no dispatch in the history carries its record.
\<close>

theorem wrong_attempt_burns_the_intent:
  assumes "authority_run pf dp calls empty_authority = (pre @ ev # post, st)" and "burns h ev"
  shows "occurrences (releases h) (pre @ ev # post) = 0
    \<and> (\<forall>receipt inp throws g. (Dispatch receipt inp throws, Dispatched g) \<in> set (pre @ ev # post) \<longrightarrow> di_record inp \<noteq> h)"
proof (intro conjI allI impI notI)
  show none: "occurrences (releases h) (pre @ ev # post) = 0" by (rule burnt_not_released [OF assms])
  fix receipt inp throws g
  assume d: "(Dispatch receipt inp throws, Dispatched g) \<in> set (pre @ ev # post)" "di_record inp = h"
  then obtain pre' post' where h: "pre @ ev # post = pre' @ (Dispatch receipt inp throws, Dispatched g) # post'"
    by (meson split_list)
  from custody_of [OF assms(1) [unfolded h]] obtain s r where "custody (key_of st) dp receipt inp g s r pre'" by blast
  then obtain e where "e \<in> set pre'" "releases h e" using custody_released d(2) by blast
  then have "e \<in> set (filter (releases h) (pre @ ev # post))" unfolding h by simp
  with none show False by (simp only: occurrences_def length_0_conv list.set(1) empty_iff)
qed

text \<open>A user command that is dispatched, and one that is consumed in another turn first.\<close>

definition demo_binding :: Binding where
  "demo_binding = \<lparr>bi_workspaceRoot = ''/w'', bi_sessionKey = ''s'', bi_userId = ''u''\<rparr>"

definition demo_host :: Platform where
  "demo_host = \<lparr>pf_parse = (\<lambda>_. None), pf_stringify = (\<lambda>_. ''{}''), pf_number = (\<lambda>_. ''0''), pf_localeCompare = (\<lambda>_ _. 0)\<rparr>"

definition demo_consume :: "string \<Rightarrow> ConsumeInput" where
  "demo_consume turn =
     \<lparr>co_binding = demo_binding, co_source = ''user-command'', co_requestId = ''r1'', co_turnId = turn, co_target = 1, co_now = 2000\<rparr>"

definition demo_dispatch :: DispatchInput where
  "demo_dispatch = \<lparr>di_record = 2, di_runId = ''run'', di_parentExecutionId = ''parent'', di_target = 1\<rparr>"

definition demo_calls :: "string \<Rightarrow> AuthorityCall list" where
  "demo_calls turn =
     [CreateOwner demo_binding, MintTarget (JObj []) (JObj []),
      Issue 0 \<lparr>in_source = ''user-command'', in_requestId = '' r1 '', in_turnId = ''t1'', in_target = 1, in_now = 0, in_ttlMs = None\<rparr>,
      Activate 0 2 demo_binding ''t1'' 1000, Consume 0 2 (demo_consume turn),
      CreateReceipt 0 2 ''run'' ''parent'' (Some 7), Dispatch 3 demo_dispatch None]"

definition demo_parse :: "string \<Rightarrow> int option" where
  "demo_parse s = Some 300000"

definition demo_history :: "string \<Rightarrow> authority_event list \<times> AuthorityState" where
  "demo_history turn = authority_run demo_host demo_parse (demo_calls turn) empty_authority"

lemma run_calls: "map fst (fst (authority_run pf dp cs st)) = cs"
proof (induction cs arbitrary: st)
  case (Cons c cs)
  obtain out st1 where o: "authority_step pf dp c st = (out, st1)" by force
  obtain rest st2 where r: "authority_run pf dp cs st1 = (rest, st2)" by force
  from Cons.IH [of st1] show ?case by (simp add: o r)
qed simp

lemma answer_in_history:
  assumes "n < length calls" "fst (authority_run pf dp calls st) = hist" "snd (hist ! n) = out"
  shows "hist = take n hist @ (calls ! n, out) # drop (Suc n) hist"
proof -
  have m: "map fst hist = calls" using assms(2) run_calls by blast
  then have n: "n < length hist" using assms(1) by (metis length_map)
  with m have "fst (hist ! n) = calls ! n" by (metis nth_map)
  with assms(3) have "hist ! n = (calls ! n, out)" by (metis prod.collapse)
  with id_take_nth_drop [OF n] show ?thesis by simp
qed

lemma demo_shape: "demo_calls turn ! 4 = Consume 0 2 (demo_consume turn)" "demo_calls turn ! 6 = Dispatch 3 demo_dispatch None"
    "length (demo_calls turn) = 7"
  by (simp_all add: demo_calls_def)

lemma demo_words:
  "js_trim '' r1 '' = ''r1''" "js_trim ''t1'' = ''t1''" "js_trim ''/w'' = ''/w''" "js_trim ''s'' = ''s''" "js_trim ''u'' = ''u''"
  "js_trim ''run'' = ''run''" "js_trim ''parent'' = ''parent''" "opaque_id ''r1''" "opaque_id ''t1''" "intent_ttl None = Some 300000"
  by code_simp+

lemmas demo_eval = demo_words demo_history_def demo_calls_def demo_binding_def demo_consume_def demo_dispatch_def demo_parse_def
  empty_authority_def createExecutionIntentOwnerToken_def normalizeBinding_def mintNormalizedTarget_def
  issueExecutionIntent_def to_iso_def activateExecutionIntent_def binding_agrees_def sameBinding_def set_status_def past_def
  consumeExecutionIntent_def consume_refusal_def createExecutionDispatchReceipt_def consumeExecutionDispatchReceipt_def
  use_receipt_def made_def allowed_def Let_def

lemma demo_answers:
  "snd (fst (demo_history ''t1'') ! 6) = Dispatched 7" "snd (fst (demo_history ''t2'') ! 4) = Refused turn_mismatch"
  by (simp_all add: demo_eval)

lemma dispatch_has_its_custody_witness:
  "\<exists>s r. custody (key_of (snd (demo_history ''t1''))) demo_parse 3 demo_dispatch 7 s r (take 6 (fst (demo_history ''t1'')))"
proof -
  have "fst (demo_history ''t1'') = take 6 (fst (demo_history ''t1'')) @ (Dispatch 3 demo_dispatch None, Dispatched 7)
      # drop (Suc 6) (fst (demo_history ''t1''))"
    using answer_in_history [of 6 "demo_calls ''t1''", OF _ refl demo_answers(1) [unfolded demo_history_def]]
    by (simp only: demo_shape demo_history_def)
  then have "authority_run demo_host demo_parse (demo_calls ''t1'') empty_authority =
      (take 6 (fst (demo_history ''t1'')) @ (Dispatch 3 demo_dispatch None, Dispatched 7) # drop (Suc 6) (fst (demo_history ''t1'')),
       snd (demo_history ''t1''))"
    by (metis demo_history_def prod.collapse)
  then show ?thesis by (rule dispatch_has_its_custody)
qed

lemma wrong_attempt_burns_the_intent_witness:
  "occurrences (releases 2) (fst (demo_history ''t2'')) = 0"
proof -
  let ?hist = "fst (demo_history ''t2'')"
  have h: "?hist = take 4 ?hist @ (Consume 0 2 (demo_consume ''t2''), Refused turn_mismatch) # drop (Suc 4) ?hist"
    using answer_in_history [of 4 "demo_calls ''t2''", OF _ refl demo_answers(2) [unfolded demo_history_def]]
    by (simp only: demo_shape demo_history_def)
  have b: "burns 2 (Consume 0 2 (demo_consume ''t2''), Refused turn_mismatch)" by (simp add: burning_def)
  have "authority_run demo_host demo_parse (demo_calls ''t2'') empty_authority =
      (take 4 ?hist @ (Consume 0 2 (demo_consume ''t2''), Refused turn_mismatch) # drop (Suc 4) ?hist, snd (demo_history ''t2''))"
    using h by (metis demo_history_def prod.collapse)
  from wrong_attempt_burns_the_intent [OF this b, THEN conjunct1] show ?thesis by (simp only: h [symmetric])
qed

end
