(* ===== verification/JsDouble.thy ===== *)
theory JsDouble
  imports JsNumber
begin

text \<open>
  Double-precision arithmetic, for the formula engine, whose results a person reads: a finite number
  is the rational it stands for, and every operation rounds to the nearest binary64 value, ties to
  even. Negative zero is not told apart from zero; no operation of the engine can.
\<close>

section \<open>Rounding\<close>

definition pow2 :: "int \<Rightarrow> rat" where
  "pow2 e = (if e \<ge> 0 then of_int (2 ^ nat e) else 1 / of_int (2 ^ nat (- e)))"

fun bit_count :: "int \<Rightarrow> nat" where
  "bit_count n = (if n \<le> 0 then 0 else Suc (bit_count (n div 2)))"

declare bit_count.simps [simp del]

text \<open>The exponent of the leading bit of a positive number.\<close>

definition binary_exponent :: "rat \<Rightarrow> int" where
  "binary_exponent q =
     (case quotient_of q of
        (n, d) \<Rightarrow>
          let e = int (bit_count n) - int (bit_count d)
          in if pow2 e \<le> q then e else e - 1)"

definition round_half_even :: "rat \<Rightarrow> int" where
  "round_half_even q =
     (let f = \<lfloor>q\<rfloor>; r = q - of_int f
      in if r < 1 / 2 then f else if r > 1 / 2 then f + 1 else if even f then f else f + 1)"

text \<open>
  The last place of the result is worth \<open>2^e\<close>; at least \<open>2^1024\<close> is infinite, which is the exponent
  971 with a significand of \<open>2^53\<close>, or more.
\<close>

definition to_double :: "rat \<Rightarrow> number" where
  "to_double q =
     (if q = 0 then Num 0
      else
        let e = max (binary_exponent \<bar>q\<bar> - 52) (- 1074);
            m = round_half_even (q / pow2 e)
        in if e > 971 \<or> (e = 971 \<and> \<bar>m\<bar> = 2 ^ 53) then (if q > 0 then PosInf else NegInf)
           else Num (of_int m * pow2 e))"

definition rounded :: "number \<Rightarrow> number" where
  "rounded n = (case n of Num q \<Rightarrow> to_double q | _ \<Rightarrow> n)"

text \<open>\<open>Number(s)\<close> of a text.\<close>

definition number_of_text :: "string \<Rightarrow> number" where
  "number_of_text s = rounded (string_value s)"

section \<open>Arithmetic\<close>

definition js_add :: "number \<Rightarrow> number \<Rightarrow> number" where
  "js_add a b = rounded (add_number a b)"

definition js_sub :: "number \<Rightarrow> number \<Rightarrow> number" where
  "js_sub a b = js_add a (negated b)"

definition signed_infinity :: "bool \<Rightarrow> number" where
  "signed_infinity negative = (if negative then NegInf else PosInf)"

definition is_negative :: "number \<Rightarrow> bool" where
  "is_negative n = (case n of Num q \<Rightarrow> q < 0 | PosInf \<Rightarrow> False | NegInf \<Rightarrow> True | NaN \<Rightarrow> False)"

definition js_mul :: "number \<Rightarrow> number \<Rightarrow> number" where
  "js_mul a b =
     (case (a, b) of
        (Num p, Num q) \<Rightarrow> to_double (p * q)
      | _ \<Rightarrow> if a = NaN \<or> b = NaN \<or> a = Num 0 \<or> b = Num 0 then NaN
             else signed_infinity (is_negative a \<noteq> is_negative b))"

definition js_div :: "number \<Rightarrow> number \<Rightarrow> number" where
  "js_div a b =
     (case (a, b) of
        (Num p, Num q) \<Rightarrow>
          if q \<noteq> 0 then to_double (p / q) else if p = 0 then NaN else signed_infinity (p < 0)
      | (NaN, _) \<Rightarrow> NaN
      | (_, NaN) \<Rightarrow> NaN
      | (Num _, _) \<Rightarrow> Num 0
      | (_, Num q) \<Rightarrow> signed_infinity (is_negative a \<noteq> (q < 0))
      | _ \<Rightarrow> NaN)"

text \<open>The remainder has the sign of the dividend and is exact.\<close>

definition truncated :: "rat \<Rightarrow> int" where
  "truncated q = (if q \<ge> 0 then \<lfloor>q\<rfloor> else \<lceil>q\<rceil>)"

definition js_rem :: "number \<Rightarrow> number \<Rightarrow> number" where
  "js_rem a b =
     (case (a, b) of
        (Num p, Num q) \<Rightarrow> if q = 0 then NaN else Num (p - q * of_int (truncated (p / q)))
      | (Num p, PosInf) \<Rightarrow> Num p
      | (Num p, NegInf) \<Rightarrow> Num p
      | _ \<Rightarrow> NaN)"

section \<open>Comparison\<close>

definition js_eq :: "number \<Rightarrow> number \<Rightarrow> bool" where
  "js_eq a b \<longleftrightarrow> a = b \<and> a \<noteq> NaN"

definition js_less :: "number \<Rightarrow> number \<Rightarrow> bool" where
  "js_less a b =
     (case (a, b) of
        (NaN, _) \<Rightarrow> False | (_, NaN) \<Rightarrow> False
      | (Num p, Num q) \<Rightarrow> p < q
      | (NegInf, NegInf) \<Rightarrow> False | (NegInf, _) \<Rightarrow> True
      | (_, PosInf) \<Rightarrow> a \<noteq> PosInf
      | _ \<Rightarrow> False)"

text \<open>\<open>Math.min(...ns)\<close> and \<open>Math.max(...ns)\<close>.\<close>

definition js_min2 :: "number \<Rightarrow> number \<Rightarrow> number" where
  "js_min2 a b = (if a = NaN \<or> b = NaN then NaN else if js_less b a then b else a)"

definition js_max2 :: "number \<Rightarrow> number \<Rightarrow> number" where
  "js_max2 a b = (if a = NaN \<or> b = NaN then NaN else if js_less a b then b else a)"

definition js_min :: "number list \<Rightarrow> number" where
  "js_min ns = fold (\<lambda>n acc. js_min2 acc n) ns PosInf"

definition js_max :: "number list \<Rightarrow> number" where
  "js_max ns = fold (\<lambda>n acc. js_max2 acc n) ns NegInf"

section \<open>The functions of \<open>Math\<close>\<close>

definition on_finite :: "(rat \<Rightarrow> rat) \<Rightarrow> number \<Rightarrow> number" where
  "on_finite f n = (case n of Num q \<Rightarrow> Num (f q) | _ \<Rightarrow> n)"

definition js_abs :: "number \<Rightarrow> number" where
  "js_abs n = (case n of Num q \<Rightarrow> Num \<bar>q\<bar> | NaN \<Rightarrow> NaN | _ \<Rightarrow> PosInf)"

definition js_floor :: "number \<Rightarrow> number" where
  "js_floor = on_finite (\<lambda>q. of_int \<lfloor>q\<rfloor>)"

definition js_ceil :: "number \<Rightarrow> number" where
  "js_ceil = on_finite (\<lambda>q. of_int \<lceil>q\<rceil>)"

definition js_trunc :: "number \<Rightarrow> number" where
  "js_trunc = on_finite (\<lambda>q. of_int (truncated q))"

definition js_round_half_up :: "number \<Rightarrow> number" where
  "js_round_half_up = on_finite (\<lambda>q. of_int (js_round q))"

definition js_sign :: "number \<Rightarrow> number" where
  "js_sign n = (case n of Num q \<Rightarrow> Num (sgn q) | PosInf \<Rightarrow> Num 1 | NegInf \<Rightarrow> Num (- 1) | NaN \<Rightarrow> NaN)"

text \<open>\<open>Number(x.toFixed(12))\<close>: the nearest decimal with twelve places, the larger of two.\<close>

definition fixed12 :: "rat \<Rightarrow> number" where
  "fixed12 q =
     (let n = \<lfloor>\<bar>q\<bar> * 10 ^ 12 + 1 / 2\<rfloor>; v = of_int n / 10 ^ 12
      in to_double (if q < 0 then - v else v))"

section \<open>What is exact\<close>

lemma bit_count_bounds: "0 < m \<Longrightarrow> 2 ^ (bit_count m - 1) \<le> m \<and> m < 2 ^ bit_count m"
proof (induction m rule: bit_count.induct)
  case (1 m)
  show ?case
  proof (cases "m div 2 = 0")
    case True
    with "1.prems" have "m = 1" by simp
    then show ?thesis by (simp add: bit_count.simps)
  next
    case False
    with "1.prems" have p: "0 < m div 2" by linarith
    with "1.IH" "1.prems" have ih: "2 ^ (bit_count (m div 2) - 1) \<le> m div 2" "m div 2 < 2 ^ bit_count (m div 2)"
      by simp_all
    have b: "bit_count m = Suc (bit_count (m div 2))" using "1.prems" by (simp add: bit_count.simps [of m])
    have k: "bit_count (m div 2) = Suc (bit_count (m div 2) - 1)" using p by (simp add: bit_count.simps [of "m div 2"])
    have "2 * 2 ^ (bit_count (m div 2) - 1) \<le> m" using ih(1) by linarith
    then have "2 ^ bit_count (m div 2) \<le> m" by (subst k) (simp only: power_Suc)
    moreover have "m < 2 * 2 ^ bit_count (m div 2)" using ih(2) by linarith
    ultimately show ?thesis using b by simp
  qed
qed

lemma binary_exponent_int:
  assumes "0 < m" shows "binary_exponent (of_int m) = int (bit_count m) - 1"
proof -
  have q: "quotient_of (of_int m) = (m, 1)"
    using quotient_of_Fract [of m 1] by (simp add: Fract_of_int_eq Rat.normalize_def)
  have one: "bit_count 1 = 1" by (simp add: bit_count.simps)
  have pos: "bit_count m \<noteq> 0" using assms by (simp add: bit_count.simps)
  have "(of_int (2 ^ (bit_count m - 1)) :: rat) \<le> of_int m"
    using bit_count_bounds [OF assms] by (simp only: of_int_le_iff)
  moreover have "nat (int (bit_count m) - 1) = bit_count m - 1" using pos by simp
  ultimately show ?thesis using pos by (simp add: binary_exponent_def q one pow2_def Let_def del: of_int_power)
qed

lemma round_half_even_int [simp]: "round_half_even (of_int k) = k"
  by (simp add: round_half_even_def)

text \<open>Integers up to \<open>2^53\<close> are doubles.\<close>

lemma to_double_int:
  assumes "\<bar>n\<bar> \<le> 2 ^ 53"
  shows "to_double (of_int n) = Num (of_int n)"
proof (cases "n = 0")
  case True
  then show ?thesis by (simp add: to_double_def)
next
  case False
  define m where "m = \<bar>n\<bar>"
  have m: "0 < m" "m \<le> 2 ^ 53" "n = m \<or> n = - m" using False assms by (auto simp: m_def)
  have q: "\<bar>of_int n :: rat\<bar> = of_int m" by (simp add: m_def)
  define e where "e = max (binary_exponent \<bar>of_int n\<bar> - 52) (- 1074)"
  have be: "binary_exponent \<bar>of_int n\<bar> = int (bit_count m) - 1" using binary_exponent_int [OF m(1)] q by simp
  obtain k where k: "of_int n / pow2 e = (of_int k :: rat)"
  proof (cases "bit_count m \<le> 53")
    case True
    then have "e \<le> 0" using be by (simp add: e_def)
    then have "pow2 e = 1 / of_int (2 ^ nat (- e))" by (cases "e = 0") (simp_all add: pow2_def)
    then have "of_int n / pow2 e = (of_int (n * 2 ^ nat (- e)) :: rat)" by simp
    then show ?thesis by (rule that)
  next
    case False
    then have "2 ^ 53 \<le> (2 :: int) ^ (bit_count m - 1)" by (intro power_increasing) simp_all
    with bit_count_bounds [OF m(1)] m(2) have m2: "m = 2 ^ 53" "(2 :: int) ^ (bit_count m - 1) = 2 ^ 53" by simp_all
    from power_inject_exp [of "2 :: int" "bit_count m - 1" 53] m2(2) False have "bit_count m = 54" by simp
    then have e: "e = 1" using be by (simp add: e_def)
    have "m = 2 * 2 ^ 52" using m2(1) by simp
    with m(3) obtain k where "n = 2 * k" by (metis mult_minus_right)
    with e have "of_int n / pow2 e = (of_int k :: rat)" by (simp add: pow2_def)
    then show ?thesis by (rule that)
  qed
  have p: "pow2 e \<noteq> 0" by (simp add: pow2_def)
  have v: "of_int (round_half_even (of_int n / pow2 e)) * pow2 e = (of_int n :: rat)"
    by (subst k, simp only: round_half_even_int, subst k [symmetric], simp add: p)
  have "bit_count m \<le> 54"
  proof (rule ccontr)
    assume "\<not> bit_count m \<le> 54"
    then have "2 ^ 54 \<le> (2 :: int) ^ (bit_count m - 1)" by (intro power_increasing) simp_all
    with bit_count_bounds [OF m(1)] m(2) show False by simp
  qed
  then have "e \<le> 1" using be by (simp add: e_def)
  then show ?thesis using False v by (simp add: to_double_def Let_def flip: e_def)
qed


end
