(* ===== verification/FormulaParse.thy ===== *)
theory FormulaParse
  imports JsDouble JsText
begin

text \<open>
  The formula language of a database column: its values and errors, \<open>packages/core/src/notes/formula/
  value.ts\<close>, and its scanner and parser, \<open>parse.ts\<close>. A formula arrives from other devices, so it is
  bounded in length, in tokens and in nesting, and every failure is an error value.

  The scanner is a recursion on the text that is left; \<open>n\<close> is the number of tokens so far and \<open>i\<close>
  the index of the next character. The parser's index into the tokens is the list of the tokens that
  are left. Its functions call each other with a fuel, \<open>None\<close> when it runs out; \<open>parseFormula\<close> gives
  enough (theory \<open>FormulaGrammar\<close>).
\<close>

section \<open>Values\<close>

datatype FormulaErrorCode =
    e_syntax | e_too_long | e_too_deep | e_too_large | e_unknown_property | e_unknown_function | e_arity
  | e_type_mismatch | e_divide_by_zero | e_cycle | e_not_computable

record FormulaError =
  fe_code :: FormulaErrorCode
  fe_message :: string

datatype FormulaValue =
    FNumber number
  | FText string
  | FBoolean bool
  | FDate string
  | FList "string list"
  | FEmpty
  | FError FormulaError

definition MAX_FORMULA_LENGTH :: nat where "MAX_FORMULA_LENGTH = 2000"
definition MAX_FORMULA_TEXT :: nat where "MAX_FORMULA_TEXT = 2000"

definition err :: "FormulaErrorCode \<Rightarrow> string \<Rightarrow> FormulaError" where
  "err code message = \<lparr>fe_code = code, fe_message = message\<rparr>"

definition num_value :: "number \<Rightarrow> FormulaValue" where
  "num_value n =
     (if finite_number n then FNumber n
      else FError (err e_type_mismatch ''That calculation does not have a number as its answer.''))"

definition text_value :: "string \<Rightarrow> FormulaValue" where
  "text_value s =
     (if length s > MAX_FORMULA_TEXT
      then FError (err e_too_large ''A formula's text result holds at most 2000 characters.'')
      else FText s)"

definition bool_value :: "bool \<Rightarrow> FormulaValue" where
  "bool_value b = FBoolean b"

definition isError :: "FormulaValue \<Rightarrow> bool" where
  "isError v = (case v of FError _ \<Rightarrow> True | _ \<Rightarrow> False)"

fun firstError :: "FormulaValue list \<Rightarrow> FormulaError option" where
  "firstError [] = None"
| "firstError (v # vs) = (case v of FError e \<Rightarrow> Some e | _ \<Rightarrow> firstError vs)"

fun typeName :: "FormulaValue \<Rightarrow> string" where
  "typeName (FNumber _) = ''a number''"
| "typeName (FText _) = ''text''"
| "typeName (FBoolean _) = ''a checkbox''"
| "typeName (FDate _) = ''a date''"
| "typeName (FList _) = ''a list''"
| "typeName FEmpty = ''nothing''"
| "typeName (FError _) = ''an error''"

definition asNumber :: "FormulaValue \<Rightarrow> FormulaError + number" where
  "asNumber v =
     (case v of
        FNumber n \<Rightarrow> Inr n
      | FError e \<Rightarrow> Inl e
      | _ \<Rightarrow> Inl (err e_type_mismatch (''This needs a number and was given '' @ typeName v @ ''.'')))"

text \<open>\<open>String(n)\<close> of a number is the argument \<open>show\<close>.\<close>

definition asText :: "(number \<Rightarrow> string) \<Rightarrow> FormulaValue \<Rightarrow> FormulaError + string" where
  "asText show v =
     (case v of
        FText s \<Rightarrow> Inr s
      | FError e \<Rightarrow> Inl e
      | FNumber n \<Rightarrow> Inr (show n)
      | FBoolean b \<Rightarrow> Inr (if b then ''Yes'' else ''No'')
      | FDate d \<Rightarrow> Inr d
      | FList vs \<Rightarrow> Inr (js_join '', '' vs)
      | FEmpty \<Rightarrow> Inr [])"

definition asBoolean :: "FormulaValue \<Rightarrow> FormulaError + bool" where
  "asBoolean v =
     (case v of
        FBoolean b \<Rightarrow> Inr b
      | FEmpty \<Rightarrow> Inr False
      | FError e \<Rightarrow> Inl e
      | _ \<Rightarrow> Inl (err e_type_mismatch (''This needs a checkbox and was given '' @ typeName v @ ''.'')))"

section \<open>Tokens\<close>

definition MAX_FORMULA_TOKENS :: nat where "MAX_FORMULA_TOKENS = 512"
definition MAX_FORMULA_DEPTH :: nat where "MAX_FORMULA_DEPTH = 24"

datatype BinaryOp =
    OpPlus | OpMinus | OpTimes | OpDivide | OpModulo | OpPower
  | OpEqual | OpNotEqual | OpLess | OpLessEq | OpGreater | OpGreaterEq | OpAnd | OpOr

datatype UnaryOp = OpNegate | OpNot

datatype FormulaNode =
    NumberNode number
  | TextNode string
  | BooleanNode bool
  | PropertyNode string
  | CallNode string "FormulaNode list"
  | UnaryNode UnaryOp FormulaNode
  | BinaryNode BinaryOp FormulaNode FormulaNode

datatype TokenKind = tk_number | tk_text | tk_name | tk_op | tk_end

record Token =
  tok_kind :: TokenKind
  tok_text :: string
  tok_at :: nat

definition token :: "TokenKind \<Rightarrow> string \<Rightarrow> nat \<Rightarrow> Token" where
  "token k s i = \<lparr>tok_kind = k, tok_text = s, tok_at = i\<rparr>"

definition SPACE :: "char list" where
  "SPACE = [CHR '' '', CHR 0x09, CHR 0x0A, CHR 0x0D, CHR 0x0C, CHR 0x0B]"

definition isDigit :: "char \<Rightarrow> bool" where
  "isDigit ch \<longleftrightarrow> CHR ''0'' \<le> ch \<and> ch \<le> CHR ''9''"

definition isNameStart :: "char \<Rightarrow> bool" where
  "isNameStart ch \<longleftrightarrow> CHR ''a'' \<le> ch \<and> ch \<le> CHR ''z'' \<or> CHR ''A'' \<le> ch \<and> ch \<le> CHR ''Z'' \<or> ch = CHR ''_''"

definition isNameChar :: "char \<Rightarrow> bool" where
  "isNameChar ch \<longleftrightarrow> isNameStart ch \<or> isDigit ch"

definition OPS_2 :: "string list" where
  "OPS_2 = [''!='', ''=='', ''<='', ''>='', ''&&'', ''||'']"

definition OPS_1 :: "char list" where
  "OPS_1 = ''=<>+-*/%^(),''"

text \<open>The text after an opening quote: what it holds, and what follows the closing one.\<close>

fun scan_text :: "char \<Rightarrow> string \<Rightarrow> (string \<times> string) option" where
  "scan_text q [] = None"
| "scan_text q [c] = (if c = q then Some ([], []) else None)"
| "scan_text q (c # d # cs) =
     (if c = CHR 0x5C
      then map_option (\<lambda>(out, rest). ((if d = CHR ''n'' then CHR 0x0A else if d = CHR ''t'' then CHR 0x09 else d) # out, rest))
             (scan_text q cs)
      else if c = q then Some ([], d # cs)
      else map_option (\<lambda>(out, rest). (c # out, rest)) (scan_text q (d # cs)))"

text \<open>A number: digits, and a point with more of them; no exponent.\<close>

definition scan_number :: "string \<Rightarrow> string \<times> string" where
  "scan_number s =
     (let whole = takeWhile isDigit s; rest = dropWhile isDigit s
      in case rest of
           c # cs \<Rightarrow>
             if c = CHR ''.'' then (whole @ c # takeWhile isDigit cs, dropWhile isDigit cs)
             else (whole, rest)
         | [] \<Rightarrow> (whole, rest))"

definition starts_number :: "string \<Rightarrow> bool" where
  "starts_number s =
     (case s of
        c # cs \<Rightarrow> isDigit c \<or> c = CHR ''.'' \<and> (case cs of d # _ \<Rightarrow> isDigit d | [] \<Rightarrow> False)
      | [] \<Rightarrow> False)"

lemma scan_text_shorter: "scan_text q s = Some (out, rest) \<Longrightarrow> length rest < length s"
  by (induction q s arbitrary: out rest rule: scan_text.induct) (auto split: if_splits simp: less_SucI)

lemma scan_number_split: "fst (scan_number s) @ snd (scan_number s) = s"
  by (auto simp: scan_number_def Let_def split: list.splits) (metis takeWhile_dropWhile_id)+

lemma scan_number_progress: "starts_number s \<Longrightarrow> fst (scan_number s) \<noteq> []"
  by (cases s) (auto simp: scan_number_def starts_number_def Let_def split: list.splits)

lemma scan_number_shorter: "starts_number s \<Longrightarrow> length (snd (scan_number s)) < length s"
proof -
  assume "starts_number s"
  then have "0 < length (fst (scan_number s))" using scan_number_progress by simp
  moreover have "length (fst (scan_number s)) + length (snd (scan_number s)) = length s"
    using arg_cong [OF scan_number_split [of s], of length] by simp
  ultimately show ?thesis by linarith
qed

definition left_quote :: string where "left_quote = [CHR 0xE2, CHR 0x80, CHR 0x9C]"
definition closing_quote :: string where "closing_quote = [CHR 0xE2, CHR 0x80, CHR 0x9D]"

definition too_many_tokens :: FormulaError where
  "too_many_tokens = err e_too_long ''A formula holds at most 512 terms.''"

definition unclosed_text :: FormulaError where
  "unclosed_text = err e_syntax ''There is a piece of text in this formula with no closing quote.''"

definition stray_character :: "char \<Rightarrow> FormulaError" where
  "stray_character c =
     err e_syntax (''This formula has a '' @ left_quote @ [c] @ closing_quote
       @ '' in it, which is not something a formula can contain.'')"

definition emit_token :: "Token \<Rightarrow> FormulaError + Token list \<Rightarrow> FormulaError + Token list" where
  "emit_token t r = (case r of Inl e \<Rightarrow> Inl e | Inr ts \<Rightarrow> Inr (t # ts))"

lemma emit_cong [fundef_cong]: "t = t' \<Longrightarrow> r = r' \<Longrightarrow> emit_token t r = emit_token t' r'"
  by simp

function tokenise_from :: "nat \<Rightarrow> nat \<Rightarrow> string \<Rightarrow> FormulaError + Token list" where
  "tokenise_from n i s =
     (case s of
        [] \<Rightarrow> Inr [token tk_end [] i]
      | ch # cs \<Rightarrow>
          if ch \<in> set SPACE then tokenise_from n (i + 1) cs
          else if n \<ge> MAX_FORMULA_TOKENS then Inl too_many_tokens
          else if starts_number s
          then emit_token (token tk_number (fst (scan_number s)) i)
                 (tokenise_from (n + 1) (i + length (fst (scan_number s))) (snd (scan_number s)))
          else if ch = CHR 0x22 \<or> ch = CHR 0x27
          then (case scan_text ch cs of
                  None \<Rightarrow> Inl unclosed_text
                | Some (out, rest) \<Rightarrow>
                    emit_token (token tk_text out i) (tokenise_from (n + 1) (i + (length s - length rest)) rest))
          else if isNameStart ch
          then emit_token (token tk_name (takeWhile isNameChar s) i)
                 (tokenise_from (n + 1) (i + length (takeWhile isNameChar s)) (dropWhile isNameChar s))
          else if take 2 s \<in> set OPS_2
          then emit_token (token tk_op (take 2 s) i) (tokenise_from (n + 1) (i + 2) (drop 2 s))
          else if ch \<in> set OPS_1
          then emit_token (token tk_op [ch] i) (tokenise_from (n + 1) (i + 1) cs)
          else Inl (stray_character ch))"
  by pat_completeness auto
termination
proof (relation "measure (\<lambda>(n, i, s). length s)", goal_cases)
  case (4 n i s ch cs x y z)
  then show ?case using scan_text_shorter [of ch cs y z] by auto
next
  case (5 n i s ch cs)
  then have "isNameChar ch" by (simp add: isNameChar_def)
  with 5 show ?case by (simp add: length_dropWhile_le le_imp_less_Suc)
next
  case (3 n i s ch cs)
  then show ?case using scan_number_shorter [of s] by simp
qed auto

definition tokenise :: "string \<Rightarrow> FormulaError + Token list" where
  "tokenise source = tokenise_from 0 0 source"

declare tokenise_from.simps [simp del]

section \<open>The parser\<close>

definition end_token :: Token where
  "end_token = token tk_end [] 0"

definition peek :: "Token list \<Rightarrow> Token" where
  "peek ts = (case ts of [] \<Rightarrow> end_token | t # _ \<Rightarrow> t)"

text \<open>\<open>next\<close>: the end is never passed.\<close>

definition after_next :: "Token list \<Rightarrow> Token list" where
  "after_next ts = (if tok_kind (peek ts) = tk_end then ts else tl ts)"

definition is_op :: "string \<Rightarrow> Token \<Rightarrow> bool" where
  "is_op s t \<longleftrightarrow> tok_kind t = tk_op \<and> tok_text t = s"

text \<open>Binding power and meaning of the binary operators.\<close>

definition PRECEDENCE :: "(string \<times> nat) list" where
  "PRECEDENCE =
     [(''or'', 1), (''||'', 1), (''and'', 2), (''&&'', 2), (''='', 3), (''=='', 3), (''!='', 3), (''<'', 3), (''<='', 3),
      (''>'', 3), (''>='', 3), (''+'', 4), (''-'', 4), (''*'', 5), (''/'', 5), (''%'', 5), (''^'', 6)]"

definition canonicalOp :: "string \<Rightarrow> BinaryOp" where
  "canonicalOp s =
     (if s = ''||'' \<or> s = ''or'' then OpOr else if s = ''&&'' \<or> s = ''and'' then OpAnd
      else if s = ''=='' \<or> s = ''='' then OpEqual else if s = ''!='' then OpNotEqual
      else if s = ''<'' then OpLess else if s = ''<='' then OpLessEq else if s = ''>'' then OpGreater
      else if s = ''>='' then OpGreaterEq else if s = ''+'' then OpPlus else if s = ''-'' then OpMinus
      else if s = ''*'' then OpTimes else if s = ''/'' then OpDivide else if s = ''%'' then OpModulo else OpPower)"

definition operator_text :: "Token \<Rightarrow> string option" where
  "operator_text t =
     (if tok_kind t = tk_op then Some (tok_text t)
      else if tok_kind t = tk_name \<and> (tok_text t = ''and'' \<or> tok_text t = ''or'') then Some (tok_text t)
      else None)"

text \<open>The operator the loop takes next, with its power: none when the text has no power or one too low.\<close>

definition next_operator :: "nat \<Rightarrow> Token list \<Rightarrow> (string \<times> nat) option" where
  "next_operator minPower ts =
     (case operator_text (peek ts) of
        None \<Rightarrow> None
      | Some s \<Rightarrow>
          (case map_of PRECEDENCE s of
             None \<Rightarrow> None
           | Some p \<Rightarrow> if p < minPower then None else Some (s, p)))"

definition too_deep :: FormulaError where
  "too_deep = err e_too_deep ''A formula nests at most 24 levels deep.''"

definition unclosed_bracket :: FormulaError where
  "unclosed_bracket = err e_syntax ''There is an opening bracket in this formula with no closing one.''"

definition unclosed_call :: "string \<Rightarrow> FormulaError" where
  "unclosed_call name = err e_syntax (''The call to '' @ name @ ''( in this formula has no closing bracket.'')"

definition quoted :: "string \<Rightarrow> string" where
  "quoted s = left_quote @ s @ closing_quote"

type_synonym 'a parse = "(FormulaError + 'a \<times> Token list) option"

text \<open>What follows a part that was read.\<close>

definition and_then :: "'a parse \<Rightarrow> ('a \<Rightarrow> Token list \<Rightarrow> 'b parse) \<Rightarrow> 'b parse" where
  "and_then p f =
     (case p of None \<Rightarrow> None | Some (Inl e) \<Rightarrow> Some (Inl e) | Some (Inr (x, ts)) \<Rightarrow> f x ts)"

lemma and_then_simps [simp]:
  "and_then None f = None" "and_then (Some (Inl e)) f = Some (Inl e)" "and_then (Some (Inr (x, ts))) f = f x ts"
  by (simp_all add: and_then_def)

lemma and_then_cong [fundef_cong]:
  "p = p' \<Longrightarrow> (\<And>x ts. p' = Some (Inr (x, ts)) \<Longrightarrow> f x ts = f' x ts) \<Longrightarrow> and_then p f = and_then p' f'"
  by (cases p' rule: option.exhaust) (auto simp: and_then_def split: sum.splits)

text \<open>\<open>prop("Name")\<close> is a reference to that property.\<close>

definition call_node :: "string \<Rightarrow> FormulaNode list \<Rightarrow> FormulaError + FormulaNode" where
  "call_node name args =
     (if name = ''prop''
      then (case args of
              [TextNode s] \<Rightarrow> Inr (PropertyNode s)
            | _ \<Rightarrow> Inl (err e_syntax (''prop() takes the name of one property, in quotes '' @ em_dash @ '' prop(\"Cost\").'')))
      else Inr (CallNode name args))"

function (sequential) parseExpression :: "nat \<Rightarrow> nat \<Rightarrow> nat \<Rightarrow> Token list \<Rightarrow> FormulaNode parse"
  and climb :: "nat \<Rightarrow> nat \<Rightarrow> nat \<Rightarrow> FormulaNode \<Rightarrow> Token list \<Rightarrow> FormulaNode parse"
  and parseUnary :: "nat \<Rightarrow> nat \<Rightarrow> Token list \<Rightarrow> FormulaNode parse"
  and parsePrimary :: "nat \<Rightarrow> nat \<Rightarrow> Token list \<Rightarrow> FormulaNode parse"
  and parseCall :: "nat \<Rightarrow> string \<Rightarrow> nat \<Rightarrow> Token list \<Rightarrow> FormulaNode parse"
  and parseArgs :: "nat \<Rightarrow> nat \<Rightarrow> FormulaNode list \<Rightarrow> Token list \<Rightarrow> FormulaNode list parse"
where
  "parseExpression 0 minPower depth ts = None"
| "parseExpression (Suc fuel) minPower depth ts =
     (if depth > MAX_FORMULA_DEPTH then Some (Inl too_deep)
      else and_then (parseUnary fuel depth ts) (\<lambda>left ts. climb fuel minPower depth left ts))"
| "climb 0 minPower depth left ts = None"
| "climb (Suc fuel) minPower depth left ts =
     (case next_operator minPower ts of
        None \<Rightarrow> Some (Inr (left, ts))
      | Some (op, p) \<Rightarrow>
          and_then (parseExpression fuel (if op = ''^'' then p else p + 1) (depth + 1) (after_next ts))
            (\<lambda>right ts. climb fuel minPower depth (BinaryNode (canonicalOp op) left right) ts))"
| "parseUnary 0 depth ts = None"
| "parseUnary (Suc fuel) depth ts =
     (if is_op ''-'' (peek ts)
      then and_then (parseUnary fuel (depth + 1) (after_next ts)) (\<lambda>arg ts. Some (Inr (UnaryNode OpNegate arg, ts)))
      else if tok_kind (peek ts) = tk_name \<and> tok_text (peek ts) = ''not''
      then and_then (parseUnary fuel (depth + 1) (after_next ts)) (\<lambda>arg ts. Some (Inr (UnaryNode OpNot arg, ts)))
      else parsePrimary fuel depth ts)"
| "parsePrimary 0 depth ts = None"
| "parsePrimary (Suc fuel) depth ts =
     (if depth > MAX_FORMULA_DEPTH then Some (Inl too_deep)
      else
        let t = peek ts; ts = after_next ts
        in case tok_kind t of
             tk_number \<Rightarrow>
               (let value = number_of_text (tok_text t)
                in if finite_number value then Some (Inr (NumberNode value, ts))
                   else Some (Inl (err e_syntax (quoted (tok_text t) @ '' is not a number this formula can use.''))))
           | tk_text \<Rightarrow> Some (Inr (TextNode (tok_text t), ts))
           | tk_name \<Rightarrow>
               if tok_text t = ''true'' then Some (Inr (BooleanNode True, ts))
               else if tok_text t = ''false'' then Some (Inr (BooleanNode False, ts))
               else if is_op ''('' (peek ts) then parseCall fuel (tok_text t) depth ts
               else Some (Inr (PropertyNode (tok_text t), ts))
           | tk_end \<Rightarrow> Some (Inl (err e_syntax ''This formula stops before it says anything.''))
           | tk_op \<Rightarrow>
               if tok_text t = ''(''
               then and_then (parseExpression fuel 0 (depth + 1) ts) (\<lambda>inner ts.
                      if is_op '')'' (peek ts) then Some (Inr (inner, after_next ts)) else Some (Inl unclosed_bracket))
               else Some (Inl (err e_syntax (''This formula has a '' @ quoted (tok_text t) @ '' where a value should be.''))))"
| "parseCall 0 name depth ts = None"
| "parseCall (Suc fuel) name depth ts =
     (let ts = after_next ts
      in and_then (if is_op '')'' (peek ts) then Some (Inr ([], ts)) else parseArgs fuel depth [] ts) (\<lambda>args ts.
           if \<not> is_op '')'' (peek ts) then Some (Inl (unclosed_call name))
           else (case call_node name args of
                   Inl e \<Rightarrow> Some (Inl e)
                 | Inr node \<Rightarrow> Some (Inr (node, after_next ts)))))"
| "parseArgs 0 depth args ts = None"
| "parseArgs (Suc fuel) depth args ts =
     and_then (parseExpression fuel 0 (depth + 1) ts) (\<lambda>arg ts.
       if is_op '','' (peek ts) then parseArgs fuel depth (args @ [arg]) (after_next ts)
       else Some (Inr (args @ [arg], ts)))"
  by pat_completeness auto
termination
  by (relation "measure (case_sum (case_sum fst (case_sum fst fst)) (case_sum fst (case_sum fst fst)))") auto

text \<open>
  A formula in full. A token is met by at most three nested calls before it is taken, so a fuel of
  three for each is enough.
\<close>

definition parse_fuel :: "Token list \<Rightarrow> nat" where
  "parse_fuel ts = 3 * length ts + 3"

definition parseFormula :: "string \<Rightarrow> (FormulaError + FormulaNode) option" where
  "parseFormula source =
     (if length source > MAX_FORMULA_LENGTH
      then Some (Inl (err e_too_long ''A formula holds at most 2000 characters.''))
      else if js_trim source = [] then Some (Inl (err e_syntax ''This column has no formula in it yet.''))
      else
        case tokenise source of
          Inl e \<Rightarrow> Some (Inl e)
        | Inr tokens \<Rightarrow>
            (case parseExpression (parse_fuel tokens) 0 0 tokens of
               None \<Rightarrow> None
             | Some (Inl e) \<Rightarrow> Some (Inl e)
             | Some (Inr (node, ts)) \<Rightarrow>
                 if tok_kind (peek ts) = tk_end then Some (Inr node)
                 else Some (Inl (err e_syntax
                        (''This formula has a '' @ quoted (tok_text (peek ts)) @ '' after it has already finished.'')))))"

text \<open>The properties a formula reads, in the order of their first mention.\<close>

fun formula_reads :: "nat \<Rightarrow> FormulaNode \<Rightarrow> string list \<Rightarrow> string list" where
  "formula_reads depth node found =
     (if depth > MAX_FORMULA_DEPTH * 2 then found
      else
        case node of
          PropertyNode name \<Rightarrow> if name \<in> set found then found else found @ [name]
        | CallNode _ args \<Rightarrow> fold (\<lambda>arg found. formula_reads (depth + 1) arg found) args found
        | UnaryNode _ arg \<Rightarrow> formula_reads (depth + 1) arg found
        | BinaryNode _ l r \<Rightarrow> formula_reads (depth + 1) r (formula_reads (depth + 1) l found)
        | _ \<Rightarrow> found)"

definition formulaDependencies :: "FormulaNode \<Rightarrow> string list" where
  "formulaDependencies node = formula_reads 0 node []"


end
