(* ===== verification/FormulaRoundtrip.thy ===== *)
theory FormulaRoundtrip
  imports FormulaGrammar
begin

text \<open>
  The precedence of the parser, as a round trip: a printer that puts brackets only where the
  binding powers ask for them, and the theorem that parsing its text gives the tree back.
\<close>

section \<open>More fuel changes nothing\<close>

lemmas parser_eqs = parseExpression.simps(2) climb.simps(2) parseUnary.simps(2) parsePrimary.simps(2) parseCall.simps(2)
  parseArgs.simps(2)

declare parser_eqs [simp del]

lemma then_mono:
  assumes "and_then p f = Some r" "\<And>r. p = Some r \<Longrightarrow> p' = Some r" "\<And>x ts r. f x ts = Some r \<Longrightarrow> f' x ts = Some r"
  shows "and_then p' f' = Some r"
  using assms(1,3) assms(2) [of "the p"] by (cases p rule: option.exhaust) (auto simp: and_then_def split: sum.splits)

definition fuel_mono :: "nat \<Rightarrow> bool" where
  "fuel_mono fuel \<longleftrightarrow>
     (\<forall>p d ts r. parseExpression fuel p d ts = Some r \<longrightarrow> parseExpression (Suc fuel) p d ts = Some r) \<and>
     (\<forall>p d l ts r. climb fuel p d l ts = Some r \<longrightarrow> climb (Suc fuel) p d l ts = Some r) \<and>
     (\<forall>d ts r. parseUnary fuel d ts = Some r \<longrightarrow> parseUnary (Suc fuel) d ts = Some r) \<and>
     (\<forall>d ts r. parsePrimary fuel d ts = Some r \<longrightarrow> parsePrimary (Suc fuel) d ts = Some r) \<and>
     (\<forall>name d ts r. parseCall fuel name d ts = Some r \<longrightarrow> parseCall (Suc fuel) name d ts = Some r) \<and>
     (\<forall>d args ts r. parseArgs fuel d args ts = Some r \<longrightarrow> parseArgs (Suc fuel) d args ts = Some r)"

lemma fuel_monoD:
  assumes "fuel_mono fuel"
  shows "parseExpression fuel p d ts = Some r \<Longrightarrow> parseExpression (Suc fuel) p d ts = Some r"
    and "climb fuel p d l ts = Some r \<Longrightarrow> climb (Suc fuel) p d l ts = Some r"
    and "parseUnary fuel d ts = Some r \<Longrightarrow> parseUnary (Suc fuel) d ts = Some r"
    and "parsePrimary fuel d ts = Some r \<Longrightarrow> parsePrimary (Suc fuel) d ts = Some r"
    and "parseCall fuel name d ts = Some r \<Longrightarrow> parseCall (Suc fuel) name d ts = Some r"
    and "parseArgs fuel d args ts = Some ra \<Longrightarrow> parseArgs (Suc fuel) d args ts = Some ra"
  using assms by (simp_all add: fuel_mono_def)

lemma if_mono:
  "(if c then a else b) = Some r \<Longrightarrow> (a = Some r \<Longrightarrow> a' = Some r) \<Longrightarrow> (b = Some r \<Longrightarrow> b' = Some r) \<Longrightarrow>
   (if c then a' else b') = Some r"
  by (simp split: if_splits)

lemma fuel_mono_step:
  assumes "fuel_mono fuel"
  shows "parseExpression (Suc fuel) p d ts = Some r \<Longrightarrow> parseExpression (Suc (Suc fuel)) p d ts = Some r"
    and "climb (Suc fuel) p d l ts = Some r \<Longrightarrow> climb (Suc (Suc fuel)) p d l ts = Some r"
    and "parseUnary (Suc fuel) d ts = Some r \<Longrightarrow> parseUnary (Suc (Suc fuel)) d ts = Some r"
    and "parsePrimary (Suc fuel) d ts = Some r \<Longrightarrow> parsePrimary (Suc (Suc fuel)) d ts = Some r"
    and "parseCall (Suc fuel) name d ts = Some r \<Longrightarrow> parseCall (Suc (Suc fuel)) name d ts = Some r"
    and "parseArgs (Suc fuel) d args ts = Some ra \<Longrightarrow> parseArgs (Suc (Suc fuel)) d args ts = Some ra"
proof -
  note m = fuel_monoD [OF assms]
  show "parseExpression (Suc fuel) p d ts = Some r \<Longrightarrow> parseExpression (Suc (Suc fuel)) p d ts = Some r"
    unfolding parseExpression.simps(2) [of "Suc fuel" p d ts] parseExpression.simps(2) [of fuel p d ts] by (erule if_mono) (assumption, erule then_mono, erule m(3), erule m(2))
  show "climb (Suc fuel) p d l ts = Some r \<Longrightarrow> climb (Suc (Suc fuel)) p d l ts = Some r"
  proof (cases "next_operator p ts")
    case (Some x)
    obtain op q where x: "x = (op, q)" by force
    have eq: "climb (Suc n) p d l ts =
        and_then (parseExpression n (if op = ''^'' then q else q + 1) (d + 1) (after_next ts))
          (\<lambda>right ts. climb n p d (BinaryNode (canonicalOp op) l right) ts)" for n
      by (simp add: climb.simps(2) Some x)
    assume "climb (Suc fuel) p d l ts = Some r"
    then show ?thesis by (subst eq, subst (asm) eq) (erule then_mono, erule m(1), erule m(2))
  qed (simp add: climb.simps(2))
  show "parseUnary (Suc fuel) d ts = Some r \<Longrightarrow> parseUnary (Suc (Suc fuel)) d ts = Some r"
    unfolding parseUnary.simps(2) [of "Suc fuel" d ts] parseUnary.simps(2) [of fuel d ts]
    by (erule if_mono, erule then_mono, erule m(3), assumption, erule if_mono, erule then_mono, erule m(3), assumption, erule m(4))
  show "parsePrimary (Suc fuel) d ts = Some r \<Longrightarrow> parsePrimary (Suc (Suc fuel)) d ts = Some r"
    unfolding parsePrimary.simps(2) [of "Suc fuel" d ts] parsePrimary.simps(2) [of fuel d ts] Let_def
    by (cases "tok_kind (peek ts)") (auto split: if_splits elim!: then_mono m(1) m(5))
  show "parseCall (Suc fuel) name d ts = Some r \<Longrightarrow> parseCall (Suc (Suc fuel)) name d ts = Some r"
    unfolding parseCall.simps(2) [of "Suc fuel" name d ts] parseCall.simps(2) [of fuel name d ts] Let_def by (erule then_mono) (erule if_mono, assumption, erule m(6), assumption)
  show "parseArgs (Suc fuel) d args ts = Some ra \<Longrightarrow> parseArgs (Suc (Suc fuel)) d args ts = Some ra"
    unfolding parseArgs.simps(2) [of "Suc fuel" d args ts] parseArgs.simps(2) [of fuel d args ts] by (erule then_mono) (erule m(1), erule if_mono, erule m(6), assumption)
qed

lemma fuel_mono: "fuel_mono fuel"
proof (induction fuel)
  case 0
  show ?case by (simp add: fuel_mono_def)
next
  case (Suc fuel)
  note step = fuel_mono_step [OF Suc]
  show ?case by (subst fuel_mono_def) (intro conjI allI impI step)
qed

lemma up_to:
  "(\<And>h. q h = Some x \<Longrightarrow> q (Suc h) = Some x) \<Longrightarrow> q f = Some x \<Longrightarrow> f \<le> g \<Longrightarrow> q g = Some x"
  by (induction g rule: nat_induct) (auto simp: le_Suc_eq)

lemma more_fuel:
  shows "parseExpression f p d ts = Some r \<Longrightarrow> f \<le> g \<Longrightarrow> parseExpression g p d ts = Some r"
    and "climb f p d l ts = Some r \<Longrightarrow> f \<le> g \<Longrightarrow> climb g p d l ts = Some r"
    and "parseUnary f d ts = Some r \<Longrightarrow> f \<le> g \<Longrightarrow> parseUnary g d ts = Some r"
    and "parsePrimary f d ts = Some r \<Longrightarrow> f \<le> g \<Longrightarrow> parsePrimary g d ts = Some r"
    and "parseCall f name d ts = Some r \<Longrightarrow> f \<le> g \<Longrightarrow> parseCall g name d ts = Some r"
    and "parseArgs f d args ts = Some ra \<Longrightarrow> f \<le> g \<Longrightarrow> parseArgs g d args ts = Some ra"
proof -
  note m = fuel_monoD [OF fuel_mono]
  show "parseExpression f p d ts = Some r \<Longrightarrow> f \<le> g \<Longrightarrow> parseExpression g p d ts = Some r"
    by (rule up_to [where q = "\<lambda>f. parseExpression f p d ts"], rule m(1))
  show "climb f p d l ts = Some r \<Longrightarrow> f \<le> g \<Longrightarrow> climb g p d l ts = Some r"
    by (rule up_to [where q = "\<lambda>f. climb f p d l ts"], rule m(2))
  show "parseUnary f d ts = Some r \<Longrightarrow> f \<le> g \<Longrightarrow> parseUnary g d ts = Some r"
    by (rule up_to [where q = "\<lambda>f. parseUnary f d ts"], rule m(3))
  show "parsePrimary f d ts = Some r \<Longrightarrow> f \<le> g \<Longrightarrow> parsePrimary g d ts = Some r"
    by (rule up_to [where q = "\<lambda>f. parsePrimary f d ts"], rule m(4))
  show "parseCall f name d ts = Some r \<Longrightarrow> f \<le> g \<Longrightarrow> parseCall g name d ts = Some r"
    by (rule up_to [where q = "\<lambda>f. parseCall f name d ts"], rule m(5))
  show "parseArgs f d args ts = Some ra \<Longrightarrow> f \<le> g \<Longrightarrow> parseArgs g d args ts = Some ra"
    by (rule up_to [where q = "\<lambda>f. parseArgs f d args ts"], rule m(6))
qed

section \<open>The parser as rules\<close>

definition expression :: "nat \<Rightarrow> nat \<Rightarrow> Token list \<Rightarrow> FormulaError + FormulaNode \<times> Token list \<Rightarrow> bool" where
  "expression p d ts r \<longleftrightarrow> (\<exists>f. parseExpression f p d ts = Some r)"

definition climbing :: "nat \<Rightarrow> nat \<Rightarrow> FormulaNode \<Rightarrow> Token list \<Rightarrow> FormulaError + FormulaNode \<times> Token list \<Rightarrow> bool" where
  "climbing p d l ts r \<longleftrightarrow> (\<exists>f. climb f p d l ts = Some r)"

definition unary :: "nat \<Rightarrow> Token list \<Rightarrow> FormulaError + FormulaNode \<times> Token list \<Rightarrow> bool" where
  "unary d ts r \<longleftrightarrow> (\<exists>f. parseUnary f d ts = Some r)"

definition arguments :: "nat \<Rightarrow> FormulaNode list \<Rightarrow> Token list \<Rightarrow> FormulaError + FormulaNode list \<times> Token list \<Rightarrow> bool" where
  "arguments d args ts r \<longleftrightarrow> (\<exists>f. parseArgs f d args ts = Some r)"

lemma expression_rule:
  assumes "d \<le> MAX_FORMULA_DEPTH" "unary d ts (Inr (l, ts'))" "climbing p d l ts' r"
  shows "expression p d ts r"
proof -
  obtain f g where "parseUnary f d ts = Some (Inr (l, ts'))" "climb g p d l ts' = Some r"
    using assms unfolding unary_def climbing_def by blast
  then have "parseUnary (max f g) d ts = Some (Inr (l, ts'))" "climb (max f g) p d l ts' = Some r"
    using more_fuel(2,3) by (meson max.cobounded1 max.cobounded2)+
  then have "parseExpression (Suc (max f g)) p d ts = Some r" using assms(1) by (simp add: parser_eqs)
  then show ?thesis unfolding expression_def by blast
qed

lemma climbing_stop: "next_operator p ts = None \<Longrightarrow> climbing p d l ts (Inr (l, ts))"
  unfolding climbing_def by (intro exI [of _ "Suc 0"]) (simp add: parser_eqs)

lemma climbing_step:
  assumes "next_operator p ts = Some (op, q)"
    and "expression (if op = ''^'' then q else q + 1) (d + 1) (after_next ts) (Inr (x, ts'))"
    and "climbing p d (BinaryNode (canonicalOp op) l x) ts' r"
  shows "climbing p d l ts r"
proof -
  obtain f g where "parseExpression f (if op = ''^'' then q else q + 1) (d + 1) (after_next ts) = Some (Inr (x, ts'))"
    "climb g p d (BinaryNode (canonicalOp op) l x) ts' = Some r"
    using assms unfolding expression_def climbing_def by blast
  then have "parseExpression (max f g) (if op = ''^'' then q else q + 1) (d + 1) (after_next ts) = Some (Inr (x, ts'))"
    "climb (max f g) p d (BinaryNode (canonicalOp op) l x) ts' = Some r"
    using more_fuel(1,2) by (meson max.cobounded1 max.cobounded2)+
  then have "climb (Suc (max f g)) p d l ts = Some r" using assms(1) by (simp add: parser_eqs)
  then show ?thesis unfolding climbing_def by blast
qed

lemma unary_minus:
  assumes "is_op ''-'' (peek ts)" "unary (d + 1) (after_next ts) (Inr (x, ts'))"
  shows "unary d ts (Inr (UnaryNode OpNegate x, ts'))"
proof -
  obtain f where "parseUnary f (d + 1) (after_next ts) = Some (Inr (x, ts'))" using assms unfolding unary_def by blast
  then have "parseUnary (Suc f) d ts = Some (Inr (UnaryNode OpNegate x, ts'))" using assms(1) by (simp add: parser_eqs)
  then show ?thesis unfolding unary_def by blast
qed

lemma unary_not:
  assumes "tok_kind (peek ts) = tk_name" "tok_text (peek ts) = ''not''" "unary (d + 1) (after_next ts) (Inr (x, ts'))"
  shows "unary d ts (Inr (UnaryNode OpNot x, ts'))"
proof -
  obtain f where "parseUnary f (d + 1) (after_next ts) = Some (Inr (x, ts'))" using assms unfolding unary_def by blast
  then have "parseUnary (Suc f) d ts = Some (Inr (UnaryNode OpNot x, ts'))" using assms(1,2) by (simp add: is_op_def parser_eqs)
  then show ?thesis unfolding unary_def by blast
qed

lemma unary_primary:
  assumes "\<not> is_op ''-'' (peek ts)" "\<not> (tok_kind (peek ts) = tk_name \<and> tok_text (peek ts) = ''not'')"
    and "parsePrimary f d ts = Some r"
  shows "unary d ts r"
proof -
  have "parseUnary (Suc f) d ts = Some r"
    unfolding parseUnary.simps(2) if_not_P [OF assms(1)] if_not_P [OF assms(2)] by (rule assms(3))
  then show ?thesis unfolding unary_def by blast
qed

lemma unary_bracket:
  assumes "d \<le> MAX_FORMULA_DEPTH" "is_op ''('' (peek ts)" "expression 0 (d + 1) (after_next ts) (Inr (x, ts'))" "is_op '')'' (peek ts')"
  shows "unary d ts (Inr (x, after_next ts'))"
proof -
  obtain f where "parseExpression f 0 (d + 1) (after_next ts) = Some (Inr (x, ts'))" using assms(3) unfolding expression_def by blast
  then have "parsePrimary (Suc f) d ts = Some (Inr (x, after_next ts'))" using assms by (simp add: is_op_def Let_def parser_eqs)
  then show ?thesis using assms(2) by (intro unary_primary) (auto simp: is_op_def)
qed

lemma arguments_last:
  assumes "expression 0 (d + 1) ts (Inr (x, ts'))" "\<not> is_op '','' (peek ts')"
  shows "arguments d args ts (Inr (args @ [x], ts'))"
proof -
  obtain f where "parseExpression f 0 (d + 1) ts = Some (Inr (x, ts'))" using assms unfolding expression_def by blast
  then have "parseArgs (Suc f) d args ts = Some (Inr (args @ [x], ts'))" using assms(2) by (simp add: parser_eqs)
  then show ?thesis unfolding arguments_def by blast
qed

lemma arguments_more:
  assumes "expression 0 (d + 1) ts (Inr (x, ts'))" "is_op '','' (peek ts')" "arguments d (args @ [x]) (after_next ts') r"
  shows "arguments d args ts r"
proof -
  obtain f g where "parseExpression f 0 (d + 1) ts = Some (Inr (x, ts'))" "parseArgs g d (args @ [x]) (after_next ts') = Some r"
    using assms unfolding expression_def arguments_def by blast
  then have "parseExpression (max f g) 0 (d + 1) ts = Some (Inr (x, ts'))"
    "parseArgs (max f g) d (args @ [x]) (after_next ts') = Some r"
    using more_fuel(1,6) by (meson max.cobounded1 max.cobounded2)+
  then have "parseArgs (Suc (max f g)) d args ts = Some r" using assms(2) by (simp add: parser_eqs)
  then show ?thesis unfolding arguments_def by blast
qed

text \<open>A call: a name, its bracket, the arguments, the closing bracket.\<close>

lemma unary_call:
  assumes d: "d \<le> MAX_FORMULA_DEPTH" and n: "tok_kind (peek ts) = tk_name" "tok_text (peek ts) \<notin> {''true'', ''false'', ''not''}"
    and o: "is_op ''('' (peek (after_next ts))"
    and a: "is_op '')'' (peek (after_next (after_next ts))) \<and> args = [] \<and> ts' = after_next (after_next ts) \<or>
      \<not> is_op '')'' (peek (after_next (after_next ts))) \<and> arguments d [] (after_next (after_next ts)) (Inr (args, ts'))"
    and c: "is_op '')'' (peek ts')" "call_node (tok_text (peek ts)) args = Inr x"
  shows "unary d ts (Inr (x, after_next ts'))"
proof -
  obtain f where "(if is_op '')'' (peek (after_next (after_next ts))) then Some (Inr ([], after_next (after_next ts)))
      else parseArgs f d [] (after_next (after_next ts))) = Some (Inr (args, ts'))"
    using a unfolding arguments_def by auto
  then have "parseCall (Suc f) (tok_text (peek ts)) d (after_next ts) = Some (Inr (x, after_next ts'))"
    using c by (simp only: parseCall.simps(2) Let_def and_then_simps) simp
  then have "parsePrimary (Suc (Suc f)) d ts = Some (Inr (x, after_next ts'))"
    using d n o by (simp only: parsePrimary.simps(2) Let_def) simp
  then show ?thesis using n by (intro unary_primary) (auto simp: is_op_def)
qed

section \<open>Printing\<close>

text \<open>The text of an operator, and its power.\<close>

fun op_text :: "BinaryOp \<Rightarrow> string" where
  "op_text OpPlus = ''+''" | "op_text OpMinus = ''-''" | "op_text OpTimes = ''*''" | "op_text OpDivide = ''/''"
| "op_text OpModulo = ''%''" | "op_text OpPower = ''^''" | "op_text OpEqual = ''=''" | "op_text OpNotEqual = ''!=''"
| "op_text OpLess = ''<''" | "op_text OpLessEq = ''<=''" | "op_text OpGreater = ''>''" | "op_text OpGreaterEq = ''>=''"
| "op_text OpAnd = ''and''" | "op_text OpOr = ''or''"

fun op_power :: "BinaryOp \<Rightarrow> nat" where
  "op_power OpOr = 1" | "op_power OpAnd = 2" | "op_power OpPlus = 4" | "op_power OpMinus = 4" | "op_power OpTimes = 5"
| "op_power OpDivide = 5" | "op_power OpModulo = 5" | "op_power OpPower = 6" | "op_power _ = 3"

definition op_kind :: "BinaryOp \<Rightarrow> TokenKind" where
  "op_kind op = (if op = OpAnd \<or> op = OpOr then tk_name else tk_op)"

text \<open>The levels its operands are printed at: the power of the operator, or one more where the same
  power would be read the other way.\<close>

definition left_level :: "BinaryOp \<Rightarrow> nat" where
  "left_level op = (if op = OpPower then 7 else op_power op)"

definition right_level :: "BinaryOp \<Rightarrow> nat" where
  "right_level op = (if op = OpPower then 6 else op_power op + 1)"

type_synonym word = "TokenKind \<times> string"

definition word_of :: "Token \<Rightarrow> word" where
  "word_of t = (tok_kind t, tok_text t)"

definition plain_name :: "string \<Rightarrow> bool" where
  "plain_name s \<longleftrightarrow> s \<noteq> [] \<and> isNameStart (hd s) \<and> list_all isNameChar s \<and> s \<notin> {''true'', ''false'', ''not'', ''and'', ''or''}"

fun commas :: "word list list \<Rightarrow> word list" where
  "commas [] = []"
| "commas [x] = x"
| "commas (x # xs) = x @ (tk_op, '','') # commas xs"

text \<open>\<open>lit\<close> is the spelling of a number.\<close>

fun print :: "(number \<Rightarrow> string) \<Rightarrow> nat \<Rightarrow> FormulaNode \<Rightarrow> word list" where
  "print lit q (NumberNode n) = [(tk_number, lit n)]"
| "print lit q (TextNode s) = [(tk_text, s)]"
| "print lit q (BooleanNode b) = [(tk_name, if b then ''true'' else ''false'')]"
| "print lit q (PropertyNode s) =
     (if plain_name s then [(tk_name, s)] else [(tk_name, ''prop''), (tk_op, ''(''), (tk_text, s), (tk_op, '')'')])"
| "print lit q (CallNode f args) = (tk_name, f) # (tk_op, ''('') # commas (map (print lit 0) args) @ [(tk_op, '')'')]"
| "print lit q (UnaryNode op x) = (case op of OpNegate \<Rightarrow> (tk_op, ''-'') | OpNot \<Rightarrow> (tk_name, ''not'')) # print lit 7 x"
| "print lit q (BinaryNode op l r) =
     (let body = print lit (left_level op) l @ (op_kind op, op_text op) # print lit (right_level op) r
      in if op_power op < q then (tk_op, ''('') # body @ [(tk_op, '')'')] else body)"

text \<open>The tree can be printed, and the nesting its text has fits under \<open>MAX_FORMULA_DEPTH\<close> from depth \<open>d\<close> on.\<close>

fun printable :: "(number \<Rightarrow> string) \<Rightarrow> FormulaNode \<Rightarrow> bool" where
  "printable lit (NumberNode n) \<longleftrightarrow> finite_number n \<and> number_of_text (lit n) = n
     \<and> starts_number (lit n) \<and> scan_number (lit n) = (lit n, [])"
| "printable lit (TextNode s) \<longleftrightarrow> True"
| "printable lit (BooleanNode b) \<longleftrightarrow> True"
| "printable lit (PropertyNode s) \<longleftrightarrow> True"
| "printable lit (CallNode f args) \<longleftrightarrow> plain_name f \<and> f \<noteq> ''prop'' \<and> list_all (printable lit) args"
| "printable lit (UnaryNode op x) \<longleftrightarrow> printable lit x"
| "printable lit (BinaryNode op l r) \<longleftrightarrow> printable lit l \<and> printable lit r"

fun fits :: "nat \<Rightarrow> nat \<Rightarrow> FormulaNode \<Rightarrow> bool" where
  "fits d q (PropertyNode s) \<longleftrightarrow> (if plain_name s then d else d + 1) \<le> MAX_FORMULA_DEPTH"
| "fits d q (CallNode f args) \<longleftrightarrow> d \<le> MAX_FORMULA_DEPTH \<and> list_all (fits (d + 1) 0) args"
| "fits d q (UnaryNode op x) \<longleftrightarrow> fits (d + 1) 7 x"
| "fits d q (BinaryNode op l r) \<longleftrightarrow>
     (if op_power op < q then d \<le> MAX_FORMULA_DEPTH \<and> fits (d + 1) (left_level op) l \<and> fits (d + 2) (right_level op) r
      else fits d (left_level op) l \<and> fits (d + 1) (right_level op) r)"
| "fits d q _ \<longleftrightarrow> d \<le> MAX_FORMULA_DEPTH"

lemma fits_depth: "fits d q x \<Longrightarrow> d \<le> MAX_FORMULA_DEPTH"
  by (induction d q x rule: fits.induct) (auto split: if_splits)

section \<open>Reading back\<close>

text \<open>The power of the operator that follows, if one does, and what may follow a tree at a level.\<close>

definition power_after :: "Token list \<Rightarrow> nat" where
  "power_after ts = (case next_operator 0 ts of None \<Rightarrow> 0 | Some (op, p) \<Rightarrow> p)"

definition follows :: "nat \<Rightarrow> Token list \<Rightarrow> bool" where
  "follows q ts \<longleftrightarrow> \<not> is_op ''('' (peek ts) \<and> power_after ts < (if q \<le> 5 then q + 1 else q)"

lemma powers_positive: "map_of PRECEDENCE s = Some p \<Longrightarrow> 0 < p"
  by (drule map_of_SomeD) (auto simp: PRECEDENCE_def)

lemma next_operator_none: "power_after ts < p \<Longrightarrow> next_operator p ts = None"
  by (auto simp: power_after_def next_operator_def split: option.splits)

lemma peek_word: "map word_of ts = w # ws \<Longrightarrow> \<exists>t ts'. ts = t # ts' \<and> tok_kind t = fst w \<and> tok_text t = snd w \<and> map word_of ts' = ws"
  by (cases ts) (auto simp: word_of_def)

lemma op_lookup:
  "map_of PRECEDENCE (op_text op) = Some (op_power op)" "canonicalOp (op_text op) = op" "op_text op = ''^'' \<longleftrightarrow> op = OpPower"
  by (cases op; simp add: PRECEDENCE_def canonicalOp_def)+

lemma operator_next:
  assumes "tok_kind t = op_kind op" "tok_text t = op_text op" "p \<le> op_power op"
  shows "next_operator p (t # ts) = Some (op_text op, op_power op)"
proof -
  have "operator_text t = Some (op_text op)"
    using assms(1,2) by (cases op) (simp_all add: operator_text_def op_kind_def)
  with assms(3) show ?thesis by (simp add: next_operator_def peek_def op_lookup)
qed

lemma operator_follows:
  assumes "tok_kind t = op_kind op" "tok_text t = op_text op"
  shows "follows (left_level op) (t # ts)"
proof -
  have "power_after (t # ts) = op_power op" using operator_next [OF assms, of 0 ts] by (simp add: power_after_def)
  moreover have "\<not> is_op ''('' t" using assms(2) by (cases op) (simp_all add: is_op_def)
  ultimately show ?thesis by (cases op) (simp_all add: follows_def left_level_def peek_def)
qed

lemma follows_right:
  assumes "follows q ts" "q \<le> op_power op"
  shows "follows (right_level op) ts \<and> next_operator (right_level op) ts = None"
proof -
  have "power_after ts < right_level op" using assms by (cases op) (auto simp: follows_def right_level_def split: if_splits)
  moreover have "\<not> is_op ''('' (peek ts)" using assms by (simp add: follows_def)
  ultimately show ?thesis using next_operator_none by (auto simp: follows_def)
qed

lemma closing_follows: "tok_kind t = tk_op \<Longrightarrow> tok_text t \<in> {'')'', '',''} \<Longrightarrow> follows 0 (t # ts) \<and> next_operator 0 (t # ts) = None"
  by (auto simp: follows_def power_after_def next_operator_def operator_text_def PRECEDENCE_def peek_def is_op_def)

lemma after_next_Cons [simp]: "tok_kind t \<noteq> tk_end \<Longrightarrow> after_next (t # ts) = ts"
  by (simp add: after_next_def peek_def)

lemma peek_Cons [simp]: "peek (t # ts) = t"
  by (simp add: peek_def)

text \<open>What the theorem says of a tree at a level.\<close>

definition reads_back :: "(number \<Rightarrow> string) \<Rightarrow> FormulaNode \<Rightarrow> bool" where
  "reads_back lit x \<longleftrightarrow>
     (\<forall>q d p ts rest r. map word_of ts = print lit q x \<longrightarrow> fits d q x \<longrightarrow> p \<le> q \<longrightarrow> follows q rest \<longrightarrow>
        climbing p d x rest r \<longrightarrow> expression p d (ts @ rest) r) \<and>
     (\<forall>d ts rest. map word_of ts = print lit 7 x \<longrightarrow> fits d 7 x \<longrightarrow> \<not> is_op ''('' (peek rest) \<longrightarrow>
        unary d (ts @ rest) (Inr (x, rest)))"

lemma reads_backD:
  assumes "reads_back lit x"
  shows "map word_of ts = print lit q x \<Longrightarrow> fits d q x \<Longrightarrow> p \<le> q \<Longrightarrow> follows q rest \<Longrightarrow> climbing p d x rest r \<Longrightarrow>
      expression p d (ts @ rest) r"
    and "map word_of ts = print lit 7 x \<Longrightarrow> fits d 7 x \<Longrightarrow> \<not> is_op ''('' (peek rest) \<Longrightarrow> unary d (ts @ rest) (Inr (x, rest))"
  using assms unfolding reads_back_def by blast+

text \<open>A tree that is one operand wherever it stands.\<close>

lemma operand_reads_back:
  assumes "\<And>q. print lit q x = print lit 7 x" "\<And>d q. fits d q x = fits d 7 x"
    and "\<And>d ts rest. map word_of ts = print lit 7 x \<Longrightarrow> fits d 7 x \<Longrightarrow> \<not> is_op ''('' (peek rest) \<Longrightarrow> unary d (ts @ rest) (Inr (x, rest))"
  shows "reads_back lit x"
proof -
  have "expression p d (ts @ rest) r"
    if "map word_of ts = print lit q x" "fits d q x" "follows q rest" "climbing p d x rest r" for q d p ts rest r
  proof (rule expression_rule)
    show "d \<le> MAX_FORMULA_DEPTH" using fits_depth [OF that(2)] .
    show "unary d (ts @ rest) (Inr (x, rest))"
      by (rule assms(3)) (use that(1) assms(1) [of q] in simp, use that(2) assms(2) [of d q] in simp,
        use that(3) in \<open>simp add: follows_def\<close>)
  qed (rule that(4))
  with assms(3) show ?thesis unfolding reads_back_def by blast
qed

lemma unary_leaf:
  assumes "tok_kind t \<noteq> tk_op" "\<not> (tok_kind t = tk_name \<and> tok_text t = ''not'')" "parsePrimary (Suc 0) d (t # rest) = Some r"
  shows "unary d (t # rest) r"
  by (rule unary_primary [OF _ _ assms(3)]) (use assms in \<open>simp_all add: is_op_def\<close>)

lemma number_reads_back: "printable lit (NumberNode n) \<Longrightarrow> reads_back lit (NumberNode n)"
  by (rule operand_reads_back)
    (auto dest!: peek_word intro!: unary_leaf simp: parsePrimary.simps(2) Let_def)

lemma text_reads_back: "reads_back lit (TextNode s)"
  by (rule operand_reads_back)
    (auto dest!: peek_word intro!: unary_leaf simp: parsePrimary.simps(2) Let_def)

lemma boolean_reads_back: "reads_back lit (BooleanNode b)"
  by (rule operand_reads_back)
    (auto dest!: peek_word intro!: unary_leaf simp: parsePrimary.simps(2) Let_def split: if_splits)

text \<open>A text as the only argument of a call.\<close>

lemma text_argument:
  assumes "d + 1 \<le> MAX_FORMULA_DEPTH" "tok_kind t = tk_text" "tok_kind c = tk_op" "tok_text c = '')''"
  shows "arguments d [] (t # c # rest) (Inr ([TextNode (tok_text t)], c # rest))"
proof -
  have "expression 0 (d + 1) ([t] @ c # rest) (Inr (TextNode (tok_text t), c # rest))"
  proof (rule reads_backD(1) [OF text_reads_back, where q = 0])
    show "map word_of [t] = print (\<lambda>_. []) 0 (TextNode (tok_text t))" by (simp add: word_of_def assms)
    show "climbing 0 (d + 1) (TextNode (tok_text t)) (c # rest) (Inr (TextNode (tok_text t), c # rest))"
      using closing_follows [of c rest] assms by (intro climbing_stop) simp
  qed (use assms closing_follows [of c rest] in simp_all)
  then have "expression 0 (d + 1) (t # c # rest) (Inr (TextNode (tok_text t), c # rest))" by simp
  from arguments_last [OF this, of "[]"] show ?thesis using assms by (simp add: is_op_def)
qed

lemma property_reads_back: "reads_back lit (PropertyNode s)"
proof (rule operand_reads_back)
  fix d ts rest
  assume w: "map word_of ts = print lit 7 (PropertyNode s)" and f: "fits d 7 (PropertyNode s)"
    and o: "\<not> is_op ''('' (peek rest)"
  show "unary d (ts @ rest) (Inr (PropertyNode s, rest))"
  proof (cases "plain_name s")
    case True
    with w obtain t where t: "ts = [t]" "tok_kind t = tk_name" "tok_text t = s" by (auto dest!: peek_word)
    with True f o have "parsePrimary (Suc 0) d (t # rest) = Some (Inr (PropertyNode s, rest))"
      by (auto simp: parsePrimary.simps(2) plain_name_def Let_def)
    with t True show ?thesis by (auto intro!: unary_leaf simp: plain_name_def)
  next
    case False
    with w have "map word_of ts = [(tk_name, ''prop''), (tk_op, ''(''), (tk_text, s), (tk_op, '')'')]" by simp
    then obtain a b t c where t: "ts = [a, b, t, c]" "tok_kind a = tk_name" "tok_text a = ''prop''" "tok_kind b = tk_op"
        "tok_text b = ''(''" "tok_kind t = tk_text" "tok_text t = s" "tok_kind c = tk_op" "tok_text c = '')''"
      by (auto simp: word_of_def map_eq_Cons_conv)
    from f False have d: "d + 1 \<le> MAX_FORMULA_DEPTH" by simp
    have "unary d (a # b # t # c # rest) (Inr (PropertyNode s, after_next (c # rest)))"
    proof (rule unary_call [where args = "[TextNode s]"])
      show "is_op '')'' (peek (after_next (after_next (a # b # t # c # rest)))) \<and> [TextNode s] = [] \<and>
          c # rest = after_next (after_next (a # b # t # c # rest)) \<or>
        \<not> is_op '')'' (peek (after_next (after_next (a # b # t # c # rest)))) \<and>
          arguments d [] (after_next (after_next (a # b # t # c # rest))) (Inr ([TextNode s], c # rest))"
        using text_argument [OF d t(6,8,9)] t by (simp add: is_op_def)
    qed (use t d in \<open>simp_all add: is_op_def call_node_def\<close>)
    then show ?thesis using t by simp
  qed
qed simp_all

lemma unary_reads_back:
  assumes x: "reads_back lit x"
  shows "reads_back lit (UnaryNode op x)"
proof (rule operand_reads_back)
  fix d ts rest
  assume w: "map word_of ts = print lit 7 (UnaryNode op x)" and f: "fits d 7 (UnaryNode op x)"
    and o: "\<not> is_op ''('' (peek rest)"
  obtain t ts' where t: "ts = t # ts'" "word_of t = (case op of OpNegate \<Rightarrow> (tk_op, ''-'') | OpNot \<Rightarrow> (tk_name, ''not''))"
      "map word_of ts' = print lit 7 x"
    using w by (auto simp: map_eq_Cons_conv)
  have "unary (d + 1) (ts' @ rest) (Inr (x, rest))" by (rule reads_backD(2) [OF x t(3)]) (use f o in simp_all)
  then show "unary d (ts @ rest) (Inr (UnaryNode op x, rest))"
    using t(1,2) by (cases op) (auto simp: word_of_def is_op_def intro!: unary_minus unary_not)
qed simp_all

text \<open>The body of a binary tree, between brackets or not.\<close>

lemma body_reads_back:
  assumes l: "reads_back lit l" and r: "reads_back lit r"
    and ts: "map word_of ts = print lit (left_level op) l @ (op_kind op, op_text op) # print lit (right_level op) r"
    and f: "fits d (left_level op) l" "fits (d + 1) (right_level op) r"
    and p: "p \<le> op_power op" "q \<le> op_power op" "follows q rest"
    and c: "climbing p d (BinaryNode op l r) rest res"
  shows "expression p d (ts @ rest) res"
proof -
  obtain ls t rs where t: "ts = ls @ t # rs" "map word_of ls = print lit (left_level op) l"
      "tok_kind t = op_kind op" "tok_text t = op_text op" "map word_of rs = print lit (right_level op) r"
    using ts by (auto simp: map_eq_append_conv map_eq_Cons_conv word_of_def)
  have k: "tok_kind t \<noteq> tk_end" using t(3) by (simp add: op_kind_def)
  have "expression (right_level op) (d + 1) (rs @ rest) (Inr (r, rest))"
    by (rule reads_backD(1) [OF r t(5) f(2)]) (use follows_right [OF p(3,2)] in \<open>auto intro: climbing_stop\<close>)
  moreover have "(if op_text op = ''^'' then op_power op else op_power op + 1) = right_level op"
    by (auto simp: op_lookup(3) right_level_def)
  ultimately have "expression (if op_text op = ''^'' then op_power op else op_power op + 1) (d + 1) (after_next (t # rs @ rest)) (Inr (r, rest))"
    using k by simp
  moreover have "climbing p d (BinaryNode (canonicalOp (op_text op)) l r) rest res" using c by (simp add: op_lookup(2))
  ultimately have "climbing p d l (t # rs @ rest) res" by (rule climbing_step [OF operator_next [OF t(3,4) p(1)]])
  then have "expression p d (ls @ t # rs @ rest) res"
    by (rule reads_backD(1) [OF l t(2) f(1) _ operator_follows [OF t(3,4)], rotated]) (use p(1) in \<open>cases op; simp add: left_level_def\<close>)
  then show ?thesis by (simp add: t(1))
qed

lemma bracket_words:
  "map word_of ts = a # body @ [z] \<Longrightarrow> \<exists>o' b c. ts = o' # b @ [c] \<and> word_of o' = a \<and> map word_of b = body \<and> word_of c = z"
  by (auto simp: map_eq_append_conv map_eq_Cons_conv)

lemma binary_reads_back:
  assumes l: "reads_back lit l" and r: "reads_back lit r"
  shows "reads_back lit (BinaryNode op l r)"
proof -
  let ?x = "BinaryNode op l r"
  let ?body = "print lit (left_level op) l @ (op_kind op, op_text op) # print lit (right_level op) r"
  have bracketed: "unary d (ts @ rest) (Inr (?x, rest))"
    if h: "map word_of ts = (tk_op, ''('') # ?body @ [(tk_op, '')'')]" "fits (d + 1) (left_level op) l" "fits (d + 2) (right_level op) r"
      "d \<le> MAX_FORMULA_DEPTH" for d ts rest
  proof -
    obtain o' b c where t: "ts = o' # b @ [c]" "tok_kind o' = tk_op" "tok_text o' = ''(''" "tok_kind c = tk_op" "tok_text c = '')''"
        "map word_of b = ?body"
      using bracket_words [OF h(1)] by (auto simp: word_of_def)
    have cl: "follows 0 (c # rest)" "next_operator 0 (c # rest) = None" using closing_follows [of c rest] t by simp_all
    have "expression 0 (d + 1) (b @ c # rest) (Inr (?x, c # rest))"
      by (rule body_reads_back [OF l r t(6), where q = 0]) (use h cl in \<open>auto intro: climbing_stop\<close>)
    then have "unary d (o' # b @ c # rest) (Inr (?x, after_next (c # rest)))"
      using t h(4) by (intro unary_bracket) (simp_all add: is_op_def)
    then show ?thesis using t by simp
  qed
  have "expression p d (ts @ rest) res"
    if h: "map word_of ts = print lit q ?x" "fits d q ?x" "p \<le> q" "follows q rest" "climbing p d ?x rest res" for q d p ts rest res
  proof (cases "op_power op < q")
    case True
    have "unary d (ts @ rest) (Inr (?x, rest))" by (rule bracketed) (use h(1,2) True in \<open>auto simp: Let_def\<close>)
    with fits_depth [OF h(2)] show ?thesis using h(5) by (rule expression_rule)
  next
    case False
    show ?thesis
      by (rule body_reads_back [OF l r, where q = q]) (use h False in \<open>auto simp: Let_def\<close>)
  qed
  moreover have "unary d (ts @ rest) (Inr (?x, rest))"
    if h: "map word_of ts = print lit 7 ?x" "fits d 7 ?x" for d ts rest
    by (rule bracketed) (use h in \<open>cases op; auto simp: Let_def\<close>)+
  ultimately show ?thesis unfolding reads_back_def by blast
qed

lemma print_first: "\<exists>w ws. print lit q x = w # ws \<and> w \<noteq> (tk_op, '')'')"
proof (induction x arbitrary: q)
  case (BinaryNode op l r)
  then obtain w ws where "print lit (left_level op) l = w # ws" "w \<noteq> (tk_op, '')'')" by blast
  then show ?case by (cases w) (auto simp: Let_def)
qed (auto split: UnaryOp.split)

lemma arguments_read_back:
  assumes c: "tok_kind c = tk_op" "tok_text c = '')''"
  shows "args \<noteq> [] \<Longrightarrow> list_all (reads_back lit) args \<Longrightarrow> list_all (fits (d + 1) 0) args \<Longrightarrow>
    map word_of b = commas (map (print lit 0) args) \<Longrightarrow> arguments d acc (b @ c # rest) (Inr (acc @ args, c # rest))"
proof (induction args arbitrary: acc b)
  case (Cons x args)
  have x: "reads_back lit x" "fits (d + 1) 0 x" using Cons.prems by simp_all
  show ?case
  proof (cases args)
    case Nil
    have "expression 0 (d + 1) (b @ c # rest) (Inr (x, c # rest))"
      by (rule reads_backD(1) [OF x(1) _ x(2)])
        (use Cons.prems(4) Nil c closing_follows [of c rest] in \<open>auto intro: climbing_stop\<close>)
    from arguments_last [OF this, of acc] c Nil show ?thesis by (simp add: is_op_def)
  next
    case (Cons y ys)
    with Cons.prems(4) have "map word_of b = print lit 0 x @ (tk_op, '','') # commas (map (print lit 0) args)" by simp
    then obtain u t v where b: "b = u @ t # v" "map word_of u = print lit 0 x" "tok_kind t = tk_op" "tok_text t = '',''"
        "map word_of v = commas (map (print lit 0) args)"
      by (auto simp: map_eq_append_conv map_eq_Cons_conv word_of_def)
    have t: "follows 0 (t # v @ c # rest)" "next_operator 0 (t # v @ c # rest) = None"
      using closing_follows [of t "v @ c # rest"] b by simp_all
    have e: "expression 0 (d + 1) (u @ t # v @ c # rest) (Inr (x, t # v @ c # rest))"
      by (rule reads_backD(1) [OF x(1) b(2) x(2)]) (use t in \<open>auto intro: climbing_stop\<close>)
    have "arguments d (acc @ [x]) (v @ c # rest) (Inr ((acc @ [x]) @ args, c # rest))"
      by (rule Cons.IH) (use Cons.prems Cons b in simp_all)
    then have m: "arguments d (acc @ [x]) (after_next (t # v @ c # rest)) (Inr ((acc @ [x]) @ args, c # rest))"
      using b(3) by simp
    have "is_op '','' (peek (t # v @ c # rest))" using b by (simp add: is_op_def)
    from arguments_more [OF e this m] show ?thesis by (simp add: b)
  qed
qed simp

lemma call_reads_back:
  assumes p: "printable lit (CallNode f args)" and a: "list_all (reads_back lit) args"
  shows "reads_back lit (CallNode f args)"
proof (rule operand_reads_back)
  fix d ts rest
  assume w: "map word_of ts = print lit 7 (CallNode f args)" and f: "fits d 7 (CallNode f args)"
  obtain n ts1 where n: "ts = n # ts1" "tok_kind n = tk_name" "tok_text n = f"
      "map word_of ts1 = (tk_op, ''('') # commas (map (print lit 0) args) @ [(tk_op, '')'')]"
    using w by (auto simp: map_eq_Cons_conv word_of_def)
  obtain o' b c where t: "ts1 = o' # b @ [c]" "tok_kind o' = tk_op" "tok_text o' = ''(''" "tok_kind c = tk_op" "tok_text c = '')''"
      "map word_of b = commas (map (print lit 0) args)"
    using bracket_words [OF n(4)] by (auto simp: word_of_def)
  have "unary d (n # o' # b @ c # rest) (Inr (CallNode f args, after_next (c # rest)))"
  proof (rule unary_call [where args = args])
    show "is_op '')'' (peek (after_next (after_next (n # o' # b @ c # rest)))) \<and> args = [] \<and>
        c # rest = after_next (after_next (n # o' # b @ c # rest)) \<or>
      \<not> is_op '')'' (peek (after_next (after_next (n # o' # b @ c # rest)))) \<and>
        arguments d [] (after_next (after_next (n # o' # b @ c # rest))) (Inr (args, c # rest))"
    proof (cases args)
      case Nil
      with t n show ?thesis by (simp add: is_op_def)
    next
      case (Cons x xs)
      obtain w ws where w: "print lit 0 x = w # ws" "w \<noteq> (tk_op, '')'')" using print_first by blast
      obtain ws' where "commas (map (print lit 0) args) = w # ws'" by (cases xs) (simp_all add: Cons w)
      with t(6) obtain u v where "b = u # v" "word_of u = w" by (auto simp: map_eq_Cons_conv)
      with w(2) have "b = u # v" "\<not> is_op '')'' u" by (auto simp: word_of_def is_op_def)
      moreover have "arguments d [] (b @ c # rest) (Inr ([] @ args, c # rest))"
        by (rule arguments_read_back [OF t(4,5) _ a _ t(6)]) (use Cons f in simp_all)
      ultimately show ?thesis using t n by simp
    qed
  qed (use t n p f in \<open>simp_all add: is_op_def call_node_def plain_name_def\<close>)
  then show "unary d (ts @ rest) (Inr (CallNode f args, rest))" using t n by simp
qed simp_all

lemma every_tree_reads_back: "printable lit x \<Longrightarrow> reads_back lit x"
proof (induction x)
  case (CallNode f args)
  then show ?case by (intro call_reads_back) (auto simp: list_all_iff)
qed (auto intro: number_reads_back text_reads_back boolean_reads_back property_reads_back unary_reads_back binary_reads_back)

section \<open>The characters\<close>

definition escape :: "string \<Rightarrow> string" where
  "escape s = concat (map (\<lambda>c. if c = CHR 0x5C \<or> c = CHR 0x22 then [CHR 0x5C, c] else [c]) s)"

definition spell_word :: "word \<Rightarrow> string" where
  "spell_word w = (if fst w = tk_text then CHR 0x22 # escape (snd w) @ [CHR 0x22] else snd w)"

definition spell :: "word list \<Rightarrow> string" where
  "spell ws = concat (map (\<lambda>w. spell_word w @ '' '') ws)"

definition word_ok :: "word \<Rightarrow> bool" where
  "word_ok w \<longleftrightarrow>
     (case fst w of
        tk_number \<Rightarrow> starts_number (snd w) \<and> scan_number (snd w) = (snd w, [])
      | tk_text \<Rightarrow> True
      | tk_name \<Rightarrow> snd w \<noteq> [] \<and> isNameStart (hd (snd w)) \<and> list_all isNameChar (snd w)
      | tk_op \<Rightarrow> snd w \<in> set OPS_2 \<or> (\<exists>c\<in>set OPS_1. snd w = [c])
      | tk_end \<Rightarrow> False)"

lemma scan_escape: "scan_text (CHR 0x22) (escape s @ CHR 0x22 # r) = Some (s, r)"
proof (induction s)
  case Nil
  show ?case by (cases r) (simp_all add: escape_def)
next
  case (Cons c s)
  show ?case
  proof (cases "c = CHR 0x5C \<or> c = CHR 0x22")
    case True
    then have "escape (c # s) = CHR 0x5C # c # escape s" by (auto simp: escape_def)
    with Cons True show ?thesis by auto
  next
    case False
    then have e: "escape (c # s) = c # escape s" by (auto simp: escape_def)
    obtain d ds where "escape s @ CHR 0x22 # r = d # ds" by (cases "escape s @ CHR 0x22 # r") auto
    with Cons False e show ?thesis by simp
  qed
qed

lemma scan_number_append:
  assumes "scan_number s = (s, [])" "\<not> isDigit c" "c \<noteq> CHR ''.''"
  shows "scan_number (s @ c # r) = (s, c # r)"
proof (cases "dropWhile isDigit s")
  case Nil
  then have "\<forall>x\<in>set s. isDigit x" by simp
  then show ?thesis using assms(2,3) by (simp add: scan_number_def Let_def takeWhile_append2 dropWhile_append2)
next
  case (Cons d ds)
  then have "\<exists>x\<in>set s. \<not> isDigit x" by (metis dropWhile_eq_Nil_conv list.distinct(1))
  then obtain x where x: "x \<in> set s" "\<not> isDigit x" by blast
  have d: "d = CHR ''.''" "dropWhile isDigit ds = []"
    using assms(1) Cons x by (auto simp: scan_number_def Let_def split: if_splits)
  have s: "takeWhile isDigit s @ d # takeWhile isDigit ds = s"
    using assms(1) Cons d by (simp add: scan_number_def Let_def)
  have 1: "takeWhile isDigit (ds @ c # r) = ds" "dropWhile isDigit (ds @ c # r) = c # r"
    using d(2) assms(2) by (simp_all add: takeWhile_append2 dropWhile_append2)
  have 2: "takeWhile isDigit ds = ds" using d(2) by (simp add: takeWhile_eq_all_conv)
  have 3: "takeWhile isDigit (s @ c # r) = takeWhile isDigit s" "dropWhile isDigit (s @ c # r) = d # ds @ c # r"
    using x Cons by (simp_all add: takeWhile_append1 dropWhile_append1 del: dropWhile_append takeWhile_append)
  show ?thesis
    unfolding scan_number_def Let_def 3 list.case if_P [OF d(1)] 1 using s 2 by simp
qed

lemma digit_codes: "isDigit c \<longleftrightarrow> 48 \<le> (of_char c :: nat) \<and> (of_char c :: nat) \<le> 57"
  by (simp add: isDigit_def less_eq_char_def)

lemma name_start_codes:
  "isNameStart c \<longleftrightarrow> 97 \<le> (of_char c :: nat) \<and> (of_char c :: nat) \<le> 122 \<or> 65 \<le> (of_char c :: nat) \<and> (of_char c :: nat) \<le> 90
     \<or> (of_char c :: nat) = 95"
proof -
  have "c = CHR ''_'' \<longleftrightarrow> (of_char c :: nat) = of_char (CHR ''_'')" by (simp only: of_char_eq_iff)
  then show ?thesis by (simp add: isNameStart_def less_eq_char_def)
qed

text \<open>One word is scanned as itself.\<close>

lemma scan_word:
  assumes w: "word_ok w" and n: "n < MAX_FORMULA_TOKENS"
  shows "\<exists>j. tokenise_from n i (spell_word w @ CHR '' '' # r) =
    emit_token (token (fst w) (snd w) i) (tokenise_from (n + 1) j (CHR '' '' # r))"
proof (cases "fst w")
  case tk_number
  with w have s: "starts_number (snd w)" "scan_number (snd w) = (snd w, [])" by (simp_all add: word_ok_def)
  obtain c cs where c: "snd w = c # cs" using s(1) by (cases "snd w") (auto simp: starts_number_def)
  have "starts_number (snd w @ CHR '' '' # r)" using s(1) by (cases cs) (auto simp: starts_number_def c isDigit_def)
  moreover have "scan_number (snd w @ CHR '' '' # r) = (snd w, CHR '' '' # r)"
    by (rule scan_number_append [OF s(2)]) (simp_all add: digit_codes)
  moreover have "c \<notin> set SPACE" using s(1) by (auto simp: starts_number_def c SPACE_def digit_codes)
  ultimately show ?thesis using n tk_number
    by (intro exI) (simp add: spell_word_def tokenise_from.simps [of n] c)
next
  case tk_text
  have "\<not> starts_number (CHR 0x22 # x)" for x by (simp add: starts_number_def digit_codes)
  then show ?thesis using n tk_text scan_escape [of "snd w" "CHR '' '' # r"]
    by (intro exI) (simp add: spell_word_def tokenise_from.simps [of n] SPACE_def)
next
  case tk_name
  with w obtain c cs where c: "snd w = c # cs" "isNameStart c" "list_all isNameChar (c # cs)"
    by (cases "snd w") (auto simp: word_ok_def)
  have sp: "\<not> isNameChar (CHR '' '')" by (simp add: isNameChar_def name_start_codes digit_codes)
  have "takeWhile isNameChar (snd w @ CHR '' '' # r) = snd w" "dropWhile isNameChar (snd w @ CHR '' '' # r) = CHR '' '' # r"
    using c sp by (simp_all add: takeWhile_append2 dropWhile_append2 list_all_iff)
  moreover have "c \<notin> set SPACE" "\<not> starts_number (snd w @ CHR '' '' # r)" "c \<noteq> CHR 0x22" "c \<noteq> CHR 0x27"
    using c(2) by (auto simp: starts_number_def c(1) SPACE_def digit_codes name_start_codes)
  ultimately show ?thesis using n tk_name c(1,2)
    by (intro exI) (simp add: spell_word_def tokenise_from.simps [of n])
next
  case tk_op
  with w have "snd w \<in> set OPS_2 \<or> (\<exists>c\<in>set OPS_1. snd w = [c])" by (simp add: word_ok_def)
  then show ?thesis
  proof
    assume o2: "snd w \<in> set OPS_2"
    then obtain a b where ab: "snd w = [a, b]" by (auto simp: OPS_2_def)
    with o2 have "a \<notin> set SPACE" "\<not> starts_number (a # b # CHR '' '' # r)" "a \<noteq> CHR 0x22" "a \<noteq> CHR 0x27" "\<not> isNameStart a"
      by (auto simp: OPS_2_def SPACE_def starts_number_def digit_codes name_start_codes)
    with o2 ab n tk_op show ?thesis
      by (intro exI) (simp add: spell_word_def tokenise_from.simps [of n])
  next
    assume "\<exists>c\<in>set OPS_1. snd w = [c]"
    then obtain c where c: "c \<in> set OPS_1" "snd w = [c]" by blast
    then have "c \<notin> set SPACE" "\<not> starts_number (c # CHR '' '' # r)" "c \<noteq> CHR 0x22" "c \<noteq> CHR 0x27" "\<not> isNameStart c"
        "[c, CHR '' ''] \<notin> set OPS_2"
      by (auto simp: OPS_1_def OPS_2_def SPACE_def starts_number_def digit_codes name_start_codes)
    with c n tk_op show ?thesis
      by (intro exI) (simp add: spell_word_def tokenise_from.simps [of n])
  qed
next
  case tk_end
  with w show ?thesis by (simp add: word_ok_def)
qed

lemma tokenise_space: "tokenise_from n i (CHR '' '' # r) = tokenise_from n (i + 1) r"
  by (simp add: tokenise_from.simps [of n i] SPACE_def)

lemma tokenise_spelling:
  "list_all word_ok ws \<Longrightarrow> n + length ws \<le> MAX_FORMULA_TOKENS \<Longrightarrow>
   \<exists>ts e. tokenise_from n i (spell ws) = Inr (ts @ [e]) \<and> map word_of ts = ws \<and> word_of e = (tk_end, [])"
proof (induction ws arbitrary: n i)
  case Nil
  show ?case by (intro exI [of _ "[]"] exI [of _ "token tk_end [] i"])
    (simp add: spell_def tokenise_from.simps token_def word_of_def)
next
  case (Cons w ws)
  obtain j where j: "tokenise_from n i (spell_word w @ CHR '' '' # spell ws) =
      emit_token (token (fst w) (snd w) i) (tokenise_from (n + 1) j (CHR '' '' # spell ws))"
    using scan_word [of w n i "spell ws"] Cons.prems by auto
  obtain ts e where t: "tokenise_from (n + 1) (j + 1) (spell ws) = Inr (ts @ [e])" "map word_of ts = ws" "word_of e = (tk_end, [])"
    using Cons.IH [of "n + 1" "j + 1"] Cons.prems by auto
  have "tokenise_from n i (spell (w # ws)) = Inr ((token (fst w) (snd w) i # ts) @ [e])"
    using j t(1) by (simp add: spell_def tokenise_space emit_token_def)
  moreover have "map word_of (token (fst w) (snd w) i # ts) = w # ws" using t(2) by (simp add: token_def word_of_def)
  ultimately show ?case using t(3) by (intro exI [of _ "token (fst w) (snd w) i # ts"] exI [of _ e] conjI)
qed

lemma print_words_ok: "printable lit x \<Longrightarrow> list_all word_ok (print lit q x)"
proof (induction x arbitrary: q)
  case (CallNode f args)
  have "list_all word_ok (commas (map (print lit 0) xs))" if "set xs \<subseteq> set args" for xs
    using that
  proof (induction xs)
    case (Cons y ys)
    then have "list_all word_ok (print lit 0 y)" using CallNode.IH [of y 0] CallNode.prems by (auto simp: list_all_iff)
    moreover have "word_ok (tk_op, '','')" by (simp add: word_ok_def OPS_1_def)
    ultimately show ?case using Cons by (cases ys) simp_all
  qed simp
  from this [of args] have "list_all word_ok (commas (map (print lit 0) args))" by simp
  moreover have "word_ok (tk_name, f)" "word_ok (tk_op, ''('')" "word_ok (tk_op, '')'')"
    using CallNode.prems by (simp_all add: word_ok_def OPS_1_def plain_name_def)
  ultimately show ?case by simp
next
  case (UnaryNode op x)
  then show ?case by (cases op) (simp_all add: word_ok_def OPS_1_def isNameChar_def name_start_codes)
next
  case (BinaryNode op l r)
  moreover have "word_ok (op_kind op, op_text op)"
    by (cases op) (simp_all add: word_ok_def op_kind_def OPS_1_def OPS_2_def isNameChar_def name_start_codes)
  ultimately show ?case by (simp add: Let_def word_ok_def OPS_1_def)
qed (simp_all add: word_ok_def plain_name_def OPS_1_def isNameChar_def name_start_codes)

section \<open>The round trip\<close>

lemma spelling_not_blank: "ws \<noteq> [] \<Longrightarrow> list_all word_ok ws \<Longrightarrow> js_trim (spell ws) \<noteq> []"
proof -
  assume "ws \<noteq> []" "list_all word_ok ws"
  then obtain w ws' where w: "ws = w # ws'" "word_ok w" by (cases ws) auto
  have "\<exists>c. c \<in> set (spell_word w) \<and> \<not> js_space c"
  proof (cases "fst w")
    case tk_number
    with w(2) obtain c cs where "snd w = c # cs" "isDigit c \<or> c = CHR ''.''"
      by (cases "snd w") (auto simp: word_ok_def starts_number_def)
    with tk_number show ?thesis by (intro exI [of _ c]) (auto simp: spell_word_def js_space_def digit_codes)
  next
    case tk_text
    then show ?thesis by (intro exI [of _ "CHR 0x22"]) (simp add: spell_word_def js_space_def)
  next
    case tk_name
    with w(2) obtain c cs where "snd w = c # cs" "isNameStart c" by (cases "snd w") (auto simp: word_ok_def)
    with tk_name show ?thesis by (intro exI [of _ c]) (auto simp: spell_word_def js_space_def name_start_codes)
  next
    case tk_op
    with w(2) show ?thesis by (auto simp: word_ok_def spell_word_def OPS_1_def OPS_2_def js_space_def)
  next
    case tk_end
    with w(2) show ?thesis by (simp add: word_ok_def)
  qed
  then obtain c where "c \<in> set (spell ws)" "\<not> js_space c" by (auto simp: spell_def w)
  then have "\<exists>x\<in>set (dropWhile js_space (spell ws)). \<not> js_space x"
    by (metis dropWhile_eq_Nil_conv hd_dropWhile list.set_sel(1))
  then show ?thesis by (simp add: js_trim_def dropWhile_eq_Nil_conv)
qed

text \<open>
  C25. The grammar of formulas, as a round trip: a formula tree whose numbers are spelled as the
  scanner reads them, printed with brackets only where the binding powers of the operators ask for
  them, is parsed back to that very tree, provided the text stays within the bounds on length, terms
  and nesting.
\<close>

theorem formula_prints_and_parses_back:
  assumes "printable lit x" and "fits 0 0 x"
    and "length (spell (print lit 0 x)) \<le> MAX_FORMULA_LENGTH" and "length (print lit 0 x) \<le> MAX_FORMULA_TOKENS"
  shows "parseFormula (spell (print lit 0 x)) = Some (Inr x)"
proof -
  have ok: "list_all word_ok (print lit 0 x)" by (rule print_words_ok [OF assms(1)])
  obtain ts e where t: "tokenise (spell (print lit 0 x)) = Inr (ts @ [e])" "map word_of ts = print lit 0 x" "word_of e = (tk_end, [])"
    using tokenise_spelling [OF ok, of 0 0] assms(4) by (auto simp: tokenise_def)
  have e: "tok_kind e = tk_end" using t(3) by (simp add: word_of_def)
  then have f: "follows 0 [e]" "next_operator 0 [e] = None"
    by (simp_all add: follows_def power_after_def next_operator_def operator_text_def is_op_def)
  have "expression 0 0 (ts @ [e]) (Inr (x, [e]))"
    by (rule reads_backD(1) [OF every_tree_reads_back [OF assms(1)] t(2) assms(2)]) (use f in \<open>auto intro: climbing_stop\<close>)
  then obtain g where g: "parseExpression g 0 0 (ts @ [e]) = Some (Inr (x, [e]))" unfolding expression_def by blast
  obtain r where r: "parseExpression (parse_fuel (ts @ [e])) 0 0 (ts @ [e]) = Some r"
    using parse_expression_answers [of "ts @ [e]" 0 0] by (cases "parseExpression (parse_fuel (ts @ [e])) 0 0 (ts @ [e])") auto
  have "r = Inr (x, [e])"
    using more_fuel(1) [OF g, of "max g (parse_fuel (ts @ [e]))"] more_fuel(1) [OF r, of "max g (parse_fuel (ts @ [e]))"] by simp
  moreover have "js_trim (spell (print lit 0 x)) \<noteq> []" using print_first [of lit 0 x] by (intro spelling_not_blank [OF _ ok]) auto
  ultimately show ?thesis using assms(3) t(1) r e by (simp add: parseFormula_def)
qed

definition demo_literal :: "number \<Rightarrow> string" where
  "demo_literal n = (if n = Num 2 then ''2'' else ''0'')"

definition demo_formula :: FormulaNode where
  "demo_formula =
     BinaryNode OpTimes (BinaryNode OpPlus (PropertyNode ''Unit price'') (NumberNode (Num 2)))
       (UnaryNode OpNegate (CallNode ''min'' [PropertyNode ''Qty'', BinaryNode OpPower (NumberNode (Num 2)) (NumberNode (Num 2))]))"

lemma formula_prints_and_parses_back_witness:
  "parseFormula (spell (print demo_literal 0 demo_formula)) = Some (Inr demo_formula)"
  by (rule formula_prints_and_parses_back; code_simp)

end
