(* ===== verification/FormulaEval.thy ===== *)
theory FormulaEval
  imports FormulaParse
begin

text \<open>
  Evaluating a formula, \<open>packages/core/src/notes/formula/evaluate.ts\<close>, with the two date readers of
  \<open>notes/properties.ts\<close> it uses. Looking up a property may run other formulas, so the lookup changes
  the state of the caller, and the evaluator threads it in the order of the code.

  What the language leaves to its implementation or its tables is in \<open>FormulaHost\<close>: powers and roots,
  the text of a number, the two cases of a letter, \<open>Date.parse\<close>. The clock is a date in range.
\<close>

record FormulaHost =
  fh_pow :: "number \<Rightarrow> number \<Rightarrow> number"
  fh_sqrt :: "number \<Rightarrow> number"
  fh_show :: "number \<Rightarrow> string"
  fh_upper :: "string \<Rightarrow> string"
  fh_lower :: "string \<Rightarrow> string"
  fh_dateParse :: "string \<Rightarrow> int option"

section \<open>Dates as text\<close>

text \<open>\<open>YYYY-MM-DD\<close>.\<close>

definition is_day :: "string \<Rightarrow> bool" where
  "is_day s \<longleftrightarrow> length s = 10 \<and> s ! 4 = CHR ''-'' \<and> s ! 7 = CHR ''-'' \<and> (\<forall>i\<in>{0, 1, 2, 3, 5, 6, 8, 9}. isDigit (s ! i))"

definition day_instant :: "string \<Rightarrow> string" where
  "day_instant s = s @ ''T00:00:00Z''"

definition normaliseDateValue :: "FormulaHost \<Rightarrow> string \<Rightarrow> string option" where
  "normaliseDateValue host raw =
     (let s = js_trim raw
      in if s = [] then None
         else if is_day s then (case fh_dateParse host (day_instant s) of None \<Rightarrow> None | Some _ \<Rightarrow> Some s)
         else map_option iso_of_ms (fh_dateParse host s))"

definition datePropertyMs :: "FormulaHost \<Rightarrow> string \<Rightarrow> int option" where
  "datePropertyMs host v =
     (case normaliseDateValue host v of
        None \<Rightarrow> None
      | Some s \<Rightarrow> fh_dateParse host (if is_day s then day_instant s else s))"

section \<open>Comparison\<close>

text \<open>Where the code returns a value or something to go on with, the value is on the left.\<close>

definition mismatch :: "string \<Rightarrow> FormulaValue" where
  "mismatch message = FError (err e_type_mismatch message)"

definition order_of :: "bool \<Rightarrow> bool \<Rightarrow> int" where
  "order_of same below = (if same then 0 else if below then - 1 else 1)"

definition compareValues :: "FormulaHost \<Rightarrow> FormulaValue \<Rightarrow> FormulaValue \<Rightarrow> FormulaValue + int" where
  "compareValues host a b =
     (case firstError [a, b] of
        Some e \<Rightarrow> Inl (FError e)
      | None \<Rightarrow>
          if a = FEmpty \<or> b = FEmpty then Inl FEmpty
          else
            (case (a, b) of
               (FNumber x, FNumber y) \<Rightarrow> Inr (order_of (js_eq x y) (js_less x y))
             | (FText x, FText y) \<Rightarrow> Inr (order_of (x = y) (x < y))
             | (FBoolean x, FBoolean y) \<Rightarrow> Inr ((if x then 1 else 0) - (if y then 1 else 0))
             | (FDate x, FDate y) \<Rightarrow>
                 (case (datePropertyMs host x, datePropertyMs host y) of
                    (Some p, Some q) \<Rightarrow> Inr (order_of (p = q) (p < q))
                  | _ \<Rightarrow> Inl (mismatch ''One of these dates cannot be read.''))
             | _ \<Rightarrow> Inl (mismatch (typeName a @ '' and '' @ typeName b @ '' cannot be compared with each other.''))))"

definition equals_value :: "FormulaHost \<Rightarrow> FormulaValue \<Rightarrow> FormulaValue \<Rightarrow> FormulaValue" where
  "equals_value host a b =
     (case firstError [a, b] of
        Some e \<Rightarrow> FError e
      | None \<Rightarrow>
          if a = FEmpty \<or> b = FEmpty then bool_value (a = FEmpty \<and> b = FEmpty)
          else
            (case (a, b) of
               (FList x, FList y) \<Rightarrow> bool_value (x = y)
             | (FList _, _) \<Rightarrow> bool_value False
             | (_, FList _) \<Rightarrow> bool_value False
             | _ \<Rightarrow> (case compareValues host a b of Inl v \<Rightarrow> v | Inr order \<Rightarrow> bool_value (order = 0))))"

section \<open>Operators\<close>

definition with_number :: "FormulaValue \<Rightarrow> (number \<Rightarrow> FormulaValue) \<Rightarrow> FormulaValue" where
  "with_number v f = (case asNumber v of Inl e \<Rightarrow> FError e | Inr n \<Rightarrow> f n)"

definition with_text :: "FormulaHost \<Rightarrow> FormulaValue \<Rightarrow> (string \<Rightarrow> FormulaValue) \<Rightarrow> FormulaValue" where
  "with_text host v f = (case asText (fh_show host) v of Inl e \<Rightarrow> FError e | Inr s \<Rightarrow> f s)"

definition with_boolean :: "FormulaValue \<Rightarrow> (bool \<Rightarrow> FormulaValue) \<Rightarrow> FormulaValue" where
  "with_boolean v f = (case asBoolean v of Inl e \<Rightarrow> FError e | Inr b \<Rightarrow> f b)"

definition is_text :: "FormulaValue \<Rightarrow> bool" where
  "is_text v = (case v of FText _ \<Rightarrow> True | _ \<Rightarrow> False)"

definition divide_error :: FormulaValue where
  "divide_error = FError (err e_divide_by_zero ''This divides by zero, which has no answer.'')"

definition remainder_error :: FormulaValue where
  "remainder_error =
     FError (err e_divide_by_zero ''This takes a remainder after dividing by zero, which has no answer.'')"

definition arithmetic :: "FormulaHost \<Rightarrow> BinaryOp \<Rightarrow> FormulaValue \<Rightarrow> FormulaValue \<Rightarrow> FormulaValue" where
  "arithmetic host op left right =
     (case firstError [left, right] of
        Some e \<Rightarrow> FError e
      | None \<Rightarrow>
          if op = OpPlus \<and> (is_text left \<or> is_text right)
          then with_text host left (\<lambda>a. with_text host right (\<lambda>b. text_value (a @ b)))
          else if left = FEmpty \<or> right = FEmpty then FEmpty
          else
            with_number left (\<lambda>a. with_number right (\<lambda>b.
              case op of
                OpPlus \<Rightarrow> num_value (js_add a b)
              | OpMinus \<Rightarrow> num_value (js_sub a b)
              | OpTimes \<Rightarrow> num_value (js_mul a b)
              | OpDivide \<Rightarrow> if b = Num 0 then divide_error else num_value (js_div a b)
              | OpModulo \<Rightarrow> if b = Num 0 then remainder_error else num_value (js_rem a b)
              | OpPower \<Rightarrow> num_value (fh_pow host a b)
              | _ \<Rightarrow> mismatch (quoted [] @ '' is not an arithmetic operator.''))))"

text \<open>A binary operator on the values of both operands.\<close>

definition apply_binary :: "FormulaHost \<Rightarrow> BinaryOp \<Rightarrow> FormulaValue \<Rightarrow> FormulaValue \<Rightarrow> FormulaValue" where
  "apply_binary host op left right =
     (case op of
        OpEqual \<Rightarrow> equals_value host left right
      | OpNotEqual \<Rightarrow> (case equals_value host left right of FBoolean b \<Rightarrow> bool_value (\<not> b) | v \<Rightarrow> v)
      | OpLess \<Rightarrow> (case compareValues host left right of Inl v \<Rightarrow> v | Inr order \<Rightarrow> bool_value (order < 0))
      | OpLessEq \<Rightarrow> (case compareValues host left right of Inl v \<Rightarrow> v | Inr order \<Rightarrow> bool_value (order \<le> 0))
      | OpGreater \<Rightarrow> (case compareValues host left right of Inl v \<Rightarrow> v | Inr order \<Rightarrow> bool_value (order > 0))
      | OpGreaterEq \<Rightarrow> (case compareValues host left right of Inl v \<Rightarrow> v | Inr order \<Rightarrow> bool_value (order \<ge> 0))
      | _ \<Rightarrow> arithmetic host op left right)"

section \<open>The catalogue\<close>

record FormulaFunctionSpec =
  ff_name :: string
  ff_summary :: string
  ff_minArgs :: nat
  ff_maxArgs :: "nat option"

definition spec :: "string \<Rightarrow> string \<Rightarrow> nat \<Rightarrow> nat option \<Rightarrow> FormulaFunctionSpec" where
  "spec name summary lo hi = \<lparr>ff_name = name, ff_summary = summary, ff_minArgs = lo, ff_maxArgs = hi\<rparr>"

definition FORMULA_FUNCTIONS :: "FormulaFunctionSpec list" where
  "FORMULA_FUNCTIONS =
    [spec ''if'' ''if(test, then, otherwise)'' 3 (Some 3),
     spec ''empty'' (''empty(value) '' @ em_dash @ '' is this cell blank?'') 1 (Some 1),
     spec ''ifEmpty'' ''ifEmpty(value, fallback)'' 2 (Some 2),
     spec ''not'' ''not(checkbox)'' 1 (Some 1),
     spec ''abs'' ''abs(number)'' 1 (Some 1),
     spec ''round'' ''round(number, places)'' 1 (Some 2),
     spec ''floor'' ''floor(number)'' 1 (Some 1),
     spec ''ceil'' ''ceil(number)'' 1 (Some 1),
     spec ''sqrt'' ''sqrt(number)'' 1 (Some 1),
     spec ''sign'' (''sign(number) '' @ em_dash @ '' -1, 0 or 1'') 1 (Some 1),
     spec ''min'' (''min(a, b, '' @ ellipsis @ '')'') 1 None,
     spec ''max'' (''max(a, b, '' @ ellipsis @ '')'') 1 None,
     spec ''sum'' (''sum(a, b, '' @ ellipsis @ '')'') 1 None,
     spec ''average'' (''average(a, b, '' @ ellipsis @ '')'') 1 None,
     spec ''toNumber'' (''toNumber(text) '' @ em_dash @ '' fails visibly when it is not one'') 1 (Some 1),
     spec ''toText'' ''toText(value)'' 1 (Some 1),
     spec ''concat'' (''concat(a, b, '' @ ellipsis @ '')'') 1 None,
     spec ''join'' (''join(separator, a, b, '' @ ellipsis @ '')'') 2 None,
     spec ''length'' ''length(text or list)'' 1 (Some 1),
     spec ''upper'' ''upper(text)'' 1 (Some 1),
     spec ''lower'' ''lower(text)'' 1 (Some 1),
     spec ''trim'' ''trim(text)'' 1 (Some 1),
     spec ''slice'' ''slice(text, from, to)'' 2 (Some 3),
     spec ''contains'' ''contains(text or list, part)'' 2 (Some 2),
     spec ''startsWith'' ''startsWith(text, part)'' 2 (Some 2),
     spec ''endsWith'' ''endsWith(text, part)'' 2 (Some 2),
     spec ''replace'' (''replace(text, find, with) '' @ em_dash @ '' plain text, never a pattern'') 3 (Some 3),
     spec ''now'' (''now() '' @ em_dash @ '' this moment'') 0 (Some 0),
     spec ''today'' (''today() '' @ em_dash @ '' this day'') 0 (Some 0),
     spec ''date'' (''date(text) '' @ em_dash @ '' read text as a date'') 1 (Some 1),
     spec ''dateAdd'' ''dateAdd(date, amount, \"days\")'' 3 (Some 3),
     spec ''dateSubtract'' ''dateSubtract(date, amount, \"days\")'' 3 (Some 3),
     spec ''dateBetween'' ''dateBetween(later, earlier, \"days\")'' 3 (Some 3),
     spec ''year'' ''year(date)'' 1 (Some 1),
     spec ''month'' (''month(date) '' @ em_dash @ '' 1 to 12'') 1 (Some 1),
     spec ''day'' (''day(date) '' @ em_dash @ '' 1 to 31'') 1 (Some 1),
     spec ''timestamp'' (''timestamp(date) '' @ em_dash @ '' milliseconds'') 1 (Some 1)]"

definition SPECS :: "string \<Rightarrow> FormulaFunctionSpec option" where
  "SPECS name = List.find (\<lambda>s. ff_name s = name) FORMULA_FUNCTIONS"

section \<open>Calendar arithmetic\<close>

text \<open>The inverse of \<open>civil_of_days\<close>, for a month from 1 to 12.\<close>

definition days_of_civil :: "int \<Rightarrow> int \<Rightarrow> int \<Rightarrow> int" where
  "days_of_civil y m d =
     (let y' = (if m \<le> 2 then y - 1 else y);
          era = y' div 400;
          yoe = y' mod 400;
          mp = (m + 9) mod 12;
          doy = (153 * mp + 2) div 5 + d - 1;
          doe = yoe * 365 + yoe div 4 - yoe div 100 + doy
      in era * 146097 + doe - 719468)"

definition DAY_MS :: int where "DAY_MS = 86400000"

text \<open>The first day of the month that is \<open>k\<close> months after January of year 0.\<close>

definition month_start :: "int \<Rightarrow> int" where
  "month_start k = days_of_civil (k div 12) (k mod 12 + 1) 1"

definition last_of_month :: "int \<Rightarrow> int" where
  "last_of_month k = (case civil_of_days (month_start (k + 1) - 1) of (_, _, d) \<Rightarrow> d)"

text \<open>The fixed units, and what \<open>UNITS[unit]\<close> finds on the prototype of the object: no number.\<close>

definition UNITS :: "string \<Rightarrow> number option" where
  "UNITS unit =
     map_of [(''milliseconds'', Num 1), (''seconds'', Num 1000), (''minutes'', Num 60000), (''hours'', Num 3600000),
             (''days'', Num 86400000), (''weeks'', Num 604800000), (''constructor'', NaN), (''__proto__'', NaN)] unit"

definition CALENDAR_UNITS :: "string list" where
  "CALENDAR_UNITS = [''months'', ''years'']"

definition unitOf :: "FormulaHost \<Rightarrow> FormulaValue \<Rightarrow> FormulaValue + string" where
  "unitOf host v =
     (case asText (fh_show host) v of
        Inl e \<Rightarrow> Inl (FError e)
      | Inr name \<Rightarrow>
          let unit = fh_lower host (js_trim name)
          in if UNITS unit \<noteq> None \<or> unit \<in> set CALENDAR_UNITS then Inr unit
             else Inl (mismatch (quoted unit
               @ '' is not a unit. Use seconds, minutes, hours, days, weeks, months or years.'')))"

text \<open>The instant of a date, and whether it is a day.\<close>

definition asDateMs :: "FormulaHost \<Rightarrow> FormulaValue \<Rightarrow> FormulaValue + int \<times> bool" where
  "asDateMs host v =
     (case v of
        FError e \<Rightarrow> Inl v
      | FEmpty \<Rightarrow> Inl FEmpty
      | _ \<Rightarrow>
          (case (case v of FDate d \<Rightarrow> Some d | FText s \<Rightarrow> normaliseDateValue host s | _ \<Rightarrow> None) of
             None \<Rightarrow> Inl (mismatch (''This needs a date and was given '' @ typeName v @ ''.''))
           | Some raw \<Rightarrow>
               (case datePropertyMs host raw of
                  None \<Rightarrow> Inl (mismatch ''That is not a date this build can read.'')
                | Some ms \<Rightarrow> Inr (ms, length raw = 10))))"

definition MIN_STORABLE_DATE_MS :: int where "MIN_STORABLE_DATE_MS = -62167219200000"
definition MAX_STORABLE_DATE_MS :: int where "MAX_STORABLE_DATE_MS = 253402300799999"

definition fromMs :: "number \<Rightarrow> bool \<Rightarrow> FormulaValue" where
  "fromMs ms day =
     (case ms of
        Num q \<Rightarrow>
          if q < of_int MIN_STORABLE_DATE_MS \<or> q > of_int MAX_STORABLE_DATE_MS
          then mismatch ''That date arithmetic lands on a date this cannot write down.''
          else (let iso = iso_of_ms (truncated q) in FDate (if day then take 10 iso else iso))
      | _ \<Rightarrow> mismatch ''That date arithmetic lands on a date this cannot write down.'')"

text \<open>
  A step that leaves the range of a date makes it \<open>NaN\<close>, and so the answer; out of that range the
  exact instant computed here is refused by \<open>fromMs\<close> with the same answer.
\<close>

definition shiftCalendar :: "int \<Rightarrow> number \<Rightarrow> string \<Rightarrow> bool \<Rightarrow> FormulaValue" where
  "shiftCalendar ms amount unit day =
     (case amount of
        Num q \<Rightarrow>
          (case civil_of_days (ms div DAY_MS) of
             (y, m, d) \<Rightarrow>
               let n = truncated q; time = ms mod DAY_MS
               in if unit = ''years''
                  then fromMs (Num (of_int ((days_of_civil (y + n) m 1 + d - 1) * DAY_MS + time))) day
                  else
                    let k = 12 * y + (m - 1) + n
                    in fromMs (Num (of_int ((month_start k + min d (last_of_month k) - 1) * DAY_MS + time))) day)
      | _ \<Rightarrow> fromMs NaN day)"

definition months_between :: "int \<Rightarrow> int \<Rightarrow> int" where
  "months_between later earlier =
     (case (civil_of_days (later div DAY_MS), civil_of_days (earlier div DAY_MS)) of
        ((ya, ma, da), (yb, mb, db)) \<Rightarrow>
          let months = (ya - yb) * 12 + (ma - mb)
          in if da < db then months - 1 else months)"

section \<open>Functions\<close>

fun numbersOf :: "FormulaValue list \<Rightarrow> FormulaValue + number list" where
  "numbersOf [] = Inr []"
| "numbersOf (v # vs) =
     (case v of
        FError e \<Rightarrow> Inl v
      | FEmpty \<Rightarrow> numbersOf vs
      | _ \<Rightarrow>
          (case asNumber v of
             Inl e \<Rightarrow> Inl (FError e)
           | Inr n \<Rightarrow> (case numbersOf vs of Inl w \<Rightarrow> Inl w | Inr ns \<Rightarrow> Inr (n # ns))))"

definition result_too_large :: FormulaError where
  "result_too_large = err e_too_large ''A formula's text result holds at most 2000 characters.''"

text \<open>The parts of a concatenation, while their total with a separator each stays under the bound.\<close>

fun parts_of :: "FormulaHost \<Rightarrow> nat \<Rightarrow> nat \<Rightarrow> FormulaValue list \<Rightarrow> FormulaError + string list" where
  "parts_of host sep used [] = Inr []"
| "parts_of host sep used (v # vs) =
     (case v of
        FError e \<Rightarrow> Inl e
      | FEmpty \<Rightarrow> parts_of host sep used vs
      | _ \<Rightarrow>
          (case asText (fh_show host) v of
             Inl e \<Rightarrow> Inl e
           | Inr part \<Rightarrow>
               let used = used + length part + sep
               in if used > MAX_FORMULA_TEXT then Inl result_too_large
                  else (case parts_of host sep used vs of Inl e \<Rightarrow> Inl e | Inr parts \<Rightarrow> Inr (part # parts))))"

definition joined :: "FormulaHost \<Rightarrow> string \<Rightarrow> FormulaValue list \<Rightarrow> FormulaValue" where
  "joined host separator vs =
     (case parts_of host (length separator) 0 vs of
        Inl e \<Rightarrow> FError e
      | Inr parts \<Rightarrow> text_value (js_join separator parts))"

text \<open>\<open>String.prototype.slice\<close> with integral arguments.\<close>

definition slice_index :: "nat \<Rightarrow> number \<Rightarrow> nat" where
  "slice_index len n =
     (case n of
        Num q \<Rightarrow> (let k = \<lfloor>q\<rfloor> in if k < 0 then nat (int len + k) else min (nat k) len)
      | PosInf \<Rightarrow> len
      | NegInf \<Rightarrow> 0
      | NaN \<Rightarrow> 0)"

definition js_slice :: "string \<Rightarrow> number \<Rightarrow> number option \<Rightarrow> string" where
  "js_slice s start stop =
     (let a = slice_index (length s) start;
          b = (case stop of None \<Rightarrow> length s | Some n \<Rightarrow> slice_index (length s) n)
      in take (b - a) (drop a s))"

text \<open>\<open>s.split(find)\<close> for a text that is not empty.\<close>

function split_text :: "string \<Rightarrow> string \<Rightarrow> string list" where
  "split_text pat s =
     (if pat = [] then [s]
      else case index_of pat s of
             None \<Rightarrow> [s]
           | Some i \<Rightarrow> take i s # split_text pat (drop (i + length pat) s))"
  by pat_completeness auto
termination
proof (relation "measure (\<lambda>(pat, s). length s)")
  fix pat s i
  assume p: "pat \<noteq> []" and i: "index_of pat s = Some i"
  have "length s = length (take i s @ pat @ drop (i + length pat) s)" using index_of_Some [OF i] by simp
  then have "length (drop (i + length pat) s) < length s" using p by (cases pat) auto
  then show "((pat, drop (i + length pat) s), (pat, s)) \<in> measure (\<lambda>(pat, s). length s)" by simp
qed simp

declare split_text.simps [simp del]


definition ROUND_PLACES :: nat where "ROUND_PLACES = 12"

text \<open>Functions of logic; \<open>if\<close> is the evaluator's own.\<close>

definition logic_function :: "string \<Rightarrow> FormulaValue list \<Rightarrow> FormulaValue" where
  "logic_function name args =
     (let a = args ! 0
      in if name = ''empty'' then (if isError a then a else bool_value (a = FEmpty))
         else if name = ''ifEmpty'' then (if isError a then a else if a = FEmpty then args ! 1 else a)
         else with_boolean a (\<lambda>b. bool_value (\<not> b)))"

definition unary_number :: "FormulaHost \<Rightarrow> string \<Rightarrow> number \<Rightarrow> FormulaValue" where
  "unary_number host name n =
     (if name = ''abs'' then num_value (js_abs n)
      else if name = ''floor'' then num_value (js_floor n)
      else if name = ''ceil'' then num_value (js_ceil n)
      else if name = ''sign'' then num_value (js_sign n)
      else if js_less n (Num 0) then mismatch ''A square root of a negative number is not a number.''
      else num_value (fh_sqrt host n))"

definition round_places :: "FormulaHost \<Rightarrow> number \<Rightarrow> number \<Rightarrow> FormulaValue" where
  "round_places host n places =
     (let factor = fh_pow host (Num 10) (js_min2 (Num (of_nat ROUND_PLACES)) (js_max2 (Num 0) (js_trunc places)))
      in num_value (js_div (js_round_half_up (js_mul n factor)) factor))"

definition aggregate_numbers :: "string \<Rightarrow> number list \<Rightarrow> FormulaValue" where
  "aggregate_numbers name ns =
     (if ns = [] then FEmpty
      else if name = ''min'' then num_value (js_min ns)
      else if name = ''max'' then num_value (js_max ns)
      else
        let whole = fold (\<lambda>n acc. js_add acc n) ns (Num 0)
        in num_value (if name = ''sum'' then whole else js_div whole (Num (of_nat (length ns)))))"

definition toNumber_of :: "string \<Rightarrow> FormulaValue" where
  "toNumber_of s =
     (let parsed = number_of_text (js_trim s)
      in if js_trim s \<noteq> [] \<and> finite_number parsed then num_value parsed
         else mismatch (quoted (take 40 s) @ '' is not a number.''))"

definition number_function :: "FormulaHost \<Rightarrow> string \<Rightarrow> FormulaValue list \<Rightarrow> FormulaValue" where
  "number_function host name args =
     (if name \<in> {''min'', ''max'', ''sum'', ''average''}
      then (case numbersOf args of Inl v \<Rightarrow> v | Inr ns \<Rightarrow> aggregate_numbers name ns)
      else
        let a = args ! 0
        in if a = FEmpty then FEmpty
           else if name = ''toNumber'' then (case a of FNumber _ \<Rightarrow> a | _ \<Rightarrow> with_text host a toNumber_of)
           else if name = ''round''
           then with_number a (\<lambda>n. if length args > 1 then with_number (args ! 1) (round_places host n)
                                    else round_places host n (Num 0))
           else with_number a (unary_number host name))"

definition cased :: "FormulaHost \<Rightarrow> string \<Rightarrow> string \<Rightarrow> string" where
  "cased host name s = (if name = ''upper'' then fh_upper host s else if name = ''lower'' then fh_lower host s else js_trim s)"

definition text_test :: "string \<Rightarrow> string \<Rightarrow> string \<Rightarrow> bool" where
  "text_test name haystack needle =
     (if name = ''contains'' then index_of needle haystack \<noteq> None
      else if name = ''startsWith'' then starts_with needle haystack
      else suffix needle haystack)"

definition replaced :: "string \<Rightarrow> string \<Rightarrow> string \<Rightarrow> string" where
  "replaced haystack found to = (if found = [] then haystack else js_join to (split_text found haystack))"

definition text_function :: "FormulaHost \<Rightarrow> string \<Rightarrow> FormulaValue list \<Rightarrow> FormulaValue" where
  "text_function host name args =
     (let a = args ! 0
      in if name = ''toText'' then with_text host a text_value
         else if name = ''concat'' then joined host [] args
         else if name = ''join'' then with_text host a (\<lambda>separator. joined host separator (drop 1 args))
         else if name = ''length''
         then (case a of
                 FList vs \<Rightarrow> num_value (Num (of_nat (length vs)))
               | FEmpty \<Rightarrow> num_value (Num 0)
               | _ \<Rightarrow> with_text host a (\<lambda>s. num_value (Num (of_nat (length s)))))
         else if name \<in> {''contains'', ''startsWith'', ''endsWith''}
         then with_text host (args ! 1) (\<lambda>needle.
                case a of
                  FList vs \<Rightarrow>
                    if name = ''contains'' then bool_value (needle \<in> set vs)
                    else mismatch (name @ ''() reads text, and this is a list.'')
                | FEmpty \<Rightarrow> bool_value False
                | _ \<Rightarrow> with_text host a (\<lambda>haystack. bool_value (text_test name haystack needle)))
         else if a = FEmpty then FEmpty
         else if name = ''slice''
         then with_text host a (\<lambda>s. with_number (args ! 1) (\<lambda>from.
                if length args < 3 then text_value (js_slice s (js_trunc from) None)
                else with_number (args ! 2) (\<lambda>to. text_value (js_slice s (js_trunc from) (Some (js_trunc to))))))
         else if name = ''replace''
         then with_text host a (\<lambda>haystack. with_text host (args ! 1) (\<lambda>found. with_text host (args ! 2) (\<lambda>to.
                text_value (replaced haystack found to))))
         else with_text host a (\<lambda>s. text_value (cased host name s)))"

definition date_shift :: "FormulaHost \<Rightarrow> bool \<Rightarrow> int \<times> bool \<Rightarrow> number \<Rightarrow> string \<Rightarrow> FormulaValue" where
  "date_shift host add base amount unit =
     (case base of
        (ms, day) \<Rightarrow>
          let amount = (if add then amount else negated amount)
          in if unit \<in> set CALENDAR_UNITS then shiftCalendar ms (js_trunc amount) unit day
             else fromMs (js_add (Num (of_int ms)) (js_mul amount (the (UNITS unit)))) day)"

definition date_difference :: "int \<Rightarrow> int \<Rightarrow> string \<Rightarrow> FormulaValue" where
  "date_difference later earlier unit =
     (if unit \<in> set CALENDAR_UNITS
      then
        let whole = months_between later earlier
        in num_value (Num (of_int (if unit = ''months'' then whole else truncated (of_int whole / 12))))
      else num_value (js_div (Num (of_int (later - earlier))) (the (UNITS unit))))"

definition date_part :: "string \<Rightarrow> int \<Rightarrow> FormulaValue" where
  "date_part name ms =
     (case civil_of_days (ms div DAY_MS) of
        (y, m, d) \<Rightarrow>
          num_value (Num (of_int (if name = ''year'' then y else if name = ''month'' then m
                                   else if name = ''day'' then d else ms))))"

definition with_date :: "FormulaHost \<Rightarrow> FormulaValue \<Rightarrow> (int \<times> bool \<Rightarrow> FormulaValue) \<Rightarrow> FormulaValue" where
  "with_date host v f = (case asDateMs host v of Inl w \<Rightarrow> w | Inr parts \<Rightarrow> f parts)"

definition with_unit :: "FormulaHost \<Rightarrow> FormulaValue \<Rightarrow> (string \<Rightarrow> FormulaValue) \<Rightarrow> FormulaValue" where
  "with_unit host v f = (case unitOf host v of Inl w \<Rightarrow> w | Inr unit \<Rightarrow> f unit)"

definition date_function :: "FormulaHost \<Rightarrow> int \<Rightarrow> string \<Rightarrow> FormulaValue list \<Rightarrow> FormulaValue" where
  "date_function host nowMs name args =
     (if name = ''now'' then FDate (iso_of_ms nowMs)
      else if name = ''today'' then FDate (take 10 (iso_of_ms nowMs))
      else
        let a = args ! 0
        in if name = ''date''
           then (case a of
                   FEmpty \<Rightarrow> FEmpty
                 | FDate _ \<Rightarrow> a
                 | _ \<Rightarrow> with_text host a (\<lambda>s.
                     case normaliseDateValue host s of
                       None \<Rightarrow> mismatch (quoted (take 40 s) @ '' is not a date.'')
                     | Some d \<Rightarrow> FDate d))
           else if name \<in> {''dateAdd'', ''dateSubtract''}
           then with_date host a (\<lambda>base. with_number (args ! 1) (\<lambda>amount. with_unit host (args ! 2) (\<lambda>unit.
                  date_shift host (name = ''dateAdd'') base amount unit)))
           else if name = ''dateBetween''
           then with_date host a (\<lambda>later. with_date host (args ! 1) (\<lambda>earlier. with_unit host (args ! 2) (\<lambda>unit.
                  date_difference (fst later) (fst earlier) unit)))
           else with_date host a (\<lambda>parts. date_part name (fst parts)))"

definition LOGIC_FUNCTIONS :: "string list" where
  "LOGIC_FUNCTIONS = [''empty'', ''ifEmpty'', ''not'']"

definition NUMBER_FUNCTIONS :: "string list" where
  "NUMBER_FUNCTIONS = [''abs'', ''floor'', ''ceil'', ''sqrt'', ''sign'', ''round'', ''min'', ''max'', ''sum'', ''average'', ''toNumber'']"

definition TEXT_FUNCTIONS :: "string list" where
  "TEXT_FUNCTIONS = [''toText'', ''concat'', ''join'', ''length'', ''upper'', ''lower'', ''trim'', ''slice'', ''contains'',
     ''startsWith'', ''endsWith'', ''replace'']"

definition DATE_FUNCTIONS :: "string list" where
  "DATE_FUNCTIONS = [''now'', ''today'', ''date'', ''dateAdd'', ''dateSubtract'', ''dateBetween'', ''year'', ''month'', ''day'',
     ''timestamp'']"

definition unknown_function :: "string \<Rightarrow> FormulaValue" where
  "unknown_function name = FError (err e_unknown_function (''There is no function called '' @ name @ ''().''))"

definition callFunction :: "FormulaHost \<Rightarrow> int \<Rightarrow> string \<Rightarrow> FormulaValue list \<Rightarrow> FormulaValue" where
  "callFunction host nowMs name args =
     (if name \<in> set LOGIC_FUNCTIONS then logic_function name args
      else if name \<in> set NUMBER_FUNCTIONS then number_function host name args
      else if name \<in> set TEXT_FUNCTIONS then text_function host name args
      else if name \<in> set DATE_FUNCTIONS then date_function host nowMs name args
      else unknown_function name)"

section \<open>The walk\<close>

record 's FormulaContext =
  fc_property :: "string \<Rightarrow> 's \<Rightarrow> FormulaValue \<times> 's"
  fc_nowMs :: int

definition too_deep_to_work_out :: FormulaValue where
  "too_deep_to_work_out = FError (err e_too_deep ''This formula is nested too deeply to work out.'')"

definition apply_unary :: "UnaryOp \<Rightarrow> FormulaValue \<Rightarrow> FormulaValue" where
  "apply_unary op v =
     (if isError v then v
      else
        case op of
          OpNegate \<Rightarrow> if v = FEmpty then FEmpty else with_number v (\<lambda>n. num_value (negated n))
        | OpNot \<Rightarrow> with_boolean v (\<lambda>b. bool_value (\<not> b)))"

text \<open>What stops a call before its arguments are worked out.\<close>

definition call_refused :: "string \<Rightarrow> nat \<Rightarrow> FormulaValue option" where
  "call_refused name n =
     (case SPECS name of
        None \<Rightarrow> Some (unknown_function name)
      | Some f \<Rightarrow>
          if n < ff_minArgs f \<or> (case ff_maxArgs f of None \<Rightarrow> False | Some hi \<Rightarrow> n > hi)
          then Some (FError (err e_arity (name @ ''() is written '' @ ff_summary f @ ''.'')))
          else None)"

definition apply_call :: "FormulaHost \<Rightarrow> int \<Rightarrow> string \<Rightarrow> FormulaValue list \<Rightarrow> FormulaValue" where
  "apply_call host nowMs name args =
     (case (if name \<in> {''empty'', ''ifEmpty''} then None else firstError args) of
        Some e \<Rightarrow> FError e
      | None \<Rightarrow> callFunction host nowMs name args)"

fun evaluateNode :: "FormulaHost \<Rightarrow> 's FormulaContext \<Rightarrow> FormulaNode \<Rightarrow> nat \<Rightarrow> 's \<Rightarrow> FormulaValue \<times> 's"
  and evaluateArgs :: "FormulaHost \<Rightarrow> 's FormulaContext \<Rightarrow> FormulaNode list \<Rightarrow> nat \<Rightarrow> 's \<Rightarrow> FormulaValue list \<times> 's"
where
  "evaluateNode host ctx node depth s =
     (if depth > MAX_FORMULA_TOKENS then (too_deep_to_work_out, s)
      else
        case node of
          NumberNode n \<Rightarrow> (num_value n, s)
        | TextNode v \<Rightarrow> (text_value v, s)
        | BooleanNode b \<Rightarrow> (bool_value b, s)
        | PropertyNode name \<Rightarrow> fc_property ctx name s
        | UnaryNode op arg \<Rightarrow>
            let (v, s) = evaluateNode host ctx arg (depth + 1) s in (apply_unary op v, s)
        | BinaryNode op l r \<Rightarrow>
            let (left, s) = evaluateNode host ctx l (depth + 1) s
            in if op = OpAnd \<or> op = OpOr
               then
                 (case asBoolean left of
                    Inl e \<Rightarrow> (FError e, s)
                  | Inr decided \<Rightarrow>
                      if op = OpAnd \<and> \<not> decided then (bool_value False, s)
                      else if op = OpOr \<and> decided then (bool_value True, s)
                      else
                        let (right, s) = evaluateNode host ctx r (depth + 1) s
                        in (with_boolean right bool_value, s))
               else
                 let (right, s) = evaluateNode host ctx r (depth + 1) s
                 in (apply_binary host op left right, s)
        | CallNode name args \<Rightarrow>
            (case call_refused name (length args) of
               Some v \<Rightarrow> (v, s)
             | None \<Rightarrow>
                 (case (name = ''if'', args) of
                    (True, [test, yes, no]) \<Rightarrow>
                      let (v, s) = evaluateNode host ctx test (depth + 1) s
                      in (case asBoolean v of
                            Inl e \<Rightarrow> (FError e, s)
                          | Inr decided \<Rightarrow>
                              if decided then evaluateNode host ctx yes (depth + 1) s
                              else evaluateNode host ctx no (depth + 1) s)
                  | _ \<Rightarrow>
                      let (vs, s) = evaluateArgs host ctx args (depth + 1) s
                      in (apply_call host (fc_nowMs ctx) name vs, s))))"
| "evaluateArgs host ctx [] depth s = ([], s)"
| "evaluateArgs host ctx (arg # args) depth s =
     (let (v, s) = evaluateNode host ctx arg depth s;
          (vs, s) = evaluateArgs host ctx args depth s
      in (v # vs, s))"

section \<open>One formula of a column\<close>

record CompiledFormula =
  cf_source :: string
  cf_node :: "FormulaNode option"
  cf_dependencies :: "string list"
  cf_error :: "FormulaValue option"

definition compileFormula :: "string \<Rightarrow> CompiledFormula option" where
  "compileFormula source =
     map_option
       (\<lambda>parsed. case parsed of
          Inl e \<Rightarrow> \<lparr>cf_source = source, cf_node = None, cf_dependencies = [], cf_error = Some (FError e)\<rparr>
        | Inr node \<Rightarrow>
            \<lparr>cf_source = source, cf_node = Some node, cf_dependencies = formulaDependencies node, cf_error = None\<rparr>)
       (parseFormula source)"

definition runFormula :: "FormulaHost \<Rightarrow> CompiledFormula \<Rightarrow> 's FormulaContext \<Rightarrow> 's \<Rightarrow> FormulaValue \<times> 's" where
  "runFormula host compiled ctx s =
     (case cf_node compiled of
        None \<Rightarrow>
          (case cf_error compiled of
             Some v \<Rightarrow> (v, s)
           | None \<Rightarrow> (FError (err e_syntax ''This column has no formula in it yet.''), s))
      | Some node \<Rightarrow> evaluateNode host ctx node 0 s)"

text \<open>One line for a cell; a number without the noise of its last places.\<close>

definition formatFormulaNumber :: "FormulaHost \<Rightarrow> number \<Rightarrow> string" where
  "formatFormulaNumber host n =
     (case n of
        Num q \<Rightarrow> fh_show host (if q = of_int \<lfloor>q\<rfloor> then n else fixed12 q)
      | _ \<Rightarrow> [])"

definition formatFormulaValue :: "FormulaHost \<Rightarrow> FormulaValue \<Rightarrow> string" where
  "formatFormulaValue host v =
     (case v of
        FNumber n \<Rightarrow> formatFormulaNumber host n
      | FText s \<Rightarrow> s
      | FBoolean b \<Rightarrow> if b then ''Yes'' else ''No''
      | FDate d \<Rightarrow> d
      | FList vs \<Rightarrow> js_join '', '' vs
      | FEmpty \<Rightarrow> []
      | FError e \<Rightarrow> fe_message e)"

end
