(* ===== verification/FormulaSafety.thy ===== *)
theory FormulaSafety
  imports FormulaEval FormulaGrammar
begin

text \<open>
  What the formula engine promises: every value it computes can be written in a cell, an error that is
  read comes out of the top, and the evaluator's own bound never refuses what the parser accepted.
\<close>

section \<open>Values that a cell can hold\<close>

definition safe_value :: "FormulaValue \<Rightarrow> bool" where
  "safe_value v = (case v of FNumber n \<Rightarrow> finite_number n | FText s \<Rightarrow> length s \<le> MAX_FORMULA_TEXT | _ \<Rightarrow> True)"

lemma safe_value_simps [simp]:
  "safe_value (FNumber n) = finite_number n" "safe_value (FText s) = (length s \<le> MAX_FORMULA_TEXT)"
  "safe_value (FBoolean b)" "safe_value (FDate d)" "safe_value (FList vs)" "safe_value FEmpty" "safe_value (FError e)"
  by (simp_all add: safe_value_def)

lemma safe_num [simp]: "safe_value (num_value n)" by (simp add: num_value_def)
lemma safe_text [simp]: "safe_value (text_value s)" by (simp add: text_value_def)
lemma safe_bool [simp]: "safe_value (bool_value b)" by (simp add: bool_value_def)
lemma safe_mismatch [simp]: "safe_value (mismatch m)" by (simp add: mismatch_def)

text \<open>Rules that follow the shape of a definition.\<close>

named_theorems safe_rules \<open>a value of this shape is safe when its parts are\<close>

declare safe_num [safe_rules] safe_text [safe_rules] safe_bool [safe_rules] safe_mismatch [safe_rules]

lemma safe_leaf [safe_rules]: "safe_value (FDate d)" "safe_value FEmpty" "safe_value (FError e)"
  by simp_all

lemma safe_with_number [safe_rules]: "(\<And>n. safe_value (f n)) \<Longrightarrow> safe_value (with_number v f)"
  by (simp add: with_number_def split: sum.split)

lemma safe_with_text [safe_rules]: "(\<And>s. safe_value (f s)) \<Longrightarrow> safe_value (with_text host v f)"
  by (simp add: with_text_def split: sum.split)

lemma safe_with_boolean [safe_rules]: "(\<And>b. safe_value (f b)) \<Longrightarrow> safe_value (with_boolean v f)"
  by (simp add: with_boolean_def split: sum.split)

lemma safe_if [safe_rules]: "(c \<Longrightarrow> safe_value a) \<Longrightarrow> (\<not> c \<Longrightarrow> safe_value b) \<Longrightarrow> safe_value (if c then a else b)"
  by simp

lemma safe_let [safe_rules]: "safe_value (f x) \<Longrightarrow> safe_value (let y = x in f y)"
  by simp

lemma safe_option [safe_rules]:
  "(x = None \<Longrightarrow> safe_value a) \<Longrightarrow> (\<And>y. x = Some y \<Longrightarrow> safe_value (f y)) \<Longrightarrow> safe_value (case x of None \<Rightarrow> a | Some y \<Rightarrow> f y)"
  by (cases x) auto

lemma safe_sum [safe_rules]:
  "(\<And>e. x = Inl e \<Longrightarrow> safe_value (f e)) \<Longrightarrow> (\<And>y. x = Inr y \<Longrightarrow> safe_value (g y)) \<Longrightarrow> safe_value (case x of Inl e \<Rightarrow> f e | Inr y \<Rightarrow> g y)"
  by (cases x) auto

lemma safe_pair [safe_rules]: "(\<And>a b. safe_value (f a b)) \<Longrightarrow> safe_value (case p of (a, b) \<Rightarrow> f a b)"
  by (cases p) auto

lemma safe_op [safe_rules]:
  "safe_value p \<Longrightarrow> safe_value m \<Longrightarrow> safe_value t \<Longrightarrow> safe_value d \<Longrightarrow> safe_value r \<Longrightarrow> safe_value w \<Longrightarrow> safe_value e \<Longrightarrow>
   safe_value ne \<Longrightarrow> safe_value l \<Longrightarrow> safe_value le \<Longrightarrow> safe_value g \<Longrightarrow> safe_value ge \<Longrightarrow> safe_value n \<Longrightarrow> safe_value k \<Longrightarrow>
   safe_value (case op of OpPlus \<Rightarrow> p | OpMinus \<Rightarrow> m | OpTimes \<Rightarrow> t | OpDivide \<Rightarrow> d | OpModulo \<Rightarrow> r | OpPower \<Rightarrow> w
     | OpEqual \<Rightarrow> e | OpNotEqual \<Rightarrow> ne | OpLess \<Rightarrow> l | OpLessEq \<Rightarrow> le | OpGreater \<Rightarrow> g | OpGreaterEq \<Rightarrow> ge | OpAnd \<Rightarrow> n | OpOr \<Rightarrow> k)"
  by (cases op) simp_all

lemma safe_kind [safe_rules]:
  "(\<And>x. v = FNumber x \<Longrightarrow> safe_value (fn x)) \<Longrightarrow> (\<And>x. v = FText x \<Longrightarrow> safe_value (ft x)) \<Longrightarrow>
   (\<And>x. v = FBoolean x \<Longrightarrow> safe_value (fb x)) \<Longrightarrow> (\<And>x. v = FDate x \<Longrightarrow> safe_value (fd x)) \<Longrightarrow>
   (\<And>x. v = FList x \<Longrightarrow> safe_value (fl x)) \<Longrightarrow> (v = FEmpty \<Longrightarrow> safe_value fe) \<Longrightarrow> (\<And>x. v = FError x \<Longrightarrow> safe_value (fx x)) \<Longrightarrow>
   safe_value (case v of FNumber x \<Rightarrow> fn x | FText x \<Rightarrow> ft x | FBoolean x \<Rightarrow> fb x | FDate x \<Rightarrow> fd x | FList x \<Rightarrow> fl x
     | FEmpty \<Rightarrow> fe | FError x \<Rightarrow> fx x)"
  by (cases v) simp_all

subsection \<open>Operators\<close>

lemma safe_compare: "compareValues host a b = Inl v \<Longrightarrow> safe_value v"
  by (cases a; cases b) (auto simp: compareValues_def Let_def split: option.splits)

lemma safe_equals: "safe_value (equals_value host a b)"
  unfolding equals_value_def prod.case by (intro safe_rules) (auto dest: safe_compare)

lemma safe_arithmetic: "safe_value (arithmetic host op a b)"
  unfolding arithmetic_def divide_error_def remainder_error_def by (intro safe_rules)

lemma safe_comparison [safe_rules]: "(\<And>n. safe_value (f n)) \<Longrightarrow> safe_value (case compareValues host a b of Inl v \<Rightarrow> v | Inr n \<Rightarrow> f n)"
  by (auto split: sum.split dest: safe_compare)

lemma safe_binary: "safe_value (apply_binary host op a b)"
  unfolding apply_binary_def
  using safe_equals [of host a b] safe_arithmetic [of host op a b] by (intro safe_op safe_comparison safe_bool safe_kind) auto

lemma safe_unary: "safe_value v \<Longrightarrow> safe_value (apply_unary op v)"
  unfolding apply_unary_def by (cases op) (auto intro!: safe_rules)

subsection \<open>Functions\<close>

lemma safe_numbersOf: "numbersOf vs = Inl v \<Longrightarrow> safe_value v"
proof (induction vs)
  case (Cons w vs)
  then show ?case by (cases w) (auto simp: asNumber_def split: sum.splits)
qed simp

lemma safe_nth: "\<forall>v \<in> set args. safe_value v \<Longrightarrow> i < length args \<Longrightarrow> safe_value (args ! i)"
  by simp

lemma safe_logic:
  assumes "\<forall>v \<in> set args. safe_value v" "length args \<ge> (if name = ''ifEmpty'' then 2 else 1)"
  shows "safe_value (logic_function name args)"
proof (cases "name = ''ifEmpty''")
  case True
  with assms(2) have "2 \<le> length args" by simp
  then have "0 < length args" "1 < length args" by linarith+
  then have "safe_value (args ! 0)" "safe_value (args ! 1)" by (simp_all only: safe_nth [OF assms(1)])
  then show ?thesis unfolding logic_function_def Let_def by (simp add: safe_rules)
next
  case False
  with assms(2) have "1 \<le> length args" by simp
  then have "0 < length args" by linarith
  then have "safe_value (args ! 0)" by (simp only: safe_nth [OF assms(1)])
  with False show ?thesis unfolding logic_function_def Let_def by (simp add: safe_rules)
qed

lemma safe_aggregate [safe_rules]: "safe_value (aggregate_numbers name ns)"
  unfolding aggregate_numbers_def by (intro safe_rules)

lemma safe_toNumber [safe_rules]: "safe_value (toNumber_of s)"
  unfolding toNumber_of_def by (intro safe_rules)

lemma safe_unary_number [safe_rules]: "safe_value (unary_number host name n)"
  unfolding unary_number_def by (intro safe_rules)

lemma safe_round [safe_rules]: "safe_value (round_places host n places)"
  unfolding round_places_def by (intro safe_rules)

lemma safe_number_function:
  assumes "\<forall>v \<in> set args. safe_value v" "args \<noteq> []"
  shows "safe_value (number_function host name args)"
proof -
  have a: "safe_value (args ! 0)" using assms by simp
  show ?thesis unfolding number_function_def Let_def
    by (intro safe_rules) (use a in \<open>auto dest: safe_numbersOf\<close>)
qed

lemma safe_joined [safe_rules]: "safe_value (joined host sep vs)"
  unfolding joined_def by (intro safe_rules)

lemma safe_text_function: "safe_value (text_function host name args)"
  unfolding text_function_def by (intro safe_rules)

lemma safe_fromMs [safe_rules]: "safe_value (fromMs ms day)"
  by (simp add: fromMs_def Let_def split: number.split)

lemma safe_shiftCalendar [safe_rules]: "safe_value (shiftCalendar ms amount unit day)"
  by (cases amount) (simp_all add: shiftCalendar_def Let_def safe_fromMs split: prod.split)

lemma safe_with_date [safe_rules]: "(\<And>p. safe_value (f p)) \<Longrightarrow> safe_value (with_date host v f)"
  by (cases v) (auto simp: with_date_def asDateMs_def split: sum.splits option.splits)

lemma safe_with_unit [safe_rules]: "(\<And>u. safe_value (f u)) \<Longrightarrow> safe_value (with_unit host v f)"
  by (auto simp: with_unit_def unitOf_def Let_def split: sum.splits if_splits)

lemma safe_date_shift [safe_rules]: "safe_value (date_shift host add base amount unit)"
  unfolding date_shift_def by (intro safe_rules)

lemma safe_date_difference [safe_rules]: "safe_value (date_difference later earlier unit)"
  unfolding date_difference_def by (intro safe_rules)

lemma safe_date_part [safe_rules]: "safe_value (date_part name ms)"
  unfolding date_part_def by (intro safe_rules)

lemma safe_date_function: "safe_value (date_function host now name args)"
  unfolding date_function_def by (intro safe_rules) auto


lemma call_refused_None:
  "call_refused name n = None \<Longrightarrow>
     (name \<in> set LOGIC_FUNCTIONS \<longrightarrow> n \<ge> (if name = ''ifEmpty'' then 2 else 1)) \<and> (name \<in> set NUMBER_FUNCTIONS \<longrightarrow> n \<ge> 1) \<and>
     (name = ''if'' \<longrightarrow> n = 3)"
  by (auto simp: call_refused_def SPECS_def FORMULA_FUNCTIONS_def spec_def LOGIC_FUNCTIONS_def NUMBER_FUNCTIONS_def split: if_splits)

lemma safe_callFunction:
  assumes "\<forall>v \<in> set args. safe_value v" "call_refused name (length args) = None"
  shows "safe_value (callFunction host now name args)"
  unfolding callFunction_def
proof (intro safe_if)
  assume "name \<in> set LOGIC_FUNCTIONS"
  with assms call_refused_None [OF assms(2)] show "safe_value (logic_function name args)" by (intro safe_logic) auto
next
  assume "name \<in> set NUMBER_FUNCTIONS"
  with assms call_refused_None [OF assms(2)] show "safe_value (number_function host name args)" by (intro safe_number_function) auto
qed (simp_all add: safe_text_function safe_date_function unknown_function_def)

lemma safe_apply_call:
  "\<forall>v \<in> set args. safe_value v \<Longrightarrow> call_refused name (length args) = None \<Longrightarrow> safe_value (apply_call host now name args)"
  unfolding apply_call_def by (intro safe_rules safe_callFunction)

lemma safe_refused: "call_refused name n = Some v \<Longrightarrow> safe_value v"
  by (auto simp: call_refused_def unknown_function_def split: option.splits if_splits)

section \<open>The walk\<close>

declare evaluateNode.simps [simp del]

lemmas evaluate_step = evaluateNode.simps [of host ctx "NumberNode n" for host ctx n]
  evaluateNode.simps [of host ctx "TextNode v" for host ctx v] evaluateNode.simps [of host ctx "BooleanNode b" for host ctx b]
  evaluateNode.simps [of host ctx "PropertyNode name" for host ctx name]
  evaluateNode.simps [of host ctx "UnaryNode op arg" for host ctx op arg]
  evaluateNode.simps [of host ctx "BinaryNode op l r" for host ctx op l r]
  evaluateNode.simps [of host ctx "CallNode name args" for host ctx name args]

lemma evaluateArgs_all:
  "(\<And>v s. v \<in> set args \<Longrightarrow> P v (fst (evaluateNode host ctx v depth s))) \<Longrightarrow>
     list_all2 P args (fst (evaluateArgs host ctx args depth s))"
proof (induction args arbitrary: s)
  case (Cons a args)
  obtain v s1 where v: "evaluateNode host ctx a depth s = (v, s1)" by force
  obtain vs s2 where vs: "evaluateArgs host ctx args depth s1 = (vs, s2)" by force
  from Cons.prems [of a s] v have "P a v" by simp
  moreover from Cons.IH [of s1] Cons.prems vs have "list_all2 P args vs" by simp
  ultimately show ?case using v vs by simp
qed simp

lemma list_all2_right: "list_all2 (\<lambda>_. Q) xs ys \<Longrightarrow> length ys = length xs \<and> (\<forall>y \<in> set ys. Q y)"
  by (induction rule: list_all2_induct) auto

text \<open>The value of each compound, with the states it passes on.\<close>

lemma evaluate_unary:
  "fst (evaluateNode host ctx (UnaryNode op arg) depth s) =
     (if depth > MAX_FORMULA_TOKENS then too_deep_to_work_out
      else apply_unary op (fst (evaluateNode host ctx arg (depth + 1) s)))"
  by (simp add: evaluate_step split: prod.split)

lemma evaluate_binary:
  "fst (evaluateNode host ctx (BinaryNode op l r) depth s) =
     (if depth > MAX_FORMULA_TOKENS then too_deep_to_work_out
      else
        case evaluateNode host ctx l (depth + 1) s of
          (left, s1) \<Rightarrow>
            if op = OpAnd \<or> op = OpOr
            then
              (case asBoolean left of
                 Inl e \<Rightarrow> FError e
               | Inr decided \<Rightarrow>
                   if decided = (op = OpOr) then bool_value decided
                   else with_boolean (fst (evaluateNode host ctx r (depth + 1) s1)) bool_value)
            else apply_binary host op left (fst (evaluateNode host ctx r (depth + 1) s1)))"
  by (auto simp: evaluate_step split: prod.split sum.split)

lemma evaluate_if:
  "fst (evaluateNode host ctx (CallNode ''if'' args) depth s) =
     (if depth > MAX_FORMULA_TOKENS then too_deep_to_work_out
      else
        case call_refused ''if'' (length args) of
          Some v \<Rightarrow> v
        | None \<Rightarrow>
            (case evaluateNode host ctx (args ! 0) (depth + 1) s of
               (v, s1) \<Rightarrow>
                 (case asBoolean v of
                    Inl e \<Rightarrow> FError e
                  | Inr decided \<Rightarrow> fst (evaluateNode host ctx (args ! (if decided then 1 else 2)) (depth + 1) s1))))"
proof (cases "call_refused ''if'' (length args)")
  case None
  with call_refused_None [OF None] obtain a b c where "args = [a, b, c]"
    by (auto simp: numeral_eq_Suc length_Suc_conv)
  with None show ?thesis by (simp add: evaluate_step split: prod.split sum.split)
qed (simp add: evaluate_step)

lemma evaluate_call:
  assumes "name \<noteq> ''if''"
  shows "fst (evaluateNode host ctx (CallNode name args) depth s) =
     (if depth > MAX_FORMULA_TOKENS then too_deep_to_work_out
      else
        case call_refused name (length args) of
          Some v \<Rightarrow> v
        | None \<Rightarrow> apply_call host (fc_nowMs ctx) name (fst (evaluateArgs host ctx args (depth + 1) s)))"
  using assms by (simp add: evaluate_step split: prod.split option.split)

lemma safe_too_deep [safe_rules]: "safe_value too_deep_to_work_out"
  by (simp add: too_deep_to_work_out_def)

lemma evaluateNode_safe:
  assumes "\<And>name s. safe_value (fst (fc_property ctx name s))"
  shows "safe_value (fst (evaluateNode host ctx node depth s))"
proof (induction node arbitrary: depth s)
  case (CallNode name args)
  let ?vs = "fst (evaluateArgs host ctx args (depth + 1) s)"
  have "list_all2 (\<lambda>_. safe_value) args ?vs" by (rule evaluateArgs_all) (rule CallNode)
  from list_all2_right [OF this] have vs: "length ?vs = length args" "\<forall>v \<in> set ?vs. safe_value v" by auto
  show ?case
  proof (cases "name = ''if''")
    case True
    have yes_no: "safe_value (fst (evaluateNode host ctx (args ! (if b then 1 else 2)) (depth + 1) s1))"
      if "call_refused ''if'' (length args) = None" for b s1
      by (rule CallNode) (use call_refused_None [OF that] in \<open>cases b; simp\<close>)
    show ?thesis unfolding True evaluate_if
      by (intro safe_rules yes_no) (simp_all add: safe_refused)
  next
    case False
    then show ?thesis unfolding evaluate_call [OF False]
      by (intro safe_rules) (use vs in \<open>auto dest: safe_refused intro!: safe_apply_call\<close>)
  qed
next
  case (BinaryNode op l r)
  then show ?case unfolding evaluate_binary by (intro safe_rules safe_binary)
next
  case (UnaryNode op arg)
  then show ?case unfolding evaluate_unary by (intro safe_rules safe_unary)
qed (auto simp: evaluate_step assms safe_rules)


section \<open>Errors\<close>

text \<open>
  The properties a formula reads whatever the values are: the first operand of \<open>and\<close> and \<open>or\<close>, the test
  of an \<open>if\<close>, the first argument of \<open>empty\<close> and \<open>ifEmpty\<close>, and all the operands of the others.
\<close>

fun strict_reads :: "FormulaNode \<Rightarrow> string list" where
  "strict_reads (PropertyNode name) = [name]"
| "strict_reads (UnaryNode op arg) = strict_reads arg"
| "strict_reads (BinaryNode op l r) = strict_reads l @ (if op = OpAnd \<or> op = OpOr then [] else strict_reads r)"
| "strict_reads (CallNode name args) =
     (if name \<in> {''if'', ''empty'', ''ifEmpty''} then concat (take 1 (map strict_reads args)) else concat (map strict_reads args))"
| "strict_reads _ = []"

lemma isError_simps [simp]:
  "isError (FError e)" "\<not> isError (FNumber n)" "\<not> isError (FText s)" "\<not> isError (FBoolean b)" "\<not> isError (FDate d)"
  "\<not> isError (FList vs)" "\<not> isError FEmpty"
  by (simp_all add: isError_def)

lemma isError_iff: "isError v \<longleftrightarrow> (\<exists>e. v = FError e)"
  by (cases v) auto

lemma firstError_None: "firstError vs = None \<longleftrightarrow> (\<forall>v \<in> set vs. \<not> isError v)"
proof (induction vs)
  case (Cons v vs)
  then show ?case by (cases v) auto
qed simp

lemma error_refused: "call_refused name n = Some v \<Longrightarrow> isError v"
  by (auto simp: call_refused_def unknown_function_def split: option.splits if_splits)

lemma error_binary: "isError a \<or> isError b \<Longrightarrow> isError (apply_binary host op a b)"
proof -
  assume "isError a \<or> isError b"
  then obtain e where e: "firstError [a, b] = Some e" using firstError_None [of "[a, b]"] by (cases "firstError [a, b]") auto
  have "compareValues host a b = Inl (FError e)" "equals_value host a b = FError e" "arithmetic host op a b = FError e"
    unfolding compareValues_def equals_value_def arithmetic_def e by simp_all
  then show ?thesis by (cases op) (simp_all add: apply_binary_def)
qed

lemma error_call:
  assumes "if name \<in> {''empty'', ''ifEmpty''} then args \<noteq> [] \<and> isError (args ! 0) else \<exists>v \<in> set args. isError v"
  shows "isError (apply_call host now name args)"
proof (cases "name \<in> {''empty'', ''ifEmpty''}")
  case True
  with assms show ?thesis by (auto simp: apply_call_def callFunction_def LOGIC_FUNCTIONS_def logic_function_def)
next
  case False
  with assms firstError_None [of args] obtain e where "firstError args = Some e" by (cases "firstError args") auto
  with False show ?thesis by (simp add: apply_call_def)
qed

lemma evaluateNode_error:
  assumes "\<And>s. isError (fst (fc_property ctx name s))"
  shows "name \<in> set (strict_reads node) \<Longrightarrow> isError (fst (evaluateNode host ctx node depth s))"
proof (induction node arbitrary: depth s)
  case (CallNode f args)
  let ?vs = "fst (evaluateArgs host ctx args (depth + 1) s)"
  have "list_all2 (\<lambda>arg v. name \<in> set (strict_reads arg) \<longrightarrow> isError v) args ?vs"
    by (rule evaluateArgs_all) (use CallNode.IH in blast)
  then have vs: "length ?vs = length args" "\<And>i. i < length args \<Longrightarrow> name \<in> set (strict_reads (args ! i)) \<Longrightarrow> isError (?vs ! i)"
    by (auto simp: list_all2_conv_all_nth)
  have first: "args \<noteq> [] \<and> name \<in> set (strict_reads (args ! 0))" if "f \<in> {''if'', ''empty'', ''ifEmpty''}"
    using CallNode.prems that by (cases args) auto
  show ?case
  proof (cases "f = ''if''")
    case True
    with first have "isError (fst (evaluateNode host ctx (args ! 0) (depth + 1) s))" by (intro CallNode.IH) auto
    then show ?thesis unfolding True evaluate_if
      by (auto simp: isError_iff asBoolean_def too_deep_to_work_out_def split: option.split prod.split
          dest: error_refused [unfolded isError_iff])
  next
    case False
    have "if f \<in> {''empty'', ''ifEmpty''} then ?vs \<noteq> [] \<and> isError (?vs ! 0) else \<exists>v \<in> set ?vs. isError v"
    proof (cases "f \<in> {''empty'', ''ifEmpty''}")
      case True
      with first vs show ?thesis by auto
    next
      case other: False
      with CallNode.prems False obtain arg where "arg \<in> set args" "name \<in> set (strict_reads arg)" by auto
      then obtain i where "i < length args" "name \<in> set (strict_reads (args ! i))" by (auto simp: in_set_conv_nth)
      with vs have "?vs ! i \<in> set ?vs" "isError (?vs ! i)" by simp_all
      with other show ?thesis by auto
    qed
    from error_call [OF this] show ?thesis unfolding evaluate_call [OF False]
      by (auto simp: too_deep_to_work_out_def split: option.split dest: error_refused)
  qed
next
  case (BinaryNode op l r)
  show ?case
  proof (cases "op = OpAnd \<or> op = OpOr")
    case True
    with BinaryNode have "isError (fst (evaluateNode host ctx l (depth + 1) s))" by simp
    with True show ?thesis unfolding evaluate_binary
      by (auto simp: isError_iff asBoolean_def too_deep_to_work_out_def split: prod.split)
  next
    case False
    with BinaryNode.prems have "name \<in> set (strict_reads l) \<or> name \<in> set (strict_reads r)" by simp
    then have "isError (fst (evaluateNode host ctx l (depth + 1) s)) \<or> (\<forall>s1. isError (fst (evaluateNode host ctx r (depth + 1) s1)))"
      using BinaryNode.IH by blast
    with False show ?thesis unfolding evaluate_binary
      by (auto simp: too_deep_to_work_out_def split: prod.split intro!: error_binary)
  qed
next
  case (UnaryNode op arg)
  then have "isError (fst (evaluateNode host ctx arg (depth + 1) s))" by simp
  then show ?case unfolding evaluate_unary by (auto simp: apply_unary_def too_deep_to_work_out_def)
qed (auto simp: evaluate_step assms too_deep_to_work_out_def)


section \<open>The bound of the evaluator\<close>

text \<open>What a formula means, with no bound on its depth.\<close>

fun meaning :: "FormulaHost \<Rightarrow> 's FormulaContext \<Rightarrow> FormulaNode \<Rightarrow> 's \<Rightarrow> FormulaValue \<times> 's"
  and meanings :: "FormulaHost \<Rightarrow> 's FormulaContext \<Rightarrow> FormulaNode list \<Rightarrow> 's \<Rightarrow> FormulaValue list \<times> 's"
where
  "meaning host ctx (NumberNode n) s = (num_value n, s)"
| "meaning host ctx (TextNode v) s = (text_value v, s)"
| "meaning host ctx (BooleanNode b) s = (FBoolean b, s)"
| "meaning host ctx (PropertyNode name) s = fc_property ctx name s"
| "meaning host ctx (UnaryNode op arg) s = apfst (apply_unary op) (meaning host ctx arg s)"
| "meaning host ctx (BinaryNode op l r) s =
     (case meaning host ctx l s of
        (left, s) \<Rightarrow>
          if op = OpAnd \<or> op = OpOr
          then
            (case asBoolean left of
               Inl e \<Rightarrow> (FError e, s)
             | Inr decided \<Rightarrow>
                 if decided = (op = OpOr) then (FBoolean decided, s)
                 else apfst (\<lambda>v. with_boolean v FBoolean) (meaning host ctx r s))
          else apfst (apply_binary host op left) (meaning host ctx r s))"
| "meaning host ctx (CallNode name args) s =
     (case call_refused name (length args) of
        Some v \<Rightarrow> (v, s)
      | None \<Rightarrow>
          (case (name = ''if'', args) of
             (True, [test, yes, no]) \<Rightarrow>
               (case meaning host ctx test s of
                  (v, s) \<Rightarrow>
                    (case asBoolean v of
                       Inl e \<Rightarrow> (FError e, s)
                     | Inr decided \<Rightarrow> if decided then meaning host ctx yes s else meaning host ctx no s))
           | _ \<Rightarrow> apfst (apply_call host (fc_nowMs ctx) name) (meanings host ctx args s)))"
| "meanings host ctx [] s = ([], s)"
| "meanings host ctx (arg # args) s =
     (case meaning host ctx arg s of (v, s) \<Rightarrow> apfst ((#) v) (meanings host ctx args s))"

lemma meanings_agree:
  "(\<And>v s. v \<in> set args \<Longrightarrow> evaluateNode host ctx v depth s = meaning host ctx v s) \<Longrightarrow>
     evaluateArgs host ctx args depth s = meanings host ctx args s"
  by (induction args arbitrary: s) (simp_all split: prod.split)

lemma nodes_member: "v \<in> set args \<Longrightarrow> nodes v \<le> sum_list (map nodes args)"
  by (induction args) auto

lemma evaluateNode_meaning:
  "depth + nodes node \<le> MAX_FORMULA_TOKENS + 1 \<Longrightarrow> evaluateNode host ctx node depth s = meaning host ctx node s"
proof (induction node arbitrary: depth s)
  case (CallNode name args)
  from CallNode.prems have d: "\<not> depth > MAX_FORMULA_TOKENS" by simp
  have arg: "evaluateNode host ctx v (Suc depth) s = meaning host ctx v s" if "v \<in> set args" for v s
    using CallNode nodes_member [OF that] that by simp
  show ?case
  proof (cases "name = ''if'' \<and> call_refused name (length args) = None")
    case True
    with call_refused_None [of name "length args"] obtain a b c where abc: "args = [a, b, c]"
      by (auto simp: numeral_eq_Suc length_Suc_conv)
    from True have "name = ''if''" "call_refused ''if'' (length [a, b, c]) = None" by (auto simp: abc)
    with d arg show ?thesis unfolding abc
      by (simp only: evaluate_step meaning.simps) (simp split: prod.split sum.split)
  next
    case False
    have args: "evaluateArgs host ctx args (Suc depth) s = meanings host ctx args s" by (rule meanings_agree) (rule arg)
    show ?thesis
    proof (cases "call_refused name (length args)")
      case None
      with False have "(name = ''if'') = False" by auto
      with None d args show ?thesis by (simp add: evaluate_step split: prod.split)
    qed (use d in \<open>simp add: evaluate_step\<close>)
  qed
next
  case (BinaryNode op l r)
  then have "\<not> depth > MAX_FORMULA_TOKENS" "evaluateNode host ctx l (Suc depth) s = meaning host ctx l s" for s by simp_all
  moreover have "evaluateNode host ctx r (Suc depth) s = meaning host ctx r s" for s using BinaryNode by simp
  ultimately show ?case by (auto simp: evaluate_step bool_value_def with_boolean_def split: prod.split sum.split)
qed (auto simp: evaluate_step bool_value_def split: prod.split)

section \<open>The engine\<close>

lemma runFormula_safe:
  assumes "\<And>name s. safe_value (fst (fc_property ctx name s))" "compileFormula source = Some c"
  shows "safe_value (fst (runFormula host c ctx s))"
proof -
  obtain r where r: "parseFormula source = Some r" using parseFormula_answers [of source] by auto
  show ?thesis
  proof (cases r)
    case (Inl e)
    with r assms(2) show ?thesis by (auto simp: compileFormula_def runFormula_def)
  next
    case (Inr node)
    with r assms(2) evaluateNode_safe [OF assms(1), of host node 0 s] show ?thesis
      by (auto simp: compileFormula_def runFormula_def)
  qed
qed

definition sample_host :: FormulaHost where
  "sample_host =
     \<lparr>fh_pow = \<lambda>a b. a, fh_sqrt = \<lambda>a. a, fh_show = \<lambda>n. ''0'', fh_upper = \<lambda>s. s, fh_lower = \<lambda>s. s, fh_dateParse = \<lambda>s. None\<rparr>"

definition sample_context :: "(string \<Rightarrow> FormulaValue) \<Rightarrow> unit FormulaContext" where
  "sample_context cell = \<lparr>fc_property = \<lambda>name s. (cell name, s), fc_nowMs = 0\<rparr>"

section \<open>Where the engine departs from its description\<close>

text \<open>One year after 29 February is 1 March.\<close>

lemma leap_day_is_day_19782: "civil_of_days 19782 = (2024, 2, 29)"
  by code_simp

lemma february_2025_starts: "days_of_civil 2025 2 1 = 20120"
  by code_simp

lemma first_of_march_is_day_20148: "civil_of_days 20148 = (2025, 3, 1)"
  by code_simp

lemma leap_day_rolls_over:
  "civil_of_days (1709164800000 div DAY_MS) = (2024, 2, 29)"
  "shiftCalendar 1709164800000 (Num 1) ''years'' day = fromMs (Num 1740787200000) day"
  "civil_of_days (1740787200000 div DAY_MS) = (2025, 3, 1)"
  by (simp_all add: shiftCalendar_def DAY_MS_def leap_day_is_day_19782 february_2025_starts first_of_march_is_day_20148
      truncated_def Let_def)

text \<open>A name of the prototype of the table of units is a unit.\<close>

lemma prototype_names_are_units: "unitOf sample_host (FText ''constructor'') = Inr ''constructor''"
  by code_simp

text \<open>A text of 2000 characters that nothing is joined to is refused.\<close>

lemma join_counts_a_separator_too_many:
  "length s = 2000 \<Longrightarrow> joined host ''-'' [FText s] = FError result_too_large \<and> js_join ''-'' [s] = s"
  by (simp add: joined_def asText_def MAX_FORMULA_TEXT_def)

text \<open>A flat sum of more than 49 terms reads a property that is not among its dependencies.\<close>

fun long_sum :: "nat \<Rightarrow> FormulaNode" where
  "long_sum 0 = PropertyNode ''A''"
| "long_sum (Suc n) = BinaryNode OpPlus (long_sum n) (NumberNode (Num 1))"

declare formula_reads.simps [simp del]

lemma reads_of_long_sum: "formula_reads d (long_sum n) [] = (if d + n \<le> 48 then [''A''] else [])"
proof (induction n arbitrary: d)
  case 0
  show ?case by (simp add: formula_reads.simps [of d "PropertyNode ''A''"] MAX_FORMULA_DEPTH_def)
next
  case (Suc n)
  show ?case
    by (simp add: formula_reads.simps [of d "BinaryNode OpPlus (long_sum n) (NumberNode (Num 1))"] Suc
        formula_reads.simps [of _ "NumberNode (Num 1)"] MAX_FORMULA_DEPTH_def)
qed

lemma deep_chains_hide_dependencies:
  "formulaDependencies (long_sum n) = (if n \<le> 48 then [''A''] else [])"
  "nodes (long_sum n) = 2 * n + 1" "strict_reads (long_sum n) = [''A'']"
  unfolding formulaDependencies_def by (simp add: reads_of_long_sum) (induction n, simp_all)+

section \<open>The properties\<close>

text \<open>
  C26. Whatever text arrives as a formula, it compiles, and over cells that hold finite numbers and texts of
  at most 2000 characters it computes such a value, or an error: no \<open>NaN\<close>, no infinity and no unbounded
  text leaves the engine.
\<close>

theorem formula_values_fit_a_cell:
  assumes "\<And>name s. safe_value (fst (fc_property ctx name s))"
  shows "case compileFormula source of None \<Rightarrow> False | Some c \<Rightarrow> safe_value (fst (runFormula host c ctx s))"
  using parseFormula_answers [of source] runFormula_safe [OF assms, of source]
  by (auto simp: compileFormula_def split: option.split)

lemma formula_values_fit_a_cell_witness:
  "case compileFormula ''prop(\"Cost\") + 1'' of
     None \<Rightarrow> False
   | Some c \<Rightarrow> safe_value (fst (runFormula sample_host c (sample_context (\<lambda>_. FNumber (Num 3))) ()))"
  by (rule formula_values_fit_a_cell) (simp add: sample_context_def finite_number_def)

text \<open>
  C27. An error comes out of the top of a formula: when a property that the formula reads whatever the
  values are is an error, so is the result, and no function, operator or branch computes over it.
\<close>

theorem errors_are_never_computed_over:
  assumes "parseFormula source = Some (Inr node)" "name \<in> set (strict_reads node)"
    and "\<And>s. isError (fst (fc_property ctx name s))"
  shows "case compileFormula source of None \<Rightarrow> False | Some c \<Rightarrow> isError (fst (runFormula host c ctx s))"
  using assms evaluateNode_error [of ctx name node host 0 s] by (simp add: compileFormula_def runFormula_def)

lemma errors_are_never_computed_over_witness:
  "case compileFormula ''if(prop(\"A\") > 1, 2, 3)'' of
     None \<Rightarrow> False
   | Some c \<Rightarrow> isError (fst (runFormula sample_host c (sample_context (\<lambda>_. mismatch ''no'')) ()))"
  by (rule errors_are_never_computed_over
      [where node = "CallNode ''if'' [BinaryNode OpGreater (PropertyNode ''A'') (NumberNode (Num 1)), NumberNode (Num 2), NumberNode (Num 3)]"
        and name = "''A''"])
    (code_simp, simp, simp add: sample_context_def mismatch_def)

text \<open>
  C28. The depth bound of the evaluator never refuses what the parser accepted: a parsed formula means what
  it means with no bound at all, in value and in the order of what it reads.
\<close>

theorem parsed_formulas_run_unbounded:
  assumes "parseFormula source = Some (Inr node)"
  shows "evaluateNode host ctx node 0 s = meaning host ctx node s"
  using parseFormula_nodes [OF assms] by (intro evaluateNode_meaning) simp

lemma parsed_formulas_run_unbounded_witness:
  "evaluateNode sample_host (sample_context (\<lambda>_. FEmpty)) (BinaryNode OpPlus (PropertyNode ''A'') (NumberNode (Num 1))) 0 ()
     = meaning sample_host (sample_context (\<lambda>_. FEmpty)) (BinaryNode OpPlus (PropertyNode ''A'') (NumberNode (Num 1))) ()"
  by (rule parsed_formulas_run_unbounded [where source = "''prop(\"A\") + 1''"]) code_simp

end
