(* ===== verification/WorkspaceRef.thy ===== *)
theory WorkspaceRef
  imports JsNumber JsText
begin

text \<open>
  The address of a thing in another surface, \<open>packages/core/src/workspace/references/ref.ts\<close>: what is
  accepted, the canonical spelling, and the key of the backlink index.

  White space here is that of the language in full, because an id may hold any character: the
  characters outside ASCII are their UTF-8 bytes. Decoding an escaped id is that of \<open>TextDecoder\<close>:
  the bytes must be UTF-8 and a byte order mark in front is dropped.
\<close>

section \<open>Text\<close>

abbreviation byte :: "char \<Rightarrow> nat" where
  "byte c \<equiv> of_char c"

text \<open>The white space outside ASCII: U+00A0, 1680, 2000 to 200A, 2028, 2029, 202F, 205F, 3000, FEFF.\<close>

definition BYTE_ORDER_MARK :: string where
  "BYTE_ORDER_MARK = [CHR 0xEF, CHR 0xBB, CHR 0xBF]"

definition wide_spaces :: "string list" where
  "wide_spaces =
     [[CHR 0xC2, CHR 0xA0], [CHR 0xE1, CHR 0x9A, CHR 0x80],
      [CHR 0xE2, CHR 0x80, CHR 0x80], [CHR 0xE2, CHR 0x80, CHR 0x81], [CHR 0xE2, CHR 0x80, CHR 0x82],
      [CHR 0xE2, CHR 0x80, CHR 0x83], [CHR 0xE2, CHR 0x80, CHR 0x84], [CHR 0xE2, CHR 0x80, CHR 0x85],
      [CHR 0xE2, CHR 0x80, CHR 0x86], [CHR 0xE2, CHR 0x80, CHR 0x87], [CHR 0xE2, CHR 0x80, CHR 0x88],
      [CHR 0xE2, CHR 0x80, CHR 0x89], [CHR 0xE2, CHR 0x80, CHR 0x8A], [CHR 0xE2, CHR 0x80, CHR 0xA8],
      [CHR 0xE2, CHR 0x80, CHR 0xA9], [CHR 0xE2, CHR 0x80, CHR 0xAF], [CHR 0xE2, CHR 0x81, CHR 0x9F],
      [CHR 0xE3, CHR 0x80, CHR 0x80], BYTE_ORDER_MARK]"

definition has_wide_space :: "string \<Rightarrow> bool" where
  "has_wide_space s \<longleftrightarrow> (\<exists>w \<in> set wide_spaces. index_of w s \<noteq> None)"

definition has_space :: "string \<Rightarrow> bool" where
  "has_space s \<longleftrightarrow> (\<exists>c \<in> set s. js_space c) \<or> has_wide_space s"

definition all_spaces :: "string list" where
  "all_spaces = map (\<lambda>c. [c]) [CHR 0x09, CHR 0x0A, CHR 0x0B, CHR 0x0C, CHR 0x0D, CHR '' ''] @ wide_spaces"

function strip_front :: "string list \<Rightarrow> string \<Rightarrow> string" where
  "strip_front ws s =
     (case List.find (\<lambda>w. w \<noteq> [] \<and> starts_with w s) ws of
        None \<Rightarrow> s
      | Some w \<Rightarrow> strip_front ws (drop (length w) s))"
  by pat_completeness auto
termination
proof (relation "measure (\<lambda>(ws, s). length s)")
  fix ws w and s :: string
  assume "List.find (\<lambda>w. w \<noteq> [] \<and> starts_with w s) ws = Some w"
  then have "w \<noteq> []" "take (length w) s = w" by (auto simp: find_Some_iff starts_with_def)
  then have "0 < length w" "length w \<le> length s" by (auto, metis length_take min.cobounded1)
  then have "length s - length w < length s" by linarith
  then show "((ws, drop (length w) s), (ws, s)) \<in> measure (\<lambda>(ws, s). length s)" by simp
qed simp

declare strip_front.simps [simp del]

definition trim_wide :: "string \<Rightarrow> string" where
  "trim_wide s = rev (strip_front (map rev all_spaces) (rev (strip_front all_spaces s)))"

definition lower :: "char \<Rightarrow> char" where
  "lower c = (if 65 \<le> byte c \<and> byte c \<le> 90 then char_of (byte c + 32) else c)"

section \<open>UTF-8\<close>

text \<open>For the first byte of a character: how many follow, and the range of the first of them.\<close>

definition utf8_lead :: "nat \<Rightarrow> (nat \<times> nat \<times> nat) option" where
  "utf8_lead b =
     (if b < 0x80 then Some (0, 0, 0)
      else if 0xC2 \<le> b \<and> b \<le> 0xDF then Some (1, 0x80, 0xBF)
      else if b = 0xE0 then Some (2, 0xA0, 0xBF)
      else if b = 0xED then Some (2, 0x80, 0x9F)
      else if 0xE1 \<le> b \<and> b \<le> 0xEF then Some (2, 0x80, 0xBF)
      else if b = 0xF0 then Some (3, 0x90, 0xBF)
      else if 0xF1 \<le> b \<and> b \<le> 0xF3 then Some (3, 0x80, 0xBF)
      else if b = 0xF4 then Some (3, 0x80, 0x8F)
      else None)"

definition continues :: "char \<Rightarrow> bool" where
  "continues c \<longleftrightarrow> 0x80 \<le> byte c \<and> byte c \<le> 0xBF"

function utf8_valid :: "string \<Rightarrow> bool" where
  "utf8_valid [] = True"
| "utf8_valid (c # s) =
     (case utf8_lead (byte c) of
        None \<Rightarrow> False
      | Some (k, lo, hi) \<Rightarrow>
          length s \<ge> k \<and> (k > 0 \<longrightarrow> lo \<le> byte (s ! 0) \<and> byte (s ! 0) \<le> hi) \<and> list_all continues (take k s)
            \<and> utf8_valid (drop k s))"
  by pat_completeness auto
termination
  by (relation "measure length") auto

definition decode_utf8 :: "string \<Rightarrow> string option" where
  "decode_utf8 bytes =
     (if utf8_valid bytes then Some (if starts_with BYTE_ORDER_MARK bytes then drop 3 bytes else bytes) else None)"

section \<open>Escaping\<close>

definition hex_digit :: "nat \<Rightarrow> char" where
  "hex_digit n = (if n < 10 then char_of (48 + n) else char_of (55 + n))"

definition escaped :: "char \<Rightarrow> bool" where
  "escaped c \<longleftrightarrow> c \<in> {CHR ''%'', CHR ''#'', CHR ''?'', CHR ''<'', CHR ''>''} \<or> byte c \<le> 0x20 \<or> byte c = 0x7F"

definition encode_byte :: "char \<Rightarrow> string" where
  "encode_byte c = (if escaped c then [CHR ''%'', hex_digit (byte c div 16), hex_digit (byte c mod 16)] else [c])"

definition encodeId :: "string \<Rightarrow> string" where
  "encodeId s = concat (map encode_byte s)"

text \<open>Two hexadecimal digits after each percent sign.\<close>

fun decode_bytes :: "string \<Rightarrow> string option" where
  "decode_bytes [] = Some []"
| "decode_bytes (c # s) =
     (if c \<noteq> CHR ''%'' then map_option ((#) c) (decode_bytes s)
      else
        case s of
          a # b # s' \<Rightarrow> (case natural 16 [a, b] of None \<Rightarrow> None | Some n \<Rightarrow> map_option ((#) (char_of n)) (decode_bytes s'))
        | _ \<Rightarrow> None)"

definition decodeId :: "string \<Rightarrow> string option" where
  "decodeId raw = (if CHR ''%'' \<notin> set raw then Some raw else Option.bind (decode_bytes raw) decode_utf8)"

section \<open>References\<close>

definition WORKSPACE_REF_SCHEME :: string where "WORKSPACE_REF_SCHEME = ''brainrouter://''"
definition MAX_WORKSPACE_REF_LENGTH :: nat where "MAX_WORKSPACE_REF_LENGTH = 2048"
definition MAX_ID_LENGTH :: nat where "MAX_ID_LENGTH = 512"
definition MAX_FRAGMENT_LENGTH :: nat where "MAX_FRAGMENT_LENGTH = 64"

definition lower_letter :: "char \<Rightarrow> bool" where
  "lower_letter c \<longleftrightarrow> 97 \<le> byte c \<and> byte c \<le> 122"

definition SLUG :: "string \<Rightarrow> bool" where
  "SLUG s \<longleftrightarrow>
     s \<noteq> [] \<and> length s \<le> 32 \<and> lower_letter (hd s) \<and>
     list_all (\<lambda>c. lower_letter c \<or> is_digit c \<or> c = CHR ''-'') (tl s)"

definition fragment_char :: "char \<Rightarrow> bool" where
  "fragment_char c \<longleftrightarrow>
     lower_letter c \<or> lower_letter (lower c) \<or> is_digit c \<or> c \<in> set ''._~:@!$&'()*+,;=/-''"

definition FRAGMENT :: "string \<Rightarrow> bool" where
  "FRAGMENT s \<longleftrightarrow> s \<noteq> [] \<and> list_all fragment_char s"

record WorkspaceRef =
  wr_mode :: string
  wr_kind :: string
  wr_id :: string
  wr_fragment :: "string option"

datatype WorkspaceRefParseFailure =
    not_a_string | empty_reference | too_long | wrong_scheme | missing_mode | invalid_mode | missing_kind | invalid_kind
  | missing_id | invalid_id | invalid_fragment

type_synonym ref_parse = "WorkspaceRefParseFailure \<times> string + WorkspaceRef"

definition js_typeof :: "js \<Rightarrow> string" where
  "js_typeof v =
     (case v of
        JUndefined \<Rightarrow> ''undefined'' | JNull \<Rightarrow> ''object'' | JBool _ \<Rightarrow> ''boolean'' | JNum _ \<Rightarrow> ''number''
      | JStr _ \<Rightarrow> ''string'' | JArr _ \<Rightarrow> ''object'' | JObj _ \<Rightarrow> ''object'')"

definition ticked :: "string \<Rightarrow> string" where
  "ticked s = ''`'' @ s @ ''`''"

definition control_char :: "char \<Rightarrow> bool" where
  "control_char c \<longleftrightarrow> byte c \<le> 0x1F \<or> byte c = 0x7F"

text \<open>The part up to the first occurrence of a character, and the part after it if there is one.\<close>

definition cut_at :: "char \<Rightarrow> string \<Rightarrow> string \<times> string option" where
  "cut_at c s =
     (case dropWhile (\<lambda>x. x \<noteq> c) s of
        [] \<Rightarrow> (s, None)
      | _ # rest \<Rightarrow> (takeWhile (\<lambda>x. x \<noteq> c) s, Some rest))"

definition parse_fragment :: "string option \<Rightarrow> WorkspaceRefParseFailure \<times> string + string option" where
  "parse_fragment tail =
     (case tail of
        None \<Rightarrow> Inr None
      | Some f \<Rightarrow>
          if f = [] then Inl (invalid_fragment, ''a `#` with nothing after it'')
          else if length f > MAX_FRAGMENT_LENGTH then Inl (invalid_fragment, ''fragment is too long'')
          else if \<not> FRAGMENT f then Inl (invalid_fragment, ''not a fragment: '' @ f)
          else Inr (Some f))"

definition parse_id :: "string \<Rightarrow> string \<Rightarrow> string option \<Rightarrow> string \<Rightarrow> ref_parse" where
  "parse_id mode kind fragment rawId =
     (if rawId = [] then Inl (missing_id, ''the id segment is empty'')
      else if length rawId > MAX_ID_LENGTH
      then Inl (invalid_id, ''id exceeds '' @ digits_of MAX_ID_LENGTH @ '' characters'')
      else if has_space rawId then Inl (invalid_id, ''unencoded whitespace in the id'')
      else
        case decodeId rawId of
          None \<Rightarrow> Inl (invalid_id, ''malformed percent-escape in the id'')
        | Some i \<Rightarrow>
            if \<exists>c \<in> set i. control_char c then Inl (invalid_id, ''control character in the id'')
            else Inr \<lparr>wr_mode = mode, wr_kind = kind, wr_id = i, wr_fragment = fragment\<rparr>)"

definition parse_kind :: "string \<Rightarrow> string option \<Rightarrow> string \<Rightarrow> ref_parse" where
  "parse_kind mode fragment afterMode =
     (case cut_at (CHR ''/'') afterMode of
        (kind, tail) \<Rightarrow>
          if kind = [] then Inl (missing_kind, ''the kind segment is empty'')
          else
            case tail of
              None \<Rightarrow> Inl (missing_id, ticked (mode @ ''/'' @ afterMode) @ '' has a kind but no id'')
            | Some rawId \<Rightarrow>
                if \<not> SLUG kind then Inl (invalid_kind, ticked kind @ '' is not a lowercase slug'')
                else parse_id mode kind fragment rawId)"

definition parse_mode :: "string option \<Rightarrow> string \<Rightarrow> ref_parse" where
  "parse_mode fragment rest =
     (case cut_at (CHR ''/'') rest of
        (mode, tail) \<Rightarrow>
          if rest = [] then Inl (missing_mode, ''nothing after the scheme'')
          else if mode = [] then Inl (missing_mode, ''the mode segment is empty'')
          else
            case tail of
              None \<Rightarrow> Inl (missing_kind, ticked rest @ '' has a mode but no kind'')
            | Some afterMode \<Rightarrow>
                if \<not> SLUG mode then Inl (invalid_mode, ticked mode @ '' is not a lowercase slug'')
                else parse_kind mode fragment afterMode)"

definition parseWorkspaceRef :: "js \<Rightarrow> ref_parse" where
  "parseWorkspaceRef input =
     (case input of
        JStr s \<Rightarrow>
          let raw = trim_wide s
          in if raw = [] then Inl (empty_reference, ''the reference is blank'')
             else if length raw > MAX_WORKSPACE_REF_LENGTH
             then Inl (too_long, digits_of (length raw) @ '' characters exceeds the '' @ digits_of MAX_WORKSPACE_REF_LENGTH @ '' limit'')
             else if map lower (take (length WORKSPACE_REF_SCHEME) raw) \<noteq> WORKSPACE_REF_SCHEME
             then Inl (wrong_scheme, ''expected '' @ WORKSPACE_REF_SCHEME)
             else
               (case cut_at (CHR ''#'') (drop (length WORKSPACE_REF_SCHEME) raw) of
                  (rest, tail) \<Rightarrow>
                    (case parse_fragment tail of
                       Inl e \<Rightarrow> Inl e
                     | Inr fragment \<Rightarrow>
                         if CHR ''?'' \<in> set rest
                         then Inl (invalid_id, ''query strings are not part of this scheme'')
                         else parse_mode fragment rest))
      | _ \<Rightarrow> Inl (not_a_string, ''expected a string, received '' @ js_typeof input))"

definition workspaceRefKey :: "WorkspaceRef \<Rightarrow> string" where
  "workspaceRefKey ref = WORKSPACE_REF_SCHEME @ wr_mode ref @ ''/'' @ wr_kind ref @ ''/'' @ encodeId (wr_id ref)"

text \<open>A fragment that is the empty text counts as none.\<close>

definition formatWorkspaceRef :: "WorkspaceRef \<Rightarrow> string" where
  "formatWorkspaceRef ref =
     (let base = workspaceRefKey ref
      in if truthy (wr_fragment ref) then base @ ''#'' @ the (wr_fragment ref) else base)"

definition workspaceRefEquals :: "WorkspaceRef \<Rightarrow> WorkspaceRef \<Rightarrow> bool" where
  "workspaceRefEquals a b \<longleftrightarrow>
     wr_mode a = wr_mode b \<and> wr_kind a = wr_kind b \<and> wr_id a = wr_id b \<and>
     (case wr_fragment a of None \<Rightarrow> [] | Some f \<Rightarrow> f) = (case wr_fragment b of None \<Rightarrow> [] | Some f \<Rightarrow> f)"

definition isWorkspaceRefString :: "js \<Rightarrow> bool" where
  "isWorkspaceRefString v = (case parseWorkspaceRef v of Inl _ \<Rightarrow> False | Inr _ \<Rightarrow> True)"

end
