(* ===== verification/RefSafety.thy ===== *)
theory RefSafety
  imports WorkspaceRef
begin

text \<open>
  References: the canonical spelling parses back, it carries nothing that a reader could take for
  markup, and the key of the backlink index tells targets apart.
\<close>

section \<open>Bytes\<close>

lemma nibbles: "byte c div 16 < 16" "byte c mod 16 < 16"
  using nat_of_char_less_256 [of c] by linarith+

lemma byte_char_of: "n < 256 \<Longrightarrow> byte (char_of n) = n"
  by (simp add: of_char_of)

lemma byte_hex_digit: "n < 16 \<Longrightarrow> byte (hex_digit n) = (if n < 10 then 48 + n else 55 + n)"
  by (simp add: hex_digit_def byte_char_of)

lemma hex_digit_value: "n < 16 \<Longrightarrow> digit_value (hex_digit n) = Some n"
  by (simp add: digit_value_def byte_hex_digit Let_def)

lemma natural_hex: "h < 16 \<Longrightarrow> l < 16 \<Longrightarrow> natural 16 [hex_digit h, hex_digit l] = Some (h * 16 + l)"
  by (simp add: natural_def hex_digit_value)

lemma byte_eq: "c = d \<longleftrightarrow> byte c = byte d"
  by simp

lemma escaped_byte: "escaped c \<longleftrightarrow> byte c \<in> {0x25, 0x23, 0x3F, 0x3C, 0x3E} \<or> byte c \<le> 0x20 \<or> byte c = 0x7F"
  by (simp add: escaped_def byte_eq del: of_char_eq_iff)

lemma encode_byte_cases:
  obtains "escaped c" "encode_byte c = [CHR ''%'', hex_digit (byte c div 16), hex_digit (byte c mod 16)]"
  | "\<not> escaped c" "c \<noteq> CHR ''%''" "encode_byte c = [c]"
  by (cases "escaped c") (auto simp: encode_byte_def escaped_def)

lemma encodeId_simps: "encodeId [] = []" "encodeId (c # s) = encode_byte c @ encodeId s"
  by (simp_all add: encodeId_def)

lemma decode_plain: "c \<noteq> CHR ''%'' \<Longrightarrow> decode_bytes (c # t) = map_option ((#) c) (decode_bytes t)"
  by (simp only: decode_bytes.simps if_True if_not_P not_False_eq_True)

lemma decode_escape:
  "decode_bytes (CHR ''%'' # a # b # t) =
     (case natural 16 [a, b] of None \<Rightarrow> None | Some n \<Rightarrow> map_option ((#) (char_of n)) (decode_bytes t))"
  by (simp only: decode_bytes.simps if_False list.case simp_thms)

declare decode_bytes.simps(2) [simp del]

lemma decode_encode_byte: "decode_bytes (encode_byte c @ t) = map_option ((#) c) (decode_bytes t)"
proof (cases c rule: encode_byte_cases)
  case 1
  have "natural 16 [hex_digit (byte c div 16), hex_digit (byte c mod 16)] = Some (byte c)"
    by (simp only: natural_hex [OF nibbles(1) nibbles(2)] div_mult_mod_eq)
  with 1 show ?thesis by (simp add: decode_escape)
qed (simp add: decode_plain)

lemma decode_encode_bytes: "decode_bytes (encodeId s) = Some s"
  by (induction s) (simp_all add: encodeId_simps decode_encode_byte)

lemma encodeId_inject: "encodeId s = encodeId t \<longleftrightarrow> s = t"
  by (metis decode_encode_bytes option.inject)

lemma encodeId_plain: "CHR ''%'' \<notin> set (encodeId s) \<Longrightarrow> encodeId s = s"
proof (induction s)
  case (Cons c s)
  then show ?case by (cases c rule: encode_byte_cases) (simp_all add: encodeId_simps)
qed (simp add: encodeId_simps)

lemma encodeId_Nil: "encodeId s = [] \<longleftrightarrow> s = []"
  using encodeId_inject [of s "[]"] by (simp add: encodeId_simps)

text \<open>The characters of a canonical spelling.\<close>

definition plain_char :: "char \<Rightarrow> bool" where
  "plain_char c \<longleftrightarrow> byte c > 0x20 \<and> byte c \<notin> {0x7F, 0x3C, 0x3E}"

lemma hex_digit_chars: "n < 16 \<Longrightarrow> plain_char (hex_digit n) \<and> byte (hex_digit n) \<notin> {0x23, 0x3F}"
  by (simp add: plain_char_def byte_hex_digit)

lemma encode_byte_chars: "x \<in> set (encode_byte c) \<Longrightarrow> plain_char x \<and> byte x \<notin> {0x23, 0x3F}"
proof (cases c rule: encode_byte_cases)
  case 1
  moreover have "plain_char (CHR ''%'')" by (simp add: plain_char_def)
  ultimately show "x \<in> set (encode_byte c) \<Longrightarrow> ?thesis" using hex_digit_chars nibbles by auto
next
  case 2
  then show "x \<in> set (encode_byte c) \<Longrightarrow> ?thesis" by (simp add: escaped_byte plain_char_def)
qed

lemma encodeId_chars: "x \<in> set (encodeId s) \<Longrightarrow> plain_char x \<and> byte x \<notin> {0x23, 0x3F}"
  using encode_byte_chars by (auto simp: encodeId_def)

lemma slug_chars:
  assumes "SLUG s" "x \<in> set s"
  shows "plain_char x" "byte x \<notin> {0x23, 0x3F, 0x2F}"
proof -
  have "lower_letter x \<or> is_digit x \<or> x = CHR ''-''"
    using assms by (cases s) (auto simp: SLUG_def list_all_iff)
  then show "plain_char x" "byte x \<notin> {0x23, 0x3F, 0x2F}"
    by (auto simp: lower_letter_def is_digit_def plain_char_def)
qed

lemma fragment_chars: assumes "fragment_char x" shows "plain_char x" "byte x < 0x80"
proof -
  have "lower_letter x \<or> lower_letter (lower x) \<or> is_digit x \<or> byte x \<in> byte ` set ''._~:@!$&'()*+,;=/-''"
    using assms by (auto simp: fragment_char_def)
  moreover have "lower_letter (lower x) \<Longrightarrow> byte x \<ge> 65 \<and> byte x < 123"
    by (auto simp: lower_letter_def lower_def byte_char_of split: if_splits)
  ultimately show "plain_char x" "byte x < 0x80"
    by (auto simp: lower_letter_def is_digit_def plain_char_def)
qed

section \<open>White space\<close>

text \<open>A text of bytes beyond ASCII occurs in the spelling of an id where it occurs in the id.\<close>

definition high :: "char \<Rightarrow> bool" where
  "high c \<longleftrightarrow> 0x80 \<le> byte c"

lemma wide_high: "w \<in> set wide_spaces \<Longrightarrow> w \<noteq> [] \<and> list_all high w"
proof -
  have "list_all (\<lambda>w. w \<noteq> [] \<and> list_all high w) wide_spaces" by code_simp
  then show "w \<in> set wide_spaces \<Longrightarrow> ?thesis" by (auto simp: list_all_iff)
qed

lemma escaped_not_high: "escaped c \<Longrightarrow> \<not> high c"
  by (auto simp: escaped_byte high_def)

lemma hex_digit_not_high: "n < 16 \<Longrightarrow> \<not> high (hex_digit n)"
  by (simp add: high_def byte_hex_digit)

lemma low_not_prefix: "list_all high w \<Longrightarrow> w \<noteq> [] \<Longrightarrow> \<not> high c \<Longrightarrow> \<not> prefix w (c # s)"
  by (cases w) auto

lemma percent_low: "\<not> high (CHR ''%'')"
  by (simp add: high_def)

lemma high_prefix: "list_all high w \<Longrightarrow> prefix w (encodeId s) \<longleftrightarrow> prefix w s"
proof (induction s arbitrary: w)
  case (Cons c s)
  show ?case
  proof (cases "w = []")
    case False
    then obtain x w' where w: "w = x # w'" by (cases w) auto
    show ?thesis
    proof (cases c rule: encode_byte_cases)
      case 1
      with low_not_prefix [OF Cons.prems False] escaped_not_high percent_low show ?thesis by (simp add: encodeId_simps)
    next
      case 2
      with Cons w show ?thesis by (simp add: encodeId_simps)
    qed
  qed simp
qed (simp add: encodeId_simps)

lemma index_of_low: "list_all high w \<Longrightarrow> w \<noteq> [] \<Longrightarrow> \<not> high c \<Longrightarrow> index_of w (c # s) = map_option Suc (index_of w s)"
  using low_not_prefix [of w c s] by (simp add: starts_with_iff)

lemma high_occurs: "list_all high w \<Longrightarrow> w \<noteq> [] \<Longrightarrow> index_of w (encodeId s) = None \<longleftrightarrow> index_of w s = None"
proof (induction s)
  case (Cons c s)
  show ?case
  proof (cases c rule: encode_byte_cases)
    case 1
    with Cons show ?thesis
      by (simp add: encodeId_simps index_of_low percent_low escaped_not_high hex_digit_not_high nibbles del: index_of.simps)
  next
    case 2
    with Cons high_prefix [OF Cons.prems(1), of "c # s"] show ?thesis by (simp add: encodeId_simps starts_with_iff)
  qed
qed (simp add: encodeId_simps)

lemma has_wide_space_encodeId: "has_wide_space (encodeId s) \<longleftrightarrow> has_wide_space s"
  using wide_high high_occurs by (auto simp: has_wide_space_def)

lemma plain_not_space: "plain_char c \<Longrightarrow> \<not> js_space c"
  by (auto simp: plain_char_def js_space_def)

lemma suffix_occurs: "suffix w s \<Longrightarrow> index_of w s \<noteq> None"
  by (auto simp: index_of_None occurs_in_def suffix_def) (metis append_Nil2)

lemma low_has_no_wide: "\<forall>c \<in> set s. \<not> high c \<Longrightarrow> \<not> has_wide_space s"
proof (induction s)
  case Nil
  show ?case using wide_high by (auto simp: has_wide_space_def)
next
  case (Cons c s)
  then show ?case using wide_high index_of_low by (auto simp: has_wide_space_def simp del: index_of.simps)
qed

lemma strip_front_none:
  assumes "\<And>w. w \<in> set ws \<Longrightarrow> \<not> prefix w s"
  shows "strip_front ws s = s"
proof -
  have "List.find (\<lambda>w. w \<noteq> [] \<and> starts_with w s) ws = None" using assms by (auto simp: find_None_iff starts_with_iff)
  then show ?thesis by (subst strip_front.simps) simp
qed

lemma trim_wide_none:
  assumes "\<And>w. w \<in> set all_spaces \<Longrightarrow> \<not> prefix w s \<and> \<not> suffix w s"
  shows "trim_wide s = s"
proof -
  have "strip_front all_spaces s = s" using assms by (intro strip_front_none) simp
  moreover have "strip_front (map rev all_spaces) (rev s) = rev s"
    using assms by (intro strip_front_none) (auto simp: suffix_to_prefix)
  ultimately show ?thesis by (simp add: trim_wide_def)
qed

lemma all_spaces_cases: "w \<in> set all_spaces \<Longrightarrow> (\<exists>c. w = [c] \<and> js_space c) \<or> w \<in> set wide_spaces"
proof -
  have "list_all js_space [CHR 0x09, CHR 0x0A, CHR 0x0B, CHR 0x0C, CHR 0x0D, CHR '' '']" by code_simp
  then show "w \<in> set all_spaces \<Longrightarrow> ?thesis"
    unfolding all_spaces_def set_append set_map by (elim UnE imageE) (auto simp only: list_all_iff)
qed

lemma trim_wide_plain:
  assumes "e \<noteq> []" "\<forall>c \<in> set e. plain_char c" "\<not> has_wide_space e"
    and "p \<noteq> []" "plain_char (hd p)" "\<not> high (hd p)" "\<not> high (last p)"
  shows "trim_wide (p @ e) = p @ e"
proof (rule trim_wide_none)
  fix w assume "w \<in> set all_spaces"
  then consider c where "w = [c]" "js_space c" | "w \<in> set wide_spaces" using all_spaces_cases by blast
  then show "\<not> prefix w (p @ e) \<and> \<not> suffix w (p @ e)"
  proof cases
    case 1
    have "\<not> js_space (hd (p @ e))" "\<not> js_space (last (p @ e))" using assms by (simp_all add: plain_not_space)
    moreover have "prefix [c] (p @ e) \<Longrightarrow> hd (p @ e) = c" by (auto simp: prefix_def)
    moreover have "suffix [c] (p @ e) \<Longrightarrow> last (p @ e) = c" unfolding suffix_def by (metis snoc_eq_iff_butlast)
    ultimately show ?thesis using 1 by blast
  next
    case 2
    then have w: "w \<noteq> []" "list_all high w" using wide_high by auto
    have "\<not> prefix w (p @ e)" using w assms by (cases p) (auto simp: low_not_prefix)
    moreover have "\<not> suffix w (p @ e)"
    proof
      assume "suffix w (p @ e)"
      then consider "suffix w e" | q where "w = q @ e" "suffix q p" using suffix_append by metis
      then show False
      proof cases
        case 1
        from suffix_occurs [OF this] 2 assms(3) show False by (auto simp: has_wide_space_def)
      next
        case (2 q)
        have "q \<noteq> []" using 2 \<open>w \<in> set wide_spaces\<close> suffix_occurs [of w e] assms(3) by (auto simp: has_wide_space_def)
        with 2 have "last p = last q" by (auto simp: suffix_def)
        with w 2 \<open>q \<noteq> []\<close> assms(7) show False by (auto simp: list_all_iff)
      qed
    qed
    ultimately show ?thesis by simp
  qed
qed

section \<open>The parts of a spelling\<close>

lemma cut_at_none: "c \<notin> set s \<Longrightarrow> cut_at c s = (s, None)"
proof -
  assume "c \<notin> set s"
  then have "dropWhile (\<lambda>x. x \<noteq> c) s = []" by auto
  then show ?thesis by (simp only: cut_at_def list.case)
qed

lemma cut_at_found: "c \<notin> set s \<Longrightarrow> cut_at c (s @ c # t) = (s, Some t)"
proof -
  assume c: "c \<notin> set s"
  have "dropWhile (\<lambda>x. x \<noteq> c) (s @ c # t) = c # t" using c by (subst dropWhile_append2) auto
  moreover have "takeWhile (\<lambda>x. x \<noteq> c) (s @ c # t) = s" using c by (subst takeWhile_append2) auto
  ultimately show ?thesis by (simp add: cut_at_def)
qed

definition fragment_ok :: "string option \<Rightarrow> bool" where
  "fragment_ok f = (case f of None \<Rightarrow> True | Some t \<Rightarrow> FRAGMENT t \<and> length t \<le> MAX_FRAGMENT_LENGTH)"

text \<open>What a reference must satisfy for its canonical spelling to be accepted.\<close>

definition canonical_reference :: "WorkspaceRef \<Rightarrow> bool" where
  "canonical_reference ref \<longleftrightarrow>
     SLUG (wr_mode ref) \<and> SLUG (wr_kind ref) \<and> fragment_ok (wr_fragment ref) \<and>
     wr_id ref \<noteq> [] \<and> utf8_valid (wr_id ref) \<and> \<not> (\<exists>c \<in> set (wr_id ref). control_char c) \<and>
     \<not> has_wide_space (wr_id ref) \<and> length (encodeId (wr_id ref)) \<le> MAX_ID_LENGTH"

lemma parse_id_encoded:
  assumes "i \<noteq> []" "utf8_valid i" "\<not> (\<exists>c \<in> set i. control_char c)" "\<not> has_wide_space i" "length (encodeId i) \<le> MAX_ID_LENGTH"
  shows "parse_id mode kind f (encodeId i) = Inr \<lparr>wr_mode = mode, wr_kind = kind, wr_id = i, wr_fragment = f\<rparr>"
proof -
  have "\<not> has_space (encodeId i)"
    using assms(4) encodeId_chars plain_not_space by (auto simp: has_space_def has_wide_space_encodeId)
  moreover have "decodeId (encodeId i) = Some i"
  proof (cases "CHR ''%'' \<in> set (encodeId i)")
    case True
    have "\<not> starts_with BYTE_ORDER_MARK i"
    proof
      assume "starts_with BYTE_ORDER_MARK i"
      then have "index_of BYTE_ORDER_MARK i \<noteq> None" by (cases i) (auto simp: starts_with_def BYTE_ORDER_MARK_def)
      moreover have "BYTE_ORDER_MARK \<in> set wide_spaces" by (simp add: wide_spaces_def)
      ultimately show False using assms(4) by (auto simp: has_wide_space_def)
    qed
    with True show ?thesis by (simp add: decodeId_def decode_encode_bytes decode_utf8_def assms(2))
  next
    case False
    from encodeId_plain [OF False] have e: "encodeId i = i" .
    with False have "CHR ''%'' \<notin> set i" by simp
    then show ?thesis by (simp add: decodeId_def e)
  qed
  ultimately show ?thesis using assms by (simp add: parse_id_def encodeId_Nil)
qed


lemma slug_has_no_slash: "SLUG s \<Longrightarrow> CHR ''/'' \<notin> set s"
  using slug_chars(2) [of s "CHR ''/''"] by auto

lemma parse_kind_encoded:
  "SLUG kind \<Longrightarrow> parse_kind mode f (kind @ CHR ''/'' # i) = parse_id mode kind f i"
proof -
  assume k: "SLUG kind"
  then have "CHR ''/'' \<notin> set kind" "kind \<noteq> []" using slug_has_no_slash by (auto simp: SLUG_def)
  with k show ?thesis by (simp add: parse_kind_def cut_at_found)
qed

lemma parse_mode_encoded:
  "SLUG mode \<Longrightarrow> parse_mode f (mode @ CHR ''/'' # s) = parse_kind mode f s"
proof -
  assume m: "SLUG mode"
  then have "CHR ''/'' \<notin> set mode" "mode \<noteq> []" using slug_has_no_slash by (auto simp: SLUG_def)
  with m show ?thesis by (simp add: parse_mode_def cut_at_found)
qed

lemma scheme_chars: "\<forall>c \<in> set WORKSPACE_REF_SCHEME. plain_char c \<and> \<not> high c" "map lower WORKSPACE_REF_SCHEME = WORKSPACE_REF_SCHEME"
  "WORKSPACE_REF_SCHEME \<noteq> []" "length WORKSPACE_REF_SCHEME = 14"
  by code_simp+

definition path_of :: "WorkspaceRef \<Rightarrow> string" where
  "path_of ref = wr_mode ref @ CHR ''/'' # wr_kind ref @ CHR ''/'' # encodeId (wr_id ref)"

lemma key_path: "workspaceRefKey ref = WORKSPACE_REF_SCHEME @ path_of ref"
  by (simp add: workspaceRefKey_def path_of_def)

lemma path_chars:
  assumes "SLUG (wr_mode ref)" "SLUG (wr_kind ref)" "c \<in> set (path_of ref)"
  shows "plain_char c" "byte c \<notin> {0x23, 0x3F}"
proof -
  have "plain_char (CHR ''/'')" "byte (CHR ''/'') \<notin> {0x23, 0x3F}" by code_simp+
  with assms slug_chars [OF assms(1)] slug_chars [OF assms(2)] encodeId_chars [of c "wr_id ref"]
  show "plain_char c" "byte c \<notin> {0x23, 0x3F}" by (auto simp: path_of_def)
qed

text \<open>The canonical spelling is untouched by the trimming of its ends.\<close>

lemma format_trimmed:
  assumes "canonical_reference ref"
  shows "trim_wide (formatWorkspaceRef ref) = formatWorkspaceRef ref"
proof (cases "wr_fragment ref")
  case None
  have slugs: "SLUG (wr_mode ref)" "SLUG (wr_kind ref)" using assms by (auto simp: canonical_reference_def)
  let ?p = "WORKSPACE_REF_SCHEME @ wr_mode ref @ ''/'' @ wr_kind ref @ ''/''"
  have "trim_wide (?p @ encodeId (wr_id ref)) = ?p @ encodeId (wr_id ref)"
    by (rule trim_wide_plain)
      (use assms encodeId_chars scheme_chars in
        \<open>auto simp: canonical_reference_def encodeId_Nil has_wide_space_encodeId high_def hd_append\<close>)
  then show ?thesis by (simp add: formatWorkspaceRef_def workspaceRefKey_def None)
next
  case (Some f)
  then have f: "f \<noteq> []" "\<forall>c \<in> set f. fragment_char c"
    using assms by (auto simp: canonical_reference_def fragment_ok_def FRAGMENT_def list_all_iff)
  then have "\<forall>c \<in> set f. \<not> high c" using fragment_chars(2) by (auto simp: high_def not_le)
  then have wide: "\<not> has_wide_space f" by (rule low_has_no_wide)
  let ?p = "workspaceRefKey ref @ ''#''"
  have "trim_wide (?p @ f) = ?p @ f"
    by (rule trim_wide_plain)
      (use f wide fragment_chars(1) scheme_chars in \<open>auto simp: key_path high_def hd_append\<close>)
  then show ?thesis by (simp add: formatWorkspaceRef_def Some f)
qed


lemma id_length: "canonical_reference ref \<Longrightarrow> length (formatWorkspaceRef ref) \<le> MAX_WORKSPACE_REF_LENGTH"
proof (cases "wr_fragment ref")
  case None
  assume "canonical_reference ref"
  then show ?thesis using None scheme_chars
    by (auto simp: formatWorkspaceRef_def workspaceRefKey_def canonical_reference_def SLUG_def MAX_ID_LENGTH_def
        MAX_WORKSPACE_REF_LENGTH_def)
next
  case (Some f)
  assume "canonical_reference ref"
  then show ?thesis using Some scheme_chars
    by (auto simp: formatWorkspaceRef_def workspaceRefKey_def canonical_reference_def SLUG_def MAX_ID_LENGTH_def
        MAX_WORKSPACE_REF_LENGTH_def fragment_ok_def MAX_FRAGMENT_LENGTH_def Let_def)
qed

lemma no_mark: "canonical_reference ref \<Longrightarrow> CHR ''#'' \<notin> set (path_of ref) \<and> CHR ''?'' \<notin> set (path_of ref)"
  using path_chars(2) [of ref "CHR ''#''"] path_chars(2) [of ref "CHR ''?''"] by (auto simp: canonical_reference_def)

lemma parse_path:
  assumes "canonical_reference ref"
  shows "parse_mode f (path_of ref) =
     Inr \<lparr>wr_mode = wr_mode ref, wr_kind = wr_kind ref, wr_id = wr_id ref, wr_fragment = f\<rparr>"
  using assms unfolding path_of_def canonical_reference_def
  by (simp add: parse_mode_encoded parse_kind_encoded parse_id_encoded)

lemma parse_after_scheme:
  assumes "trim_wide (WORKSPACE_REF_SCHEME @ s) = WORKSPACE_REF_SCHEME @ s"
    and "length (WORKSPACE_REF_SCHEME @ s) \<le> MAX_WORKSPACE_REF_LENGTH"
  shows "parseWorkspaceRef (JStr (WORKSPACE_REF_SCHEME @ s)) =
     (case cut_at (CHR ''#'') s of
        (rest, tail) \<Rightarrow>
          (case parse_fragment tail of
             Inl e \<Rightarrow> Inl e
           | Inr fragment \<Rightarrow>
               if CHR ''?'' \<in> set rest then Inl (invalid_id, ''query strings are not part of this scheme'')
               else parse_mode fragment rest))"
  unfolding parseWorkspaceRef_def js.case assms(1) Let_def
  using assms(2) scheme_chars by (simp add: not_less)

lemma format_parses_back:
  assumes "canonical_reference ref"
  shows "parseWorkspaceRef (JStr (formatWorkspaceRef ref)) = Inr ref"
proof (cases "wr_fragment ref")
  case None
  have f: "formatWorkspaceRef ref = WORKSPACE_REF_SCHEME @ path_of ref"
    by (simp add: formatWorkspaceRef_def key_path None)
  have "parseWorkspaceRef (JStr (formatWorkspaceRef ref)) = parse_mode None (path_of ref)"
    unfolding f using format_trimmed [OF assms] id_length [OF assms] no_mark [OF assms] unfolding f
    by (subst parse_after_scheme) (simp_all add: cut_at_none parse_fragment_def)
  then show ?thesis by (simp add: parse_path [OF assms] flip: None)
next
  case (Some t)
  have t: "t \<noteq> []" "parse_fragment (Some t) = Inr (Some t)"
    using assms Some by (auto simp: canonical_reference_def fragment_ok_def parse_fragment_def FRAGMENT_def)
  have f: "formatWorkspaceRef ref = WORKSPACE_REF_SCHEME @ path_of ref @ CHR ''#'' # t"
    by (simp add: formatWorkspaceRef_def key_path Some t)
  have "parseWorkspaceRef (JStr (formatWorkspaceRef ref)) = parse_mode (Some t) (path_of ref)"
    unfolding f using format_trimmed [OF assms] id_length [OF assms] no_mark [OF assms] unfolding f
    by (subst parse_after_scheme) (simp_all add: cut_at_found t)
  then show ?thesis by (simp add: parse_path [OF assms] flip: Some)
qed

section \<open>What parsing accepts\<close>

lemma cut_at_Some: "cut_at c s = (a, Some b) \<Longrightarrow> set a \<subseteq> set s \<and> set b \<subseteq> set s"
  by (auto simp: cut_at_def split: list.splits dest: set_takeWhileD) (metis in_mono list.set_intros(2) set_dropWhileD subsetI)

lemma parsed_reference:
  assumes "parseWorkspaceRef v = Inr ref"
  shows "SLUG (wr_mode ref)" "SLUG (wr_kind ref)" "fragment_ok (wr_fragment ref)" "\<not> (\<exists>c \<in> set (wr_id ref). control_char c)"
  using assms
  by (auto simp: parseWorkspaceRef_def parse_mode_def parse_kind_def parse_id_def parse_fragment_def fragment_ok_def Let_def
      split: js.splits if_splits option.splits prod.splits sum.splits)

lemma format_chars:
  assumes "SLUG (wr_mode ref)" "SLUG (wr_kind ref)" "fragment_ok (wr_fragment ref)" "c \<in> set (formatWorkspaceRef ref)"
  shows "plain_char c"
proof -
  have "c \<in> set WORKSPACE_REF_SCHEME \<or> c \<in> set (path_of ref) \<or> c = CHR ''#'' \<or> (\<exists>t. wr_fragment ref = Some t \<and> c \<in> set t)"
    using assms(4) by (cases "wr_fragment ref") (auto simp: formatWorkspaceRef_def key_path Let_def split: if_splits)
  moreover have "plain_char (CHR ''#'')" by code_simp
  ultimately show ?thesis
    using scheme_chars(1) path_chars(1) [OF assms(1,2)] assms(3) fragment_chars(1)
    by (auto simp: fragment_ok_def FRAGMENT_def list_all_iff)
qed


section \<open>Where the round trip fails\<close>

text \<open>
  \<open>/\s/\<close> refuses more than the escapes remove: an id with a no-break space, as in the name of a file,
  is a reference that parses no more once it has been written in its canonical spelling.
\<close>

definition no_break_space_ref :: WorkspaceRef where
  "no_break_space_ref = \<lparr>wr_mode = ''code'', wr_kind = ''file'', wr_id = ''a'' @ [CHR 0xC2, CHR 0xA0] @ ''b'', wr_fragment = None\<rparr>"

lemma escaped_space_does_not_return:
  "parseWorkspaceRef (JStr ''brainrouter://code/file/a%C2%A0b'') = Inr no_break_space_ref"
  "parseWorkspaceRef (JStr (formatWorkspaceRef no_break_space_ref)) = Inl (invalid_id, ''unencoded whitespace in the id'')"
  by code_simp+

text \<open>An escaped byte order mark is an id, and the id it decodes to is empty.\<close>

lemma byte_order_mark_is_an_empty_id:
  "parseWorkspaceRef (JStr ''brainrouter://code/file/%EF%BB%BF'') =
     Inr \<lparr>wr_mode = ''code'', wr_kind = ''file'', wr_id = [], wr_fragment = None\<rparr>"
  by code_simp

text \<open>The length of the id is checked before it is decoded, and its canonical spelling may be longer.\<close>

lemma encodeId_angles: "length (encodeId (replicate n (CHR ''<''))) = 3 * n"
proof -
  have "length (encode_byte (CHR ''<'')) = 3" by code_simp
  then show ?thesis by (induction n) (simp_all add: encodeId_simps)
qed

lemma canonical_id_too_long:
  assumes "n > 170"
  shows "parse_id m k f (encodeId (replicate n (CHR ''<''))) = Inl (invalid_id, ''id exceeds '' @ digits_of MAX_ID_LENGTH @ '' characters'')"
    "n \<le> 512 \<Longrightarrow> parse_id m k f (replicate n (CHR ''<'')) = Inr \<lparr>wr_mode = m, wr_kind = k, wr_id = replicate n (CHR ''<''), wr_fragment = f\<rparr>"
proof -
  have "encodeId (replicate n (CHR ''<'')) \<noteq> []" using assms by (simp add: encodeId_Nil)
  then show "parse_id m k f (encodeId (replicate n (CHR ''<''))) = Inl (invalid_id, ''id exceeds '' @ digits_of MAX_ID_LENGTH @ '' characters'')"
    using assms encodeId_angles [of n] by (simp add: parse_id_def MAX_ID_LENGTH_def)
  have "\<not> has_wide_space (replicate n (CHR ''<''))" by (rule low_has_no_wide) (simp add: high_def)
  then have "\<not> has_space (replicate n (CHR ''<''))" by (simp add: has_space_def js_space_def)
  moreover have "decodeId (replicate n (CHR ''<'')) = Some (replicate n (CHR ''<''))" by (simp add: decodeId_def)
  ultimately show "n \<le> 512 \<Longrightarrow> parse_id m k f (replicate n (CHR ''<'')) = Inr \<lparr>wr_mode = m, wr_kind = k, wr_id = replicate n (CHR ''<''), wr_fragment = f\<rparr>"
    using assms by (simp add: parse_id_def MAX_ID_LENGTH_def control_char_def)
qed

section \<open>The properties\<close>

text \<open>
  C34. A reference to a target round-trips: its canonical spelling parses back to it, with its fragment,
  for every id that is text without control characters or white space outside ASCII and whose escaped
  spelling has at most 512 characters, and two references have one key exactly when they name one target.
\<close>

theorem reference_round_trips:
  assumes "canonical_reference a" "canonical_reference b"
  shows "parseWorkspaceRef (JStr (formatWorkspaceRef a)) = Inr a \<and>
    (workspaceRefKey a = workspaceRefKey b \<longleftrightarrow> wr_mode a = wr_mode b \<and> wr_kind a = wr_kind b \<and> wr_id a = wr_id b)"
proof -
  have "workspaceRefKey a = workspaceRefKey b \<Longrightarrow> parse_mode None (path_of a) = parse_mode None (path_of b)"
    by (simp add: key_path)
  then show ?thesis using assms by (auto simp: format_parses_back parse_path workspaceRefKey_def)
qed

definition sample_ref :: WorkspaceRef where
  "sample_ref = \<lparr>wr_mode = ''code'', wr_kind = ''file'', wr_id = ''src/a b#<1>.ts'', wr_fragment = Some ''L59''\<rparr>"

lemma reference_round_trips_witness:
  "parseWorkspaceRef (JStr (formatWorkspaceRef sample_ref)) = Inr sample_ref \<and>
    (workspaceRefKey sample_ref = workspaceRefKey sample_ref \<longleftrightarrow>
       wr_mode sample_ref = wr_mode sample_ref \<and> wr_kind sample_ref = wr_kind sample_ref \<and> wr_id sample_ref = wr_id sample_ref)"
  by (rule reference_round_trips; code_simp)

text \<open>
  Nothing that parses as a reference is written back with markup in it: the canonical spelling holds no
  angle bracket, no white space and no control character, so it cannot close the fence of an agent's
  context or a tag, whatever the id was escaped to carry.
\<close>

theorem canonical_spelling_carries_no_markup:
  assumes "parseWorkspaceRef v = Inr ref"
  shows "list_all (\<lambda>c. byte c > 0x20 \<and> byte c \<noteq> 0x7F \<and> c \<noteq> CHR ''<'' \<and> c \<noteq> CHR ''>'') (formatWorkspaceRef ref)"
proof -
  have "plain_char c \<Longrightarrow> byte c > 0x20 \<and> byte c \<noteq> 0x7F \<and> c \<noteq> CHR ''<'' \<and> c \<noteq> CHR ''>''" for c
    by (auto simp: plain_char_def)
  then show ?thesis using format_chars [OF parsed_reference(1-3) [OF assms]] by (simp add: list_all_iff)
qed

lemma canonical_spelling_carries_no_markup_witness:
  "list_all (\<lambda>c. byte c > 0x20 \<and> byte c \<noteq> 0x7F \<and> c \<noteq> CHR ''<'' \<and> c \<noteq> CHR ''>'')
     (formatWorkspaceRef \<lparr>wr_mode = ''code'', wr_kind = ''file'', wr_id = ''</data>'', wr_fragment = None\<rparr>)"
  by (rule canonical_spelling_carries_no_markup [where v = "JStr ''brainrouter://code/file/%3C/data%3E''"]) code_simp

end
