(* ===== verification/Backlinks.thy ===== *)
theory Backlinks
  imports WorkspaceRef "HOL-Library.AList"
begin

text \<open>
  References in prose, and the index of what links where, \<open>packages/core/src/workspace/references/
  backlinks.ts\<close>. A \<open>Map\<close> of the code is an association list in the order of insertion; the
  code sorts what it answers; \<open>localeCompare\<close> is an argument.
\<close>

section \<open>References in prose\<close>

text \<open>What a candidate may go on with: neither white space nor a delimiter.\<close>

definition delimiters :: "char list" where
  "delimiters = [CHR ''<'', CHR ''>'', CHR 0x22, CHR 0x27, CHR 0x60]"

fun candidate_body :: "string \<Rightarrow> string" where
  "candidate_body [] = []"
| "candidate_body (c # s) =
     (if js_space c \<or> c \<in> set delimiters \<or> (\<exists>w \<in> set wide_spaces. starts_with w (c # s)) then []
      else c # candidate_body s)"

text \<open>The candidate at the start of a text, if there is one.\<close>

definition candidate :: "string \<Rightarrow> string option" where
  "candidate s =
     (if map lower (take (length WORKSPACE_REF_SCHEME) s) = WORKSPACE_REF_SCHEME
         \<and> candidate_body (drop (length WORKSPACE_REF_SCHEME) s) \<noteq> []
      then Some (take (length WORKSPACE_REF_SCHEME) s @ candidate_body (drop (length WORKSPACE_REF_SCHEME) s))
      else None)"

text \<open>All the matches, with the index of each; \<open>i\<close> is the index of the text that is left.\<close>

function matches :: "nat \<Rightarrow> string \<Rightarrow> (nat \<times> string) list" where
  "matches i s =
     (case s of
        [] \<Rightarrow> []
      | _ # rest \<Rightarrow>
          (case candidate s of
             None \<Rightarrow> matches (i + 1) rest
           | Some m \<Rightarrow> (i, m) # matches (i + length m) (drop (length m) s)))"
  by pat_completeness auto
termination
  by (relation "measure (\<lambda>(i, s). length s)") (auto simp: candidate_def split: if_splits)

declare matches.simps [simp del]

definition TRAILING :: "char list" where
  "TRAILING = ''.,;:!?)]}>'' @ [CHR 0x27, CHR 0x22]"

definition trimTrailingPunctuation :: "string \<Rightarrow> string" where
  "trimTrailingPunctuation s = rev (dropWhile (\<lambda>c. c \<in> set TRAILING) (rev s))"

definition parsed :: "string \<Rightarrow> WorkspaceRef option" where
  "parsed uri = (case parseWorkspaceRef (JStr uri) of Inl _ \<Rightarrow> None | Inr r \<Rightarrow> Some r)"

definition extractWorkspaceRefs :: "string \<Rightarrow> WorkspaceRef list" where
  "extractWorkspaceRefs s = List.map_filter (\<lambda>m. parsed (trimTrailingPunctuation (snd m))) (matches 0 s)"

datatype WorkspaceRefSegment =
    TextSegment string
  | RefSegment string WorkspaceRef

definition text_segment :: "string \<Rightarrow> WorkspaceRefSegment list" where
  "text_segment s = (if s = [] then [] else [TextSegment s])"

definition js_between :: "nat \<Rightarrow> nat \<Rightarrow> string \<Rightarrow> string" where
  "js_between a b s = take (b - a) (drop a s)"

fun segments_from :: "string \<Rightarrow> nat \<Rightarrow> (nat \<times> string) list \<Rightarrow> WorkspaceRefSegment list" where
  "segments_from s cursor [] = (if cursor < length s then [TextSegment (drop cursor s)] else [])"
| "segments_from s cursor ((start, m) # ms) =
     (let uri = trimTrailingPunctuation m
      in case parsed uri of
           None \<Rightarrow> segments_from s cursor ms
         | Some ref \<Rightarrow>
             (if start > cursor then [TextSegment (js_between cursor start s)] else [])
               @ RefSegment uri ref # segments_from s (start + length uri) ms)"

definition splitTextByWorkspaceRefs :: "string \<Rightarrow> WorkspaceRefSegment list" where
  "splitTextByWorkspaceRefs s = segments_from s 0 (matches 0 s)"

section \<open>The index\<close>

record WorkspaceReferenceSource =
  rs_from :: WorkspaceRef
  rs_text :: string

record WorkspaceBacklink =
  bl_from :: WorkspaceRef
  bl_count :: nat
  bl_fragments :: "string list"

record WorkspaceBacklinkRow =
  row_target :: string
  row_from :: string
  row_count :: nat
  row_fragments :: "string list"

record WorkspaceBacklinkIndex =
  bi_edges :: "(string \<times> (string \<times> WorkspaceBacklink) list) list"
  bi_bySource :: "(string \<times> string list) list"

definition empty_index :: WorkspaceBacklinkIndex where
  "empty_index = \<lparr>bi_edges = [], bi_bySource = []\<rparr>"

text \<open>What one text cites: for each target how often, and the fragments in the order of their first mention.\<close>

definition cite :: "WorkspaceRef \<Rightarrow> (string \<times> nat \<times> string list) list \<Rightarrow> (string \<times> nat \<times> string list) list" where
  "cite ref perTarget =
     (let targetKey = workspaceRefKey ref;
          (n, fragments) = (case map_of perTarget targetKey of None \<Rightarrow> (0, []) | Some e \<Rightarrow> e)
      in AList.update targetKey
           (n + 1,
            if truthy (wr_fragment ref) \<and> the (wr_fragment ref) \<notin> set fragments then fragments @ [the (wr_fragment ref)]
            else fragments)
           perTarget)"

definition citations :: "string \<Rightarrow> (string \<times> nat \<times> string list) list" where
  "citations s = fold cite (extractWorkspaceRefs s) []"

definition edges_of :: "(string \<times> (string \<times> WorkspaceBacklink) list) list \<Rightarrow> string \<Rightarrow> (string \<times> WorkspaceBacklink) list" where
  "edges_of edges targetKey = (case map_of edges targetKey of None \<Rightarrow> [] | Some es \<Rightarrow> es)"

definition drop_edge where
  "drop_edge fromKey targetKey edges =
     (case map_of edges targetKey of
        None \<Rightarrow> edges
      | Some es \<Rightarrow>
          let es = AList.delete fromKey es
          in if es = [] then AList.delete targetKey edges else AList.update targetKey es edges)"

definition remove_source :: "WorkspaceRef \<Rightarrow> WorkspaceBacklinkIndex \<Rightarrow> WorkspaceBacklinkIndex" where
  "remove_source from index =
     (let fromKey = formatWorkspaceRef from
      in case map_of (bi_bySource index) fromKey of
           None \<Rightarrow> index
         | Some targets \<Rightarrow>
             \<lparr>bi_edges = fold (drop_edge fromKey) targets (bi_edges index),
              bi_bySource = AList.delete fromKey (bi_bySource index)\<rparr>)"

definition backlink :: "WorkspaceRef \<Rightarrow> nat \<times> string list \<Rightarrow> WorkspaceBacklink" where
  "backlink from entry = \<lparr>bl_from = from, bl_count = fst entry, bl_fragments = sort (snd entry)\<rparr>"

definition add_edge where
  "add_edge from fromKey entry edges =
     AList.update (fst entry) (AList.update fromKey (backlink from (snd entry)) (edges_of edges (fst entry))) edges"

definition apply_source :: "WorkspaceReferenceSource \<Rightarrow> WorkspaceBacklinkIndex \<Rightarrow> WorkspaceBacklinkIndex" where
  "apply_source source index =
     (let fromKey = formatWorkspaceRef (rs_from source);
          index = remove_source (rs_from source) index;
          perTarget = citations (rs_text source)
      in if perTarget = [] then index
         else
           \<lparr>bi_edges = fold (add_edge (rs_from source) fromKey) perTarget (bi_edges index),
            bi_bySource = AList.update fromKey (map fst perTarget) (bi_bySource index)\<rparr>)"

definition rebuild :: "WorkspaceReferenceSource list \<Rightarrow> WorkspaceBacklinkIndex" where
  "rebuild sources = fold apply_source sources empty_index"

definition backlinksTo ::
    "(string \<Rightarrow> string \<Rightarrow> int) \<Rightarrow> WorkspaceBacklinkIndex \<Rightarrow> WorkspaceRef \<Rightarrow> WorkspaceBacklink list" where
  "backlinksTo localeCompare index target =
     sort_by (\<lambda>a b. localeCompare (formatWorkspaceRef (bl_from a)) (formatWorkspaceRef (bl_from b)))
       (map snd (edges_of (bi_edges index) (workspaceRefKey target)))"

definition targets :: "WorkspaceBacklinkIndex \<Rightarrow> string list" where
  "targets index = sort (map fst (bi_edges index))"

definition row_order :: "(string \<Rightarrow> string \<Rightarrow> int) \<Rightarrow> WorkspaceBacklinkRow \<Rightarrow> WorkspaceBacklinkRow \<Rightarrow> int" where
  "row_order localeCompare a b =
     (let c = localeCompare (row_target a) (row_target b)
      in if c \<noteq> 0 then c else localeCompare (row_from a) (row_from b))"

definition rows :: "WorkspaceBacklinkIndex \<Rightarrow> WorkspaceBacklinkRow list" where
  "rows index =
     concat (map (\<lambda>(target, edges).
       map (\<lambda>(from, edge).
         \<lparr>row_target = target, row_from = from, row_count = bl_count edge, row_fragments = bl_fragments edge\<rparr>) edges)
       (bi_edges index))"

definition snapshot_rows :: "(string \<Rightarrow> string \<Rightarrow> int) \<Rightarrow> WorkspaceBacklinkIndex \<Rightarrow> WorkspaceBacklinkRow list" where
  "snapshot_rows localeCompare index = sort_by (row_order localeCompare) (rows index)"

end
