(* ===== verification/BacklinkSafety.thy ===== *)
theory BacklinkSafety
  imports Backlinks
begin

text \<open>
  The index is a cache that can be rebuilt: whatever edits led to it, what it answers is what an index
  built from the present contents answers. And splitting a text for rendering loses nothing of it.
\<close>

section \<open>Splitting a text\<close>

fun segment_text :: "WorkspaceRefSegment \<Rightarrow> string" where
  "segment_text (TextSegment s) = s"
| "segment_text (RefSegment uri _) = uri"

fun segment_ref :: "WorkspaceRefSegment \<Rightarrow> WorkspaceRef option" where
  "segment_ref (TextSegment _) = None"
| "segment_ref (RefSegment _ ref) = Some ref"

text \<open>Matches that are in the text, in order and without overlap.\<close>

fun laid_out :: "string \<Rightarrow> nat \<Rightarrow> (nat \<times> string) list \<Rightarrow> bool" where
  "laid_out s c [] \<longleftrightarrow> c \<le> length s"
| "laid_out s c ((j, m) # ms) \<longleftrightarrow>
     c \<le> j \<and> j + length m \<le> length s \<and> take (length m) (drop j s) = m \<and> laid_out s (j + length m) ms"

lemma laid_out_mono: "laid_out s c ms \<Longrightarrow> b \<le> c \<Longrightarrow> laid_out s b ms"
  by (cases ms) auto

lemma candidate_body_prefix: "prefix (candidate_body s) s"
  by (induction s) auto

lemma candidate_prefix: "candidate s = Some m \<Longrightarrow> prefix m s"
proof -
  assume "candidate s = Some m"
  then have "m = take (length WORKSPACE_REF_SCHEME) s @ candidate_body (drop (length WORKSPACE_REF_SCHEME) s)"
    by (auto simp: candidate_def split: if_splits)
  then show ?thesis
    using candidate_body_prefix [of "drop (length WORKSPACE_REF_SCHEME) s"]
    by (metis append_take_drop_id same_prefix_prefix)
qed

lemma matches_laid_out: "t = drop i s \<Longrightarrow> i \<le> length s \<Longrightarrow> laid_out s i (matches i t)"
proof (induction i t rule: matches.induct)
  case (1 i t)
  show ?case
  proof (cases t)
    case Nil
    with 1 show ?thesis by (simp add: matches.simps)
  next
    case (Cons c rest)
    have rest: "rest = drop (i + 1) s" using Cons 1(3) by (metis add.commute drop_Suc drop_drop list.sel(3) plus_1_eq_Suc tl_drop)
    have i: "i < length s" using Cons 1(3) by (metis drop_all linorder_not_le list.discI)
    show ?thesis
    proof (cases "candidate t")
      case None
      with 1(1) [OF Cons None rest] i have "laid_out s (i + 1) (matches (i + 1) rest)" by simp
      then show ?thesis using Cons None by (subst matches.simps) (simp add: laid_out_mono)
    next
      case (Some m)
      from candidate_prefix [OF Some] obtain u where u: "t = m @ u" by (auto simp: prefix_def)
      have len: "i + length m \<le> length s" using u 1(3) i by (metis add_le_cancel_left diff_add_inverse le_add1 le_add_diff_inverse less_imp_le_nat length_append length_drop)
      have "drop (length m) t = drop (i + length m) s" using 1(3) by (simp add: add.commute)
      with 1(2) [OF Cons Some] len have "laid_out s (i + length m) (matches (i + length m) (drop (length m) t))" by simp
      moreover have "take (length m) (drop i s) = m" using u 1(3) by (metis append_eq_conv_conj)
      ultimately show ?thesis using Cons Some len by (subst matches.simps) simp
    qed
  qed
qed

lemma trim_prefix: "\<exists>u. m = trimTrailingPunctuation m @ u"
proof
  show "m = trimTrailingPunctuation m @ rev (takeWhile (\<lambda>c. c \<in> set TRAILING) (rev m))"
    unfolding trimTrailingPunctuation_def by (metis rev_append rev_rev_ident takeWhile_dropWhile_id)
qed

lemma segments_text:
  "laid_out s c ms \<Longrightarrow> concat (map segment_text (segments_from s c ms)) = drop c s"
proof (induction ms arbitrary: c)
  case (Cons jm ms)
  obtain j m where jm: "jm = (j, m)" by force
  let ?uri = "trimTrailingPunctuation m"
  obtain u where u: "m = ?uri @ u" using trim_prefix by blast
  from Cons.prems jm have l: "c \<le> j" "j + length m \<le> length s" "take (length m) (drop j s) = m" "laid_out s (j + length m) ms"
    by auto
  show ?case
  proof (cases "parsed ?uri")
    case None
    have "laid_out s c ms" by (rule laid_out_mono [OF l(4)]) (use l in simp)
    with Cons.IH [OF this] None show ?thesis by (simp add: jm)
  next
    case (Some ref)
    have len: "length ?uri \<le> length m" using u by (metis length_append le_add1)
    have "laid_out s (j + length ?uri) ms" by (rule laid_out_mono [OF l(4)]) (use len in simp)
    from Cons.IH [OF this]
    have ih: "concat (map segment_text (segments_from s (j + length ?uri) ms)) = drop (j + length ?uri) s" .
    have "take (length ?uri) (drop j s) = ?uri" using l(3) u len by (metis append_eq_conv_conj min.absorb1 take_take)
    then have "?uri @ drop (j + length ?uri) s = drop j s" by (metis add.commute append_take_drop_id drop_drop)
    moreover have "js_between c j s @ drop j s = drop c s"
      using l(1) by (simp add: js_between_def) (metis append_take_drop_id drop_drop le_add_diff_inverse2)
    moreover have "\<not> c < j \<Longrightarrow> drop j s = drop c s" using l(1) by simp
    ultimately show ?thesis using Some ih by (auto simp: jm Let_def)
  qed
qed simp

lemma segments_refs:
  "List.map_filter segment_ref (segments_from s c ms) = List.map_filter (\<lambda>m. parsed (trimTrailingPunctuation (snd m))) ms"
  by (induction ms arbitrary: c) (auto simp: map_filter_simps Let_def split: option.split)

section \<open>Edges\<close>

definition edge_at :: "(string \<times> (string \<times> WorkspaceBacklink) list) list \<Rightarrow> string \<Rightarrow> string \<Rightarrow> WorkspaceBacklink option" where
  "edge_at edges targetKey fromKey = map_of (edges_of edges targetKey) fromKey"

text \<open>No key twice, and no target without an edge.\<close>

definition tidy :: "(string \<times> (string \<times> WorkspaceBacklink) list) list \<Rightarrow> bool" where
  "tidy edges \<longleftrightarrow> distinct (map fst edges) \<and> (\<forall>t es. map_of edges t = Some es \<longrightarrow> es \<noteq> [] \<and> distinct (map fst es))"

lemma tidyD: "tidy edges \<Longrightarrow> map_of edges t = Some es \<Longrightarrow> es \<noteq> [] \<and> distinct (map fst es)"
  by (simp add: tidy_def)

lemma tidy_edges_of: "tidy edges \<Longrightarrow> distinct (map fst (edges_of edges t))"
  by (auto simp: edges_of_def dest: tidyD split: option.split)

lemma tidy_update: "tidy edges \<Longrightarrow> es \<noteq> [] \<Longrightarrow> distinct (map fst es) \<Longrightarrow> tidy (AList.update t es edges)"
  by (simp add: tidy_def distinct_update update_conv')

lemma tidy_delete: "tidy edges \<Longrightarrow> tidy (AList.delete t edges)"
  by (simp add: tidy_def distinct_delete delete_conv')

lemma delete_Nil_lookup: "AList.delete k es = [] \<Longrightarrow> k' \<noteq> k \<Longrightarrow> map_of es k' = None"
  by (metis delete_conv' fun_upd_apply map_of.simps(1))

lemma edges_of_update: "edges_of (AList.update t es edges) t' = (if t' = t then es else edges_of edges t')"
  by (simp add: edges_of_def update_conv')

lemma edges_of_delete: "edges_of (AList.delete t edges) t' = (if t' = t then [] else edges_of edges t')"
  by (simp add: edges_of_def delete_conv')

lemma drop_edge_at:
  "edge_at (drop_edge f t edges) t' f' = (if t' = t \<and> f' = f then None else edge_at edges t' f')"
proof (cases "map_of edges t")
  case None
  then show ?thesis by (simp add: drop_edge_def edge_at_def edges_of_def)
next
  case (Some es)
  then have es: "edges_of edges t = es" by (simp add: edges_of_def)
  show ?thesis
  proof (cases "AList.delete f es = []")
    case True
    with Some es show ?thesis
      by (simp add: drop_edge_def Let_def edge_at_def edges_of_delete delete_Nil_lookup)
  next
    case False
    with Some es show ?thesis
      by (simp add: drop_edge_def Let_def edge_at_def edges_of_update delete_conv')
  qed
qed

lemma drop_edge_tidy: "tidy edges \<Longrightarrow> tidy (drop_edge f t edges)"
proof (cases "map_of edges t")
  case (Some es)
  moreover assume "tidy edges"
  ultimately show ?thesis using tidyD [of edges t es]
    by (simp add: drop_edge_def Let_def tidy_update tidy_delete distinct_delete)
qed (simp add: drop_edge_def)

lemma drop_edges:
  "tidy edges \<Longrightarrow> tidy (fold (drop_edge f) ts edges)"
  "edge_at (fold (drop_edge f) ts edges) t' f' = (if t' \<in> set ts \<and> f' = f then None else edge_at edges t' f')"
  by (induction ts arbitrary: edges) (auto simp: drop_edge_tidy drop_edge_at)

lemma add_edge_at:
  "edge_at (add_edge from f (t, e) edges) t' f' = (if t' = t \<and> f' = f then Some (backlink from e) else edge_at edges t' f')"
  by (simp add: edge_at_def add_edge_def edges_of_update update_conv')

lemma add_edge_tidy: "tidy edges \<Longrightarrow> tidy (add_edge from f te edges)"
  unfolding add_edge_def by (intro tidy_update distinct_update tidy_edges_of) (auto simp: update_nonempty)

lemma add_edges:
  "tidy edges \<Longrightarrow> tidy (fold (add_edge from f) per edges)"
  "distinct (map fst per) \<Longrightarrow>
     edge_at (fold (add_edge from f) per edges) t' f' =
       (if f' = f then (case map_of per t' of None \<Rightarrow> edge_at edges t' f' | Some e \<Rightarrow> Some (backlink from e)) else edge_at edges t' f')"
proof (induction per arbitrary: edges)
  case (Cons te per)
  {
    case 1
    then show ?case using Cons.IH(1) add_edge_tidy by simp
  next
    case 2
    obtain t e where te: "te = (t, e)" by (cases te)
    from 2 te have "t \<notin> set (map fst per)" "distinct (map fst per)" by auto
    then have "map_of per t = None" by (simp add: map_of_eq_None_iff)
    with Cons.IH(2) [OF \<open>distinct (map fst per)\<close>] te show ?case by (auto simp: add_edge_at split: option.split)
  }
qed auto

lemma citations_distinct: "distinct (map fst (citations s))"
proof -
  have "distinct (map fst acc) \<Longrightarrow> distinct (map fst (fold cite refs acc))" for refs acc
    by (induction refs arbitrary: acc) (auto simp: cite_def Let_def distinct_update split: prod.split)
  then show ?thesis by (simp add: citations_def)
qed

section \<open>The index against the contents\<close>

definition wanted :: "(string \<Rightarrow> WorkspaceReferenceSource option) \<Rightarrow> string \<Rightarrow> string \<Rightarrow> WorkspaceBacklink option" where
  "wanted C t f =
     (case C f of
        None \<Rightarrow> None
      | Some source \<Rightarrow> map_option (backlink (rs_from source)) (map_of (citations (rs_text source)) t))"

definition cited :: "(string \<Rightarrow> WorkspaceReferenceSource option) \<Rightarrow> string \<Rightarrow> string list option" where
  "cited C f =
     (case C f of
        None \<Rightarrow> None
      | Some source \<Rightarrow> if citations (rs_text source) = [] then None else Some (map fst (citations (rs_text source))))"

definition agrees :: "WorkspaceBacklinkIndex \<Rightarrow> (string \<Rightarrow> WorkspaceReferenceSource option) \<Rightarrow> bool" where
  "agrees index C \<longleftrightarrow>
     tidy (bi_edges index) \<and> (\<forall>t f. edge_at (bi_edges index) t f = wanted C t f) \<and>
     (\<forall>f. map_of (bi_bySource index) f = cited C f) \<and>
     (\<forall>f source. C f = Some source \<longrightarrow> formatWorkspaceRef (rs_from source) = f)"

lemma agreesD:
  assumes "agrees index C"
  shows "tidy (bi_edges index)" "edge_at (bi_edges index) t f = wanted C t f" "map_of (bi_bySource index) f = cited C f"
    "C f = Some source \<Longrightarrow> formatWorkspaceRef (rs_from source) = f"
  using assms by (auto simp: agrees_def)

lemma agreesI:
  assumes "tidy (bi_edges index)" "\<And>t f. edge_at (bi_edges index) t f = wanted C t f"
    and "\<And>f. map_of (bi_bySource index) f = cited C f"
    and "\<And>f source. C f = Some source \<Longrightarrow> formatWorkspaceRef (rs_from source) = f"
  shows "agrees index C"
  using assms by (simp add: agrees_def)

lemma agrees_empty: "agrees empty_index (\<lambda>_. None)"
  by (simp add: agrees_def empty_index_def tidy_def edge_at_def edges_of_def wanted_def cited_def)

lemma agrees_remove:
  assumes "agrees index C"
  shows "agrees (remove_source from index) (C(formatWorkspaceRef from := None))"
proof -
  let ?f = "formatWorkspaceRef from"
  show ?thesis
  proof (cases "cited C ?f")
    case None
    then have w: "wanted C t ?f = None" for t by (auto simp: cited_def wanted_def split: option.splits if_splits)
    have "wanted (C(?f := None)) t f = wanted C t f" "cited (C(?f := None)) f = cited C f" for t f
      using w None by (auto simp: wanted_def cited_def)
    with assms None show ?thesis by (auto simp: remove_source_def Let_def agrees_def)
  next
    case (Some ts)
    then obtain source where src: "C ?f = Some source" "ts = map fst (citations (rs_text source))"
      by (auto simp: cited_def split: option.splits if_splits)
    have "wanted C t ?f = None" if "t \<notin> set ts" for t
      using src that by (auto simp: wanted_def map_of_eq_None_iff)
    then have "wanted (C(?f := None)) t f = (if t \<in> set ts \<and> f = ?f then None else wanted C t f)" for t f
      by (auto simp: wanted_def)
    moreover have "cited (C(?f := None)) f = ((cited C)(?f := None)) f" for f by (simp add: cited_def)
    moreover have "remove_source from index =
        \<lparr>bi_edges = fold (drop_edge ?f) ts (bi_edges index), bi_bySource = AList.delete ?f (bi_bySource index)\<rparr>"
      by (simp add: remove_source_def Let_def agreesD(3) [OF assms] Some)
    ultimately show ?thesis using assms by (simp add: agrees_def drop_edges delete_conv')
  qed
qed

lemma agrees_apply:
  assumes "agrees index C"
  shows "agrees (apply_source source index) (C(formatWorkspaceRef (rs_from source) \<mapsto> source))"
proof -
  let ?f = "formatWorkspaceRef (rs_from source)" and ?per = "citations (rs_text source)"
  let ?i = "remove_source (rs_from source) index" and ?C = "C(?f := None)"
  have r: "agrees ?i ?C" by (rule agrees_remove [OF assms])
  have c: "C(?f \<mapsto> source) = ?C(?f \<mapsto> source)" by simp
  have w: "wanted (?C(?f \<mapsto> source)) t f =
      (if f = ?f then (case map_of ?per t of None \<Rightarrow> wanted ?C t f | Some e \<Rightarrow> Some (backlink (rs_from source) e)) else wanted ?C t f)" for t f
    by (auto simp: wanted_def split: option.split)
  have keyed: "formatWorkspaceRef (rs_from s) = f" if "(?C(?f \<mapsto> source)) f = Some s" for f s
    using that agreesD(4) [OF r, of f s] by (cases "f = ?f") simp_all
  have "agrees (apply_source source index) (?C(?f \<mapsto> source))"
  proof (cases "?per = []")
    case True
    then have i: "apply_source source index = ?i" by (simp add: apply_source_def Let_def)
    have wc: "wanted (?C(?f \<mapsto> source)) t f = wanted ?C t f" "cited (?C(?f \<mapsto> source)) f = cited ?C f" for t f
      using True w [of t f] by (simp_all add: cited_def)
    show ?thesis unfolding i by (rule agreesI) (simp_all only: wc agreesD(1-3) [OF r], rule keyed)
  next
    case False
    then have i: "apply_source source index =
        \<lparr>bi_edges = fold (add_edge (rs_from source) ?f) ?per (bi_edges ?i), bi_bySource = AList.update ?f (map fst ?per) (bi_bySource ?i)\<rparr>"
      by (simp add: apply_source_def Let_def)
    have l: "edge_at (fold (add_edge (rs_from source) ?f) ?per (bi_edges ?i)) t f = wanted (?C(?f \<mapsto> source)) t f" for t f
      unfolding w add_edges(2) [OF citations_distinct] agreesD(2) [OF r] by simp
    have b: "map_of (AList.update ?f (map fst ?per) (bi_bySource ?i)) f = cited (?C(?f \<mapsto> source)) f" for f
      using agreesD(3) [OF r, of f] False by (simp add: update_conv' cited_def)
    show ?thesis unfolding i
      by (rule agreesI) (simp_all only: WorkspaceBacklinkIndex.select_convs l b add_edges(1) [OF agreesD(1) [OF r]], rule keyed)
  qed
  then show ?thesis unfolding c .
qed

text \<open>Two indexes of the same contents have the same rows, up to their order.\<close>

lemma rows_set:
  "tidy edges \<Longrightarrow> set (rows \<lparr>bi_edges = edges, bi_bySource = b\<rparr>) =
     {\<lparr>row_target = t, row_from = f, row_count = bl_count e, row_fragments = bl_fragments e\<rparr> | t f e. edge_at edges t f = Some e}"
proof -
  assume t: "tidy edges"
  have iff: "(t, es) \<in> set edges \<and> (f, e) \<in> set es \<longleftrightarrow> es = edges_of edges t \<and> edge_at edges t f = Some e" for t es f e
  proof
    assume a: "(t, es) \<in> set edges \<and> (f, e) \<in> set es"
    with t have "map_of edges t = Some es" by (auto simp: tidy_def)
    with a tidyD [OF t] show "es = edges_of edges t \<and> edge_at edges t f = Some e"
      by (simp add: edge_at_def edges_of_def map_of_eq_Some_iff)
  next
    assume a: "es = edges_of edges t \<and> edge_at edges t f = Some e"
    then have "map_of edges t = Some es" by (auto simp: edge_at_def edges_of_def split: option.splits)
    with a show "(t, es) \<in> set edges \<and> (f, e) \<in> set es" by (auto simp: edge_at_def dest: map_of_SomeD)
  qed
  have some: "(\<exists>es. (t, es) \<in> set edges \<and> (f, e) \<in> set es) \<longleftrightarrow> edge_at edges t f = Some e" for t f e
    unfolding iff by simp
  let ?row = "\<lambda>t f e. \<lparr>row_target = t, row_from = f, row_count = bl_count e, row_fragments = bl_fragments e\<rparr>"
  have "r \<in> set (rows \<lparr>bi_edges = edges, bi_bySource = b\<rparr>) \<longleftrightarrow>
      (\<exists>t f e. r = ?row t f e \<and> (\<exists>es. (t, es) \<in> set edges \<and> (f, e) \<in> set es))" for r
  proof
    assume "r \<in> set (rows \<lparr>bi_edges = edges, bi_bySource = b\<rparr>)"
    then show "\<exists>t f e. r = ?row t f e \<and> (\<exists>es. (t, es) \<in> set edges \<and> (f, e) \<in> set es)"
      by (clarsimp simp: rows_def) blast
  next
    assume "\<exists>t f e. r = ?row t f e \<and> (\<exists>es. (t, es) \<in> set edges \<and> (f, e) \<in> set es)"
    then obtain t f e es where "r = ?row t f e" "(t, es) \<in> set edges" "(f, e) \<in> set es" by blast
    then show "r \<in> set (rows \<lparr>bi_edges = edges, bi_bySource = b\<rparr>)" by (simp add: rows_def) force
  qed
  then have "set (rows \<lparr>bi_edges = edges, bi_bySource = b\<rparr>) =
      {?row t f e | t f e. \<exists>es. (t, es) \<in> set edges \<and> (f, e) \<in> set es}" by blast
  then show ?thesis by (simp only: some)
qed

lemma rows_distinct: "tidy edges \<Longrightarrow> distinct (map (\<lambda>r. (row_target r, row_from r)) (rows \<lparr>bi_edges = edges, bi_bySource = b\<rparr>))"
proof (induction edges)
  case (Cons te edges)
  obtain t es where te: "te = (t, es)" by (cases te)
  have t: "t \<notin> set (map fst edges)" "distinct (map fst es)"
    using Cons.prems tidyD [OF Cons.prems, of t es] by (simp_all add: te tidy_def)
  have "map_of (te # edges) t' = Some es'" if "map_of edges t' = Some es'" for t' es'
  proof -
    have "map_of edges t = None" using t(1) by (simp add: map_of_eq_None_iff)
    with that te show ?thesis by (cases "t' = t") auto
  qed
  then have "tidy edges"
    unfolding tidy_def using Cons.prems tidyD [OF Cons.prems] by (intro conjI allI impI) (simp_all add: tidy_def, blast+)
  with Cons.IH have "distinct (map (\<lambda>r. (row_target r, row_from r)) (rows \<lparr>bi_edges = edges, bi_bySource = b\<rparr>))" .
  moreover have pairs: "map (\<lambda>r. (row_target r, row_from r)) (map (\<lambda>(f, e).
      \<lparr>row_target = t, row_from = f, row_count = bl_count e, row_fragments = bl_fragments e\<rparr>) es) = map (Pair t) (map fst es)"
    by (simp add: case_prod_beta comp_def)
  moreover have "distinct (map (Pair t) (map fst es))" by (subst distinct_map) (use t(2) in \<open>auto simp: inj_on_def\<close>)
  moreover have "row_target r \<noteq> t" if "r \<in> set (rows \<lparr>bi_edges = edges, bi_bySource = b\<rparr>)" for r
    using that t(1) by (force simp: rows_def)
  moreover have "rows \<lparr>bi_edges = te # edges, bi_bySource = b\<rparr> = map (\<lambda>(f, e).
      \<lparr>row_target = t, row_from = f, row_count = bl_count e, row_fragments = bl_fragments e\<rparr>) es @ rows \<lparr>bi_edges = edges, bi_bySource = b\<rparr>"
    by (simp add: rows_def te)
  ultimately show ?case by (simp only: map_append distinct_append) auto
qed (simp add: rows_def)


lemma index_split: "rows index = rows \<lparr>bi_edges = bi_edges index, bi_bySource = b\<rparr>"
  by (simp add: rows_def)

lemma rows_mset:
  assumes "agrees i C" "agrees j C"
  shows "mset (rows i) = mset (rows j)"
proof -
  have "set (rows i) = set (rows j)"
    unfolding index_split [of i "[]"] index_split [of j "[]"]
    by (simp only: rows_set agreesD(1,2) [OF assms(1)] agreesD(1,2) [OF assms(2)])
  moreover have "distinct (rows i)" "distinct (rows j)"
    unfolding index_split [of i "[]"] index_split [of j "[]"]
    using rows_distinct agreesD(1) assms distinct_map by blast+
  ultimately show ?thesis by (simp add: set_eq_iff_mset_eq_distinct)
qed

lemma rows_keys:
  assumes "agrees i C" "a \<in> set (rows i)" "b \<in> set (rows i)" "row_target a = row_target b" "row_from a = row_from b"
  shows "a = b"
proof -
  have "inj_on (\<lambda>r. (row_target r, row_from r)) (set (rows i))"
    using rows_distinct [OF agreesD(1) [OF assms(1)], of "[]"] distinct_map index_split by metis
  with assms show ?thesis by (auto dest: inj_onD)
qed

lemma row_order_preorder: "preorder_comparator lc \<Longrightarrow> preorder_comparator (row_order lc)"
proof -
  assume l: "preorder_comparator lc"
  note swap = preorder_comparator.cmp_swap [OF l] and trans = preorder_comparator.cmp_trans [OF l]
  show ?thesis
  proof
    fix a b c :: WorkspaceBacklinkRow
    show "(row_order lc a b < 0) = (0 < row_order lc b a)"
      using swap [of "row_target a" "row_target b"] swap [of "row_target b" "row_target a"] swap [of "row_from a" "row_from b"]
      by (auto simp: row_order_def Let_def)
    assume ab: "row_order lc a b \<le> 0" and bc: "row_order lc b c \<le> 0"
    then have "lc (row_target a) (row_target b) \<le> 0" "lc (row_target b) (row_target c) \<le> 0"
      by (auto simp: row_order_def Let_def split: if_splits)
    then have ac: "lc (row_target a) (row_target c) \<le> 0" by (rule trans)
    show "row_order lc a c \<le> 0"
    proof (cases "lc (row_target a) (row_target c) = 0")
      case True
      then have "lc (row_target c) (row_target a) \<le> 0" using swap [of "row_target a" "row_target c"] swap [of "row_target c" "row_target a"] by linarith
      then have "lc (row_target c) (row_target b) \<le> 0" "lc (row_target b) (row_target a) \<le> 0"
        using trans \<open>lc (row_target a) (row_target b) \<le> 0\<close> \<open>lc (row_target b) (row_target c) \<le> 0\<close> by blast+
      then have "lc (row_target a) (row_target b) = 0" "lc (row_target b) (row_target c) = 0"
        using \<open>lc (row_target a) (row_target b) \<le> 0\<close> \<open>lc (row_target b) (row_target c) \<le> 0\<close>
          swap [of "row_target a" "row_target b"] swap [of "row_target b" "row_target c"] by linarith+
      with ab bc True trans show ?thesis by (auto simp: row_order_def)
    next
      case False
      with ac show ?thesis by (simp add: row_order_def)
    qed
  qed
qed

lemma sort_mset: "mset xs = mset ys \<Longrightarrow> sort xs = sort (ys :: string list)"
  by (metis properties_for_sort mset_sort sorted_sort)

lemma targets_set: "agrees i C \<Longrightarrow> set (map fst (bi_edges i)) = {t. \<exists>f e. wanted C t f = Some e}"
proof -
  assume a: "agrees i C"
  have "t \<in> set (map fst (bi_edges i)) \<longleftrightarrow> (\<exists>f e. edge_at (bi_edges i) t f = Some e)" for t
  proof
    assume "t \<in> set (map fst (bi_edges i))"
    then obtain es where es: "map_of (bi_edges i) t = Some es" by (metis domD dom_map_of_conv_image_fst list.set_map)
    with tidyD [OF agreesD(1) [OF a]] obtain f e es' where "es = (f, e) # es'" by (metis list.exhaust surj_pair)
    with es show "\<exists>f e. edge_at (bi_edges i) t f = Some e" by (auto simp: edge_at_def edges_of_def)
  next
    assume "\<exists>f e. edge_at (bi_edges i) t f = Some e"
    then obtain es where "map_of (bi_edges i) t = Some es" by (auto simp: edge_at_def edges_of_def split: option.splits)
    then show "t \<in> set (map fst (bi_edges i))" by (metis domI dom_map_of_conv_image_fst list.set_map)
  qed
  then have "set (map fst (bi_edges i)) = {t. \<exists>f e. edge_at (bi_edges i) t f = Some e}" by blast
  then show ?thesis by (simp only: agreesD(2) [OF a])
qed


lemma targets_agree: "agrees i C \<Longrightarrow> agrees j C \<Longrightarrow> targets i = targets j"
proof -
  assume a: "agrees i C" "agrees j C"
  have "distinct (map fst (bi_edges i))" "distinct (map fst (bi_edges j))" using a agreesD(1) by (auto simp: tidy_def)
  moreover have "set (map fst (bi_edges i)) = set (map fst (bi_edges j))" by (simp only: targets_set [OF a(1)] targets_set [OF a(2)])
  ultimately have "mset (map fst (bi_edges i)) = mset (map fst (bi_edges j))" by (simp only: set_eq_iff_mset_eq_distinct)
  then show ?thesis unfolding targets_def by (rule sort_mset)
qed

text \<open>
  A comparison of texts may call different ones equal (\<open>localeCompare\<close> does so for canonically
  equivalent spellings). The order of an answer is settled when it separates the references that
  occur in the answer.
\<close>

definition separates :: "(string \<Rightarrow> string \<Rightarrow> int) \<Rightarrow> string set \<Rightarrow> bool" where
  "separates lc X \<longleftrightarrow> (\<forall>a \<in> X. \<forall>b \<in> X. lc a b = 0 \<longrightarrow> a = b)"

lemma separatesD: "separates lc X \<Longrightarrow> a \<in> X \<Longrightarrow> b \<in> X \<Longrightarrow> lc a b = 0 \<Longrightarrow> a = b"
  by (auto simp: separates_def)

definition occurs_in :: "(string \<Rightarrow> WorkspaceReferenceSource option) \<Rightarrow> string set" where
  "occurs_in C = {x. \<exists>t f e. wanted C t f = Some e \<and> (x = t \<or> x = f)}"

lemma rows_occur:
  assumes "agrees i C" "r \<in> set (rows i)"
  shows "row_target r \<in> occurs_in C" "row_from r \<in> occurs_in C"
proof -
  have "\<exists>t f e. row_target r = t \<and> row_from r = f \<and> edge_at (bi_edges i) t f = Some e"
    using assms(2) unfolding index_split [of i "[]"] rows_set [OF agreesD(1) [OF assms(1)]] by force
  then show "row_target r \<in> occurs_in C" "row_from r \<in> occurs_in C"
    unfolding occurs_in_def agreesD(2) [OF assms(1)] by blast+
qed

lemma snapshot_agree:
  assumes "agrees i C" "agrees j C" "preorder_comparator lc" "separates lc (occurs_in C)"
  shows "snapshot_rows lc i = snapshot_rows lc j"
  unfolding snapshot_rows_def
proof (rule preorder_comparator.cmp_sort_by_unique [OF row_order_preorder [OF assms(3)] rows_mset [OF assms(1,2)]])
  fix a b assume ab: "a \<in> set (rows i)" "b \<in> set (rows i)" "row_order lc a b = 0"
  then have "lc (row_target a) (row_target b) = 0" "lc (row_from a) (row_from b) = 0"
    by (auto simp: row_order_def Let_def split: if_splits)
  then have "row_target a = row_target b" "row_from a = row_from b"
    using rows_occur [OF assms(1) ab(1)] rows_occur [OF assms(1) ab(2)] by (auto intro: separatesD [OF assms(4)])
  with rows_keys [OF assms(1) ab(1,2)] show "a = b" .
qed

text \<open>The edges to a target, and the key of the source each is from.\<close>

lemma edge_source:
  assumes "agrees i C" "(f, e) \<in> set (edges_of (bi_edges i) t)"
  shows "formatWorkspaceRef (bl_from e) = f" "f \<in> occurs_in C"
proof -
  have "edge_at (bi_edges i) t f = Some e"
    using assms(2) tidy_edges_of [OF agreesD(1) [OF assms(1)]] by (simp add: edge_at_def)
  then have w: "wanted C t f = Some e" by (simp only: agreesD(2) [OF assms(1)])
  then show "f \<in> occurs_in C" unfolding occurs_in_def by blast
  from w obtain source where "C f = Some source" "bl_from e = rs_from source"
    by (auto simp: wanted_def backlink_def split: option.splits)
  with agreesD(4) [OF assms(1)] show "formatWorkspaceRef (bl_from e) = f" by simp
qed

lemma backlinks_mset:
  assumes "agrees i C" "agrees j C"
  shows "mset (map snd (edges_of (bi_edges i) t)) = mset (map snd (edges_of (bi_edges j) t))"
proof -
  let ?es = "edges_of (bi_edges i) t" and ?fs = "edges_of (bi_edges j) t"
  have d: "distinct (map fst ?es)" "distinct (map fst ?fs)" using assms agreesD(1) tidy_edges_of by blast+
  have "map_of ?es = map_of ?fs" using agreesD(2) [OF assms(1), of t] agreesD(2) [OF assms(2), of t] by (auto simp: edge_at_def)
  then have "set ?es = set ?fs" using d map_of_inject_set by blast
  then have "mset ?es = mset ?fs" using d distinct_map by (metis set_eq_iff_mset_eq_distinct)
  then show ?thesis by simp
qed

lemma backlinks_agree:
  assumes "agrees i C" "agrees j C" "preorder_comparator lc" "separates lc (occurs_in C)"
  shows "backlinksTo lc i target = backlinksTo lc j target"
proof -
  let ?es = "edges_of (bi_edges i) (workspaceRefKey target)"
  have p: "preorder_comparator (\<lambda>a b. lc (formatWorkspaceRef (bl_from a)) (formatWorkspaceRef (bl_from b)))"
    using preorder_comparator_key [of lc "\<lambda>a. formatWorkspaceRef (bl_from a)"] assms(3) by simp
  show ?thesis unfolding backlinksTo_def
  proof (rule preorder_comparator.cmp_sort_by_unique [OF p backlinks_mset [OF assms(1,2)]])
    fix a b assume "a \<in> set (map snd ?es)" "b \<in> set (map snd ?es)"
      and z: "lc (formatWorkspaceRef (bl_from a)) (formatWorkspaceRef (bl_from b)) = 0"
    then obtain f g where fg: "(f, a) \<in> set ?es" "(g, b) \<in> set ?es" by auto
    with z have "f = g" using edge_source [OF assms(1)] separatesD [OF assms(4)] by metis
    with fg tidy_edges_of [OF agreesD(1) [OF assms(1)]] show "a = b" by (metis map_of_eq_Some_iff option.inject)
  qed
qed

section \<open>Histories of edits\<close>

datatype edit =
    Edited WorkspaceReferenceSource
  | Removed WorkspaceRef

fun edit_index :: "edit \<Rightarrow> WorkspaceBacklinkIndex \<Rightarrow> WorkspaceBacklinkIndex" where
  "edit_index (Edited source) index = apply_source source index"
| "edit_index (Removed from) index = remove_source from index"

text \<open>The present content of each source.\<close>

fun edit_contents :: "edit \<Rightarrow> (string \<times> WorkspaceReferenceSource) list \<Rightarrow> (string \<times> WorkspaceReferenceSource) list" where
  "edit_contents (Edited source) contents = AList.update (formatWorkspaceRef (rs_from source)) source contents"
| "edit_contents (Removed from) contents = AList.delete (formatWorkspaceRef from) contents"

definition present :: "edit list \<Rightarrow> WorkspaceReferenceSource list" where
  "present edits = map snd (fold edit_contents edits [])"

lemma edits_agree:
  "agrees index (map_of contents) \<Longrightarrow> agrees (fold edit_index edits index) (map_of (fold edit_contents edits contents))"
proof (induction edits arbitrary: index contents)
  case (Cons e edits)
  have "agrees (edit_index e index) (map_of (edit_contents e contents))"
    using Cons.prems by (cases e) (simp_all add: update_conv' delete_conv' agrees_apply agrees_remove)
  then show ?case by (simp add: Cons.IH)
qed simp

definition keyed :: "(string \<times> WorkspaceReferenceSource) list \<Rightarrow> bool" where
  "keyed contents \<longleftrightarrow>
     distinct (map fst contents) \<and> (\<forall>f s. map_of contents f = Some s \<longrightarrow> formatWorkspaceRef (rs_from s) = f)"

lemma keyed_edit: "keyed contents \<Longrightarrow> keyed (edit_contents e contents)"
  by (cases e) (auto simp: keyed_def distinct_update distinct_delete update_conv' delete_conv' split: if_splits)

lemma keyed_edits: "keyed contents \<Longrightarrow> keyed (fold edit_contents edits contents)"
  by (induction edits arbitrary: contents) (simp_all add: keyed_edit)

lemma rebuild_agrees:
  "keyed contents \<Longrightarrow> agrees index C \<Longrightarrow>
     agrees (fold apply_source (map snd contents) index) (\<lambda>f. case map_of contents f of None \<Rightarrow> C f | Some s \<Rightarrow> Some s)"
proof (induction contents arbitrary: index C)
  case (Cons fs contents)
  obtain f s where fs: "fs = (f, s)" by (cases fs)
  from Cons.prems(1) fs have f: "formatWorkspaceRef (rs_from s) = f" "map_of contents f = None"
    by (auto simp: keyed_def map_of_eq_None_iff)
  have lookup: "map_of (fs # contents) g = Some u" if "map_of contents g = Some u" for g u
    using that f(2) fs by (cases "g = f") auto
  have "keyed contents"
    unfolding keyed_def using Cons.prems(1) lookup by (auto simp: keyed_def)
  moreover have "agrees (apply_source s index) (C(f \<mapsto> s))" using agrees_apply [OF Cons.prems(2), of s] f by simp
  ultimately have "agrees (fold apply_source (map snd contents) (apply_source s index))
      (\<lambda>g. case map_of contents g of None \<Rightarrow> (C(f \<mapsto> s)) g | Some u \<Rightarrow> Some u)" by (rule Cons.IH)
  moreover have "(\<lambda>g. case map_of contents g of None \<Rightarrow> (C(f \<mapsto> s)) g | Some u \<Rightarrow> Some u) =
      (\<lambda>g. case map_of (fs # contents) g of None \<Rightarrow> C g | Some u \<Rightarrow> Some u)"
    using f(2) by (auto simp: fs fun_eq_iff split: option.split)
  ultimately show ?case using fs by simp
qed simp

lemma history_agrees: "agrees (fold edit_index edits empty_index) (map_of (fold edit_contents edits []))"
  using edits_agree [of empty_index "[]" edits] agrees_empty by simp

lemma rebuild_present: "agrees (rebuild (present edits)) (map_of (fold edit_contents edits []))"
proof -
  have "keyed (fold edit_contents edits [])" by (rule keyed_edits) (simp add: keyed_def)
  note fresh = rebuild_agrees [OF this agrees_empty]
  have "(\<lambda>f. case m f of None \<Rightarrow> None | Some s \<Rightarrow> Some s) = m" for m :: "string \<Rightarrow> WorkspaceReferenceSource option"
    by (auto split: option.split)
  with fresh show ?thesis by (simp only: rebuild_def present_def)
qed

text \<open>The references the present contents write down: their own keys, and the keys they cite.\<close>

definition written_refs :: "WorkspaceReferenceSource list \<Rightarrow> string set" where
  "written_refs sources =
     (\<Union>s \<in> set sources. insert (formatWorkspaceRef (rs_from s)) (fst ` set (citations (rs_text s))))"

lemma occurs_written: "occurs_in (map_of (fold edit_contents edits [])) \<subseteq> written_refs (present edits)"
proof
  let ?c = "fold edit_contents edits []"
  fix x assume "x \<in> occurs_in (map_of ?c)"
  then obtain t f e where w: "wanted (map_of ?c) t f = Some e" "x = t \<or> x = f" by (auto simp: occurs_in_def)
  then obtain s p where sp: "map_of ?c f = Some s" "map_of (citations (rs_text s)) t = Some p"
    by (auto simp: wanted_def split: option.splits)
  with w(2) have s: "map_of ?c f = Some s" "t \<in> fst ` set (citations (rs_text s))" "x = t \<or> x = f"
    by (auto dest!: map_of_SomeD intro: rev_image_eqI)
  then have "formatWorkspaceRef (rs_from s) = f" using agreesD(4) [OF rebuild_present [of edits]] by simp
  moreover have "s \<in> set (present edits)" unfolding present_def using map_of_SomeD [OF s(1)] by force
  ultimately show "x \<in> written_refs (present edits)" using s(2,3) unfolding written_refs_def by blast
qed

section \<open>The properties\<close>

text \<open>
  C33. The backlink index is a cache and never a source of truth: after any history of edits and removals
  it answers as an index rebuilt from the present contents does. Both have the same targets, the same
  rows and the same links to each target, counted with their multiplicity, whatever the collation
  of the host is. Both put them in the same order when the collation is an order (its sign is
  antisymmetric and it is transitive) that tells apart the references the present contents write
  down; nothing is claimed of the order of references it calls equal.
\<close>

theorem index_is_a_cache:
  "let index = fold edit_index edits empty_index; fresh = rebuild (present edits)
    in targets index = targets fresh
     \<and> mset (snapshot_rows localeCompare index) = mset (snapshot_rows localeCompare fresh)
     \<and> mset (backlinksTo localeCompare index target) = mset (backlinksTo localeCompare fresh target)
     \<and> (preorder_comparator localeCompare \<and> separates localeCompare (written_refs (present edits)) \<longrightarrow>
          snapshot_rows localeCompare index = snapshot_rows localeCompare fresh \<and>
          backlinksTo localeCompare index target = backlinksTo localeCompare fresh target)"
proof -
  note a = history_agrees [of edits] rebuild_present [of edits]
  have "separates localeCompare (written_refs (present edits)) \<Longrightarrow>
      separates localeCompare (occurs_in (map_of (fold edit_contents edits [])))"
    using occurs_written [of edits] unfolding separates_def by blast
  with a show ?thesis
    unfolding Let_def
    by (intro conjI impI targets_agree snapshot_agree backlinks_agree)
      (auto simp: snapshot_rows_def backlinksTo_def rows_mset [OF a] backlinks_mset [OF a, simplified])
qed

text \<open>Comparing texts by their codes, for the instances.\<close>

definition code_order :: "string \<Rightarrow> string \<Rightarrow> int" where
  "code_order a b = (if a < b then - 1 else if a = b then 0 else 1)"

interpretation code_order: total_comparator code_order
  by unfold_locales (auto simp: code_order_def split: if_splits)

definition sample_edits :: "edit list" where
  "sample_edits =
     (let note = (\<lambda>i. \<lparr>wr_mode = ''notes'', wr_kind = ''block'', wr_id = i, wr_fragment = None\<rparr>)
      in [Edited \<lparr>rs_from = note ''a'', rs_text = ''see brainrouter://planner/item/t1.''\<rparr>,
          Edited \<lparr>rs_from = note ''b'', rs_text = ''(brainrouter://planner/item/t1#L2)''\<rparr>,
          Edited \<lparr>rs_from = note ''a'', rs_text = ''nothing''\<rparr>, Removed (note ''c'')])"

definition sample_target :: WorkspaceRef where
  "sample_target = \<lparr>wr_mode = ''planner'', wr_kind = ''item'', wr_id = ''t1'', wr_fragment = None\<rparr>"

lemma index_is_a_cache_witness:
  "let index = fold edit_index sample_edits empty_index; fresh = rebuild (present sample_edits)
    in snapshot_rows code_order index = snapshot_rows code_order fresh \<and> targets index = targets fresh \<and>
       backlinksTo code_order index sample_target = backlinksTo code_order fresh sample_target"
proof -
  have "separates code_order (written_refs (present sample_edits))"
    using code_order.cmp_eq by (auto simp: separates_def)
  with index_is_a_cache [of sample_edits code_order sample_target] code_order.preorder_comparator_axioms
  show ?thesis unfolding Let_def by blast
qed

text \<open>
  Splitting prose for rendering loses nothing: the segments put together are the text, and the
  references among them are those the index counts, in the same order.
\<close>

theorem splitting_keeps_the_text:
  "concat (map segment_text (splitTextByWorkspaceRefs s)) = s \<and>
   List.map_filter segment_ref (splitTextByWorkspaceRefs s) = extractWorkspaceRefs s"
  using segments_text [OF matches_laid_out [of s 0 s]]
  by (simp add: splitTextByWorkspaceRefs_def extractWorkspaceRefs_def segments_refs)

end
