(* ===== verification/NoteProperties.thy ===== *)
theory NoteProperties
  imports BlockMerge WorkspaceRef FormulaEval
begin

text \<open>
  The columns of a database and what their cells hold, \<open>packages/core/src/notes/properties.ts\<close> with the
  spelling of a stored file from \<open>notes/noteImageRef.ts\<close>: coercion at the write, one line for a cell,
  the order of two cells and the groups of a row. \<open>Date.parse\<close> and the text of a number are those of
  \<open>FormulaHost\<close>, and \<open>localeCompare\<close> is an argument.
\<close>

section \<open>Columns\<close>

definition NOTE_PROPERTY_TYPES :: "string list" where
  "NOTE_PROPERTY_TYPES =
     [''title'', ''text'', ''number'', ''select'', ''multi-select'', ''date'', ''checkbox'', ''url'', ''person'', ''relation'',
      ''files'', ''created-time'', ''edited-time'', ''created-by'', ''edited-by'', ''formula'', ''rollup'']"

definition isNotePropertyType :: "js \<Rightarrow> bool" where
  "isNotePropertyType v = (case v of JStr s \<Rightarrow> s \<in> set NOTE_PROPERTY_TYPES | _ \<Rightarrow> False)"

definition DERIVED_PROPERTY_TYPES :: "string list" where
  "DERIVED_PROPERTY_TYPES = [''created-time'', ''edited-time'', ''created-by'', ''edited-by'', ''formula'', ''rollup'']"

definition isDerivedPropertyType :: "string \<Rightarrow> bool" where
  "isDerivedPropertyType t \<longleftrightarrow> t \<in> set DERIVED_PROPERTY_TYPES"

definition SET_PROPERTY_TYPES :: "string list" where
  "SET_PROPERTY_TYPES = [''multi-select'', ''person'', ''relation'', ''files'']"

definition isSetPropertyType :: "string \<Rightarrow> bool" where
  "isSetPropertyType t \<longleftrightarrow> t \<in> set SET_PROPERTY_TYPES"

definition isDatePropertyType :: "string \<Rightarrow> bool" where
  "isDatePropertyType t \<longleftrightarrow> t = ''date'' \<or> t = ''created-time'' \<or> t = ''edited-time''"

datatype NoteRollupAggregate =
    agg_count | agg_sum | agg_average | agg_min | agg_max | agg_earliest | agg_latest | agg_show_original

record NoteRollupSpec =
  nr_relation :: string
  nr_target :: string
  nr_aggregate :: NoteRollupAggregate

record NoteSelectOption =
  so_id :: string
  so_label :: string
  so_tone :: "string option"

record NotePropertyDef =
  pd_id :: string
  pd_name :: string
  pd_type :: string
  pd_options :: "NoteSelectOption list"
  pd_description :: "string option"
  pd_formula :: "string option"
  pd_rollup :: "NoteRollupSpec option"

section \<open>Cells\<close>

datatype CellValue =
    CText string
  | CNumber number
  | CBool bool
  | CList "string list"
  | CNull

definition MAX_PROPERTY_TEXT :: nat where "MAX_PROPERTY_TEXT = 2000"
definition MAX_DATABASE_PROPERTIES :: nat where "MAX_DATABASE_PROPERTIES = 64"

text \<open>\<open>String(v)\<close>.\<close>

definition cell_string :: "FormulaHost \<Rightarrow> CellValue \<Rightarrow> string" where
  "cell_string host v =
     (case v of
        CText s \<Rightarrow> s
      | CNumber n \<Rightarrow> fh_show host n
      | CBool b \<Rightarrow> (if b then ''true'' else ''false'')
      | CList vs \<Rightarrow> js_join '','' vs
      | CNull \<Rightarrow> ''null'')"

definition cell_date :: "FormulaHost \<Rightarrow> CellValue \<Rightarrow> string option" where
  "cell_date host v = (case v of CText s \<Rightarrow> normaliseDateValue host s | _ \<Rightarrow> None)"

definition cell_ms :: "FormulaHost \<Rightarrow> CellValue \<Rightarrow> int option" where
  "cell_ms host v = (case v of CText s \<Rightarrow> datePropertyMs host s | _ \<Rightarrow> None)"

definition datePropertyDay :: "FormulaHost \<Rightarrow> CellValue \<Rightarrow> string option" where
  "datePropertyDay host v = map_option (take 10) (cell_date host v)"

definition isEmptyPropertyValue :: "CellValue \<Rightarrow> bool" where
  "isEmptyPropertyValue v = (case v of CNull \<Rightarrow> True | CText s \<Rightarrow> js_trim s = [] | CList vs \<Rightarrow> vs = [] | _ \<Rightarrow> False)"

section \<open>Coercion\<close>

text \<open>\<open>String(raw)\<close> of a value of unknown shape.\<close>

fun raw_string :: "FormulaHost \<Rightarrow> js \<Rightarrow> string" where
  "raw_string host JUndefined = ''undefined''"
| "raw_string host JNull = ''null''"
| "raw_string host (JBool b) = (if b then ''true'' else ''false'')"
| "raw_string host (JNum (Fin q)) = fh_show host (Num q)"
| "raw_string host (JNum NonFinite) = fh_show host NaN"
| "raw_string host (JStr s) = s"
| "raw_string host (JArr vs) =
     js_join '','' (map (\<lambda>v. if v = JUndefined \<or> v = JNull then [] else raw_string host v) vs)"
| "raw_string host (JObj _) = ''[object Object]''"

text \<open>What \<open>toISOString\<close> raises for an instant that no \<open>Date\<close> holds, and a call of what is no function.\<close>

datatype js_exception = RangeError | TypeError

definition MAX_DATE_MS :: int where "MAX_DATE_MS = 8640000000000000"

definition iso_of_number :: "rat \<Rightarrow> js_exception + string" where
  "iso_of_number q =
     (if \<bar>q\<bar> > of_int MAX_DATE_MS then Inl RangeError else Inr (iso_of_ms (truncated q)))"

definition normaliseDate :: "FormulaHost \<Rightarrow> js \<Rightarrow> js_exception + string option" where
  "normaliseDate host raw =
     (case raw of
        JNum (Fin q) \<Rightarrow> (case iso_of_number q of Inl e \<Rightarrow> Inl e | Inr s \<Rightarrow> Inr (Some s))
      | JStr s \<Rightarrow> Inr (normaliseDateValue host s)
      | _ \<Rightarrow> Inr None)"

definition boundedText :: "FormulaHost \<Rightarrow> js \<Rightarrow> string option" where
  "boundedText host raw =
     (case raw of
        JNum (Fin q) \<Rightarrow> Some (fh_show host (Num q))
      | JStr s \<Rightarrow> (let t = take MAX_PROPERTY_TEXT s in if t = [] then None else Some t)
      | _ \<Rightarrow> None)"

fun bounded_loop :: "(string \<Rightarrow> string option) \<Rightarrow> string list \<Rightarrow> js list \<Rightarrow> string list" where
  "bounded_loop f out [] = out"
| "bounded_loop f out (entry # rest) =
     (case entry of
        JStr s \<Rightarrow>
          (case f (take MAX_PROPERTY_TEXT s) of
             None \<Rightarrow> bounded_loop f out rest
           | Some mapped \<Rightarrow>
               if mapped \<in> set out then bounded_loop f out rest
               else if length (out @ [mapped]) \<ge> MAX_PROPERTY_VALUES then out @ [mapped]
               else bounded_loop f (out @ [mapped]) rest)
      | _ \<Rightarrow> bounded_loop f out rest)"

definition boundedList :: "js \<Rightarrow> (string \<Rightarrow> string option) \<Rightarrow> string list option" where
  "boundedList raw f =
     (case (case raw of JArr vs \<Rightarrow> Some vs | JStr s \<Rightarrow> Some [JStr s] | _ \<Rightarrow> None) of
        None \<Rightarrow> None
      | Some input \<Rightarrow> (let out = bounded_loop f [] input in if out = [] then None else Some out))"

definition canonicalRef :: "string \<Rightarrow> string option" where
  "canonicalRef entry = (case parseWorkspaceRef (JStr entry) of Inl _ \<Rightarrow> None | Inr ref \<Rightarrow> Some (formatWorkspaceRef ref))"

definition NOTE_IMAGE_PREFIX :: string where "NOTE_IMAGE_PREFIX = ''attachment:''"

definition attachment_id_char :: "char \<Rightarrow> bool" where
  "attachment_id_char c \<longleftrightarrow> lower_letter (lower c) \<or> is_digit c \<or> c \<in> set ''._-''"

definition is_attachment_id :: "string \<Rightarrow> bool" where
  "is_attachment_id s \<longleftrightarrow> s \<noteq> [] \<and> length s \<le> 120 \<and> list_all attachment_id_char s"

definition noteImageRef :: "string \<Rightarrow> string" where
  "noteImageRef i = NOTE_IMAGE_PREFIX @ i"

definition noteAttachmentId :: "string \<Rightarrow> string option" where
  "noteAttachmentId s =
     (let v = js_trim s
      in if \<not> starts_with NOTE_IMAGE_PREFIX v then None
         else let i = js_trim (drop (length NOTE_IMAGE_PREFIX) v) in if is_attachment_id i then Some i else None)"

definition canonicalFileRef :: "string \<Rightarrow> string option" where
  "canonicalFileRef entry =
     (let trimmed = js_trim entry
      in map_option noteImageRef
           (case noteAttachmentId trimmed of
              Some i \<Rightarrow> Some i
            | None \<Rightarrow> if is_attachment_id trimmed then Some trimmed else None))"

definition nonblank :: "string \<Rightarrow> string option" where
  "nonblank entry = (if js_trim entry = [] then None else Some (js_trim entry))"

definition text_cell :: "string option \<Rightarrow> CellValue" where
  "text_cell t = (case t of None \<Rightarrow> CNull | Some s \<Rightarrow> CText s)"

definition list_cell :: "string list option \<Rightarrow> CellValue" where
  "list_cell l = (case l of None \<Rightarrow> CNull | Some vs \<Rightarrow> CList vs)"

definition coerce_number :: "FormulaHost \<Rightarrow> js \<Rightarrow> CellValue" where
  "coerce_number host raw =
     (let n = (case raw of JNum (Fin q) \<Rightarrow> Num q | JNum NonFinite \<Rightarrow> NaN | _ \<Rightarrow> number_of_text (raw_string host raw))
      in if finite_number n then CNumber n else CNull)"

definition coerce_unknown :: "js \<Rightarrow> CellValue" where
  "coerce_unknown raw =
     (case raw of
        JStr s \<Rightarrow> CText s
      | JNum (Fin q) \<Rightarrow> CNumber (Num q)
      | JNum NonFinite \<Rightarrow> CNumber NaN
      | JBool b \<Rightarrow> CBool b
      | JArr _ \<Rightarrow> list_cell (boundedList raw Some)
      | _ \<Rightarrow> CNull)"

definition coercePropertyValue :: "FormulaHost \<Rightarrow> NotePropertyDef \<Rightarrow> js \<Rightarrow> js_exception + CellValue" where
  "coercePropertyValue host def raw =
     (let t = pd_type def
      in if raw = JNull \<or> raw = JUndefined then Inr CNull
         else if isDerivedPropertyType t then Inr CNull
         else if t \<in> {''title'', ''text'', ''url'', ''select''} then Inr (text_cell (boundedText host raw))
         else if t = ''number'' then Inr (coerce_number host raw)
         else if t = ''checkbox'' then Inr (CBool (raw = JBool True \<or> raw = JStr ''true''))
         else if t = ''date'' then (case normaliseDate host raw of Inl e \<Rightarrow> Inl e | Inr d \<Rightarrow> Inr (text_cell d))
         else if t \<in> {''multi-select'', ''person''} then Inr (list_cell (boundedList raw nonblank))
         else if t = ''relation'' then Inr (list_cell (boundedList raw canonicalRef))
         else if t = ''files'' then Inr (list_cell (boundedList raw canonicalFileRef))
         else Inr (coerce_unknown raw))"

section \<open>One line for a cell\<close>

definition optionLabel :: "NotePropertyDef \<Rightarrow> string \<Rightarrow> string" where
  "optionLabel def i = (case List.find (\<lambda>opt. so_id opt = i) (pd_options def) of None \<Rightarrow> i | Some opt \<Rightarrow> so_label opt)"

definition formatPropertyValue :: "FormulaHost \<Rightarrow> NotePropertyDef \<Rightarrow> CellValue \<Rightarrow> string" where
  "formatPropertyValue host def v =
     (if pd_type def = ''checkbox'' then (if v = CBool True then ''Yes'' else ''No'')
      else if isEmptyPropertyValue v then []
      else
        case v of
          CList vs \<Rightarrow>
            if pd_type def = ''files''
            then (if length vs = 1 then ''1 file'' else digits_of (length vs) @ '' files'')
            else if pd_type def = ''multi-select'' then js_join '', '' (map (optionLabel def) vs)
            else js_join '', '' vs
        | _ \<Rightarrow> if pd_type def = ''select'' then optionLabel def (cell_string host v) else cell_string host v)"

definition propertyValueRefs :: "CellValue \<Rightarrow> WorkspaceRef list" where
  "propertyValueRefs v =
     List.map_filter (\<lambda>entry. case parseWorkspaceRef (JStr entry) of Inl _ \<Rightarrow> None | Inr ref \<Rightarrow> Some ref)
       (case v of CList vs \<Rightarrow> vs | CText s \<Rightarrow> [s] | _ \<Rightarrow> [])"

definition propertyValueCites :: "CellValue \<Rightarrow> string \<Rightarrow> bool" where
  "propertyValueCites v targetKey \<longleftrightarrow> (\<exists>ref \<in> set (propertyValueRefs v). workspaceRefKey ref = targetKey)"

section \<open>The order of two cells\<close>

definition three_way :: "bool \<Rightarrow> bool \<Rightarrow> int" where
  "three_way same below = (if same then 0 else if below then - 1 else 1)"

definition number_order :: "number \<Rightarrow> number \<Rightarrow> int" where
  "number_order x y = three_way (js_eq x y) (js_less x y)"

text \<open>A value that is missing comes last.\<close>

definition missing_last :: "('a \<Rightarrow> 'a \<Rightarrow> int) \<Rightarrow> 'a option \<Rightarrow> 'a option \<Rightarrow> int" where
  "missing_last cmp x y =
     (case (x, y) of
        (None, None) \<Rightarrow> 0
      | (None, Some _) \<Rightarrow> 1
      | (Some _, None) \<Rightarrow> - 1
      | (Some a, Some b) \<Rightarrow> cmp a b)"

definition cell_number :: "CellValue \<Rightarrow> number option" where
  "cell_number v = (case v of CNumber n \<Rightarrow> if n = NaN then None else Some n | _ \<Rightarrow> None)"

definition computed_rank :: "CellValue \<Rightarrow> nat" where
  "computed_rank v =
     (if isEmptyPropertyValue v then 4
      else case v of CNumber _ \<Rightarrow> 0 | CBool _ \<Rightarrow> 1 | CList _ \<Rightarrow> 3 | _ \<Rightarrow> 2)"

definition cell_line :: "FormulaHost \<Rightarrow> CellValue \<Rightarrow> string" where
  "cell_line host v = (case v of CList vs \<Rightarrow> js_join '', '' vs | _ \<Rightarrow> cell_string host v)"

definition compareComputedValues :: "FormulaHost \<Rightarrow> (string \<Rightarrow> string \<Rightarrow> int) \<Rightarrow> CellValue \<Rightarrow> CellValue \<Rightarrow> int" where
  "compareComputedValues host localeCompare a b =
     (let x = computed_rank a; y = computed_rank b
      in if x \<noteq> y then (if x < y then - 1 else 1)
         else
           case (a, b) of
             (CNumber p, CNumber q) \<Rightarrow> number_order p q
           | (CBool p, CBool q) \<Rightarrow> (if p then 1 else 0) - (if q then 1 else 0)
           | _ \<Rightarrow> if x = 4 then 0 else localeCompare (cell_line host a) (cell_line host b))"

definition MAX_SAFE_PLACE :: nat where "MAX_SAFE_PLACE = 9007199254740991"

definition option_order :: "FormulaHost \<Rightarrow> NotePropertyDef \<Rightarrow> CellValue \<Rightarrow> nat" where
  "option_order host def v =
     (case find_index (\<lambda>opt. so_id opt = cell_string host v) (pd_options def) of None \<Rightarrow> MAX_SAFE_PLACE | Some i \<Rightarrow> i)"

definition list_size :: "CellValue \<Rightarrow> nat" where
  "list_size v = (case v of CList vs \<Rightarrow> length vs | _ \<Rightarrow> 0)"

definition list_text :: "CellValue \<Rightarrow> string" where
  "list_text v = (case v of CList vs \<Rightarrow> js_join '','' vs | _ \<Rightarrow> [])"

definition TEXT_ORDERED :: "string list" where
  "TEXT_ORDERED = [''title'', ''text'', ''url'', ''person'', ''relation'', ''multi-select'', ''created-by'', ''edited-by'']"

definition comparePropertyValues ::
    "FormulaHost \<Rightarrow> (string \<Rightarrow> string \<Rightarrow> int) \<Rightarrow> NotePropertyDef \<Rightarrow> CellValue \<Rightarrow> CellValue \<Rightarrow> int option" where
  "comparePropertyValues host localeCompare def a b =
     (let t = pd_type def
      in if t \<in> set TEXT_ORDERED
         then Some (localeCompare (formatPropertyValue host def a) (formatPropertyValue host def b))
         else if t = ''files''
         then
           (let x = list_size a; y = list_size b
            in Some (if x \<noteq> y then (if x < y then - 1 else 1) else localeCompare (list_text a) (list_text b)))
         else if t = ''formula'' \<or> t = ''rollup'' then Some (compareComputedValues host localeCompare a b)
         else if t = ''number'' then Some (missing_last number_order (cell_number a) (cell_number b))
         else if t = ''checkbox'' then Some ((if a = CBool True then 1 else 0) - (if b = CBool True then 1 else 0))
         else if isDatePropertyType t
         then Some (missing_last (\<lambda>x y. three_way (x = y) (x < y)) (cell_ms host a) (cell_ms host b))
         else if t = ''select''
         then
           (let x = option_order host def a; y = option_order host def b
            in Some (if x \<noteq> y then (if x < y then - 1 else 1)
                     else localeCompare (formatPropertyValue host def a) (formatPropertyValue host def b)))
         else None)"

section \<open>Groups\<close>

definition propertyGroupKeys :: "FormulaHost \<Rightarrow> NotePropertyDef \<Rightarrow> CellValue \<Rightarrow> string list" where
  "propertyGroupKeys host def v =
     (let t = pd_type def; day = datePropertyDay host v
      in if t = ''checkbox'' then [if v = CBool True then ''true'' else ''false'']
         else if isEmptyPropertyValue v then []
         else if isDatePropertyType t then (case day of None \<Rightarrow> [] | Some d \<Rightarrow> [d])
         else if (t = ''formula'' \<or> t = ''rollup'') \<and> day \<noteq> None then [the day]
         else case v of CList vs \<Rightarrow> vs | _ \<Rightarrow> [cell_string host v])"

definition propertyGroupLabel :: "NotePropertyDef \<Rightarrow> string option \<Rightarrow> string" where
  "propertyGroupLabel def key =
     (case key of
        None \<Rightarrow> if isDatePropertyType (pd_type def) then ''Unscheduled'' else ''No '' @ pd_name def
      | Some k \<Rightarrow>
          if pd_type def = ''checkbox'' then (if k = ''true'' then pd_name def else ''Not '' @ pd_name def)
          else if pd_type def = ''select'' \<or> pd_type def = ''multi-select'' then optionLabel def k
          else k)"

end
