(* ===== verification/DatabaseView.thy ===== *)
theory DatabaseView
  imports NoteProperties
begin

text \<open>
  The views of a database, \<open>packages/core/src/notes/databaseView.ts\<close>: filters, sorts and groups, with
  what was skipped because this build cannot evaluate it. A value that a rule does not have is \<open>CNull\<close>,
  as \<open>rule.value ?? null\<close> reads it.
\<close>

datatype NoteViewKind = v_table | v_board | v_list | v_calendar | v_gallery

definition GROUPED_VIEW_KINDS :: "NoteViewKind list" where
  "GROUPED_VIEW_KINDS = [v_board, v_calendar]"

datatype NoteFilterOperator =
    op_is | op_is_not | op_contains | op_does_not_contain | op_starts_with | op_ends_with | op_is_empty | op_is_not_empty
  | op_greater_than | op_greater_or_equal | op_less_than | op_less_or_equal | op_before | op_after | op_on_or_before
  | op_on_or_after | op_is_any_of | op_is_none_of | op_contains_all | op_links_to

definition operator_name :: "NoteFilterOperator \<Rightarrow> string" where
  "operator_name p =
     (case p of
        op_is \<Rightarrow> ''is'' | op_is_not \<Rightarrow> ''is-not'' | op_contains \<Rightarrow> ''contains'' | op_does_not_contain \<Rightarrow> ''does-not-contain''
      | op_starts_with \<Rightarrow> ''starts-with'' | op_ends_with \<Rightarrow> ''ends-with'' | op_is_empty \<Rightarrow> ''is-empty''
      | op_is_not_empty \<Rightarrow> ''is-not-empty'' | op_greater_than \<Rightarrow> ''greater-than'' | op_greater_or_equal \<Rightarrow> ''greater-or-equal''
      | op_less_than \<Rightarrow> ''less-than'' | op_less_or_equal \<Rightarrow> ''less-or-equal'' | op_before \<Rightarrow> ''before'' | op_after \<Rightarrow> ''after''
      | op_on_or_before \<Rightarrow> ''on-or-before'' | op_on_or_after \<Rightarrow> ''on-or-after'' | op_is_any_of \<Rightarrow> ''is-any-of''
      | op_is_none_of \<Rightarrow> ''is-none-of'' | op_contains_all \<Rightarrow> ''contains-all'' | op_links_to \<Rightarrow> ''links-to'')"

definition text_operators :: "NoteFilterOperator list" where
  "text_operators =
     [op_is, op_is_not, op_contains, op_does_not_contain, op_starts_with, op_ends_with, op_is_empty, op_is_not_empty]"

definition OPERATORS_FOR_TYPE :: "string \<Rightarrow> NoteFilterOperator list option" where
  "OPERATORS_FOR_TYPE =
     map_of
       [(''title'', text_operators),
        (''text'', text_operators),
        (''url'', text_operators @ [op_links_to]),
        (''number'',
          [op_is, op_is_not, op_greater_than, op_greater_or_equal, op_less_than, op_less_or_equal, op_is_empty, op_is_not_empty]),
        (''select'', [op_is, op_is_not, op_is_any_of, op_is_none_of, op_is_empty, op_is_not_empty]),
        (''multi-select'',
          [op_contains, op_does_not_contain, op_contains_all, op_is_any_of, op_is_none_of, op_is_empty, op_is_not_empty]),
        (''date'', [op_is, op_is_not, op_before, op_after, op_on_or_before, op_on_or_after, op_is_empty, op_is_not_empty]),
        (''checkbox'', [op_is]),
        (''person'', [op_contains, op_does_not_contain, op_is_any_of, op_is_none_of, op_is_empty, op_is_not_empty]),
        (''relation'', [op_links_to, op_contains, op_does_not_contain, op_is_empty, op_is_not_empty]),
        (''files'', [op_is_empty, op_is_not_empty, op_contains, op_does_not_contain]),
        (''created-time'', [op_is, op_is_not, op_before, op_after, op_on_or_before, op_on_or_after]),
        (''edited-time'', [op_is, op_is_not, op_before, op_after, op_on_or_before, op_on_or_after]),
        (''created-by'', [op_is, op_is_not, op_contains, op_does_not_contain]),
        (''edited-by'', [op_is, op_is_not, op_contains, op_does_not_contain]),
        (''formula'',
          [op_is, op_is_not, op_contains, op_does_not_contain, op_starts_with, op_ends_with, op_greater_than,
           op_greater_or_equal, op_less_than, op_less_or_equal, op_before, op_after, op_on_or_before, op_on_or_after,
           op_is_empty, op_is_not_empty]),
        (''rollup'',
          [op_is, op_is_not, op_contains, op_does_not_contain, op_greater_than, op_greater_or_equal, op_less_than,
           op_less_or_equal, op_before, op_after, op_on_or_before, op_on_or_after, op_is_empty, op_is_not_empty])]"

text \<open>
  The table is an object literal: a column whose type is the name of a member of its prototype finds
  that member. Calling \<open>includes\<close> of it raises, unless it is a function without parameters, whose
  \<open>length\<close> is 0.
\<close>

definition inherited :: "string list" where
  "inherited =
     [''constructor'', ''hasOwnProperty'', ''isPrototypeOf'', ''propertyIsEnumerable'', ''__defineGetter__'',
      ''__defineSetter__'', ''__lookupGetter__'', ''__lookupSetter__'', ''__proto__'']"

definition operatorsFor :: "NotePropertyDef \<Rightarrow> NoteFilterOperator list" where
  "operatorsFor def = (case OPERATORS_FOR_TYPE (pd_type def) of None \<Rightarrow> [] | Some ops \<Rightarrow> ops)"

record NoteFilterRule =
  fr_property :: string
  fr_operator :: NoteFilterOperator
  fr_value :: CellValue

datatype combinator = all_of | any_of

datatype NoteFilterNode =
    Rule NoteFilterRule
  | Group combinator "NoteFilterNode list"

datatype sort_direction = ascending | descending

record NoteSortRule =
  sr_property :: string
  sr_direction :: sort_direction

definition MAX_FILTER_RULES :: nat where "MAX_FILTER_RULES = 64"

datatype skipped_kind = skipped_filter | skipped_sort | skipped_group
datatype skip_reason = unknown_property | unsupported_type | unsupported_operator

record SkippedRule =
  sk_kind :: skipped_kind
  sk_property :: string
  sk_reason :: skip_reason
  sk_detail :: string

section \<open>Filters\<close>

definition listOf :: "FormulaHost \<Rightarrow> CellValue \<Rightarrow> string list" where
  "listOf host v = (case v of CList vs \<Rightarrow> vs | CNull \<Rightarrow> [] | _ \<Rightarrow> [cell_string host v])"

definition textOf :: "FormulaHost \<Rightarrow> NotePropertyDef \<Rightarrow> CellValue \<Rightarrow> string" where
  "textOf host def v = fh_lower host (formatPropertyValue host def v)"

text \<open>\<open>String(target ?? '')\<close>.\<close>

definition target_text :: "FormulaHost \<Rightarrow> CellValue \<Rightarrow> string" where
  "target_text host target = (if target = CNull then [] else cell_string host target)"

definition target_number :: "FormulaHost \<Rightarrow> CellValue \<Rightarrow> number" where
  "target_number host target = (case target of CNumber n \<Rightarrow> n | _ \<Rightarrow> number_of_text (target_text host target))"

definition compareNumbers :: "FormulaHost \<Rightarrow> CellValue \<Rightarrow> CellValue \<Rightarrow> int option" where
  "compareNumbers host cell target =
     (let a = (case cell of CNumber n \<Rightarrow> n | _ \<Rightarrow> NaN); b = target_number host target
      in if a = NaN \<or> b = NaN then None else Some (number_order a b))"

text \<open>A number as a date is the text of its instant, and raises outside the range of a date.\<close>

definition target_date :: "FormulaHost \<Rightarrow> CellValue \<Rightarrow> js_exception + string option" where
  "target_date host target =
     (case target of
        CNumber (Num q) \<Rightarrow> (case iso_of_number q of Inl e \<Rightarrow> Inl e | Inr s \<Rightarrow> Inr (Some s))
      | _ \<Rightarrow> Inr (cell_date host target))"

definition compareDates :: "FormulaHost \<Rightarrow> CellValue \<Rightarrow> CellValue \<Rightarrow> js_exception + int option" where
  "compareDates host cell target =
     (case target_date host target of
        Inl e \<Rightarrow> Inl e
      | Inr d \<Rightarrow>
          Inr (case (cell_ms host cell, Option.bind d (datePropertyMs host)) of
                 (Some a, Some b) \<Rightarrow> Some (three_way (a = b) (a < b))
               | _ \<Rightarrow> None))"

definition number_holds :: "NoteFilterOperator \<Rightarrow> int \<Rightarrow> bool" where
  "number_holds p order =
     (case p of
        op_is \<Rightarrow> order = 0 | op_is_not \<Rightarrow> order \<noteq> 0 | op_greater_than \<Rightarrow> order > 0 | op_greater_or_equal \<Rightarrow> order \<ge> 0
      | op_less_than \<Rightarrow> order < 0 | op_less_or_equal \<Rightarrow> order \<le> 0 | _ \<Rightarrow> False)"

definition date_holds :: "NoteFilterOperator \<Rightarrow> int \<Rightarrow> bool" where
  "date_holds p order =
     (case p of
        op_is \<Rightarrow> order = 0 | op_is_not \<Rightarrow> order \<noteq> 0 | op_before \<Rightarrow> order < 0 | op_after \<Rightarrow> order > 0
      | op_on_or_before \<Rightarrow> order \<le> 0 | op_on_or_after \<Rightarrow> order \<ge> 0 | _ \<Rightarrow> False)"

definition text_holds :: "NoteFilterOperator \<Rightarrow> string \<Rightarrow> string \<Rightarrow> bool" where
  "text_holds p haystack needle =
     (case p of
        op_is \<Rightarrow> haystack = needle
      | op_is_not \<Rightarrow> haystack \<noteq> needle
      | op_contains \<Rightarrow> needle \<noteq> [] \<and> index_of needle haystack \<noteq> None
      | op_does_not_contain \<Rightarrow> needle = [] \<or> index_of needle haystack = None
      | op_starts_with \<Rightarrow> needle \<noteq> [] \<and> starts_with needle haystack
      | op_ends_with \<Rightarrow> needle \<noteq> [] \<and> suffix needle haystack
      | _ \<Rightarrow> False)"

definition set_holds :: "NoteFilterOperator \<Rightarrow> string list \<Rightarrow> string list \<Rightarrow> bool" where
  "set_holds p cells targets =
     (case p of
        op_contains \<Rightarrow> targets \<noteq> [] \<and> list_ex (\<lambda>t. t \<in> set cells) targets
      | op_does_not_contain \<Rightarrow> targets = [] \<or> \<not> list_ex (\<lambda>t. t \<in> set cells) targets
      | op_contains_all \<Rightarrow> targets \<noteq> [] \<and> list_all (\<lambda>t. t \<in> set cells) targets
      | op_is_any_of \<Rightarrow> list_ex (\<lambda>t. t \<in> set cells) targets
      | op_is_none_of \<Rightarrow> \<not> list_ex (\<lambda>t. t \<in> set cells) targets
      | _ \<Rightarrow> False)"

definition select_holds :: "NoteFilterOperator \<Rightarrow> string option \<Rightarrow> string list \<Rightarrow> bool" where
  "select_holds p cell targets =
     (case cell of
        None \<Rightarrow> False
      | Some c \<Rightarrow>
          (case p of
             op_is \<Rightarrow> c \<in> set targets | op_is_not \<Rightarrow> c \<notin> set targets
           | op_is_any_of \<Rightarrow> c \<in> set targets | op_is_none_of \<Rightarrow> c \<notin> set targets | _ \<Rightarrow> False))"

definition DATE_OPERATORS :: "NoteFilterOperator list" where
  "DATE_OPERATORS = [op_before, op_after, op_on_or_before, op_on_or_after]"

definition with_order :: "(NoteFilterOperator \<Rightarrow> int \<Rightarrow> bool) \<Rightarrow> NoteFilterOperator \<Rightarrow> int option \<Rightarrow> bool" where
  "with_order holds p order = (case order of None \<Rightarrow> False | Some n \<Rightarrow> holds p n)"

definition matchComputed :: "FormulaHost \<Rightarrow> CellValue \<Rightarrow> NoteFilterRule \<Rightarrow> bool \<Rightarrow> js_exception + bool" where
  "matchComputed host v rule blank =
     (let p = fr_operator rule; target = fr_value rule
      in if blank then Inr False
         else
           case v of
             CList vs \<Rightarrow> Inr (p \<in> {op_contains, op_does_not_contain} \<and> set_holds p vs (listOf host target))
           | CBool b \<Rightarrow>
               Inr (case p of op_is \<Rightarrow> b = (target = CBool True) | op_is_not \<Rightarrow> b \<noteq> (target = CBool True) | _ \<Rightarrow> False)
           | CNumber _ \<Rightarrow> Inr (with_order number_holds p (compareNumbers host v target))
           | _ \<Rightarrow>
               if p \<in> set DATE_OPERATORS
               then (case compareDates host v target of Inl e \<Rightarrow> Inl e | Inr order \<Rightarrow> Inr (with_order date_holds p order))
               else Inr (text_holds p (fh_lower host (cell_string host v)) (fh_lower host (target_text host target))))"

definition matchRule :: "FormulaHost \<Rightarrow> NotePropertyDef \<Rightarrow> CellValue \<Rightarrow> NoteFilterRule \<Rightarrow> bool \<Rightarrow> js_exception + bool" where
  "matchRule host def v rule blank =
     (let p = fr_operator rule; target = fr_value rule; t = pd_type def
      in if p = op_links_to
         then Inr (case parseWorkspaceRef (JStr (case target of CText s \<Rightarrow> s | _ \<Rightarrow> [])) of
                     Inl _ \<Rightarrow> False | Inr ref \<Rightarrow> propertyValueCites v (workspaceRefKey ref))
         else if t = ''formula'' \<or> t = ''rollup'' then matchComputed host v rule blank
         else if t = ''checkbox'' then Inr ((v = CBool True) = (target = CBool True))
         else if t = ''number'' then Inr (with_order number_holds p (compareNumbers host v target))
         else if isDatePropertyType t
         then (case compareDates host v target of Inl e \<Rightarrow> Inl e | Inr order \<Rightarrow> Inr (with_order date_holds p order))
         else if isSetPropertyType t then Inr (set_holds p (listOf host v) (listOf host target))
         else if t = ''select'' then Inr (select_holds p (if blank then None else Some (cell_string host v)) (listOf host target))
         else Inr (\<not> blank \<and> text_holds p (textOf host def v) (fh_lower host (target_text host target))))"

text \<open>A rule either matches or not, or was skipped.\<close>

datatype RuleOutcome = Evaluated bool | Skipped SkippedRule

definition skip :: "skipped_kind \<Rightarrow> string \<Rightarrow> skip_reason \<Rightarrow> string \<Rightarrow> SkippedRule" where
  "skip kind property reason detail = \<lparr>sk_kind = kind, sk_property = property, sk_reason = reason, sk_detail = detail\<rparr>"

definition in_quotes :: "string \<Rightarrow> string" where
  "in_quotes s = [CHR 0x22] @ s @ [CHR 0x22]"

definition evaluateFilterRule ::
    "FormulaHost \<Rightarrow> NotePropertyDef option \<Rightarrow> CellValue \<Rightarrow> NoteFilterRule \<Rightarrow> js_exception + RuleOutcome" where
  "evaluateFilterRule host def v rule =
     (case def of
        None \<Rightarrow>
          Inr (Skipped (skip skipped_filter (fr_property rule) unknown_property
            (''There is no property '' @ in_quotes (fr_property rule) @ '' in this database, so its filter was not applied.'')))
      | Some d \<Rightarrow>
          if pd_type d \<in> set inherited then Inl TypeError
          else if operatorsFor d = [] then
            Inr (Skipped (skip skipped_filter (pd_id d) unsupported_type
              (in_quotes (pd_name d) @ '' is a '' @ pd_type d @ '' property, which this version cannot filter on.'')))
          else if fr_operator rule \<notin> set (operatorsFor d) then
            Inr (Skipped (skip skipped_filter (pd_id d) unsupported_operator
              (in_quotes (operator_name (fr_operator rule)) @ '' does not apply to a '' @ pd_type d
                 @ '' property, so it was not applied.'')))
          else
            let blank = isEmptyPropertyValue v
            in if fr_operator rule = op_is_empty then Inr (Evaluated blank)
               else if fr_operator rule = op_is_not_empty then Inr (Evaluated (\<not> blank))
               else (case matchRule host d v rule blank of Inl e \<Rightarrow> Inl e | Inr b \<Rightarrow> Inr (Evaluated b)))"

definition combine :: "combinator \<Rightarrow> bool list \<Rightarrow> bool" where
  "combine c outcomes =
     (if outcomes = [] then True
      else case c of any_of \<Rightarrow> list_ex (\<lambda>b. b) outcomes | all_of \<Rightarrow> list_all (\<lambda>b. b) outcomes)"

definition MAX_FILTER_DEPTH :: nat where "MAX_FILTER_DEPTH = 8"

text \<open>The outcome of a group, and what was skipped in it, in order; an exception leaves at once.\<close>

fun walk_node ::
    "FormulaHost \<Rightarrow> (string \<Rightarrow> NotePropertyDef option) \<Rightarrow> (string \<Rightarrow> CellValue) \<Rightarrow> nat \<Rightarrow> NoteFilterNode
      \<Rightarrow> js_exception + bool list \<times> SkippedRule list"
  and walk_nodes ::
    "FormulaHost \<Rightarrow> (string \<Rightarrow> NotePropertyDef option) \<Rightarrow> (string \<Rightarrow> CellValue) \<Rightarrow> nat \<Rightarrow> nat \<Rightarrow> NoteFilterNode list
      \<Rightarrow> js_exception + bool list \<times> SkippedRule list"
where
  "walk_node host defs cell depth (Rule rule) =
     (case evaluateFilterRule host (defs (fr_property rule)) (cell (fr_property rule)) rule of
        Inl e \<Rightarrow> Inl e
      | Inr (Skipped s) \<Rightarrow> Inr ([], [s])
      | Inr (Evaluated b) \<Rightarrow> Inr ([b], []))"
| "walk_node host defs cell depth (Group c nodes) =
     (if depth > MAX_FILTER_DEPTH \<or> nodes = [] then Inr ([True], [])
      else
        case walk_nodes host defs cell (depth + 1) MAX_FILTER_RULES nodes of
          Inl e \<Rightarrow> Inl e
        | Inr (outcomes, skipped) \<Rightarrow> Inr ([combine c outcomes], skipped))"
| "walk_nodes host defs cell depth n [] = Inr ([], [])"
| "walk_nodes host defs cell depth n (node # nodes) =
     (if n = 0 then Inr ([], [])
      else
        case walk_node host defs cell depth node of
          Inl e \<Rightarrow> Inl e
        | Inr (a, s) \<Rightarrow>
            (case walk_nodes host defs cell depth (n - 1) nodes of
               Inl e \<Rightarrow> Inl e
             | Inr (b, t) \<Rightarrow> Inr (a @ b, s @ t)))"

record FilterOutcome =
  fo_matched :: bool
  fo_skipped :: "SkippedRule list"

definition evaluateFilter ::
    "FormulaHost \<Rightarrow> (combinator \<times> NoteFilterNode list) option \<Rightarrow> (string \<Rightarrow> NotePropertyDef option) \<Rightarrow> (string \<Rightarrow> CellValue)
      \<Rightarrow> js_exception + FilterOutcome" where
  "evaluateFilter host tree defs cell =
     (case tree of
        None \<Rightarrow> Inr \<lparr>fo_matched = True, fo_skipped = []\<rparr>
      | Some (c, nodes) \<Rightarrow>
          (case walk_node host defs cell 0 (Group c nodes) of
             Inl e \<Rightarrow> Inl e
           | Inr (outcomes, skipped) \<Rightarrow> Inr \<lparr>fo_matched = combine all_of outcomes, fo_skipped = skipped\<rparr>))"

section \<open>Sorts\<close>

type_synonym active_sort = "NotePropertyDef \<times> sort_direction"

fun active_sorts ::
    "FormulaHost \<Rightarrow> (string \<Rightarrow> string \<Rightarrow> int) \<Rightarrow> (string \<Rightarrow> NotePropertyDef option) \<Rightarrow> NoteSortRule list
      \<Rightarrow> active_sort list \<times> SkippedRule list" where
  "active_sorts host lc defs [] = ([], [])"
| "active_sorts host lc defs (rule # rules) =
     (case active_sorts host lc defs rules of
        (active, skipped) \<Rightarrow>
          (case defs (sr_property rule) of
             None \<Rightarrow>
               (active, skip skipped_sort (sr_property rule) unknown_property
                 (''There is no property '' @ in_quotes (sr_property rule) @ '' in this database, so its sort was not applied.'')
                 # skipped)
           | Some def \<Rightarrow>
               if comparePropertyValues host lc def CNull CNull = None
               then (active, skip skipped_sort (pd_id def) unsupported_type
                      (in_quotes (pd_name def) @ '' is a '' @ pd_type def @ '' property, which this version cannot sort by.'')
                      # skipped)
               else ((def, sr_direction rule) # active, skipped)))"

text \<open>An empty cell comes last in both directions.\<close>

fun row_compare ::
    "FormulaHost \<Rightarrow> (string \<Rightarrow> string \<Rightarrow> int) \<Rightarrow> ('r \<Rightarrow> string \<Rightarrow> CellValue) \<Rightarrow> ('r \<Rightarrow> 'r \<Rightarrow> int) \<Rightarrow> active_sort list
      \<Rightarrow> 'r \<Rightarrow> 'r \<Rightarrow> int" where
  "row_compare host lc cell fallback [] a b = fallback a b"
| "row_compare host lc cell fallback ((def, direction) # sorts) a b =
     (let left = cell a (pd_id def); right = cell b (pd_id def);
          leftEmpty = isEmptyPropertyValue left; rightEmpty = isEmptyPropertyValue right
      in if leftEmpty \<noteq> rightEmpty then (if leftEmpty then 1 else - 1)
         else if leftEmpty then row_compare host lc cell fallback sorts a b
         else
           let order = (case comparePropertyValues host lc def left right of None \<Rightarrow> 0 | Some n \<Rightarrow> n)
           in if order \<noteq> 0 then (case direction of descending \<Rightarrow> - order | ascending \<Rightarrow> order)
              else row_compare host lc cell fallback sorts a b)"

definition sortRows ::
    "FormulaHost \<Rightarrow> (string \<Rightarrow> string \<Rightarrow> int) \<Rightarrow> 'r list \<Rightarrow> NoteSortRule list \<Rightarrow> (string \<Rightarrow> NotePropertyDef option)
      \<Rightarrow> ('r \<Rightarrow> string \<Rightarrow> CellValue) \<Rightarrow> ('r \<Rightarrow> 'r \<Rightarrow> int) \<Rightarrow> 'r list \<times> SkippedRule list" where
  "sortRows host lc rows sorts defs cell fallback =
     (case active_sorts host lc defs sorts of
        (active, skipped) \<Rightarrow> (sort_by (row_compare host lc cell fallback active) rows, skipped))"

section \<open>Groups\<close>

record 'r RowGroup =
  rg_key :: "string option"
  rg_label :: string
  rg_empty :: bool
  rg_rows :: "'r list"

text \<open>The buckets in the order of their insertion: the options of the column first.\<close>

definition new_bucket :: "string \<Rightarrow> string \<Rightarrow> 'r RowGroup" where
  "new_bucket key label = \<lparr>rg_key = Some key, rg_label = label, rg_empty = False, rg_rows = []\<rparr>"

definition seeded_buckets :: "NotePropertyDef \<Rightarrow> (string \<times> 'r RowGroup) list" where
  "seeded_buckets def =
     (let options = fold (\<lambda>opt bs. AList.update (so_id opt) (new_bucket (so_id opt) (so_label opt)) bs) (pd_options def) []
      in if pd_type def = ''checkbox''
         then fold (\<lambda>key bs. AList.update key (new_bucket key (propertyGroupLabel def (Some key))) bs) [''true'', ''false''] options
         else options)"

definition put_row :: "NotePropertyDef \<Rightarrow> 'r \<Rightarrow> string \<Rightarrow> (string \<times> 'r RowGroup) list \<Rightarrow> (string \<times> 'r RowGroup) list" where
  "put_row def row key buckets =
     (let bucket = (case map_of buckets key of None \<Rightarrow> new_bucket key (propertyGroupLabel def (Some key)) | Some g \<Rightarrow> g)
      in AList.update key (bucket\<lparr>rg_rows := rg_rows bucket @ [row]\<rparr>) buckets)"

fun place_rows ::
    "FormulaHost \<Rightarrow> NotePropertyDef \<Rightarrow> ('r \<Rightarrow> CellValue) \<Rightarrow> 'r list \<Rightarrow> (string \<times> 'r RowGroup) list \<times> 'r list
      \<Rightarrow> (string \<times> 'r RowGroup) list \<times> 'r list" where
  "place_rows host def cell [] (buckets, none) = (buckets, none)"
| "place_rows host def cell (row # rows) (buckets, none) =
     place_rows host def cell rows
       (case propertyGroupKeys host def (cell row) of
          [] \<Rightarrow> (buckets, none @ [row])
        | keys \<Rightarrow> (fold (put_row def row) keys buckets, none))"

definition group_key :: "'r RowGroup \<Rightarrow> string" where
  "group_key g = (case rg_key g of None \<Rightarrow> [] | Some k \<Rightarrow> k)"

text \<open>With two options of one id the map of the code keeps the place of the later one.\<close>

definition last_index :: "('a \<Rightarrow> bool) \<Rightarrow> 'a list \<Rightarrow> nat option" where
  "last_index P xs = map_option (\<lambda>i. length xs - 1 - i) (find_index P (rev xs))"

definition group_order :: "(string \<Rightarrow> string \<Rightarrow> int) \<Rightarrow> NotePropertyDef \<Rightarrow> 'r RowGroup \<Rightarrow> 'r RowGroup \<Rightarrow> int" where
  "group_order lc def a b =
     (let place = (\<lambda>g. case last_index (\<lambda>opt. so_id opt = group_key g) (pd_options def) of None \<Rightarrow> MAX_SAFE_PLACE | Some i \<Rightarrow> i)
      in if place a \<noteq> place b then (if place a < place b then - 1 else 1) else lc (group_key a) (group_key b))"

definition groupRows ::
    "FormulaHost \<Rightarrow> (string \<Rightarrow> string \<Rightarrow> int) \<Rightarrow> 'r list \<Rightarrow> NotePropertyDef \<Rightarrow> ('r \<Rightarrow> CellValue) \<Rightarrow> 'r RowGroup list" where
  "groupRows host lc rows def cell =
     (case place_rows host def cell rows (seeded_buckets def, []) of
        (buckets, none) \<Rightarrow>
          sort_by (group_order lc def) (map snd buckets)
            @ [\<lparr>rg_key = None, rg_label = propertyGroupLabel def None, rg_empty = True, rg_rows = none\<rparr>])"

end
