(* ===== verification/CellSafety.thy ===== *)
theory CellSafety
  imports NoteProperties
begin

text \<open>
  What a write stores is in its stored form: coercing it again, as every later write of the same cell
  does, changes nothing.
\<close>

section \<open>Trimmed texts\<close>

lemma trim_fixed: "s = [] \<or> \<not> js_space (hd s) \<and> \<not> js_space (last s) \<Longrightarrow> js_trim s = s"
proof -
  assume ends: "s = [] \<or> \<not> js_space (hd s) \<and> \<not> js_space (last s)"
  then have "dropWhile js_space s = s" by (cases s) auto
  moreover from ends have "dropWhile js_space (rev s) = rev s" by (cases s rule: rev_cases) auto
  ultimately show ?thesis by (simp add: js_trim_def)
qed

lemma trim_ends: "js_trim s = [] \<or> \<not> js_space (hd (js_trim s)) \<and> \<not> js_space (last (js_trim s))"
proof -
  let ?l = "dropWhile js_space s"
  have "js_trim s \<noteq> [] \<Longrightarrow> \<not> js_space (last (js_trim s))"
    using hd_dropWhile [of js_space "rev ?l"] by (auto simp: js_trim_def last_rev)
  moreover have "\<not> js_space (hd (js_trim s))" if n: "js_trim s \<noteq> []"
  proof -
    obtain u where u: "?l = js_trim s @ u"
      using takeWhile_dropWhile_id [of js_space "rev ?l"] unfolding js_trim_def by (metis rev_append rev_rev_ident)
    with n have "hd (js_trim s) = hd ?l" "?l \<noteq> []" by simp_all
    with hd_dropWhile [of js_space s] show ?thesis by simp
  qed
  ultimately show ?thesis by blast
qed

lemma trim_twice [simp]: "js_trim (js_trim s) = js_trim s"
  by (rule trim_fixed [OF trim_ends])

lemma trim_length: "length (js_trim s) \<le> length s"
  unfolding js_trim_def using length_dropWhile_le [of js_space] by (metis length_rev order_trans)

section \<open>Lists\<close>

text \<open>A list in stored form: its entries are what the mapping makes of themselves.\<close>

definition settled_list :: "(string \<Rightarrow> string option) \<Rightarrow> string list \<Rightarrow> bool" where
  "settled_list f vs \<longleftrightarrow> distinct vs \<and> length vs \<le> MAX_PROPERTY_VALUES \<and> (\<forall>v \<in> set vs. f (take MAX_PROPERTY_TEXT v) = Some v)"

lemma bounded_loop_settles:
  assumes "\<And>s m. f (take MAX_PROPERTY_TEXT s) = Some m \<Longrightarrow> f (take MAX_PROPERTY_TEXT m) = Some m"
  shows "settled_list f out \<Longrightarrow> length out < MAX_PROPERTY_VALUES \<Longrightarrow> settled_list f (bounded_loop f out input)"
proof (induction input arbitrary: out)
  case (Cons entry rest)
  show ?case
  proof (cases entry)
    case (JStr s)
    show ?thesis
    proof (cases "f (take MAX_PROPERTY_TEXT s)")
      case (Some m)
      show ?thesis
      proof (cases "m \<in> set out")
        case False
        with Some Cons.prems have "settled_list f (out @ [m])" using assms by (auto simp: settled_list_def)
        with Cons.IH [of "out @ [m]"] show ?thesis by (auto simp: JStr Some False)
      qed (simp add: JStr Some Cons)
    qed (simp add: JStr Cons)
  qed (simp_all add: Cons)
qed simp

lemma bounded_loop_settled: "settled_list f (out @ vs) \<Longrightarrow> bounded_loop f out (map JStr vs) = out @ vs"
proof (induction vs arbitrary: out)
  case (Cons v vs)
  then have v: "f (take MAX_PROPERTY_TEXT v) = Some v" "v \<notin> set out" by (auto simp: settled_list_def)
  have "length (out @ v # vs) \<le> MAX_PROPERTY_VALUES" using Cons.prems by (simp add: settled_list_def)
  then have "length (out @ [v]) \<ge> MAX_PROPERTY_VALUES \<Longrightarrow> vs = []" by (cases vs) simp_all
  with Cons.IH [of "out @ [v]"] Cons.prems v show ?case by auto
qed simp

lemma boundedList_stable:
  assumes "\<And>s m. f (take MAX_PROPERTY_TEXT s) = Some m \<Longrightarrow> f (take MAX_PROPERTY_TEXT m) = Some m"
    and "boundedList raw f = Some vs"
  shows "boundedList (JArr (map JStr vs)) f = Some vs"
proof -
  have "settled_list f []" by (simp add: settled_list_def)
  moreover have "length ([] :: string list) < MAX_PROPERTY_VALUES" by (simp add: MAX_PROPERTY_VALUES_def)
  ultimately have "settled_list f (bounded_loop f [] input)" for input
    by (rule bounded_loop_settles [OF assms(1), rotated])
  then have "settled_list f vs" "vs \<noteq> []" using assms(2) by (auto simp: boundedList_def Let_def simp del: bounded_loop.simps split: js.splits if_splits)
  then show ?thesis using bounded_loop_settled [of f "[]" vs] by (simp add: boundedList_def Let_def)
qed

lemma nonblank_stable: "nonblank (take MAX_PROPERTY_TEXT s) = Some m \<Longrightarrow> nonblank (take MAX_PROPERTY_TEXT m) = Some m"
proof -
  assume "nonblank (take MAX_PROPERTY_TEXT s) = Some m"
  then have m: "m = js_trim (take MAX_PROPERTY_TEXT s)" "m \<noteq> []" by (auto simp: nonblank_def split: if_splits)
  then have "length m \<le> MAX_PROPERTY_TEXT" using trim_length [of "take MAX_PROPERTY_TEXT s"] by simp
  then show ?thesis using m by (simp add: nonblank_def)
qed

lemma id_not_space: "attachment_id_char c \<Longrightarrow> \<not> js_space c"
  by (auto simp: attachment_id_char_def js_space_def lower_letter_def lower_def is_digit_def)

lemma canonicalFileRef_stable:
  "canonicalFileRef (take MAX_PROPERTY_TEXT s) = Some m \<Longrightarrow> canonicalFileRef (take MAX_PROPERTY_TEXT m) = Some m"
proof -
  assume "canonicalFileRef (take MAX_PROPERTY_TEXT s) = Some m"
  then obtain i where i: "m = noteImageRef i" "is_attachment_id i"
    by (auto simp: canonicalFileRef_def noteAttachmentId_def Let_def split: option.splits if_splits)
  then have ends: "i \<noteq> []" "\<not> js_space (hd i)" "\<not> js_space (last i)" "length i \<le> 120"
    by (auto simp: is_attachment_id_def list_all_iff id_not_space)
  have "js_trim i = i" "js_trim m = m"
    using ends by (auto simp: i noteImageRef_def NOTE_IMAGE_PREFIX_def js_space_def intro!: trim_fixed)
  moreover have "take MAX_PROPERTY_TEXT m = m"
    using ends by (simp add: i noteImageRef_def NOTE_IMAGE_PREFIX_def MAX_PROPERTY_TEXT_def)
  ultimately show ?thesis
    using i by (simp add: canonicalFileRef_def noteAttachmentId_def Let_def noteImageRef_def starts_with_def)
qed

section \<open>Dates\<close>

lemma digits_plain: "list_all is_digit (digits_of n)"
proof (induction n rule: digits_of.induct)
  case (1 n)
  then show ?case by (subst digits_of.simps) (auto simp: list_all_iff is_digit_def)
qed

lemma padded_plain: "list_all is_digit (pad_left n (digits_of k))" "0 < n \<Longrightarrow> pad_left n (digits_of k) \<noteq> []"
  using digits_plain [of k] by (auto simp: pad_left_def list_all_iff is_digit_def)

lemma iso_ends: "iso_of_ms ms \<noteq> []" "\<not> js_space (hd (iso_of_ms ms))" "last (iso_of_ms ms) = CHR ''Z''"
proof -
  obtain y m d where c: "civil_of_days (ms div 86400000) = (y, m, d)" by (metis prod_cases3)
  show "iso_of_ms ms \<noteq> []" "last (iso_of_ms ms) = CHR ''Z''" by (simp_all add: iso_of_ms_def c Let_def)
  have year: "iso_year y \<noteq> []" "\<not> js_space (hd (iso_year y))"
  proof -
    have "\<not> js_space (hd ds)" if "list_all is_digit ds" "ds \<noteq> []" for ds
      using that by (cases ds) (auto simp: js_space_def is_digit_def)
    from this [of "pad_left 4 (digits_of (nat y))"] show "iso_year y \<noteq> []" "\<not> js_space (hd (iso_year y))"
      by (auto simp: iso_year_def padded_plain js_space_def)
  qed
  then show "\<not> js_space (hd (iso_of_ms ms))" by (simp add: iso_of_ms_def c Let_def)
qed

text \<open>
  Documented behaviour of the language, for what was stored: \<open>Date.parse\<close> reads back what
  \<open>toISOString\<close> wrote, and the text of a number is neither blank nor long.
\<close>

definition reads_back_as_written :: "FormulaHost \<Rightarrow> CellValue \<Rightarrow> bool" where
  "reads_back_as_written host v \<longleftrightarrow>
     (\<forall>ms. v = CText (iso_of_ms ms) \<longrightarrow> map_option iso_of_ms (fh_dateParse host (iso_of_ms ms)) = Some (iso_of_ms ms))"

definition shows_numbers :: "FormulaHost \<Rightarrow> bool" where
  "shows_numbers host \<longleftrightarrow> (\<forall>n. fh_show host n \<noteq> [] \<and> length (fh_show host n) \<le> MAX_PROPERTY_TEXT)"

lemma iso_stable:
  assumes "reads_back_as_written host (CText (iso_of_ms ms))"
  shows "normaliseDateValue host (iso_of_ms ms) = Some (iso_of_ms ms)"
proof -
  have z: "js_trim (iso_of_ms ms) = iso_of_ms ms" using iso_ends [of ms] by (intro trim_fixed) (simp add: js_space_def)
  have "\<not> is_day (iso_of_ms ms)"
  proof
    assume "is_day (iso_of_ms ms)"
    then have "length (iso_of_ms ms) = 10" "isDigit (iso_of_ms ms ! 9)" by (auto simp: is_day_def)
    then have "isDigit (last (iso_of_ms ms))" using iso_ends(1) [of ms] by (simp add: last_conv_nth)
    then show False by (simp add: iso_ends isDigit_def)
  qed
  with assms z iso_ends(1) [of ms] show ?thesis by (simp add: normaliseDateValue_def reads_back_as_written_def Let_def)
qed

lemma normaliseDateValue_stable:
  assumes "normaliseDateValue host s = Some d" "reads_back_as_written host (CText d)"
  shows "normaliseDateValue host d = Some d"
proof (cases "is_day (js_trim s)")
  case True
  with assms(1) show ?thesis by (auto simp: normaliseDateValue_def Let_def split: if_splits option.splits)
next
  case False
  with assms(1) obtain ms where "d = iso_of_ms ms"
    by (auto simp: normaliseDateValue_def Let_def split: if_splits)
  with assms(2) iso_stable show ?thesis by simp
qed

lemma normaliseDate_stable:
  assumes "normaliseDate host raw = Inr (Some d)" "reads_back_as_written host (CText d)"
  shows "normaliseDate host (JStr d) = Inr (Some d)"
proof -
  have "normaliseDateValue host d = Some d"
  proof (cases raw)
    case (JNum n)
    with assms(1) obtain q where "d = iso_of_ms (truncated q)"
      by (cases n) (auto simp: normaliseDate_def iso_of_number_def split: if_splits)
    with assms(2) iso_stable show ?thesis by simp
  qed (use assms in \<open>auto simp: normaliseDate_def dest: normaliseDateValue_stable\<close>)
  then show ?thesis by (simp add: normaliseDate_def)
qed

section \<open>Cells\<close>

text \<open>A stored cell, as a later write receives it.\<close>

definition js_of_cell :: "CellValue \<Rightarrow> js" where
  "js_of_cell v =
     (case v of
        CText s \<Rightarrow> JStr s
      | CNumber (Num q) \<Rightarrow> JNum (Fin q)
      | CNumber _ \<Rightarrow> JNum NonFinite
      | CBool b \<Rightarrow> JBool b
      | CList vs \<Rightarrow> JArr (map JStr vs)
      | CNull \<Rightarrow> JNull)"

lemma list_cell_stable:
  assumes "\<And>s m. f (take MAX_PROPERTY_TEXT s) = Some m \<Longrightarrow> f (take MAX_PROPERTY_TEXT m) = Some m"
  shows "list_cell (boundedList raw f) = CNull \<or>
    (\<exists>vs. list_cell (boundedList raw f) = CList vs \<and> list_cell (boundedList (JArr (map JStr vs)) f) = CList vs)"
  using boundedList_stable [OF assms] by (cases "boundedList raw f") (auto simp: list_cell_def)

text \<open>The three mappings of a list.\<close>

definition list_restored :: "(string \<Rightarrow> string option) \<Rightarrow> js \<Rightarrow> bool" where
  "list_restored f raw \<longleftrightarrow> list_cell (boundedList raw f) = CNull \<or>
     (\<exists>vs. list_cell (boundedList raw f) = CList vs \<and> list_cell (boundedList (JArr (map JStr vs)) f) = CList vs)"

lemma list_cells_stable: "list_restored nonblank raw" "list_restored canonicalFileRef raw" "list_restored Some raw"
  unfolding list_restored_def
  by (rule list_cell_stable, erule nonblank_stable, rule list_cell_stable, erule canonicalFileRef_stable,
      rule list_cell_stable, auto)

lemma text_cell_stable:
  assumes "shows_numbers host"
  shows "text_cell (boundedText host raw) = CNull \<or>
    (\<exists>s. text_cell (boundedText host raw) = CText s \<and> text_cell (boundedText host (JStr s)) = CText s)"
proof -
  have "\<exists>s. boundedText host raw = Some s \<and> s \<noteq> [] \<and> length s \<le> MAX_PROPERTY_TEXT" if "boundedText host raw \<noteq> None"
    using that assms by (auto simp: boundedText_def shows_numbers_def Let_def split: js.splits jsnum.splits if_splits)
  then show ?thesis by (cases "boundedText host raw") (auto simp: text_cell_def boundedText_def Let_def MAX_PROPERTY_TEXT_def)
qed

text \<open>
  C32. A cell in its stored form stays in it: whatever the write coerces, coercing what it stored gives the
  same value, for every column but a relation and for every type, also the ones a newer build wrote, so a
  cell that is written again unchanged is not changed.
\<close>

theorem stored_cells_are_stable:
  assumes "reads_back_as_written host v" "shows_numbers host" "pd_type def \<noteq> ''relation''"
    and "coercePropertyValue host def raw = Inr v"
  shows "coercePropertyValue host def (js_of_cell v) = Inr v"
proof (cases "v = CNull")
  case False
  let ?t = "pd_type def"
  from False assms(4) have r: "raw \<noteq> JNull" "raw \<noteq> JUndefined" "\<not> isDerivedPropertyType ?t"
    by (auto simp: coercePropertyValue_def Let_def split: if_splits)
  note c = coercePropertyValue_def Let_def
  consider "?t \<in> {''title'', ''text'', ''url'', ''select''}" | "?t = ''number''" | "?t = ''checkbox''" | "?t = ''date''"
    | "?t \<in> {''multi-select'', ''person''}" | "?t = ''files''"
    | "?t \<notin> {''title'', ''text'', ''url'', ''select'', ''number'', ''checkbox'', ''date'', ''multi-select'', ''person'', ''files''}"
    by blast
  then show ?thesis
  proof cases
    case 1
    with assms(4) r False text_cell_stable [OF assms(2), of raw] show ?thesis by (auto simp: c js_of_cell_def)
  next
    case 2
    with assms(4) r False show ?thesis
      by (auto simp: c coerce_number_def js_of_cell_def finite_number_def split: if_splits number.splits)
  next
    case 3
    with assms(4) r show ?thesis by (auto simp: c js_of_cell_def)
  next
    case 4
    with assms(4) r False obtain d where d: "normaliseDate host raw = Inr (Some d)" "v = CText d"
      by (auto simp: c text_cell_def split: sum.splits option.splits)
    with normaliseDate_stable [OF d(1)] assms(1) 4 r show ?thesis by (simp add: c js_of_cell_def text_cell_def)
  next
    case 5
    with assms(4) r False list_cells_stable(1) [of raw] show ?thesis by (auto simp: c js_of_cell_def list_restored_def)
  next
    case 6
    with assms(4) r False list_cells_stable(2) [of raw] show ?thesis by (auto simp: c js_of_cell_def list_restored_def)
  next
    case 7
    with assms(3,4) r have v: "v = coerce_unknown raw" by (simp add: c)
    have "coerce_unknown (js_of_cell v) = v"
      using False list_cells_stable(3) [of raw] unfolding v
      by (cases raw) (auto simp: coerce_unknown_def js_of_cell_def list_restored_def split: jsnum.splits)
    with assms(3) 7 r show ?thesis by (cases v) (auto simp: c js_of_cell_def split: number.splits)
  qed
qed (simp add: coercePropertyValue_def js_of_cell_def)

definition cell_host :: FormulaHost where
  "cell_host =
     \<lparr>fh_pow = \<lambda>a b. a, fh_sqrt = \<lambda>a. a, fh_show = \<lambda>n. ''0'', fh_upper = \<lambda>s. s, fh_lower = \<lambda>s. s,
      fh_dateParse = \<lambda>s. if s \<in> {''7 August 2026 UTC'', ''2026-08-07T00:00:00.000Z''} then Some 1786060800000 else None\<rparr>"

definition due_column :: NotePropertyDef where
  "due_column = \<lparr>pd_id = ''due'', pd_name = ''Due'', pd_type = ''date'', pd_options = [], pd_description = None,
     pd_formula = None, pd_rollup = None\<rparr>"

lemma august_is_day_20672: "civil_of_days 20672 = (2026, 8, 7)"
  by code_simp

lemma due_instant: "iso_of_ms 1786060800000 = ''2026-08-07T00:00:00.000Z''"
proof -
  have two: "replicate 2 (CHR ''0'') = ''00''" by (simp add: numeral_2_eq_2)
  show ?thesis
    using august_is_day_20672
    by (simp add: iso_of_ms_def iso_year_def pad_left_def digits_of.simps char_of_def two bit_Suc_0_iff)
qed

theorem stored_cells_are_stable_witness:
  "coercePropertyValue cell_host due_column (JStr ''2026-08-07T00:00:00.000Z'') = Inr (CText ''2026-08-07T00:00:00.000Z'')"
proof -
  have "coercePropertyValue cell_host due_column (JStr ''7 August 2026 UTC'') = Inr (CText ''2026-08-07T00:00:00.000Z'')"
    by (simp add: coercePropertyValue_def due_column_def isDerivedPropertyType_def DERIVED_PROPERTY_TYPES_def normaliseDate_def
        normaliseDateValue_def js_trim_def js_space_def is_day_def cell_host_def due_instant text_cell_def)
  moreover have "reads_back_as_written cell_host (CText ''2026-08-07T00:00:00.000Z'')"
    unfolding reads_back_as_written_def by (auto simp: cell_host_def due_instant)
  moreover have "shows_numbers cell_host" by (simp add: shows_numbers_def cell_host_def MAX_PROPERTY_TEXT_def)
  ultimately show ?thesis
    using stored_cells_are_stable [of cell_host "CText ''2026-08-07T00:00:00.000Z''" due_column "JStr ''7 August 2026 UTC''"]
    by (simp add: due_column_def js_of_cell_def)
qed

section \<open>Where coercion departs from its description\<close>

text \<open>A blank text is the number 0 of a number column, not its empty cell.\<close>

lemma blank_text_is_zero:
  "pd_type def = ''number'' \<Longrightarrow> coercePropertyValue host def (JStr []) = Inr (CNumber (Num 0))"
proof -
  have "number_of_text [] = Num 0" by code_simp
  moreover assume "pd_type def = ''number''"
  ultimately show ?thesis
    by (simp add: coercePropertyValue_def isDerivedPropertyType_def DERIVED_PROPERTY_TYPES_def coerce_number_def finite_number_def)
qed

text \<open>A finite number that is no instant raises instead of becoming empty.\<close>

lemma late_date_raises:
  "pd_type def = ''date'' \<Longrightarrow> coercePropertyValue host def (JNum (Fin 8640000000000001)) = Inl RangeError"
  by (simp add: coercePropertyValue_def isDerivedPropertyType_def DERIVED_PROPERTY_TYPES_def normaliseDate_def
      iso_of_number_def MAX_DATE_MS_def)

end
