(* ===== verification/ViewSafety.thy ===== *)
theory ViewSafety
  imports DatabaseView CellSafety
begin

text \<open>
  What a view of a database promises: a total order of its rows, groups that hold exactly the rows that
  belong to them, and filters in which a rule that cannot be evaluated decides nothing.
\<close>

section \<open>Comparators\<close>

definition lex :: "('a \<Rightarrow> 'a \<Rightarrow> int) \<Rightarrow> ('a \<Rightarrow> 'a \<Rightarrow> int) \<Rightarrow> 'a \<Rightarrow> 'a \<Rightarrow> int" where
  "lex c d a b = (if c a b \<noteq> 0 then c a b else d a b)"

lemma lex_preorder:
  assumes "preorder_comparator c" "preorder_comparator d"
  shows "preorder_comparator (lex c d)"
proof -
  note swap = preorder_comparator.cmp_swap [OF assms(1)] and trans = preorder_comparator.cmp_trans [OF assms(1)]
  have zero: "c x y = 0 \<longleftrightarrow> c x y \<le> 0 \<and> c y x \<le> 0" for x y
    using swap [of x y] swap [of y x] by linarith
  show ?thesis
  proof
    fix x y z :: 'a
    show "(lex c d x y < 0) = (0 < lex c d y x)"
      using swap [of x y] swap [of y x] preorder_comparator.cmp_swap [OF assms(2), of x y] by (auto simp: lex_def)
    assume xy: "lex c d x y \<le> 0" and yz: "lex c d y z \<le> 0"
    then have le: "c x y \<le> 0" "c y z \<le> 0" by (auto simp: lex_def split: if_splits)
    then have xz: "c x z \<le> 0" by (rule trans)
    show "lex c d x z \<le> 0"
    proof (cases "c x z = 0")
      case True
      then have "c z x \<le> 0" using zero by blast
      then have "c y x \<le> 0" "c z y \<le> 0" using trans le by blast+
      then have "c x y = 0" "c y z = 0" using le zero by blast+
      with xy yz True preorder_comparator.cmp_trans [OF assms(2), of x y z] show ?thesis by (simp add: lex_def)
    next
      case False
      with xz show ?thesis by (simp add: lex_def)
    qed
  qed
qed

lemma three_way_preorder: "preorder_comparator (\<lambda>a b. three_way (f a = f b) (f a < (f b :: 'k :: linorder)))"
  by unfold_locales (auto simp: three_way_def split: if_splits)

lemma missing_last_preorder:
  assumes "preorder_comparator c"
  shows "preorder_comparator (missing_last c)"
proof
  fix x y z :: "'a option"
  show "(missing_last c x y < 0) = (0 < missing_last c y x)"
    using preorder_comparator.cmp_swap [OF assms] by (cases x; cases y) (auto simp: missing_last_def)
  show "missing_last c x y \<le> 0 \<Longrightarrow> missing_last c y z \<le> 0 \<Longrightarrow> missing_last c x z \<le> 0"
    using preorder_comparator.cmp_trans [OF assms] by (cases x; cases y; cases z) (auto simp: missing_last_def)
qed

lemma reversed_preorder: "preorder_comparator c \<Longrightarrow> preorder_comparator (\<lambda>a b. - c a b)"
proof
  assume p: "preorder_comparator c"
  note swap = preorder_comparator.cmp_swap [OF p]
  fix x y z :: 'a
  show "(- c x y < 0) = (0 < - c y x)" using swap [of y x] by simp
  assume "- c x y \<le> 0" "- c y z \<le> 0"
  then have "c z y \<le> 0" "c y x \<le> 0" using swap [of x y] swap [of y z] by linarith+
  then have "c z x \<le> 0" by (rule preorder_comparator.cmp_trans [OF p])
  then show "- c x z \<le> 0" using swap [of x z] by linarith
qed

section \<open>The order of cells\<close>

text \<open>Every number but \<open>NaN\<close> has its place; no cell that was stored or computed holds it.\<close>

definition clean_number :: "number \<Rightarrow> number" where
  "clean_number n = (if n = NaN then PosInf else n)"

definition clean :: "CellValue \<Rightarrow> CellValue" where
  "clean v = (case v of CNumber n \<Rightarrow> CNumber (clean_number n) | _ \<Rightarrow> v)"

lemma clean_id: "v \<noteq> CNumber NaN \<Longrightarrow> clean v = v"
  by (cases v) (auto simp: clean_def clean_number_def)

lemma number_order_preorder: "preorder_comparator (\<lambda>a b. number_order (clean_number a) (clean_number b))"
proof
  fix x y z :: number
  have nn: "clean_number n \<noteq> NaN" for n by (simp add: clean_number_def)
  show "(number_order (clean_number x) (clean_number y) < 0) = (0 < number_order (clean_number y) (clean_number x))"
    using nn [of x] nn [of y]
    by (cases "clean_number x"; cases "clean_number y") (auto simp: number_order_def three_way_def js_eq_def js_less_def)
  show "number_order (clean_number x) (clean_number y) \<le> 0 \<Longrightarrow> number_order (clean_number y) (clean_number z) \<le> 0 \<Longrightarrow>
      number_order (clean_number x) (clean_number z) \<le> 0"
    using nn [of x] nn [of y] nn [of z]
    by (cases "clean_number x"; cases "clean_number y"; cases "clean_number z")
      (auto simp: number_order_def three_way_def js_eq_def js_less_def split: if_splits)
qed

definition number_key :: "CellValue \<Rightarrow> number" where
  "number_key v = (case v of CNumber n \<Rightarrow> n | _ \<Rightarrow> Num 0)"

definition bool_key :: "CellValue \<Rightarrow> int" where
  "bool_key v = (case v of CBool True \<Rightarrow> 1 | _ \<Rightarrow> 0)"

definition line_key :: "FormulaHost \<Rightarrow> CellValue \<Rightarrow> string" where
  "line_key host v = (if computed_rank v = 2 \<or> computed_rank v = 3 then cell_line host v else [])"

lemma int_preorder: "preorder_comparator (\<lambda>a b. f a - (f b :: int))"
  by unfold_locales auto

lemma compareComputed_lex:
  assumes "preorder_comparator lc"
  shows "compareComputedValues host lc (clean a) (clean b) =
    lex (\<lambda>a b. three_way (computed_rank a = computed_rank b) (computed_rank a < computed_rank b))
      (lex (\<lambda>a b. number_order (clean_number (number_key a)) (clean_number (number_key b)))
        (lex (\<lambda>a b. bool_key a - bool_key b) (\<lambda>a b. lc (line_key host a) (line_key host b)))) (clean a) (clean b)"
proof -
  have nn: "clean_number n \<noteq> NaN" "clean_number (clean_number n) = clean_number n" for n by (simp_all add: clean_number_def)
  have r: "lc s s = 0" for s by (rule preorder_comparator.cmp_refl [OF assms])
  have z: "number_order n n = 0" if "n \<noteq> NaN" for n using that by (simp add: number_order_def three_way_def js_eq_def)
  show ?thesis
    by (cases a; cases b)
      (auto simp: compareComputedValues_def lex_def three_way_def computed_rank_def clean_def number_key_def bool_key_def
        line_key_def isEmptyPropertyValue_def cell_line_def Let_def nn r z)
qed

lemma compareComputed_preorder:
  assumes "preorder_comparator lc"
  shows "preorder_comparator (\<lambda>a b. compareComputedValues host lc (clean a) (clean b))"
  unfolding compareComputed_lex [OF assms]
  by (intro preorder_comparator_key [where f = clean] lex_preorder three_way_preorder int_preorder
      preorder_comparator_key [OF number_order_preorder, where f = number_key] preorder_comparator_key [OF assms, where f = "line_key host"])

definition property_compare :: "FormulaHost \<Rightarrow> (string \<Rightarrow> string \<Rightarrow> int) \<Rightarrow> NotePropertyDef \<Rightarrow> CellValue \<Rightarrow> CellValue \<Rightarrow> int" where
  "property_compare host lc def a b =
     (case comparePropertyValues host lc def (clean a) (clean b) of None \<Rightarrow> 0 | Some n \<Rightarrow> n)"

lemma cell_number_order:
  "missing_last number_order (cell_number (clean a)) (cell_number (clean b)) =
     missing_last (\<lambda>x y. number_order (clean_number x) (clean_number y)) (cell_number (clean a)) (cell_number (clean b))"
  by (auto simp: missing_last_def cell_number_def clean_def clean_number_def split: CellValue.splits option.splits if_splits)

lemma sized_order:
  assumes "preorder_comparator lc"
  shows "preorder_comparator (\<lambda>a b. if f a \<noteq> f b then (if f a < (f b :: nat) then - 1 else 1) else lc (g a) (g b))"
proof -
  have "(\<lambda>a b. if f a \<noteq> f b then (if f a < f b then - 1 else 1) else lc (g a) (g b)) =
      lex (\<lambda>a b. three_way (f a = f b) (f a < f b)) (\<lambda>a b. lc (g a) (g b))"
    by (auto simp: fun_eq_iff lex_def three_way_def)
  then show ?thesis by (simp add: lex_preorder three_way_preorder preorder_comparator_key [OF assms])
qed

lemma property_compare_preorder:
  assumes "preorder_comparator lc"
  shows "preorder_comparator (property_compare host lc def)"
proof -
  let ?t = "pd_type def" and ?c = "property_compare host lc def"
  note d = property_compare_def comparePropertyValues_def Let_def
  have text_case: "preorder_comparator (\<lambda>a b. lc (formatPropertyValue host def (clean a)) (formatPropertyValue host def (clean b)))"
    by (rule preorder_comparator_key [OF assms])
  consider "?t \<in> set TEXT_ORDERED" | "?t \<notin> set TEXT_ORDERED" "?t = ''files''"
    | "?t \<notin> set TEXT_ORDERED" "?t = ''formula'' \<or> ?t = ''rollup''" | "?t \<notin> set TEXT_ORDERED" "?t = ''number''"
    | "?t \<notin> set TEXT_ORDERED" "?t = ''checkbox''" | "?t \<notin> set TEXT_ORDERED" "isDatePropertyType ?t"
    | "?t \<notin> set TEXT_ORDERED" "?t = ''select''"
    | "?t \<notin> set TEXT_ORDERED" "?t \<notin> {''files'', ''formula'', ''rollup'', ''number'', ''checkbox'', ''select''}" "\<not> isDatePropertyType ?t"
    by blast
  then show ?thesis
  proof cases
    case 1
    then have "?c = (\<lambda>a b. lc (formatPropertyValue host def (clean a)) (formatPropertyValue host def (clean b)))"
      by (simp add: fun_eq_iff d)
    with text_case show ?thesis by simp
  next
    case 2
    then have "?c = (\<lambda>a b. if list_size (clean a) \<noteq> list_size (clean b) then (if list_size (clean a) < list_size (clean b) then - 1 else 1)
        else lc (list_text (clean a)) (list_text (clean b)))"
      by (simp add: fun_eq_iff d)
    then show ?thesis using sized_order [OF assms, of "\<lambda>a. list_size (clean a)" "\<lambda>a. list_text (clean a)"] by simp
  next
    case 3
    then have "?c = (\<lambda>a b. compareComputedValues host lc (clean a) (clean b))" by (auto simp: fun_eq_iff d)
    then show ?thesis by (simp add: compareComputed_preorder [OF assms])
  next
    case 4
    then have "?c = (\<lambda>a b. missing_last (\<lambda>x y. number_order (clean_number x) (clean_number y)) (cell_number (clean a)) (cell_number (clean b)))"
      by (simp add: fun_eq_iff d cell_number_order)
    then show ?thesis
      by (simp add: preorder_comparator_key [OF missing_last_preorder [OF number_order_preorder], where f = "\<lambda>a. cell_number (clean a)"])
  next
    case 5
    then have "?c = (\<lambda>a b. (if clean a = CBool True then 1 else 0) - (if clean b = CBool True then 1 else 0))"
      by (simp add: fun_eq_iff d)
    then show ?thesis using int_preorder [of "\<lambda>a. if clean a = CBool True then 1 else 0"] by simp
  next
    case 6
    then have "?t \<notin> {''files'', ''formula'', ''rollup'', ''number'', ''checkbox''}" by (auto simp: isDatePropertyType_def)
    with 6 have "?c = (\<lambda>a b. missing_last (\<lambda>x y. three_way (x = y) (x < y)) (cell_ms host (clean a)) (cell_ms host (clean b)))"
      by (simp add: fun_eq_iff d)
    then show ?thesis
      using preorder_comparator_key [OF missing_last_preorder [OF three_way_preorder [of "\<lambda>x. x"]], of "\<lambda>a. cell_ms host (clean a)"] by simp
  next
    case 7
    then have "?c = (\<lambda>a b. if option_order host def (clean a) \<noteq> option_order host def (clean b)
        then (if option_order host def (clean a) < option_order host def (clean b) then - 1 else 1)
        else lc (formatPropertyValue host def (clean a)) (formatPropertyValue host def (clean b)))"
      by (simp add: fun_eq_iff d isDatePropertyType_def)
    then show ?thesis
      using sized_order [OF assms, of "\<lambda>a. option_order host def (clean a)" "\<lambda>a. formatPropertyValue host def (clean a)"] by simp
  next
    case 8
    then have "?c = (\<lambda>a b. 0 - 0)" by (simp add: fun_eq_iff d)
    then show ?thesis using int_preorder [of "\<lambda>a. 0"] by simp
  qed
qed

section \<open>The order of rows\<close>

definition filled :: "CellValue \<Rightarrow> CellValue option" where
  "filled v = (if isEmptyPropertyValue v then None else Some v)"

definition directed :: "sort_direction \<Rightarrow> ('a \<Rightarrow> 'a \<Rightarrow> int) \<Rightarrow> 'a \<Rightarrow> 'a \<Rightarrow> int" where
  "directed direction c a b = (case direction of ascending \<Rightarrow> c a b | descending \<Rightarrow> - c a b)"

fun rows_order ::
    "FormulaHost \<Rightarrow> (string \<Rightarrow> string \<Rightarrow> int) \<Rightarrow> ('r \<Rightarrow> string \<Rightarrow> CellValue) \<Rightarrow> ('r \<Rightarrow> 'r \<Rightarrow> int) \<Rightarrow> active_sort list
      \<Rightarrow> 'r \<Rightarrow> 'r \<Rightarrow> int" where
  "rows_order host lc cell fallback [] = fallback"
| "rows_order host lc cell fallback ((def, direction) # sorts) =
     lex (\<lambda>a b. missing_last (directed direction (property_compare host lc def))
            (filled (cell a (pd_id def))) (filled (cell b (pd_id def))))
       (rows_order host lc cell fallback sorts)"

lemma directed_preorder: "preorder_comparator c \<Longrightarrow> preorder_comparator (directed direction c)"
  by (cases direction) (simp_all add: directed_def [abs_def] reversed_preorder)

lemma rows_order_preorder:
  assumes "preorder_comparator lc" "preorder_comparator fallback"
  shows "preorder_comparator (rows_order host lc cell fallback sorts)"
proof (induction sorts)
  case (Cons ds sorts)
  obtain def direction where ds: "ds = (def, direction)" by (cases ds)
  show ?case unfolding ds rows_order.simps
    by (intro lex_preorder Cons.IH preorder_comparator_key [where f = "\<lambda>a. filled (cell a (pd_id def))"] missing_last_preorder
        directed_preorder property_compare_preorder assms(1))
qed (simp add: assms)

lemma rows_order_fallback: "rows_order host lc cell fallback sorts a b = 0 \<Longrightarrow> fallback a b = 0"
  by (induction sorts) (auto simp: lex_def split: if_splits)

lemma row_compare_order:
  assumes "\<And>p. cell a p \<noteq> CNumber NaN" "\<And>p. cell b p \<noteq> CNumber NaN"
  shows "row_compare host lc cell fallback sorts a b = rows_order host lc cell fallback sorts a b"
proof (induction sorts)
  case (Cons ds sorts)
  obtain def direction where ds: "ds = (def, direction)" by (cases ds)
  have c: "property_compare host lc def (cell a p) (cell b p) =
      (case comparePropertyValues host lc def (cell a p) (cell b p) of None \<Rightarrow> 0 | Some n \<Rightarrow> n)" for p
    by (simp add: property_compare_def clean_id assms)
  show ?case unfolding ds row_compare.simps rows_order.simps Cons.IH
    by (cases direction) (simp_all add: lex_def missing_last_def filled_def directed_def c Let_def)
qed simp

lemma insert_by_cong: "(\<And>y. y \<in> set ys \<Longrightarrow> c x y = d x y) \<Longrightarrow> insert_by c x ys = insert_by d x ys"
  by (induction ys) auto

lemma sort_by_cong: "(\<And>x y. x \<in> set xs \<Longrightarrow> y \<in> set xs \<Longrightarrow> c x y = d x y) \<Longrightarrow> sort_by c xs = sort_by d xs"
proof (induction xs)
  case (Cons x xs)
  then have "sort_by c xs = sort_by d xs" by simp
  then show ?case using insert_by_cong [of "sort_by d xs" c x d] Cons.prems by simp
qed simp

lemma sortRows_order:
  assumes "\<And>row p. row \<in> set rows \<Longrightarrow> cell row p \<noteq> CNumber NaN"
  shows "fst (sortRows host lc rows sorts defs cell fallback) =
    sort_by (rows_order host lc cell fallback (fst (active_sorts host lc defs sorts))) rows"
  unfolding sortRows_def by (auto split: prod.split intro!: sort_by_cong row_compare_order assms)

section \<open>Groups\<close>

definition rows_of :: "string option \<Rightarrow> 'r RowGroup list \<Rightarrow> 'r list" where
  "rows_of key groups = concat (map rg_rows (filter (\<lambda>g. rg_key g = key) groups))"

text \<open>Buckets under their own keys, each once.\<close>

definition sound_buckets :: "(string \<times> 'r RowGroup) list \<Rightarrow> bool" where
  "sound_buckets bs \<longleftrightarrow> distinct (map fst bs) \<and> (\<forall>k g. map_of bs k = Some g \<longrightarrow> rg_key g = Some k)"

definition bucket_rows :: "(string \<times> 'r RowGroup) list \<Rightarrow> string \<Rightarrow> 'r list" where
  "bucket_rows bs k = (case map_of bs k of None \<Rightarrow> [] | Some g \<Rightarrow> rg_rows g)"

lemma sound_update: "sound_buckets bs \<Longrightarrow> rg_key g = Some k \<Longrightarrow> sound_buckets (AList.update k g bs)"
  by (auto simp: sound_buckets_def distinct_update update_conv' split: if_splits)

lemma new_bucket_simps [simp]: "rg_key (new_bucket k l) = Some k" "rg_rows (new_bucket k l) = []"
  by (simp_all add: new_bucket_def)

lemma fresh_buckets:
  "sound_buckets bs \<and> (\<forall>k. bucket_rows bs k = []) \<Longrightarrow>
     sound_buckets (fold (\<lambda>x. AList.update (f x) (new_bucket (f x) (l x))) xs bs) \<and>
     (\<forall>k. bucket_rows (fold (\<lambda>x. AList.update (f x) (new_bucket (f x) (l x))) xs bs) k = [])"
  by (induction xs arbitrary: bs) (simp_all add: sound_update bucket_rows_def update_conv')

lemma seeded_sound:
  fixes def :: NotePropertyDef
  defines "bs \<equiv> seeded_buckets def :: (string \<times> 'r RowGroup) list"
  shows "sound_buckets bs \<and> (\<forall>k. bucket_rows bs k = [])"
proof -
  have "sound_buckets ([] :: (string \<times> 'r RowGroup) list) \<and> (\<forall>k. bucket_rows ([] :: (string \<times> 'r RowGroup) list) k = [])"
    by (simp add: sound_buckets_def bucket_rows_def)
  note options = fresh_buckets [OF this, of so_id so_label "pd_options def"]
  note both = fresh_buckets [OF options, of "\<lambda>key. key" "\<lambda>key. propertyGroupLabel def (Some key)" "[''true'', ''false'']"]
  show ?thesis
    unfolding bs_def seeded_buckets_def Let_def using options both by (simp del: fold_simps)
qed

lemma put_row_sound: "sound_buckets bs \<Longrightarrow> sound_buckets (put_row def row k bs)"
  unfolding put_row_def Let_def by (rule sound_update) (auto simp: sound_buckets_def split: option.split)

lemma put_row_rows: "bucket_rows (put_row def row k bs) k' = bucket_rows bs k' @ (if k' = k then [row] else [])"
  by (auto simp: put_row_def Let_def bucket_rows_def update_conv' split: option.split)

lemma put_rows:
  "sound_buckets bs \<Longrightarrow> sound_buckets (fold (put_row def row) ks bs)"
  "distinct ks \<Longrightarrow> bucket_rows (fold (put_row def row) ks bs) k = bucket_rows bs k @ (if k \<in> set ks then [row] else [])"
  by (induction ks arbitrary: bs) (auto simp: put_row_sound put_row_rows)

lemma place_rows_spec:
  assumes "\<And>row. distinct (propertyGroupKeys host def (cell row))" "sound_buckets bs"
    and "place_rows host def cell rows (bs, none) = (bs', none')"
  shows "sound_buckets bs'"
    "bucket_rows bs' k = bucket_rows bs k @ filter (\<lambda>row. k \<in> set (propertyGroupKeys host def (cell row))) rows"
    "none' = none @ filter (\<lambda>row. propertyGroupKeys host def (cell row) = []) rows"
  using assms(2,3)
proof (induction rows arbitrary: bs none)
  case (Cons row rows)
  let ?ks = "propertyGroupKeys host def (cell row)"
  have step: "sound_buckets bs' \<and>
      bucket_rows bs' k = bucket_rows bs k @ filter (\<lambda>row. k \<in> set (propertyGroupKeys host def (cell row))) (row # rows) \<and>
      none' = none @ filter (\<lambda>row. propertyGroupKeys host def (cell row) = []) (row # rows)"
    if "sound_buckets bs" "place_rows host def cell (row # rows) (bs, none) = (bs', none')" for bs none
  proof (cases ?ks)
    case Nil
    with that have "place_rows host def cell rows (bs, none @ [row]) = (bs', none')" by simp
    from Cons.IH [OF that(1) this] Nil show ?thesis by simp
  next
    case (Cons key keys)
    with that have p: "place_rows host def cell rows (fold (put_row def row) ?ks bs, none) = (bs', none')" by simp
    note ih = Cons.IH [OF put_rows(1) [OF that(1)] p]
    show ?thesis
    proof (intro conjI)
      show "sound_buckets bs'" by (rule ih(1))
      show "bucket_rows bs' k = bucket_rows bs k @ filter (\<lambda>row. k \<in> set (propertyGroupKeys host def (cell row))) (row # rows)"
        using ih(2) put_rows(2) [OF assms(1) [of row], where def = def and row = row and bs = bs and k = k] by simp
      show "none' = none @ filter (\<lambda>row. propertyGroupKeys host def (cell row) = []) (row # rows)"
        using ih(3) Cons by simp
    qed
  qed
  {
    case 1
    from step [OF this] show ?case by (rule conjunct1)
  next
    case 2
    from step [OF this] show ?case by (elim conjE)
  next
    case 3
    from step [OF this] show ?case by (elim conjE)
  }
qed auto

lemma keyed_filter:
  "distinct (map fst bs) \<Longrightarrow> \<forall>(k, g) \<in> set bs. rg_key g = Some k \<Longrightarrow>
     filter (\<lambda>g. rg_key g = Some k) (map snd bs) = (case map_of bs k of None \<Rightarrow> [] | Some g \<Rightarrow> [g])"
proof (induction bs)
  case (Cons kg bs)
  obtain k0 g0 where kg: "kg = (k0, g0)" by (cases kg)
  have ih: "filter (\<lambda>g. rg_key g = Some k) (map snd bs) = (case map_of bs k of None \<Rightarrow> [] | Some g \<Rightarrow> [g])"
    using Cons by simp
  have "k0 = k \<Longrightarrow> map_of bs k = None" using Cons.prems(1) kg by (simp add: map_of_eq_None_iff)
  with ih Cons.prems kg show ?case by auto
qed simp

lemma sound_member: "sound_buckets bs \<Longrightarrow> (k, g) \<in> set bs \<Longrightarrow> rg_key g = Some k"
  by (auto simp: sound_buckets_def)

lemma sorted_bucket:
  assumes "sound_buckets bs"
  shows "rows_of key (sort_by c (map snd bs)) = (case key of None \<Rightarrow> [] | Some k \<Rightarrow> bucket_rows bs k)"
proof (cases key)
  case None
  have "filter (\<lambda>g. rg_key g = None) (sort_by c (map snd bs)) = []"
    using sound_member [OF assms] by (auto simp: filter_empty_conv)
  then show ?thesis by (simp add: rows_of_def None)
next
  case (Some k)
  have f: "filter (\<lambda>g. rg_key g = Some k) (map snd bs) = (case map_of bs k of None \<Rightarrow> [] | Some g \<Rightarrow> [g])"
    using assms sound_member [OF assms] by (intro keyed_filter) (auto simp: sound_buckets_def)
  have "mset (filter (\<lambda>g. rg_key g = Some k) (sort_by c (map snd bs))) = mset (case map_of bs k of None \<Rightarrow> [] | Some g \<Rightarrow> [g])"
    by (simp only: mset_filter mset_sort_by) (simp only: f flip: mset_filter)
  then have "filter (\<lambda>g. rg_key g = Some k) (sort_by c (map snd bs)) = (case map_of bs k of None \<Rightarrow> [] | Some g \<Rightarrow> [g])"
    by (auto simp del: mset_filter split: option.splits)
  then show ?thesis by (simp add: rows_of_def bucket_rows_def Some split: option.split)
qed

lemma groupRows_rows:
  assumes "\<And>row. distinct (propertyGroupKeys host def (cell row))"
  shows "rows_of key (groupRows host lc rows def cell) =
    filter (\<lambda>row. case key of None \<Rightarrow> propertyGroupKeys host def (cell row) = [] | Some k \<Rightarrow> k \<in> set (propertyGroupKeys host def (cell row))) rows"
proof -
  obtain bs none where p: "place_rows host def cell rows (seeded_buckets def, []) = (bs, none)" by force
  note spec = place_rows_spec [OF assms conjunct1 [OF seeded_sound] p]
  have "rows_of key (groupRows host lc rows def cell) =
      (case key of None \<Rightarrow> [] | Some k \<Rightarrow> bucket_rows bs k) @ (if key = None then none else [])"
    using sorted_bucket [OF spec(1), of key "group_order lc def"] by (auto simp: groupRows_def p rows_of_def)
  then show ?thesis
    using spec(2) [of "the key"] spec(3) conjunct2 [OF seeded_sound, of def, rule_format] by (cases key) simp_all
qed

text \<open>
  C29. The groups of a view hold exactly the rows that belong to them, in the order of the rows: under a key the
  rows whose cell names it, under no key the rows whose cell names none. No row is lost, and none is in a group
  twice, when no cell lists an entry twice.
\<close>

theorem groups_hold_exactly_their_rows:
  assumes "\<And>row vs. cell row = CList vs \<Longrightarrow> distinct vs"
  shows "rows_of key (groupRows host lc rows def cell) =
    filter (\<lambda>row. case key of None \<Rightarrow> propertyGroupKeys host def (cell row) = []
      | Some k \<Rightarrow> k \<in> set (propertyGroupKeys host def (cell row))) rows"
proof (rule groupRows_rows)
  show "distinct (propertyGroupKeys host def (cell row))" for row
    using assms [of row] by (auto simp: propertyGroupKeys_def Let_def split: CellValue.split option.split)
qed

definition tags :: NotePropertyDef where
  "tags = \<lparr>pd_id = ''tags'', pd_name = ''Tags'', pd_type = ''multi-select'',
     pd_options = [\<lparr>so_id = ''b'', so_label = ''B'', so_tone = None\<rparr>], pd_description = None, pd_formula = None, pd_rollup = None\<rparr>"

definition by_length :: "string \<Rightarrow> string \<Rightarrow> int" where
  "by_length s t = int (length s) - int (length t)"

theorem groups_hold_exactly_their_rows_witness:
  "\<exists>cell. rows_of (Some ''b'') (groupRows cell_host by_length [1, 2, 3 :: nat] tags cell) = [1, 3] \<and>
    rows_of None (groupRows cell_host by_length [1, 2, 3] tags cell) = [2]"
proof -
  let ?cell = "\<lambda>n :: nat. if n = 2 then CNull else CList [''a'', ''b'']"
  have ks: "propertyGroupKeys cell_host tags (?cell n) = (if n = 2 then [] else [''a'', ''b''])" for n
    by (simp add: propertyGroupKeys_def tags_def isEmptyPropertyValue_def isDatePropertyType_def)
  have spec: "rows_of k (groupRows cell_host by_length [1, 2, 3 :: nat] tags ?cell) =
      filter (\<lambda>row. case k of None \<Rightarrow> propertyGroupKeys cell_host tags (?cell row) = []
        | Some j \<Rightarrow> j \<in> set (propertyGroupKeys cell_host tags (?cell row))) [1, 2, 3]" for k
    by (rule groups_hold_exactly_their_rows) (auto split: if_splits)
  have "rows_of (Some ''b'') (groupRows cell_host by_length [1, 2, 3 :: nat] tags ?cell) = [1, 3]"
    "rows_of None (groupRows cell_host by_length [1, 2, 3] tags ?cell) = [2]"
    by (simp_all only: spec ks) simp_all
  then show ?thesis by blast
qed

section \<open>One order on every device\<close>

text \<open>
  C30. The order of the rows of a view does not depend on the order they arrive in: two devices that hold the
  same rows show them in the same sequence, for any rules of the sort, when the comparison of texts
  and the fallback are preorders, the fallback separates any two rows, and no cell holds a number that is none.
\<close>

theorem views_are_sorted_alike:
  assumes "preorder_comparator lc" "preorder_comparator fallback"
    and "\<And>a b. a \<in> set rows \<Longrightarrow> b \<in> set rows \<Longrightarrow> fallback a b = 0 \<Longrightarrow> a = b"
    and "\<And>row p. row \<in> set rows \<Longrightarrow> cell row p \<noteq> CNumber NaN"
    and "mset rows = mset rows'"
  shows "sortRows host lc rows sorts defs cell fallback = sortRows host lc rows' sorts defs cell fallback"
proof -
  have same: "set rows' = set rows" using mset_eq_setD [OF assms(5)] by simp
  let ?order = "rows_order host lc cell fallback (fst (active_sorts host lc defs sorts))"
  have "sort_by ?order rows = sort_by ?order rows'"
  proof (rule preorder_comparator.cmp_sort_by_unique [OF rows_order_preorder [OF assms(1,2)] assms(5)])
    fix a b assume "a \<in> set rows" "b \<in> set rows" "?order a b = 0"
    moreover from this(3) have "fallback a b = 0" by (rule rows_order_fallback)
    ultimately show "a = b" using assms(3) by blast
  qed
  moreover have "fst (sortRows host lc rows sorts defs cell fallback) = sort_by ?order rows"
    by (rule sortRows_order) (rule assms(4))
  moreover have "fst (sortRows host lc rows' sorts defs cell fallback) = sort_by ?order rows'"
    by (rule sortRows_order) (simp add: same assms(4))
  ultimately have "fst (sortRows host lc rows sorts defs cell fallback) = fst (sortRows host lc rows' sorts defs cell fallback)"
    by simp
  moreover have "snd (sortRows host lc rows sorts defs cell fallback) = snd (sortRows host lc rows' sorts defs cell fallback)"
    by (simp add: sortRows_def split: prod.split)
  ultimately show ?thesis by (rule prod_eqI)
qed

definition by_tags :: "NoteSortRule list" where
  "by_tags = [\<lparr>sr_property = ''tags'', sr_direction = descending\<rparr>]"

theorem views_are_sorted_alike_witness:
  "\<exists>cell. sortRows cell_host by_length [1, 2, 3 :: nat] by_tags [''tags'' \<mapsto> tags] cell (\<lambda>a b. int a - int b) =
    sortRows cell_host by_length [3, 1, 2] by_tags [''tags'' \<mapsto> tags] cell (\<lambda>a b. int a - int b)"
proof -
  have "preorder_comparator by_length" "preorder_comparator (\<lambda>a b. int a - int b)"
    unfolding by_length_def by (rule int_preorder)+
  then show ?thesis
    using views_are_sorted_alike [of by_length "\<lambda>a b. int a - int b" "[1, 2, 3]" "\<lambda>n _. if n = 2 then CNull else CText ''a''" "[3, 1, 2]"]
    by (intro exI [of _ "\<lambda>n _. if n = 2 then CNull else CText ''a''"]) (auto split: if_splits)
qed

section \<open>Rules that were skipped\<close>

text \<open>Whether a rule is evaluated is said by the columns, not by the row.\<close>

definition evaluable :: "(string \<Rightarrow> NotePropertyDef option) \<Rightarrow> NoteFilterRule \<Rightarrow> bool" where
  "evaluable defs rule =
     (case defs (fr_property rule) of
        None \<Rightarrow> False
      | Some def \<Rightarrow> pd_type def \<in> set inherited \<or> fr_operator rule \<in> set (operatorsFor def))"

text \<open>A filter without the rules that cannot be evaluated.\<close>

fun pruned :: "(NoteFilterRule \<Rightarrow> bool) \<Rightarrow> NoteFilterNode \<Rightarrow> NoteFilterNode"
  and prune :: "(NoteFilterRule \<Rightarrow> bool) \<Rightarrow> NoteFilterNode list \<Rightarrow> NoteFilterNode list" where
  "pruned keep (Rule rule) = Rule rule"
| "pruned keep (Group c nodes) = Group c (prune keep nodes)"
| "prune keep [] = []"
| "prune keep (Rule rule # nodes) = (if keep rule then Rule rule # prune keep nodes else prune keep nodes)"
| "prune keep (Group c ns # nodes) = pruned keep (Group c ns) # prune keep nodes"

text \<open>Groups of which no rule is beyond the limit.\<close>

fun short_group :: "NoteFilterNode \<Rightarrow> bool" where
  "short_group (Rule rule) = True"
| "short_group (Group c nodes) = (length nodes \<le> MAX_FILTER_RULES \<and> list_all short_group nodes)"

lemma skipped_by_columns:
  "\<not> evaluable defs rule \<Longrightarrow> \<exists>s. evaluateFilterRule host (defs (fr_property rule)) v rule = Inr (Skipped s)"
  by (cases "defs (fr_property rule)") (auto simp: evaluable_def evaluateFilterRule_def)

lemma evaluated_by_columns:
  "evaluable defs rule \<Longrightarrow> evaluateFilterRule host (defs (fr_property rule)) v rule \<noteq> Inr (Skipped s)"
  by (auto simp: evaluable_def evaluateFilterRule_def Let_def split: option.splits sum.split)

definition unreported :: "js_exception + 'a \<times> SkippedRule list \<Rightarrow> js_exception + 'a \<times> SkippedRule list" where
  "unreported r = (case r of Inl e \<Rightarrow> Inl e | Inr (a, s) \<Rightarrow> Inr (a, []))"

lemma prune_length: "length (prune keep nodes) \<le> length nodes"
  by (induction keep nodes rule: pruned_prune.induct(2) [where P = "\<lambda>_ _. True"]) auto

lemma pruned_walk:
  "short_group node \<Longrightarrow> (case node of Rule rule \<Rightarrow> evaluable defs rule | _ \<Rightarrow> True) \<Longrightarrow>
     walk_node host defs cell depth (pruned (evaluable defs) node) = unreported (walk_node host defs cell depth node)"
  "list_all short_group nodes \<Longrightarrow> length nodes \<le> n \<Longrightarrow> length nodes \<le> m \<Longrightarrow>
     walk_nodes host defs cell depth m (prune (evaluable defs) nodes) = unreported (walk_nodes host defs cell depth n nodes)"
proof (induction host defs cell depth node and host defs cell depth n nodes arbitrary: and m rule: walk_node_walk_nodes.induct)
  case (1 host defs cell depth rule)
  then show ?case using evaluated_by_columns [of defs rule]
    by (auto simp: unreported_def split: sum.split RuleOutcome.split)
next
  case (2 host defs cell depth c nodes)
  show ?case
  proof (cases "depth > MAX_FILTER_DEPTH \<or> nodes = []")
    case True
    then show ?thesis by (auto simp: unreported_def)
  next
    case False
    have ih: "walk_nodes host defs cell (depth + 1) MAX_FILTER_RULES (prune (evaluable defs) nodes) =
        unreported (walk_nodes host defs cell (depth + 1) MAX_FILTER_RULES nodes)"
      using 2 False by simp
    show ?thesis
    proof (cases "prune (evaluable defs) nodes = []")
      case True
      then have "unreported (walk_nodes host defs cell (depth + 1) MAX_FILTER_RULES nodes) = Inr ([], [])" using ih by simp
      with False True show ?thesis
        by (auto simp: unreported_def combine_def split: sum.splits prod.splits)
    next
      case p: False
      with False ih show ?thesis by (auto simp: unreported_def split: sum.splits prod.splits)
    qed
  qed
next
  case (4 host defs cell depth n node nodes)
  then obtain m' where m: "m = Suc m'" "n \<noteq> 0" "length nodes \<le> n - 1" "length nodes \<le> m'" by (cases m) auto
  let ?nodes = "unreported (walk_nodes host defs cell depth (n - 1) nodes)"
  have rest: "walk_nodes host defs cell depth k (prune (evaluable defs) nodes) = ?nodes"
    if "walk_node host defs cell depth node = Inr (a, s)" "length nodes \<le> k" for k a s
    using "4.IH"(2) [OF m(2) that(1) refl _ m(3) that(2)] "4.prems"(1) by simp
  show ?case
  proof (cases "case node of Rule rule \<Rightarrow> evaluable defs rule | _ \<Rightarrow> True")
    case True
    then have p: "prune (evaluable defs) (node # nodes) = pruned (evaluable defs) node # prune (evaluable defs) nodes"
      by (cases node) simp_all
    have w: "walk_node host defs cell depth (pruned (evaluable defs) node) = unreported (walk_node host defs cell depth node)"
      using "4.IH"(1) [OF m(2) _ True] "4.prems"(1) by simp
    show ?thesis
    proof (cases "walk_node host defs cell depth node")
      case (Inl e)
      with w m show ?thesis by (simp add: p unreported_def)
    next
      case (Inr r)
      obtain a s where r: "r = (a, s)" by (cases r)
      from rest [OF _ m(4)] Inr r w m show ?thesis by (auto simp: p unreported_def split: sum.split prod.split)
    qed
  next
    case False
    then obtain rule where rule: "node = Rule rule" "\<not> evaluable defs rule" by (cases node) simp_all
    then obtain s where s: "walk_node host defs cell depth node = Inr ([], [s])"
      using skipped_by_columns [of defs rule host "cell (fr_property rule)"] by auto
    have "length nodes \<le> m" using "4.prems"(3) by simp
    from rest [OF s this] show ?thesis
      using rule m(2) s by (auto simp: unreported_def split: sum.split prod.split)
  qed
qed (auto simp: unreported_def)

text \<open>
  C31. A rule that this build cannot evaluate decides nothing: a filter matches exactly the rows that it matches
  without those rules, in every group and at every depth, an exception included, and whether a rule is one of
  them is said by the columns alone. Groups hold at most the 64 nodes the code reads.
\<close>

theorem skipped_rules_decide_nothing:
  assumes "short_group (Group c nodes)"
  shows "evaluateFilter host (Some (c, prune (evaluable defs) nodes)) defs cell =
    (case evaluateFilter host (Some (c, nodes)) defs cell of
       Inl e \<Rightarrow> Inl e | Inr out \<Rightarrow> Inr (out\<lparr>fo_skipped := []\<rparr>))"
proof -
  have "walk_node host defs cell 0 (Group c (prune (evaluable defs) nodes)) = unreported (walk_node host defs cell 0 (Group c nodes))"
    using pruned_walk(1) [OF assms, of defs host cell 0] by simp
  then show ?thesis by (simp add: evaluateFilter_def unreported_def del: walk_node.simps split: sum.split prod.split)
qed

theorem skipped_rules_decide_nothing_witness:
  "\<exists>out. evaluateFilter cell_host (Some (any_of, [Rule \<lparr>fr_property = ''tags'', fr_operator = op_is_empty, fr_value = CNull\<rparr>]))
      [''tags'' \<mapsto> tags] (\<lambda>_. CList [''a'']) = Inr out \<and> \<not> fo_matched out"
proof -
  let ?keep = "Rule \<lparr>fr_property = ''tags'', fr_operator = op_is_empty, fr_value = CNull\<rparr>"
  let ?odd = "Rule \<lparr>fr_property = ''gone'', fr_operator = op_is, fr_value = CNull\<rparr>"
  have p: "prune (evaluable [''tags'' \<mapsto> tags]) [?odd, ?keep] = [?keep]" by code_simp
  have "(case evaluateFilter cell_host (Some (any_of, [?odd, ?keep])) [''tags'' \<mapsto> tags] (\<lambda>_. CList [''a'']) of
      Inl e \<Rightarrow> True | Inr out \<Rightarrow> fo_matched out) = False" by code_simp
  then show ?thesis
    using skipped_rules_decide_nothing [of any_of "[?odd, ?keep]" cell_host "[''tags'' \<mapsto> tags]" "\<lambda>_. CList [''a'']"]
    unfolding p by (auto simp: MAX_FILTER_RULES_def split: sum.splits)
qed

section \<open>Where a view departs from its description\<close>

text \<open>A group of skipped rules is a match, so under an \<open>or\<close> it lets every row in, where the skipped rule itself does not.\<close>

lemma skipped_group_lets_every_row_in:
  assumes "defs p = None" "evaluateFilterRule host (defs q) (cell q) rule = Inr (Evaluated b)" "fr_property rule = q"
  defines "unread \<equiv> Rule \<lparr>fr_property = p, fr_operator = op_is, fr_value = CNull\<rparr>"
  shows "\<exists>s. evaluateFilter host (Some (any_of, [unread, Rule rule])) defs cell = Inr \<lparr>fo_matched = b, fo_skipped = s\<rparr>"
    "\<exists>s. evaluateFilter host (Some (any_of, [Group all_of [unread], Rule rule])) defs cell = Inr \<lparr>fo_matched = True, fo_skipped = s\<rparr>"
  using assms by (simp_all add: evaluateFilter_def evaluateFilterRule_def combine_def MAX_FILTER_DEPTH_def MAX_FILTER_RULES_def)

text \<open>A column whose type is the name of an inherited member makes every rule about it raise.\<close>

lemma inherited_type_raises:
  "pd_type def \<in> set inherited \<Longrightarrow> evaluateFilterRule host (Some def) v rule = Inl TypeError"
  by (simp add: evaluateFilterRule_def)

end
