(* ===== verification/Spec2Isabelle.thy ===== *)
theory Spec2Isabelle
  imports SurfaceSync BlockLease Trash QueueStrand DraftReconcile CaptureReading ChunkAdoption StreamingSafety ExecutionSafety WorkflowMap AuthorityCustody FormulaRoundtrip FormulaSafety RefSafety BacklinkSafety ViewSafety
begin

text \<open>
  BrainRouter: what must agree across devices, what must not lose a meeting, and what a run is
  allowed to do.

  \<^bold>\<open>Scope.\<close> The repository is a large TypeScript system: user interfaces, adapters to model
  providers and third-party services, a memory server over SQL, and a core package. The code that
  carries decisions of its own, rather than calls of services, is in \<open>packages/core/src\<close>. This
  development models eight parts of it, each as the code has it and in its order of definitions:
  the synchronisation layer (directories \<open>sync\<close>, \<open>planner\<close>, \<open>notes\<close>), the meeting capture
  (\<open>meetings\<close>), the execution map with its reducer (\<open>orchestration/execution/reducer.ts\<close> and
  \<open>packages/agent-protocol/src/executionMap.ts\<close>), the workflow graphs with the engine that runs
  them (\<open>workflow/graph\<close> and \<open>orchestration/execution/graphAdapter.ts\<close>), the authority to start
  a durable execution (\<open>orchestration/execution/authority.ts\<close>), the formula language of the
  databases in notes (\<open>notes/formula\<close>), the columns and views of those databases
  (\<open>notes/properties.ts\<close> and \<open>notes/databaseView.ts\<close>), and the references between surfaces with the
  index of backlinks (\<open>workspace/references\<close>).

  \<^bold>\<open>Conventions.\<close> A string is a HOL string of the UTF-8 bytes of the text, compared by code;
  lengths and slices of texts outside ASCII are therefore counted in bytes, and white space is the
  ASCII white space. A number the code only treats as an integer is an \<open>int\<close> or a \<open>nat\<close>; a number
  that may be fractional or not finite is a \<open>jsnum\<close> (or a \<open>number\<close> where the infinities and
  \<open>NaN\<close> must be told apart) and its finite values are exact rationals: the rounding of double
  precision is modelled for the formula language only (\<open>JsDouble\<close>). An object used as a dictionary is a finite map, or an association
  list where the order of insertion can be observed. An untyped value is a \<open>js\<close>. A raised error is
  the left side of a sum. What the platform or a library answers (the wall clock, \<open>Date.parse\<close>,
  \<open>localeCompare\<close>, fresh ids, powers and roots of numbers in formulas, the transport of the sync engine, the transcription endpoint) is a
  parameter, and a hypothesis on it is written in the statement that needs it.

  \<^bold>\<open>Shared theories.\<close> \<open>Prelude\<close> holds the values, the array operations and the interfaces;
  \<open>JsText\<close> joining, splitting and searching text; \<open>JsNumber\<close> the conversion of untyped values to
  numbers. The interfaces are locales, each interpreted on the definitions that provide it:
  \<^item> \<open>preorder_comparator\<close> and \<open>total_comparator\<close> (Prelude): what a comparison must satisfy for a
    sort to be a function of the set it sorts; interpreted for the clock (\<open>hlc_order\<close>, in
    HybridClock) and for sibling ranks (\<open>rank_order\<close>, in Rank).
  \<^item> \<open>merge_semilattice\<close> (Prelude): a merge that is commutative, associative and idempotent, so
    that folding it over deliveries depends only on their set; interpreted for the later of two
    stamped values (\<open>later\<close>, in Stamped).
  \<^item> \<open>sync_records\<close> (RecordSync): what the engine asks of a surface (a record is read back as
    written and no other changes; storing one touches neither the clock nor the queue nor the
    cursor); the engine's guarantees are proved once inside it, and it is
    interpreted for the planner (\<open>planner\<close>) and for the note blocks (\<open>note_blocks\<close>, both in
    SurfaceSync).
  \<^item> \<open>accounted_runner\<close> (WorkflowBudget): what a sub-workflow node relies on in the runner of the
    child graph (it gives back what it does not spend, numbers its emissions on, and says nothing
    of the status of the run); interpreted for every level of the engine (\<open>level_runner\<close>).

  \<^bold>\<open>Synchronisation.\<close> Devices edit offline and merge; nothing may be lost silently, and all devices
  must reach the same state.
  \<^item> \<open>HybridClock\<close> (\<open>sync/hybridClock.ts\<close>): the stamp, local events and receipts, the skew notice.
    A fleet of devices with arbitrary wall clocks: stamps respect causality and are unique.
  \<^item> \<open>Stamped\<close> (\<open>sync/stamped.ts\<close>): merging a stamped field, completion, text with its causal
    frontier, tombstones; convergence, and that a text merge loses no text without a marker.
  \<^item> \<open>Rank\<close> (\<open>notes/rank.ts\<close>): a rank strictly between two ranks, and sequences of them.
  \<^item> \<open>PlannerMerge\<close> (\<open>planner/itemMerge.ts\<close>), \<open>NoteBlock\<close> (\<open>notes/block.ts\<close>, \<open>comment.ts\<close>,
    \<open>properties.ts\<close>), \<open>BlockMerge\<close> (\<open>notes/blockMerge.ts\<close>): the records and their merges.
  \<^item> \<open>Outbox\<close> (\<open>sync/outbox.ts\<close>) and \<open>RecordSync\<close> (\<open>sync/recordSync.ts\<close>): the queue of local
    operations and the shed, pull, push cycle; \<open>SurfaceSync\<close> (\<open>planner/plannerSync.ts\<close>,
    \<open>notes/notesSync.ts\<close>) the two surfaces. The history of a queue (\<open>outbox_reaches\<close>: batches taken,
    late acknowledgements, shedding) keeps the order of each record; an operation leaves the queue
    only when the acknowledgement of the cycle's own batch accepted it or the cycle shed it with a
    notice; and a sync deletes no record.
  \<^item> \<open>BlockLease\<close> (\<open>notes/blockLease.ts\<close> and its callers in \<open>notes/noteStore.ts\<close>): the fencing lease of
    a block, and the history of its grants (\<open>lease_reaches\<close>) while locks are taken, kept, ended and
    swept. A swept block's tokens start again at one, which is why the order of tokens is stated for
    grants within the outbox's maximum age.
  \<^item> \<open>NoteTree\<close> and \<open>Trash\<close> (\<open>notes/noteTree.ts\<close>, \<open>notes/trash.ts\<close>): the forest over parent
    pointers, its repair, and what a deletion takes with it.

  \<^bold>\<open>Meeting capture.\<close> Audio arrives in durability chunks, is sealed into units, transcribed, and
  folded into the text a person edits; a crash at any point must leave all of it recoverable.
  \<^item> \<open>ChunkLedger\<close> (\<open>meetings/types.ts\<close>, \<open>chunkLedger.ts\<close>), \<open>CaptureSession\<close>
    (\<open>captureSession.ts\<close>), \<open>SessionValidation\<close> (\<open>sessionValidation.ts\<close>): the record, its
    transitions, the validator of a stored record. \<open>CaptureSafety\<close>: the validator accepts exactly
    the records with a consistent ledger, and every transition but one named append stays among them; closing claims
    every chunk; settled text is final; units respect the ceilings.
  \<^item> \<open>QueuePlan\<close> (\<open>retryPolicy.ts\<close>, \<open>queuePlan.ts\<close>) and \<open>TranscriptionQueue\<close>
    (\<open>transcriptionQueue.ts\<close>): what is attempted when, and the queue as a step function over
    events (a drain begins, a request is answered, a write lands; the host changes the session
    between them, the commits of streamed coverage included). \<open>QueueSafety\<close> holds its
    invariant, \<open>QueueRun\<close> the life of a queue over processes that end and start over from what is
    stored (\<open>queue_life\<close>) with the bounds on requests, \<open>QueueStrand\<close> a segment that is never
    attempted again.
  \<^item> \<open>Transcript\<close> (\<open>transcript.ts\<close>, \<open>capturePhase.ts\<close>, \<open>recovery.ts\<close>, \<open>retention.ts\<close>) and
    \<open>CaptureReading\<close>: what is shown, posted, offered back and deleted.
  \<^item> \<open>TranscriptFold\<close> (\<open>transcriptFold.ts\<close>, \<open>draftReconcile.ts\<close>) and \<open>DraftReconcile\<close>: the
    append-only fold does not depend on when it runs, and a restored box folds on; the later state
    is one that transitions of the capture lead to, and only the retry or late text of a segment
    that was given up on is excepted (\<open>revives_given_up\<close>).
  \<^item> \<open>ChunkAdoption\<close> (\<open>chunkAdoption.ts\<close>): which stored audio is believed after a crash.
  \<^item> \<open>StreamingTranscript\<close> and \<open>StreamingSafety\<close> (\<open>streamingTranscript.ts\<close>, \<open>streamCommit.ts\<close>):
    the reducer of wire events and the promotion of covered audio.

  \<^bold>\<open>Execution map.\<close> A run reports events; a store folds them into a snapshot.
  \<^item> \<open>ExecutionMap\<close> and \<open>ExecutionReducer\<close>: statuses, occurrences, the fold, the bounded store and
    its session operations. \<open>ExecutionSpec\<close>: the store implements "sort the distinct events, fold
    the prefix without a hole", so the order and the repetition of deliveries are invisible.
    \<open>ExecutionSafety\<close>: bounds and finality under every operation.

  \<^bold>\<open>Workflows.\<close> A graph of nodes is validated, ordered and run; agents, loaders and approvers are the
  host's.
  \<^item> \<open>WorkflowGraph\<close> (\<open>workflow/graph/graph.ts\<close>): the graph, the three-colour search, Kahn's
    algorithm, interpolation, the export without credentials. \<open>WorkflowOrder\<close>: the search decides
    acyclicity, and a validated graph has a run order with every edge forward.
  \<^item> \<open>WorkflowEngine\<close> and \<open>WorkflowRun\<close> (\<open>workflow/graph/graphEngine.ts\<close>): every node type, and the
    run of a graph. The state of a run (\<open>RunState\<close>) holds the calls made to the host, the budget
    left and the emissions; the host's answers are functions of the calls made before, so they are
    arbitrary; a throw is an \<open>Inl\<close>. The catch clause around a whole node is left out: nothing in
    its body can throw outside the attempt, which has its own.
  \<^item> \<open>WorkflowBudget\<close>: attempts and agent calls are paid for by the one budget, counted by the
    emissions and calls of the run. \<open>WorkflowRouting\<close>: which nodes run, what their records say,
    approvals as gates (\<open>approved_in_run\<close> looks the answer up in the calls of this very run), the
    depth guard.
  \<^item> \<open>WorkflowMap\<close> (\<open>orchestration/execution/graphAdapter.ts\<close>): emissions as events, and the
    status the snapshot of a finished run has when no optional node failed, which composes the engine
    with the specification of the store; concrete runs on which the map and the run disagree.

  \<^bold>\<open>Authority.\<close> A durable run starts only from a user's action, once.
  \<^item> \<open>ExecutionAuthority\<close>: owners, targets, intents and receipts as identities with maps from them,
    every operation of the module, the comparison key of a target. \<open>AuthoritySafety\<close>: histories of
    calls by anybody, and the invariant that ties each intent and receipt to the events behind it.
    \<open>AuthorityCustody\<close>: each is used at most once, an accepted dispatch has its whole chain behind
    it, and a wrong attempt is final.

  \<^bold>\<open>Formulas.\<close> An expression over the cells of a row arrives from other devices as text.
  \<^item> \<open>JsDouble\<close>: rounding to binary64 and the arithmetic on it. \<open>FormulaParse\<close>: values and errors,
    the scanner, the parser by precedence climbing. \<open>FormulaGrammar\<close>: the parser always answers, and
    a tree has at most one node for each term. \<open>FormulaRoundtrip\<close>: a printer with the fewest
    brackets, and that parsing its text gives the tree back. \<open>FormulaEval\<close>: the evaluator and its
    functions; looking up a property changes the state of the caller, which is passed along in the
    order of evaluation. \<open>FormulaSafety\<close>: what leaves the engine fits a cell, an error that is read
    comes out of the top, and the evaluator's bound on depth never refuses a parsed formula.

  \<^bold>\<open>Databases.\<close> A view filters, orders and groups the rows that a database has at the moment.
  \<^item> \<open>NoteProperties\<close>: columns, the coercion of a write to the type of its column, one line for a
    cell, the order of two cells, the groups of a row. \<open>CellSafety\<close>: what a write stores is in stored
    form (\<open>settled_list\<close> for lists), so writing it again changes nothing.
  \<^item> \<open>DatabaseView\<close>: filters as trees of rules, with what was skipped and why, sorts and groups.
    \<open>ViewSafety\<close>: the comparison of two rows is a preorder built from those of the cells
    (\<open>rows_order\<close>), so that a sort is the same on every device; a group holds exactly its rows; a
    rule that cannot be evaluated decides nothing.

  \<^bold>\<open>References.\<close> A note or a cell cites a thing of another surface by an address in its text.
  \<^item> \<open>WorkspaceRef\<close>: what parses as a reference, its canonical spelling and its key, with the white
    space outside ASCII and the decoding of UTF-8. \<open>RefSafety\<close>: the canonical spelling parses back,
    carries no markup, and tells targets apart.
  \<^item> \<open>Backlinks\<close>: references in prose, and the incremental index of what links where.
    \<open>BacklinkSafety\<close>: the index answers as one rebuilt from the contents (\<open>agrees\<close> relates an index
    to the contents; what a collation that ties distinct references leaves open is their order), and
    splitting a text into words and references loses nothing.

  \<^bold>\<open>Bounds and fuel.\<close> Loops are structural recursions or have a measure. Fuel appears where a walk
  follows parent pointers (NoteTree, Trash), with the number of blocks, which a walk that meets no
  block twice cannot exceed. The depth-first search is measured by its white nodes, the queue of
  Kahn's algorithm by the counts still positive and its length, and the nesting of workflows by the
  levels left under \<open>MAX_SUBWORKFLOW_DEPTH\<close>: at the last level the runner of a child is never used
  (\<open>nesting_ends_at_the_guard\<close>). The parser of formulas has a fuel of three calls for each token, and
  \<open>always_adequate\<close> shows that it never runs out. The constants of the code (outbox, lease, ledger, queue and store
  bounds) are kept as they are.

  \<^bold>\<open>Not modelled.\<close> User interfaces (desktop, dashboard, mobile, command line), the memory server
  (SQL and HTTP), the agent's turn loop and the provider adapters (calls of language models and
  tools), file, git, process and browser wrappers, connectors and plugins: their behaviour is that
  of services and platforms outside the repository. Of the core package the smaller pure parts that
  remain (reading a database from its blocks, routing tables, review ledgers) are candidates for
  extension; the manifest lists every part with its status.
\<close>

end
